(* ===== verification/Icfx_Prelude.thy ===== *)
theory Icfx_Prelude
  imports Main "HOL-Library.Word" "HOL-Library.Char_ord" "HOL-Library.List_Lexorder"
begin

text \<open>
  The shared ground of the development: bytes and strings, errors as values, the big-endian
  integers of encoding/binary, length framing as an interface, and in-memory readers and
  writers in the shape of package io.

  \<^item> A Go \<^verbatim>\<open>string\<close> and a Go \<^verbatim>\<open>[]byte\<close> are both a list of \<^typ>\<open>char\<close>: an Isabelle character
    is one byte, so \<^const>\<open>length\<close> counts bytes as Go's \<^verbatim>\<open>len\<close> does.
  \<^item> An \<^verbatim>\<open>error\<close> is a value of \<open>go_error\<close>: a package-level sentinel, an \<^verbatim>\<open>fmt.Errorf\<close> without
    \<^verbatim>\<open>%w\<close> (its format string; the formatted arguments are not kept), one that wraps
    another, or the structured error of the cloud service (status, code, current version). A Go result \<^verbatim>\<open>(T, error)\<close> is \<open>go_error + T\<close>.
\<close>

section \<open>Bytes, strings and errors\<close>

type_synonym bytes = string

datatype go_error = Sentinel string | Errorf string | Wrap string go_error | APIError nat string int

type_synonym 'a result = "go_error + 'a"

text \<open>errors.Is: the error itself or one it wraps.\<close>

fun errors_is :: "go_error \<Rightarrow> go_error \<Rightarrow> bool" where
  "errors_is (Wrap m e) t = (Wrap m e = t \<or> errors_is e t)"
| "errors_is e t = (e = t)"

text \<open>The idiom \<^verbatim>\<open>if err != nil { return fmt.Errorf("m: %w", err) }\<close> around a fallible call.\<close>

fun wrapping :: "string \<Rightarrow> 'a result \<Rightarrow> 'a result" where
  "wrapping m (Inl e) = Inl (Wrap m e)"
| "wrapping m (Inr v) = Inr v"

text \<open>Sequencing: stop at the first error.\<close>

fun andthen :: "'a result \<Rightarrow> ('a \<Rightarrow> 'b result) \<Rightarrow> 'b result" where
  "andthen (Inl e) f = Inl e"
| "andthen (Inr v) f = f v"

named_theorems go_defs \<open>definitions of the operations, unfolded when a property is proved\<close>
named_theorems go_dest \<open>what a successful call tells about its arguments\<close>

abbreviation is_ok :: "'a result \<Rightarrow> bool" where
  "is_ok r \<equiv> (\<exists>v. r = Inr v)"

text \<open>Calls that change a state and may fail: the state after, and the result.\<close>

definition sbind :: "'s \<times> 'a result \<Rightarrow> ('a \<Rightarrow> 's \<Rightarrow> 's \<times> 'b result) \<Rightarrow> 's \<times> 'b result" where
  "sbind m f = (case m of (s, Inl e) \<Rightarrow> (s, Inl e) | (s, Inr a) \<Rightarrow> f a s)"

definition swrap :: "string \<Rightarrow> 's \<times> 'a result \<Rightarrow> 's \<times> 'a result" where
  "swrap fmt m = (fst m, wrapping fmt (snd m))"

lemma sbind_simps [simp]: "sbind (s, Inl e) f = (s, Inl e)" "sbind (s, Inr a) f = f a s"
  by (simp_all add: sbind_def)

lemma swrap_simps [simp]: "swrap m (s, Inl e) = (s, Inl (Wrap m e))" "swrap m (s, Inr a) = (s, Inr a)"
  by (simp_all add: swrap_def)

lemma sbind_Inr_iff: "sbind m f = (s', Inr b) \<longleftrightarrow> (\<exists>s a. m = (s, Inr a) \<and> f a s = (s', Inr b))"
  by (cases m; cases "snd m") auto

lemma sbind_Inl_iff:
  "sbind m f = (s', Inl e) \<longleftrightarrow> m = (s', Inl e) \<or> (\<exists>s a. m = (s, Inr a) \<and> f a s = (s', Inl e))"
  by (cases m; cases "snd m") auto

lemma swrap_Inr_iff [simp]: "swrap m x = (s, Inr a) \<longleftrightarrow> x = (s, Inr a)"
  by (cases x; cases "snd x") auto

lemma wrapping_Inr_iff [simp]: "wrapping m r = Inr v \<longleftrightarrow> r = Inr v"
  by (cases r) auto

lemma wrapping_Inl_iff [simp]: "wrapping m r = Inl e \<longleftrightarrow> (\<exists>e'. r = Inl e' \<and> e = Wrap m e')"
  by (cases r) auto

lemma andthen_Inr_iff [simp]: "andthen r f = Inr v \<longleftrightarrow> (\<exists>u. r = Inr u \<and> f u = Inr v)"
  by (cases r) auto

lemma andthen_Inl_iff:
  "andthen r f = Inl e \<longleftrightarrow> r = Inl e \<or> (\<exists>u. r = Inr u \<and> f u = Inl e)"
  by (cases r) auto

lemma errors_is_refl [simp]: "errors_is e e"
  by (cases e) auto

lemma errors_is_Wrap [intro]: "errors_is e t \<Longrightarrow> errors_is (Wrap m e) t"
  by simp

section \<open>Big-endian integers\<close>

text \<open>
  \<open>be_put k n\<close> writes the low \<open>k\<close> bytes of \<open>n\<close>, most significant first; \<open>be_get\<close> reads them
  back. binary.BigEndian.PutUint16 and PutUint64 are the two widths the formats use.
\<close>

lemma of_char_lt_256: "(of_char c :: nat) < 256"
  using nat_of_char_less_256 [of c] .

lemma char_of_mod_256: "(char_of (n * 256 + of_char c) :: char) = c" for n :: nat
  using of_char_lt_256 [of c] by (simp add: char_of_eq_iff take_bit_eq_mod)

primrec be_put :: "nat \<Rightarrow> nat \<Rightarrow> bytes" where
  "be_put 0 n = []"
| "be_put (Suc k) n = char_of (n div 256 ^ k) # be_put k n"

definition be_get :: "bytes \<Rightarrow> nat" where
  "be_get bs = foldl (\<lambda>a c. a * 256 + of_char c) 0 bs"

definition put_uint16 :: "16 word \<Rightarrow> bytes" where
  "put_uint16 w = be_put 2 (unat w)"

definition put_uint32 :: "32 word \<Rightarrow> bytes" where
  "put_uint32 w = be_put 4 (unat w)"

definition put_uint64 :: "64 word \<Rightarrow> bytes" where
  "put_uint64 w = be_put 8 (unat w)"

definition get_uint16 :: "bytes \<Rightarrow> 16 word" where
  "get_uint16 bs = of_nat (be_get bs)"

definition get_uint32 :: "bytes \<Rightarrow> 32 word" where
  "get_uint32 bs = of_nat (be_get bs)"

definition get_uint64 :: "bytes \<Rightarrow> 64 word" where
  "get_uint64 bs = of_nat (be_get bs)"

lemma length_be_put [simp]: "length (be_put k n) = k"
  by (induction k) auto

lemma foldl_be:
  "foldl (\<lambda>a c. a * 256 + of_char c) acc (be_put k n) = acc * 256 ^ k + n mod 256 ^ k"
  for acc n :: nat
proof (induction k arbitrary: acc)
  case 0
  then show ?case by simp
next
  case (Suc k)
  have "foldl (\<lambda>a c. a * 256 + of_char c) acc (be_put (Suc k) n)
      = (acc * 256 + n div 256 ^ k mod 256) * 256 ^ k + n mod 256 ^ k"
    by (simp add: Suc.IH)
  also have "\<dots> = acc * 256 ^ Suc k + (256 ^ k * (n div 256 ^ k mod 256) + n mod 256 ^ k)"
    by (simp add: algebra_simps)
  also have "256 ^ k * (n div 256 ^ k mod 256) + n mod 256 ^ k = n mod 256 ^ Suc k"
    using mod_mult2_eq [of n "256 ^ k" 256] by (simp add: mult.commute)
  finally show ?case .
qed

lemma be_get_put: "be_get (be_put k n) = n mod 256 ^ k"
  by (simp add: be_get_def foldl_be)

lemma be_get_snoc: "be_get (bs @ [c]) = be_get bs * 256 + of_char c"
  by (simp add: be_get_def)

lemma be_get_less: "be_get bs < 256 ^ length bs"
proof (induction bs rule: rev_induct)
  case Nil
  then show ?case by (simp add: be_get_def)
next
  case (snoc c bs)
  have "be_get bs * 256 + of_char c < (be_get bs + 1) * 256"
    using of_char_lt_256 [of c] by simp
  also have "\<dots> \<le> 256 ^ length bs * 256"
    using snoc by (intro mult_right_mono) simp_all
  finally show ?case by (simp add: be_get_snoc mult.commute)
qed

lemma be_put_get: "be_put (length bs) (be_get bs) = bs"
proof (rule nth_equalityI)
  show "length (be_put (length bs) (be_get bs)) = length bs" by simp
next
  fix i
  assume "i < length (be_put (length bs) (be_get bs))"
  then have i: "i < length bs" by simp
  have put: "j < k \<Longrightarrow> be_put k n ! j = char_of (n div 256 ^ (k - 1 - j))" for j k n
    by (induction k arbitrary: j) (auto simp: nth_Cons split: nat.split)
  have get: "j < length cs \<Longrightarrow> char_of (be_get cs div 256 ^ (length cs - 1 - j)) = cs ! j" for j cs
  proof (induction cs rule: rev_induct)
    case (snoc c cs)
    show ?case
    proof (cases "j = length cs")
      case True
      then show ?thesis by (simp add: be_get_snoc char_of_mod_256)
    next
      case False
      with snoc.prems have j: "j < length cs" by simp
      then have "length (cs @ [c]) - 1 - j = Suc (length cs - 1 - j)" by simp
      then have "be_get (cs @ [c]) div 256 ^ (length (cs @ [c]) - 1 - j)
          = (be_get cs * 256 + of_char c) div 256 div 256 ^ (length cs - 1 - j)"
        by (simp add: be_get_snoc div_mult2_eq)
      also have "(be_get cs * 256 + of_char c) div 256 = be_get cs"
        using of_char_lt_256 [of c] by simp
      finally show ?thesis using snoc.IH [OF j] j by (simp add: nth_append)
    qed
  qed simp
  show "be_put (length bs) (be_get bs) ! i = bs ! i" using put [OF i] get [OF i] by simp
qed

lemma length_put_uint [simp]:
  "length (put_uint16 w) = 2" "length (put_uint32 x) = 4" "length (put_uint64 y) = 8"
  by (simp_all add: put_uint16_def put_uint32_def put_uint64_def)

lemma unat_lt_16: "unat (w :: 16 word) < 65536"
  using unsigned_less [where ?'a = nat, of w] by simp

lemma unat_lt_32: "unat (w :: 32 word) < 4294967296"
  using unsigned_less [where ?'a = nat, of w] by simp

lemma unat_lt_64: "unat (w :: 64 word) < 18446744073709551616"
  using unsigned_less [where ?'a = nat, of w] by simp

lemma get_put_uint16 [simp]: "get_uint16 (put_uint16 w) = w"
  using unat_lt_16 [of w] by (simp add: get_uint16_def put_uint16_def be_get_put)

lemma get_put_uint32 [simp]: "get_uint32 (put_uint32 w) = w"
  using unat_lt_32 [of w] by (simp add: get_uint32_def put_uint32_def be_get_put)

lemma get_put_uint64 [simp]: "get_uint64 (put_uint64 w) = w"
  using unat_lt_64 [of w] by (simp add: get_uint64_def put_uint64_def be_get_put)

lemma put_get_uint [simp]:
  "length bs = 2 \<Longrightarrow> put_uint16 (get_uint16 bs) = bs"
  "length bs = 4 \<Longrightarrow> put_uint32 (get_uint32 bs) = bs"
  "length bs = 8 \<Longrightarrow> put_uint64 (get_uint64 bs) = bs"
  using be_get_less [of bs] be_put_get [of bs]
  by (simp_all add: put_uint16_def get_uint16_def put_uint32_def get_uint32_def put_uint64_def get_uint64_def
      unat_of_nat)

lemma unat_of_nat_16 [simp]: "n < 65536 \<Longrightarrow> unat (of_nat n :: 16 word) = n"
  by (simp add: unat_of_nat)

lemma unat_of_nat_64 [simp]: "n < 18446744073709551616 \<Longrightarrow> unat (of_nat n :: 64 word) = n"
  by (simp add: unat_of_nat)

lemma put_uint64_inject [simp]: "put_uint64 v = put_uint64 w \<longleftrightarrow> v = w"
  using get_put_uint64 by metis

section \<open>Length framing as an interface\<close>

text \<open>
  A field writer whose output can be recognised as a prefix: equal concatenations come from
  equal fields. The canonical byte strings that icfx signs are concatenations of such fields;
  the lemmas below are proved once for every package's own copy of \<^verbatim>\<open>writeField\<close>.
\<close>

locale framing =
  fixes field :: "bytes \<Rightarrow> bytes"
    and fits :: "bytes \<Rightarrow> bool"
  assumes field_split: "fits a \<Longrightarrow> fits b \<Longrightarrow> field a @ x = field b @ y \<Longrightarrow> a = b \<and> x = y"
    and field_nonempty: "field a \<noteq> []"
begin

lemma fields_inject:
  assumes "concat (map field xs) = concat (map field ys)"
    and "\<forall>a\<in>set xs. fits a" and "\<forall>b\<in>set ys. fits b"
  shows "xs = ys"
  using assms
proof (induction xs arbitrary: ys)
  case Nil
  then show ?case by (cases ys) (auto simp: field_nonempty)
next
  case (Cons a xs)
  show ?case
  proof (cases ys)
    case Nil
    with Cons.prems show ?thesis by (simp add: field_nonempty)
  next
    case (Cons b zs)
    with Cons.prems have "a = b \<and> concat (map field xs) = concat (map field zs)"
      by (intro field_split) auto
    with Cons Cons.prems Cons.IH [of zs] show ?thesis by simp
  qed
qed

lemma tag_separates:
  assumes "fits s" "fits t" "s \<noteq> t"
  shows "field s @ x \<noteq> field t @ y"
  using field_split [OF assms(1,2)] assms(3) by blast

end

section \<open>Readers and writers\<close>

text \<open>
  An \<^verbatim>\<open>io.ReadSeeker\<close> over a byte source (bytes.Reader, an open file): the bytes and the read
  offset. A read past the end is io.EOF, a short \<^verbatim>\<open>io.ReadFull\<close> is io.ErrUnexpectedEOF.
\<close>

record reader =
  rd_data :: bytes
  rd_pos :: nat

definition EOF_err :: go_error where "EOF_err = Sentinel ''EOF''"

definition ErrUnexpectedEOF :: go_error where "ErrUnexpectedEOF = Sentinel ''unexpected EOF''"

definition new_reader :: "bytes \<Rightarrow> reader" where
  "new_reader bs = \<lparr>rd_data = bs, rd_pos = 0\<rparr>"

definition unread :: "reader \<Rightarrow> bytes" where
  "unread r = drop (rd_pos r) (rd_data r)"

definition ReadFull :: "reader \<Rightarrow> nat \<Rightarrow> (bytes \<times> reader) result" where
  "ReadFull r n =
     (let got = take n (unread r)
      in if length got = n then Inr (got, r\<lparr>rd_pos := rd_pos r + n\<rparr>)
         else Inl (if got = [] then EOF_err else ErrUnexpectedEOF))"

definition SeekStart :: "reader \<Rightarrow> int \<Rightarrow> reader result" where
  "SeekStart r off = (if off < 0 then Inl (Errorf ''negative position'') else Inr (r\<lparr>rd_pos := nat off\<rparr>))"

lemma unread_new [simp]: "unread (new_reader bs) = bs"
  by (simp add: unread_def new_reader_def)

lemma unread_seek [simp]: "unread (r\<lparr>rd_pos := n\<rparr>) = drop n (rd_data r)"
  by (simp add: unread_def)

lemma rd_new [simp]: "rd_data (new_reader bs) = bs" "rd_pos (new_reader bs) = 0"
  by (simp_all add: new_reader_def)

lemma ReadFull_Inr_iff:
  "ReadFull r n = Inr (b, r') \<longleftrightarrow>
     n \<le> length (unread r) \<and> b = take n (unread r) \<and> r' = r\<lparr>rd_pos := rd_pos r + n\<rparr>"
  by (auto simp: ReadFull_def Let_def)

lemma ReadFull_exact:
  assumes "unread r = a @ rest" "length a = n"
  shows "ReadFull r n = Inr (a, r\<lparr>rd_pos := rd_pos r + n\<rparr>)"
  using assms by (simp add: ReadFull_def Let_def)

lemma unread_advance:
  assumes "unread r = a @ rest"
  shows "unread (r\<lparr>rd_pos := rd_pos r + length a\<rparr>) = rest"
proof -
  have "drop (rd_pos r + length a) (rd_data r) = drop (length a) (unread r)"
    by (simp add: unread_def add.commute)
  with assms show ?thesis by (simp add: unread_def)
qed

text \<open>
  An \<^verbatim>\<open>io.Writer\<close>: the bytes accepted so far and, for a destination that can fail (a full
  disk), how many bytes it accepts in all. A write that does not fit accepts what does and
  returns an error; \<open>None\<close> is a writer that never fails, such as bytes.Buffer.
\<close>

record writer =
  w_out :: bytes
  w_cap :: "nat option"

definition write_err :: go_error where "write_err = Sentinel ''short write''"

definition new_buffer :: writer where
  "new_buffer = \<lparr>w_out = [], w_cap = None\<rparr>"

definition Write :: "writer \<Rightarrow> bytes \<Rightarrow> writer \<times> unit result" where
  "Write w bs =
     (case w_cap w of
        None \<Rightarrow> (w\<lparr>w_out := w_out w @ bs\<rparr>, Inr ())
      | Some c \<Rightarrow>
          (if length (w_out w) + length bs \<le> c then (w\<lparr>w_out := w_out w @ bs\<rparr>, Inr ())
           else (w\<lparr>w_out := w_out w @ take (c - length (w_out w)) bs\<rparr>, Inl write_err)))"

text \<open>A sequence of writes, stopping at the first that fails.\<close>

fun WriteAll :: "writer \<Rightarrow> bytes list \<Rightarrow> writer \<times> unit result" where
  "WriteAll w [] = (w, Inr ())"
| "WriteAll w (b # bs) =
     (case Write w b of (w', Inl e) \<Rightarrow> (w', Inl e) | (w', Inr u) \<Rightarrow> WriteAll w' bs)"

lemma w_out_new_buffer [simp]: "w_out new_buffer = []" "w_cap new_buffer = None"
  by (simp_all add: new_buffer_def)

lemma Write_ok: "Write w bs = (w', Inr u) \<Longrightarrow> w_out w' = w_out w @ bs \<and> w_cap w' = w_cap w"
  by (auto simp: Write_def split: option.splits if_splits)

lemma Write_unbounded [simp]:
  "w_cap w = None \<Longrightarrow> Write w bs = (w\<lparr>w_out := w_out w @ bs\<rparr>, Inr ())"
  by (simp add: Write_def)

lemma Write_prefix: "Write w bs = (w', r) \<Longrightarrow> \<exists>k. w_out w' = w_out w @ take k bs"
  by (auto simp: Write_def split: option.splits if_splits intro: exI [of _ "length bs"])

lemma WriteAll_ok:
  "WriteAll w bs = (w', Inr u) \<Longrightarrow> w_out w' = w_out w @ concat bs"
  by (induction bs arbitrary: w)
    (auto dest: Write_ok split: prod.splits sum.splits)

lemma WriteAll_unbounded:
  "w_cap w = None \<Longrightarrow> WriteAll w bs = (w\<lparr>w_out := w_out w @ concat bs\<rparr>, Inr ())"
  by (induction bs arbitrary: w) auto

end
