(* ===== verification/Icfx_Text.thy ===== *)
theory Icfx_Text
  imports Icfx_Prelude
begin

text \<open>
  The parts of Go's unicode/utf8, strings, encoding/hex and strconv that icfx calls, on byte
  strings: decoding runes (with RuneError for an invalid byte), white space, prefixes,
  splitting and joining, case folding, hexadecimal and decimal. The Unicode case tables for
  runes beyond ASCII are parameters (\<open>ulow\<close>, \<open>ufold\<close>).
\<close>

section \<open>UTF-8\<close>

lemma of_char_lt [simp]: "(of_char c :: nat) < 256"
  by (metis of_char_mod_256 mod_less_divisor zero_less_numeral)

lemma char_of_lt_eq: "n < 256 \<Longrightarrow> char_of (n :: nat) = c \<longleftrightarrow> n = of_char c"
  by (metis char_of_char of_char_of mod_less)

lemma eq_char_of: "n < 256 \<Longrightarrow> c = char_of (n :: nat) \<longleftrightarrow> n = of_char c"
  using char_of_lt_eq [of n c] by (metis (no_types))

definition RuneError :: nat where "RuneError = 65533"

definition cont_byte :: "nat \<Rightarrow> bool" where "cont_byte b \<longleftrightarrow> 128 \<le> b \<and> b \<le> 191"

text \<open>The range of the second byte depends on the first (no overlong forms, no surrogates).\<close>

definition lo2 :: "nat \<Rightarrow> nat" where
  "lo2 b0 = (if b0 = 224 then 160 else if b0 = 240 then 144 else 128)"

definition hi2 :: "nat \<Rightarrow> nat" where
  "hi2 b0 = (if b0 = 237 then 159 else if b0 = 244 then 143 else 191)"

text \<open>utf8.DecodeRune: the first rune and its width; an invalid byte is RuneError, width 1.\<close>

definition decode_rune :: "bytes \<Rightarrow> nat \<times> nat" where
  "decode_rune s = (case map of_char s of
       [] \<Rightarrow> (RuneError, 0)
     | b0 # t \<Rightarrow>
        if b0 < 128 then (b0, 1)
        else if 194 \<le> b0 \<and> b0 \<le> 223 then
          (case t of b1 # _ \<Rightarrow>
             if cont_byte b1 then ((b0 - 192) * 64 + (b1 - 128), 2) else (RuneError, 1)
           | _ \<Rightarrow> (RuneError, 1))
        else if 224 \<le> b0 \<and> b0 \<le> 239 then
          (case t of b1 # b2 # _ \<Rightarrow>
             if lo2 b0 \<le> b1 \<and> b1 \<le> hi2 b0 \<and> cont_byte b2
             then ((b0 - 224) * 4096 + (b1 - 128) * 64 + (b2 - 128), 3) else (RuneError, 1)
           | _ \<Rightarrow> (RuneError, 1))
        else if 240 \<le> b0 \<and> b0 \<le> 244 then
          (case t of b1 # b2 # b3 # _ \<Rightarrow>
             if lo2 b0 \<le> b1 \<and> b1 \<le> hi2 b0 \<and> cont_byte b2 \<and> cont_byte b3
             then ((b0 - 240) * 262144 + (b1 - 128) * 4096 + (b2 - 128) * 64 + (b3 - 128), 4)
             else (RuneError, 1)
           | _ \<Rightarrow> (RuneError, 1))
        else (RuneError, 1))"

text \<open>utf8.EncodeRune.\<close>

definition encode_rune :: "nat \<Rightarrow> bytes" where
  "encode_rune r =
     map char_of
      (if r < 128 then [r]
       else if r < 2048 then [192 + r div 64, 128 + r mod 64]
       else if (55296 \<le> r \<and> r \<le> 57343) \<or> 1114111 < r then [239, 191, 189]
       else if r < 65536 then [224 + r div 4096, 128 + r div 64 mod 64, 128 + r mod 64]
       else [240 + r div 262144, 128 + r div 4096 mod 64, 128 + r div 64 mod 64, 128 + r mod 64])"

lemma decode_rune_width:
  "s \<noteq> [] \<Longrightarrow> 1 \<le> snd (decode_rune s) \<and> snd (decode_rune s) \<le> length s"
  by (cases s; cases "tl s"; cases "tl (tl s)"; cases "tl (tl (tl s))") (simp_all add: decode_rune_def)

text \<open>The runes a \<^verbatim>\<open>for range\<close> over a string visits, each with the bytes it was decoded from.\<close>

function runes :: "bytes \<Rightarrow> (nat \<times> bytes) list" where
  "runes s = (if s = [] then []
     else (fst (decode_rune s), take (snd (decode_rune s)) s) # runes (drop (snd (decode_rune s)) s))"
  by pat_completeness auto
termination
  by (relation "measure length") (use decode_rune_width in fastforce)+

declare runes.simps [simp del]

lemma runes_Nil [simp]: "runes [] = []"
  by (simp add: runes.simps)

definition bad_chunk :: "nat \<times> bytes \<Rightarrow> bool" where
  "bad_chunk c \<longleftrightarrow> fst c = RuneError \<and> length (snd c) = 1"

definition valid_utf8 :: "bytes \<Rightarrow> bool" where
  "valid_utf8 s = list_all (\<lambda>c. \<not> bad_chunk c) (runes s)"

lemma concat_runes: "concat (map snd (runes s)) = s"
proof (induction s rule: runes.induct)
  case (1 s)
  then show ?case by (simp add: runes.simps [of s])
qed

lemma decode_rune_ascii: "of_char c < (128 :: nat) \<Longrightarrow> decode_rune (c # s) = (of_char c, 1)"
  by (simp add: decode_rune_def)

lemma runes_ascii:
  "of_char c < (128 :: nat) \<Longrightarrow> runes (c # s) = (of_char c, [c]) # runes s"
  by (simp add: runes.simps [of "c # s"] decode_rune_ascii)

text \<open>The shapes a decoded rune can have.\<close>

lemma decode_rune_shape:
  assumes dec: "decode_rune (c0 # s0) = (r, n)"
  obtains (one) "of_char c0 < (128 :: nat)" "r = of_char c0" "n = 1"
    | (bad) "128 \<le> (of_char c0 :: nat)" "r = RuneError" "n = 1"
    | (two) c1 s1 where "s0 = c1 # s1" "194 \<le> (of_char c0 :: nat)" "of_char c0 \<le> (223 :: nat)"
        "cont_byte (of_char c1)" "r = (of_char c0 - 192) * 64 + (of_char c1 - 128)" "n = 2"
    | (three) c1 c2 s1 where "s0 = c1 # c2 # s1" "224 \<le> (of_char c0 :: nat)" "of_char c0 \<le> (239 :: nat)"
        "lo2 (of_char c0) \<le> of_char c1" "of_char c1 \<le> hi2 (of_char c0)" "cont_byte (of_char c2)"
        "r = (of_char c0 - 224) * 4096 + (of_char c1 - 128) * 64 + (of_char c2 - 128)" "n = 3"
    | (four) c1 c2 c3 s1 where "s0 = c1 # c2 # c3 # s1" "240 \<le> (of_char c0 :: nat)" "of_char c0 \<le> (244 :: nat)"
        "lo2 (of_char c0) \<le> of_char c1" "of_char c1 \<le> hi2 (of_char c0)" "cont_byte (of_char c2)"
        "cont_byte (of_char c3)"
        "r = (of_char c0 - 240) * 262144 + (of_char c1 - 128) * 4096 + (of_char c2 - 128) * 64 + (of_char c3 - 128)"
        "n = 4"
proof -
  let ?b0 = "of_char c0 :: nat"
  consider (a1) "?b0 < 128" | (a2) "194 \<le> ?b0" "?b0 \<le> 223" | (a3) "224 \<le> ?b0" "?b0 \<le> 239"
    | (a4) "240 \<le> ?b0" "?b0 \<le> 244"
    | (no) "\<not> ?b0 < 128" "\<not> (194 \<le> ?b0 \<and> ?b0 \<le> 223)" "\<not> (224 \<le> ?b0 \<and> ?b0 \<le> 239)"
        "\<not> (240 \<le> ?b0 \<and> ?b0 \<le> 244)"
    by linarith
  then show thesis
  proof cases
    case a1
    with dec show thesis by (intro one) (auto simp: decode_rune_def)
  next
    case a2
    then have nb: "128 \<le> ?b0" "\<not> ?b0 < 128" by auto
    show thesis
    proof (cases s0)
      case Nil
      with a2 nb dec show thesis by (intro bad) (auto simp: decode_rune_def)
    next
      case (Cons c1 s1)
      with a2 nb dec two [OF Cons a2] bad show thesis
        by (cases "cont_byte (of_char c1)") (auto simp: decode_rune_def)
    qed
  next
    case a3
    then have nb: "128 \<le> ?b0" "\<not> ?b0 < 128" "\<not> ?b0 \<le> 223" by auto
    show thesis
    proof (cases "2 \<le> length s0")
      case False
      with a3 nb dec show thesis by (cases s0; cases "tl s0") (auto simp: decode_rune_def intro!: bad)
    next
      case True
      then obtain c1 c2 s1 where s0: "s0 = c1 # c2 # s1" by (cases s0; cases "tl s0") auto
      with a3 nb dec three [OF s0 a3] bad show thesis
        by (cases "lo2 ?b0 \<le> of_char c1 \<and> of_char c1 \<le> hi2 ?b0 \<and> cont_byte (of_char c2)")
          (auto simp: decode_rune_def)
    qed
  next
    case a4
    then have nb: "128 \<le> ?b0" "\<not> ?b0 < 128" "\<not> ?b0 \<le> 223" "\<not> ?b0 \<le> 239" by auto
    show thesis
    proof (cases "3 \<le> length s0")
      case False
      with a4 nb dec show thesis
        by (cases s0; cases "tl s0"; cases "tl (tl s0)") (auto simp: decode_rune_def intro!: bad)
    next
      case True
      then obtain c1 c2 c3 s1 where s0: "s0 = c1 # c2 # c3 # s1"
        by (cases s0; cases "tl s0"; cases "tl (tl s0)") auto
      with a4 nb dec four [OF s0 a4] bad show thesis
        by (cases "lo2 ?b0 \<le> of_char c1 \<and> of_char c1 \<le> hi2 ?b0 \<and> cont_byte (of_char c2) \<and> cont_byte (of_char c3)")
          (auto simp: decode_rune_def)
    qed
  next
    case no
    with dec show thesis by (intro bad) (auto simp: decode_rune_def)
  qed
qed

text \<open>What a decoded rune depends on is its own bytes.\<close>

lemma decode_rune_local:
  assumes dec: "decode_rune s = (r, n)" and ne: "s \<noteq> []" and ok: "\<not> (r = RuneError \<and> n = 1)"
  shows "decode_rune (take n s @ t) = (r, n)"
proof -
  obtain c0 s0 where s: "s = c0 # s0" using ne by (cases s) auto
  from dec [unfolded s] show ?thesis
    by (cases rule: decode_rune_shape) (use s ok in \<open>simp_all add: decode_rune_def\<close>)
qed

text \<open>A rune at or above 128 is made of bytes at or above 128.\<close>

lemma decode_rune_bytes:
  assumes dec: "decode_rune s = (r, n)" and ne: "s \<noteq> []"
  shows "(r < 128 \<longrightarrow> take n s = [char_of r]) \<and> (128 \<le> r \<longrightarrow> (\<forall>c\<in>set (take n s). 128 \<le> (of_char c :: nat)))"
proof -
  obtain c0 s0 where s: "s = c0 # s0" using ne by (cases s) auto
  from dec [unfolded s] show ?thesis
  proof (cases rule: decode_rune_shape)
    case (three c1 c2 s1)
    then have "128 \<le> (of_char c1 :: nat)" by (auto simp: lo2_def split: if_splits)
    moreover from this three have "128 \<le> r"
      by (auto simp: lo2_def split: if_splits)
    ultimately show ?thesis using three s by (simp add: cont_byte_def)
  next
    case (four c1 c2 c3 s1)
    then have "128 \<le> (of_char c1 :: nat)" by (auto simp: lo2_def split: if_splits)
    moreover from this four have "128 \<le> r"
      by (auto simp: lo2_def split: if_splits)
    ultimately show ?thesis using four s by (simp add: cont_byte_def)
  qed (use s in \<open>auto simp: cont_byte_def RuneError_def\<close>)
qed

lemma decode_rune_sep:
  assumes "decode_rune s = (r, n)" "s \<noteq> []" "r = 8232 \<or> r = 8233"
  shows "take n s = encode_rune r"
proof -
  obtain c0 s0 where s: "s = c0 # s0" using assms(2) by (cases s) auto
  from assms(1) [unfolded s] show ?thesis
  proof (cases rule: decode_rune_shape)
    case (three c1 c2 s1)
    then have b: "128 \<le> (of_char c1 :: nat)" "of_char c1 \<le> (191 :: nat)"
        "128 \<le> (of_char c2 :: nat)" "of_char c2 \<le> (191 :: nat)"
      by (auto simp: lo2_def hi2_def cont_byte_def split: if_splits)
    with three assms(3) have b0: "of_char c0 = (226 :: nat)" by arith
    with three assms(3) b have b1: "of_char c1 = (128 :: nat)" by simp arith
    with b0 three assms(3) b have "of_char c2 = (168 + (r - 8232) :: nat)" by simp arith
    with b0 b1 have "[c0, c1, c2] = [char_of (226 :: nat), char_of (128 :: nat), char_of (168 + (r - 8232) :: nat)]"
      by (metis char_of_char)
    moreover have "encode_rune r = [char_of (226 :: nat), char_of (128 :: nat), char_of (168 + (r - 8232) :: nat)]"
      using assms(3) by (elim disjE) (simp_all add: encode_rune_def)
    moreover have "take n s = [c0, c1, c2]" using three(1,8) s by simp
    ultimately show ?thesis by simp
  next
    case (two c1 s1)
    with assms(3) show ?thesis by (auto simp: cont_byte_def)
  next
    case (four c1 c2 c3 s1)
    with assms(3) show ?thesis
      by (auto simp: cont_byte_def lo2_def hi2_def split: if_splits)
  qed (use assms(3) in \<open>auto simp: RuneError_def\<close>)
qed

lemma valid_utf8_step:
  assumes "valid_utf8 s" "s \<noteq> []" "decode_rune s = (r, n)"
  shows "\<not> (r = RuneError \<and> n = 1) \<and> valid_utf8 (drop n s)"
proof -
  have "n \<le> length s" using decode_rune_width [OF assms(2)] assms(3) by simp
  with assms show ?thesis
    by (simp add: valid_utf8_def runes.simps [of s] bad_chunk_def)
qed

definition ascii :: "bytes \<Rightarrow> bool" where
  "ascii s = list_all (\<lambda>c. of_char c < (128 :: nat)) s"

lemma valid_utf8_ascii: "ascii s \<Longrightarrow> valid_utf8 s"
  by (induction s) (auto simp: ascii_def valid_utf8_def runes_ascii bad_chunk_def RuneError_def)

lemma ascii_append [simp]: "ascii (a @ b) \<longleftrightarrow> ascii a \<and> ascii b"
  by (simp add: ascii_def)

lemma valid_utf8_append: "valid_utf8 a \<Longrightarrow> valid_utf8 b \<Longrightarrow> valid_utf8 (a @ b)"
proof (induction a rule: runes.induct)
  case (1 a)
  show ?case
  proof (cases "a = []")
    case False
    obtain r n where d: "decode_rune a = (r, n)" by fastforce
    have n: "n \<le> length a" using decode_rune_width [OF False] d by simp
    have ok: "\<not> (r = RuneError \<and> n = 1)" "valid_utf8 (drop n a)" using valid_utf8_step [OF 1(2) False d] by auto
    have "decode_rune (a @ b) = (r, n)"
      using decode_rune_local [OF d False ok(1), of "drop n a @ b"] by (simp flip: append_assoc)
    moreover have "valid_utf8 (drop n a @ b)" using 1(1) [OF False] ok(2) 1(3) d by simp
    ultimately show ?thesis using False n ok(1) by (auto simp: valid_utf8_def runes.simps [of "a @ b"] bad_chunk_def)
  qed (use 1(3) in simp)
qed

lemma ascii_take: "ascii s \<Longrightarrow> ascii (take n s)"
  by (auto simp: ascii_def list_all_iff dest: in_set_takeD)

lemma ascii_Nil [simp]: "ascii []"
  by (simp add: ascii_def)

lemma ascii_Cons [simp]: "ascii (c # s) \<longleftrightarrow> of_char c < (128 :: nat) \<and> ascii s"
  by (simp add: ascii_def)

section \<open>Package strings\<close>

text \<open>unicode.IsSpace.\<close>

definition is_space :: "nat \<Rightarrow> bool" where
  "is_space r \<longleftrightarrow> r \<in> {9, 10, 11, 12, 13, 32, 133, 160, 5760, 8232, 8233, 8239, 8287, 12288}
     \<or> (8192 \<le> r \<and> r \<le> 8202)"

text \<open>
  strings.TrimSpace. Decoding forwards gives the same last rune as utf8.DecodeLastRune where
  that rune is valid, since an invalid byte is consumed alone and no rune swallows a lead byte.
\<close>

definition TrimSpace :: "bytes \<Rightarrow> bytes" where
  "TrimSpace s =
     concat (map snd (rev (dropWhile (is_space \<circ> fst) (rev (dropWhile (is_space \<circ> fst) (runes s))))))"

definition HasPrefix :: "bytes \<Rightarrow> bytes \<Rightarrow> bool" where
  "HasPrefix s p \<longleftrightarrow> take (length p) s = p"

definition HasSuffix :: "bytes \<Rightarrow> bytes \<Rightarrow> bool" where
  "HasSuffix s p \<longleftrightarrow> length p \<le> length s \<and> drop (length s - length p) s = p"

text \<open>strings.Index for a one-byte separator; \<open>None\<close> is -1.\<close>

fun IndexByte :: "char \<Rightarrow> bytes \<Rightarrow> nat option" where
  "IndexByte c [] = None"
| "IndexByte c (x # xs) = (if x = c then Some 0 else map_option Suc (IndexByte c xs))"

fun Contains :: "bytes \<Rightarrow> bytes \<Rightarrow> bool" where
  "Contains [] p = (p = [])"
| "Contains (x # xs) p = (HasPrefix (x # xs) p \<or> Contains xs p)"

text \<open>strings.Split and strings.Join with a one-byte separator.\<close>

fun Split :: "char \<Rightarrow> bytes \<Rightarrow> bytes list" where
  "Split c [] = [[]]"
| "Split c (x # xs) =
     (if x = c then [] # Split c xs
      else (case Split c xs of [] \<Rightarrow> [[x]] | l # ls \<Rightarrow> (x # l) # ls))"

fun Join :: "bytes \<Rightarrow> bytes list \<Rightarrow> bytes" where
  "Join sep [] = []"
| "Join sep [x] = x"
| "Join sep (x # y # zs) = x @ sep @ Join sep (y # zs)"

text \<open>strings.ReplaceAll(s, "\\r\\n", "\\n").\<close>

fun ReplaceCRLF :: "bytes \<Rightarrow> bytes" where
  "ReplaceCRLF (a # b # s) =
     (if a = CHR 0x0D \<and> b = CHR 0x0A then CHR 0x0A # ReplaceCRLF s else a # ReplaceCRLF (b # s))"
| "ReplaceCRLF s = s"

definition ReplaceByte :: "char \<Rightarrow> char \<Rightarrow> bytes \<Rightarrow> bytes" where
  "ReplaceByte a b s = map (\<lambda>c. if c = a then b else c) s"

definition is_upper :: "nat \<Rightarrow> bool" where "is_upper r \<longleftrightarrow> 65 \<le> r \<and> r \<le> 90"

text \<open>strings.ToLower; \<open>ulow\<close> is unicode.ToLower on runes beyond ASCII.\<close>

definition ToLower :: "(nat \<Rightarrow> nat) \<Rightarrow> bytes \<Rightarrow> bytes" where
  "ToLower ulow s =
     concat (map (\<lambda>(r, b). if r < 128 then encode_rune (if is_upper r then r + 32 else r)
                           else encode_rune (ulow r)) (runes s))"

text \<open>
  strings.EqualFold: rune by rune, equal up to simple case folding. An ASCII rune folds to its
  other case only; U+017F and U+212A fold to s and k. For two runes beyond ASCII, \<open>ufold\<close> says
  whether they are in one orbit of unicode.SimpleFold.
\<close>

definition fold_ascii :: "nat \<Rightarrow> nat" where
  "fold_ascii r = (if is_upper r then r + 32 else if r = 383 then 115 else if r = 8490 then 107 else r)"

definition eq_fold_rune :: "(nat \<Rightarrow> nat \<Rightarrow> bool) \<Rightarrow> nat \<Rightarrow> nat \<Rightarrow> bool" where
  "eq_fold_rune ufold a b \<longleftrightarrow>
     a = b \<or> fold_ascii a = fold_ascii b \<or> (128 \<le> a \<and> 128 \<le> b \<and> ufold a b)"

definition EqualFold :: "(nat \<Rightarrow> nat \<Rightarrow> bool) \<Rightarrow> bytes \<Rightarrow> bytes \<Rightarrow> bool" where
  "EqualFold ufold s t \<longleftrightarrow>
     list_all2 (eq_fold_rune ufold) (map fst (runes s)) (map fst (runes t))"

lemma EqualFold_refl [simp]: "EqualFold uf s s"
  by (auto simp: EqualFold_def eq_fold_rune_def list_all2_conv_all_nth)

lemma EqualFold_Nil [simp]: "EqualFold uf [] t \<longleftrightarrow> t = []" "EqualFold uf s [] \<longleftrightarrow> s = []"
  by (cases t; simp add: EqualFold_def runes.simps) (cases s; simp add: EqualFold_def runes.simps)

lemma HasPrefix_append [simp]: "HasPrefix (p @ s) p"
  by (simp add: HasPrefix_def)

lemma HasPrefix_iff: "HasPrefix s p \<longleftrightarrow> (\<exists>t. s = p @ t)"
  unfolding HasPrefix_def by (metis append_take_drop_id append_eq_conv_conj)

lemma HasSuffix_iff: "HasSuffix s p \<longleftrightarrow> (\<exists>t. s = t @ p)"
proof
  assume "HasSuffix s p"
  then have "s = take (length s - length p) s @ p"
    unfolding HasSuffix_def by (metis append_take_drop_id)
  then show "\<exists>t. s = t @ p" ..
qed (auto simp: HasSuffix_def)

lemma Split_nonempty [simp]: "Split c s \<noteq> []"
  by (induction s) (auto split: list.splits)

lemma Split_no_sep: "c \<notin> set s \<Longrightarrow> Split c s = [s]"
  by (induction s) auto

lemma Split_append_sep: "c \<notin> set a \<Longrightarrow> Split c (a @ c # s) = a # Split c s"
  by (induction a) auto

lemma IndexByte_Some:
  "IndexByte c s = Some i \<longleftrightarrow> i < length s \<and> s ! i = c \<and> c \<notin> set (take i s)"
proof (induction s arbitrary: i)
  case (Cons x xs)
  then show ?case by (cases i) auto
qed simp

lemma IndexByte_append:
  "c \<notin> set a \<Longrightarrow> IndexByte c (a @ c # s) = Some (length a)"
  by (induction a) auto

lemma IndexByte_None: "IndexByte c s = None \<longleftrightarrow> c \<notin> set s"
  by (induction s) auto

text \<open>Joining the split lines of a text without its separators: used on armored bodies.\<close>

lemma Join_Nil_concat: "Join [] xs = concat xs"
  by (induction "[] :: bytes" xs rule: Join.induct) auto

section \<open>White space at the ends\<close>

lemma TrimSpace_id:
  assumes "runes s \<noteq> [] \<Longrightarrow> \<not> is_space (fst (hd (runes s)))"
    and "runes s \<noteq> [] \<Longrightarrow> \<not> is_space (fst (last (runes s)))"
  shows "TrimSpace s = s"
proof (cases "runes s = []")
  case True
  then show ?thesis using concat_runes [of s] by (simp add: TrimSpace_def)
next
  case False
  have "dropWhile (is_space \<circ> fst) (runes s) = runes s"
    using assms(1) False by (cases "runes s") auto
  moreover have "dropWhile (is_space \<circ> fst) (rev (runes s)) = rev (runes s)"
    using assms(2) False by (cases "rev (runes s)") (auto simp: last_conv_nth hd_rev simp flip: hd_rev)
  ultimately show ?thesis using concat_runes [of s] by (simp add: TrimSpace_def)
qed

lemma runes_all_ascii: "ascii s \<Longrightarrow> runes s = map (\<lambda>c. (of_char c, [c])) s"
  by (induction s) (auto simp: runes_ascii)

lemma TrimSpace_ascii:
  assumes "ascii s"
  shows "TrimSpace s = rev (dropWhile (\<lambda>c. is_space (of_char c)) (rev (dropWhile (\<lambda>c. is_space (of_char c)) s)))"
  using assms
  by (simp add: TrimSpace_def runes_all_ascii dropWhile_map rev_map comp_def)

section \<open>Hexadecimal\<close>

definition hex_digit :: "nat \<Rightarrow> char" where
  "hex_digit n = char_of (if n < 10 then 48 + n else 87 + n)"

definition hex_val :: "char \<Rightarrow> nat option" where
  "hex_val c = (let b = of_char c in
     if 48 \<le> b \<and> b \<le> 57 then Some (b - 48)
     else if 97 \<le> b \<and> b \<le> 102 then Some (b - 87)
     else if 65 \<le> b \<and> b \<le> 70 then Some (b - 55) else None)"

text \<open>hex.EncodeToString and hex.DecodeString.\<close>

definition hex_encode :: "bytes \<Rightarrow> bytes" where
  "hex_encode bs = concat (map (\<lambda>c. [hex_digit (of_char c div 16), hex_digit (of_char c mod 16)]) bs)"

fun hex_decode :: "bytes \<Rightarrow> bytes result" where
  "hex_decode [] = Inr []"
| "hex_decode [c] = Inl (if hex_val c = None then Errorf ''hex: invalid byte'' else Errorf ''hex: odd length'')"
| "hex_decode (a # b # s) =
     (case hex_val a of None \<Rightarrow> Inl (Errorf ''hex: invalid byte'')
      | Some x \<Rightarrow> (case hex_val b of None \<Rightarrow> Inl (Errorf ''hex: invalid byte'')
          | Some y \<Rightarrow> (case hex_decode s of Inl e \<Rightarrow> Inl e | Inr t \<Rightarrow> Inr (char_of (16 * x + y) # t))))"

lemma hex_val_digit [simp]: "n < 16 \<Longrightarrow> hex_val (hex_digit n) = Some n"
  by (simp add: hex_val_def hex_digit_def)

lemma hex_val_lt: "hex_val c = Some n \<Longrightarrow> n < 16"
  by (auto simp: hex_val_def Let_def split: if_splits)

lemma length_hex_encode [simp]: "length (hex_encode bs) = 2 * length bs"
  by (induction bs) (auto simp: hex_encode_def)

lemma hex_decode_encode: "hex_decode (hex_encode bs) = Inr bs"
proof (induction bs)
  case (Cons c bs)
  have "(of_char c :: nat) div 16 < 16" "(of_char c :: nat) mod 16 < 16"
    using of_char_lt [of c] by (auto simp: div_less_iff_less_mult)
  with Cons show ?case by (simp add: hex_encode_def)
qed (simp add: hex_encode_def)

lemma hex_decode_ok_iff:
  "is_ok (hex_decode s) \<longleftrightarrow> even (length s) \<and> list_all (\<lambda>c. hex_val c \<noteq> None) s"
proof (induction s rule: hex_decode.induct)
  case (3 a b s)
  then show ?case by (cases "hex_val a"; cases "hex_val b"; cases "hex_decode s") auto
qed auto

lemma hex_digit_lower: "n < 16 \<Longrightarrow> of_char (hex_digit n) < (128 :: nat)"
  by (simp add: hex_digit_def)

lemma hex_encode_digits: "list_all (\<lambda>c. hex_val c \<noteq> None) (hex_encode bs)"
  using hex_decode_ok_iff hex_decode_encode by blast

lemma hex_ascii: "hex_val c = Some n \<Longrightarrow> of_char c < (128 :: nat)"
  by (auto simp: hex_val_def Let_def split: if_splits)

section \<open>Decimal\<close>

function dec :: "nat \<Rightarrow> string" where
  "dec n = (if n < 10 then [char_of (48 + n)] else dec (n div 10) @ [char_of (48 + n mod 10)])"
  by pat_completeness auto
termination
  by (relation "measure id") auto

declare dec.simps [simp del]

definition is_digit :: "char \<Rightarrow> bool" where
  "is_digit c \<longleftrightarrow> 48 \<le> (of_char c :: nat) \<and> (of_char c :: nat) \<le> 57"

definition digits_val :: "string \<Rightarrow> nat" where
  "digits_val s = foldl (\<lambda>a c. a * 10 + (of_char c - 48)) 0 s"

text \<open>Fixed-width decimal with leading zeros (the fields of a timestamp).\<close>

fun dec_pad :: "nat \<Rightarrow> nat \<Rightarrow> string" where
  "dec_pad 0 n = []"
| "dec_pad (Suc k) n = dec_pad k (n div 10) @ [char_of (48 + n mod 10)]"

lemma digits_val_snoc: "digits_val (s @ [c]) = digits_val s * 10 + (of_char c - 48)"
  by (simp add: digits_val_def)

lemma digit_char: "d < 10 \<Longrightarrow> of_char (char_of (48 + d) :: char) = (48 + d :: nat)"
  by simp

lemma digits_val_dec [simp]: "digits_val (dec n) = n"
proof (induction n rule: dec.induct)
  case (1 n)
  show ?case
  proof (cases "n < 10")
    case True
    then show ?thesis by (simp add: dec.simps [of n] digits_val_def)
  next
    case False
    with 1 show ?thesis
      by (simp add: dec.simps [of n] digits_val_snoc)
  qed
qed

lemma dec_digits: "list_all is_digit (dec n)"
  by (induction n rule: dec.induct) (auto simp: dec.simps is_digit_def)

lemma dec_nonempty [simp]: "dec n \<noteq> []"
  by (subst dec.simps) simp

lemma length_dec_pad [simp]: "length (dec_pad k n) = k"
  by (induction k arbitrary: n) auto

lemma digits_val_dec_pad: "digits_val (dec_pad k n) = n mod 10 ^ k"
proof (induction k arbitrary: n)
  case 0
  then show ?case by (simp add: digits_val_def)
next
  case (Suc k)
  have "digits_val (dec_pad (Suc k) n) = n div 10 mod 10 ^ k * 10 + n mod 10"
    by (simp add: digits_val_snoc Suc.IH)
  also have "\<dots> = n mod 10 ^ Suc k"
    using mod_mult2_eq [of n 10 "10 ^ k"] by (simp add: mult.commute)
  finally show ?case .
qed

lemma dec_pad_digits: "list_all is_digit (dec_pad k n)"
  by (induction k arbitrary: n) (auto simp: is_digit_def)

text \<open>No leading zero: the decimal of a positive number starts with 1 to 9.\<close>

lemma dec_hd: "0 < n \<Longrightarrow> hd (dec n) \<noteq> CHR ''0''"
proof (induction n rule: dec.induct)
  case (1 n)
  show ?case
  proof (cases "n < 10")
    case True
    have "(of_char (char_of (48 + n) :: char) :: nat) \<noteq> of_char (CHR ''0'')"
      using True 1(2) by simp
    then have "(char_of (48 + n) :: char) \<noteq> CHR ''0''" by metis
    with True show ?thesis by (simp add: dec.simps [of n])
  next
    case False
    with 1 show ?thesis by (simp add: dec.simps [of n])
  qed
qed

end
