(* ===== verification/Icfx_Base64.thy ===== *)
theory Icfx_Base64
  imports Icfx_Text
begin

text \<open>
  encoding/base64's StdEncoding: four characters of the standard alphabet per three bytes,
  padded with =. The decoder skips carriage returns and line feeds, requires the padding, and
  does not look at the unused low bits of the last character (StdEncoding is not Strict).
\<close>

definition b64_digit :: "nat \<Rightarrow> char" where
  "b64_digit n = char_of (if n < 26 then 65 + n else if n < 52 then 71 + n
     else if n < 62 then n - 4 else if n = 62 then 43 else 47)"

definition b64_val :: "char \<Rightarrow> nat option" where
  "b64_val c = (let b = of_char c in
     if 65 \<le> b \<and> b \<le> 90 then Some (b - 65)
     else if 97 \<le> b \<and> b \<le> 122 then Some (b - 71)
     else if 48 \<le> b \<and> b \<le> 57 then Some (b + 4)
     else if b = 43 then Some 62 else if b = 47 then Some 63 else None)"

abbreviation pad_char :: char where "pad_char \<equiv> CHR ''=''"

fun b64_encode :: "bytes \<Rightarrow> bytes" where
  "b64_encode [] = []"
| "b64_encode [a] =
     [b64_digit (of_char a div 4), b64_digit (of_char a mod 4 * 16), pad_char, pad_char]"
| "b64_encode [a, b] =
     [b64_digit (of_char a div 4), b64_digit (of_char a mod 4 * 16 + of_char b div 16),
      b64_digit (of_char b mod 16 * 4), pad_char]"
| "b64_encode (a # b # c # s) =
     [b64_digit (of_char a div 4), b64_digit (of_char a mod 4 * 16 + of_char b div 16),
      b64_digit (of_char b mod 16 * 4 + of_char c div 64), b64_digit (of_char c mod 64)]
     @ b64_encode s"

definition b64_err :: go_error where "b64_err = Errorf ''illegal base64 data at input byte''"

fun b64_quanta :: "bytes \<Rightarrow> bytes result" where
  "b64_quanta [] = Inr []"
| "b64_quanta (w # x # y # z # s) =
     (case (b64_val w, b64_val x) of
        (Some p, Some q) \<Rightarrow>
          (if y = pad_char then
             (if z = pad_char \<and> s = [] then Inr [char_of (p * 4 + q div 16)] else Inl b64_err)
           else (case b64_val y of None \<Rightarrow> Inl b64_err
             | Some r \<Rightarrow>
                (if z = pad_char then
                   (if s = [] then Inr [char_of (p * 4 + q div 16), char_of (q mod 16 * 16 + r div 4)]
                    else Inl b64_err)
                 else (case b64_val z of None \<Rightarrow> Inl b64_err
                   | Some t \<Rightarrow>
                      (case b64_quanta s of Inl e \<Rightarrow> Inl e
                       | Inr rest \<Rightarrow> Inr (char_of (p * 4 + q div 16) # char_of (q mod 16 * 16 + r div 4)
                                        # char_of (r mod 4 * 64 + t) # rest))))))
      | _ \<Rightarrow> Inl b64_err)"
| "b64_quanta _ = Inl b64_err"

definition is_newline :: "char \<Rightarrow> bool" where
  "is_newline c \<longleftrightarrow> c = CHR 0x0A \<or> c = CHR 0x0D"

definition b64_decode :: "bytes \<Rightarrow> bytes result" where
  "b64_decode s = b64_quanta (filter (\<lambda>c. \<not> is_newline c) s)"

lemma b64_val_digit [simp]: "n < 64 \<Longrightarrow> b64_val (b64_digit n) = Some n"
  by (auto simp: b64_val_def b64_digit_def Let_def)

lemma b64_digit_char:
  assumes "n < 64"
  shows "b64_digit n \<noteq> pad_char" "\<not> is_newline (b64_digit n)"
proof -
  have "b64_val (b64_digit n) \<noteq> None" using assms by simp
  moreover have "b64_val pad_char = None" "b64_val (CHR 0x0A) = None" "b64_val (CHR 0x0D) = None"
    by (simp_all add: b64_val_def)
  ultimately show "b64_digit n \<noteq> pad_char" "\<not> is_newline (b64_digit n)"
    unfolding is_newline_def by metis+
qed

lemma pad_not_newline [simp]: "\<not> is_newline pad_char"
  by (simp add: is_newline_def)

lemma sextet_bounds:
  "of_char (a :: char) div 4 < (64 :: nat)" "of_char a mod 4 * 16 < (64 :: nat)"
  "of_char a mod 4 * 16 + of_char b div 16 < (64 :: nat)" "of_char b mod 16 * 4 < (64 :: nat)"
  "of_char b mod 16 * 4 + of_char c div 64 < (64 :: nat)" "of_char c mod 64 < (64 :: nat)"
proof -
  have "(of_char a :: nat) < 256" "(of_char b :: nat) < 256" "(of_char c :: nat) < 256"
    by simp_all
  then show "of_char (a :: char) div 4 < (64 :: nat)" "of_char a mod 4 * 16 < (64 :: nat)"
    "of_char a mod 4 * 16 + of_char b div 16 < (64 :: nat)" "of_char b mod 16 * 4 < (64 :: nat)"
    "of_char b mod 16 * 4 + of_char c div 64 < (64 :: nat)" "of_char c mod 64 < (64 :: nat)"
    by linarith+
qed

lemma octet_parts:
  "of_char (b :: char) div 16 div 16 = (0 :: nat)" "of_char b div 16 mod 16 = (of_char b div 16 :: nat)"
  "of_char b div 64 div 4 = (0 :: nat)" "of_char b div 64 mod 4 = (of_char b div 64 :: nat)"
  "of_char b div 256 = (0 :: nat)"
proof -
  have "(of_char b :: nat) < 256" by simp
  then have "(of_char b :: nat) div 16 < 16" "(of_char b :: nat) div 64 < 4" by linarith+
  then show "of_char (b :: char) div 16 div 16 = (0 :: nat)" "of_char b div 16 mod 16 = (of_char b div 16 :: nat)"
    "of_char b div 64 div 4 = (0 :: nat)" "of_char b div 64 mod 4 = (of_char b div 64 :: nat)"
    "of_char b div 256 = (0 :: nat)" by simp_all
qed

lemma b64_quanta_encode: "b64_quanta (b64_encode bs) = Inr bs"
proof (induction bs rule: b64_encode.induct)
  case (4 a b c s)
  have "(of_char b mod 16 * 4 + of_char c div 64) div 4 = (of_char b mod 16 :: nat)"
    "(of_char b mod 16 * 4 + of_char c div 64) mod 4 = (of_char c div 64 :: nat)"
    "(of_char a mod 4 * 16 + of_char b div 16) div 16 = (of_char a mod 4 :: nat)"
    "(of_char a mod 4 * 16 + of_char b div 16) mod 16 = (of_char b div 16 :: nat)"
    by (simp_all add: octet_parts)
  with 4 show ?case
    by (simp add: sextet_bounds b64_digit_char del: div_mult_self3 div_mult_self4 mod_mult_self3 mod_mult_self4)
next
  case (3 a b)
  have "(of_char a mod 4 * 16 + of_char b div 16) div 16 = (of_char a mod 4 :: nat)"
    "(of_char a mod 4 * 16 + of_char b div 16) mod 16 = (of_char b div 16 :: nat)"
    by (simp_all add: octet_parts)
  then show ?case
    by (simp add: sextet_bounds b64_digit_char del: div_mult_self3 div_mult_self4 mod_mult_self3 mod_mult_self4)
qed (simp_all add: sextet_bounds)

lemma b64_encode_no_newline: "c \<in> set (b64_encode bs) \<Longrightarrow> \<not> is_newline c"
  by (induction bs rule: b64_encode.induct) (auto simp: b64_digit_char sextet_bounds)

lemma b64_decode_encode [simp]: "b64_decode (b64_encode bs) = Inr bs"
proof -
  have "filter (\<lambda>c. \<not> is_newline c) (b64_encode bs) = b64_encode bs"
    using b64_encode_no_newline by (simp add: filter_id_conv)
  then show ?thesis by (simp add: b64_decode_def b64_quanta_encode)
qed

lemma b64_encode_inject [simp]: "b64_encode a = b64_encode b \<longleftrightarrow> a = b"
  using b64_decode_encode by (metis sum.inject(2))

lemma b64_encode_Nil_iff [simp]: "b64_encode s = [] \<longleftrightarrow> s = []"
  by (cases s rule: b64_encode.cases) auto

definition b64_char :: "char \<Rightarrow> bool" where
  "b64_char c \<longleftrightarrow> b64_val c \<noteq> None \<or> c = pad_char"

lemma b64_encode_chars: "c \<in> set (b64_encode bs) \<Longrightarrow> b64_char c"
  by (induction bs rule: b64_encode.induct) (auto simp: b64_char_def sextet_bounds)

lemma b64_char_range:
  assumes "b64_char c"
  shows "43 \<le> (of_char c :: nat)" "(of_char c :: nat) \<le> 122" "c \<noteq> CHR '':''" "c \<noteq> CHR ''-''"
    "c \<noteq> CHR 0x22" "c \<noteq> CHR 0x5C" "c \<noteq> CHR ''<''" "c \<noteq> CHR ''>''"
proof -
  have "43 \<le> (of_char c :: nat) \<and> (of_char c :: nat) \<le> 122 \<and> (of_char c :: nat) \<noteq> 58
      \<and> (of_char c :: nat) \<noteq> 45 \<and> (of_char c :: nat) \<noteq> 92 \<and> (of_char c :: nat) \<noteq> 60
      \<and> (of_char c :: nat) \<noteq> 62"
    using assms by (auto simp: b64_char_def b64_val_def Let_def split: if_splits)
  then show "43 \<le> (of_char c :: nat)" "(of_char c :: nat) \<le> 122" "c \<noteq> CHR '':''" "c \<noteq> CHR ''-''"
    "c \<noteq> CHR 0x22" "c \<noteq> CHR 0x5C" "c \<noteq> CHR ''<''" "c \<noteq> CHR ''>''"
    by auto
qed

lemma b64_encode_ascii: "ascii (b64_encode bs)"
  using b64_encode_chars b64_char_range(2) by (fastforce simp: ascii_def list_all_iff)

end
