(* ===== verification/Icfx_Time.thy ===== *)
theory Icfx_Time
  imports Icfx_Text "HOL-Library.Monad_Syntax"
begin

text \<open>
  time.Time as icfx uses it. A value is its civil fields in its own zone together with the zone
  offset (in minutes: RFC 3339 has no seconds there); the instant it denotes, which Before,
  After, Equal, IsZero and Unix compare, is computed from them. The text form is the one of
  Time.MarshalJSON (RFC 3339 with the fraction's trailing zeros dropped), the reader is the one
  of Time.UnmarshalJSON, including the leniencies of time.Parse it falls back to (a one-digit
  hour, a comma before the fraction, zone offsets up to 24:60).
\<close>

record gotime =
  t_year :: int
  t_month :: nat
  t_day :: nat
  t_hour :: nat
  t_min :: nat
  t_sec :: nat
  t_nsec :: nat
  t_off :: int

definition zero_time :: gotime where
  "zero_time = \<lparr>t_year = 1, t_month = 1, t_day = 1, t_hour = 0, t_min = 0, t_sec = 0, t_nsec = 0, t_off = 0\<rparr>"

definition leap :: "int \<Rightarrow> bool" where
  "leap y \<longleftrightarrow> 4 dvd y \<and> (\<not> 100 dvd y \<or> 400 dvd y)"

definition days_in :: "int \<Rightarrow> nat \<Rightarrow> nat" where
  "days_in y m = (if m = 2 then (if leap y then 29 else 28) else if m \<in> {4, 6, 9, 11} then 30 else 31)"

text \<open>Days since 1970-01-01 of a civil date (proleptic Gregorian).\<close>

definition civil_days :: "int \<Rightarrow> nat \<Rightarrow> nat \<Rightarrow> int" where
  "civil_days y m d =
     (let y' = (if m \<le> 2 then y - 1 else y); era = y' div 400; yoe = y' mod 400;
          doy = (153 * ((int m + 9) mod 12) + 2) div 5 + int d - 1
      in era * 146097 + yoe * 365 + yoe div 4 - yoe div 100 + doy - 719468)"

definition Unix :: "gotime \<Rightarrow> int" where
  "Unix t = civil_days (t_year t) (t_month t) (t_day t) * 86400
     + int (t_hour t) * 3600 + int (t_min t) * 60 + int (t_sec t) - t_off t * 60"

definition instant :: "gotime \<Rightarrow> int" where
  "instant t = Unix t * 1000000000 + int (t_nsec t)"

definition Before :: "gotime \<Rightarrow> gotime \<Rightarrow> bool" where "Before a b \<longleftrightarrow> instant a < instant b"

definition After :: "gotime \<Rightarrow> gotime \<Rightarrow> bool" where "After a b \<longleftrightarrow> instant b < instant a"

definition Time_Equal :: "gotime \<Rightarrow> gotime \<Rightarrow> bool" where "Time_Equal a b \<longleftrightarrow> instant a = instant b"

definition IsZero :: "gotime \<Rightarrow> bool" where "IsZero t \<longleftrightarrow> instant t = instant zero_time"

text \<open>The civil fields a time value can have.\<close>

definition wf_time :: "gotime \<Rightarrow> bool" where
  "wf_time t \<longleftrightarrow> 1 \<le> t_month t \<and> t_month t \<le> 12 \<and> 1 \<le> t_day t
     \<and> t_day t \<le> days_in (t_year t) (t_month t) \<and> t_hour t < 24 \<and> t_min t < 60 \<and> t_sec t < 60
     \<and> t_nsec t < 1000000000"

text \<open>What MarshalJSON accepts: a four-digit year and a zone of less than 24 hours.\<close>

definition marshals :: "gotime \<Rightarrow> bool" where
  "marshals t \<longleftrightarrow> 0 \<le> t_year t \<and> t_year t \<le> 9999 \<and> -1440 < t_off t \<and> t_off t < 1440"

definition trim_zeros :: "string \<Rightarrow> string" where
  "trim_zeros s = rev (dropWhile (\<lambda>c. c = CHR ''0'') (rev s))"

definition format_frac :: "nat \<Rightarrow> string" where
  "format_frac n = (if n = 0 then [] else CHR ''.'' # trim_zeros (dec_pad 9 n))"

definition format_zone :: "int \<Rightarrow> string" where
  "format_zone off = (if off = 0 then ''Z''
     else (if off < 0 then CHR ''-'' else CHR ''+'')
       # dec_pad 2 (nat \<bar>off\<bar> div 60) @ CHR '':'' # dec_pad 2 (nat \<bar>off\<bar> mod 60))"

definition format_rfc3339 :: "gotime \<Rightarrow> string" where
  "format_rfc3339 t =
     dec_pad 4 (nat (t_year t)) @ CHR ''-'' # dec_pad 2 (t_month t) @ CHR ''-'' # dec_pad 2 (t_day t)
     @ CHR ''T'' # dec_pad 2 (t_hour t) @ CHR '':'' # dec_pad 2 (t_min t) @ CHR '':'' # dec_pad 2 (t_sec t)
     @ format_frac (t_nsec t) @ format_zone (t_off t)"

definition marshal_time :: "gotime \<Rightarrow> string result" where
  "marshal_time t = (if marshals t then Inr (format_rfc3339 t)
     else Inl (Errorf ''Time.MarshalJSON: year or timezone outside of range''))"

section \<open>Reading\<close>

definition lit :: "char \<Rightarrow> string \<Rightarrow> string option" where
  "lit c s = (case s of x # r \<Rightarrow> if x = c then Some r else None | [] \<Rightarrow> None)"

definition numN :: "nat \<Rightarrow> string \<Rightarrow> (nat \<times> string) option" where
  "numN k s = (if k \<le> length s \<and> list_all is_digit (take k s)
     then Some (digits_val (take k s), drop k s) else None)"

definition hour_num :: "string \<Rightarrow> (nat \<times> string) option" where
  "hour_num s = (case numN 2 s of Some r \<Rightarrow> Some r | None \<Rightarrow> numN 1 s)"

definition read_frac :: "string \<Rightarrow> nat \<times> string" where
  "read_frac s = (case s of
       c # d # r \<Rightarrow>
         if (c = CHR ''.'' \<or> c = CHR '','') \<and> is_digit d then
           (let ds = take 9 (takeWhile is_digit (d # r))
            in (digits_val ds * 10 ^ (9 - length ds), dropWhile is_digit (d # r)))
         else (0, s)
     | _ \<Rightarrow> (0, s))"

definition read_zone :: "string \<Rightarrow> int option" where
  "read_zone s = (case s of
       [] \<Rightarrow> None
     | c # r \<Rightarrow>
        if c = CHR ''Z'' then (if r = [] then Some 0 else None)
        else if c = CHR ''+'' \<or> c = CHR ''-'' then
          do { (h, r) \<leftarrow> numN 2 r; r \<leftarrow> lit CHR '':'' r; (m, r) \<leftarrow> numN 2 r;
               if r = [] \<and> h \<le> 24 \<and> m \<le> 60
               then Some ((if c = CHR ''-'' then -1 else 1) * int (h * 60 + m)) else None }
        else None)"

definition parse_rfc3339 :: "string \<Rightarrow> gotime option" where
  "parse_rfc3339 s = do {
     (y, s) \<leftarrow> numN 4 s; s \<leftarrow> lit CHR ''-'' s;
     (mo, s) \<leftarrow> numN 2 s; s \<leftarrow> lit CHR ''-'' s;
     (d, s) \<leftarrow> numN 2 s; s \<leftarrow> lit CHR ''T'' s;
     (h, s) \<leftarrow> hour_num s; s \<leftarrow> lit CHR '':'' s;
     (mi, s) \<leftarrow> numN 2 s; s \<leftarrow> lit CHR '':'' s;
     (sec, s) \<leftarrow> numN 2 s;
     off \<leftarrow> read_zone (snd (read_frac s));
     let t = \<lparr>t_year = int y, t_month = mo, t_day = d, t_hour = h, t_min = mi, t_sec = sec,
              t_nsec = fst (read_frac s), t_off = off\<rparr>;
     if wf_time t then Some t else None }"

section \<open>The round trip\<close>

lemma lit_Cons [simp]: "lit c (c # r) = Some r"
  by (simp add: lit_def)

lemma numN_pad: "n < 10 ^ k \<Longrightarrow> numN k (dec_pad k n @ r) = Some (n, r)"
  using dec_pad_digits [of k n] by (simp add: numN_def digits_val_dec_pad)

lemma hour_num_pad: "n < 100 \<Longrightarrow> hour_num (dec_pad 2 n @ r) = Some (n, r)"
  using numN_pad [of n 2 r] by (simp add: hour_num_def)

lemma trim_zeros_split:
  "s = trim_zeros s @ replicate (length s - length (trim_zeros s)) (CHR ''0'')"
proof -
  let ?z = "takeWhile (\<lambda>c. c = CHR ''0'') (rev s)"
  have split: "rev s = ?z @ dropWhile (\<lambda>c. c = CHR ''0'') (rev s)" by simp
  have z: "?z = replicate (length ?z) (CHR ''0'')"
    by (rule replicate_eqI [symmetric, OF refl, THEN sym]) (auto dest: set_takeWhileD)
  have "s = trim_zeros s @ rev ?z"
    using split by (metis rev_append rev_rev_ident trim_zeros_def)
  moreover from this have "length s - length (trim_zeros s) = length ?z"
    by (metis add_diff_cancel_left' length_append length_rev)
  ultimately show ?thesis using z by (metis rev_replicate)
qed

lemma digit_zero: "(of_char (CHR ''0'') :: nat) - 48 = 0"
  by simp

lemma digits_val_zeros:
  "digits_val (s @ replicate k (CHR ''0'')) = digits_val s * 10 ^ k"
proof (induction k)
  case (Suc k)
  have "s @ replicate (Suc k) (CHR ''0'') = (s @ replicate k (CHR ''0'')) @ [CHR ''0'']"
    by (simp add: replicate_append_same)
  then have "digits_val (s @ replicate (Suc k) (CHR ''0'')) = digits_val (s @ replicate k (CHR ''0'')) * 10"
    by (metis digits_val_snoc add.right_neutral digit_zero)
  then show ?case using Suc by simp
qed simp

lemma trim_zeros_digits: "list_all is_digit s \<Longrightarrow> list_all is_digit (trim_zeros s)"
  by (auto simp: trim_zeros_def list_all_iff dest: set_dropWhileD)

lemma trim_zeros_val:
  assumes "0 < n" "n < 1000000000"
  shows "digits_val (trim_zeros (dec_pad 9 n)) * 10 ^ (9 - length (trim_zeros (dec_pad 9 n))) = n"
    and "trim_zeros (dec_pad 9 n) \<noteq> []" and "length (trim_zeros (dec_pad 9 n)) \<le> 9"
proof -
  let ?t = "trim_zeros (dec_pad 9 n)"
  have split: "dec_pad 9 n = ?t @ replicate (9 - length ?t) (CHR ''0'')"
    using trim_zeros_split [of "dec_pad 9 n"] by simp
  have "digits_val (dec_pad 9 n) = digits_val ?t * 10 ^ (9 - length ?t)"
    using arg_cong [OF split, of digits_val] by (simp add: digits_val_zeros)
  then show val: "digits_val ?t * 10 ^ (9 - length ?t) = n"
    using assms by (simp add: digits_val_dec_pad)
  show "?t \<noteq> []" using val assms by (auto simp: digits_val_def)
  show "length ?t \<le> 9" using arg_cong [OF split, of length] by simp
qed

lemma read_frac_format:
  assumes "n < 1000000000" "r = c # r'" "\<not> is_digit c" "c \<noteq> CHR ''.''" "c \<noteq> CHR '',''"
  shows "read_frac (format_frac n @ r) = (n, r)"
proof (cases "n = 0")
  case True
  with assms show ?thesis by (auto simp: format_frac_def read_frac_def split: list.splits)
next
  case False
  let ?t = "trim_zeros (dec_pad 9 n)"
  note val = trim_zeros_val [of n]
  have dig: "list_all is_digit ?t" by (intro trim_zeros_digits dec_pad_digits)
  then have tw: "takeWhile is_digit (?t @ r) = ?t" "dropWhile is_digit (?t @ r) = r"
    using assms by (auto simp: list_all_iff takeWhile_append2 dropWhile_append2)
  obtain d t' where t: "?t = d # t'" using val(2) False assms(1) by (cases ?t) auto
  with dig have "is_digit d" by simp
  with t tw False val(1,3) assms(1) show ?thesis
    by (simp add: format_frac_def read_frac_def Let_def)
qed

lemma zone_head:
  "\<exists>c r'. format_zone off = c # r' \<and> \<not> is_digit c \<and> c \<noteq> CHR ''.'' \<and> c \<noteq> CHR '',''"
  by (auto simp: format_zone_def is_digit_def)

lemma read_zone_format:
  assumes "-1440 < off" "off < 1440"
  shows "read_zone (format_zone off) = Some off"
proof (cases "off = 0")
  case True
  then show ?thesis by (simp add: format_zone_def read_zone_def)
next
  case False
  let ?n = "nat \<bar>off\<bar>"
  have n: "?n div 60 < 24" "?n mod 60 < 60" "?n div 60 * 60 + ?n mod 60 = ?n" using assms by auto
  have a: "numN 2 (dec_pad 2 (?n div 60) @ CHR '':'' # dec_pad 2 (?n mod 60))
      = Some (?n div 60, CHR '':'' # dec_pad 2 (?n mod 60))"
    using n by (intro numN_pad) simp
  have b: "numN 2 (dec_pad 2 (?n mod 60)) = Some (?n mod 60, [])"
    using numN_pad [of "?n mod 60" 2 "[]"] n by simp
  show ?thesis using False a b n by (auto simp: format_zone_def read_zone_def)
qed

lemma gotime_eta:
  fixes t :: gotime
  shows "\<lparr>t_year = t_year t, t_month = t_month t, t_day = t_day t, t_hour = t_hour t, t_min = t_min t,
    t_sec = t_sec t, t_nsec = t_nsec t, t_off = t_off t\<rparr> = t"
  by simp

theorem parse_format_rfc3339:
  assumes "wf_time t" "marshals t"
  shows "parse_rfc3339 (format_rfc3339 t) = Some t"
proof -
  have d: "t_day t < 100"
    using assms(1) by (auto simp: wf_time_def days_in_def split: if_splits)
  obtain c r' where z: "format_zone (t_off t) = c # r'" "\<not> is_digit c" "c \<noteq> CHR ''.''" "c \<noteq> CHR '',''"
    using zone_head by blast
  have fr: "read_frac (format_frac (t_nsec t) @ format_zone (t_off t)) = (t_nsec t, format_zone (t_off t))"
    using assms z by (intro read_frac_format) (auto simp: wf_time_def)
  have y: "nat (t_year t) < 10 ^ 4" "int (nat (t_year t)) = t_year t"
    using assms(2) by (auto simp: marshals_def)
  have zo: "read_zone (format_zone (t_off t)) = Some (t_off t)"
    using assms(2) by (intro read_zone_format) (auto simp: marshals_def)
  have "t_month t < 10 ^ 2" "t_day t < 10 ^ 2" "t_hour t < 100" "t_min t < 10 ^ 2" "t_sec t < 10 ^ 2"
    using assms(1) d by (auto simp: wf_time_def)
  with assms(1) y fr zo show ?thesis
    by (simp add: parse_rfc3339_def format_rfc3339_def numN_pad hour_num_pad Let_def gotime_eta)
qed

lemma parse_rfc3339_wf: "parse_rfc3339 s = Some t \<Longrightarrow> wf_time t"
  by (auto simp: parse_rfc3339_def Let_def bind_eq_Some_conv split: if_splits prod.splits)

lemma wf_zero_time [simp]: "wf_time zero_time" "marshals zero_time"
  by (simp_all add: wf_time_def zero_time_def days_in_def marshals_def)

lemma format_rfc3339_ascii: "ascii (format_rfc3339 t)"
proof -
  have pad: "ascii (dec_pad k n)" for k n
    using dec_pad_digits [of k n] by (auto simp: ascii_def list_all_iff is_digit_def)
  have "ascii (trim_zeros (dec_pad 9 n))" for n
    using pad [of 9 n] by (auto simp: trim_zeros_def ascii_def list_all_iff dest: set_dropWhileD)
  with pad show ?thesis
    by (simp add: format_rfc3339_def format_frac_def format_zone_def)
qed

lemma length_rfc3339: "length (format_rfc3339 t) \<le> 40"
proof -
  have t: "length (trim_zeros s) \<le> length s" for s
    by (simp add: trim_zeros_def) (metis length_dropWhile_le length_rev)
  have f: "length (format_frac n) \<le> 10" for n
    using t [of "dec_pad 9 n"] by (simp add: format_frac_def)
  have z: "length (format_zone o') \<le> 6" for o'
    by (simp add: format_zone_def)
  show ?thesis using f [of "t_nsec t"] z [of "t_off t"] by (simp add: format_rfc3339_def)
qed

end
