(* ===== verification/Icfx_Json.thy ===== *)
theory Icfx_Json
  imports Icfx_Base64 Icfx_Time
begin

text \<open>
  encoding/json as icfx uses it: json.Marshal and json.MarshalIndent of structs, slices and
  maps, and json.Unmarshal into them. A document is a tree (\<open>json\<close>); string values keep the raw
  bytes between their quotes, because Time.UnmarshalJSON reads the raw literal. Two printers
  (compact and indented) share one definition that differs only in white space, so one theorem
  shows that the reader gives back what either wrote.

  The decoding of a struct follows encoding/json: fields by exact name first, then by folded
  name; unknown fields are ignored; null leaves a string, bool, number or time as it was and
  empties a slice; a value of the wrong type is remembered as an error while decoding goes on
  (\<open>DSaved\<close>); an error from an Unmarshaler (time) ends it (\<open>DAbort\<close>). A nil slice and an empty
  one are the same list here; both are written \<^verbatim>\<open>[]\<close>.
\<close>

datatype json =
    JNull
  | JBool bool
  | JNum string
  | JStr bytes
  | JArr "json list"
  | JObj "(bytes \<times> json) list"

section \<open>Strings\<close>

text \<open>The encoder's string escapes (with its HTML escaping of <, > and &).\<close>

definition quote_chunk :: "nat \<times> bytes \<Rightarrow> bytes" where
  "quote_chunk c = (case c of (r, b) \<Rightarrow>
     if r < 128 then
       (if r = 34 \<or> r = 92 then [CHR 0x5C, char_of r]
        else if r = 8 then [CHR 0x5C, CHR ''b''] else if r = 12 then [CHR 0x5C, CHR ''f'']
        else if r = 10 then [CHR 0x5C, CHR ''n''] else if r = 13 then [CHR 0x5C, CHR ''r'']
        else if r = 9 then [CHR 0x5C, CHR ''t'']
        else if r < 32 \<or> r = 60 \<or> r = 62 \<or> r = 38 then
          [CHR 0x5C, CHR ''u'', CHR ''0'', CHR ''0'', hex_digit (r div 16), hex_digit (r mod 16)]
        else b)
     else if r = RuneError \<and> length b = 1 then CHR 0x5C # ''ufffd''
     else if r = 8232 \<or> r = 8233 then CHR 0x5C # ''u202'' @ [hex_digit (r mod 16)]
     else b)"

definition quote :: "bytes \<Rightarrow> bytes" where
  "quote s = concat (map quote_chunk (runes s))"

definition hex4 :: "bytes \<Rightarrow> nat option" where
  "hex4 s = (case s of a # b # c # d # _ \<Rightarrow>
       (case (hex_val a, hex_val b, hex_val c, hex_val d) of
          (Some p, Some q, Some r, Some t) \<Rightarrow> Some (((p * 16 + q) * 16 + r) * 16 + t)
        | _ \<Rightarrow> None)
     | _ \<Rightarrow> None)"

text \<open>Reading a string literal up to its closing quote: its raw bytes and the rest.\<close>

fun scan_str :: "bytes \<Rightarrow> (bytes \<times> bytes) option" where
  "scan_str [] = None"
| "scan_str (c # s) =
     (if c = CHR 0x22 then Some ([], s)
      else if c = CHR 0x5C then
        (case s of [] \<Rightarrow> None
         | e # r \<Rightarrow>
            if e = CHR ''u'' then
              (case hex4 r of None \<Rightarrow> None
               | Some _ \<Rightarrow> map_option (\<lambda>(x, y). (c # e # x, y)) (scan_str r))
            else if e \<in> {CHR 0x22, CHR 0x5C, CHR ''/'', CHR ''b'', CHR ''f'', CHR ''n'', CHR ''r'', CHR ''t''}
            then map_option (\<lambda>(x, y). (c # e # x, y)) (scan_str r)
            else None)
      else if of_char c < (32 :: nat) then None
      else map_option (\<lambda>(x, y). (c # x, y)) (scan_str s))"

definition esc_char :: "char \<Rightarrow> char" where
  "esc_char e = (if e = CHR ''b'' then CHR 0x08 else if e = CHR ''f'' then CHR 0x0C
     else if e = CHR ''n'' then CHR 0x0A else if e = CHR ''r'' then CHR 0x0D
     else if e = CHR ''t'' then CHR 0x09 else e)"

definition surrogate :: "nat \<Rightarrow> bool" where "surrogate r \<longleftrightarrow> 55296 \<le> r \<and> r \<le> 57343"

text \<open>The value of a raw literal (the decoder's unquote): escapes resolved, invalid UTF-8 replaced.\<close>

function unquote :: "bytes \<Rightarrow> bytes" where
  "unquote [] = []"
| "unquote (c # s) =
     (if c = CHR 0x5C then
        (case s of [] \<Rightarrow> []
         | e # r \<Rightarrow>
            if e = CHR ''u'' then
              (let rr = (case hex4 r of Some n \<Rightarrow> n | None \<Rightarrow> RuneError); r1 = drop 4 r
               in if surrogate rr then
                    (case (HasPrefix r1 [CHR 0x5C, CHR ''u''], hex4 (drop 2 r1)) of
                       (True, Some lo) \<Rightarrow>
                         (if rr < 56320 \<and> 56320 \<le> lo \<and> lo \<le> 57343
                          then encode_rune ((rr - 55296) * 1024 + (lo - 56320) + 65536) @ unquote (drop 6 r1)
                          else encode_rune RuneError @ unquote r1)
                     | _ \<Rightarrow> encode_rune RuneError @ unquote r1)
                  else encode_rune rr @ unquote r1)
            else esc_char e # unquote r)
      else if of_char c < (128 :: nat) then c # unquote s
      else (if fst (decode_rune (c # s)) = RuneError \<and> snd (decode_rune (c # s)) = 1
            then encode_rune RuneError else take (snd (decode_rune (c # s))) (c # s))
           @ unquote (drop (snd (decode_rune (c # s))) (c # s)))"
  by pat_completeness auto
termination
proof (relation "measure length")
  fix c :: char and s :: bytes
  assume "\<not> c = CHR 0x5C" "\<not> of_char c < (128 :: nat)"
  show "(drop (snd (decode_rune (c # s))) (c # s), c # s) \<in> measure length"
    using decode_rune_width [of "c # s"] by simp
qed auto

declare unquote.simps(2) [simp del]

lemma runes_chunk:
  assumes "(r, b) \<in> set (runes s)"
  shows "b \<noteq> [] \<and> (r < 128 \<longrightarrow> b = [char_of r]) \<and> (128 \<le> r \<longrightarrow> (\<forall>c\<in>set b. 128 \<le> (of_char c :: nat)))"
  using assms
proof (induction s rule: runes.induct)
  case (1 s)
  show ?case
  proof (cases "s = [] \<or> (r, b) \<noteq> (fst (decode_rune s), take (snd (decode_rune s)) s)")
    case True
    with 1 show ?thesis by (cases "s = []") (auto simp: runes.simps [of s])
  next
    case False
    then have s: "s \<noteq> []" and r: "r = fst (decode_rune s)" and b: "b = take (snd (decode_rune s)) s"
      by auto
    show ?thesis
      using decode_rune_bytes [of s r "snd (decode_rune s)"] decode_rune_width [OF s] s r b by auto
  qed
qed

text \<open>Plain bytes pass through the scanner.\<close>

lemma scan_str_plain:
  assumes "\<forall>c\<in>set b. 32 \<le> (of_char c :: nat) \<and> c \<noteq> CHR 0x22 \<and> c \<noteq> CHR 0x5C"
  shows "scan_str (b @ t) = map_option (\<lambda>(x, y). (b @ x, y)) (scan_str t)"
  using assms
proof (induction b)
  case Nil
  then show ?case by (cases "scan_str t") auto
next
  case (Cons c b)
  then show ?case by (cases "scan_str t") auto
qed

lemma hex4_zero: "r < 256 \<Longrightarrow>
    hex4 (CHR ''0'' # CHR ''0'' # hex_digit (r div 16) # hex_digit (r mod 16) # t) = Some r"
  by (simp add: hex4_def hex_val_def [of "CHR ''0''"] less_mult_imp_div_less mult.commute)

lemma hex_digit_plain: "n < 16 \<Longrightarrow> 32 \<le> (of_char (hex_digit n) :: nat)
    \<and> hex_digit n \<noteq> CHR 0x22 \<and> hex_digit n \<noteq> CHR 0x5C"
  by (auto simp: hex_digit_def char_of_lt_eq)

lemma hex_digit_8_9: "hex_digit 8 = CHR ''8''" "hex_digit 9 = CHR ''9''"
  by code_simp+

lemma scan_str_u:
  assumes "hex4 r = Some n"
  shows "scan_str (CHR 0x5C # CHR ''u'' # r) = map_option (\<lambda>(x, y). (CHR 0x5C # CHR ''u'' # x, y)) (scan_str r)"
  using assms by (simp add: scan_str.simps(2) [of "CHR 0x5C"] del: scan_str.simps)

lemma scan_str_quote_chunk:
  assumes "(r, b) \<in> set (runes s)"
  shows "scan_str (quote_chunk (r, b) @ t) = map_option (\<lambda>(x, y). (quote_chunk (r, b) @ x, y)) (scan_str t)"
proof -
  note ch = runes_chunk [OF assms]
  consider (esc) "r < 128" "r = 34 \<or> r = 92 \<or> r = 8 \<or> r = 12 \<or> r = 10 \<or> r = 13 \<or> r = 9"
    | (u) "r < 128" "\<not> (r = 34 \<or> r = 92 \<or> r = 8 \<or> r = 12 \<or> r = 10 \<or> r = 13 \<or> r = 9)"
        "r < 32 \<or> r = 60 \<or> r = 62 \<or> r = 38"
    | (plain) "r < 128" "\<not> (r < 32 \<or> r = 60 \<or> r = 62 \<or> r = 38 \<or> r = 34 \<or> r = 92)"
    | (high) "128 \<le> r"
    by linarith
  then show ?thesis
  proof cases
    case esc
    from esc(2) show ?thesis by (elim disjE; cases "scan_str t") (simp_all add: quote_chunk_def char_of_lt_eq)
  next
    case u
    have q: "quote_chunk (r, b) =
        [CHR 0x5C, CHR ''u'', CHR ''0'', CHR ''0'', hex_digit (r div 16), hex_digit (r mod 16)]"
      using u by (simp add: quote_chunk_def)
    have d: "r div 16 < 16" "r mod 16 < 16" using u by auto
    have "scan_str ((CHR ''0'' # CHR ''0'' # hex_digit (r div 16) # [hex_digit (r mod 16)]) @ t)
        = map_option (\<lambda>(x, y). ((CHR ''0'' # CHR ''0'' # hex_digit (r div 16) # [hex_digit (r mod 16)]) @ x, y)) (scan_str t)"
      using hex_digit_plain [OF d(1)] hex_digit_plain [OF d(2)] by (intro scan_str_plain) simp
    moreover have "hex4 (CHR ''0'' # CHR ''0'' # hex_digit (r div 16) # hex_digit (r mod 16) # t) = Some r"
      using hex4_zero u by simp
    ultimately show ?thesis
      unfolding q by (cases "scan_str t") (auto simp add: scan_str_u simp del: scan_str.simps)
  next
    case plain
    then have "quote_chunk (r, b) = [char_of r]" using ch by (simp add: quote_chunk_def)
    moreover have "scan_str ([char_of r] @ t) = map_option (\<lambda>(x, y). ([char_of r] @ x, y)) (scan_str t)"
    proof (rule scan_str_plain, intro ballI)
      fix c :: char
      assume "c \<in> set [char_of r]"
      then have "(of_char c :: nat) = r" using plain by simp
      with plain show "32 \<le> (of_char c :: nat) \<and> c \<noteq> CHR 0x22 \<and> c \<noteq> CHR 0x5C" by auto
    qed
    ultimately show ?thesis by simp
  next
    case high
    have "scan_str (b @ t) = map_option (\<lambda>(x, y). (b @ x, y)) (scan_str t)"
    proof (rule scan_str_plain, intro ballI)
      fix c :: char
      assume "c \<in> set b"
      then have "128 \<le> (of_char c :: nat)" using ch high by simp
      then show "32 \<le> (of_char c :: nat) \<and> c \<noteq> CHR 0x22 \<and> c \<noteq> CHR 0x5C" by auto
    qed
    moreover have "scan_str (CHR 0x5C # ''ufffd'' @ t)
        = map_option (\<lambda>(x, y). (CHR 0x5C # ''ufffd'' @ x, y)) (scan_str t)"
      by (cases "scan_str t") (auto simp: hex4_def hex_val_def)
    moreover have "scan_str (CHR 0x5C # ''u202'' @ hex_digit (r mod 16) # t)
        = map_option (\<lambda>(x, y). (CHR 0x5C # ''u202'' @ hex_digit (r mod 16) # x, y)) (scan_str t)"
      if "r = 8232 \<or> r = 8233"
    proof -
      have "hex_digit (r mod 16) = CHR ''8'' \<or> hex_digit (r mod 16) = CHR ''9''"
        using that hex_digit_8_9 by auto
      then show ?thesis by (elim disjE; cases "scan_str t") (auto simp: hex4_def hex_val_def)
    qed
    ultimately show ?thesis using high by (simp add: quote_chunk_def)
  qed
qed

lemma scan_str_quote: "scan_str (quote s @ CHR 0x22 # t) = Some (quote s, t)"
proof -
  have "scan_str (concat (map quote_chunk cs) @ CHR 0x22 # t) = Some (concat (map quote_chunk cs), t)"
    if "set cs \<subseteq> set (runes s)" for cs
    using that
  proof (induction cs)
    case (Cons c cs)
    then have "scan_str (quote_chunk c @ concat (map quote_chunk cs) @ CHR 0x22 # t)
        = Some (quote_chunk c @ concat (map quote_chunk cs), t)"
      by (cases c) (auto simp: scan_str_quote_chunk)
    then show ?case by simp
  qed simp
  from this [of "runes s"] show ?thesis by (simp add: quote_def)
qed

lemma unquote_escape: "unquote (CHR 0x5C # e # r) = esc_char e # unquote r" if "e \<noteq> CHR ''u''"
  using that by (simp add: unquote.simps(2))

lemma unquote_u:
  assumes "hex4 h = Some n" "length h = 4" "\<not> surrogate n"
  shows "unquote (CHR 0x5C # CHR ''u'' # h @ r) = encode_rune n @ unquote r"
proof -
  have "hex4 (h @ r) = Some n"
    using assms(1,2) by (auto simp: hex4_def length_Suc_conv numeral_eq_Suc split: list.splits)
  then show ?thesis using assms by (simp add: unquote.simps(2))
qed

lemma unquote_ascii: "of_char c < (128 :: nat) \<Longrightarrow> c \<noteq> CHR 0x5C \<Longrightarrow> unquote (c # r) = c # unquote r"
  by (simp add: unquote.simps(2))

lemma unquote_high:
  assumes "decode_rune s = (r, n)" "s \<noteq> []" "128 \<le> (of_char (hd s) :: nat)" "\<not> (r = RuneError \<and> n = 1)"
  shows "unquote (take n s @ t) = take n s @ unquote t"
proof -
  have n: "1 \<le> n" "n \<le> length s" using decode_rune_width [OF assms(2)] assms(1) by auto
  obtain c u where cu: "take n s @ t = c # u" "c = hd s" using n assms(2) by (cases s; cases n) auto
  have "decode_rune (c # u) = (r, n)"
    using decode_rune_local [OF assms(1,2,4), of t] cu by simp
  with assms cu(2) have "unquote (c # u) = take n (c # u) @ unquote (drop n (c # u))"
    by (auto simp: unquote.simps(2))
  with cu(1) [symmetric] n show ?thesis by simp
qed

lemma unquote_quote_chunk:
  assumes "decode_rune s = (r, n)" "s \<noteq> []" "\<not> (r = RuneError \<and> n = 1)"
  shows "unquote (quote_chunk (r, take n s) @ t) = take n s @ unquote t"
proof -
  have n: "1 \<le> n" "n \<le> length s" using decode_rune_width [OF assms(2)] assms(1) by auto
  have mem: "(r, take n s) \<in> set (runes s)" using assms by (simp add: runes.simps [of s])
  note ch = runes_chunk [OF mem]
  show ?thesis
  proof (cases "r < 128")
    case True
    then have b: "take n s = [char_of r]" using ch by simp
    have u: "unquote (CHR 0x5C # CHR ''u'' # CHR ''0'' # CHR ''0'' # hex_digit (r div 16) # hex_digit (r mod 16) # t)
        = char_of r # unquote t"
      using unquote_u [of "[CHR ''0'', CHR ''0'', hex_digit (r div 16), hex_digit (r mod 16)]" r t]
        hex4_zero [of r "[]"] True by (simp add: surrogate_def encode_rune_def)
    have p: "unquote (char_of r # t) = char_of r # unquote t" if "r \<noteq> 92"
    proof -
      have "(char_of r :: char) \<noteq> CHR 0x5C"
        using that True by (simp add: char_of_lt_eq)
      then show ?thesis using True by (intro unquote_ascii) simp_all
    qed
    show ?thesis
      using u p b True by (auto simp: quote_chunk_def unquote_escape esc_char_def eq_char_of char_of_lt_eq)
  next
    case False
    have hd: "128 \<le> (of_char (hd s) :: nat)"
      using ch False n by (cases s; cases n) auto
    have high: "unquote (take n s @ t) = take n s @ unquote t"
      using unquote_high [OF assms(1,2) hd assms(3)] .
    show ?thesis
    proof (cases "r = 8232 \<or> r = 8233")
      case True
      have e: "take n s = encode_rune r"
        using decode_rune_sep [OF assms(1,2) True] .
      have "unquote (CHR 0x5C # CHR ''u'' # (''202'' @ [hex_digit (r mod 16)]) @ t) = encode_rune r @ unquote t"
        using True by (intro unquote_u) (auto simp: hex4_def hex_val_def hex_digit_def surrogate_def)
      with True e show ?thesis by (auto simp: quote_chunk_def RuneError_def)
    next
      case sep: False
      with False assms(3) n high show ?thesis by (auto simp: quote_chunk_def)
    qed
  qed
qed

text \<open>A string that is valid UTF-8 survives encoding and decoding.\<close>

lemma unquote_quote: "valid_utf8 s \<Longrightarrow> unquote (quote s) = s"
proof (induction s rule: runes.induct)
  case (1 s)
  show ?case
  proof (cases "s = []")
    case True
    then show ?thesis by (simp add: quote_def)
  next
    case False
    obtain r n where d: "decode_rune s = (r, n)" by (cases "decode_rune s")
    have step: "\<not> (r = RuneError \<and> n = 1)" "valid_utf8 (drop n s)"
      using valid_utf8_step [OF "1.prems" False d] by auto
    have "quote s = quote_chunk (r, take n s) @ quote (drop n s)"
      using False d by (simp add: quote_def runes.simps [of s])
    then have "unquote (quote s) = take n s @ unquote (quote (drop n s))"
      using unquote_quote_chunk [OF d False step(1)] by simp
    also have "\<dots> = s" using "1.IH" [OF False] step d by simp
    finally show ?thesis .
  qed
qed

section \<open>Numbers\<close>

definition num_char :: "char \<Rightarrow> bool" where
  "num_char c \<longleftrightarrow> is_digit c \<or> c \<in> {CHR ''-'', CHR ''+'', CHR ''.'', CHR ''e'', CHR ''E''}"

text \<open>The integer part: one 0, or digits that do not start with 0.\<close>

definition scan_int :: "bytes \<Rightarrow> (bytes \<times> bytes) option" where
  "scan_int s = (case s of [] \<Rightarrow> None
     | c # r \<Rightarrow> if c = CHR ''0'' then Some ([c], r)
        else if is_digit c then Some (takeWhile is_digit s, dropWhile is_digit s) else None)"

definition scan_frac :: "bytes \<Rightarrow> (bytes \<times> bytes) option" where
  "scan_frac s = (case s of [] \<Rightarrow> Some ([], [])
     | c # r \<Rightarrow>
        if c = CHR ''.'' then
          (if takeWhile is_digit r = [] then None else Some (c # takeWhile is_digit r, dropWhile is_digit r))
        else Some ([], s))"

definition scan_exp :: "bytes \<Rightarrow> (bytes \<times> bytes) option" where
  "scan_exp s = (case s of [] \<Rightarrow> Some ([], [])
     | c # r \<Rightarrow>
        if c = CHR ''e'' \<or> c = CHR ''E'' then
          (let (sg, r') = (case r of d # r' \<Rightarrow> (if d = CHR ''+'' \<or> d = CHR ''-'' then ([d], r') else ([], r))
                           | [] \<Rightarrow> ([], []))
           in if takeWhile is_digit r' = [] then None
              else Some (c # sg @ takeWhile is_digit r', dropWhile is_digit r'))
        else Some ([], s))"

definition minus_split :: "bytes \<Rightarrow> bool \<times> bytes" where
  "minus_split s = (case s of [] \<Rightarrow> (False, []) | c # r \<Rightarrow> if c = CHR ''-'' then (True, r) else (False, s))"

definition scan_num :: "bytes \<Rightarrow> (bytes \<times> bytes) option" where
  "scan_num s = do {
     (a, s1) \<leftarrow> scan_int (snd (minus_split s)); (b, s2) \<leftarrow> scan_frac s1; (c, s3) \<leftarrow> scan_exp s2;
     Some ((if fst (minus_split s) then ''-'' else []) @ a @ b @ c, s3) }"

text \<open>An int64 or int as Marshal writes it, and ParseInt on a literal (None: syntax or range).\<close>

definition int_lit :: "int \<Rightarrow> string" where
  "int_lit i = (if i < 0 then CHR ''-'' # dec (nat (- i)) else dec (nat i))"

definition lit_int :: "string \<Rightarrow> int option" where
  "lit_int s =
     (let ds = snd (minus_split s); i = (if fst (minus_split s) then -1 else 1) * int (digits_val ds)
      in if ds \<noteq> [] \<and> list_all is_digit ds \<and> -(2 ^ 63) \<le> i \<and> i < 2 ^ 63 then Some i else None)"

definition ends_number :: "bytes \<Rightarrow> bool" where
  "ends_number t \<longleftrightarrow> (case t of [] \<Rightarrow> True | c # _ \<Rightarrow> \<not> num_char c)"

lemma digit_hd_dec: "is_digit (hd (dec n))" "dec n = CHR ''0'' # r \<Longrightarrow> r = []"
proof -
  show "is_digit (hd (dec n))" using dec_digits [of n] by (cases "dec n") auto
  show "r = []" if "dec n = CHR ''0'' # r"
  proof (cases "n = 0")
    case True
    with that show ?thesis by (simp add: dec.simps [of 0])
  next
    case False
    with dec_hd [of n] that show ?thesis by simp
  qed
qed

lemma scan_int_dec:
  assumes "ends_number t"
  shows "scan_int (dec n @ t) = Some (dec n, t)"
proof -
  obtain c r where c: "dec n = c # r" by (cases "dec n") auto
  have t: "takeWhile is_digit (dec n @ t) = dec n" "dropWhile is_digit (dec n @ t) = t"
    using assms dec_digits [of n]
    by (auto simp: list_all_iff takeWhile_append2 dropWhile_append2 ends_number_def num_char_def
        split: list.splits)
  show ?thesis
    using t c digit_hd_dec(1) [of n] digit_hd_dec(2) [of n r] by (auto simp: scan_int_def)
qed

lemma scan_tail:
  assumes "ends_number t"
  shows "scan_frac t = Some ([], t)" "scan_exp t = Some ([], t)"
  using assms by (auto simp: scan_frac_def scan_exp_def ends_number_def num_char_def split: list.splits)

lemma minus_split_dec: "minus_split (dec n @ t) = (False, dec n @ t)"
  using dec_digits [of n] by (cases "dec n") (auto simp: minus_split_def is_digit_def)

lemma minus_split_neg: "minus_split (CHR ''-'' # t) = (True, t)"
  by (simp add: minus_split_def)

lemma scan_num_int:
  assumes "ends_number t"
  shows "scan_num (int_lit i @ t) = Some (int_lit i, t)"
  using scan_int_dec [OF assms] scan_tail [OF assms]
  by (simp add: scan_num_def int_lit_def minus_split_dec minus_split_neg)

lemma lit_int_int:
  assumes "-(2 ^ 63) \<le> i" "i < 2 ^ 63"
  shows "lit_int (int_lit i) = Some i"
  using assms dec_digits minus_split_dec [of "nat i" "[]"]
  by (auto simp: lit_int_def int_lit_def minus_split_neg)


section \<open>Documents\<close>

definition is_ws :: "char \<Rightarrow> bool" where
  "is_ws c \<longleftrightarrow> c \<in> {CHR '' '', CHR 0x09, CHR 0x0A, CHR 0x0D}"

abbreviation skip_ws :: "bytes \<Rightarrow> bytes" where "skip_ws \<equiv> dropWhile is_ws"

text \<open>
  One printer for both layouts: \<open>nl d\<close> is what precedes an element at depth \<open>d\<close> (nothing, or a
  newline and the indentation) and \<open>sp\<close> what follows a colon. Empty containers have no inner
  white space, as in Marshal and MarshalIndent.
\<close>

fun render :: "(nat \<Rightarrow> bytes) \<Rightarrow> bytes \<Rightarrow> nat \<Rightarrow> json \<Rightarrow> bytes" where
  "render nl sp d JNull = ''null''"
| "render nl sp d (JBool b) = (if b then ''true'' else ''false'')"
| "render nl sp d (JNum n) = n"
| "render nl sp d (JStr raw) = CHR 0x22 # raw @ [CHR 0x22]"
| "render nl sp d (JArr js) =
     (case js of [] \<Rightarrow> ''[]''
      | _ \<Rightarrow> ''['' @ Join '','' (map (\<lambda>j. nl (Suc d) @ render nl sp (Suc d) j) js) @ nl d @ '']'')"
| "render nl sp d (JObj ms) =
     (case ms of [] \<Rightarrow> ''{}''
      | _ \<Rightarrow> ''{'' @ Join '','' (map (\<lambda>m. nl (Suc d) @ CHR 0x22 # quote (fst m) @ CHR 0x22 # '':'' @ sp
                                 @ render nl sp (Suc d) (snd m)) ms) @ nl d @ ''}'')"

definition compact :: "json \<Rightarrow> bytes" where
  "compact j = render (\<lambda>_. []) [] 0 j"

definition indented :: "json \<Rightarrow> bytes" where
  "indented j = render (\<lambda>d. CHR 0x0A # replicate (2 * d) (CHR '' '')) '' '' 0 j"

text \<open>
  The reader: \<open>d\<close> is how many more containers may be opened (encoding/json refuses a nesting of
  more than 10000), the first argument is fuel; \<open>p_fuel\<close> below shows that
  \<^prop>\<open>2 * length s < f\<close> is enough of it.
\<close>

fun p_value :: "nat \<Rightarrow> nat \<Rightarrow> bytes \<Rightarrow> (json \<times> bytes) option"
  and p_elems :: "nat \<Rightarrow> nat \<Rightarrow> bytes \<Rightarrow> (json list \<times> bytes) option"
  and p_members :: "nat \<Rightarrow> nat \<Rightarrow> bytes \<Rightarrow> ((bytes \<times> json) list \<times> bytes) option"
where
  "p_value 0 d s = None"
| "p_value (Suc f) d s =
     (case skip_ws s of [] \<Rightarrow> None
      | c # r \<Rightarrow>
         if c = CHR 0x22 then map_option (\<lambda>(x, y). (JStr x, y)) (scan_str r)
         else if c = CHR ''['' then
           (if d = 0 then None
            else if HasPrefix (skip_ws r) '']'' then Some (JArr [], drop 1 (skip_ws r))
            else map_option (\<lambda>(x, y). (JArr x, y)) (p_elems f (d - 1) r))
         else if c = CHR ''{'' then
           (if d = 0 then None
            else if HasPrefix (skip_ws r) ''}'' then Some (JObj [], drop 1 (skip_ws r))
            else map_option (\<lambda>(x, y). (JObj x, y)) (p_members f (d - 1) r))
         else if HasPrefix (c # r) ''null'' then Some (JNull, drop 3 r)
         else if HasPrefix (c # r) ''true'' then Some (JBool True, drop 3 r)
         else if HasPrefix (c # r) ''false'' then Some (JBool False, drop 4 r)
         else map_option (\<lambda>(x, y). (JNum x, y)) (scan_num (c # r)))"
| "p_elems 0 d s = None"
| "p_elems (Suc f) d s =
     (case p_value f d s of None \<Rightarrow> None
      | Some (v, s1) \<Rightarrow>
         (case skip_ws s1 of [] \<Rightarrow> None
          | c # r \<Rightarrow>
             if c = CHR '']'' then Some ([v], r)
             else if c = CHR '','' then map_option (\<lambda>(x, y). (v # x, y)) (p_elems f d r)
             else None))"
| "p_members 0 d s = None"
| "p_members (Suc f) d s =
     (case skip_ws s of [] \<Rightarrow> None
      | q # s1 \<Rightarrow>
         if q \<noteq> CHR 0x22 then None
         else (case scan_str s1 of None \<Rightarrow> None
          | Some (k, s2) \<Rightarrow>
             if \<not> HasPrefix (skip_ws s2) '':'' then None
             else (case p_value f d (drop 1 (skip_ws s2)) of None \<Rightarrow> None
              | Some (v, s3) \<Rightarrow>
                 (case skip_ws s3 of [] \<Rightarrow> None
                  | c # r \<Rightarrow>
                     if c = CHR ''}'' then Some ([(unquote k, v)], r)
                     else if c = CHR '','' then map_option (\<lambda>(x, y). ((unquote k, v) # x, y)) (p_members f d r)
                     else None))))"

definition parse_json :: "bytes \<Rightarrow> json option" where
  "parse_json s = (case p_value (2 * length s + 1) 10000 s of
      None \<Rightarrow> None | Some (v, r) \<Rightarrow> if skip_ws r = [] then Some v else None)"

text \<open>What the reader leaves is shorter than what it was given.\<close>

lemma scan_str_shorter: "scan_str s = Some (x, r) \<Longrightarrow> length r < length s"
proof (induction s arbitrary: x r rule: scan_str.induct)
  case (2 c s)
  consider "c = CHR 0x22" | "c = CHR 0x5C" | "c \<noteq> CHR 0x22" "c \<noteq> CHR 0x5C" by blast
  then show ?case
  proof cases
    case 1
    with "2.prems" show ?thesis by simp
  next
    case 2
    show ?thesis
    proof (cases s)
      case Nil
      with "2.prems" 2 show ?thesis by simp
    next
      case (Cons e t)
      with "2.prems" 2 obtain x' where "scan_str t = Some (x', r)"
        by (auto split: if_splits option.splits)
      moreover have "length r < length t"
        using "2.IH"(1) [of e t] "2.IH"(2) [of e t] "2.prems" Cons 2 calculation
        by (auto split: if_splits option.splits)
      ultimately show ?thesis using Cons by simp
    qed
  next
    case 3
    with "2.prems" "2.IH"(3) show ?thesis by (fastforce split: if_splits)
  qed
qed simp

lemma scan_num_shorter: "scan_num s = Some (x, r) \<Longrightarrow> length r < length s"
proof -
  have i: "scan_int u = Some (a, v) \<Longrightarrow> length v < length u" for u a v
    using length_dropWhile_le [of is_digit "tl u"]
    by (cases u) (auto simp: scan_int_def split: if_splits)
  have fr: "scan_frac u = Some (a, v) \<Longrightarrow> length v \<le> length u" for u a v
    using length_dropWhile_le [of is_digit "tl u"]
    by (cases u) (auto simp: scan_frac_def split: if_splits)
  have e: "scan_exp u = Some (a, v) \<Longrightarrow> length v \<le> length u" for u a v
    using length_dropWhile_le [of is_digit "tl u"] length_dropWhile_le [of is_digit "tl (tl u)"]
    by (cases u; cases "tl u") (auto simp: scan_exp_def Let_def split: if_splits)
  have m: "length (snd (minus_split s)) \<le> length s"
    by (cases s) (auto simp: minus_split_def)
  assume "scan_num s = Some (x, r)"
  with m show ?thesis
    by (auto simp: scan_num_def split: Option.bind_splits dest!: i fr e)
qed


lemma skip_ws_le: "length (skip_ws s) \<le> length s"
  by (rule length_dropWhile_le)

lemma p_shorter:
  "p_value f d s = Some (v, r) \<Longrightarrow> length r < length s"
  "p_elems f d s = Some (vs, r) \<Longrightarrow> length r < length s"
  "p_members f d s = Some (ms, r) \<Longrightarrow> length r < length s"
proof (induction f d s and f d s and f d s arbitrary: v r and vs r and ms r
    rule: p_value_p_elems_p_members.induct)
  case (2 f d s)
  then obtain c u where u: "skip_ws s = c # u" by (auto split: list.splits)
  have l: "length u < length s" using skip_ws_le [of s] u by simp
  have w: "length (skip_ws u) \<le> length u" by (rule skip_ws_le)
  have ih: "p_elems f (d - 1) u = Some (xs, r) \<Longrightarrow> length r < length u"
      if "c = CHR ''[''" "d \<noteq> 0" "\<not> HasPrefix (skip_ws u) '']''" for xs
    using "2.IH"(1) [OF u _ that(1-3)] that by simp
  have ih': "p_members f (d - 1) u = Some (xs, r) \<Longrightarrow> length r < length u"
      if "c = CHR ''{''" "d \<noteq> 0" "\<not> HasPrefix (skip_ws u) ''}''" for xs
    using "2.IH"(2) [OF u _ _ that(1-3)] that by simp
  from "2.prems" u l w ih ih' show ?case
    by (auto split: if_splits dest!: scan_str_shorter scan_num_shorter)
next
  case (4 f d s)
  then obtain w s1 where w: "p_value f d s = Some (w, s1)" by (auto split: option.splits)
  with "4.prems" obtain c u where u: "skip_ws s1 = c # u" by (auto split: list.splits)
  have "length s1 < length s" using "4.IH"(1) [OF w] .
  moreover have "length u < length s1" using skip_ws_le [of s1] u by simp
  ultimately show ?case
    using "4.prems" w u "4.IH"(2) [OF w refl u] by (fastforce split: if_splits)
next
  case (6 f d s)
  then obtain s1 where s1: "skip_ws s = CHR 0x22 # s1" by (auto split: list.splits if_splits)
  with "6.prems" obtain k s2 where s2: "scan_str s1 = Some (k, s2)" by (auto split: option.splits)
  with "6.prems" s1 obtain w s3 where s3: "p_value f d (drop 1 (skip_ws s2)) = Some (w, s3)"
      and col: "HasPrefix (skip_ws s2) '':''"
    by (auto split: option.splits if_splits)
  with "6.prems" s1 s2 obtain c u where u: "skip_ws s3 = c # u" by (auto split: list.splits)
  have "length s3 < length (skip_ws s2)"
    using "6.IH"(1) [OF s1 _ s2 refl _ s3] col by fastforce
  then have l: "length s3 < length s2" using skip_ws_le [of s2] by simp
  have "length s2 < length s"
    using scan_str_shorter [OF s2] skip_ws_le [of s] s1 by simp
  moreover have "length u < length s3" using skip_ws_le [of s3] u by simp
  ultimately show ?case
    using "6.prems" s1 s2 s3 col u l "6.IH"(2) [OF s1 _ s2 refl _ s3 refl u] by (fastforce split: if_splits)
qed auto


text \<open>With enough fuel the reader's answer no longer depends on it.\<close>

lemma p_fuel:
  "2 * length s < f \<Longrightarrow> 2 * length s < g \<Longrightarrow> p_value f d s = p_value g d s"
  "2 * length s + 1 < f \<Longrightarrow> 2 * length s + 1 < g \<Longrightarrow> p_elems f d s = p_elems g d s"
  "2 * length s + 1 < f \<Longrightarrow> 2 * length s + 1 < g \<Longrightarrow> p_members f d s = p_members g d s"
proof (induction f d s and f d s and f d s arbitrary: g and g and g
    rule: p_value_p_elems_p_members.induct)
  case (2 f d s)
  from "2.prems" obtain g' where g: "g = Suc g'" by (cases g) simp_all
  show ?case
  proof (cases "skip_ws s")
    case Nil
    then show ?thesis using g by (simp del: dropWhile_eq_Nil_conv)
  next
    case (Cons c u)
    have l: "2 * length u + 1 < f" "2 * length u + 1 < g'"
      using skip_ws_le [of s] Cons "2.prems" g by simp_all
    have e: "p_elems f (d - 1) u = p_elems g' (d - 1) u"
        if "c = CHR ''[''" "d \<noteq> 0" "\<not> HasPrefix (skip_ws u) '']''"
      using "2.IH"(1) [OF Cons _ that l] that by simp
    have m: "p_members f (d - 1) u = p_members g' (d - 1) u"
        if "c = CHR ''{''" "d \<noteq> 0" "\<not> HasPrefix (skip_ws u) ''}''"
      using "2.IH"(2) [OF Cons _ _ that l] that by simp
    show ?thesis using Cons g e m by simp
  qed
next
  case (4 f d s)
  from "4.prems" obtain g' where g: "g = Suc g'" by (cases g) simp_all
  have v: "p_value f d s = p_value g' d s" using "4.prems" g by (intro "4.IH"(1)) simp_all
  show ?case
  proof (cases "p_value f d s")
    case None
    with v [symmetric] g show ?thesis by simp
  next
    case (Some a)
    then obtain w s1 where w: "p_value f d s = Some (w, s1)" by (cases a) auto
    show ?thesis
    proof (cases "skip_ws s1")
      case Nil
      with v [symmetric] w g show ?thesis by (simp del: dropWhile_eq_Nil_conv)
    next
      case (Cons c u)
      have "length u < length s"
        using skip_ws_le [of s1] Cons p_shorter(1) [OF w] by simp
      then have "p_elems f d u = p_elems g' d u" if "c \<noteq> CHR '']''" "c = CHR '',''"
        using "4.prems" g by (intro "4.IH"(2) [OF w refl Cons that]) simp_all
      with v [symmetric] w g Cons show ?thesis by simp
    qed
  qed
next
  case (6 f d s)
  from "6.prems" obtain g' where g: "g = Suc g'" by (cases g) simp_all
  show ?case
  proof (cases "\<exists>s1 k s2. skip_ws s = CHR 0x22 # s1 \<and> scan_str s1 = Some (k, s2) \<and> HasPrefix (skip_ws s2) '':''")
    case False
    then have "p_members (Suc h) d s = None" for h
      by (auto split: list.split option.split simp del: dropWhile_eq_Nil_conv)
    then show ?thesis using g by simp
  next
    case True
    then obtain s1 k s2 where s: "skip_ws s = CHR 0x22 # s1" "scan_str s1 = Some (k, s2)" "HasPrefix (skip_ws s2) '':''"
      by blast
    have l: "length (drop 1 (skip_ws s2)) < length s"
      using scan_str_shorter [OF s(2)] skip_ws_le [of s] skip_ws_le [of s2] s(1) by simp
    have v: "p_value f d (drop 1 (skip_ws s2)) = p_value g' d (drop 1 (skip_ws s2))"
      using s(3) "6.prems" g l by (intro "6.IH"(1) [OF s(1) _ s(2) refl _]) simp_all
    show ?thesis
    proof (cases "\<exists>w s3 c u. p_value f d (drop 1 (skip_ws s2)) = Some (w, s3) \<and> skip_ws s3 = c # u")
      case False
      with s have "p_members (Suc h) d s = None"
          if "p_value h d (drop 1 (skip_ws s2)) = p_value f d (drop 1 (skip_ws s2))" for h
        using that by (auto split: list.split option.split simp del: dropWhile_eq_Nil_conv)
      with v [symmetric] g show ?thesis by simp
    next
      case True
      then obtain w s3 c u where w: "p_value f d (drop 1 (skip_ws s2)) = Some (w, s3)" "skip_ws s3 = c # u"
        by blast
      have "length u < length s"
        using skip_ws_le [of s3] w(2) p_shorter(1) [OF w(1)] l by simp
      then have "p_members f d u = p_members g' d u" if "c \<noteq> CHR ''}''" "c = CHR '',''"
        using s(3) "6.prems" g by (intro "6.IH"(2) [OF s(1) _ s(2) refl _ w(1) refl w(2) that]) simp_all
      with v [symmetric] w g s show ?thesis by simp
    qed
  qed
qed simp_all

subsection \<open>The round trip\<close>

definition raw_ok :: "bytes \<Rightarrow> bool" where
  "raw_ok raw \<longleftrightarrow> (\<forall>t. scan_str (raw @ CHR 0x22 # t) = Some (raw, t))"

text \<open>A document a Go encoder can have written, at most \<open>d\<close> containers deep.\<close>

fun wf_json :: "nat \<Rightarrow> json \<Rightarrow> bool" where
  "wf_json d JNull = True"
| "wf_json d (JBool b) = True"
| "wf_json d (JNum n) = (\<exists>i. n = int_lit i)"
| "wf_json d (JStr raw) = raw_ok raw"
| "wf_json d (JArr js) = (d \<noteq> 0 \<and> (\<forall>j\<in>set js. wf_json (d - 1) j))"
| "wf_json d (JObj ms) = (d \<noteq> 0 \<and> (\<forall>m\<in>set ms. valid_utf8 (fst m) \<and> wf_json (d - 1) (snd m)))"

lemma raw_ok_quote [simp]: "raw_ok (quote s)"
  by (simp add: raw_ok_def scan_str_quote)

definition first_plain :: "bytes \<Rightarrow> bool" where
  "first_plain s \<longleftrightarrow> s \<noteq> [] \<and> \<not> is_ws (hd s) \<and> hd s \<noteq> CHR '']'' \<and> hd s \<noteq> CHR ''}''"

lemma int_lit_shape:
  "int_lit i \<noteq> [] \<and> (is_digit (hd (int_lit i)) \<or> hd (int_lit i) = CHR ''-'')"
  using digit_hd_dec(1) by (auto simp: int_lit_def)

lemma digit_not_special:
  "is_digit c \<or> c = CHR ''-'' \<Longrightarrow> \<not> is_ws c \<and> c \<noteq> CHR '']'' \<and> c \<noteq> CHR ''}'' \<and> c \<noteq> CHR ''[''
     \<and> c \<noteq> CHR ''{'' \<and> c \<noteq> CHR 0x22 \<and> c \<noteq> CHR ''n'' \<and> c \<noteq> CHR ''t'' \<and> c \<noteq> CHR ''f''"
  by (auto simp: is_digit_def is_ws_def)

lemma render_first: "wf_json d j \<Longrightarrow> first_plain (render nl sp k j @ t)"
proof (cases j)
  case (JNum n)
  assume "wf_json d j"
  with JNum obtain i where n: "n = int_lit i" by auto
  with JNum int_lit_shape [of i] digit_not_special [of "hd n"] show ?thesis by (simp add: first_plain_def)
qed (simp_all add: first_plain_def is_ws_def split: list.split)

lemma skip_ws_append: "list_all is_ws w \<Longrightarrow> skip_ws (w @ s) = skip_ws s"
  by (simp add: list_all_iff dropWhile_append2)

lemma skip_ws_first: "first_plain s \<Longrightarrow> skip_ws s = s"
  by (cases s) (auto simp: first_plain_def)


text \<open>\<open>reads d x j\<close>: with enough fuel the reader takes exactly the text \<open>x\<close> and gives \<open>j\<close>.\<close>

definition reads :: "nat \<Rightarrow> bytes \<Rightarrow> json \<Rightarrow> bool" where
  "reads d x j \<longleftrightarrow> (\<forall>f t. ends_number t \<longrightarrow> 2 * length (x @ t) < f \<longrightarrow> p_value f d (x @ t) = Some (j, t))"

definition separator :: "bytes \<Rightarrow> char \<Rightarrow> bool" where
  "separator w c \<longleftrightarrow> list_all is_ws w \<and> (c = CHR '','' \<or> c = CHR '']'' \<or> c = CHR ''}'')"

lemma ends_number_sep: "separator w c \<Longrightarrow> ends_number (w @ c # t)"
  by (cases w) (auto simp: separator_def ends_number_def num_char_def is_digit_def is_ws_def)

lemma skip_ws_sep: "separator w c \<Longrightarrow> skip_ws (w @ c # t) = c # t"
  by (auto simp: separator_def skip_ws_append is_ws_def)

lemma ws_reads:
  assumes "reads d x j" "list_all is_ws w" "\<And>t. skip_ws (x @ t) = x @ t"
  shows "reads d (w @ x) j"
proof -
  have "p_value f d (w @ x @ t) = Some (j, t)"
    if "ends_number t" "2 * length (w @ x @ t) < f" for f t
  proof -
    have "p_value f d (x @ t) = Some (j, t)" using assms(1) that by (simp add: reads_def)
    moreover have "p_value f d (w @ x @ t) = p_value f d (x @ t)"
      using assms(2,3) by (cases f) (simp_all add: skip_ws_append)
    ultimately show ?thesis by simp
  qed
  then show ?thesis by (simp add: reads_def)
qed

lemma p_elems_join:
  assumes "js \<noteq> []" "\<And>j. j \<in> set js \<Longrightarrow> reads d (g j) j" "list_all is_ws w"
    and "2 * length (Join '','' (map g js) @ w @ CHR '']'' # t) + 1 < f"
  shows "p_elems f d (Join '','' (map g js) @ w @ CHR '']'' # t) = Some (js, t)"
  using assms
proof (induction js arbitrary: f)
  case (Cons j js)
  then obtain f' where f: "f = Suc f'" by (cases f) auto
  have r: "reads d (g j) j" using Cons.prems(2) by simp
  show ?case
  proof (cases js)
    case Nil
    have sep: "separator w (CHR '']'')" using Cons.prems(3) by (simp add: separator_def)
    have "p_value f' d (g j @ w @ CHR '']'' # t) = Some (j, w @ CHR '']'' # t)"
      using r ends_number_sep [OF sep] Cons.prems(4) f Nil by (simp add: reads_def)
    then show ?thesis using f Nil skip_ws_sep [OF sep] by simp
  next
    case (Cons j' js')
    define u where "u = Join '','' (map g js) @ w @ CHR '']'' # t"
    have sep: "separator [] (CHR '','')" by (simp add: separator_def)
    have t: "Join '','' (map g (j # js)) @ w @ CHR '']'' # t = g j @ CHR '','' # u"
      using Cons by (simp add: u_def)
    have fu: "2 * length (g j @ CHR '','' # u) + 1 < Suc f'"
      using Cons.prems(4) f unfolding t by simp
    have "p_value f' d (g j @ CHR '','' # u) = Some (j, CHR '','' # u)"
      using r ends_number_sep [OF sep, of u] fu by (simp add: reads_def)
    moreover have "p_elems f' d u = Some (js, t)"
      unfolding u_def using Cons.prems(2,3) fu Cons by (intro Cons.IH) (simp_all add: u_def)
    ultimately show ?thesis using f t skip_ws_sep [OF sep, of u] by simp
  qed
qed simp

lemma p_members_join:
  assumes "ms \<noteq> []" "\<And>m. m \<in> set ms \<Longrightarrow> valid_utf8 (fst m)"
    and "\<And>m. m \<in> set ms \<Longrightarrow> reads d (sp @ g m) (snd m)"
    and "list_all is_ws w" "list_all is_ws nl"
    and "2 * length (Join '','' (map (\<lambda>m. nl @ CHR 0x22 # quote (fst m) @ CHR 0x22 # '':'' @ sp @ g m) ms)
           @ w @ CHR ''}'' # t) + 1 < f"
  shows "p_members f d (Join '','' (map (\<lambda>m. nl @ CHR 0x22 # quote (fst m) @ CHR 0x22 # '':'' @ sp @ g m) ms)
           @ w @ CHR ''}'' # t) = Some (ms, t)"
  using assms
proof (induction ms arbitrary: f)
  case (Cons m ms)
  then obtain f' where f: "f = Suc f'" by (cases f) auto
  have r: "reads d (sp @ g m) (snd m)" and k: "unquote (quote (fst m)) = fst m"
    using Cons.prems(2,3) unquote_quote by simp_all
  have q: "skip_ws (nl @ CHR 0x22 # v) = CHR 0x22 # v" for v
    using skip_ws_append [OF Cons.prems(5)] by (simp add: is_ws_def)
  have col: "\<not> is_ws (CHR '':'')" "HasPrefix (CHR '':'' # v) '':''" for v
    by (simp_all add: is_ws_def HasPrefix_def)
  define h where "h = (\<lambda>m. nl @ CHR 0x22 # quote (fst m) @ CHR 0x22 # '':'' @ sp @ g m)"
  have h: "h m @ v = nl @ CHR 0x22 # quote (fst m) @ CHR 0x22 # CHR '':'' # sp @ g m @ v" for v
    by (simp add: h_def)
  note fuel = Cons.prems(6) [folded h_def]
  show ?case unfolding h_def [symmetric]
  proof (cases ms)
    case Nil
    have sep: "separator w (CHR ''}'')" using Cons.prems(4) by (simp add: separator_def)
    have "p_value f' d (sp @ g m @ w @ CHR ''}'' # t) = Some (snd m, w @ CHR ''}'' # t)"
      using r ends_number_sep [OF sep] fuel f Nil by (simp add: reads_def h_def)
    then show "p_members f d (Join '','' (map h (m # ms)) @ w @ CHR ''}'' # t) = Some (m # ms, t)"
      using f Nil skip_ws_sep [OF sep] by (simp add: h q scan_str_quote col k)
  next
    case (Cons m' ms')
    define u where "u = Join '','' (map h ms) @ w @ CHR ''}'' # t"
    have sep: "separator [] (CHR '','')" by (simp add: separator_def)
    have t: "Join '','' (map h (m # ms)) @ w @ CHR ''}'' # t = h m @ CHR '','' # u"
      using Cons by (simp add: u_def)
    have fu: "2 * length (h m @ CHR '','' # u) + 1 < Suc f'" using fuel f unfolding t by simp
    have "p_value f' d (sp @ g m @ CHR '','' # u) = Some (snd m, CHR '','' # u)"
      using r ends_number_sep [OF sep, of u] fu by (simp add: reads_def h_def)
    moreover have "p_members f' d u = Some (ms, t)"
      unfolding u_def h_def using Cons.prems(2-5) fu Cons by (intro Cons.IH) (simp_all add: u_def h_def)
    ultimately show "p_members f d (Join '','' (map h (m # ms)) @ w @ CHR ''}'' # t) = Some (m # ms, t)"
      using f skip_ws_sep [OF sep, of u] unfolding t by (simp add: h q scan_str_quote col k)
  qed
qed simp


lemma reads_first:
  assumes "\<And>f t. ends_number t \<Longrightarrow> 2 * length (x @ t) < Suc f \<Longrightarrow> p_value (Suc f) d (x @ t) = Some (j, t)"
  shows "reads d x j"
proof -
  have "p_value f d (x @ t) = Some (j, t)" if "ends_number t" "2 * length (x @ t) < f" for f t
    using assms [of t "f - 1"] that by (cases f) simp_all
  then show ?thesis by (simp add: reads_def)
qed

lemma reads_num: "reads d (int_lit i) (JNum (int_lit i))"
proof (rule reads_first)
  fix f and t :: bytes
  assume "ends_number t"
  then have n: "scan_num (int_lit i @ t) = Some (int_lit i, t)" by (rule scan_num_int)
  obtain c r where c: "int_lit i = c # r" using int_lit_shape [of i] by (cases "int_lit i") auto
  then have "is_digit c \<or> c = CHR ''-''" using int_lit_shape [of i] by simp
  then have "skip_ws (c # r @ t) = c # r @ t" "c \<noteq> CHR ''[''" "c \<noteq> CHR ''{''" "c \<noteq> CHR 0x22"
      "\<not> HasPrefix (c # r @ t) ''null''" "\<not> HasPrefix (c # r @ t) ''true''" "\<not> HasPrefix (c # r @ t) ''false''"
    using digit_not_special [of c] by (auto simp: HasPrefix_def)
  with n c show "p_value (Suc f) d (int_lit i @ t) = Some (JNum (int_lit i), t)" by simp
qed

lemma reads_render:
  assumes "\<And>k. list_all is_ws (nl k)" "list_all is_ws sp" "wf_json d j"
  shows "reads d (render nl sp k j) j"
  using assms(3)
proof (induction j arbitrary: d k)
  case JNull
  show ?case by (rule reads_first) (simp add: HasPrefix_def is_ws_def)
next
  case (JBool b)
  show ?case by (rule reads_first) (cases b; simp add: HasPrefix_def is_ws_def)
next
  case (JNum n)
  then show ?case using reads_num by auto
next
  case (JStr raw)
  then have "scan_str (raw @ CHR 0x22 # t) = Some (raw, t)" for t by (simp add: raw_ok_def)
  then show ?case by (intro reads_first) (simp add: is_ws_def)
next
  case (JArr js)
  show ?case
  proof (cases "js = []")
    case True
    then show ?thesis using JArr.prems by (intro reads_first) (simp add: HasPrefix_def is_ws_def)
  next
    case False
    have r: "reads (d - 1) (nl (Suc k) @ render nl sp (Suc k) j) j" if "j \<in> set js" for j
      using that JArr.prems assms(1) render_first skip_ws_first
      by (intro ws_reads JArr.IH) (auto intro: skip_ws_first render_first)
    show ?thesis
    proof (rule reads_first)
      fix f and t :: bytes
      define u where "u = Join '','' (map (\<lambda>j. nl (Suc k) @ render nl sp (Suc k) j) js) @ nl k @ CHR '']'' # t"
      have x: "render nl sp k (JArr js) @ t = CHR ''['' # u"
        using False by (cases js) (simp_all add: u_def)
      assume "2 * length (render nl sp k (JArr js) @ t) < Suc f"
      then have "2 * length u + 1 < f" unfolding x by simp
      then have "p_elems f (d - 1) u = Some (js, t)"
        unfolding u_def using False r assms(1) by (intro p_elems_join) auto
      moreover have "\<not> HasPrefix (skip_ws u) '']''"
      proof -
        obtain j js' where "js = j # js'" using False by (cases js) auto
        then obtain v where v: "u = nl (Suc k) @ render nl sp (Suc k) j @ v" and "wf_json (d - 1) j"
          using JArr.prems unfolding u_def by (cases js') auto
        then have "first_plain (skip_ws u)"
          using render_first skip_ws_first assms(1) by (metis skip_ws_append)
        then show ?thesis by (cases "skip_ws u") (auto simp: first_plain_def HasPrefix_def)
      qed
      ultimately show "p_value (Suc f) d (render nl sp k (JArr js) @ t) = Some (JArr js, t)"
        using JArr.prems unfolding x by (simp add: is_ws_def)
    qed
  qed
next
  case (JObj ms)
  show ?case
  proof (cases "ms = []")
    case True
    then show ?thesis using JObj.prems by (intro reads_first) (simp add: HasPrefix_def is_ws_def)
  next
    case False
    have r: "reads (d - 1) (sp @ render nl sp (Suc k) (snd m)) (snd m)" if "m \<in> set ms" for m
      using that JObj.prems assms(2)
      by (intro ws_reads JObj.IH [of m]) (auto intro: skip_ws_first render_first simp: snds.simps)
    show ?thesis
    proof (rule reads_first)
      fix f and t :: bytes
      define u where "u = Join '','' (map (\<lambda>m. nl (Suc k) @ CHR 0x22 # quote (fst m) @ CHR 0x22 # '':'' @ sp
          @ render nl sp (Suc k) (snd m)) ms) @ nl k @ CHR ''}'' # t"
      have x: "render nl sp k (JObj ms) @ t = CHR ''{'' # u"
        using False by (cases ms) (simp_all add: u_def)
      assume "2 * length (render nl sp k (JObj ms) @ t) < Suc f"
      then have "2 * length u + 1 < f" unfolding x by simp
      then have "p_members f (d - 1) u = Some (ms, t)"
        unfolding u_def using False r assms(1) JObj.prems by (intro p_members_join) auto
      moreover have "\<not> HasPrefix (skip_ws u) ''}''"
      proof -
        obtain v where "u = nl (Suc k) @ CHR 0x22 # v"
          using False unfolding u_def by (cases ms; cases "tl ms") auto
        then have "skip_ws u = CHR 0x22 # v" using skip_ws_append [OF assms(1)] by (simp add: is_ws_def)
        then show ?thesis by (simp add: HasPrefix_def)
      qed
      ultimately show "p_value (Suc f) d (render nl sp k (JObj ms) @ t) = Some (JObj ms, t)"
        using JObj.prems unfolding x by (simp add: is_ws_def)
    qed
  qed
qed

text \<open>The reader gives back what either printer wrote.\<close>

lemma reads_parse: "reads 10000 x j \<Longrightarrow> parse_json x = Some j"
proof -
  assume r: "reads 10000 x j"
  have "p_value (2 * length x + 1) 10000 (x @ []) = Some (j, [])"
    using r [unfolded reads_def, rule_format, of "[]" "2 * length x + 1"] by (simp add: ends_number_def del: p_value.simps)
  then show ?thesis by (simp add: parse_json_def del: p_value.simps)
qed

theorem parse_compact: "wf_json 10000 j \<Longrightarrow> parse_json (compact j) = Some j"
  unfolding compact_def by (intro reads_parse reads_render) simp_all

theorem parse_indented: "wf_json 10000 j \<Longrightarrow> parse_json (indented j) = Some j"
  unfolding indented_def by (intro reads_parse reads_render) (simp_all add: is_ws_def list_all_iff)

section \<open>Values\<close>

text \<open>How the decoding of one value went: well, with a type error remembered, or ended by an Unmarshaler.\<close>

datatype dstat = DOk | DSaved | DAbort

type_synonym 'a decoder = "json \<Rightarrow> 'a \<Rightarrow> 'a \<times> dstat"

fun both :: "dstat \<Rightarrow> dstat \<Rightarrow> dstat" where
  "both DOk s = s"
| "both DSaved s = (if s = DOk then DSaved else s)"
| "both DAbort s = DAbort"

definition dec_str :: "bytes decoder" where
  "dec_str j cur = (case j of JNull \<Rightarrow> (cur, DOk) | JStr raw \<Rightarrow> (unquote raw, DOk) | _ \<Rightarrow> (cur, DSaved))"

definition dec_bool :: "bool decoder" where
  "dec_bool j cur = (case j of JNull \<Rightarrow> (cur, DOk) | JBool b \<Rightarrow> (b, DOk) | _ \<Rightarrow> (cur, DSaved))"

text \<open>An int or int64 field.\<close>

definition dec_int :: "int decoder" where
  "dec_int j cur = (case j of JNull \<Rightarrow> (cur, DOk)
     | JNum n \<Rightarrow> (case lit_int n of Some i \<Rightarrow> (i, DOk) | None \<Rightarrow> (cur, DSaved))
     | _ \<Rightarrow> (cur, DSaved))"

text \<open>Elements of a slice are decoded into fresh zero values.\<close>

fun dec_elems :: "'a decoder \<Rightarrow> 'a \<Rightarrow> json list \<Rightarrow> 'a list \<times> dstat" where
  "dec_elems d z [] = ([], DOk)"
| "dec_elems d z (j # js) =
     (case d j z of (x, st) \<Rightarrow>
        if st = DAbort then ([x], DAbort)
        else (case dec_elems d z js of (xs, st') \<Rightarrow> (x # xs, both st st')))"

definition dec_list :: "'a decoder \<Rightarrow> 'a \<Rightarrow> 'a list decoder" where
  "dec_list d z j cur = (case j of JNull \<Rightarrow> ([], DOk) | JArr js \<Rightarrow> dec_elems d z js | _ \<Rightarrow> (cur, DSaved))"

text \<open>A []byte is a base64 string; an array of small numbers is accepted too.\<close>

definition dec_byte :: "char decoder" where
  "dec_byte j cur = (case dec_int j (of_char cur) of (i, st) \<Rightarrow>
     if st = DOk \<and> 0 \<le> i \<and> i < 256 then (char_of (nat i), DOk) else (cur, DSaved))"

definition dec_bytes :: "bytes decoder" where
  "dec_bytes j cur = (case j of
       JStr raw \<Rightarrow> (case b64_decode (unquote raw) of Inr b \<Rightarrow> (b, DOk) | Inl _ \<Rightarrow> (cur, DSaved))
     | _ \<Rightarrow> dec_list dec_byte (char_of (0 :: nat)) j cur)"

text \<open>Time.UnmarshalJSON reads the literal itself; what it refuses ends the decoding.\<close>

definition dec_time :: "gotime decoder" where
  "dec_time j cur = (case j of JNull \<Rightarrow> (cur, DOk)
     | JStr raw \<Rightarrow> (case parse_rfc3339 raw of Some t \<Rightarrow> (t, DOk) | None \<Rightarrow> (cur, DAbort))
     | _ \<Rightarrow> (cur, DAbort))"

text \<open>A pointer field: null makes it nil, anything else decodes into the value it points to.\<close>

definition dec_ptr :: "'a decoder \<Rightarrow> 'a \<Rightarrow> 'a option decoder" where
  "dec_ptr d z j cur = (case j of JNull \<Rightarrow> (None, DOk)
     | _ \<Rightarrow> (case d j (case cur of None \<Rightarrow> z | Some x \<Rightarrow> x) of (x, st) \<Rightarrow> (Some x, st)))"

text \<open>A struct: its fields by name, each with the decoder of its type.\<close>

type_synonym 'r field = "string \<times> 'r decoder"

definition fld :: "string \<Rightarrow> 'a decoder \<Rightarrow> ('r \<Rightarrow> 'a) \<Rightarrow> (('a \<Rightarrow> 'a) \<Rightarrow> 'r \<Rightarrow> 'r) \<Rightarrow> 'r field" where
  "fld n d get upd = (n, \<lambda>j r. (case d j (get r) of (x, st) \<Rightarrow> (upd (\<lambda>_. x) r, st)))"

definition fold_name :: "bytes \<Rightarrow> nat list" where
  "fold_name s = map (fold_ascii \<circ> fst) (runes s)"

fun find_named :: "(string \<Rightarrow> bool) \<Rightarrow> 'r field list \<Rightarrow> 'r decoder option" where
  "find_named p [] = None"
| "find_named p (f # fs) = (if p (fst f) then Some (snd f) else find_named p fs)"

definition find_field :: "'r field list \<Rightarrow> bytes \<Rightarrow> 'r decoder option" where
  "find_field fs k = (case find_named (\<lambda>n. n = k) fs of Some d \<Rightarrow> Some d
     | None \<Rightarrow> find_named (\<lambda>n. fold_name n = fold_name k) fs)"

fun dec_members :: "'r field list \<Rightarrow> (bytes \<times> json) list \<Rightarrow> 'r \<Rightarrow> 'r \<times> dstat" where
  "dec_members fs [] r = (r, DOk)"
| "dec_members fs ((k, j) # ms) r =
     (case find_field fs k of None \<Rightarrow> dec_members fs ms r
      | Some d \<Rightarrow>
         (case d j r of (r', st) \<Rightarrow>
            if st = DAbort then (r', DAbort)
            else (case dec_members fs ms r' of (r'', st') \<Rightarrow> (r'', both st st'))))"

definition dec_struct :: "'r field list \<Rightarrow> 'r decoder" where
  "dec_struct fs j cur = (case j of JNull \<Rightarrow> (cur, DOk) | JObj ms \<Rightarrow> dec_members fs ms cur | _ \<Rightarrow> (cur, DSaved))"

text \<open>json.Unmarshal: the value it leaves in its target, and whether it returned nil.\<close>

definition Unmarshal :: "'a decoder \<Rightarrow> 'a \<Rightarrow> bytes \<Rightarrow> 'a \<times> bool" where
  "Unmarshal d cur s = (case parse_json s of None \<Rightarrow> (cur, False)
     | Some j \<Rightarrow> (case d j cur of (v, st) \<Rightarrow> (v, st = DOk)))"

text \<open>For a caller that drops the value on an error.\<close>

definition unmarshal :: "'a decoder \<Rightarrow> 'a \<Rightarrow> bytes \<Rightarrow> 'a option" where
  "unmarshal d z s = (case Unmarshal d z s of (v, ok) \<Rightarrow> if ok then Some v else None)"

subsection \<open>Writing values\<close>

definition jstr :: "bytes \<Rightarrow> json" where "jstr s = JStr (quote s)"

definition jint :: "int \<Rightarrow> json" where "jint i = JNum (int_lit i)"

definition jbytes :: "bytes \<Rightarrow> json" where "jbytes b = JStr (b64_encode b)"

definition jtime :: "gotime \<Rightarrow> json" where "jtime t = JStr (format_rfc3339 t)"

text \<open>A field with omitempty.\<close>

definition omit :: "bool \<Rightarrow> string \<Rightarrow> json \<Rightarrow> (bytes \<times> json) list" where
  "omit e k j = (if e then [] else [(k, j)])"

definition int64 :: "int \<Rightarrow> bool" where "int64 i \<longleftrightarrow> -(2 ^ 63) \<le> i \<and> i < 2 ^ 63"

lemma plain_quote_id:
  assumes "\<forall>c\<in>set s. 32 \<le> (of_char c :: nat) \<and> (of_char c :: nat) < 128 \<and> c \<notin> {CHR 0x22, CHR 0x5C, CHR ''<'', CHR ''>'', CHR ''&''}"
  shows "quote s = s"
  using assms
proof (induction s)
  case Nil
  then show ?case by (simp add: quote_def)
next
  case (Cons c s)
  have c: "decode_rune (c # s) = (of_char c, 1)"
    using Cons.prems by (simp add: decode_rune_def)
  have "(of_char c :: nat) \<noteq> of_char (CHR 0x22)" "(of_char c :: nat) \<noteq> of_char (CHR 0x5C)"
      "(of_char c :: nat) \<noteq> of_char (CHR ''<'')" "(of_char c :: nat) \<noteq> of_char (CHR ''>'')"
      "(of_char c :: nat) \<noteq> of_char (CHR ''&'')"
    using Cons.prems unfolding of_char_eq_iff by simp_all
  moreover have "32 \<le> (of_char c :: nat)" "(of_char c :: nat) < 128" using Cons.prems by simp_all
  ultimately have "quote_chunk (of_char c, [c]) = [c]" by (simp add: quote_chunk_def)
  with Cons c show ?case by (simp add: quote_def runes.simps [of "c # s"])
qed


named_theorems json_rt \<open>decoding what was encoded\<close>

definition plain :: "bytes \<Rightarrow> bool" where
  "plain s \<longleftrightarrow> (\<forall>c\<in>set s. 32 \<le> (of_char c :: nat) \<and> (of_char c :: nat) < 128
      \<and> c \<notin> {CHR 0x22, CHR 0x5C, CHR ''<'', CHR ''>'', CHR ''&''})"

lemma plain_quote: "plain s \<Longrightarrow> quote s = s"
  unfolding plain_def by (rule plain_quote_id)

lemma plain_ascii: "plain s \<Longrightarrow> ascii s"
  by (auto simp: plain_def ascii_def list_all_iff)

lemma plain_raw: "plain s \<Longrightarrow> raw_ok s" "plain s \<Longrightarrow> unquote s = s"
proof -
  assume p: "plain s"
  show "raw_ok s" using raw_ok_quote [of s] plain_quote [OF p] by simp
  show "unquote s = s"
    using unquote_quote [of s] plain_quote [OF p] valid_utf8_ascii [OF plain_ascii [OF p]] by simp
qed

lemma b64_plain: "plain (b64_encode b)"
proof -
  have "32 \<le> (of_char c :: nat) \<and> (of_char c :: nat) < 128
      \<and> c \<notin> {CHR 0x22, CHR 0x5C, CHR ''<'', CHR ''>'', CHR ''&''}" if "c \<in> set (b64_encode b)" for c
    using b64_char_range [OF b64_encode_chars [OF that]] by (cases "c = CHR ''&''") simp_all
  then show ?thesis by (simp add: plain_def)
qed

lemma digits_plain: "list_all is_digit s \<Longrightarrow> plain s"
  by (auto simp: plain_def list_all_iff is_digit_def)

lemma plain_append [simp]: "plain (a @ b) \<longleftrightarrow> plain a \<and> plain b"
  by (auto simp: plain_def)

lemma plain_Cons: "plain (c # s) \<longleftrightarrow> plain [c] \<and> plain s"
  by (simp add: plain_def)

lemma plain_rfc3339: "plain (format_rfc3339 t)"
proof -
  have pad: "plain (dec_pad k n)" for k n
    using dec_pad_digits [of k n] by (simp add: digits_plain)
  have ch: "plain [CHR ''-'']" "plain [CHR ''T'']" "plain [CHR '':'']" "plain [CHR ''.'']" "plain [CHR ''Z'']"
      "plain [CHR ''+'']"
    by (simp_all add: plain_def)
  have "plain (trim_zeros (dec_pad 9 n))" for n
    using trim_zeros_digits [OF dec_pad_digits [of 9 n]] by (simp add: digits_plain)
  then have fr: "plain (format_frac n)" for n
    using ch by (simp add: format_frac_def plain_Cons [of "CHR ''.''" "trim_zeros _"]) (simp add: plain_def)
  have z: "plain (format_zone off)" for off
    using ch pad by (simp add: format_zone_def plain_Cons [of _ "dec_pad _ _"]
        plain_Cons [of _ "dec_pad _ _ @ _"] plain_Cons [of _ "_ # _"])
  show ?thesis
    using ch pad fr z by (simp add: format_rfc3339_def plain_Cons [of _ "dec_pad _ _ @ _"])
qed

lemma dec_jstr [json_rt]: "valid_utf8 s \<Longrightarrow> dec_str (jstr s) cur = (s, DOk)"
  by (simp add: dec_str_def jstr_def unquote_quote)

lemma dec_jint [json_rt]: "int64 i \<Longrightarrow> dec_int (jint i) cur = (i, DOk)"
  by (simp add: dec_int_def jint_def int64_def lit_int_int)

lemma dec_jbool [json_rt]: "dec_bool (JBool b) cur = (b, DOk)"
  by (simp add: dec_bool_def)

lemma dec_jbytes [json_rt]: "dec_bytes (jbytes b) cur = (b, DOk)"
  by (simp add: dec_bytes_def jbytes_def plain_raw(2) [OF b64_plain] b64_decode_encode)

lemma dec_jtime [json_rt]: "wf_time t \<Longrightarrow> marshals t \<Longrightarrow> dec_time (jtime t) cur = (t, DOk)"
  by (simp add: dec_time_def jtime_def parse_format_rfc3339)

lemma dec_elems_map: "(\<And>x. x \<in> set xs \<Longrightarrow> d (e x) z = (x, DOk)) \<Longrightarrow> dec_elems d z (map e xs) = (xs, DOk)"
  by (induction xs) simp_all

lemma dec_jlist [json_rt]:
  "(\<And>x. x \<in> set xs \<Longrightarrow> d (e x) z = (x, DOk)) \<Longrightarrow> dec_list d z (JArr (map e xs)) cur = (xs, DOk)"
  by (simp add: dec_list_def dec_elems_map)

lemma dec_ptr_null [json_rt]: "dec_ptr d z JNull cur = (None, DOk)"
  by (simp add: dec_ptr_def)

lemma dec_ptr_obj [json_rt]: "d (JObj ms) z = (x, DOk) \<Longrightarrow> dec_ptr d z (JObj ms) None = (Some x, DOk)"
  by (simp add: dec_ptr_def)

lemma dec_omit [json_rt]:
  "dec_members fs (omit e k j @ ms) r = (if e then dec_members fs ms r else dec_members fs ((k, j) # ms) r)"
  "dec_members fs (omit e k j) r = (if e then (r, DOk) else dec_members fs [(k, j)] r)"
  by (simp_all add: omit_def)

lemma dec_struct_obj [json_rt]: "dec_struct fs (JObj ms) r = dec_members fs ms r"
  by (simp add: dec_struct_def)

text \<open>A member whose field is found and decoded without error.\<close>

lemma dec_member_ok:
  assumes "find_field fs k = Some d" "d j r = (r', DOk)"
  shows "dec_members fs ((k, j) # ms) r = dec_members fs ms r'"
  using assms by (cases "dec_members fs ms r'") simp

lemma find_named_hit: "find_field (fld n d g u # fs) n = Some (snd (fld n d g u))"
  by (simp add: find_field_def fld_def)

lemma find_named_skip:
  "n \<noteq> k \<Longrightarrow> find_named (\<lambda>n. n = k) fs = Some x \<Longrightarrow> find_field (fld n d g u # fs) k = Some x"
  by (simp add: find_field_def fld_def)

lemma wf_jstr [simp]: "wf_json d (jstr s)" by (simp add: jstr_def)

lemma wf_jint [simp]: "wf_json d (jint i)" by (auto simp: jint_def)

lemma wf_jbytes [simp]: "wf_json d (jbytes b)" by (simp add: jbytes_def plain_raw(1) [OF b64_plain])

lemma wf_jtime [simp]: "wf_json d (jtime t)" by (simp add: jtime_def plain_raw(1) [OF plain_rfc3339])

lemma set_omit: "(\<forall>m\<in>set (omit e k j). P m) \<longleftrightarrow> e \<or> P (k, j)"
  by (simp add: omit_def)

lemma unmarshal_compact:
  "wf_json 10000 j \<Longrightarrow> unmarshal d z (compact j) = (case d j z of (v, st) \<Rightarrow> if st = DOk then Some v else None)"
  by (simp add: unmarshal_def Unmarshal_def parse_compact split: prod.split)

lemma unmarshal_indented:
  "wf_json 10000 j \<Longrightarrow> unmarshal d z (indented j) = (case d j z of (v, st) \<Rightarrow> if st = DOk then Some v else None)"
  by (simp add: unmarshal_def Unmarshal_def parse_indented split: prod.split)

end
