(* ===== verification/Icfx_Format.thy ===== *)
theory Icfx_Format
  imports Icfx_Json
begin

text \<open>
  The .icfx container (format/icfx.go): the profile byte and what it says of the layout, the
  container metadata and its JSON, the legacy buffered parser, the framing of sealed metadata
  inside the payload, and the streaming header parser that locates payload and signature
  without reading the payload. Lengths from the wire keep their width: a uint16 or uint32 read
  is a word, the uint64 payload length is read as an int64 (two's complement) and refused when
  it does not fit.
\<close>

section \<open>Profiles\<close>

type_synonym Profile = "8 word"

definition MagicBytes :: bytes where "MagicBytes = ''ICFX''"

definition ErrInvalidMagic :: go_error where "ErrInvalidMagic = Sentinel ''invalid ICFX magic bytes''"

definition ErrInvalidFormat :: go_error where "ErrInvalidFormat = Sentinel ''invalid ICFX format''"

definition ErrUnsupportedProfile :: go_error where
  "ErrUnsupportedProfile = Sentinel ''unsupported ICFX profile''"

definition LegacyProfilePublicBuffered :: Profile where "LegacyProfilePublicBuffered = 0x01"

definition LegacyProfilePrivateBuffered :: Profile where "LegacyProfilePrivateBuffered = 0x02"

definition LegacyProfilePrivateStreaming :: Profile where "LegacyProfilePrivateStreaming = 0x03"

definition LegacyProfilePublicStreaming :: Profile where "LegacyProfilePublicStreaming = 0x04"

definition ProfilePrivate :: Profile where "ProfilePrivate = 0x05"

definition ProfilePublic :: Profile where "ProfilePublic = 0x06"

lemmas profile_bytes = LegacyProfilePublicBuffered_def LegacyProfilePrivateBuffered_def
  LegacyProfilePrivateStreaming_def LegacyProfilePublicStreaming_def ProfilePrivate_def ProfilePublic_def

definition Valid :: "Profile \<Rightarrow> bool" where
  "Valid p \<longleftrightarrow> p = LegacyProfilePublicBuffered \<or> p = LegacyProfilePrivateBuffered
     \<or> p = LegacyProfilePrivateStreaming \<or> p = LegacyProfilePublicStreaming
     \<or> p = ProfilePrivate \<or> p = ProfilePublic"

definition Legacy :: "Profile \<Rightarrow> bool" where
  "Legacy p \<longleftrightarrow> p = LegacyProfilePublicBuffered \<or> p = LegacyProfilePrivateBuffered
     \<or> p = LegacyProfilePrivateStreaming \<or> p = LegacyProfilePublicStreaming"

definition Public :: "Profile \<Rightarrow> bool" where
  "Public p \<longleftrightarrow> p = LegacyProfilePublicBuffered \<or> p = LegacyProfilePublicStreaming \<or> p = ProfilePublic"

definition Streaming :: "Profile \<Rightarrow> bool" where
  "Streaming p \<longleftrightarrow> p = LegacyProfilePrivateStreaming \<or> p = LegacyProfilePublicStreaming
     \<or> p = ProfilePrivate \<or> p = ProfilePublic"

definition SealsMetadata :: "Profile \<Rightarrow> bool" where
  "SealsMetadata p \<longleftrightarrow> p = LegacyProfilePrivateBuffered \<or> p = LegacyProfilePrivateStreaming
     \<or> p = ProfilePrivate \<or> p = ProfilePublic"

lemmas profile_preds = Valid_def Legacy_def Public_def Streaming_def SealsMetadata_def

section \<open>Metadata\<close>

record Metadata =
  SenderFingerprint :: bytes
  Timestamp :: gotime
  OriginalFilename :: bytes
  IsSigned :: bool

definition zero_Metadata :: Metadata where
  "zero_Metadata = \<lparr>SenderFingerprint = [], Timestamp = zero_time, OriginalFilename = [], IsSigned = False\<rparr>"

definition Metadata_Equal :: "Metadata \<Rightarrow> Metadata \<Rightarrow> bool" where
  "Metadata_Equal m o' \<longleftrightarrow> SenderFingerprint m = SenderFingerprint o'
     \<and> OriginalFilename m = OriginalFilename o' \<and> IsSigned m = IsSigned o'
     \<and> Time_Equal (Timestamp m) (Timestamp o')"

definition Metadata_fields :: "Metadata field list" where
  "Metadata_fields =
     [fld ''sender_fingerprint'' dec_str SenderFingerprint SenderFingerprint_update,
      fld ''timestamp'' dec_time Timestamp Timestamp_update,
      fld ''original_filename'' dec_str OriginalFilename OriginalFilename_update,
      fld ''is_signed'' dec_bool IsSigned IsSigned_update]"

definition enc_Metadata :: "Metadata \<Rightarrow> json" where
  "enc_Metadata m = JObj [(''sender_fingerprint'', jstr (SenderFingerprint m)),
     (''timestamp'', jtime (Timestamp m)),
     (''original_filename'', jstr (OriginalFilename m)),
     (''is_signed'', JBool (IsSigned m))]"

definition Marshal_Metadata :: "Metadata \<Rightarrow> bytes result" where
  "Marshal_Metadata m = andthen (marshal_time (Timestamp m)) (\<lambda>_. Inr (compact (enc_Metadata m)))"

definition Unmarshal_Metadata :: "bytes \<Rightarrow> Metadata result" where
  "Unmarshal_Metadata bs = (case unmarshal (dec_struct Metadata_fields) zero_Metadata bs of
      Some m \<Rightarrow> Inr m | None \<Rightarrow> Inl (Errorf ''json''))"

text \<open>Metadata as Go code can hold it: text that is UTF-8 and a real date.\<close>

definition wf_Metadata :: "Metadata \<Rightarrow> bool" where
  "wf_Metadata m \<longleftrightarrow> valid_utf8 (SenderFingerprint m) \<and> valid_utf8 (OriginalFilename m)
     \<and> wf_time (Timestamp m)"

section \<open>Legacy buffered containers\<close>

record Container =
  c_Profile :: Profile
  c_Metadata :: Metadata
  c_Payload :: bytes
  c_Signature :: bytes
  c_Private :: bool

definition HeaderPrefixLen :: nat where "HeaderPrefixLen = 7"

abbreviation slice :: "bytes \<Rightarrow> nat \<Rightarrow> nat \<Rightarrow> bytes" where
  "slice bs i j \<equiv> take (j - i) (drop i bs)"

definition byte_at :: "bytes \<Rightarrow> nat \<Rightarrow> 8 word" where
  "byte_at bs i = of_nat (of_char (bs ! i))"

definition Deserialize :: "bytes \<Rightarrow> Container result" where
  "Deserialize data =
     (if length data < HeaderPrefixLen then Inl ErrInvalidFormat
      else if slice data 0 4 \<noteq> MagicBytes then Inl ErrInvalidMagic
      else let profile = byte_at data 4 in
       if \<not> Legacy profile \<or> Streaming profile then Inl ErrUnsupportedProfile
       else let metaLen = unat (get_uint16 (slice data 5 7)) in
        if length data < HeaderPrefixLen + metaLen + 4 then Inl ErrInvalidFormat
        else andthen (if metaLen = 0 then Inr zero_Metadata
                      else wrapping ''parsing metadata: %w''
                        (Unmarshal_Metadata (slice data HeaderPrefixLen (HeaderPrefixLen + metaLen))))
         (\<lambda>meta.
           let offset = HeaderPrefixLen + metaLen;
               plen = unat (get_uint32 (slice data offset (offset + 4)));
               offset = offset + 4
           in if length data - offset < plen + 2 then Inl ErrInvalidFormat
              else let payload = slice data offset (offset + plen);
                       offset = offset + plen;
                       sigLen = unat (get_uint16 (slice data offset (offset + 2)));
                       offset = offset + 2
                   in if sigLen > 0 \<and> length data < offset + sigLen then Inl ErrInvalidFormat
                      else Inr \<lparr>c_Profile = profile, c_Metadata = meta, c_Payload = payload,
                                 c_Signature = slice data offset (offset + sigLen),
                                 c_Private = (metaLen = 0)\<rparr>))"

section \<open>Sealed metadata inside the payload\<close>

definition EncodePayload :: "Metadata \<Rightarrow> bytes \<Rightarrow> bytes result" where
  "EncodePayload meta filedata =
     andthen (wrapping ''marshaling inner metadata: %w'' (Marshal_Metadata meta))
       (\<lambda>metaJSON.
         if length metaJSON > 65535 then Inl (Errorf ''inner metadata too large: %d bytes'')
         else Inr (put_uint16 (of_nat (length metaJSON)) @ metaJSON @ filedata))"

definition DecodePayload :: "bytes \<Rightarrow> (Metadata \<times> bytes) result" where
  "DecodePayload plaintext =
     (if length plaintext < 2 then Inl ErrInvalidFormat
      else let metaLen = unat (get_uint16 (slice plaintext 0 2)) in
       if length plaintext < 2 + metaLen then Inl ErrInvalidFormat
       else andthen (wrapping ''parsing inner metadata: %w''
               (Unmarshal_Metadata (slice plaintext 2 (2 + metaLen))))
             (\<lambda>meta. Inr (meta, drop (2 + metaLen) plaintext)))"

section \<open>The prefix and the streaming header\<close>

definition ParseHeaderPrefix :: "bytes \<Rightarrow> (Profile \<times> nat) result" where
  "ParseHeaderPrefix head =
     (if length head < HeaderPrefixLen then Inl ErrInvalidFormat
      else if slice head 0 4 \<noteq> MagicBytes then Inl ErrInvalidMagic
      else if \<not> Valid (byte_at head 4) then Inl ErrUnsupportedProfile
      else Inr (byte_at head 4, unat (get_uint16 (slice head 5 7))))"

text \<open>Rewrites the two length bytes; on a short slice the code panics.\<close>

definition ZeroMetaLen :: "bytes \<Rightarrow> bytes result" where
  "ZeroMetaLen head =
     (if length head < HeaderPrefixLen
      then Inl (Sentinel ''format.ZeroMetaLen: head shorter than HeaderPrefixLen'')
      else Inr (take 5 head @ put_uint16 0 @ drop 7 head))"

record StreamHeader =
  sh_Profile :: Profile
  sh_Private :: bool
  HeaderMeta :: Metadata
  HeaderRaw :: bytes
  PayloadStart :: int
  PayloadLen :: int
  sh_Signature :: bytes

definition MaxInt64 :: int where "MaxInt64 = 2 ^ 63 - 1"

definition ParseStreamHeader :: "reader \<Rightarrow> StreamHeader result" where
  "ParseStreamHeader r =
     andthen (wrapping ''reading header prefix: %w'' (ReadFull r HeaderPrefixLen)) (\<lambda>(head, r).
     andthen (ParseHeaderPrefix head) (\<lambda>(profile, metaLen).
     if \<not> Streaming profile then Inl ErrUnsupportedProfile
     else
     andthen (if metaLen = 0 then Inr (zero_Metadata, [], r)
              else andthen (wrapping ''reading header metadata: %w'' (ReadFull r metaLen)) (\<lambda>(mbuf, r).
                   andthen (wrapping ''parsing header metadata: %w'' (Unmarshal_Metadata mbuf)) (\<lambda>m.
                   Inr (m, mbuf, r)))) (\<lambda>(meta, raw, r).
     andthen (wrapping ''reading payload length: %w'' (ReadFull r 8)) (\<lambda>(plbuf, r).
     let start = int (HeaderPrefixLen + metaLen + 8); plen = sint (get_uint64 plbuf) in
     if plen < 0 \<or> plen > MaxInt64 - start - 2 then Inl ErrInvalidFormat
     else
     andthen (wrapping ''seeking to signature: %w'' (SeekStart r (start + plen))) (\<lambda>r.
     andthen (wrapping ''reading signature length: %w'' (ReadFull r 2)) (\<lambda>(slbuf, r).
     let sigLen = unat (get_uint16 slbuf) in
     andthen (if sigLen > 0 then wrapping ''reading signature: %w'' (ReadFull r sigLen) else Inr ([], r)) (\<lambda>(sig, r).
     Inr \<lparr>sh_Profile = profile, sh_Private = (metaLen = 0), HeaderMeta = meta, HeaderRaw = raw,
          PayloadStart = start, PayloadLen = plen, sh_Signature = sig\<rparr>)))))))"

text \<open>The layout a streaming container has on the wire, as the encryptor writes it.\<close>

definition stream_prefix :: "Profile \<Rightarrow> bytes \<Rightarrow> nat \<Rightarrow> bytes" where
  "stream_prefix p raw plen = MagicBytes @ [char_of (unat p)] @ put_uint16 (of_nat (length raw)) @ raw
     @ put_uint64 (of_nat plen)"

definition stream_container :: "Profile \<Rightarrow> bytes \<Rightarrow> bytes \<Rightarrow> bytes \<Rightarrow> bytes" where
  "stream_container p raw payload sig = stream_prefix p raw (length payload) @ payload
     @ put_uint16 (of_nat (length sig)) @ sig"

definition buffered_container :: "Profile \<Rightarrow> bytes \<Rightarrow> bytes \<Rightarrow> bytes \<Rightarrow> bytes" where
  "buffered_container p raw payload sig = MagicBytes @ [char_of (unat p)] @ put_uint16 (of_nat (length raw)) @ raw
     @ put_uint32 (of_nat (length payload)) @ payload @ put_uint16 (of_nat (length sig)) @ sig"

section \<open>Metadata survives its JSON\<close>

lemma wf_enc_Metadata: "wf_json 10000 (enc_Metadata m)"
  by (simp add: enc_Metadata_def valid_utf8_ascii ascii_def)

lemma find_Metadata:
  "find_field Metadata_fields ''sender_fingerprint'' = Some (snd (fld ''sender_fingerprint'' dec_str SenderFingerprint SenderFingerprint_update))"
  "find_field Metadata_fields ''timestamp'' = Some (snd (fld ''timestamp'' dec_time Timestamp Timestamp_update))"
  "find_field Metadata_fields ''original_filename'' = Some (snd (fld ''original_filename'' dec_str OriginalFilename OriginalFilename_update))"
  "find_field Metadata_fields ''is_signed'' = Some (snd (fld ''is_signed'' dec_bool IsSigned IsSigned_update))"
  by (simp_all add: Metadata_fields_def find_field_def fld_def)

lemma Unmarshal_Marshal_Metadata:
  assumes "wf_Metadata m" "Marshal_Metadata m = Inr bs"
  shows "Unmarshal_Metadata bs = Inr m"
proof -
  have bs: "bs = compact (enc_Metadata m)" "marshals (Timestamp m)"
    using assms(2) by (auto simp: Marshal_Metadata_def marshal_time_def split: if_splits)
  have "dec_struct Metadata_fields (enc_Metadata m) zero_Metadata = (m, DOk)"
    using assms(1) bs(2)
    by (simp add: enc_Metadata_def json_rt find_Metadata fld_def wf_Metadata_def zero_Metadata_def)
  then show ?thesis by (simp add: Unmarshal_Metadata_def bs unmarshal_compact wf_enc_Metadata)
qed


lemma Marshal_Metadata_short:
  assumes "plain (SenderFingerprint m)" "plain (OriginalFilename m)" "marshals (Timestamp m)"
    and "length (SenderFingerprint m) + length (OriginalFilename m) \<le> 60000"
  shows "\<exists>js. Marshal_Metadata m = Inr js \<and> length js \<le> 65535"
proof -
  have q: "quote (SenderFingerprint m) = SenderFingerprint m" "quote (OriginalFilename m) = OriginalFilename m"
      "quote ''sender_fingerprint'' = ''sender_fingerprint''" "quote ''timestamp'' = ''timestamp''"
      "quote ''original_filename'' = ''original_filename''" "quote ''is_signed'' = ''is_signed''"
    using assms(1,2) by (simp_all add: plain_quote plain_def)
  have "length (compact (enc_Metadata m)) =
      length (SenderFingerprint m) + length (OriginalFilename m) + length (format_rfc3339 (Timestamp m)) + (if IsSigned m then 80 else 81)"
    by (simp add: compact_def enc_Metadata_def jstr_def jtime_def q)
  then have "length (compact (enc_Metadata m)) \<le> 65535"
    using assms(4) length_rfc3339 [of "Timestamp m"] by simp
  then show ?thesis using assms(3) by (simp add: Marshal_Metadata_def marshal_time_def)
qed

section \<open>Lemmas on the framing\<close>

lemma byte_at_char [simp]: "byte_at (a @ [char_of (unat p)] @ b) (length a) = p"
  using unsigned_less [where ?'a = nat, of p] by (simp add: byte_at_def nth_append)

lemma length_Magic [simp]: "length MagicBytes = 4"
  by (simp add: MagicBytes_def)

lemma take_drop_exact: "length a = n \<Longrightarrow> take n (a @ b) = a" "length a = n \<Longrightarrow> drop n (a @ b) = b"
  by auto

text \<open>A parsed prefix: magic, a valid profile byte, a 16-bit length.\<close>

lemma ParseHeaderPrefix_Inr_iff:
  "ParseHeaderPrefix head = Inr (p, n) \<longleftrightarrow> 7 \<le> length head \<and> take 4 head = MagicBytes
     \<and> p = byte_at head 4 \<and> Valid p \<and> n = unat (get_uint16 (slice head 5 7))"
  by (auto simp: ParseHeaderPrefix_def HeaderPrefixLen_def)

lemma ParseHeaderPrefix_layout:
  assumes "Valid p" "n < 65536"
  shows "ParseHeaderPrefix (MagicBytes @ [char_of (unat p)] @ put_uint16 (of_nat n) @ t) = Inr (p, n)"
proof -
  let ?h = "MagicBytes @ [char_of (unat p)] @ put_uint16 (of_nat n) @ t"
  have "byte_at ?h 4 = p" using byte_at_char [of MagicBytes p] by simp
  moreover have "slice ?h 5 7 = put_uint16 (of_nat n)" by (simp add: take_drop_exact)
  ultimately show ?thesis using assms by (simp add: ParseHeaderPrefix_Inr_iff)
qed

lemma get_uint64_signed: "0 \<le> sint (w :: 64 word) \<Longrightarrow> sint w = int (unat w)"
proof -
  assume "0 \<le> sint w"
  then have b: "\<not> bit (uint w) 63" by (simp add: sint_uint signed_take_bit_nonnegative_iff)
  have "take_bit (Suc 63) (uint w) = uint w" using unsigned_less [where ?'a = int, of w] by (simp add: take_bit_int_eq_self)
  with b have "take_bit 63 (uint w) = uint w" unfolding take_bit_Suc_from_most by simp
  with b show ?thesis by (simp add: sint_uint signed_take_bit_eq_if_positive)
qed


text \<open>Reading a known prefix off a reader.\<close>

lemma ReadFull_app:
  assumes "unread r = a @ t" "length a = n"
  shows "\<exists>r'. ReadFull r n = Inr (a, r') \<and> unread r' = t \<and> rd_data r' = rd_data r"
  using ReadFull_exact [OF assms] unread_advance [OF assms(1)] assms(2) by auto

lemma ReadFull_split:
  assumes "ReadFull r n = Inr (b, r')"
  shows "unread r = b @ unread r' \<and> length b = n \<and> rd_data r' = rd_data r"
proof -
  from assms have n: "n \<le> length (unread r)" "b = take n (unread r)" "r' = r\<lparr>rd_pos := rd_pos r + n\<rparr>"
    by (auto simp: ReadFull_Inr_iff)
  then have "unread r' = drop n (unread r)" by (simp add: unread_def add.commute)
  with n show ?thesis by simp
qed

definition meta_of_raw :: "bytes \<Rightarrow> Metadata result" where
  "meta_of_raw raw = (if raw = [] then Inr zero_Metadata else Unmarshal_Metadata raw)"

text \<open>The two optional parts of the header: the plaintext metadata and the signature.\<close>

definition read_meta :: "reader \<Rightarrow> nat \<Rightarrow> (Metadata \<times> bytes \<times> reader) result" where
  "read_meta r metaLen = (if metaLen = 0 then Inr (zero_Metadata, [], r)
     else andthen (wrapping ''reading header metadata: %w'' (ReadFull r metaLen)) (\<lambda>(mbuf, r).
          andthen (wrapping ''parsing header metadata: %w'' (Unmarshal_Metadata mbuf)) (\<lambda>m.
          Inr (m, mbuf, r))))"

definition read_sig :: "reader \<Rightarrow> nat \<Rightarrow> (bytes \<times> reader) result" where
  "read_sig r sigLen = (if sigLen > 0 then wrapping ''reading signature: %w'' (ReadFull r sigLen) else Inr ([], r))"

lemma read_meta_split:
  assumes "read_meta r n = Inr (m, raw, r')"
  shows "unread r = raw @ unread r' \<and> length raw = n \<and> rd_data r' = rd_data r \<and> meta_of_raw raw = Inr m"
  using assms ReadFull_split
  by (auto simp: read_meta_def meta_of_raw_def split: if_splits)

lemma read_meta_app:
  assumes "unread r = raw @ t" "meta_of_raw raw = Inr m"
  shows "\<exists>r'. read_meta r (length raw) = Inr (m, raw, r') \<and> unread r' = t \<and> rd_data r' = rd_data r"
  using assms ReadFull_app [OF assms(1) refl]
  by (auto simp: read_meta_def meta_of_raw_def split: if_splits)

lemma read_sig_split:
  assumes "read_sig r n = Inr (sig, r')"
  shows "unread r = sig @ unread r' \<and> length sig = n"
  using assms ReadFull_split by (auto simp: read_sig_def split: if_splits)

lemma read_sig_app:
  assumes "unread r = sig @ t"
  shows "\<exists>r'. read_sig r (length sig) = Inr (sig, r')"
  using ReadFull_app [OF assms refl] by (auto simp: read_sig_def)

text \<open>The parser as the sequence of its reads.\<close>

lemma ParseStreamHeader_steps:
  "ParseStreamHeader r =
     andthen (wrapping ''reading header prefix: %w'' (ReadFull r 7)) (\<lambda>(head, r).
     andthen (ParseHeaderPrefix head) (\<lambda>(profile, metaLen).
     if \<not> Streaming profile then Inl ErrUnsupportedProfile
     else andthen (read_meta r metaLen) (\<lambda>(meta, raw, r).
     andthen (wrapping ''reading payload length: %w'' (ReadFull r 8)) (\<lambda>(plbuf, r).
     if sint (get_uint64 plbuf) < 0 \<or> sint (get_uint64 plbuf) > MaxInt64 - int (15 + metaLen) - 2
     then Inl ErrInvalidFormat
     else andthen (wrapping ''reading signature length: %w''
            (ReadFull (r\<lparr>rd_pos := 15 + metaLen + nat (sint (get_uint64 plbuf))\<rparr>) 2)) (\<lambda>(slbuf, r).
     andthen (read_sig r (unat (get_uint16 slbuf))) (\<lambda>(sig, r).
     Inr \<lparr>sh_Profile = profile, sh_Private = (metaLen = 0), HeaderMeta = meta, HeaderRaw = raw,
          PayloadStart = int (15 + metaLen), PayloadLen = sint (get_uint64 plbuf), sh_Signature = sig\<rparr>))))))"
proof -
  have seek: "wrapping m (SeekStart r (int n + k)) = Inr (r\<lparr>rd_pos := n + nat k\<rparr>)" if "\<not> k < 0" for m r n k
    using that by (simp add: SeekStart_def nat_add_distrib)
  show ?thesis
    unfolding ParseStreamHeader_def read_meta_def [symmetric] read_sig_def [symmetric] HeaderPrefixLen_def Let_def
    by (intro arg_cong2 [where f = andthen] refl ext)
       (auto intro!: arg_cong2 [where f = andthen] ext simp: seek split: prod.split simp del: of_nat_add)
qed


lemma prefix_bytes:
  assumes "ParseHeaderPrefix head = Inr (p, n)" "length head = 7"
  shows "head = MagicBytes @ [char_of (unat p)] @ put_uint16 (of_nat n)"
proof -
  from assms have m: "take 4 head = MagicBytes" and p: "p = byte_at head 4"
    and n: "n = unat (get_uint16 (slice head 5 7))"
    by (auto simp: ParseHeaderPrefix_Inr_iff)
  have "head = take 4 head @ drop 4 head" by simp
  also have "drop 4 head = head ! 4 # drop 5 head"
    using assms(2) Cons_nth_drop_Suc [of 4 head] by simp
  also have "head ! 4 = char_of (unat p)"
    by (simp add: p byte_at_def unat_of_nat)
  also have "drop 5 head = put_uint16 (of_nat n)"
    using assms(2) by (simp add: n)
  finally show ?thesis using m by simp
qed

text \<open>What the streaming parser accepts is a streaming container, possibly followed by more bytes.\<close>

lemma ParseStreamHeader_layout:
  assumes "ParseStreamHeader (new_reader data) = Inr sh"
  obtains payload rest where
    "data = stream_container (sh_Profile sh) (HeaderRaw sh) payload (sh_Signature sh) @ rest"
    "Streaming (sh_Profile sh)" "meta_of_raw (HeaderRaw sh) = Inr (HeaderMeta sh)"
    "sh_Private sh = (HeaderRaw sh = [])" "length (HeaderRaw sh) < 65536"
    "PayloadStart sh = int (15 + length (HeaderRaw sh))" "PayloadLen sh = int (length payload)"
    "PayloadStart sh + PayloadLen sh + 2 \<le> MaxInt64" "length (sh_Signature sh) < 65536"
proof -
  from assms obtain head r1 p n meta raw r2 plbuf r3 slbuf r5 sig r6 where
      head: "ReadFull (new_reader data) 7 = Inr (head, r1)"
    and pre: "ParseHeaderPrefix head = Inr (p, n)" and st: "Streaming p"
    and meta: "read_meta r1 n = Inr (meta, raw, r2)"
    and pl: "ReadFull r2 8 = Inr (plbuf, r3)"
    and ge: "0 \<le> sint (get_uint64 plbuf)" and le: "sint (get_uint64 plbuf) \<le> MaxInt64 - int (15 + n) - 2"
    and sl: "ReadFull (r3\<lparr>rd_pos := 15 + n + nat (sint (get_uint64 plbuf))\<rparr>) 2 = Inr (slbuf, r5)"
    and sg: "read_sig r5 (unat (get_uint16 slbuf)) = Inr (sig, r6)"
    and sh: "sh = \<lparr>sh_Profile = p, sh_Private = (n = 0), HeaderMeta = meta, HeaderRaw = raw,
          PayloadStart = int (15 + n), PayloadLen = sint (get_uint64 plbuf), sh_Signature = sig\<rparr>"
    unfolding ParseStreamHeader_steps by (auto split: if_splits)
  note h = ReadFull_split [OF head, simplified]
  note m = read_meta_split [OF meta]
  note q = ReadFull_split [OF pl]
  note l = ReadFull_split [OF sl, simplified]
  note g = read_sig_split [OF sg]
  define k where "k = unat (get_uint64 plbuf)"
  have k: "sint (get_uint64 plbuf) = int k" using get_uint64_signed [OF ge] by (simp add: k_def)
  have dat: "data = head @ raw @ plbuf @ unread r3" using h m q by simp
  have rest: "drop k (unread r3) = slbuf @ sig @ unread r6"
  proof -
    have "drop k (unread r3) = drop (15 + n + k) data"
      using h m q unfolding dat by simp
    also have "\<dots> = slbuf @ unread r5" using l h m q k by simp
    finally show ?thesis using g by simp
  qed
  have kl: "k \<le> length (unread r3)"
  proof (rule ccontr)
    assume "\<not> ?thesis"
    then have "drop k (unread r3) = []" by simp
    with rest l show False by auto
  qed
  define payload where "payload = take k (unread r3)"
  have "length payload = k" using kl by (simp add: payload_def)
  moreover have "unread r3 = payload @ slbuf @ sig @ unread r6"
    using rest append_take_drop_id [of k "unread r3"] by (simp add: payload_def)
  moreover have "head = MagicBytes @ [char_of (unat p)] @ put_uint16 (of_nat (length raw))"
    using prefix_bytes [OF pre] h m by simp
  moreover have "plbuf = put_uint64 (of_nat k)" using q by (simp add: k_def)
  moreover have "slbuf = put_uint16 (of_nat (length sig))" using l g by simp
  moreover have "n < 65536" using pre unat_lt_16 by (auto simp: ParseHeaderPrefix_Inr_iff)
  moreover have "length sig < 65536" using g unat_lt_16 by simp
  moreover have "n = 0 \<longleftrightarrow> raw = []" using m by auto
  ultimately show thesis
    using m k le dat st
    by (intro that [of payload "unread r6"])
      (simp_all add: sh stream_container_def stream_prefix_def)
qed

text \<open>And every streaming container whose lengths fit is accepted.\<close>

lemma ParseStreamHeader_accepts:
  assumes "Streaming p" "meta_of_raw raw = Inr m" "length raw < 65536" "length sig < 65536"
    and "int (length payload) \<le> MaxInt64 - int (15 + length raw) - 2"
  shows "ParseStreamHeader (new_reader (stream_container p raw payload sig @ rest)) =
    Inr \<lparr>sh_Profile = p, sh_Private = (raw = []), HeaderMeta = m, HeaderRaw = raw,
         PayloadStart = int (15 + length raw), PayloadLen = int (length payload), sh_Signature = sig\<rparr>"
proof -
  let ?head = "MagicBytes @ [char_of (unat p)] @ put_uint16 (of_nat (length raw))"
  let ?plen = "put_uint64 (of_nat (length payload))" and ?slen = "put_uint16 (of_nat (length sig))"
  let ?data = "?head @ raw @ ?plen @ payload @ ?slen @ sig @ rest"
  have dat: "stream_container p raw payload sig @ rest = ?data"
    by (simp add: stream_container_def stream_prefix_def)
  have v: "Valid p" using assms(1) by (auto simp: profile_preds)
  obtain r1 where r1: "ReadFull (new_reader ?data) 7 = Inr (?head, r1)"
      "unread r1 = raw @ ?plen @ payload @ ?slen @ sig @ rest" "rd_data r1 = ?data"
    using ReadFull_app [of "new_reader ?data" ?head _ 7] by auto
  obtain r2 where r2: "read_meta r1 (length raw) = Inr (m, raw, r2)"
      "unread r2 = ?plen @ payload @ ?slen @ sig @ rest" "rd_data r2 = ?data"
    using read_meta_app [OF r1(2) assms(2)] r1(3) by auto
  obtain r3 where r3: "ReadFull r2 8 = Inr (?plen, r3)" "rd_data r3 = ?data"
    using ReadFull_app [OF r2(2), of 8] r2(3) by auto
  have big: "length payload < 2 ^ 63" using assms(5) by (simp add: MaxInt64_def)
  then have plen: "sint (get_uint64 ?plen) = int (length payload)"
    by (simp add: signed_of_nat signed_take_bit_int_eq_self)
  have "unread (r3\<lparr>rd_pos := 15 + length raw + length payload\<rparr>) = ?slen @ sig @ rest"
    using r3(2) take_drop_exact(2) [of "?head @ raw @ ?plen @ payload" "15 + length raw + length payload" "?slen @ sig @ rest"]
    by simp
  then obtain r5 where r5: "ReadFull (r3\<lparr>rd_pos := 15 + length raw + length payload\<rparr>) 2 = Inr (?slen, r5)"
      "unread r5 = sig @ rest"
    using ReadFull_app [of "r3\<lparr>rd_pos := 15 + length raw + length payload\<rparr>" ?slen "sig @ rest" 2] by auto
  obtain r6 where r6: "read_sig r5 (length sig) = Inr (sig, r6)" using read_sig_app [OF r5(2)] by auto
  show ?thesis
    unfolding dat ParseStreamHeader_steps r1(1)
    using assms r2(1) r3(1) r5(1) r6 plen ParseHeaderPrefix_layout [OF v assms(3), of "[]"]
    by simp
qed


section \<open>The buffered layout\<close>

lemma Deserialize_accepts:
  assumes "Legacy p" "\<not> Streaming p" "meta_of_raw raw = Inr m" "length raw < 65536" "length sig < 65536"
    and "length payload < 4294967296"
  shows "Deserialize (buffered_container p raw payload sig @ rest) =
    Inr \<lparr>c_Profile = p, c_Metadata = m, c_Payload = payload, c_Signature = sig, c_Private = (raw = [])\<rparr>"
proof -
  let ?head = "MagicBytes @ [char_of (unat p)] @ put_uint16 (of_nat (length raw))"
  let ?plen = "put_uint32 (of_nat (length payload))" and ?slen = "put_uint16 (of_nat (length sig))"
  define D where "D = buffered_container p raw payload sig @ rest"
  have dat: "D = ?head @ raw @ ?plen @ payload @ ?slen @ sig @ rest"
    by (simp add: D_def buffered_container_def)
  have magic: "slice D 0 4 = MagicBytes" by (simp add: dat)
  have prof: "byte_at D 4 = p" using byte_at_char [of MagicBytes p] by (simp add: dat)
  have mlen: "unat (get_uint16 (slice D 5 7)) = length raw"
    using assms(4) by (simp add: dat take_drop_exact)
  have d7: "drop 7 D = raw @ ?plen @ payload @ ?slen @ sig @ rest"
    using take_drop_exact(2) [of ?head 7] by (simp add: dat)
  have raw: "slice D 7 (7 + length raw) = raw" by (simp add: d7)
  have o1: "drop (7 + length raw) D = ?plen @ payload @ ?slen @ sig @ rest"
    using arg_cong [OF d7, of "drop (length raw)"] by (simp add: add.commute)
  have plen: "unat (get_uint32 (slice D (7 + length raw) (7 + length raw + 4))) = length payload"
    using assms(6) by (simp add: o1 unat_of_nat)
  have o2: "drop (7 + length raw + 4) D = payload @ ?slen @ sig @ rest"
    using arg_cong [OF o1, of "drop 4"] by (simp add: add.commute)
  have pay: "slice D (7 + length raw + 4) (7 + length raw + 4 + length payload) = payload" unfolding o2 by simp
  have o3: "drop (7 + length raw + 4 + length payload) D = ?slen @ sig @ rest"
    using arg_cong [OF o2, of "drop (length payload)"] by (simp add: add.commute)
  have slen: "unat (get_uint16 (slice D (7 + length raw + 4 + length payload)
      (7 + length raw + 4 + length payload + 2))) = length sig"
    unfolding o3 using assms(5) by simp
  have o4: "drop (7 + length raw + 4 + length payload + 2) D = sig @ rest"
    using arg_cong [OF o3, of "drop 2"] by (simp add: add.commute)
  have sg: "slice D (7 + length raw + 4 + length payload + 2)
      (7 + length raw + 4 + length payload + 2 + length sig) = sig"
    unfolding o4 by simp
  have len: "length D = 13 + length raw + length payload + length sig + length rest" by (simp add: dat)
  have meta: "(if length raw = 0 then Inr zero_Metadata else wrapping w (Unmarshal_Metadata raw)) = Inr m" for w
    using assms(3) by (simp add: meta_of_raw_def split: if_splits)
  show ?thesis
    unfolding D_def [symmetric] Deserialize_def HeaderPrefixLen_def Let_def prof mlen raw plen slen sg pay magic meta
    using assms(1,2) len by simp
qed

lemma drop_slice: "a \<le> b \<Longrightarrow> drop a xs = slice xs a b @ drop b xs"
  by (metis append_take_drop_id drop_drop le_add_diff_inverse2)

lemma Deserialize_layout:
  assumes "Deserialize data = Inr c"
  obtains raw rest where
    "data = buffered_container (c_Profile c) raw (c_Payload c) (c_Signature c) @ rest"
    "Legacy (c_Profile c)" "\<not> Streaming (c_Profile c)" "meta_of_raw raw = Inr (c_Metadata c)"
    "c_Private c = (raw = [])" "length raw < 65536" "length (c_Signature c) < 65536"
    "length (c_Payload c) < 4294967296"
proof -
  define p n k l where "p = byte_at data 4" and "n = unat (get_uint16 (slice data 5 7))"
    and "k = unat (get_uint32 (slice data (7 + n) (7 + n + 4)))"
    and "l = unat (get_uint16 (slice data (7 + n + 4 + k) (7 + n + 4 + k + 2)))"
  note defs = p_def [symmetric] n_def [symmetric] k_def [symmetric] l_def [symmetric]
  from assms obtain m where
      len: "7 \<le> length data" "take 4 data = MagicBytes" "7 + n + 4 \<le> length data"
        "k + 2 \<le> length data - (7 + n + 4)" "l > 0 \<longrightarrow> 7 + n + 4 + k + 2 + l \<le> length data"
    and prof: "Legacy p" "\<not> Streaming p"
    and meta: "(if n = 0 then Inr zero_Metadata
        else wrapping ''parsing metadata: %w'' (Unmarshal_Metadata (slice data 7 (7 + n)))) = Inr m"
    and c: "c = \<lparr>c_Profile = p, c_Metadata = m, c_Payload = slice data (7 + n + 4) (7 + n + 4 + k),
        c_Signature = slice data (7 + n + 4 + k + 2) (7 + n + 4 + k + 2 + l), c_Private = (n = 0)\<rparr>"
    unfolding Deserialize_def Let_def HeaderPrefixLen_def defs by (auto split: if_splits simp: defs)
  let ?raw = "slice data 7 (7 + n)" and ?pay = "slice data (7 + n + 4) (7 + n + 4 + k)"
  let ?sig = "slice data (7 + n + 4 + k + 2) (7 + n + 4 + k + 2 + l)"
  have tot: "7 + n + 4 + k + 2 + l \<le> length data" using len(3-5) by (cases "l > 0") auto
  have lens: "length ?raw = n" "length ?pay = k" "length ?sig = l" using tot by simp_all
  have pre: "take 7 data = MagicBytes @ [char_of (unat p)] @ put_uint16 (of_nat n)"
  proof (rule prefix_bytes)
    show "ParseHeaderPrefix (take 7 data) = Inr (p, n)"
      using len(1,2) prof(1) by (auto simp: ParseHeaderPrefix_Inr_iff p_def n_def byte_at_def profile_preds drop_take)
  qed (use len(1) in simp)
  have "data = take 7 data @ drop 7 data" by simp
  also have "drop 7 data = ?raw @ drop (7 + n) data" by (rule drop_slice) simp
  also have "drop (7 + n) data = slice data (7 + n) (7 + n + 4) @ drop (7 + n + 4) data" by (rule drop_slice) simp
  also have "drop (7 + n + 4) data = ?pay @ drop (7 + n + 4 + k) data" by (rule drop_slice) simp
  also have "drop (7 + n + 4 + k) data = slice data (7 + n + 4 + k) (7 + n + 4 + k + 2)
      @ drop (7 + n + 4 + k + 2) data"
    by (rule drop_slice) simp
  also have "drop (7 + n + 4 + k + 2) data = ?sig @ drop (7 + n + 4 + k + 2 + l) data" by (rule drop_slice) simp
  also have "slice data (7 + n) (7 + n + 4) = put_uint32 (of_nat k)" using tot by (simp add: k_def)
  also have "slice data (7 + n + 4 + k) (7 + n + 4 + k + 2) = put_uint16 (of_nat l)" using tot by (simp add: l_def)
  finally have "data = buffered_container p ?raw ?pay ?sig @ drop (7 + n + 4 + k + 2 + l) data"
    unfolding buffered_container_def lens pre by simp
  moreover have "meta_of_raw ?raw = Inr m" using meta lens by (auto simp: meta_of_raw_def split: if_splits)
  moreover have "(n = 0) = (?raw = [])" using lens(1) by auto
  moreover have "n < 65536" "l < 65536" "k < 4294967296"
    using unat_lt_16 unat_lt_32 by (simp_all add: n_def l_def k_def)
  ultimately show thesis
    using prof lens by (intro that [of ?raw "drop (7 + n + 4 + k + 2 + l) data"]) (simp_all only: c Container.simps not_False_eq_True)
qed

section \<open>Properties\<close>

text \<open>
  C3. ParseStreamHeader accepts exactly the streaming layout. It succeeds if and only if the input
  is a container of a streaming profile around some payload (possibly followed by more bytes)
  whose header block is empty or parses as metadata and whose end stays within the int64 range,
  and what it returns is that container's profile, header block, payload offsets and signature.
\<close>

theorem ParseStreamHeader_iff:
  "ParseStreamHeader (new_reader data) = Inr sh \<longleftrightarrow>
     (\<exists>p raw m payload sig rest.
        data = stream_container p raw payload sig @ rest
        \<and> Streaming p \<and> meta_of_raw raw = Inr m \<and> length raw < 65536 \<and> length sig < 65536
        \<and> int (15 + length raw) + int (length payload) + 2 \<le> MaxInt64
        \<and> sh = \<lparr>sh_Profile = p, sh_Private = (raw = []), HeaderMeta = m, HeaderRaw = raw,
             PayloadStart = int (15 + length raw), PayloadLen = int (length payload), sh_Signature = sig\<rparr>)"
  (is "?L = ?R")
proof
  assume ?L
  then show ?R
  proof (rule ParseStreamHeader_layout)
    fix payload rest
    assume "data = stream_container (sh_Profile sh) (HeaderRaw sh) payload (sh_Signature sh) @ rest"
      and "Streaming (sh_Profile sh)" "meta_of_raw (HeaderRaw sh) = Inr (HeaderMeta sh)"
      and "sh_Private sh = (HeaderRaw sh = [])" "length (HeaderRaw sh) < 65536"
      and "PayloadStart sh = int (15 + length (HeaderRaw sh))" "PayloadLen sh = int (length payload)"
      and "PayloadStart sh + PayloadLen sh + 2 \<le> MaxInt64" "length (sh_Signature sh) < 65536"
    then show ?R
      by (intro exI [of _ "sh_Profile sh"] exI [of _ "HeaderRaw sh"] exI [of _ "HeaderMeta sh"]
          exI [of _ payload] exI [of _ "sh_Signature sh"] exI [of _ rest]) simp
  qed
next
  assume ?R
  then show ?L by (auto simp: ParseStreamHeader_accepts)
qed

text \<open>
  The same for the buffered parser: Deserialize succeeds exactly on the legacy buffered layout
  with lengths that fit their fields, and returns its parts.
\<close>

theorem Deserialize_iff:
  "Deserialize data = Inr c \<longleftrightarrow>
     (\<exists>p raw m payload sig rest.
        data = buffered_container p raw payload sig @ rest
        \<and> Legacy p \<and> \<not> Streaming p \<and> meta_of_raw raw = Inr m \<and> length raw < 65536 \<and> length sig < 65536
        \<and> length payload < 4294967296
        \<and> c = \<lparr>c_Profile = p, c_Metadata = m, c_Payload = payload, c_Signature = sig, c_Private = (raw = [])\<rparr>)"
  (is "?L = ?R")
proof
  assume ?L
  then show ?R
  proof (rule Deserialize_layout)
    fix raw rest
    assume "data = buffered_container (c_Profile c) raw (c_Payload c) (c_Signature c) @ rest"
      and "Legacy (c_Profile c)" "\<not> Streaming (c_Profile c)" "meta_of_raw raw = Inr (c_Metadata c)"
      and "c_Private c = (raw = [])" "length raw < 65536" "length (c_Signature c) < 65536"
      and "length (c_Payload c) < 4294967296"
    then show ?R
      by (intro exI [of _ "c_Profile c"] exI [of _ raw] exI [of _ "c_Metadata c"]
          exI [of _ "c_Payload c"] exI [of _ "c_Signature c"] exI [of _ rest]) simp
  qed
next
  assume ?R
  then show ?L by (auto simp: Deserialize_accepts)
qed

text \<open>
  ZeroMetaLen panics exactly on a short slice; otherwise it changes nothing but the two length
  bytes, and a prefix that parsed still parses, to the same profile with no header block.
\<close>

theorem ZeroMetaLen_correct:
  "case ZeroMetaLen head of
     Inl _ \<Rightarrow> length head < 7
   | Inr head' \<Rightarrow> length head' = length head \<and> take 5 head' = take 5 head \<and> drop 7 head' = drop 7 head
       \<and> (\<forall>p n. ParseHeaderPrefix head = Inr (p, n) \<longleftrightarrow> n = unat (get_uint16 (slice head 5 7)) \<and> ParseHeaderPrefix head' = Inr (p, 0))"
proof (cases "length head < 7")
  case True
  then show ?thesis by (simp add: ZeroMetaLen_def HeaderPrefixLen_def)
next
  case False
  define h' where "h' = take 5 head @ put_uint16 0 @ drop 7 head"
  have z: "ZeroMetaLen head = Inr h'" using False by (simp add: ZeroMetaLen_def HeaderPrefixLen_def h'_def)
  have t5: "take 5 h' = take 5 head" using False by (simp add: h'_def)
  have "take 4 h' = take 4 (take 5 h')" by simp
  then have t4: "take 4 h' = take 4 head" using t5 by simp
  have b: "byte_at h' 4 = byte_at head 4" using False by (simp add: byte_at_def h'_def nth_append)
  have l: "slice h' 5 7 = put_uint16 0" using False by (simp add: h'_def)
  have len: "length h' = length head" "drop 7 h' = drop 7 head" using False by (simp_all add: h'_def)
  have "get_uint16 (slice h' 5 7) = 0" unfolding l by simp
  then have "ParseHeaderPrefix head = Inr (p, n)
      \<longleftrightarrow> n = unat (get_uint16 (slice head 5 7)) \<and> ParseHeaderPrefix h' = Inr (p, 0)" for p n
    using False len t4 b by (auto simp: ParseHeaderPrefix_Inr_iff)
  with z t5 len show ?thesis by simp
qed

text \<open>
  Sealed metadata round trip: whatever EncodePayload wrote, DecodePayload splits back into the
  same metadata and exactly the file bytes.
\<close>

theorem DecodePayload_EncodePayload:
  assumes "wf_Metadata meta" "EncodePayload meta filedata = Inr out"
  shows "DecodePayload out = Inr (meta, filedata)"
proof -
  from assms(2) obtain js where js: "Marshal_Metadata meta = Inr js" "length js \<le> 65535"
      "out = put_uint16 (of_nat (length js)) @ js @ filedata"
    by (auto simp: EncodePayload_def split: if_splits)
  have "unat (get_uint16 (slice out 0 2)) = length js" using js(2) by (simp add: js(3))
  moreover have "slice out 2 (2 + length js) = js" "drop (2 + length js) out = filedata"
    by (simp_all add: js(3))
  ultimately show ?thesis
    using Unmarshal_Marshal_Metadata [OF assms(1) js(1)] js(3) by (simp add: DecodePayload_def)
qed

definition sample_meta :: Metadata where
  "sample_meta = \<lparr>SenderFingerprint = ''ab12'',
     Timestamp = zero_time\<lparr>t_year := 2024, t_month := 2, t_day := 29\<rparr>,
     OriginalFilename = ''a.txt'', IsSigned = True\<rparr>"

theorem DecodePayload_EncodePayload_witness:
  "\<exists>out. EncodePayload sample_meta ''hello'' = Inr out \<and> DecodePayload out = Inr (sample_meta, ''hello'')"
proof -
  have wf: "wf_Metadata sample_meta"
    by (simp add: wf_Metadata_def sample_meta_def wf_time_def zero_time_def days_in_def leap_def
        valid_utf8_ascii ascii_def)
  have "\<exists>js. Marshal_Metadata sample_meta = Inr js \<and> length js \<le> 65535"
    by (rule Marshal_Metadata_short) (simp_all add: sample_meta_def plain_def marshals_def zero_time_def)
  then obtain out where "EncodePayload sample_meta ''hello'' = Inr out"
    by (auto simp: EncodePayload_def)
  with DecodePayload_EncodePayload [OF wf] show ?thesis by blast
qed

end
