(* ===== verification/Icfx_Armor.thy ===== *)
theory Icfx_Armor
  imports Icfx_Format
begin

text \<open>
  PEM-style armor (format/armor.go) and format detection (format/detect.go): base64 wrapped at
  76 characters between BEGIN and END lines, with optional "Key: Value" headers. The headers of
  a call are a Go map, here an association list with distinct keys; the writer emits them in
  sorted order. A slice expression that would be out of range in Go is an explicit panic value.
\<close>

section \<open>Writing\<close>

definition ArmorLockLabel :: string where "ArmorLockLabel = ''ICFX LOCK''"

definition ArmorIdentityLabel :: string where "ArmorIdentityLabel = ''ICFX IDENTITY''"

definition ArmorICFXLabel :: string where "ArmorICFXLabel = ''ICFX DATA''"

definition ArmorRevokeLabel :: string where "ArmorRevokeLabel = ''ICFX REVOKE''"

definition ArmorRotateLabel :: string where "ArmorRotateLabel = ''ICFX ROTATE''"

lemmas armor_labels = ArmorLockLabel_def ArmorIdentityLabel_def ArmorICFXLabel_def ArmorRevokeLabel_def
  ArmorRotateLabel_def

definition armorLineLen :: nat where "armorLineLen = 76"

abbreviation newline :: char where "newline \<equiv> CHR 0x0A"

definition begin_line :: "string \<Rightarrow> string" where
  "begin_line label = ''-----BEGIN '' @ label @ ''-----''"

definition end_line :: "string \<Rightarrow> string" where
  "end_line label = ''-----END '' @ label @ ''-----''"

function wrap_lines :: "bytes \<Rightarrow> bytes" where
  "wrap_lines encoded = (if encoded = [] then []
     else take armorLineLen encoded @ [newline] @ wrap_lines (drop armorLineLen encoded))"
  by pat_completeness auto
termination
  by (relation "measure length") (auto simp: armorLineLen_def)

declare wrap_lines.simps [simp del]

definition header_lines :: "(bytes \<times> bytes) list \<Rightarrow> bytes" where
  "header_lines headers =
     (if headers = [] then []
      else concat (map (\<lambda>k. k @ '': '' @ the (map_of headers k) @ [newline]) (sort (map fst headers)))
           @ [newline])"

definition ArmorEncodeWithHeaders :: "bytes \<Rightarrow> string \<Rightarrow> (bytes \<times> bytes) list \<Rightarrow> bytes" where
  "ArmorEncodeWithHeaders data label headers =
     begin_line label @ [newline] @ header_lines headers @ wrap_lines (b64_encode data)
     @ end_line label @ [newline]"

definition ArmorEncode :: "bytes \<Rightarrow> string \<Rightarrow> bytes" where
  "ArmorEncode data label = ArmorEncodeWithHeaders data label []"

section \<open>Reading\<close>

fun indexBlankLine :: "bytes list \<Rightarrow> nat option" where
  "indexBlankLine [] = None"
| "indexBlankLine (l # ls) = (if TrimSpace l = [] then Some 0 else map_option Suc (indexBlankLine ls))"

definition looksLikeHeaders :: "bytes list \<Rightarrow> bool" where
  "looksLikeHeaders lines \<longleftrightarrow> lines \<noteq> [] \<and>
     list_all (\<lambda>l. case IndexByte (CHR '':'') l of None \<Rightarrow> False | Some colon \<Rightarrow> 0 < colon \<and> colon \<le> 64) lines"

fun read_headers :: "bytes list \<Rightarrow> (bytes \<rightharpoonup> bytes) \<Rightarrow> (bytes \<rightharpoonup> bytes) result" where
  "read_headers [] m = Inr m"
| "read_headers (h # hs) m =
     (case IndexByte (CHR '':'') h of
        None \<Rightarrow> Inl (Errorf ''malformed armor header: %q'')
      | Some colon \<Rightarrow>
          if colon = 0 then Inl (Errorf ''malformed armor header: %q'')
          else read_headers hs (m(TrimSpace (take colon h) \<mapsto> TrimSpace (drop (colon + 1) h))))"

definition slice_panic :: go_error where "slice_panic = Sentinel ''panic: slice bounds out of range''"

definition ArmorDecodeWithHeaders :: "bytes \<Rightarrow> (bytes \<times> string \<times> (bytes \<rightharpoonup> bytes)) result" where
  "ArmorDecodeWithHeaders data =
     (let s = TrimSpace (ReplaceCRLF data) in
      if s = [] then Inl (Errorf ''empty armored input'')
      else let lines = Split newline s in
      if length lines < 2 then Inl (Errorf ''malformed armor: too few lines'')
      else let header = hd lines in
      if \<not> HasPrefix header ''-----BEGIN '' \<or> \<not> HasSuffix header ''-----''
      then Inl (Errorf ''malformed armor: invalid header'')
      else if length header < length ''-----BEGIN '' + length ''-----'' then Inl slice_panic
      else let label = slice header (length ''-----BEGIN '') (length header - length ''-----'') in
      if last lines \<noteq> end_line label then Inl (Errorf ''malformed armor: missing or mismatched footer'')
      else let bodyLines = butlast (tl lines) in
      andthen
        (case indexBlankLine bodyLines of
           None \<Rightarrow> Inr (Map.empty, bodyLines)
         | Some blankIdx \<Rightarrow>
             if blankIdx > 0 \<and> looksLikeHeaders (take blankIdx bodyLines)
             then andthen (read_headers (take blankIdx bodyLines) Map.empty)
                    (\<lambda>hs. Inr (hs, drop (blankIdx + 1) bodyLines))
             else Inr (Map.empty, bodyLines))
        (\<lambda>(headers, bodyLines).
          andthen (wrapping ''malformed armor: invalid base64: %w'' (b64_decode (Join [] bodyLines)))
            (\<lambda>payload. Inr (payload, label, headers))))"

definition ArmorDecode :: "bytes \<Rightarrow> (bytes \<times> string) result" where
  "ArmorDecode data = andthen (ArmorDecodeWithHeaders data) (\<lambda>(payload, label, _). Inr (payload, label))"

definition ArmorDecodeExpect :: "bytes \<Rightarrow> string list \<Rightarrow> bytes result" where
  "ArmorDecodeExpect data want =
     andthen (ArmorDecode data) (\<lambda>(payload, label).
       if label \<in> set want then Inr payload else Inl (Errorf ''unexpected armor label %q (want %s)''))"

section \<open>Detection\<close>

definition IsArmored :: "bytes \<Rightarrow> bool" where
  "IsArmored data =
     (let trimmed = dropWhile (\<lambda>c. c \<in> {CHR '' '', CHR 0x09, CHR 0x0D, CHR 0x0A}) data in
      list_ex (\<lambda>label. HasPrefix trimmed (begin_line label))
        [ArmorLockLabel, ArmorIdentityLabel, ArmorICFXLabel, ArmorRevokeLabel, ArmorRotateLabel])"

datatype Format = FormatUnknown | FormatICFX | FormatAge | FormatArmored

definition Format_String :: "Format \<Rightarrow> string" where
  "Format_String f = (case f of FormatICFX \<Rightarrow> ''icfx'' | FormatAge \<Rightarrow> ''age'' | FormatArmored \<Rightarrow> ''armored''
     | FormatUnknown \<Rightarrow> ''unknown'')"

definition ageMagic :: bytes where "ageMagic = ''age-encryption.org''"

definition Detect :: "bytes \<Rightarrow> Format" where
  "Detect data =
     (if IsArmored data then FormatArmored
      else if length data \<ge> 4 \<and> take 4 data = MagicBytes then FormatICFX
      else if length data \<ge> length ageMagic \<and> take (length ageMagic) data = ageMagic then FormatAge
      else FormatUnknown)"

section \<open>Lemmas\<close>

text \<open>The label slice is always in range: a BEGIN prefix and a five-dash suffix cannot overlap.\<close>

lemma armor_header_length:
  assumes "HasPrefix h ''-----BEGIN ''" "HasSuffix h ''-----''"
  shows "length ''-----BEGIN '' + length ''-----'' \<le> length h"
proof (rule ccontr)
  assume n: "\<not> ?thesis"
  obtain t where t: "h = ''-----BEGIN '' @ t" using assms(1) by (auto simp: HasPrefix_iff)
  obtain u where u: "h = u @ ''-----''" using assms(2) by (auto simp: HasSuffix_iff)
  have l: "length t < 5" using n t by simp
  have lu: "length u = 6 + length t" using arg_cong [OF u, of length] t by simp
  have "h ! 10 = CHR '' ''" by (simp add: t)
  moreover have "h ! 10 = ''-----'' ! (10 - length u)"
    using l lu by (simp add: u nth_append)
  moreover have "10 - length u < 5" using l lu by simp
  then have "''-----'' ! (10 - length u) = CHR ''-''"
    by (auto simp: less_Suc_eq numeral_eq_Suc)
  ultimately show False by simp
qed

definition line_ok :: "bytes \<Rightarrow> bool" where
  "line_ok l \<longleftrightarrow> ascii l \<and> newline \<notin> set l \<and> CHR 0x0D \<notin> set l"

lemma ReplaceCRLF_id: "CHR 0x0D \<notin> set s \<Longrightarrow> ReplaceCRLF s = s"
  by (induction s rule: ReplaceCRLF.induct) auto

lemma TrimSpace_text:
  assumes "ascii s" "s \<noteq> []" "\<not> is_space (of_char (hd s))" "\<not> is_space (of_char (last s))"
  shows "TrimSpace (s @ [newline]) = s"
proof -
  obtain c r where s: "s = c # r" using assms(2) by (cases s) auto
  have "rev s \<noteq> []" "\<not> is_space (of_char (hd (rev s)))" using assms(2,4) by (simp_all add: hd_rev)
  then have "dropWhile (\<lambda>c. is_space (of_char c)) (rev s) = rev s" by (cases "rev s") auto
  moreover have "dropWhile (\<lambda>c. is_space (of_char c)) (s @ [newline]) = s @ [newline]"
    using assms(3) s by simp
  moreover have "is_space (of_char newline)" by (simp add: is_space_def)
  ultimately show ?thesis using assms(1) by (simp add: TrimSpace_ascii)
qed

text \<open>A text of lines.\<close>

definition unlines :: "bytes list \<Rightarrow> bytes" where
  "unlines ls = concat (map (\<lambda>l. l @ [newline]) ls)"

lemma Split_unlines: "(\<forall>l\<in>set ls. newline \<notin> set l) \<Longrightarrow> newline \<notin> set e \<Longrightarrow>
    Split newline (unlines ls @ e) = ls @ [e]"
  by (induction ls) (simp_all add: unlines_def Split_no_sep Split_append_sep)

fun chunks :: "nat \<Rightarrow> bytes \<Rightarrow> bytes list" where
  "chunks f s = (case f of 0 \<Rightarrow> [] | Suc g \<Rightarrow> if s = [] then [] else take armorLineLen s # chunks g (drop armorLineLen s))"

declare chunks.simps [simp del]

lemma wrap_lines_chunks: "length s \<le> f \<Longrightarrow> wrap_lines s = unlines (chunks f s)"
proof (induction s arbitrary: f rule: wrap_lines.induct)
  case (1 s)
  show ?case
  proof (cases "s = []")
    case True
    then show ?thesis by (cases f) (simp_all add: wrap_lines.simps chunks.simps unlines_def)
  next
    case False
    then obtain g where f: "f = Suc g" using 1 by (cases f) auto
    have "length (drop armorLineLen s) \<le> g"
      using 1 f False by (simp add: armorLineLen_def)
    with 1 False f show ?thesis
      by (simp add: wrap_lines.simps [of s] chunks.simps [of "Suc g"] unlines_def)
  qed
qed

lemma concat_chunks: "length s \<le> f \<Longrightarrow> concat (chunks f s) = s"
proof (induction f arbitrary: s)
  case 0
  then show ?case by (simp add: chunks.simps)
next
  case (Suc f)
  show ?case
  proof (cases "s = []")
    case False
    then have "length (drop armorLineLen s) \<le> f" using Suc.prems by (simp add: armorLineLen_def)
    from Suc.IH [OF this] False show ?thesis by (simp add: chunks.simps [of "Suc f"])
  qed (simp add: chunks.simps)
qed

lemma chunks_members: "l \<in> set (chunks f s) \<Longrightarrow> l \<noteq> [] \<and> set l \<subseteq> set s"
proof (induction f arbitrary: s)
  case (Suc f)
  then show ?case
    using set_take_subset [of armorLineLen s] set_drop_subset [of armorLineLen s]
    by (auto simp: chunks.simps [of "Suc f"] armorLineLen_def split: if_splits)
qed (simp add: chunks.simps)


subsection \<open>Headers\<close>

definition header_ok :: "bytes \<times> bytes \<Rightarrow> bool" where
  "header_ok h \<longleftrightarrow> (case h of (k, v) \<Rightarrow> k \<noteq> [] \<and> CHR '':'' \<notin> set k \<and> length k \<le> 64 \<and> line_ok k \<and> line_ok v
     \<and> TrimSpace k = k \<and> TrimSpace v = v)"

definition header_line :: "bytes \<Rightarrow> bytes \<Rightarrow> bytes" where
  "header_line k v = k @ '': '' @ v"

lemma TrimSpace_space: "ascii v \<Longrightarrow> TrimSpace (CHR '' '' # v) = TrimSpace v"
  by (simp add: TrimSpace_ascii is_space_def)

lemma TrimSpace_solid:
  assumes "ascii s" "c \<in> set s" "\<not> is_space (of_char c)"
  shows "TrimSpace s \<noteq> []"
proof -
  have "dropWhile (\<lambda>c. is_space (of_char c)) s \<noteq> []" using assms(2,3) by (auto simp: dropWhile_eq_Nil_conv)
  then obtain x xs where x: "dropWhile (\<lambda>c. is_space (of_char c)) s = x # xs" "\<not> is_space (of_char x)"
    using dropWhile_eq_Cons_conv by (metis neq_Nil_conv)
  then show ?thesis using assms(1) by (auto simp: TrimSpace_ascii dropWhile_eq_Nil_conv)
qed

lemma header_line_ok:
  assumes "header_ok (k, v)"
  shows "line_ok (header_line k v)" "TrimSpace (header_line k v) \<noteq> []"
    "IndexByte (CHR '':'') (header_line k v) = Some (length k)"
    "TrimSpace (take (length k) (header_line k v)) = k" "TrimSpace (drop (length k + 1) (header_line k v)) = v"
proof -
  from assms have a: "ascii k" "ascii v" "CHR '':'' \<notin> set k" "TrimSpace k = k" "TrimSpace v = v"
    by (auto simp: header_ok_def line_ok_def)
  show "line_ok (header_line k v)" using assms by (auto simp: header_ok_def line_ok_def header_line_def)
  show "TrimSpace (header_line k v) \<noteq> []"
    using a by (intro TrimSpace_solid [of _ "CHR '':''"]) (auto simp: header_line_def is_space_def)
  show "IndexByte (CHR '':'') (header_line k v) = Some (length k)"
    using IndexByte_append [OF a(3)] by (simp add: header_line_def)
  show "TrimSpace (take (length k) (header_line k v)) = k" using a by (simp add: header_line_def)
  show "TrimSpace (drop (length k + 1) (header_line k v)) = v"
    using a by (simp add: header_line_def TrimSpace_space)
qed

lemma read_headers_lines:
  assumes "\<forall>k\<in>set ks. header_ok (k, f k)"
  shows "read_headers (map (\<lambda>k. header_line k (f k)) ks) m = Inr (\<lambda>k. if k \<in> set ks then Some (f k) else m k)"
  using assms
proof (induction ks arbitrary: m)
  case (Cons k ks)
  then have k: "header_ok (k, f k)" by simp
  then have "length k \<noteq> 0" by (simp add: header_ok_def)
  with Cons header_line_ok [OF k] show ?case by (auto simp: fun_eq_iff)
qed simp

lemma indexBlankLine_skip:
  "\<forall>l\<in>set ls. TrimSpace l \<noteq> [] \<Longrightarrow> indexBlankLine (ls @ ms) = map_option (\<lambda>i. i + length ls) (indexBlankLine ms)"
  by (induction ls) (simp_all add: option.map_comp comp_def option.map_ident)

lemma looksLikeHeaders_lines:
  assumes "ks \<noteq> []" "\<forall>k\<in>set ks. header_ok (k, f k)"
  shows "looksLikeHeaders (map (\<lambda>k. header_line k (f k)) ks)"
  using assms header_line_ok(3) by (auto simp: looksLikeHeaders_def list_all_iff header_ok_def)

lemma header_lines_unlines:
  "header_lines hs = unlines (if hs = [] then [] else
      map (\<lambda>k. header_line k (the (map_of hs k))) (sort (map fst hs)) @ [[]])"
  by (simp add: header_lines_def unlines_def header_line_def comp_def)

lemma b64_chunk_ok:
  assumes "l \<in> set (chunks f (b64_encode data))"
  shows "line_ok l" "TrimSpace l \<noteq> []"
proof -
  have l: "l \<noteq> []" "set l \<subseteq> set (b64_encode data)" using chunks_members [OF assms] by auto
  have c: "b64_char c" if "c \<in> set l" for c using that l(2) b64_encode_chars by blast
  have "43 \<le> (of_char c :: nat) \<and> (of_char c :: nat) < 128" if "c \<in> set l" for c
    using b64_char_range(1,2) [OF c [OF that]] by simp
  then have r: "\<And>c. c \<in> set l \<Longrightarrow> 43 \<le> (of_char c :: nat) \<and> (of_char c :: nat) < 128" .
  have "newline \<notin> set l" "CHR 0x0D \<notin> set l" using r [of newline] r [of "CHR 0x0D"] by auto
  then show ok: "line_ok l" using r by (auto simp: line_ok_def ascii_def list_all_iff)
  obtain c where "c \<in> set l" using l(1) by (cases l) auto
  then show "TrimSpace l \<noteq> []"
    using r [of c] ok by (intro TrimSpace_solid [of l c]) (auto simp: line_ok_def is_space_def)
qed

text \<open>What the decoder sees of a written armor: its lines.\<close>

definition body_lines :: "bytes \<Rightarrow> (bytes \<times> bytes) list \<Rightarrow> bytes list" where
  "body_lines data hs = (if hs = [] then [] else
      map (\<lambda>k. header_line k (the (map_of hs k))) (sort (map fst hs)) @ [[]])
     @ chunks (length (b64_encode data)) (b64_encode data)"

lemma armor_lines:
  assumes "line_ok label" "\<forall>h\<in>set hs. header_ok h"
  shows "TrimSpace (ReplaceCRLF (ArmorEncodeWithHeaders data label hs))
           = unlines (begin_line label # body_lines data hs) @ end_line label"
    and "Split newline (TrimSpace (ReplaceCRLF (ArmorEncodeWithHeaders data label hs)))
           = begin_line label # body_lines data hs @ [end_line label]"
proof -
  let ?s = "unlines (begin_line label # body_lines data hs) @ end_line label"
  have e: "ArmorEncodeWithHeaders data label hs = ?s @ [newline]"
    unfolding ArmorEncodeWithHeaders_def header_lines_unlines body_lines_def
    using wrap_lines_chunks [of "b64_encode data" "length (b64_encode data)"]
    by (auto simp: unlines_def)
  have hok: "header_ok (k, the (map_of hs k))" if "k \<in> fst ` set hs" for k
  proof -
    from that obtain v where "map_of hs k = Some v" by (metis image_iff map_of_eq_None_iff not_None_eq)
    then show ?thesis using assms(2) map_of_SomeD by fastforce
  qed
  have body: "line_ok l" if "l \<in> set (body_lines data hs)" for l
    using that hok header_line_ok(1) b64_chunk_ok(1) by (auto simp: body_lines_def line_ok_def split: if_splits)
  have be: "line_ok (begin_line label)" "line_ok (end_line label)"
    using assms(1) by (auto simp: line_ok_def begin_line_def end_line_def)
  have all: "line_ok l" if "l \<in> set (begin_line label # body_lines data hs)" for l
    using that body be by auto
  have "ascii (unlines ls) \<and> CHR 0x0D \<notin> set (unlines ls)" if "\<forall>l\<in>set ls. line_ok l" for ls
    using that by (induction ls) (auto simp: unlines_def line_ok_def)
  with all have u: "ascii ?s" "CHR 0x0D \<notin> set ?s" using be by (auto simp: line_ok_def)
  show t: "TrimSpace (ReplaceCRLF (ArmorEncodeWithHeaders data label hs)) = ?s"
  proof -
    have "hd ?s = CHR ''-''" "last ?s = CHR ''-''" by (simp_all add: unlines_def begin_line_def end_line_def)
    then have "TrimSpace (?s @ [newline]) = ?s"
      using u(1) by (intro TrimSpace_text) (simp_all add: is_space_def, simp add: end_line_def)
    moreover have "ReplaceCRLF (?s @ [newline]) = ?s @ [newline]" using u(2) by (intro ReplaceCRLF_id) auto
    ultimately show ?thesis by (simp add: e)
  qed
  show "Split newline (TrimSpace (ReplaceCRLF (ArmorEncodeWithHeaders data label hs)))
      = begin_line label # body_lines data hs @ [end_line label]"
    unfolding t using all be(2) by (subst Split_unlines) (auto simp: line_ok_def)
qed


lemma label_of_begin: "slice (begin_line label) (length ''-----BEGIN '') (length (begin_line label) - length ''-----'') = label"
  by (simp add: begin_line_def)

lemma begin_line_shape [simp]:
  "HasPrefix (begin_line label) ''-----BEGIN ''" "HasSuffix (begin_line label) ''-----''"
  "\<not> length (begin_line label) < length ''-----BEGIN '' + length ''-----''"
proof -
  show "HasPrefix (begin_line label) ''-----BEGIN ''" by (simp add: begin_line_def HasPrefix_def)
  show "HasSuffix (begin_line label) ''-----''"
    unfolding HasSuffix_iff begin_line_def by (metis append_assoc)
qed (simp add: begin_line_def)

lemma body_lines_headers:
  assumes "\<forall>h\<in>set hs. header_ok h"
  shows "(case indexBlankLine (body_lines data hs) of
           None \<Rightarrow> Inr (Map.empty, body_lines data hs)
         | Some blankIdx \<Rightarrow>
             if blankIdx > 0 \<and> looksLikeHeaders (take blankIdx (body_lines data hs))
             then andthen (read_headers (take blankIdx (body_lines data hs)) Map.empty)
                    (\<lambda>hs'. Inr (hs', drop (blankIdx + 1) (body_lines data hs)))
             else Inr (Map.empty, body_lines data hs))
         = Inr (map_of hs, chunks (length (b64_encode data)) (b64_encode data))"
    (is "?lhs = Inr (_, ?ch)")
proof (cases "hs = []")
  case True
  have "indexBlankLine (?ch @ []) = None"
    by (subst indexBlankLine_skip) (auto simp: b64_chunk_ok(2))
  then show ?thesis using True by (simp add: body_lines_def)
next
  case False
  let ?ks = "sort (map fst hs)" and ?f = "\<lambda>k. the (map_of hs k)"
  let ?H = "map (\<lambda>k. header_line k (?f k)) ?ks"
  have some: "map_of hs k = Some (?f k)" if "k \<in> fst ` set hs" for k
    using that by (metis image_iff map_of_eq_None_iff option.collapse)
  have ok: "\<forall>k\<in>set ?ks. header_ok (k, ?f k)"
  proof
    fix k
    assume "k \<in> set ?ks"
    then have "(k, ?f k) \<in> set hs" using some map_of_SomeD by (metis set_map set_sort)
    with assms show "header_ok (k, ?f k)" by blast
  qed
  have "indexBlankLine (?H @ [] # ?ch) = Some (length ?H)"
    using ok header_line_ok(2) by (subst indexBlankLine_skip) (auto simp: TrimSpace_def)
  moreover have ne: "?ks \<noteq> []" using False by (metis length_0_conv length_map length_sort)
  moreover have "looksLikeHeaders ?H" using ok by (intro looksLikeHeaders_lines ne)
  moreover have "read_headers ?H Map.empty = Inr (map_of hs)"
  proof -
    have "(if k \<in> set ?ks then Some (?f k) else Map.empty k) = map_of hs k" for k
      using some [of k] map_of_eq_None_iff [of hs k] by auto
    then show ?thesis unfolding read_headers_lines [OF ok] by presburger
  qed
  moreover have "body_lines data hs = ?H @ [] # ?ch" using False by (simp add: body_lines_def)
  moreover have "0 < length ?H" using ne False by simp
  ultimately show ?thesis using False by (simp del: length_map length_sort)
qed

lemma ArmorDecode_Encode:
  assumes "line_ok label" "\<forall>h\<in>set hs. header_ok h"
  shows "ArmorDecodeWithHeaders (ArmorEncodeWithHeaders data label hs) = Inr (data, label, map_of hs)"
proof -
  define S where "S = TrimSpace (ReplaceCRLF (ArmorEncodeWithHeaders data label hs))"
  have S: "S \<noteq> []" "Split newline S = begin_line label # body_lines data hs @ [end_line label]"
    using armor_lines [OF assms, of data] by (simp_all add: S_def unlines_def begin_line_def)
  have "b64_decode (Join [] (chunks (length (b64_encode data)) (b64_encode data))) = Inr data"
    by (simp add: Join_Nil_concat concat_chunks)
  then show ?thesis
    unfolding ArmorDecodeWithHeaders_def Let_def S_def [symmetric] S(2) label_of_begin list.sel butlast_snoc
    using S(1) body_lines_headers [OF assms(2), of data] begin_line_shape(3) [of label]
    by (simp add: label_of_begin [simplified] del: begin_line_shape(3))
qed

section \<open>Properties\<close>

text \<open>
  Armor round trip: a payload written under a one-line ASCII label, with any set of
  well-formed headers, is read back as the same payload, label and headers.
\<close>

theorem ArmorDecodeWithHeaders_Encode:
  assumes "line_ok label" "\<forall>h\<in>set headers. header_ok h"
  shows "ArmorDecodeWithHeaders (ArmorEncodeWithHeaders data label headers)
           = Inr (data, label, map_of headers)"
  using assms by (rule ArmorDecode_Encode)

theorem ArmorDecodeWithHeaders_Encode_witness:
  "ArmorDecodeWithHeaders (ArmorEncodeWithHeaders ''payload'' ArmorLockLabel [(''Version'', ''1''), (''Fingerprint'', ''a1b2'')])
     = Inr (''payload'', ArmorLockLabel, map_of [(''Version'', ''1''), (''Fingerprint'', ''a1b2'')])"
proof (rule ArmorDecodeWithHeaders_Encode)
  show "line_ok ArmorLockLabel" by (simp add: line_ok_def ArmorLockLabel_def)
  show "\<forall>h\<in>set [(''Version'', ''1''), (''Fingerprint'', ''a1b2'')]. header_ok h"
    by (simp add: header_ok_def line_ok_def TrimSpace_ascii is_space_def)
qed

text \<open>
  ArmorDecodeExpect on a written armor returns the payload exactly when the label is one of
  the wanted ones, and an error otherwise; a lock never passes for an identity.
\<close>

theorem ArmorDecodeExpect_Encode:
  assumes "line_ok label"
  shows "ArmorDecodeExpect (ArmorEncode data label) want
           = (if label \<in> set want then Inr data else Inl (Errorf ''unexpected armor label %q (want %s)''))"
  using ArmorDecode_Encode [OF assms, of "[]"]
  by (simp add: ArmorDecodeExpect_def ArmorDecode_def ArmorEncode_def)

theorem ArmorDecodeExpect_Encode_witness:
  "ArmorDecodeExpect (ArmorEncode ''x'' ArmorLockLabel) [ArmorIdentityLabel]
     = Inl (Errorf ''unexpected armor label %q (want %s)'')"
  using ArmorDecodeExpect_Encode [of ArmorLockLabel "''x''" "[ArmorIdentityLabel]"]
  by (simp add: line_ok_def armor_labels)

text \<open>
  ArmorDecodeWithHeaders never slices out of range: on no input, however malformed, does the
  label expression panic.
\<close>

theorem ArmorDecodeWithHeaders_no_panic: "ArmorDecodeWithHeaders data \<noteq> Inl slice_panic"
proof -
  have rh: "read_headers hs m \<noteq> Inl slice_panic" for hs m
    by (induction hs arbitrary: m) (simp_all add: slice_panic_def split: option.split)
  define h where "h = hd (Split newline (TrimSpace (ReplaceCRLF data)))"
  show ?thesis
  proof (cases "HasPrefix h ''-----BEGIN '' \<and> HasSuffix h ''-----''")
    case True
    then have b: "(length h < length ''-----BEGIN '' + length ''-----'') = False"
      using armor_header_length [of h] by simp
    show ?thesis
      unfolding ArmorDecodeWithHeaders_def Let_def h_def [symmetric] b if_False
      using rh by (simp add: andthen_Inl_iff True split: option.split) (simp add: slice_panic_def)
  next
    case False
    then show ?thesis
      unfolding ArmorDecodeWithHeaders_def Let_def h_def [symmetric] by (simp add: slice_panic_def)
  qed
qed

text \<open>
  Detect sends each input to its reader: a written armor of a known label (also behind white
  space) is armored, a container is never mistaken for armor, and the tests are exclusive.
\<close>

theorem Detect_correct:
  "(label \<in> {ArmorLockLabel, ArmorIdentityLabel, ArmorICFXLabel, ArmorRevokeLabel, ArmorRotateLabel}
      \<longrightarrow> list_all is_ws ws \<longrightarrow> Detect (ws @ ArmorEncodeWithHeaders data label hs) = FormatArmored)
   \<and> Detect (stream_container p raw payload sig @ rest) = FormatICFX
   \<and> Detect (buffered_container p raw payload sig @ rest) = FormatICFX
   \<and> Detect (ageMagic @ rest) = FormatAge"
proof (intro conjI impI)
  assume l: "label \<in> {ArmorLockLabel, ArmorIdentityLabel, ArmorICFXLabel, ArmorRevokeLabel, ArmorRotateLabel}"
    and w: "list_all is_ws ws"
  let ?a = "ArmorEncodeWithHeaders data label hs"
  obtain t where t: "?a = CHR ''-'' # t" by (simp add: ArmorEncodeWithHeaders_def begin_line_def)
  have "dropWhile (\<lambda>c. c \<in> {CHR '' '', CHR 0x09, CHR 0x0D, CHR 0x0A}) (ws @ ?a)
      = dropWhile (\<lambda>c. c \<in> {CHR '' '', CHR 0x09, CHR 0x0D, CHR 0x0A}) ?a"
    using w by (intro dropWhile_append2) (auto simp: is_ws_def list_all_iff)
  also have "\<dots> = ?a" unfolding t by simp
  finally have "dropWhile (\<lambda>c. c \<in> {CHR '' '', CHR 0x09, CHR 0x0D, CHR 0x0A}) (ws @ ?a) = ?a" .
  moreover have "HasPrefix ?a (begin_line label)" by (simp add: ArmorEncodeWithHeaders_def)
  ultimately show "Detect (ws @ ?a) = FormatArmored"
    using l by (auto simp: Detect_def IsArmored_def Let_def)
next
  show "Detect (stream_container p raw payload sig @ rest) = FormatICFX"
    by (simp add: Detect_def IsArmored_def stream_container_def stream_prefix_def MagicBytes_def HasPrefix_def begin_line_def)
  show "Detect (buffered_container p raw payload sig @ rest) = FormatICFX"
    by (simp add: Detect_def IsArmored_def buffered_container_def MagicBytes_def HasPrefix_def begin_line_def)
  show "Detect (ageMagic @ rest) = FormatAge"
    by (simp add: Detect_def IsArmored_def ageMagic_def MagicBytes_def HasPrefix_def begin_line_def)
qed

theorem Detect_correct_witness:
  "Detect ('' '' @ ArmorEncodeWithHeaders ''x'' ArmorLockLabel []) = FormatArmored"
  using Detect_correct [of ArmorLockLabel "'' ''" "''x''" "[]"] by (simp add: is_ws_def)

end
