(* ===== verification/Icfx_Crypto.thy ===== *)
theory Icfx_Crypto
  imports Icfx_Armor
begin

text \<open>
  Package crypto: what icfx builds on top of age (hybrid recipients and scrypt), ML-DSA-65, SHA-2,
  HKDF and memguard. Those packages are a parameter of the model, the record \<open>prims\<close>; what the
  code relies on is stated as the predicates \<open>age_correct\<close>, \<open>scrypt_correct\<close>, \<open>mldsa_correct\<close>
  and \<open>hash_lengths\<close>, which are hypotheses of the theorems that need them. Key generation and
  encryption take their randomness as an argument. A key that age or circl parses is kept as the
  bytes it was parsed from.

  Streams: age.Decrypt checks the header at once and the body chunk by chunk, so decryption is
  either a header error or the plaintext released so far together with the error that ended it.
  Encryption goes into a bytes.Buffer or a file through age's writer; its Write and Close are part
  of \<open>age_Encrypt\<close>.
\<close>

record prims =
  sha256 :: "bytes \<Rightarrow> bytes"
  sha512 :: "bytes \<Rightarrow> bytes"
  hkdf_sha256 :: "bytes \<Rightarrow> bytes \<Rightarrow> bytes \<Rightarrow> nat \<Rightarrow> bytes result"
  ParseHybridRecipient :: "bytes \<Rightarrow> bytes result"
  ParseHybridIdentity :: "bytes \<Rightarrow> bytes result"
  Recipient_String :: "bytes \<Rightarrow> bytes"
  GenerateHybridIdentity :: "bytes \<Rightarrow> bytes result"
  Identity_String :: "bytes \<Rightarrow> bytes"
  age_Encrypt :: "bytes \<Rightarrow> bytes list \<Rightarrow> bytes \<Rightarrow> bytes result"
  age_Decrypt :: "bytes \<Rightarrow> bytes \<Rightarrow> (bytes \<times> go_error option) result"
  NewScryptRecipient :: "bytes \<Rightarrow> bytes result"
  NewScryptIdentity :: "bytes \<Rightarrow> bytes result"
  mldsa_GenerateKey :: "bytes \<Rightarrow> (bytes \<times> bytes) result"
  mldsa_PrivUnmarshal :: "bytes \<Rightarrow> bytes result"
  mldsa_Public :: "bytes \<Rightarrow> bytes"
  mldsa_Sign :: "bytes \<Rightarrow> bytes \<Rightarrow> bytes result"
  mldsa_PubUnmarshal :: "bytes \<Rightarrow> bytes result"
  mldsa_Verify :: "bytes \<Rightarrow> bytes \<Rightarrow> bytes \<Rightarrow> bool"
  NewEnclave :: "bytes \<Rightarrow> bytes option"
  Enclave_Open :: "bytes \<Rightarrow> bytes result"

text \<open>age: what was encrypted to recipients is decrypted by the identity of any one of them.\<close>

definition age_correct :: "prims \<Rightarrow> bool" where
  "age_correct P \<longleftrightarrow> (\<forall>rnd rs d ct s i r. age_Encrypt P rnd rs d = Inr ct \<longrightarrow>
     ParseHybridIdentity P s = Inr i \<longrightarrow> ParseHybridRecipient P (Recipient_String P i) = Inr r \<longrightarrow>
     r \<in> set rs \<longrightarrow> age_Decrypt P i ct = Inr (d, None))"

definition scrypt_correct :: "prims \<Rightarrow> bool" where
  "scrypt_correct P \<longleftrightarrow> (\<forall>rnd pass r d ct. NewScryptRecipient P pass = Inr r \<longrightarrow>
     age_Encrypt P rnd [r] d = Inr ct \<longrightarrow>
     (\<exists>i. NewScryptIdentity P pass = Inr i \<and> age_Decrypt P i ct = Inr (d, None)))"

text \<open>ML-DSA-65: a signature made with a private key verifies under its public key.\<close>

definition mldsa_correct :: "prims \<Rightarrow> bool" where
  "mldsa_correct P \<longleftrightarrow> (\<forall>b k m sig. mldsa_PrivUnmarshal P b = Inr k \<longrightarrow> mldsa_Sign P k m = Inr sig \<longrightarrow>
     (\<exists>p. mldsa_PubUnmarshal P (mldsa_Public P k) = Inr p \<and> mldsa_Verify P p m sig))"

text \<open>An age file begins with its version line; a sealed enclave opens to what was put in.\<close>

definition age_framed :: "prims \<Rightarrow> bool" where
  "age_framed P \<longleftrightarrow> (\<forall>rnd rs d ct. age_Encrypt P rnd rs d = Inr ct \<longrightarrow> HasPrefix ct ''age-encryption.org'')"

definition enclave_correct :: "prims \<Rightarrow> bool" where
  "enclave_correct P \<longleftrightarrow> (\<forall>b. b \<noteq> [] \<longrightarrow> (\<exists>e. NewEnclave P b = Some e \<and> Enclave_Open P e = Inr b))"

definition hash_lengths :: "prims \<Rightarrow> bool" where
  "hash_lengths P \<longleftrightarrow> (\<forall>b. length (sha256 P b) = 32) \<and> (\<forall>b. length (sha512 P b) = 64)"

section \<open>Canonical messages\<close>

definition writeField :: "bytes \<Rightarrow> bytes" where
  "writeField b = put_uint64 (of_nat (length b)) @ b"

definition fits_field :: "bytes \<Rightarrow> bool" where
  "fits_field b \<longleftrightarrow> length b < 18446744073709551616"

definition containerCanonicalTag :: string where "containerCanonicalTag = ''ICFX-CONTAINER-V1''"

definition NewContainerDigest :: "prims \<Rightarrow> bytes \<Rightarrow> bytes" where
  "NewContainerDigest P = sha512 P"

definition SignedMessage :: "8 word \<Rightarrow> bytes \<Rightarrow> bytes \<Rightarrow> bytes" where
  "SignedMessage profile plaintextDigest ciphertextDigest =
     writeField containerCanonicalTag @ writeField [char_of (unat profile)]
     @ writeField plaintextDigest @ writeField ciphertextDigest"

text \<open>The framing every package's writeField writes: it is recognised as a prefix.\<close>

lemma frame64_split:
  assumes "fits_field a" "fits_field b"
    and "put_uint64 (of_nat (length a)) @ a @ x = put_uint64 (of_nat (length b)) @ b @ y"
  shows "a = b \<and> x = y"
proof -
  from assms(3) have "put_uint64 (of_nat (length a)) = put_uint64 (of_nat (length b))" and ab: "a @ x = b @ y"
    by (auto simp: append_eq_append_conv)
  then have "(of_nat (length a) :: 64 word) = of_nat (length b)" by simp
  then have "unat (of_nat (length a) :: 64 word) = unat (of_nat (length b) :: 64 word)" by simp
  then have "length a = length b" using assms(1,2) by (simp add: fits_field_def)
  with ab show ?thesis by simp
qed

lemma frame64_nonempty: "put_uint64 w @ a \<noteq> []"
  using length_put_uint(3) [of w] by (metis append_is_Nil_conv length_0_conv zero_neq_numeral)

interpretation container_fields: framing writeField fits_field
proof
  show "a = b \<and> x = y" if "fits_field a" "fits_field b" "writeField a @ x = writeField b @ y" for a b x y
    by (rule frame64_split [OF that(1,2)]) (use that(3) in \<open>simp add: writeField_def\<close>)
  show "writeField a \<noteq> []" for a unfolding writeField_def by (rule frame64_nonempty)
qed

section \<open>Fingerprints and identifiers\<close>

definition FingerprintHexLen :: nat where "FingerprintHexLen = 32"

definition Fingerprint :: "prims \<Rightarrow> bytes \<Rightarrow> bytes \<Rightarrow> bytes" where
  "Fingerprint P encPubKey signPubKey = take FingerprintHexLen (hex_encode (sha256 P (encPubKey @ signPubKey)))"

text \<open>The loop of FormatGrouped: \<open>i\<close> is the index, \<open>fp\<close> what is left from there.\<close>

function group4 :: "nat \<Rightarrow> bytes \<Rightarrow> bytes" where
  "group4 i fp = (if fp = [] then []
     else (if i > 0 then '' '' else []) @ take 4 fp @ group4 (i + 4) (drop 4 fp))"
  by pat_completeness auto
termination
  by (relation "measure (length \<circ> snd)") auto

declare group4.simps [simp del]

definition FormatGrouped :: "bytes \<Rightarrow> bytes" where
  "FormatGrouped fp = group4 0 fp"

definition GenerateInstacryptID :: "prims \<Rightarrow> bytes \<Rightarrow> bytes \<Rightarrow> gotime \<Rightarrow> bytes" where
  "GenerateInstacryptID P encPubKey signPubKey createdAt =
     ''IC-'' @ take 16 (hex_encode (sha256 P (encPubKey @ signPubKey
       @ put_uint64 (word_of_int (Unix createdAt)))))"

section \<open>Keys\<close>

record KeyPair =
  EncryptionIdentity :: bytes
  EncryptionRecipient :: bytes
  SigningPrivateKey :: bytes
  SigningPublicKey :: bytes
  kp_Fingerprint :: bytes

definition GenerateKeyPair :: "prims \<Rightarrow> bytes \<Rightarrow> bytes \<Rightarrow> KeyPair result" where
  "GenerateKeyPair P rnd1 rnd2 =
     andthen (wrapping ''generating age identity: %w'' (GenerateHybridIdentity P rnd1)) (\<lambda>ageIdentity.
     andthen (wrapping ''generating signing keypair: %w'' (mldsa_GenerateKey P rnd2)) (\<lambda>(sigPub, sigPriv).
     Inr \<lparr>EncryptionIdentity = Identity_String P ageIdentity,
          EncryptionRecipient = Recipient_String P ageIdentity,
          SigningPrivateKey = sigPriv, SigningPublicKey = sigPub,
          kp_Fingerprint = Fingerprint P (Recipient_String P ageIdentity) sigPub\<rparr>))"

text \<open>DerivePublic returns the recipient, the base64 and raw signing key, and the fingerprint.\<close>

definition DerivePublic :: "prims \<Rightarrow> bytes \<Rightarrow> bytes \<Rightarrow> (bytes \<times> bytes \<times> bytes \<times> bytes) result" where
  "DerivePublic P encIdentity signPrivKey =
     andthen (wrapping ''parsing encryption identity: %w'' (ParseHybridIdentity P encIdentity)) (\<lambda>i.
     andthen (wrapping ''parsing signing private key: %w'' (mldsa_PrivUnmarshal P signPrivKey)) (\<lambda>priv.
     let encPubKey = Recipient_String P i; signPubKey = mldsa_Public P priv
     in Inr (encPubKey, b64_encode signPubKey, signPubKey, Fingerprint P encPubKey signPubKey)))"

definition Sign :: "prims \<Rightarrow> bytes \<Rightarrow> bytes \<Rightarrow> bytes result" where
  "Sign P data privateKey =
     andthen (wrapping ''unmarshaling private key: %w'' (mldsa_PrivUnmarshal P privateKey)) (\<lambda>privKey.
     wrapping ''signing data: %w'' (mldsa_Sign P privKey data))"

definition SigningPublicKeySize :: nat where "SigningPublicKeySize = 1952"

definition Verify :: "prims \<Rightarrow> bytes \<Rightarrow> bytes \<Rightarrow> bytes \<Rightarrow> bool result" where
  "Verify P data signature publicKey =
     andthen (wrapping ''unmarshaling public key: %w'' (mldsa_PubUnmarshal P publicKey)) (\<lambda>pubKey.
     Inr (mldsa_Verify P pubKey data signature))"

definition Zero :: "bytes \<Rightarrow> bytes" where
  "Zero b = map (\<lambda>_. char_of (0 :: nat)) b"

section \<open>Encryption\<close>

fun parse_each :: "prims \<Rightarrow> bytes list \<Rightarrow> bytes list result" where
  "parse_each P [] = Inr []"
| "parse_each P (s # ss) =
     andthen (wrapping ''parsing recipient: %w'' (ParseHybridRecipient P s)) (\<lambda>r.
     andthen (parse_each P ss) (\<lambda>rs. Inr (r # rs)))"

definition parseRecipients :: "prims \<Rightarrow> bytes list \<Rightarrow> bytes list result" where
  "parseRecipients P recipientStrs =
     (if recipientStrs = [] then Inl (Errorf ''at least one recipient is required'')
      else parse_each P recipientStrs)"

definition Encrypt :: "prims \<Rightarrow> bytes \<Rightarrow> bytes \<Rightarrow> bytes list \<Rightarrow> bytes result" where
  "Encrypt P rnd data recipientStrs =
     andthen (parseRecipients P recipientStrs) (\<lambda>recipients.
     wrapping ''creating encryption writer: %w'' (age_Encrypt P rnd recipients data))"

text \<open>The streaming form: the ciphertext of everything written before Close.\<close>

definition EncryptStream :: "prims \<Rightarrow> bytes \<Rightarrow> bytes list \<Rightarrow> (bytes \<Rightarrow> bytes result) result" where
  "EncryptStream P rnd recipientStrs =
     andthen (parseRecipients P recipientStrs) (\<lambda>recipients.
     Inr (\<lambda>written. wrapping ''creating encryption writer: %w'' (age_Encrypt P rnd recipients written)))"

definition EncryptWithPassphraseBytes :: "prims \<Rightarrow> bytes \<Rightarrow> bytes \<Rightarrow> bytes \<Rightarrow> bytes result" where
  "EncryptWithPassphraseBytes P rnd data pass =
     andthen (wrapping ''creating scrypt recipient: %w'' (NewScryptRecipient P pass)) (\<lambda>recipient.
     wrapping ''creating encryption writer: %w'' (age_Encrypt P rnd [recipient] data))"

definition EncryptWithPassphrase :: "prims \<Rightarrow> bytes \<Rightarrow> bytes \<Rightarrow> bytes \<Rightarrow> bytes result" where
  "EncryptWithPassphrase P rnd data passphrase = EncryptWithPassphraseBytes P rnd data passphrase"

text \<open>io.ReadAll on a decrypting reader: everything, or the error that ended it.\<close>

definition read_all :: "bytes \<times> go_error option \<Rightarrow> bytes result" where
  "read_all r = (case r of (out, None) \<Rightarrow> Inr out
     | (_, Some e) \<Rightarrow> Inl (Wrap ''reading decrypted data: %w'' e))"

definition Decrypt :: "prims \<Rightarrow> bytes \<Rightarrow> bytes \<Rightarrow> bytes result" where
  "Decrypt P data identityStr =
     andthen (wrapping ''parsing identity: %w'' (ParseHybridIdentity P identityStr)) (\<lambda>identity.
     andthen (wrapping ''decrypting: %w'' (age_Decrypt P identity data)) read_all)"

definition DecryptStream :: "prims \<Rightarrow> bytes \<Rightarrow> bytes \<Rightarrow> (bytes \<times> go_error option) result" where
  "DecryptStream P data identityStr =
     andthen (wrapping ''parsing identity: %w'' (ParseHybridIdentity P identityStr)) (\<lambda>identity.
     wrapping ''decrypting: %w'' (age_Decrypt P identity data))"

definition DecryptWithPassphraseBytes :: "prims \<Rightarrow> bytes \<Rightarrow> bytes \<Rightarrow> bytes result" where
  "DecryptWithPassphraseBytes P data pass =
     andthen (wrapping ''creating scrypt identity: %w'' (NewScryptIdentity P pass)) (\<lambda>identity.
     andthen (wrapping ''decrypting: %w'' (age_Decrypt P identity data)) read_all)"

definition DecryptWithPassphrase :: "prims \<Rightarrow> bytes \<Rightarrow> bytes \<Rightarrow> bytes result" where
  "DecryptWithPassphrase P data passphrase = DecryptWithPassphraseBytes P data passphrase"

section \<open>Hardware factor\<close>

definition allZero :: "bytes \<Rightarrow> bool" where
  "allZero b \<longleftrightarrow> list_all (\<lambda>c. c = char_of (0 :: nat)) b"

definition hardwareKEKInfo :: string where "hardwareKEKInfo = ''instacrypt-hardware-kek-v1''"

definition hardwareKEKLength :: nat where "hardwareKEKLength = 32"

definition DeriveHardwareKEKBytes :: "prims \<Rightarrow> bytes \<Rightarrow> bytes \<Rightarrow> bytes result" where
  "DeriveHardwareKEKBytes P pass hwResponse =
     (if hwResponse = [] then Inl (Errorf ''empty hardware response'')
      else if allZero hwResponse then Inl (Errorf ''degenerate (all-zero) hardware response'')
      else wrapping ''deriving KEK: %w'' (hkdf_sha256 P pass hwResponse hardwareKEKInfo hardwareKEKLength))"

definition DeriveHardwareKEK :: "prims \<Rightarrow> bytes \<Rightarrow> bytes \<Rightarrow> bytes result" where
  "DeriveHardwareKEK P passphrase hwResponse = DeriveHardwareKEKBytes P passphrase hwResponse"

record CachedHWResponse =
  hw_sealed :: "bytes option"
  hw_serial :: bytes
  hw_family :: bytes

definition NewCachedHWResponse :: "prims \<Rightarrow> bytes \<Rightarrow> bytes \<Rightarrow> bytes \<Rightarrow> CachedHWResponse result" where
  "NewCachedHWResponse P response serial family =
     (if response = [] then Inl (Errorf ''cached hw response: empty'')
      else Inr \<lparr>hw_sealed = NewEnclave P response, hw_serial = serial, hw_family = family\<rparr>)"

text \<open>A nil receiver is \<open>None\<close>.\<close>

definition CachedHWResponse_Challenge :: "prims \<Rightarrow> CachedHWResponse option \<Rightarrow> bytes \<Rightarrow> bytes result" where
  "CachedHWResponse_Challenge P c challenge =
     (case c of None \<Rightarrow> Inl (Errorf ''cached hw response: not initialized'')
      | Some h \<Rightarrow>
        (case hw_sealed h of None \<Rightarrow> Inl (Errorf ''cached hw response: not initialized'')
         | Some e \<Rightarrow> wrapping ''cached hw response: unseal: %w'' (Enclave_Open P e)))"

section \<open>Git signatures\<close>

definition ArmorGitSignatureLabel :: string where "ArmorGitSignatureLabel = ''ICFX GIT SIGNATURE''"

definition ArmorGitFingerprintHeader :: string where "ArmorGitFingerprintHeader = ''Fingerprint''"

definition ArmorGitSignature :: "bytes \<Rightarrow> bytes \<Rightarrow> bytes" where
  "ArmorGitSignature sig fingerprint =
     (if fingerprint = [] then ArmorEncode sig ArmorGitSignatureLabel
      else ArmorEncodeWithHeaders sig ArmorGitSignatureLabel [(ArmorGitFingerprintHeader, fingerprint)])"

definition ParseGitSignature :: "bytes \<Rightarrow> (bytes \<times> bytes) result" where
  "ParseGitSignature armoredSig =
     andthen (ArmorDecodeWithHeaders armoredSig) (\<lambda>(payload, label, headers).
       if label \<noteq> ArmorGitSignatureLabel then Inl (Errorf ''unexpected armor label %q (want %q)'')
       else Inr (payload, case headers ArmorGitFingerprintHeader of None \<Rightarrow> [] | Some fp \<Rightarrow> fp))"

definition GitSign :: "prims \<Rightarrow> bytes \<Rightarrow> writer \<Rightarrow> bytes \<Rightarrow> bytes \<Rightarrow> writer \<times> unit result" where
  "GitSign P r w privKey fingerprint =
     (if fingerprint = [] then (w, Inl (Errorf ''fingerprint is required''))
      else case Sign P r privKey of
        Inl e \<Rightarrow> (w, Inl (Wrap ''signing: %w'' e))
      | Inr sig \<Rightarrow>
          (case Write w (ArmorGitSignature sig fingerprint) of
             (w', res) \<Rightarrow> (w', wrapping ''writing signature: %w'' res)))"

definition GitVerify :: "prims \<Rightarrow> bytes \<Rightarrow> bytes \<Rightarrow> bytes \<Rightarrow> bool result" where
  "GitVerify P r armoredSig pubKey =
     andthen (wrapping ''parsing signature: %w'' (ParseGitSignature armoredSig)) (\<lambda>(sig, _).
     Verify P r sig pubKey)"


section \<open>Lemmas\<close>

lemma fits_short: "length b \<le> 1000000 \<Longrightarrow> fits_field b"
  by (simp add: fits_field_def)

lemma SignedMessage_fields:
  "SignedMessage p a b = concat (map writeField [containerCanonicalTag, [char_of (unat p)], a, b])"
  by (simp add: SignedMessage_def)

lemma profile_char_inject: "char_of (unat p) = (char_of (unat q) :: char) \<longleftrightarrow> p = q" for p q :: "8 word"
  using unsigned_less [where ?'a = nat, of p] unsigned_less [where ?'a = nat, of q]
  by (auto simp: char_of_lt_eq word_unat_eq_iff)

lemma fields_dest: "concat (map writeField xs) = concat (map writeField ys) \<Longrightarrow>
    \<forall>a\<in>set xs. fits_field a \<Longrightarrow> \<forall>b\<in>set ys. fits_field b \<Longrightarrow> xs = ys"
  by (rule container_fields.fields_inject)

lemma parse_each_ok: "parse_each P ss = Inr rs \<Longrightarrow> list_all2 (\<lambda>s r. ParseHybridRecipient P s = Inr r) ss rs"
  by (induction ss arbitrary: rs) auto

lemma parse_each_mem:
  "parse_each P ss = Inr rs \<Longrightarrow> s \<in> set ss \<Longrightarrow> \<exists>r. ParseHybridRecipient P s = Inr r \<and> r \<in> set rs"
  by (induction ss arbitrary: rs) auto

lemma Encrypt_Decrypt:
  assumes "age_correct P" "Encrypt P rnd data rs = Inr ct"
    and "ParseHybridIdentity P s = Inr i" "Recipient_String P i \<in> set rs"
  shows "DecryptStream P ct s = Inr (data, None)" "Decrypt P ct s = Inr data"
proof -
  from assms(2) obtain ps where ps: "parse_each P rs = Inr ps" "age_Encrypt P rnd ps data = Inr ct"
    by (auto simp: Encrypt_def parseRecipients_def split: if_splits)
  obtain r where "ParseHybridRecipient P (Recipient_String P i) = Inr r" "r \<in> set ps"
    using parse_each_mem [OF ps(1) assms(4)] by auto
  with assms(1,3) ps(2) have "age_Decrypt P i ct = Inr (data, None)" unfolding age_correct_def by blast
  then show "DecryptStream P ct s = Inr (data, None)" "Decrypt P ct s = Inr data"
    using assms(3) by (simp_all add: DecryptStream_def Decrypt_def read_all_def)
qed

lemma Sign_Verify:
  assumes "mldsa_correct P" "Sign P data priv = Inr sig" "mldsa_PrivUnmarshal P priv = Inr k"
  shows "Verify P data sig (mldsa_Public P k) = Inr True"
  using assms by (auto simp: Sign_def Verify_def mldsa_correct_def)

lemma length_Fingerprint: "hash_lengths P \<Longrightarrow> length (Fingerprint P e s) = 32"
  by (simp add: Fingerprint_def hash_lengths_def length_hex_encode FingerprintHexLen_def)

lemma group4_Nil [simp]: "group4 i [] = []"
  by (subst group4.simps) simp

lemma group4_strip: "CHR '' '' \<notin> set fp \<Longrightarrow> filter (\<lambda>c. c \<noteq> CHR '' '') (group4 i fp) = fp"
proof (induction i fp rule: group4.induct)
  case (1 i fp)
  have t: "filter (\<lambda>c. c \<noteq> CHR '' '') (take 4 fp) = take 4 fp"
    using "1.prems" by (auto simp: filter_id_conv dest: in_set_takeD)
  have "CHR '' '' \<notin> set (drop 4 fp)" using "1.prems" by (auto dest: in_set_dropD)
  then have "filter (\<lambda>c. c \<noteq> CHR '' '') (group4 (i + 4) (drop 4 fp)) = drop 4 fp" if "fp \<noteq> []"
    using "1.IH" that by simp
  then show ?case using t by (subst group4.simps) simp
qed

lemma group4_length: "fp \<noteq> [] \<Longrightarrow> length (group4 i fp) = length fp + (length fp - 1) div 4 + (if i > 0 then 1 else 0)"
proof (induction i fp rule: group4.induct)
  case (1 i fp)
  have step: "group4 i fp = (if i > 0 then '' '' else []) @ take 4 fp @ group4 (i + 4) (drop 4 fp)"
    using "1.prems" by (subst group4.simps) simp
  show ?case
  proof (cases "length fp \<le> 4")
    case True
    then have "(length fp - 1) div 4 = 0" "drop 4 fp = []" "take 4 fp = fp" by simp_all
    then show ?thesis unfolding step by simp
  next
    case False
    then obtain n where n: "length fp = 4 + Suc n" by (metis less_natE not_le add_Suc_right)
    have "length (group4 (i + 4) (drop 4 fp)) = Suc n + n div 4 + 1" using 1 n by simp
    moreover have "(4 + n) div 4 = Suc (n div 4)" using div_add_self1 [of 4 n] by simp
    ultimately show ?thesis unfolding step using n by simp
  qed
qed

text \<open>A short printable fingerprint makes a well-formed header.\<close>

lemma hex_header_ok:
  assumes "fp \<noteq> []" "set fp \<subseteq> set ''0123456789abcdef''"
  shows "header_ok (ArmorGitFingerprintHeader, fp)"
proof -
  have r: "48 \<le> (of_char c :: nat) \<and> (of_char c :: nat) \<le> 102" if "c \<in> set fp" for c
    using subsetD [OF assms(2) that] by auto
  have ok: "line_ok fp" using r [of newline] r [of "CHR 0x0D"] r by (fastforce simp: line_ok_def ascii_def list_all_iff)
  have h: "\<not> is_space (of_char c)" if "c \<in> set fp" for c using r [OF that] by (auto simp: is_space_def)
  have "hd fp \<in> set fp" "last fp \<in> set fp" using assms(1) by simp_all
  then have "TrimSpace fp = fp"
    using h ok assms(1) by (intro TrimSpace_id) (auto simp: line_ok_def runes_all_ascii hd_map last_map)
  then show ?thesis
    using ok by (simp add: header_ok_def ArmorGitFingerprintHeader_def line_ok_def TrimSpace_ascii is_space_def)
qed

lemma ParseGitSignature_Armor:
  assumes "fp = [] \<or> header_ok (ArmorGitFingerprintHeader, fp)"
  shows "ParseGitSignature (ArmorGitSignature sig fp) = Inr (sig, fp)"
proof -
  have l: "line_ok ArmorGitSignatureLabel" by (simp add: line_ok_def ArmorGitSignatureLabel_def)
  from assms show ?thesis
    using ArmorDecode_Encode [OF l, of "[]" sig] ArmorDecode_Encode [OF l, of "[(ArmorGitFingerprintHeader, fp)]" sig]
    by (auto simp: ParseGitSignature_def ArmorGitSignature_def ArmorEncode_def)
qed


section \<open>A concrete instance\<close>

text \<open>
  Executable stand-ins that satisfy the laws, to apply the theorems at: nothing is secret here, the
  point is that the hypotheses can hold together.
\<close>

definition toy_prims :: prims where
  "toy_prims = \<lparr>
     sha256 = (\<lambda>b. take 32 (b @ replicate 32 (CHR 0x00))),
     sha512 = (\<lambda>b. take 64 (b @ replicate 64 (CHR 0x00))),
     hkdf_sha256 = (\<lambda>pass salt info n. Inr (take n (pass @ salt @ replicate n (CHR 0x00)))),
     ParseHybridRecipient = (\<lambda>s. if HasPrefix s ''age1pq1'' then Inr s else Inl (Errorf ''malformed recipient'')),
     ParseHybridIdentity = (\<lambda>s. if HasPrefix s ''AGE-SECRET-KEY-PQ-1'' then Inr s else Inl (Errorf ''malformed secret key'')),
     Recipient_String = (\<lambda>i. ''age1pq1'' @ drop 19 i),
     GenerateHybridIdentity = (\<lambda>rnd. Inr (''AGE-SECRET-KEY-PQ-1'' @ rnd)),
     Identity_String = (\<lambda>i. i),
     age_Encrypt = (\<lambda>rnd rs d. Inr (''age-encryption.org/v1'' @ d)),
     age_Decrypt = (\<lambda>i ct. if HasPrefix ct ''age-encryption.org/v1'' then Inr (drop 21 ct, None) else Inl (Errorf ''bad header'')),
     NewScryptRecipient = (\<lambda>pass. if pass = [] then Inl (Errorf ''empty passphrase'') else Inr pass),
     NewScryptIdentity = (\<lambda>pass. if pass = [] then Inl (Errorf ''empty passphrase'') else Inr pass),
     mldsa_GenerateKey = (\<lambda>rnd. Inr (rnd, rnd)),
     mldsa_PrivUnmarshal = (\<lambda>b. Inr b),
     mldsa_Public = (\<lambda>k. k),
     mldsa_Sign = (\<lambda>k m. Inr (k @ m)),
     mldsa_PubUnmarshal = (\<lambda>b. Inr b),
     mldsa_Verify = (\<lambda>p m sig. sig = p @ m),
     NewEnclave = (\<lambda>b. if b = [] then None else Some b),
     Enclave_Open = (\<lambda>e. Inr e)\<rparr>"

lemma toy_laws:
  "age_correct toy_prims" "scrypt_correct toy_prims" "mldsa_correct toy_prims" "hash_lengths toy_prims"
  "age_framed toy_prims" "enclave_correct toy_prims"
  by (auto simp: age_framed_def enclave_correct_def toy_prims_def age_correct_def scrypt_correct_def mldsa_correct_def hash_lengths_def
      HasPrefix_def split: if_splits)

section \<open>Properties\<close>

text \<open>
  The message a container signature covers determines the profile byte and both digests: two
  containers with equal signed messages have the same profile, the same plaintext digest and the
  same ciphertext digest, so neither a relabelled profile nor swapped or re-split digests can reuse
  a signature.
\<close>

theorem SignedMessage_inject:
  assumes "fits_field a" "fits_field b" "fits_field a'" "fits_field b'"
  shows "SignedMessage p a b = SignedMessage p' a' b' \<longleftrightarrow> p = p' \<and> a = a' \<and> b = b'"
proof
  assume "SignedMessage p a b = SignedMessage p' a' b'"
  then have "[containerCanonicalTag, [char_of (unat p)], a, b] = [containerCanonicalTag, [char_of (unat p')], a', b']"
    using assms unfolding SignedMessage_fields by (intro fields_dest) (simp_all add: fits_short containerCanonicalTag_def)
  then show "p = p' \<and> a = a' \<and> b = b'" by (simp only: list.inject profile_char_inject simp_thms)
qed simp

theorem SignedMessage_inject_witness:
  "SignedMessage 5 ''aa'' ''b'' \<noteq> SignedMessage 5 ''a'' ''ab''"
  using SignedMessage_inject [of "''aa''" "''b''" "''a''" "''ab''" 5 5] by (simp add: fits_field_def)

text \<open>
  Group encryption: a ciphertext made for several recipients is decrypted by the identity of
  any one of them, in full and in streaming form, and an empty recipient list is refused.
\<close>

theorem Encrypt_any_recipient:
  assumes "age_correct P" "Encrypt P rnd data recipients = Inr ct"
    and "ParseHybridIdentity P s = Inr i" "Recipient_String P i \<in> set recipients"
  shows "Decrypt P ct s = Inr data \<and> DecryptStream P ct s = Inr (data, None)
      \<and> (\<exists>e. Encrypt P rnd data [] = Inl e)"
  using Encrypt_Decrypt [OF assms] by (simp add: Encrypt_def parseRecipients_def)

theorem Encrypt_any_recipient_witness:
  "\<exists>ct. Encrypt toy_prims [] ''hi'' [''age1pq1bob'', ''age1pq1eve''] = Inr ct
     \<and> Decrypt toy_prims ct ''AGE-SECRET-KEY-PQ-1eve'' = Inr ''hi''"
proof -
  have "\<exists>ct. Encrypt toy_prims [] ''hi'' [''age1pq1bob'', ''age1pq1eve''] = Inr ct"
    by (simp add: Encrypt_def parseRecipients_def toy_prims_def HasPrefix_def)
  moreover have "ParseHybridIdentity toy_prims ''AGE-SECRET-KEY-PQ-1eve'' = Inr ''AGE-SECRET-KEY-PQ-1eve''"
    "Recipient_String toy_prims ''AGE-SECRET-KEY-PQ-1eve'' \<in> set [''age1pq1bob'', ''age1pq1eve'']"
    by (simp_all add: toy_prims_def HasPrefix_def)
  ultimately show ?thesis using Encrypt_any_recipient [OF toy_laws(1)] by blast
qed

text \<open>
  Git signatures: what GitSign wrote for a fingerprint of hex digits is parsed back to the
  signature and that fingerprint, and GitVerify accepts it for the same content under the signer's
  public key. Nothing is written when signing fails.
\<close>

theorem GitSign_GitVerify:
  assumes "mldsa_correct P" "mldsa_PrivUnmarshal P priv = Inr k" "GitSign P content new_buffer priv fp = (w, Inr u)"
    and "set fp \<subseteq> set ''0123456789abcdef''"
  shows "GitVerify P content (w_out w) (mldsa_Public P k) = Inr True
     \<and> (\<exists>sig. Sign P content priv = Inr sig \<and> ParseGitSignature (w_out w) = Inr (sig, fp))"
proof -
  have fp: "fp \<noteq> []" using assms(3) by (auto simp: GitSign_def split: if_splits)
  with assms(3) obtain sig where sig: "Sign P content priv = Inr sig" "w_out w = ArmorGitSignature sig fp"
    by (auto simp: GitSign_def split: sum.splits)
  have "ParseGitSignature (w_out w) = Inr (sig, fp)"
    using ParseGitSignature_Armor hex_header_ok [OF fp assms(4)] by (simp add: sig(2))
  then show ?thesis
    using Sign_Verify [OF assms(1) sig(1) assms(2)] sig(1) by (simp add: GitVerify_def)
qed

theorem GitSign_GitVerify_witness:
  "\<exists>w. GitSign toy_prims ''commit'' new_buffer ''key'' ''a1b2'' = (w, Inr ())
     \<and> GitVerify toy_prims ''commit'' (w_out w) ''key'' = Inr True"
proof -
  have "\<exists>w. GitSign toy_prims ''commit'' new_buffer ''key'' ''a1b2'' = (w, Inr ())"
    by (simp add: GitSign_def Sign_def toy_prims_def)
  moreover have "mldsa_PrivUnmarshal toy_prims ''key'' = Inr ''key''" "mldsa_Public toy_prims ''key'' = ''key''"
    by (simp_all add: toy_prims_def)
  ultimately show ?thesis using GitSign_GitVerify [OF toy_laws(3), of "''key''" "''key''" "''commit''" "''a1b2''"] by auto
qed

text \<open>
  FormatGrouped loses nothing: with its blanks removed the display form is the fingerprint,
  and a non-empty fingerprint of n characters is shown with (n - 1) div 4 blanks.
\<close>

theorem FormatGrouped_correct:
  assumes "CHR '' '' \<notin> set fp" "fp \<noteq> []"
  shows "filter (\<lambda>c. c \<noteq> CHR '' '') (FormatGrouped fp) = fp
     \<and> length (FormatGrouped fp) = length fp + (length fp - 1) div 4"
  using group4_strip [OF assms(1)] group4_length [OF assms(2)] by (simp add: FormatGrouped_def)

theorem FormatGrouped_correct_witness:
  "filter (\<lambda>c. c \<noteq> CHR '' '') (FormatGrouped ''a1b2c3d4e'') = ''a1b2c3d4e'' \<and> length (FormatGrouped ''a1b2c3d4e'') = 11"
  using FormatGrouped_correct [of "''a1b2c3d4e''"] by simp

end
