(* ===== verification/Icfx_Lock.thy ===== *)
theory Icfx_Lock
  imports Icfx_Crypto
begin

text \<open>
  The lock: the public half of an identity as it is exchanged (qr/qr.go LockBundle), its JSON, its
  self-signature over the key-binding fields and the binding of its fingerprint to its keys
  (qr/authlock.go). A LockSigner is its Sign method, a function argument.
\<close>

record LockBundle =
  lb_ID :: bytes
  lb_Name :: bytes
  lb_EncPubKey :: bytes
  lb_SignPubKey :: bytes
  lb_Fingerprint :: bytes
  lb_Email :: bytes
  lb_Alias :: bytes
  lb_Sig :: bytes

definition zero_LockBundle :: LockBundle where
  "zero_LockBundle = \<lparr>lb_ID = [], lb_Name = [], lb_EncPubKey = [], lb_SignPubKey = [], lb_Fingerprint = [],
     lb_Email = [], lb_Alias = [], lb_Sig = []\<rparr>"

definition LockBundle_fields :: "LockBundle field list" where
  "LockBundle_fields =
     [fld ''id'' dec_str lb_ID lb_ID_update,
      fld ''name'' dec_str lb_Name lb_Name_update,
      fld ''enc_pub_key'' dec_str lb_EncPubKey lb_EncPubKey_update,
      fld ''sign_pub_key'' dec_str lb_SignPubKey lb_SignPubKey_update,
      fld ''fingerprint'' dec_str lb_Fingerprint lb_Fingerprint_update,
      fld ''email'' dec_str lb_Email lb_Email_update,
      fld ''alias'' dec_str lb_Alias lb_Alias_update,
      fld ''sig'' dec_str lb_Sig lb_Sig_update]"

definition enc_LockBundle :: "LockBundle \<Rightarrow> json" where
  "enc_LockBundle b = JObj ([(''id'', jstr (lb_ID b)), (''name'', jstr (lb_Name b))]
     @ omit (lb_EncPubKey b = []) ''enc_pub_key'' (jstr (lb_EncPubKey b))
     @ omit (lb_SignPubKey b = []) ''sign_pub_key'' (jstr (lb_SignPubKey b))
     @ [(''fingerprint'', jstr (lb_Fingerprint b))]
     @ omit (lb_Email b = []) ''email'' (jstr (lb_Email b))
     @ omit (lb_Alias b = []) ''alias'' (jstr (lb_Alias b))
     @ omit (lb_Sig b = []) ''sig'' (jstr (lb_Sig b)))"

definition MarshalLockBundle :: "LockBundle \<Rightarrow> bytes result" where
  "MarshalLockBundle b = Inr (compact (enc_LockBundle b))"

definition ParseLockBundle :: "bytes \<Rightarrow> LockBundle result" where
  "ParseLockBundle data =
     (case unmarshal (dec_struct LockBundle_fields) zero_LockBundle data of
        None \<Rightarrow> Inl (Wrap ''parsing lock bundle: %w'' (Errorf ''json'')) | Some b \<Rightarrow> Inr b)"

definition computeBundleID :: "prims \<Rightarrow> LockBundle \<Rightarrow> bytes result" where
  "computeBundleID P bundle =
     andthen (wrapping ''marshaling bundle for ID: %w'' (MarshalLockBundle bundle)) (\<lambda>data.
     Inr (take 8 (hex_encode (sha256 P data))))"

text \<open>Labels and keys that are text.\<close>

definition utf8_LockBundle :: "LockBundle \<Rightarrow> bool" where
  "utf8_LockBundle b \<longleftrightarrow> valid_utf8 (lb_ID b) \<and> valid_utf8 (lb_Name b) \<and> valid_utf8 (lb_EncPubKey b)
     \<and> valid_utf8 (lb_SignPubKey b) \<and> valid_utf8 (lb_Fingerprint b) \<and> valid_utf8 (lb_Email b)
     \<and> valid_utf8 (lb_Alias b) \<and> valid_utf8 (lb_Sig b)"

section \<open>Authentication\<close>

definition lockCanonicalTag :: string where "lockCanonicalTag = ''ICFX-LOCK-V1''"

definition ErrFingerprintMismatch :: go_error where
  "ErrFingerprintMismatch = Sentinel ''fingerprint does not match the lock's keys''"

definition ErrLockSigInvalid :: go_error where
  "ErrLockSigInvalid = Sentinel ''lock self-signature is missing or invalid''"

definition qr_writeField :: "bytes \<Rightarrow> bytes" where
  "qr_writeField b = put_uint64 (of_nat (length b)) @ b"

definition writeStr :: "string \<Rightarrow> bytes" where
  "writeStr s = qr_writeField s"

definition CanonicalLockBytes :: "LockBundle \<Rightarrow> bytes" where
  "CanonicalLockBytes lb = writeStr lockCanonicalTag @ writeStr (lb_ID lb) @ writeStr (lb_EncPubKey lb)
     @ writeStr (lb_SignPubKey lb) @ writeStr (lb_Fingerprint lb)"

definition SealLock :: "(bytes \<Rightarrow> bytes result) \<Rightarrow> LockBundle \<Rightarrow> LockBundle result" where
  "SealLock signer lb =
     andthen (wrapping ''signing lock: %w'' (signer (CanonicalLockBytes lb))) (\<lambda>sig.
     Inr (lb\<lparr>lb_Sig := b64_encode sig\<rparr>))"

definition VerifyFingerprint :: "prims \<Rightarrow> LockBundle \<Rightarrow> unit result" where
  "VerifyFingerprint P lb =
     andthen (wrapping ''decoding sign pub key: %w'' (b64_decode (lb_SignPubKey lb))) (\<lambda>signPub.
     if Fingerprint P (lb_EncPubKey lb) signPub \<noteq> lb_Fingerprint lb then Inl ErrFingerprintMismatch
     else Inr ())"

definition VerifyLockSelfSig :: "prims \<Rightarrow> LockBundle \<Rightarrow> unit result" where
  "VerifyLockSelfSig P lb =
     (if lb_Sig lb = [] then Inl ErrLockSigInvalid
      else andthen (VerifyFingerprint P lb) (\<lambda>_.
      andthen (wrapping ''decoding lock signature: %w'' (b64_decode (lb_Sig lb))) (\<lambda>sig.
      andthen (wrapping ''decoding sign pub key: %w'' (b64_decode (lb_SignPubKey lb))) (\<lambda>signPub.
      andthen (wrapping ''verifying lock signature: %w'' (Verify P (CanonicalLockBytes lb) sig signPub)) (\<lambda>ok.
      if \<not> ok then Inl ErrLockSigInvalid else Inr ())))))"

section \<open>Lemmas\<close>

interpretation lock_fields: framing writeStr fits_field
proof
  show "a = b \<and> x = y" if "fits_field a" "fits_field b" "writeStr a @ x = writeStr b @ y" for a b x y
    by (rule frame64_split [OF that(1,2)]) (use that(3) in \<open>simp add: writeStr_def qr_writeField_def\<close>)
  show "writeStr a \<noteq> []" for a unfolding writeStr_def qr_writeField_def by (rule frame64_nonempty)
qed

lemma wf_enc_LockBundle: "wf_json 10000 (enc_LockBundle b)"
  by (simp add: enc_LockBundle_def valid_utf8_ascii ball_Un set_omit)

lemma find_LockBundle:
  "find_field LockBundle_fields ''id'' = Some (snd (fld ''id'' dec_str lb_ID lb_ID_update))"
  "find_field LockBundle_fields ''name'' = Some (snd (fld ''name'' dec_str lb_Name lb_Name_update))"
  "find_field LockBundle_fields ''enc_pub_key'' = Some (snd (fld ''enc_pub_key'' dec_str lb_EncPubKey lb_EncPubKey_update))"
  "find_field LockBundle_fields ''sign_pub_key'' = Some (snd (fld ''sign_pub_key'' dec_str lb_SignPubKey lb_SignPubKey_update))"
  "find_field LockBundle_fields ''fingerprint'' = Some (snd (fld ''fingerprint'' dec_str lb_Fingerprint lb_Fingerprint_update))"
  "find_field LockBundle_fields ''email'' = Some (snd (fld ''email'' dec_str lb_Email lb_Email_update))"
  "find_field LockBundle_fields ''alias'' = Some (snd (fld ''alias'' dec_str lb_Alias lb_Alias_update))"
  "find_field LockBundle_fields ''sig'' = Some (snd (fld ''sig'' dec_str lb_Sig lb_Sig_update))"
  by (simp_all add: LockBundle_fields_def find_field_def fld_def)

lemma dec_enc_LockBundle:
  assumes "utf8_LockBundle b"
  shows "dec_struct LockBundle_fields (enc_LockBundle b) zero_LockBundle = (b, DOk)"
  using assms
  by (simp add: enc_LockBundle_def json_rt find_LockBundle fld_def utf8_LockBundle_def zero_LockBundle_def)

lemma ParseLockBundle_Marshal:
  assumes "utf8_LockBundle b"
  shows "ParseLockBundle (compact (enc_LockBundle b)) = Inr b"
  by (simp add: ParseLockBundle_def unmarshal_compact wf_enc_LockBundle dec_enc_LockBundle [OF assms])

lemma VerifyLockSelfSig_dest:
  assumes "VerifyLockSelfSig P lb = Inr u"
  obtains sig pub k where "b64_decode (lb_Sig lb) = Inr sig" "b64_decode (lb_SignPubKey lb) = Inr pub"
    "mldsa_PubUnmarshal P pub = Inr k" "mldsa_Verify P k (CanonicalLockBytes lb) sig"
    "Fingerprint P (lb_EncPubKey lb) pub = lb_Fingerprint lb" "lb_Sig lb \<noteq> []"
  using assms by (auto simp: VerifyLockSelfSig_def VerifyFingerprint_def Verify_def split: if_splits)


lemma CanonicalLockBytes_fields:
  "CanonicalLockBytes lb = concat (map writeStr [lockCanonicalTag, lb_ID lb, lb_EncPubKey lb, lb_SignPubKey lb, lb_Fingerprint lb])"
  by (simp add: CanonicalLockBytes_def)

definition fits_LockBundle :: "LockBundle \<Rightarrow> bool" where
  "fits_LockBundle b \<longleftrightarrow> fits_field (lb_ID b) \<and> fits_field (lb_EncPubKey b) \<and> fits_field (lb_SignPubKey b)
     \<and> fits_field (lb_Fingerprint b)"

section \<open>Properties\<close>

text \<open>
  Sealing: a lock that carries the public keys of an identity and their fingerprint, sealed with
  that identity's signing key, verifies, and still verifies after any edit of its advisory labels
  (name, email, alias).
\<close>

theorem SealLock_verifies:
  assumes "mldsa_correct P" "mldsa_PrivUnmarshal P priv = Inr k"
    and "lb_SignPubKey lb = b64_encode (mldsa_Public P k)"
    and "lb_Fingerprint lb = Fingerprint P (lb_EncPubKey lb) (mldsa_Public P k)"
    and "SealLock (\<lambda>m. Sign P m priv) lb = Inr sealed" "lb_Sig sealed \<noteq> []"
  shows "VerifyLockSelfSig P (sealed\<lparr>lb_Name := name, lb_Email := email, lb_Alias := alias\<rparr>) = Inr ()"
proof -
  from assms(5) obtain sig where sig: "Sign P (CanonicalLockBytes lb) priv = Inr sig" "sealed = lb\<lparr>lb_Sig := b64_encode sig\<rparr>"
    by (auto simp: SealLock_def)
  let ?lb = "sealed\<lparr>lb_Name := name, lb_Email := email, lb_Alias := alias\<rparr>"
  have "CanonicalLockBytes ?lb = CanonicalLockBytes lb" by (simp add: sig(2) CanonicalLockBytes_def)
  moreover have "Verify P (CanonicalLockBytes lb) sig (mldsa_Public P k) = Inr True"
    using Sign_Verify [OF assms(1) sig(1) assms(2)] .
  ultimately show ?thesis
    using assms(3,4,6) by (simp add: VerifyLockSelfSig_def VerifyFingerprint_def sig(2))
qed

definition sample_lock :: LockBundle where
  "sample_lock = \<lparr>lb_ID = ''IC-1'', lb_Name = ''Bob'', lb_EncPubKey = ''age1pq1bob'',
     lb_SignPubKey = b64_encode ''pub'', lb_Fingerprint = Fingerprint toy_prims ''age1pq1bob'' ''pub'',
     lb_Email = [], lb_Alias = ''bob'', lb_Sig = []\<rparr>"

theorem SealLock_verifies_witness:
  "\<exists>sealed. SealLock (\<lambda>m. Sign toy_prims m ''pub'') sample_lock = Inr sealed
     \<and> VerifyLockSelfSig toy_prims (sealed\<lparr>lb_Name := ''Robert'', lb_Email := '''', lb_Alias := ''rob''\<rparr>) = Inr ()"
proof -
  have k: "mldsa_PrivUnmarshal toy_prims ''pub'' = Inr ''pub''" "mldsa_Public toy_prims ''pub'' = ''pub''"
    by (simp_all add: toy_prims_def)
  have "\<exists>sig. sig \<noteq> [] \<and> Sign toy_prims (CanonicalLockBytes sample_lock) ''pub'' = Inr sig"
    by (simp add: Sign_def toy_prims_def)
  then have "\<exists>sealed. SealLock (\<lambda>m. Sign toy_prims m ''pub'') sample_lock = Inr sealed \<and> lb_Sig sealed \<noteq> []"
    by (auto simp: SealLock_def)
  then show ?thesis
    using SealLock_verifies [OF toy_laws(3) k(1), of sample_lock] k(2) by (auto simp: sample_lock_def)
qed

text \<open>
  The self-signature covers exactly the key-binding fields: two locks have the same canonical
  bytes if and only if they agree on ID, both public keys and fingerprint; no shift of bytes between
  fields can produce the same message.
\<close>

theorem CanonicalLockBytes_inject:
  assumes "fits_LockBundle a" "fits_LockBundle b"
  shows "CanonicalLockBytes a = CanonicalLockBytes b \<longleftrightarrow>
     lb_ID a = lb_ID b \<and> lb_EncPubKey a = lb_EncPubKey b \<and> lb_SignPubKey a = lb_SignPubKey b
     \<and> lb_Fingerprint a = lb_Fingerprint b"
proof
  assume "CanonicalLockBytes a = CanonicalLockBytes b"
  then have "[lockCanonicalTag, lb_ID a, lb_EncPubKey a, lb_SignPubKey a, lb_Fingerprint a]
      = [lockCanonicalTag, lb_ID b, lb_EncPubKey b, lb_SignPubKey b, lb_Fingerprint b]"
    using assms unfolding CanonicalLockBytes_fields
    by (intro lock_fields.fields_inject) (simp_all add: fits_LockBundle_def fits_short lockCanonicalTag_def)
  then show "lb_ID a = lb_ID b \<and> lb_EncPubKey a = lb_EncPubKey b \<and> lb_SignPubKey a = lb_SignPubKey b
     \<and> lb_Fingerprint a = lb_Fingerprint b"
    by simp
qed (simp add: CanonicalLockBytes_def)

theorem CanonicalLockBytes_inject_witness:
  "CanonicalLockBytes sample_lock \<noteq> CanonicalLockBytes (sample_lock\<lparr>lb_ID := ''IC-1a'', lb_EncPubKey := ''ge1pq1bob''\<rparr>)"
proof -
  have f: "fits_field (take 32 s)" for s :: bytes by (simp add: fits_field_def)
  have p: "b64_encode ''pub'' = ''cHVi''" by code_simp
  have "fits_LockBundle sample_lock" "fits_LockBundle (sample_lock\<lparr>lb_ID := ''IC-1a'', lb_EncPubKey := ''ge1pq1bob''\<rparr>)"
    by (simp_all add: fits_LockBundle_def sample_lock_def Fingerprint_def FingerprintHexLen_def f p)
      (simp_all add: fits_field_def)
  then show ?thesis
    using CanonicalLockBytes_inject [of sample_lock "sample_lock\<lparr>lb_ID := ''IC-1a'', lb_EncPubKey := ''ge1pq1bob''\<rparr>"]
    by (simp add: sample_lock_def)
qed

end
