(* ===== verification/Icfx_Frames.thy ===== *)
theory Icfx_Frames
  imports Icfx_Lock "HOL-Library.AList"
begin

text \<open>
  Animated lock QR codes (qr/frames.go, qr/gifdecode.go): a lock bundle split into numbered chunks,
  one JSON frame each, and the collector that accepts frames in any order. The collector's map of
  chunks is an association list with distinct keys. Its mutex makes each call atomic, so a run is
  a sequence of calls. Rendering (QR codes, GIF, logo) is outside the model; the GIF and QR readers
  of DecodeAnimatedQRGIF are a parameter.
\<close>

section \<open>Frames\<close>

definition FrameVersion :: int where "FrameVersion = 1"

definition DefaultFrameChunkSize :: nat where "DefaultFrameChunkSize = 256"

definition ErrNotFrame :: go_error where "ErrNotFrame = Sentinel ''not an animated QR frame''"

record Frame =
  fr_Version :: int
  fr_BundleID :: bytes
  fr_Index :: int
  fr_Total :: int
  fr_Data :: bytes

definition zero_Frame :: Frame where
  "zero_Frame = \<lparr>fr_Version = 0, fr_BundleID = [], fr_Index = 0, fr_Total = 0, fr_Data = []\<rparr>"

definition Frame_fields :: "Frame field list" where
  "Frame_fields =
     [fld ''v'' dec_int fr_Version fr_Version_update,
      fld ''bid'' dec_str fr_BundleID fr_BundleID_update,
      fld ''p'' dec_int fr_Index fr_Index_update,
      fld ''n'' dec_int fr_Total fr_Total_update,
      fld ''d'' dec_bytes fr_Data fr_Data_update]"

definition enc_Frame :: "Frame \<Rightarrow> json" where
  "enc_Frame f = JObj [(''v'', jint (fr_Version f)), (''bid'', jstr (fr_BundleID f)), (''p'', jint (fr_Index f)),
     (''n'', jint (fr_Total f)), (''d'', jbytes (fr_Data f))]"

text \<open>The loop body of MarshalAnimatedQR: the frame of chunk \<open>i\<close>.\<close>

definition frame_at :: "bytes \<Rightarrow> bytes \<Rightarrow> nat \<Rightarrow> nat \<Rightarrow> Frame" where
  "frame_at bid data tot i =
     (let start = i * DefaultFrameChunkSize; stop = min (start + DefaultFrameChunkSize) (length data)
      in \<lparr>fr_Version = FrameVersion, fr_BundleID = bid, fr_Index = int i + 1, fr_Total = int tot,
          fr_Data = slice data start stop\<rparr>)"

definition MarshalAnimatedQR :: "prims \<Rightarrow> LockBundle \<Rightarrow> bytes list result" where
  "MarshalAnimatedQR P bundle =
     andthen (wrapping ''marshaling bundle: %w'' (MarshalLockBundle bundle)) (\<lambda>data.
     andthen (computeBundleID P bundle) (\<lambda>bid.
     let tot = (length data + DefaultFrameChunkSize - 1) div DefaultFrameChunkSize in
     if tot < 1 then Inl (Errorf ''empty bundle'')
     else Inr (map (\<lambda>i. compact (enc_Frame (frame_at bid data tot i))) [0..<tot])))"

section \<open>The collector\<close>

record Progress =
  pr_Received :: nat
  pr_Total :: int

record FrameCollector =
  fc_bid :: bytes
  fc_total :: int
  fc_chunks :: "(int \<times> bytes) list"

definition NewFrameCollector :: FrameCollector where
  "NewFrameCollector = \<lparr>fc_bid = [], fc_total = 0, fc_chunks = []\<rparr>"

definition resetLocked :: "FrameCollector \<Rightarrow> FrameCollector" where
  "resetLocked c = c\<lparr>fc_bid := [], fc_total := 0, fc_chunks := []\<rparr>"

definition Reset :: "FrameCollector \<Rightarrow> FrameCollector" where
  "Reset c = resetLocked c"

text \<open>The part of Add under the lock, for a frame that passed the checks.\<close>

definition add_locked :: "FrameCollector \<Rightarrow> Frame \<Rightarrow> FrameCollector \<times> Progress result" where
  "add_locked c0 frame =
     (let c1 = (if fc_bid c0 \<noteq> [] \<and> fc_bid c0 \<noteq> fr_BundleID frame then resetLocked c0 else c0);
          c = (if fc_bid c1 = [] then c1\<lparr>fc_bid := fr_BundleID frame, fc_total := fr_Total frame\<rparr> else c1)
      in if fr_Total frame \<noteq> fc_total c
         then (c, Inl (Errorf ''frame total %d conflicts with expected %d''))
         else if (case map_of (fc_chunks c) (fr_Index frame) of Some existing \<Rightarrow> existing \<noteq> fr_Data frame | None \<Rightarrow> False)
         then (c, Inl (Errorf ''frame %d conflicts with previously scanned data''))
         else let c' = c\<lparr>fc_chunks := AList.update (fr_Index frame) (fr_Data frame) (fc_chunks c)\<rparr>
              in (c', Inr \<lparr>pr_Received = length (fc_chunks c'), pr_Total = fc_total c'\<rparr>))"

definition Add :: "FrameCollector \<Rightarrow> bytes \<Rightarrow> FrameCollector \<times> Progress result" where
  "Add c payload =
     (case unmarshal (dec_struct Frame_fields) zero_Frame payload of
        None \<Rightarrow> (c, Inl ErrNotFrame)
      | Some frame \<Rightarrow>
          if fr_Version frame = 0 then (c, Inl ErrNotFrame)
          else if fr_Version frame \<noteq> FrameVersion
          then (c, Inl (Errorf ''unsupported frame version %d (this build supports v%d)''))
          else if fr_BundleID frame = [] then (c, Inl (Errorf ''frame missing bundle ID''))
          else if fr_Total frame < 1 then (c, Inl (Errorf ''invalid frame total %d''))
          else if fr_Index frame < 1 \<or> fr_Index frame > fr_Total frame
          then (c, Inl (Errorf ''frame index %d out of range 1..%d''))
          else if fr_Data frame = [] then (c, Inl (Errorf ''frame %d has no data''))
          else add_locked c frame)"

definition Complete :: "FrameCollector \<Rightarrow> bool" where
  "Complete c \<longleftrightarrow> fc_total c > 0 \<and> int (length (fc_chunks c)) = fc_total c"

definition chunk :: "FrameCollector \<Rightarrow> int \<Rightarrow> bytes" where
  "chunk c i = (case map_of (fc_chunks c) i of Some b \<Rightarrow> b | None \<Rightarrow> [])"

definition Bundle :: "prims \<Rightarrow> FrameCollector \<Rightarrow> LockBundle result" where
  "Bundle P c =
     (if fc_total c = 0 \<or> int (length (fc_chunks c)) \<noteq> fc_total c
      then Inl (Errorf ''incomplete: %d of %d frames collected'')
      else let data = concat (map (chunk c) [1..fc_total c]) in
      andthen (wrapping ''reassembling bundle: %w'' (ParseLockBundle data)) (\<lambda>bundle.
      andthen (wrapping ''computing verification bundle ID: %w'' (computeBundleID P bundle)) (\<lambda>bid.
      if bid \<noteq> fc_bid c then Inl (Errorf ''bundle ID verification failed: computed %q, expected %q'')
      else Inr bundle)))"

datatype PayloadKind = PayloadRaw | PayloadFrame

definition ClassifyPayload :: "bytes \<Rightarrow> PayloadKind" where
  "ClassifyPayload data =
     (case unmarshal (dec_struct [fld ''v'' dec_int (\<lambda>v. v) (\<lambda>f v. f v)]) 0 data of
        None \<Rightarrow> PayloadRaw
      | Some v \<Rightarrow> if v \<ge> 1 then PayloadFrame else PayloadRaw)"

section \<open>Reading a GIF\<close>

datatype hint = PURE_BARCODE | TRY_HARDER

text \<open>image/gif and gozxing: the logical screen, the frames, a bitmap of one, and the QR text in it.\<close>

record gif_reader =
  gif_DecodeConfig :: "bytes \<Rightarrow> (nat \<times> nat) result"
  gif_DecodeAll :: "bytes \<Rightarrow> bytes list result"
  NewBinaryBitmapFromImage :: "bytes \<Rightarrow> bytes result"
  reader_Decode :: "bytes \<Rightarrow> hint \<Rightarrow> bytes result"

definition maxGIFBytes :: nat where "maxGIFBytes = 4194304"

definition maxGIFPixels :: nat where "maxGIFPixels = 4096 * 4096"

definition maxGIFFrames :: nat where "maxGIFFrames = 64"

definition IsGIF :: "bytes \<Rightarrow> bool" where
  "IsGIF data \<longleftrightarrow> HasPrefix data ''GIF87a'' \<or> HasPrefix data ''GIF89a''"

fun try_hints :: "gif_reader \<Rightarrow> bytes \<Rightarrow> hint list \<Rightarrow> FrameCollector \<times> nat \<Rightarrow> FrameCollector \<times> nat" where
  "try_hints G frame [] s = s"
| "try_hints G frame (h # hs) s =
     (case NewBinaryBitmapFromImage G frame of
        Inl _ \<Rightarrow> s
      | Inr bmp \<Rightarrow>
          (case reader_Decode G bmp h of
             Inl _ \<Rightarrow> try_hints G frame hs s
           | Inr txt \<Rightarrow>
               (case Add (fst s) txt of
                  (c, Inl _) \<Rightarrow> (c, snd s)
                | (c, Inr _) \<Rightarrow> (c, snd s + 1))))"

fun scan_frames :: "gif_reader \<Rightarrow> bytes list \<Rightarrow> FrameCollector \<times> nat \<Rightarrow> FrameCollector \<times> nat" where
  "scan_frames G [] s = s"
| "scan_frames G (f # fs) s =
     (let s' = try_hints G f [PURE_BARCODE, TRY_HARDER] s
      in if Complete (fst s') then s' else scan_frames G fs s')"

definition DecodeAnimatedQRGIF :: "prims \<Rightarrow> gif_reader \<Rightarrow> bytes \<Rightarrow> LockBundle result" where
  "DecodeAnimatedQRGIF P G data =
     (if length data > maxGIFBytes then Inl (Errorf ''GIF too large: %d bytes (max %d)'')
      else andthen (wrapping ''reading GIF header: %w'' (gif_DecodeConfig G data)) (\<lambda>(w, h).
      if w * h > maxGIFPixels then Inl (Errorf ''GIF dimensions too large: %dx%d'')
      else andthen (wrapping ''decoding GIF: %w'' (gif_DecodeAll G data)) (\<lambda>images.
      if images = [] then Inl (Errorf ''GIF contains no frames'')
      else if length images > maxGIFFrames then Inl (Errorf ''GIF has too many frames: %d (max %d)'')
      else case scan_frames G images (NewFrameCollector, 0) of (c, decoded) \<Rightarrow>
        if decoded = 0 then Inl (Errorf ''no QR frames decoded from GIF (%d frames scanned)'')
        else if \<not> Complete c
        then Inl (Errorf ''incomplete animated QR: decoded %d usable frames from %d GIF frames'')
        else Bundle P c)))"

section \<open>The collector's invariant\<close>

definition fc_wf :: "FrameCollector \<Rightarrow> bool" where
  "fc_wf c \<longleftrightarrow> distinct (map fst (fc_chunks c))
     \<and> (fc_bid c = [] \<longrightarrow> fc_total c = 0 \<and> fc_chunks c = [])
     \<and> (fc_bid c \<noteq> [] \<longrightarrow> fc_total c \<ge> 1)
     \<and> (\<forall>(i, b)\<in>set (fc_chunks c). 1 \<le> i \<and> i \<le> fc_total c \<and> b \<noteq> [])"

definition frame_ok :: "Frame \<Rightarrow> bool" where
  "frame_ok f \<longleftrightarrow> fr_Version f = FrameVersion \<and> fr_BundleID f \<noteq> [] \<and> fr_Total f \<ge> 1
     \<and> 1 \<le> fr_Index f \<and> fr_Index f \<le> fr_Total f \<and> fr_Data f \<noteq> []"

lemma fc_wf_New [simp]: "fc_wf NewFrameCollector"
  by (simp add: fc_wf_def NewFrameCollector_def)

lemma fc_wf_reset: "fc_wf (resetLocked c)"
  by (simp add: fc_wf_def resetLocked_def)

lemma Add_cases:
  "(\<exists>f. unmarshal (dec_struct Frame_fields) zero_Frame payload = Some f \<and> frame_ok f \<and> Add c payload = add_locked c f)
   \<or> (\<exists>e. Add c payload = (c, Inl e))"
proof (cases "unmarshal (dec_struct Frame_fields) zero_Frame payload")
  case (Some f)
  then show ?thesis
    by (cases "frame_ok f") (auto simp: Add_def frame_ok_def FrameVersion_def)
qed (simp add: Add_def)

lemma update_wf:
  assumes "fc_wf c" "frame_ok f" "fc_bid c = fr_BundleID f" "fc_total c = fr_Total f"
  shows "fc_wf (c\<lparr>fc_chunks := AList.update (fr_Index f) (fr_Data f) (fc_chunks c)\<rparr>)"
proof -
  have "distinct (map fst (AList.update (fr_Index f) (fr_Data f) (fc_chunks c)))"
    using assms(1) by (intro distinct_update) (simp add: fc_wf_def)
  moreover have "1 \<le> i \<and> i \<le> fc_total c \<and> b \<noteq> []"
    if "(i, b) \<in> set (AList.update (fr_Index f) (fr_Data f) (fc_chunks c))" for i b
  proof -
    have "map_of (AList.update (fr_Index f) (fr_Data f) (fc_chunks c)) i = Some b"
      using that calculation by simp
    then show ?thesis
      using assms map_of_SomeD [of "fc_chunks c" i b]
      by (auto simp: update_conv' fc_wf_def frame_ok_def split: if_splits)
  qed
  ultimately show ?thesis using assms by (auto simp: fc_wf_def frame_ok_def)
qed

lemma add_locked_wf:
  assumes "fc_wf c" "frame_ok f"
  shows "fc_wf (fst (add_locked c f))"
proof -
  let ?c1 = "if fc_bid c \<noteq> [] \<and> fc_bid c \<noteq> fr_BundleID f then resetLocked c else c"
  let ?c2 = "if fc_bid ?c1 = [] then ?c1\<lparr>fc_bid := fr_BundleID f, fc_total := fr_Total f\<rparr> else ?c1"
  have "fc_wf ?c1" using assms(1) fc_wf_reset by simp
  then have c2: "fc_wf ?c2" using assms(2) by (auto simp: fc_wf_def frame_ok_def)
  have bid: "fc_bid ?c2 = fr_BundleID f" using assms(2) by (simp add: resetLocked_def)
  show ?thesis
    using c2 bid update_wf [OF c2 assms(2) bid] by (simp add: add_locked_def Let_def)
qed

lemma Add_wf: "fc_wf c \<Longrightarrow> fc_wf (fst (Add c payload))"
  using Add_cases [of payload c] add_locked_wf by fastforce

section \<open>The frames of a bundle\<close>

definition frame_count :: "bytes \<Rightarrow> nat" where
  "frame_count data = (length data + DefaultFrameChunkSize - 1) div DefaultFrameChunkSize"

lemma frame_start: "i < frame_count data \<Longrightarrow> i * 256 < length data"
  by (simp add: frame_count_def DefaultFrameChunkSize_def less_eq_div_iff_mult_less_eq flip: Suc_le_eq)

lemma frame_data: "fr_Data (frame_at bid data tot i) = take 256 (drop (i * 256) data)"
  by (simp add: frame_at_def Let_def DefaultFrameChunkSize_def min_def)

lemma frame_fields [simp]:
  "fr_Version (frame_at bid data tot i) = FrameVersion" "fr_BundleID (frame_at bid data tot i) = bid"
  "fr_Index (frame_at bid data tot i) = int i + 1" "fr_Total (frame_at bid data tot i) = int tot"
  by (simp_all add: frame_at_def Let_def)

lemma concat_frames:
  "concat (map (\<lambda>i. fr_Data (frame_at bid data tot i)) [0..<frame_count data]) = data"
proof -
  have "concat (map (\<lambda>i. take 256 (drop (i * 256) data)) [0..<n]) = take (n * 256) data" for n
  proof (induction n)
    case (Suc n)
    have "take (Suc n * 256) data = take (n * 256) data @ take 256 (drop (n * 256) data)"
      using take_add [of "n * 256" 256 data] by (simp add: add.commute)
    with Suc show ?case by simp
  qed simp
  moreover have "length data \<le> frame_count data * 256"
    by (simp add: frame_count_def DefaultFrameChunkSize_def)
  ultimately show ?thesis by (simp add: frame_data)
qed

lemma frame_at_ok:
  assumes "bid \<noteq> []" "i < frame_count data"
  shows "frame_ok (frame_at bid data (frame_count data) i)"
  using assms frame_start [OF assms(2)] by (simp add: frame_ok_def frame_data)

lemma wf_enc_Frame: "wf_json 10000 (enc_Frame f)"
  by (simp add: enc_Frame_def valid_utf8_ascii)

lemma unmarshal_Frame:
  assumes "int64 (fr_Version f)" "valid_utf8 (fr_BundleID f)" "int64 (fr_Index f)" "int64 (fr_Total f)"
  shows "unmarshal (dec_struct Frame_fields) zero_Frame (compact (enc_Frame f)) = Some f"
proof -
  have find: "find_field Frame_fields ''v'' = Some (snd (fld ''v'' dec_int fr_Version fr_Version_update))"
    "find_field Frame_fields ''bid'' = Some (snd (fld ''bid'' dec_str fr_BundleID fr_BundleID_update))"
    "find_field Frame_fields ''p'' = Some (snd (fld ''p'' dec_int fr_Index fr_Index_update))"
    "find_field Frame_fields ''n'' = Some (snd (fld ''n'' dec_int fr_Total fr_Total_update))"
    "find_field Frame_fields ''d'' = Some (snd (fld ''d'' dec_bytes fr_Data fr_Data_update))"
    by (simp_all add: Frame_fields_def find_field_def fld_def)
  have "dec_struct Frame_fields (enc_Frame f) zero_Frame = (f, DOk)"
    using assms by (simp add: enc_Frame_def json_rt find fld_def zero_Frame_def)
  then show ?thesis by (simp add: unmarshal_compact wf_enc_Frame)
qed

text \<open>Adding the payload of frame \<open>i\<close> is adding frame \<open>i\<close>.\<close>

lemma Add_payload:
  assumes "bid \<noteq> []" "ascii bid" "i < frame_count data" "length data < 2 ^ 62"
  shows "Add c (compact (enc_Frame (frame_at bid data (frame_count data) i)))
           = add_locked c (frame_at bid data (frame_count data) i)"
proof -
  let ?f = "frame_at bid data (frame_count data) i"
  have "frame_count data \<le> length data"
    by (simp add: frame_count_def DefaultFrameChunkSize_def)
  then have "unmarshal (dec_struct Frame_fields) zero_Frame (compact (enc_Frame ?f)) = Some ?f"
    using assms by (intro unmarshal_Frame) (simp_all add: int64_def FrameVersion_def valid_utf8_ascii)
  with frame_at_ok [OF assms(1,3)] show ?thesis
    by (simp add: Add_def frame_ok_def FrameVersion_def)
qed

section \<open>Collecting\<close>

text \<open>The collector has seen exactly the frames \<open>S\<close> of the bundle with data \<open>data\<close>.\<close>

definition collects :: "bytes \<Rightarrow> bytes \<Rightarrow> nat set \<Rightarrow> FrameCollector \<Rightarrow> bool" where
  "collects bid data S c \<longleftrightarrow> fc_wf c \<and> S \<subseteq> {..<frame_count data} \<and>
     (if S = {} then fc_bid c \<noteq> bid
      else fc_bid c = bid \<and> fc_total c = int (frame_count data)
        \<and> (\<forall>i. map_of (fc_chunks c) i = (if i \<ge> 1 \<and> nat (i - 1) \<in> S then
               Some (fr_Data (frame_at bid data (frame_count data) (nat (i - 1)))) else None)))"

lemma collects_add:
  assumes "collects bid data S c" "bid \<noteq> []" "i < frame_count data"
  shows "collects bid data (insert i S) (fst (add_locked c (frame_at bid data (frame_count data) i)))"
proof -
  let ?f = "frame_at bid data (frame_count data) i"
  have wf: "fc_wf (fst (add_locked c ?f))"
    using assms frame_at_ok by (intro add_locked_wf) (simp_all add: collects_def)
  have S: "insert i S \<subseteq> {..<frame_count data}" using assms by (auto simp: collects_def)
  show ?thesis
  proof (cases "S = {}")
    case True
    with assms have b: "fc_bid c \<noteq> bid" "fc_wf c" by (simp_all add: collects_def)
    have "fst (add_locked c ?f) = \<lparr>fc_bid = bid, fc_total = int (frame_count data), fc_chunks = [(int i + 1, fr_Data ?f)]\<rparr>"
    proof (cases "fc_bid c = []")
      case True
      with b(2) have "c = \<lparr>fc_bid = [], fc_total = 0, fc_chunks = []\<rparr>" by (simp add: fc_wf_def)
      then show ?thesis by (simp add: add_locked_def)
    next
      case False
      with b(1) show ?thesis by (simp add: add_locked_def resetLocked_def)
    qed
    moreover have "k \<ge> 1 \<Longrightarrow> nat (k - 1) = i \<longleftrightarrow> k = int i + 1" for k by auto
    ultimately show ?thesis using wf S True by (simp add: collects_def)
  next
    case False
    with assms have c: "fc_bid c = bid" "fc_total c = int (frame_count data)"
      "\<And>i. map_of (fc_chunks c) i = (if i \<ge> 1 \<and> nat (i - 1) \<in> S then
               Some (fr_Data (frame_at bid data (frame_count data) (nat (i - 1)))) else None)"
      by (simp_all add: collects_def)
    have "fst (add_locked c ?f) = c\<lparr>fc_chunks := AList.update (int i + 1) (fr_Data ?f) (fc_chunks c)\<rparr>"
      using c assms(2) by (simp add: add_locked_def Let_def)
    moreover have "map_of (AList.update (int i + 1) (fr_Data ?f) (fc_chunks c)) k =
        (if k \<ge> 1 \<and> nat (k - 1) \<in> insert i S then
           Some (fr_Data (frame_at bid data (frame_count data) (nat (k - 1)))) else None)" for k
    proof (cases "k = int i + 1")
      case True
      then show ?thesis by (simp add: update_conv')
    next
      case False
      then have "k \<ge> 1 \<Longrightarrow> nat (k - 1) \<noteq> i" by auto
      with False show ?thesis by (simp add: update_conv' c(3))
    qed
    ultimately show ?thesis using wf S c(1,2) by (simp add: collects_def)
  qed
qed

definition noise :: "bytes \<Rightarrow> bool" where
  "noise p \<longleftrightarrow> (case unmarshal (dec_struct Frame_fields) zero_Frame p of None \<Rightarrow> True | Some f \<Rightarrow> \<not> frame_ok f)"

lemma Add_noise: "noise p \<Longrightarrow> fst (Add c p) = c"
  using Add_cases [of p c] by (auto simp: noise_def)

definition scan :: "FrameCollector \<Rightarrow> bytes list \<Rightarrow> FrameCollector" where
  "scan c ps = foldl (\<lambda>c p. fst (Add c p)) c ps"

lemma collects_scan:
  assumes "collects bid data S c" "bid \<noteq> []" "ascii bid" "length data < 2 ^ 62"
    and "\<forall>p\<in>set ps. noise p \<or> (\<exists>i<frame_count data. p = compact (enc_Frame (frame_at bid data (frame_count data) i)))"
  shows "\<exists>S'. collects bid data S' (scan c ps) \<and> S \<subseteq> S'
     \<and> {i. i < frame_count data \<and> compact (enc_Frame (frame_at bid data (frame_count data) i)) \<in> set ps \<and>
           \<not> noise (compact (enc_Frame (frame_at bid data (frame_count data) i)))} \<subseteq> S'"
  using assms(1,5)
proof (induction ps arbitrary: S c)
  case Nil
  then show ?case by (auto simp: scan_def)
next
  case (Cons p ps)
  let ?pl = "\<lambda>i. compact (enc_Frame (frame_at bid data (frame_count data) i))"
  let ?D = "{i. i < frame_count data \<and> p = ?pl i \<and> \<not> noise p}"
  have "\<exists>S'. collects bid data S' (fst (Add c p)) \<and> S \<subseteq> S' \<and> ?D \<subseteq> S'"
  proof (cases "noise p")
    case True
    then show ?thesis using Cons.prems(1) Add_noise by auto
  next
    case False
    then obtain i where i: "i < frame_count data" "p = ?pl i" using Cons.prems(2) by auto
    have "j = i" if "p = ?pl j" "j < frame_count data" for j
    proof -
      have le: "frame_count data \<le> length data" by (simp add: frame_count_def DefaultFrameChunkSize_def)
      have "unmarshal (dec_struct Frame_fields) zero_Frame (?pl k) = Some (frame_at bid data (frame_count data) k)"
        if "k < frame_count data" for k
        using that assms(3,4) le by (intro unmarshal_Frame) (simp_all add: int64_def FrameVersion_def valid_utf8_ascii)
      then have "fr_Index (frame_at bid data (frame_count data) i) = fr_Index (frame_at bid data (frame_count data) j)"
        using i that by (metis option.inject)
      then show ?thesis by simp
    qed
    then have "?D \<subseteq> {i}" by blast
    moreover have "collects bid data (insert i S) (fst (Add c p))"
      using collects_add [OF Cons.prems(1) assms(2) i(1)] Add_payload [OF assms(2,3) i(1) assms(4)] i(2) by simp
    ultimately show ?thesis by blast
  qed
  then obtain S1 where S1: "collects bid data S1 (fst (Add c p))" "S \<subseteq> S1" "?D \<subseteq> S1" by blast
  from Cons.IH [OF S1(1)] Cons.prems(2) obtain S2 where S2: "collects bid data S2 (scan (fst (Add c p)) ps)" "S1 \<subseteq> S2"
      "{i. i < frame_count data \<and> ?pl i \<in> set ps \<and> \<not> noise (?pl i)} \<subseteq> S2"
    by auto
  moreover have "scan c (p # ps) = scan (fst (Add c p)) ps" by (simp add: scan_def)
  ultimately show ?case using S1 by (intro exI [of _ S2]) auto
qed

lemma upto_frames: "[1..int n] = map (\<lambda>i. int i + 1) [0..<n]"
proof (induction n)
  case (Suc n)
  have "[1..int (Suc n)] = [1..int n] @ [int (Suc n)]"
    using upto_rec2 [of 1 "int (Suc n)"] by simp
  with Suc show ?case by simp
qed simp

lemma collects_all:
  assumes "collects bid data {..<frame_count data} c" "data \<noteq> []"
  shows "Complete c" "concat (map (chunk c) [1..fc_total c]) = data" "fc_bid c = bid" "fc_total c \<noteq> 0"
proof -
  have pos: "frame_count data > 0"
    using assms(2) by (simp add: frame_count_def DefaultFrameChunkSize_def div_greater_zero_iff Suc_le_eq)
  then have ne: "{..<frame_count data} \<noteq> {}" by auto
  with assms(1) have c: "fc_bid c = bid" "fc_total c = int (frame_count data)" "fc_wf c"
      "\<And>i. map_of (fc_chunks c) i = (if i \<ge> 1 \<and> nat (i - 1) < frame_count data then
               Some (fr_Data (frame_at bid data (frame_count data) (nat (i - 1)))) else None)"
    unfolding collects_def by simp_all
  have "dom (map_of (fc_chunks c)) = (\<lambda>i. int i + 1) ` {..<frame_count data}"
  proof (rule set_eqI)
    fix x :: int
    have "x = int (nat (x - 1)) + 1" if "x \<ge> 1" using that by simp
    then have "x \<ge> 1 \<and> nat (x - 1) < frame_count data \<longleftrightarrow> x \<in> (\<lambda>i. int i + 1) ` {..<frame_count data}"
      by (auto intro: rev_image_eqI)
    then show "x \<in> dom (map_of (fc_chunks c)) \<longleftrightarrow> x \<in> (\<lambda>i. int i + 1) ` {..<frame_count data}"
      unfolding dom_def c(4) by simp
  qed
  moreover have "card (dom (map_of (fc_chunks c))) = length (fc_chunks c)"
    using c(3) unfolding fc_wf_def dom_map_of_conv_image_fst by (metis distinct_card length_map list.set_map)
  ultimately have "length (fc_chunks c) = frame_count data"
    by (simp add: card_image inj_on_def)
  then show "Complete c" using c(2) pos by (simp add: Complete_def)
  have "map (chunk c) [1..fc_total c] = map (\<lambda>i. fr_Data (frame_at bid data (frame_count data) i)) [0..<frame_count data]"
    unfolding c(2) upto_frames by (auto simp: chunk_def c(4))
  then show "concat (map (chunk c) [1..fc_total c]) = data" using concat_frames by simp
  show "fc_bid c = bid" "fc_total c \<noteq> 0" using c pos by simp_all
qed

lemma Bundle_collected:
  assumes "collects bid (compact (enc_LockBundle b)) {..<frame_count (compact (enc_LockBundle b))} c"
    and "utf8_LockBundle b" "computeBundleID P b = Inr bid"
  shows "Bundle P c = Inr b"
proof -
  have ne: "compact (enc_LockBundle b) \<noteq> []" by (simp add: compact_def enc_LockBundle_def)
  note c = collects_all [OF assms(1) ne]
  from c(1,4) have "\<not> (fc_total c = 0 \<or> int (length (fc_chunks c)) \<noteq> fc_total c)" by (simp add: Complete_def)
  then show ?thesis
    unfolding Bundle_def Let_def c(2) using c(3) assms(3) ParseLockBundle_Marshal [OF assms(2)] by simp
qed

lemma bundle_id_shape:
  assumes "hash_lengths P" "computeBundleID P b = Inr bid"
  shows "bid \<noteq> []" "ascii bid"
proof -
  have bid: "bid = take 8 (hex_encode (sha256 P (compact (enc_LockBundle b))))"
    using assms(2) by (simp add: computeBundleID_def MarshalLockBundle_def)
  have "length bid = 8" using assms(1) by (simp add: bid hash_lengths_def)
  then show "bid \<noteq> []" by auto
  show "ascii bid"
    using hex_encode_digits [of "sha256 P (compact (enc_LockBundle b))"] hex_ascii
    unfolding bid ascii_def list_all_iff by (metis in_set_takeD not_None_eq)
qed

text \<open>A complete collector holds every chunk: the count alone says so.\<close>

lemma complete_chunks:
  assumes "fc_wf c" "Complete c"
  shows "fst ` set (fc_chunks c) = {1..fc_total c}"
proof -
  have "fst ` set (fc_chunks c) \<subseteq> {1..fc_total c}" using assms(1) by (auto simp: fc_wf_def)
  moreover have "card (fst ` set (fc_chunks c)) = card {1..fc_total c}"
    using assms distinct_card [of "map fst (fc_chunks c)"] by (auto simp: fc_wf_def Complete_def)
  ultimately show ?thesis by (intro card_subset_eq) simp_all
qed

lemma scan_wf: "fc_wf c \<Longrightarrow> fc_wf (scan c ps)"
  by (induction ps arbitrary: c) (simp_all add: scan_def Add_wf)

section \<open>Properties\<close>

text \<open>
  C39. Frames in any order: a scanner that has seen every frame of a lock's animation at least once,
  in any order, with any repetitions and with unreadable or foreign codes in between, and that
  started empty or on another lock's animation, is complete and reassembles exactly that lock.
\<close>

theorem scan_any_order:
  assumes "hash_lengths P" "utf8_LockBundle b" "length (compact (enc_LockBundle b)) < 2 ^ 62"
    and "MarshalAnimatedQR P b = Inr payloads" "computeBundleID P b = Inr bid"
    and "fc_wf c0" "fc_bid c0 \<noteq> bid"
    and "set payloads \<subseteq> set scanned" "\<forall>p\<in>set scanned. p \<in> set payloads \<or> noise p"
  shows "Complete (scan c0 scanned) \<and> Bundle P (scan c0 scanned) = Inr b"
proof -
  let ?data = "compact (enc_LockBundle b)"
  let ?n = "frame_count ?data" and ?pl = "\<lambda>i. compact (enc_Frame (frame_at bid ?data (frame_count ?data) i))"
  note bid = bundle_id_shape [OF assms(1,5)]
  have pl: "set payloads = ?pl ` {..<?n}"
    using assms(4,5) by (auto simp: MarshalAnimatedQR_def MarshalLockBundle_def Let_def frame_count_def split: if_splits)
  have quiet: "\<not> noise (?pl i)" if "i < ?n" for i
  proof -
    have "?n \<le> length ?data" by (simp add: frame_count_def DefaultFrameChunkSize_def)
    then have "unmarshal (dec_struct Frame_fields) zero_Frame (?pl i) = Some (frame_at bid ?data ?n i)"
      using assms(3) that bid by (intro unmarshal_Frame) (simp_all add: int64_def FrameVersion_def valid_utf8_ascii)
    with frame_at_ok [OF bid(1) that] show ?thesis by (simp add: noise_def)
  qed
  have "collects bid ?data {} c0" using assms(6,7) by (simp add: collects_def)
  moreover have "\<forall>p\<in>set scanned. noise p \<or> (\<exists>i<?n. p = ?pl i)" using assms(9) pl by auto
  ultimately obtain S where S: "collects bid ?data S (scan c0 scanned)"
      "{i. i < ?n \<and> ?pl i \<in> set scanned \<and> \<not> noise (?pl i)} \<subseteq> S"
    using collects_scan [of bid ?data "{}" c0 scanned] bid assms(3) by auto
  have "{..<?n} \<subseteq> S" using S(2) quiet pl assms(8) by fastforce
  then have "S = {..<?n}" using S(1) by (auto simp: collects_def)
  with S(1) show ?thesis
    using collects_all(1) [of bid ?data] Bundle_collected [OF _ assms(2,5)]
    by (simp add: compact_def enc_LockBundle_def)
qed

definition small_lock :: LockBundle where
  "small_lock = zero_LockBundle\<lparr>lb_ID := ''a''\<rparr>"

lemma small_lock_facts:
  "utf8_LockBundle small_lock" "length (compact (enc_LockBundle small_lock)) < 2 ^ 62"
proof -
  show "utf8_LockBundle small_lock"
    by (simp add: utf8_LockBundle_def small_lock_def zero_LockBundle_def valid_utf8_ascii)
  have "quote s = s" if "s \<in> {''a'', [], ''id'', ''name'', ''fingerprint''}" for s
    using that by (intro plain_quote) (auto simp: plain_def)
  then show "length (compact (enc_LockBundle small_lock)) < 2 ^ 62"
    by (simp add: compact_def enc_LockBundle_def small_lock_def zero_LockBundle_def omit_def jstr_def)
qed

theorem scan_any_order_witness:
  "\<exists>payloads. MarshalAnimatedQR toy_prims small_lock = Inr payloads
     \<and> Bundle toy_prims (scan NewFrameCollector (rev payloads @ [''junk''] @ payloads)) = Inr small_lock"
proof -
  obtain bid where bid: "computeBundleID toy_prims small_lock = Inr bid"
    by (simp add: computeBundleID_def MarshalLockBundle_def)
  have "compact (enc_LockBundle small_lock) \<noteq> []" by (simp add: compact_def enc_LockBundle_def)
  then obtain payloads where p: "MarshalAnimatedQR toy_prims small_lock = Inr payloads"
    using bid by (auto simp: MarshalAnimatedQR_def MarshalLockBundle_def Let_def DefaultFrameChunkSize_def
        div_eq_0_iff Suc_le_eq)
  have "p_value (Suc 8) 10000 ''junk'' = None"
    by (subst p_value.simps(2))
      (simp add: is_ws_def HasPrefix_def scan_num_def minus_split_def scan_int_def is_digit_def)
  then have "parse_json ''junk'' = None" by (simp add: parse_json_def)
  then have j: "noise ''junk''" by (simp add: noise_def unmarshal_def Unmarshal_def)
  have b: "fc_bid NewFrameCollector \<noteq> bid"
    using bundle_id_shape(1) [OF toy_laws(4) bid] by (simp add: NewFrameCollector_def)
  show ?thesis
    using scan_any_order [OF toy_laws(4) small_lock_facts p bid fc_wf_New b, of "rev payloads @ [''junk''] @ payloads"]
      p j by auto
qed

text \<open>
  Every call keeps the collector's invariant (distinct chunk numbers within 1..total, none of
  them empty), a refused frame changes nothing, and whatever Bundle returns was reassembled from
  all of the chunks 1..total and hashes to the bundle ID of the animation.
\<close>

theorem collector_safe:
  assumes "fc_wf c"
  shows "fc_wf (fst (Add c p)) \<and> fc_wf (Reset c)
     \<and> (\<forall>e. snd (Add c p) = Inl e \<longrightarrow> fst (Add c p) = c)
     \<and> (\<forall>b. Bundle P c = Inr b \<longrightarrow> Complete c \<and> fst ` set (fc_chunks c) = {1..fc_total c}
           \<and> computeBundleID P b = Inr (fc_bid c))"
proof (intro conjI allI impI)
  show "fc_wf (fst (Add c p))" "fc_wf (Reset c)"
    using Add_wf [OF assms] fc_wf_reset by (simp_all add: Reset_def)
  show "fst (Add c p) = c" if "snd (Add c p) = Inl e" for e
  proof (rule ccontr)
    assume n: "fst (Add c p) \<noteq> c"
    then obtain f where f: "frame_ok f" "Add c p = add_locked c f" using Add_cases [of p c] by auto
    have "fc_bid c = [] \<Longrightarrow> fc_chunks c = []" using assms by (simp add: fc_wf_def)
    then show False
      using n f that by (auto simp: add_locked_def Let_def resetLocked_def frame_ok_def split: if_splits)
  qed
  fix b
  assume b: "Bundle P c = Inr b"
  have t: "fc_total c \<ge> 0" using assms by (cases "fc_bid c = []") (simp_all add: fc_wf_def)
  with b show C: "Complete c" by (auto simp: Bundle_def Complete_def split: if_splits)
  show "fst ` set (fc_chunks c) = {1..fc_total c}" using complete_chunks [OF assms C] .
  show "computeBundleID P b = Inr (fc_bid c)" using b by (auto simp: Bundle_def Let_def split: if_splits)
qed

theorem collector_safe_witness: "fc_wf (fst (Add NewFrameCollector ''x''))"
  using collector_safe [OF fc_wf_New] by blast

section \<open>Reading back a rendered animation\<close>

text \<open>What the QR reader gets out of one GIF frame: the text under the first hint that works.\<close>

definition text_of :: "gif_reader \<Rightarrow> bytes \<Rightarrow> bytes option" where
  "text_of G img = (case NewBinaryBitmapFromImage G img of Inl _ \<Rightarrow> None
     | Inr bmp \<Rightarrow> (case reader_Decode G bmp PURE_BARCODE of Inr t \<Rightarrow> Some t
         | Inl _ \<Rightarrow> (case reader_Decode G bmp TRY_HARDER of Inr t \<Rightarrow> Some t | Inl _ \<Rightarrow> None)))"

lemma try_hints_text:
  "try_hints G img [PURE_BARCODE, TRY_HARDER] s =
     (case text_of G img of None \<Rightarrow> s
      | Some t \<Rightarrow> (fst (Add (fst s) t), case snd (Add (fst s) t) of Inl _ \<Rightarrow> snd s | Inr _ \<Rightarrow> snd s + 1))"
  by (simp add: text_of_def split: sum.split prod.split)

lemma add_locked_ok:
  assumes "collects bid data S c" "bid \<noteq> []" "i < frame_count data"
  shows "\<exists>pr. snd (add_locked c (frame_at bid data (frame_count data) i)) = Inr pr"
proof (cases "S = {}")
  case True
  with assms(1) have b: "fc_bid c \<noteq> bid" "fc_wf c" by (simp_all add: collects_def)
  then have "fc_bid c = [] \<Longrightarrow> fc_chunks c = []" by (simp add: fc_wf_def)
  with b(1) show ?thesis by (cases "fc_bid c = []") (simp_all add: add_locked_def resetLocked_def)
next
  case False
  with assms(1,2) show ?thesis by (simp add: collects_def add_locked_def Let_def)
qed

lemma collects_complete:
  assumes "collects bid data S c" "Complete c" "S \<noteq> {}"
  shows "S = {..<frame_count data}"
proof -
  from assms have c: "fc_total c = int (frame_count data)" "fc_wf c" "S \<subseteq> {..<frame_count data}"
      "\<And>i. map_of (fc_chunks c) i = (if i \<ge> 1 \<and> nat (i - 1) \<in> S then
               Some (fr_Data (frame_at bid data (frame_count data) (nat (i - 1)))) else None)"
    by (simp_all add: collects_def)
  have "k \<in> S" if "k < frame_count data" for k
  proof -
    have "int k + 1 \<in> fst ` set (fc_chunks c)"
      using complete_chunks [OF c(2) assms(2)] c(1) that by simp
    then have "map_of (fc_chunks c) (int k + 1) \<noteq> None" by (simp add: map_of_eq_None_iff)
    then show ?thesis using c(4) [of "int k + 1"] by (simp split: if_splits)
  qed
  with c(3) show ?thesis by auto
qed

text \<open>A scan of GIF frames that all show frames of the animation, in any order.\<close>

lemma scan_frames_collects:
  assumes "bid \<noteq> []" "ascii bid" "length data < 2 ^ 62" "collects bid data S (fst s)" "S \<noteq> {} \<Longrightarrow> snd s > 0"
    and "\<forall>img\<in>set imgs. \<exists>i<frame_count data. text_of G img = Some (compact (enc_Frame (frame_at bid data (frame_count data) i)))"
    and "\<forall>i<frame_count data. i \<in> S \<or>
       (\<exists>img\<in>set imgs. text_of G img = Some (compact (enc_Frame (frame_at bid data (frame_count data) i))))"
  shows "collects bid data {..<frame_count data} (fst (scan_frames G imgs s))
     \<and> ({..<frame_count data} \<noteq> {} \<longrightarrow> snd (scan_frames G imgs s) > 0)"
  using assms(4-7)
proof (induction imgs arbitrary: S s)
  case Nil
  then have "S = {..<frame_count data}" by (auto simp: collects_def)
  with Nil show ?case by simp
next
  case (Cons img imgs)
  let ?pl = "\<lambda>i. compact (enc_Frame (frame_at bid data (frame_count data) i))"
  let ?s = "try_hints G img [PURE_BARCODE, TRY_HARDER] s"
  obtain i where i: "i < frame_count data" "text_of G img = Some (?pl i)" using Cons.prems(3) by auto
  obtain pr where pr: "snd (add_locked (fst s) (frame_at bid data (frame_count data) i)) = Inr pr"
    using add_locked_ok [OF Cons.prems(1) assms(1) i(1)] by blast
  have c: "collects bid data (insert i S) (fst ?s)" and d: "snd ?s > 0"
    using collects_add [OF Cons.prems(1) assms(1) i(1)] pr i(2)
    by (simp_all add: try_hints_text Add_payload [OF assms(1,2) i(1) assms(3)] del: try_hints.simps)
  have uniq: "j = i" if "?pl j = ?pl i" "j < frame_count data" for j
  proof -
    have "frame_count data \<le> length data" by (simp add: frame_count_def DefaultFrameChunkSize_def)
    then have "unmarshal (dec_struct Frame_fields) zero_Frame (?pl k) = Some (frame_at bid data (frame_count data) k)"
      if "k < frame_count data" for k
      using that assms(2,3) by (intro unmarshal_Frame) (simp_all add: int64_def FrameVersion_def valid_utf8_ascii)
    then have "fr_Index (frame_at bid data (frame_count data) i) = fr_Index (frame_at bid data (frame_count data) j)"
      using i(1) that by (metis option.inject)
    then show ?thesis by simp
  qed
  show ?case
  proof (cases "Complete (fst ?s)")
    case True
    then show ?thesis using collects_complete [OF c] c d by (simp del: try_hints.simps)
  next
    case False
    have cover: "\<forall>k<frame_count data. k \<in> insert i S \<or> (\<exists>img\<in>set imgs. text_of G img = Some (?pl k))"
      using Cons.prems(4) i(2) uniq by fastforce
    show ?thesis using Cons.IH [OF c _ _ cover] d Cons.prems(3) False by (simp del: try_hints.simps)
  qed
qed

text \<open>
  GIF round trip: for a reader that finds, in the frames of a GIF within the resource limits, the
  texts of exactly the frames of a lock's animation (in any order, repeated or not),
  DecodeAnimatedQRGIF returns that lock.
\<close>

theorem DecodeAnimatedQRGIF_reads:
  assumes "hash_lengths P" "utf8_LockBundle b" "length (compact (enc_LockBundle b)) < 2 ^ 62"
    and "MarshalAnimatedQR P b = Inr payloads" "computeBundleID P b = Inr bid"
    and "length gif \<le> 4194304" "gif_DecodeConfig G gif = Inr (w, h)" "w * h \<le> 16777216"
    and "gif_DecodeAll G gif = Inr imgs" "length imgs \<le> 64"
    and "\<forall>img\<in>set imgs. \<exists>p\<in>set payloads. text_of G img = Some p"
    and "\<forall>p\<in>set payloads. \<exists>img\<in>set imgs. text_of G img = Some p"
  shows "DecodeAnimatedQRGIF P G gif = Inr b"
proof -
  let ?data = "compact (enc_LockBundle b)"
  let ?n = "frame_count ?data" and ?pl = "\<lambda>i. compact (enc_Frame (frame_at bid ?data (frame_count ?data) i))"
  note bid = bundle_id_shape [OF assms(1,5)]
  have pl: "set payloads = ?pl ` {..<?n}" and n: "?n > 0"
    using assms(4,5) by (auto simp: MarshalAnimatedQR_def MarshalLockBundle_def Let_def frame_count_def split: if_splits)
  have "fc_bid NewFrameCollector = []" by (simp add: NewFrameCollector_def)
  then have "collects bid ?data {} (fst (NewFrameCollector, 0))" using bid by (simp add: collects_def)
  moreover have "\<forall>img\<in>set imgs. \<exists>i<?n. text_of G img = Some (?pl i)" using assms(11) pl by fastforce
  moreover have "\<forall>i<?n. i \<in> {} \<or> (\<exists>img\<in>set imgs. text_of G img = Some (?pl i))" using assms(12) pl by auto
  ultimately have s: "collects bid ?data {..<?n} (fst (scan_frames G imgs (NewFrameCollector, 0)))"
      "snd (scan_frames G imgs (NewFrameCollector, 0)) > 0"
    using scan_frames_collects [of bid ?data "{}" "(NewFrameCollector, 0)" imgs G] bid assms(3) n by auto
  have "imgs \<noteq> []" using assms(12) n pl by auto
  moreover have "Complete (fst (scan_frames G imgs (NewFrameCollector, 0)))"
    using collects_all(1) [OF s(1)] by (simp add: compact_def enc_LockBundle_def)
  moreover have "Bundle P (fst (scan_frames G imgs (NewFrameCollector, 0))) = Inr b"
    using Bundle_collected [OF s(1) assms(2,5)] .
  ultimately show ?thesis
    using assms(6-10) s(2)
    by (simp add: DecodeAnimatedQRGIF_def maxGIFBytes_def maxGIFPixels_def maxGIFFrames_def case_prod_unfold)
qed

definition toy_gif :: "bytes list \<Rightarrow> gif_reader" where
  "toy_gif imgs = \<lparr>gif_DecodeConfig = (\<lambda>_. Inr (300, 300)), gif_DecodeAll = (\<lambda>_. Inr imgs),
     NewBinaryBitmapFromImage = (\<lambda>img. Inr img), reader_Decode = (\<lambda>bmp h. Inr bmp)\<rparr>"

theorem DecodeAnimatedQRGIF_reads_witness:
  "\<exists>payloads. MarshalAnimatedQR toy_prims small_lock = Inr payloads
     \<and> DecodeAnimatedQRGIF toy_prims (toy_gif (rev payloads)) ''GIF89a'' = Inr small_lock"
proof -
  obtain bid where bid: "computeBundleID toy_prims small_lock = Inr bid"
    by (simp add: computeBundleID_def MarshalLockBundle_def)
  have q: "quote s = s" if "s \<in> {''a'', [], ''id'', ''name'', ''fingerprint''}" for s
    using that by (intro plain_quote) (auto simp: plain_def)
  have l: "length (compact (enc_LockBundle small_lock)) \<le> 256" "compact (enc_LockBundle small_lock) \<noteq> []"
    using q by (simp_all add: compact_def enc_LockBundle_def small_lock_def zero_LockBundle_def omit_def jstr_def)
  then obtain payloads where p: "MarshalAnimatedQR toy_prims small_lock = Inr payloads"
    using bid by (auto simp: MarshalAnimatedQR_def MarshalLockBundle_def Let_def DefaultFrameChunkSize_def
        div_eq_0_iff Suc_le_eq)
  have "(length (compact (enc_LockBundle small_lock)) + 256 - 1) div 256 < 64" using l(1) by (simp add: div_less_iff_less_mult)
  then have "length payloads \<le> 64"
    using p bid by (auto simp: MarshalAnimatedQR_def MarshalLockBundle_def Let_def DefaultFrameChunkSize_def split: if_splits)
  moreover have t: "text_of (toy_gif imgs) img = Some img" for imgs img by (simp add: text_of_def toy_gif_def)
  ultimately have "DecodeAnimatedQRGIF toy_prims (toy_gif (rev payloads)) ''GIF89a'' = Inr small_lock"
    by (intro DecodeAnimatedQRGIF_reads [OF toy_laws(4) small_lock_facts p bid, where w = 300 and h = 300 and imgs = "rev payloads"])
      (simp_all add: toy_gif_def [of "rev payloads"] t [unfolded toy_gif_def])
  with p show ?thesis by blast
qed

end
