(* ===== verification/Icfx_Validate.thy ===== *)
theory Icfx_Validate
  imports Icfx_Lock
begin

text \<open>
  Package validate: the checks at every ingest point. A validator returns \<open>Inr ()\<close> for nil. The
  key parsers of age and circl come from \<open>prims\<close>; lower-casing beyond ASCII is the parameter of
  \<open>ToLower\<close>. filepath.IsAbs is the Unix one: a leading slash.
\<close>

section \<open>Text\<close>

definition maxNameLen :: nat where "maxNameLen = 128"

definition isBidiOrZeroWidth :: "nat \<Rightarrow> bool" where
  "isBidiOrZeroWidth r \<longleftrightarrow>
     (0x202A \<le> r \<and> r \<le> 0x202E) \<or> (0x2066 \<le> r \<and> r \<le> 0x2069)
     \<or> r = 0x200B \<or> r = 0x200C \<or> r = 0x200D \<or> r = 0x200E \<or> r = 0x200F \<or> r = 0xFEFF"

text \<open>The loop over the runes; each comes with the bytes it was decoded from.\<close>

fun check_runes :: "(nat \<times> bytes) list \<Rightarrow> unit result" where
  "check_runes [] = Inr ()"
| "check_runes ((r, b) # rs) =
     (if r = RuneError \<and> length b \<le> 1 then Inl (Errorf ''%s contains an invalid or control byte'')
      else if r < 0x20 \<or> r = 0x7F \<or> (0x80 \<le> r \<and> r \<le> 0x9F)
      then Inl (Errorf ''%s contains a disallowed control character'')
      else if isBidiOrZeroWidth r
      then Inl (Errorf ''%s contains a disallowed bidirectional or zero-width character'')
      else check_runes rs)"

definition ValidateNoControlChars :: "bytes \<Rightarrow> unit result" where
  "ValidateNoControlChars s = check_runes (runes s)"

definition ContainsAny :: "bytes \<Rightarrow> char list \<Rightarrow> bool" where
  "ContainsAny s cs \<longleftrightarrow> list_ex (\<lambda>c. c \<in> set cs) s"

definition IsAbs :: "bytes \<Rightarrow> bool" where
  "IsAbs p \<longleftrightarrow> HasPrefix p ''/''"

definition ValidateName :: "bytes \<Rightarrow> unit result" where
  "ValidateName name =
     (if name = [] then Inl (Errorf ''name is required'')
      else if length name > maxNameLen then Inl (Errorf ''name is too long (max %d characters)'')
      else andthen (ValidateNoControlChars name) (\<lambda>_.
      if ContainsAny name [CHR ''/'', CHR 0x5C] then Inl (Errorf ''name must not contain path separators'')
      else if name = ''.'' \<or> name = ''..'' \<or> Contains name ''..'' then Inl (Errorf ''name must not contain %q'')
      else if IsAbs name then Inl (Errorf ''name must not be an absolute path'')
      else Inr ()))"

section \<open>Aliases\<close>

definition maxAliasLen :: nat where "maxAliasLen = 32"

definition alias_char :: "char \<Rightarrow> bool" where
  "alias_char c \<longleftrightarrow> (let n = of_char c :: nat in (97 \<le> n \<and> n \<le> 122) \<or> (48 \<le> n \<and> n \<le> 57) \<or> n = 95 \<or> n = 45)"

text \<open>The regular expression \<^verbatim>\<open>^[a-z0-9_-]{1,32}$\<close>.\<close>

definition aliasPattern :: "bytes \<Rightarrow> bool" where
  "aliasPattern s \<longleftrightarrow> 1 \<le> length s \<and> length s \<le> 32 \<and> list_all alias_char s"

definition Alias :: "bytes \<Rightarrow> unit result" where
  "Alias alias =
     (if alias = [] then Inr ()
      else if length alias > maxAliasLen then Inl (Errorf ''alias is too long (max %d characters)'')
      else if \<not> aliasPattern alias
      then Inl (Errorf ''alias must be a single lowercase word using only letters, digits, '-' and '_' (no spaces)'')
      else Inr ())"

definition NormalizeAlias :: "(nat \<Rightarrow> nat) \<Rightarrow> bytes \<Rightarrow> bytes" where
  "NormalizeAlias ulow raw =
     (let a = ToLower ulow (TrimSpace raw) in case Alias a of Inl _ \<Rightarrow> [] | Inr _ \<Rightarrow> a)"

section \<open>Keys and fingerprints\<close>

definition ValidateEncPubKey :: "prims \<Rightarrow> bytes \<Rightarrow> unit result" where
  "ValidateEncPubKey P key =
     (if key = [] then Inl (Errorf ''encryption lock (public key) is required'')
      else if \<not> HasPrefix key ''age1pq1'' then Inl (Errorf ''encryption lock (public key) must start with age1pq1'')
      else andthen (wrapping ''invalid encryption lock (public key): %w'' (ParseHybridRecipient P key)) (\<lambda>_. Inr ()))"

definition ValidateEncIdentity :: "prims \<Rightarrow> bytes \<Rightarrow> unit result" where
  "ValidateEncIdentity P key =
     (if key = [] then Inl (Errorf ''encryption identity is required'')
      else if \<not> HasPrefix key ''AGE-SECRET-KEY-PQ-1''
      then Inl (Errorf ''encryption identity must start with AGE-SECRET-KEY-PQ-1'')
      else andthen (wrapping ''invalid encryption identity: %w'' (ParseHybridIdentity P key)) (\<lambda>_. Inr ()))"

definition ValidateSignPubKey :: "prims \<Rightarrow> bytes \<Rightarrow> unit result" where
  "ValidateSignPubKey P base64Key =
     (if base64Key = [] then Inl (Errorf ''signing lock (public key) is required'')
      else andthen (wrapping ''signing lock (public key) is not valid base64: %w'' (b64_decode base64Key)) (\<lambda>keyBytes.
      andthen (wrapping ''invalid signing lock (public key): %w'' (mldsa_PubUnmarshal P keyBytes)) (\<lambda>_. Inr ())))"

definition ValidateSignPrivateKey :: "prims \<Rightarrow> bytes \<Rightarrow> unit result" where
  "ValidateSignPrivateKey P keyBytes =
     (if keyBytes = [] then Inl (Errorf ''signing private key is required'')
      else andthen (wrapping ''invalid signing private key: %w'' (mldsa_PrivUnmarshal P keyBytes)) (\<lambda>_. Inr ()))"

definition ValidateFingerprint :: "bytes \<Rightarrow> unit result" where
  "ValidateFingerprint fp =
     (if fp = [] then Inl (Errorf ''fingerprint is required'')
      else if length fp \<noteq> FingerprintHexLen then Inl (Errorf ''fingerprint must be exactly %d characters, got %d'')
      else andthen (wrapping ''fingerprint must be hexadecimal: %w'' (hex_decode fp)) (\<lambda>_. Inr ()))"

definition validateEmail :: "bytes \<Rightarrow> unit result" where
  "validateEmail email =
     (case IndexByte (CHR ''@'') email of
        None \<Rightarrow> Inl (Errorf ''invalid email: missing @ sign'')
      | Some atIdx \<Rightarrow>
          if atIdx < 1 then Inl (Errorf ''invalid email: missing @ sign'')
          else if \<not> Contains (drop (atIdx + 1) email) ''.'' then Inl (Errorf ''invalid email: domain must contain a dot'')
          else if length email > 254 then Inl (Errorf ''invalid email: too long (max 254 characters)'')
          else Inr ())"

section \<open>Contacts, locks and files\<close>

text \<open>A check that runs only on a non-empty value.\<close>

definition optional :: "bytes \<Rightarrow> unit result \<Rightarrow> unit result" where
  "optional v r = (if v \<noteq> [] then r else Inr ())"

definition ValidateContactFields :: "prims \<Rightarrow> bytes \<Rightarrow> bytes \<Rightarrow> bytes \<Rightarrow> bytes \<Rightarrow> bytes \<Rightarrow> bytes \<Rightarrow> unit result" where
  "ValidateContactFields P alias encPubKey signPubKey fingerprint email nickname =
     (if alias = [] then Inl (Errorf ''alias is required'')
      else if length alias > 256 then Inl (Errorf ''alias is too long (max 256 characters)'')
      else andthen (ValidateNoControlChars alias) (\<lambda>_.
      andthen (optional nickname (ValidateNoControlChars nickname)) (\<lambda>_.
      andthen (optional email (ValidateNoControlChars email)) (\<lambda>_.
      andthen (wrapping ''alias %q: %w'' (ValidateEncPubKey P encPubKey)) (\<lambda>_.
      andthen (optional signPubKey (wrapping ''alias %q: %w'' (ValidateSignPubKey P signPubKey))) (\<lambda>_.
      andthen (optional fingerprint (wrapping ''alias %q: %w'' (ValidateFingerprint fingerprint))) (\<lambda>_.
      optional email (wrapping ''alias %q: %w'' (validateEmail email)))))))))"

definition ValidateLockBundle :: "prims \<Rightarrow> LockBundle \<Rightarrow> unit result" where
  "ValidateLockBundle P bundle =
     (if lb_Name bundle = [] then Inl (Errorf ''lock bundle: name is required'')
      else andthen (wrapping ''lock bundle: %w'' (ValidateNoControlChars (lb_Name bundle))) (\<lambda>_.
      andthen (wrapping ''lock bundle: %w'' (ValidateNoControlChars (lb_Alias bundle))) (\<lambda>_.
      andthen (wrapping ''lock bundle: %w'' (ValidateNoControlChars (lb_Email bundle))) (\<lambda>_.
      if length (lb_Name bundle) > maxNameLen then Inl (Errorf ''lock bundle: name is too long (max %d)'')
      else if length (lb_Alias bundle) > maxAliasLen then Inl (Errorf ''lock bundle: alias is too long (max %d)'')
      else andthen (wrapping ''lock bundle: %w'' (ValidateEncPubKey P (lb_EncPubKey bundle))) (\<lambda>_.
      andthen (optional (lb_SignPubKey bundle) (wrapping ''lock bundle: %w'' (ValidateSignPubKey P (lb_SignPubKey bundle)))) (\<lambda>_.
      andthen (optional (lb_Fingerprint bundle) (wrapping ''lock bundle: %w'' (ValidateFingerprint (lb_Fingerprint bundle)))) (\<lambda>_.
      andthen (optional (lb_Email bundle) (wrapping ''lock bundle: %w'' (validateEmail (lb_Email bundle)))) (\<lambda>_.
      if lb_Sig bundle \<noteq> [] then wrapping ''lock bundle: %w'' (VerifyLockSelfSig P bundle)
      else if lb_EncPubKey bundle \<noteq> [] \<and> lb_SignPubKey bundle \<noteq> [] \<and> lb_Fingerprint bundle \<noteq> []
      then wrapping ''lock bundle: %w'' (VerifyFingerprint P bundle)
      else Inr ()))))))))"

definition validateContainer :: "bytes \<Rightarrow> unit result" where
  "validateContainer data =
     (if length data < HeaderPrefixLen then Inl ErrInvalidFormat
      else andthen (ParseHeaderPrefix (take HeaderPrefixLen data)) (\<lambda>(profile, _).
      if \<not> Streaming profile then andthen (Deserialize data) (\<lambda>_. Inr ())
      else andthen (ParseStreamHeader (new_reader data)) (\<lambda>_. Inr ())))"

definition ValidateICFXFile :: "bytes \<Rightarrow> unit result" where
  "ValidateICFXFile data =
     (if data = [] then Inl (Errorf ''file is empty'')
      else case Detect data of
        FormatICFX \<Rightarrow> wrapping ''invalid ICFX file: %w'' (validateContainer data)
      | FormatArmored \<Rightarrow> andthen (wrapping ''invalid armored file: %w'' (ArmorDecode data)) (\<lambda>_. Inr ())
      | FormatAge \<Rightarrow> Inr ()
      | FormatUnknown \<Rightarrow> Inl (Errorf ''unrecognized file format: not an ICFX, Age, or armored file''))"

section \<open>Lemmas\<close>

definition displayable :: "nat \<times> bytes \<Rightarrow> bool" where
  "displayable c \<longleftrightarrow> (case c of (r, b) \<Rightarrow> \<not> (r = RuneError \<and> length b \<le> 1) \<and> 0x20 \<le> r \<and> r \<noteq> 0x7F
     \<and> \<not> (0x80 \<le> r \<and> r \<le> 0x9F) \<and> \<not> isBidiOrZeroWidth r)"

lemma check_runes_iff: "check_runes rs = Inr () \<longleftrightarrow> list_all displayable rs"
  by (induction rs rule: check_runes.induct) (auto simp: displayable_def)

lemma NoControl_iff: "ValidateNoControlChars s = Inr u \<longleftrightarrow> list_all displayable (runes s)"
  using check_runes_iff [of "runes s"] by (simp add: ValidateNoControlChars_def)

lemma displayable_utf8: "list_all displayable (runes s) \<Longrightarrow> valid_utf8 s"
  by (auto simp: valid_utf8_def list_all_iff displayable_def bad_chunk_def)

lemma alias_char_facts:
  assumes "alias_char c"
  shows "of_char c < (128 :: nat)" "\<not> is_space (of_char c)" "\<not> is_upper (of_char c)"
  using assms by (auto simp: alias_char_def Let_def is_space_def is_upper_def)

lemma Alias_iff: "Alias a = Inr u \<longleftrightarrow> a = [] \<or> (length a \<le> 32 \<and> list_all alias_char a)"
  by (cases a) (auto simp: Alias_def aliasPattern_def maxAliasLen_def)

lemma NormalizeAlias_valid: "Alias (NormalizeAlias ulow raw) = Inr ()"
proof (cases "Alias (ToLower ulow (TrimSpace raw))")
  case (Inl e)
  then show ?thesis by (simp add: NormalizeAlias_def Alias_def)
qed (simp add: NormalizeAlias_def)

lemma NormalizeAlias_id:
  assumes "Alias a = Inr ()"
  shows "NormalizeAlias ulow a = a"
proof (cases "a = []")
  case True
  then show ?thesis by (simp add: NormalizeAlias_def TrimSpace_def ToLower_def Alias_def)
next
  case False
  then have ch: "alias_char c" if "c \<in> set a" for c using assms that by (auto simp: Alias_iff list_all_iff)
  have asc: "ascii a" using ch alias_char_facts(1) by (auto simp: ascii_def list_all_iff)
  have r: "runes a = map (\<lambda>c. (of_char c, [c])) a" using runes_all_ascii [OF asc] .
  have "hd a \<in> set a" "last a \<in> set a" using False by simp_all
  then have "TrimSpace a = a"
    using ch alias_char_facts(2) False by (intro TrimSpace_id) (auto simp: r hd_map last_map)
  moreover have "ToLower ulow a = concat (map (\<lambda>c. [c]) a)"
  proof -
    have "encode_rune (if is_upper (of_char c) then of_char c + 32 else of_char c) = [c]" if "c \<in> set a" for c
      using alias_char_facts [OF ch [OF that]] by (simp add: encode_rune_def)
    then show ?thesis
      unfolding ToLower_def r using ch alias_char_facts(1) by (simp add: comp_def cong: map_cong)
  qed
  ultimately show ?thesis using assms by (simp add: NormalizeAlias_def)
qed

lemma Contains_dots: "Contains ''..'' ''..''" by (simp add: HasPrefix_def)

lemma ValidateLockBundle_dest:
  assumes "ValidateLockBundle P b = Inr u"
  shows "lb_Name b \<noteq> []" "length (lb_Name b) \<le> 128" "length (lb_Alias b) \<le> 32"
    "list_all displayable (runes (lb_Name b))" "list_all displayable (runes (lb_Alias b))"
    "list_all displayable (runes (lb_Email b))" "ValidateEncPubKey P (lb_EncPubKey b) = Inr ()"
    "lb_SignPubKey b \<noteq> [] \<Longrightarrow> ValidateSignPubKey P (lb_SignPubKey b) = Inr ()"
    "lb_Fingerprint b \<noteq> [] \<Longrightarrow> ValidateFingerprint (lb_Fingerprint b) = Inr ()"
    "lb_Sig b \<noteq> [] \<Longrightarrow> VerifyLockSelfSig P b = Inr ()"
    "lb_SignPubKey b \<noteq> [] \<Longrightarrow> lb_Fingerprint b \<noteq> [] \<Longrightarrow> VerifyFingerprint P b = Inr ()"
proof -
  have enc: "ValidateEncPubKey P (lb_EncPubKey b) = Inr () \<Longrightarrow> lb_EncPubKey b \<noteq> []"
    by (auto simp: ValidateEncPubKey_def)
  have fp: "VerifyLockSelfSig P b = Inr () \<Longrightarrow> VerifyFingerprint P b = Inr ()"
    by (auto simp: VerifyLockSelfSig_def split: if_splits)
  note d = assms [unfolded ValidateLockBundle_def optional_def, simplified]
  show "lb_Name b \<noteq> []" "length (lb_Name b) \<le> 128" "length (lb_Alias b) \<le> 32"
    "list_all displayable (runes (lb_Name b))" "list_all displayable (runes (lb_Alias b))"
    "list_all displayable (runes (lb_Email b))" "ValidateEncPubKey P (lb_EncPubKey b) = Inr ()"
    using d by (simp_all add: NoControl_iff maxNameLen_def maxAliasLen_def split: if_splits)
  show "lb_SignPubKey b \<noteq> [] \<Longrightarrow> ValidateSignPubKey P (lb_SignPubKey b) = Inr ()"
    "lb_Fingerprint b \<noteq> [] \<Longrightarrow> ValidateFingerprint (lb_Fingerprint b) = Inr ()"
    "lb_Sig b \<noteq> [] \<Longrightarrow> VerifyLockSelfSig P b = Inr ()"
    using d by (simp_all split: if_splits)
  show "lb_SignPubKey b \<noteq> [] \<Longrightarrow> lb_Fingerprint b \<noteq> [] \<Longrightarrow> VerifyFingerprint P b = Inr ()"
    using d enc fp by (simp split: if_splits)
qed

lemma ValidateFingerprint_ok:
  assumes "hash_lengths P"
  shows "ValidateFingerprint (Fingerprint P e k) = Inr ()"
proof -
  have "list_all (\<lambda>c. hex_val c \<noteq> None) (Fingerprint P e k)"
    using hex_encode_digits [of "sha256 P (e @ k)"]
    by (auto simp: Fingerprint_def list_all_iff dest: in_set_takeD)
  then have "is_ok (hex_decode (Fingerprint P e k))"
    using length_Fingerprint [OF assms] by (simp add: hex_decode_ok_iff)
  then show ?thesis
    using length_Fingerprint [OF assms, of e k]
    by (cases "hex_decode (Fingerprint P e k)") (auto simp: ValidateFingerprint_def FingerprintHexLen_def)
qed

section \<open>Properties\<close>

text \<open>
  ValidateName accepts exactly the names that are safe as one path component and as a label:
  1 to 128 bytes of valid UTF-8 without control, bidirectional or zero-width characters, without a
  path separator, and neither "." nor anything containing "..". In particular no accepted name can
  leave the directory it is joined to.
\<close>

theorem ValidateName_iff:
  "ValidateName name = Inr () \<longleftrightarrow>
     name \<noteq> [] \<and> length name \<le> 128 \<and> list_all displayable (runes name) \<and> valid_utf8 name
     \<and> CHR ''/'' \<notin> set name \<and> CHR 0x5C \<notin> set name \<and> name \<noteq> ''.'' \<and> \<not> Contains name ''..''"
proof -
  have "ContainsAny name [CHR ''/'', CHR 0x5C] \<longleftrightarrow> CHR ''/'' \<in> set name \<or> CHR 0x5C \<in> set name"
    by (auto simp: ContainsAny_def list_ex_iff)
  moreover have "IsAbs name \<Longrightarrow> CHR ''/'' \<in> set name"
    by (auto simp: IsAbs_def HasPrefix_iff)
  ultimately show ?thesis
    using displayable_utf8 [of name] Contains_dots
    by (auto simp: ValidateName_def maxNameLen_def NoControl_iff)
qed

text \<open>
  NormalizeAlias: whatever comes in, what is stored is empty or a lowercase word of at most 32
  characters from [a-z0-9_-]; an alias that already conforms is left as it is, so normalising twice
  changes nothing.
\<close>

theorem NormalizeAlias_correct:
  "Alias (NormalizeAlias ulow raw) = Inr ()
   \<and> length (NormalizeAlias ulow raw) \<le> 32 \<and> list_all alias_char (NormalizeAlias ulow raw)
   \<and> NormalizeAlias ulow (NormalizeAlias ulow raw) = NormalizeAlias ulow raw"
  using NormalizeAlias_valid [of ulow raw] NormalizeAlias_id [OF NormalizeAlias_valid, of ulow ulow raw]
  by (auto simp: Alias_iff)

text \<open>
  A lock bundle that passes ValidateLockBundle has a displayable, bounded name, alias and email
  and a parseable encryption key; if it is sealed its self-signature verifies, and whenever it carries a
  signing key and a fingerprint the fingerprint is the hash of exactly its two keys, sealed or not.
\<close>

theorem ValidateLockBundle_sound:
  assumes "ValidateLockBundle P b = Inr ()"
  shows "list_all displayable (runes (lb_Name b)) \<and> length (lb_Name b) \<le> 128 \<and> length (lb_Alias b) \<le> 32
    \<and> list_all displayable (runes (lb_Alias b)) \<and> list_all displayable (runes (lb_Email b))
    \<and> (\<exists>r. ParseHybridRecipient P (lb_EncPubKey b) = Inr r)
    \<and> (lb_Sig b \<noteq> [] \<longrightarrow> VerifyLockSelfSig P b = Inr ())
    \<and> (lb_SignPubKey b \<noteq> [] \<and> lb_Fingerprint b \<noteq> [] \<longrightarrow>
         (\<exists>pub. b64_decode (lb_SignPubKey b) = Inr pub \<and> lb_Fingerprint b = Fingerprint P (lb_EncPubKey b) pub))"
  using ValidateLockBundle_dest [OF assms]
  by (auto simp: ValidateEncPubKey_def VerifyFingerprint_def split: if_splits)

theorem ValidateLockBundle_sound_witness:
  "ValidateLockBundle toy_prims (zero_LockBundle\<lparr>lb_Name := ''Bob'', lb_EncPubKey := ''age1pq1bob''\<rparr>) = Inr ()
   \<and> (\<exists>r. ParseHybridRecipient toy_prims ''age1pq1bob'' = Inr r)"
proof -
  let ?b = "zero_LockBundle\<lparr>lb_Name := ''Bob'', lb_EncPubKey := ''age1pq1bob''\<rparr>"
  have "list_all displayable (runes ''Bob'')"
    by (simp add: runes_all_ascii displayable_def RuneError_def isBidiOrZeroWidth_def)
  moreover have "ValidateEncPubKey toy_prims ''age1pq1bob'' = Inr ()"
    by (simp add: ValidateEncPubKey_def toy_prims_def HasPrefix_def)
  ultimately have v: "ValidateLockBundle toy_prims ?b = Inr ()"
    by (simp add: ValidateLockBundle_def zero_LockBundle_def NoControl_iff optional_def maxNameLen_def maxAliasLen_def)
  from ValidateLockBundle_sound [OF v] v show ?thesis by simp
qed

end
