(* ===== verification/Icfx_Files.thy ===== *)
theory Icfx_Files
  imports Icfx_Json
begin

text \<open>
  Files: the disk as a map from paths to contents, with the system calls that fail on a path as part
  of the state, and config/atomicwrite.go on top of it. The temporary file of an atomic write is a
  component of its own, since os.CreateTemp makes a file that did not exist before.

  WriteFileAtomic is its system calls in the order of the code, run one by one on a volume. A volume has
  inodes whose data may not have reached the disk, and a directory whose last change may not have either,
  so that what a reader finds after a crash is a relation: data that was never synced may be cut anywhere.

  The locale \<open>file_store\<close> is the contract the stores (contacts, groups, identity index) promise to
  the code that loads, changes and saves them.
\<close>

datatype syscall = SysRead | SysRemove | SysRemoveTemp | SysMkdirAll | SysCreateTemp | SysChmod | SysWrite | SysSync | SysClose | SysRename | SysOpen
  | SysStat | SysReadDir

record disk =
  d_files :: "bytes \<rightharpoonup> bytes"
  d_temp :: "bytes option"
  d_fault :: "syscall \<Rightarrow> bytes \<Rightarrow> go_error option"
  d_short :: nat

definition ErrNotExist :: go_error where "ErrNotExist = Sentinel ''file does not exist''"

definition ReadFile :: "disk \<Rightarrow> bytes \<Rightarrow> bytes result" where
  "ReadFile d path = (case d_files d path of None \<Rightarrow> Inl ErrNotExist
     | Some bs \<Rightarrow> (case d_fault d SysRead path of Some e \<Rightarrow> Inl (Wrap ''read'' e) | None \<Rightarrow> Inr bs))"

lemma ReadFile_same:
  "d_files d path = d_files d' path \<Longrightarrow> d_fault d = d_fault d' \<Longrightarrow> ReadFile d path = ReadFile d' path"
  by (simp add: ReadFile_def split: option.split)

definition IsNotExist :: "'a result \<Rightarrow> bool" where
  "IsNotExist r \<longleftrightarrow> (case r of Inl e \<Rightarrow> e = ErrNotExist | Inr _ \<Rightarrow> False)"

definition os_Remove :: "disk \<Rightarrow> bytes \<Rightarrow> disk \<times> unit result" where
  "os_Remove d path = (case d_files d path of None \<Rightarrow> (d, Inl ErrNotExist)
     | Some _ \<Rightarrow> (case d_fault d SysRemove path of Some e \<Rightarrow> (d, Inl (Wrap ''remove'' e))
                 | None \<Rightarrow> (d\<lparr>d_files := (d_files d)(path := None)\<rparr>, Inr ())))"

text \<open>
  os.WriteFile truncates and then writes in place; a write that fails leaves the first
  \<open>d_short\<close> bytes behind.
\<close>

definition os_WriteFile :: "disk \<Rightarrow> bytes \<Rightarrow> bytes \<Rightarrow> disk \<times> unit result" where
  "os_WriteFile d path data =
     (case d_fault d SysOpen path of Some e \<Rightarrow> (d, Inl (Wrap ''open'' e))
      | None \<Rightarrow>
      (case d_fault d SysWrite path of
         Some e \<Rightarrow> (d\<lparr>d_files := (d_files d)(path \<mapsto> take (d_short d) data)\<rparr>, Inl (Wrap ''write'' e))
       | None \<Rightarrow> (d\<lparr>d_files := (d_files d)(path \<mapsto> data)\<rparr>, Inr ())))"

definition os_MkdirAll :: "disk \<Rightarrow> bytes \<Rightarrow> unit result" where
  "os_MkdirAll d dir = (case d_fault d SysMkdirAll dir of Some e \<Rightarrow> Inl e | None \<Rightarrow> Inr ())"

text \<open>os.Stat succeeds.\<close>

definition stat_ok :: "disk \<Rightarrow> bytes \<Rightarrow> bool" where
  "stat_ok d path \<longleftrightarrow> d_files d path \<noteq> None"

section \<open>Paths\<close>

text \<open>
  path/filepath on Unix: Clean works on the components between separators, with those kept so far
  as a stack.
\<close>

definition clean_step :: "bool \<Rightarrow> bytes \<Rightarrow> bytes list \<Rightarrow> bytes list" where
  "clean_step rooted c st =
     (if c = [] \<or> c = ''.'' then st
      else if c = ''..'' then
        (case st of [] \<Rightarrow> (if rooted then [] else [c]) | x # xs \<Rightarrow> (if x = ''..'' then c # st else xs))
      else c # st)"

definition clean_parts :: "bytes \<Rightarrow> bytes list" where
  "clean_parts p = rev (fold (clean_step (HasPrefix p ''/'')) (Split (CHR ''/'') p) [])"

definition Clean :: "bytes \<Rightarrow> bytes" where
  "Clean p = (if HasPrefix p ''/'' then ''/'' @ Join ''/'' (clean_parts p)
     else if clean_parts p = [] then ''.'' else Join ''/'' (clean_parts p))"

definition filepath_Join :: "bytes \<Rightarrow> bytes \<Rightarrow> bytes" where
  "filepath_Join dir name =
     (if dir = [] then (if name = [] then [] else Clean name) else Clean (dir @ ''/'' @ name))"

text \<open>filepath.Dir and filepath.Base.\<close>

definition filepath_Dir :: "bytes \<Rightarrow> bytes" where
  "filepath_Dir p = Clean (List.rev (dropWhile (\<lambda>c. c \<noteq> CHR ''/'') (List.rev p)))"

definition filepath_Base :: "bytes \<Rightarrow> bytes" where
  "filepath_Base path =
     (if path = [] then ''.''
      else let trimmed = List.rev (dropWhile (\<lambda>c. c = CHR ''/'') (List.rev path));
               base = List.rev (takeWhile (\<lambda>c. c \<noteq> CHR ''/'') (List.rev trimmed))
           in if base = [] then ''/'' else base)"

text \<open>A name that stays one component, and the prefix it is put behind.\<close>

definition component_ok :: "bytes \<Rightarrow> bool" where
  "component_ok n \<longleftrightarrow> n \<noteq> [] \<and> n \<noteq> ''.'' \<and> n \<noteq> ''..'' \<and> CHR ''/'' \<notin> set n"

definition dir_prefix :: "bytes \<Rightarrow> bytes" where
  "dir_prefix dir =
     (if HasPrefix dir ''/'' then ''/'' else []) @ concat (map (\<lambda>c. c @ ''/'') (clean_parts dir))"

lemma Split_append: "Split c (a @ c # b) = Split c a @ Split c b"
proof (induction a)
  case (Cons x a)
  then show ?case by (cases "Split c a") (auto split: list.split)
qed simp

lemma Join_snoc: "Join sep (xs @ [x]) = concat (map (\<lambda>c. c @ sep) xs) @ x"
proof (induction xs)
  case (Cons y ys)
  then show ?case by (cases ys) auto
qed simp

lemma filepath_Join_component:
  assumes "component_ok n"
  shows "filepath_Join dir n = dir_prefix dir @ n"
proof -
  have n: "n \<noteq> []" "n \<noteq> ''.''" "n \<noteq> ''..''" "CHR ''/'' \<notin> set n" using assms by (auto simp: component_ok_def)
  then have sp: "Split (CHR ''/'') n = [n]" by (simp add: Split_no_sep)
  have np: "\<not> HasPrefix n ''/''" using n(1,4) by (cases n) (auto simp: HasPrefix_def)
  show ?thesis
  proof (cases "dir = []")
    case True
    have "clean_parts n = [n]" using n np by (simp add: clean_parts_def sp clean_step_def)
    then show ?thesis using n np True
      by (simp add: filepath_Join_def Clean_def dir_prefix_def clean_parts_def clean_step_def HasPrefix_def)
  next
    case False
    have p: "HasPrefix (dir @ ''/'' @ n) ''/'' \<longleftrightarrow> HasPrefix dir ''/''" using False by (cases dir) (auto simp: HasPrefix_def)
    have "clean_parts (dir @ ''/'' @ n) = clean_parts dir @ [n]"
      using n by (simp add: clean_parts_def p Split_append sp del: append_assoc) (simp add: clean_step_def Split_append sp p [simplified])
    then show ?thesis using False p by (simp add: filepath_Join_def Clean_def dir_prefix_def Join_snoc)
  qed
qed

lemma filepath_Base_component:
  assumes "n \<noteq> []" "CHR ''/'' \<notin> set n" "a = [] \<or> last a = CHR ''/''"
  shows "filepath_Base (a @ n) = n"
proof -
  have "last n \<noteq> CHR ''/''" using assms by (metis last_in_set)
  then obtain x xs where x: "List.rev n = x # xs" "x \<noteq> CHR ''/''" using assms(1) by (cases "List.rev n") (auto simp: last_rev hd_rev [symmetric])
  have "dropWhile (\<lambda>c. c = CHR ''/'') (List.rev (a @ n)) = List.rev (a @ n)" using x by simp
  moreover have "takeWhile (\<lambda>c. c \<noteq> CHR ''/'') (List.rev n @ List.rev a) = List.rev n"
  proof -
    have "takeWhile (\<lambda>c. c \<noteq> CHR ''/'') (List.rev a) = []" using assms(3) by (cases a rule: rev_cases) auto
    then show ?thesis using assms(2) by (subst takeWhile_append2) auto
  qed
  ultimately show ?thesis using assms(1) by (simp add: filepath_Base_def Let_def)
qed

lemma filepath_Base_no_sep: "filepath_Base p = ''/'' \<or> CHR ''/'' \<notin> set (filepath_Base p)"
  by (auto simp: filepath_Base_def Let_def dest: set_takeWhileD)

lemma dir_prefix_last: "dir_prefix dir = [] \<or> last (dir_prefix dir) = CHR ''/''"
  by (cases "clean_parts dir" rule: rev_cases) (auto simp: dir_prefix_def)

section \<open>Volumes and crashes\<close>

record inode =
  in_data :: bytes
  in_synced :: bool

text \<open>The directory as processes see it, the one before its last change, and the temporary file.\<close>

record volume =
  vo_dir :: "bytes \<rightharpoonup> inode"
  vo_old :: "bytes \<rightharpoonup> inode"
  vo_temp :: "inode option"

definition visible :: "volume \<Rightarrow> (bytes \<rightharpoonup> bytes)" where
  "visible v q = map_option in_data (vo_dir v q)"

definition crash_file :: "inode option \<Rightarrow> bytes option \<Rightarrow> bool" where
  "crash_file i m = (case i of None \<Rightarrow> m = None
     | Some n \<Rightarrow> (if in_synced n then m = Some (in_data n) else \<exists>k. m = Some (take k (in_data n))))"

text \<open>What can be found after a crash: either directory, with unsynced data cut anywhere.\<close>

definition crash_view :: "volume \<Rightarrow> (bytes \<rightharpoonup> bytes) \<Rightarrow> bool" where
  "crash_view v m \<longleftrightarrow> (\<forall>q. crash_file (vo_dir v q) (m q)) \<or> (\<forall>q. crash_file (vo_old v q) (m q))"

definition volume_of :: "disk \<Rightarrow> volume" where
  "volume_of d =
     (let dir = (\<lambda>q. map_option (\<lambda>b. \<lparr>in_data = b, in_synced = True\<rparr>) (d_files d q))
      in \<lparr>vo_dir = dir, vo_old = dir, vo_temp = None\<rparr>)"

section \<open>Atomic writes\<close>

text \<open>A call that succeeds, and what one that fails leaves behind.\<close>

definition do_call :: "bytes \<Rightarrow> bytes \<Rightarrow> syscall \<Rightarrow> volume \<Rightarrow> volume" where
  "do_call path data c v =
     (case c of
        SysCreateTemp \<Rightarrow> v\<lparr>vo_temp := Some \<lparr>in_data = [], in_synced = False\<rparr>\<rparr>
      | SysWrite \<Rightarrow> v\<lparr>vo_temp := map_option (\<lambda>i. \<lparr>in_data = in_data i @ data, in_synced = False\<rparr>) (vo_temp v)\<rparr>
      | SysSync \<Rightarrow> v\<lparr>vo_temp := map_option (\<lambda>i. i\<lparr>in_synced := True\<rparr>) (vo_temp v)\<rparr>
      | SysRename \<Rightarrow> \<lparr>vo_dir = (vo_dir v)(path := vo_temp v), vo_old = vo_dir v, vo_temp = None\<rparr>
      | _ \<Rightarrow> v)"

definition failed_call :: "bytes \<Rightarrow> bytes \<Rightarrow> nat \<Rightarrow> syscall \<Rightarrow> volume \<Rightarrow> volume" where
  "failed_call path data n c v = (if c = SysWrite then do_call path (take n data) SysWrite v else v)"

fun run_calls :: "bytes \<Rightarrow> bytes \<Rightarrow> disk \<Rightarrow> (syscall \<times> string) list \<Rightarrow> volume \<Rightarrow> volume list \<times> unit result" where
  "run_calls path data d [] v = ([], Inr ())"
| "run_calls path data d ((c, msg) # cs) v =
     (case d_fault d c path of
        Some e \<Rightarrow> ([failed_call path data (d_short d) c v], Inl (Wrap msg e))
      | None \<Rightarrow> let v' = do_call path data c v in (case run_calls path data d cs v' of (vs, r) \<Rightarrow> (v' # vs, r)))"

text \<open>The calls after the temporary file has been created, and the deferred removal.\<close>

definition atomic_calls :: "(syscall \<times> string) list" where
  "atomic_calls =
     [(SysChmod, ''setting temp file perms: %w''),
      (SysWrite, ''writing temp file: %w''),
      (SysSync, ''syncing temp file: %w''),
      (SysClose, ''closing temp file: %w''),
      (SysRename, ''renaming temp file into place: %w'')]"

definition remove_temp :: "bytes \<Rightarrow> disk \<Rightarrow> volume \<Rightarrow> volume" where
  "remove_temp path d v = (if d_fault d SysRemoveTemp path = None then v\<lparr>vo_temp := None\<rparr> else v)"

text \<open>The volumes after each call.\<close>

definition atomic_trace :: "disk \<Rightarrow> bytes \<Rightarrow> bytes \<Rightarrow> volume list \<times> unit result" where
  "atomic_trace d path data =
     (let v0 = volume_of d in
      case d_fault d SysMkdirAll path of Some e \<Rightarrow> ([v0], Inl (Wrap ''creating directory: %w'' e))
      | None \<Rightarrow>
      (case d_fault d SysCreateTemp path of Some e \<Rightarrow> ([v0], Inl (Wrap ''creating temp file: %w'' e))
       | None \<Rightarrow>
       let v1 = do_call path data SysCreateTemp v0 in
       (case run_calls path data d atomic_calls v1 of
          (vs, r) \<Rightarrow> (v0 # v1 # vs @ [remove_temp path d (last (v1 # vs))], r))))"

text \<open>What a process sees of it.\<close>

definition WriteFileAtomic :: "disk \<Rightarrow> bytes \<Rightarrow> bytes \<Rightarrow> disk \<times> unit result" where
  "WriteFileAtomic d path data =
     (case atomic_trace d path data of (vs, r) \<Rightarrow>
        (d\<lparr>d_files := visible (last vs), d_temp := (case vo_temp (last vs) of None \<Rightarrow> d_temp d | Some i \<Rightarrow> Some (in_data i))\<rparr>, r))"

text \<open>
  What holds of a volume while the temporary file is written: nothing in the directory has changed. And once
  it is in place: the directory has the new file, with its data on the disk.
\<close>

definition untouched :: "disk \<Rightarrow> volume \<Rightarrow> bool" where
  "untouched d v \<longleftrightarrow> vo_dir v = vo_dir (volume_of d) \<and> vo_old v = vo_dir (volume_of d)"

definition in_place :: "disk \<Rightarrow> bytes \<Rightarrow> bytes \<Rightarrow> volume \<Rightarrow> bool" where
  "in_place d path data v \<longleftrightarrow> vo_dir v = (vo_dir (volume_of d))(path \<mapsto> \<lparr>in_data = data, in_synced = True\<rparr>) \<and> vo_old v = vo_dir (volume_of d)
     \<and> vo_temp v = None"

lemma do_call_unchanged: "untouched d v \<Longrightarrow> c \<noteq> SysRename \<Longrightarrow> untouched d (do_call path data c v)"
  by (cases c) (simp_all add: untouched_def do_call_def)

lemma failed_call_unchanged: "untouched d v \<Longrightarrow> untouched d (failed_call path data n c v)"
  by (simp add: failed_call_def do_call_unchanged)

lemma remove_temp_keeps [simp]:
  "untouched d (remove_temp path d' v) = untouched d v" "in_place d path data v \<Longrightarrow> in_place d path data (remove_temp path d' v)"
  by (simp_all add: remove_temp_def untouched_def in_place_def)

text \<open>Before the rename nothing changes; the rename puts a temporary file into place that was written and synced.\<close>

lemma run_calls_unchanged:
  assumes "untouched d v" "SysRename \<notin> fst ` set cs" "run_calls path data d cs v = (vs, r)"
  shows "(\<forall>w\<in>set vs. untouched d w) \<and> (r = Inr () \<longrightarrow> last (v # vs) = fold (\<lambda>p. do_call path data (fst p)) cs v)"
  using assms
proof (induction cs arbitrary: v vs)
  case (Cons p cs)
  obtain c msg where p: "p = (c, msg)" by (cases p)
  show ?case
  proof (cases "d_fault d c path")
    case None
    from Cons.prems(3) p None obtain ws where rest: "run_calls path data d cs (do_call path data c v) = (ws, r)" and vs: "vs = do_call path data c v # ws"
      by (auto simp: Let_def split: prod.splits)
    have "untouched d (do_call path data c v)" using Cons.prems p by (intro do_call_unchanged) auto
    with Cons.IH [OF this _ rest] Cons.prems(2) vs p show ?thesis by auto
  next
    case (Some e)
    with Cons.prems p show ?thesis by (auto intro: failed_call_unchanged)
  qed
qed simp

lemma run_calls_append:
  "run_calls path data d (cs @ ds) v =
     (case run_calls path data d cs v of
        (vs, Inl e) \<Rightarrow> (vs, Inl e)
      | (vs, Inr _) \<Rightarrow> (case run_calls path data d ds (last (v # vs)) of (ws, r) \<Rightarrow> (vs @ ws, r)))"
proof (induction cs arbitrary: v)
  case (Cons p cs)
  obtain c msg where p: "p = (c, msg)" by (cases p)
  show ?case
  proof (cases "d_fault d c path")
    case None
    obtain vs r where v: "run_calls path data d cs (do_call path data c v) = (vs, r)" by fastforce
    with Cons.IH [of "do_call path data c v"] None p show ?thesis
      by (cases r) (auto simp: Let_def split: prod.split)
  qed (simp add: p)
qed (simp split: prod.split)

lemma atomic_trace_cases:
  assumes "atomic_trace d path data = (vs, r)"
  shows "(\<forall>v\<in>set vs. untouched d v \<or> in_place d path data v) \<and> vs \<noteq> []
    \<and> (if r = Inr () then in_place d path data (last vs) else untouched d (last vs))
    \<and> (d_fault d SysRemoveTemp path = None \<longrightarrow> vo_temp (last vs) = None)"
proof -
  define before where "before = butlast atomic_calls"
  let ?v0 = "volume_of d"
  let ?v1 = "do_call path data SysCreateTemp ?v0"
  have u0: "untouched d ?v0" "vo_temp ?v0 = None" by (simp_all add: untouched_def volume_of_def Let_def)
  then have u1: "untouched d ?v1" by (simp add: do_call_unchanged)
  show ?thesis
  proof (cases "d_fault d SysMkdirAll path = None \<and> d_fault d SysCreateTemp path = None")
    case False
    then have "vs = [?v0] \<and> (\<exists>e. r = Inl e)" using assms
      by (cases "d_fault d SysMkdirAll path"; cases "d_fault d SysCreateTemp path") (auto simp: atomic_trace_def Let_def)
    with u0 show ?thesis by auto
  next
    case True
    obtain ws q where run: "run_calls path data d atomic_calls ?v1 = (ws, q)" by fastforce
    have vs: "vs = ?v0 # ?v1 # ws @ [remove_temp path d (last (?v1 # ws))]" "r = q"
      using assms True run by (simp_all add: atomic_trace_def Let_def)
    obtain xs p where pre: "run_calls path data d before ?v1 = (xs, p)" by fastforce
    have "SysRename \<notin> fst ` set before" by (simp add: atomic_calls_def before_def)
    from run_calls_unchanged [OF u1 this pre] have xs: "\<forall>w\<in>set xs. untouched d w"
      "p = Inr () \<Longrightarrow> last (?v1 # xs) = fold (\<lambda>p. do_call path data (fst p)) before ?v1" by auto
    have all: "atomic_calls = before @ [(SysRename, ''renaming temp file into place: %w'')]" by (simp add: atomic_calls_def before_def)
    have last1: "untouched d (last (?v1 # xs))" using u1 xs(1) last_in_set [of xs] by auto
    have ws: "(ws = xs \<and> (\<exists>e. q = Inl e)) \<or> (q = Inr () \<and> ws = xs @ [do_call path data SysRename (last (?v1 # xs))] \<and> p = Inr ())
        \<or> ((\<exists>e. q = Inl e) \<and> ws = xs @ [last (?v1 # xs)])"
      using run pre unfolding all run_calls_append by (auto simp: failed_call_def Let_def split: sum.splits option.splits)
    have moved: "in_place d path data (do_call path data SysRename (last (?v1 # xs)))" if "p = Inr ()"
      unfolding xs(2) [OF that] by (simp add: atomic_calls_def before_def do_call_def in_place_def volume_of_def Let_def fun_eq_iff)
    have "(\<forall>w\<in>set ws. untouched d w \<or> in_place d path data w) \<and> (if q = Inr () then in_place d path data (last (?v1 # ws)) else untouched d (last (?v1 # ws)))"
      using ws xs(1) last1 moved by (auto split: if_splits)
    moreover have "vo_temp (remove_temp path d w) = None" if "d_fault d SysRemoveTemp path = None" for w using that by (simp add: remove_temp_def)
    ultimately show ?thesis using u0 u1 last_in_set [of ws] by (auto simp: vs split: if_splits)
  qed
qed

lemma visible_volume_of [simp]: "visible (volume_of d) = d_files d"
  by (simp add: visible_def volume_of_def fun_eq_iff Let_def option.map_comp o_def option.map_ident)

lemma visible_cases:
  "untouched d v \<Longrightarrow> visible v = d_files d" "in_place d path data v \<Longrightarrow> visible v = (d_files d)(path \<mapsto> data)"
  by (auto simp: visible_def untouched_def in_place_def volume_of_def fun_eq_iff Let_def option.map_comp o_def option.map_ident)

lemma crash_synced:
  assumes "\<And>q. dir q = map_option (\<lambda>b. \<lparr>in_data = b, in_synced = True\<rparr>) (f q)"
  shows "(\<forall>q. crash_file (dir q) (m q)) \<longleftrightarrow> m = f"
proof -
  have "crash_file (dir q) (m q) \<longleftrightarrow> m q = f q" for q using assms [of q] by (cases "f q") (simp_all add: crash_file_def)
  then show ?thesis by (simp add: fun_eq_iff)
qed

lemma crash_cases:
  "untouched d v \<Longrightarrow> crash_view v m \<longleftrightarrow> m = d_files d"
  "in_place d path data v \<Longrightarrow> crash_view v m \<longleftrightarrow> m = d_files d \<or> m = (d_files d)(path \<mapsto> data)"
proof -
  have old: "(\<forall>q. crash_file (vo_dir (volume_of d) q) (m q)) \<longleftrightarrow> m = d_files d"
    by (rule crash_synced) (simp add: volume_of_def Let_def)
  then show "crash_view v m \<longleftrightarrow> m = d_files d" if "untouched d v" using that by (simp add: crash_view_def untouched_def)
  have new: "(\<forall>q. crash_file (((vo_dir (volume_of d))(path \<mapsto> \<lparr>in_data = data, in_synced = True\<rparr>)) q) (m q)) \<longleftrightarrow> m = (d_files d)(path \<mapsto> data)"
    by (rule crash_synced) (simp add: volume_of_def Let_def)
  show "crash_view v m \<longleftrightarrow> m = d_files d \<or> m = (d_files d)(path \<mapsto> data)" if "in_place d path data v"
    using that old new unfolding crash_view_def in_place_def by metis
qed

text \<open>What remains of an atomic write: all of it or nothing.\<close>

lemma WriteFileAtomic_visible:
  assumes "WriteFileAtomic d path data = (d', r)"
  shows "d_files d' = (if r = Inr () then (d_files d)(path \<mapsto> data) else d_files d)" "d_fault d' = d_fault d" "d_short d' = d_short d"
    "r = Inr () \<Longrightarrow> d_temp d' = d_temp d"
proof -
  obtain vs where t: "atomic_trace d path data = (vs, r)" and d': "d_files d' = visible (last vs)" "d_fault d' = d_fault d" "d_short d' = d_short d"
      "d_temp d' = (case vo_temp (last vs) of None \<Rightarrow> d_temp d | Some i \<Rightarrow> Some (in_data i))"
    using assms by (auto simp: WriteFileAtomic_def split: prod.splits)
  note c = atomic_trace_cases [OF t]
  show "d_files d' = (if r = Inr () then (d_files d)(path \<mapsto> data) else d_files d)" using c d'(1) visible_cases by (auto split: if_splits)
  show "d_temp d' = d_temp d" if "r = Inr ()" using c d'(4) that by (simp add: in_place_def)
qed (use assms in \<open>auto simp: WriteFileAtomic_def split: prod.splits\<close>)

lemma WriteFileAtomic_ok:
  assumes "WriteFileAtomic d path data = (d', Inr u)"
  shows "d' = d\<lparr>d_files := (d_files d)(path \<mapsto> data)\<rparr>"
  using WriteFileAtomic_visible [OF assms] by simp

lemma WriteFileAtomic_err:
  assumes "WriteFileAtomic d path data = (d', Inl e)"
  shows "d_files d' = d_files d" "d_fault d' = d_fault d"
  using WriteFileAtomic_visible [OF assms] by simp_all

lemma WriteFileAtomic_frame:
  assumes "WriteFileAtomic d path data = (d', r)"
  shows "d_fault d' = d_fault d" "q \<noteq> path \<Longrightarrow> d_files d' q = d_files d q"
    "r = Inr () \<Longrightarrow> d_files d' path = Some data" "r \<noteq> Inr () \<Longrightarrow> d_files d' path = d_files d path"
  using WriteFileAtomic_visible [OF assms] by simp_all

lemma WriteFileAtomic_clean:
  assumes "\<And>c p. d_fault d c p = None"
  shows "WriteFileAtomic d path data = (d\<lparr>d_files := (d_files d)(path \<mapsto> data)\<rparr>, Inr ())"
proof -
  obtain d' r where w: "WriteFileAtomic d path data = (d', r)" by fastforce
  have "\<exists>vs. run_calls path data d cs v = (vs, Inr ())" for cs v
  proof (induction cs arbitrary: v)
    case (Cons p cs)
    from Cons.IH [of "do_call path data (fst p) v"] show ?case by (cases p) (auto simp: assms Let_def)
  qed simp
  then obtain vs where "run_calls path data d atomic_calls (do_call path data SysCreateTemp (volume_of d)) = (vs, Inr ())" by blast
  then have "r = Inr ()" using w assms by (simp add: WriteFileAtomic_def atomic_trace_def Let_def)
  with w WriteFileAtomic_ok show ?thesis by auto
qed

section \<open>The contract of a store\<close>

text \<open>
  A store keeps one value in one file. What was saved is what is loaded; a save that failed is as if
  it had not happened; nobody else's files change.
\<close>

locale file_store =
  fixes path :: bytes
    and load :: "disk \<Rightarrow> 'a result"
    and save :: "disk \<Rightarrow> 'a \<Rightarrow> disk \<times> unit result"
    and storable :: "'a \<Rightarrow> bool"
  assumes load_saved: "storable x \<Longrightarrow> d_fault d SysRead path = None \<Longrightarrow> save d x = (d', Inr u) \<Longrightarrow> load d' = Inr x"
    and load_unsaved: "save d x = (d', Inl e) \<Longrightarrow> load d' = load d"
    and save_frame: "save d x = (d', r) \<Longrightarrow> q \<noteq> path \<Longrightarrow> d_files d' q = d_files d q"
begin

text \<open>A load-modify-save is a transaction: it either did not happen or applied the change.\<close>

lemma transaction:
  assumes "load d = Inr x" "save d (f x) = (d', r)" "storable (f x)" "d_fault d SysRead path = None"
  shows "load d' = Inr (case r of Inl _ \<Rightarrow> x | Inr _ \<Rightarrow> f x)"
  using assms load_saved load_unsaved by (cases r) auto

end

section \<open>Properties\<close>

text \<open>
  C40. WriteFileAtomic is atomic: whichever call fails, and wherever the process stops or the machine
  crashes, with unsynced data cut anywhere, all files together are either as they were or as they were
  but for the target, which has the complete new content; readers never see anything else. After an error
  the files are as before, after success the target has the new content, and no temporary file is left
  unless its removal fails. The rename itself is not forced to the disk: a crash after success may still
  give the old content.
\<close>

theorem WriteFileAtomic_atomic:
  assumes "atomic_trace d path data = (vs, r)"
  shows "(\<forall>v\<in>set vs. visible v \<in> {d_files d, (d_files d)(path \<mapsto> data)} \<and> (\<forall>m. crash_view v m \<longrightarrow> m \<in> {d_files d, (d_files d)(path \<mapsto> data)}))
     \<and> visible (last vs) = (if r = Inr () then (d_files d)(path \<mapsto> data) else d_files d)
     \<and> (d_fault d SysRemoveTemp path = None \<longrightarrow> vo_temp (last vs) = None)
     \<and> (r = Inr () \<longrightarrow> crash_view (last vs) (d_files d))"
proof -
  note c = atomic_trace_cases [OF assms]
  have "visible v \<in> {d_files d, (d_files d)(path \<mapsto> data)} \<and> (\<forall>m. crash_view v m \<longrightarrow> m \<in> {d_files d, (d_files d)(path \<mapsto> data)})"
    if "v \<in> set vs" for v
  proof (cases "untouched d v")
    case True
    then show ?thesis by (simp add: visible_cases(1) crash_cases(1))
  next
    case False
    with c that have "in_place d path data v" by blast
    then show ?thesis by (simp add: visible_cases(2) crash_cases(2))
  qed
  moreover have "visible (last vs) = (if r = Inr () then (d_files d)(path \<mapsto> data) else d_files d)"
    using c visible_cases by (auto split: if_splits)
  moreover have "crash_view (last vs) (d_files d)" if "r = Inr ()" using c that crash_cases(2) [of d path data "last vs"] by simp
  ultimately show ?thesis using c by blast
qed

definition empty_disk :: disk where
  "empty_disk = \<lparr>d_files = Map.empty, d_temp = None, d_fault = (\<lambda>_ _. None), d_short = 0\<rparr>"

theorem WriteFileAtomic_atomic_witness:
  "\<exists>vs. atomic_trace empty_disk ''a.json'' ''xy'' = (vs, Inr ()) \<and> visible (last vs) ''a.json'' = Some ''xy'' \<and> crash_view (last vs) Map.empty
     \<and> (\<forall>v\<in>set vs. \<forall>m. crash_view v m \<longrightarrow> m \<in> {Map.empty, [''a.json'' \<mapsto> ''xy'']})"
proof -
  obtain vs where t: "atomic_trace empty_disk ''a.json'' ''xy'' = (vs, Inr ())"
    by (simp add: atomic_trace_def atomic_calls_def empty_disk_def Let_def)
  from WriteFileAtomic_atomic [OF t] t show ?thesis by (simp add: empty_disk_def)
qed

end
