(* ===== verification/Icfx_Contacts.thy ===== *)
theory Icfx_Contacts
  imports Icfx_Validate Icfx_Files
begin

text \<open>
  Package contacts: the contact record and its JSON, the lookups, the contact store over one file and
  SaveFromLock, the one path by which a peer's lock becomes a contact. A store is its path, its
  operations take and return the disk. Each exported operation holds the store's mutex from its load
  to its save, so concurrent use is a sequence of these operations. The clock is the argument
  \<open>now\<close>; \<open>ulow\<close> and \<open>ufold\<close> are the Unicode tables beyond ASCII.
\<close>

section \<open>Contacts\<close>

definition Contacts_ErrNotFound :: go_error where "Contacts_ErrNotFound = Sentinel ''contact not found''"

definition Contacts_ErrAlreadyExists :: go_error where "Contacts_ErrAlreadyExists = Sentinel ''contact already exists''"

record PreviousKey =
  pk_EncPubKey :: bytes
  pk_SignPubKey :: bytes
  pk_Fingerprint :: bytes
  pk_RevokedAt :: gotime

record Contact =
  ct_ID :: bytes
  ct_Alias :: bytes
  ct_Nickname :: bytes
  ct_FirstName :: bytes
  ct_LastName :: bytes
  ct_Email :: bytes
  ct_EncPubKey :: bytes
  ct_SignPubKey :: bytes
  ct_Fingerprint :: bytes
  ct_AddedAt :: gotime
  ct_PreviousKeys :: "PreviousKey list"
  ct_Cloud :: bool
  ct_CloudConnection :: bytes
  ct_InvitedAt :: gotime

definition zero_PreviousKey :: PreviousKey where
  "zero_PreviousKey = \<lparr>pk_EncPubKey = [], pk_SignPubKey = [], pk_Fingerprint = [], pk_RevokedAt = zero_time\<rparr>"

definition zero_Contact :: Contact where
  "zero_Contact = \<lparr>ct_ID = [], ct_Alias = [], ct_Nickname = [], ct_FirstName = [], ct_LastName = [], ct_Email = [],
     ct_EncPubKey = [], ct_SignPubKey = [], ct_Fingerprint = [], ct_AddedAt = zero_time, ct_PreviousKeys = [],
     ct_Cloud = False, ct_CloudConnection = [], ct_InvitedAt = zero_time\<rparr>"

definition ConnectionInvited :: bytes where "ConnectionInvited = ''invited''"

definition ConnectionConnected :: bytes where "ConnectionConnected = ''connected''"

definition ConnectionUnreachable :: bytes where "ConnectionUnreachable = ''unreachable''"

definition EnsureID :: "prims \<Rightarrow> Contact \<Rightarrow> Contact \<times> bool" where
  "EnsureID P c =
     (if ct_ID c \<noteq> [] then (c, False)
      else let signPub = (case b64_decode (ct_SignPubKey c) of Inl _ \<Rightarrow> ct_SignPubKey c | Inr b \<Rightarrow> b)
           in (c\<lparr>ct_ID := GenerateInstacryptID P (ct_EncPubKey c) signPub (ct_AddedAt c)\<rparr>, True))"

section \<open>Lookups\<close>

text \<open>The first match of a loop over the slice; a pointer into it is the index.\<close>

fun find_index :: "('a \<Rightarrow> bool) \<Rightarrow> 'a list \<Rightarrow> nat option" where
  "find_index p [] = None"
| "find_index p (x # xs) = (if p x then Some 0 else map_option Suc (find_index p xs))"

definition found :: "go_error \<Rightarrow> nat option \<Rightarrow> nat result" where
  "found e r = (case r of None \<Rightarrow> Inl e | Some i \<Rightarrow> Inr i)"

definition Contacts_FindByID :: "Contact list \<Rightarrow> bytes \<Rightarrow> nat result" where
  "Contacts_FindByID cs i = found Contacts_ErrNotFound (find_index (\<lambda>c. ct_ID c = i) cs)"

definition Contacts_FindDuplicate :: "Contact list \<Rightarrow> bytes \<Rightarrow> bytes \<Rightarrow> bytes \<Rightarrow> nat result" where
  "Contacts_FindDuplicate cs alias email nickname = found Contacts_ErrNotFound
     (find_index (\<lambda>c. (alias \<noteq> [] \<and> ct_Alias c = alias) \<or> (email \<noteq> [] \<and> ct_Email c = email)
        \<or> (nickname \<noteq> [] \<and> ct_Nickname c = nickname)) cs)"

definition FindByAlias :: "Contact list \<Rightarrow> bytes \<Rightarrow> nat result" where
  "FindByAlias cs alias = found Contacts_ErrNotFound (find_index (\<lambda>c. ct_Alias c = alias) cs)"

definition FindByEmailOrNickname :: "Contact list \<Rightarrow> bytes \<Rightarrow> nat result" where
  "FindByEmailOrNickname cs query =
     found Contacts_ErrNotFound (find_index (\<lambda>c. ct_Email c = query \<or> ct_Nickname c = query) cs)"

definition owns_fingerprint :: "(nat \<Rightarrow> nat \<Rightarrow> bool) \<Rightarrow> bytes \<Rightarrow> Contact \<Rightarrow> bool" where
  "owns_fingerprint ufold fp c \<longleftrightarrow> EqualFold ufold (ct_Fingerprint c) fp
     \<or> list_ex (\<lambda>pk. pk_Fingerprint pk \<noteq> [] \<and> EqualFold ufold (pk_Fingerprint pk) fp) (ct_PreviousKeys c)"

definition FindByFingerprint :: "(nat \<Rightarrow> nat \<Rightarrow> bool) \<Rightarrow> Contact list \<Rightarrow> bytes \<Rightarrow> nat option" where
  "FindByFingerprint ufold cs fp = (if fp = [] then None else find_index (owns_fingerprint ufold fp) cs)"

section \<open>JSON\<close>

definition PreviousKey_fields :: "PreviousKey field list" where
  "PreviousKey_fields =
     [fld ''enc_pub_key'' dec_str pk_EncPubKey pk_EncPubKey_update,
      fld ''sign_pub_key'' dec_str pk_SignPubKey pk_SignPubKey_update,
      fld ''fingerprint'' dec_str pk_Fingerprint pk_Fingerprint_update,
      fld ''revoked_at'' dec_time pk_RevokedAt pk_RevokedAt_update]"

definition enc_PreviousKey :: "PreviousKey \<Rightarrow> json" where
  "enc_PreviousKey k = JObj [(''enc_pub_key'', jstr (pk_EncPubKey k)), (''sign_pub_key'', jstr (pk_SignPubKey k)),
     (''fingerprint'', jstr (pk_Fingerprint k)), (''revoked_at'', jtime (pk_RevokedAt k))]"

definition Contact_fields :: "Contact field list" where
  "Contact_fields =
     [fld ''id'' dec_str ct_ID ct_ID_update,
      fld ''alias'' dec_str ct_Alias ct_Alias_update,
      fld ''nickname'' dec_str ct_Nickname ct_Nickname_update,
      fld ''first_name'' dec_str ct_FirstName ct_FirstName_update,
      fld ''last_name'' dec_str ct_LastName ct_LastName_update,
      fld ''email'' dec_str ct_Email ct_Email_update,
      fld ''enc_pub_key'' dec_str ct_EncPubKey ct_EncPubKey_update,
      fld ''sign_pub_key'' dec_str ct_SignPubKey ct_SignPubKey_update,
      fld ''fingerprint'' dec_str ct_Fingerprint ct_Fingerprint_update,
      fld ''added_at'' dec_time ct_AddedAt ct_AddedAt_update,
      fld ''previous_keys'' (dec_list (dec_struct PreviousKey_fields) zero_PreviousKey) ct_PreviousKeys ct_PreviousKeys_update,
      fld ''cloud'' dec_bool ct_Cloud ct_Cloud_update,
      fld ''cloud_connection'' dec_str ct_CloudConnection ct_CloudConnection_update,
      fld ''invited_at'' dec_time ct_InvitedAt ct_InvitedAt_update]"

definition enc_Contact :: "Contact \<Rightarrow> json" where
  "enc_Contact c = JObj (
     [(''id'', jstr (ct_ID c)), (''alias'', jstr (ct_Alias c)), (''nickname'', jstr (ct_Nickname c))]
     @ omit (ct_FirstName c = []) ''first_name'' (jstr (ct_FirstName c))
     @ omit (ct_LastName c = []) ''last_name'' (jstr (ct_LastName c))
     @ [(''email'', jstr (ct_Email c)), (''enc_pub_key'', jstr (ct_EncPubKey c)), (''sign_pub_key'', jstr (ct_SignPubKey c)),
        (''fingerprint'', jstr (ct_Fingerprint c)), (''added_at'', jtime (ct_AddedAt c))]
     @ omit (ct_PreviousKeys c = []) ''previous_keys'' (JArr (map enc_PreviousKey (ct_PreviousKeys c)))
     @ omit (\<not> ct_Cloud c) ''cloud'' (JBool (ct_Cloud c))
     @ omit (ct_CloudConnection c = []) ''cloud_connection'' (jstr (ct_CloudConnection c))
     @ [(''invited_at'', jtime (ct_InvitedAt c))])"

text \<open>Marshaling fails on a time that RFC 3339 cannot express.\<close>

definition Contact_marshals :: "Contact \<Rightarrow> bool" where
  "Contact_marshals c \<longleftrightarrow> marshals (ct_AddedAt c) \<and> marshals (ct_InvitedAt c)
     \<and> list_all (\<lambda>k. marshals (pk_RevokedAt k)) (ct_PreviousKeys c)"

definition wf_PreviousKey :: "PreviousKey \<Rightarrow> bool" where
  "wf_PreviousKey k \<longleftrightarrow> valid_utf8 (pk_EncPubKey k) \<and> valid_utf8 (pk_SignPubKey k) \<and> valid_utf8 (pk_Fingerprint k)
     \<and> wf_time (pk_RevokedAt k)"

definition wf_Contact :: "Contact \<Rightarrow> bool" where
  "wf_Contact c \<longleftrightarrow> valid_utf8 (ct_ID c) \<and> valid_utf8 (ct_Alias c) \<and> valid_utf8 (ct_Nickname c)
     \<and> valid_utf8 (ct_FirstName c) \<and> valid_utf8 (ct_LastName c) \<and> valid_utf8 (ct_Email c)
     \<and> valid_utf8 (ct_EncPubKey c) \<and> valid_utf8 (ct_SignPubKey c) \<and> valid_utf8 (ct_Fingerprint c)
     \<and> wf_time (ct_AddedAt c) \<and> list_all wf_PreviousKey (ct_PreviousKeys c)
     \<and> valid_utf8 (ct_CloudConnection c) \<and> wf_time (ct_InvitedAt c)"

record contactData =
  cd_Version :: int
  cd_Contacts :: "Contact list"

definition contactData_fields :: "contactData field list" where
  "contactData_fields =
     [fld ''version'' dec_int cd_Version cd_Version_update,
      fld ''contacts'' (dec_list (dec_struct Contact_fields) zero_Contact) cd_Contacts cd_Contacts_update]"

definition enc_contactData :: "contactData \<Rightarrow> json" where
  "enc_contactData d = JObj [(''version'', jint (cd_Version d)), (''contacts'', JArr (map enc_Contact (cd_Contacts d)))]"

section \<open>The store\<close>

definition Contacts_load :: "bytes \<Rightarrow> disk \<Rightarrow> Contact list result" where
  "Contacts_load path d =
     (let raw = ReadFile d path in
      if IsNotExist raw then Inr []
      else andthen (wrapping ''reading contacts file: %w'' raw) (\<lambda>raw.
        case unmarshal (dec_struct contactData_fields) \<lparr>cd_Version = 0, cd_Contacts = []\<rparr> raw of
          None \<Rightarrow> Inl (Wrap ''parsing contacts: %w'' (Errorf ''json''))
        | Some data \<Rightarrow> Inr (cd_Contacts data)))"

definition Contacts_save :: "bytes \<Rightarrow> disk \<Rightarrow> Contact list \<Rightarrow> disk \<times> unit result" where
  "Contacts_save path d cs =
     (if \<not> list_all Contact_marshals cs then (d, Inl (Wrap ''marshaling contacts: %w'' (Errorf ''json'')))
      else WriteFileAtomic d path (indented (enc_contactData \<lparr>cd_Version = 2, cd_Contacts = cs\<rparr>)))"

definition Contacts_Add :: "bytes \<Rightarrow> disk \<Rightarrow> Contact \<Rightarrow> Contact list \<Rightarrow> disk \<times> Contact list result" where
  "Contacts_Add path d contact existing =
     (if list_ex (\<lambda>c. ct_Alias c = ct_Alias contact) existing then (d, Inl Contacts_ErrAlreadyExists)
      else case Contacts_save path d (existing @ [contact]) of
        (d', Inl e) \<Rightarrow> (d', Inl e) | (d', Inr _) \<Rightarrow> (d', Inr (existing @ [contact])))"

definition Contacts_Remove :: "bytes \<Rightarrow> disk \<Rightarrow> bytes \<Rightarrow> Contact list \<Rightarrow> disk \<times> Contact list result" where
  "Contacts_Remove path d alias existing =
     (let filtered = filter (\<lambda>c. ct_Alias c \<noteq> alias) existing in
      if \<not> list_ex (\<lambda>c. ct_Alias c = alias) existing then (d, Inl Contacts_ErrNotFound)
      else case Contacts_save path d filtered of
        (d', Inl e) \<Rightarrow> (d', Inl e) | (d', Inr _) \<Rightarrow> (d', Inr filtered))"

definition SetCloudConnection :: "bytes \<Rightarrow> disk \<Rightarrow> bytes \<Rightarrow> bytes \<Rightarrow> gotime \<Rightarrow> disk \<times> unit result" where
  "SetCloudConnection path d alias state at =
     (case Contacts_load path d of Inl e \<Rightarrow> (d, Inl e)
      | Inr cs \<Rightarrow>
         (case find_index (\<lambda>c. ct_Alias c = alias) cs of
            None \<Rightarrow> (d, Inl Contacts_ErrNotFound)
          | Some i \<Rightarrow>
              let c = (cs ! i)\<lparr>ct_CloudConnection := state\<rparr>;
                  c = (if state = ConnectionInvited then c\<lparr>ct_InvitedAt := at\<rparr> else c)
              in Contacts_save path d (cs[i := c])))"

definition MarkConnectedByFingerprint :: "bytes \<Rightarrow> disk \<Rightarrow> bytes \<Rightarrow> disk \<times> unit result" where
  "MarkConnectedByFingerprint path d fp =
     (case Contacts_load path d of Inl e \<Rightarrow> (d, Inl e)
      | Inr cs \<Rightarrow>
         (case find_index (\<lambda>c. ct_Fingerprint c = fp) cs of
            None \<Rightarrow> (d, Inr ())
          | Some i \<Rightarrow>
              if ct_CloudConnection (cs ! i) = ConnectionConnected then (d, Inr ())
              else Contacts_save path d (cs[i := (cs ! i)\<lparr>ct_CloudConnection := ConnectionConnected\<rparr>])))"

section \<open>From a lock\<close>

definition shortFP :: "bytes \<Rightarrow> bytes" where
  "shortFP fp = (if length fp \<le> 12 then fp else take 12 fp @ ''...'')"

definition lock_alias :: "(nat \<Rightarrow> nat) \<Rightarrow> LockBundle \<Rightarrow> bytes" where
  "lock_alias ulow lb =
     (let a = NormalizeAlias ulow (lb_Alias lb);
          a = (if a = [] then lb_Name lb else a)
      in if a = [] then shortFP (lb_Fingerprint lb) else a)"

definition refresh_contact :: "bytes \<Rightarrow> LockBundle \<Rightarrow> Contact \<Rightarrow> Contact" where
  "refresh_contact pubAlias lb c = c\<lparr>ct_ID := lb_ID lb, ct_Alias := pubAlias, ct_Email := lb_Email lb,
     ct_EncPubKey := lb_EncPubKey lb, ct_SignPubKey := lb_SignPubKey lb, ct_Cloud := True\<rparr>"

definition new_contact :: "bytes \<Rightarrow> gotime \<Rightarrow> LockBundle \<Rightarrow> Contact" where
  "new_contact alias now lb = zero_Contact\<lparr>ct_ID := lb_ID lb, ct_Alias := alias, ct_Email := lb_Email lb,
     ct_EncPubKey := lb_EncPubKey lb, ct_SignPubKey := lb_SignPubKey lb, ct_Fingerprint := lb_Fingerprint lb,
     ct_AddedAt := now, ct_Cloud := True\<rparr>"

definition SaveFromLock ::
    "prims \<Rightarrow> (nat \<Rightarrow> nat) \<Rightarrow> bytes \<Rightarrow> gotime \<Rightarrow> disk \<Rightarrow> LockBundle \<Rightarrow> disk \<times> (bytes \<times> bool) result" where
  "SaveFromLock P ulow path now d lb =
     (case ValidateLockBundle P lb of Inl e \<Rightarrow> (d, Inl (Wrap ''invalid lock: %w'' e))
      | Inr _ \<Rightarrow>
        if lb_Sig lb = [] then (d, Inl (Errorf ''unauthenticated lock: missing self-signature''))
        else case Contacts_load path d of Inl e \<Rightarrow> (d, Inl (Wrap ''loading contacts: %w'' e))
         | Inr existing \<Rightarrow>
           let pubAlias = lock_alias ulow lb in
           (case find_index (\<lambda>c. ct_Fingerprint c = lb_Fingerprint lb) existing of
              Some i \<Rightarrow>
                (case Contacts_save path d (existing[i := refresh_contact pubAlias lb (existing ! i)]) of
                   (d', Inl e) \<Rightarrow> (d', Inl (Wrap ''saving contacts: %w'' e))
                 | (d', Inr _) \<Rightarrow> (d', Inr (pubAlias, True)))
            | None \<Rightarrow>
                let alias = (case FindByAlias existing pubAlias of
                      Inr _ \<Rightarrow> pubAlias @ '' ('' @ shortFP (lb_Fingerprint lb) @ '')''
                    | Inl _ \<Rightarrow> pubAlias)
                in (case Contacts_save path d (existing @ [new_contact alias now lb]) of
                      (d', Inl e) \<Rightarrow> (d', Inl (Wrap ''saving contacts: %w'' e))
                    | (d', Inr _) \<Rightarrow> (d', Inr (alias, False)))))"

section \<open>Lemmas\<close>

lemma found_iff [simp]: "found e r = Inr i \<longleftrightarrow> r = Some i" "found e r = Inl e' \<longleftrightarrow> r = None \<and> e' = e"
  by (auto simp: found_def split: option.split)

lemma find_index_Some:
  "find_index p xs = Some i \<longleftrightarrow> i < length xs \<and> p (xs ! i) \<and> (\<forall>j<i. \<not> p (xs ! j))"
proof (induction xs arbitrary: i)
  case (Cons x xs)
  show ?case
  proof (cases i)
    case (Suc k)
    then show ?thesis using Cons.IH [of k] by (auto simp: less_Suc_eq_0_disj)
  qed auto
qed simp

lemma find_index_None: "find_index p xs = None \<longleftrightarrow> (\<forall>x\<in>set xs. \<not> p x)"
  by (induction xs) auto

lemma find_PreviousKey:
  "find_field PreviousKey_fields ''enc_pub_key'' = Some (snd (fld ''enc_pub_key'' dec_str pk_EncPubKey pk_EncPubKey_update))"
  "find_field PreviousKey_fields ''sign_pub_key'' = Some (snd (fld ''sign_pub_key'' dec_str pk_SignPubKey pk_SignPubKey_update))"
  "find_field PreviousKey_fields ''fingerprint'' = Some (snd (fld ''fingerprint'' dec_str pk_Fingerprint pk_Fingerprint_update))"
  "find_field PreviousKey_fields ''revoked_at'' = Some (snd (fld ''revoked_at'' dec_time pk_RevokedAt pk_RevokedAt_update))"
  by (simp_all add: PreviousKey_fields_def find_field_def fld_def)

lemma find_Contact:
  "find_field Contact_fields ''id'' = Some (snd (fld ''id'' dec_str ct_ID ct_ID_update))"
  "find_field Contact_fields ''alias'' = Some (snd (fld ''alias'' dec_str ct_Alias ct_Alias_update))"
  "find_field Contact_fields ''nickname'' = Some (snd (fld ''nickname'' dec_str ct_Nickname ct_Nickname_update))"
  "find_field Contact_fields ''first_name'' = Some (snd (fld ''first_name'' dec_str ct_FirstName ct_FirstName_update))"
  "find_field Contact_fields ''last_name'' = Some (snd (fld ''last_name'' dec_str ct_LastName ct_LastName_update))"
  "find_field Contact_fields ''email'' = Some (snd (fld ''email'' dec_str ct_Email ct_Email_update))"
  "find_field Contact_fields ''enc_pub_key'' = Some (snd (fld ''enc_pub_key'' dec_str ct_EncPubKey ct_EncPubKey_update))"
  "find_field Contact_fields ''sign_pub_key'' = Some (snd (fld ''sign_pub_key'' dec_str ct_SignPubKey ct_SignPubKey_update))"
  "find_field Contact_fields ''fingerprint'' = Some (snd (fld ''fingerprint'' dec_str ct_Fingerprint ct_Fingerprint_update))"
  "find_field Contact_fields ''added_at'' = Some (snd (fld ''added_at'' dec_time ct_AddedAt ct_AddedAt_update))"
  "find_field Contact_fields ''previous_keys'' = Some (snd (fld ''previous_keys''
     (dec_list (dec_struct PreviousKey_fields) zero_PreviousKey) ct_PreviousKeys ct_PreviousKeys_update))"
  "find_field Contact_fields ''cloud'' = Some (snd (fld ''cloud'' dec_bool ct_Cloud ct_Cloud_update))"
  "find_field Contact_fields ''cloud_connection'' =
     Some (snd (fld ''cloud_connection'' dec_str ct_CloudConnection ct_CloudConnection_update))"
  "find_field Contact_fields ''invited_at'' = Some (snd (fld ''invited_at'' dec_time ct_InvitedAt ct_InvitedAt_update))"
  by (simp_all add: Contact_fields_def find_field_def fld_def)

lemma find_contactData:
  "find_field contactData_fields ''version'' = Some (snd (fld ''version'' dec_int cd_Version cd_Version_update))"
  "find_field contactData_fields ''contacts'' =
     Some (snd (fld ''contacts'' (dec_list (dec_struct Contact_fields) zero_Contact) cd_Contacts cd_Contacts_update))"
  by (simp_all add: contactData_fields_def find_field_def fld_def)

lemma dec_enc_PreviousKey [json_rt]:
  "wf_PreviousKey k \<Longrightarrow> marshals (pk_RevokedAt k) \<Longrightarrow>
   dec_struct PreviousKey_fields (enc_PreviousKey k) zero_PreviousKey = (k, DOk)"
  by (simp add: enc_PreviousKey_def json_rt find_PreviousKey fld_def wf_PreviousKey_def zero_PreviousKey_def)

lemma dec_enc_Contact:
  assumes "wf_Contact c" "Contact_marshals c"
  shows "dec_struct Contact_fields (enc_Contact c) zero_Contact = (c, DOk)"
proof -
  have "dec_list (dec_struct PreviousKey_fields) zero_PreviousKey (JArr (map enc_PreviousKey (ct_PreviousKeys c))) cur
      = (ct_PreviousKeys c, DOk)" for cur
    using assms by (intro dec_jlist dec_enc_PreviousKey) (auto simp: wf_Contact_def Contact_marshals_def list_all_iff)
  with assms show ?thesis
    by (simp add: enc_Contact_def json_rt find_Contact fld_def wf_Contact_def Contact_marshals_def zero_Contact_def)
qed

lemma wf_enc_Contact: "wf_json 9998 (enc_Contact c)"
  by (simp add: enc_Contact_def enc_PreviousKey_def valid_utf8_ascii ball_Un set_omit)

lemma wf_enc_contactData: "wf_json 10000 (enc_contactData d)"
  using wf_enc_Contact by (simp add: enc_contactData_def valid_utf8_ascii)

lemma Contacts_load_read:
  "d_files d path = d_files d' path \<Longrightarrow> d_fault d = d_fault d' \<Longrightarrow> Contacts_load path d = Contacts_load path d'"
  by (simp add: Contacts_load_def ReadFile_same [of d path d'])

interpretation contacts_file: file_store path "Contacts_load path" "Contacts_save path" "list_all wf_Contact" for path
proof
  show "Contacts_load path d' = Inr x"
    if "list_all wf_Contact x" "d_fault d SysRead path = None" "Contacts_save path d x = (d', Inr u)" for x d d' u
  proof -
    have "list_all Contact_marshals x"
      and w: "WriteFileAtomic d path (indented (enc_contactData \<lparr>cd_Version = 2, cd_Contacts = x\<rparr>)) = (d', Inr u)"
      using that(3) by (auto simp: Contacts_save_def split: if_splits)
    then have "dec_list (dec_struct Contact_fields) zero_Contact (JArr (map enc_Contact x)) cur = (x, DOk)" for cur
      using that(1) by (intro dec_jlist dec_enc_Contact) (auto simp: list_all_iff)
    then have "dec_struct contactData_fields (enc_contactData \<lparr>cd_Version = 2, cd_Contacts = x\<rparr>) \<lparr>cd_Version = 0, cd_Contacts = []\<rparr>
        = (\<lparr>cd_Version = 2, cd_Contacts = x\<rparr>, DOk)"
      by (simp add: enc_contactData_def json_rt find_contactData fld_def int64_def)
    then show ?thesis
      using WriteFileAtomic_frame [OF w] that(2)
      by (simp add: Contacts_load_def ReadFile_def IsNotExist_def unmarshal_indented wf_enc_contactData)
  qed
  show "Contacts_load path d' = Contacts_load path d" if "Contacts_save path d x = (d', Inl e)" for d x d' e
    using that WriteFileAtomic_err by (intro Contacts_load_read) (auto simp: Contacts_save_def split: if_splits)
  show "d_files d' q = d_files d q" if "Contacts_save path d x = (d', r)" "q \<noteq> path" for d x d' r q
    using that WriteFileAtomic_frame(2) by (auto simp: Contacts_save_def split: if_splits)
qed

text \<open>What SaveFromLock does to the list of contacts.\<close>

definition lock_match :: "LockBundle \<Rightarrow> Contact \<Rightarrow> bool" where
  "lock_match lb c \<longleftrightarrow> ct_Fingerprint c = lb_Fingerprint lb"

definition upsert_alias :: "(nat \<Rightarrow> nat) \<Rightarrow> LockBundle \<Rightarrow> Contact list \<Rightarrow> bytes" where
  "upsert_alias ulow lb cs =
     (if list_ex (\<lambda>c. ct_Alias c = lock_alias ulow lb) cs \<and> \<not> list_ex (lock_match lb) cs
      then lock_alias ulow lb @ '' ('' @ shortFP (lb_Fingerprint lb) @ '')'' else lock_alias ulow lb)"

definition upsert :: "(nat \<Rightarrow> nat) \<Rightarrow> gotime \<Rightarrow> LockBundle \<Rightarrow> Contact list \<Rightarrow> Contact list" where
  "upsert ulow now lb cs = (case find_index (lock_match lb) cs of
       Some i \<Rightarrow> cs[i := refresh_contact (lock_alias ulow lb) lb (cs ! i)]
     | None \<Rightarrow> cs @ [new_contact (upsert_alias ulow lb cs) now lb])"

lemma lock_match_fun: "lock_match lb = (\<lambda>c. ct_Fingerprint c = lb_Fingerprint lb)"
  by (simp add: fun_eq_iff lock_match_def)

lemma find_index_ex: "(\<exists>i. find_index p xs = Some i) \<longleftrightarrow> list_ex p xs"
  by (metis find_index_None list_ex_iff not_Some_eq)

lemma SaveFromLock_upsert:
  assumes "ValidateLockBundle P lb = Inr u" "lb_Sig lb \<noteq> []" "Contacts_load path d = Inr cs"
  shows "SaveFromLock P ulow path now d lb =
    (case Contacts_save path d (upsert ulow now lb cs) of
       (d', Inl e) \<Rightarrow> (d', Inl (Wrap ''saving contacts: %w'' e))
     | (d', Inr _) \<Rightarrow> (d', Inr (upsert_alias ulow lb cs, list_ex (lock_match lb) cs)))"
proof (cases "find_index (lock_match lb) cs")
  case None
  then have "\<not> list_ex (lock_match lb) cs" by (simp add: find_index_None list_ex_iff)
  moreover have "(case FindByAlias cs a of Inr _ \<Rightarrow> x | Inl _ \<Rightarrow> y) = (if list_ex (\<lambda>c. ct_Alias c = a) cs then x else y)" for a and x y :: bytes
    using find_index_ex [of "\<lambda>c. ct_Alias c = a" cs]
    by (auto simp: FindByAlias_def found_def split: option.split)
  ultimately show ?thesis
    using None assms unfolding SaveFromLock_def upsert_def upsert_alias_def lock_match_fun
    by (simp add: Let_def split: prod.split sum.split)
next
  case (Some i)
  then have "list_ex (lock_match lb) cs" using find_index_ex by metis
  with Some assms show ?thesis
    unfolding SaveFromLock_def upsert_def upsert_alias_def lock_match_fun by (simp add: Let_def split: prod.split sum.split)
qed

lemma SaveFromLock_refused:
  "ValidateLockBundle P lb \<noteq> Inr () \<or> lb_Sig lb = [] \<or> (\<exists>e. Contacts_load path d = Inl e) \<Longrightarrow>
   \<exists>e. SaveFromLock P ulow path now d lb = (d, Inl e)"
  by (cases "ValidateLockBundle P lb"; cases "Contacts_load path d") (auto simp: SaveFromLock_def)

lemma valid_upsert_alias:
  assumes "utf8_LockBundle lb" "ascii (lb_Fingerprint lb)"
  shows "valid_utf8 (lock_alias ulow lb)" "valid_utf8 (upsert_alias ulow lb cs)"
proof -
  have s: "valid_utf8 (shortFP (lb_Fingerprint lb))"
    using assms(2) ascii_take [of _ 12] by (simp add: shortFP_def valid_utf8_ascii)
  have "ascii (NormalizeAlias ulow (lb_Alias lb))"
    using NormalizeAlias_valid [of ulow "lb_Alias lb"] alias_char_facts by (auto simp: Alias_iff ascii_def list_all_iff)
  then show a: "valid_utf8 (lock_alias ulow lb)"
    using s assms(1) by (simp add: lock_alias_def Let_def valid_utf8_ascii utf8_LockBundle_def)
  have "valid_utf8 (lock_alias ulow lb @ '' ('' @ shortFP (lb_Fingerprint lb) @ '')'')"
    using a s by (intro valid_utf8_append) (simp_all add: valid_utf8_ascii)
  with a show "valid_utf8 (upsert_alias ulow lb cs)" by (simp add: upsert_alias_def)
qed

lemma upsert_wf:
  assumes "list_all wf_Contact cs" "utf8_LockBundle lb" "ascii (lb_Fingerprint lb)" "wf_time now"
  shows "list_all wf_Contact (upsert ulow now lb cs)"
proof (cases "find_index (lock_match lb) cs")
  case None
  have "wf_Contact (new_contact (upsert_alias ulow lb cs) now lb)"
    using assms(2,4) valid_upsert_alias(2) [OF assms(2,3)]
    by (simp add: wf_Contact_def new_contact_def zero_Contact_def utf8_LockBundle_def valid_utf8_ascii)
  with None assms(1) show ?thesis by (simp add: upsert_def)
next
  case (Some i)
  then have i: "i < length cs" by (simp add: find_index_Some)
  then have "wf_Contact (cs ! i)" using assms(1) by (simp add: list_all_length)
  then have "wf_Contact (refresh_contact (lock_alias ulow lb) lb (cs ! i))"
    using assms(2) valid_upsert_alias(1) [OF assms(2,3)]
    by (simp add: wf_Contact_def refresh_contact_def utf8_LockBundle_def)
  with Some i assms(1) show ?thesis by (simp add: upsert_def list_all_length nth_list_update)
qed

lemma validated_fingerprint:
  assumes "ValidateLockBundle P lb = Inr u"
  shows "ascii (lb_Fingerprint lb)"
proof (cases "lb_Fingerprint lb = []")
  case False
  then have "is_ok (hex_decode (lb_Fingerprint lb))"
    using ValidateLockBundle_dest(9) [OF assms] by (auto simp: ValidateFingerprint_def split: if_splits)
  then show ?thesis using hex_ascii by (auto simp: hex_decode_ok_iff ascii_def list_all_iff)
qed simp

definition sealed_lock :: LockBundle where
  "sealed_lock = sample_lock\<lparr>lb_Sig := b64_encode (''pub'' @ CanonicalLockBytes sample_lock)\<rparr>"

lemma sealed_lock_fp: "lb_Fingerprint sealed_lock = Fingerprint toy_prims ''age1pq1bob'' ''pub''"
  by (simp add: sealed_lock_def sample_lock_def)

lemma sealed_lock_valid: "ValidateLockBundle toy_prims sealed_lock = Inr ()" "lb_Sig sealed_lock \<noteq> []"
  "utf8_LockBundle sealed_lock"
proof -
  note s = sealed_lock_def sample_lock_def
  have p: "b64_encode ''pub'' = ''cHVi''" by code_simp
  have c: "CanonicalLockBytes sealed_lock = CanonicalLockBytes sample_lock" by (simp add: CanonicalLockBytes_def s)
  show n: "lb_Sig sealed_lock \<noteq> []" by (simp add: s)
  have b: "b64_decode ''cHVi'' = Inr ''pub''" using b64_decode_encode [of "''pub''"] p by simp
  have "lb_SignPubKey sealed_lock = ''cHVi''" "lb_EncPubKey sealed_lock = ''age1pq1bob''"
      "lb_Sig sealed_lock = b64_encode (''pub'' @ CanonicalLockBytes sample_lock)" "lb_Name sealed_lock = ''Bob''"
      "lb_Alias sealed_lock = ''bob''" "lb_Email sealed_lock = []" "lb_ID sealed_lock = ''IC-1''"
    using p by (simp_all add: s del: b64_encode.simps)
  note fs = this
  have toy: "mldsa_PubUnmarshal toy_prims x = Inr x" "mldsa_Verify toy_prims x m y \<longleftrightarrow> y = x @ m" for x m y
    by (simp_all add: toy_prims_def)
  have vs: "VerifyLockSelfSig toy_prims sealed_lock = Inr ()"
    using n by (simp add: VerifyLockSelfSig_def VerifyFingerprint_def fs c b sealed_lock_fp Verify_def b64_decode_encode toy del: b64_encode.simps)
  have "list_all displayable (runes ''Bob'')" "list_all displayable (runes ''bob'')"
    by (simp_all add: runes_all_ascii displayable_def RuneError_def isBidiOrZeroWidth_def)
  moreover have "ValidateEncPubKey toy_prims ''age1pq1bob'' = Inr ()"
    by (simp add: ValidateEncPubKey_def toy_prims_def HasPrefix_def)
  moreover have "ValidateFingerprint (lb_Fingerprint sealed_lock) = Inr ()"
    unfolding sealed_lock_fp by (rule ValidateFingerprint_ok [OF toy_laws(4)])
  moreover have "ValidateSignPubKey toy_prims ''cHVi'' = Inr ()"
    using b by (simp add: ValidateSignPubKey_def toy_prims_def)
  ultimately show v: "ValidateLockBundle toy_prims sealed_lock = Inr ()"
    using n vs by (simp add: ValidateLockBundle_def NoControl_iff optional_def maxNameLen_def maxAliasLen_def fs)
  have "ascii (lb_Fingerprint sealed_lock)" using v by (rule validated_fingerprint)
  then show "utf8_LockBundle sealed_lock"
    by (simp add: utf8_LockBundle_def fs valid_utf8_ascii plain_ascii b64_plain del: b64_encode.simps)
qed

lemma upsert_fingerprints:
  "map ct_Fingerprint (upsert ulow now lb cs) =
     map ct_Fingerprint cs @ (if list_ex (lock_match lb) cs then [] else [lb_Fingerprint lb])"
proof (cases "find_index (lock_match lb) cs")
  case None
  then have "\<not> list_ex (lock_match lb) cs" by (simp add: find_index_None list_ex_iff)
  with None show ?thesis by (simp add: upsert_def new_contact_def)
next
  case (Some i)
  then have "list_ex (lock_match lb) cs" "i < length cs" using find_index_ex find_index_Some by metis+
  with Some show ?thesis by (simp add: upsert_def map_update refresh_contact_def list_update_same_conv)
qed

text \<open>The fields of a contact that are the user's own.\<close>

definition own_fields :: "Contact \<Rightarrow> Contact" where
  "own_fields c = c\<lparr>ct_ID := [], ct_Alias := [], ct_Email := [], ct_EncPubKey := [], ct_SignPubKey := [], ct_Cloud := True\<rparr>"

lemma upsert_own_fields: "map own_fields (take (length cs) (upsert ulow now lb cs)) = map own_fields cs"
proof (cases "find_index (lock_match lb) cs")
  case (Some i)
  then have "i < length cs" by (simp add: find_index_Some)
  with Some show ?thesis
    by (simp add: upsert_def map_update refresh_contact_def own_fields_def list_update_same_conv)
qed (simp add: upsert_def)

lemma upsert_local:
  assumes "c \<in> set cs" "ct_Fingerprint c \<noteq> lb_Fingerprint lb"
  shows "c \<in> set (upsert ulow now lb cs)"
proof (cases "find_index (lock_match lb) cs")
  case (Some i)
  from assms(1) obtain j where j: "j < length cs" "c = cs ! j" by (auto simp: in_set_conv_nth)
  moreover have "j \<noteq> i" using Some assms(2) j by (auto simp: find_index_Some lock_match_def)
  ultimately show ?thesis using Some by (auto simp: upsert_def in_set_conv_nth intro!: exI [of _ j])
qed (use assms(1) in \<open>simp add: upsert_def\<close>)

lemma upsert_again:
  assumes "\<not> list_ex (lock_match lb) cs"
  shows "find_index (lock_match lb) (upsert ulow now lb cs) = Some (length cs)"
    "upsert ulow now' lb (upsert ulow now lb cs) = cs @ [refresh_contact (lock_alias ulow lb) lb (new_contact (upsert_alias ulow lb cs) now lb)]"
proof -
  have n: "find_index (lock_match lb) cs = None" using assms by (simp add: find_index_None list_ex_iff)
  then have u: "upsert ulow now lb cs = cs @ [new_contact (upsert_alias ulow lb cs) now lb]" by (simp add: upsert_def)
  then show f: "find_index (lock_match lb) (upsert ulow now lb cs) = Some (length cs)"
    using assms by (auto simp: find_index_Some nth_append list_ex_iff new_contact_def lock_match_def)
  show "upsert ulow now' lb (upsert ulow now lb cs) = cs @ [refresh_contact (lock_alias ulow lb) lb (new_contact (upsert_alias ulow lb cs) now lb)]"
    unfolding upsert_def [of ulow now' lb "upsert ulow now lb cs"] f by (simp add: u)
qed

lemma SaveFromLock_stored:
  assumes "Contacts_load path d = Inr cs" "list_all wf_Contact cs" "utf8_LockBundle lb" "wf_time now"
    and "d_fault d SysRead path = None" "SaveFromLock P ulow path now d lb = (d', Inr (alias, updated))"
  shows "Contacts_load path d' = Inr (upsert ulow now lb cs)" "list_all wf_Contact (upsert ulow now lb cs)"
    "alias = upsert_alias ulow lb cs" "updated \<longleftrightarrow> list_ex (lock_match lb) cs" "d_fault d' = d_fault d"
    "ValidateLockBundle P lb = Inr ()" "lb_Sig lb \<noteq> []"
proof -
  show v: "ValidateLockBundle P lb = Inr ()" "lb_Sig lb \<noteq> []"
    using SaveFromLock_refused [of P lb path d ulow now] assms(6) by auto
  show w: "list_all wf_Contact (upsert ulow now lb cs)"
    using upsert_wf [OF assms(2,3) validated_fingerprint [OF v(1)] assms(4)] .
  obtain u where s: "Contacts_save path d (upsert ulow now lb cs) = (d', Inr u)"
      and "alias = upsert_alias ulow lb cs" "updated \<longleftrightarrow> list_ex (lock_match lb) cs"
    using assms(6) unfolding SaveFromLock_upsert [OF v assms(1)]
    by (cases "Contacts_save path d (upsert ulow now lb cs)"; cases "snd (Contacts_save path d (upsert ulow now lb cs))") auto
  then show "alias = upsert_alias ulow lb cs" "updated \<longleftrightarrow> list_ex (lock_match lb) cs" by auto
  show "Contacts_load path d' = Inr (upsert ulow now lb cs)"
    using contacts_file.load_saved [OF w assms(5) s] .
  show "d_fault d' = d_fault d"
    using s WriteFileAtomic_frame(1) by (auto simp: Contacts_save_def split: if_splits)
qed

section \<open>Properties\<close>

text \<open>
  C28. SaveFromLock on a store with contacts cs: it succeeds only for a lock that is validated and
  whose self-signature verifies; then the stored list is the upsert of cs, in which no fingerprint is
  added twice, every contact with another fingerprint is as before, and a refreshed contact keeps
  what is the user's own (nickname, previous keys, names, connection state, date added). In every other case
  the stored list is cs.
\<close>

theorem SaveFromLock_correct:
  assumes "Contacts_load path d = Inr cs" "list_all wf_Contact cs" "utf8_LockBundle lb" "wf_time now"
    and "d_fault d SysRead path = None" "SaveFromLock P ulow path now d lb = (d', r)"
  shows "(\<forall>e. r = Inl e \<longrightarrow> Contacts_load path d' = Inr cs)
    \<and> (\<forall>alias updated. r = Inr (alias, updated) \<longrightarrow>
         ValidateLockBundle P lb = Inr () \<and> VerifyLockSelfSig P lb = Inr ()
       \<and> (updated \<longleftrightarrow> lb_Fingerprint lb \<in> ct_Fingerprint ` set cs)
       \<and> Contacts_load path d' = Inr (upsert ulow now lb cs)
       \<and> map ct_Fingerprint (upsert ulow now lb cs) =
           map ct_Fingerprint cs @ (if updated then [] else [lb_Fingerprint lb])
       \<and> map own_fields (take (length cs) (upsert ulow now lb cs)) = map own_fields cs
       \<and> (\<forall>c\<in>set cs. ct_Fingerprint c \<noteq> lb_Fingerprint lb \<longrightarrow> c \<in> set (upsert ulow now lb cs)))"
proof (cases "ValidateLockBundle P lb = Inr () \<and> lb_Sig lb \<noteq> []")
  case False
  then show ?thesis
    using SaveFromLock_refused [of P lb path d ulow now] assms(1,6) by auto
next
  case True
  then have v: "ValidateLockBundle P lb = Inr ()" "lb_Sig lb \<noteq> []" by auto
  obtain r' where s: "Contacts_save path d (upsert ulow now lb cs) = (d', r')" "is_ok r \<longleftrightarrow> is_ok r'"
      and r: "\<And>x. r = Inr x \<Longrightarrow> x = (upsert_alias ulow lb cs, list_ex (lock_match lb) cs)"
    using assms(6) unfolding SaveFromLock_upsert [OF v assms(1)]
    by (cases "Contacts_save path d (upsert ulow now lb cs)"; cases "snd (Contacts_save path d (upsert ulow now lb cs))") auto
  have "Contacts_load path d' = Inr (case r' of Inl _ \<Rightarrow> cs | Inr _ \<Rightarrow> upsert ulow now lb cs)"
    using contacts_file.transaction [where f = "upsert ulow now lb", OF assms(1) s(1) upsert_wf [OF assms(2,3) validated_fingerprint [OF v(1)] assms(4)] assms(5)] .
  moreover have "list_ex (lock_match lb) cs \<longleftrightarrow> lb_Fingerprint lb \<in> ct_Fingerprint ` set cs"
    unfolding list_ex_iff lock_match_def image_iff by metis
  ultimately show ?thesis
    using s(2) r v ValidateLockBundle_dest(10) [OF v(1)] upsert_local upsert_fingerprints upsert_own_fields
    by (cases r; cases r') auto
qed

lemma sealed_lock_saved:
  "Contacts_load ''c.json'' empty_disk = Inr []"
  "\<exists>d. SaveFromLock toy_prims id ''c.json'' zero_time empty_disk sealed_lock = (d, Inr (upsert_alias id sealed_lock [], False))"
proof -
  show l: "Contacts_load ''c.json'' empty_disk = Inr []"
    by (simp add: Contacts_load_def ReadFile_def empty_disk_def IsNotExist_def)
  have "list_all Contact_marshals (upsert id zero_time sealed_lock [])"
    by (simp add: upsert_def new_contact_def zero_Contact_def Contact_marshals_def)
  then show "\<exists>d. SaveFromLock toy_prims id ''c.json'' zero_time empty_disk sealed_lock = (d, Inr (upsert_alias id sealed_lock [], False))"
    unfolding SaveFromLock_upsert [OF sealed_lock_valid(1,2) l]
    by (simp add: Contacts_save_def WriteFileAtomic_clean empty_disk_def)
qed

theorem SaveFromLock_correct_witness:
  "\<exists>d. snd (SaveFromLock toy_prims id ''c.json'' zero_time empty_disk sealed_lock) = Inr (upsert_alias id sealed_lock [], False)
     \<and> Contacts_load ''c.json'' d = Inr (upsert id zero_time sealed_lock [])"
proof -
  obtain d where d: "SaveFromLock toy_prims id ''c.json'' zero_time empty_disk sealed_lock
      = (d, Inr (upsert_alias id sealed_lock [], False))"
    using sealed_lock_saved(2) by auto
  have "d_fault empty_disk SysRead ''c.json'' = None" by (simp add: empty_disk_def)
  with SaveFromLock_correct [OF sealed_lock_saved(1) _ sealed_lock_valid(3) wf_zero_time(1) _ d] d
  show ?thesis by auto
qed

text \<open>
  Refreshing a contact does not repeat the alias check: when another contact already has the
  alias of a lock, the first SaveFromLock stores the lock under a suffixed alias, but saving the very
  same lock again replaces it by the bare alias, so that two stored contacts with different
  fingerprints share one alias.
\<close>

theorem SaveFromLock_alias_clash:
  assumes "Contacts_load path d = Inr cs" "list_all wf_Contact cs" "utf8_LockBundle lb" "wf_time now"
    and "d_fault d SysRead path = None" "c0 \<in> set cs" "ct_Alias c0 = lock_alias ulow lb"
    and "lb_Fingerprint lb \<notin> ct_Fingerprint ` set cs"
    and "SaveFromLock P ulow path now d lb = (d1, Inr (a1, u1))"
    and "SaveFromLock P ulow path now d1 lb = (d2, Inr (a2, u2))"
  shows "a1 = ct_Alias c0 @ '' ('' @ shortFP (lb_Fingerprint lb) @ '')'' \<and> a2 = ct_Alias c0
    \<and> (\<exists>cs2 c. Contacts_load path d2 = Inr cs2 \<and> c0 \<in> set cs2 \<and> c \<in> set cs2
         \<and> ct_Fingerprint c \<noteq> ct_Fingerprint c0 \<and> ct_Alias c = ct_Alias c0)"
proof -
  have n: "\<not> list_ex (lock_match lb) cs" "list_ex (\<lambda>c. ct_Alias c = lock_alias ulow lb) cs"
      "ct_Fingerprint c0 \<noteq> lb_Fingerprint lb"
    using assms(6,7,8) by (force simp: list_ex_iff lock_match_def)+
  note s1 = SaveFromLock_stored [OF assms(1-5,9)]
  have "d_fault d1 SysRead path = None" using s1(5) assms(5) by simp
  note s2 = SaveFromLock_stored [OF s1(1,2) assms(3,4) this assms(10)]
  have "list_ex (lock_match lb) (upsert ulow now lb cs)" using upsert_again(1) [OF n(1)] find_index_ex by metis
  then have "a2 = lock_alias ulow lb" using s2(3) by (simp add: upsert_alias_def)
  moreover have "a1 = lock_alias ulow lb @ '' ('' @ shortFP (lb_Fingerprint lb) @ '')''"
    using s1(3) n by (simp add: upsert_alias_def)
  moreover obtain c where "Contacts_load path d2 = Inr (cs @ [c])" "ct_Fingerprint c = lb_Fingerprint lb"
      "ct_Alias c = lock_alias ulow lb"
    using s2(1) upsert_again(2) [OF n(1)] by (simp add: refresh_contact_def new_contact_def)
  ultimately show ?thesis using assms(6,7) n(3) by auto
qed

lemma SaveFromLock_clean:
  assumes "Contacts_load path d = Inr cs" "list_all Contact_marshals cs" "marshals now" "\<And>c p. d_fault d c p = None"
    and "ValidateLockBundle P lb = Inr ()" "lb_Sig lb \<noteq> []"
  shows "\<exists>d' r. SaveFromLock P ulow path now d lb = (d', Inr r) \<and> (\<forall>c p. d_fault d' c p = None)"
proof -
  have "Contact_marshals (new_contact a now lb)" for a
    using assms(3) by (simp add: Contact_marshals_def new_contact_def zero_Contact_def)
  moreover have "Contact_marshals (refresh_contact a lb c)" if "Contact_marshals c" for a c
    using that by (simp add: Contact_marshals_def refresh_contact_def)
  ultimately have "list_all Contact_marshals (upsert ulow now lb cs)"
    using assms(2) by (auto simp: upsert_def list_all_length nth_list_update nth_append find_index_Some split: option.split)
  then show ?thesis
    unfolding SaveFromLock_upsert [OF assms(5,6,1)]
    by (simp add: Contacts_save_def WriteFileAtomic_clean assms(4))
qed

theorem SaveFromLock_alias_clash_witness:
  "\<exists>d d1 d2 a1 u1 c0 cs2 c. SaveFromLock toy_prims id ''c.json'' zero_time d sealed_lock = (d1, Inr (a1, u1))
     \<and> SaveFromLock toy_prims id ''c.json'' zero_time d1 sealed_lock = (d2, Inr (ct_Alias c0, True))
     \<and> Contacts_load ''c.json'' d2 = Inr cs2 \<and> c0 \<in> set cs2 \<and> c \<in> set cs2
     \<and> ct_Fingerprint c \<noteq> ct_Fingerprint c0 \<and> ct_Alias c = ct_Alias c0"
proof -
  let ?P = toy_prims and ?p = "''c.json''" and ?lb = sealed_lock
  define c0 where "c0 = zero_Contact\<lparr>ct_Alias := lock_alias id ?lb\<rparr>"
  have va: "valid_utf8 (lock_alias id ?lb)"
    using valid_upsert_alias(1) [OF sealed_lock_valid(3) validated_fingerprint [OF sealed_lock_valid(1)]] .
  then have w: "list_all wf_Contact [c0]" "list_all Contact_marshals [c0]"
    by (simp_all add: c0_def wf_Contact_def Contact_marshals_def zero_Contact_def valid_utf8_ascii)
  obtain d where d: "Contacts_save ?p empty_disk [c0] = (d, Inr ())" and f: "\<And>c p. d_fault d c p = None"
    using w(2) by (simp add: Contacts_save_def WriteFileAtomic_clean empty_disk_def)
  have "d_fault empty_disk SysRead ?p = None" by (simp add: empty_disk_def)
  from contacts_file.load_saved [OF w(1) this d] have l: "Contacts_load ?p d = Inr [c0]" .
  note z = wf_zero_time
  obtain d1 a1 u1 where s1: "SaveFromLock ?P id ?p zero_time d ?lb = (d1, Inr (a1, u1))"
      and f1: "\<And>c p. d_fault d1 c p = None"
    using SaveFromLock_clean [OF l w(2) z(2) f sealed_lock_valid(1,2)] by force
  note st1 = SaveFromLock_stored [OF l w(1) sealed_lock_valid(3) z(1) f s1]
  have nf: "\<not> list_ex (lock_match ?lb) [c0]"
    using length_Fingerprint [OF toy_laws(4), of "''age1pq1bob''" "''pub''"]
    by (auto simp: c0_def lock_match_def zero_Contact_def sealed_lock_fp)
  then have m: "list_all Contact_marshals (upsert id zero_time ?lb [c0])"
    using w(2) by (simp add: upsert_def lock_match_def new_contact_def Contact_marshals_def zero_Contact_def)
  obtain d2 a2 u2 where s2: "SaveFromLock ?P id ?p zero_time d1 ?lb = (d2, Inr (a2, u2))"
    using SaveFromLock_clean [OF st1(1) m z(2) f1 sealed_lock_valid(1,2)] by force
  have "u2" using SaveFromLock_stored(4) [OF st1(1,2) sealed_lock_valid(3) z(1) f1 s2] upsert_again(1) [OF nf] find_index_ex by metis
  moreover have "lb_Fingerprint ?lb \<notin> ct_Fingerprint ` set [c0]" "c0 \<in> set [c0]" "ct_Alias c0 = lock_alias id ?lb"
    using nf by (simp_all add: lock_match_def c0_def)
  note clash = SaveFromLock_alias_clash [OF l w(1) sealed_lock_valid(3) z(1) f this(2,3,1) s1 s2]
  ultimately have "SaveFromLock ?P id ?p zero_time d1 ?lb = (d2, Inr (ct_Alias c0, True))" using s2 by simp
  with clash s1 show ?thesis by blast
qed

end
