(* ===== verification/Icfx_Keystore.thy ===== *)
theory Icfx_Keystore
  imports Icfx_Validate Icfx_Files
begin

text \<open>
  Package keystore: the Keystore interface, the file backend and the hardware-key decorator. A Go
  interface value is a record of its methods over a state of its own and the disk; HasKeys and
  Clear are methods like the others, the runtime assertion to HWChallengeProvider is the optional
  method \<open>ks_Challenge\<close>. The randomness a method may draw is its first argument. The passphrase
  callback is a value: it answers every call alike, as its contract demands. The OS keychain
  backends are in \<open>Icfx_Keychain\<close>.

  The locale \<open>keystore\<close> is what the identity layer relies on: keys that were stored are the keys
  that are loaded. It is interpreted on the file backend and on the decorator around it.
\<close>

type_synonym random = "nat \<Rightarrow> bytes"

record 's Keystore =
  ks_StoreEncryptionIdentity :: "random \<Rightarrow> bytes \<Rightarrow> bytes \<Rightarrow> 's \<times> disk \<Rightarrow> ('s \<times> disk) \<times> unit result"
  ks_LoadEncryptionIdentity :: "random \<Rightarrow> bytes \<Rightarrow> 's \<times> disk \<Rightarrow> ('s \<times> disk) \<times> bytes result"
  ks_StoreSigningKey :: "random \<Rightarrow> bytes \<Rightarrow> bytes \<Rightarrow> 's \<times> disk \<Rightarrow> ('s \<times> disk) \<times> unit result"
  ks_LoadSigningKey :: "random \<Rightarrow> bytes \<Rightarrow> 's \<times> disk \<Rightarrow> ('s \<times> disk) \<times> bytes result"
  ks_HasKeys :: "bytes \<Rightarrow> 's \<times> disk \<Rightarrow> bool"
  ks_Clear :: "bytes \<Rightarrow> 's \<times> disk \<Rightarrow> ('s \<times> disk) \<times> unit result"
  ks_Challenge :: "(random \<Rightarrow> bytes \<Rightarrow> 's \<times> disk \<Rightarrow> ('s \<times> disk) \<times> bytes result) option"

section \<open>File backend\<close>

text \<open>
  The cache has one slot: \<open>fs_resolved\<close> says that it was filled, \<open>fs_cache\<close> is the sealed
  passphrase, \<open>None\<close> for the nil enclave of plaintext mode. A nil or empty slice is \<open>[]\<close>.
\<close>

record FileStore =
  fs_dir :: bytes
  fs_passphraseFunc :: "bytes result option"
  fs_allowPlaintextMigration :: bool
  fs_cache :: "bytes option"
  fs_resolved :: bool

definition NewFileStoreWithDir :: "bytes \<Rightarrow> FileStore" where
  "NewFileStoreWithDir dir = \<lparr>fs_dir = dir, fs_passphraseFunc = None, fs_allowPlaintextMigration = False,
     fs_cache = None, fs_resolved = False\<rparr>"

definition NewEncryptedFileStoreWithDir :: "bytes \<Rightarrow> bytes result \<Rightarrow> FileStore" where
  "NewEncryptedFileStoreWithDir dir fn = (NewFileStoreWithDir dir)\<lparr>fs_passphraseFunc := Some fn\<rparr>"

definition AllowPlaintextMigration :: "FileStore \<Rightarrow> FileStore" where
  "AllowPlaintextMigration f = f\<lparr>fs_allowPlaintextMigration := True\<rparr>"

definition computePassphraseForName :: "FileStore \<Rightarrow> bytes result" where
  "computePassphraseForName f = (case fs_passphraseFunc f of Some r \<Rightarrow> r | None \<Rightarrow> Inr [])"

definition cacheStore :: "prims \<Rightarrow> FileStore \<Rightarrow> bytes \<Rightarrow> FileStore" where
  "cacheStore P f pass = f\<lparr>fs_resolved := True, fs_cache := (if pass = [] then None else NewEnclave P pass)\<rparr>"

definition resolvePassphraseForName :: "prims \<Rightarrow> FileStore \<Rightarrow> FileStore \<times> bytes result" where
  "resolvePassphraseForName P f =
     (if fs_resolved f then
        (case fs_cache f of None \<Rightarrow> (f, Inr [])
         | Some e \<Rightarrow> (f, wrapping ''opening cached passphrase: %w'' (Enclave_Open P e)))
      else (case computePassphraseForName f of
          Inl e \<Rightarrow> (f, Inl e)
        | Inr pass \<Rightarrow> (cacheStore P f pass, Inr pass)))"

definition isAgeEncrypted :: "bytes \<Rightarrow> bool" where
  "isAgeEncrypted data \<longleftrightarrow> HasPrefix data ''age-encryption.org''"

definition fs_writeFile :: "prims \<Rightarrow> random \<Rightarrow> bytes \<Rightarrow> bytes \<Rightarrow> FileStore \<times> disk \<Rightarrow> (FileStore \<times> disk) \<times> unit result" where
  "fs_writeFile P rnd filename data s =
     (case s of (f, d) \<Rightarrow>
      (case wrapping ''creating keys directory: %w'' (os_MkdirAll d (fs_dir f)) of Inl e \<Rightarrow> ((f, d), Inl e)
       | Inr _ \<Rightarrow>
       (case resolvePassphraseForName P f of
          (f', Inl e) \<Rightarrow> ((f', d), Inl (Wrap ''resolving passphrase: %w'' e))
        | (f', Inr pass) \<Rightarrow>
          (case (if pass \<noteq> [] then wrapping ''encrypting key file %s: %w'' (EncryptWithPassphraseBytes P (rnd 0) data pass)
                 else Inr data) of
             Inl e \<Rightarrow> ((f', d), Inl e)
           | Inr data' \<Rightarrow>
             (case os_WriteFile d (filepath_Join (fs_dir f) filename) data' of (d', r) \<Rightarrow> ((f', d'), r))))))"

definition fs_readFile :: "prims \<Rightarrow> bytes \<Rightarrow> FileStore \<times> disk \<Rightarrow> (FileStore \<times> disk) \<times> bytes result" where
  "fs_readFile P filename s =
     (case s of (f, d) \<Rightarrow>
      (case wrapping ''reading key file %s: %w'' (ReadFile d (filepath_Join (fs_dir f) filename)) of Inl e \<Rightarrow> ((f, d), Inl e)
       | Inr data \<Rightarrow>
       (case resolvePassphraseForName P f of
          (f', Inl e) \<Rightarrow> ((f', d), Inl (Wrap ''resolving passphrase: %w'' e))
        | (f', Inr pass) \<Rightarrow>
          ((f', d),
           if pass \<noteq> [] then
             if isAgeEncrypted data
             then wrapping ''decrypting key file %s (wrong passphrase?): %w'' (DecryptWithPassphraseBytes P data pass)
             else if \<not> fs_allowPlaintextMigration f
             then Inl (Errorf ''key file %s is not encrypted but the store is in encrypted mode'')
             else Inr data
           else Inr data))))"

definition FileStore_StoreEncryptionIdentity where
  "FileStore_StoreEncryptionIdentity P rnd name ident s = fs_writeFile P rnd (name @ ''.enc'') ident s"

definition FileStore_LoadEncryptionIdentity where
  "FileStore_LoadEncryptionIdentity P name s =
     sbind (fs_readFile P (name @ ''.enc'') s) (\<lambda>data s'. (s', Inr (TrimSpace data)))"

definition FileStore_StoreSigningKey where
  "FileStore_StoreSigningKey P rnd name key s = fs_writeFile P rnd (name @ ''.sign'') (b64_encode key) s"

definition FileStore_LoadSigningKey where
  "FileStore_LoadSigningKey P name s =
     sbind (fs_readFile P (name @ ''.sign'') s) (\<lambda>data s'. (s', b64_decode (TrimSpace data)))"

definition FileStore_HasKeys :: "bytes \<Rightarrow> FileStore \<times> disk \<Rightarrow> bool" where
  "FileStore_HasKeys name s =
     (case s of (f, d) \<Rightarrow> stat_ok d (filepath_Join (fs_dir f) (name @ ''.enc''))
        \<and> stat_ok d (filepath_Join (fs_dir f) (name @ ''.sign'')))"

text \<open>os.Remove where a missing file is no error.\<close>

definition remove_present :: "string \<Rightarrow> disk \<Rightarrow> bytes \<Rightarrow> disk \<times> unit result" where
  "remove_present fmt d path = (case os_Remove d path of (d', r) \<Rightarrow>
     (d', if IsNotExist r then Inr () else wrapping fmt r))"

definition FileStore_Clear :: "bytes \<Rightarrow> FileStore \<times> disk \<Rightarrow> (FileStore \<times> disk) \<times> unit result" where
  "FileStore_Clear name s =
     (case s of (f, d) \<Rightarrow>
      (case remove_present ''removing %s.enc: %w'' d (filepath_Join (fs_dir f) (name @ ''.enc'')) of
         (d1, Inl e) \<Rightarrow> ((f, d1), Inl e)
       | (d1, Inr _) \<Rightarrow>
         (case remove_present ''removing %s.sign: %w'' d1 (filepath_Join (fs_dir f) (name @ ''.sign'')) of
            (d2, r) \<Rightarrow> ((f, d2), r))))"

text \<open>
  ListNames over the entries os.ReadDir returned (name and IsDir). The names come out of a Go map:
  each once, here in the order of first sight.
\<close>

definition TrimSuffix :: "bytes \<Rightarrow> bytes \<Rightarrow> bytes" where
  "TrimSuffix s suf = (if HasSuffix s suf then take (length s - length suf) s else s)"

definition FileStore_ListNames :: "(bytes \<times> bool) list result \<Rightarrow> bytes list result" where
  "FileStore_ListNames entries =
     (if IsNotExist entries then Inr []
      else andthen (wrapping ''reading keys directory: %w'' entries) (\<lambda>es.
        Inr (remdups (map (\<lambda>e. TrimSuffix (TrimSuffix (fst e) ''.enc'') ''.sign'')
          (filter (\<lambda>e. \<not> snd e \<and> \<not> HasSuffix (fst e) ''.hwchallenge'') es)))))"

definition FileStore_Keystore :: "prims \<Rightarrow> FileStore Keystore" where
  "FileStore_Keystore P =
     \<lparr>ks_StoreEncryptionIdentity = FileStore_StoreEncryptionIdentity P,
      ks_LoadEncryptionIdentity = (\<lambda>rnd. FileStore_LoadEncryptionIdentity P),
      ks_StoreSigningKey = FileStore_StoreSigningKey P,
      ks_LoadSigningKey = (\<lambda>rnd. FileStore_LoadSigningKey P),
      ks_HasKeys = FileStore_HasKeys, ks_Clear = FileStore_Clear, ks_Challenge = None\<rparr>"

section \<open>Hardware-key decorator\<close>

definition challengeFileSuffix :: bytes where "challengeFileSuffix = ''.hwchallenge''"

definition challengeLength :: nat where "challengeLength = 32"

record 's HardwareKeyDecorator =
  hd_inner :: 's
  hd_hwKey :: "bytes \<Rightarrow> bytes result"
  hd_challengeDir :: bytes
  hd_passFn :: "bytes result option"
  hd_challenges :: "bytes \<rightharpoonup> bytes"

definition NewHardwareKeyDecorator where
  "NewHardwareKeyDecorator inner hwKey challengeDir passFn =
     \<lparr>hd_inner = inner, hd_hwKey = hwKey, hd_challengeDir = challengeDir, hd_passFn = passFn, hd_challenges = Map.empty\<rparr>"

definition ChallengePath :: "'s HardwareKeyDecorator \<Rightarrow> bytes \<Rightarrow> bytes" where
  "ChallengePath h name = filepath_Join (hd_challengeDir h) (name @ challengeFileSuffix)"

text \<open>crypto/rand fills the whole buffer.\<close>

definition rand_bytes :: "bytes \<Rightarrow> nat \<Rightarrow> bytes" where
  "rand_bytes r n = take n (r @ replicate n (CHR 0x00))"

definition loadOrCreateChallengeLocked ::
    "random \<Rightarrow> bytes \<Rightarrow> 's HardwareKeyDecorator \<times> disk \<Rightarrow> ('s HardwareKeyDecorator \<times> disk) \<times> bytes result" where
  "loadOrCreateChallengeLocked rnd name s =
     (case s of (h, d) \<Rightarrow>
      (case hd_challenges h name of Some c \<Rightarrow> ((h, d), Inr c)
       | None \<Rightarrow>
       (case ReadFile d (ChallengePath h name) of
          Inr data \<Rightarrow>
            if length data < 16 then ((h, d), Inl (Errorf ''challenge file %s is too short (%d bytes)''))
            else ((h\<lparr>hd_challenges := (hd_challenges h)(name \<mapsto> data)\<rparr>, d), Inr data)
        | Inl e \<Rightarrow>
            if e \<noteq> ErrNotExist then ((h, d), Inl (Wrap ''reading challenge file: %w'' e))
            else (case wrapping ''creating challenge directory: %w'' (os_MkdirAll d (hd_challengeDir h)) of
                Inl e \<Rightarrow> ((h, d), Inl e)
              | Inr _ \<Rightarrow>
                let challenge = rand_bytes (rnd 0) challengeLength in
                (case os_WriteFile d (ChallengePath h name) challenge of
                   (d', Inl e) \<Rightarrow> ((h, d'), Inl (Wrap ''writing challenge file: %w'' e))
                 | (d', Inr _) \<Rightarrow> ((h\<lparr>hd_challenges := (hd_challenges h)(name \<mapsto> challenge)\<rparr>, d'), Inr challenge))))))"

definition EnsureChallenge where "EnsureChallenge rnd name s = loadOrCreateChallengeLocked rnd name s"

definition HardwareKeyDecorator_Challenge where
  "HardwareKeyDecorator_Challenge rnd name s = loadOrCreateChallengeLocked rnd name s"

definition RemoveChallenge ::
    "bytes \<Rightarrow> 's HardwareKeyDecorator \<times> disk \<Rightarrow> ('s HardwareKeyDecorator \<times> disk) \<times> unit result" where
  "RemoveChallenge name s =
     (case s of (h, d) \<Rightarrow>
      let h' = h\<lparr>hd_challenges := (hd_challenges h)(name := None)\<rparr> in
      (case remove_present ''removing challenge file: %w'' d (ChallengePath h name) of (d', r) \<Rightarrow> ((h', d'), r)))"

definition WriteChallenge ::
    "bytes \<Rightarrow> bytes \<Rightarrow> 's HardwareKeyDecorator \<times> disk \<Rightarrow> ('s HardwareKeyDecorator \<times> disk) \<times> unit result" where
  "WriteChallenge name challenge s =
     (case s of (h, d) \<Rightarrow>
      if length challenge < 16 then ((h, d), Inl (Errorf ''challenge too short (%d bytes)''))
      else case wrapping ''creating challenge directory: %w'' (os_MkdirAll d (hd_challengeDir h)) of
          Inl e \<Rightarrow> ((h, d), Inl e)
        | Inr _ \<Rightarrow>
          (case os_WriteFile d (ChallengePath h name) challenge of
             (d', Inl e) \<Rightarrow> ((h, d'), Inl (Wrap ''writing challenge file: %w'' e))
           | (d', Inr _) \<Rightarrow> ((h\<lparr>hd_challenges := (hd_challenges h)(name \<mapsto> challenge)\<rparr>, d'), Inr ())))"

definition derivePassphrase ::
    "prims \<Rightarrow> random \<Rightarrow> bytes \<Rightarrow> 's HardwareKeyDecorator \<times> disk \<Rightarrow> ('s HardwareKeyDecorator \<times> disk) \<times> bytes result" where
  "derivePassphrase P rnd name s =
     (case hd_passFn (fst s) of None \<Rightarrow> (s, Inl (Errorf ''hardware decorator requires a passphrase function''))
      | Some passFn \<Rightarrow>
        sbind (loadOrCreateChallengeLocked rnd name s) (\<lambda>challenge s'.
          (s', andthen (wrapping ''getting passphrase: %w'' passFn) (\<lambda>pass.
               andthen (wrapping ''hardware challenge-response (%s): %w'' (hd_hwKey (fst s) challenge)) (\<lambda>response.
               andthen (DeriveHardwareKEKBytes P pass response) (\<lambda>kek. Inr (hex_encode kek)))))))"

text \<open>A call of the inner keystore, which has its own part of the state and shares the disk.\<close>

definition inner_call ::
    "('s \<times> disk \<Rightarrow> ('s \<times> disk) \<times> 'a result) \<Rightarrow> 's HardwareKeyDecorator \<times> disk \<Rightarrow> ('s HardwareKeyDecorator \<times> disk) \<times> 'a result" where
  "inner_call m s = (case s of (h, d) \<Rightarrow> (case m (hd_inner h, d) of ((i, d'), r) \<Rightarrow> ((h\<lparr>hd_inner := i\<rparr>, d'), r)))"

definition inner_random :: "random \<Rightarrow> random" where "inner_random rnd = (\<lambda>n. rnd (n + 2))"

definition HW_StoreEncryptionIdentity where
  "HW_StoreEncryptionIdentity P K rnd name ident s =
     sbind (derivePassphrase P rnd name s) (\<lambda>pass s.
     sbind (s, wrapping ''encrypting encryption identity: %w'' (EncryptWithPassphraseBytes P (rnd 1) ident pass)) (\<lambda>ciphertext s.
     inner_call (ks_StoreEncryptionIdentity K (inner_random rnd) name (b64_encode ciphertext)) s))"

definition HW_LoadEncryptionIdentity where
  "HW_LoadEncryptionIdentity P K rnd name s =
     sbind (inner_call (ks_LoadEncryptionIdentity K (inner_random rnd) name) s) (\<lambda>encoded s.
     sbind (s, wrapping ''decoding encryption identity ciphertext: %w'' (b64_decode encoded)) (\<lambda>ciphertext s.
     sbind (derivePassphrase P rnd name s) (\<lambda>pass s.
     (s, wrapping ''decrypting encryption identity (wrong passphrase or hardware key?): %w''
           (DecryptWithPassphraseBytes P ciphertext pass)))))"

definition HW_StoreSigningKey where
  "HW_StoreSigningKey P K rnd name key s =
     sbind (derivePassphrase P rnd name s) (\<lambda>pass s.
     sbind (s, wrapping ''encrypting signing key: %w'' (EncryptWithPassphraseBytes P (rnd 1) key pass)) (\<lambda>ciphertext s.
     inner_call (ks_StoreSigningKey K (inner_random rnd) name ciphertext) s))"

definition HW_LoadSigningKey where
  "HW_LoadSigningKey P K rnd name s =
     sbind (inner_call (ks_LoadSigningKey K (inner_random rnd) name) s) (\<lambda>ciphertext s.
     sbind (derivePassphrase P rnd name s) (\<lambda>pass s.
     (s, wrapping ''decrypting signing key (wrong passphrase or hardware key?): %w''
           (DecryptWithPassphraseBytes P ciphertext pass))))"

definition HW_HasKeys where
  "HW_HasKeys K name s = ks_HasKeys K name (hd_inner (fst s), snd s)"

definition HW_Clear where
  "HW_Clear K name s = sbind (inner_call (ks_Clear K name) s) (\<lambda>_ s. RemoveChallenge name s)"

definition HardwareKeyDecorator_Keystore :: "prims \<Rightarrow> 's Keystore \<Rightarrow> 's HardwareKeyDecorator Keystore" where
  "HardwareKeyDecorator_Keystore P K =
     \<lparr>ks_StoreEncryptionIdentity = HW_StoreEncryptionIdentity P K,
      ks_LoadEncryptionIdentity = HW_LoadEncryptionIdentity P K,
      ks_StoreSigningKey = HW_StoreSigningKey P K,
      ks_LoadSigningKey = HW_LoadSigningKey P K,
      ks_HasKeys = HW_HasKeys K, ks_Clear = HW_Clear K,
      ks_Challenge = Some HardwareKeyDecorator_Challenge\<rparr>"

section \<open>The contract\<close>

text \<open>
  What the identity layer relies on: after both keys of a name were stored, both are loaded as they
  were stored. The invariant is about the keystore's own memory and not about the content of files.
\<close>

locale keystore =
  fixes K :: "'s Keystore"
    and ksinv :: "'s \<times> disk \<Rightarrow> bool"
    and okname :: "bytes \<Rightarrow> bool"
    and okenc :: "bytes \<Rightarrow> bool"
  assumes keys_kept: "ksinv s \<Longrightarrow> okname n \<Longrightarrow> okenc k \<Longrightarrow>
      ks_StoreEncryptionIdentity K r1 n k s = (s1, Inr u1) \<Longrightarrow> ks_StoreSigningKey K r2 n j s1 = (s2, Inr u2) \<Longrightarrow>
      ksinv s2 \<and> (\<exists>s3 s4. ks_LoadEncryptionIdentity K r3 n s2 = (s3, Inr k) \<and> ks_LoadSigningKey K r4 n s3 = (s4, Inr j))"
    and inv_files: "ksinv (i, d) \<Longrightarrow> ksinv (i, d\<lparr>d_files := F\<rparr>)"

section \<open>The file backend keeps it\<close>

definition no_read_faults :: "disk \<Rightarrow> bool" where
  "no_read_faults d \<longleftrightarrow> (\<forall>p. d_fault d SysRead p = None)"

text \<open>The cache, once filled, holds what the callback answers.\<close>

definition cache_ok :: "prims \<Rightarrow> FileStore \<Rightarrow> bool" where
  "cache_ok P f \<longleftrightarrow> (fs_resolved f \<longrightarrow> (case fs_cache f of None \<Rightarrow> computePassphraseForName f = Inr []
     | Some e \<Rightarrow> (\<exists>pass. pass \<noteq> [] \<and> computePassphraseForName f = Inr pass \<and> Enclave_Open P e = Inr pass)))"

definition fs_inv :: "prims \<Rightarrow> FileStore \<times> disk \<Rightarrow> bool" where
  "fs_inv P s \<longleftrightarrow> scrypt_correct P \<and> age_framed P \<and> enclave_correct P \<and> cache_ok P (fst s) \<and> no_read_faults (snd s)"

text \<open>Two states of one store: only the cache may differ.\<close>

definition same_store :: "FileStore \<Rightarrow> FileStore \<Rightarrow> bool" where
  "same_store f f' \<longleftrightarrow> fs_dir f' = fs_dir f \<and> fs_passphraseFunc f' = fs_passphraseFunc f
     \<and> fs_allowPlaintextMigration f' = fs_allowPlaintextMigration f"

lemma same_store_refl [simp]: "same_store f f" by (simp add: same_store_def)

lemma same_store_pass: "same_store f f' \<Longrightarrow> computePassphraseForName f' = computePassphraseForName f"
  by (simp add: same_store_def computePassphraseForName_def)

lemma resolve_passphrase:
  assumes "cache_ok P f" "enclave_correct P"
  shows "\<exists>f'. resolvePassphraseForName P f = (f', computePassphraseForName f) \<and> cache_ok P f' \<and> same_store f f'"
proof (cases "fs_resolved f")
  case True
  with assms(1) show ?thesis
    by (auto simp: resolvePassphraseForName_def cache_ok_def split: option.splits)
next
  case False
  show ?thesis
  proof (cases "computePassphraseForName f")
    case (Inl e)
    with False assms(1) show ?thesis by (simp add: resolvePassphraseForName_def)
  next
    case (Inr pass)
    let ?f = "cacheStore P f pass"
    have s: "same_store f ?f" by (simp add: same_store_def cacheStore_def)
    have "cache_ok P ?f"
    proof (cases "pass = []")
      case True
      then show ?thesis using same_store_pass [OF s] Inr by (simp add: cache_ok_def cacheStore_def)
    next
      case False
      then obtain e where "NewEnclave P pass = Some e" "Enclave_Open P e = Inr pass"
        using assms(2) by (auto simp: enclave_correct_def)
      with False show ?thesis using same_store_pass [OF s] Inr by (simp add: cache_ok_def cacheStore_def)
    qed
    with False Inr s show ?thesis by (simp add: resolvePassphraseForName_def)
  qed
qed

lemma scrypt_roundtrip:
  assumes "scrypt_correct P" "EncryptWithPassphraseBytes P rnd data pass = Inr ct"
  shows "DecryptWithPassphraseBytes P ct pass = Inr data"
proof -
  from assms(2) obtain r where "NewScryptRecipient P pass = Inr r" "age_Encrypt P rnd [r] data = Inr ct"
    by (auto simp: EncryptWithPassphraseBytes_def)
  with assms(1) obtain i where "NewScryptIdentity P pass = Inr i" "age_Decrypt P i ct = Inr (data, None)"
    unfolding scrypt_correct_def by blast
  then show ?thesis by (simp add: DecryptWithPassphraseBytes_def read_all_def)
qed

text \<open>What a key file holds, as the store would read it.\<close>

definition holds :: "prims \<Rightarrow> FileStore \<Rightarrow> disk \<Rightarrow> bytes \<Rightarrow> bytes \<Rightarrow> bool" where
  "holds P f d fn data \<longleftrightarrow> (\<exists>raw pass. d_files d (filepath_Join (fs_dir f) fn) = Some raw \<and> computePassphraseForName f = Inr pass
     \<and> (if pass = [] then raw = data else isAgeEncrypted raw \<and> DecryptWithPassphraseBytes P raw pass = Inr data))"

lemma holds_same: "same_store f f' \<Longrightarrow> holds P f' d fn data = holds P f d fn data"
  by (simp add: holds_def same_store_pass) (simp add: same_store_def)

lemma fs_readFile_holds:
  assumes "fs_inv P (f, d)" "holds P f d fn data"
  shows "\<exists>f'. fs_readFile P fn (f, d) = ((f', d), Inr data) \<and> fs_inv P (f', d) \<and> same_store f f'"
proof -
  obtain f' where f': "resolvePassphraseForName P f = (f', computePassphraseForName f)" "cache_ok P f'" "same_store f f'"
    using resolve_passphrase assms(1) by (fastforce simp: fs_inv_def)
  from assms(2) obtain raw pass where r: "d_files d (filepath_Join (fs_dir f) fn) = Some raw" "computePassphraseForName f = Inr pass"
      "if pass = [] then raw = data else isAgeEncrypted raw \<and> DecryptWithPassphraseBytes P raw pass = Inr data"
    by (auto simp: holds_def)
  have "ReadFile d (filepath_Join (fs_dir f) fn) = Inr raw"
    using r(1) assms(1) by (simp add: ReadFile_def fs_inv_def no_read_faults_def)
  with r f' assms(1) show ?thesis
    by (auto simp: fs_readFile_def fs_inv_def split: if_splits)
qed

lemma fs_writeFile_holds:
  assumes "fs_inv P (f, d)" "fs_writeFile P rnd fn data (f, d) = (s', Inr u)"
  shows "\<exists>f' raw. s' = (f', d\<lparr>d_files := (d_files d)(filepath_Join (fs_dir f) fn \<mapsto> raw)\<rparr>) \<and> fs_inv P s' \<and> same_store f f'
     \<and> holds P f' (snd s') fn data"
proof -
  obtain f' where f': "resolvePassphraseForName P f = (f', computePassphraseForName f)" "cache_ok P f'" "same_store f f'"
    using resolve_passphrase assms(1) by (fastforce simp: fs_inv_def)
  from assms(2) f' obtain pass raw where p: "computePassphraseForName f = Inr pass"
      "(if pass \<noteq> [] then wrapping ''encrypting key file %s: %w'' (EncryptWithPassphraseBytes P (rnd 0) data pass) else Inr data) = Inr raw"
      "s' = (f', d\<lparr>d_files := (d_files d)(filepath_Join (fs_dir f) fn \<mapsto> raw)\<rparr>)"
    by (cases "computePassphraseForName f")
      (auto simp: fs_writeFile_def os_WriteFile_def split: sum.splits option.splits)
  have "holds P f' (snd s') fn data"
  proof (cases "pass = []")
    case True
    then show ?thesis using p same_store_pass [OF f'(3)] f'(3) by (simp add: holds_def same_store_def)
  next
    case False
    then have e: "EncryptWithPassphraseBytes P (rnd 0) data pass = Inr raw" using p(2) by simp
    then have "isAgeEncrypted raw" using assms(1)
      by (auto simp: fs_inv_def age_framed_def isAgeEncrypted_def EncryptWithPassphraseBytes_def)
    moreover have "DecryptWithPassphraseBytes P raw pass = Inr data"
      using scrypt_roundtrip [OF _ e] assms(1) by (simp add: fs_inv_def)
    ultimately show ?thesis using False p same_store_pass [OF f'(3)] f'(3) by (simp add: holds_def same_store_def)
  qed
  with p(3) f' assms(1) show ?thesis by (auto simp: fs_inv_def no_read_faults_def)
qed

lemma holds_other:
  "filepath_Join (fs_dir f) fn \<noteq> q \<Longrightarrow> holds P f (d\<lparr>d_files := (d_files d)(q := v)\<rparr>) fn data = holds P f d fn data"
  by (simp add: holds_def)

lemma name_component:
  assumes "ValidateName n = Inr ()" "CHR ''/'' \<notin> set ext"  "2 < length ext"
  shows "component_ok (n @ ext)"
proof -
  have "n \<noteq> []" "CHR ''/'' \<notin> set n"
    using assms(1) by (auto simp: ValidateName_def ContainsAny_def list_ex_iff split: if_splits)
  moreover have "n @ ext \<noteq> ''.''" "n @ ext \<noteq> ''..''"
    using assms(3) by (metis length_append add_leD2 length_Cons list.size(3) not_less numeral_2_eq_2 One_nat_def le_eq_less_or_eq Suc_leI Suc_n_not_le_n)+
  ultimately show ?thesis using assms(2) by (simp add: component_ok_def)
qed

lemma TrimSpace_b64: "TrimSpace (b64_encode b) = b64_encode b"
proof -
  have "\<not> is_space (of_char c)" if "c \<in> set (b64_encode b)" for c
    using b64_char_range [OF b64_encode_chars [OF that]] by (auto simp: is_space_def)
  then show ?thesis
    using runes_all_ascii [OF plain_ascii [OF b64_plain [of b]]]
    by (intro TrimSpace_id) (auto simp: hd_map last_map)
qed

text \<open>After both keys of a name were stored, both files hold them, whatever the state of the cache.\<close>

lemma file_keys_held:
  assumes i: "fs_inv P (f, d)" and n: "ValidateName n = Inr ()"
    and e: "FileStore_StoreEncryptionIdentity P r1 n k (f, d) = (s1, Inr u1)"
    and g: "FileStore_StoreSigningKey P r2 n j s1 = (s2, Inr u2)"
  shows "\<exists>f2 d2. s2 = (f2, d2) \<and> fs_inv P (f2, d2) \<and> same_store f f2
     \<and> holds P f2 d2 (n @ ''.enc'') k \<and> holds P f2 d2 (n @ ''.sign'') (b64_encode j)"
proof -
  from fs_writeFile_holds [OF i e [unfolded FileStore_StoreEncryptionIdentity_def]] obtain f1 d1 where
      1: "s1 = (f1, d1)" "fs_inv P (f1, d1)" "same_store f f1" "holds P f1 d1 (n @ ''.enc'') k" by auto
  from fs_writeFile_holds [OF 1(2) g [unfolded FileStore_StoreSigningKey_def 1(1)]] obtain f2 raw where
      2: "s2 = (f2, d1\<lparr>d_files := (d_files d1)(filepath_Join (fs_dir f1) (n @ ''.sign'') \<mapsto> raw)\<rparr>)" "fs_inv P s2" "same_store f1 f2"
      "holds P f2 (snd s2) (n @ ''.sign'') (b64_encode j)" by auto
  have "component_ok (n @ ''.enc'')" "component_ok (n @ ''.sign'')" using n by (intro name_component; simp)+
  then have "filepath_Join (fs_dir f1) (n @ ''.enc'') \<noteq> filepath_Join (fs_dir f1) (n @ ''.sign'')"
    by (simp add: filepath_Join_component)
  then have "holds P f2 (snd s2) (n @ ''.enc'') k"
    using 1(4) holds_same [OF 2(3)] holds_other [of f1 "n @ ''.enc''"] by (simp add: 2(1))
  moreover have "same_store f f2" using 1(3) 2(3) by (simp add: same_store_def)
  ultimately show ?thesis using 2 by (cases s2) simp
qed

text \<open>A store of the same directory and passphrase reads them back, with its cache filled or not.\<close>

lemma file_keys_read:
  assumes i: "fs_inv P (f, d)" and k: "TrimSpace k = k"
    and h: "holds P f d (n @ ''.enc'') k" "holds P f d (n @ ''.sign'') (b64_encode j)"
  shows "\<exists>s3 s4. FileStore_LoadEncryptionIdentity P n (f, d) = (s3, Inr k) \<and> FileStore_LoadSigningKey P n s3 = (s4, Inr j)"
proof -
  from fs_readFile_holds [OF i h(1)] obtain f3 where
      3: "fs_readFile P (n @ ''.enc'') (f, d) = ((f3, d), Inr k)" "fs_inv P (f3, d)" "same_store f f3" by auto
  from fs_readFile_holds [OF 3(2)] h(2) holds_same [OF 3(3)] obtain f4 where
      4: "fs_readFile P (n @ ''.sign'') (f3, d) = ((f4, d), Inr (b64_encode j))" by blast
  show ?thesis using 3(1) 4 k
    by (simp add: FileStore_LoadEncryptionIdentity_def FileStore_LoadSigningKey_def TrimSpace_b64 b64_decode_encode)
qed

interpretation file_ks: keystore "FileStore_Keystore P" "fs_inv P" "\<lambda>n. ValidateName n = Inr ()" "\<lambda>k. TrimSpace k = k" for P
proof
  fix s n k r1 s1 u1 r2 j s2 u2 r3 r4
  assume i: "fs_inv P s" and n: "ValidateName n = Inr ()" and k: "TrimSpace k = k"
    and e: "ks_StoreEncryptionIdentity (FileStore_Keystore P) r1 n k s = (s1, Inr u1)"
    and g: "ks_StoreSigningKey (FileStore_Keystore P) r2 n j s1 = (s2, Inr u2)"
  obtain f d where s: "s = (f, d)" by (cases s)
  from file_keys_held [OF i [unfolded s] n, of r1 k s1 u1 r2 j s2 u2] e g obtain f2 d2 where
      "s2 = (f2, d2)" "fs_inv P (f2, d2)" "holds P f2 d2 (n @ ''.enc'') k" "holds P f2 d2 (n @ ''.sign'') (b64_encode j)"
    by (auto simp: FileStore_Keystore_def s)
  with file_keys_read [OF _ k] show "fs_inv P s2 \<and> (\<exists>s3 s4. ks_LoadEncryptionIdentity (FileStore_Keystore P) r3 n s2 = (s3, Inr k)
      \<and> ks_LoadSigningKey (FileStore_Keystore P) r4 n s3 = (s4, Inr j))"
    by (simp add: FileStore_Keystore_def)
next
  show "fs_inv P (i, d\<lparr>d_files := F\<rparr>)" if "fs_inv P (i, d)" for i d F
    using that by (simp add: fs_inv_def no_read_faults_def)
qed

text \<open>
  C30. Keys stored in the encrypted file backend survive a restart: a new store on the same
  directory with the same passphrase callback, its cache empty, loads both keys as they were stored
  from the files the old one wrote. Any passphrase, including the empty one of plaintext mode, any
  valid name and any keys; the encryption key must have no white space around it, which the loader
  trims.
\<close>

theorem FileStore_restart:
  assumes laws: "scrypt_correct P" "age_framed P" "enclave_correct P"
    and n: "ValidateName n = Inr ()" and k: "TrimSpace k = k" and d: "no_read_faults d"
    and e: "FileStore_StoreEncryptionIdentity P r1 n k (NewEncryptedFileStoreWithDir dir fn, d) = (s1, Inr u1)"
    and g: "FileStore_StoreSigningKey P r2 n j s1 = ((f2, d2), Inr u2)"
  shows "\<exists>s3 s4. FileStore_LoadEncryptionIdentity P n (NewEncryptedFileStoreWithDir dir fn, d2) = (s3, Inr k)
     \<and> FileStore_LoadSigningKey P n s3 = (s4, Inr j)"
proof -
  let ?f = "NewEncryptedFileStoreWithDir dir fn"
  have fresh: "cache_ok P ?f" by (simp add: cache_ok_def NewEncryptedFileStoreWithDir_def NewFileStoreWithDir_def)
  with laws d have "fs_inv P (?f, d)" by (simp add: fs_inv_def)
  from file_keys_held [OF this n e g] have h: "fs_inv P (f2, d2)" "same_store ?f f2"
      "holds P f2 d2 (n @ ''.enc'') k" "holds P f2 d2 (n @ ''.sign'') (b64_encode j)" by auto
  then have "fs_inv P (?f, d2)" using fresh by (simp add: fs_inv_def)
  with file_keys_read [OF _ k] h holds_same [OF h(2)] show ?thesis by simp
qed

lemma empty_disk_ok: "no_read_faults empty_disk" by (simp add: no_read_faults_def empty_disk_def)

lemma sample_name: "ValidateName ''alice'' = Inr ()" "TrimSpace ''key'' = ''key''"
proof -
  have a: "ascii ''alice''" "ascii ''key''" by (simp_all add: ascii_def)
  have "ValidateNoControlChars ''alice'' = Inr ()"
    unfolding NoControl_iff runes_all_ascii [OF a(1)] by (simp add: displayable_def RuneError_def isBidiOrZeroWidth_def)
  then show "ValidateName ''alice'' = Inr ()"
    by (simp add: ValidateName_def maxNameLen_def ContainsAny_def HasPrefix_def IsAbs_def)
  show "TrimSpace ''key'' = ''key''" using runes_all_ascii [OF a(2)] by (intro TrimSpace_id) (simp_all add: is_space_def)
qed

lemma toy_seal: "pass \<noteq> [] \<Longrightarrow> EncryptWithPassphraseBytes toy_prims r data pass = Inr (''age-encryption.org/v1'' @ data)"
  by (simp add: EncryptWithPassphraseBytes_def toy_prims_def)

lemma toy_resolve:
  "fs_passphraseFunc f = Some (Inr ''pw'') \<Longrightarrow> fs_resolved f \<longrightarrow> fs_cache f = Some ''pw'' \<Longrightarrow>
   resolvePassphraseForName toy_prims f = (f\<lparr>fs_resolved := True, fs_cache := Some ''pw''\<rparr>, Inr ''pw'')"
  by (cases "fs_resolved f")
    (simp_all add: resolvePassphraseForName_def computePassphraseForName_def cacheStore_def toy_prims_def)

lemma fs_writeFile_sample:
  assumes "fs_passphraseFunc f = Some (Inr ''pw'')" "fs_resolved f \<longrightarrow> fs_cache f = Some ''pw''" "d_fault d = (\<lambda>_ _. None)"
  shows "fs_writeFile toy_prims r fn data (f, d) =
     ((f\<lparr>fs_resolved := True, fs_cache := Some ''pw''\<rparr>,
       d\<lparr>d_files := (d_files d)(filepath_Join (fs_dir f) fn \<mapsto> ''age-encryption.org/v1'' @ data)\<rparr>), Inr ())"
  using assms by (simp add: fs_writeFile_def os_MkdirAll_def os_WriteFile_def toy_resolve toy_seal)

theorem FileStore_restart_witness:
  "\<exists>s1 f2 d2 s3 s4. FileStore_StoreEncryptionIdentity toy_prims (\<lambda>_. []) ''alice'' ''key''
        (NewEncryptedFileStoreWithDir ''/k'' (Inr ''pw''), empty_disk) = (s1, Inr ())
     \<and> FileStore_StoreSigningKey toy_prims (\<lambda>_. []) ''alice'' ''sig'' s1 = ((f2, d2), Inr ())
     \<and> FileStore_LoadEncryptionIdentity toy_prims ''alice'' (NewEncryptedFileStoreWithDir ''/k'' (Inr ''pw''), d2) = (s3, Inr ''key'')
     \<and> FileStore_LoadSigningKey toy_prims ''alice'' s3 = (s4, Inr ''sig'')"
proof -
  let ?f = "NewEncryptedFileStoreWithDir ''/k'' (Inr ''pw'')"
  have f: "fs_passphraseFunc ?f = Some (Inr ''pw'')" "\<not> fs_resolved ?f" "d_fault empty_disk = (\<lambda>_ _. None)"
    by (simp_all add: NewEncryptedFileStoreWithDir_def NewFileStoreWithDir_def empty_disk_def)
  obtain f1 d1 where 1: "FileStore_StoreEncryptionIdentity toy_prims (\<lambda>_. []) ''alice'' ''key'' (?f, empty_disk) = ((f1, d1), Inr ())"
      "fs_passphraseFunc f1 = Some (Inr ''pw'')" "d_fault d1 = (\<lambda>_ _. None)" "fs_cache f1 = Some ''pw''"
    using f by (simp add: FileStore_StoreEncryptionIdentity_def fs_writeFile_sample)
  obtain f2 d2 where 2: "FileStore_StoreSigningKey toy_prims (\<lambda>_. []) ''alice'' ''sig'' (f1, d1) = ((f2, d2), Inr ())"
    using 1 by (simp add: FileStore_StoreSigningKey_def fs_writeFile_sample)
  show ?thesis
    using 1(1) 2 FileStore_restart [OF toy_laws(2,5,6) sample_name empty_disk_ok 1(1) 2] by blast
qed

section \<open>So does the decorator around a keystore that keeps it\<close>

definition hw_inv :: "prims \<Rightarrow> ('s \<times> disk \<Rightarrow> bool) \<Rightarrow> 's HardwareKeyDecorator \<times> disk \<Rightarrow> bool" where
  "hw_inv P ksinv s \<longleftrightarrow> scrypt_correct P \<and> ksinv (hd_inner (fst s), snd s)"

text \<open>The key a cached challenge gives, independent of everything else in the state.\<close>

definition kek_of :: "prims \<Rightarrow> 's HardwareKeyDecorator \<Rightarrow> bytes \<Rightarrow> bytes result" where
  "kek_of P h challenge =
     (case hd_passFn h of None \<Rightarrow> Inl (Errorf ''hardware decorator requires a passphrase function'')
      | Some passFn \<Rightarrow>
        andthen (wrapping ''getting passphrase: %w'' passFn) (\<lambda>pass.
        andthen (wrapping ''hardware challenge-response (%s): %w'' (hd_hwKey h challenge)) (\<lambda>response.
        andthen (DeriveHardwareKEKBytes P pass response) (\<lambda>kek. Inr (hex_encode kek)))))"

lemma challenge_cached:
  assumes "loadOrCreateChallengeLocked rnd name (h, d) = (s', Inr c)"
  shows "\<exists>F. s' = (h\<lparr>hd_challenges := (hd_challenges h)(name \<mapsto> c)\<rparr>, d\<lparr>d_files := F\<rparr>)"
proof -
  have d: "d = d\<lparr>d_files := d_files d\<rparr>" by simp
  have h: "hd_challenges h name = Some c \<Longrightarrow> h = h\<lparr>hd_challenges := (hd_challenges h)(name \<mapsto> c)\<rparr>"
    by (simp add: map_upd_triv)
  from assms show ?thesis
    unfolding loadOrCreateChallengeLocked_def
    by (auto simp: os_WriteFile_def Let_def split: option.splits sum.splits if_splits prod.splits intro: d h)
qed

lemma derivePassphrase_ok:
  assumes "derivePassphrase P rnd name (h, d) = (s', Inr pass)"
  shows "\<exists>c F. s' = (h\<lparr>hd_challenges := (hd_challenges h)(name \<mapsto> c)\<rparr>, d\<lparr>d_files := F\<rparr>) \<and> kek_of P h c = Inr pass"
proof -
  from assms obtain c where "loadOrCreateChallengeLocked rnd name (h, d) = (s', Inr c)" "kek_of P h c = Inr pass"
    by (auto simp: derivePassphrase_def kek_of_def sbind_Inr_iff split: option.splits)
  with challenge_cached show ?thesis by blast
qed

lemma derivePassphrase_cached:
  "hd_challenges h name = Some c \<Longrightarrow> kek_of P h c = Inr pass \<Longrightarrow> derivePassphrase P rnd name (h, d) = ((h, d), Inr pass)"
  by (auto simp: derivePassphrase_def kek_of_def loadOrCreateChallengeLocked_def split: option.splits)

lemma kek_of_same:
  "kek_of P (h\<lparr>hd_challenges := x, hd_inner := i\<rparr>) c = kek_of P h c"
  "kek_of P (h\<lparr>hd_inner := i\<rparr>) c = kek_of P h c"
  "kek_of P (h\<lparr>hd_challenges := x\<rparr>) c = kek_of P h c"
  by (simp_all add: kek_of_def split: option.split)

locale hw_keystore = keystore K ksinv okname okenc
  for K :: "'s Keystore" and ksinv okname okenc +
  fixes P :: prims
  assumes b64_storable: "okenc (b64_encode b)"
begin

lemma hw_keys_kept:
  assumes ksinv: "hw_inv P ksinv s" and n: "okname n"
    and e: "HW_StoreEncryptionIdentity P K r1 n k s = (s1, Inr u1)" and g: "HW_StoreSigningKey P K r2 n j s1 = (s2, Inr u2)"
  shows "hw_inv P ksinv s2 \<and> (\<exists>s3 s4. HW_LoadEncryptionIdentity P K r3 n s2 = (s3, Inr k) \<and> HW_LoadSigningKey P K r4 n s3 = (s4, Inr j))"
proof -
  obtain h d where s: "s = (h, d)" by (cases s)
  have sc: "scrypt_correct P" and i0: "ksinv (hd_inner h, d)" using ksinv by (simp_all add: hw_inv_def s)
  from e obtain s' pass ct where 1: "derivePassphrase P r1 n (h, d) = (s', Inr pass)"
      "EncryptWithPassphraseBytes P (r1 1) k pass = Inr ct"
      "inner_call (ks_StoreEncryptionIdentity K (inner_random r1) n (b64_encode ct)) s' = (s1, Inr u1)"
    by (auto simp: HW_StoreEncryptionIdentity_def sbind_Inr_iff s)
  from derivePassphrase_ok [OF 1(1)] obtain c F where
      s': "s' = (h\<lparr>hd_challenges := (hd_challenges h)(n \<mapsto> c)\<rparr>, d\<lparr>d_files := F\<rparr>)" and kek: "kek_of P h c = Inr pass" by auto
  define h0 where "h0 = h\<lparr>hd_challenges := (hd_challenges h)(n \<mapsto> c)\<rparr>"
  have derive: "derivePassphrase P r n (h0\<lparr>hd_inner := i\<rparr>, D) = ((h0\<lparr>hd_inner := i\<rparr>, D), Inr pass)" for r i D
    using kek by (intro derivePassphrase_cached) (simp_all add: h0_def kek_of_same)
  from 1(3) s' obtain i1 d1 where
      2: "ks_StoreEncryptionIdentity K (inner_random r1) n (b64_encode ct) (hd_inner h, d\<lparr>d_files := F\<rparr>) = ((i1, d1), Inr u1)"
      "s1 = (h0\<lparr>hd_inner := i1\<rparr>, d1)"
    by (auto simp: inner_call_def h0_def split: prod.splits)
  from g derive 2(2) obtain ct2 where 3: "EncryptWithPassphraseBytes P (r2 1) j pass = Inr ct2"
      "inner_call (ks_StoreSigningKey K (inner_random r2) n ct2) s1 = (s2, Inr u2)"
    by (auto simp: HW_StoreSigningKey_def sbind_Inr_iff)
  from 3(2) 2(2) obtain i2 d2 where
      4: "ks_StoreSigningKey K (inner_random r2) n ct2 (i1, d1) = ((i2, d2), Inr u2)" "s2 = (h0\<lparr>hd_inner := i2\<rparr>, d2)"
    by (auto simp: inner_call_def split: prod.splits)
  from keys_kept [OF inv_files [OF i0] n b64_storable 2(1) 4(1), of "inner_random r3" "inner_random r4"] obtain i3 d3 i4 d4 where
      5: "ksinv (i2, d2)" "ks_LoadEncryptionIdentity K (inner_random r3) n (i2, d2) = ((i3, d3), Inr (b64_encode ct))"
      "ks_LoadSigningKey K (inner_random r4) n (i3, d3) = ((i4, d4), Inr ct2)" by auto
  have "HW_LoadEncryptionIdentity P K r3 n s2 = ((h0\<lparr>hd_inner := i3\<rparr>, d3), Inr k)"
    using 5(2) derive scrypt_roundtrip [OF sc 1(2)]
    by (simp add: HW_LoadEncryptionIdentity_def inner_call_def 4(2) b64_decode_encode)
  moreover have "HW_LoadSigningKey P K r4 n (h0\<lparr>hd_inner := i3\<rparr>, d3) = ((h0\<lparr>hd_inner := i4\<rparr>, d4), Inr j)"
    using 5(3) derive scrypt_roundtrip [OF sc 3(1)] by (simp add: HW_LoadSigningKey_def inner_call_def)
  ultimately show ?thesis using sc 5(1) by (simp add: hw_inv_def 4(2))
qed

end

sublocale hw_keystore \<subseteq> hw: keystore "HardwareKeyDecorator_Keystore P K" "hw_inv P ksinv" okname "\<lambda>_. True"
proof
  fix s n k r1 s1 u1 r2 j s2 u2 r3 r4
  assume "hw_inv P ksinv s" "okname n" "ks_StoreEncryptionIdentity (HardwareKeyDecorator_Keystore P K) r1 n k s = (s1, Inr u1)"
    "ks_StoreSigningKey (HardwareKeyDecorator_Keystore P K) r2 n j s1 = (s2, Inr u2)"
  then show "hw_inv P ksinv s2 \<and> (\<exists>s3 s4. ks_LoadEncryptionIdentity (HardwareKeyDecorator_Keystore P K) r3 n s2 = (s3, Inr k)
      \<and> ks_LoadSigningKey (HardwareKeyDecorator_Keystore P K) r4 n s3 = (s4, Inr j))"
    using hw_keys_kept by (simp add: HardwareKeyDecorator_Keystore_def)
next
  show "hw_inv P ksinv (i, d\<lparr>d_files := F\<rparr>)" if "hw_inv P ksinv (i, d)" for i d F
    using that inv_files by (simp add: hw_inv_def)
qed

interpretation hw_file: hw_keystore "FileStore_Keystore P" "fs_inv P" "\<lambda>n. ValidateName n = Inr ()" "\<lambda>k. TrimSpace k = k" P for P
  by unfold_locales (rule TrimSpace_b64)

text \<open>
  C32. The hardware-key decorator around the file backend returns the keys it was given: what was
  sealed under the key derived from passphrase and hardware response, and sealed again by the store,
  comes back unchanged, whatever the token answers, whether or not the challenge existed before, and
  whether the inner store encrypts or not.
\<close>

theorem HardwareKeyDecorator_keys_kept:
  assumes laws: "scrypt_correct P" "age_framed P" "enclave_correct P"
    and n: "ValidateName n = Inr ()" and f: "cache_ok P f" and d: "no_read_faults d"
    and e: "HW_StoreEncryptionIdentity P (FileStore_Keystore P) r1 n k
        (NewHardwareKeyDecorator f hwKey cdir passFn, d) = (s1, Inr u1)"
    and g: "HW_StoreSigningKey P (FileStore_Keystore P) r2 n j s1 = (s2, Inr u2)"
  shows "\<exists>s3 s4. HW_LoadEncryptionIdentity P (FileStore_Keystore P) r3 n s2 = (s3, Inr k)
     \<and> HW_LoadSigningKey P (FileStore_Keystore P) r4 n s3 = (s4, Inr j)"
proof -
  have "hw_inv P (fs_inv P) (NewHardwareKeyDecorator f hwKey cdir passFn, d)"
    using laws f d by (simp add: hw_inv_def fs_inv_def NewHardwareKeyDecorator_def)
  from hw_file.hw.keys_kept [OF this n TrueI, of r1 k s1 u1 r2 j s2 u2 r3 r4] e g
  show ?thesis by (simp add: HardwareKeyDecorator_Keystore_def)
qed

theorem HardwareKeyDecorator_keys_kept_witness:
  "\<exists>s1 s2 s3 s4. HW_StoreEncryptionIdentity toy_prims (FileStore_Keystore toy_prims) (\<lambda>_. ''random'') ''alice'' ''key''
        (NewHardwareKeyDecorator (NewEncryptedFileStoreWithDir ''/k'' (Inr ''pw'')) (\<lambda>c. Inr c) ''/c'' (Some (Inr ''pw'')), empty_disk) = (s1, Inr ())
     \<and> HW_StoreSigningKey toy_prims (FileStore_Keystore toy_prims) (\<lambda>_. ''random'') ''alice'' ''sig'' s1 = (s2, Inr ())
     \<and> HW_LoadEncryptionIdentity toy_prims (FileStore_Keystore toy_prims) (\<lambda>_. []) ''alice'' s2 = (s3, Inr ''key'')
     \<and> HW_LoadSigningKey toy_prims (FileStore_Keystore toy_prims) (\<lambda>_. []) ''alice'' s3 = (s4, Inr ''sig'')"
proof -
  let ?f = "NewEncryptedFileStoreWithDir ''/k'' (Inr ''pw'')"
  let ?h = "NewHardwareKeyDecorator ?f (\<lambda>c. Inr c) ''/c'' (Some (Inr ''pw''))"
  let ?c = "rand_bytes ''random'' challengeLength"
  define h' where "h' = ?h\<lparr>hd_challenges := [''alice'' \<mapsto> ?c]\<rparr>"
  have f: "fs_passphraseFunc ?f = Some (Inr ''pw'')" "\<not> fs_resolved ?f"
    by (simp_all add: NewEncryptedFileStoreWithDir_def NewFileStoreWithDir_def)
  have c': "cache_ok toy_prims ?f" by (simp add: cache_ok_def NewEncryptedFileStoreWithDir_def NewFileStoreWithDir_def)
  have c: "?c \<noteq> []" "\<not> allZero ?c" by code_simp+
  obtain pass where kek: "kek_of toy_prims h' ?c = Inr pass" "pass \<noteq> []"
    using c by (simp add: kek_of_def h'_def NewHardwareKeyDecorator_def DeriveHardwareKEKBytes_def toy_prims_def
        hex_encode_def hardwareKEKLength_def)
  have seal: "EncryptWithPassphraseBytes toy_prims r k pass = Inr (''age-encryption.org/v1'' @ k)" for r k using kek(2) by (rule toy_seal)
  have "loadOrCreateChallengeLocked (\<lambda>_. ''random'') ''alice'' (?h, empty_disk) =
      ((h', empty_disk\<lparr>d_files := [ChallengePath ?h ''alice'' \<mapsto> ?c]\<rparr>), Inr ?c)" (is "_ = ((_, ?d), _)")
    by (simp add: loadOrCreateChallengeLocked_def NewHardwareKeyDecorator_def empty_disk_def ReadFile_def os_MkdirAll_def os_WriteFile_def h'_def Let_def)
  then have derive: "derivePassphrase toy_prims (\<lambda>_. ''random'') ''alice'' (?h, empty_disk) = ((h', ?d), Inr pass)"
    using kek(1) by (simp add: derivePassphrase_def kek_of_def h'_def NewHardwareKeyDecorator_def)
  obtain f1 d1 where 1: "HW_StoreEncryptionIdentity toy_prims (FileStore_Keystore toy_prims) (\<lambda>_. ''random'') ''alice'' ''key''
        (?h, empty_disk) = ((h'\<lparr>hd_inner := f1\<rparr>, d1), Inr ())"
      "fs_passphraseFunc f1 = Some (Inr ''pw'')" "fs_cache f1 = Some ''pw''" "d_fault d1 = (\<lambda>_ _. None)"
    using derive f by (simp add: HW_StoreEncryptionIdentity_def seal inner_call_def FileStore_Keystore_def h'_def
        NewHardwareKeyDecorator_def FileStore_StoreEncryptionIdentity_def fs_writeFile_sample empty_disk_def)
  have "derivePassphrase toy_prims (\<lambda>_. ''random'') ''alice'' (h'\<lparr>hd_inner := f1\<rparr>, d1) = ((h'\<lparr>hd_inner := f1\<rparr>, d1), Inr pass)"
    using kek(1) by (intro derivePassphrase_cached) (simp_all add: h'_def kek_of_same)
  then obtain s2 where 2: "HW_StoreSigningKey toy_prims (FileStore_Keystore toy_prims) (\<lambda>_. ''random'') ''alice'' ''sig''
        (h'\<lparr>hd_inner := f1\<rparr>, d1) = (s2, Inr ())"
    using 1(2-) by (simp add: HW_StoreSigningKey_def seal inner_call_def FileStore_Keystore_def FileStore_StoreSigningKey_def fs_writeFile_sample)
  show ?thesis
    using 1(1) 2 HardwareKeyDecorator_keys_kept [OF toy_laws(2,5,6) sample_name(1) c' empty_disk_ok 1(1) 2] by blast
qed

end
