(* ===== verification/Icfx_Identity.thy ===== *)
theory Icfx_Identity
  imports Icfx_Keystore Icfx_Contacts
begin

text \<open>
  Package identity: the identity record, the plaintext index and the encrypted meta files, the
  unlocked handle that holds the private keys in enclaves, the portable bundle (export, peek,
  import), the persistence of an import, the public lock of an identity and its backup file names.
  A closed handle has no enclaves; the wiping of buffers has no observable effect and is left out.
\<close>

section \<open>Identities\<close>

definition Identity_ErrNotFound :: go_error where "Identity_ErrNotFound = Sentinel ''identity not found''"

definition ErrNoPrimary :: go_error where "ErrNoPrimary = Sentinel ''no primary identity set''"

definition ErrAliasTaken :: go_error where "ErrAliasTaken = Sentinel ''alias already in use by another identity''"

definition ErrKeysExist :: go_error where "ErrKeysExist = Sentinel ''identity keys already exist in the keystore''"

record Identity =
  id_ID :: bytes
  id_Name :: bytes
  id_Alias :: bytes
  id_FirstName :: bytes
  id_LastName :: bytes
  id_Email :: bytes
  id_EncPubKey :: bytes
  id_SignPubKey :: bytes
  id_Fingerprint :: bytes
  id_IsPrimary :: bool
  id_Status :: bytes
  id_HWKey :: bool
  id_Backend :: bytes
  id_CreatedAt :: gotime
  id_RevokedAt :: gotime
  id_LockSig :: bytes

definition zero_Identity :: Identity where
  "zero_Identity = \<lparr>id_ID = [], id_Name = [], id_Alias = [], id_FirstName = [], id_LastName = [], id_Email = [],
     id_EncPubKey = [], id_SignPubKey = [], id_Fingerprint = [], id_IsPrimary = False, id_Status = [], id_HWKey = False,
     id_Backend = [], id_CreatedAt = zero_time, id_RevokedAt = zero_time, id_LockSig = []\<rparr>"

definition BackendKeychain :: bytes where "BackendKeychain = ''keychain''"

definition BackendFile :: bytes where "BackendFile = ''file''"

definition StatusActive :: bytes where "StatusActive = ''active''"

definition StatusRevoked :: bytes where "StatusRevoked = ''revoked''"

definition Identity_FindByID :: "Identity list \<Rightarrow> bytes \<Rightarrow> nat result" where
  "Identity_FindByID ids i = found Identity_ErrNotFound (find_index (\<lambda>x. id_ID x = i) ids)"

definition Identity_FindDuplicate :: "(nat \<Rightarrow> nat \<Rightarrow> bool) \<Rightarrow> Identity list \<Rightarrow> bytes \<Rightarrow> bytes \<Rightarrow> bytes \<Rightarrow> nat result" where
  "Identity_FindDuplicate ufold ids name email alias = found Identity_ErrNotFound
     (find_index (\<lambda>x. (name \<noteq> [] \<and> id_Name x = name) \<or> (email \<noteq> [] \<and> id_Email x = email)
        \<or> (alias \<noteq> [] \<and> EqualFold ufold (id_Alias x) alias)) ids)"

definition FindByName :: "Identity list \<Rightarrow> bytes \<Rightarrow> nat result" where
  "FindByName ids name = found Identity_ErrNotFound (find_index (\<lambda>x. id_Name x = name) ids)"

definition FindPrimary :: "Identity list \<Rightarrow> nat result" where
  "FindPrimary ids = found ErrNoPrimary (find_index id_IsPrimary ids)"

definition Identity_fields :: "Identity field list" where
  "Identity_fields =
     [fld ''id'' dec_str id_ID id_ID_update,
      fld ''name'' dec_str id_Name id_Name_update,
      fld ''alias'' dec_str id_Alias id_Alias_update,
      fld ''first_name'' dec_str id_FirstName id_FirstName_update,
      fld ''last_name'' dec_str id_LastName id_LastName_update,
      fld ''email'' dec_str id_Email id_Email_update,
      fld ''enc_pub_key'' dec_str id_EncPubKey id_EncPubKey_update,
      fld ''sign_pub_key'' dec_str id_SignPubKey id_SignPubKey_update,
      fld ''fingerprint'' dec_str id_Fingerprint id_Fingerprint_update,
      fld ''is_primary'' dec_bool id_IsPrimary id_IsPrimary_update,
      fld ''status'' dec_str id_Status id_Status_update,
      fld ''hw_key'' dec_bool id_HWKey id_HWKey_update,
      fld ''backend'' dec_str id_Backend id_Backend_update,
      fld ''created_at'' dec_time id_CreatedAt id_CreatedAt_update,
      fld ''revoked_at'' dec_time id_RevokedAt id_RevokedAt_update,
      fld ''lock_sig'' dec_str id_LockSig id_LockSig_update]"

definition enc_Identity :: "Identity \<Rightarrow> json" where
  "enc_Identity i = JObj (
     [(''id'', jstr (id_ID i)), (''name'', jstr (id_Name i)), (''alias'', jstr (id_Alias i))]
     @ omit (id_FirstName i = []) ''first_name'' (jstr (id_FirstName i))
     @ omit (id_LastName i = []) ''last_name'' (jstr (id_LastName i))
     @ [(''email'', jstr (id_Email i)), (''enc_pub_key'', jstr (id_EncPubKey i)), (''sign_pub_key'', jstr (id_SignPubKey i)),
        (''fingerprint'', jstr (id_Fingerprint i)), (''is_primary'', JBool (id_IsPrimary i)), (''status'', jstr (id_Status i))]
     @ omit (\<not> id_HWKey i) ''hw_key'' (JBool (id_HWKey i))
     @ omit (id_Backend i = []) ''backend'' (jstr (id_Backend i))
     @ [(''created_at'', jtime (id_CreatedAt i)), (''revoked_at'', jtime (id_RevokedAt i))]
     @ omit (id_LockSig i = []) ''lock_sig'' (jstr (id_LockSig i)))"

definition Identity_marshals :: "Identity \<Rightarrow> bool" where
  "Identity_marshals i \<longleftrightarrow> marshals (id_CreatedAt i) \<and> marshals (id_RevokedAt i)"

definition wf_Identity :: "Identity \<Rightarrow> bool" where
  "wf_Identity i \<longleftrightarrow> list_all valid_utf8 [id_ID i, id_Name i, id_Alias i, id_FirstName i, id_LastName i, id_Email i,
       id_EncPubKey i, id_SignPubKey i, id_Fingerprint i, id_Status i, id_Backend i, id_LockSig i]
     \<and> wf_time (id_CreatedAt i) \<and> wf_time (id_RevokedAt i)"

section \<open>The public lock\<close>

definition LockBundleOf :: "Identity \<Rightarrow> LockBundle" where
  "LockBundleOf i = \<lparr>lb_ID = id_ID i, lb_Name = id_Name i, lb_EncPubKey = id_EncPubKey i,
     lb_SignPubKey = id_SignPubKey i, lb_Fingerprint = id_Fingerprint i, lb_Email = id_Email i,
     lb_Alias = id_Alias i, lb_Sig = id_LockSig i\<rparr>"

definition SealLockSigWithKey :: "prims \<Rightarrow> bytes \<Rightarrow> Identity \<Rightarrow> bytes result" where
  "SealLockSigWithKey P signPrivKey i =
     andthen (Sign P (CanonicalLockBytes (LockBundleOf i)) signPrivKey) (\<lambda>sig. Inr (b64_encode sig))"

section \<open>The index\<close>

record IdentityIndex =
  ix_Name :: bytes
  ix_Backend :: bytes
  ix_HWKey :: bool
  ix_HWKEK :: bytes
  ix_Fingerprint :: bytes
  ix_Alias :: bytes

definition zero_IdentityIndex :: IdentityIndex where
  "zero_IdentityIndex = \<lparr>ix_Name = [], ix_Backend = [], ix_HWKey = False, ix_HWKEK = [], ix_Fingerprint = [], ix_Alias = []\<rparr>"

definition HWKEKNone :: bytes where "HWKEKNone = ''none''"

definition HWKEKPassphrase :: bytes where "HWKEKPassphrase = ''passphrase''"

definition HWKEKConvention :: "IdentityIndex \<Rightarrow> bytes" where
  "HWKEKConvention i = (if ix_HWKEK i \<noteq> [] then ix_HWKEK i
     else if ix_Backend i = BackendKeychain then HWKEKNone else HWKEKPassphrase)"

definition IdentityIndex_fields :: "IdentityIndex field list" where
  "IdentityIndex_fields =
     [fld ''name'' dec_str ix_Name ix_Name_update,
      fld ''backend'' dec_str ix_Backend ix_Backend_update,
      fld ''hw_key'' dec_bool ix_HWKey ix_HWKey_update,
      fld ''hw_kek'' dec_str ix_HWKEK ix_HWKEK_update,
      fld ''fingerprint'' dec_str ix_Fingerprint ix_Fingerprint_update,
      fld ''alias'' dec_str ix_Alias ix_Alias_update]"

definition enc_IdentityIndex :: "IdentityIndex \<Rightarrow> json" where
  "enc_IdentityIndex i = JObj (
     [(''name'', jstr (ix_Name i)), (''backend'', jstr (ix_Backend i))]
     @ omit (\<not> ix_HWKey i) ''hw_key'' (JBool (ix_HWKey i))
     @ omit (ix_HWKEK i = []) ''hw_kek'' (jstr (ix_HWKEK i))
     @ omit (ix_Fingerprint i = []) ''fingerprint'' (jstr (ix_Fingerprint i))
     @ omit (ix_Alias i = []) ''alias'' (jstr (ix_Alias i)))"

definition wf_IdentityIndex :: "IdentityIndex \<Rightarrow> bool" where
  "wf_IdentityIndex i \<longleftrightarrow> valid_utf8 (ix_Name i) \<and> valid_utf8 (ix_Backend i) \<and> valid_utf8 (ix_HWKEK i)
     \<and> valid_utf8 (ix_Fingerprint i) \<and> valid_utf8 (ix_Alias i)"

record indexFile =
  xf_Version :: int
  xf_Identities :: "IdentityIndex list"

definition indexFile_fields :: "indexFile field list" where
  "indexFile_fields =
     [fld ''version'' dec_int xf_Version xf_Version_update,
      fld ''identities'' (dec_list (dec_struct IdentityIndex_fields) zero_IdentityIndex) xf_Identities xf_Identities_update]"

definition enc_indexFile :: "indexFile \<Rightarrow> json" where
  "enc_indexFile x = JObj [(''version'', jint (xf_Version x)), (''identities'', JArr (map enc_IdentityIndex (xf_Identities x)))]"

record metaWrapper =
  mw_Version :: int
  mw_Identity :: Identity

definition metaWrapper_fields :: "metaWrapper field list" where
  "metaWrapper_fields =
     [fld ''version'' dec_int mw_Version mw_Version_update,
      fld ''identity'' (dec_struct Identity_fields) mw_Identity mw_Identity_update]"

definition enc_metaWrapper :: "metaWrapper \<Rightarrow> json" where
  "enc_metaWrapper m = JObj [(''version'', jint (mw_Version m)), (''identity'', enc_Identity (mw_Identity m))]"

record IdStore =
  st_path :: bytes
  st_metaDir :: bytes

definition LoadIndex :: "bytes \<Rightarrow> disk \<Rightarrow> IdentityIndex list result" where
  "LoadIndex path d =
     (let raw = ReadFile d path in
      if IsNotExist raw then Inr []
      else andthen (wrapping ''reading identities index: %w'' raw) (\<lambda>raw.
        case unmarshal (dec_struct indexFile_fields) \<lparr>xf_Version = 0, xf_Identities = []\<rparr> raw of
          None \<Rightarrow> Inl (Wrap ''parsing identities index: %w'' (Errorf ''json''))
        | Some data \<Rightarrow> Inr (xf_Identities data)))"

definition SaveIndex :: "bytes \<Rightarrow> disk \<Rightarrow> IdentityIndex list \<Rightarrow> disk \<times> unit result" where
  "SaveIndex path d entries =
     WriteFileAtomic d path (indented (enc_indexFile \<lparr>xf_Version = 3, xf_Identities = entries\<rparr>))"

definition meta_path :: "IdStore \<Rightarrow> bytes \<Rightarrow> bytes" where
  "meta_path st name = filepath_Join (st_metaDir st) (name @ ''.meta'')"

definition SaveMeta :: "prims \<Rightarrow> bytes \<Rightarrow> IdStore \<Rightarrow> disk \<Rightarrow> Identity \<Rightarrow> disk \<times> unit result" where
  "SaveMeta P rnd st d i =
     (if \<not> Identity_marshals i then (d, Inl (Wrap ''marshaling identity meta: %w'' (Errorf ''json'')))
      else case wrapping ''encrypting identity meta: %w''
             (Encrypt P rnd (indented (enc_metaWrapper \<lparr>mw_Version = 3, mw_Identity = i\<rparr>)) [id_EncPubKey i]) of
          Inl e \<Rightarrow> (d, Inl e)
        | Inr encrypted \<Rightarrow> WriteFileAtomic d (meta_path st (id_Name i)) encrypted)"

definition Store_LoadMeta :: "prims \<Rightarrow> IdStore \<Rightarrow> disk \<Rightarrow> bytes \<Rightarrow> bytes \<Rightarrow> IdentityIndex \<Rightarrow> Identity result" where
  "Store_LoadMeta P st d name encIdentity idx =
     andthen (wrapping ''reading identity meta %s: %w'' (ReadFile d (meta_path st name))) (\<lambda>raw.
     andthen (wrapping ''decrypting identity meta %s: %w'' (Decrypt P raw encIdentity)) (\<lambda>plaintext.
     case unmarshal (dec_struct metaWrapper_fields) \<lparr>mw_Version = 0, mw_Identity = zero_Identity\<rparr> plaintext of
       None \<Rightarrow> Inl (Wrap ''parsing identity meta %s: %w'' (Errorf ''json''))
     | Some wrapper \<Rightarrow> Inr ((mw_Identity wrapper)\<lparr>id_Name := ix_Name idx, id_Backend := ix_Backend idx,
         id_HWKey := ix_HWKey idx, id_Alias := ix_Alias idx\<rparr>)))"

definition FindIndexByNameOrAlias :: "(nat \<Rightarrow> nat \<Rightarrow> bool) \<Rightarrow> IdentityIndex list \<Rightarrow> bytes \<Rightarrow> nat result" where
  "FindIndexByNameOrAlias ufold entries ref =
     (case find_index (\<lambda>e. ix_Name e = ref) entries of Some i \<Rightarrow> Inr i
      | None \<Rightarrow> found Identity_ErrNotFound (find_index (\<lambda>e. ref \<noteq> [] \<and> EqualFold ufold (ix_Alias e) ref) entries))"

definition ResolveDefaultIndex :: "IdentityIndex list \<Rightarrow> bytes \<Rightarrow> nat option" where
  "ResolveDefaultIndex entries defaultName =
     (case (if defaultName \<noteq> [] then find_index (\<lambda>e. ix_Name e = defaultName) entries else None) of
        Some i \<Rightarrow> Some i
      | None \<Rightarrow> (if length entries > 0 then Some 0 else None))"

definition CheckAliasUnique :: "(nat \<Rightarrow> nat \<Rightarrow> bool) \<Rightarrow> IdentityIndex list \<Rightarrow> bytes \<Rightarrow> bytes \<Rightarrow> unit result" where
  "CheckAliasUnique ufold entries alias selfName =
     (if alias = [] then Inr ()
      else if list_ex (\<lambda>e. ix_Name e \<noteq> selfName \<and> (EqualFold ufold (ix_Alias e) alias \<or> EqualFold ufold (ix_Name e) alias)) entries
      then Inl ErrAliasTaken else Inr ())"

definition CheckNameAvailable :: "(nat \<Rightarrow> nat \<Rightarrow> bool) \<Rightarrow> IdentityIndex list \<Rightarrow> bytes \<Rightarrow> unit result" where
  "CheckNameAvailable ufold entries name =
     (if list_ex (\<lambda>e. ix_Name e = name \<or> EqualFold ufold (ix_Alias e) name) entries then Inl ErrAliasTaken else Inr ())"

definition RemoveMeta :: "IdStore \<Rightarrow> disk \<Rightarrow> bytes \<Rightarrow> disk \<times> unit result" where
  "RemoveMeta st d name = remove_present ''removing identity meta %s: %w'' d (meta_path st name)"

section \<open>Unlocked identities\<close>

definition ErrUnlockedClosed :: go_error where "ErrUnlockedClosed = Sentinel ''unlocked: handle is closed''"

record Unlocked =
  u_info :: Identity
  u_encKey :: "bytes option"
  u_sigKey :: "bytes option"
  u_hwChallenge :: bytes

definition later :: "random \<Rightarrow> random" where "later rnd = (\<lambda>n. rnd (n + 16))"

definition Unlock :: "prims \<Rightarrow> 's Keystore \<Rightarrow> random \<Rightarrow> Identity \<Rightarrow> 's \<times> disk \<Rightarrow> ('s \<times> disk) \<times> Unlocked result" where
  "Unlock P ks rnd info s =
     sbind (swrap ''loading encryption identity: %w'' (ks_LoadEncryptionIdentity ks rnd (id_Name info) s)) (\<lambda>encStr s.
     sbind (swrap ''loading signing key: %w'' (ks_LoadSigningKey ks (later rnd) (id_Name info) s)) (\<lambda>sigBytes s.
     let u = \<lparr>u_info = info, u_encKey = NewEnclave P encStr, u_sigKey = NewEnclave P sigBytes, u_hwChallenge = []\<rparr> in
     (case (if id_HWKey info then ks_Challenge ks else None) of
        None \<Rightarrow> (s, Inr u)
      | Some challenge \<Rightarrow>
          sbind (swrap ''reading hardware challenge: %w'' (challenge (later (later rnd)) (id_Name info) s)) (\<lambda>c s.
          (s, Inr (u\<lparr>u_hwChallenge := c\<rparr>))))))"

definition open_enc :: "prims \<Rightarrow> Unlocked \<Rightarrow> bytes result" where
  "open_enc P u = (case u_encKey u of None \<Rightarrow> Inl ErrUnlockedClosed
     | Some e \<Rightarrow> wrapping ''opening encryption identity enclave: %w'' (Enclave_Open P e))"

definition open_sig :: "prims \<Rightarrow> Unlocked \<Rightarrow> bytes result" where
  "open_sig P u = (case u_sigKey u of None \<Rightarrow> Inl ErrUnlockedClosed
     | Some e \<Rightarrow> wrapping ''opening signing key enclave: %w'' (Enclave_Open P e))"

definition Unlocked_LoadMeta :: "prims \<Rightarrow> IdStore \<Rightarrow> disk \<Rightarrow> Unlocked \<Rightarrow> IdentityIndex \<Rightarrow> Unlocked \<times> unit result" where
  "Unlocked_LoadMeta P st d u idx =
     (case andthen (open_enc P u) (\<lambda>k. Store_LoadMeta P st d (ix_Name idx) k idx) of
        Inl e \<Rightarrow> (u, Inl e) | Inr full \<Rightarrow> (u\<lparr>u_info := full\<rparr>, Inr ()))"

definition Close :: "Unlocked \<Rightarrow> Unlocked" where
  "Close u = u\<lparr>u_encKey := None, u_sigKey := None\<rparr>"

definition Unlocked_Sign :: "prims \<Rightarrow> Unlocked \<Rightarrow> bytes \<Rightarrow> bytes result" where
  "Unlocked_Sign P u data = andthen (open_sig P u) (\<lambda>k. Sign P data k)"

definition Unlocked_Decrypt :: "prims \<Rightarrow> Unlocked \<Rightarrow> bytes \<Rightarrow> bytes result" where
  "Unlocked_Decrypt P u ciphertext = andthen (open_enc P u) (\<lambda>k. Decrypt P ciphertext k)"

definition Unlocked_DecryptStream :: "prims \<Rightarrow> Unlocked \<Rightarrow> bytes \<Rightarrow> (bytes \<times> go_error option) result" where
  "Unlocked_DecryptStream P u r = andthen (open_enc P u) (\<lambda>k. DecryptStream P r k)"

definition Unlocked_Encrypt :: "prims \<Rightarrow> bytes \<Rightarrow> Unlocked \<Rightarrow> bytes \<Rightarrow> bytes list \<Rightarrow> bytes result" where
  "Unlocked_Encrypt P rnd u plaintext recipients =
     (if u_encKey u = None then Inl ErrUnlockedClosed else Encrypt P rnd plaintext recipients)"

definition EncryptToSelf :: "prims \<Rightarrow> bytes \<Rightarrow> Unlocked \<Rightarrow> bytes \<Rightarrow> bytes result" where
  "EncryptToSelf P rnd u plaintext =
     (if u_encKey u = None then Inl ErrUnlockedClosed else Encrypt P rnd plaintext [id_EncPubKey (u_info u)])"

definition Unlocked_GitSign :: "prims \<Rightarrow> Unlocked \<Rightarrow> bytes \<Rightarrow> writer \<Rightarrow> writer \<times> unit result" where
  "Unlocked_GitSign P u r w =
     (case open_sig P u of Inl e \<Rightarrow> (w, Inl e)
      | Inr k \<Rightarrow> GitSign P r w k (id_Fingerprint (u_info u)))"

section \<open>Portable bundles\<close>

record portableBundle =
  pb_EncryptionIdentity :: bytes
  pb_SigningPrivateKey :: bytes
  pb_Info :: Identity
  pb_HWKey :: bool
  pb_HWChallenge :: bytes

definition zero_portableBundle :: portableBundle where
  "zero_portableBundle = \<lparr>pb_EncryptionIdentity = [], pb_SigningPrivateKey = [], pb_Info = zero_Identity,
     pb_HWKey = False, pb_HWChallenge = []\<rparr>"

definition portableBundle_fields :: "portableBundle field list" where
  "portableBundle_fields =
     [fld ''encryption_identity'' dec_str pb_EncryptionIdentity pb_EncryptionIdentity_update,
      fld ''signing_private_key'' dec_str pb_SigningPrivateKey pb_SigningPrivateKey_update,
      fld ''info'' (dec_struct Identity_fields) pb_Info pb_Info_update,
      fld ''hw_key'' dec_bool pb_HWKey pb_HWKey_update,
      fld ''hw_challenge'' dec_bytes pb_HWChallenge pb_HWChallenge_update]"

definition enc_portableBundle :: "portableBundle \<Rightarrow> json" where
  "enc_portableBundle b = JObj (
     [(''encryption_identity'', jstr (pb_EncryptionIdentity b)), (''signing_private_key'', jstr (pb_SigningPrivateKey b)),
      (''info'', enc_Identity (pb_Info b))]
     @ omit (\<not> pb_HWKey b) ''hw_key'' (JBool (pb_HWKey b))
     @ omit (pb_HWChallenge b = []) ''hw_challenge'' (jbytes (pb_HWChallenge b)))"

definition ExportBytes :: "prims \<Rightarrow> bytes \<Rightarrow> Unlocked \<Rightarrow> bytes \<Rightarrow> bytes result" where
  "ExportBytes P rnd u exportPassphrase =
     (if u_encKey u = None \<or> u_sigKey u = None then Inl ErrUnlockedClosed
      else if exportPassphrase = [] then Inl (Errorf ''export passphrase cannot be empty'')
      else andthen (open_enc P u) (\<lambda>encBuf.
      andthen (open_sig P u) (\<lambda>sigBuf.
      if id_HWKey (u_info u) \<and> u_hwChallenge u = []
      then Inl (Errorf ''identity is hardware-key-protected but no challenge attached'')
      else if \<not> Identity_marshals (u_info u) then Inl (Wrap ''marshaling bundle: %w'' (Errorf ''json''))
      else wrapping ''encrypting bundle: %w'' (EncryptWithPassphraseBytes P rnd
        (compact (enc_portableBundle \<lparr>pb_EncryptionIdentity = encBuf, pb_SigningPrivateKey = b64_encode sigBuf,
           pb_Info = u_info u, pb_HWKey = id_HWKey (u_info u),
           pb_HWChallenge = (if id_HWKey (u_info u) then u_hwChallenge u else [])\<rparr>)) exportPassphrase))))"

definition Export :: "prims \<Rightarrow> bytes \<Rightarrow> Unlocked \<Rightarrow> bytes \<Rightarrow> bytes result" where
  "Export P rnd u exportPassphrase = ExportBytes P rnd u exportPassphrase"

text \<open>The first steps of PeekBytesFull and of ImportBytes.\<close>

definition unseal_bundle :: "prims \<Rightarrow> bytes \<Rightarrow> bytes \<Rightarrow> portableBundle result" where
  "unseal_bundle P bundle importPassphrase =
     (if importPassphrase = [] then Inl (Errorf ''import passphrase cannot be empty'')
      else andthen (wrapping ''decrypting bundle (wrong passphrase?): %w'' (DecryptWithPassphraseBytes P bundle importPassphrase)) (\<lambda>plaintext.
      case unmarshal (dec_struct portableBundle_fields) zero_portableBundle plaintext of
        None \<Rightarrow> Inl (Wrap ''parsing bundle: %w'' (Errorf ''json'')) | Some pb \<Rightarrow> Inr pb))"

definition PeekBytesFull :: "prims \<Rightarrow> bytes \<Rightarrow> bytes \<Rightarrow> (Identity \<times> bool \<times> bytes) result" where
  "PeekBytesFull P bundle importPassphrase =
     andthen (unseal_bundle P bundle importPassphrase) (\<lambda>pb.
     if id_Name (pb_Info pb) = [] then Inl (Errorf ''bundle is missing identity name'')
     else Inr (pb_Info pb, pb_HWKey pb, pb_HWChallenge pb))"

definition PeekBytes :: "prims \<Rightarrow> bytes \<Rightarrow> bytes \<Rightarrow> (Identity \<times> bool) result" where
  "PeekBytes P bundle importPassphrase =
     andthen (PeekBytesFull P bundle importPassphrase) (\<lambda>(info, hwKey, _). Inr (info, hwKey))"

definition Peek :: "prims \<Rightarrow> bytes \<Rightarrow> bytes \<Rightarrow> (Identity \<times> bool) result" where
  "Peek P bundle importPassphrase = PeekBytes P bundle importPassphrase"

text \<open>The checks of ImportBytes up to the hardware restore: the bundle, the signing key and the bound metadata.\<close>

definition import_checks :: "prims \<Rightarrow> (nat \<Rightarrow> nat) \<Rightarrow> bytes \<Rightarrow> bytes \<Rightarrow> (portableBundle \<times> bytes \<times> Identity) result" where
  "import_checks P ulow bundle importPassphrase =
     andthen (unseal_bundle P bundle importPassphrase) (\<lambda>pb.
     andthen (wrapping ''invalid identity name in bundle: %w'' (ValidateName (id_Name (pb_Info pb)))) (\<lambda>_.
     andthen (wrapping ''decoding signing key: %w'' (b64_decode (pb_SigningPrivateKey pb))) (\<lambda>sigKey.
     andthen (wrapping ''deriving public keys from imported private keys: %w''
         (DerivePublic P (pb_EncryptionIdentity pb) sigKey)) (\<lambda>(encPub, signPubB64, _, fp).
     let info = (pb_Info pb)\<lparr>id_HWKey := False\<rparr> in
     if id_EncPubKey info \<noteq> [] \<and> id_EncPubKey info \<noteq> encPub
     then Inl (Errorf ''bundle encryption public key does not match its private key'')
     else if id_SignPubKey info \<noteq> [] \<and> id_SignPubKey info \<noteq> signPubB64
     then Inl (Errorf ''bundle signing public key does not match its private key'')
     else if id_Fingerprint info \<noteq> [] \<and> id_Fingerprint info \<noteq> fp
     then Inl (Errorf ''bundle fingerprint does not match its keys'')
     else Inr (pb, sigKey, info\<lparr>id_EncPubKey := encPub, id_SignPubKey := signPubB64, id_Fingerprint := fp,
       id_Alias := NormalizeAlias ulow (id_Alias info)\<rparr>)))))"

type_synonym 's HWRestoreFn = "bytes \<Rightarrow> 's \<times> disk \<Rightarrow> ('s \<times> disk) \<times> 's Keystore option result"

definition import_store ::
    "random \<Rightarrow> 's Keystore \<Rightarrow> Identity \<Rightarrow> bytes \<Rightarrow> bytes \<Rightarrow> 's \<times> disk \<Rightarrow> ('s \<times> disk) \<times> Identity \<times> unit result" where
  "import_store rnd targetKS info enc sigKey s =
     (if ks_HasKeys targetKS (id_Name info) s then (s, info, Inl (Wrap ''identity %q: %w'' ErrKeysExist))
      else case ks_StoreEncryptionIdentity targetKS rnd (id_Name info) enc s of
          (s1, Inl e) \<Rightarrow> (s1, zero_Identity, Inl (Wrap ''storing encryption identity: %w'' e))
        | (s1, Inr _) \<Rightarrow>
          (case ks_StoreSigningKey targetKS (later rnd) (id_Name info) sigKey s1 of
             (s2, Inl e) \<Rightarrow> (s2, zero_Identity, Inl (Wrap ''storing signing key: %w'' e))
           | (s2, Inr _) \<Rightarrow> (s2, info, Inr ())))"

definition ImportBytes ::
    "prims \<Rightarrow> (nat \<Rightarrow> nat) \<Rightarrow> random \<Rightarrow> bytes \<Rightarrow> bytes \<Rightarrow> 's Keystore \<Rightarrow> 's HWRestoreFn option \<Rightarrow> 's \<times> disk
     \<Rightarrow> ('s \<times> disk) \<times> Identity \<times> unit result" where
  "ImportBytes P ulow rnd bundle importPassphrase ks restoreHW s =
     (case import_checks P ulow bundle importPassphrase of
        Inl e \<Rightarrow> (s, zero_Identity, Inl e)
      | Inr (pb, sigKey, info) \<Rightarrow>
        (case (if pb_HWKey pb then restoreHW else None) of
           None \<Rightarrow> import_store rnd ks info (pb_EncryptionIdentity pb) sigKey s
         | Some restore \<Rightarrow>
           (case restore (pb_HWChallenge pb) s of
              (s', Inl e) \<Rightarrow> (s', zero_Identity, Inl (Wrap ''hardware key restore: %w'' e))
            | (s', Inr None) \<Rightarrow> import_store rnd ks info (pb_EncryptionIdentity pb) sigKey s'
            | (s', Inr (Some hwKS)) \<Rightarrow>
                import_store rnd hwKS (info\<lparr>id_HWKey := True\<rparr>) (pb_EncryptionIdentity pb) sigKey s')))"

definition Import where
  "Import P ulow rnd bundle importPassphrase ks restoreHW s = ImportBytes P ulow rnd bundle importPassphrase ks restoreHW s"

section \<open>Persisting an import\<close>

definition index_upsert :: "IdentityIndex \<Rightarrow> IdentityIndex list \<Rightarrow> IdentityIndex list" where
  "index_upsert entry entries = (case find_index (\<lambda>e. ix_Name e = ix_Name entry) entries of
     Some i \<Rightarrow> entries[i := entry] | None \<Rightarrow> entries @ [entry])"

definition hijacks :: "Identity \<Rightarrow> IdentityIndex \<Rightarrow> bool" where
  "hijacks info e \<longleftrightarrow> ix_Fingerprint e \<noteq> [] \<and> id_Fingerprint info \<noteq> [] \<and> ix_Fingerprint e \<noteq> id_Fingerprint info"

text \<open>Returns isFirst, aliasDropped and the error.\<close>

definition PersistImported ::
    "prims \<Rightarrow> (nat \<Rightarrow> nat \<Rightarrow> bool) \<Rightarrow> bytes \<Rightarrow> IdStore \<Rightarrow> disk \<Rightarrow> Identity \<Rightarrow> bytes \<Rightarrow> disk \<times> bool \<times> bool \<times> unit result" where
  "PersistImported P ufold rnd st d info backend =
     (case LoadIndex (st_path st) d of
        Inl e \<Rightarrow> (d, False, False, Inl (Wrap ''loading identity index: %w'' e))
      | Inr entries \<Rightarrow>
        let isFirst = (entries = []) in
        if (case find_index (\<lambda>e. ix_Name e = id_Name info) entries of Some i \<Rightarrow> hijacks info (entries ! i) | None \<Rightarrow> False)
        then (d, isFirst, False, Inl (Errorf ''identity %q already exists with different keys''))
        else
        let aliasDropped = (CheckAliasUnique ufold entries (id_Alias info) (id_Name info) \<noteq> Inr ());
            info = info\<lparr>id_Alias := (if aliasDropped then [] else id_Alias info), id_Backend := backend\<rparr>
        in case SaveMeta P rnd st d info of
            (d1, Inl e) \<Rightarrow> (d1, isFirst, aliasDropped, Inl (Wrap ''saving identity meta: %w'' e))
          | (d1, Inr _) \<Rightarrow>
            let entry = \<lparr>ix_Name = id_Name info, ix_Backend = backend, ix_HWKey = id_HWKey info, ix_HWKEK = [],
                  ix_Fingerprint = id_Fingerprint info, ix_Alias = id_Alias info\<rparr>
            in (case SaveIndex (st_path st) d1 (index_upsert entry entries) of
                  (d2, Inl e) \<Rightarrow> (d2, isFirst, aliasDropped, Inl (Wrap ''saving identity index: %w'' e))
                | (d2, Inr _) \<Rightarrow> (d2, isFirst, aliasDropped, Inr ())))"

section \<open>File names\<close>

definition sanitizeFilenameLabel :: "bytes \<Rightarrow> bytes" where
  "sanitizeFilenameLabel s =
     (let s = TrimSpace s; s = ReplaceByte (CHR '' '') (CHR ''_'') s; s = ReplaceByte (CHR ''/'') (CHR ''_'') s
      in ReplaceByte (CHR 0x5C) (CHR ''_'') s)"

definition backupLabel :: "bytes \<Rightarrow> bytes \<Rightarrow> bytes" where
  "backupLabel alias name = sanitizeFilenameLabel (if alias = [] then name else alias)"

definition BackupLabel :: "IdentityIndex \<Rightarrow> bytes" where
  "BackupLabel idx = backupLabel (ix_Alias idx) (ix_Name idx)"

definition BackupFilename :: "Identity \<Rightarrow> bytes" where
  "BackupFilename i = backupLabel (id_Alias i) (id_Name i) @ ''.icid''"

definition IndexBackupFilename :: "IdentityIndex \<Rightarrow> bytes" where
  "IndexBackupFilename idx = BackupLabel idx @ ''.icid''"

section \<open>Lemmas\<close>

lemma find_Identity:
  "find_field Identity_fields ''id'' = Some (snd (fld ''id'' dec_str id_ID id_ID_update))"
  "find_field Identity_fields ''name'' = Some (snd (fld ''name'' dec_str id_Name id_Name_update))"
  "find_field Identity_fields ''alias'' = Some (snd (fld ''alias'' dec_str id_Alias id_Alias_update))"
  "find_field Identity_fields ''first_name'' = Some (snd (fld ''first_name'' dec_str id_FirstName id_FirstName_update))"
  "find_field Identity_fields ''last_name'' = Some (snd (fld ''last_name'' dec_str id_LastName id_LastName_update))"
  "find_field Identity_fields ''email'' = Some (snd (fld ''email'' dec_str id_Email id_Email_update))"
  "find_field Identity_fields ''enc_pub_key'' = Some (snd (fld ''enc_pub_key'' dec_str id_EncPubKey id_EncPubKey_update))"
  "find_field Identity_fields ''sign_pub_key'' = Some (snd (fld ''sign_pub_key'' dec_str id_SignPubKey id_SignPubKey_update))"
  "find_field Identity_fields ''fingerprint'' = Some (snd (fld ''fingerprint'' dec_str id_Fingerprint id_Fingerprint_update))"
  "find_field Identity_fields ''is_primary'' = Some (snd (fld ''is_primary'' dec_bool id_IsPrimary id_IsPrimary_update))"
  "find_field Identity_fields ''status'' = Some (snd (fld ''status'' dec_str id_Status id_Status_update))"
  "find_field Identity_fields ''hw_key'' = Some (snd (fld ''hw_key'' dec_bool id_HWKey id_HWKey_update))"
  "find_field Identity_fields ''backend'' = Some (snd (fld ''backend'' dec_str id_Backend id_Backend_update))"
  "find_field Identity_fields ''created_at'' = Some (snd (fld ''created_at'' dec_time id_CreatedAt id_CreatedAt_update))"
  "find_field Identity_fields ''revoked_at'' = Some (snd (fld ''revoked_at'' dec_time id_RevokedAt id_RevokedAt_update))"
  "find_field Identity_fields ''lock_sig'' = Some (snd (fld ''lock_sig'' dec_str id_LockSig id_LockSig_update))"
  by (simp_all add: Identity_fields_def find_field_def fld_def)

lemma find_IdentityIndex:
  "find_field IdentityIndex_fields ''name'' = Some (snd (fld ''name'' dec_str ix_Name ix_Name_update))"
  "find_field IdentityIndex_fields ''backend'' = Some (snd (fld ''backend'' dec_str ix_Backend ix_Backend_update))"
  "find_field IdentityIndex_fields ''hw_key'' = Some (snd (fld ''hw_key'' dec_bool ix_HWKey ix_HWKey_update))"
  "find_field IdentityIndex_fields ''hw_kek'' = Some (snd (fld ''hw_kek'' dec_str ix_HWKEK ix_HWKEK_update))"
  "find_field IdentityIndex_fields ''fingerprint'' = Some (snd (fld ''fingerprint'' dec_str ix_Fingerprint ix_Fingerprint_update))"
  "find_field IdentityIndex_fields ''alias'' = Some (snd (fld ''alias'' dec_str ix_Alias ix_Alias_update))"
  by (simp_all add: IdentityIndex_fields_def find_field_def fld_def)

lemma find_indexFile:
  "find_field indexFile_fields ''version'' = Some (snd (fld ''version'' dec_int xf_Version xf_Version_update))"
  "find_field indexFile_fields ''identities'' = Some (snd (fld ''identities'' (dec_list (dec_struct IdentityIndex_fields) zero_IdentityIndex) xf_Identities xf_Identities_update))"
  by (simp_all add: indexFile_fields_def find_field_def fld_def)

lemma find_metaWrapper:
  "find_field metaWrapper_fields ''version'' = Some (snd (fld ''version'' dec_int mw_Version mw_Version_update))"
  "find_field metaWrapper_fields ''identity'' = Some (snd (fld ''identity'' (dec_struct Identity_fields) mw_Identity mw_Identity_update))"
  by (simp_all add: metaWrapper_fields_def find_field_def fld_def)

lemma find_portableBundle:
  "find_field portableBundle_fields ''encryption_identity'' = Some (snd (fld ''encryption_identity'' dec_str pb_EncryptionIdentity pb_EncryptionIdentity_update))"
  "find_field portableBundle_fields ''signing_private_key'' = Some (snd (fld ''signing_private_key'' dec_str pb_SigningPrivateKey pb_SigningPrivateKey_update))"
  "find_field portableBundle_fields ''info'' = Some (snd (fld ''info'' (dec_struct Identity_fields) pb_Info pb_Info_update))"
  "find_field portableBundle_fields ''hw_key'' = Some (snd (fld ''hw_key'' dec_bool pb_HWKey pb_HWKey_update))"
  "find_field portableBundle_fields ''hw_challenge'' = Some (snd (fld ''hw_challenge'' dec_bytes pb_HWChallenge pb_HWChallenge_update))"
  by (simp_all add: portableBundle_fields_def find_field_def fld_def)

lemma dec_enc_Identity [json_rt]:
  "wf_Identity i \<Longrightarrow> Identity_marshals i \<Longrightarrow> dec_struct Identity_fields (enc_Identity i) zero_Identity = (i, DOk)"
  by (simp add: enc_Identity_def json_rt find_Identity fld_def wf_Identity_def Identity_marshals_def zero_Identity_def)

lemma dec_enc_IdentityIndex:
  "wf_IdentityIndex i \<Longrightarrow> dec_struct IdentityIndex_fields (enc_IdentityIndex i) zero_IdentityIndex = (i, DOk)"
  by (simp add: enc_IdentityIndex_def json_rt find_IdentityIndex fld_def wf_IdentityIndex_def zero_IdentityIndex_def)

lemma dec_enc_indexFile:
  assumes "list_all wf_IdentityIndex es"
  shows "dec_struct indexFile_fields (enc_indexFile \<lparr>xf_Version = 3, xf_Identities = es\<rparr>) \<lparr>xf_Version = 0, xf_Identities = []\<rparr>
     = (\<lparr>xf_Version = 3, xf_Identities = es\<rparr>, DOk)"
proof -
  have "dec_list (dec_struct IdentityIndex_fields) zero_IdentityIndex (JArr (map enc_IdentityIndex es)) cur = (es, DOk)" for cur
    using assms by (intro dec_jlist dec_enc_IdentityIndex) (auto simp: list_all_iff)
  then show ?thesis by (simp add: enc_indexFile_def json_rt find_indexFile fld_def int64_def)
qed

lemma dec_enc_metaWrapper:
  "wf_Identity i \<Longrightarrow> Identity_marshals i \<Longrightarrow>
   dec_struct metaWrapper_fields (enc_metaWrapper \<lparr>mw_Version = 3, mw_Identity = i\<rparr>) \<lparr>mw_Version = 0, mw_Identity = zero_Identity\<rparr>
     = (\<lparr>mw_Version = 3, mw_Identity = i\<rparr>, DOk)"
  by (simp add: enc_metaWrapper_def json_rt find_metaWrapper fld_def int64_def)

lemma dec_enc_portableBundle:
  "valid_utf8 (pb_EncryptionIdentity b) \<Longrightarrow> valid_utf8 (pb_SigningPrivateKey b) \<Longrightarrow> wf_Identity (pb_Info b) \<Longrightarrow>
   Identity_marshals (pb_Info b) \<Longrightarrow> dec_struct portableBundle_fields (enc_portableBundle b) zero_portableBundle = (b, DOk)"
  by (simp add: enc_portableBundle_def json_rt find_portableBundle fld_def zero_portableBundle_def)

lemma wf_enc_Identity: "wf_json 9998 (enc_Identity i)" "wf_json 9999 (enc_Identity i)"
  by (simp_all add: enc_Identity_def valid_utf8_ascii ball_Un set_omit)

lemma wf_enc_identity_files:
  "wf_json 10000 (enc_indexFile x)" "wf_json 10000 (enc_metaWrapper m)" "wf_json 10000 (enc_portableBundle b)"
  using wf_enc_Identity
  by (simp_all add: enc_indexFile_def enc_IdentityIndex_def enc_metaWrapper_def enc_portableBundle_def valid_utf8_ascii ball_Un set_omit)

interpretation index_file: file_store path "LoadIndex path" "SaveIndex path" "list_all wf_IdentityIndex" for path
proof
  show "LoadIndex path d' = Inr x"
    if "list_all wf_IdentityIndex x" "d_fault d SysRead path = None" "SaveIndex path d x = (d', Inr u)" for x d d' u
    using WriteFileAtomic_frame [OF that(3) [unfolded SaveIndex_def]] that(2) dec_enc_indexFile [OF that(1)]
    by (simp add: LoadIndex_def ReadFile_def IsNotExist_def unmarshal_indented wf_enc_identity_files)
  show "LoadIndex path d' = LoadIndex path d" if "SaveIndex path d x = (d', Inl e)" for d x d' e
    using WriteFileAtomic_err [OF that [unfolded SaveIndex_def]] ReadFile_same [of d' path d] by (simp add: LoadIndex_def)
  show "d_files d' q = d_files d q" if "SaveIndex path d x = (d', r)" "q \<noteq> path" for d x d' r q
    using WriteFileAtomic_frame(2) [OF that(1) [unfolded SaveIndex_def] that(2)] .
qed


text \<open>The keys ImportBytes hands to the keystore are the ones Unlock finds there.\<close>

context keystore
begin

lemma import_unlocks:
  assumes i: "ksinv s" and n: "okname (id_Name info)" and k: "okenc enc" and hw: "\<not> id_HWKey info"
    and st: "import_store rnd K info enc sigKey s = (s', info', Inr ())"
  shows "info' = info \<and> \<not> ks_HasKeys K (id_Name info) s \<and> (\<exists>s''. Unlock P K rnd' info s' = (s'', Inr
      \<lparr>u_info = info, u_encKey = NewEnclave P enc, u_sigKey = NewEnclave P sigKey, u_hwChallenge = []\<rparr>))"
proof -
  from st obtain s1 u where 1: "ks_StoreEncryptionIdentity K rnd (id_Name info) enc s = (s1, Inr u)"
      "ks_StoreSigningKey K (later rnd) (id_Name info) sigKey s1 = (s', Inr ())" "info' = info" "\<not> ks_HasKeys K (id_Name info) s"
    by (auto simp: import_store_def split: if_splits prod.splits sum.splits)
  from keys_kept [OF i n k 1(1,2), of rnd' "later rnd'"] obtain s3 s4 where
      "ks_LoadEncryptionIdentity K rnd' (id_Name info) s' = (s3, Inr enc)"
      "ks_LoadSigningKey K (later rnd') (id_Name info) s3 = (s4, Inr sigKey)" by auto
  with 1 hw show ?thesis by (simp add: Unlock_def Let_def)
qed

end

lemma ExportBytes_unseals:
  assumes P: "scrypt_correct P" and ex: "ExportBytes P rnd u pass = Inr b"
    and keys: "open_enc P u = Inr enc" "open_sig P u = Inr sig" and wf: "valid_utf8 enc" "wf_Identity (u_info u)"
  shows "unseal_bundle P b pass = Inr \<lparr>pb_EncryptionIdentity = enc, pb_SigningPrivateKey = b64_encode sig,
       pb_Info = u_info u, pb_HWKey = id_HWKey (u_info u), pb_HWChallenge = (if id_HWKey (u_info u) then u_hwChallenge u else [])\<rparr>"
    (is "_ = Inr ?pb")
proof -
  from ex keys have 1: "EncryptWithPassphraseBytes P rnd (compact (enc_portableBundle ?pb)) pass = Inr b" "pass \<noteq> []"
      "Identity_marshals (u_info u)"
    by (auto simp: ExportBytes_def split: if_splits)
  have "dec_struct portableBundle_fields (enc_portableBundle ?pb) zero_portableBundle = (?pb, DOk)"
    using wf 1(3) valid_utf8_ascii [OF plain_ascii [OF b64_plain]] by (intro dec_enc_portableBundle) simp_all
  then show ?thesis
    using scrypt_roundtrip [OF P 1(1)] 1(2) by (simp add: unseal_bundle_def unmarshal_compact wf_enc_identity_files)
qed

lemma ImportBytes_exported:
  assumes P: "scrypt_correct P" and ex: "ExportBytes P rnd u pass = Inr b"
    and keys: "open_enc P u = Inr enc" "open_sig P u = Inr sig" and wf: "valid_utf8 enc" "wf_Identity (u_info u)"
    and info: "ValidateName (id_Name (u_info u)) = Inr ()"
      "DerivePublic P enc sig = Inr (id_EncPubKey (u_info u), id_SignPubKey (u_info u), pub, id_Fingerprint (u_info u))"
  shows "ImportBytes P ulow r b pass K None s = import_store r K
     ((u_info u)\<lparr>id_HWKey := False, id_Alias := NormalizeAlias ulow (id_Alias (u_info u))\<rparr>) enc sig s"
  using ExportBytes_unseals [OF P ex keys wf] info by (simp add: ImportBytes_def import_checks_def b64_decode_encode Let_def)

lemma SaveMeta_loads:
  assumes P: "age_correct P" and sv: "SaveMeta P rnd st d i = (d', Inr u)" and wf: "wf_Identity i"
    and key: "ParseHybridIdentity P k = Inr x" "Recipient_String P x = id_EncPubKey i"
    and rd: "d_fault d' SysRead (meta_path st (id_Name i)) = None"
      "d_files d' (meta_path st (id_Name i)) = d_files d'' (meta_path st (id_Name i))" "d_fault d'' = d_fault d'"
  shows "Store_LoadMeta P st d'' (id_Name i) k idx = Inr (i\<lparr>id_Name := ix_Name idx, id_Backend := ix_Backend idx,
       id_HWKey := ix_HWKey idx, id_Alias := ix_Alias idx\<rparr>)"
proof -
  let ?j = "indented (enc_metaWrapper \<lparr>mw_Version = 3, mw_Identity = i\<rparr>)"
  from sv obtain ct where ct: "Encrypt P rnd ?j [id_EncPubKey i] = Inr ct" "Identity_marshals i"
      "WriteFileAtomic d (meta_path st (id_Name i)) ct = (d', Inr u)"
    by (auto simp: SaveMeta_def split: if_splits sum.splits)
  have "Decrypt P ct k = Inr ?j" using Encrypt_Decrypt [OF P ct(1) key(1)] key(2) by simp
  moreover have "ReadFile d'' (meta_path st (id_Name i)) = Inr ct"
    using WriteFileAtomic_frame(3) [OF ct(3)] rd by (simp add: ReadFile_def)
  moreover have "unmarshal (dec_struct metaWrapper_fields) \<lparr>mw_Version = 0, mw_Identity = zero_Identity\<rparr> ?j
      = Some \<lparr>mw_Version = 3, mw_Identity = i\<rparr>"
    using dec_enc_metaWrapper [OF wf ct(2)] by (simp add: unmarshal_indented wf_enc_identity_files)
  ultimately show ?thesis by (simp add: Store_LoadMeta_def)
qed


section \<open>Properties\<close>

text \<open>
  C29. Export and import: a bundle exported from an unlocked identity, read back with the same
  passphrase, peeks as that identity and passes every check of ImportBytes, so that the import comes
  down to storing the two keys; once they are stored in the file backend, unlocking the imported
  identity gives a handle with the same private keys and the same metadata, apart from the
  normalised alias and the hardware flag, which is cleared without a hardware restore.
\<close>

theorem Export_Import_Unlock:
  assumes laws: "scrypt_correct P" "age_framed P" "enclave_correct P"
    and keys: "open_enc P u = Inr enc" "open_sig P u = Inr sig" "enc \<noteq> []" "sig \<noteq> []" "TrimSpace enc = enc" "valid_utf8 enc"
    and info: "wf_Identity (u_info u)" "ValidateName (id_Name (u_info u)) = Inr ()"
      "DerivePublic P enc sig = Inr (id_EncPubKey (u_info u), id_SignPubKey (u_info u), pub, id_Fingerprint (u_info u))"
    and ex: "ExportBytes P rnd u pass = Inr b" and store: "cache_ok P f" "no_read_faults d"
  shows "PeekBytes P b pass = Inr (u_info u, id_HWKey (u_info u))
     \<and> ImportBytes P ulow r b pass (FileStore_Keystore P) None (f, d) = import_store r (FileStore_Keystore P)
          ((u_info u)\<lparr>id_HWKey := False, id_Alias := NormalizeAlias ulow (id_Alias (u_info u))\<rparr>) enc sig (f, d)
     \<and> (\<forall>s' info'. ImportBytes P ulow r b pass (FileStore_Keystore P) None (f, d) = (s', info', Inr ()) \<longrightarrow>
          info' = (u_info u)\<lparr>id_HWKey := False, id_Alias := NormalizeAlias ulow (id_Alias (u_info u))\<rparr>
          \<and> (\<exists>s'' u'. Unlock P (FileStore_Keystore P) r' info' s' = (s'', Inr u')
               \<and> u_info u' = info' \<and> open_enc P u' = Inr enc \<and> open_sig P u' = Inr sig))"
    (is "_ \<and> ?import = import_store r ?K ?i enc sig (f, d) \<and> _")
proof -
  note un = ExportBytes_unseals [OF laws(1) ex keys(1,2,6) info(1)]
  have n: "id_Name (u_info u) \<noteq> []" using info(2) by (auto simp: ValidateName_def)
  have peek: "PeekBytes P b pass = Inr (u_info u, id_HWKey (u_info u))" using un n by (simp add: PeekBytes_def PeekBytesFull_def)
  have imp: "?import = import_store r ?K ?i enc sig (f, d)"
    using ImportBytes_exported [OF laws(1) ex keys(1,2,6) info] .
  have inv: "fs_inv P (f, d)" using laws store by (simp add: fs_inv_def)
  obtain e1 e2 where enc: "NewEnclave P enc = Some e1" "Enclave_Open P e1 = Inr enc" "NewEnclave P sig = Some e2" "Enclave_Open P e2 = Inr sig"
    using laws(3) keys(3,4) unfolding enclave_correct_def by blast
  have "info' = ?i \<and> (\<exists>s'' u'. Unlock P ?K r' info' s' = (s'', Inr u') \<and> u_info u' = info' \<and> open_enc P u' = Inr enc \<and> open_sig P u' = Inr sig)"
    if "?import = (s', info', Inr ())" for s' info'
    using file_ks.import_unlocks [OF inv, of ?i enc r sig s' info' P r'] that info(2) keys(5) enc
    by (auto simp: imp open_enc_def open_sig_def)
  with peek imp show ?thesis by blast
qed

definition sample_unlocked :: Unlocked where
  "sample_unlocked = \<lparr>u_info = zero_Identity\<lparr>id_Name := ''alice'', id_EncPubKey := ''age1pq1eve'', id_SignPubKey := b64_encode ''pub'',
     id_Fingerprint := Fingerprint toy_prims ''age1pq1eve'' ''pub''\<rparr>,
     u_encKey = Some ''AGE-SECRET-KEY-PQ-1eve'', u_sigKey = Some ''pub'', u_hwChallenge = []\<rparr>"

lemma fs_plain_sample:
  assumes "d_fault d = (\<lambda>_ _. None)" "fs_passphraseFunc f = None" "fs_cache f = None"
  shows "fs_writeFile toy_prims r fn data (f, d) =
     ((f\<lparr>fs_resolved := True, fs_cache := None\<rparr>, d\<lparr>d_files := (d_files d)(filepath_Join (fs_dir f) fn \<mapsto> data)\<rparr>), Inr ())"
  using assms
  by (cases "fs_resolved f") (simp_all add: fs_writeFile_def os_MkdirAll_def os_WriteFile_def resolvePassphraseForName_def
      computePassphraseForName_def cacheStore_def)

lemma sample_unlocked_ok:
  "open_enc toy_prims sample_unlocked = Inr ''AGE-SECRET-KEY-PQ-1eve''" "open_sig toy_prims sample_unlocked = Inr ''pub''"
  "TrimSpace ''AGE-SECRET-KEY-PQ-1eve'' = ''AGE-SECRET-KEY-PQ-1eve''" "valid_utf8 ''AGE-SECRET-KEY-PQ-1eve''"
  "wf_Identity (u_info sample_unlocked)" "Identity_marshals (u_info sample_unlocked)" "ValidateName (id_Name (u_info sample_unlocked)) = Inr ()"
  "DerivePublic toy_prims ''AGE-SECRET-KEY-PQ-1eve'' ''pub'' = Inr (id_EncPubKey (u_info sample_unlocked),
     id_SignPubKey (u_info sample_unlocked), ''pub'', id_Fingerprint (u_info sample_unlocked))"
proof -
  have a: "ascii ''AGE-SECRET-KEY-PQ-1eve''" by (simp add: ascii_def)
  show "TrimSpace ''AGE-SECRET-KEY-PQ-1eve'' = ''AGE-SECRET-KEY-PQ-1eve''"
    using runes_all_ascii [OF a] by (intro TrimSpace_id) (simp_all add: is_space_def)
  show "valid_utf8 ''AGE-SECRET-KEY-PQ-1eve''" using a by (rule valid_utf8_ascii)
  show "open_enc toy_prims sample_unlocked = Inr ''AGE-SECRET-KEY-PQ-1eve''" "open_sig toy_prims sample_unlocked = Inr ''pub''"
    by (simp_all add: open_enc_def open_sig_def sample_unlocked_def toy_prims_def)
  have "ascii (Fingerprint toy_prims ''age1pq1eve'' ''pub'')"
    using hex_encode_digits [of "sha256 toy_prims (''age1pq1eve'' @ ''pub'')"] hex_ascii
    by (auto simp: Fingerprint_def ascii_def list_all_iff dest!: in_set_takeD)
  then show "wf_Identity (u_info sample_unlocked)"
    using valid_utf8_ascii [OF plain_ascii [OF b64_plain]]
    by (simp add: wf_Identity_def sample_unlocked_def zero_Identity_def valid_utf8_ascii ascii_def wf_time_def zero_time_def days_in_def leap_def
        del: b64_encode.simps)
  show "Identity_marshals (u_info sample_unlocked)"
    by (simp add: Identity_marshals_def sample_unlocked_def zero_Identity_def marshals_def zero_time_def)
  show "ValidateName (id_Name (u_info sample_unlocked)) = Inr ()" using sample_name(1) by (simp add: sample_unlocked_def)
  have "ParseHybridIdentity toy_prims ''AGE-SECRET-KEY-PQ-1eve'' = Inr ''AGE-SECRET-KEY-PQ-1eve''"
    "Recipient_String toy_prims ''AGE-SECRET-KEY-PQ-1eve'' = ''age1pq1eve''" "mldsa_PrivUnmarshal toy_prims ''pub'' = Inr ''pub''"
    "mldsa_Public toy_prims ''pub'' = ''pub''"
    by (simp_all add: toy_prims_def HasPrefix_def)
  then show "DerivePublic toy_prims ''AGE-SECRET-KEY-PQ-1eve'' ''pub'' = Inr (id_EncPubKey (u_info sample_unlocked),
     id_SignPubKey (u_info sample_unlocked), ''pub'', id_Fingerprint (u_info sample_unlocked))"
    by (simp add: DerivePublic_def Let_def sample_unlocked_def del: b64_encode.simps)
qed

lemma sample_export: "\<exists>b. ExportBytes toy_prims [] sample_unlocked ''pw'' = Inr b"
  using sample_unlocked_ok(1,2,6)
  by (simp add: ExportBytes_def toy_seal) (simp add: sample_unlocked_def zero_Identity_def)

lemma sample_import:
  "\<exists>s'. import_store r (FileStore_Keystore toy_prims) i enc sig (NewFileStoreWithDir ''/k'', empty_disk) = (s', i, Inr ())"
  by (simp add: import_store_def FileStore_Keystore_def FileStore_HasKeys_def stat_ok_def empty_disk_def NewFileStoreWithDir_def
      FileStore_StoreEncryptionIdentity_def FileStore_StoreSigningKey_def fs_plain_sample)

lemma sample_imported:
  "\<exists>b s' info. ExportBytes toy_prims [] sample_unlocked ''pw'' = Inr b
     \<and> ImportBytes toy_prims id (\<lambda>_. []) b ''pw'' (FileStore_Keystore toy_prims) None (NewFileStoreWithDir ''/k'', empty_disk) = (s', info, Inr ())"
proof -
  obtain b where b: "ExportBytes toy_prims [] sample_unlocked ''pw'' = Inr b" using sample_export by auto
  then show ?thesis
    using ImportBytes_exported [OF toy_laws(2) b sample_unlocked_ok(1,2,4,5,7,8)] sample_import [of "\<lambda>_. []"] by metis
qed

theorem Export_Import_Unlock_witness:
  "\<exists>b s' info s'' u. ExportBytes toy_prims [] sample_unlocked ''pw'' = Inr b
     \<and> ImportBytes toy_prims id (\<lambda>_. []) b ''pw'' (FileStore_Keystore toy_prims) None (NewFileStoreWithDir ''/k'', empty_disk) = (s', info, Inr ())
     \<and> Unlock toy_prims (FileStore_Keystore toy_prims) (\<lambda>_. []) info s' = (s'', Inr u)
     \<and> open_enc toy_prims u = Inr ''AGE-SECRET-KEY-PQ-1eve'' \<and> open_sig toy_prims u = Inr ''pub''"
proof -
  obtain b s' info where b: "ExportBytes toy_prims [] sample_unlocked ''pw'' = Inr b"
      "ImportBytes toy_prims id (\<lambda>_. []) b ''pw'' (FileStore_Keystore toy_prims) None (NewFileStoreWithDir ''/k'', empty_disk) = (s', info, Inr ())"
    using sample_imported by auto
  have c: "cache_ok toy_prims (NewFileStoreWithDir ''/k'')" by (simp add: cache_ok_def NewFileStoreWithDir_def)
  show ?thesis
    using Export_Import_Unlock [OF toy_laws(2,5,6) sample_unlocked_ok(1,2) _ _ sample_unlocked_ok(3,4,5,7,8) b(1) c empty_disk_ok,
        of id "\<lambda>_. []" "\<lambda>_. []"] b by blast
qed

text \<open>
  C4. Whatever bytes a bundle consists of: when ImportBytes succeeds, the public keys and the
  fingerprint it returns are derived from the very private keys it stored, the name is a valid one,
  the alias is normalised, and the keystore it stored into had no keys of that name before, so that
  no import replaces keys. The keystore is the given one, or the one the hardware restore of a
  hardware-protected bundle returned, and only in this case the identity is marked hardware-protected.
\<close>

definition import_target :: "'s Keystore \<Rightarrow> 's HWRestoreFn option \<Rightarrow> portableBundle \<Rightarrow> 's \<times> disk \<Rightarrow> 's Keystore \<times> ('s \<times> disk) \<times> bool" where
  "import_target K restoreHW pb s =
     (case (if pb_HWKey pb then restoreHW else None) of None \<Rightarrow> (K, s, False)
      | Some restore \<Rightarrow> (case restore (pb_HWChallenge pb) s of
          (s', Inr (Some hwKS)) \<Rightarrow> (hwKS, s', True) | (s', _) \<Rightarrow> (K, s', False)))"

lemma import_store_Inr:
  "import_store rnd K info enc sigKey s = (s', info', Inr ()) \<longleftrightarrow>
     info' = info \<and> \<not> ks_HasKeys K (id_Name info) s \<and> (\<exists>s1. ks_StoreEncryptionIdentity K rnd (id_Name info) enc s = (s1, Inr ())
       \<and> ks_StoreSigningKey K (later rnd) (id_Name info) sigKey s1 = (s', Inr ()))"
  by (auto simp: import_store_def split: prod.splits sum.splits)

lemma ImportBytes_Inr:
  assumes "ImportBytes P ulow rnd bundle pass K restoreHW s = (s', info, Inr ())"
  obtains pb sigKey i K' s0 hw where "import_checks P ulow bundle pass = Inr (pb, sigKey, i)" "import_target K restoreHW pb s = (K', s0, hw)"
    "import_store rnd K' (i\<lparr>id_HWKey := hw\<rparr>) (pb_EncryptionIdentity pb) sigKey s0 = (s', info, Inr ())"
proof -
  from assms obtain pb sigKey i where 1: "import_checks P ulow bundle pass = Inr (pb, sigKey, i)"
    by (auto simp: ImportBytes_def split: sum.splits)
  moreover have "i\<lparr>id_HWKey := False\<rparr> = i" using 1 by (auto simp: import_checks_def Let_def split: if_splits prod.splits)
  ultimately show thesis
    using assms that [OF 1, of "fst (import_target K restoreHW pb s)" "fst (snd (import_target K restoreHW pb s))"
        "snd (snd (import_target K restoreHW pb s))"]
    by (auto simp: ImportBytes_def import_target_def split: option.splits prod.splits sum.splits if_splits)
qed

theorem ImportBytes_binds:
  assumes "ImportBytes P ulow rnd bundle pass K restoreHW s = (s', info, Inr ())"
  shows "\<exists>pb sigKey pub K' s0 s1. unseal_bundle P bundle pass = Inr pb
     \<and> b64_decode (pb_SigningPrivateKey pb) = Inr sigKey
     \<and> DerivePublic P (pb_EncryptionIdentity pb) sigKey = Inr (id_EncPubKey info, id_SignPubKey info, pub, id_Fingerprint info)
     \<and> ValidateName (id_Name info) = Inr () \<and> Alias (id_Alias info) = Inr ()
     \<and> import_target K restoreHW pb s = (K', s0, id_HWKey info) \<and> \<not> ks_HasKeys K' (id_Name info) s0
     \<and> ks_StoreEncryptionIdentity K' rnd (id_Name info) (pb_EncryptionIdentity pb) s0 = (s1, Inr ())
     \<and> ks_StoreSigningKey K' (later rnd) (id_Name info) sigKey s1 = (s', Inr ())"
proof -
  from ImportBytes_Inr [OF assms] obtain pb sigKey i K' s0 hw where
      1: "import_checks P ulow bundle pass = Inr (pb, sigKey, i)" "import_target K restoreHW pb s = (K', s0, hw)"
      "import_store rnd K' (i\<lparr>id_HWKey := hw\<rparr>) (pb_EncryptionIdentity pb) sigKey s0 = (s', info, Inr ())" .
  from 1(3) obtain s1 where 2: "info = i\<lparr>id_HWKey := hw\<rparr>" "\<not> ks_HasKeys K' (id_Name i) s0"
      "ks_StoreEncryptionIdentity K' rnd (id_Name i) (pb_EncryptionIdentity pb) s0 = (s1, Inr ())"
      "ks_StoreSigningKey K' (later rnd) (id_Name i) sigKey s1 = (s', Inr ())"
    by (auto simp: import_store_Inr)
  from 1(1) NormalizeAlias_valid obtain pub where 3: "unseal_bundle P bundle pass = Inr pb"
      "b64_decode (pb_SigningPrivateKey pb) = Inr sigKey" "ValidateName (id_Name i) = Inr ()" "Alias (id_Alias i) = Inr ()"
      "DerivePublic P (pb_EncryptionIdentity pb) sigKey = Inr (id_EncPubKey i, id_SignPubKey i, pub, id_Fingerprint i)"
    by (auto simp: import_checks_def Let_def split: if_splits prod.splits)
  show ?thesis using 1(2) 2 3 by (cases s0, cases s1) auto
qed

theorem ImportBytes_binds_witness:
  "\<exists>b s' info pub. ImportBytes toy_prims id (\<lambda>_. []) b ''pw'' (FileStore_Keystore toy_prims) None
       (NewFileStoreWithDir ''/k'', empty_disk) = (s', info, Inr ())
     \<and> DerivePublic toy_prims ''AGE-SECRET-KEY-PQ-1eve'' ''pub'' = Inr (id_EncPubKey info, id_SignPubKey info, pub, id_Fingerprint info)"
proof -
  obtain b s' info where b: "ExportBytes toy_prims [] sample_unlocked ''pw'' = Inr b" and
      i: "ImportBytes toy_prims id (\<lambda>_. []) b ''pw'' (FileStore_Keystore toy_prims) None (NewFileStoreWithDir ''/k'', empty_disk) = (s', info, Inr ())"
    using sample_imported by auto
  note un = ExportBytes_unseals [OF toy_laws(2) b sample_unlocked_ok(1,2,4,5)]
  from ImportBytes_binds [OF i] un obtain pub where
      "DerivePublic toy_prims ''AGE-SECRET-KEY-PQ-1eve'' ''pub'' = Inr (id_EncPubKey info, id_SignPubKey info, pub, id_Fingerprint info)"
    by (auto simp: b64_decode_encode simp del: b64_encode.simps)
  with i show ?thesis by blast
qed

text \<open>
  A closed handle does nothing more: after Close every operation of the handle, and closing
  again, answers ErrUnlockedClosed, and no ciphertext, signature, plaintext or bundle comes out.
\<close>

theorem Close_final:
  "Unlocked_Sign P (Close u) m = Inl ErrUnlockedClosed
   \<and> Unlocked_Decrypt P (Close u) c = Inl ErrUnlockedClosed
   \<and> Unlocked_DecryptStream P (Close u) c = Inl ErrUnlockedClosed
   \<and> Unlocked_Encrypt P rnd (Close u) m rs = Inl ErrUnlockedClosed
   \<and> EncryptToSelf P rnd (Close u) m = Inl ErrUnlockedClosed
   \<and> Unlocked_GitSign P (Close u) c w = (w, Inl ErrUnlockedClosed)
   \<and> Unlocked_LoadMeta P st d (Close u) idx = (Close u, Inl ErrUnlockedClosed)
   \<and> ExportBytes P rnd (Close u) pass = Inl ErrUnlockedClosed
   \<and> Close (Close u) = Close u"
  by (simp add: Close_def Unlocked_Sign_def Unlocked_Decrypt_def Unlocked_DecryptStream_def Unlocked_Encrypt_def EncryptToSelf_def
      Unlocked_GitSign_def Unlocked_LoadMeta_def ExportBytes_def open_enc_def open_sig_def)


text \<open>
  The index: names identify entries, and no alias names two of them. Case folding is symmetric, as
  the orbits of unicode.SimpleFold are.
\<close>

definition index_ok :: "(nat \<Rightarrow> nat \<Rightarrow> bool) \<Rightarrow> IdentityIndex list \<Rightarrow> bool" where
  "index_ok ufold es \<longleftrightarrow> distinct (map ix_Name es) \<and> (\<forall>e\<in>set es. \<forall>e'\<in>set es.
     ix_Name e \<noteq> ix_Name e' \<longrightarrow> ix_Alias e \<noteq> [] \<longrightarrow> \<not> EqualFold ufold (ix_Alias e') (ix_Alias e))"

lemma EqualFold_sym:
  assumes "\<And>a b. ufold a b = ufold b a"
  shows "EqualFold ufold s t = EqualFold ufold t s"
proof -
  have "eq_fold_rune ufold a b = eq_fold_rune ufold b a" for a b
    using assms [of a b] by (auto simp: eq_fold_rune_def)
  then show ?thesis by (auto simp: EqualFold_def list_all2_conv_all_nth)
qed

lemma index_upsert_set:
  assumes "distinct (map ix_Name es)"
  shows "set (index_upsert entry es) = insert entry {e \<in> set es. ix_Name e \<noteq> ix_Name entry}"
proof (cases "find_index (\<lambda>e. ix_Name e = ix_Name entry) es")
  case None
  then have "\<forall>e\<in>set es. ix_Name e \<noteq> ix_Name entry" by (simp add: find_index_None)
  with None show ?thesis by (auto simp: index_upsert_def)
next
  case (Some i)
  then have i: "i < length es" "ix_Name (es ! i) = ix_Name entry" by (simp_all add: find_index_Some)
  have "e = es ! i" if "e \<in> set es" "ix_Name e = ix_Name entry" for e
    using that i assms by (metis (no_types, lifting) distinct_map inj_on_contraD nth_mem)
  then have "{e \<in> set es. ix_Name e \<noteq> ix_Name entry} = set es - {es ! i}" using i by auto
  with Some i(1) set_update_distinct [OF _ i(1)] assms show ?thesis by (simp add: index_upsert_def distinct_map)
qed

lemma index_upsert_distinct:
  assumes "distinct (map ix_Name es)"
  shows "distinct (map ix_Name (index_upsert entry es))"
proof (cases "find_index (\<lambda>e. ix_Name e = ix_Name entry) es")
  case None
  then have "\<forall>e\<in>set es. ix_Name e \<noteq> ix_Name entry" by (simp add: find_index_None)
  with None assms show ?thesis by (auto simp: index_upsert_def)
next
  case (Some i)
  then have i: "i < length es" "ix_Name (es ! i) = ix_Name entry" by (simp_all add: find_index_Some)
  have "map ix_Name (es[i := entry]) = (map ix_Name es)[i := ix_Name (es ! i)]" using i(2) by (simp add: map_update)
  also have "\<dots> = map ix_Name es" using i(1) by (simp flip: nth_map)
  finally have "map ix_Name (es[i := entry]) = map ix_Name es" .
  with Some assms show ?thesis by (simp add: index_upsert_def)
qed

lemma CheckAliasUnique_Inr:
  "CheckAliasUnique ufold es a self = Inr u \<longleftrightarrow> a = [] \<or> (\<forall>e\<in>set es. ix_Name e \<noteq> self \<longrightarrow>
     \<not> EqualFold ufold (ix_Alias e) a \<and> \<not> EqualFold ufold (ix_Name e) a)"
  by (auto simp: CheckAliasUnique_def list_ex_iff)

lemma index_upsert_ok:
  assumes "\<And>a b. ufold a b = ufold b a" "index_ok ufold es"
    "CheckAliasUnique ufold es (ix_Alias entry) (ix_Name entry) = Inr ()"
  shows "index_ok ufold (index_upsert entry es)"
proof -
  have d: "distinct (map ix_Name es)" using assms(2) by (simp add: index_ok_def)
  have "\<not> EqualFold ufold (ix_Alias e') (ix_Alias e)"
    if "e \<in> set (index_upsert entry es)" "e' \<in> set (index_upsert entry es)" "ix_Name e \<noteq> ix_Name e'" "ix_Alias e \<noteq> []" for e e'
    using that assms(2,3) EqualFold_sym [of ufold "ix_Alias e'" "ix_Alias e", OF assms(1)]
    by (auto simp: index_upsert_set [OF d] CheckAliasUnique_Inr index_ok_def)
  then show ?thesis using index_upsert_distinct [OF d] by (auto simp: index_ok_def)
qed

text \<open>What PersistImported writes.\<close>

definition persisted :: "(nat \<Rightarrow> nat \<Rightarrow> bool) \<Rightarrow> IdentityIndex list \<Rightarrow> Identity \<Rightarrow> bytes \<Rightarrow> Identity" where
  "persisted ufold entries info backend = info\<lparr>id_Alias :=
     (if CheckAliasUnique ufold entries (id_Alias info) (id_Name info) = Inr () then id_Alias info else []), id_Backend := backend\<rparr>"

definition entry_of :: "Identity \<Rightarrow> IdentityIndex" where
  "entry_of i = \<lparr>ix_Name = id_Name i, ix_Backend = id_Backend i, ix_HWKey = id_HWKey i, ix_HWKEK = [],
     ix_Fingerprint = id_Fingerprint i, ix_Alias = id_Alias i\<rparr>"

lemma PersistImported_cases:
  assumes "LoadIndex (st_path st) d = Inr entries" "PersistImported P ufold rnd st d info backend = (d', isFirst, dropped, r)"
    "distinct (map ix_Name entries)"
  obtains (refused) e where "r = Inl e" "d' = d"
  | (meta) e where "r \<noteq> Inr ()" "SaveMeta P rnd st d (persisted ufold entries info backend) = (d', Inl e)"
      "\<And>e. e \<in> set entries \<Longrightarrow> ix_Name e = id_Name info \<Longrightarrow> \<not> hijacks info e"
  | (index) d1 u r' where "SaveMeta P rnd st d (persisted ufold entries info backend) = (d1, Inr u)"
      "SaveIndex (st_path st) d1 (index_upsert (entry_of (persisted ufold entries info backend)) entries) = (d', r')"
      "r = Inr () \<longleftrightarrow> r' = Inr ()" "\<And>e. e \<in> set entries \<Longrightarrow> ix_Name e = id_Name info \<Longrightarrow> \<not> hijacks info e"
proof (cases "case find_index (\<lambda>e. ix_Name e = id_Name info) entries of Some i \<Rightarrow> hijacks info (entries ! i) | None \<Rightarrow> False")
  case True
  with assms refused show thesis by (auto simp: PersistImported_def Let_def)
next
  case False
  have h: "\<not> hijacks info e" if "e \<in> set entries" "ix_Name e = id_Name info" for e
  proof (cases "find_index (\<lambda>e. ix_Name e = id_Name info) entries")
    case None
    then show ?thesis using that by (simp add: find_index_None)
  next
    case (Some i)
    then have "entries ! i = e" using that assms(3) unfolding find_index_Some
      by (metis (no_types, lifting) distinct_map inj_on_contraD nth_mem)
    then show ?thesis using False Some by simp
  qed
  let ?i = "persisted ufold entries info backend"
  have p: "info\<lparr>id_Alias := (if CheckAliasUnique ufold entries (id_Alias info) (id_Name info) \<noteq> Inr () then [] else id_Alias info),
      id_Backend := backend\<rparr> = ?i" by (simp add: persisted_def)
  have e: "\<lparr>ix_Name = id_Name info, ix_Backend = backend, ix_HWKey = id_HWKey info, ix_HWKEK = [], ix_Fingerprint = id_Fingerprint info,
      ix_Alias = (if CheckAliasUnique ufold entries (id_Alias info) (id_Name info) \<noteq> Inr () then [] else id_Alias info)\<rparr> = entry_of ?i" by (simp add: persisted_def entry_of_def)
  obtain d1 r1 where 1: "SaveMeta P rnd st d ?i = (d1, r1)" by (cases "SaveMeta P rnd st d ?i")
  show thesis
  proof (cases r1)
    case (Inl x)
    then show thesis using assms(1,2) False 1 meta h by (auto simp: PersistImported_def Let_def p)
  next
    case (Inr u)
    obtain r' d2 where 2: "SaveIndex (st_path st) d1 (index_upsert (entry_of ?i) entries) = (d2, r')"
      by (cases "SaveIndex (st_path st) d1 (index_upsert (entry_of ?i) entries)")
    then show thesis using assms(1,2) False 1 Inr index [OF _ _ _ h] by (auto simp: PersistImported_def Let_def p e split: sum.splits)
  qed
qed


lemma SaveMeta_frame:
  assumes "SaveMeta P rnd st d i = (d', r)"
  shows "d_fault d' = d_fault d" "q \<noteq> meta_path st (id_Name i) \<Longrightarrow> d_files d' q = d_files d q"
  using assms WriteFileAtomic_frame(1,2) [of d "meta_path st (id_Name i)" _ d' r]
  by (auto simp: SaveMeta_def split: if_splits sum.splits)

lemma LoadIndex_same: "d_files d path = d_files d' path \<Longrightarrow> d_fault d = d_fault d' \<Longrightarrow> LoadIndex path d = LoadIndex path d'"
  by (simp add: LoadIndex_def ReadFile_same [of d path d'])

lemma index_upsert_wf: "list_all wf_IdentityIndex es \<Longrightarrow> wf_IdentityIndex e \<Longrightarrow> list_all wf_IdentityIndex (index_upsert e es)"
  by (auto simp: index_upsert_def list_all_iff split: option.split dest!: set_update_subset_insert [THEN subsetD])

lemma persisted_facts:
  "id_Name (persisted uf es info b) = id_Name info" "id_EncPubKey (persisted uf es info b) = id_EncPubKey info"
  "wf_Identity info \<Longrightarrow> valid_utf8 b \<Longrightarrow> wf_Identity (persisted uf es info b)"
  "wf_Identity info \<Longrightarrow> valid_utf8 b \<Longrightarrow> wf_IdentityIndex (entry_of (persisted uf es info b))"
  "CheckAliasUnique uf es (id_Alias (persisted uf es info b)) (id_Name info) = Inr ()"
  by (auto simp: persisted_def entry_of_def wf_Identity_def wf_IdentityIndex_def CheckAliasUnique_def valid_utf8_ascii ascii_def)

text \<open>
  C25. Persisting an import keeps the index sound: whether it succeeds or fails at any point, the
  index loads afterwards, names still identify entries and no alias names two; an entry of another
  name is unchanged, and an entry that has a fingerprint keeps it if the import carries a fingerprint
  too, so that a bundle with other keys named like an existing identity cannot take its place. An import
  without a fingerprint is not refused: after success the entry has the fingerprint of the import, even
  the empty one. After an error the index is the old one; after success the meta file of the entry,
  opened with the private key, gives the imported identity with the alias the index has, dropped if it
  was taken. Assumed: the index loads and is sound before, it and the meta file can be read and are
  different files, the private key belongs to the import, and case folding is symmetric.
\<close>

theorem PersistImported_index:
  assumes sym: "\<And>a b. ufold a b = ufold b a"
    and load: "LoadIndex (st_path st) d = Inr entries" "index_ok ufold entries" "list_all wf_IdentityIndex entries"
    and wf: "wf_Identity info" "valid_utf8 backend"
    and disk: "d_fault d SysRead (st_path st) = None" "d_fault d SysRead (meta_path st (id_Name info)) = None"
      "meta_path st (id_Name info) \<noteq> st_path st"
    and key: "age_correct P" "ParseHybridIdentity P k = Inr x" "Recipient_String P x = id_EncPubKey info"
    and run: "PersistImported P ufold rnd st d info backend = (d', isFirst, dropped, r)"
  shows "\<exists>entries'. LoadIndex (st_path st) d' = Inr entries' \<and> index_ok ufold entries' \<and> (r \<noteq> Inr () \<longrightarrow> entries' = entries)
     \<and> (\<forall>e\<in>set entries. \<exists>e'\<in>set entries'. ix_Name e' = ix_Name e \<and> (ix_Name e \<noteq> id_Name info \<longrightarrow> e' = e)
          \<and> (ix_Fingerprint e \<noteq> [] \<longrightarrow> id_Fingerprint info \<noteq> [] \<longrightarrow> ix_Fingerprint e' = ix_Fingerprint e))
     \<and> (r = Inr () \<longrightarrow> (\<exists>e\<in>set entries'. ix_Name e = id_Name info \<and> ix_Fingerprint e = id_Fingerprint info
          \<and> Store_LoadMeta P st d' (id_Name info) k e = Inr (info\<lparr>id_Alias := ix_Alias e, id_Backend := backend\<rparr>)))"
proof -
  let ?i = "persisted ufold entries info backend"
  have dn: "distinct (map ix_Name entries)" using load(2) by (simp add: index_ok_def)
  have old: ?thesis if "LoadIndex (st_path st) d' = Inr entries" "r \<noteq> Inr ()" using that load(2) by auto
  from load(1) run dn show ?thesis
  proof (cases rule: PersistImported_cases [consumes 3, case_names refused meta index])
    case (refused e)
    then show ?thesis using old load(1) by simp
  next
    case (meta e)
    with LoadIndex_same [of d' "st_path st" d] SaveMeta_frame [OF meta(2)] disk(3) show ?thesis
      using old load(1) by (simp add: persisted_facts)
  next
    case (index d1 u r')
    let ?entry = "entry_of ?i"
    let ?es = "index_upsert ?entry entries"
    note f1 = SaveMeta_frame [OF index(1), unfolded persisted_facts]
    note f2 = WriteFileAtomic_frame [OF index(2) [unfolded SaveIndex_def]]
    have l1: "LoadIndex (st_path st) d1 = Inr entries"
      using LoadIndex_same [of d1 "st_path st" d] f1 disk(3) load(1) by simp
    show ?thesis
    proof (cases "r' = Inr ()")
      case False
      then obtain e where "r' = Inl e" by (cases r') auto
      then show ?thesis using old index_file.load_unsaved index(2,3) l1 by auto
    next
      case True
      have "LoadIndex (st_path st) d' = Inr ?es"
        using index_file.load_saved [OF index_upsert_wf [OF load(3) persisted_facts(4) [OF wf]] _ index(2) [unfolded True]] f1(1) disk(1) by simp
      moreover have "index_ok ufold ?es"
        using persisted_facts(5) by (intro index_upsert_ok sym load(2)) (simp add: entry_of_def persisted_facts)
      moreover have "\<exists>e'\<in>set ?es. ix_Name e' = ix_Name e \<and> (ix_Name e \<noteq> id_Name info \<longrightarrow> e' = e)
          \<and> (ix_Fingerprint e \<noteq> [] \<longrightarrow> id_Fingerprint info \<noteq> [] \<longrightarrow> ix_Fingerprint e' = ix_Fingerprint e)" if "e \<in> set entries" for e
        using that index(4) [OF that]
        by (cases "ix_Name e = id_Name info") (auto simp: index_upsert_set [OF dn] entry_of_def persisted_def hijacks_def)
      moreover have "Store_LoadMeta P st d' (id_Name ?i) k ?entry = Inr (?i\<lparr>id_Name := ix_Name ?entry, id_Backend := ix_Backend ?entry,
            id_HWKey := ix_HWKey ?entry, id_Alias := ix_Alias ?entry\<rparr>)"
        using f1(1) f2(1,2) disk key(3)
        by (intro SaveMeta_loads [OF key(1) index(1) persisted_facts(3) [OF wf] key(2)]) (simp_all add: persisted_facts)
      ultimately show ?thesis
        using True index(3) by (intro exI [of _ ?es]) (auto simp: index_upsert_set [OF dn] entry_of_def persisted_def)
    qed
  qed
qed


lemma atomic_no_faults: "d_fault d = (\<lambda>_ _. None) \<Longrightarrow> \<exists>d'. WriteFileAtomic d path data = (d', Inr ()) \<and> d_fault d' = d_fault d"
  by (simp add: WriteFileAtomic_clean)

theorem PersistImported_index_witness:
  "\<exists>d' first dropped es. PersistImported toy_prims (\<lambda>_ _. False) [] \<lparr>st_path = ''/p/ids.json'', st_metaDir = ''/p/meta''\<rparr> empty_disk
        (u_info sample_unlocked) BackendFile = (d', first, dropped, Inr ())
     \<and> LoadIndex ''/p/ids.json'' d' = Inr es \<and> (\<exists>e\<in>set es. ix_Name e = ''alice'')"
proof -
  let ?st = "\<lparr>st_path = ''/p/ids.json'', st_metaDir = ''/p/meta''\<rparr>"
  let ?info = "u_info sample_unlocked"
  let ?i = "persisted (\<lambda>_ _. False) [] ?info BackendFile"
  have nf: "d_fault empty_disk = (\<lambda>_ _. None)" by (simp add: empty_disk_def)
  have load: "LoadIndex (st_path ?st) empty_disk = Inr []" by (simp add: LoadIndex_def ReadFile_def empty_disk_def IsNotExist_def)
  have ok: "index_ok (\<lambda>_ _. False) []" "list_all wf_IdentityIndex []" "valid_utf8 BackendFile"
    by (simp_all add: index_ok_def BackendFile_def valid_utf8_ascii ascii_def)
  have key: "ParseHybridIdentity toy_prims ''AGE-SECRET-KEY-PQ-1eve'' = Inr ''AGE-SECRET-KEY-PQ-1eve''"
    "Recipient_String toy_prims ''AGE-SECRET-KEY-PQ-1eve'' = id_EncPubKey ?info" "ParseHybridRecipient toy_prims (id_EncPubKey ?info) = Inr (id_EncPubKey ?info)"
    by (simp_all add: toy_prims_def HasPrefix_def sample_unlocked_def)
  have enc: "\<exists>ct. Encrypt toy_prims [] m [id_EncPubKey ?info] = Inr ct" for m
    using key(3) by (simp add: Encrypt_def parseRecipients_def) (simp add: toy_prims_def)
  have pm: "Identity_marshals ?i" using sample_unlocked_ok(6) by (simp add: Identity_marshals_def persisted_def)
  obtain d1 where d1: "SaveMeta toy_prims [] ?st empty_disk ?i = (d1, Inr ())" "d_fault d1 = (\<lambda>_ _. None)"
    using enc [of "indented (enc_metaWrapper \<lparr>mw_Version = 3, mw_Identity = ?i\<rparr>)"] atomic_no_faults [OF nf] pm nf
    by (fastforce simp: SaveMeta_def persisted_facts)
  obtain d2 where d2: "SaveIndex (st_path ?st) d1 (index_upsert (entry_of ?i) []) = (d2, Inr ())"
    using atomic_no_faults [OF d1(2)] by (auto simp: SaveIndex_def)
  have "CheckAliasUnique (\<lambda>_ _. False) [] a n = Inr ()" for a n by (simp add: CheckAliasUnique_def)
  then have run: "PersistImported toy_prims (\<lambda>_ _. False) [] ?st empty_disk ?info BackendFile = (d2, True, False, Inr ())"
    using load d1(1) d2 by (simp add: PersistImported_def Let_def persisted_def entry_of_def)
  have path: "meta_path ?st (id_Name ?info) \<noteq> st_path ?st"
    by (simp add: meta_path_def sample_unlocked_def filepath_Join_def Clean_def clean_parts_def clean_step_def HasPrefix_def)
  have n: "id_Name ?info = ''alice''" by (simp add: sample_unlocked_def)
  from PersistImported_index [OF _ load ok(1,2) sample_unlocked_ok(5) ok(3) _ _ path toy_laws(1) key(1,2) run] run n show ?thesis
    by (auto simp: empty_disk_def)
qed


text \<open>
  The public lock of an identity: once the lock signature was made with the identity's signing
  key and stored in it, the lock built from the identity verifies, for as long as its id, keys and
  fingerprint stay; name, alias and email may change without a new signature.
\<close>

theorem LockBundleOf_verifies:
  assumes P: "mldsa_correct P" and keys: "DerivePublic P enc priv = Inr (id_EncPubKey i, id_SignPubKey i, pub, id_Fingerprint i)"
    and sig: "SealLockSigWithKey P priv i = Inr sig" "sig \<noteq> []"
  shows "VerifyLockSelfSig P (LockBundleOf (i\<lparr>id_LockSig := sig, id_Name := name, id_Email := email, id_Alias := alias\<rparr>)) = Inr ()"
proof -
  from sig obtain s where s: "Sign P (CanonicalLockBytes (LockBundleOf i)) priv = Inr s" "sig = b64_encode s"
    by (auto simp: SealLockSigWithKey_def)
  from keys obtain k where k: "mldsa_PrivUnmarshal P priv = Inr k" "pub = mldsa_Public P k" "id_SignPubKey i = b64_encode pub"
      "id_Fingerprint i = Fingerprint P (id_EncPubKey i) pub"
    by (auto simp: DerivePublic_def Let_def)
  let ?lb = "LockBundleOf (i\<lparr>id_LockSig := sig, id_Name := name, id_Email := email, id_Alias := alias\<rparr>)"
  have "CanonicalLockBytes ?lb = CanonicalLockBytes (LockBundleOf i)" by (simp add: CanonicalLockBytes_def LockBundleOf_def)
  then show ?thesis
    using Sign_Verify [OF P s(1) k(1)] k sig(2)
    by (simp add: VerifyLockSelfSig_def VerifyFingerprint_def s(2) b64_decode_encode LockBundleOf_def)
qed

theorem LockBundleOf_verifies_witness:
  "\<exists>sig. SealLockSigWithKey toy_prims ''pub'' (u_info sample_unlocked) = Inr sig
     \<and> VerifyLockSelfSig toy_prims (LockBundleOf ((u_info sample_unlocked)\<lparr>id_LockSig := sig, id_Name := ''bob'', id_Email := [], id_Alias := ''b''\<rparr>)) = Inr ()"
proof -
  have "Sign toy_prims m ''pub'' = Inr (''pub'' @ m)" for m by (simp add: Sign_def toy_prims_def)
  then obtain sig where s: "SealLockSigWithKey toy_prims ''pub'' (u_info sample_unlocked) = Inr sig" "sig \<noteq> []"
    by (simp add: SealLockSigWithKey_def)
  with LockBundleOf_verifies [OF toy_laws(3) sample_unlocked_ok(8) s] show ?thesis by blast
qed

end
