(* ===== verification/Icfx_Encrypt.thy ===== *)
theory Icfx_Encrypt
  imports Icfx_Identity
begin

text \<open>
  Package encrypt: the one writer of .icfx containers. The source is a stream, the bytes it yields
  and the error that ends it (\<open>None\<close> at end of file); the destination is a \<open>writer\<close>; the temporary
  ciphertext file is represented by the system calls on it that fail. The two digests taken on the
  way through are the digests of the whole plaintext and of the whole ciphertext.
\<close>

type_synonym stream = "bytes \<times> go_error option"

text \<open>io.Copy: everything that was read is written; the read error is returned after it.\<close>

definition io_Copy :: "writer \<Rightarrow> stream \<Rightarrow> writer \<times> unit result" where
  "io_Copy w s = (case Write w (fst s) of (w', Inl e) \<Rightarrow> (w', Inl e)
     | (w', Inr _) \<Rightarrow> (w', case snd s of Some e \<Rightarrow> Inl e | None \<Rightarrow> Inr ()))"

text \<open>The metadata that is sealed: the signer fills in or confirms the sender fingerprint.\<close>

definition sealed_meta :: "Unlocked option \<Rightarrow> Metadata \<Rightarrow> Metadata result" where
  "sealed_meta signer meta =
     (if \<not> IsSigned meta then Inr meta
      else case signer of None \<Rightarrow> Inl (Errorf ''meta.IsSigned set but no signer provided'')
       | Some u \<Rightarrow>
         let fp = id_Fingerprint (u_info u) in
         andthen (wrapping ''signer has no usable fingerprint: %w'' (ValidateFingerprint fp)) (\<lambda>_.
         if SenderFingerprint meta = [] then Inr (meta\<lparr>SenderFingerprint := fp\<rparr>)
         else if SenderFingerprint meta = fp then Inr meta
         else Inl (Errorf ''meta.SenderFingerprint %q does not match the signer %q'')))"

text \<open>Step 1: the plaintext behind its sealed metadata, encrypted into the temporary file.\<close>

definition encrypt_payload ::
    "prims \<Rightarrow> bytes \<Rightarrow> (syscall \<Rightarrow> go_error option) \<Rightarrow> bytes list \<Rightarrow> bytes \<Rightarrow> stream \<Rightarrow> bytes result" where
  "encrypt_payload P rnd tmp recipients metaJSON src =
     andthen (case tmp SysCreateTemp of Some e \<Rightarrow> Inl (Wrap ''creating temp file: %w'' e) | None \<Rightarrow> Inr ()) (\<lambda>_.
     andthen (wrapping ''starting encryption: %w'' (EncryptStream P rnd recipients)) (\<lambda>ew.
     andthen (case snd src of Some e \<Rightarrow> Inl (Wrap ''encrypting payload: %w'' e) | None \<Rightarrow> Inr ()) (\<lambda>_.
     andthen (case tmp SysWrite of Some e \<Rightarrow> Inl (Wrap ''encrypting payload: %w'' e) | None \<Rightarrow> Inr ()) (\<lambda>_.
     wrapping ''finalizing ciphertext: %w'' (ew (put_uint16 (of_nat (length metaJSON)) @ metaJSON @ fst src))))))"

text \<open>Step 2: the signature over profile, plaintext and ciphertext.\<close>

definition sign_payload :: "prims \<Rightarrow> Unlocked option \<Rightarrow> Metadata \<Rightarrow> Profile \<Rightarrow> bytes \<Rightarrow> bytes \<Rightarrow> bytes result" where
  "sign_payload P signer meta profile plaintext payload =
     andthen (if \<not> IsSigned meta then Inr []
              else case signer of None \<Rightarrow> Inl (Errorf ''nil pointer'')
               | Some u \<Rightarrow> wrapping ''signing: %w'' (Unlocked_Sign P u
                   (SignedMessage profile (NewContainerDigest P plaintext) (NewContainerDigest P payload)))) (\<lambda>signature.
     if length signature > 65535 then Inl (Errorf ''signature too large: %d bytes'') else Inr signature)"

text \<open>Step 3: the container, part by part; the payload is copied back from the temporary file.\<close>

definition write_container ::
    "(syscall \<Rightarrow> go_error option) \<Rightarrow> writer \<Rightarrow> Profile \<Rightarrow> bytes \<Rightarrow> bytes \<Rightarrow> bytes \<Rightarrow> writer \<times> unit result" where
  "write_container tmp dst profile headerMeta payload signature =
     sbind (WriteAll dst ([MagicBytes, [char_of (unat profile)], put_uint16 (of_nat (length headerMeta))]
       @ (if length headerMeta > 0 then [headerMeta] else []) @ [put_uint64 (of_nat (length payload))])) (\<lambda>_ dst.
     sbind (dst, case tmp SysRead of Some e \<Rightarrow> Inl e | None \<Rightarrow> Inr ()) (\<lambda>_ dst.
     sbind (swrap ''writing payload: %w'' (io_Copy dst (payload, None))) (\<lambda>_ dst.
     WriteAll dst (put_uint16 (of_nat (length signature)) # (if length signature > 0 then [signature] else [])))))"

definition encrypt_EncryptStream ::
    "prims \<Rightarrow> bytes \<Rightarrow> (syscall \<Rightarrow> go_error option) \<Rightarrow> writer \<Rightarrow> stream \<Rightarrow> bytes list \<Rightarrow> Unlocked option \<Rightarrow> Metadata \<Rightarrow> Profile
     \<Rightarrow> writer \<times> unit result" where
  "encrypt_EncryptStream P rnd tmp dst src recipients signer meta profile =
     (if profile \<noteq> ProfilePrivate \<and> profile \<noteq> ProfilePublic
      then (dst, Inl (Errorf ''EncryptStream: profile %#x is not writable (legacy profiles are decrypt-only)''))
      else sbind (dst, sealed_meta signer meta) (\<lambda>meta dst.
      sbind (dst, wrapping ''marshaling metadata: %w'' (Marshal_Metadata meta)) (\<lambda>metaJSON dst.
      if length metaJSON > 65535 then (dst, Inl (Errorf ''metadata too large: %d bytes''))
      else sbind (dst, encrypt_payload P rnd tmp recipients metaJSON src) (\<lambda>payload dst.
      sbind (dst, sign_payload P signer meta profile (fst src) payload) (\<lambda>signature dst.
      write_container tmp dst profile (if Public profile then metaJSON else []) payload signature)))))"

text \<open>
  An open output file: what was written so far, and how much the disk takes before a write fails.
  Writing to a path replaces the content it has after the truncating open.
\<close>

definition open_output :: "disk \<Rightarrow> bytes \<Rightarrow> (disk \<times> writer) result" where
  "open_output d path =
     (case d_fault d SysOpen path of Some e \<Rightarrow> Inl (Wrap ''open'' e)
      | None \<Rightarrow> Inr (d\<lparr>d_files := (d_files d)(path \<mapsto> [])\<rparr>,
          \<lparr>w_out = [], w_cap = (if d_fault d SysWrite path = None then None else Some (d_short d))\<rparr>))"

definition flush_output :: "disk \<Rightarrow> bytes \<Rightarrow> writer \<Rightarrow> disk" where
  "flush_output d path w = d\<lparr>d_files := (d_files d)(path \<mapsto> w_out w)\<rparr>"

definition close_result :: "disk \<Rightarrow> bytes \<Rightarrow> unit result" where
  "close_result d path = (case d_fault d SysClose path of Some e \<Rightarrow> Inl (Wrap ''close'' e) | None \<Rightarrow> Inr ())"

text \<open>
  The ending EncryptFile and DecryptFile share: the output is closed, and removed when the
  operation or the close failed.
\<close>

definition finish_output :: "disk \<Rightarrow> bytes \<Rightarrow> writer \<Rightarrow> 'a result \<Rightarrow> disk \<times> 'a result" where
  "finish_output d path w r =
     (let d' = flush_output d path w in
      (case r of Inl e \<Rightarrow> (fst (os_Remove d' path), Inl e)
       | Inr v \<Rightarrow>
         (case close_result d' path of
            Inl e \<Rightarrow> (fst (os_Remove d' path), Inl (Wrap ''finalizing output: %w'' e))
          | Inr _ \<Rightarrow> (d', Inr v))))"

text \<open>
  Opening a file for reading fails as os.ReadFile does; its content is read after the output was
  truncated, which matters when both are one file.
\<close>

definition os_Open :: "disk \<Rightarrow> bytes \<Rightarrow> unit result" where
  "os_Open d path = (case d_files d path of None \<Rightarrow> Inl ErrNotExist
     | Some _ \<Rightarrow> (case d_fault d SysOpen path of Some e \<Rightarrow> Inl (Wrap ''open'' e) | None \<Rightarrow> Inr ()))"

definition file_stream :: "disk \<Rightarrow> bytes \<Rightarrow> stream" where
  "file_stream d path = (case d_fault d SysRead path of Some e \<Rightarrow> ([], Some (Wrap ''read'' e))
     | None \<Rightarrow> (case d_files d path of Some bs \<Rightarrow> (bs, None) | None \<Rightarrow> ([], None)))"

definition EncryptFile ::
    "prims \<Rightarrow> bytes \<Rightarrow> (syscall \<Rightarrow> go_error option) \<Rightarrow> disk \<Rightarrow> bytes \<Rightarrow> bytes \<Rightarrow> bytes list \<Rightarrow> Unlocked option \<Rightarrow> Metadata \<Rightarrow> Profile
     \<Rightarrow> disk \<times> unit result" where
  "EncryptFile P rnd tmp d inPath outPath recipients signer meta profile =
     (case os_Open d inPath of Inl e \<Rightarrow> (d, Inl e)
      | Inr _ \<Rightarrow>
        (case open_output d outPath of Inl e \<Rightarrow> (d, Inl e)
         | Inr (d1, out) \<Rightarrow>
           (case encrypt_EncryptStream P rnd tmp out (file_stream d1 inPath) recipients signer meta profile of
              (out', r) \<Rightarrow> finish_output d1 outPath out' r)))"

section \<open>Lemmas\<close>

lemma io_Copy_ok: "io_Copy w s = (w', Inr u) \<longleftrightarrow> Write w (fst s) = (w', Inr ()) \<and> snd s = None"
  by (auto simp: io_Copy_def split: prod.splits sum.splits option.splits)

lemma wrap_andthen_EncryptStream:
  "andthen (wrapping m (EncryptStream P rnd rs)) (\<lambda>ew. ew d) = Inr ct \<longleftrightarrow> Encrypt P rnd d rs = Inr ct"
  by (auto simp: EncryptStream_def Encrypt_def)

lemma encrypt_payload_ok:
  "encrypt_payload P rnd tmp rs js src = Inr ct \<longleftrightarrow>
     tmp SysCreateTemp = None \<and> tmp SysWrite = None \<and> snd src = None
     \<and> Encrypt P rnd (put_uint16 (of_nat (length js)) @ js @ fst src) rs = Inr ct"
  by (auto simp: encrypt_payload_def EncryptStream_def Encrypt_def split: option.splits)

lemma concat_opt: "concat (if length x > 0 then [x] else []) = x"
  by simp

lemma write_container_ok:
  assumes "write_container tmp w p hm payload sig = (w', Inr u)"
  shows "w_out w' = w_out w @ stream_container p hm payload sig \<and> tmp SysRead = None"
proof -
  from assms obtain w1 w2 where
      1: "WriteAll w ([MagicBytes, [char_of (unat p)], put_uint16 (of_nat (length hm))]
       @ (if length hm > 0 then [hm] else []) @ [put_uint64 (of_nat (length payload))]) = (w1, Inr ())"
    and 2: "Write w1 payload = (w2, Inr ())" "tmp SysRead = None"
    and 3: "WriteAll w2 (put_uint16 (of_nat (length sig)) # (if length sig > 0 then [sig] else [])) = (w', Inr u)"
    unfolding write_container_def by (auto simp: sbind_Inr_iff io_Copy_ok split: option.splits)
  have "w_out w1 = w_out w @ stream_prefix p hm (length payload)"
    using WriteAll_ok [OF 1] by (simp add: stream_prefix_def concat_opt del: concat.simps(2)) (simp add: concat_opt)
  with Write_ok [OF 2(1)] WriteAll_ok [OF 3] 2(2) show ?thesis
    by (simp add: stream_container_def concat_opt)
qed

text \<open>What a failed write leaves behind is a beginning of what was to be written.\<close>

definition wrote_part :: "writer \<Rightarrow> writer \<Rightarrow> bytes \<Rightarrow> bool" where
  "wrote_part w w' full \<longleftrightarrow> (\<exists>a b. w_out w' = w_out w @ a \<and> full = a @ b)"

lemma wrote_part_refl: "wrote_part w w full"
  by (simp add: wrote_part_def)

lemma wrote_part_Write: "Write w bs = (w', r) \<Longrightarrow> wrote_part w w' (bs @ rest)"
proof -
  assume "Write w bs = (w', r)"
  from Write_prefix [OF this] obtain k where "w_out w' = w_out w @ take k bs" by auto
  then show ?thesis by (auto simp: wrote_part_def intro!: exI [of _ "take k bs"] exI [of _ "drop k bs @ rest"])
qed

lemma wrote_part_trans:
  "w_out w1 = w_out w @ x \<Longrightarrow> wrote_part w1 w' rest \<Longrightarrow> wrote_part w w' (x @ rest)"
  by (auto simp: wrote_part_def)

lemma wrote_part_WriteAll: "WriteAll w bs = (w', r) \<Longrightarrow> wrote_part w w' (concat bs @ rest)"
proof (induction bs arbitrary: w)
  case Nil
  then show ?case by (simp add: wrote_part_refl)
next
  case (Cons b bs)
  obtain w1 r1 where w1: "Write w b = (w1, r1)" by force
  show ?case
  proof (cases r1)
    case (Inl e)
    with Cons.prems w1 wrote_part_Write [OF w1, of "concat bs @ rest"] show ?thesis by simp
  next
    case (Inr u)
    with Cons.prems w1 have "WriteAll w1 bs = (w', r)" by simp
    from wrote_part_trans [OF _ Cons.IH [OF this]] Write_ok w1 Inr show ?thesis by simp
  qed
qed

lemma write_container_part:
  assumes "write_container tmp w p hm payload sig = (w', r)"
  shows "wrote_part w w' (stream_container p hm payload sig)"
proof -
  let ?pre = "[MagicBytes, [char_of (unat p)], put_uint16 (of_nat (length hm))]
       @ (if length hm > 0 then [hm] else []) @ [put_uint64 (of_nat (length payload))]"
  let ?suf = "put_uint16 (of_nat (length sig)) # (if length sig > 0 then [sig] else [])"
  have pre: "concat ?pre = stream_prefix p hm (length payload)" and suf: "concat ?suf = put_uint16 (of_nat (length sig)) @ sig"
    by (simp_all add: stream_prefix_def)
  have full: "stream_container p hm payload sig = concat ?pre @ payload @ concat ?suf"
    unfolding pre suf by (simp add: stream_container_def)
  obtain w1 r1 where w1: "WriteAll w ?pre = (w1, r1)" by force
  show ?thesis
  proof (cases "r1 = Inr () \<and> tmp SysRead = None")
    case False
    then have "w' = w1" using assms unfolding write_container_def w1
      by (cases r1) (auto split: option.splits)
    with wrote_part_WriteAll [OF w1] show ?thesis unfolding full by simp
  next
    case True
    note o1 = WriteAll_ok [OF w1 [unfolded True [THEN conjunct1]]]
    obtain w2 r2 where w2: "Write w1 payload = (w2, r2)" by force
    show ?thesis
    proof (cases r2)
      case (Inl e)
      then have "w' = w2" using assms True unfolding write_container_def w1 by (simp add: io_Copy_def w2)
      with wrote_part_trans [OF o1 wrote_part_Write [OF w2]] show ?thesis unfolding full by simp
    next
      case (Inr u)
      then have "WriteAll w2 ?suf = (w', r)" using assms True unfolding write_container_def w1 by (simp add: io_Copy_def w2)
      from wrote_part_WriteAll [OF this, of "[]"] have "wrote_part w2 w' (concat ?suf)" by simp
      from wrote_part_trans [OF o1 wrote_part_trans [OF _ this]] Write_ok w2 Inr show ?thesis unfolding full by simp
    qed
  qed
qed

lemma encrypt_ok:
  assumes "encrypt_EncryptStream P rnd tmp w src rs signer meta p = (w', Inr u)"
  obtains meta' js payload sig where
    "sealed_meta signer meta = Inr meta'" "Marshal_Metadata meta' = Inr js" "length js \<le> 65535"
    "snd src = None" "Encrypt P rnd (put_uint16 (of_nat (length js)) @ js @ fst src) rs = Inr payload"
    "sign_payload P signer meta' p (fst src) payload = Inr sig" "length sig \<le> 65535"
    "p = ProfilePrivate \<or> p = ProfilePublic"
    "w_out w' = w_out w @ stream_container p (if Public p then js else []) payload sig"
proof -
  from assms obtain meta' js payload sig where
    "sealed_meta signer meta = Inr meta'" "Marshal_Metadata meta' = Inr js" "length js \<le> 65535"
    "encrypt_payload P rnd tmp rs js src = Inr payload" "sign_payload P signer meta' p (fst src) payload = Inr sig"
    "p = ProfilePrivate \<or> p = ProfilePublic"
    "write_container tmp w p (if Public p then js else []) payload sig = (w', Inr u)"
    unfolding encrypt_EncryptStream_def by (auto simp: sbind_Inr_iff split: if_splits)
  then show thesis
    using write_container_ok by (intro that) (auto simp: encrypt_payload_ok sign_payload_def split: if_splits)
qed

section \<open>Properties\<close>

text \<open>
  EncryptStream writes nothing but the container: whatever happens, what reaches the destination
  is a beginning of one complete container whose metadata is sealed, whose payload is encrypted and
  whose signature is made; if the metadata, the encryption or the signature fails, nothing is written
  at all; and after success the container is complete.
\<close>

theorem encrypt_EncryptStream_writes:
  assumes "encrypt_EncryptStream P rnd tmp w src rs signer meta p = (w', r)"
  shows "w_out w' = w_out w \<and> r \<noteq> Inr () \<or>
    (\<exists>meta' js payload sig. sealed_meta signer meta = Inr meta' \<and> Marshal_Metadata meta' = Inr js
       \<and> Encrypt P rnd (put_uint16 (of_nat (length js)) @ js @ fst src) rs = Inr payload
       \<and> sign_payload P signer meta' p (fst src) payload = Inr sig
       \<and> wrote_part w w' (stream_container p (if Public p then js else []) payload sig)
       \<and> (r = Inr () \<longrightarrow> w_out w' = w_out w @ stream_container p (if Public p then js else []) payload sig))"
proof (cases "\<exists>meta' js payload sig. sealed_meta signer meta = Inr meta' \<and> Marshal_Metadata meta' = Inr js
    \<and> length js \<le> 65535 \<and> encrypt_payload P rnd tmp rs js src = Inr payload
    \<and> sign_payload P signer meta' p (fst src) payload = Inr sig \<and> (p = ProfilePrivate \<or> p = ProfilePublic)")
  case True
  then obtain meta' js payload sig where t: "sealed_meta signer meta = Inr meta'" "Marshal_Metadata meta' = Inr js"
      "length js \<le> 65535" "encrypt_payload P rnd tmp rs js src = Inr payload"
      "sign_payload P signer meta' p (fst src) payload = Inr sig" "p = ProfilePrivate \<or> p = ProfilePublic"
    by blast
  with assms have "write_container tmp w p (if Public p then js else []) payload sig = (w', r)"
    by (auto simp: encrypt_EncryptStream_def)
  with write_container_part write_container_ok t show ?thesis by (auto simp: encrypt_payload_ok)
next
  case False
  then have "w' = w \<and> r \<noteq> Inr ()"
    using assms
    by (cases "sealed_meta signer meta"; cases "Marshal_Metadata (projr (sealed_meta signer meta))";
        cases "encrypt_payload P rnd tmp rs (projr (Marshal_Metadata (projr (sealed_meta signer meta)))) src")
      (auto simp: encrypt_EncryptStream_def sbind_def split: if_splits sum.splits)
  then show ?thesis by simp
qed

end
