(* ===== verification/Icfx_Decrypt.thy ===== *)
theory Icfx_Decrypt
  imports Icfx_Encrypt
begin

text \<open>
  Package decrypt: decryption of a container and the verdict on its signature. The verdict comes
  after the plaintext: the plaintext is written whatever the outcome. \<open>ufold\<close> is the table of
  strings.EqualFold beyond ASCII.
\<close>

datatype VerifyStatus = VerifyUnsigned | VerifyOK | VerifyFailed | VerifyUnknownSigner

definition VerifyStatus_String :: "VerifyStatus \<Rightarrow> string" where
  "VerifyStatus_String s = (case s of VerifyUnsigned \<Rightarrow> ''unsigned'' | VerifyOK \<Rightarrow> ''ok''
     | VerifyFailed \<Rightarrow> ''failed'' | VerifyUnknownSigner \<Rightarrow> ''unknown-signer'')"

record VerifyResult =
  vr_Status :: VerifyStatus
  vr_SignerFP :: bytes
  vr_SignerAlias :: bytes
  vr_SignerIdentity :: bytes
  vr_UsedRevokedKey :: bool
  vr_RevokedAt :: gotime

definition status_result :: "VerifyStatus \<Rightarrow> bytes \<Rightarrow> VerifyResult" where
  "status_result st fp = \<lparr>vr_Status = st, vr_SignerFP = fp, vr_SignerAlias = [], vr_SignerIdentity = [],
     vr_UsedRevokedKey = False, vr_RevokedAt = zero_time\<rparr>"

section \<open>Signature verification\<close>

text \<open>The closure \<open>verifies\<close>: whether the key decoded at all, and whether the signature holds under it.\<close>

definition key_resolves :: "bytes \<Rightarrow> bool" where
  "key_resolves encodedKey \<longleftrightarrow> is_ok (b64_decode encodedKey)"

definition key_verifies :: "prims \<Rightarrow> bytes \<Rightarrow> bytes \<Rightarrow> bytes \<Rightarrow> bool" where
  "key_verifies P message signature encodedKey \<longleftrightarrow>
     (case b64_decode encodedKey of Inl _ \<Rightarrow> False | Inr pub \<Rightarrow> Verify P message signature pub = Inr True)"

text \<open>The keys in the order they are tried, each with the result it would give.\<close>

definition current_keys :: "bytes \<Rightarrow> Contact \<Rightarrow> (bytes \<times> bytes \<times> VerifyResult) list" where
  "current_keys fp c = [(ct_Fingerprint c, ct_SignPubKey c, (status_result VerifyOK fp)\<lparr>vr_SignerAlias := ct_Alias c\<rparr>)]"

definition previous_keys :: "bytes \<Rightarrow> Contact \<Rightarrow> (bytes \<times> bytes \<times> VerifyResult) list" where
  "previous_keys fp c = map (\<lambda>k. (pk_Fingerprint k, pk_SignPubKey k,
     (status_result VerifyOK fp)\<lparr>vr_SignerAlias := ct_Alias c, vr_UsedRevokedKey := True, vr_RevokedAt := pk_RevokedAt k\<rparr>)) (ct_PreviousKeys c)"

definition own_key :: "bytes \<Rightarrow> Unlocked \<Rightarrow> bytes \<times> bytes \<times> VerifyResult" where
  "own_key fp u = (id_Fingerprint (u_info u), id_SignPubKey (u_info u),
     (status_result VerifyOK fp)\<lparr>vr_SignerIdentity := id_Name (u_info u)\<rparr>)"

definition signer_keys :: "bytes \<Rightarrow> Unlocked \<Rightarrow> Contact list \<Rightarrow> (bytes \<times> bytes \<times> VerifyResult) list" where
  "signer_keys fp u cs = concat (map (current_keys fp) cs) @ concat (map (previous_keys fp) cs) @ [own_key fp u]"

text \<open>The loops: keys of another fingerprint are skipped, \<open>resolved\<close> remembers a decodable one.\<close>

fun try_keys ::
    "prims \<Rightarrow> (nat \<Rightarrow> nat \<Rightarrow> bool) \<Rightarrow> bytes \<Rightarrow> bytes \<Rightarrow> bytes \<Rightarrow> (bytes \<times> bytes \<times> VerifyResult) list \<Rightarrow> bool \<Rightarrow> VerifyResult" where
  "try_keys P ufold message signature fp [] resolved =
     status_result (if resolved then VerifyFailed else VerifyUnknownSigner) fp"
| "try_keys P ufold message signature fp ((kfp, key, r) # ks) resolved =
     (if EqualFold ufold kfp fp then
        (if key_verifies P message signature key then r
         else try_keys P ufold message signature fp ks (resolved \<or> key_resolves key))
      else try_keys P ufold message signature fp ks resolved)"

definition verifySignature ::
    "prims \<Rightarrow> (nat \<Rightarrow> nat \<Rightarrow> bool) \<Rightarrow> bytes \<Rightarrow> bytes \<Rightarrow> bytes \<Rightarrow> Unlocked \<Rightarrow> Contact list \<Rightarrow> VerifyResult" where
  "verifySignature P ufold message signature senderFP u cs =
     (if senderFP = [] then status_result VerifyUnknownSigner []
      else try_keys P ufold message signature senderFP (signer_keys senderFP u cs) False)"

definition claimedSigner :: "Metadata \<Rightarrow> bytes" where
  "claimedSigner meta = (if ValidateFingerprint (SenderFingerprint meta) \<noteq> Inr () then [] else SenderFingerprint meta)"

definition verdict ::
    "prims \<Rightarrow> (nat \<Rightarrow> nat \<Rightarrow> bool) \<Rightarrow> StreamHeader \<Rightarrow> Metadata \<Rightarrow> bytes \<Rightarrow> bytes \<Rightarrow> bytes \<Rightarrow> Unlocked \<Rightarrow> Contact list \<Rightarrow> VerifyResult" where
  "verdict P ufold sh meta sealedRaw plaintextDigest ciphertextDigest u cs =
     (let claimed = claimedSigner meta; failed = status_result VerifyFailed claimed in
      if \<not> sh_Private sh \<and> HeaderRaw sh \<noteq> sealedRaw then failed
      else if \<not> IsSigned meta then
        (if length (sh_Signature sh) > 0 then failed else status_result VerifyUnsigned [])
      else if claimed = [] then failed
      else if length (sh_Signature sh) = 0 then failed
      else verifySignature P ufold (SignedMessage (sh_Profile sh) plaintextDigest ciphertextDigest)
             (sh_Signature sh) claimed u cs)"

definition legacyVerdict :: "Metadata \<Rightarrow> bytes \<Rightarrow> VerifyResult" where
  "legacyVerdict meta signature =
     (if \<not> IsSigned meta \<and> length signature = 0 then status_result VerifyUnsigned []
      else status_result VerifyFailed (claimedSigner meta))"

section \<open>Decryption\<close>

definition stream_ReadFull :: "stream \<Rightarrow> nat \<Rightarrow> (bytes \<times> stream) result" where
  "stream_ReadFull s n =
     (if n \<le> length (fst s) then Inr (take n (fst s), (drop n (fst s), snd s))
      else Inl (case snd s of Some e \<Rightarrow> e | None \<Rightarrow> (if fst s = [] then EOF_err else ErrUnexpectedEOF)))"

definition readInnerMeta :: "stream \<Rightarrow> (Metadata \<times> bytes \<times> stream) result" where
  "readInnerMeta r =
     andthen (stream_ReadFull r 2) (\<lambda>(lenbuf, r).
     andthen (stream_ReadFull r (unat (get_uint16 lenbuf))) (\<lambda>(mbuf, r).
     andthen (Unmarshal_Metadata mbuf) (\<lambda>meta. Inr (meta, mbuf, r))))"

definition maxLegacyBuffered :: nat where "maxLegacyBuffered = 536870912"

text \<open>The payload a LimitReader yields after the seek to its start.\<close>

definition payload_at :: "reader \<Rightarrow> StreamHeader \<Rightarrow> bytes result" where
  "payload_at src sh = andthen (SeekStart src (PayloadStart sh)) (\<lambda>r. Inr (take (nat (PayloadLen sh)) (unread r)))"

definition decryptContainer ::
    "prims \<Rightarrow> (nat \<Rightarrow> nat \<Rightarrow> bool) \<Rightarrow> reader \<Rightarrow> writer \<Rightarrow> Unlocked \<Rightarrow> Contact list \<Rightarrow> writer \<times> VerifyResult result" where
  "decryptContainer P ufold src dst u cs =
     sbind (dst, wrapping ''parsing container: %w'' (ParseStreamHeader src)) (\<lambda>sh dst.
     if sh_Profile sh = ProfilePrivate \<and> \<not> sh_Private sh
     then (dst, Inl (Wrap ''parsing container: private profile carries a header: %w'' ErrInvalidFormat))
     else sbind (dst, payload_at src sh) (\<lambda>payload dst.
     sbind (dst, wrapping ''decrypting payload: %w'' (Unlocked_DecryptStream P u payload)) (\<lambda>pr dst.
     sbind (dst, wrapping ''reading inner metadata: %w'' (readInnerMeta pr)) (\<lambda>(meta, sealedRaw, pr) dst.
     sbind (swrap ''writing plaintext: %w'' (io_Copy dst pr)) (\<lambda>_ dst.
     (dst, Inr (verdict P ufold sh meta sealedRaw (NewContainerDigest P (fst pr)) (NewContainerDigest P payload) u cs)))))))"

definition decryptLegacyBuffered :: "prims \<Rightarrow> reader \<Rightarrow> writer \<Rightarrow> Unlocked \<Rightarrow> writer \<times> VerifyResult result" where
  "decryptLegacyBuffered P src dst u =
     (let data = take (maxLegacyBuffered + 1) (unread src) in
      if length data > maxLegacyBuffered
      then (dst, Inl (Wrap ''parsing ICFX container: legacy buffered container exceeds %d bytes: %w'' ErrInvalidFormat))
      else sbind (dst, wrapping ''parsing ICFX container: %w'' (Deserialize data)) (\<lambda>c dst.
      sbind (dst, wrapping ''decrypting payload: %w'' (Unlocked_Decrypt P u (c_Payload c))) (\<lambda>plaintext dst.
      sbind (dst, if SealsMetadata (c_Profile c) then wrapping ''parsing inner metadata: %w'' (DecodePayload plaintext)
                  else Inr (c_Metadata c, plaintext)) (\<lambda>(meta, filedata) dst.
      sbind (swrap ''writing plaintext: %w'' (Write dst filedata)) (\<lambda>_ dst.
      (dst, Inr (legacyVerdict meta (c_Signature c))))))))"

definition decryptLegacyStreaming :: "prims \<Rightarrow> reader \<Rightarrow> writer \<Rightarrow> Unlocked \<Rightarrow> writer \<times> VerifyResult result" where
  "decryptLegacyStreaming P src dst u =
     sbind (dst, wrapping ''parsing container: %w'' (ParseStreamHeader src)) (\<lambda>sh dst.
     sbind (dst, payload_at src sh) (\<lambda>payload dst.
     sbind (dst, wrapping ''decrypting payload: %w'' (Unlocked_DecryptStream P u payload)) (\<lambda>pr dst.
     sbind (dst, if SealsMetadata (sh_Profile sh)
                 then wrapping ''reading inner metadata: %w'' (andthen (readInnerMeta pr) (\<lambda>(meta, _, pr). Inr (meta, pr)))
                 else Inr (HeaderMeta sh, pr)) (\<lambda>(meta, pr) dst.
     sbind (swrap ''writing plaintext: %w'' (io_Copy dst pr)) (\<lambda>_ dst.
     (dst, Inr (legacyVerdict meta (sh_Signature sh))))))))"

definition DecryptAndVerifyStream ::
    "prims \<Rightarrow> (nat \<Rightarrow> nat \<Rightarrow> bool) \<Rightarrow> reader \<Rightarrow> writer \<Rightarrow> Unlocked \<Rightarrow> Contact list \<Rightarrow> writer \<times> VerifyResult result" where
  "DecryptAndVerifyStream P ufold src dst u cs =
     sbind (dst, wrapping ''reading ICFX header: %w'' (ReadFull src HeaderPrefixLen)) (\<lambda>(head, src) dst.
     sbind (dst, wrapping ''parsing ICFX header: %w'' (ParseHeaderPrefix head)) (\<lambda>(profile, _) dst.
     sbind (dst, SeekStart src 0) (\<lambda>src dst.
     if \<not> Streaming profile then decryptLegacyBuffered P src dst u
     else if Legacy profile then decryptLegacyStreaming P src dst u
     else decryptContainer P ufold src dst u cs)))"

definition DecryptAndVerify ::
    "prims \<Rightarrow> (nat \<Rightarrow> nat \<Rightarrow> bool) \<Rightarrow> bytes \<Rightarrow> Unlocked \<Rightarrow> Contact list \<Rightarrow> (bytes \<times> VerifyResult) result" where
  "DecryptAndVerify P ufold data u cs =
     (case DecryptAndVerifyStream P ufold (new_reader data) new_buffer u cs of
        (out, Inl e) \<Rightarrow> Inl e | (out, Inr verify) \<Rightarrow> Inr (w_out out, verify))"

definition decryptToWriter ::
    "prims \<Rightarrow> (nat \<Rightarrow> nat \<Rightarrow> bool) \<Rightarrow> bool \<Rightarrow> reader \<Rightarrow> writer \<Rightarrow> Unlocked \<Rightarrow> Contact list \<Rightarrow> writer \<times> VerifyResult result" where
  "decryptToWriter P ufold isContainer src dst u cs =
     (if isContainer then DecryptAndVerifyStream P ufold src dst u cs
      else sbind (dst, Unlocked_DecryptStream P u (unread src)) (\<lambda>r dst.
      sbind (io_Copy dst r) (\<lambda>_ dst. (dst, Inr (status_result VerifyUnsigned [])))))"

text \<open>
  The input is read from the disk as it is after the output was opened. A read error of the input
  file is the error of the first read.
\<close>

definition DecryptFile ::
    "prims \<Rightarrow> (nat \<Rightarrow> nat \<Rightarrow> bool) \<Rightarrow> disk \<Rightarrow> bytes \<Rightarrow> bytes \<Rightarrow> Unlocked \<Rightarrow> Contact list \<Rightarrow> disk \<times> VerifyResult result" where
  "DecryptFile P ufold d inPath outPath u cs =
     (case os_Open d inPath of Inl e \<Rightarrow> (d, Inl e)
      | Inr _ \<Rightarrow>
        (case wrapping ''reading input: %w'' (stream_ReadFull (file_stream d inPath) (length MagicBytes)) of
           Inl e \<Rightarrow> (d, Inl e)
         | Inr (magic, _) \<Rightarrow>
           (case open_output d outPath of Inl e \<Rightarrow> (d, Inl e)
            | Inr (d1, out) \<Rightarrow>
              (case d_fault d SysChmod outPath of
                 Some e \<Rightarrow> (d1, Inl (Wrap ''restricting output permissions: %w'' e))
               | None \<Rightarrow>
                 (case decryptToWriter P ufold (magic = MagicBytes) (new_reader (fst (file_stream d1 inPath))) out u cs of
                    (out', r) \<Rightarrow> finish_output d1 outPath out' r)))))"

section \<open>Lemmas\<close>

text \<open>An ML-DSA-65 signature has 3309 bytes; all that matters here is that it is not empty.\<close>

definition mldsa_nonempty :: "prims \<Rightarrow> bool" where
  "mldsa_nonempty P \<longleftrightarrow> (\<forall>k m sig. mldsa_Sign P k m = Inr sig \<longrightarrow> m \<noteq> [] \<longrightarrow> sig \<noteq> [])"

lemma ValidateFingerprint_ascii: "ValidateFingerprint fp = Inr u \<Longrightarrow> ascii fp"
proof -
  assume "ValidateFingerprint fp = Inr u"
  then have "is_ok (hex_decode fp)" by (auto simp: ValidateFingerprint_def split: if_splits)
  then show ?thesis using hex_ascii by (auto simp: hex_decode_ok_iff ascii_def list_all_iff)
qed

lemma status_result_simps [simp]:
  "vr_Status (status_result st fp) = st" "vr_SignerFP (status_result st fp) = fp"
  by (simp_all add: status_result_def)

text \<open>What the search over the keys decides.\<close>

definition good_key :: "prims \<Rightarrow> (nat \<Rightarrow> nat \<Rightarrow> bool) \<Rightarrow> bytes \<Rightarrow> bytes \<Rightarrow> bytes \<Rightarrow> bytes \<times> bytes \<times> VerifyResult \<Rightarrow> bool" where
  "good_key P ufold message signature fp k \<longleftrightarrow> EqualFold ufold (fst k) fp \<and> key_verifies P message signature (fst (snd k))"

definition usable_key :: "(nat \<Rightarrow> nat \<Rightarrow> bool) \<Rightarrow> bytes \<Rightarrow> bytes \<times> bytes \<times> VerifyResult \<Rightarrow> bool" where
  "usable_key ufold fp k \<longleftrightarrow> EqualFold ufold (fst k) fp \<and> key_resolves (fst (snd k))"

lemma try_keys_found:
  assumes "list_ex (good_key P ufold m sig fp) ks"
  shows "\<exists>k\<in>set ks. good_key P ufold m sig fp k \<and> try_keys P ufold m sig fp ks b = snd (snd k)"
  using assms
proof (induction ks arbitrary: b)
  case (Cons k ks)
  obtain kfp key r where k: "k = (kfp, key, r)" by (cases k)
  show ?case
  proof (cases "good_key P ufold m sig fp k")
    case True
    then show ?thesis by (auto simp: k good_key_def)
  next
    case False
    with Cons show ?thesis by (auto simp: k good_key_def)
  qed
qed simp

lemma try_keys_not_found:
  assumes "\<not> list_ex (good_key P ufold m sig fp) ks"
  shows "try_keys P ufold m sig fp ks b
     = status_result (if b \<or> list_ex (usable_key ufold fp) ks then VerifyFailed else VerifyUnknownSigner) fp"
  using assms
proof (induction ks arbitrary: b)
  case (Cons k ks)
  obtain kfp key r where k: "k = (kfp, key, r)" by (cases k)
  from Cons.prems have "\<not> list_ex (good_key P ufold m sig fp) ks" and g: "\<not> good_key P ufold m sig fp k" by simp_all
  from Cons.IH [OF this(1)] g show ?case by (auto simp: k good_key_def usable_key_def)
qed simp

lemma signer_keys_ok: "k \<in> set (signer_keys fp u cs) \<Longrightarrow> vr_Status (snd (snd k)) = VerifyOK \<and> vr_SignerFP (snd (snd k)) = fp"
  by (auto simp: signer_keys_def current_keys_def previous_keys_def own_key_def)

lemma verifySignature_cases:
  assumes "fp \<noteq> []"
  shows "if list_ex (good_key P ufold m sig fp) (signer_keys fp u cs)
     then \<exists>k\<in>set (signer_keys fp u cs). good_key P ufold m sig fp k \<and> verifySignature P ufold m sig fp u cs = snd (snd k)
     else verifySignature P ufold m sig fp u cs
       = status_result (if list_ex (usable_key ufold fp) (signer_keys fp u cs) then VerifyFailed else VerifyUnknownSigner) fp"
  using assms try_keys_found [of P ufold m sig fp "signer_keys fp u cs"]
    try_keys_not_found [of P ufold m sig fp "signer_keys fp u cs" False]
  by (auto simp: verifySignature_def)

lemma good_key_verify:
  "good_key P ufold m sig fp k \<longleftrightarrow> EqualFold ufold (fst k) fp \<and>
     (\<exists>pub p. b64_decode (fst (snd k)) = Inr pub \<and> mldsa_PubUnmarshal P pub = Inr p \<and> mldsa_Verify P p m sig)"
  by (auto simp: good_key_def key_verifies_def Verify_def split: sum.splits)

lemma claimedSigner_ok: "claimedSigner meta \<noteq> [] \<Longrightarrow> claimedSigner meta = SenderFingerprint meta
    \<and> ValidateFingerprint (SenderFingerprint meta) = Inr ()"
  by (simp add: claimedSigner_def split: if_splits)

lemma readInnerMeta_ok:
  assumes "readInnerMeta r = Inr (meta, js, r')"
  shows "fst r = put_uint16 (of_nat (length js)) @ js @ fst r' \<and> snd r' = snd r \<and> Unmarshal_Metadata js = Inr meta"
proof -
  from assms have l: "2 \<le> length (fst r)" "unat (get_uint16 (take 2 (fst r))) \<le> length (drop 2 (fst r))"
      "js = take (unat (get_uint16 (take 2 (fst r)))) (drop 2 (fst r))"
      "r' = (drop (unat (get_uint16 (take 2 (fst r)))) (drop 2 (fst r)), snd r)" "Unmarshal_Metadata js = Inr meta"
    by (auto simp: readInnerMeta_def stream_ReadFull_def split: if_splits)
  have a: "put_uint16 (of_nat (length js)) = take 2 (fst r)" using l(1,2) unfolding l(3) by simp
  have "fst r = take 2 (fst r) @ js @ fst r'"
    unfolding l(3,4) fst_conv append_take_drop_id ..
  then have "fst r = put_uint16 (of_nat (length js)) @ js @ fst r'" unfolding a .
  moreover have "snd r' = snd r" by (simp add: l(4))
  ultimately show ?thesis using l(5) by blast
qed

lemma readInnerMeta_app:
  assumes "length js \<le> 65535" "Unmarshal_Metadata js = Inr meta"
  shows "readInnerMeta (put_uint16 (of_nat (length js)) @ js @ d, e) = Inr (meta, js, (d, e))"
  using assms by (simp add: readInnerMeta_def stream_ReadFull_def)

lemma payload_at_container:
  assumes "PayloadStart sh = int (15 + length raw)" "PayloadLen sh = int (length payload)"
  shows "payload_at (new_reader (stream_container p raw payload sig @ rest)) sh = Inr payload"
proof -
  have "drop (15 + length raw) (stream_container p raw payload sig @ rest) = payload @ put_uint16 (of_nat (length sig)) @ sig @ rest"
    using take_drop_exact(2) [of "stream_prefix p raw (length payload)" "15 + length raw"]
    by (simp add: stream_container_def stream_prefix_def)
  moreover have "nat (int (15 + length raw)) = 15 + length raw" by (rule nat_int)
  ultimately show ?thesis using assms by (simp add: payload_at_def SeekStart_def)
qed

text \<open>The dispatch: what is decrypted is the source from its beginning.\<close>

lemma DecryptAndVerifyStream_dispatch:
  "DecryptAndVerifyStream P ufold (new_reader data) dst u cs = (w, Inr v) \<longleftrightarrow>
     (\<exists>p n. 7 \<le> length data \<and> ParseHeaderPrefix (take 7 data) = Inr (p, n) \<and>
       (if \<not> Streaming p then decryptLegacyBuffered P (new_reader data) dst u
        else if Legacy p then decryptLegacyStreaming P (new_reader data) dst u
        else decryptContainer P ufold (new_reader data) dst u cs) = (w, Inr v))"
proof -
  have seek: "SeekStart ((new_reader data)\<lparr>rd_pos := n\<rparr>) 0 = Inr (new_reader data)" for n
    by (simp add: SeekStart_def new_reader_def)
  show ?thesis
    unfolding DecryptAndVerifyStream_def
    by (auto simp: sbind_Inr_iff ReadFull_Inr_iff HeaderPrefixLen_def seek split: prod.splits)
qed

lemma legacyVerdict_status: "vr_Status (legacyVerdict m s) \<noteq> VerifyOK"
  by (simp add: legacyVerdict_def)

lemma decryptLegacy_status:
  "decryptLegacyBuffered P src dst u = (w, Inr v) \<Longrightarrow> vr_Status v \<noteq> VerifyOK"
  "decryptLegacyStreaming P src dst u = (w, Inr v) \<Longrightarrow> vr_Status v \<noteq> VerifyOK"
  using legacyVerdict_status
  by (auto simp: decryptLegacyBuffered_def decryptLegacyStreaming_def sbind_Inr_iff Let_def split: if_splits prod.splits)

text \<open>A container that was decrypted: where its parts are, and the verdict over them.\<close>

lemma decryptContainer_ok:
  assumes "decryptContainer P ufold (new_reader data) dst u cs = (w, Inr v)"
  obtains sh payload rest meta js d where
    "ParseStreamHeader (new_reader data) = Inr sh"
    "data = stream_container (sh_Profile sh) (HeaderRaw sh) payload (sh_Signature sh) @ rest"
    "sh_Private sh = (HeaderRaw sh = [])"
    "Unlocked_DecryptStream P u payload = Inr (put_uint16 (of_nat (length js)) @ js @ d, None)"
    "Unmarshal_Metadata js = Inr meta" "w_out w = w_out dst @ d"
    "v = verdict P ufold sh meta js (sha512 P d) (sha512 P payload) u cs"
proof -
  from assms obtain sh payload pr meta js pr' where
      sh: "ParseStreamHeader (new_reader data) = Inr sh" and pay: "payload_at (new_reader data) sh = Inr payload"
    and dec: "Unlocked_DecryptStream P u payload = Inr pr" and inner: "readInnerMeta pr = Inr (meta, js, pr')"
    and out: "Write dst (fst pr') = (w, Inr ())" "snd pr' = None"
    and v: "v = verdict P ufold sh meta js (sha512 P (fst pr')) (sha512 P payload) u cs"
    unfolding decryptContainer_def
    by (auto simp: sbind_Inr_iff io_Copy_ok NewContainerDigest_def split: if_splits)
  from sh show thesis
  proof (rule ParseStreamHeader_layout)
    fix payload' rest
    assume lay: "data = stream_container (sh_Profile sh) (HeaderRaw sh) payload' (sh_Signature sh) @ rest"
      "sh_Private sh = (HeaderRaw sh = [])"
      "PayloadStart sh = int (15 + length (HeaderRaw sh))" "PayloadLen sh = int (length payload')"
    have "payload' = payload" using payload_at_container [OF lay(3,4)] pay unfolding lay(1) by simp
    moreover note i = readInnerMeta_ok [OF inner]
    moreover have "pr = (fst pr, snd pr)" by simp
    ultimately show thesis
      using sh lay(1,2) dec v out Write_ok [OF out(1)]
      by (intro that [of sh payload rest js "fst pr'" meta]) auto
  qed
qed

lemma decryptContainer_accepts:
  assumes "p = ProfilePrivate \<and> raw = [] \<or> p = ProfilePublic" "meta_of_raw raw = Inr m" "length raw < 65536" "length sig < 65536"
    and "int (length payload) \<le> MaxInt64 - int (15 + length raw) - 2"
    and "Unlocked_DecryptStream P u payload = Inr (put_uint16 (of_nat (length js)) @ js @ d, None)"
    and "length js \<le> 65535" "Unmarshal_Metadata js = Inr meta"
  shows "DecryptAndVerify P ufold (stream_container p raw payload sig) u cs = Inr (d, verdict P ufold
    \<lparr>sh_Profile = p, sh_Private = (raw = []), HeaderMeta = m, HeaderRaw = raw,
         PayloadStart = int (15 + length raw), PayloadLen = int (length payload), sh_Signature = sig\<rparr>
    meta js (sha512 P d) (sha512 P payload) u cs)"
proof -
  let ?data = "stream_container p raw payload sig"
  let ?sh = "\<lparr>sh_Profile = p, sh_Private = (raw = []), HeaderMeta = m, HeaderRaw = raw,
         PayloadStart = int (15 + length raw), PayloadLen = int (length payload), sh_Signature = sig\<rparr>"
  have p: "Streaming p" "\<not> Legacy p" "Valid p" using assms(1) by (auto simp: profile_preds profile_bytes)
  have sh: "ParseStreamHeader (new_reader ?data) = Inr ?sh"
    using ParseStreamHeader_accepts [OF p(1) assms(2-5), of "[]"] by simp
  have pay: "payload_at (new_reader ?data) ?sh = Inr payload"
    using payload_at_container [of ?sh raw payload p sig "[]"] by simp
  have bad: "\<not> (sh_Profile ?sh = ProfilePrivate \<and> \<not> sh_Private ?sh)"
    using assms(1) by (auto simp: profile_bytes)
  have "decryptContainer P ufold (new_reader ?data) new_buffer u cs
      = (new_buffer\<lparr>w_out := d\<rparr>, Inr (verdict P ufold ?sh meta js (sha512 P d) (sha512 P payload) u cs))"
    unfolding decryptContainer_def sh wrapping.simps sbind_simps if_not_P [OF bad] pay assms(6) readInnerMeta_app [OF assms(7,8)]
    by (simp add: io_Copy_def NewContainerDigest_def)
  moreover have "ParseHeaderPrefix (take 7 ?data) = Inr (p, length raw)"
  proof -
    have "take 7 ?data = MagicBytes @ [char_of (unat p)] @ put_uint16 (of_nat (length raw))"
      by (simp add: stream_container_def stream_prefix_def)
    then show ?thesis using ParseHeaderPrefix_layout [OF p(3) assms(3), of "[]"] by simp
  qed
  moreover have "7 \<le> length ?data" by (simp add: stream_container_def stream_prefix_def)
  ultimately have "DecryptAndVerifyStream P ufold (new_reader ?data) new_buffer u cs
      = (new_buffer\<lparr>w_out := d\<rparr>, Inr (verdict P ufold ?sh meta js (sha512 P d) (sha512 P payload) u cs))"
    using p unfolding DecryptAndVerifyStream_dispatch by auto
  then show ?thesis by (simp add: DecryptAndVerify_def)
qed

lemma verdict_OK_iff:
  fixes meta sh pd cd
  defines "fp \<equiv> SenderFingerprint meta" and "m \<equiv> SignedMessage (sh_Profile sh) pd cd"
  shows "vr_Status (verdict P ufold sh meta raw pd cd u cs) = VerifyOK \<longleftrightarrow>
     (sh_Private sh \<or> HeaderRaw sh = raw) \<and> IsSigned meta \<and> ValidateFingerprint fp = Inr () \<and> sh_Signature sh \<noteq> []
     \<and> list_ex (good_key P ufold m (sh_Signature sh) fp) (signer_keys fp u cs)"
proof (cases "ValidateFingerprint fp = Inr ()")
  case True
  then have "fp \<noteq> []" by (auto simp: ValidateFingerprint_def)
  with verifySignature_cases [OF this, of P ufold m "sh_Signature sh" u cs] signer_keys_ok [of _ fp u cs] True
  show ?thesis unfolding verdict_def claimedSigner_def fp_def m_def Let_def by (auto split: if_splits)
qed (simp add: verdict_def claimedSigner_def fp_def Let_def)

lemma verdict_signer:
  assumes "vr_Status (verdict P ufold sh meta raw pd cd u cs) = VerifyOK"
  shows "vr_SignerFP (verdict P ufold sh meta raw pd cd u cs) = SenderFingerprint meta"
proof -
  let ?fp = "SenderFingerprint meta" and ?m = "SignedMessage (sh_Profile sh) pd cd"
  note ok = assms [unfolded verdict_OK_iff]
  then have ne: "?fp \<noteq> []" by (auto simp: ValidateFingerprint_def)
  have "verdict P ufold sh meta raw pd cd u cs = verifySignature P ufold ?m (sh_Signature sh) ?fp u cs"
    using ok ne by (auto simp: verdict_def Let_def claimedSigner_def)
  with verifySignature_cases [OF ne, of P ufold ?m "sh_Signature sh" u cs] ok signer_keys_ok [of _ ?fp u cs]
  show ?thesis by auto
qed

lemma sealed_meta_ok:
  assumes "sealed_meta signer meta = Inr meta'" "wf_Metadata meta"
  shows "IsSigned meta' = IsSigned meta" "wf_Metadata meta'"
    "IsSigned meta \<Longrightarrow> signer = Some su \<Longrightarrow>
       SenderFingerprint meta' = id_Fingerprint (u_info su) \<and> ValidateFingerprint (SenderFingerprint meta') = Inr ()"
proof -
  have u: "valid_utf8 fp" if "ValidateFingerprint fp = Inr ()" for fp
    using that ValidateFingerprint_ascii valid_utf8_ascii by blast
  show "IsSigned meta' = IsSigned meta" "wf_Metadata meta'"
    using assms u by (auto simp: sealed_meta_def wf_Metadata_def Let_def split: if_splits option.splits)
  show "SenderFingerprint meta' = id_Fingerprint (u_info su) \<and> ValidateFingerprint (SenderFingerprint meta') = Inr ()"
    if "IsSigned meta" "signer = Some su"
    using assms(1) that by (auto simp: sealed_meta_def Let_def split: if_splits)
qed

lemma signed_verdict:
  assumes "mldsa_correct P" "mldsa_nonempty P" "IsSigned meta"
    and s: "signer = Some su \<and> open_sig P su = Inr priv \<and> mldsa_PrivUnmarshal P priv = Inr k
      \<and> c \<in> set cs \<and> ct_Fingerprint c = id_Fingerprint (u_info su) \<and> ct_SignPubKey c = b64_encode (mldsa_Public P k)"
    and fp: "SenderFingerprint meta = id_Fingerprint (u_info su) \<and> ValidateFingerprint (SenderFingerprint meta) = Inr ()"
    and sg: "sign_payload P signer meta (sh_Profile sh) pt payload = Inr (sh_Signature sh)" and "sh_Private sh \<or> HeaderRaw sh = raw"
  shows "vr_Status (verdict P ufold sh meta raw (sha512 P pt) (sha512 P payload) u cs) = VerifyOK"
proof -
  let ?m = "SignedMessage (sh_Profile sh) (sha512 P pt) (sha512 P payload)" and ?fp = "SenderFingerprint meta"
  have sgn: "Sign P ?m priv = Inr (sh_Signature sh)"
    using sg s assms(3) by (auto simp: sign_payload_def Unlocked_Sign_def NewContainerDigest_def split: if_splits)
  then have "sh_Signature sh \<noteq> []" using assms(2) s by (auto simp: Sign_def mldsa_nonempty_def SignedMessage_def writeField_def)
  moreover have "Verify P ?m (sh_Signature sh) (mldsa_Public P k) = Inr True" using Sign_Verify [OF assms(1) sgn] s by blast
  then have "good_key P ufold ?m (sh_Signature sh) ?fp (ct_Fingerprint c, ct_SignPubKey c, (status_result VerifyOK ?fp)\<lparr>vr_SignerAlias := ct_Alias c\<rparr>)"
    using s fp by (simp add: good_key_def key_verifies_def)
  then have "list_ex (good_key P ufold ?m (sh_Signature sh) ?fp) (signer_keys ?fp u cs)"
    using s by (auto simp: list_ex_iff signer_keys_def current_keys_def intro!: bexI [of _ "(ct_Fingerprint c, ct_SignPubKey c, _)"])
  ultimately show ?thesis using assms(3,7) fp unfolding verdict_OK_iff by blast
qed

text \<open>
  A container made by EncryptStream is decrypted by any of its recipients to the bytes that went in,
  with the verdict that its metadata and the recipient's contacts deserve. The same holds when its
  header was removed on the way.
\<close>

lemma encrypt_decrypt_header:
  assumes "age_correct P" "mldsa_correct P" "mldsa_nonempty P" "wf_Metadata meta"
    and "encrypt_EncryptStream P rnd tmp new_buffer (pt, None) rs signer meta p = (w, Inr ())"
    and "int (length (w_out w)) \<le> MaxInt64"
    and "open_enc P u = Inr s" "ParseHybridIdentity P s = Inr i" "Recipient_String P i \<in> set rs"
    and "IsSigned meta \<Longrightarrow> signer = Some su \<and> open_sig P su = Inr priv \<and> mldsa_PrivUnmarshal P priv = Inr k
      \<and> c \<in> set cs \<and> ct_Fingerprint c = id_Fingerprint (u_info su) \<and> ct_SignPubKey c = b64_encode (mldsa_Public P k)"
  obtains raw payload sig where "w_out w = stream_container p raw payload sig" "length raw < 65536" "Valid p"
    "\<And>h. h = raw \<or> h = [] \<Longrightarrow> \<exists>v. DecryptAndVerify P ufold (stream_container p h payload sig) u cs = Inr (pt, v)
      \<and> (if IsSigned meta then vr_Status v = VerifyOK \<and> vr_SignerFP v = id_Fingerprint (u_info su)
         else v = status_result VerifyUnsigned [])"
proof -
  from assms(5) obtain meta' js payload sig where
      seal: "sealed_meta signer meta = Inr meta'" and js: "Marshal_Metadata meta' = Inr js" "length js \<le> 65535"
    and ct: "Encrypt P rnd (put_uint16 (of_nat (length js)) @ js @ pt) rs = Inr payload"
    and sg: "sign_payload P signer meta' p pt payload = Inr sig" "length sig \<le> 65535"
    and p: "p = ProfilePrivate \<or> p = ProfilePublic"
    and out: "w_out w = stream_container p (if Public p then js else []) payload sig"
    by (rule encrypt_ok) auto
  have m': "IsSigned meta' = IsSigned meta" "wf_Metadata meta'"
      "IsSigned meta \<Longrightarrow> SenderFingerprint meta' = id_Fingerprint (u_info su) \<and> ValidateFingerprint (SenderFingerprint meta') = Inr ()"
    using sealed_meta_ok [OF seal assms(4)] assms(10) by auto
  have um: "Unmarshal_Metadata js = Inr meta'" by (rule Unmarshal_Marshal_Metadata [OF m'(2) js(1)])
  define raw where "raw = (if Public p then js else [])"
  have len: "int (length payload) \<le> MaxInt64 - int (15 + length raw) - 2"
    using assms(6) by (simp add: out raw_def stream_container_def stream_prefix_def split: if_splits)
  have dec: "Unlocked_DecryptStream P u payload = Inr (put_uint16 (of_nat (length js)) @ js @ pt, None)"
    using Encrypt_Decrypt(1) [OF assms(1) ct assms(8,9)] assms(7) by (simp add: Unlocked_DecryptStream_def)
  have "\<exists>v. DecryptAndVerify P ufold (stream_container p h payload sig) u cs = Inr (pt, v)
      \<and> (if IsSigned meta then vr_Status v = VerifyOK \<and> vr_SignerFP v = id_Fingerprint (u_info su)
         else v = status_result VerifyUnsigned [])" if hd: "h = raw \<or> h = []" for h
  proof -
    have h: "p = ProfilePrivate \<and> h = [] \<or> p = ProfilePublic" "h = [] \<or> h = js"
      using p hd by (auto simp: raw_def profile_preds profile_bytes)
    have "\<exists>m0. meta_of_raw h = Inr m0" using um h(2) by (auto simp: meta_of_raw_def)
    then obtain m0 where m0: "meta_of_raw h = Inr m0" ..
    let ?sh = "\<lparr>sh_Profile = p, sh_Private = (h = []), HeaderMeta = m0, HeaderRaw = h,
           PayloadStart = int (15 + length h), PayloadLen = int (length payload), sh_Signature = sig\<rparr>"
    let ?v = "verdict P ufold ?sh meta' js (sha512 P pt) (sha512 P payload) u cs"
    have d: "DecryptAndVerify P ufold (stream_container p h payload sig) u cs = Inr (pt, ?v)"
      using js(2) sg(2) h len hd by (intro decryptContainer_accepts m0 dec um) auto
    show ?thesis
    proof (cases "IsSigned meta")
      case False
      then have "sig = []" using sg(1) m'(1) by (simp add: sign_payload_def)
      then have "?v = status_result VerifyUnsigned []" using False m'(1) h(2) by (auto simp: verdict_def Let_def)
      with d False show ?thesis by simp
    next
      case True
      have "vr_Status ?v = VerifyOK"
        using True m'(1) h(2) sg(1) by (intro signed_verdict [OF assms(2,3) _ assms(10) [OF True] m'(3) [OF True]]) auto
      moreover have "vr_SignerFP ?v = SenderFingerprint meta'" using verdict_signer calculation by blast
      ultimately show ?thesis using d True m'(3) [OF True] by simp
    qed
  qed
  moreover have "w_out w = stream_container p raw payload sig" "length raw < 65536" "Valid p"
    using out js(2) p by (auto simp: raw_def profile_preds)
  ultimately show thesis using that by blast
qed

lemma encrypt_decrypt:
  assumes "age_correct P" "mldsa_correct P" "mldsa_nonempty P" "wf_Metadata meta"
    and "encrypt_EncryptStream P rnd tmp new_buffer (pt, None) rs signer meta p = (w, Inr ())"
    and "int (length (w_out w)) \<le> MaxInt64"
    and "open_enc P u = Inr s" "ParseHybridIdentity P s = Inr i" "Recipient_String P i \<in> set rs"
    and "IsSigned meta \<Longrightarrow> signer = Some su \<and> open_sig P su = Inr priv \<and> mldsa_PrivUnmarshal P priv = Inr k
      \<and> c \<in> set cs \<and> ct_Fingerprint c = id_Fingerprint (u_info su) \<and> ct_SignPubKey c = b64_encode (mldsa_Public P k)"
  shows "\<exists>v. DecryptAndVerify P ufold (w_out w) u cs = Inr (pt, v)
    \<and> (if IsSigned meta then vr_Status v = VerifyOK \<and> vr_SignerFP v = id_Fingerprint (u_info su)
       else v = status_result VerifyUnsigned [])"
  using encrypt_decrypt_header [OF assms] by metis

text \<open>The file operations on a disk without faults.\<close>

lemma EncryptFile_clean:
  assumes "\<And>c q. d_fault d c q = None" "d_files d inPath = Some pt" "inPath \<noteq> outPath"
  shows "EncryptFile P rnd tmp d inPath outPath rs signer meta p =
    (case encrypt_EncryptStream P rnd tmp new_buffer (pt, None) rs signer meta p of (w, r) \<Rightarrow>
       (d\<lparr>d_files := (d_files d)(outPath := if r = Inr () then Some (w_out w) else None)\<rparr>, r))"
  using assms
  by (auto simp: EncryptFile_def os_Open_def open_output_def file_stream_def finish_output_def Let_def flush_output_def
      close_result_def os_Remove_def new_buffer_def split: prod.splits sum.splits)

lemma DecryptFile_clean:
  assumes "\<And>c q. d_fault d c q = None" "d_files d inPath = Some icfx" "inPath \<noteq> outPath" "icfx = MagicBytes @ rest"
    and "DecryptAndVerify P ufold icfx u cs = Inr (pt, v)"
  shows "DecryptFile P ufold d inPath outPath u cs = (d\<lparr>d_files := (d_files d)(outPath \<mapsto> pt)\<rparr>, Inr v)"
proof -
  obtain w where "DecryptAndVerifyStream P ufold (new_reader icfx) new_buffer u cs = (w, Inr v)" "pt = w_out w"
    using assms(5) by (auto simp: DecryptAndVerify_def split: prod.splits sum.splits)
  moreover have "stream_ReadFull (icfx, None) (length MagicBytes) = Inr (MagicBytes, (rest, None))"
    by (simp add: stream_ReadFull_def assms(4))
  ultimately show ?thesis
    using assms(1-3)
    by (simp add: DecryptFile_def os_Open_def open_output_def file_stream_def finish_output_def Let_def flush_output_def
        close_result_def decryptToWriter_def new_buffer_def [symmetric])
qed

section \<open>A sample\<close>

definition sample_fp :: bytes where "sample_fp = ''0123456789abcdef0123456789abcdef''"

definition sample_signer :: Unlocked where
  "sample_signer = \<lparr>u_info = zero_Identity\<lparr>id_Name := ''bob'', id_Fingerprint := sample_fp, id_SignPubKey := b64_encode ''pub''\<rparr>,
     u_encKey = Some ''AGE-SECRET-KEY-PQ-1bob'', u_sigKey = Some ''pub'', u_hwChallenge = []\<rparr>"

definition sample_reader :: Unlocked where
  "sample_reader = \<lparr>u_info = zero_Identity, u_encKey = Some ''AGE-SECRET-KEY-PQ-1eve'', u_sigKey = None, u_hwChallenge = []\<rparr>"

definition sample_contact :: Contact where
  "sample_contact = zero_Contact\<lparr>ct_Alias := ''bob'', ct_Fingerprint := sample_fp, ct_SignPubKey := b64_encode ''pub''\<rparr>"

lemma toy_mldsa_nonempty: "mldsa_nonempty toy_prims"
  by (auto simp: mldsa_nonempty_def toy_prims_def)

lemma sample_encrypts:
  "\<exists>w. encrypt_EncryptStream toy_prims [] (\<lambda>_. None) new_buffer (''hi'', None) [''age1pq1eve''] (Some sample_signer)
      (sample_meta\<lparr>SenderFingerprint := []\<rparr>) ProfilePublic = (w, Inr ()) \<and> int (length (w_out w)) \<le> MaxInt64"
proof -
  let ?meta = "sample_meta\<lparr>SenderFingerprint := sample_fp\<rparr>"
  have v: "ValidateFingerprint sample_fp = Inr ()" by code_simp
  then have seal: "sealed_meta (Some sample_signer) (sample_meta\<lparr>SenderFingerprint := []\<rparr>) = Inr ?meta"
    by (simp add: sealed_meta_def sample_signer_def sample_meta_def)
  obtain js where js: "Marshal_Metadata ?meta = Inr js" "length js \<le> 65535"
    using Marshal_Metadata_short [of ?meta] by (auto simp: sample_meta_def sample_fp_def plain_def marshals_def zero_time_def)
  let ?d = "put_uint16 (of_nat (length js)) @ js @ ''hi''"
  have enc: "encrypt_payload toy_prims [] (\<lambda>_. None) [''age1pq1eve''] js (''hi'', None) = Inr (''age-encryption.org/v1'' @ ?d)"
    unfolding encrypt_payload_ok by (simp add: Encrypt_def parseRecipients_def toy_prims_def HasPrefix_def)
  let ?pl = "''age-encryption.org/v1'' @ ?d"
  have len: "length (SignedMessage p (sha512 toy_prims x) (sha512 toy_prims y)) = 178" for p x y
    using toy_laws(4) by (simp add: SignedMessage_def writeField_def hash_lengths_def containerCanonicalTag_def)
  obtain sig where sig: "sign_payload toy_prims (Some sample_signer) ?meta ProfilePublic ''hi'' ?pl = Inr sig" "length sig = 181"
  proof -
    have "Unlocked_Sign toy_prims sample_signer m = Inr (''pub'' @ m)" for m
      by (simp add: Unlocked_Sign_def open_sig_def sample_signer_def Sign_def toy_prims_def)
    then show thesis using that len by (simp add: sign_payload_def NewContainerDigest_def sample_meta_def)
  qed
  have p: "ProfilePublic \<noteq> ProfilePrivate" "Public ProfilePublic" by (simp_all add: profile_bytes profile_preds)
  have "encrypt_EncryptStream toy_prims [] (\<lambda>_. None) new_buffer (''hi'', None) [''age1pq1eve''] (Some sample_signer)
      (sample_meta\<lparr>SenderFingerprint := []\<rparr>) ProfilePublic = write_container (\<lambda>_. None) new_buffer ProfilePublic js ?pl sig"
    using p js sig(1) by (simp add: encrypt_EncryptStream_def seal enc)
  also have "\<dots> = (new_buffer\<lparr>w_out := stream_container ProfilePublic js ?pl sig\<rparr>, Inr ())"
    by (simp add: write_container_def WriteAll_unbounded io_Copy_def stream_container_def stream_prefix_def)
  finally show ?thesis
    using js(2) sig(2) by (simp add: stream_container_def stream_prefix_def MaxInt64_def)
qed

lemma sample_decrypts:
  "\<exists>w v. encrypt_EncryptStream toy_prims [] (\<lambda>_. None) new_buffer (''hi'', None) [''age1pq1eve''] (Some sample_signer)
      (sample_meta\<lparr>SenderFingerprint := []\<rparr>) ProfilePublic = (w, Inr ())
    \<and> DecryptAndVerify toy_prims (\<lambda>_ _. False) (w_out w) sample_reader [sample_contact] = Inr (''hi'', v)
    \<and> vr_Status v = VerifyOK \<and> vr_SignerFP v = sample_fp"
proof -
  obtain w where w: "encrypt_EncryptStream toy_prims [] (\<lambda>_. None) new_buffer (''hi'', None) [''age1pq1eve''] (Some sample_signer)
      (sample_meta\<lparr>SenderFingerprint := []\<rparr>) ProfilePublic = (w, Inr ())" "int (length (w_out w)) \<le> MaxInt64"
    using sample_encrypts by auto
  have m: "wf_Metadata (sample_meta\<lparr>SenderFingerprint := []\<rparr>)" "IsSigned (sample_meta\<lparr>SenderFingerprint := []\<rparr>)"
    by (simp_all add: wf_Metadata_def sample_meta_def wf_time_def zero_time_def days_in_def leap_def valid_utf8_ascii ascii_def)
  have r: "open_enc toy_prims sample_reader = Inr ''AGE-SECRET-KEY-PQ-1eve''"
      "ParseHybridIdentity toy_prims ''AGE-SECRET-KEY-PQ-1eve'' = Inr ''AGE-SECRET-KEY-PQ-1eve''"
      "Recipient_String toy_prims ''AGE-SECRET-KEY-PQ-1eve'' \<in> set [''age1pq1eve'']"
    by (simp_all add: open_enc_def sample_reader_def toy_prims_def HasPrefix_def)
  have s: "open_sig toy_prims sample_signer = Inr ''pub''" "mldsa_PrivUnmarshal toy_prims ''pub'' = Inr ''pub''"
      "mldsa_Public toy_prims ''pub'' = ''pub''"
    by (simp_all add: open_sig_def sample_signer_def toy_prims_def)
  have "id_Fingerprint (u_info sample_signer) = sample_fp" by (simp add: sample_signer_def)
  with encrypt_decrypt [OF toy_laws(1,3) toy_mldsa_nonempty m(1) w r, of sample_signer "''pub''" "''pub''" sample_contact
      "[sample_contact]" "\<lambda>_ _. False"] m(2) s w(1)
  show ?thesis by (auto simp: sample_contact_def)
qed

section \<open>Properties\<close>

text \<open>
  C27. The verdict, in full. With a header that is absent or byte-identical to the sealed metadata:
  unsigned exactly if the sealed metadata claims no signature and none is attached; OK exactly if it
  claims one by a well-formed fingerprint, one is attached, and it verifies over profile, plaintext
  digest and ciphertext digest under a known key of that fingerprint; unknown signer exactly if no
  decodable key of that fingerprint is known. Every other combination is a failure.
\<close>

theorem verdict_spec:
  "let fp = SenderFingerprint meta;
       consistent = (sh_Private sh \<or> HeaderRaw sh = raw);
       signed = (consistent \<and> IsSigned meta \<and> ValidateFingerprint fp = Inr () \<and> sh_Signature sh \<noteq> []);
       good = list_ex (good_key P ufold (SignedMessage (sh_Profile sh) pd cd) (sh_Signature sh) fp) (signer_keys fp u cs);
       st = vr_Status (verdict P ufold sh meta raw pd cd u cs)
   in (st = VerifyUnsigned \<longleftrightarrow> consistent \<and> \<not> IsSigned meta \<and> sh_Signature sh = [])
    \<and> (st = VerifyOK \<longleftrightarrow> signed \<and> good)
    \<and> (st = VerifyUnknownSigner \<longleftrightarrow> signed \<and> \<not> good \<and> \<not> list_ex (usable_key ufold fp) (signer_keys fp u cs))"
proof -
  let ?fp = "SenderFingerprint meta"
  have ne: "ValidateFingerprint ?fp = Inr () \<Longrightarrow> ?fp \<noteq> []" by (auto simp: ValidateFingerprint_def)
  have c: "claimedSigner meta = (if ValidateFingerprint ?fp = Inr () then ?fp else [])" by (simp add: claimedSigner_def)
  show ?thesis
  proof (cases "ValidateFingerprint ?fp = Inr ()")
    case True
    from verifySignature_cases [OF ne [OF True], of P ufold "SignedMessage (sh_Profile sh) pd cd" "sh_Signature sh" u cs]
    show ?thesis
      using ne [OF True] signer_keys_ok [of _ ?fp u cs] unfolding Let_def verdict_OK_iff
      by (auto simp: True verdict_def c Let_def split: if_splits)
  next
    case False
    then show ?thesis unfolding Let_def verdict_OK_iff by (simp add: verdict_def c Let_def)
  qed
qed

text \<open>
  C1. What VerifyOK means for the bytes that were written: the input is a container of a current
  profile; its payload decrypts to exactly the sealed metadata followed by the plaintext that was
  written; the sealed metadata names the reported signer; an advisory header, if there is one, is
  those sealed bytes; and the signature verifies, under a key stored for that fingerprint (a
  contact's current or previous key, or the own one, as reported), over the profile, the digest of
  the written plaintext and the digest of the payload.
\<close>

theorem VerifyOK_sound:
  assumes "DecryptAndVerify P ufold data u cs = Inr (pt, v)" "vr_Status v = VerifyOK"
  shows "\<exists>p raw payload sig rest meta js kfp key pub k.
     data = stream_container p raw payload sig @ rest \<and> (p = ProfilePrivate \<or> p = ProfilePublic)
     \<and> Unlocked_DecryptStream P u payload = Inr (put_uint16 (of_nat (length js)) @ js @ pt, None)
     \<and> Unmarshal_Metadata js = Inr meta \<and> IsSigned meta \<and> vr_SignerFP v = SenderFingerprint meta
     \<and> (raw = [] \<or> raw = js)
     \<and> (kfp, key, v) \<in> set (signer_keys (SenderFingerprint meta) u cs) \<and> EqualFold ufold kfp (SenderFingerprint meta)
     \<and> b64_decode key = Inr pub \<and> mldsa_PubUnmarshal P pub = Inr k
     \<and> mldsa_Verify P k (SignedMessage p (sha512 P pt) (sha512 P payload)) sig"
proof -
  from assms(1) obtain w where w: "DecryptAndVerifyStream P ufold (new_reader data) new_buffer u cs = (w, Inr v)" "pt = w_out w"
    by (auto simp: DecryptAndVerify_def split: prod.splits sum.splits)
  from w(1) [unfolded DecryptAndVerifyStream_dispatch] obtain p n where
      p: "ParseHeaderPrefix (take 7 data) = Inr (p, n)" "Streaming p" "\<not> Legacy p"
    and c: "decryptContainer P ufold (new_reader data) new_buffer u cs = (w, Inr v)"
    using decryptLegacy_status assms(2) by (auto split: if_splits)
  from c show ?thesis
  proof (rule decryptContainer_ok)
    fix sh payload rest meta js d
    assume sh: "data = stream_container (sh_Profile sh) (HeaderRaw sh) payload (sh_Signature sh) @ rest"
      "sh_Private sh = (HeaderRaw sh = [])"
      and dec: "Unlocked_DecryptStream P u payload = Inr (put_uint16 (of_nat (length js)) @ js @ d, None)"
      "Unmarshal_Metadata js = Inr meta" "w_out w = w_out new_buffer @ d"
      and v: "v = verdict P ufold sh meta js (sha512 P d) (sha512 P payload) u cs"
    have "byte_at (take 7 data) 4 = sh_Profile sh"
      unfolding sh(1) using byte_at_char [of MagicBytes "sh_Profile sh"] by (simp add: stream_container_def stream_prefix_def)
    with p have prof: "sh_Profile sh = ProfilePrivate \<or> sh_Profile sh = ProfilePublic"
      by (auto simp: ParseHeaderPrefix_Inr_iff profile_preds)
    let ?fp = "SenderFingerprint meta" and ?m = "SignedMessage (sh_Profile sh) (sha512 P d) (sha512 P payload)"
    from assms(2) v have ok: "HeaderRaw sh = [] \<or> HeaderRaw sh = js" "IsSigned meta" "ValidateFingerprint ?fp = Inr ()" "sh_Signature sh \<noteq> []"
        "list_ex (good_key P ufold ?m (sh_Signature sh) ?fp) (signer_keys ?fp u cs)"
      by (auto simp: verdict_OK_iff sh(2))
    have ne: "?fp \<noteq> []" using ok(3) by (auto simp: ValidateFingerprint_def)
    have "v = verifySignature P ufold ?m (sh_Signature sh) ?fp u cs"
      using ok ne by (auto simp: v verdict_def Let_def claimedSigner_def sh(2))
    with verifySignature_cases [OF ne, of P ufold ?m "sh_Signature sh" u cs] ok(5)
    obtain kfp key r where k: "(kfp, key, r) \<in> set (signer_keys ?fp u cs)" "good_key P ufold ?m (sh_Signature sh) ?fp (kfp, key, r)" "v = r"
      by auto
    moreover have "vr_SignerFP v = ?fp" using signer_keys_ok [OF k(1)] k(3) by simp
    ultimately show ?thesis
      using sh(1) dec ok(1,2) prof w(2) by (fastforce simp: good_key_verify)
  qed
qed

theorem VerifyOK_sound_witness:
  "\<exists>data v p raw payload sig rest k. DecryptAndVerify toy_prims (\<lambda>_ _. False) data sample_reader [sample_contact] = Inr (''hi'', v)
     \<and> vr_Status v = VerifyOK \<and> data = stream_container p raw payload sig @ rest
     \<and> mldsa_Verify toy_prims k (SignedMessage p (sha512 toy_prims ''hi'') (sha512 toy_prims payload)) sig"
proof -
  from sample_decrypts obtain w :: writer and v where
      w: "DecryptAndVerify toy_prims (\<lambda>_ _. False) (w_out w) sample_reader [sample_contact] = Inr (''hi'', v)"
      "vr_Status v = VerifyOK"
    by (elim exE conjE)
  from VerifyOK_sound [OF w] obtain p raw payload sig rest k where
      "w_out w = stream_container p raw payload sig @ rest"
      "mldsa_Verify toy_prims k (SignedMessage p (sha512 toy_prims ''hi'') (sha512 toy_prims payload)) sig"
    by (elim exE conjE)
  with w show ?thesis by (intro exI conjI)
qed

text \<open>
  C2. Files: with no disk faults, EncryptFile followed by DecryptFile by one of the recipients
  recreates the file. If it was signed and the recipient has the signer as a contact with the right
  key, the verdict is OK and names the signer; if it was not signed, the verdict is unsigned.
\<close>

theorem EncryptFile_DecryptFile:
  assumes "age_correct P" "mldsa_correct P" "mldsa_nonempty P" "wf_Metadata meta"
    and "\<And>c q. d_fault d c q = None" "d_files d inPath = Some pt" "inPath \<noteq> midPath" "midPath \<noteq> outPath"
    and "EncryptFile P rnd (\<lambda>_. None) d inPath midPath rs signer meta p = (d1, Inr ())"
    and "d_files d1 midPath = Some icfx" "int (length icfx) \<le> MaxInt64"
    and "open_enc P u = Inr s" "ParseHybridIdentity P s = Inr i" "Recipient_String P i \<in> set rs"
    and "IsSigned meta \<Longrightarrow> signer = Some su \<and> open_sig P su = Inr priv \<and> mldsa_PrivUnmarshal P priv = Inr k
      \<and> c \<in> set cs \<and> ct_Fingerprint c = id_Fingerprint (u_info su) \<and> ct_SignPubKey c = b64_encode (mldsa_Public P k)"
  shows "\<exists>d2 v. DecryptFile P ufold d1 midPath outPath u cs = (d2, Inr v) \<and> d_files d2 outPath = Some pt
    \<and> (if IsSigned meta then vr_Status v = VerifyOK \<and> vr_SignerFP v = id_Fingerprint (u_info su)
       else v = status_result VerifyUnsigned [])"
proof -
  note e = EncryptFile_clean [OF assms(5,6,7), of P rnd "\<lambda>_. None" rs signer meta p]
  from assms(9) e obtain w where w: "encrypt_EncryptStream P rnd (\<lambda>_. None) new_buffer (pt, None) rs signer meta p = (w, Inr ())"
      "d1 = d\<lparr>d_files := (d_files d)(midPath \<mapsto> w_out w)\<rparr>"
    by (cases "encrypt_EncryptStream P rnd (\<lambda>_. None) new_buffer (pt, None) rs signer meta p";
        cases "snd (encrypt_EncryptStream P rnd (\<lambda>_. None) new_buffer (pt, None) rs signer meta p)") (auto split: if_splits)
  have icfx: "icfx = w_out w" using assms(10) w(2) by simp
  from encrypt_decrypt [OF assms(1-4) w(1) _ assms(12-14), of su priv k c cs ufold] assms(11,15) icfx
  obtain v where v: "DecryptAndVerify P ufold icfx u cs = Inr (pt, v)"
      "if IsSigned meta then vr_Status v = VerifyOK \<and> vr_SignerFP v = id_Fingerprint (u_info su) else v = status_result VerifyUnsigned []"
    by auto
  have "\<exists>rest. icfx = MagicBytes @ rest"
    using encrypt_ok [OF w(1)] icfx by (metis append_Nil stream_container_def stream_prefix_def append_assoc w_out_new_buffer(1))
  then show ?thesis
    using DecryptFile_clean [of d1 midPath icfx outPath, OF _ assms(10) _ _ v(1)] assms(5,8) w(2) v(2) by force
qed

lemma sample_encrypt_file:
  defines "d \<equiv> empty_disk\<lparr>d_files := [''a'' \<mapsto> ''hi'']\<rparr>"
  shows "\<exists>d1 icfx. EncryptFile toy_prims [] (\<lambda>_. None) d ''a'' ''a.icfx'' [''age1pq1eve''] (Some sample_signer)
      (sample_meta\<lparr>SenderFingerprint := []\<rparr>) ProfilePublic = (d1, Inr ())
    \<and> d_files d1 ''a.icfx'' = Some icfx \<and> int (length icfx) \<le> MaxInt64"
proof -
  obtain w where "encrypt_EncryptStream toy_prims [] (\<lambda>_. None) new_buffer (''hi'', None) [''age1pq1eve''] (Some sample_signer)
      (sample_meta\<lparr>SenderFingerprint := []\<rparr>) ProfilePublic = (w, Inr ())" "int (length (w_out w)) \<le> MaxInt64"
    using sample_encrypts by auto
  moreover have "d_fault d c q = None" "d_files d ''a'' = Some ''hi''" for c q by (simp_all add: d_def empty_disk_def)
  ultimately show ?thesis
    using EncryptFile_clean [of d "''a''" "''hi''" "''a.icfx''"] by simp
qed

theorem EncryptFile_DecryptFile_witness:
  "\<exists>d1 d2 v. DecryptFile toy_prims (\<lambda>_ _. False) d1 ''a.icfx'' ''b'' sample_reader [sample_contact] = (d2, Inr v)
     \<and> d_files d2 ''b'' = Some ''hi'' \<and> vr_Status v = VerifyOK"
proof -
  let ?d = "empty_disk\<lparr>d_files := [''a'' \<mapsto> ''hi'']\<rparr>" and ?meta = "sample_meta\<lparr>SenderFingerprint := []\<rparr>"
  obtain d1 icfx where d1: "EncryptFile toy_prims [] (\<lambda>_. None) ?d ''a'' ''a.icfx'' [''age1pq1eve''] (Some sample_signer)
      ?meta ProfilePublic = (d1, Inr ())" "d_files d1 ''a.icfx'' = Some icfx" "int (length icfx) \<le> MaxInt64"
    using sample_encrypt_file by blast
  have m: "wf_Metadata ?meta" "IsSigned ?meta"
    by (simp_all add: wf_Metadata_def sample_meta_def wf_time_def zero_time_def days_in_def leap_def valid_utf8_ascii ascii_def)
  have r: "open_enc toy_prims sample_reader = Inr ''AGE-SECRET-KEY-PQ-1eve''"
      "ParseHybridIdentity toy_prims ''AGE-SECRET-KEY-PQ-1eve'' = Inr ''AGE-SECRET-KEY-PQ-1eve''"
      "Recipient_String toy_prims ''AGE-SECRET-KEY-PQ-1eve'' \<in> set [''age1pq1eve'']"
    by (simp_all add: open_enc_def sample_reader_def toy_prims_def HasPrefix_def)
  have s: "open_sig toy_prims sample_signer = Inr ''pub''" "mldsa_PrivUnmarshal toy_prims ''pub'' = Inr ''pub''"
      "mldsa_Public toy_prims ''pub'' = ''pub''" "id_Fingerprint (u_info sample_signer) = sample_fp"
    by (simp_all add: open_sig_def sample_signer_def toy_prims_def)
  have f: "d_fault ?d c q = None" "d_files ?d ''a'' = Some ''hi''" for c q by (simp_all add: empty_disk_def)
  have "\<exists>d2 v. DecryptFile toy_prims (\<lambda>_ _. False) d1 ''a.icfx'' ''b'' sample_reader [sample_contact] = (d2, Inr v)
     \<and> d_files d2 ''b'' = Some ''hi'' \<and> (if IsSigned ?meta then vr_Status v = VerifyOK \<and> vr_SignerFP v = id_Fingerprint (u_info sample_signer)
       else v = status_result VerifyUnsigned [])"
    by (rule EncryptFile_DecryptFile [OF toy_laws(1,3) toy_mldsa_nonempty m(1) f _ _ d1 r, where c = sample_contact and priv = "''pub''" and k = "''pub''"])
      (use s in \<open>simp_all add: sample_contact_def\<close>)
  then show ?thesis using m(2) by auto
qed

text \<open>
  C33. What a failed DecryptFile leaves behind, whichever system calls fail. No file but the output ever
  changes. If the input cannot be opened or is shorter than the magic bytes, or the output cannot be opened, nothing
  changes, so an output file that existed stays as it was. Otherwise the output has been truncated: if its
  mode cannot be set it is left behind, empty; if decryption, verification or the close fails, it is
  removed; and if that removal fails too, it holds what had been written until then.
\<close>

theorem DecryptFile_failure:
  fixes P ufold d inPath outPath u cs
  defines "readable \<equiv> is_ok (os_Open d inPath) \<and> is_ok (stream_ReadFull (file_stream d inPath) (length MagicBytes))"
  assumes "DecryptFile P ufold d inPath outPath u cs = (d', Inl e)"
  shows "(\<forall>q. q \<noteq> outPath \<longrightarrow> d_files d' q = d_files d q)
     \<and> (if \<not> readable \<or> d_fault d SysOpen outPath \<noteq> None then d' = d
        else if d_fault d SysChmod outPath \<noteq> None then d_files d' outPath = Some []
        else if d_fault d SysRemove outPath = None then d_files d' outPath = None
        else \<exists>d1 out magic out' r. open_output d outPath = Inr (d1, out)
          \<and> decryptToWriter P ufold magic (new_reader (fst (file_stream d1 inPath))) out u cs = (out', r) \<and> d_files d' outPath = Some (w_out out'))"
proof (cases "readable \<and> d_fault d SysOpen outPath = None \<and> d_fault d SysChmod outPath = None")
  case False
  then show ?thesis using assms(2) unfolding readable_def
    by (auto simp: DecryptFile_def open_output_def split: sum.splits option.splits prod.splits)
next
  case True
  then obtain magic rest where m: "stream_ReadFull (file_stream d inPath) (length MagicBytes) = Inr (magic, rest)"
    unfolding readable_def by (auto simp: split: sum.splits)
  let ?d1 = "d\<lparr>d_files := (d_files d)(outPath \<mapsto> [])\<rparr>"
  obtain out where o: "open_output d outPath = Inr (?d1, out)" using True by (simp add: open_output_def)
  obtain out' r where w: "decryptToWriter P ufold (magic = MagicBytes) (new_reader (fst (file_stream ?d1 inPath))) out u cs = (out', r)" by fastforce
  have "finish_output ?d1 outPath out' r = (d', Inl e)"
    using assms(2) True m o w unfolding readable_def by (auto simp: DecryptFile_def)
  then have "(\<forall>q. q \<noteq> outPath \<longrightarrow> d_files d' q = d_files d q) \<and> d_files d' outPath = (if d_fault d SysRemove outPath = None then None else Some (w_out out'))"
    by (auto simp: finish_output_def flush_output_def Let_def os_Remove_def split: sum.splits option.splits)
  with True o w show ?thesis by auto
qed

theorem DecryptFile_failure_witness:
  "\<exists>d' e. DecryptFile toy_prims (\<lambda>_ _. False) (empty_disk\<lparr>d_files := [''a'' \<mapsto> ''ICFXhi'', ''b'' \<mapsto> ''old'']\<rparr>) ''a'' ''b'' sample_reader [] = (d', Inl e)
     \<and> d_files d' ''b'' = None \<and> d_files d' ''a'' = Some ''ICFXhi''"
proof -
  let ?d = "empty_disk\<lparr>d_files := [''a'' \<mapsto> ''ICFXhi'', ''b'' \<mapsto> ''old'']\<rparr>"
  have "snd (DecryptFile toy_prims (\<lambda>_ _. False) ?d ''a'' ''b'' sample_reader []) \<noteq> Inr v" for v
    by (simp add: DecryptFile_def os_Open_def file_stream_def empty_disk_def stream_ReadFull_def MagicBytes_def open_output_def
        decryptToWriter_def DecryptAndVerifyStream_def ReadFull_def HeaderPrefixLen_def finish_output_def flush_output_def)
  then obtain d' e where r: "DecryptFile toy_prims (\<lambda>_ _. False) ?d ''a'' ''b'' sample_reader [] = (d', Inl e)"
    by (metis prod.collapse sum.exhaust)
  have "is_ok (os_Open ?d ''a'')" "is_ok (stream_ReadFull (file_stream ?d ''a'') (length MagicBytes))" "d_fault ?d c q = None" for c q
    by (simp_all add: empty_disk_def os_Open_def file_stream_def stream_ReadFull_def MagicBytes_def)
  with DecryptFile_failure [OF r] r show ?thesis by simp
qed

theorem encrypt_EncryptStream_writes_witness:
  "\<exists>w payload sig js. encrypt_EncryptStream toy_prims [] (\<lambda>_. None) new_buffer (''hi'', None) [''age1pq1eve''] (Some sample_signer)
      (sample_meta\<lparr>SenderFingerprint := []\<rparr>) ProfilePublic = (w, Inr ())
    \<and> w_out w = stream_container ProfilePublic js payload sig"
proof -
  obtain w where w: "encrypt_EncryptStream toy_prims [] (\<lambda>_. None) new_buffer (''hi'', None) [''age1pq1eve''] (Some sample_signer)
      (sample_meta\<lparr>SenderFingerprint := []\<rparr>) ProfilePublic = (w, Inr ())"
    using sample_encrypts by auto
  have "Public ProfilePublic" by (simp add: Public_def)
  with encrypt_EncryptStream_writes [OF w] w show ?thesis by auto
qed

end
