(* ===== verification/Icfx_Groups.thy ===== *)
theory Icfx_Groups
  imports Icfx_Contacts Icfx_Keystore "HOL-Library.Product_Lexorder" "HOL-Library.Option_ord"
begin

text \<open>
  Package groups: contact groups, their store and the merge of two synchronisation views. The Go
  map of the merge is a list of groups with distinct identifiers, the tombstone set a list; both
  are sorted before they are written, so that the iteration order of a map plays no role. A string
  compares bytewise, which is the lexicographic order of \<^typ>\<open>bytes\<close>.

  The locale \<open>replicated\<close> is the contract of a merge that replicas exchange their states with: seen
  through a view, a merge is the pointwise maximum. It is interpreted on the merge of groups.
\<close>

section \<open>Groups\<close>

definition Groups_ErrNotFound :: go_error where "Groups_ErrNotFound = Sentinel ''group not found''"

definition Groups_ErrAlreadyExists :: go_error where "Groups_ErrAlreadyExists = Sentinel ''group already exists''"

record Group =
  g_ID :: bytes
  g_Name :: bytes
  g_MemberIDs :: "bytes list"
  g_UpdatedAt :: gotime

record groupData =
  gd_Version :: int
  gd_Groups :: "Group list"
  gd_Deleted :: "bytes list"

definition zero_Group :: Group where
  "zero_Group = \<lparr>g_ID = [], g_Name = [], g_MemberIDs = [], g_UpdatedAt = zero_time\<rparr>"

definition zero_groupData :: groupData where
  "zero_groupData = \<lparr>gd_Version = 0, gd_Groups = [], gd_Deleted = []\<rparr>"

definition Groups_FindByID :: "Group list \<Rightarrow> bytes \<Rightarrow> nat result" where
  "Groups_FindByID gs i = found Groups_ErrNotFound (find_index (\<lambda>g. g_ID g = i) gs)"

definition Groups_FindByName :: "Group list \<Rightarrow> bytes \<Rightarrow> nat result" where
  "Groups_FindByName gs name = found Groups_ErrNotFound (find_index (\<lambda>g. g_Name g = name) gs)"

definition Group_fields :: "Group field list" where
  "Group_fields =
     [fld ''id'' dec_str g_ID g_ID_update,
      fld ''name'' dec_str g_Name g_Name_update,
      fld ''member_ids'' (dec_list dec_str []) g_MemberIDs g_MemberIDs_update,
      fld ''updated_at'' dec_time g_UpdatedAt g_UpdatedAt_update]"

definition enc_Group :: "Group \<Rightarrow> json" where
  "enc_Group g = JObj [(''id'', jstr (g_ID g)), (''name'', jstr (g_Name g)),
     (''member_ids'', JArr (map jstr (g_MemberIDs g))), (''updated_at'', jtime (g_UpdatedAt g))]"

definition groupData_fields :: "groupData field list" where
  "groupData_fields =
     [fld ''version'' dec_int gd_Version gd_Version_update,
      fld ''groups'' (dec_list (dec_struct Group_fields) zero_Group) gd_Groups gd_Groups_update,
      fld ''deleted'' (dec_list dec_str []) gd_Deleted gd_Deleted_update]"

definition enc_groupData :: "groupData \<Rightarrow> json" where
  "enc_groupData d = JObj ([(''version'', jint (gd_Version d)), (''groups'', JArr (map enc_Group (gd_Groups d)))]
     @ omit (gd_Deleted d = []) ''deleted'' (JArr (map jstr (gd_Deleted d))))"

definition wf_Group :: "Group \<Rightarrow> bool" where
  "wf_Group g \<longleftrightarrow> valid_utf8 (g_ID g) \<and> valid_utf8 (g_Name g) \<and> list_all valid_utf8 (g_MemberIDs g) \<and> wf_time (g_UpdatedAt g)"

definition wf_groupData :: "groupData \<Rightarrow> bool" where
  "wf_groupData d \<longleftrightarrow> list_all wf_Group (gd_Groups d) \<and> list_all valid_utf8 (gd_Deleted d)"

text \<open>json.Marshal fails on a time beyond the year 9999.\<close>

definition groupData_marshals :: "groupData \<Rightarrow> bool" where
  "groupData_marshals d \<longleftrightarrow> list_all (\<lambda>g. marshals (g_UpdatedAt g)) (gd_Groups d)"

section \<open>Merging\<close>

definition storeVersion :: int where "storeVersion = 1"

definition canonical :: "Group \<Rightarrow> bytes" where
  "canonical g = (let members = sort (g_MemberIDs g) in g_Name g @ [CHR 0x00] @ Join '','' members)"

definition winsOver :: "Group \<Rightarrow> Group \<Rightarrow> bool" where
  "winsOver g cur =
     (if After (g_UpdatedAt g) (g_UpdatedAt cur) then True
      else if Before (g_UpdatedAt g) (g_UpdatedAt cur) then False
      else canonical cur < canonical g)"

definition take_group :: "bytes list \<Rightarrow> Group \<Rightarrow> Group list \<Rightarrow> Group list" where
  "take_group deleted g byID =
     (if g_ID g \<in> set deleted then byID
      else case find_index (\<lambda>c. g_ID c = g_ID g) byID of
        None \<Rightarrow> byID @ [g]
      | Some i \<Rightarrow> (if winsOver g (byID ! i) then byID[i := g] else byID))"

definition merge_data :: "groupData \<Rightarrow> groupData \<Rightarrow> groupData" where
  "merge_data a b =
     (let deleted = gd_Deleted a @ gd_Deleted b;
          byID = fold (take_group deleted) (gd_Groups b) (fold (take_group deleted) (gd_Groups a) [])
      in \<lparr>gd_Version = storeVersion, gd_Groups = sort_key (\<lambda>g. (g_Name g, g_ID g)) byID, gd_Deleted = sort (remdups deleted)\<rparr>)"

definition parse_groups :: "bytes \<Rightarrow> groupData result" where
  "parse_groups bs = (if bs = [] then Inr zero_groupData
     else case unmarshal (dec_struct groupData_fields) zero_groupData bs of None \<Rightarrow> Inl (Errorf ''json'') | Some d \<Rightarrow> Inr d)"

definition marshal_groups :: "groupData \<Rightarrow> bytes result" where
  "marshal_groups d = (if groupData_marshals d then Inr (compact (enc_groupData d)) else Inl (Errorf ''json''))"

definition MergeGroups :: "bytes \<Rightarrow> bytes \<Rightarrow> bytes result" where
  "MergeGroups localBytes remoteBytes =
     andthen (parse_groups localBytes) (\<lambda>a.
     andthen (parse_groups remoteBytes) (\<lambda>b.
     marshal_groups (merge_data a b)))"

section \<open>Store\<close>

definition newID :: "bytes \<Rightarrow> bytes" where "newID r = hex_encode (rand_bytes r 16)"

definition Groups_load :: "bytes \<Rightarrow> disk \<Rightarrow> groupData result" where
  "Groups_load path d =
     (let raw = ReadFile d path in
      if IsNotExist raw then Inr (zero_groupData\<lparr>gd_Version := storeVersion\<rparr>)
      else andthen (wrapping ''reading groups file: %w'' raw) (\<lambda>raw.
        case unmarshal (dec_struct groupData_fields) zero_groupData raw of
          None \<Rightarrow> Inl (Wrap ''parsing groups: %w'' (Errorf ''json'')) | Some data \<Rightarrow> Inr data))"

definition Groups_save :: "bytes \<Rightarrow> disk \<Rightarrow> groupData \<Rightarrow> disk \<times> unit result" where
  "Groups_save path d data =
     (if \<not> groupData_marshals data then (d, Inl (Wrap ''marshaling groups: %w'' (Errorf ''json'')))
      else WriteFileAtomic d path (indented (enc_groupData (data\<lparr>gd_Version := storeVersion\<rparr>))))"

definition Groups_List :: "bytes \<Rightarrow> disk \<Rightarrow> Group list result" where
  "Groups_List path d = andthen (Groups_load path d) (\<lambda>data. Inr (gd_Groups data))"

definition removeString :: "bytes list \<Rightarrow> bytes \<Rightarrow> bytes list" where
  "removeString s v = filter (\<lambda>x. x \<noteq> v) s"

definition Groups_Add :: "bytes \<Rightarrow> gotime \<Rightarrow> bytes \<Rightarrow> bytes \<Rightarrow> bytes list \<Rightarrow> disk \<Rightarrow> disk \<times> Group result" where
  "Groups_Add rnd now path name memberIDs d =
     (case Groups_load path d of Inl e \<Rightarrow> (d, Inl e)
      | Inr data \<Rightarrow>
        if list_ex (\<lambda>g. g_Name g = name) (gd_Groups data) then (d, Inl Groups_ErrAlreadyExists)
        else
        let i = newID rnd; g = \<lparr>g_ID = i, g_Name = name, g_MemberIDs = memberIDs, g_UpdatedAt = now\<rparr>
        in (case Groups_save path d (data\<lparr>gd_Groups := gd_Groups data @ [g], gd_Deleted := removeString (gd_Deleted data) i\<rparr>) of
              (d', Inl e) \<Rightarrow> (d', Inl e) | (d', Inr _) \<Rightarrow> (d', Inr g)))"

definition Groups_Edit :: "gotime \<Rightarrow> bytes \<Rightarrow> bytes \<Rightarrow> bytes \<Rightarrow> bytes list \<Rightarrow> disk \<Rightarrow> disk \<times> unit result" where
  "Groups_Edit now path i name memberIDs d =
     (case Groups_load path d of Inl e \<Rightarrow> (d, Inl e)
      | Inr data \<Rightarrow>
        (case find_index (\<lambda>g. g_ID g = i) (gd_Groups data) of
           None \<Rightarrow> (d, Inl Groups_ErrNotFound)
         | Some k \<Rightarrow> Groups_save path d (data\<lparr>gd_Groups := (gd_Groups data)[k := (gd_Groups data ! k)\<lparr>g_Name := name,
             g_MemberIDs := memberIDs, g_UpdatedAt := now\<rparr>]\<rparr>)))"

definition Groups_Remove :: "bytes \<Rightarrow> bytes \<Rightarrow> disk \<Rightarrow> disk \<times> unit result" where
  "Groups_Remove path i d =
     (case Groups_load path d of Inl e \<Rightarrow> (d, Inl e)
      | Inr data \<Rightarrow>
        if \<not> list_ex (\<lambda>g. g_ID g = i) (gd_Groups data) then (d, Inl Groups_ErrNotFound)
        else Groups_save path d (data\<lparr>gd_Groups := filter (\<lambda>g. g_ID g \<noteq> i) (gd_Groups data),
          gd_Deleted := (if i \<in> set (gd_Deleted data) then gd_Deleted data else gd_Deleted data @ [i])\<rparr>))"

definition Groups_SyncBytes :: "bytes \<Rightarrow> disk \<Rightarrow> bytes result" where
  "Groups_SyncBytes path d = andthen (Groups_load path d) marshal_groups"

definition Groups_ApplyMerged :: "bytes \<Rightarrow> bytes \<Rightarrow> disk \<Rightarrow> disk \<times> unit result" where
  "Groups_ApplyMerged path merged d =
     (case unmarshal (dec_struct groupData_fields) zero_groupData merged of
        None \<Rightarrow> (d, Inl (Wrap ''parsing merged groups: %w'' (Errorf ''json'')))
      | Some data \<Rightarrow> Groups_save path d data)"

section \<open>Replicated state\<close>

text \<open>
  Replicas that exchange whole states: each entry of the view only grows, and a merge takes the
  greater of the two. Then the order, the grouping and the repetition of merges do not matter.
\<close>

locale replicated =
  fixes merge :: "'a \<Rightarrow> 'a \<Rightarrow> 'a"
    and view :: "'a \<Rightarrow> 'k \<Rightarrow> 'v::linorder"
  assumes view_merge: "view (merge a b) k = max (view a k) (view b k)"
begin

lemma merge_commutes: "view (merge a b) = view (merge b a)"
  by (simp add: fun_eq_iff view_merge max.commute)

lemma merge_assoc: "view (merge (merge a b) c) = view (merge a (merge b c))"
  by (simp add: fun_eq_iff view_merge max.assoc)

lemma merge_idem: "view (merge a a) = view a" "view (merge (merge a b) b) = view (merge a b)"
  by (simp_all add: fun_eq_iff view_merge max.assoc)

lemma merge_grows: "view a k \<le> view (merge a b) k" "view b k \<le> view (merge a b) k"
  by (simp_all add: view_merge)

lemma view_merges: "view (fold (\<lambda>x s. merge s x) xs s) k = Max (insert (view s k) ((\<lambda>x. view x k) ` set xs))"
proof (induction xs arbitrary: s)
  case (Cons x xs)
  have "Max (insert (max (view s k) (view x k)) A) = Max (insert (view s k) (insert (view x k) A))" if "finite A" for A
    using that by (cases "A = {}") (simp_all add: max.assoc)
  with Cons show ?case by (simp add: view_merge)
qed simp

theorem convergence:
  assumes "set xs = set ys"
  shows "view (fold (\<lambda>x s. merge s x) xs s) = view (fold (\<lambda>x s. merge s x) ys s)"
  using assms by (simp add: fun_eq_iff view_merges)

end


section \<open>The merge of groups is the maximum of its views\<close>

text \<open>
  What a view knows of an identifier: that it is deleted, which beats everything, or the rank of the
  newest copy. The rank of a copy is its time stamp and, on a tie, its canonical content.
\<close>

definition rank :: "Group \<Rightarrow> int \<times> bytes" where
  "rank g = (instant (g_UpdatedAt g), canonical g)"

definition best :: "Group list \<Rightarrow> bytes \<Rightarrow> (int \<times> bytes) option" where
  "best gs i = Max (insert None ((\<lambda>g. Some (rank g)) ` {g \<in> set gs. g_ID g = i}))"

definition gview :: "groupData \<Rightarrow> bytes \<Rightarrow> bool \<times> (int \<times> bytes) option" where
  "gview d i = (if i \<in> set (gd_Deleted d) then (True, None) else (False, best (gd_Groups d) i))"

lemma winsOver_rank: "winsOver g c \<longleftrightarrow> rank c < rank g"
  by (auto simp: winsOver_def rank_def After_def Before_def less_prod_def')

lemma max_None [simp]: "max None x = x" "max x None = x" for x :: "'a::linorder option"
  by (cases x; simp add: max_def)+

lemma best_set: "set gs = set gs' \<Longrightarrow> best gs i = best gs' i"
  by (simp add: best_def)

lemma best_Nil [simp]: "best [] i = None" by (simp add: best_def)

lemma best_insert:
  assumes "set gs' = insert g (set gs)"
  shows "best gs' i = (if g_ID g = i then max (Some (rank g)) (best gs i) else best gs i)"
proof -
  have "{x \<in> set gs'. g_ID x = i} = (if g_ID g = i then insert g {x \<in> set gs. g_ID x = i} else {x \<in> set gs. g_ID x = i})"
    using assms by auto
  then show ?thesis by (simp add: best_def insert_commute [of None])
qed

lemma distinct_key: "distinct (map f xs) \<Longrightarrow> i < length xs \<Longrightarrow> x \<in> set xs \<Longrightarrow> f x = f (xs ! i) \<Longrightarrow> x = xs ! i"
  by (metis distinct_map inj_on_contraD nth_mem)

lemma best_unique:
  assumes "distinct (map g_ID gs)" "k < length gs"
  shows "best gs (g_ID (gs ! k)) = Some (rank (gs ! k))"
proof -
  have "{x \<in> set gs. g_ID x = g_ID (gs ! k)} = {gs ! k}" using distinct_key [OF assms] assms(2) by auto
  then show ?thesis by (simp add: best_def max_def)
qed

definition byID_ok :: "bytes list \<Rightarrow> Group list \<Rightarrow> bool" where
  "byID_ok D m \<longleftrightarrow> distinct (map g_ID m) \<and> (\<forall>g\<in>set m. g_ID g \<notin> set D)"

lemma map_key_update: "k < length xs \<Longrightarrow> f y = f (xs ! k) \<Longrightarrow> map f (xs[k := y]) = map f xs"
  by (metis list_update_id map_update nth_map)

lemma best_append: "best (m @ [g]) i = (if g_ID g = i then max (best m i) (Some (rank g)) else best m i)"
  by (subst best_insert [of _ g m]) (simp_all add: max.commute)

lemma best_update:
  assumes d: "distinct (map g_ID m)" and k: "k < length m" "g_ID (m ! k) = g_ID g" and w: "rank (m ! k) < rank g"
  shows "best (m[k := g]) i = (if g_ID g = i then max (best m i) (Some (rank g)) else best m i)"
proof (cases "g_ID g = i")
  case True
  have "distinct (map g_ID (m[k := g]))" using map_key_update [OF k(1), of g_ID g] k(2) d by simp
  from best_unique [OF this, of k] k(1) have "best (m[k := g]) (g_ID g) = Some (rank g)" by simp
  moreover have "best m (g_ID g) = Some (rank (m ! k))" using best_unique [OF d k(1)] k(2) by simp
  ultimately show ?thesis using True w by (simp add: max_def less_imp_le)
next
  case False
  have "set (m[k := g]) = insert g (set m - {m ! k})" using set_update_distinct [OF _ k(1)] d by (simp add: distinct_map)
  then have "{x \<in> set (m[k := g]). g_ID x = i} = {x \<in> insert g (set m - {m ! k}). g_ID x = i}" by (simp only:)
  also have "\<dots> = {x \<in> set m. g_ID x = i}" using False k(2) by auto
  finally have "{x \<in> set (m[k := g]). g_ID x = i} = {x \<in> set m. g_ID x = i}" .
  with False show ?thesis by (simp add: best_def)
qed

lemma take_group_cases:
  assumes "byID_ok D m" "g_ID g \<notin> set D"
  obtains (new) "take_group D g m = m @ [g]" "g_ID g \<notin> g_ID ` set m"
  | (wins) k where "take_group D g m = m[k := g]" "k < length m" "g_ID (m ! k) = g_ID g" "rank (m ! k) < rank g"
  | (loses) k where "take_group D g m = m" "k < length m" "g_ID (m ! k) = g_ID g" "rank g \<le> rank (m ! k)"
proof (cases "find_index (\<lambda>c. g_ID c = g_ID g) m")
  case None
  moreover from None have "g_ID g \<notin> g_ID ` set m" by (auto simp: find_index_None)
  ultimately show thesis using new assms(2) by (simp add: take_group_def)
next
  case (Some k)
  moreover from Some have "k < length m" "g_ID (m ! k) = g_ID g" by (simp_all add: find_index_Some)
  ultimately show thesis using wins [of k] loses [of k] assms(2)
    by (cases "winsOver g (m ! k)") (simp_all add: take_group_def, simp_all add: winsOver_rank)
qed

lemma take_group_ok:
  assumes "byID_ok D m"
  shows "byID_ok D (take_group D g m) \<and> set (take_group D g m) \<subseteq> insert g (set m)"
proof (cases "g_ID g \<in> set D")
  case True
  then show ?thesis using assms by (auto simp: take_group_def)
next
  case False
  with assms show ?thesis
  proof (cases rule: take_group_cases [consumes 2, case_names new wins loses])
    case new
    then show ?thesis using assms False by (auto simp: byID_ok_def)
  next
    case (wins k)
    have "map g_ID (m[k := g]) = map g_ID m" using wins(2,3) by (intro map_key_update) simp_all
    moreover have "set (m[k := g]) \<subseteq> insert g (set m)" by (rule set_update_subset_insert)
    ultimately show ?thesis using assms False unfolding wins(1) byID_ok_def by auto
  qed (use assms in auto)
qed

lemma best_take_group:
  assumes "byID_ok D m" "i \<notin> set D"
  shows "best (take_group D g m) i = (if g_ID g = i then max (best m i) (Some (rank g)) else best m i)"
proof (cases "g_ID g \<in> set D")
  case True
  then show ?thesis using assms(2) by (auto simp: take_group_def)
next
  case False
  have d: "distinct (map g_ID m)" using assms(1) by (simp add: byID_ok_def)
  from assms(1) False show ?thesis
  proof (cases rule: take_group_cases [consumes 2, case_names new wins loses])
    case new
    then show ?thesis by (simp add: best_append)
  next
    case (wins k)
    then show ?thesis using best_update [OF d wins(2-4)] by simp
  next
    case (loses k)
    then show ?thesis using best_unique [OF d loses(2)] by (auto simp: max_def)
  qed
qed

lemma take_groups:
  assumes "byID_ok D m"
  shows "byID_ok D (fold (take_group D) gs m)" "set (fold (take_group D) gs m) \<subseteq> set gs \<union> set m"
    "i \<notin> set D \<Longrightarrow> best (fold (take_group D) gs m) i = max (best m i) (best gs i)"
  using assms
proof (induction gs arbitrary: m)
  case (Cons g gs)
  {
    case 1
    then show ?case using Cons.IH(1) take_group_ok by simp
  next
    case 2
    then show ?case using Cons.IH(2) [of "take_group D g m"] take_group_ok [of D m g] by auto
  next
    case 3
    then show ?case using Cons.IH(3) [of "take_group D g m"] take_group_ok [of D m g] best_take_group [of D m i g]
        best_insert [of "g # gs" g gs i] by (auto simp: max.assoc)
  }
qed simp_all

lemma gview_merge: "gview (merge_data a b) i = max (gview a i) (gview b i)"
proof -
  let ?D = "gd_Deleted a @ gd_Deleted b"
  have 0: "byID_ok ?D []" by (simp add: byID_ok_def)
  note 1 = take_groups [OF 0, where gs = "gd_Groups a"]
  note 2 = take_groups [OF 1(1), where gs = "gd_Groups b"]
  have "best (gd_Groups (merge_data a b)) i = max (best (gd_Groups a) i) (best (gd_Groups b) i)" if "i \<notin> set ?D"
    using 2(3) [OF that] 1(3) [OF that] best_set [of "gd_Groups (merge_data a b)"] by (simp add: merge_data_def Let_def)
  then show ?thesis by (auto simp: gview_def max_def merge_data_def Let_def)
qed

interpretation group_sync: replicated merge_data gview
  by unfold_locales (rule gview_merge)


section \<open>Files and bytes\<close>

lemma find_Group:
  "find_field Group_fields ''id'' = Some (snd (fld ''id'' dec_str g_ID g_ID_update))"
  "find_field Group_fields ''name'' = Some (snd (fld ''name'' dec_str g_Name g_Name_update))"
  "find_field Group_fields ''member_ids'' = Some (snd (fld ''member_ids'' (dec_list dec_str []) g_MemberIDs g_MemberIDs_update))"
  "find_field Group_fields ''updated_at'' = Some (snd (fld ''updated_at'' dec_time g_UpdatedAt g_UpdatedAt_update))"
  by (simp_all add: Group_fields_def find_field_def fld_def)

lemma find_groupData:
  "find_field groupData_fields ''version'' = Some (snd (fld ''version'' dec_int gd_Version gd_Version_update))"
  "find_field groupData_fields ''groups'' =
     Some (snd (fld ''groups'' (dec_list (dec_struct Group_fields) zero_Group) gd_Groups gd_Groups_update))"
  "find_field groupData_fields ''deleted'' = Some (snd (fld ''deleted'' (dec_list dec_str []) gd_Deleted gd_Deleted_update))"
  by (simp_all add: groupData_fields_def find_field_def fld_def)

lemma dec_strings [json_rt]: "list_all valid_utf8 xs \<Longrightarrow> dec_list dec_str [] (JArr (map jstr xs)) cur = (xs, DOk)"
  by (rule dec_jlist) (simp add: dec_jstr list_all_iff)

lemma dec_enc_Group:
  "wf_Group g \<Longrightarrow> marshals (g_UpdatedAt g) \<Longrightarrow> dec_struct Group_fields (enc_Group g) zero_Group = (g, DOk)"
  by (simp add: enc_Group_def json_rt find_Group fld_def wf_Group_def zero_Group_def)

lemma dec_enc_groupData:
  assumes "wf_groupData d" "groupData_marshals d" "int64 (gd_Version d)"
  shows "dec_struct groupData_fields (enc_groupData d) zero_groupData = (d, DOk)"
proof -
  have "dec_list (dec_struct Group_fields) zero_Group (JArr (map enc_Group (gd_Groups d))) cur = (gd_Groups d, DOk)" for cur
    using assms by (intro dec_jlist dec_enc_Group) (auto simp: wf_groupData_def groupData_marshals_def list_all_iff)
  with assms show ?thesis
    by (simp add: enc_groupData_def json_rt find_groupData fld_def wf_groupData_def zero_groupData_def)
qed

lemma wf_enc_groupData: "wf_json 10000 (enc_groupData d)"
  by (auto simp: enc_groupData_def enc_Group_def valid_utf8_ascii ball_Un set_omit)

lemma compact_obj_nonempty: "compact (JObj ms) \<noteq> []"
  by (cases ms) (simp_all add: compact_def)

lemma parse_marshal_groups:
  assumes "marshal_groups d = Inr m" "wf_groupData d" "int64 (gd_Version d)"
  shows "parse_groups m = Inr d"
proof -
  from assms(1) have m: "m = compact (enc_groupData d)" "groupData_marshals d" by (auto simp: marshal_groups_def split: if_splits)
  have "m \<noteq> []" using compact_obj_nonempty by (simp add: m enc_groupData_def)
  then show ?thesis using dec_enc_groupData [OF assms(2) m(2) assms(3)]
    by (simp add: parse_groups_def m(1) unmarshal_compact wf_enc_groupData)
qed

lemma Groups_load_same: "d_files d path = d_files d' path \<Longrightarrow> d_fault d = d_fault d' \<Longrightarrow> Groups_load path d = Groups_load path d'"
  by (simp add: Groups_load_def ReadFile_same [of d path d'])

interpretation groups_file: file_store path "Groups_load path" "Groups_save path" "\<lambda>x. wf_groupData x \<and> gd_Version x = storeVersion" for path
proof
  show "Groups_load path d' = Inr x"
    if "wf_groupData x \<and> gd_Version x = storeVersion" "d_fault d SysRead path = None" "Groups_save path d x = (d', Inr u)" for x d d' u
  proof -
    have v: "x\<lparr>gd_Version := storeVersion\<rparr> = x" using that(1) by simp
    have m: "groupData_marshals x" and w: "WriteFileAtomic d path (indented (enc_groupData x)) = (d', Inr u)"
      using that(3) by (auto simp: Groups_save_def v split: if_splits)
    have "dec_struct groupData_fields (enc_groupData x) zero_groupData = (x, DOk)"
      using that(1) m by (intro dec_enc_groupData) (simp_all add: storeVersion_def int64_def)
    then show ?thesis using WriteFileAtomic_frame [OF w] that(2)
      by (simp add: Groups_load_def ReadFile_def IsNotExist_def unmarshal_indented wf_enc_groupData)
  qed
  show "Groups_load path d' = Groups_load path d" if "Groups_save path d x = (d', Inl e)" for d x d' e
    using that WriteFileAtomic_err by (intro Groups_load_same) (auto simp: Groups_save_def split: if_splits)
  show "d_files d' q = d_files d q" if "Groups_save path d x = (d', r)" "q \<noteq> path" for d x d' r q
    using that WriteFileAtomic_frame(2) by (auto simp: Groups_save_def split: if_splits)
qed

text \<open>What a merge consists of.\<close>

lemma merge_data_parts:
  "set (gd_Deleted (merge_data a b)) = set (gd_Deleted a) \<union> set (gd_Deleted b)"
  "distinct (map g_ID (gd_Groups (merge_data a b)))"
  "g \<in> set (gd_Groups (merge_data a b)) \<Longrightarrow> (g \<in> set (gd_Groups a) \<or> g \<in> set (gd_Groups b)) \<and> g_ID g \<notin> set (gd_Deleted a) \<union> set (gd_Deleted b)"
  "sorted (map (\<lambda>g. (g_Name g, g_ID g)) (gd_Groups (merge_data a b)))" "sorted (gd_Deleted (merge_data a b))" "distinct (gd_Deleted (merge_data a b))"
proof -
  let ?D = "gd_Deleted a @ gd_Deleted b"
  let ?m = "fold (take_group ?D) (gd_Groups b) (fold (take_group ?D) (gd_Groups a) [])"
  have 0: "byID_ok ?D []" by (simp add: byID_ok_def)
  note 1 = take_groups [OF 0, where gs = "gd_Groups a"]
  note 2 = take_groups [OF 1(1), where gs = "gd_Groups b"]
  have g: "gd_Groups (merge_data a b) = sort_key (\<lambda>g. (g_Name g, g_ID g)) ?m"
    and d: "gd_Deleted (merge_data a b) = sort (remdups ?D)" by (simp_all add: merge_data_def Let_def)
  show "set (gd_Deleted (merge_data a b)) = set (gd_Deleted a) \<union> set (gd_Deleted b)"
    "sorted (gd_Deleted (merge_data a b))" "distinct (gd_Deleted (merge_data a b))" by (simp_all add: d)
  show "distinct (map g_ID (gd_Groups (merge_data a b)))" using 2(1) unfolding g
    by (simp add: byID_ok_def distinct_map inj_on_def)
  show "sorted (map (\<lambda>g. (g_Name g, g_ID g)) (gd_Groups (merge_data a b)))" unfolding g by (rule sorted_sort_key)
  show "(g \<in> set (gd_Groups a) \<or> g \<in> set (gd_Groups b)) \<and> g_ID g \<notin> set (gd_Deleted a) \<union> set (gd_Deleted b)"
    if "g \<in> set (gd_Groups (merge_data a b))"
    using that 1(2) 2(1,2) unfolding g by (auto simp: byID_ok_def)
qed

lemma merge_data_wf: "wf_groupData a \<Longrightarrow> wf_groupData b \<Longrightarrow> wf_groupData (merge_data a b)"
  using merge_data_parts(1) [of a b] merge_data_parts(3) [where a = a and b = b] unfolding wf_groupData_def list_all_iff by blast


lemma merge_data_marshals: "groupData_marshals a \<Longrightarrow> groupData_marshals b \<Longrightarrow> groupData_marshals (merge_data a b)"
  using merge_data_parts(3) [where a = a and b = b] unfolding groupData_marshals_def list_all_iff by blast

lemma MergeGroups_parses:
  assumes "parse_groups l = Inr a" "parse_groups r = Inr b" "wf_groupData a" "wf_groupData b" "MergeGroups l r = Inr m"
  shows "parse_groups m = Inr (merge_data a b)"
proof (rule parse_marshal_groups)
  show "marshal_groups (merge_data a b) = Inr m" using assms(1,2,5) by (simp add: MergeGroups_def)
  show "wf_groupData (merge_data a b)" using assms(3,4) by (rule merge_data_wf)
  show "int64 (gd_Version (merge_data a b))" by (simp add: merge_data_def Let_def storeVersion_def int64_def)
qed

section \<open>Properties\<close>

text \<open>
  C36. One merge: the bytes MergeGroups returns parse, and for every identifier they say what the
  better informed of the two views says: deleted if either deleted it, else the newest copy, a tie
  decided by the canonical content. Nothing is made up (each group of the result is a copy of one
  side and its identifier has no tombstone), an identifier occurs once, and the result is sorted.
\<close>

theorem MergeGroups_maximum:
  assumes "parse_groups l = Inr a" "parse_groups r = Inr b" "wf_groupData a" "wf_groupData b" "MergeGroups l r = Inr m"
  shows "\<exists>d. parse_groups m = Inr d \<and> (\<forall>i. gview d i = max (gview a i) (gview b i))
     \<and> set (gd_Deleted d) = set (gd_Deleted a) \<union> set (gd_Deleted b)
     \<and> (\<forall>g\<in>set (gd_Groups d). g \<in> set (gd_Groups a) \<union> set (gd_Groups b) \<and> g_ID g \<notin> set (gd_Deleted d))
     \<and> distinct (map g_ID (gd_Groups d)) \<and> sorted (map (\<lambda>g. (g_Name g, g_ID g)) (gd_Groups d))
     \<and> sorted (gd_Deleted d) \<and> distinct (gd_Deleted d)"
proof -
  have "\<forall>g\<in>set (gd_Groups (merge_data a b)). g \<in> set (gd_Groups a) \<union> set (gd_Groups b) \<and> g_ID g \<notin> set (gd_Deleted (merge_data a b))"
    using merge_data_parts(3) [where a = a and b = b] by (simp add: merge_data_parts(1))
  with MergeGroups_parses [OF assms] merge_data_parts(1,2,4-6) gview_merge show ?thesis by blast
qed

definition sample_group :: "bytes list \<Rightarrow> Group" where
  "sample_group ms = \<lparr>g_ID = ''i'', g_Name = ''friends'', g_MemberIDs = ms, g_UpdatedAt = zero_time\<rparr>"

definition sample_view :: "bytes list \<Rightarrow> groupData" where
  "sample_view ms = \<lparr>gd_Version = storeVersion, gd_Groups = [sample_group ms], gd_Deleted = []\<rparr>"

lemma sample_view_ok:
  assumes "list_all ascii ms"
  shows "wf_groupData (sample_view ms)" "groupData_marshals (sample_view ms)" "int64 (gd_Version (sample_view ms))"
  using assms by (simp_all add: sample_view_def sample_group_def wf_groupData_def wf_Group_def groupData_marshals_def valid_utf8_ascii
      ascii_def storeVersion_def int64_def list_all_iff)

theorem MergeGroups_maximum_witness:
  "\<exists>l r m d. MergeGroups l r = Inr m \<and> parse_groups m = Inr d
     \<and> gview d ''i'' = max (gview (sample_view [''a'']) ''i'') (gview (sample_view [''b'']) ''i'')"
proof -
  have w: "list_all ascii [''a'']" "list_all ascii [''b'']" by (simp_all add: ascii_def)
  note ok = sample_view_ok [OF w(1)] sample_view_ok [OF w(2)]
  obtain l r where m: "marshal_groups (sample_view [''a'']) = Inr l" "marshal_groups (sample_view [''b'']) = Inr r"
    using ok(2,5) by (simp add: marshal_groups_def)
  have p: "parse_groups l = Inr (sample_view [''a''])" "parse_groups r = Inr (sample_view [''b''])"
    using parse_marshal_groups [OF m(1) ok(1,3)] parse_marshal_groups [OF m(2) ok(4,6)] .
  have "groupData_marshals (merge_data (sample_view [''a'']) (sample_view [''b'']))" using ok(2,5) by (rule merge_data_marshals)
  then obtain x where "MergeGroups l r = Inr x" using p by (simp add: MergeGroups_def marshal_groups_def)
  from MergeGroups_maximum [OF p ok(1,4) this] this show ?thesis by blast
qed

text \<open>
  Convergence: two devices that start from one view and merge the same set of views, each in
  any order and any number of times, agree on every identifier.
\<close>

theorem groups_converge:
  assumes "set xs = set ys"
  shows "gview (fold (\<lambda>x s. merge_data s x) xs s) = gview (fold (\<lambda>x s. merge_data s x) ys s)"
  using assms by (rule group_sync.convergence)

theorem groups_converge_witness:
  "gview (fold (\<lambda>x s. merge_data s x) [sample_view [''a''], sample_view [''b'']] zero_groupData)
   = gview (fold (\<lambda>x s. merge_data s x) [sample_view [''b''], sample_view [''a''], sample_view [''b'']] zero_groupData)"
  by (rule groups_converge) auto

text \<open>
  C37. A removed group stays removed: after Remove on one device, whatever view another device
  has, merging it into the local one gives a view without the group and with its tombstone.
\<close>

theorem Groups_Remove_final:
  assumes "Groups_load path d = Inr a" "wf_groupData a" "gd_Version a = storeVersion" "valid_utf8 i" "d_fault d SysRead path = None"
    and "Groups_Remove path i d = (d', Inr ())" "Groups_SyncBytes path d' = Inr l"
    and "parse_groups r = Inr b" "wf_groupData b" "MergeGroups l r = Inr m"
  shows "\<exists>c. parse_groups m = Inr c \<and> i \<in> set (gd_Deleted c) \<and> i \<notin> g_ID ` set (gd_Groups c)"
proof -
  let ?a = "a\<lparr>gd_Groups := filter (\<lambda>g. g_ID g \<noteq> i) (gd_Groups a),
      gd_Deleted := (if i \<in> set (gd_Deleted a) then gd_Deleted a else gd_Deleted a @ [i])\<rparr>"
  have s: "Groups_save path d ?a = (d', Inr ())" using assms(1,6) by (auto simp: Groups_Remove_def split: if_splits)
  have wf: "wf_groupData ?a \<and> gd_Version ?a = storeVersion" using assms(2-4) by (auto simp: wf_groupData_def list_all_iff)
  have "marshal_groups ?a = Inr l" using groups_file.load_saved [OF wf assms(5) s] assms(7) by (simp add: Groups_SyncBytes_def)
  then have l: "parse_groups l = Inr ?a" using wf by (intro parse_marshal_groups) (simp_all add: storeVersion_def int64_def)
  from l assms(8) conjunct1 [OF wf] assms(9,10) have "parse_groups m = Inr (merge_data ?a b)" by (rule MergeGroups_parses)
  moreover have "i \<in> set (gd_Deleted (merge_data ?a b))" by (simp add: merge_data_parts(1))
  ultimately show ?thesis using merge_data_parts(3) [of _ ?a b] merge_data_parts(1) [of ?a b] by blast
qed


theorem Groups_Remove_final_witness:
  "\<exists>d d' l m c. Groups_Remove ''g.json'' ''i'' d = (d', Inr ()) \<and> Groups_SyncBytes ''g.json'' d' = Inr l
     \<and> MergeGroups l l = Inr m \<and> parse_groups m = Inr c \<and> ''i'' \<notin> g_ID ` set (gd_Groups c)"
proof -
  let ?a = "sample_view []"
  have w: "list_all ascii []" by simp
  note ok = sample_view_ok [OF w]
  obtain d where d: "Groups_save ''g.json'' empty_disk ?a = (d, Inr ())" "d_fault d = (\<lambda>_ _. None)"
    using ok(2) by (simp add: Groups_save_def WriteFileAtomic_clean empty_disk_def)
  have v: "gd_Version ?a = storeVersion" by (simp add: sample_view_def)
  have load: "Groups_load ''g.json'' d = Inr ?a"
    using groups_file.load_saved [OF _ _ d(1)] ok(1) v by (simp add: empty_disk_def)
  let ?b = "?a\<lparr>gd_Groups := [], gd_Deleted := [''i'']\<rparr>"
  have b: "groupData_marshals ?b" "wf_groupData ?b" by (simp_all add: groupData_marshals_def wf_groupData_def valid_utf8_ascii ascii_def)
  obtain d' where d': "Groups_save ''g.json'' d ?b = (d', Inr ())"
    using b(1) d(2) by (simp add: Groups_save_def WriteFileAtomic_clean)
  have rm: "Groups_Remove ''g.json'' ''i'' d = (d', Inr ())"
    using load d' by (simp add: Groups_Remove_def sample_view_def sample_group_def)
  have "Groups_load ''g.json'' d' = Inr ?b" using groups_file.load_saved [OF _ _ d'] b(2) v d(2) by simp
  then obtain l where l: "Groups_SyncBytes ''g.json'' d' = Inr l" "marshal_groups ?b = Inr l"
    using b(1) by (simp add: Groups_SyncBytes_def marshal_groups_def)
  have p: "parse_groups l = Inr ?b" using l(2) b(2) v by (intro parse_marshal_groups) (simp_all add: storeVersion_def int64_def)
  obtain m where m: "MergeGroups l l = Inr m"
    using p merge_data_marshals [OF b(1) b(1)] by (simp add: MergeGroups_def marshal_groups_def)
  have u: "valid_utf8 ''i''" by (simp add: valid_utf8_ascii ascii_def)
  have f: "d_fault d SysRead ''g.json'' = None" using d(2) by simp
  show ?thesis
    using Groups_Remove_final [OF load ok(1) v u f rm l(1) p b(2) m] rm l(1) m by blast
qed

text \<open>
  Two different copies of one group can have the same time stamp and the same canonical content:
  the members are compared as a sorted list joined with commas. Where no two copies tie, the merge
  does not depend on the order of its arguments, to the byte.
\<close>

definition no_ties :: "Group list \<Rightarrow> bool" where
  "no_ties gs \<longleftrightarrow> (\<forall>g\<in>set gs. \<forall>h\<in>set gs. g_ID g = g_ID h \<longrightarrow> rank g = rank h \<longrightarrow> g = h)"

lemma best_Some_in: "best gs i = Some r \<Longrightarrow> \<exists>g\<in>set gs. g_ID g = i \<and> rank g = r"
proof -
  assume "best gs i = Some r"
  moreover have "best gs i \<in> insert None ((\<lambda>g. Some (rank g)) ` {g \<in> set gs. g_ID g = i})"
    unfolding best_def by (rule Max_in) simp_all
  ultimately show ?thesis by auto
qed

lemma merged_iff:
  assumes "no_ties (gd_Groups a @ gd_Groups b)"
  shows "g \<in> set (gd_Groups (merge_data a b)) \<longleftrightarrow> (g \<in> set (gd_Groups a) \<or> g \<in> set (gd_Groups b))
     \<and> max (gview a (g_ID g)) (gview b (g_ID g)) = (False, Some (rank g))"
    (is "?l \<longleftrightarrow> ?copy g \<and> _")
proof -
  let ?m = "merge_data a b"
  have copy: "?copy x" and live: "g_ID x \<notin> set (gd_Deleted ?m)" if "x \<in> set (gd_Groups ?m)" for x
    using merge_data_parts(3) [OF that] by (auto simp: merge_data_parts(1))
  have "gview ?m (g_ID g) = (False, Some (rank g))" if l: ?l
  proof -
    from l obtain k where "k < length (gd_Groups ?m)" "gd_Groups ?m ! k = g" by (auto simp: in_set_conv_nth)
    then have "best (gd_Groups ?m) (g_ID g) = Some (rank g)" using best_unique [OF merge_data_parts(2)] by blast
    then show ?thesis using live [OF l] by (simp add: gview_def)
  qed
  moreover have ?l if c: "?copy g" and v: "gview ?m (g_ID g) = (False, Some (rank g))"
  proof -
    from v have "best (gd_Groups ?m) (g_ID g) = Some (rank g)" by (simp add: gview_def split: if_splits)
    from best_Some_in [OF this] obtain h where h: "h \<in> set (gd_Groups ?m)" "g_ID h = g_ID g" "rank h = rank g" by auto
    with assms c copy [OF h(1)] have "h = g" by (auto simp: no_ties_def)
    with h(1) show ?thesis by simp
  qed
  ultimately show ?thesis using copy gview_merge by metis
qed

text \<open>
  Commutativity: MergeGroups gives the same bytes for both orders of its arguments whenever no
  two different copies of a group tie.
\<close>

theorem MergeGroups_commutes:
  assumes "parse_groups l = Inr a" "parse_groups r = Inr b" "no_ties (gd_Groups a @ gd_Groups b)"
  shows "MergeGroups l r = MergeGroups r l"
proof -
  let ?k = "\<lambda>g. (g_Name g, g_ID g)"
  have nt: "no_ties (gd_Groups b @ gd_Groups a)" using assms(3) by (auto simp: no_ties_def)
  have s: "set (gd_Groups (merge_data a b)) = set (gd_Groups (merge_data b a))"
    using merged_iff [OF assms(3)] merged_iff [OF nt] by (auto simp: max.commute)
  have i: "inj_on ?k (set (gd_Groups (merge_data x y)))" for x y
    using merge_data_parts(2) [of x y] by (auto simp: distinct_map inj_on_def)
  have "map ?k (gd_Groups (merge_data a b)) = map ?k (gd_Groups (merge_data b a))"
  proof (rule sorted_distinct_set_unique)
    show "distinct (map ?k (gd_Groups (merge_data a b)))" "distinct (map ?k (gd_Groups (merge_data b a)))"
      using merge_data_parts(2) i by (simp_all add: distinct_map)
  qed (use s in \<open>simp_all add: merge_data_parts(4)\<close>)
  then have "gd_Groups (merge_data a b) = gd_Groups (merge_data b a)" by (rule map_inj_on) (use s i in simp)
  moreover have "gd_Deleted (merge_data a b) = gd_Deleted (merge_data b a)"
    by (rule sorted_distinct_set_unique) (auto simp: merge_data_parts(1,5,6))
  moreover have "gd_Version (merge_data x y) = storeVersion" for x y by (simp add: merge_data_def Let_def)
  ultimately have "merge_data a b = merge_data b a" by simp
  then show ?thesis using assms(1,2) by (simp add: MergeGroups_def)
qed


lemma rank_sample: "rank (sample_group ms) = (instant zero_time, ''friends'' @ [CHR 0x00] @ Join '','' (sort ms))"
  by (simp add: rank_def sample_group_def canonical_def Let_def)

theorem MergeGroups_commutes_witness:
  "\<exists>l r. parse_groups l = Inr (sample_view [''a'']) \<and> parse_groups r = Inr (sample_view [''b'']) \<and> MergeGroups l r = MergeGroups r l"
proof -
  have w: "list_all ascii [''a'']" "list_all ascii [''b'']" by (simp_all add: ascii_def)
  note ok = sample_view_ok [OF w(1)] sample_view_ok [OF w(2)]
  obtain l r where m: "marshal_groups (sample_view [''a'']) = Inr l" "marshal_groups (sample_view [''b'']) = Inr r"
    using ok(2,5) by (simp add: marshal_groups_def)
  have p: "parse_groups l = Inr (sample_view [''a''])" "parse_groups r = Inr (sample_view [''b''])"
    using parse_marshal_groups [OF m(1) ok(1,3)] parse_marshal_groups [OF m(2) ok(4,6)] .
  have "no_ties (gd_Groups (sample_view [''a'']) @ gd_Groups (sample_view [''b'']))"
    by (simp add: no_ties_def sample_view_def rank_sample)
  with MergeGroups_commutes [OF p] p show ?thesis by blast
qed

text \<open>
  Two copies that differ only in the order of their members do tie: the merge keeps the copy of its
  first argument, so that two devices that merge each other's view keep different bytes.
\<close>

theorem MergeGroups_tie:
  "gd_Groups (merge_data (sample_view [''a'', ''b'']) (sample_view [''b'', ''a''])) = [sample_group [''a'', ''b'']]
   \<and> gd_Groups (merge_data (sample_view [''b'', ''a'']) (sample_view [''a'', ''b''])) = [sample_group [''b'', ''a'']]"
proof -
  have "rank (sample_group [''a'', ''b'']) = rank (sample_group [''b'', ''a''])" by (simp add: rank_sample)
  then have n: "\<not> winsOver (sample_group [''b'', ''a'']) (sample_group [''a'', ''b''])"
      "\<not> winsOver (sample_group [''a'', ''b'']) (sample_group [''b'', ''a''])" by (simp_all add: winsOver_rank)
  have i: "g_ID (sample_group ms) = ''i''" for ms by (simp add: sample_group_def)
  show ?thesis using n by (simp add: merge_data_def sample_view_def Let_def take_group_def i)
qed

end
