(* ===== verification/Icfx_Bundle.thy ===== *)
theory Icfx_Bundle
  imports Icfx_Armor Icfx_Validate Icfx_Contacts
begin

text \<open>
  Package bundle: revocations and rotations of keys, their canonical signed bytes, parsing of all
  bundle kinds from armor or JSON, verification against the contact a bundle is about, and the
  import of a bundle into the contact list. A bundle type is the integer Go has, so that the default
  branch of a switch is there; optional pointers are options; a pointer into the list of existing
  contacts is an index. Messages for the user keep their format only.
\<close>

section \<open>Bundles\<close>

type_synonym BundleType = int

definition BundleLock :: BundleType where "BundleLock = 0"

definition BundleRevoke :: BundleType where "BundleRevoke = 1"

definition BundleRotate :: BundleType where "BundleRotate = 2"

record RevocationBundle =
  rv_ID :: bytes
  rv_RevokedFingerprint :: bytes
  rv_RevokedAt :: bytes
  rv_Sig :: bytes

record RotationBundle =
  rt_Revocation :: RevocationBundle
  rt_NewLock :: LockBundle
  rt_Sig :: bytes

record ParsedBundle =
  pa_Type :: BundleType
  pa_Lock :: "LockBundle option"
  pa_Revocation :: "RevocationBundle option"
  pa_Sig :: bytes

definition zero_RevocationBundle :: RevocationBundle where
  "zero_RevocationBundle = \<lparr>rv_ID = [], rv_RevokedFingerprint = [], rv_RevokedAt = [], rv_Sig = []\<rparr>"

definition zero_RotationBundle :: RotationBundle where
  "zero_RotationBundle = \<lparr>rt_Revocation = zero_RevocationBundle, rt_NewLock = zero_LockBundle, rt_Sig = []\<rparr>"

definition RevocationBundle_fields :: "RevocationBundle field list" where
  "RevocationBundle_fields =
     [fld ''id'' dec_str rv_ID rv_ID_update,
      fld ''revoked_fingerprint'' dec_str rv_RevokedFingerprint rv_RevokedFingerprint_update,
      fld ''revoked_at'' dec_str rv_RevokedAt rv_RevokedAt_update,
      fld ''sig'' dec_str rv_Sig rv_Sig_update]"

definition enc_RevocationBundle :: "RevocationBundle \<Rightarrow> json" where
  "enc_RevocationBundle r = JObj ([(''id'', jstr (rv_ID r)), (''revoked_fingerprint'', jstr (rv_RevokedFingerprint r)),
     (''revoked_at'', jstr (rv_RevokedAt r))] @ omit (rv_Sig r = []) ''sig'' (jstr (rv_Sig r)))"

definition RotationBundle_fields :: "RotationBundle field list" where
  "RotationBundle_fields =
     [fld ''revocation'' (dec_struct RevocationBundle_fields) rt_Revocation rt_Revocation_update,
      fld ''new_lock'' (dec_struct LockBundle_fields) rt_NewLock rt_NewLock_update,
      fld ''sig'' dec_str rt_Sig rt_Sig_update]"

definition enc_RotationBundle :: "RotationBundle \<Rightarrow> json" where
  "enc_RotationBundle r = JObj ([(''revocation'', enc_RevocationBundle (rt_Revocation r)), (''new_lock'', enc_LockBundle (rt_NewLock r))]
     @ omit (rt_Sig r = []) ''sig'' (jstr (rt_Sig r)))"

definition utf8_RevocationBundle :: "RevocationBundle \<Rightarrow> bool" where
  "utf8_RevocationBundle r \<longleftrightarrow> list_all valid_utf8 [rv_ID r, rv_RevokedFingerprint r, rv_RevokedAt r, rv_Sig r]"

definition utf8_RotationBundle :: "RotationBundle \<Rightarrow> bool" where
  "utf8_RotationBundle r \<longleftrightarrow> utf8_RevocationBundle (rt_Revocation r) \<and> utf8_LockBundle (rt_NewLock r) \<and> valid_utf8 (rt_Sig r)"

section \<open>Parsing and writing\<close>

definition revoke_parsed :: "RevocationBundle \<Rightarrow> ParsedBundle" where
  "revoke_parsed rv = \<lparr>pa_Type = BundleRevoke, pa_Lock = None, pa_Revocation = Some rv, pa_Sig = rv_Sig rv\<rparr>"

definition rotate_parsed :: "RotationBundle \<Rightarrow> ParsedBundle" where
  "rotate_parsed rot = \<lparr>pa_Type = BundleRotate, pa_Lock = Some (rt_NewLock rot), pa_Revocation = Some (rt_Revocation rot), pa_Sig = rt_Sig rot\<rparr>"

definition lock_parsed :: "LockBundle \<Rightarrow> ParsedBundle" where
  "lock_parsed lock = \<lparr>pa_Type = BundleLock, pa_Lock = Some lock, pa_Revocation = None, pa_Sig = []\<rparr>"

definition parseArmored :: "bytes \<Rightarrow> ParsedBundle result" where
  "parseArmored data =
     andthen (wrapping ''decoding armor: %w'' (ArmorDecode data)) (\<lambda>(payload, label).
     if label = ArmorLockLabel then
       andthen (wrapping ''parsing lock bundle: %w'' (ParseLockBundle payload)) (\<lambda>lock. Inr (lock_parsed lock))
     else if label = ArmorRevokeLabel then
       (case unmarshal (dec_struct RevocationBundle_fields) zero_RevocationBundle payload of
          None \<Rightarrow> Inl (Wrap ''parsing revocation bundle: %w'' (Errorf ''json'')) | Some rv \<Rightarrow> Inr (revoke_parsed rv))
     else if label = ArmorRotateLabel then
       (case unmarshal (dec_struct RotationBundle_fields) zero_RotationBundle payload of
          None \<Rightarrow> Inl (Wrap ''parsing rotation bundle: %w'' (Errorf ''json'')) | Some rot \<Rightarrow> Inr (rotate_parsed rot))
     else Inl (Errorf ''unknown armor label: %s''))"

definition try_lock :: "bytes \<Rightarrow> ParsedBundle result" where
  "try_lock data = (case ParseLockBundle data of
       Inr lock \<Rightarrow> (if lb_EncPubKey lock \<noteq> [] then Inr (lock_parsed lock) else Inl (Errorf ''unrecognized bundle format''))
     | Inl _ \<Rightarrow> Inl (Errorf ''unrecognized bundle format''))"

definition try_revocation :: "bytes \<Rightarrow> ParsedBundle result" where
  "try_revocation data = (case unmarshal (dec_struct RevocationBundle_fields) zero_RevocationBundle data of
       Some rv \<Rightarrow> (if rv_RevokedFingerprint rv \<noteq> [] then Inr (revoke_parsed rv) else try_lock data)
     | None \<Rightarrow> try_lock data)"

definition parseJSON :: "bytes \<Rightarrow> ParsedBundle result" where
  "parseJSON data = (case unmarshal (dec_struct RotationBundle_fields) zero_RotationBundle data of
       Some rot \<Rightarrow> (if rv_ID (rt_Revocation rot) \<noteq> [] \<and> lb_ID (rt_NewLock rot) \<noteq> [] then Inr (rotate_parsed rot) else try_revocation data)
     | None \<Rightarrow> try_revocation data)"

definition Parse :: "bytes \<Rightarrow> ParsedBundle result" where
  "Parse data = (if IsArmored data then parseArmored data else parseJSON data)"

definition MarshalRevocation :: "RevocationBundle \<Rightarrow> bytes result" where
  "MarshalRevocation rv = Inr (ArmorEncode (indented (enc_RevocationBundle rv)) ArmorRevokeLabel)"

definition MarshalRotation :: "RotationBundle \<Rightarrow> bytes result" where
  "MarshalRotation rot = Inr (ArmorEncode (indented (enc_RotationBundle rot)) ArmorRotateLabel)"

text \<open>time.RFC3339 is the format of \<^const>\<open>format_rfc3339\<close> without a fraction.\<close>

definition NewRevocation :: "gotime \<Rightarrow> bytes \<Rightarrow> bytes \<Rightarrow> RevocationBundle" where
  "NewRevocation now i fingerprint = \<lparr>rv_ID = i, rv_RevokedFingerprint = fingerprint,
     rv_RevokedAt = format_rfc3339 (now\<lparr>t_nsec := 0\<rparr>), rv_Sig = []\<rparr>"

section \<open>Authenticity\<close>

definition revokeCanonicalTag :: bytes where "revokeCanonicalTag = ''ICFX-REVOKE-V1''"

definition rotateCanonicalTag :: bytes where "rotateCanonicalTag = ''ICFX-ROTATE-V1''"

definition ErrBundleSigInvalid :: go_error where "ErrBundleSigInvalid = Sentinel ''bundle signature is missing or invalid''"

definition ErrContinuityMismatch :: go_error where
  "ErrContinuityMismatch = Sentinel ''rotation/revocation does not match the target contact''"

definition bundle_writeField :: "bytes \<Rightarrow> bytes" where
  "bundle_writeField b = put_uint64 (of_nat (length b)) @ b"

definition bundle_writeStr :: "bytes \<Rightarrow> bytes" where "bundle_writeStr s = bundle_writeField s"

definition CanonicalRevocationBytes :: "RevocationBundle \<Rightarrow> bytes" where
  "CanonicalRevocationBytes rv = bundle_writeStr revokeCanonicalTag @ bundle_writeStr (rv_ID rv)
     @ bundle_writeStr (rv_RevokedFingerprint rv) @ bundle_writeStr (rv_RevokedAt rv)"

definition CanonicalRotationBytes :: "RotationBundle \<Rightarrow> bytes" where
  "CanonicalRotationBytes rot = bundle_writeStr rotateCanonicalTag @ bundle_writeStr (rv_ID (rt_Revocation rot))
     @ bundle_writeStr (rv_RevokedFingerprint (rt_Revocation rot)) @ bundle_writeStr (rv_RevokedAt (rt_Revocation rot))
     @ bundle_writeField (CanonicalLockBytes (rt_NewLock rot)) @ bundle_writeStr (lb_Sig (rt_NewLock rot))"

definition SealRevocation :: "(bytes \<Rightarrow> bytes result) \<Rightarrow> RevocationBundle \<Rightarrow> RevocationBundle result" where
  "SealRevocation s rv = andthen (wrapping ''signing revocation: %w'' (s (CanonicalRevocationBytes rv))) (\<lambda>sig.
     Inr (rv\<lparr>rv_Sig := b64_encode sig\<rparr>))"

definition SealRotation :: "(bytes \<Rightarrow> bytes result) \<Rightarrow> RotationBundle \<Rightarrow> RotationBundle result" where
  "SealRotation s rot = andthen (wrapping ''signing rotation: %w'' (s (CanonicalRotationBytes rot))) (\<lambda>sig.
     Inr (rot\<lparr>rt_Sig := b64_encode sig\<rparr>))"

definition VerifyLockForAdd :: "prims \<Rightarrow> ParsedBundle \<Rightarrow> unit result" where
  "VerifyLockForAdd P parsed = (case pa_Lock parsed of None \<Rightarrow> Inl (Errorf ''no lock to verify'')
     | Some lock \<Rightarrow> andthen (VerifyFingerprint P lock) (\<lambda>_.
         if lb_Sig lock \<noteq> [] then VerifyLockSelfSig P lock else Inr ()))"

definition verifyContinuity :: "RevocationBundle \<Rightarrow> Contact \<Rightarrow> unit result" where
  "verifyContinuity rv existing =
     (if rv_RevokedFingerprint rv \<noteq> ct_Fingerprint existing then Inl ErrContinuityMismatch
      else if ct_ID existing \<noteq> [] \<and> rv_ID rv \<noteq> ct_ID existing then Inl ErrContinuityMismatch
      else Inr ())"

definition verify_stored :: "prims \<Rightarrow> string \<Rightarrow> string \<Rightarrow> bytes \<Rightarrow> bytes \<Rightarrow> bytes \<Rightarrow> unit result" where
  "verify_stored P decoding verifying message sig64 key64 =
     andthen (wrapping decoding (b64_decode sig64)) (\<lambda>sig.
     andthen (wrapping ''decoding stored contact key: %w'' (b64_decode key64)) (\<lambda>pub.
     andthen (wrapping verifying (Verify P message sig pub)) (\<lambda>ok.
     if \<not> ok then Inl ErrBundleSigInvalid else Inr ())))"

definition VerifyRotation :: "prims \<Rightarrow> ParsedBundle \<Rightarrow> Contact option \<Rightarrow> unit result" where
  "VerifyRotation P parsed existing =
     (case (pa_Lock parsed, pa_Revocation parsed) of
        (Some lock, Some rv) \<Rightarrow>
          (case existing of None \<Rightarrow> Inl (Errorf ''no existing contact to verify continuity against'')
           | Some c \<Rightarrow>
             andthen (VerifyLockSelfSig P lock) (\<lambda>_.
             andthen (verifyContinuity rv c) (\<lambda>_.
             verify_stored P ''decoding rotation signature: %w'' ''verifying rotation signature: %w''
               (CanonicalRotationBytes \<lparr>rt_Revocation = rv, rt_NewLock = lock, rt_Sig = pa_Sig parsed\<rparr>)
               (pa_Sig parsed) (ct_SignPubKey c))))
      | _ \<Rightarrow> Inl (Errorf ''rotation missing lock or revocation''))"

definition VerifyRevocation :: "prims \<Rightarrow> ParsedBundle \<Rightarrow> Contact option \<Rightarrow> unit result" where
  "VerifyRevocation P parsed existing =
     (case pa_Revocation parsed of None \<Rightarrow> Inl (Errorf ''no revocation to verify'')
      | Some rv \<Rightarrow>
        (case existing of None \<Rightarrow> Inl (Errorf ''no existing contact to verify against'')
         | Some c \<Rightarrow>
           andthen (verifyContinuity rv c) (\<lambda>_.
           verify_stored P ''decoding revocation signature: %w'' ''verifying revocation signature: %w''
             (CanonicalRevocationBytes rv) (pa_Sig parsed) (ct_SignPubKey c))))"

section \<open>Import\<close>

datatype ImportAction = ActionAdd | ActionUpdate | ActionRevoke

record ImportResult =
  im_Action :: ImportAction
  im_Contact :: "nat option"
  im_NewKeys :: "LockBundle option"
  im_Revocation :: "RevocationBundle option"
  im_Message :: string

definition lock_handle :: "LockBundle \<Rightarrow> bytes" where
  "lock_handle lock = (if lb_Alias lock = [] then lb_Name lock else lb_Alias lock)"

definition processLockImport :: "LockBundle \<Rightarrow> Contact list \<Rightarrow> ImportResult" where
  "processLockImport lock existing =
     (case (if lb_ID lock \<noteq> [] then Contacts_FindByID existing (lb_ID lock) else Inl Contacts_ErrNotFound) of
        Inr c \<Rightarrow> \<lparr>im_Action = ActionUpdate, im_Contact = Some c, im_NewKeys = Some lock, im_Revocation = None,
          im_Message = ''%s has updated their keys. Verify their identity before confirming.''\<rparr>
      | Inl _ \<Rightarrow>
        (case Contacts_FindDuplicate existing (lock_handle lock) (lb_Email lock) [] of
           Inr c \<Rightarrow> \<lparr>im_Action = ActionUpdate, im_Contact = Some c, im_NewKeys = Some lock, im_Revocation = None,
             im_Message = ''Existing contact %q matches. Update their keys?''\<rparr>
         | Inl _ \<Rightarrow> \<lparr>im_Action = ActionAdd, im_Contact = None, im_NewKeys = Some lock, im_Revocation = None,
             im_Message = ''New contact: %s''\<rparr>))"

definition processRevokeImport :: "RevocationBundle \<Rightarrow> Contact list \<Rightarrow> ImportResult" where
  "processRevokeImport rv existing =
     (case Contacts_FindByID existing (rv_ID rv) of
        Inl _ \<Rightarrow> \<lparr>im_Action = ActionRevoke, im_Contact = None, im_NewKeys = None, im_Revocation = Some rv,
          im_Message = ''Revocation for unknown contact (ID: %s). No action taken.''\<rparr>
      | Inr c \<Rightarrow> \<lparr>im_Action = ActionRevoke, im_Contact = Some c, im_NewKeys = None, im_Revocation = Some rv,
          im_Message = ''%s has revoked their key. Import their new lock to continue communicating.''\<rparr>)"

definition processRotateImport :: "LockBundle \<Rightarrow> RevocationBundle \<Rightarrow> Contact list \<Rightarrow> ImportResult" where
  "processRotateImport lock rv existing =
     (case Contacts_FindByID existing (rv_ID rv) of
        Inl _ \<Rightarrow> \<lparr>im_Action = ActionAdd, im_Contact = None, im_NewKeys = Some lock, im_Revocation = Some rv,
          im_Message = ''New contact: %s (includes key rotation)''\<rparr>
      | Inr c \<Rightarrow> \<lparr>im_Action = ActionUpdate, im_Contact = Some c, im_NewKeys = Some lock, im_Revocation = Some rv,
          im_Message = ''%s has rotated their keys. Verify their identity before confirming.''\<rparr>)"

definition ProcessImport :: "prims \<Rightarrow> ParsedBundle option \<Rightarrow> Contact list \<Rightarrow> ImportResult result" where
  "ProcessImport P parsed existing =
     (case parsed of None \<Rightarrow> Inl (Errorf ''nil bundle'')
      | Some p \<Rightarrow>
        if pa_Type p = BundleLock then
          (case pa_Lock p of None \<Rightarrow> Inl (Errorf ''lock bundle has no lock'')
           | Some lock \<Rightarrow> andthen (ValidateLockBundle P lock) (\<lambda>_. Inr (processLockImport lock existing)))
        else if pa_Type p = BundleRevoke then
          (case pa_Revocation p of None \<Rightarrow> Inl (Errorf ''revocation bundle has no revocation'')
           | Some rv \<Rightarrow> Inr (processRevokeImport rv existing))
        else if pa_Type p = BundleRotate then
          (case (pa_Lock p, pa_Revocation p) of
             (Some lock, Some rv) \<Rightarrow> andthen (ValidateLockBundle P lock) (\<lambda>_. Inr (processRotateImport lock rv existing))
           | _ \<Rightarrow> Inl (Errorf ''rotation bundle missing lock or revocation''))
        else Inl (Errorf ''unknown bundle type %d''))"

definition retire_keys :: "gotime \<Rightarrow> Contact \<Rightarrow> Contact" where
  "retire_keys now c = c\<lparr>ct_PreviousKeys := ct_PreviousKeys c @ [\<lparr>pk_EncPubKey = ct_EncPubKey c, pk_SignPubKey = ct_SignPubKey c,
     pk_Fingerprint = ct_Fingerprint c, pk_RevokedAt = now\<rparr>]\<rparr>"

definition ApplyUpdate :: "gotime \<Rightarrow> Contact \<Rightarrow> LockBundle \<Rightarrow> Contact" where
  "ApplyUpdate now c lock =
     (let c = (retire_keys now c)\<lparr>ct_EncPubKey := lb_EncPubKey lock, ct_SignPubKey := lb_SignPubKey lock, ct_Fingerprint := lb_Fingerprint lock\<rparr>;
          handle = lock_handle lock;
          c = (if handle \<noteq> [] then c\<lparr>ct_Alias := handle\<rparr> else c)
      in if lb_Email lock \<noteq> [] then c\<lparr>ct_Email := lb_Email lock\<rparr> else c)"

definition ApplyRevoke :: "gotime \<Rightarrow> Contact \<Rightarrow> Contact" where
  "ApplyRevoke now c = (retire_keys now c)\<lparr>ct_EncPubKey := [], ct_SignPubKey := [], ct_Fingerprint := []\<rparr>"


section \<open>Lemmas\<close>

interpretation bundle_fields: framing bundle_writeStr fits_field
proof
  show "a = b \<and> x = y" if "fits_field a" "fits_field b" "bundle_writeStr a @ x = bundle_writeStr b @ y" for a b x y
    by (rule frame64_split [OF that(1,2)]) (use that(3) in \<open>simp add: bundle_writeStr_def bundle_writeField_def\<close>)
  show "bundle_writeStr a \<noteq> []" for a unfolding bundle_writeStr_def bundle_writeField_def by (rule frame64_nonempty)
qed

lemma Canonical_fields:
  "CanonicalRevocationBytes rv = concat (map bundle_writeStr [revokeCanonicalTag, rv_ID rv, rv_RevokedFingerprint rv, rv_RevokedAt rv])"
  "CanonicalRotationBytes rot = concat (map bundle_writeStr [rotateCanonicalTag, rv_ID (rt_Revocation rot),
     rv_RevokedFingerprint (rt_Revocation rot), rv_RevokedAt (rt_Revocation rot), CanonicalLockBytes (rt_NewLock rot), lb_Sig (rt_NewLock rot)])"
  by (simp_all add: CanonicalRevocationBytes_def CanonicalRotationBytes_def bundle_writeStr_def)

definition fits_RotationBundle :: "RotationBundle \<Rightarrow> bool" where
  "fits_RotationBundle rot \<longleftrightarrow> fits_LockBundle (rt_NewLock rot) \<and> list_all fits_field [rv_ID (rt_Revocation rot),
     rv_RevokedFingerprint (rt_Revocation rot), rv_RevokedAt (rt_Revocation rot), CanonicalLockBytes (rt_NewLock rot), lb_Sig (rt_NewLock rot)]"

text \<open>What a rotation signature covers: the revocation, and of the lock its keys and its signature.\<close>

definition same_rotation :: "RotationBundle \<Rightarrow> RotationBundle \<Rightarrow> bool" where
  "same_rotation a b \<longleftrightarrow>
     rv_ID (rt_Revocation a) = rv_ID (rt_Revocation b)
     \<and> rv_RevokedFingerprint (rt_Revocation a) = rv_RevokedFingerprint (rt_Revocation b)
     \<and> rv_RevokedAt (rt_Revocation a) = rv_RevokedAt (rt_Revocation b)
     \<and> lb_ID (rt_NewLock a) = lb_ID (rt_NewLock b) \<and> lb_EncPubKey (rt_NewLock a) = lb_EncPubKey (rt_NewLock b)
     \<and> lb_SignPubKey (rt_NewLock a) = lb_SignPubKey (rt_NewLock b) \<and> lb_Fingerprint (rt_NewLock a) = lb_Fingerprint (rt_NewLock b)
     \<and> lb_Sig (rt_NewLock a) = lb_Sig (rt_NewLock b)"

lemma lock_bytes_dest:
  assumes "CanonicalLockBytes a = CanonicalLockBytes b" "fits_LockBundle a" "fits_LockBundle b"
  shows "lb_ID a = lb_ID b \<and> lb_EncPubKey a = lb_EncPubKey b \<and> lb_SignPubKey a = lb_SignPubKey b \<and> lb_Fingerprint a = lb_Fingerprint b"
proof -
  have "[lockCanonicalTag, lb_ID a, lb_EncPubKey a, lb_SignPubKey a, lb_Fingerprint a]
      = [lockCanonicalTag, lb_ID b, lb_EncPubKey b, lb_SignPubKey b, lb_Fingerprint b]"
    using assms unfolding CanonicalLockBytes_fields
    by (intro lock_fields.fields_inject) (simp_all add: fits_LockBundle_def fits_short lockCanonicalTag_def)
  then show ?thesis by simp
qed

lemma rotation_bytes_iff:
  assumes "fits_RotationBundle a" "fits_RotationBundle b"
  shows "CanonicalRotationBytes a = CanonicalRotationBytes b \<longleftrightarrow> same_rotation a b"
proof
  assume eq: "CanonicalRotationBytes a = CanonicalRotationBytes b"
  let ?f = "\<lambda>rot. [rotateCanonicalTag, rv_ID (rt_Revocation rot), rv_RevokedFingerprint (rt_Revocation rot),
      rv_RevokedAt (rt_Revocation rot), CanonicalLockBytes (rt_NewLock rot), lb_Sig (rt_NewLock rot)]"
  have "?f a = ?f b" using eq assms unfolding Canonical_fields(2)
    by (intro bundle_fields.fields_inject) (simp_all add: fits_RotationBundle_def fits_short rotateCanonicalTag_def)
  then show "same_rotation a b"
    using lock_bytes_dest [of "rt_NewLock a" "rt_NewLock b"] assms by (simp add: same_rotation_def fits_RotationBundle_def)
qed (simp add: same_rotation_def CanonicalRotationBytes_def CanonicalLockBytes_def)

lemma verify_stored_Inr:
  "verify_stored P f g m s key = Inr u \<longleftrightarrow> (\<exists>sig pub k. b64_decode s = Inr sig \<and> b64_decode key = Inr pub
     \<and> mldsa_PubUnmarshal P pub = Inr k \<and> mldsa_Verify P k m sig)"
  by (auto simp: verify_stored_def Verify_def split: sum.splits)

lemma find_RevocationBundle:
  "find_field RevocationBundle_fields ''id'' = Some (snd (fld ''id'' dec_str rv_ID rv_ID_update))"
  "find_field RevocationBundle_fields ''revoked_fingerprint'' =
     Some (snd (fld ''revoked_fingerprint'' dec_str rv_RevokedFingerprint rv_RevokedFingerprint_update))"
  "find_field RevocationBundle_fields ''revoked_at'' = Some (snd (fld ''revoked_at'' dec_str rv_RevokedAt rv_RevokedAt_update))"
  "find_field RevocationBundle_fields ''sig'' = Some (snd (fld ''sig'' dec_str rv_Sig rv_Sig_update))"
  by (simp_all add: RevocationBundle_fields_def find_field_def fld_def)

lemma find_RotationBundle:
  "find_field RotationBundle_fields ''revocation'' =
     Some (snd (fld ''revocation'' (dec_struct RevocationBundle_fields) rt_Revocation rt_Revocation_update))"
  "find_field RotationBundle_fields ''new_lock'' =
     Some (snd (fld ''new_lock'' (dec_struct LockBundle_fields) rt_NewLock rt_NewLock_update))"
  "find_field RotationBundle_fields ''sig'' = Some (snd (fld ''sig'' dec_str rt_Sig rt_Sig_update))"
  by (simp_all add: RotationBundle_fields_def find_field_def fld_def)

lemma dec_enc_RevocationBundle [json_rt]:
  "utf8_RevocationBundle r \<Longrightarrow> dec_struct RevocationBundle_fields (enc_RevocationBundle r) zero_RevocationBundle = (r, DOk)"
  by (simp add: enc_RevocationBundle_def json_rt find_RevocationBundle fld_def utf8_RevocationBundle_def zero_RevocationBundle_def)

lemma dec_enc_RotationBundle:
  "utf8_RotationBundle r \<Longrightarrow> dec_struct RotationBundle_fields (enc_RotationBundle r) zero_RotationBundle = (r, DOk)"
  by (simp add: enc_RotationBundle_def json_rt dec_enc_LockBundle find_RotationBundle fld_def utf8_RotationBundle_def zero_RotationBundle_def)

lemma wf_enc_bundles: "wf_json 10000 (enc_RevocationBundle r)" "wf_json 10000 (enc_RotationBundle t)"
  by (simp_all add: enc_RevocationBundle_def enc_RotationBundle_def enc_LockBundle_def valid_utf8_ascii ball_Un set_omit)

lemma IsArmored_encode: "label \<in> {ArmorLockLabel, ArmorRevokeLabel, ArmorRotateLabel} \<Longrightarrow> IsArmored (ArmorEncode data label)"
proof -
  assume l: "label \<in> {ArmorLockLabel, ArmorRevokeLabel, ArmorRotateLabel}"
  let ?a = "ArmorEncode data label"
  have h: "HasPrefix ?a (begin_line label)" by (simp add: ArmorEncode_def ArmorEncodeWithHeaders_def)
  obtain t where t: "?a = CHR ''-'' # t" by (simp add: ArmorEncode_def ArmorEncodeWithHeaders_def begin_line_def)
  have "dropWhile (\<lambda>c. c \<in> {CHR '' '', CHR 0x09, CHR 0x0D, CHR 0x0A}) ?a = ?a" unfolding t by simp
  then show "IsArmored ?a" using l h by (auto simp: IsArmored_def Let_def)
qed

lemma Parse_Marshal:
  "utf8_RotationBundle rot \<Longrightarrow> MarshalRotation rot = Inr bs \<Longrightarrow> Parse bs = Inr (rotate_parsed rot)"
  "utf8_RevocationBundle rv \<Longrightarrow> MarshalRevocation rv = Inr bs \<Longrightarrow> Parse bs = Inr (revoke_parsed rv)"
proof -
  have l: "line_ok ArmorRotateLabel" "line_ok ArmorRevokeLabel" by (simp_all add: line_ok_def armor_labels)
  have a: "ArmorDecode (ArmorEncode data ArmorRotateLabel) = Inr (data, ArmorRotateLabel)"
      "ArmorDecode (ArmorEncode data ArmorRevokeLabel) = Inr (data, ArmorRevokeLabel)" for data
    using ArmorDecode_Encode [OF l(1), of "[]"] ArmorDecode_Encode [OF l(2), of "[]"] by (simp_all add: ArmorDecode_def ArmorEncode_def)
  have n: "ArmorRotateLabel \<noteq> ArmorLockLabel" "ArmorRevokeLabel \<noteq> ArmorLockLabel" "ArmorRotateLabel \<noteq> ArmorRevokeLabel"
    by (simp_all add: armor_labels)
  show "Parse bs = Inr (rotate_parsed rot)" if "utf8_RotationBundle rot" "MarshalRotation rot = Inr bs"
  proof -
    have bs: "bs = ArmorEncode (indented (enc_RotationBundle rot)) ArmorRotateLabel" using that(2) by (simp add: MarshalRotation_def)
    show ?thesis unfolding bs using IsArmored_encode [of ArmorRotateLabel] a(1) n dec_enc_RotationBundle [OF that(1)]
      by (simp add: Parse_def parseArmored_def unmarshal_indented wf_enc_bundles)
  qed
  show "Parse bs = Inr (revoke_parsed rv)" if "utf8_RevocationBundle rv" "MarshalRevocation rv = Inr bs"
  proof -
    have bs: "bs = ArmorEncode (indented (enc_RevocationBundle rv)) ArmorRevokeLabel" using that(2) by (simp add: MarshalRevocation_def)
    show ?thesis unfolding bs using IsArmored_encode [of ArmorRevokeLabel] a(2) n dec_enc_RevocationBundle [OF that(1)]
      by (simp add: Parse_def parseArmored_def unmarshal_indented wf_enc_bundles)
  qed
qed

lemma SealRotation_verifies:
  assumes P: "mldsa_correct P" and old: "mldsa_PrivUnmarshal P priv = Inr k" "ct_SignPubKey c = b64_encode (mldsa_Public P k)"
    and seal: "SealRotation (\<lambda>m. Sign P m priv) rot = Inr sealed" and lock: "VerifyLockSelfSig P (rt_NewLock rot) = Inr ()"
    and match: "rv_RevokedFingerprint (rt_Revocation rot) = ct_Fingerprint c" "rv_ID (rt_Revocation rot) = ct_ID c"
  shows "VerifyRotation P (rotate_parsed sealed) (Some c) = Inr ()"
    "\<exists>sig. sealed = rot\<lparr>rt_Sig := b64_encode sig\<rparr>"
proof -
  from seal obtain sig where s: "Sign P (CanonicalRotationBytes rot) priv = Inr sig" "sealed = rot\<lparr>rt_Sig := b64_encode sig\<rparr>"
    by (auto simp: SealRotation_def)
  then show "\<exists>sig. sealed = rot\<lparr>rt_Sig := b64_encode sig\<rparr>" by blast
  have "CanonicalRotationBytes \<lparr>rt_Revocation = rt_Revocation rot, rt_NewLock = rt_NewLock rot, rt_Sig = b64_encode sig\<rparr> = CanonicalRotationBytes rot"
    by (simp add: CanonicalRotationBytes_def)
  moreover have "Verify P (CanonicalRotationBytes rot) sig (mldsa_Public P k) = Inr True" using Sign_Verify [OF P s(1) old(1)] .
  ultimately show "VerifyRotation P (rotate_parsed sealed) (Some c) = Inr ()"
    using lock match old(2) by (simp add: VerifyRotation_def rotate_parsed_def s(2) verifyContinuity_def verify_stored_def)
qed

section \<open>Properties\<close>

text \<open>
  C34. A rotation that verifies against a contact was authorised by the key stored for that
  contact: it names the contact's current fingerprint (and its id, if it has one), the new lock is
  signed by its own key and bound to its fingerprint, and the stored key verifies the signature over
  bytes that determine the revocation and the keys of the new lock, so that neither half can be
  exchanged. The labels of the new lock (name, alias, email) are not covered.
\<close>

theorem VerifyRotation_sound:
  assumes "VerifyRotation P parsed (Some c) = Inr ()"
  shows "\<exists>lock rv sig pub k. pa_Lock parsed = Some lock \<and> pa_Revocation parsed = Some rv
     \<and> rv_RevokedFingerprint rv = ct_Fingerprint c \<and> (ct_ID c = [] \<or> rv_ID rv = ct_ID c)
     \<and> VerifyLockSelfSig P lock = Inr ()
     \<and> b64_decode (pa_Sig parsed) = Inr sig \<and> b64_decode (ct_SignPubKey c) = Inr pub \<and> mldsa_PubUnmarshal P pub = Inr k
     \<and> mldsa_Verify P k (CanonicalRotationBytes \<lparr>rt_Revocation = rv, rt_NewLock = lock, rt_Sig = pa_Sig parsed\<rparr>) sig
     \<and> (\<forall>rot. fits_RotationBundle rot \<and> fits_RotationBundle \<lparr>rt_Revocation = rv, rt_NewLock = lock, rt_Sig = pa_Sig parsed\<rparr> \<longrightarrow>
          (CanonicalRotationBytes rot = CanonicalRotationBytes \<lparr>rt_Revocation = rv, rt_NewLock = lock, rt_Sig = pa_Sig parsed\<rparr>
           \<longleftrightarrow> same_rotation rot \<lparr>rt_Revocation = rv, rt_NewLock = lock, rt_Sig = pa_Sig parsed\<rparr>))"
  using assms rotation_bytes_iff
  by (auto simp: VerifyRotation_def verify_stored_Inr verifyContinuity_def split: option.splits if_splits)

definition sample_rotation :: RotationBundle where
  "sample_rotation = \<lparr>rt_Revocation = \<lparr>rv_ID = ''IC-0'', rv_RevokedFingerprint = ''fp'', rv_RevokedAt = [], rv_Sig = []\<rparr>,
     rt_NewLock = sealed_lock, rt_Sig = []\<rparr>"

definition rotating_contact :: Contact where
  "rotating_contact = zero_Contact\<lparr>ct_ID := ''IC-0'', ct_Fingerprint := ''fp'', ct_SignPubKey := b64_encode ''old''\<rparr>"

lemma sample_rotation_ok:
  "mldsa_PrivUnmarshal toy_prims ''old'' = Inr ''old''" "ct_SignPubKey rotating_contact = b64_encode (mldsa_Public toy_prims ''old'')"
  "\<exists>sealed. SealRotation (\<lambda>m. Sign toy_prims m ''old'') sample_rotation = Inr sealed"
  "VerifyLockSelfSig toy_prims (rt_NewLock sample_rotation) = Inr ()" "ValidateLockBundle toy_prims (rt_NewLock sample_rotation) = Inr ()"
  "rv_RevokedFingerprint (rt_Revocation sample_rotation) = ct_Fingerprint rotating_contact"
  "rv_ID (rt_Revocation sample_rotation) = ct_ID rotating_contact" "utf8_RotationBundle sample_rotation"
  "Contacts_FindByID [rotating_contact] (ct_ID rotating_contact) = Inr 0"
proof -
  show "VerifyLockSelfSig toy_prims (rt_NewLock sample_rotation) = Inr ()" "ValidateLockBundle toy_prims (rt_NewLock sample_rotation) = Inr ()"
    using ValidateLockBundle_dest [OF sealed_lock_valid(1)] sealed_lock_valid(1,2) by (simp_all add: sample_rotation_def)
  show "utf8_RotationBundle sample_rotation"
    using sealed_lock_valid(3) by (simp add: utf8_RotationBundle_def utf8_RevocationBundle_def sample_rotation_def valid_utf8_ascii ascii_def)
qed (simp_all add: toy_prims_def rotating_contact_def sample_rotation_def SealRotation_def Sign_def Contacts_FindByID_def del: b64_encode.simps)

theorem VerifyRotation_sound_witness:
  "\<exists>parsed lock. VerifyRotation toy_prims parsed (Some rotating_contact) = Inr () \<and> pa_Lock parsed = Some lock
     \<and> VerifyLockSelfSig toy_prims lock = Inr ()"
proof -
  obtain sealed where s: "SealRotation (\<lambda>m. Sign toy_prims m ''old'') sample_rotation = Inr sealed" using sample_rotation_ok(3) by auto
  have v: "VerifyRotation toy_prims (rotate_parsed sealed) (Some rotating_contact) = Inr ()"
    using SealRotation_verifies(1) [OF toy_laws(3) sample_rotation_ok(1,2) s sample_rotation_ok(4,6,7)] .
  from VerifyRotation_sound [OF v] v show ?thesis by blast
qed

text \<open>
  The whole path of a rotation: sealed by the old key, written as armor, parsed on the other
  side, it is recognised as a rotation and verifies against the contact that has the old key; the
  import finds this contact, and applying the update puts the new keys in place and keeps the old
  ones in the history.
\<close>

theorem rotation_applies:
  assumes P: "mldsa_correct P" and old: "mldsa_PrivUnmarshal P priv = Inr k" "ct_SignPubKey c = b64_encode (mldsa_Public P k)"
    and seal: "SealRotation (\<lambda>m. Sign P m priv) rot = Inr sealed" "MarshalRotation sealed = Inr bs" "utf8_RotationBundle rot"
    and lock: "VerifyLockSelfSig P (rt_NewLock rot) = Inr ()" "ValidateLockBundle P (rt_NewLock rot) = Inr ()"
    and match: "rv_RevokedFingerprint (rt_Revocation rot) = ct_Fingerprint c" "rv_ID (rt_Revocation rot) = ct_ID c"
      "Contacts_FindByID cs (ct_ID c) = Inr i"
  shows "\<exists>p r. Parse bs = Inr p \<and> pa_Type p = BundleRotate \<and> VerifyRotation P p (Some c) = Inr ()
     \<and> ProcessImport P (Some p) cs = Inr r \<and> im_Action r = ActionUpdate \<and> im_Contact r = Some i \<and> im_NewKeys r = Some (rt_NewLock rot)
     \<and> (let c' = ApplyUpdate now c (rt_NewLock rot) in
          ct_EncPubKey c' = lb_EncPubKey (rt_NewLock rot) \<and> ct_SignPubKey c' = lb_SignPubKey (rt_NewLock rot)
          \<and> ct_Fingerprint c' = lb_Fingerprint (rt_NewLock rot) \<and> ct_ID c' = ct_ID c \<and> ct_Nickname c' = ct_Nickname c
          \<and> ct_PreviousKeys c' = ct_PreviousKeys c @ [\<lparr>pk_EncPubKey = ct_EncPubKey c, pk_SignPubKey = ct_SignPubKey c,
               pk_Fingerprint = ct_Fingerprint c, pk_RevokedAt = now\<rparr>])"
proof -
  note v = SealRotation_verifies [OF P old seal(1) lock(1) match(1,2)]
  then obtain sig where s: "sealed = rot\<lparr>rt_Sig := b64_encode sig\<rparr>" by blast
  have "utf8_RotationBundle sealed"
    using seal(3) valid_utf8_ascii [OF plain_ascii [OF b64_plain]] by (simp add: utf8_RotationBundle_def s)
  from Parse_Marshal(1) [OF this seal(2)] have "Parse bs = Inr (rotate_parsed sealed)" .
  moreover obtain r where "ProcessImport P (Some (rotate_parsed sealed)) cs = Inr r" "im_Action r = ActionUpdate" "im_Contact r = Some i"
      "im_NewKeys r = Some (rt_NewLock rot)"
    using lock(2) match(2,3)
    by (simp add: ProcessImport_def rotate_parsed_def s BundleLock_def BundleRevoke_def BundleRotate_def processRotateImport_def)
  moreover have "pa_Type (rotate_parsed sealed) = BundleRotate" by (simp add: rotate_parsed_def)
  ultimately show ?thesis using v(1) by (auto simp: ApplyUpdate_def retire_keys_def Let_def)
qed

theorem rotation_applies_witness:
  "\<exists>sealed bs p r. SealRotation (\<lambda>m. Sign toy_prims m ''old'') sample_rotation = Inr sealed \<and> MarshalRotation sealed = Inr bs
     \<and> Parse bs = Inr p \<and> VerifyRotation toy_prims p (Some rotating_contact) = Inr ()
     \<and> ProcessImport toy_prims (Some p) [rotating_contact] = Inr r \<and> im_Contact r = Some 0"
proof -
  obtain sealed where s: "SealRotation (\<lambda>m. Sign toy_prims m ''old'') sample_rotation = Inr sealed" using sample_rotation_ok(3) by auto
  obtain bs where b: "MarshalRotation sealed = Inr bs" by (simp add: MarshalRotation_def)
  from rotation_applies [OF toy_laws(3) sample_rotation_ok(1,2) s b sample_rotation_ok(8,4,5,6,7,9)] s b show ?thesis by blast
qed

text \<open>A rotation signature stays valid when the labels of the new lock are changed.\<close>

theorem rotation_labels_unsigned:
  "CanonicalRotationBytes (rot\<lparr>rt_NewLock := (rt_NewLock rot)\<lparr>lb_Name := name, lb_Alias := alias, lb_Email := email\<rparr>\<rparr>)
   = CanonicalRotationBytes rot"
  by (simp add: CanonicalRotationBytes_def CanonicalLockBytes_def)

end
