(* ===== verification/Icfx_Recipient.thy ===== *)
theory Icfx_Recipient
  imports Icfx_Identity Icfx_Groups
begin

text \<open>
  Package recipient: references (alias, email, nickname, own identity, group or raw lock) become
  recipients of an encryption or of a cloud share. The unlocking of one of the caller's own
  identities is a callback. A warning is the function that composes it and its argument; the text
  that fmt.Sprintf makes of them is left out. The maps of recipients seen so far hold exactly what
  the result lists hold, and are read off them.
\<close>

datatype Warning =
    EncryptWarnNoLock bytes
  | EncryptWarnMissingMember bytes
  | EncryptWarnEmptyGroup bytes
  | ShareWarnNoFingerprint bytes
  | ShareWarnUnpublished bytes

section \<open>Encryption\<close>

type_synonym OpenEncKeyFn = "IdentityIndex \<Rightarrow> bytes result"

text \<open>The loop over the own identities: the first one of the name that opens to a key.\<close>

fun own_lock :: "OpenEncKeyFn \<Rightarrow> bytes \<Rightarrow> IdentityIndex list \<Rightarrow> bytes result" where
  "own_lock open_key to [] = Inl (Errorf ''no contact or identity found matching %q'')"
| "own_lock open_key to (idx # entries) =
     (if ix_Name idx \<noteq> to then own_lock open_key to entries
      else case open_key idx of
          Inr k \<Rightarrow> (if k \<noteq> [] then Inr k else own_lock open_key to entries)
        | Inl _ \<Rightarrow> own_lock open_key to entries)"

definition findContact :: "Contact list \<Rightarrow> bytes \<Rightarrow> Contact option" where
  "findContact cs ref =
     (case FindByAlias cs ref of Inr i \<Rightarrow> Some (cs ! i)
      | Inl _ \<Rightarrow> (case FindByEmailOrNickname cs ref of Inr i \<Rightarrow> Some (cs ! i) | Inl _ \<Rightarrow> None))"

definition ForEncrypt :: "bytes \<Rightarrow> Contact list \<Rightarrow> IdentityIndex list \<Rightarrow> OpenEncKeyFn \<Rightarrow> bytes result" where
  "ForEncrypt to cs entries open_key =
     (if HasPrefix to ''age1pq1'' then Inr to
      else case findContact cs to of Some c \<Rightarrow> Inr (ct_EncPubKey c) | None \<Rightarrow> own_lock open_key to entries)"

fun encrypt_refs :: "Contact list \<Rightarrow> IdentityIndex list \<Rightarrow> OpenEncKeyFn \<Rightarrow> bytes list \<Rightarrow> bytes list \<Rightarrow> bytes list result" where
  "encrypt_refs cs entries open_key [] locks = Inr locks"
| "encrypt_refs cs entries open_key (to # tos) locks =
     (if to = [] then encrypt_refs cs entries open_key tos locks
      else andthen (ForEncrypt to cs entries open_key) (\<lambda>lock.
        encrypt_refs cs entries open_key tos (if lock \<in> set locks then locks else locks @ [lock])))"

definition ForEncryptMany :: "bytes list \<Rightarrow> Contact list \<Rightarrow> IdentityIndex list \<Rightarrow> OpenEncKeyFn \<Rightarrow> bytes list result" where
  "ForEncryptMany tos cs entries open_key =
     andthen (encrypt_refs cs entries open_key tos []) (\<lambda>locks.
     if locks = [] then Inl (Errorf ''no recipients resolved'') else Inr locks)"

text \<open>A member of a group: its lock, or the reason it is skipped.\<close>

definition member_lock :: "Contact list \<Rightarrow> bytes \<Rightarrow> bytes \<Rightarrow> Warning + bytes" where
  "member_lock cs gname mid =
     (case Contacts_FindByID cs mid of
        Inl _ \<Rightarrow> Inl (EncryptWarnMissingMember gname)
      | Inr i \<Rightarrow> (if ct_EncPubKey (cs ! i) = [] then Inl (EncryptWarnNoLock (ct_Alias (cs ! i))) else Inr (ct_EncPubKey (cs ! i))))"

fun expand_members :: "Contact list \<Rightarrow> bytes \<Rightarrow> bytes list \<Rightarrow> bytes list \<times> Warning list" where
  "expand_members cs gname [] = ([], [])"
| "expand_members cs gname (mid # mids) =
     (case expand_members cs gname mids of (locks, ws) \<Rightarrow>
        (case member_lock cs gname mid of Inl w \<Rightarrow> (locks, w # ws) | Inr l \<Rightarrow> (l # locks, ws)))"

definition expand_ref :: "Group list \<Rightarrow> Contact list \<Rightarrow> bytes \<Rightarrow> bytes list \<times> Warning list" where
  "expand_ref gs cs to =
     (if findContact cs to \<noteq> None then ([to], [])
      else case Groups_FindByName gs to of
          Inl _ \<Rightarrow> ([to], [])
        | Inr i \<Rightarrow>
          (case expand_members cs (g_Name (gs ! i)) (g_MemberIDs (gs ! i)) of (locks, ws) \<Rightarrow>
             (locks, if locks = [] then ws @ [EncryptWarnEmptyGroup (g_Name (gs ! i))] else ws)))"

definition ExpandGroups :: "bytes list \<Rightarrow> Group list \<Rightarrow> Contact list \<Rightarrow> bytes list \<times> Warning list" where
  "ExpandGroups tos gs cs =
     (let rs = map (expand_ref gs cs) (filter (\<lambda>to. to \<noteq> []) tos)
      in (concat (map fst rs), concat (map snd rs)))"

section \<open>Cloud shares\<close>

record ShareTarget =
  sh_Lock :: bytes
  sh_Fingerprint :: bytes
  sh_Alias :: bytes

definition share_add :: "Contact \<Rightarrow> ShareTarget list \<Rightarrow> ShareTarget list" where
  "share_add c ts = (if ct_Fingerprint c \<in> sh_Fingerprint ` set ts then ts
     else ts @ [\<lparr>sh_Lock = ct_EncPubKey c, sh_Fingerprint = ct_Fingerprint c, sh_Alias = ct_Alias c\<rparr>])"

definition shareable :: "Contact \<Rightarrow> bool" where
  "shareable c \<longleftrightarrow> ct_EncPubKey c \<noteq> [] \<and> ct_Fingerprint c \<noteq> []"

definition share_contact :: "Contact \<Rightarrow> ShareTarget list \<times> Warning list \<Rightarrow> ShareTarget list \<times> Warning list" where
  "share_contact c s = (case s of (ts, ws) \<Rightarrow>
     if \<not> shareable c then (ts, ws @ [ShareWarnNoFingerprint (ct_Alias c)]) else (share_add c ts, ws))"

definition share_member :: "Contact list \<Rightarrow> bytes \<Rightarrow> ShareTarget list \<times> Warning list \<Rightarrow> ShareTarget list \<times> Warning list" where
  "share_member cs mid s = (case Contacts_FindByID cs mid of Inl _ \<Rightarrow> s | Inr i \<Rightarrow> share_contact (cs ! i) s)"

fun share_refs :: "Contact list \<Rightarrow> Group list \<Rightarrow> bytes list \<Rightarrow> ShareTarget list \<times> Warning list \<Rightarrow> (ShareTarget list \<times> Warning list) result" where
  "share_refs cs gs [] s = Inr s"
| "share_refs cs gs (to # tos) s =
     (if to = [] then share_refs cs gs tos s
      else case findContact cs to of
          Some c \<Rightarrow> share_refs cs gs tos (share_contact c s)
        | None \<Rightarrow>
          (case Groups_FindByName gs to of
             Inr i \<Rightarrow> share_refs cs gs tos (fold (share_member cs) (g_MemberIDs (gs ! i)) s)
           | Inl _ \<Rightarrow> Inl (Errorf ''no contact or group named %q'')))"

text \<open>Returns targets, warnings and the error.\<close>

definition ForShareMany :: "Contact list \<Rightarrow> Group list \<Rightarrow> bytes list \<Rightarrow> ShareTarget list \<times> Warning list \<times> unit result" where
  "ForShareMany cs gs tos =
     (case share_refs cs gs tos ([], []) of
        Inl e \<Rightarrow> ([], [], Inl e)
      | Inr (ts, ws) \<Rightarrow>
        if ts = [] then ([], ws, Inl (Errorf ''no reachable recipients (a cloud share needs contacts with a published fingerprint)''))
        else (ts, ws, Inr ()))"

section \<open>Lemmas\<close>

lemma encrypt_refs_Inr:
  assumes "encrypt_refs cs entries f tos locks = Inr out" "distinct locks"
  shows "distinct out \<and> set out = set locks \<union> {l. \<exists>to\<in>set tos. to \<noteq> [] \<and> ForEncrypt to cs entries f = Inr l}
     \<and> (\<forall>to\<in>set tos. to \<noteq> [] \<longrightarrow> is_ok (ForEncrypt to cs entries f))"
  using assms
proof (induction tos arbitrary: locks)
  case (Cons to tos)
  show ?case
  proof (cases "to = []")
    case True
    with Cons show ?thesis by auto
  next
    case False
    with Cons.prems(1) obtain l where l: "ForEncrypt to cs entries f = Inr l"
        "encrypt_refs cs entries f tos (if l \<in> set locks then locks else locks @ [l]) = Inr out" by auto
    from Cons.IH [OF l(2)] Cons.prems(2) l(1) False show ?thesis by (auto split: if_splits)
  qed
qed simp

lemma expand_members_spec:
  assumes "expand_members cs gname mids = (locks, ws)"
  shows "set locks = {l. \<exists>m\<in>set mids. member_lock cs gname m = Inr l} \<and> set ws = {w. \<exists>m\<in>set mids. member_lock cs gname m = Inl w}"
  using assms
proof (induction mids arbitrary: locks ws)
  case (Cons m mids)
  obtain ls vs where r: "expand_members cs gname mids = (ls, vs)" by (cases "expand_members cs gname mids")
  from Cons.IH [OF r] Cons.prems r show ?case by (cases "member_lock cs gname m") auto
qed simp

text \<open>The contacts a reference stands for: the contact, or the members of the group that are contacts.\<close>

definition member_contact :: "Contact list \<Rightarrow> bytes \<Rightarrow> Contact option" where
  "member_contact cs m = (case Contacts_FindByID cs m of Inl _ \<Rightarrow> None | Inr i \<Rightarrow> Some (cs ! i))"

definition named_contacts :: "Contact list \<Rightarrow> Group list \<Rightarrow> bytes \<Rightarrow> Contact list" where
  "named_contacts cs gs to =
     (case findContact cs to of Some c \<Rightarrow> [c]
      | None \<Rightarrow> (case Groups_FindByName gs to of
           Inl _ \<Rightarrow> []
         | Inr i \<Rightarrow> List.map_filter (member_contact cs) (g_MemberIDs (gs ! i))))"

definition target_of :: "Contact \<Rightarrow> ShareTarget" where
  "target_of c = \<lparr>sh_Lock = ct_EncPubKey c, sh_Fingerprint = ct_Fingerprint c, sh_Alias = ct_Alias c\<rparr>"

lemma share_members_fold:
  "fold (share_member cs) ms s = fold share_contact (List.map_filter (member_contact cs) ms) s"
  by (induction ms arbitrary: s) (auto simp: share_member_def member_contact_def split: sum.splits)

lemma share_refs_fold:
  assumes "share_refs cs gs tos s = Inr s'"
  shows "s' = fold share_contact (concat (map (named_contacts cs gs) (filter (\<lambda>to. to \<noteq> []) tos))) s"
  using assms
proof (induction tos arbitrary: s)
  case (Cons to tos)
  then show ?case by (auto simp: named_contacts_def share_members_fold split: if_splits option.splits sum.splits)
qed simp

lemma share_contact_fold:
  assumes "fold share_contact cs (ts, ws) = (ts', ws')" "distinct (map sh_Fingerprint ts)"
  shows "distinct (map sh_Fingerprint ts') \<and> set ts \<subseteq> set ts' \<and> set ts' \<subseteq> set ts \<union> target_of ` {c \<in> set cs. shareable c}
    \<and> ct_Fingerprint ` {c \<in> set cs. shareable c} \<subseteq> sh_Fingerprint ` set ts'
    \<and> set ws' = set ws \<union> {ShareWarnNoFingerprint (ct_Alias c) | c. c \<in> set cs \<and> \<not> shareable c}"
  using assms
proof (induction cs arbitrary: ts ws)
  case (Cons c cs)
  obtain us vs where s: "share_contact c (ts, ws) = (us, vs)" by (cases "share_contact c (ts, ws)")
  then have step: "distinct (map sh_Fingerprint us) \<and> set ts \<subseteq> set us \<and> set us \<subseteq> set ts \<union> target_of ` {d \<in> {c}. shareable d}
      \<and> ct_Fingerprint ` {d \<in> {c}. shareable d} \<subseteq> sh_Fingerprint ` set us
      \<and> set vs = set ws \<union> {ShareWarnNoFingerprint (ct_Alias d) | d. d \<in> {c} \<and> \<not> shareable d}"
    using Cons.prems(2) by (auto simp: share_contact_def share_add_def target_of_def split: if_splits)
  from Cons.prems(1) s have "fold share_contact cs (us, vs) = (ts', ws')" by simp
  note ih = Cons.IH [OF this conjunct1 [OF step]]
  have sub: "set us \<subseteq> set ts'" using ih by simp
  have fp: "ct_Fingerprint d \<in> sh_Fingerprint ` set ts'" if "d \<in> set (c # cs)" "shareable d" for d
  proof (cases "d \<in> set cs")
    case True
    with ih that(2) show ?thesis by blast
  next
    case False
    with step that have "ct_Fingerprint d \<in> sh_Fingerprint ` set us" by auto
    with sub show ?thesis by blast
  qed
  have tgt: "t \<in> set ts \<union> target_of ` {d \<in> set (c # cs). shareable d}" if "t \<in> set ts'" for t
  proof -
    from ih that have "t \<in> set us \<or> t \<in> target_of ` {d \<in> set cs. shareable d}" by blast
    then show ?thesis
    proof
      assume "t \<in> set us"
      with step have "t \<in> set ts \<or> t \<in> target_of ` {d \<in> {c}. shareable d}" by blast
      then show ?thesis by auto
    qed auto
  qed
  have ws: "set ws' = set ws \<union> {ShareWarnNoFingerprint (ct_Alias d) | d. d \<in> set (c # cs) \<and> \<not> shareable d}" using step ih by auto
  show ?case
  proof (intro conjI)
    show "set ts' \<subseteq> set ts \<union> target_of ` {d \<in> set (c # cs). shareable d}" using tgt by (rule subsetI)
    show "ct_Fingerprint ` {d \<in> set (c # cs). shareable d} \<subseteq> sh_Fingerprint ` set ts'" by (rule image_subsetI) (use fp in blast)
    show "set ts \<subseteq> set ts'" using step sub by (meson order_trans)
  qed (use ih ws in simp_all)
qed simp

section \<open>Properties\<close>

text \<open>
  Resolution of several references: on success every reference that is not empty resolved, the
  recipients are exactly the locks they resolved to, each once, and there is at least one; if some
  reference resolves to nothing the whole call fails, so nobody is dropped silently.
\<close>

theorem ForEncryptMany_exact:
  "case ForEncryptMany tos cs entries f of
     Inr locks \<Rightarrow> distinct locks \<and> locks \<noteq> [] \<and> set locks = {l. \<exists>to\<in>set tos. to \<noteq> [] \<and> ForEncrypt to cs entries f = Inr l}
       \<and> (\<forall>to\<in>set tos. to \<noteq> [] \<longrightarrow> is_ok (ForEncrypt to cs entries f))
   | Inl e \<Rightarrow> list_all (\<lambda>to. to = []) tos \<or> (\<exists>to\<in>set tos. to \<noteq> [] \<and> ForEncrypt to cs entries f = Inl e)"
proof (cases "encrypt_refs cs entries f tos []")
  case (Inl e)
  have "\<exists>to\<in>set tos. to \<noteq> [] \<and> ForEncrypt to cs entries f = Inl e" if "encrypt_refs cs entries f tos ls = Inl e" for ls
    using that
  proof (induction tos arbitrary: ls)
    case (Cons to tos)
    then show ?case by (cases "ForEncrypt to cs entries f") (auto split: if_splits)
  qed simp
  with Inl show ?thesis by (simp add: ForEncryptMany_def)
next
  case (Inr locks)
  from encrypt_refs_Inr [OF this] have f: "distinct locks \<and> set locks = {l. \<exists>to\<in>set tos. to \<noteq> [] \<and> ForEncrypt to cs entries f = Inr l}
     \<and> (\<forall>to\<in>set tos. to \<noteq> [] \<longrightarrow> is_ok (ForEncrypt to cs entries f))" by simp
  then have "to = []" if "locks = []" "to \<in> set tos" for to using that by (metis (mono_tags, lifting) empty_iff list.set(1) mem_Collect_eq)
  then have "locks = [] \<Longrightarrow> list_all (\<lambda>to. to = []) tos" by (simp add: list_all_iff)
  with Inr f show ?thesis by (auto simp: ForEncryptMany_def)
qed

theorem ForEncryptMany_exact_witness:
  "case ForEncryptMany [''ann'', [], ''age1pq1x''] [zero_Contact\<lparr>ct_Alias := ''ann'', ct_EncPubKey := ''age1pq1x''\<rparr>] [] (\<lambda>idx. Inr []) of
     Inr locks \<Rightarrow> set locks = {''age1pq1x''} | Inl e \<Rightarrow> False"
proof -
  let ?cs = "[zero_Contact\<lparr>ct_Alias := ''ann'', ct_EncPubKey := ''age1pq1x''\<rparr>]" and ?f = "\<lambda>idx :: IdentityIndex. Inr [] :: bytes result"
  have "ForEncrypt ''ann'' ?cs [] ?f = Inr ''age1pq1x''" "ForEncrypt ''age1pq1x'' ?cs [] ?f = Inr ''age1pq1x''"
    by (simp_all add: ForEncrypt_def findContact_def FindByAlias_def found_def zero_Contact_def HasPrefix_def)
  with ForEncryptMany_exact [of "[''ann'', [], ''age1pq1x'']" ?cs "[]" ?f] show ?thesis
    by (auto split: sum.splits)
qed


text \<open>
  Group expansion drops nobody silently: a reference that is no contact and names a group
  contributes for each member either the member's lock or a warning; a reference that matches a
  contact, or nothing, is passed on as it is, so that a group never shadows a contact; and every
  recipient that comes out is such a reference (never the name of a group) or the lock of a member of a group named there.
\<close>

theorem ExpandGroups_complete:
  assumes "ExpandGroups tos gs cs = (out, ws)"
  shows "(\<forall>to\<in>set tos. to \<noteq> [] \<longrightarrow>
       (case (findContact cs to, Groups_FindByName gs to) of
          (None, Inr i) \<Rightarrow> \<forall>m\<in>set (g_MemberIDs (gs ! i)).
             (case member_lock cs (g_Name (gs ! i)) m of Inr l \<Rightarrow> l \<in> set out | Inl w \<Rightarrow> w \<in> set ws)
        | _ \<Rightarrow> to \<in> set out))
    \<and> (\<forall>r\<in>set out. (r \<in> set tos \<and> (findContact cs r \<noteq> None \<or> \<not> is_ok (Groups_FindByName gs r))) \<or> (\<exists>to\<in>set tos. \<exists>i. findContact cs to = None \<and> Groups_FindByName gs to = Inr i
         \<and> (\<exists>m\<in>set (g_MemberIDs (gs ! i)). member_lock cs (g_Name (gs ! i)) m = Inr r)))"
proof -
  let ?e = "expand_ref gs cs"
  from assms have out: "set out = (\<Union>to\<in>{t \<in> set tos. t \<noteq> []}. set (fst (?e to)))" and ws: "set ws = (\<Union>to\<in>{t \<in> set tos. t \<noteq> []}. set (snd (?e to)))"
    by (auto simp: ExpandGroups_def Let_def)
  have e: "case (findContact cs to, Groups_FindByName gs to) of
      (None, Inr i) \<Rightarrow> set (fst (?e to)) = {l. \<exists>m\<in>set (g_MemberIDs (gs ! i)). member_lock cs (g_Name (gs ! i)) m = Inr l}
        \<and> {w. \<exists>m\<in>set (g_MemberIDs (gs ! i)). member_lock cs (g_Name (gs ! i)) m = Inl w} \<subseteq> set (snd (?e to))
    | _ \<Rightarrow> fst (?e to) = [to]" for to
  proof (cases "findContact cs to = None \<and> is_ok (Groups_FindByName gs to)")
    case True
    then obtain i where i: "findContact cs to = None" "Groups_FindByName gs to = Inr i" by auto
    obtain ls vs where r: "expand_members cs (g_Name (gs ! i)) (g_MemberIDs (gs ! i)) = (ls, vs)"
      by (cases "expand_members cs (g_Name (gs ! i)) (g_MemberIDs (gs ! i))")
    from expand_members_spec [OF r] i r show ?thesis by (auto simp: expand_ref_def)
  next
    case False
    then show ?thesis by (auto simp: expand_ref_def split: option.splits sum.splits)
  qed
  have "case (findContact cs to, Groups_FindByName gs to) of
      (None, Inr i) \<Rightarrow> \<forall>m\<in>set (g_MemberIDs (gs ! i)). (case member_lock cs (g_Name (gs ! i)) m of Inr l \<Rightarrow> l \<in> set out | Inl w \<Rightarrow> w \<in> set ws)
    | _ \<Rightarrow> to \<in> set out" if "to \<in> set tos" "to \<noteq> []" for to
    using that e [of to] unfolding out ws by (fastforce split: option.splits sum.splits)
  moreover have "(r \<in> set tos \<and> (findContact cs r \<noteq> None \<or> \<not> is_ok (Groups_FindByName gs r))) \<or> (\<exists>to\<in>set tos. \<exists>i. findContact cs to = None \<and> Groups_FindByName gs to = Inr i
         \<and> (\<exists>m\<in>set (g_MemberIDs (gs ! i)). member_lock cs (g_Name (gs ! i)) m = Inr r))" if "r \<in> set out" for r
  proof -
    from that obtain to where to: "to \<in> set tos" "r \<in> set (fst (?e to))" by (auto simp: out)
    show ?thesis
    proof (cases "findContact cs to = None \<and> is_ok (Groups_FindByName gs to)")
      case True
      then obtain i where i: "findContact cs to = None" "Groups_FindByName gs to = Inr i" by auto
      with e [of to] to(2) obtain m where "m \<in> set (g_MemberIDs (gs ! i))" "member_lock cs (g_Name (gs ! i)) m = Inr r" by auto
      with i to(1) show ?thesis by blast
    next
      case False
      with e [of to] to show ?thesis by (auto split: option.splits sum.splits)
    qed
  qed
  ultimately show ?thesis by blast
qed

theorem ExpandGroups_complete_witness:
  "\<exists>out ws. ExpandGroups [''friends''] [sample_group [''IC-0'', ''IC-9'']] [zero_Contact\<lparr>ct_ID := ''IC-0'', ct_EncPubKey := ''age1pq1x''\<rparr>] = (out, ws)
     \<and> ''age1pq1x'' \<in> set out \<and> EncryptWarnMissingMember ''friends'' \<in> set ws"
proof -
  let ?cs = "[zero_Contact\<lparr>ct_ID := ''IC-0'', ct_EncPubKey := ''age1pq1x''\<rparr>]" and ?g = "sample_group [''IC-0'', ''IC-9'']"
  obtain out ws where r: "ExpandGroups [''friends''] [?g] ?cs = (out, ws)" by (cases "ExpandGroups [''friends''] [?g] ?cs")
  have "findContact ?cs ''friends'' = None" "Groups_FindByName [?g] ''friends'' = Inr 0"
    by (simp_all add: findContact_def FindByAlias_def FindByEmailOrNickname_def zero_Contact_def found_def Groups_FindByName_def sample_group_def)
  moreover have "member_lock ?cs ''friends'' ''IC-0'' = Inr ''age1pq1x''" "member_lock ?cs ''friends'' ''IC-9'' = Inl (EncryptWarnMissingMember ''friends'')"
    by (simp_all add: member_lock_def Contacts_FindByID_def found_def)
  ultimately show ?thesis using ExpandGroups_complete [OF r] r by (simp add: sample_group_def)
qed

text \<open>
  A cloud share goes to everyone it can: on success there is a target, no fingerprint occurs
  twice, every target is a contact that a reference stands for and that has a lock and a fingerprint,
  and every contact a reference stands for has its fingerprint among the targets, or a warning if
  it has no lock or no fingerprint.
\<close>

theorem ForShareMany_reaches:
  assumes "ForShareMany cs gs tos = (ts, ws, Inr ())"
  shows "ts \<noteq> [] \<and> distinct (map sh_Fingerprint ts)
    \<and> (\<forall>t\<in>set ts. \<exists>to\<in>set tos. \<exists>c\<in>set (named_contacts cs gs to). shareable c \<and> t = target_of c)
    \<and> (\<forall>to\<in>set tos. to \<noteq> [] \<longrightarrow> (\<forall>c\<in>set (named_contacts cs gs to).
         if shareable c then ct_Fingerprint c \<in> sh_Fingerprint ` set ts else ShareWarnNoFingerprint (ct_Alias c) \<in> set ws))"
proof -
  let ?ns = "concat (map (named_contacts cs gs) (filter (\<lambda>to. to \<noteq> []) tos))"
  from assms have r: "share_refs cs gs tos ([], []) = Inr (ts, ws)" and ne: "ts \<noteq> []"
    by (auto simp: ForShareMany_def split: sum.splits prod.splits if_splits)
  from share_contact_fold [OF share_refs_fold [OF r, symmetric]]
  have d: "distinct (map sh_Fingerprint ts)" and t: "set ts \<subseteq> target_of ` {c \<in> set ?ns. shareable c}"
    and fp: "ct_Fingerprint ` {c \<in> set ?ns. shareable c} \<subseteq> sh_Fingerprint ` set ts"
    and ws: "set ws = {ShareWarnNoFingerprint (ct_Alias c) | c. c \<in> set ?ns \<and> \<not> shareable c}" by simp_all
  have n: "set ?ns = {c. \<exists>to\<in>set tos. to \<noteq> [] \<and> c \<in> set (named_contacts cs gs to)}" by auto
  have "\<exists>to\<in>set tos. \<exists>c\<in>set (named_contacts cs gs to). shareable c \<and> t = target_of c" if "t \<in> set ts" for t
  proof -
    from t that obtain c where "c \<in> set ?ns" "shareable c" "t = target_of c" by blast
    then show ?thesis unfolding n by blast
  qed
  moreover have "if shareable c then ct_Fingerprint c \<in> sh_Fingerprint ` set ts else ShareWarnNoFingerprint (ct_Alias c) \<in> set ws"
    if "to \<in> set tos" "to \<noteq> []" "c \<in> set (named_contacts cs gs to)" for to c
  proof -
    from that have "c \<in> set ?ns" unfolding n by blast
    with fp ws show ?thesis by (cases "shareable c") (simp_all only: if_True if_False, blast+)
  qed
  ultimately show ?thesis using d ne by blast
qed

theorem ForShareMany_reaches_witness:
  "\<exists>ts ws. ForShareMany [zero_Contact\<lparr>ct_ID := ''IC-0'', ct_EncPubKey := ''age1pq1x'', ct_Fingerprint := ''ab''\<rparr>]
       [sample_group [''IC-0'', ''IC-9'']] [''friends''] = (ts, ws, Inr ()) \<and> ''ab'' \<in> sh_Fingerprint ` set ts"
proof -
  let ?c = "zero_Contact\<lparr>ct_ID := ''IC-0'', ct_EncPubKey := ''age1pq1x'', ct_Fingerprint := ''ab''\<rparr>" and ?g = "sample_group [''IC-0'', ''IC-9'']"
  have n: "findContact [?c] ''friends'' = None" "Groups_FindByName [?g] ''friends'' = Inr 0"
    by (simp_all add: findContact_def FindByAlias_def FindByEmailOrNickname_def zero_Contact_def found_def Groups_FindByName_def sample_group_def)
  then have r: "ForShareMany [?c] [?g] [''friends''] = ([target_of ?c], [], Inr ())"
    by (simp add: ForShareMany_def share_member_def share_contact_def share_add_def shareable_def Contacts_FindByID_def found_def sample_group_def target_of_def)
  have "?c \<in> set (named_contacts [?c] [?g] ''friends'')" using n by (simp add: named_contacts_def member_contact_def Contacts_FindByID_def found_def sample_group_def)
  with ForShareMany_reaches [OF r] have "''ab'' \<in> sh_Fingerprint ` set [target_of ?c]" by (auto simp: shareable_def)
  with r show ?thesis by blast
qed

end
