(* ===== verification/Icfx_Cloud.thy ===== *)
theory Icfx_Cloud
  imports Icfx_Identity Icfx_Groups "HOL-Library.Sublist"
begin

text \<open>
  Package cloud, the part that talks about encrypted blobs: structured errors, blobs and the op log as
  the client sees them, sealing to the own lock, and the two ways to converge a blob with the cloud,
  merge and last writer wins. The remote service is a parameter: \<open>Service\<close> has one function for each
  request, which takes the state of the service to a new one (other devices may act in between) and
  answers or fails; the HTTP exchange and its JSON are behind it. What the client relies on is stated
  as \<open>blob_service\<close>. The map of versions is a function that is 0 where Go's map has no entry.
\<close>

section \<open>Errors\<close>

text \<open>errors.As with a target of type *Error: the first structured error of the chain.\<close>

fun as_Error :: "go_error \<Rightarrow> (nat \<times> string \<times> int) option" where
  "as_Error (APIError status code ver) = Some (status, code, ver)"
| "as_Error (Wrap m e) = as_Error e"
| "as_Error _ = None"

definition has_status :: "nat \<Rightarrow> go_error \<Rightarrow> bool" where
  "has_status n e = (case as_Error e of Some (status, _) \<Rightarrow> status = n | None \<Rightarrow> False)"

definition has_code :: "string \<Rightarrow> go_error \<Rightarrow> bool" where
  "has_code c e = (case as_Error e of Some (_, code, _) \<Rightarrow> code = c | None \<Rightarrow> False)"

definition IsConflict where "IsConflict = has_status 409"

definition IsUnauthorized where "IsUnauthorized = has_status 401"

definition IsNotFound where "IsNotFound = has_status 404"

definition IsPaymentRequired where "IsPaymentRequired = has_status 402"

definition IsDeviceLimit where "IsDeviceLimit = has_code ''device_limit_reached''"

definition IsAlreadySubscribed where "IsAlreadySubscribed = has_code ''subscription_exists''"

definition CurrentVersionFromConflict :: "go_error \<Rightarrow> int \<times> bool" where
  "CurrentVersionFromConflict e = (case as_Error e of
     Some (status, _, ver) \<Rightarrow> (if status \<noteq> 409 then (0, False) else (ver, True)) | None \<Rightarrow> (0, False))"

section \<open>The service\<close>

record AppendedOps =
  ao_FirstSeq :: int
  ao_LastSeq :: int

record Op =
  op_Seq :: int
  op_Ciphertext :: bytes

text \<open>
  The requests: PUT and GET of a blob, GET of a page of the op log after a sequence number (with
  has_more), POST of ops, POST of a compaction, GET of the plan (the limit of contacts). Ciphertexts
  travel in base64.
\<close>

record 's Service =
  sv_putBlob :: "'s \<Rightarrow> bytes \<Rightarrow> bytes \<Rightarrow> int \<Rightarrow> 's \<times> int result"
  sv_getBlob :: "'s \<Rightarrow> bytes \<Rightarrow> 's \<times> (int \<times> bytes) result"
  sv_ops :: "'s \<Rightarrow> bytes \<Rightarrow> int \<Rightarrow> 's \<times> ((int \<times> bytes) list \<times> bool) result"
  sv_appendOps :: "'s \<Rightarrow> bytes \<Rightarrow> bytes list \<Rightarrow> 's \<times> AppendedOps result"
  sv_compactOps :: "'s \<Rightarrow> bytes \<Rightarrow> bytes \<Rightarrow> int \<Rightarrow> int \<Rightarrow> 's \<times> int result"
  sv_maxContacts :: "'s \<Rightarrow> 's \<times> int result"

section \<open>Blobs\<close>

record Blob =
  bl_Ciphertext :: bytes
  bl_Version :: int

definition PutBlob :: "'s Service \<Rightarrow> bytes \<Rightarrow> bytes \<Rightarrow> int \<Rightarrow> 's \<Rightarrow> 's \<times> int result" where
  "PutBlob sv name ciphertext prevVersion s = sv_putBlob sv s name (b64_encode ciphertext) prevVersion"

definition GetBlob :: "'s Service \<Rightarrow> bytes \<Rightarrow> 's \<Rightarrow> 's \<times> Blob result" where
  "GetBlob sv name s = sbind (sv_getBlob sv s name) (\<lambda>(ver, ct64) s.
     (s, case b64_decode ct64 of
           Inl _ \<Rightarrow> Inl (APIError 500 ''decode'' 0)
         | Inr ct \<Rightarrow> Inr \<lparr>bl_Ciphertext = ct, bl_Version = ver\<rparr>))"

section \<open>Sealing to the own lock\<close>

record SelfCrypter =
  sc_EncryptToSelf :: "bytes \<Rightarrow> bytes \<Rightarrow> bytes result"
  sc_Decrypt :: "bytes \<Rightarrow> bytes result"

definition Unlocked_SelfCrypter :: "prims \<Rightarrow> Unlocked \<Rightarrow> SelfCrypter" where
  "Unlocked_SelfCrypter P u = \<lparr>sc_EncryptToSelf = (\<lambda>rnd. EncryptToSelf P rnd u), sc_Decrypt = Unlocked_Decrypt P u\<rparr>"

definition SealBlob :: "'s Service \<Rightarrow> SelfCrypter \<Rightarrow> bytes \<Rightarrow> bytes \<Rightarrow> bytes \<Rightarrow> int \<Rightarrow> 's \<Rightarrow> 's \<times> int result" where
  "SealBlob sv u rnd name plaintext prevVersion s =
     (case sc_EncryptToSelf u rnd plaintext of
        Inl e \<Rightarrow> (s, Inl (Wrap ''seal %q: %w'' e))
      | Inr ct \<Rightarrow> PutBlob sv name ct prevVersion s)"

definition OpenBlob :: "'s Service \<Rightarrow> SelfCrypter \<Rightarrow> bytes \<Rightarrow> 's \<Rightarrow> 's \<times> (bytes \<times> int) result" where
  "OpenBlob sv u name s = sbind (GetBlob sv name s) (\<lambda>blob s.
     (s, case sc_Decrypt u (bl_Ciphertext blob) of
           Inl e \<Rightarrow> Inl (Wrap ''open %q: %w'' e)
         | Inr plaintext \<Rightarrow> Inr (plaintext, bl_Version blob)))"

section \<open>Converging by merge\<close>

type_synonym MergeFunc = "bytes \<Rightarrow> bytes \<Rightarrow> bytes result"

definition mergeBlobMaxAttempts :: nat where "mergeBlobMaxAttempts = 5"

text \<open>The remaining attempts; \<open>rnd k\<close> is the randomness of the attempt.\<close>

fun merge_attempts ::
    "'s Service \<Rightarrow> SelfCrypter \<Rightarrow> (nat \<Rightarrow> bytes) \<Rightarrow> bytes \<Rightarrow> MergeFunc \<Rightarrow> nat \<Rightarrow> bytes \<Rightarrow> 's \<Rightarrow> 's \<times> bytes result" where
  "merge_attempts sv u rnd name merge 0 local s = (s, Inl (Errorf ''sync %q: too many version conflicts''))"
| "merge_attempts sv u rnd name merge (Suc k) local s =
     (case OpenBlob sv u name s of
        (s1, Inl e) \<Rightarrow>
          (if \<not> IsNotFound e then (s1, Inl e)
           else case SealBlob sv u (rnd k) name local 0 s1 of
               (s2, Inr _) \<Rightarrow> (s2, Inr local)
             | (s2, Inl e) \<Rightarrow> if IsConflict e then merge_attempts sv u rnd name merge k local s2 else (s2, Inl e))
      | (s1, Inr (remote, ver)) \<Rightarrow>
          (case merge local remote of
             Inl e \<Rightarrow> (s1, Inl (Wrap ''merge %q: %w'' e))
           | Inr merged \<Rightarrow>
               if merged = remote then (s1, Inr merged)
               else case SealBlob sv u (rnd k) name merged ver s1 of
                   (s2, Inr _) \<Rightarrow> (s2, Inr merged)
                 | (s2, Inl e) \<Rightarrow> if IsConflict e then merge_attempts sv u rnd name merge k merged s2 else (s2, Inl e)))"

definition SyncMergedBlob ::
    "'s Service \<Rightarrow> SelfCrypter \<Rightarrow> (nat \<Rightarrow> bytes) \<Rightarrow> bytes \<Rightarrow> bytes \<Rightarrow> MergeFunc \<Rightarrow> 's \<Rightarrow> 's \<times> bytes result" where
  "SyncMergedBlob sv u rnd name local merge s = merge_attempts sv u rnd name merge mergeBlobMaxAttempts local s"

definition SyncPushedNew :: bytes where "SyncPushedNew = ''pushed-new''"

definition SyncPushed :: bytes where "SyncPushed = ''pushed''"

definition SyncPulled :: bytes where "SyncPulled = ''pulled''"

definition SyncUpToDate :: bytes where "SyncUpToDate = ''up-to-date''"

definition SyncSynced :: bytes where "SyncSynced = ''synced''"

text \<open>The machine fields of an outcome; message, level and skip reason are presentation.\<close>

record SyncOutcome =
  oc_Resource :: bytes
  oc_Action :: bytes
  oc_Version :: int
  oc_CloudWasNewer :: bool

definition syncGroupsBlob ::
    "'s Service \<Rightarrow> SelfCrypter \<Rightarrow> (nat \<Rightarrow> bytes) \<Rightarrow> bytes \<Rightarrow> 's \<times> disk \<Rightarrow> ('s \<times> disk) \<times> SyncOutcome result" where
  "syncGroupsBlob sv u rnd path sd =
     (case sd of (s, d) \<Rightarrow>
      (case Groups_SyncBytes path d of Inl e \<Rightarrow> ((s, d), Inl e)
       | Inr local \<Rightarrow>
         (case SyncMergedBlob sv u rnd ''groups'' local MergeGroups s of
            (s', Inl e) \<Rightarrow> ((s', d), Inl e)
          | (s', Inr merged) \<Rightarrow>
            (case Groups_ApplyMerged path merged d of
               (d', Inl e) \<Rightarrow> ((s', d'), Inl e)
             | (d', Inr _) \<Rightarrow>
               ((s', d'), Inr \<lparr>oc_Resource = ''groups'', oc_Action = SyncSynced, oc_Version = 0, oc_CloudWasNewer = False\<rparr>)))))"

section \<open>Converging by last writer\<close>

record 'h ResourceIO =
  io_Load :: "'h \<Rightarrow> bytes \<Rightarrow> bytes result"
  io_Apply :: "'h \<Rightarrow> bytes \<Rightarrow> bytes \<Rightarrow> 'h \<times> unit result"

type_synonym versions = "bytes \<Rightarrow> int"

definition applyPulled ::
    "bytes \<Rightarrow> 'h ResourceIO \<Rightarrow> bytes \<Rightarrow> int \<Rightarrow> bool \<Rightarrow> 's \<times> 'h \<times> versions \<Rightarrow> ('s \<times> 'h \<times> versions) \<times> SyncOutcome result" where
  "applyPulled resource io cloudBytes cloudVer hadBaseline st =
     (case st of (s, h, vs) \<Rightarrow>
      (case io_Apply io h resource cloudBytes of
         (h', Inl e) \<Rightarrow> ((s, h', vs), Inl e)
       | (h', Inr _) \<Rightarrow> ((s, h', vs(resource := cloudVer)),
           Inr \<lparr>oc_Resource = resource, oc_Action = SyncPulled, oc_Version = cloudVer, oc_CloudWasNewer = hadBaseline\<rparr>)))"

definition pullResource ::
    "'s Service \<Rightarrow> SelfCrypter \<Rightarrow> bytes \<Rightarrow> 'h ResourceIO \<Rightarrow> bool \<Rightarrow> 's \<times> 'h \<times> versions \<Rightarrow> ('s \<times> 'h \<times> versions) \<times> SyncOutcome result" where
  "pullResource sv u resource io hadBaseline st =
     (case st of (s, h, vs) \<Rightarrow>
      (case OpenBlob sv u resource s of
         (s', Inl e) \<Rightarrow> ((s', h, vs), Inl e)
       | (s', Inr (cloudBytes, cloudVer)) \<Rightarrow> applyPulled resource io cloudBytes cloudVer hadBaseline (s', h, vs)))"

definition SyncResource ::
    "'s Service \<Rightarrow> SelfCrypter \<Rightarrow> bytes \<Rightarrow> bytes \<Rightarrow> 'h ResourceIO \<Rightarrow> 's \<times> 'h \<times> versions \<Rightarrow> ('s \<times> 'h \<times> versions) \<times> SyncOutcome result" where
  "SyncResource sv u rnd resource io st =
     (case st of (s, h, vs) \<Rightarrow>
      (case io_Load io h resource of Inl e \<Rightarrow> ((s, h, vs), Inl e)
       | Inr localBytes \<Rightarrow>
      (case OpenBlob sv u resource s of
         (s1, Inl e) \<Rightarrow>
           (if \<not> IsNotFound e then ((s1, h, vs), Inl e)
            else case SealBlob sv u rnd resource localBytes 0 s1 of
                (s2, Inl e) \<Rightarrow> ((s2, h, vs), Inl e)
              | (s2, Inr ver) \<Rightarrow> ((s2, h, vs(resource := ver)),
                  Inr \<lparr>oc_Resource = resource, oc_Action = SyncPushedNew, oc_Version = ver, oc_CloudWasNewer = False\<rparr>))
       | (s1, Inr (cloudBytes, cloudVer)) \<Rightarrow>
           let lastVer = vs resource in
           if localBytes = cloudBytes then ((s1, h, vs(resource := cloudVer)),
             Inr \<lparr>oc_Resource = resource, oc_Action = SyncUpToDate, oc_Version = cloudVer, oc_CloudWasNewer = False\<rparr>)
           else if lastVer \<noteq> 0 \<and> cloudVer = lastVer then
             (case SealBlob sv u rnd resource localBytes cloudVer s1 of
                (s2, Inl e) \<Rightarrow>
                  (if IsConflict e then pullResource sv u resource io True (s2, h, vs) else ((s2, h, vs), Inl e))
              | (s2, Inr ver) \<Rightarrow> ((s2, h, vs(resource := ver)),
                  Inr \<lparr>oc_Resource = resource, oc_Action = SyncPushed, oc_Version = ver, oc_CloudWasNewer = False\<rparr>))
           else applyPulled resource io cloudBytes cloudVer (lastVer \<noteq> 0) (s1, h, vs))))"

section \<open>What the client relies on\<close>

text \<open>
  The own lock opens what was sealed to it. The blob store keeps, for each name, the versions written
  so far: a request may find that other devices have added some; reading gives the latest; writing
  succeeds only on top of the version it names (0: none) and adds one; versions are never reused.
\<close>

definition sc_correct :: "SelfCrypter \<Rightarrow> bool" where
  "sc_correct u \<longleftrightarrow> (\<forall>rnd m c. sc_EncryptToSelf u rnd m = Inr c \<longrightarrow> sc_Decrypt u c = Inr m)"

definition latest :: "(int \<times> bytes) list \<Rightarrow> int" where
  "latest h = (if h = [] then 0 else fst (last h))"

definition blob_service :: "'s Service \<Rightarrow> ('s \<Rightarrow> bytes \<Rightarrow> (int \<times> bytes) list) \<Rightarrow> bool" where
  "blob_service sv hist \<longleftrightarrow>
     (\<forall>s name s' r. sv_getBlob sv s name = (s', r) \<longrightarrow> prefix (hist s name) (hist s' name)
        \<and> (case r of Inr (ver, ct64) \<Rightarrow> \<exists>h ct. hist s' name = h @ [(ver, ct)] \<and> ct64 = b64_encode ct
           | Inl e \<Rightarrow> IsNotFound e \<longrightarrow> hist s' name = []))
     \<and> (\<forall>s name ct prev s' r. sv_putBlob sv s name (b64_encode ct) prev = (s', r) \<longrightarrow> prefix (hist s name) (hist s' name)
        \<and> (\<forall>ver. r = Inr ver \<longrightarrow> (\<exists>h. prefix (hist s name) h \<and> prev = latest h \<and> hist s' name = h @ [(ver, ct)])))
     \<and> (\<forall>s name. distinct (map fst (hist s name)) \<and> 0 \<notin> fst ` set (hist s name))"

section \<open>Lemmas\<close>

lemma Unlocked_SelfCrypter_correct:
  assumes "age_correct P" "open_enc P u = Inr k" "ParseHybridIdentity P k = Inr i" "id_EncPubKey (u_info u) = Recipient_String P i"
  shows "sc_correct (Unlocked_SelfCrypter P u)"
  using assms Encrypt_Decrypt(2) [OF assms(1) _ assms(3)]
  by (auto simp: sc_correct_def Unlocked_SelfCrypter_def EncryptToSelf_def Unlocked_Decrypt_def split: if_splits)

lemma blob_versions: "blob_service sv hist \<Longrightarrow> distinct (map fst (hist s name)) \<and> 0 \<notin> fst ` set (hist s name)"
  unfolding blob_service_def by blast

lemma OpenBlob_request:
  "OpenBlob sv u name s = (case sv_getBlob sv s name of (s', Inl e) \<Rightarrow> (s', Inl e)
     | (s', Inr (ver, ct64)) \<Rightarrow> (s', case b64_decode ct64 of Inl _ \<Rightarrow> Inl (APIError 500 ''decode'' 0)
         | Inr ct \<Rightarrow> (case sc_Decrypt u ct of Inl e \<Rightarrow> Inl (Wrap ''open %q: %w'' e) | Inr pt \<Rightarrow> Inr (pt, ver))))"
  by (auto simp: OpenBlob_def GetBlob_def sbind_def split: prod.split sum.split)

lemma OpenBlob_ok:
  assumes "blob_service sv hist" "OpenBlob sv u name s = (s', Inr (pt, ver))"
  shows "prefix (hist s name) (hist s' name) \<and> (\<exists>h ct. hist s' name = h @ [(ver, ct)] \<and> sc_Decrypt u ct = Inr pt)"
proof -
  from assms(2) obtain ct64 ct where g: "sv_getBlob sv s name = (s', Inr (ver, ct64))" "b64_decode ct64 = Inr ct" "sc_Decrypt u ct = Inr pt"
    unfolding OpenBlob_request by (auto split: prod.splits sum.splits)
  from assms(1) g(1) have "prefix (hist s name) (hist s' name) \<and> (\<exists>h ct. hist s' name = h @ [(ver, ct)] \<and> ct64 = b64_encode ct)"
    unfolding blob_service_def by fastforce
  with g(2,3) show ?thesis by auto
qed

lemma OpenBlob_err:
  assumes "blob_service sv hist" "OpenBlob sv u name s = (s', Inl e)"
  shows "prefix (hist s name) (hist s' name)"
proof -
  obtain r where "sv_getBlob sv s name = (s', r)"
    using assms(2) unfolding OpenBlob_request by (auto split: prod.splits sum.splits)
  with assms(1) show ?thesis unfolding blob_service_def by blast
qed

lemma SealBlob_err:
  assumes "blob_service sv hist" "SealBlob sv u rnd name m prev s = (s', Inl e)"
  shows "prefix (hist s name) (hist s' name)"
  using assms unfolding blob_service_def SealBlob_def PutBlob_def by (auto split: sum.splits)

lemma SealBlob_ok:
  assumes "blob_service sv hist" "sc_correct u" "SealBlob sv u rnd name m prev s = (s', Inr ver)"
  shows "\<exists>h ct. prefix (hist s name) h \<and> prev = latest h \<and> hist s' name = h @ [(ver, ct)] \<and> sc_Decrypt u ct = Inr m"
proof -
  from assms(3) obtain ct where c: "sc_EncryptToSelf u rnd m = Inr ct" "sv_putBlob sv s name (b64_encode ct) prev = (s', Inr ver)"
    by (auto simp: SealBlob_def PutBlob_def split: sum.splits)
  moreover have "sc_Decrypt u ct = Inr m" using assms(2) c(1) unfolding sc_correct_def by blast
  ultimately show ?thesis using assms(1) unfolding blob_service_def by blast
qed

text \<open>A write on top of a version that was read replaces exactly what was read.\<close>

lemma SealBlob_on_top:
  assumes "blob_service sv hist" "sc_correct u" "hist s name = h @ [(prev, ct0)]" "SealBlob sv u rnd name m prev s = (s', Inr ver)"
  shows "\<exists>ct. hist s' name = h @ [(prev, ct0), (ver, ct)] \<and> sc_Decrypt u ct = Inr m"
proof -
  from SealBlob_ok [OF assms(1,2,4)] assms(3) obtain t ct where t: "hist s' name = (h @ [(prev, ct0)] @ t) @ [(ver, ct)]"
      "prev = latest (h @ [(prev, ct0)] @ t)" "sc_Decrypt u ct = Inr m" by (auto simp: prefix_def)
  have "distinct (map fst (hist s' name))" using blob_versions [OF assms(1)] by blast
  then have "t = []" using t(1,2) by (cases t rule: rev_cases) (auto simp: latest_def)
  with t show ?thesis by simp
qed

lemma SealBlob_first:
  assumes "blob_service sv hist" "sc_correct u" "SealBlob sv u rnd name m 0 s = (s', Inr ver)"
  shows "\<exists>ct. hist s' name = [(ver, ct)] \<and> sc_Decrypt u ct = Inr m \<and> hist s name = []"
proof -
  from SealBlob_ok [OF assms] obtain h ct where h: "prefix (hist s name) h" "0 = latest h" "hist s' name = h @ [(ver, ct)]" "sc_Decrypt u ct = Inr m"
    by blast
  have "0 \<notin> fst ` set (hist s' name)" using blob_versions [OF assms(1)] by blast
  with h(2,3) have "h = []" by (cases h rule: rev_cases) (auto simp: latest_def)
  with h show ?thesis by simp
qed

text \<open>Other devices keep a property of the history of a blob: what they add between the requests respects it.\<close>

definition others_keep :: "'s Service \<Rightarrow> ('s \<Rightarrow> bytes \<Rightarrow> (int \<times> bytes) list) \<Rightarrow> bytes \<Rightarrow> ((int \<times> bytes) list \<Rightarrow> bool) \<Rightarrow> bool" where
  "others_keep sv hist name Q \<longleftrightarrow>
     (\<forall>s s' r. sv_getBlob sv s name = (s', r) \<longrightarrow> Q (hist s name) \<longrightarrow> Q (hist s' name))
     \<and> (\<forall>s ct prev s' r. sv_putBlob sv s name (b64_encode ct) prev = (s', r) \<longrightarrow> Q (hist s name) \<longrightarrow>
          (case r of Inl _ \<Rightarrow> Q (hist s' name) | Inr _ \<Rightarrow> Q (butlast (hist s' name))))"

lemma OpenBlob_keeps:
  assumes "others_keep sv hist name Q" "Q (hist s name)" "OpenBlob sv u name s = (s', r)"
  shows "Q (hist s' name)"
proof -
  obtain r' where "sv_getBlob sv s name = (s', r')" using assms(3) unfolding OpenBlob_request by (auto split: prod.splits sum.splits)
  with assms(1,2) show ?thesis unfolding others_keep_def by blast
qed

lemma SealBlob_keeps:
  assumes "others_keep sv hist name Q" "Q (hist s name)" "SealBlob sv u rnd name m prev s = (s', r)"
  shows "case r of Inl _ \<Rightarrow> Q (hist s' name) | Inr _ \<Rightarrow> Q (butlast (hist s' name))"
proof (cases "sc_EncryptToSelf u rnd m")
  case (Inr ct)
  with assms(3) have "sv_putBlob sv s name (b64_encode ct) prev = (s', r)" by (simp add: SealBlob_def PutBlob_def)
  with assms(1,2) show ?thesis unfolding others_keep_def by blast
qed (use assms in \<open>auto simp: SealBlob_def\<close>)

section \<open>The contract of a merge\<close>

text \<open>
  What a merge has to promise so that devices that read, merge and write converge: a property \<open>keeps\<close>
  of the versions of the blob and a property \<open>good\<close> of a local state. A good state may be the first
  version; merged with the latest version it is good again and may be written on top of it; if the
  latest version already is the merged state, the local state is that version.
\<close>

locale blob_merge =
  fixes u :: SelfCrypter
    and merge :: MergeFunc
    and good :: "bytes \<Rightarrow> bool"
    and keeps :: "(int \<times> bytes) list \<Rightarrow> bool"
  assumes first_version: "good l \<Longrightarrow> sc_Decrypt u ct = Inr l \<Longrightarrow> keeps [(ver, ct)]"
    and merged_good: "keeps (h @ [(ver, ct)]) \<Longrightarrow> sc_Decrypt u ct = Inr r \<Longrightarrow> good l \<Longrightarrow> merge l r = Inr m \<Longrightarrow> good m"
    and next_version: "keeps (h @ [(ver, ct)]) \<Longrightarrow> sc_Decrypt u ct = Inr r \<Longrightarrow> good l \<Longrightarrow> merge l r = Inr m \<Longrightarrow>
      sc_Decrypt u ct' = Inr m \<Longrightarrow> keeps (h @ [(ver, ct), (ver', ct')])"
begin

lemma attempts_keep:
  assumes "blob_service sv hist" "sc_correct u" "others_keep sv hist name keeps"
    and "merge_attempts sv u rnd name merge k l s = (s', Inr m)" "good l" "keeps (hist s name)"
  shows "keeps (hist s' name) \<and> good m \<and> (\<exists>h ver ct. hist s' name = h @ [(ver, ct)] \<and> sc_Decrypt u ct = Inr m)"
  using assms(4-6)
proof (induction k arbitrary: l s)
  case (Suc k)
  obtain s1 o1 where op: "OpenBlob sv u name s = (s1, o1)" by (cases "OpenBlob sv u name s")
  have k1: "keeps (hist s1 name)" using OpenBlob_keeps [OF assms(3) Suc.prems(3) op] .
  show ?case
  proof (cases o1)
    case (Inl e)
    obtain s2 o2 where seal: "SealBlob sv u (rnd k) name l 0 s1 = (s2, o2)" by (cases "SealBlob sv u (rnd k) name l 0 s1")
    note k2 = SealBlob_keeps [OF assms(3) k1 seal]
    show ?thesis
    proof (cases o2)
      case (Inr ver)
      with Suc.prems(1) op Inl seal have r: "s' = s2" "m = l" by (auto split: if_splits)
      from SealBlob_first [OF assms(1,2) seal [unfolded Inr]] first_version [OF Suc.prems(2)] r Suc.prems(2) show ?thesis by auto
    next
      case (Inl e2)
      with Suc.prems(1) op \<open>o1 = Inl e\<close> seal have "merge_attempts sv u rnd name merge k l s2 = (s', Inr m)" by (auto split: if_splits)
      then show ?thesis using Suc.IH Suc.prems(2) k2 Inl by simp
    qed
  next
    case (Inr rv)
    with op obtain r ver where op: "OpenBlob sv u name s = (s1, Inr (r, ver))" by (cases rv) simp
    from OpenBlob_ok [OF assms(1) this] obtain h ct where h: "hist s1 name = h @ [(ver, ct)]" "sc_Decrypt u ct = Inr r" by blast
    from Suc.prems(1) op obtain x where x: "merge l r = Inr x" by (auto split: sum.splits)
    have g: "good x" using merged_good k1 h Suc.prems(2) x by metis
    obtain s2 o2 where seal: "SealBlob sv u (rnd k) name x ver s1 = (s2, o2)" by (cases "SealBlob sv u (rnd k) name x ver s1")
    note k2 = SealBlob_keeps [OF assms(3) k1 seal]
    show ?thesis
    proof (cases "x = r")
      case True
      with Suc.prems(1) op x have "s' = s1" "m = r" by auto
      with True g k1 h show ?thesis by auto
    next
      case neq: False
      show ?thesis
      proof (cases o2)
        case (Inr ver2)
        with Suc.prems(1) op x neq seal have r: "s' = s2" "m = x" by auto
        from SealBlob_on_top [OF assms(1,2) h(1) seal [unfolded Inr]] obtain ct2
          where h2: "hist s2 name = h @ [(ver, ct), (ver2, ct2)]" "sc_Decrypt u ct2 = Inr x" by auto
        have "keeps (hist s2 name)" using next_version k1 h h2 Suc.prems(2) x by metis
        with r g h2 show ?thesis by (auto intro: exI [of _ "h @ [(ver, ct)]"])
      next
        case (Inl e2)
        with Suc.prems(1) op x neq seal have "merge_attempts sv u rnd name merge k x s2 = (s', Inr m)" by (auto split: if_splits)
        then show ?thesis using Suc.IH g k2 Inl by simp
      qed
    qed
  qed
qed simp

lemma SyncMergedBlob_keeps:
  assumes "blob_service sv hist" "sc_correct u" "others_keep sv hist name keeps" "good l" "keeps (hist s name)"
    and "SyncMergedBlob sv u rnd name l merge s = (s', Inr m)"
  shows "keeps (hist s' name) \<and> good m \<and> (\<exists>h ver ct. hist s' name = h @ [(ver, ct)] \<and> sc_Decrypt u ct = Inr m)"
  using attempts_keep [OF assms(1-3) assms(6) [unfolded SyncMergedBlob_def] assms(4,5)] .

end

text \<open>Groups: every version opens to a view, and no version knows less than an earlier one.\<close>

definition version_view :: "SelfCrypter \<Rightarrow> int \<times> bytes \<Rightarrow> groupData option" where
  "version_view u v = (case sc_Decrypt u (snd v) of Inl _ \<Rightarrow> None
     | Inr p \<Rightarrow> (case parse_groups p of Inl _ \<Rightarrow> None | Inr b \<Rightarrow> (if wf_groupData b then Some b else None)))"

definition knows_less :: "groupData \<Rightarrow> groupData \<Rightarrow> bool" where
  "knows_less a b \<longleftrightarrow> (\<forall>i. gview a i \<le> gview b i)"

definition growing_views :: "SelfCrypter \<Rightarrow> (int \<times> bytes) list \<Rightarrow> bool" where
  "growing_views u h \<longleftrightarrow> (\<forall>v\<in>set h. version_view u v \<noteq> None)
     \<and> sorted_wrt (\<lambda>v w. knows_less (the (version_view u v)) (the (version_view u w))) h"

definition view_above :: "groupData \<Rightarrow> bytes \<Rightarrow> bool" where
  "view_above a m \<longleftrightarrow> (\<exists>c. parse_groups m = Inr c \<and> wf_groupData c \<and> gd_Version c = storeVersion \<and> knows_less a c)"

lemma knows_less_refl [simp]: "knows_less a a" by (simp add: knows_less_def)

lemma knows_less_trans: "knows_less a b \<Longrightarrow> knows_less b c \<Longrightarrow> knows_less a c"
  unfolding knows_less_def by (meson order_trans)

lemma knows_less_merge: "knows_less a (merge_data a b)" "knows_less b (merge_data a b)"
  using group_sync.merge_grows by (auto simp: knows_less_def)

lemma MergeGroups_above:
  assumes "view_above a l" "sc_Decrypt u ct = Inr r" "version_view u (ver, ct) = Some b" "MergeGroups l r = Inr m"
  shows "\<exists>c. parse_groups m = Inr c \<and> wf_groupData c \<and> gd_Version c = storeVersion \<and> knows_less a c \<and> knows_less b c"
proof -
  from assms(1) obtain d where d: "parse_groups l = Inr d" "wf_groupData d" "knows_less a d" by (auto simp: view_above_def)
  from assms(2,3) have b: "parse_groups r = Inr b" "wf_groupData b" by (auto simp: version_view_def split: sum.splits if_splits)
  have "parse_groups m = Inr (merge_data d b)" using MergeGroups_parses [OF d(1) b(1) d(2) b(2) assms(4)] .
  moreover have "gd_Version (merge_data d b) = storeVersion" by (simp add: merge_data_def Let_def)
  ultimately show ?thesis using merge_data_wf [OF d(2) b(2)] knows_less_merge knows_less_trans [OF d(3)] by blast
qed

interpretation groups_blob: blob_merge u MergeGroups "view_above a" "growing_views u" for u a
proof
  show "growing_views u [(ver, ct)]" if "view_above a l" "sc_Decrypt u ct = Inr l" for l ct ver
    using that by (auto simp: growing_views_def view_above_def version_view_def)
  show "view_above a m" if "growing_views u (h @ [(ver, ct)])" "sc_Decrypt u ct = Inr r" "view_above a l" "MergeGroups l r = Inr m" for h ver ct r l m
  proof -
    from that(1) obtain b where "version_view u (ver, ct) = Some b" by (auto simp: growing_views_def)
    from MergeGroups_above [OF that(3,2) this that(4)] show ?thesis by (auto simp: view_above_def)
  qed
  show "growing_views u (h @ [(ver, ct), (ver', ct')])"
    if "growing_views u (h @ [(ver, ct)])" "sc_Decrypt u ct = Inr r" "view_above a l" "MergeGroups l r = Inr m" "sc_Decrypt u ct' = Inr m"
    for h ver ct r l m ct' ver'
  proof -
    from that(1) obtain b where b: "version_view u (ver, ct) = Some b" by (auto simp: growing_views_def)
    from MergeGroups_above [OF that(3,2) this that(4)] obtain c where "parse_groups m = Inr c" "wf_groupData c" "knows_less b c" by blast
    with that(5) have c: "version_view u (ver', ct') = Some c" "knows_less b c" by (simp_all add: version_view_def)
    have "knows_less (the (version_view u v)) c" if "v \<in> set h" for v
      using that \<open>growing_views u (h @ [(ver, ct)])\<close> b c(2) knows_less_trans by (fastforce simp: growing_views_def sorted_wrt_append)
    with that(1) b c show ?thesis by (auto simp: growing_views_def sorted_wrt_append)
  qed
qed

section \<open>A service\<close>

text \<open>A service that keeps the blobs and the op log of one account in memory, with no other device.\<close>

record account =
  ac_blobs :: "bytes \<Rightarrow> bytes list"
  ac_log :: "bytes list"

definition account_blobs :: "account \<Rightarrow> bytes \<Rightarrow> (int \<times> bytes) list" where
  "account_blobs s name = map (\<lambda>i. (int i + 1, ac_blobs s name ! i)) [0..<length (ac_blobs s name)]"

fun decode_all :: "bytes list \<Rightarrow> bytes list result" where
  "decode_all [] = Inr []"
| "decode_all (x # xs) = andthen (b64_decode x) (\<lambda>b. andthen (decode_all xs) (\<lambda>bs. Inr (b # bs)))"

definition account_service :: "account Service" where
  "account_service = \<lparr>
     sv_putBlob = (\<lambda>s name ct64 prev.
       (case b64_decode ct64 of Inl _ \<Rightarrow> (s, Inl (APIError 400 ''bad_request'' 0))
        | Inr ct \<Rightarrow>
          (if prev = int (length (ac_blobs s name))
           then (s\<lparr>ac_blobs := (ac_blobs s)(name := ac_blobs s name @ [ct])\<rparr>, Inr (prev + 1))
           else (s, Inl (APIError 409 ''conflict'' (int (length (ac_blobs s name)))))))),
     sv_getBlob = (\<lambda>s name.
       (s, if ac_blobs s name = [] then Inl (APIError 404 ''not_found'' 0)
           else Inr (int (length (ac_blobs s name)), b64_encode (last (ac_blobs s name))))),
     sv_ops = (\<lambda>s name since.
       (s, Inr (map (\<lambda>i. (int i + 1, b64_encode (ac_log s ! i))) [nat since..<length (ac_log s)], False))),
     sv_appendOps = (\<lambda>s name ops.
       (case decode_all ops of Inl _ \<Rightarrow> (s, Inl (APIError 400 ''bad_request'' 0))
        | Inr cts \<Rightarrow> (s\<lparr>ac_log := ac_log s @ cts\<rparr>,
            Inr \<lparr>ao_FirstSeq = int (length (ac_log s)) + 1, ao_LastSeq = int (length (ac_log s) + length cts)\<rparr>))),
     sv_compactOps = (\<lambda>s name snapshot through prev. (s, Inl (APIError 409 ''conflict'' 0))),
     sv_maxContacts = (\<lambda>s. (s, Inr 0))\<rparr>"

lemma account_blob_service: "blob_service account_service account_blobs"
proof -
  have "account_blobs (s\<lparr>ac_blobs := (ac_blobs s)(name := ac_blobs s name @ [ct])\<rparr>) name
        = account_blobs s name @ [(int (length (ac_blobs s name)) + 1, ct)]" for s name ct
    by (auto simp: account_blobs_def nth_append)
  moreover have "int (length (ac_blobs s name)) = latest (account_blobs s name)" for s name
    by (cases "ac_blobs s name" rule: rev_cases) (simp_all add: latest_def account_blobs_def)
  moreover have "account_blobs s name = butlast (account_blobs s name) @ [(int (length (ac_blobs s name)), last (ac_blobs s name))]"
    if "ac_blobs s name \<noteq> []" for s name
    using that by (cases "ac_blobs s name" rule: rev_cases) (simp_all add: account_blobs_def)
  moreover have "distinct (map fst (account_blobs s name)) \<and> 0 \<notin> fst ` set (account_blobs s name)" for s name
    by (auto simp: account_blobs_def distinct_map inj_on_def)
  moreover have "\<not> IsNotFound (APIError 409 c v)" "\<not> IsNotFound (APIError 400 c v)" for c v by (simp_all add: IsNotFound_def has_status_def)
  moreover have "ac_blobs s name = [] \<Longrightarrow> account_blobs s name = []" for s name by (simp add: account_blobs_def)
  ultimately show ?thesis unfolding blob_service_def account_service_def
    by (auto split: if_splits) metis+
qed

lemma account_open:
  "ac_blobs s name = h @ [ct] \<Longrightarrow> sc_Decrypt u ct = Inr pt \<Longrightarrow> OpenBlob account_service u name s = (s, Inr (pt, int (length h) + 1))"
  by (simp add: OpenBlob_request account_service_def)

lemma account_seal:
  "sc_EncryptToSelf u rnd m = Inr ct \<Longrightarrow> n = int (length (ac_blobs s name)) \<Longrightarrow>
   SealBlob account_service u rnd name m n s = (s\<lparr>ac_blobs := (ac_blobs s)(name := ac_blobs s name @ [ct])\<rparr>, Inr (n + 1))"
  by (simp add: SealBlob_def PutBlob_def account_service_def)

definition clear_crypter :: SelfCrypter where
  "clear_crypter = \<lparr>sc_EncryptToSelf = (\<lambda>rnd m. Inr (''sealed'' @ m)), sc_Decrypt = (\<lambda>c. if HasPrefix c ''sealed'' then Inr (drop 6 c) else Inl (Errorf ''not for me''))\<rparr>"

lemma clear_crypter_correct: "sc_correct clear_crypter"
  by (simp add: sc_correct_def clear_crypter_def HasPrefix_def)

definition one_version :: account where
  "one_version = \<lparr>ac_blobs = (\<lambda>name. [''sealedb'']), ac_log = []\<rparr>"

section \<open>Properties\<close>

text \<open>
  C22. Groups across devices: as long as the other devices never write a groups blob that knows less
  than an earlier version, neither does this one, whatever is written between its requests: after
  syncGroupsBlob the history of the blob still grows, its latest version is the state of the groups
  file of this device, and it knows at least what every version and what this device knew before.
\<close>

theorem syncGroupsBlob_converges:
  assumes "blob_service sv hist" "sc_correct u" "others_keep sv hist ''groups'' (growing_views u)" "growing_views u (hist s ''groups'')"
    and "Groups_load path d = Inr a" "wf_groupData a" "gd_Version a = storeVersion" "d_fault d SysRead path = None"
    and "syncGroupsBlob sv u rnd path (s, d) = ((s', d'), Inr oc)"
  shows "\<exists>c. growing_views u (hist s' ''groups'') \<and> version_view u (last (hist s' ''groups'')) = Some c
     \<and> Groups_load path d' = Inr c \<and> knows_less a c
     \<and> (\<forall>v\<in>set (hist s' ''groups''). \<exists>b. version_view u v = Some b \<and> knows_less b c)"
proof -
  from assms(5,9) obtain l m where l: "marshal_groups a = Inr l" and sync: "SyncMergedBlob sv u rnd ''groups'' l MergeGroups s = (s', Inr m)"
      and ap: "Groups_ApplyMerged path m d = (d', Inr ())"
    by (auto simp: syncGroupsBlob_def Groups_SyncBytes_def split: sum.splits prod.splits)
  have "parse_groups l = Inr a" using l assms(6,7) by (intro parse_marshal_groups) (simp_all add: storeVersion_def int64_def)
  then have "view_above a l" using assms(6,7) by (auto simp: view_above_def knows_less_def)
  from groups_blob.SyncMergedBlob_keeps [OF assms(1-3) this assms(4) sync] obtain c h ver ct
    where k: "growing_views u (hist s' ''groups'')" "hist s' ''groups'' = h @ [(ver, ct)]" "sc_Decrypt u ct = Inr m"
      and c: "parse_groups m = Inr c" "wf_groupData c" "gd_Version c = storeVersion" "knows_less a c" unfolding view_above_def by blast
  have v: "version_view u (ver, ct) = Some c" using k(3) c(1,2) by (simp add: version_view_def)
  have "unmarshal (dec_struct groupData_fields) zero_groupData m = Some c"
    using c(1,3) by (auto simp: parse_groups_def zero_groupData_def storeVersion_def split: if_splits option.splits)
  with ap have "Groups_save path d c = (d', Inr ())" by (simp add: Groups_ApplyMerged_def)
  with c(2,3) assms(8) have load: "Groups_load path d' = Inr c" by (intro groups_file.load_saved) auto
  have "\<exists>b. version_view u x = Some b \<and> knows_less b c" if "x \<in> set (h @ [(ver, ct)])" for x
    using that k(1,2) v by (cases "x \<in> set h") (force simp: growing_views_def sorted_wrt_append knows_less_def)+
  with k v c(4) load show ?thesis by auto
qed

lemma account_others: "others_keep account_service account_blobs name Q"
proof -
  have "butlast (account_blobs (s\<lparr>ac_blobs := (ac_blobs s)(name := ac_blobs s name @ [ct])\<rparr>) name) = account_blobs s name" for s ct
    by (auto simp: account_blobs_def nth_append)
  then show ?thesis by (auto simp: others_keep_def account_service_def split: if_splits)
qed

lemma account_open_none:
  "ac_blobs s name = [] \<Longrightarrow> OpenBlob account_service u name s = (s, Inl (APIError 404 ''not_found'' 0))"
  by (simp add: OpenBlob_request account_service_def)

definition new_account :: account where
  "new_account = \<lparr>ac_blobs = (\<lambda>name. []), ac_log = []\<rparr>"

theorem syncGroupsBlob_converges_witness:
  "\<exists>s' d' oc c. syncGroupsBlob account_service clear_crypter (\<lambda>_. []) ''groups.json'' (new_account, empty_disk) = ((s', d'), Inr oc)
     \<and> version_view clear_crypter (last (account_blobs s' ''groups'')) = Some c \<and> Groups_load ''groups.json'' d' = Inr c"
proof -
  let ?a = "zero_groupData\<lparr>gd_Version := storeVersion\<rparr>" and ?d = empty_disk
  have load: "Groups_load ''groups.json'' ?d = Inr ?a" by (simp add: Groups_load_def ReadFile_def empty_disk_def IsNotExist_def)
  have wf: "wf_groupData ?a" "gd_Version ?a = storeVersion" "groupData_marshals ?a" "d_fault ?d SysRead ''groups.json'' = None"
    by (simp_all add: wf_groupData_def zero_groupData_def groupData_marshals_def empty_disk_def)
  then obtain l where l: "marshal_groups ?a = Inr l" by (simp add: marshal_groups_def)
  have "parse_groups l = Inr ?a" using l wf by (intro parse_marshal_groups) (simp_all add: storeVersion_def int64_def)
  then have u: "unmarshal (dec_struct groupData_fields) zero_groupData l = Some ?a"
    by (auto simp: parse_groups_def zero_groupData_def storeVersion_def split: if_splits option.splits)
  have "\<exists>s. SealBlob account_service clear_crypter [] ''groups'' l 0 new_account = (s, Inr 1)"
    using account_seal [of clear_crypter "[]" l "''sealed'' @ l" 0 new_account "''groups''"] by (simp add: clear_crypter_def new_account_def)
  moreover have "OpenBlob account_service clear_crypter ''groups'' new_account = (new_account, Inl (APIError 404 ''not_found'' 0))"
    by (rule account_open_none) (simp add: new_account_def)
  moreover have m: "mergeBlobMaxAttempts = Suc 4" by (simp add: mergeBlobMaxAttempts_def)
  ultimately obtain s' where sync: "SyncMergedBlob account_service clear_crypter (\<lambda>_. []) ''groups'' l MergeGroups new_account = (s', Inr l)"
    unfolding SyncMergedBlob_def m merge_attempts.simps(2) by (auto simp: IsNotFound_def has_status_def)
  obtain d' where "Groups_save ''groups.json'' ?d ?a = (d', Inr ())"
    using wf(3) WriteFileAtomic_clean [of ?d] by (auto simp: Groups_save_def empty_disk_def)
  with load l sync u have r: "\<exists>oc. syncGroupsBlob account_service clear_crypter (\<lambda>_. []) ''groups.json'' (new_account, ?d) = ((s', d'), Inr oc)"
    by (simp add: syncGroupsBlob_def Groups_SyncBytes_def Groups_ApplyMerged_def)
  have g: "growing_views clear_crypter (account_blobs new_account ''groups'')" by (simp add: growing_views_def account_blobs_def new_account_def)
  from r obtain oc where r: "syncGroupsBlob account_service clear_crypter (\<lambda>_. []) ''groups.json'' (new_account, ?d) = ((s', d'), Inr oc)" by blast
  from syncGroupsBlob_converges [OF account_blob_service clear_crypter_correct account_others g load wf(1,2,4) r] r show ?thesis by blast
qed

text \<open>
  What a successful SyncResource leaves: the latest version in the cloud is the one that is recorded and reported,
  and it opens to bytes that were either applied to the local side or read from it, which is then unchanged. A push replaced
  exactly the version the device had synced with last.
\<close>

lemma SyncResource_outcome:
  assumes "blob_service sv hist" "sc_correct u" "SyncResource sv u rnd resource io (s, h, vs) = ((s', h', vs'), Inr oc)"
  shows "\<exists>old ct b. hist s' resource = old @ [(vs' resource, ct)] \<and> sc_Decrypt u ct = Inr b
     \<and> (if oc_Action oc = SyncPulled then io_Apply io h resource b = (h', Inr ()) else h' = h \<and> io_Load io h resource = Inr b)
     \<and> oc_Version oc = vs' resource \<and> (oc_Action oc = SyncPushed \<longrightarrow> latest old = vs resource) \<and> (\<forall>r. r \<noteq> resource \<longrightarrow> vs' r = vs r)"
proof -
  note actions = SyncPulled_def SyncPushed_def SyncPushedNew_def SyncUpToDate_def
  have applied: ?thesis if "applyPulled resource io cb cv hb (t, h, vs) = ((s', h', vs'), Inr oc)" "hist t resource = old @ [(cv, ct)]" "sc_Decrypt u ct = Inr cb"
    for cb cv hb t old ct
    using that by (auto simp: applyPulled_def actions split: prod.splits sum.splits)
  from assms(3) obtain l where l: "io_Load io h resource = Inr l" by (auto simp: SyncResource_def split: sum.splits)
  obtain s1 o1 where op: "OpenBlob sv u resource s = (s1, o1)" by (cases "OpenBlob sv u resource s")
  show ?thesis
  proof (cases o1)
    case (Inl e)
    with assms(3) l op obtain ver where v: "SealBlob sv u rnd resource l 0 s1 = (s', Inr ver)" "h' = h" "vs' = vs(resource := ver)"
        "oc_Version oc = ver" "oc_Action oc = SyncPushedNew" by (auto simp: SyncResource_def split: prod.splits sum.splits if_splits)
    from SealBlob_first [OF assms(1,2) v(1)] v l show ?thesis by (auto simp: actions)
  next
    case (Inr p)
    with op obtain cb cv where op: "OpenBlob sv u resource s = (s1, Inr (cb, cv))" by (cases p) simp
    from OpenBlob_ok [OF assms(1) this] obtain old ct where o: "hist s1 resource = old @ [(cv, ct)]" "sc_Decrypt u ct = Inr cb" by blast
    consider (same) "l = cb" | (push) "l \<noteq> cb" "vs resource \<noteq> 0" "cv = vs resource" | (pull) "l \<noteq> cb" "\<not> (vs resource \<noteq> 0 \<and> cv = vs resource)" by blast
    then show ?thesis
    proof cases
      case same
      with assms(3) l op o show ?thesis by (auto simp: SyncResource_def Let_def actions)
    next
      case push
      obtain s2 o2 where seal: "SealBlob sv u rnd resource l cv s1 = (s2, o2)" by (cases "SealBlob sv u rnd resource l cv s1")
      show ?thesis
      proof (cases o2)
        case (Inr ver)
        with assms(3) l op push seal have v: "s' = s2" "h' = h" "vs' = vs(resource := ver)" "oc_Version oc = ver" "oc_Action oc = SyncPushed"
          by (auto simp: SyncResource_def Let_def)
        from SealBlob_on_top [OF assms(1,2) o(1) seal [unfolded Inr]] obtain ct2
          where "hist s' resource = (old @ [(cv, ct)]) @ [(ver, ct2)]" "sc_Decrypt u ct2 = Inr l" using v by auto
        with v l push(3) show ?thesis by (intro exI [of _ "old @ [(cv, ct)]"] exI [of _ ct2] exI [of _ l]) (simp add: latest_def actions)
      next
        case (Inl e)
        with assms(3) l op push seal obtain t cb2 cv2 where t: "OpenBlob sv u resource s2 = (t, Inr (cb2, cv2))"
            "applyPulled resource io cb2 cv2 True (t, h, vs) = ((s', h', vs'), Inr oc)"
          by (auto simp: SyncResource_def pullResource_def Let_def split: if_splits prod.splits sum.splits)
        from OpenBlob_ok [OF assms(1) t(1)] applied [OF t(2)] show ?thesis by blast
      qed
    next
      case pull
      with assms(3) l op have "applyPulled resource io cb cv (vs resource \<noteq> 0) (s1, h, vs) = ((s', h', vs'), Inr oc)"
        by (auto simp: SyncResource_def Let_def)
      with applied o show ?thesis by blast
    qed
  qed
qed

end
