(* ===== verification/Icfx_ContactSync.thy ===== *)
theory Icfx_ContactSync
  imports Icfx_Cloud "HOL-Library.AList"
begin

text \<open>
  Contact synchronisation over the encrypted op log (src/cloud/sync_contacts.go, ops.go): a device
  keeps a shadow of the contacts as of its last pass, turns the difference to the live store into put
  and del operations, applies the operations of the other devices in the order of the log and appends
  its own. The map from aliases to contacts is an association list; where Go iterates over it, the
  result is sorted afterwards. A json.RawMessage is the value it holds. The contact file and the
  shadow file are two paths. The fetch of the log follows pages until the service says there are no
  more, and may not end; then the value is \<open>None\<close>.
\<close>

section \<open>The op log\<close>

record ContactOp =
  cop_Op :: bytes
  cop_ID :: bytes
  cop_Contact :: "json option"

definition zero_ContactOp :: ContactOp where
  "zero_ContactOp = \<lparr>cop_Op = [], cop_ID = [], cop_Contact = None\<rparr>"

definition dec_raw :: "json option decoder" where "dec_raw j cur = (Some j, DOk)"

definition ContactOp_fields :: "ContactOp field list" where
  "ContactOp_fields =
     [fld ''op'' dec_str cop_Op cop_Op_update,
      fld ''id'' dec_str cop_ID cop_ID_update,
      fld ''contact'' dec_raw cop_Contact cop_Contact_update]"

definition enc_ContactOp :: "ContactOp \<Rightarrow> json" where
  "enc_ContactOp p = JObj ([(''op'', jstr (cop_Op p)), (''id'', jstr (cop_ID p))]
     @ (case cop_Contact p of None \<Rightarrow> [] | Some j \<Rightarrow> [(''contact'', j)]))"

definition AppendOps :: "'s Service \<Rightarrow> bytes \<Rightarrow> bytes list \<Rightarrow> 's \<Rightarrow> 's \<times> AppendedOps result" where
  "AppendOps sv resource ops s = sv_appendOps sv s resource (map b64_encode ops)"

fun decode_items :: "(int \<times> bytes) list \<Rightarrow> Op list result" where
  "decode_items [] = Inr []"
| "decode_items ((seq, ct64) # items) =
     (case b64_decode ct64 of
        Inl e \<Rightarrow> Inl (Wrap ''op %d: bad ciphertext encoding: %w'' e)
      | Inr raw \<Rightarrow> andthen (decode_items items) (\<lambda>ops. Inr (\<lparr>op_Seq = seq, op_Ciphertext = raw\<rparr> # ops)))"

partial_function (option) fetch_pages ::
    "'s Service \<Rightarrow> bytes \<Rightarrow> int \<Rightarrow> Op list \<Rightarrow> 's \<Rightarrow> ('s \<times> Op list result) option" where
  "fetch_pages sv resource since all s =
     (case sv_ops sv s resource since of
        (s', Inl e) \<Rightarrow> Some (s', Inl e)
      | (s', Inr (items, has_more)) \<Rightarrow>
        (case decode_items items of
           Inl e \<Rightarrow> Some (s', Inl e)
         | Inr ops \<Rightarrow>
           (if \<not> has_more then Some (s', Inr (all @ ops))
            else fetch_pages sv resource (if items = [] then since else fst (last items)) (all @ ops) s')))"

definition FetchOpsSince :: "'s Service \<Rightarrow> bytes \<Rightarrow> int \<Rightarrow> 's \<Rightarrow> ('s \<times> Op list result) option" where
  "FetchOpsSince sv resource seq s = fetch_pages sv resource seq [] s"

definition CompactOps :: "'s Service \<Rightarrow> bytes \<Rightarrow> bytes \<Rightarrow> int \<Rightarrow> int \<Rightarrow> 's \<Rightarrow> 's \<times> int result" where
  "CompactOps sv resource snapshot throughSeq prevVersion s =
     sv_compactOps sv s resource (b64_encode snapshot) throughSeq prevVersion"

record ServerBlobMeta =
  bm_Name :: bytes
  bm_Version :: int
  bm_ThroughSeq :: int

record ServerOpsMeta =
  om_Resource :: bytes
  om_MaxSeq :: int

record ServerSyncState =
  ss_Blobs :: "ServerBlobMeta list"
  ss_Ops :: "ServerOpsMeta list"

definition ServerSyncState_Blob :: "ServerSyncState \<Rightarrow> bytes \<Rightarrow> ServerBlobMeta" where
  "ServerSyncState_Blob st name = (case find (\<lambda>b. bm_Name b = name) (ss_Blobs st) of
     Some b \<Rightarrow> b | None \<Rightarrow> \<lparr>bm_Name = [], bm_Version = 0, bm_ThroughSeq = 0\<rparr>)"

definition MaxSeq :: "ServerSyncState \<Rightarrow> bytes \<Rightarrow> int" where
  "MaxSeq st resource = (case find (\<lambda>p. om_Resource p = resource) (ss_Ops st) of Some p \<Rightarrow> om_MaxSeq p | None \<Rightarrow> 0)"

section \<open>Operations on the working set\<close>

type_synonym contact_map = "(bytes \<times> Contact) list"

record ContactsSyncState =
  cs_Seq :: int
  cs_SnapshotVersion :: int

definition ContactsCompactThreshold :: int where "ContactsCompactThreshold = 200"

definition contactOpID :: "Contact \<Rightarrow> bytes" where "contactOpID ct = ct_Alias ct"

definition contactsByID :: "Contact list \<Rightarrow> contact_map" where
  "contactsByID cs = fold (\<lambda>ct m. AList.update (contactOpID ct) ct m) cs []"

definition contactsSorted :: "contact_map \<Rightarrow> Contact list" where
  "contactsSorted m = sort_key contactOpID (map snd m)"

definition contactsEqual :: "Contact \<Rightarrow> Contact \<Rightarrow> bool" where
  "contactsEqual a b = (if \<not> Contact_marshals a \<or> \<not> Contact_marshals b then False else compact (enc_Contact a) = compact (enc_Contact b))"

definition put_op :: "contact_map \<Rightarrow> Contact \<Rightarrow> ContactOp list" where
  "put_op prev ct =
     (let i = contactOpID ct in
      if (case map_of prev i of Some old \<Rightarrow> contactsEqual old ct | None \<Rightarrow> False) then []
      else if \<not> Contact_marshals ct then []
      else [\<lparr>cop_Op = ''put'', cop_ID = i, cop_Contact = Some (enc_Contact ct)\<rparr>])"

text \<open>
  The operations are sorted by identifier. The sort is stable here and unspecified for equal identifiers in the code; two
  operations have one identifier only if two local contacts share an alias.
\<close>

definition diffContacts :: "Contact list \<Rightarrow> Contact list \<Rightarrow> ContactOp list" where
  "diffContacts shadow local =
     (let prev = contactsByID shadow;
          puts = concat (map (put_op prev) local);
          dels = map (\<lambda>i. \<lparr>cop_Op = ''del'', cop_ID = i, cop_Contact = None\<rparr>)
            (filter (\<lambda>i. i \<notin> set (map contactOpID local)) (map fst prev))
      in sort_key cop_ID (puts @ dels))"

definition applyPlainOp :: "ContactOp \<Rightarrow> contact_map \<Rightarrow> contact_map" where
  "applyPlainOp p base =
     (if cop_Op p = ''put'' then
        (case cop_Contact p of
           None \<Rightarrow> base
         | Some j \<Rightarrow> (case dec_struct Contact_fields j zero_Contact of
              (ct, DOk) \<Rightarrow> AList.update (cop_ID p) ct base | _ \<Rightarrow> base))
      else if cop_Op p = ''del'' then AList.delete (cop_ID p) base
      else base)"

definition decode_op :: "SelfCrypter \<Rightarrow> bytes \<Rightarrow> ContactOp result" where
  "decode_op u ct =
     andthen (wrapping ''decrypting contact op %d: %w'' (sc_Decrypt u ct)) (\<lambda>pt.
       case unmarshal (dec_struct ContactOp_fields) zero_ContactOp pt of
         None \<Rightarrow> Inl (Wrap ''parsing contact op %d: %w'' (Errorf ''json'')) | Some p \<Rightarrow> Inr p)"

definition applyContactOpSkipping :: "SelfCrypter \<Rightarrow> contact_map \<Rightarrow> Op \<Rightarrow> bytes set \<Rightarrow> contact_map result" where
  "applyContactOpSkipping u base p skip =
     andthen (decode_op u (op_Ciphertext p)) (\<lambda>cop.
       Inr (if cop_ID cop \<in> skip then base else applyPlainOp cop base))"

definition applyContactOp :: "SelfCrypter \<Rightarrow> contact_map \<Rightarrow> Op \<Rightarrow> contact_map result" where
  "applyContactOp u base p = applyContactOpSkipping u base p {}"

fun applyGapOps :: "SelfCrypter \<Rightarrow> contact_map \<Rightarrow> Op list \<Rightarrow> int \<Rightarrow> bytes set \<Rightarrow> contact_map result" where
  "applyGapOps u base [] firstSeq skip = Inr base"
| "applyGapOps u base (p # gap) firstSeq skip =
     (if op_Seq p \<ge> firstSeq then Inr base
      else andthen (applyContactOpSkipping u base p skip) (\<lambda>base. applyGapOps u base gap firstSeq skip))"

section \<open>The shadow file\<close>

definition loadContactsShadow :: "bytes \<Rightarrow> disk \<Rightarrow> (Contact list \<times> bool) result" where
  "loadContactsShadow p d =
     (let raw = ReadFile d p in
      if IsNotExist raw then Inr ([], False)
      else andthen (wrapping ''reading contacts shadow: %w'' raw) (\<lambda>raw.
        case unmarshal (dec_list (dec_struct Contact_fields) zero_Contact) [] raw of
          None \<Rightarrow> Inl (Wrap ''parsing contacts shadow: %w'' (Errorf ''json'')) | Some cs \<Rightarrow> Inr (cs, True)))"

definition saveContactsShadow :: "bytes \<Rightarrow> disk \<Rightarrow> Contact list \<Rightarrow> disk \<times> unit result" where
  "saveContactsShadow p d cs =
     (if \<not> list_all Contact_marshals cs then (d, Inl (Errorf ''json''))
      else os_WriteFile d p (indented (JArr (map enc_Contact cs))))"

definition RemoveContactsShadow :: "bytes \<Rightarrow> disk \<Rightarrow> disk \<times> unit result" where
  "RemoveContactsShadow p d = (case os_Remove d p of (d', r) \<Rightarrow> (d', if IsNotExist r then Inr () else r))"

section \<open>One pass\<close>

definition contactsAction :: "bool \<Rightarrow> nat \<Rightarrow> nat \<Rightarrow> bytes" where
  "contactsAction bootstrapped pulled pushed =
     (if (bootstrapped \<or> pulled > 0) \<and> pushed > 0 then SyncSynced
      else if pushed > 0 then SyncPushed
      else if bootstrapped \<or> pulled > 0 then SyncPulled
      else SyncUpToDate)"

text \<open>Bootstrap or rebase on the snapshot: working set and whether it was replaced.\<close>

definition bootstrap ::
    "'s Service \<Rightarrow> SelfCrypter \<Rightarrow> ServerBlobMeta \<Rightarrow> bool \<Rightarrow> contact_map \<Rightarrow> 's \<times> ContactsSyncState
     \<Rightarrow> ('s \<times> ContactsSyncState) \<times> (contact_map \<times> bool) result" where
  "bootstrap sv u snap hasShadow base e =
     (case e of (s, st) \<Rightarrow>
      if bm_Version snap \<noteq> cs_SnapshotVersion st \<or> \<not> hasShadow then
        (if bm_Version snap \<noteq> 0 \<and> (\<not> hasShadow \<or> cs_Seq st < bm_ThroughSeq snap) then
           (case OpenBlob sv u ''contacts'' s of
              (s', Inl er) \<Rightarrow> ((s', st), Inl (Wrap ''contacts snapshot: %w'' er))
            | (s', Inr (pt, _)) \<Rightarrow>
              (case unmarshal (dec_list (dec_struct Contact_fields) zero_Contact) [] pt of
                 None \<Rightarrow> ((s', st), Inl (Wrap ''parsing contacts snapshot: %w'' (Errorf ''json'')))
               | Some snapList \<Rightarrow>
                 ((s', st\<lparr>cs_Seq := bm_ThroughSeq snap, cs_SnapshotVersion := bm_Version snap\<rparr>), Inr (contactsByID snapList, True))))
         else ((s, st\<lparr>cs_SnapshotVersion := bm_Version snap\<rparr>), Inr (base, False)))
      else ((s, st), Inr (base, False)))"

text \<open>The loop that applies fetched operations; the position moves with each one.\<close>

fun apply_ops :: "SelfCrypter \<Rightarrow> Op list \<Rightarrow> contact_map \<Rightarrow> ContactsSyncState \<Rightarrow> ContactsSyncState \<times> contact_map result" where
  "apply_ops u [] base st = (st, Inr base)"
| "apply_ops u (p # ops) base st =
     (case applyContactOp u base p of
        Inl e \<Rightarrow> (st, Inl e)
      | Inr base' \<Rightarrow> apply_ops u ops base' (st\<lparr>cs_Seq := op_Seq p\<rparr>))"

definition pull_ops ::
    "'s Service \<Rightarrow> SelfCrypter \<Rightarrow> int \<Rightarrow> contact_map \<Rightarrow> 's \<times> ContactsSyncState
     \<Rightarrow> (('s \<times> ContactsSyncState) \<times> (contact_map \<times> nat) result) option" where
  "pull_ops sv u maxSeq base e =
     (case e of (s, st) \<Rightarrow>
      if maxSeq > cs_Seq st then
        (case FetchOpsSince sv ''contacts'' (cs_Seq st) s of
           None \<Rightarrow> None
         | Some (s', Inl er) \<Rightarrow> Some ((s', st), Inl er)
         | Some (s', Inr ops) \<Rightarrow>
           (case apply_ops u ops base st of
              (st', Inl er) \<Rightarrow> Some ((s', st'), Inl er)
            | (st', Inr base') \<Rightarrow> Some ((s', st'), Inr (base', length ops))))
      else Some ((s, st), Inr (base, 0)))"

fun seal_ops :: "SelfCrypter \<Rightarrow> (nat \<Rightarrow> bytes) \<Rightarrow> nat \<Rightarrow> ContactOp list \<Rightarrow> bytes list result" where
  "seal_ops u rnd i [] = Inr []"
| "seal_ops u rnd i (p # ops) =
     andthen (wrapping ''sealing contact op: %w'' (sc_EncryptToSelf u (rnd i) (compact (enc_ContactOp p)))) (\<lambda>ct.
     andthen (seal_ops u rnd (Suc i) ops) (\<lambda>cts. Inr (ct # cts)))"

text \<open>Encrypt and append the local operations, then pick up those that raced the append.\<close>

definition push_ops ::
    "'s Service \<Rightarrow> SelfCrypter \<Rightarrow> (nat \<Rightarrow> bytes) \<Rightarrow> ContactOp list \<Rightarrow> contact_map \<Rightarrow> 's \<times> ContactsSyncState
     \<Rightarrow> (('s \<times> ContactsSyncState) \<times> contact_map result) option" where
  "push_ops sv u rnd localOps base e =
     (case e of (s, st) \<Rightarrow>
      if localOps = [] then Some ((s, st), Inr base)
      else case seal_ops u rnd 0 localOps of
        Inl er \<Rightarrow> Some ((s, st), Inl er)
      | Inr encrypted \<Rightarrow>
        (case AppendOps sv ''contacts'' encrypted s of
           (s', Inl er) \<Rightarrow> Some ((s', st), Inl er)
         | (s', Inr res) \<Rightarrow>
           (if ao_FirstSeq res > cs_Seq st + 1 then
              (case FetchOpsSince sv ''contacts'' (cs_Seq st) s' of
                 None \<Rightarrow> None
               | Some (s2, Inl er) \<Rightarrow> Some ((s2, st), Inl er)
               | Some (s2, Inr gap) \<Rightarrow>
                 (case applyGapOps u base gap (ao_FirstSeq res) (cop_ID ` set localOps) of
                    Inl er \<Rightarrow> Some ((s2, st), Inl er)
                  | Inr base' \<Rightarrow> Some ((s2, st\<lparr>cs_Seq := ao_LastSeq res\<rparr>), Inr base')))
            else Some ((s', st\<lparr>cs_Seq := ao_LastSeq res\<rparr>), Inr base))))"

definition compactContacts ::
    "'s Service \<Rightarrow> SelfCrypter \<Rightarrow> bytes \<Rightarrow> Contact list \<Rightarrow> 's \<times> ContactsSyncState \<Rightarrow> ('s \<times> ContactsSyncState) \<times> unit result" where
  "compactContacts sv u rnd merged e =
     (case e of (s, st) \<Rightarrow>
      if \<not> list_all Contact_marshals merged then ((s, st), Inl (Errorf ''json''))
      else case sc_EncryptToSelf u rnd (compact (JArr (map enc_Contact merged))) of
        Inl er \<Rightarrow> ((s, st), Inl (Wrap ''sealing contacts snapshot: %w'' er))
      | Inr ct \<Rightarrow>
        (case CompactOps sv ''contacts'' ct (cs_Seq st) (cs_SnapshotVersion st) s of
           (s', Inl er) \<Rightarrow> ((s', st), if IsConflict er then Inr () else Inl (Wrap ''compacting contacts ops: %w'' er))
         | (s', Inr ver) \<Rightarrow> ((s', st\<lparr>cs_SnapshotVersion := ver\<rparr>), Inr ())))"

definition persist ::
    "bytes \<Rightarrow> bytes \<Rightarrow> Contact list \<Rightarrow> disk \<Rightarrow> disk \<times> unit result" where
  "persist cpath spath merged d =
     (case Contacts_save cpath d merged of
        (d', Inl e) \<Rightarrow> (d', Inl e)
      | (d', Inr _) \<Rightarrow> saveContactsShadow spath d' merged)"

text \<open>From the point where something has to be done: bootstrap, pull, local edits, push, persist, compact.\<close>

definition sync_pass ::
    "'s Service \<Rightarrow> SelfCrypter \<Rightarrow> (nat \<Rightarrow> bytes) \<Rightarrow> bytes \<Rightarrow> bytes \<Rightarrow> ServerBlobMeta \<Rightarrow> int \<Rightarrow> Contact list \<Rightarrow> bool \<Rightarrow> ContactOp list
     \<Rightarrow> 's \<times> disk \<times> ContactsSyncState \<Rightarrow> (('s \<times> disk \<times> ContactsSyncState) \<times> SyncOutcome result) option" where
  "sync_pass sv u rnd cpath spath snap maxSeq shadow hasShadow localOps e =
     (case e of (s, d, st) \<Rightarrow>
     (case bootstrap sv u snap hasShadow (contactsByID shadow) (s, st) of
        ((s1, st1), Inl er) \<Rightarrow> Some ((s1, d, st1), Inl er)
      | ((s1, st1), Inr (base, bootstrapped)) \<Rightarrow>
     (case pull_ops sv u maxSeq base (s1, st1) of
        None \<Rightarrow> None
      | Some ((s2, st2), Inl er) \<Rightarrow> Some ((s2, d, st2), Inl er)
      | Some ((s2, st2), Inr (base, pulledOps)) \<Rightarrow>
     (case push_ops sv u rnd localOps (fold applyPlainOp localOps base) (s2, st2) of
        None \<Rightarrow> None
      | Some ((s3, st3), Inl er) \<Rightarrow> Some ((s3, d, st3), Inl er)
      | Some ((s3, st3), Inr base) \<Rightarrow>
        let merged = contactsSorted base in
     (case persist cpath spath merged d of
        (d', Inl er) \<Rightarrow> Some ((s3, d', st3), Inl er)
      | (d', Inr _) \<Rightarrow>
     (case (if cs_Seq st3 - bm_ThroughSeq snap > ContactsCompactThreshold
            then compactContacts sv u (rnd (length localOps)) merged (s3, st3) else ((s3, st3), Inr ())) of
        ((s4, st4), Inl er) \<Rightarrow> Some ((s4, d', st4), Inl er)
      | ((s4, st4), Inr _) \<Rightarrow> Some ((s4, d', st4),
          Inr \<lparr>oc_Resource = ''contacts'', oc_Action = contactsAction bootstrapped pulledOps (length localOps),
            oc_Version = cs_SnapshotVersion st4, oc_CloudWasNewer = False\<rparr>)))))))"

definition SyncContactsOps ::
    "'s Service \<Rightarrow> SelfCrypter \<Rightarrow> (nat \<Rightarrow> bytes) \<Rightarrow> bytes \<Rightarrow> bytes \<Rightarrow> ServerSyncState
     \<Rightarrow> 's \<times> disk \<times> ContactsSyncState \<Rightarrow> (('s \<times> disk \<times> ContactsSyncState) \<times> SyncOutcome result) option" where
  "SyncContactsOps sv u rnd cpath spath remote e =
     (case e of (s, d, st) \<Rightarrow>
     (case Contacts_load cpath d of Inl er \<Rightarrow> Some ((s, d, st), Inl er)
      | Inr local \<Rightarrow>
     (case sv_maxContacts sv s of
        (s', Inl er) \<Rightarrow> Some ((s', d, st), Inl (Wrap ''checking plan: %w'' er))
      | (s', Inr maxContacts) \<Rightarrow>
        if maxContacts > 0 \<and> int (length local) > maxContacts
        then Some ((s', d, st), Inl (Errorf ''contact sync blocked: %d contacts exceeds your plan's limit of %d''))
        else
     (case loadContactsShadow spath d of Inl er \<Rightarrow> Some ((s', d, st), Inl er)
      | Inr (shadow, hasShadow) \<Rightarrow>
        let localOps = diffContacts shadow local; snap = ServerSyncState_Blob remote ''contacts''; maxSeq = MaxSeq remote ''contacts'' in
        if bm_Version snap = cs_SnapshotVersion st \<and> maxSeq = cs_Seq st \<and> localOps = [] \<and> hasShadow
        then Some ((s', d, st), Inr \<lparr>oc_Resource = ''contacts'', oc_Action = SyncUpToDate, oc_Version = bm_Version snap, oc_CloudWasNewer = False\<rparr>)
        else sync_pass sv u rnd cpath spath snap maxSeq shadow hasShadow localOps (s', d, st)))))"

section \<open>What a contact list and an operation mean\<close>

abbreviation contact_view :: "Contact list \<Rightarrow> bytes \<Rightarrow> Contact option" where
  "contact_view cs \<equiv> map_of (contactsByID cs)"

definition storable_contact :: "Contact \<Rightarrow> bool" where
  "storable_contact c \<longleftrightarrow> wf_Contact c \<and> Contact_marshals c"

definition good_contacts :: "Contact list \<Rightarrow> bool" where
  "good_contacts cs \<longleftrightarrow> distinct (map ct_Alias cs) \<and> list_all storable_contact cs"

text \<open>The entry of an alias after an operation on it.\<close>

definition op_val :: "ContactOp \<Rightarrow> Contact option \<Rightarrow> Contact option" where
  "op_val p v =
     (if cop_Op p = ''put'' then
        (case cop_Contact p of None \<Rightarrow> v
         | Some j \<Rightarrow> (case dec_struct Contact_fields j zero_Contact of (ct, DOk) \<Rightarrow> Some ct | _ \<Rightarrow> v))
      else if cop_Op p = ''del'' then None else v)"

lemma map_of_applyPlainOp: "map_of (applyPlainOp p b) = (map_of b)(cop_ID p := op_val p (map_of b (cop_ID p)))"
  by (auto simp: applyPlainOp_def op_val_def update_conv' delete_conv' fun_eq_iff split: option.split prod.split dstat.split)

lemma map_of_apply_ops:
  "map_of (fold applyPlainOp ps b) i = fold op_val (filter (\<lambda>p. cop_ID p = i) ps) (map_of b i)"
  by (induction ps arbitrary: b) (simp_all add: map_of_applyPlainOp)

lemma contactsByID_view: "contact_view cs = map_of (rev (map (\<lambda>c. (ct_Alias c, c)) cs))"
  by (induction cs rule: rev_induct) (simp_all add: contactsByID_def contactOpID_def update_conv')

lemma distinct_contactsByID: "distinct (map fst (contactsByID cs))"
  by (induction cs rule: rev_induct) (simp_all add: contactsByID_def distinct_update)

lemma view_Some:
  assumes "distinct (map ct_Alias cs)"
  shows "contact_view cs i = Some c \<longleftrightarrow> c \<in> set cs \<and> ct_Alias c = i"
proof -
  have "distinct (map fst (rev (map (\<lambda>c. (ct_Alias c, c)) cs)))" using assms by (simp add: rev_map [symmetric] comp_def)
  then show ?thesis unfolding contactsByID_view by (auto simp: map_of_eq_Some_iff)
qed

lemma view_None: "contact_view cs i = None \<longleftrightarrow> i \<notin> ct_Alias ` set cs"
  by (auto simp: contactsByID_view map_of_eq_None_iff image_image)

lemma keys_contactsByID: "set (map fst (contactsByID cs)) = ct_Alias ` set cs"
  using view_None [of cs] by (force simp: map_of_eq_None_iff)

text \<open>The working set: keyed by alias, every entry can be stored.\<close>

definition keyed :: "contact_map \<Rightarrow> bool" where
  "keyed b \<longleftrightarrow> distinct (map fst b) \<and> (\<forall>i c. map_of b i = Some c \<longrightarrow> ct_Alias c = i \<and> storable_contact c)"

definition honest_op :: "ContactOp \<Rightarrow> bool" where
  "honest_op p \<longleftrightarrow> (\<forall>j ct. cop_Op p = ''put'' \<longrightarrow> cop_Contact p = Some j \<longrightarrow> dec_struct Contact_fields j zero_Contact = (ct, DOk)
     \<longrightarrow> ct_Alias ct = cop_ID p \<and> storable_contact ct)"

lemma keyed_applyPlainOp:
  assumes "keyed b" "honest_op p"
  shows "keyed (applyPlainOp p b)"
proof -
  have "distinct (map fst (applyPlainOp p b))" using assms(1)
    by (auto simp: applyPlainOp_def keyed_def distinct_update distinct_delete split: option.split prod.split dstat.split)
  moreover have "op_val p (map_of b (cop_ID p)) = Some c \<Longrightarrow> ct_Alias c = cop_ID p \<and> storable_contact c" for c
    using assms by (auto simp: op_val_def keyed_def honest_op_def split: if_splits option.splits prod.splits dstat.splits)
  ultimately show ?thesis using assms(1) by (auto simp: keyed_def map_of_applyPlainOp)
qed

lemma keyed_apply_ops: "keyed b \<Longrightarrow> list_all honest_op ps \<Longrightarrow> keyed (fold applyPlainOp ps b)"
  by (induction ps arbitrary: b) (simp_all add: keyed_applyPlainOp)

lemma keyed_contactsByID: "good_contacts cs \<Longrightarrow> keyed (contactsByID cs)"
  by (simp add: keyed_def distinct_contactsByID view_Some good_contacts_def list_all_iff del: map_of_eq_Some_iff)

text \<open>Sorted and stored, the working set is the same view.\<close>

lemma contactsSorted_good:
  assumes "keyed b"
  shows "good_contacts (contactsSorted b)" "contact_view (contactsSorted b) = map_of b"
proof -
  have al: "ct_Alias c = i \<and> storable_contact c" if "(i, c) \<in> set b" for i c using assms that by (simp add: keyed_def)
  then have "map ct_Alias (map snd b) = map fst b" unfolding map_map by (intro map_cong) auto
  then have "distinct (map ct_Alias (map snd b))" using assms unfolding keyed_def by metis
  moreover have "distinct (map ct_Alias xs) \<Longrightarrow> distinct (map ct_Alias (sort_key contactOpID xs))" for xs by (simp add: distinct_map)
  ultimately have d: "distinct (map ct_Alias (contactsSorted b))" unfolding contactsSorted_def by blast
  moreover have "list_all storable_contact (contactsSorted b)" using al by (auto simp: contactsSorted_def list_all_iff)
  ultimately show "good_contacts (contactsSorted b)" by (simp add: good_contacts_def)
  have "contact_view (contactsSorted b) i = Some c \<longleftrightarrow> map_of b i = Some c" for i c
  proof -
    have "map_of b i = Some c \<longleftrightarrow> (i, c) \<in> set b" using assms by (simp add: keyed_def map_of_eq_Some_iff)
    with al show ?thesis unfolding view_Some [OF d] by (force simp: contactsSorted_def)
  qed
  then show "contact_view (contactsSorted b) = map_of b" by (metis (no_types) ext not_Some_eq)
qed

section \<open>Local edits as operations\<close>

lemma wf_json_mono: "wf_json d j \<Longrightarrow> d \<le> e \<Longrightarrow> wf_json e j"
  by (induction d j arbitrary: e rule: wf_json.induct) (auto simp: diff_le_mono)

lemma contactsEqual_iff:
  assumes "storable_contact a" "storable_contact b"
  shows "contactsEqual a b \<longleftrightarrow> a = b"
proof
  assume "contactsEqual a b"
  with assms have "compact (enc_Contact a) = compact (enc_Contact b)" by (auto simp: contactsEqual_def storable_contact_def split: if_splits)
  moreover have "parse_json (compact (enc_Contact c)) = Some (enc_Contact c)" for c
    using wf_json_mono [OF wf_enc_Contact [of c]] by (intro parse_compact) simp
  ultimately have "enc_Contact a = enc_Contact b" by (metis option.inject)
  with assms dec_enc_Contact show "a = b" unfolding storable_contact_def by (metis prod.inject)
qed (use assms in \<open>simp add: contactsEqual_def storable_contact_def\<close>)

lemma put_op_cases:
  assumes "storable_contact c" "\<And>old. map_of prev (ct_Alias c) = Some old \<Longrightarrow> storable_contact old"
  shows "put_op prev c = (if map_of prev (ct_Alias c) = Some c then []
      else [\<lparr>cop_Op = ''put'', cop_ID = ct_Alias c, cop_Contact = Some (enc_Contact c)\<rparr>])"
  using assms contactsEqual_iff by (auto simp: put_op_def Let_def contactOpID_def storable_contact_def split: option.splits)

text \<open>The difference to the shadow: one operation for each alias whose entry changed, which sets the new entry.\<close>

lemma diffContacts_ops:
  assumes "good_contacts shadow" "good_contacts local"
  shows "cop_ID ` set (diffContacts shadow local) = {i. contact_view shadow i \<noteq> contact_view local i}"
    and "p \<in> set (diffContacts shadow local) \<Longrightarrow> op_val p v = contact_view local (cop_ID p) \<and> honest_op p \<and> (\<exists>c. p = \<lparr>cop_Op = ''put'', cop_ID = ct_Alias c, cop_Contact = Some (enc_Contact c)\<rparr> \<and> storable_contact c
          \<or> p = \<lparr>cop_Op = ''del'', cop_ID = ct_Alias c, cop_Contact = None\<rparr> \<and> storable_contact c)"
proof -
  have sh: "storable_contact c" if "contact_view shadow i = Some c" for i c
    using that assms(1) by (simp add: view_Some good_contacts_def list_all_iff del: map_of_eq_Some_iff)
  have lo: "storable_contact c" "contact_view local (ct_Alias c) = Some c" if "c \<in> set local" for c
    using that assms(2) by (simp_all add: view_Some good_contacts_def list_all_iff del: map_of_eq_Some_iff)
  let ?puts = "{\<lparr>cop_Op = ''put'', cop_ID = ct_Alias c, cop_Contact = Some (enc_Contact c)\<rparr> | c. c \<in> set local \<and> contact_view shadow (ct_Alias c) \<noteq> Some c}"
  let ?dels = "{\<lparr>cop_Op = ''del'', cop_ID = i, cop_Contact = None\<rparr> | i. i \<in> ct_Alias ` set shadow - ct_Alias ` set local}"
  have "set (put_op (contactsByID shadow) c) = {\<lparr>cop_Op = ''put'', cop_ID = ct_Alias c, cop_Contact = Some (enc_Contact c)\<rparr> | x. contact_view shadow (ct_Alias c) \<noteq> Some c}"
    if "c \<in> set local" for c
    using put_op_cases [OF lo(1) [OF that] sh] by simp
  then have "(\<Union>c\<in>set local. set (put_op (contactsByID shadow) c)) = ?puts" by fastforce
  then have ops: "set (diffContacts shadow local) = ?puts \<union> ?dels"
    using keys_contactsByID [of shadow] by (auto simp: diffContacts_def Let_def contactOpID_def)
  have ch: "contact_view shadow i \<noteq> contact_view local i \<longleftrightarrow> (\<exists>c\<in>set local. i = ct_Alias c \<and> contact_view shadow i \<noteq> Some c) \<or> i \<in> ct_Alias ` set shadow - ct_Alias ` set local" for i
  proof (cases "i \<in> ct_Alias ` set local")
    case True
    then obtain c where c: "c \<in> set local" "i = ct_Alias c" by blast
    then have "contact_view local i = Some c" using lo(2) by simp
    with c lo(2) True show ?thesis by (metis DiffE option.inject)
  next
    case False
    then show ?thesis using view_None [of local i] view_None [of shadow i] by auto
  qed
  show "cop_ID ` set (diffContacts shadow local) = {i. contact_view shadow i \<noteq> contact_view local i}"
  proof -
    have "cop_ID ` ?puts = {i. \<exists>c\<in>set local. i = ct_Alias c \<and> contact_view shadow i \<noteq> Some c}" by force
    moreover have "cop_ID ` ?dels = ct_Alias ` set shadow - ct_Alias ` set local" by force
    ultimately show ?thesis unfolding ops ch image_Un by auto
  qed
  have d: "dec_struct Contact_fields (enc_Contact c) zero_Contact = (c, DOk)" if "c \<in> set local" for c
    using lo(1) [OF that] by (simp add: storable_contact_def dec_enc_Contact)
  show "op_val p v = contact_view local (cop_ID p) \<and> honest_op p \<and> (\<exists>c. p = \<lparr>cop_Op = ''put'', cop_ID = ct_Alias c, cop_Contact = Some (enc_Contact c)\<rparr> \<and> storable_contact c
          \<or> p = \<lparr>cop_Op = ''del'', cop_ID = ct_Alias c, cop_Contact = None\<rparr> \<and> storable_contact c)"
    if "p \<in> set (diffContacts shadow local)"
  proof -
    from that consider c where "c \<in> set local" "p = \<lparr>cop_Op = ''put'', cop_ID = ct_Alias c, cop_Contact = Some (enc_Contact c)\<rparr>"
      | c where "c \<in> set shadow" "ct_Alias c \<notin> ct_Alias ` set local" "p = \<lparr>cop_Op = ''del'', cop_ID = ct_Alias c, cop_Contact = None\<rparr>"
      unfolding ops by blast
    then show ?thesis
    proof cases
      case (1 c)
      then show ?thesis using d [OF 1(1)] lo [OF 1(1)] by (auto simp: op_val_def honest_op_def)
    next
      case (2 c)
      moreover have "storable_contact c" using 2(1) assms(1) by (simp add: good_contacts_def list_all_iff)
      ultimately show ?thesis using view_None [of local "ct_Alias c"] by (auto simp: op_val_def honest_op_def)
    qed
  qed
qed

lemma fold_overwrites:
  assumes "\<And>p v. p \<in> set ps \<Longrightarrow> op_val p v = w"
  shows "fold op_val ps v = (if ps = [] then v else w)"
  using assms by (induction ps arbitrary: v) auto

lemma diffContacts_fold:
  assumes "good_contacts shadow" "good_contacts local"
  shows "fold op_val (filter (\<lambda>p. cop_ID p = i) (diffContacts shadow local)) v
     = (if contact_view shadow i \<noteq> contact_view local i then contact_view local i else v)"
proof -
  have "op_val p v = contact_view local i" if "p \<in> set (filter (\<lambda>p. cop_ID p = i) (diffContacts shadow local))" for p v
    using that diffContacts_ops(2) [OF assms, of p v] by auto
  from fold_overwrites [OF this] have "fold op_val (filter (\<lambda>p. cop_ID p = i) (diffContacts shadow local)) v
      = (if filter (\<lambda>p. cop_ID p = i) (diffContacts shadow local) = [] then v else contact_view local i)" by blast
  moreover have "filter (\<lambda>p. cop_ID p = i) (diffContacts shadow local) = [] \<longleftrightarrow> contact_view shadow i = contact_view local i"
  proof -
    have "i \<in> cop_ID ` set (diffContacts shadow local) \<longleftrightarrow> contact_view shadow i \<noteq> contact_view local i"
      using diffContacts_ops(1) [OF assms] by simp
    then show ?thesis unfolding filter_empty_conv by blast
  qed
  ultimately show ?thesis by simp
qed

section \<open>The log\<close>

text \<open>
  What the client relies on: \<open>hist s\<close> is everything ever appended for the contacts, in order, the first
  operation with sequence number 1; it only grows, also by other devices between and during requests.
  An append adds its operations as one block and answers with their numbers. A page after \<open>n\<close> is a run
  of the log that starts there, provided the log was not compacted beyond \<open>n\<close>: it is kept from \<open>t\<close> on.
  Without has_more the page reaches the end, with it the page is not empty.
\<close>

definition log_page :: "bytes list \<Rightarrow> nat \<Rightarrow> nat \<Rightarrow> (int \<times> bytes) list" where
  "log_page h n k = map (\<lambda>i. (int i + 1, b64_encode (h ! i))) [n..<n + k]"

definition log_ops :: "bytes list \<Rightarrow> nat \<Rightarrow> nat \<Rightarrow> Op list" where
  "log_ops h n k = map (\<lambda>i. \<lparr>op_Seq = int i + 1, op_Ciphertext = h ! i\<rparr>) [n..<n + k]"

definition op_log_service :: "'s Service \<Rightarrow> ('s \<Rightarrow> bytes list) \<Rightarrow> nat \<Rightarrow> bool" where
  "op_log_service sv hist t \<longleftrightarrow>
     (\<forall>s s' r. sv_maxContacts sv s = (s', r) \<longrightarrow> prefix (hist s) (hist s'))
     \<and> (\<forall>s s' r. sv_getBlob sv s ''contacts'' = (s', r) \<longrightarrow> prefix (hist s) (hist s'))
     \<and> (\<forall>s c n v s' r. sv_compactOps sv s ''contacts'' c n v = (s', r) \<longrightarrow> prefix (hist s) (hist s'))
     \<and> (\<forall>s cts s' a. sv_appendOps sv s ''contacts'' (map b64_encode cts) = (s', Inr a) \<longrightarrow>
          (\<exists>h. prefix (hist s) h \<and> hist s' = h @ cts \<and> ao_FirstSeq a = int (length h) + 1 \<and> ao_LastSeq a = int (length h + length cts)))
     \<and> (\<forall>s n s' r. sv_ops sv s ''contacts'' n = (s', r) \<longrightarrow> prefix (hist s) (hist s'))
     \<and> (\<forall>s n s' items more. sv_ops sv s ''contacts'' (int n) = (s', Inr (items, more)) \<longrightarrow> t \<le> n \<longrightarrow> n \<le> length (hist s) \<longrightarrow>
          (\<exists>k. n + k \<le> length (hist s') \<and> items = log_page (hist s') n k
            \<and> (if more then k > 0 else n + k = length (hist s'))))"

lemma op_log_requests:
  assumes "op_log_service sv hist t"
  shows "sv_maxContacts sv s = (s', r) \<Longrightarrow> prefix (hist s) (hist s')"
    and "sv_getBlob sv s ''contacts'' = (s', b) \<Longrightarrow> prefix (hist s) (hist s')"
    and "sv_compactOps sv s ''contacts'' c n v = (s', q) \<Longrightarrow> prefix (hist s) (hist s')"
    and "sv_ops sv s ''contacts'' n = (s', p) \<Longrightarrow> prefix (hist s) (hist s')"
proof -
  have l: "\<forall>s s' r. sv_maxContacts sv s = (s', r) \<longrightarrow> prefix (hist s) (hist s')"
    "\<forall>s s' r. sv_getBlob sv s ''contacts'' = (s', r) \<longrightarrow> prefix (hist s) (hist s')"
    "\<forall>s c n v s' r. sv_compactOps sv s ''contacts'' c n v = (s', r) \<longrightarrow> prefix (hist s) (hist s')"
    "\<forall>s n s' r. sv_ops sv s ''contacts'' n = (s', r) \<longrightarrow> prefix (hist s) (hist s')"
    using assms unfolding op_log_service_def by simp_all
  show "prefix (hist s) (hist s')" if "sv_maxContacts sv s = (s', r)" using l(1) that by blast
  show "prefix (hist s) (hist s')" if "sv_getBlob sv s ''contacts'' = (s', b)" using l(2) that by blast
  show "prefix (hist s) (hist s')" if "sv_compactOps sv s ''contacts'' c n v = (s', q)" using l(3) that by blast
  show "prefix (hist s) (hist s')" if "sv_ops sv s ''contacts'' n = (s', p)" using l(4) that by blast
qed

lemma op_log_page:
  assumes "op_log_service sv hist t" "sv_ops sv s ''contacts'' (int n) = (s', Inr (items, mr))" "t \<le> n" "n \<le> length (hist s)"
  shows "\<exists>k. n + k \<le> length (hist s') \<and> items = log_page (hist s') n k \<and> (if mr then k > 0 else n + k = length (hist s'))"
proof -
  have "\<forall>s n s' items mr. sv_ops sv s ''contacts'' (int n) = (s', Inr (items, mr)) \<longrightarrow> t \<le> n \<longrightarrow> n \<le> length (hist s) \<longrightarrow>
      (\<exists>k. n + k \<le> length (hist s') \<and> items = log_page (hist s') n k \<and> (if mr then k > 0 else n + k = length (hist s')))"
    using assms(1) unfolding op_log_service_def by simp
  then show ?thesis using assms(2-4) by blast
qed

lemma op_log_append:
  assumes "op_log_service sv hist t" "sv_appendOps sv s ''contacts'' (map b64_encode cts) = (s', Inr a)"
  shows "\<exists>h. prefix (hist s) h \<and> hist s' = h @ cts \<and> ao_FirstSeq a = int (length h) + 1 \<and> ao_LastSeq a = int (length h + length cts)"
proof -
  have "\<forall>s cts s' a. sv_appendOps sv s ''contacts'' (map b64_encode cts) = (s', Inr a) \<longrightarrow>
      (\<exists>h. prefix (hist s) h \<and> hist s' = h @ cts \<and> ao_FirstSeq a = int (length h) + 1 \<and> ao_LastSeq a = int (length h + length cts))"
    using assms(1) unfolding op_log_service_def by simp
  then show ?thesis using assms(2) by blast
qed

lemma decode_log_page: "decode_items (log_page h n k) = Inr (log_ops h n k)"
proof -
  have "decode_items (map (\<lambda>i. (int i + 1, b64_encode (h ! i))) xs) = Inr (map (\<lambda>i. \<lparr>op_Seq = int i + 1, op_Ciphertext = h ! i\<rparr>) xs)" for xs
    by (induction xs) auto
  then show ?thesis by (simp add: log_page_def log_ops_def)
qed

lemma log_ops_prefix: "prefix h h' \<Longrightarrow> n + k \<le> length h \<Longrightarrow> log_ops h n k = log_ops h' n k"
  by (auto simp: log_ops_def prefix_def nth_append)

lemma log_ops_append: "log_ops h n k @ log_ops h (n + k) l = log_ops h n (k + l)"
  by (simp add: log_ops_def add.assoc [symmetric] upt_add_eq_append [of n "n + k"] flip: map_append)

lemma fetch_pages_prefix:
  assumes "fetch_pages sv resource since all s = Some r"
  shows "op_log_service sv hist t \<Longrightarrow> resource = ''contacts'' \<Longrightarrow> prefix (hist s) (hist (fst r))"
  using assms
proof (induction rule: fetch_pages.raw_induct [rotated 1, consumes 1])
  case (1 f sv resource since all s y)
  obtain s1 r1 where page: "sv_ops sv s ''contacts'' since = (s1, r1)" by (cases "sv_ops sv s ''contacts'' since")
  have p: "prefix (hist s) (hist s1)" using op_log_requests(4) [OF 1(3) page] .
  from 1(2,4) page consider "fst y = s1" | since' all' where "f sv resource since' all' s1 = Some y"
    by (auto split: sum.splits prod.splits if_splits)
  then show ?case
  proof cases
    case 2
    from 1(1) [OF this 1(3,4)] p show ?thesis by (rule prefix_order.trans [rotated])
  qed (use p in simp)
qed

lemma fetch_pages_log:
  assumes "fetch_pages sv resource since all s = Some r"
  shows "op_log_service sv hist t \<Longrightarrow> resource = ''contacts'' \<Longrightarrow> since = int n \<Longrightarrow> t \<le> n \<Longrightarrow> n \<le> length (hist s) \<Longrightarrow> r = (s', Inr ops) \<Longrightarrow>
     prefix (hist s) (hist s') \<and> ops = all @ log_ops (hist s') n (length (hist s') - n)"
  using assms
proof (induction arbitrary: n rule: fetch_pages.raw_induct [rotated 1, consumes 1])
  case (1 f sv resource since all s y)
  from 1(2-) obtain s1 items more where page: "sv_ops sv s ''contacts'' (int n) = (s1, Inr (items, more))"
    by (auto split: prod.splits sum.splits)
  from op_log_page [OF 1(3) page 1(6,7)] op_log_requests(4) [OF 1(3) page] obtain k
    where p: "prefix (hist s) (hist s1)" "n + k \<le> length (hist s1)" "items = log_page (hist s1) n k"
      "if more then k > 0 else n + k = length (hist s1)" by blast
  show ?case
  proof (cases more)
    case False
    with 1(2) 1(4,5,8) page p have "s' = s1" "ops = all @ log_ops (hist s1) n k" by (auto simp: decode_log_page)
    moreover from False p(4) have "k = length (hist s1) - n" by simp
    ultimately show ?thesis using p(1) by simp
  next
    case True
    with p(4) have k: "k > 0" by simp
    then have "fst (last items) = int (n + k)" "items \<noteq> []" by (simp_all add: p(3) log_page_def last_map)
    with 1(2) 1(4,5,8) page p(3) True have f: "f sv ''contacts'' (int (n + k)) (all @ log_ops (hist s1) n k) s1 = Some (s', Inr ops)"
      by (auto simp: decode_log_page)
    have "t \<le> n + k" using 1(6) by simp
    from 1(1) [OF f 1(3) refl refl this p(2) refl] have r: "prefix (hist s1) (hist s')"
        "ops = (all @ log_ops (hist s1) n k) @ log_ops (hist s') (n + k) (length (hist s') - (n + k))" by simp_all
    have "length (hist s1) \<le> length (hist s')" using r(1) by (simp add: prefix_length_le)
    then have "log_ops (hist s1) n k @ log_ops (hist s') (n + k) (length (hist s') - (n + k)) = log_ops (hist s') n (length (hist s') - n)"
      using log_ops_prefix [OF r(1) p(2)] log_ops_append [of "hist s'" n k] p(2) by simp
    with r p(1) show ?thesis by (auto intro: prefix_order.trans)
  qed
qed

text \<open>The operation in a ciphertext of the log, and the contacts the log stands for.\<close>

definition op_of :: "SelfCrypter \<Rightarrow> bytes \<Rightarrow> ContactOp" where
  "op_of u ct = (case decode_op u ct of Inl _ \<Rightarrow> zero_ContactOp | Inr p \<Rightarrow> p)"

definition log_contacts :: "SelfCrypter \<Rightarrow> bytes list \<Rightarrow> bytes \<Rightarrow> Contact option" where
  "log_contacts u cts = map_of (fold applyPlainOp (map (op_of u) cts) [])"

definition honest_log :: "SelfCrypter \<Rightarrow> bytes list \<Rightarrow> bool" where
  "honest_log u cts \<longleftrightarrow> list_all (\<lambda>ct. \<exists>p. decode_op u ct = Inr p \<and> honest_op p) cts"

lemma op_of_ok: "decode_op u ct = Inr p \<Longrightarrow> op_of u ct = p"
  by (simp add: op_of_def)

lemma log_contacts_append:
  "log_contacts u (h @ cts) i = fold op_val (filter (\<lambda>p. cop_ID p = i) (map (op_of u) cts)) (log_contacts u h i)"
  by (simp add: log_contacts_def map_of_apply_ops)

lemma honest_log_append [simp]: "honest_log u (a @ b) \<longleftrightarrow> honest_log u a \<and> honest_log u b"
  by (simp add: honest_log_def)

lemma honest_log_ops: "honest_log u cts \<Longrightarrow> list_all honest_op (map (op_of u) cts)"
  by (auto simp: honest_log_def list_all_iff op_of_def)

lemma honest_nth:
  assumes "honest_log u (take m h)" "n < m" "m \<le> length h"
  shows "\<exists>p. decode_op u (h ! n) = Inr p"
proof -
  have "take m h ! n \<in> set (take m h)" using assms(2,3) by (intro nth_mem) simp
  with assms show ?thesis by (auto simp: honest_log_def list_all_iff)
qed

lemma log_ops_Suc: "log_ops h n (Suc k) = \<lparr>op_Seq = int n + 1, op_Ciphertext = h ! n\<rparr> # log_ops h (Suc n) k"
  by (simp add: log_ops_def upt_conv_Cons del: upt_Suc)

lemma apply_ops_log:
  assumes "honest_log u (take (n + k) h)" "n + k \<le> length h" "st' = (if k = 0 then st else st\<lparr>cs_Seq := int (n + k)\<rparr>)"
  shows "apply_ops u (log_ops h n k) base st = (st', Inr (fold applyPlainOp (map (op_of u) (take k (drop n h))) base))"
  using assms
proof (induction k arbitrary: n base st)
  case (Suc k)
  have n: "n < length h" using Suc.prems(2) by simp
  obtain p where p: "decode_op u (h ! n) = Inr p" using honest_nth [OF Suc.prems(1) _ Suc.prems(2), of n] by auto
  note l = log_ops_Suc [of h n k]
  have d: "take (Suc k) (drop n h) = h ! n # take k (drop (Suc n) h)" using n by (simp add: Cons_nth_drop_Suc [symmetric])
  have "apply_ops u (log_ops h (Suc n) k) (applyPlainOp p base) (st\<lparr>cs_Seq := int n + 1\<rparr>)
      = (st', Inr (fold applyPlainOp (map (op_of u) (take k (drop (Suc n) h))) (applyPlainOp p base)))"
    using Suc.prems by (intro Suc.IH) (auto simp: ac_simps)
  then show ?case using p unfolding l d
    by (simp add: applyContactOp_def applyContactOpSkipping_def op_of_ok)
qed (simp add: log_ops_def)

lemma applyGapOps_log:
  assumes "honest_log u (take (n + k) h)" "n + k \<le> length h" "n \<le> m" "m \<le> n + k"
  shows "applyGapOps u base (log_ops h n k) (int m + 1) skip
     = Inr (fold applyPlainOp (filter (\<lambda>p. cop_ID p \<notin> skip) (map (op_of u) (take (m - n) (drop n h)))) base)"
  using assms
proof (induction k arbitrary: n base)
  case (Suc k)
  have n: "n < length h" using Suc.prems(2) by simp
  obtain p where p: "decode_op u (h ! n) = Inr p" using honest_nth [OF Suc.prems(1) _ Suc.prems(2), of n] by auto
  note l = log_ops_Suc [of h n k]
  show ?case
  proof (cases "n = m")
    case False
    with Suc.prems(3) have "m - n = Suc (m - Suc n)" by simp
    with n have m: "take (m - n) (drop n h) = h ! n # take (m - Suc n) (drop (Suc n) h)" by (simp add: Cons_nth_drop_Suc [symmetric])
    have "applyGapOps u b (log_ops h (Suc n) k) (int m + 1) skip
        = Inr (fold applyPlainOp (filter (\<lambda>p. cop_ID p \<notin> skip) (map (op_of u) (take (m - Suc n) (drop (Suc n) h)))) b)" for b
      using Suc.prems False by (intro Suc.IH) auto
    then show ?thesis using p False Suc.prems(3) unfolding l m
      by (auto simp: applyContactOpSkipping_def op_of_ok)
  qed (simp add: log_ops_Suc)
qed (simp add: log_ops_def)

lemma find_ContactOp:
  "find_field ContactOp_fields ''op'' = Some (snd (fld ''op'' dec_str cop_Op cop_Op_update))"
  "find_field ContactOp_fields ''id'' = Some (snd (fld ''id'' dec_str cop_ID cop_ID_update))"
  "find_field ContactOp_fields ''contact'' = Some (snd (fld ''contact'' dec_raw cop_Contact cop_Contact_update))"
  by (simp_all add: ContactOp_fields_def find_field_def fld_def)

lemma unmarshal_ContactOp:
  assumes "valid_utf8 (cop_Op p)" "valid_utf8 (cop_ID p)" "\<And>j. cop_Contact p = Some j \<Longrightarrow> wf_json 9999 j"
  shows "unmarshal (dec_struct ContactOp_fields) zero_ContactOp (compact (enc_ContactOp p)) = Some p"
proof -
  have "wf_json 10000 (enc_ContactOp p)" using assms(3) by (auto simp: enc_ContactOp_def valid_utf8_ascii split: option.split)
  moreover have "dec_struct ContactOp_fields (enc_ContactOp p) zero_ContactOp = (p, DOk)" using assms(1,2)
    by (cases "cop_Contact p") (simp_all add: enc_ContactOp_def json_rt find_ContactOp fld_def zero_ContactOp_def dec_raw_def)
  ultimately show ?thesis by (simp add: unmarshal_compact)
qed

lemma seal_ops_log:
  assumes "sc_correct u" "seal_ops u rnd i ps = Inr cts"
    and "\<And>p. p \<in> set ps \<Longrightarrow> unmarshal (dec_struct ContactOp_fields) zero_ContactOp (compact (enc_ContactOp p)) = Some p"
  shows "map (decode_op u) cts = map Inr ps"
  using assms(2,3)
proof (induction ps arbitrary: i cts)
  case (Cons p ps)
  from Cons.prems(1) obtain ct r where c: "sc_EncryptToSelf u (rnd i) (compact (enc_ContactOp p)) = Inr ct"
      "seal_ops u rnd (Suc i) ps = Inr r" "cts = ct # r" by auto
  from c(1) assms(1) have "sc_Decrypt u ct = Inr (compact (enc_ContactOp p))" unfolding sc_correct_def by blast
  with Cons.prems(2) [of p] have "decode_op u ct = Inr p" by (simp add: decode_op_def)
  with c(3) Cons.IH [OF c(2)] Cons.prems(2) show ?case by simp
qed simp

section \<open>The phases of a pass\<close>

text \<open>
  The working set agrees with the log up to the position: \<open>follows u h base n\<close>. The history a phase
  refers to may be any later one.
\<close>

definition follows :: "SelfCrypter \<Rightarrow> bytes list \<Rightarrow> contact_map \<Rightarrow> int \<Rightarrow> bool" where
  "follows u h base n \<longleftrightarrow> 0 \<le> n \<and> nat n \<le> length h \<and> keyed base \<and> map_of base = log_contacts u (take (nat n) h)"

lemma follows_mono: "follows u h base n \<Longrightarrow> prefix h h' \<Longrightarrow> follows u h' base n"
  by (auto simp: follows_def prefix_def)

lemma follows_extend:
  assumes "follows u h base n" "nat n \<le> m" "m \<le> length h" "honest_log u h"
  shows "follows u h (fold applyPlainOp (map (op_of u) (take (m - nat n) (drop (nat n) h))) base) (int m)"
proof -
  have t: "take m h = take (nat n) h @ take (m - nat n) (drop (nat n) h)" using assms(2) by (metis le_add_diff_inverse take_add)
  have "honest_log u (take m h)" using assms(4) append_take_drop_id [of m h] honest_log_append [of u "take m h" "drop m h"] by simp
  then have h: "honest_log u (take (m - nat n) (drop (nat n) h))" unfolding t by simp
  have "keyed (fold applyPlainOp (map (op_of u) (take (m - nat n) (drop (nat n) h))) base)"
    using assms(1) honest_log_ops [OF h] by (intro keyed_apply_ops) (simp_all add: follows_def)
  moreover have "map_of (fold applyPlainOp (map (op_of u) (take (m - nat n) (drop (nat n) h))) base) i = log_contacts u (take m h) i" for i
    using assms(1) unfolding t by (simp add: log_contacts_append map_of_apply_ops follows_def)
  ultimately show ?thesis using assms(3) by (auto simp: follows_def fun_eq_iff)
qed

lemma pull_ops_follows:
  assumes "op_log_service sv hist t" "honest_log u (hist s')" "follows u (hist s) base (cs_Seq st)" "t \<le> nat (cs_Seq st)"
    and "pull_ops sv u maxSeq base (s, st) = Some ((s', st'), Inr (base', k))"
  shows "prefix (hist s) (hist s') \<and> follows u (hist s') base' (cs_Seq st') \<and> cs_Seq st \<le> cs_Seq st'
    \<and> (maxSeq \<le> int (length (hist s)) \<longrightarrow> maxSeq \<le> cs_Seq st')"
proof (cases "maxSeq > cs_Seq st")
  case True
  let ?n = "nat (cs_Seq st)"
  from assms(3) have n: "cs_Seq st = int ?n" "?n \<le> length (hist s)" by (auto simp: follows_def)
  from True assms(5) obtain ops where f: "fetch_pages sv ''contacts'' (int ?n) [] s = Some (s', Inr ops)"
      and ap: "apply_ops u ops base st = (st', Inr base')"
    unfolding pull_ops_def FetchOpsSince_def using n(1) by (auto split: if_splits option.splits prod.splits sum.splits)
  from fetch_pages_log [OF f assms(1) refl refl assms(4) n(2) refl]
  have p: "prefix (hist s) (hist s')" "ops = log_ops (hist s') ?n (length (hist s') - ?n)" by simp_all
  then have len: "?n \<le> length (hist s')" using n(2) prefix_length_le le_trans by blast
  let ?st = "if length (hist s') - ?n = 0 then st else st\<lparr>cs_Seq := int (?n + (length (hist s') - ?n))\<rparr>"
  have "apply_ops u ops base st = (?st, Inr (fold applyPlainOp (map (op_of u) (take (length (hist s') - ?n) (drop ?n (hist s')))) base))"
    unfolding p(2) using assms(2) len by (intro apply_ops_log) auto
  with ap have r: "st' = ?st" "base' = fold applyPlainOp (map (op_of u) (take (length (hist s') - ?n) (drop ?n (hist s')))) base" by simp_all
  have sq: "cs_Seq st' = int (length (hist s'))" using r(1) n len by auto
  have "follows u (hist s') base' (int (length (hist s')))"
    unfolding r(2) using follows_mono [OF assms(3) p(1)] len assms(2) by (intro follows_extend) auto
  with sq p(1) n len show ?thesis using prefix_length_le [OF p(1)] by simp
next
  case False
  with assms(5) have "s' = s" "st' = st" "base' = base" by (auto simp: pull_ops_def)
  with False assms(3) show ?thesis by simp
qed

text \<open>
  Local operations that overwrite their entries may be applied before the ones that raced them, if
  these skip the entries written: the result is that of the order in the log.
\<close>

lemma gap_order:
  assumes "\<And>p v. p \<in> set ls \<Longrightarrow> op_val p v = w (cop_ID p)"
  shows "map_of (fold applyPlainOp (filter (\<lambda>p. cop_ID p \<notin> cop_ID ` set ls) gs) (fold applyPlainOp ls b))
       = map_of (fold applyPlainOp ls (fold applyPlainOp gs b))"
proof
  fix i
  have ls: "fold op_val (filter (\<lambda>p. cop_ID p = i) ls) v = (if i \<in> cop_ID ` set ls then w i else v)" for v
    using fold_overwrites [of "filter (\<lambda>p. cop_ID p = i) ls" "w i" v] assms by (auto simp: filter_empty_conv)
  show "map_of (fold applyPlainOp (filter (\<lambda>p. cop_ID p \<notin> cop_ID ` set ls) gs) (fold applyPlainOp ls b)) i
      = map_of (fold applyPlainOp ls (fold applyPlainOp gs b)) i"
  proof (cases "i \<in> cop_ID ` set ls")
    case True
    then have "filter (\<lambda>p. cop_ID p = i) (filter (\<lambda>p. cop_ID p \<notin> cop_ID ` set ls) gs) = []" by (auto simp: filter_empty_conv)
    then show ?thesis by (simp only: map_of_apply_ops ls True fold_simps if_True)
  next
    case False
    then have "filter (\<lambda>p. cop_ID p = i) (filter (\<lambda>p. cop_ID p \<notin> cop_ID ` set ls) gs) = filter (\<lambda>p. cop_ID p = i) gs"
      unfolding filter_filter by (intro filter_cong) auto
    then show ?thesis by (simp only: map_of_apply_ops ls False if_False)
  qed
qed

lemma fold_view_cong: "map_of b = map_of b' \<Longrightarrow> map_of (fold applyPlainOp ps b) = map_of (fold applyPlainOp ps b')"
  by (simp add: fun_eq_iff map_of_apply_ops)

lemma push_ops_follows:
  assumes "op_log_service sv hist t" "sc_correct u" "honest_log u (hist s')" "t \<le> nat (cs_Seq st)"
    and "follows u (hist s) base (cs_Seq st)" "list_all honest_op ls" "\<And>p v. p \<in> set ls \<Longrightarrow> op_val p v = w (cop_ID p)"
    and "\<And>p. p \<in> set ls \<Longrightarrow> unmarshal (dec_struct ContactOp_fields) zero_ContactOp (compact (enc_ContactOp p)) = Some p"
    and "push_ops sv u rnd ls (fold applyPlainOp ls base) (s, st) = Some ((s', st'), Inr base')"
  shows "prefix (hist s) (hist s') \<and> follows u (hist s') base' (cs_Seq st') \<and> cs_Seq st \<le> cs_Seq st'
    \<and> (\<forall>i. map_of base' i = (if i \<in> cop_ID ` set ls then w i else map_of base' i))"
proof (cases "ls = []")
  case True
  with assms(5,9) show ?thesis by (auto simp: push_ops_def)
next
  case False
  let ?n = "nat (cs_Seq st)"
  from assms(5) have n: "cs_Seq st = int ?n" "?n \<le> length (hist s)" by (auto simp: follows_def)
  from False assms(9) obtain cts s1 res where cts: "seal_ops u rnd 0 ls = Inr cts" and ap: "sv_appendOps sv s ''contacts'' (map b64_encode cts) = (s1, Inr res)"
    by (auto simp: push_ops_def AppendOps_def split: sum.splits prod.splits)
  from op_log_append [OF assms(1) ap] obtain h where h: "prefix (hist s) h" "hist s1 = h @ cts" "ao_FirstSeq res = int (length h) + 1" "ao_LastSeq res = int (length h + length cts)" by blast
  have "map (decode_op u) cts = map Inr ls" using seal_ops_log [OF assms(2) cts assms(8)] .
  then have ops: "map (op_of u) cts = ls" by (induction cts arbitrary: ls) (auto simp: op_of_ok)
  have nh: "?n \<le> length h" using n(2) prefix_length_le [OF h(1)] by simp
  let ?g = "map (op_of u) (drop ?n h)"
  have fin: "prefix (hist s1) (hist s') \<and> map_of base' = map_of (fold applyPlainOp ls (fold applyPlainOp ?g base)) \<and> keyed base'
      \<and> cs_Seq st' = int (length h + length cts)"
  proof (cases "length h = ?n")
    case True
    with False assms(9) cts ap h n have r: "s' = s1" "base' = fold applyPlainOp ls base" "st' = st\<lparr>cs_Seq := ao_LastSeq res\<rparr>"
      by (auto simp: push_ops_def AppendOps_def)
    have "keyed base'" unfolding r(2) using assms(5,6) by (intro keyed_apply_ops) (simp_all add: follows_def)
    with r True h(4) show ?thesis by simp
  next
    case neq: False
    with nh n h(3) have "ao_FirstSeq res > cs_Seq st + 1" by simp
    with False assms(9) cts ap n(1) obtain gap where f: "fetch_pages sv ''contacts'' (int ?n) [] s1 = Some (s', Inr gap)"
        and g: "applyGapOps u (fold applyPlainOp ls base) gap (ao_FirstSeq res) (cop_ID ` set ls) = Inr base'" "st' = st\<lparr>cs_Seq := ao_LastSeq res\<rparr>"
      by (auto simp: push_ops_def AppendOps_def FetchOpsSince_def split: option.splits prod.splits sum.splits)
    have "?n \<le> length (hist s1)" using nh h(2) by simp
    from fetch_pages_log [OF f assms(1) refl refl assms(4) this refl]
    have p: "prefix (hist s1) (hist s')" "gap = log_ops (hist s') ?n (length (hist s') - ?n)" by simp_all
    from p(1) h(2) obtain rest where e: "hist s' = h @ cts @ rest" by (auto simp: prefix_def)
    have d: "take (length h - ?n) (drop ?n (hist s')) = drop ?n h" using nh by (simp add: e)
    have "applyGapOps u (fold applyPlainOp ls base) gap (int (length h) + 1) (cop_ID ` set ls)
        = Inr (fold applyPlainOp (filter (\<lambda>p. cop_ID p \<notin> cop_ID ` set ls) (map (op_of u) (take (length h - ?n) (drop ?n (hist s'))))) (fold applyPlainOp ls base))"
      unfolding p(2) using assms(3) nh e by (intro applyGapOps_log) auto
    with g h(3) have b: "base' = fold applyPlainOp (filter (\<lambda>p. cop_ID p \<notin> cop_ID ` set ls) ?g) (fold applyPlainOp ls base)" unfolding d by simp
    have "honest_log u (drop ?n h)" using assms(3) e append_take_drop_id [of ?n h] honest_log_append [of u "take ?n h" "drop ?n h"] by simp
    then have "list_all honest_op (filter (\<lambda>p. cop_ID p \<notin> cop_ID ` set ls) ?g)" using honest_log_ops by (auto simp: list_all_iff)
    then have "keyed base'" unfolding b using assms(5,6) by (intro keyed_apply_ops) (simp_all add: follows_def)
    with p(1) g(2) h(4) show ?thesis using gap_order [OF assms(7)] b by simp
  qed
  then obtain rest where e: "hist s' = h @ cts @ rest" using h(2) by (auto simp: prefix_def)
  have "honest_log u h" using assms(3) e by simp
  from follows_extend [OF follows_mono [OF assms(5) h(1)] nh order_refl this]
  have "map_of (fold applyPlainOp ?g base) = log_contacts u h" by (simp add: follows_def)
  then have "map_of base' i = log_contacts u (h @ cts) i" for i
    using fin by (simp add: map_of_apply_ops log_contacts_append ops)
  then have "follows u (hist s') base' (cs_Seq st')" using fin e by (auto simp: follows_def)
  moreover have "prefix (hist s) (hist s')" using h(1) e by (auto simp: prefix_def)
  moreover have "map_of base' i = w i" if "i \<in> cop_ID ` set ls" for i
  proof -
    have "fold op_val (filter (\<lambda>p. cop_ID p = i) ls) v = w i" for v
      using fold_overwrites [of "filter (\<lambda>p. cop_ID p = i) ls" "w i" v] assms(7) that by (auto simp: filter_empty_conv)
    then show ?thesis using fin by (simp add: map_of_apply_ops)
  qed
  ultimately show ?thesis using fin n nh by auto
qed

lemma pass_prefix:
  assumes "op_log_service sv hist t"
  shows "bootstrap sv u snap has base (s, st) = ((s1, st1), Inr x) \<Longrightarrow> prefix (hist s) (hist s1)"
    and "pull_ops sv u maxSeq base (s, st) = Some ((s2, st2), Inr y) \<Longrightarrow> prefix (hist s) (hist s2)"
    and "push_ops sv u rnd ls base (s, st) = Some ((s3, st3), Inr z) \<Longrightarrow> prefix (hist s) (hist s3)"
    and "compactContacts sv u r merged (s, st) = ((s4, st4), Inr ()) \<Longrightarrow> prefix (hist s) (hist s4) \<and> cs_Seq st4 = cs_Seq st"
proof -
  have fetch: "prefix (hist s) (hist s')" if "FetchOpsSince sv ''contacts'' n s = Some (s', Inr ops)" for n s s' ops
    using fetch_pages_prefix [OF that [unfolded FetchOpsSince_def] assms] by simp
  have opn: "prefix (hist s) (hist s')" if "OpenBlob sv u ''contacts'' s = (s', Inr p)" for s s' p
  proof -
    from that obtain r where "sv_getBlob sv s ''contacts'' = (s', r)" unfolding OpenBlob_request by (auto split: prod.splits sum.splits)
    then show ?thesis by (rule op_log_requests(2) [OF assms])
  qed
  show "prefix (hist s) (hist s1)" if "bootstrap sv u snap has base (s, st) = ((s1, st1), Inr x)"
    using that opn by (auto simp: bootstrap_def split: if_splits prod.splits sum.splits option.splits)
  show "prefix (hist s) (hist s2)" if "pull_ops sv u maxSeq base (s, st) = Some ((s2, st2), Inr y)"
    using that fetch by (auto simp: pull_ops_def split: if_splits prod.splits sum.splits option.splits)
  have ap: "prefix (hist s) (hist s')" if "AppendOps sv ''contacts'' cts s = (s', Inr a)" for cts s' a
  proof -
    from op_log_append [OF assms that [unfolded AppendOps_def]] obtain h where "prefix (hist s) h" "hist s' = h @ cts" by blast
    then show ?thesis by auto
  qed
  show "prefix (hist s) (hist s3)" if "push_ops sv u rnd ls base (s, st) = Some ((s3, st3), Inr z)"
    using that ap prefix_order.trans [OF ap fetch] unfolding push_ops_def
    by (auto split: if_splits prod.splits sum.splits option.splits)
  show "prefix (hist s) (hist s4) \<and> cs_Seq st4 = cs_Seq st" if "compactContacts sv u r merged (s, st) = ((s4, st4), Inr ())"
    using that op_log_requests(3) [OF assms] by (auto simp: compactContacts_def CompactOps_def split: if_splits prod.splits sum.splits)
qed

lemma honest_log_prefix: "prefix h h' \<Longrightarrow> honest_log u h' \<Longrightarrow> honest_log u h"
  by (auto simp: prefix_def)

text \<open>The snapshot blob holds the contacts of the log up to the position it names.\<close>

definition snapshot_ok :: "'s Service \<Rightarrow> SelfCrypter \<Rightarrow> ('s \<Rightarrow> bytes list) \<Rightarrow> ServerBlobMeta \<Rightarrow> bool" where
  "snapshot_ok sv u hist snap \<longleftrightarrow> (\<forall>s s' p v. OpenBlob sv u ''contacts'' s = (s', Inr (p, v)) \<longrightarrow>
     (\<exists>cs. unmarshal (dec_list (dec_struct Contact_fields) zero_Contact) [] p = Some cs \<and> good_contacts cs
        \<and> contact_view cs = log_contacts u (take (nat (bm_ThroughSeq snap)) (hist s'))))"

lemma bootstrap_follows:
  assumes "op_log_service sv hist t" "bm_Version snap \<noteq> 0 \<longrightarrow> snapshot_ok sv u hist snap" "follows u (hist s) base (cs_Seq st)"
    and "0 \<le> bm_ThroughSeq snap" "bm_ThroughSeq snap \<le> int (length (hist s))" "bm_Version snap = 0 \<longrightarrow> bm_ThroughSeq snap = 0"
    and "bm_Version snap = cs_SnapshotVersion st \<longrightarrow> bm_ThroughSeq snap \<le> cs_Seq st"
    and "bootstrap sv u snap has base (s, st) = ((s', st'), Inr (base', b))"
  shows "follows u (hist s') base' (cs_Seq st') \<and> bm_ThroughSeq snap \<le> cs_Seq st'"
proof (cases "(bm_Version snap \<noteq> cs_SnapshotVersion st \<or> \<not> has) \<and> bm_Version snap \<noteq> 0 \<and> (\<not> has \<or> cs_Seq st < bm_ThroughSeq snap)")
  case True
  with assms(8) obtain p v cs where op: "OpenBlob sv u ''contacts'' s = (s', Inr (p, v))"
      "unmarshal (dec_list (dec_struct Contact_fields) zero_Contact) [] p = Some cs"
      "base' = contactsByID cs" "cs_Seq st' = bm_ThroughSeq snap"
    by (auto simp: bootstrap_def split: prod.splits sum.splits option.splits)
  from op(1,2) assms(2) True have "good_contacts cs" "contact_view cs = log_contacts u (take (nat (bm_ThroughSeq snap)) (hist s'))"
    unfolding snapshot_ok_def by fastforce+
  moreover have "length (hist s) \<le> length (hist s')" using pass_prefix(1) [OF assms(1,8)] by (rule prefix_length_le)
  ultimately show ?thesis using op(3,4) assms(4,5) keyed_contactsByID by (auto simp: follows_def)
next
  case False
  with assms(8) have "s' = s" "base' = base" "cs_Seq st' = cs_Seq st" by (auto simp: bootstrap_def split: if_splits)
  moreover have "bm_ThroughSeq snap \<le> cs_Seq st" using False assms(3,6,7) by (auto simp: follows_def)
  ultimately show ?thesis using assms(3) by simp
qed

lemma persist_loads:
  assumes "persist cpath spath cs d = (d', Inr ())" "good_contacts cs" "cpath \<noteq> spath"
    and "d_fault d SysRead cpath = None" "d_fault d SysRead spath = None"
  shows "Contacts_load cpath d' = Inr cs \<and> loadContactsShadow spath d' = Inr (cs, True)"
proof -
  from assms(1) obtain d1 where s: "Contacts_save cpath d cs = (d1, Inr ())" "saveContactsShadow spath d1 cs = (d', Inr ())"
    by (auto simp: persist_def split: prod.splits sum.splits)
  have wf: "list_all wf_Contact cs" "list_all Contact_marshals cs" using assms(2) by (auto simp: good_contacts_def storable_contact_def list_all_iff)
  from s(1) have "d_fault d1 = d_fault d" using WriteFileAtomic_frame by (auto simp: Contacts_save_def split: if_splits)
  with s(2) have d': "d_files d' = (d_files d1)(spath \<mapsto> indented (JArr (map enc_Contact cs)))" "d_fault d' = d_fault d" "d_fault d1 = d_fault d"
    by (auto simp: saveContactsShadow_def os_WriteFile_def split: if_splits option.splits)
  have "Contacts_load cpath d1 = Inr cs" using contacts_file.load_saved [OF wf(1) assms(4) s(1)] .
  then have "Contacts_load cpath d' = Inr cs" using Contacts_load_read [of d' cpath d1] d' assms(3) by simp
  moreover have "dec_list (dec_struct Contact_fields) zero_Contact (JArr (map enc_Contact cs)) [] = (cs, DOk)"
    using wf by (intro dec_jlist dec_enc_Contact) (auto simp: list_all_iff)
  moreover have "wf_json 10000 (JArr (map enc_Contact cs))" using wf_json_mono [OF wf_enc_Contact] by simp
  ultimately show ?thesis using d' assms(5) by (simp add: loadContactsShadow_def ReadFile_def IsNotExist_def unmarshal_indented)
qed

section \<open>Properties\<close>

text \<open>
  A device in step with the log: its shadow is the contacts of the log up to its position, and a
  device without a shadow stands at the beginning.
\<close>

definition replica :: "bytes \<Rightarrow> SelfCrypter \<Rightarrow> bytes list \<Rightarrow> disk \<Rightarrow> ContactsSyncState \<Rightarrow> bool" where
  "replica spath u h d st \<longleftrightarrow> (\<exists>shadow has. loadContactsShadow spath d = Inr (shadow, has) \<and> good_contacts shadow
     \<and> follows u h (contactsByID shadow) (cs_Seq st) \<and> (\<not> has \<longrightarrow> cs_Seq st = 0))"

lemma diffContacts_json:
  assumes "good_contacts shadow" "good_contacts local" "p \<in> set (diffContacts shadow local)"
  shows "unmarshal (dec_struct ContactOp_fields) zero_ContactOp (compact (enc_ContactOp p)) = Some p"
proof (rule unmarshal_ContactOp)
  from diffContacts_ops(2) [OF assms] obtain c where c: "storable_contact c" "p = \<lparr>cop_Op = ''put'', cop_ID = ct_Alias c, cop_Contact = Some (enc_Contact c)\<rparr>
      \<or> p = \<lparr>cop_Op = ''del'', cop_ID = ct_Alias c, cop_Contact = None\<rparr>" by blast
  then show "valid_utf8 (cop_Op p)" "valid_utf8 (cop_ID p)" by (auto simp: valid_utf8_ascii storable_contact_def wf_Contact_def)
  show "wf_json 9999 j" if "cop_Contact p = Some j" for j using c(2) that wf_json_mono [OF wf_enc_Contact] by auto
qed

text \<open>
  C13. A device and the op log: when a pass of SyncContactsOps succeeds, whatever other devices append
  during the pass, the contact store and the shadow hold exactly the contacts one gets by applying
  the operations of the log in order up to the position the device records; the position has passed
  the one the service announced; and every local edit since the last pass is in the result. The
  device is then again in step with the log. Relied on: the log is not compacted beyond the known
  snapshot during the pass, its operations were made by this code, no two contacts share an alias.
\<close>

theorem SyncContactsOps_replica:
  assumes "SyncContactsOps sv u rnd cpath spath remote (s, d, st) = Some ((s', d', st'), Inr oc)"
    and "snap = ServerSyncState_Blob remote ''contacts''"
    and "op_log_service sv hist (nat (bm_ThroughSeq snap))" "sc_correct u" "bm_Version snap \<noteq> 0 \<longrightarrow> snapshot_ok sv u hist snap" "honest_log u (hist s')"
    and "replica spath u (hist s) d st" "Contacts_load cpath d = Inr local" "good_contacts local" "loadContactsShadow spath d = Inr (shadow, has)"
    and "0 \<le> bm_ThroughSeq snap" "bm_ThroughSeq snap \<le> int (length (hist s))" "bm_Version snap = 0 \<longrightarrow> bm_ThroughSeq snap = 0"
    and "bm_Version snap = cs_SnapshotVersion st \<longrightarrow> bm_ThroughSeq snap \<le> cs_Seq st" "MaxSeq remote ''contacts'' \<le> int (length (hist s))"
    and "cpath \<noteq> spath" "d_fault d SysRead cpath = None" "d_fault d SysRead spath = None"
  shows "\<exists>cs. Contacts_load cpath d' = Inr cs \<and> good_contacts cs
       \<and> contact_view cs = log_contacts u (take (nat (cs_Seq st')) (hist s'))
       \<and> replica spath u (hist s') d' st' \<and> MaxSeq remote ''contacts'' \<le> cs_Seq st'
       \<and> (\<forall>i. contact_view local i \<noteq> contact_view shadow i \<longrightarrow> contact_view cs i = contact_view local i)"
proof -
  let ?ls = "diffContacts shadow local" and ?mx = "MaxSeq remote ''contacts''"
  from assms(7,10) have sh: "good_contacts shadow" "follows u (hist s) (contactsByID shadow) (cs_Seq st)" "\<not> has \<longrightarrow> cs_Seq st = 0"
    by (auto simp: replica_def)
  obtain s0 mc where plan: "sv_maxContacts sv s = (s0, mc)" by (cases "sv_maxContacts sv s")
  have p0: "prefix (hist s) (hist s0)" using op_log_requests(1) [OF assms(3) plan] .
  have l0: "length (hist s) \<le> length (hist s0)" using p0 by (rule prefix_length_le)
  have f0: "follows u (hist s0) (contactsByID shadow) (cs_Seq st)" using follows_mono [OF sh(2) p0] .
  show ?thesis
  proof (cases "bm_Version snap = cs_SnapshotVersion st \<and> ?mx = cs_Seq st \<and> ?ls = [] \<and> has")
    case True
    with assms(1,2,8,10) plan have r: "s' = s0" "d' = d" "st' = st" by (auto simp: SyncContactsOps_def Let_def split: sum.splits if_splits)
    have "contact_view shadow i = contact_view local i" for i using diffContacts_ops(1) [OF sh(1) assms(9)] True by auto
    then have "contact_view local = log_contacts u (take (nat (cs_Seq st)) (hist s0))" using f0 by (auto simp: follows_def fun_eq_iff)
    moreover have "replica spath u (hist s0) d st" unfolding replica_def using assms(10) sh f0 by blast
    ultimately show ?thesis using r assms(8,9) True by auto
  next
    case False
    with assms(1,2,8,10) plan have pass: "sync_pass sv u rnd cpath spath snap ?mx shadow has ?ls (s0, d, st) = Some ((s', d', st'), Inr oc)"
      by (auto simp: SyncContactsOps_def Let_def split: sum.splits if_splits)
    then obtain s1 st1 base1 b where ph1: "bootstrap sv u snap has (contactsByID shadow) (s0, st) = ((s1, st1), Inr (base1, b))"
      by (auto simp: sync_pass_def split: prod.splits sum.splits)
    with pass obtain s2 st2 base2 k where ph2: "pull_ops sv u ?mx base1 (s1, st1) = Some ((s2, st2), Inr (base2, k))"
      by (auto simp: sync_pass_def split: prod.splits sum.splits option.splits)
    with pass ph1 obtain s3 st3 base3 where ph3: "push_ops sv u rnd ?ls (fold applyPlainOp ?ls base2) (s2, st2) = Some ((s3, st3), Inr base3)"
      by (auto simp: sync_pass_def split: prod.splits sum.splits option.splits)
    from pass ph1 ph2 ph3 have ph4: "persist cpath spath (contactsSorted base3) d = (d', Inr ())"
        and ph5: "(s', st') = (s3, st3) \<or> compactContacts sv u (rnd (length ?ls)) (contactsSorted base3) (s3, st3) = ((s', st'), Inr ())"
      by (auto simp: sync_pass_def Let_def split: prod.splits sum.splits if_splits)
    from ph5 have p3: "prefix (hist s3) (hist s')" "cs_Seq st' = cs_Seq st3" using pass_prefix(4) [OF assms(3)] by auto
    have h3: "honest_log u (hist s3)" using honest_log_prefix [OF p3(1) assms(6)] .
    have h2: "honest_log u (hist s2)" using honest_log_prefix [OF pass_prefix(3) [OF assms(3) ph3] h3] .
    have b1: "follows u (hist s1) base1 (cs_Seq st1)" "bm_ThroughSeq snap \<le> cs_Seq st1"
      using bootstrap_follows [OF assms(3,5) f0 assms(11) _ assms(13,14) ph1] assms(12) l0 by auto
    have "nat (bm_ThroughSeq snap) \<le> nat (cs_Seq st1)" using b1(2) by simp
    from pull_ops_follows [OF assms(3) h2 b1(1) this ph2] prefix_length_le [OF pass_prefix(1) [OF assms(3) ph1]] l0 assms(15) b1(2)
    have b2: "follows u (hist s2) base2 (cs_Seq st2)" "bm_ThroughSeq snap \<le> cs_Seq st2" "?mx \<le> cs_Seq st2" by auto
    have honest: "list_all honest_op ?ls" using diffContacts_ops(2) [OF sh(1) assms(9)] by (auto simp: list_all_iff)
    have "nat (bm_ThroughSeq snap) \<le> nat (cs_Seq st2)" using b2(2) by simp
    from push_ops_follows [OF assms(3,4) h3 this b2(1) honest _ diffContacts_json [OF sh(1) assms(9)] ph3, of "contact_view local"]
      diffContacts_ops(2) [OF sh(1) assms(9)]
    have b3: "follows u (hist s3) base3 (cs_Seq st3)" "cs_Seq st2 \<le> cs_Seq st3"
        "\<forall>i. map_of base3 i = (if i \<in> cop_ID ` set ?ls then contact_view local i else map_of base3 i)" by auto
    have f: "follows u (hist s') base3 (cs_Seq st')" using follows_mono [OF b3(1) p3(1)] p3(2) by simp
    then have k: "keyed base3" by (simp add: follows_def)
    let ?cs = "contactsSorted base3"
    from persist_loads [OF ph4 contactsSorted_good(1) [OF k] assms(16-18)] have load: "Contacts_load cpath d' = Inr ?cs" "loadContactsShadow spath d' = Inr (?cs, True)" by simp_all
    have "follows u (hist s') (contactsByID ?cs) (cs_Seq st')"
      using f contactsSorted_good [OF k] keyed_contactsByID by (simp add: follows_def)
    then have "replica spath u (hist s') d' st'" unfolding replica_def using load(2) contactsSorted_good(1) [OF k] by blast
    moreover have "contact_view ?cs i = contact_view local i" if "contact_view local i \<noteq> contact_view shadow i" for i
    proof -
      have "i \<in> cop_ID ` set ?ls" using that diffContacts_ops(1) [OF sh(1) assms(9)] by auto
      then show ?thesis using b3(3) contactsSorted_good(2) [OF k] by metis
    qed
    ultimately show ?thesis using load(1) contactsSorted_good [OF k] f p3(2) b2(3) b3(2) by (auto simp: follows_def)
  qed
qed

lemma decode_all_encoded: "decode_all (map b64_encode cts) = Inr cts"
  by (induction cts) auto

lemma account_op_log: "op_log_service account_service ac_log 0"
proof -
  have "\<exists>k. n + k \<le> length h \<and> map f [n..<length h] = map f [n..<n + k] \<and> n + k = length h" if "n \<le> length h"
    for n and h :: "bytes list" and f :: "nat \<Rightarrow> int \<times> bytes"
    by (rule exI [of _ "length h - n"]) (use that in simp)
  then show ?thesis unfolding op_log_service_def account_service_def
    by (auto simp: decode_all_encoded log_page_def split: sum.splits if_splits prod.splits)
qed

definition sample_contact :: "bytes \<Rightarrow> Contact" where
  "sample_contact alias = zero_Contact\<lparr>ct_Alias := alias\<rparr>"

definition put_of :: "Contact \<Rightarrow> ContactOp" where
  "put_of c = \<lparr>cop_Op = ''put'', cop_ID = ct_Alias c, cop_Contact = Some (enc_Contact c)\<rparr>"

definition sealed_put :: "Contact \<Rightarrow> bytes" where
  "sealed_put c = ''sealed'' @ compact (enc_ContactOp (put_of c))"

lemma sample_storable: "ascii alias \<Longrightarrow> storable_contact (sample_contact alias)"
  by (simp add: storable_contact_def sample_contact_def zero_Contact_def wf_Contact_def Contact_marshals_def valid_utf8_ascii)

lemma sample_alias [simp]: "ct_Alias (sample_contact alias) = alias"
  by (simp add: sample_contact_def)

lemma decode_sealed_put:
  assumes "storable_contact c"
  shows "decode_op clear_crypter (sealed_put c) = Inr (put_of c)"
proof -
  have "unmarshal (dec_struct ContactOp_fields) zero_ContactOp (compact (enc_ContactOp (put_of c))) = Some (put_of c)"
    using assms wf_json_mono [OF wf_enc_Contact]
    by (intro unmarshal_ContactOp) (auto simp: put_of_def valid_utf8_ascii storable_contact_def wf_Contact_def)
  then show ?thesis by (simp add: decode_op_def clear_crypter_def sealed_put_def HasPrefix_def)
qed

lemma put_of_ops:
  assumes "storable_contact c"
  shows "honest_op (put_of c)" "applyPlainOp (put_of c) b = AList.update (ct_Alias c) c b"
  using assms by (simp_all add: honest_op_def put_of_def applyPlainOp_def storable_contact_def dec_enc_Contact)

lemma diff_one: "storable_contact c \<Longrightarrow> diffContacts [] [c] = [put_of c]"
  by (simp add: diffContacts_def contactsByID_def put_op_def contactOpID_def put_of_def storable_contact_def)

text \<open>A disk on which the contacts were saved, with or without a shadow.\<close>

definition contacts_disk :: "Contact list \<Rightarrow> Contact list option \<Rightarrow> disk" where
  "contacts_disk cs sh = empty_disk\<lparr>d_files := [''c'' \<mapsto> indented (enc_contactData \<lparr>cd_Version = 2, cd_Contacts = cs\<rparr>)]
     ++ (case sh of None \<Rightarrow> Map.empty | Some l \<Rightarrow> [''s'' \<mapsto> indented (JArr (map enc_Contact l))])\<rparr>"

lemma contacts_disk_loads:
  assumes "good_contacts cs"
  shows "Contacts_load ''c'' (contacts_disk cs sh) = Inr cs" "d_fault (contacts_disk cs sh) op p = None"
    and "loadContactsShadow ''s'' (contacts_disk cs None) = Inr ([], False)"
    and "loadContactsShadow ''s'' (contacts_disk cs (Some [])) = Inr ([], True)"
proof -
  have "dec_list (dec_struct Contact_fields) zero_Contact (JArr (map enc_Contact cs)) cur = (cs, DOk)" for cur
    using assms by (intro dec_jlist dec_enc_Contact) (auto simp: list_all_iff good_contacts_def storable_contact_def)
  then have "dec_struct contactData_fields (enc_contactData \<lparr>cd_Version = 2, cd_Contacts = cs\<rparr>) \<lparr>cd_Version = 0, cd_Contacts = []\<rparr>
      = (\<lparr>cd_Version = 2, cd_Contacts = cs\<rparr>, DOk)"
    by (simp add: enc_contactData_def json_rt find_contactData fld_def int64_def)
  then show "Contacts_load ''c'' (contacts_disk cs sh) = Inr cs"
    by (cases sh) (simp_all add: Contacts_load_def ReadFile_def IsNotExist_def contacts_disk_def empty_disk_def unmarshal_indented wf_enc_contactData)
  show "d_fault (contacts_disk cs sh) op p = None" "loadContactsShadow ''s'' (contacts_disk cs None) = Inr ([], False)"
    by (simp_all add: contacts_disk_def empty_disk_def loadContactsShadow_def ReadFile_def IsNotExist_def)
  show "loadContactsShadow ''s'' (contacts_disk cs (Some [])) = Inr ([], True)"
    by (simp add: contacts_disk_def empty_disk_def loadContactsShadow_def ReadFile_def IsNotExist_def unmarshal_indented dec_list_def)
qed

lemma account_requests:
  "sv_maxContacts account_service s = (s, Inr 0)"
  "AppendOps account_service r cts s = (s\<lparr>ac_log := ac_log s @ cts\<rparr>,
     Inr \<lparr>ao_FirstSeq = int (length (ac_log s)) + 1, ao_LastSeq = int (length (ac_log s) + length cts)\<rparr>)"
  by (simp_all add: account_service_def AppendOps_def decode_all_encoded)

lemma persist_ok:
  assumes "list_all Contact_marshals cs" "\<And>op p. d_fault d op p = None"
  shows "\<exists>d'. persist cpath spath cs d = (d', Inr ())"
proof -
  obtain d1 where w: "Contacts_save cpath d cs = (d1, Inr ())"
    using assms(1) WriteFileAtomic_clean [OF assms(2)] by (simp add: Contacts_save_def)
  then have "d_fault d1 = d_fault d" using WriteFileAtomic_frame by (auto simp: Contacts_save_def split: if_splits)
  with w assms show ?thesis by (simp add: persist_def saveContactsShadow_def os_WriteFile_def)
qed

definition announced :: "nat \<Rightarrow> ServerSyncState" where
  "announced n = \<lparr>ss_Blobs = [], ss_Ops = [\<lparr>om_Resource = ''contacts'', om_MaxSeq = int n\<rparr>]\<rparr>"

lemma announced_simps [simp]:
  "ServerSyncState_Blob (announced n) ''contacts'' = \<lparr>bm_Name = [], bm_Version = 0, bm_ThroughSeq = 0\<rparr>"
  "MaxSeq (announced n) ''contacts'' = int n"
  by (simp_all add: announced_def ServerSyncState_Blob_def MaxSeq_def)

lemma seal_put: "seal_ops clear_crypter rnd i [put_of c] = Inr [sealed_put c]"
  by (simp add: clear_crypter_def sealed_put_def)

text \<open>A device that has a contact to push and nothing to pull.\<close>

lemma push_pass:
  assumes "storable_contact c" "st = \<lparr>cs_Seq = int (length (ac_log s)), cs_SnapshotVersion = 0\<rparr>"
    and "sh = None \<or> sh = Some []" "length (ac_log s) < 200"
  shows "\<exists>d' oc. SyncContactsOps account_service clear_crypter rnd ''c'' ''s'' (announced (length (ac_log s))) (s, contacts_disk [c] sh, st)
      = Some ((s\<lparr>ac_log := ac_log s @ [sealed_put c]\<rparr>, d', st\<lparr>cs_Seq := int (length (ac_log s)) + 1\<rparr>), Inr oc)
      \<and> Contacts_load ''c'' d' = Inr [c]"
proof -
  have g: "good_contacts [c]" using assms(1) by (simp add: good_contacts_def)
  note ld = contacts_disk_loads [OF g]
  obtain d' where d': "persist ''c'' ''s'' [c] (contacts_disk [c] sh) = (d', Inr ())"
    using persist_ok [of "[c]" "contacts_disk [c] sh" "''c''" "''s''"] assms(1) ld(2) by (auto simp: storable_contact_def)
  have load: "Contacts_load ''c'' d' = Inr [c]" using persist_loads [OF d' g] ld(2) by simp
  have cs: "contactsSorted [(ct_Alias c, c)] = [c]" by (simp add: contactsSorted_def)
  have "\<exists>oc. SyncContactsOps account_service clear_crypter rnd ''c'' ''s'' (announced (length (ac_log s))) (s, contacts_disk [c] sh, st)
      = Some ((s\<lparr>ac_log := ac_log s @ [sealed_put c]\<rparr>, d', st\<lparr>cs_Seq := int (length (ac_log s)) + 1\<rparr>), Inr oc)"
    using assms(3,4) d' unfolding assms(2)
    by (elim disjE) (simp_all add: SyncContactsOps_def ld account_requests diff_one [OF assms(1)] sync_pass_def bootstrap_def contactsByID_def
        pull_ops_def push_ops_def seal_put put_of_ops [OF assms(1)] cs ContactsCompactThreshold_def del: seal_ops.simps)
  with load show ?thesis by blast
qed

theorem SyncContactsOps_replica_witness:
  "\<exists>s' d' st' oc cs. SyncContactsOps account_service clear_crypter (\<lambda>_. []) ''c'' ''s'' (announced 0)
       (new_account, contacts_disk [sample_contact ''ann''] None, \<lparr>cs_Seq = 0, cs_SnapshotVersion = 0\<rparr>) = Some ((s', d', st'), Inr oc)
     \<and> Contacts_load ''c'' d' = Inr cs \<and> contact_view cs = log_contacts clear_crypter (take (nat (cs_Seq st')) (ac_log s'))"
proof -
  let ?c = "sample_contact ''ann''" and ?st = "\<lparr>cs_Seq = 0, cs_SnapshotVersion = 0\<rparr>" and ?d = "contacts_disk [sample_contact ''ann''] None"
  have c: "storable_contact ?c" by (rule sample_storable) (simp add: ascii_def)
  then have g: "good_contacts [?c]" by (simp add: good_contacts_def)
  have log: "ac_log new_account = []" by (simp add: new_account_def)
  obtain d' oc where r: "SyncContactsOps account_service clear_crypter (\<lambda>_. []) ''c'' ''s'' (announced 0) (new_account, ?d, ?st)
      = Some ((new_account\<lparr>ac_log := [sealed_put ?c]\<rparr>, d', ?st\<lparr>cs_Seq := 1\<rparr>), Inr oc)"
    using push_pass [OF c, of ?st new_account None "\<lambda>_. []"] by (auto simp: log)
  have op: "op_log_service account_service ac_log (nat (bm_ThroughSeq (ServerSyncState_Blob (announced 0) ''contacts'')))" using account_op_log by simp
  have h: "honest_log clear_crypter (ac_log (new_account\<lparr>ac_log := [sealed_put ?c]\<rparr>))"
    using decode_sealed_put [OF c] put_of_ops(1) [OF c] by (simp add: honest_log_def)
  note ld = contacts_disk_loads [OF g]
  have f: "follows clear_crypter (ac_log new_account) (contactsByID []) 0"
    by (simp add: follows_def keyed_def contactsByID_def log_contacts_def)
  then have rep: "replica ''s'' clear_crypter (ac_log new_account) ?d ?st" unfolding replica_def using ld(3) by (auto simp: good_contacts_def)
  have "\<exists>cs. Contacts_load ''c'' d' = Inr cs \<and> good_contacts cs \<and> contact_view cs = log_contacts clear_crypter (take (nat (cs_Seq (?st\<lparr>cs_Seq := 1\<rparr>))) (ac_log (new_account\<lparr>ac_log := [sealed_put ?c]\<rparr>)))
      \<and> replica ''s'' clear_crypter (ac_log (new_account\<lparr>ac_log := [sealed_put ?c]\<rparr>)) d' (?st\<lparr>cs_Seq := 1\<rparr>)
      \<and> MaxSeq (announced 0) ''contacts'' \<le> cs_Seq (?st\<lparr>cs_Seq := 1\<rparr>)
      \<and> (\<forall>i. contact_view [?c] i \<noteq> contact_view [] i \<longrightarrow> contact_view cs i = contact_view [?c] i)"
    by (rule SyncContactsOps_replica [OF r refl op clear_crypter_correct _ h rep ld(1) g ld(3)]) (simp_all add: ld(2))
  with r show ?thesis by blast
qed

text \<open>A service on which appending fails, as when the connection is lost.\<close>

definition flaky_service :: "account Service" where
  "flaky_service = account_service\<lparr>sv_appendOps := (\<lambda>s r ops. (s, Inl (Wrap ''http: %w'' (Errorf ''connection reset''))))\<rparr>"

lemma flaky_requests:
  "sv_maxContacts flaky_service s = (s, Inr 0)"
  "AppendOps flaky_service r cts s = (s, Inl (Wrap ''http: %w'' (Errorf ''connection reset'')))"
  "FetchOpsSince flaky_service r 0 s = Some (s, Inr (log_ops (ac_log s) 0 (length (ac_log s))))"
proof -
  have ops: "sv_ops flaky_service s r 0 = (s, Inr (log_page (ac_log s) 0 (length (ac_log s)), False))"
    by (simp add: flaky_service_def account_service_def log_page_def)
  show "FetchOpsSince flaky_service r 0 s = Some (s, Inr (log_ops (ac_log s) 0 (length (ac_log s))))"
    unfolding FetchOpsSince_def by (subst fetch_pages.simps) (simp add: ops decode_log_page)
qed (simp_all add: flaky_service_def account_service_def AppendOps_def)

text \<open>
  A failed push loses what was pulled, as an example shows. The position moves with each operation that is pulled, but
  the store and the shadow are written only at the end of the pass; when the append of the local
  operations fails, the pass returns an error with the disk unchanged and the position advanced, and
  the caller (RunSync) saves the position all the same. The next pass does not fetch the operations
  again. Here a device in step with a log that adds bob has a new contact ann to push; the first
  append fails, the second pass succeeds, and the device stands at the end of the log without bob.
\<close>

theorem SyncContactsOps_loses_ops:
  "\<exists>s d st st1 s2 d2 st2 e oc cs. replica ''s'' clear_crypter (ac_log s) d st \<and> honest_log clear_crypter (ac_log s2)
     \<and> SyncContactsOps flaky_service clear_crypter (\<lambda>_. []) ''c'' ''s'' (announced 1) (s, d, st) = Some ((s, d, st1), Inl e) \<and> cs_Seq st < cs_Seq st1
     \<and> SyncContactsOps account_service clear_crypter (\<lambda>_. []) ''c'' ''s'' (announced 1) (s, d, st1) = Some ((s2, d2, st2), Inr oc)
     \<and> Contacts_load ''c'' d2 = Inr cs \<and> cs_Seq st2 = int (length (ac_log s2)) \<and> contact_view cs \<noteq> log_contacts clear_crypter (ac_log s2)"
proof -
  let ?ann = "sample_contact ''ann''" and ?bob = "sample_contact ''bob''"
  let ?st = "\<lparr>cs_Seq = 0, cs_SnapshotVersion = 0\<rparr>" and ?st1 = "\<lparr>cs_Seq = 1, cs_SnapshotVersion = 0\<rparr>"
  let ?s = "new_account\<lparr>ac_log := [sealed_put ?bob]\<rparr>" and ?d = "contacts_disk [?ann] (Some [])"
  have ok: "storable_contact ?ann" "storable_contact ?bob" by (rule sample_storable, simp add: ascii_def)+
  then have g: "good_contacts [?ann]" by (simp add: good_contacts_def)
  note ld = contacts_disk_loads [OF g]
  have rep: "replica ''s'' clear_crypter (ac_log ?s) ?d ?st" unfolding replica_def using ld(4)
    by (auto simp: good_contacts_def follows_def keyed_def contactsByID_def log_contacts_def)
  have pull: "apply_ops clear_crypter (log_ops [sealed_put ?bob] 0 (Suc 0)) [] ?st = (?st1, Inr [(''bob'', ?bob)])"
    using decode_sealed_put [OF ok(2)] put_of_ops(2) [OF ok(2), of "[]"] by (simp add: log_ops_def applyContactOp_def applyContactOpSkipping_def)
  have p1: "SyncContactsOps flaky_service clear_crypter (\<lambda>_. []) ''c'' ''s'' (announced 1) (?s, ?d, ?st)
      = Some ((?s, ?d, ?st1), Inl (Wrap ''http: %w'' (Errorf ''connection reset'')))"
    by (simp add: SyncContactsOps_def ld flaky_requests diff_one [OF ok(1)] sync_pass_def bootstrap_def contactsByID_def pull_ops_def push_ops_def
        seal_put put_of_ops [OF ok(1)] pull del: seal_ops.simps)
  obtain d2 oc where p2: "SyncContactsOps account_service clear_crypter (\<lambda>_. []) ''c'' ''s'' (announced 1) (?s, ?d, ?st1)
      = Some ((?s\<lparr>ac_log := [sealed_put ?bob, sealed_put ?ann]\<rparr>, d2, \<lparr>cs_Seq = 2, cs_SnapshotVersion = 0\<rparr>), Inr oc)" "Contacts_load ''c'' d2 = Inr [?ann]"
    using push_pass [OF ok(1), of ?st1 ?s "Some []" "\<lambda>_. []"] by auto
  have "log_contacts clear_crypter [sealed_put ?bob, sealed_put ?ann] ''bob'' = Some ?bob"
    using decode_sealed_put [OF ok(1)] decode_sealed_put [OF ok(2)] by (simp add: log_contacts_def op_of_ok put_of_ops [OF ok(1)] put_of_ops [OF ok(2)])
  moreover have "contact_view [?ann] ''bob'' = None" by (simp add: contactsByID_def contactOpID_def)
  ultimately have ne: "contact_view [?ann] \<noteq> log_contacts clear_crypter [sealed_put ?bob, sealed_put ?ann]" by (metis option.distinct(1))
  have "honest_log clear_crypter [sealed_put ?bob, sealed_put ?ann]"
    using decode_sealed_put [OF ok(1)] decode_sealed_put [OF ok(2)] put_of_ops(1) [OF ok(1)] put_of_ops(1) [OF ok(2)] by (simp add: honest_log_def)
  then show ?thesis using rep p1 p2 ne
    by (intro exI [of _ ?s] exI [of _ ?d] exI [of _ ?st] exI [of _ ?st1] exI [of _ "?s\<lparr>ac_log := [sealed_put ?bob, sealed_put ?ann]\<rparr>"]
        exI [of _ d2] exI [of _ "\<lparr>cs_Seq = 2, cs_SnapshotVersion = 0\<rparr>"] exI [of _ "Wrap ''http: %w'' (Errorf ''connection reset'')"]
        exI [of _ oc] exI [of _ "[?ann]"]) simp
qed

text \<open>
  C24. The fetch of the log ends: if nobody appends while the pages are read, FetchOpsSince returns, with
  an error of a request or with all operations after the position, in order and each once, however
  the service cuts the log into pages.
\<close>

theorem FetchOpsSince_returns:
  assumes "op_log_service sv hist t" "\<And>s k s' r. sv_ops sv s ''contacts'' k = (s', r) \<Longrightarrow> hist s' = hist s" "t \<le> n" "n \<le> length (hist s)"
  shows "\<exists>s' r. FetchOpsSince sv ''contacts'' (int n) s = Some (s', r) \<and> hist s' = hist s
     \<and> (case r of Inl _ \<Rightarrow> True | Inr ops \<Rightarrow> ops = log_ops (hist s) n (length (hist s) - n))"
proof -
  have "\<exists>s' r. fetch_pages sv ''contacts'' (int n) all s = Some (s', r) \<and> hist s' = hist s" for all
    using assms(3,4)
  proof (induction "length (hist s) - n" arbitrary: n s all rule: less_induct)
    case less
    obtain s1 r1 where page: "sv_ops sv s ''contacts'' (int n) = (s1, r1)" by (cases "sv_ops sv s ''contacts'' (int n)")
    have h1: "hist s1 = hist s" using assms(2) [OF page] .
    show ?case
    proof (cases r1)
      case (Inl e)
      then show ?thesis using page h1 by (subst fetch_pages.simps) simp
    next
      case (Inr im)
      then obtain items mr where p: "sv_ops sv s ''contacts'' (int n) = (s1, Inr (items, mr))" using page by (cases im) simp
      from op_log_page [OF assms(1) p less.prems] h1 obtain k where k: "n + k \<le> length (hist s)" "items = log_page (hist s) n k"
        "if mr then k > 0 else n + k = length (hist s)" by auto
      show ?thesis
      proof (cases mr)
        case False
        then show ?thesis using p h1 k(2) by (subst fetch_pages.simps) (simp add: decode_log_page)
      next
        case True
        with k(3) have "k > 0" by simp
        then have l: "fst (last items) = int (n + k)" "items \<noteq> []" by (simp_all add: k(2) log_page_def last_map)
        have "length (hist s1) - (n + k) < length (hist s) - n" using \<open>k > 0\<close> k(1) h1 by simp
        from less.hyps [OF this] k(1) less.prems h1 obtain s' r
          where "fetch_pages sv ''contacts'' (int (n + k)) (all @ log_ops (hist s) n k) s1 = Some (s', r)" "hist s' = hist s1" by force
        then show ?thesis using p k(2) l True h1 by (subst fetch_pages.simps) (simp add: decode_log_page)
      qed
    qed
  qed
  then obtain s' r where r: "fetch_pages sv ''contacts'' (int n) [] s = Some (s', r)" "hist s' = hist s" by blast
  moreover have "ops = log_ops (hist s) n (length (hist s) - n)" if "r = Inr ops" for ops
    using fetch_pages_log [OF r(1) assms(1) refl refl assms(3,4)] that r(2) by simp
  ultimately show ?thesis by (auto simp: FetchOpsSince_def split: sum.split)
qed

theorem FetchOpsSince_returns_witness:
  "\<exists>s' r. FetchOpsSince account_service ''contacts'' (int 0) (new_account\<lparr>ac_log := [''x'', ''y'']\<rparr>) = Some (s', r) \<and> ac_log s' = [''x'', ''y'']"
proof -
  let ?s = "new_account\<lparr>ac_log := [''x'', ''y'']\<rparr>"
  have "\<exists>s' r. FetchOpsSince account_service ''contacts'' (int 0) ?s = Some (s', r) \<and> ac_log s' = ac_log ?s
     \<and> (case r of Inl _ \<Rightarrow> True | Inr ops \<Rightarrow> ops = log_ops (ac_log ?s) 0 (length (ac_log ?s) - 0))"
    by (rule FetchOpsSince_returns [OF account_op_log]) (simp_all add: account_service_def)
  then show ?thesis by auto
qed

end
