(* ===== verification/Icfx_Typing.thy ===== *)
theory Icfx_Typing
  imports Icfx_Bundle Icfx_Groups
begin

text \<open>
  What the decoders may put into a value, whatever document they are given: strings are valid UTF-8,
  numbers fit into an int64, times are times. \<open>typed I d\<close> says that the decoder \<open>d\<close> keeps \<open>I\<close>, also
  when it ends with an error; the combinators of the JSON model keep it, so that each struct needs one
  line per field. With it, every store that was loaded and every bundle that was parsed is well formed.
\<close>

section \<open>Strings\<close>

lemma valid_utf8_take:
  assumes "decode_rune s = (r, n)" "s \<noteq> []" "\<not> (r = RuneError \<and> n = 1)"
  shows "valid_utf8 (take n s)"
proof -
  have n: "1 \<le> n" "n \<le> length s" using decode_rune_width [OF assms(2)] assms(1) by auto
  have "decode_rune (take n s) = (r, n)" using decode_rune_local [OF assms, of "[]"] by simp
  then have "runes (take n s) = [(r, take n s)]" using n assms(2) by (simp add: runes.simps [of "take n s"])
  then show ?thesis using assms(3) n by (simp add: valid_utf8_def bad_chunk_def min_def)
qed

lemma decode_three:
  fixes a b m :: nat
  assumes "a < 16" "b < 64" "m < 64" "a = 0 \<longrightarrow> 32 \<le> b" "a = 13 \<longrightarrow> b < 32"
  shows "\<exists>v. decode_rune (map char_of [224 + a, 128 + b, 128 + m]) = (v, Suc (Suc (Suc 0)))"
proof -
  have "map of_char (map char_of [224 + a, 128 + b, 128 + m] :: bytes) = [224 + a, 128 + b, 128 + m]" using assms by simp
  moreover have "lo2 (224 + a) \<le> 128 + b" "128 + b \<le> hi2 (224 + a)" "cont_byte (128 + m)"
    using assms by (auto simp: lo2_def hi2_def cont_byte_def)
  ultimately show ?thesis using assms(1) unfolding decode_rune_def by simp
qed

lemma decode_four:
  fixes a b m k :: nat
  assumes "a < 5" "b < 64" "m < 64" "k < 64" "a = 0 \<longrightarrow> 16 \<le> b" "a = 4 \<longrightarrow> b < 16"
  shows "\<exists>v. decode_rune (map char_of [240 + a, 128 + b, 128 + m, 128 + k]) = (v, Suc (Suc (Suc (Suc 0))))"
proof -
  have "map of_char (map char_of [240 + a, 128 + b, 128 + m, 128 + k] :: bytes) = [240 + a, 128 + b, 128 + m, 128 + k]" using assms by simp
  moreover have "lo2 (240 + a) \<le> 128 + b" "128 + b \<le> hi2 (240 + a)" "cont_byte (128 + m)" "cont_byte (128 + k)"
    using assms by (auto simp: lo2_def hi2_def cont_byte_def)
  ultimately show ?thesis using assms(1) unfolding decode_rune_def by simp
qed

lemma decode_encode_rune: "\<exists>v. decode_rune (encode_rune r) = (v, length (encode_rune r)) \<and> (length (encode_rune r) = 1 \<longrightarrow> v < 128)"
proof -
  consider (a) "r < 128" | (b) "128 \<le> r" "r < 2048" | (c) "128 \<le> r" "2048 \<le> r" "(55296 \<le> r \<and> r \<le> 57343) \<or> 1114111 < r"
    | (d) "2048 \<le> r" "r < 65536" "r < 55296 \<or> 57343 < r" | (e) "65536 \<le> r" "r \<le> 1114111"
    by linarith
  then show ?thesis
  proof cases
    case a
    then show ?thesis by (simp add: encode_rune_def decode_rune_def)
  next
    case b
    then have "r div 64 < 32" "2 \<le> r div 64" "r mod 64 < 64" by auto
    with b show ?thesis by (simp add: encode_rune_def decode_rune_def cont_byte_def take_bit_eq_mod)
  next
    case c
    then have "encode_rune r = map char_of [239 :: nat, 191, 189]" by (auto simp: encode_rune_def)
    then show ?thesis by (simp add: decode_rune_def cont_byte_def lo2_def hi2_def)
  next
    case d
    define q where "q = r div 64"
    have q: "r div 4096 = q div 64" "q = 64 * (q div 64) + q mod 64" "q mod 64 < 64"
      by (simp add: q_def flip: div_mult2_eq) simp_all
    obtain a b where ab: "q div 64 = a" "q mod 64 = b" "q = 64 * a + b" "b < 64" using that [OF refl refl q(2,3)] .
    have l: "32 \<le> 64 * a + b" "64 * a + b < 1024" "r < 55296 \<longrightarrow> 64 * a + b < 864" "57343 < r \<longrightarrow> 896 \<le> 64 * a + b"
      unfolding ab(3) [symmetric] using d by (auto simp: q_def)
    have "64 * a + b < 864 \<or> 896 \<le> 64 * a + b" using d(3) l(3,4) by blast
    then have h: "a < 16" "a = 0 \<longrightarrow> 32 \<le> b" "a = 13 \<longrightarrow> b < 32" using l(1,2) ab(4) by auto
    have m: "r mod 64 < 64" by simp
    have "encode_rune r = map char_of [224 + a, 128 + b, 128 + r mod 64]" unfolding ab(1,2) [symmetric] using d by (auto simp: encode_rune_def q(1) [symmetric] q_def)
    then show ?thesis using decode_three [OF h(1) ab(4) m h(2,3)] by simp
  next
    case e
    define q where "q = r div 4096"
    have q: "r div 262144 = q div 64" "q = 64 * (q div 64) + q mod 64" "q mod 64 < 64"
      by (simp add: q_def flip: div_mult2_eq) simp_all
    obtain a b where ab: "q div 64 = a" "q mod 64 = b" "q = 64 * a + b" "b < 64" using that [OF refl refl q(2,3)] .
    have l: "16 \<le> 64 * a + b" "64 * a + b \<le> 271" unfolding ab(3) [symmetric] using e by (auto simp: q_def)
    then have h: "a < 5" "a = 0 \<longrightarrow> 16 \<le> b" "a = 4 \<longrightarrow> b < 16" using ab(4) by auto
    have "encode_rune r = map char_of [240 + a, 128 + b, 128 + r div 64 mod 64, 128 + r mod 64]"
      unfolding ab(1,2) [symmetric] using e by (auto simp: encode_rune_def q(1) [symmetric] q_def)
    moreover have "r mod 64 < 64" "r div 64 mod 64 < 64" by simp_all
    ultimately show ?thesis using decode_four [OF h(1) ab(4) _ _ h(2,3), of "r div 64 mod 64" "r mod 64"] by simp
  qed
qed

lemma valid_utf8_encode_rune: "valid_utf8 (encode_rune r)"
proof -
  obtain v where v: "decode_rune (encode_rune r) = (v, length (encode_rune r))" "length (encode_rune r) = 1 \<longrightarrow> v < 128"
    using decode_encode_rune by blast
  have ne: "encode_rune r \<noteq> []" by (simp add: encode_rune_def)
  from valid_utf8_take [OF v(1) ne] v(2) show ?thesis by (auto simp: RuneError_def)
qed

lemma valid_utf8_Cons: "of_char c < (128 :: nat) \<Longrightarrow> valid_utf8 s \<Longrightarrow> valid_utf8 (c # s)"
  using valid_utf8_append [of "[c]" s] by (simp add: valid_utf8_ascii)

text \<open>The value of a string literal is valid UTF-8 (an escaped character that the scanner accepts is ASCII).\<close>

lemma esc_char_ascii: "of_char e < (128 :: nat) \<Longrightarrow> of_char (esc_char e) < (128 :: nat)"
  by (simp add: esc_char_def)

fun esc_ok :: "bytes \<Rightarrow> bool" where
  "esc_ok [] = True"
| "esc_ok (c # s) = (if c = CHR 0x5C then
     (case s of [] \<Rightarrow> False | e # r \<Rightarrow> of_char e < (128 :: nat) \<and> (e = CHR ''u'' \<longrightarrow> hex4 r \<noteq> None) \<and> esc_ok r)
     else esc_ok s)"

lemma hex4_not_escape:
  assumes "hex4 r = Some n" "esc_ok r"
  shows "esc_ok (drop 4 r)"
proof -
  obtain a b c d t where r: "r = a # b # c # d # t" using assms(1) by (auto simp: hex4_def split: list.splits)
  with assms(1) have "hex_val a \<noteq> None" "hex_val b \<noteq> None" "hex_val c \<noteq> None" "hex_val d \<noteq> None"
    by (auto simp: hex4_def split: option.splits)
  moreover have "hex_val (CHR 0x5C) = None" by (simp add: hex_val_def)
  ultimately have "a \<noteq> CHR 0x5C" "b \<noteq> CHR 0x5C" "c \<noteq> CHR 0x5C" "d \<noteq> CHR 0x5C" by metis+
  with assms(2) show ?thesis by (simp add: r)
qed

lemma hex_val_plain:
  assumes "hex_val c \<noteq> None"
  shows "32 \<le> (of_char c :: nat) \<and> c \<noteq> CHR 0x22 \<and> c \<noteq> CHR 0x5C"
proof -
  have "32 \<le> (of_char c :: nat)" using assms unfolding hex_val_def Let_def by (auto split: if_splits)
  with assms show ?thesis by (auto simp: hex_val_def)
qed

lemma scan_str_hex4:
  assumes "hex4 r = Some n" "scan_str r = Some (x, y)"
  shows "hex4 x = Some n"
proof -
  obtain a b c d t where r: "r = a # b # c # d # t" using assms(1) by (auto simp: hex4_def split: list.splits)
  with assms(1) have "hex_val a \<noteq> None" "hex_val b \<noteq> None" "hex_val c \<noteq> None" "hex_val d \<noteq> None"
    by (auto simp: hex4_def split: option.splits)
  then have "scan_str ([a, b, c, d] @ t) = map_option (\<lambda>(x, y). ([a, b, c, d] @ x, y)) (scan_str t)"
    by (intro scan_str_plain) (simp add: hex_val_plain)
  then have "scan_str r = map_option (\<lambda>(x, y). ([a, b, c, d] @ x, y)) (scan_str t)" by (simp only: r append.simps)
  then obtain z where "x = a # b # c # d # z" using assms(2) by (cases "scan_str t") auto
  then show ?thesis using assms(1) by (simp add: r hex4_def)
qed

lemma scan_str_esc_ok: "scan_str s = Some (x, t) \<Longrightarrow> esc_ok x"
proof (induction s arbitrary: x rule: scan_str.induct)
  case (2 c s)
  show ?case
  proof (cases "c = CHR 0x5C")
    case True
    with "2.prems" obtain e r where s: "s = e # r" by (auto split: list.splits)
    have e: "of_char e < (128 :: nat)" "e = CHR ''u'' \<longrightarrow> hex4 r \<noteq> None" using "2.prems" True s by (auto split: if_splits option.splits)
    obtain y where y: "scan_str r = Some (y, t)" "x = c # e # y" using "2.prems" True s by (auto split: if_splits option.splits)
    have "esc_ok y"
      using "2.IH"(1,2) [OF _ True s] "2.prems" True s y(1) by (auto split: if_splits option.splits)
    moreover have "e = CHR ''u'' \<longrightarrow> hex4 y \<noteq> None" using e(2) scan_str_hex4 [OF _ y(1)] by auto
    ultimately show ?thesis using y(2) True e(1) by simp
  next
    case False
    with 2 show ?thesis by (auto split: if_splits)
  qed
qed simp

lemma esc_ok_drop:
  assumes "esc_ok s" "\<forall>c\<in>set (take n s). 128 \<le> (of_char c :: nat)"
  shows "esc_ok (drop n s)"
  using assms
proof (induction n arbitrary: s)
  case (Suc n)
  show ?case
  proof (cases s)
    case (Cons c t)
    with Suc.prems have "c \<noteq> CHR 0x5C" "esc_ok t" "\<forall>c\<in>set (take n t). 128 \<le> (of_char c :: nat)" by (auto split: if_splits)
    with Suc.IH Cons show ?thesis by simp
  qed simp
qed simp

lemma unquote_valid: "esc_ok raw \<Longrightarrow> valid_utf8 (unquote raw)"
proof (induction raw rule: length_induct)
  case (1 raw)
  then have IH: "\<And>s. length s < length raw \<Longrightarrow> esc_ok s \<Longrightarrow> valid_utf8 (unquote s)" by blast
  show ?case
  proof (cases raw)
    case (Cons c s)
    consider (u) r where "c = CHR 0x5C" "s = CHR ''u'' # r" | (esc) e r where "c = CHR 0x5C" "s = e # r" "e \<noteq> CHR ''u''"
      | (ascii) "c \<noteq> CHR 0x5C" "of_char c < (128 :: nat)" | (high) "c \<noteq> CHR 0x5C" "128 \<le> (of_char c :: nat)"
      using 1(2) Cons by (cases "c = CHR 0x5C"; cases s; cases "of_char c < (128 :: nat)") auto
    then show ?thesis
    proof cases
      case u
      then obtain rr where r: "hex4 r = Some rr" "esc_ok r" using 1(2) Cons by auto
      have e4: "esc_ok (drop 4 r)" using hex4_not_escape [OF r] .
      have v4: "valid_utf8 (unquote (drop 4 r))" using IH [OF _ e4] Cons u by simp
      have v6: "valid_utf8 (unquote (drop 6 (drop 4 r)))" if "HasPrefix (drop 4 r) [CHR 0x5C, CHR ''u'']" "hex4 (drop 2 (drop 4 r)) = Some lo" for lo
      proof -
        define x where "x = drop 4 r"
        have "x = take 2 x @ drop 2 x" by simp
        moreover have "take 2 x = [CHR 0x5C, CHR ''u'']" using that(1) by (simp add: HasPrefix_def x_def numeral_2_eq_2)
        ultimately obtain t where "x = [CHR 0x5C, CHR ''u''] @ t" by metis
        then have t: "drop 4 r = [CHR 0x5C, CHR ''u''] @ t" by (simp add: x_def)
        with e4 have "esc_ok t" by simp
        moreover have t2: "drop 2 (drop 4 r) = t" using t by simp
        ultimately have "esc_ok (drop 4 t)" using hex4_not_escape that(2) by metis
        moreover have "drop 6 (drop 4 r) = drop 4 t" unfolding t2 [symmetric] by simp
        moreover have "length (drop 4 t) < length raw" unfolding t2 [symmetric] using Cons u by simp
        ultimately show ?thesis using IH by metis
      qed
      show ?thesis
        using v4 v6 r(1) Cons u
        by (auto simp: unquote.simps(2) Let_def intro!: valid_utf8_append valid_utf8_encode_rune split: bool.splits option.splits)
    next
      case esc
      with 1(2) Cons have "esc_ok r" "of_char e < (128 :: nat)" by auto
      then show ?thesis using IH [of r] Cons esc valid_utf8_Cons [OF esc_char_ascii] by (simp add: unquote_escape)
    next
      case ascii
      then show ?thesis using IH [of s] 1(2) Cons valid_utf8_Cons by (simp add: unquote_ascii)
    next
      case high
      obtain r n where d: "decode_rune raw = (r, n)" by (cases "decode_rune raw")
      have n: "1 \<le> n" using decode_rune_width [of raw] d Cons by simp
      have "\<forall>c\<in>set (take n raw). 128 \<le> (of_char c :: nat)"
      proof (cases "r < 128")
        case True
        then have "take n raw = [char_of r]" using decode_rune_bytes [OF d] Cons by simp
        then have "c = char_of r" using Cons n by (cases n) auto
        with True high show ?thesis by simp
      qed (use decode_rune_bytes [OF d] Cons in auto)
      then have "esc_ok (drop n raw)" using esc_ok_drop 1(2) by blast
      moreover have "length (drop n raw) < length raw" using n Cons by simp
      ultimately have "valid_utf8 (unquote (drop n raw))" using IH by blast
      moreover have "valid_utf8 (if r = RuneError \<and> n = 1 then encode_rune RuneError else take n raw)"
        using valid_utf8_take [OF d] valid_utf8_encode_rune Cons by simp
      ultimately have "valid_utf8 ((if r = RuneError \<and> n = 1 then encode_rune RuneError else take n raw) @ unquote (drop n raw))"
        by (rule valid_utf8_append [rotated])
      then show ?thesis using high d unfolding Cons by (auto simp add: unquote.simps(2) split: if_splits)
    qed
  qed (simp add: valid_utf8_ascii)
qed

section \<open>Documents\<close>

text \<open>What the reader gives: literals it has scanned, and names that are resolved already.\<close>

fun read_ok :: "json \<Rightarrow> bool" where
  "read_ok (JStr raw) \<longleftrightarrow> esc_ok raw"
| "read_ok (JArr js) \<longleftrightarrow> (\<forall>j\<in>set js. read_ok j)"
| "read_ok (JObj ms) \<longleftrightarrow> (\<forall>m\<in>set ms. valid_utf8 (fst m) \<and> read_ok (snd m))"
| "read_ok _ \<longleftrightarrow> True"

lemma p_read_ok:
  "p_value f d s = Some (j, t) \<Longrightarrow> read_ok j"
  "p_elems f d s = Some (js, t) \<Longrightarrow> \<forall>j\<in>set js. read_ok j"
  "p_members f d s = Some (ms, t) \<Longrightarrow> \<forall>m\<in>set ms. valid_utf8 (fst m) \<and> read_ok (snd m)"
proof (induction f d s and f d s and f d s arbitrary: j t and js t and ms t rule: p_value_p_elems_p_members.induct)
  case (2 f d s)
  then show ?case by (auto simp: scan_str_esc_ok split: list.splits if_splits)
next
  case (4 f d s)
  then show ?case by (fastforce split: option.splits prod.splits list.splits if_splits)
next
  case (6 f d s)
  then show ?case by (fastforce simp: unquote_valid scan_str_esc_ok split: option.splits prod.splits list.splits if_splits)
qed simp_all

section \<open>Decoders\<close>

definition typed :: "('a \<Rightarrow> bool) \<Rightarrow> 'a decoder \<Rightarrow> bool" where
  "typed I d \<longleftrightarrow> (\<forall>j x. read_ok j \<longrightarrow> I x \<longrightarrow> I (fst (d j x)))"

named_theorems typing \<open>typing rules of the decoders\<close>

lemma typedD: "typed I d \<Longrightarrow> read_ok j \<Longrightarrow> I x \<Longrightarrow> d j x = (y, st) \<Longrightarrow> I y"
  unfolding typed_def by (metis fst_conv)

lemma typed_str [typing]: "typed valid_utf8 dec_str"
  by (auto simp: typed_def dec_str_def unquote_valid split: json.split)

lemma typed_bool [typing]: "typed (\<lambda>_. True) dec_bool"
  by (simp add: typed_def)

lemma typed_int [typing]: "typed int64 dec_int"
  by (auto simp: typed_def dec_int_def lit_int_def int64_def Let_def split: json.split option.split if_splits)

lemma typed_time [typing]: "typed wf_time dec_time"
  by (auto simp: typed_def dec_time_def dest: parse_rfc3339_wf split: json.split option.split)

lemma typed_elems:
  assumes "typed I d" "I z"
  shows "(\<forall>j\<in>set js. read_ok j) \<Longrightarrow> dec_elems d z js = (xs, st) \<Longrightarrow> list_all I xs"
proof (induction js arbitrary: xs st)
  case (Cons j js)
  obtain x st1 where x: "d j z = (x, st1)" by (cases "d j z")
  obtain ys st2 where ys: "dec_elems d z js = (ys, st2)" by (cases "dec_elems d z js")
  have "I x" using typedD [OF assms(1) _ assms(2) x] Cons.prems(1) by simp
  with Cons x ys show ?case by (auto split: if_splits)
qed simp

lemma typed_list [typing]: "typed I d \<Longrightarrow> I z \<Longrightarrow> typed (list_all I) (dec_list d z)"
  unfolding typed_def [of "list_all I"] dec_list_def
  by (auto split: json.split) (metis prod.collapse typed_elems)

lemma find_named_member: "find_named p fs = Some d \<Longrightarrow> \<exists>f\<in>set fs. snd f = d"
  by (induction fs) (auto split: if_splits)

lemma typed_members:
  "(\<forall>f\<in>set fs. typed I (snd f)) \<Longrightarrow> (\<forall>m\<in>set ms. read_ok (snd m)) \<Longrightarrow> I r \<Longrightarrow> I (fst (dec_members fs ms r))"
proof (induction fs ms r rule: dec_members.induct)
  case (2 fs k j ms r)
  show ?case
  proof (cases "find_field fs k")
    case (Some d)
    then obtain p where "find_named p fs = Some d" unfolding find_field_def by (auto split: option.splits)
    then obtain f where "f \<in> set fs" "snd f = d" using find_named_member by blast
    then have "typed I d" using "2.prems"(1) by blast
    moreover obtain r' st where r': "d j r = (r', st)" by (cases "d j r")
    ultimately have "I r'" using typedD "2.prems"(2,3) by fastforce
    moreover have "st \<noteq> DAbort \<Longrightarrow> I (fst (dec_members fs ms r'))"
      using "2.IH"(2) [OF Some r' [symmetric]] "2.prems" \<open>I r'\<close> by simp
    ultimately show ?thesis using Some r' by (auto split: prod.split)
  qed (use 2 in simp)
qed simp

lemma typed_struct: "list_all (\<lambda>f. typed I (snd f)) fs \<Longrightarrow> typed I (dec_struct fs)"
  unfolding typed_def [of I "dec_struct fs"] dec_struct_def by (auto split: json.split simp: typed_members list_all_iff)

lemma typed_fld:
  "typed J d \<Longrightarrow> (\<And>r. I r \<Longrightarrow> J (get r)) \<Longrightarrow> (\<And>r x. I r \<Longrightarrow> J x \<Longrightarrow> I (upd (\<lambda>_. x) r)) \<Longrightarrow> typed I (snd (fld n d get upd))"
  unfolding typed_def fld_def by (auto split: prod.split) (metis fst_conv)

lemma Unmarshal_typed:
  assumes "typed I d" "I z"
  shows "I (fst (Unmarshal d z s))"
proof (cases "parse_json s")
  case (Some j)
  then obtain t where "p_value (2 * length s + 1) 10000 s = Some (j, t)"
    unfolding parse_json_def by (auto simp del: p_value.simps split: option.splits if_splits)
  then have "read_ok j" by (rule p_read_ok(1))
  then show ?thesis using assms Some unfolding typed_def Unmarshal_def by (auto split: prod.split) (metis fst_conv)
qed (use assms in \<open>simp add: Unmarshal_def\<close>)

lemma unmarshal_typed: "typed I d \<Longrightarrow> I z \<Longrightarrow> unmarshal d z s = Some v \<Longrightarrow> I v"
  using Unmarshal_typed [of I d z s] by (auto simp: unmarshal_def split: prod.splits if_splits)

lemmas fld_str = typed_fld [OF typed_str]
lemmas fld_int = typed_fld [OF typed_int]
lemmas fld_bool = typed_fld [OF typed_bool]
lemmas fld_time = typed_fld [OF typed_time]
lemmas fld_strs = typed_fld [OF typed_list [OF typed_str valid_utf8_ascii [OF ascii_Nil]]]

section \<open>The documents of icfx\<close>

lemma zero_typed [simp]: "wf_PreviousKey zero_PreviousKey" "wf_Contact zero_Contact" "wf_Group zero_Group" "utf8_LockBundle zero_LockBundle"
    "utf8_RevocationBundle zero_RevocationBundle" "utf8_RotationBundle zero_RotationBundle"
  by (simp_all add: zero_PreviousKey_def wf_PreviousKey_def zero_Contact_def wf_Contact_def zero_Group_def wf_Group_def
      zero_LockBundle_def utf8_LockBundle_def zero_RevocationBundle_def utf8_RevocationBundle_def zero_RotationBundle_def
      utf8_RotationBundle_def valid_utf8_ascii)

lemma typed_LockBundle: "typed utf8_LockBundle (dec_struct LockBundle_fields)"
  unfolding LockBundle_fields_def
  by (rule typed_struct, unfold list.pred_inject, intro conjI TrueI fld_str) (simp_all add: utf8_LockBundle_def)

lemma typed_PreviousKey: "typed wf_PreviousKey (dec_struct PreviousKey_fields)"
  unfolding PreviousKey_fields_def
  by (rule typed_struct, unfold list.pred_inject, intro conjI TrueI fld_str fld_time) (simp_all add: wf_PreviousKey_def)

lemma typed_Contact: "typed wf_Contact (dec_struct Contact_fields)"
  unfolding Contact_fields_def
  by (rule typed_struct, unfold list.pred_inject,
      intro conjI TrueI fld_str fld_time fld_bool typed_fld [OF typed_list [OF typed_PreviousKey zero_typed(1)]]) (simp_all add: wf_Contact_def)

lemma typed_Group: "typed wf_Group (dec_struct Group_fields)"
  unfolding Group_fields_def
  by (rule typed_struct, unfold list.pred_inject, intro conjI TrueI fld_str fld_time fld_strs) (simp_all add: wf_Group_def)

lemma typed_RevocationBundle: "typed utf8_RevocationBundle (dec_struct RevocationBundle_fields)"
  unfolding RevocationBundle_fields_def
  by (rule typed_struct, unfold list.pred_inject, intro conjI TrueI fld_str) (simp_all add: utf8_RevocationBundle_def)

lemma typed_RotationBundle: "typed utf8_RotationBundle (dec_struct RotationBundle_fields)"
  unfolding RotationBundle_fields_def
  by (rule typed_struct, unfold list.pred_inject, intro conjI TrueI fld_str typed_fld [OF typed_LockBundle] typed_fld [OF typed_RevocationBundle])
    (simp_all add: utf8_RotationBundle_def)

lemma typed_contactData: "typed (\<lambda>d. list_all wf_Contact (cd_Contacts d)) (dec_struct contactData_fields)"
  unfolding contactData_fields_def
  by (rule typed_struct, unfold list.pred_inject, intro conjI TrueI typed_fld [OF typed_list [OF typed_Contact zero_typed(2)]]
      typed_fld [where J = "\<lambda>_. True" and d = dec_int]) (simp_all add: typed_def)

lemma typed_groupData: "typed (\<lambda>d. wf_groupData d \<and> int64 (gd_Version d)) (dec_struct groupData_fields)"
  unfolding groupData_fields_def
  by (rule typed_struct, unfold list.pred_inject, intro conjI TrueI typed_fld [OF typed_list [OF typed_Group zero_typed(3)]] fld_int fld_strs)
    (simp_all add: wf_groupData_def)

lemma ParseLockBundle_utf8: "ParseLockBundle data = Inr lb \<Longrightarrow> utf8_LockBundle lb"
  using unmarshal_typed [OF typed_LockBundle zero_typed(4)] by (auto simp: ParseLockBundle_def split: option.splits)

lemma Contacts_load_wf: "Contacts_load path d = Inr cs \<Longrightarrow> list_all wf_Contact cs"
  using unmarshal_typed [OF typed_contactData, of "\<lparr>cd_Version = 0, cd_Contacts = []\<rparr>"]
  by (fastforce simp: Contacts_load_def Let_def split: option.splits if_splits)

lemma Groups_load_wf: "Groups_load path d = Inr gd \<Longrightarrow> wf_groupData gd \<and> int64 (gd_Version gd)"
  using unmarshal_typed [OF typed_groupData, of zero_groupData]
  by (fastforce simp: Groups_load_def Let_def zero_groupData_def wf_groupData_def storeVersion_def int64_def split: option.splits if_splits)

definition utf8_ParsedBundle :: "ParsedBundle \<Rightarrow> bool" where
  "utf8_ParsedBundle p \<longleftrightarrow> pred_option utf8_LockBundle (pa_Lock p) \<and> pred_option utf8_RevocationBundle (pa_Revocation p) \<and> valid_utf8 (pa_Sig p)"

lemma utf8_parsed:
  "utf8_LockBundle lock \<Longrightarrow> utf8_ParsedBundle (lock_parsed lock)"
  "utf8_RevocationBundle rv \<Longrightarrow> utf8_ParsedBundle (revoke_parsed rv)"
  "utf8_RotationBundle rot \<Longrightarrow> utf8_ParsedBundle (rotate_parsed rot)"
  by (simp_all add: utf8_ParsedBundle_def lock_parsed_def revoke_parsed_def rotate_parsed_def utf8_RevocationBundle_def
      utf8_RotationBundle_def valid_utf8_ascii)

lemmas bundle_utf8 = unmarshal_typed [OF typed_RevocationBundle zero_typed(5)] unmarshal_typed [OF typed_RotationBundle zero_typed(6)]
  ParseLockBundle_utf8

lemma try_lock_utf8: "try_lock data = Inr p \<Longrightarrow> utf8_ParsedBundle p"
  using bundle_utf8(3) utf8_parsed(1) by (auto simp: try_lock_def split: sum.splits if_splits)

lemma Parse_utf8:
  assumes "Parse data = Inr p"
  shows "utf8_ParsedBundle p"
proof (cases "IsArmored data")
  case True
  with assms show ?thesis using bundle_utf8 utf8_parsed
    by (fastforce simp: Parse_def parseArmored_def split: if_splits option.splits)
next
  case False
  with assms show ?thesis using bundle_utf8(1,2) utf8_parsed(2,3) try_lock_utf8
    by (auto simp: Parse_def parseJSON_def try_revocation_def split: if_splits option.splits)
qed

section \<open>Properties\<close>

text \<open>
  C19. Whatever bytes a file, a server or a peer supplies, what the readers accept is well formed: the
  strings of a loaded contact list, of loaded groups, of a parsed lock or key bundle are valid UTF-8
  and its times are times. Hence what was loaded survives being saved: loading, saving and loading
  again gives the same contacts, with no condition on the file that was there.
\<close>

theorem readers_well_formed:
  "(Contacts_load path d = Inr cs \<longrightarrow> list_all wf_Contact cs
      \<and> (\<forall>d' u. d_fault d SysRead path = None \<and> Contacts_save path d cs = (d', Inr u) \<longrightarrow> Contacts_load path d' = Inr cs))
   \<and> (Groups_load path d = Inr gd \<longrightarrow> wf_groupData gd)
   \<and> (ParseLockBundle bs = Inr lb \<longrightarrow> utf8_LockBundle lb)
   \<and> (Parse bs = Inr p \<longrightarrow> utf8_ParsedBundle p)"
  using Contacts_load_wf [of path d cs] contacts_file.load_saved [of cs d path] Groups_load_wf [of path d gd]
    ParseLockBundle_utf8 [of bs lb] Parse_utf8 [of bs p] by blast

theorem readers_well_formed_witness:
  "\<exists>cs. Contacts_load ''c.json'' (empty_disk\<lparr>d_files := [''c.json'' \<mapsto> ''{}'']\<rparr>) = Inr cs \<and> list_all wf_Contact cs"
proof -
  have "Contacts_load ''c.json'' (empty_disk\<lparr>d_files := [''c.json'' \<mapsto> ''{}'']\<rparr>) = Inr []" by code_simp
  with readers_well_formed [of "''c.json''" "empty_disk\<lparr>d_files := [''c.json'' \<mapsto> ''{}'']\<rparr>" "[]"] show ?thesis by blast
qed

end
