(* ===== verification/Icfx_Discovery.thy ===== *)
theory Icfx_Discovery
  imports Icfx_Cloud Icfx_Typing
begin

text \<open>
  Finding contacts and exchanging keys through the cloud (src/cloud/directory.go, pending.go,
  pending_apply.go, discovery.go, broadcast.go): the public directory, the inbox of pending updates,
  contact requests and their acceptance, the pass that drains the inbox into the contact store, and
  the broadcast of a rotation or revocation. The service is a parameter with one function for each
  request; everything it answers is untrusted.
\<close>

section \<open>The requests\<close>

record DirectoryEntry =
  de_DisplayName :: bytes
  de_Alias :: bytes
  de_Email :: bytes
  de_Fingerprint :: bytes
  de_LockArmored :: bytes

record PendingItem =
  pi_ID :: bytes
  pi_Kind :: bytes
  pi_ToFingerprint :: bytes

record PendingFetch =
  pf_ID :: bytes
  pf_Kind :: bytes
  pf_Ciphertext :: bytes
  pf_ToFingerprint :: bytes

text \<open>
  POST to an account and to a fingerprint, GET of the list and of one item (its ciphertext in base64),
  DELETE of an item, GET of the own account id, POST and GET of directory entries.
\<close>

record 's Inbox =
  ib_post :: "'s \<Rightarrow> bytes \<Rightarrow> bytes \<Rightarrow> bytes \<Rightarrow> bytes \<Rightarrow> 's \<times> unit result"
  ib_postFP :: "'s \<Rightarrow> bytes \<Rightarrow> bytes \<Rightarrow> bytes \<Rightarrow> 's \<times> unit result"
  ib_list :: "'s \<Rightarrow> 's \<times> PendingItem list result"
  ib_fetch :: "'s \<Rightarrow> bytes \<Rightarrow> 's \<times> (bytes \<times> bytes \<times> bytes \<times> bytes) result"
  ib_ack :: "'s \<Rightarrow> bytes \<Rightarrow> 's \<times> unit result"
  ib_account :: "'s \<Rightarrow> 's \<times> bytes result"
  ib_publish :: "'s \<Rightarrow> DirectoryEntry \<Rightarrow> 's \<times> unit result"
  ib_search :: "'s \<Rightarrow> bytes \<Rightarrow> nat \<Rightarrow> 's \<times> DirectoryEntry list result"

definition PostPending :: "'s Inbox \<Rightarrow> bytes \<Rightarrow> bytes \<Rightarrow> bytes \<Rightarrow> bytes \<Rightarrow> 's \<Rightarrow> 's \<times> unit result" where
  "PostPending sv recipientID kind ciphertext toFingerprint s =
     ib_post sv s recipientID kind (b64_encode ciphertext) toFingerprint"

definition PostPendingToFingerprint :: "'s Inbox \<Rightarrow> bytes \<Rightarrow> bytes \<Rightarrow> bytes \<Rightarrow> 's \<Rightarrow> 's \<times> unit result" where
  "PostPendingToFingerprint sv fingerprint kind ciphertext s = ib_postFP sv s fingerprint kind (b64_encode ciphertext)"

definition ListPending :: "'s Inbox \<Rightarrow> 's \<Rightarrow> 's \<times> PendingItem list result" where
  "ListPending sv s = ib_list sv s"

definition FetchPending :: "'s Inbox \<Rightarrow> bytes \<Rightarrow> 's \<Rightarrow> 's \<times> PendingFetch result" where
  "FetchPending sv i s = sbind (ib_fetch sv s i) (\<lambda>(fid, kind, ct64, fp) s.
     (s, case b64_decode ct64 of
           Inl _ \<Rightarrow> Inl (APIError 500 ''decode'' 0)
         | Inr ct \<Rightarrow> Inr \<lparr>pf_ID = fid, pf_Kind = kind, pf_Ciphertext = ct, pf_ToFingerprint = fp\<rparr>))"

definition AckPending :: "'s Inbox \<Rightarrow> bytes \<Rightarrow> 's \<Rightarrow> 's \<times> unit result" where
  "AckPending sv i s = ib_ack sv s i"

section \<open>The directory\<close>

definition ErrEmailRequired :: go_error where
  "ErrEmailRequired = Sentinel ''publishing requires an email on this identity''"

definition ErrFingerprintTaken :: go_error where
  "ErrFingerprintTaken = Sentinel ''this lock fingerprint is already published by another account''"

definition PublishIdentityLock :: "'s Inbox \<Rightarrow> LockBundle \<Rightarrow> 's \<Rightarrow> 's \<times> unit result" where
  "PublishIdentityLock sv lock s =
     (if lb_Email lock = [] then (s, Inl ErrEmailRequired)
      else case wrapping ''marshaling lock: %w'' (MarshalLockBundle lock) of
        Inl e \<Rightarrow> (s, Inl e)
      | Inr raw \<Rightarrow>
        (case ib_publish sv s \<lparr>de_DisplayName = lb_Name lock, de_Alias = lb_Alias lock, de_Email = lb_Email lock,
                de_Fingerprint = lb_Fingerprint lock, de_LockArmored = ArmorEncode raw ArmorLockLabel\<rparr> of
           (s', Inl e) \<Rightarrow> (s', Inl (if IsConflict e then ErrFingerprintTaken else e))
         | (s', Inr u) \<Rightarrow> (s', Inr u)))"

definition ParseDirectoryLock :: "prims \<Rightarrow> DirectoryEntry \<Rightarrow> LockBundle result" where
  "ParseDirectoryLock P entry =
     andthen (if IsArmored (de_LockArmored entry)
              then wrapping ''not a lock: %w'' (ArmorDecodeExpect (de_LockArmored entry) [ArmorLockLabel])
              else Inr (de_LockArmored entry)) (\<lambda>data.
     andthen (wrapping ''this directory entry does not contain a valid lock: %w'' (ParseLockBundle data)) (\<lambda>lb.
     andthen (wrapping ''invalid lock: %w'' (ValidateLockBundle P lb)) (\<lambda>_.
     andthen (wrapping ''unauthenticated directory lock: %w'' (VerifyLockSelfSig P lb)) (\<lambda>_.
     if lb_Fingerprint lb \<noteq> de_Fingerprint entry
     then Inl (Errorf ''directory entry is inconsistent: lock fingerprint %s does not match listing %s'')
     else Inr lb))))"

record DirectorySearchResult = DirectoryEntry +
  ds_AlreadyAdded :: bool
  ds_ContactAlias :: bytes

definition annotate_entry :: "(nat \<Rightarrow> nat \<Rightarrow> bool) \<Rightarrow> Contact list \<Rightarrow> DirectoryEntry \<Rightarrow> DirectorySearchResult" where
  "annotate_entry ufold cs e =
     (case FindByFingerprint ufold cs (de_Fingerprint e) of
        None \<Rightarrow> DirectoryEntry.extend e \<lparr>ds_AlreadyAdded = False, ds_ContactAlias = []\<rparr>
      | Some i \<Rightarrow> DirectoryEntry.extend e \<lparr>ds_AlreadyAdded = True, ds_ContactAlias = ct_Alias (cs ! i)\<rparr>)"

definition SearchDirectoryForContacts ::
    "'s Inbox \<Rightarrow> (nat \<Rightarrow> nat \<Rightarrow> bool) \<Rightarrow> bytes \<Rightarrow> nat \<Rightarrow> Contact list \<Rightarrow> 's \<Rightarrow> 's \<times> DirectorySearchResult list result" where
  "SearchDirectoryForContacts sv ufold query limit contactList s =
     sbind (ib_search sv s query limit) (\<lambda>entries s. (s, Inr (map (annotate_entry ufold contactList) entries)))"

section \<open>Contact requests\<close>

definition KindContactRequest :: bytes where "KindContactRequest = ''contact_request''"

definition KindContactAccept :: bytes where "KindContactAccept = ''contact_accept''"

definition KindRotation :: bytes where "KindRotation = ''rotation''"

definition KindRevocation :: bytes where "KindRevocation = ''revocation''"

definition SendToRecipient ::
    "'s Inbox \<Rightarrow> prims \<Rightarrow> bytes \<Rightarrow> bytes \<Rightarrow> bytes \<Rightarrow> bytes \<Rightarrow> bytes \<Rightarrow> bytes \<Rightarrow> 's \<Rightarrow> 's \<times> unit result" where
  "SendToRecipient sv P rnd recipientID recipientEncPubKey toFingerprint kind payload s =
     (case Encrypt P rnd payload [recipientEncPubKey] of
        Inl e \<Rightarrow> (s, Inl (Wrap ''encrypt to recipient: %w'' e))
      | Inr ct \<Rightarrow> PostPending sv recipientID kind ct toFingerprint s)"

definition SendToFingerprint ::
    "'s Inbox \<Rightarrow> prims \<Rightarrow> bytes \<Rightarrow> bytes \<Rightarrow> bytes \<Rightarrow> bytes \<Rightarrow> bytes \<Rightarrow> 's \<Rightarrow> 's \<times> unit result" where
  "SendToFingerprint sv P rnd fingerprint recipientEncPubKey kind payload s =
     (case Encrypt P rnd payload [recipientEncPubKey] of
        Inl e \<Rightarrow> (s, Inl (Wrap ''encrypt to recipient: %w'' e))
      | Inr ct \<Rightarrow> PostPendingToFingerprint sv fingerprint kind ct s)"

record contactRequestEnvelope =
  ce_ReplyAccountID :: bytes
  ce_LockBundle :: bytes

definition envelope_fields :: "contactRequestEnvelope field list" where
  "envelope_fields =
     [fld ''reply_account_id'' dec_str ce_ReplyAccountID ce_ReplyAccountID_update,
      fld ''lock_bundle'' dec_bytes ce_LockBundle ce_LockBundle_update]"

definition enc_envelope :: "contactRequestEnvelope \<Rightarrow> json" where
  "enc_envelope e = JObj [(''reply_account_id'', jstr (ce_ReplyAccountID e)), (''lock_bundle'', jbytes (ce_LockBundle e))]"

definition MarshalContactRequest :: "bytes \<Rightarrow> LockBundle \<Rightarrow> bytes result" where
  "MarshalContactRequest replyAccountID lb =
     andthen (wrapping ''marshal lock bundle: %w'' (MarshalLockBundle lb)) (\<lambda>raw.
     Inr (compact (enc_envelope \<lparr>ce_ReplyAccountID = replyAccountID, ce_LockBundle = raw\<rparr>)))"

record AppliedUpdate =
  au_Kind :: bytes
  au_Lock :: "LockBundle option"
  au_ReplyAccountID :: bytes
  au_Bundle :: "ParsedBundle option"

definition zero_AppliedUpdate :: AppliedUpdate where
  "zero_AppliedUpdate = \<lparr>au_Kind = [], au_Lock = None, au_ReplyAccountID = [], au_Bundle = None\<rparr>"

definition ApplyPending :: "SelfCrypter \<Rightarrow> PendingFetch \<Rightarrow> AppliedUpdate result" where
  "ApplyPending u item =
     andthen (wrapping ''decrypt pending %s: %w'' (sc_Decrypt u (pf_Ciphertext item))) (\<lambda>plain.
     let out = zero_AppliedUpdate\<lparr>au_Kind := pf_Kind item\<rparr> in
     if pf_Kind item = KindContactRequest then
       (case unmarshal (dec_struct envelope_fields) \<lparr>ce_ReplyAccountID = [], ce_LockBundle = []\<rparr> plain of
          None \<Rightarrow> Inl (Wrap ''parse contact request: %w'' (Errorf ''json''))
        | Some env \<Rightarrow>
          andthen (wrapping ''parse lock bundle: %w'' (ParseLockBundle (ce_LockBundle env))) (\<lambda>lb.
          Inr (out\<lparr>au_Lock := Some lb, au_ReplyAccountID := ce_ReplyAccountID env\<rparr>)))
     else if pf_Kind item = KindContactAccept then
       andthen (wrapping ''parse lock bundle: %w'' (ParseLockBundle plain)) (\<lambda>lb. Inr (out\<lparr>au_Lock := Some lb\<rparr>))
     else if pf_Kind item = KindRotation \<or> pf_Kind item = KindRevocation then
       andthen (wrapping ''parse bundle: %w'' (Parse plain)) (\<lambda>pb. Inr (out\<lparr>au_Bundle := Some pb\<rparr>))
     else Inl (Errorf ''unknown pending kind %q''))"

definition sendConnectRequest ::
    "'s Inbox \<Rightarrow> prims \<Rightarrow> bytes \<Rightarrow> LockBundle \<Rightarrow> bytes \<Rightarrow> bytes \<Rightarrow> 's \<Rightarrow> 's \<times> unit result" where
  "sendConnectRequest sv P rnd myLock fingerprint encPubKey s =
     sbind (ib_account sv s) (\<lambda>account s.
     if account = [] then (s, Inl (Errorf ''server did not return your account id''))
     else case MarshalContactRequest account myLock of
       Inl e \<Rightarrow> (s, Inl e)
     | Inr payload \<Rightarrow> SendToFingerprint sv P rnd fingerprint encPubKey KindContactRequest payload s)"

definition SendFriendRequest ::
    "'s Inbox \<Rightarrow> prims \<Rightarrow> bytes \<Rightarrow> LockBundle \<Rightarrow> DirectoryEntry \<Rightarrow> LockBundle \<Rightarrow> 's \<Rightarrow> 's \<times> unit result" where
  "SendFriendRequest sv P rnd myLock entry target s =
     sendConnectRequest sv P rnd myLock (de_Fingerprint entry) (lb_EncPubKey target) s"

definition InviteContact :: "'s Inbox \<Rightarrow> prims \<Rightarrow> bytes \<Rightarrow> LockBundle \<Rightarrow> LockBundle \<Rightarrow> 's \<Rightarrow> 's \<times> unit result" where
  "InviteContact sv P rnd myLock target s =
     sendConnectRequest sv P rnd myLock (lb_Fingerprint target) (lb_EncPubKey target) s"

text \<open>The lock of a contact request is always set; without it the code dereferences nil.\<close>

definition AcceptContactRequest ::
    "'s Inbox \<Rightarrow> prims \<Rightarrow> bytes \<Rightarrow> AppliedUpdate \<Rightarrow> LockBundle \<Rightarrow> bytes \<Rightarrow> 's \<Rightarrow> 's \<times> bool \<times> unit result" where
  "AcceptContactRequest sv P rnd upd myLock itemID s =
     (let ack = (\<lambda>notified s. case AckPending sv itemID s of (s', r) \<Rightarrow> (s', notified, r)) in
      if au_ReplyAccountID upd = [] then ack False s
      else case wrapping ''marshaling own lock: %w'' (MarshalLockBundle myLock) of
        Inl e \<Rightarrow> (s, False, Inl e)
      | Inr myRaw \<Rightarrow>
        (case au_Lock upd of
           None \<Rightarrow> (s, False, Inl (Errorf ''nil pointer dereference''))
         | Some lb \<Rightarrow>
           (case SendToRecipient sv P rnd (au_ReplyAccountID upd) (lb_EncPubKey lb) (lb_Fingerprint lb) KindContactAccept myRaw s of
              (s', Inl e) \<Rightarrow> (s', False, Inl e)
            | (s', Inr _) \<Rightarrow> ack True s')))"

section \<open>Draining the inbox\<close>

record DrainReport =
  dr_RequestsWaiting :: nat
  dr_Accepted :: "bytes list"
  dr_Rotated :: "bytes list"
  dr_Revoked :: "bytes list"
  dr_Ignored :: nat
  dr_Skipped :: nat
  dr_Rejected :: nat

definition zero_DrainReport :: DrainReport where
  "zero_DrainReport = \<lparr>dr_RequestsWaiting = 0, dr_Accepted = [], dr_Rotated = [], dr_Revoked = [], dr_Ignored = 0, dr_Skipped = 0, dr_Rejected = 0\<rparr>"

datatype applyOutcome = applyIgnored | applyDone | applyRejected

definition recordDrainOutcome :: "DrainReport \<Rightarrow> bytes \<Rightarrow> bytes \<Rightarrow> applyOutcome \<Rightarrow> DrainReport" where
  "recordDrainOutcome rep kind alias outcome =
     (case outcome of
        applyRejected \<Rightarrow> rep\<lparr>dr_Rejected := dr_Rejected rep + 1\<rparr>
      | applyIgnored \<Rightarrow> rep\<lparr>dr_Ignored := dr_Ignored rep + 1\<rparr>
      | applyDone \<Rightarrow> (if kind = KindRotation then rep\<lparr>dr_Rotated := dr_Rotated rep @ [alias]\<rparr>
                     else rep\<lparr>dr_Revoked := dr_Revoked rep @ [alias]\<rparr>))"

text \<open>
  A bundle with the action to update always has its new keys (ProcessImport); without them ApplyUpdate
  dereferences nil.
\<close>

definition applyBundleToContacts ::
    "prims \<Rightarrow> bytes \<Rightarrow> gotime \<Rightarrow> ParsedBundle \<Rightarrow> disk \<Rightarrow> disk \<times> (bytes \<times> applyOutcome) result" where
  "applyBundleToContacts P path now parsed d =
     (case Contacts_load path d of Inl e \<Rightarrow> (d, Inl e)
      | Inr existing \<Rightarrow>
        (case ProcessImport P (Some parsed) existing of
           Inl _ \<Rightarrow> (d, Inr ([], applyRejected))
         | Inr res \<Rightarrow>
           (case im_Contact res of
              None \<Rightarrow> (d, Inr ([], applyIgnored))
            | Some i \<Rightarrow>
              let store = (\<lambda>c. case Contacts_save path d (existing[i := c]) of
                    (d', Inl e) \<Rightarrow> (d', Inl e) | (d', Inr _) \<Rightarrow> (d', Inr (ct_Alias c, applyDone)))
              in (case im_Action res of
                    ActionUpdate \<Rightarrow>
                      (case VerifyRotation P parsed (Some (existing ! i)) of
                         Inl _ \<Rightarrow> (d, Inr ([], applyRejected))
                       | Inr _ \<Rightarrow>
                         (case im_NewKeys res of
                            None \<Rightarrow> (d, Inl (Errorf ''nil pointer dereference''))
                          | Some lock \<Rightarrow> store (ApplyUpdate now (existing ! i) lock)))
                  | ActionRevoke \<Rightarrow>
                      (case VerifyRevocation P parsed (Some (existing ! i)) of
                         Inl _ \<Rightarrow> (d, Inr ([], applyRejected))
                       | Inr _ \<Rightarrow> store (ApplyRevoke now (existing ! i)))
                  | ActionAdd \<Rightarrow> (d, Inr ([], applyIgnored))))))"

text \<open>One item of the inbox: the report, and whether the pass ends with an error.\<close>

definition drain_accept ::
    "'s Inbox \<Rightarrow> prims \<Rightarrow> (nat \<Rightarrow> nat) \<Rightarrow> bytes \<Rightarrow> gotime \<Rightarrow> bytes \<Rightarrow> LockBundle \<Rightarrow> DrainReport \<Rightarrow> 's \<times> disk
      \<Rightarrow> ('s \<times> disk) \<times> DrainReport \<times> unit result" where
  "drain_accept sv P ulow path now itemID lb rep sd =
     (case sd of (s, d) \<Rightarrow>
      (case VerifyLockSelfSig P lb of
         Inl _ \<Rightarrow>
           (case AckPending sv itemID s of
              (s', Inl e) \<Rightarrow> ((s', d), rep, Inl e)
            | (s', Inr _) \<Rightarrow> ((s', d), rep\<lparr>dr_Rejected := dr_Rejected rep + 1\<rparr>, Inr ()))
       | Inr _ \<Rightarrow>
      (case SaveFromLock P ulow path now d lb of
         (d1, Inl e) \<Rightarrow> ((s, d1), rep, Inl e)
       | (d1, Inr (alias, _)) \<Rightarrow>
      (case MarkConnectedByFingerprint path d1 (lb_Fingerprint lb) of
         (d2, Inl e) \<Rightarrow> ((s, d2), rep, Inl e)
       | (d2, Inr _) \<Rightarrow>
      (case AckPending sv itemID s of
         (s', Inl e) \<Rightarrow> ((s', d2), rep, Inl e)
       | (s', Inr _) \<Rightarrow> ((s', d2), rep\<lparr>dr_Accepted := dr_Accepted rep @ [alias]\<rparr>, Inr ()))))))"

definition drain_bundle ::
    "'s Inbox \<Rightarrow> prims \<Rightarrow> bytes \<Rightarrow> gotime \<Rightarrow> bytes \<Rightarrow> bytes \<Rightarrow> ParsedBundle \<Rightarrow> DrainReport \<Rightarrow> 's \<times> disk
      \<Rightarrow> ('s \<times> disk) \<times> DrainReport \<times> unit result" where
  "drain_bundle sv P path now itemID kind parsed rep sd =
     (case sd of (s, d) \<Rightarrow>
      (case applyBundleToContacts P path now parsed d of
         (d', Inl e) \<Rightarrow> ((s, d'), rep, Inl e)
       | (d', Inr (alias, outcome)) \<Rightarrow>
      (case AckPending sv itemID s of
         (s', Inl e) \<Rightarrow> ((s', d'), rep, Inl e)
       | (s', Inr _) \<Rightarrow> ((s', d'), recordDrainOutcome rep kind alias outcome, Inr ()))))"

definition skip_item :: "DrainReport \<Rightarrow> 's \<times> disk \<Rightarrow> ('s \<times> disk) \<times> DrainReport \<times> unit result" where
  "skip_item rep sd = (sd, rep\<lparr>dr_Skipped := dr_Skipped rep + 1\<rparr>, Inr ())"

definition drain_item ::
    "'s Inbox \<Rightarrow> prims \<Rightarrow> (nat \<Rightarrow> nat) \<Rightarrow> bytes \<Rightarrow> (bytes \<Rightarrow> SelfCrypter result) \<Rightarrow> gotime \<Rightarrow> PendingItem \<Rightarrow> DrainReport \<Rightarrow> 's \<times> disk
      \<Rightarrow> ('s \<times> disk) \<times> DrainReport \<times> unit result" where
  "drain_item sv P ulow path unlockFor now it rep sd =
     (if pi_Kind it = KindContactRequest then (sd, rep\<lparr>dr_RequestsWaiting := dr_RequestsWaiting rep + 1\<rparr>, Inr ())
      else case sd of (s, d) \<Rightarrow>
        (case FetchPending sv (pi_ID it) s of
           (s1, Inl _) \<Rightarrow> skip_item rep (s1, d)
         | (s1, Inr item) \<Rightarrow>
           (case unlockFor (pf_ToFingerprint item) of
              Inl _ \<Rightarrow> skip_item rep (s1, d)
            | Inr u \<Rightarrow>
              (case ApplyPending u item of
                 Inl _ \<Rightarrow> skip_item rep (s1, d)
               | Inr upd \<Rightarrow>
                 if au_Kind upd = KindContactAccept then
                   (case au_Lock upd of None \<Rightarrow> skip_item rep (s1, d)
                    | Some lb \<Rightarrow> drain_accept sv P ulow path now (pf_ID item) lb rep (s1, d))
                 else if au_Kind upd = KindRotation \<or> au_Kind upd = KindRevocation then
                   (case au_Bundle upd of None \<Rightarrow> skip_item rep (s1, d)
                    | Some parsed \<Rightarrow> drain_bundle sv P path now (pf_ID item) (au_Kind upd) parsed rep (s1, d))
                 else skip_item rep (s1, d)))))"

fun drain_items ::
    "'s Inbox \<Rightarrow> prims \<Rightarrow> (nat \<Rightarrow> nat) \<Rightarrow> bytes \<Rightarrow> (bytes \<Rightarrow> SelfCrypter result) \<Rightarrow> (nat \<Rightarrow> gotime) \<Rightarrow> PendingItem list
      \<Rightarrow> DrainReport \<Rightarrow> 's \<times> disk \<Rightarrow> ('s \<times> disk) \<times> DrainReport \<times> unit result" where
  "drain_items sv P ulow path unlockFor clock [] rep sd = (sd, rep, Inr ())"
| "drain_items sv P ulow path unlockFor clock (it # items) rep sd =
     (case drain_item sv P ulow path unlockFor (clock (length items)) it rep sd of
        (sd', rep', Inl e) \<Rightarrow> (sd', rep', Inl e)
      | (sd', rep', Inr _) \<Rightarrow> drain_items sv P ulow path unlockFor clock items rep' sd')"

definition DrainPending ::
    "'s Inbox \<Rightarrow> prims \<Rightarrow> (nat \<Rightarrow> nat) \<Rightarrow> bytes \<Rightarrow> (bytes \<Rightarrow> SelfCrypter result) \<Rightarrow> (nat \<Rightarrow> gotime) \<Rightarrow> 's \<times> disk
      \<Rightarrow> ('s \<times> disk) \<times> DrainReport \<times> unit result" where
  "DrainPending sv P ulow path unlockFor clock sd =
     (case sd of (s, d) \<Rightarrow>
      (case ListPending sv s of
         (s', Inl e) \<Rightarrow> ((s', d), zero_DrainReport, Inl e)
       | (s', Inr items) \<Rightarrow> drain_items sv P ulow path unlockFor clock items zero_DrainReport (s', d)))"

section \<open>Broadcast\<close>

record BroadcastReport =
  br_Sent :: "bytes list"
  br_Skipped :: "bytes list"
  br_Failed :: "bytes list"

definition cloud_reachable :: "Contact \<Rightarrow> bool" where
  "cloud_reachable ct \<longleftrightarrow> \<not> (\<not> ct_Cloud ct \<or> ct_Fingerprint ct = [] \<or> ct_EncPubKey ct = [])"

text \<open>\<open>rnd k\<close> is the randomness of the encryption with \<open>k\<close> contacts left.\<close>

fun broadcast_to ::
    "'s Inbox \<Rightarrow> prims \<Rightarrow> (nat \<Rightarrow> bytes) \<Rightarrow> bytes \<Rightarrow> bytes \<Rightarrow> Contact list \<Rightarrow> BroadcastReport \<Rightarrow> 's \<Rightarrow> 's \<times> BroadcastReport" where
  "broadcast_to sv P rnd kind payload [] rep s = (s, rep)"
| "broadcast_to sv P rnd kind payload (ct # cts) rep s =
     (if \<not> cloud_reachable ct then broadcast_to sv P rnd kind payload cts (rep\<lparr>br_Skipped := br_Skipped rep @ [ct_Alias ct]\<rparr>) s
      else case SendToFingerprint sv P (rnd (length cts)) (ct_Fingerprint ct) (ct_EncPubKey ct) kind payload s of
        (s', Inl _) \<Rightarrow> broadcast_to sv P rnd kind payload cts (rep\<lparr>br_Failed := br_Failed rep @ [ct_Alias ct]\<rparr>) s'
      | (s', Inr _) \<Rightarrow> broadcast_to sv P rnd kind payload cts (rep\<lparr>br_Sent := br_Sent rep @ [ct_Alias ct]\<rparr>) s')"

definition broadcast ::
    "'s Inbox \<Rightarrow> prims \<Rightarrow> (nat \<Rightarrow> bytes) \<Rightarrow> bytes \<Rightarrow> bytes \<Rightarrow> bytes \<Rightarrow> 's \<times> disk \<Rightarrow> 's \<times> BroadcastReport result" where
  "broadcast sv P rnd path kind payload sd =
     (case sd of (s, d) \<Rightarrow>
      (case wrapping ''loading contacts: %w'' (Contacts_load path d) of
         Inl e \<Rightarrow> (s, Inl e)
       | Inr existing \<Rightarrow>
         (case broadcast_to sv P rnd kind payload existing \<lparr>br_Sent = [], br_Skipped = [], br_Failed = []\<rparr> s of
            (s', rep) \<Rightarrow> (s', Inr rep))))"

definition BroadcastRotation ::
    "'s Inbox \<Rightarrow> prims \<Rightarrow> (nat \<Rightarrow> bytes) \<Rightarrow> bytes \<Rightarrow> RotationBundle \<Rightarrow> 's \<times> disk \<Rightarrow> 's \<times> BroadcastReport result" where
  "BroadcastRotation sv P rnd path rot sd = broadcast sv P rnd path KindRotation (compact (enc_RotationBundle rot)) sd"

definition BroadcastRevocation ::
    "'s Inbox \<Rightarrow> prims \<Rightarrow> (nat \<Rightarrow> bytes) \<Rightarrow> bytes \<Rightarrow> RevocationBundle \<Rightarrow> 's \<times> disk \<Rightarrow> 's \<times> BroadcastReport result" where
  "BroadcastRevocation sv P rnd path rv sd = broadcast sv P rnd path KindRevocation (compact (enc_RevocationBundle rv)) sd"

section \<open>Where keys come from\<close>

text \<open>
  How the keys of a contact may change in a drain: not at all, to the keys of a lock with the same
  fingerprint that its own key has signed, by a rotation or a revocation that the key stored for the
  contact has signed. A new contact has the keys of a lock that its own key has signed.
\<close>

definition keys_of :: "Contact \<Rightarrow> bytes \<times> bytes \<times> bytes" where
  "keys_of c = (ct_EncPubKey c, ct_SignPubKey c, ct_Fingerprint c)"

definition lock_keys :: "LockBundle \<Rightarrow> bytes \<times> bytes \<times> bytes" where
  "lock_keys lb = (lb_EncPubKey lb, lb_SignPubKey lb, lb_Fingerprint lb)"

inductive key_step :: "prims \<Rightarrow> Contact \<Rightarrow> Contact \<Rightarrow> bool" for P where
  same: "keys_of c' = keys_of c \<Longrightarrow> key_step P c c'"
| confirmed: "VerifyLockSelfSig P lb = Inr () \<Longrightarrow> lb_Fingerprint lb = ct_Fingerprint c \<Longrightarrow> keys_of c' = lock_keys lb \<Longrightarrow> key_step P c c'"
| rotated: "VerifyRotation P parsed (Some c) = Inr () \<Longrightarrow> pa_Lock parsed = Some lock \<Longrightarrow> keys_of c' = lock_keys lock \<Longrightarrow> key_step P c c'"
| revoked: "VerifyRevocation P parsed (Some c) = Inr () \<Longrightarrow> keys_of c' = ([], [], []) \<Longrightarrow> key_step P c c'"

definition vouched :: "prims \<Rightarrow> Contact list \<Rightarrow> Contact list \<Rightarrow> bool" where
  "vouched P cs cs' \<longleftrightarrow> length cs \<le> length cs'
     \<and> (\<forall>i<length cs. (key_step P)\<^sup>*\<^sup>* (cs ! i) (cs' ! i))
     \<and> (\<forall>i. length cs \<le> i \<and> i < length cs' \<longrightarrow>
          (\<exists>c lb. VerifyLockSelfSig P lb = Inr () \<and> keys_of c = lock_keys lb \<and> (key_step P)\<^sup>*\<^sup>* c (cs' ! i)))"

lemma vouched_refl [simp]: "vouched P cs cs"
  by (auto simp: vouched_def)

lemma vouched_trans:
  assumes "vouched P a b" "vouched P b c"
  shows "vouched P a c"
  unfolding vouched_def
proof (intro conjI allI impI)
  show "length a \<le> length c" using assms by (simp add: vouched_def)
  show "(key_step P)\<^sup>*\<^sup>* (a ! i) (c ! i)" if "i < length a" for i
    using assms that unfolding vouched_def by (meson less_le_trans rtranclp_trans)
  show "\<exists>x lb. VerifyLockSelfSig P lb = Inr () \<and> keys_of x = lock_keys lb \<and> (key_step P)\<^sup>*\<^sup>* x (c ! i)"
    if ai: "length a \<le> i \<and> i < length c" for i
  proof (cases "i < length b")
    case True
    then obtain x lb where "VerifyLockSelfSig P lb = Inr ()" "keys_of x = lock_keys lb" "(key_step P)\<^sup>*\<^sup>* x (b ! i)"
      using assms(1) ai unfolding vouched_def by blast
    moreover have "(key_step P)\<^sup>*\<^sup>* (b ! i) (c ! i)" using assms(2) True unfolding vouched_def by blast
    ultimately show ?thesis by (meson rtranclp_trans)
  next
    case False
    then show ?thesis using assms(2) ai unfolding vouched_def by (metis not_less)
  qed
qed

lemma vouched_update: "i < length cs \<Longrightarrow> key_step P (cs ! i) c \<Longrightarrow> vouched P cs (cs[i := c])"
  by (auto simp: vouched_def nth_list_update)

lemma vouched_new: "VerifyLockSelfSig P lb = Inr () \<Longrightarrow> keys_of c = lock_keys lb \<Longrightarrow> vouched P cs (cs @ [c])"
  by (auto simp: vouched_def nth_append)

text \<open>What holds of the store after each operation of a drain.\<close>

definition store_step :: "prims \<Rightarrow> bytes \<Rightarrow> disk \<Rightarrow> disk \<Rightarrow> bool" where
  "store_step P path d d' \<longleftrightarrow> d_fault d' = d_fault d
     \<and> (d_fault d SysRead path = None \<longrightarrow> (\<forall>cs. Contacts_load path d = Inr cs \<longrightarrow>
          (\<exists>cs'. Contacts_load path d' = Inr cs' \<and> vouched P cs cs')))"

lemma store_step_refl [simp]: "store_step P path d d"
  by (simp add: store_step_def)

lemma store_step_trans: "store_step P path a b \<Longrightarrow> store_step P path b c \<Longrightarrow> store_step P path a c"
  unfolding store_step_def by (metis vouched_trans)

lemma save_step:
  assumes "Contacts_load path d = Inr cs" "Contacts_save path d cs' = (d', r)" "list_all wf_Contact cs'" "vouched P cs cs'"
  shows "store_step P path d d'"
proof -
  have f: "d_fault d' = d_fault d" using assms(2) WriteFileAtomic_frame(1) by (auto simp: Contacts_save_def split: if_splits)
  have "\<exists>cs''. Contacts_load path d' = Inr cs'' \<and> vouched P cs cs''" if "d_fault d SysRead path = None"
  proof (cases r)
    case (Inl e)
    then show ?thesis using contacts_file.load_unsaved assms(1,2) by (metis vouched_refl)
  next
    case (Inr u)
    then show ?thesis using contacts_file.load_saved [OF assms(3) that] assms(2,4) by blast
  qed
  with f assms(1) show ?thesis by (auto simp: store_step_def)
qed

lemma SaveFromLock_step:
  assumes "SaveFromLock P ulow path now d lb = (d', r)" "VerifyLockSelfSig P lb = Inr ()" "utf8_LockBundle lb" "wf_time now"
  shows "store_step P path d d'"
proof (cases "ValidateLockBundle P lb = Inr () \<and> lb_Sig lb \<noteq> [] \<and> (\<exists>cs. Contacts_load path d = Inr cs)")
  case True
  then obtain cs where v: "ValidateLockBundle P lb = Inr ()" "lb_Sig lb \<noteq> []" "Contacts_load path d = Inr cs" by auto
  obtain r' where s: "Contacts_save path d (upsert ulow now lb cs) = (d', r')"
    using assms(1) unfolding SaveFromLock_upsert [OF v] by (auto split: prod.splits sum.splits)
  have w: "list_all wf_Contact (upsert ulow now lb cs)"
    using upsert_wf [OF Contacts_load_wf [OF v(3)] assms(3) validated_fingerprint [OF v(1)] assms(4)] .
  have "vouched P cs (upsert ulow now lb cs)"
  proof (cases "find_index (lock_match lb) cs")
    case None
    then show ?thesis using assms(2) by (auto simp: upsert_def intro!: vouched_new simp: keys_of_def lock_keys_def new_contact_def)
  next
    case (Some i)
    then have "i < length cs" "ct_Fingerprint (cs ! i) = lb_Fingerprint lb" by (simp_all add: find_index_Some lock_match_def)
    then show ?thesis using Some assms(2)
      by (auto simp: upsert_def keys_of_def lock_keys_def refresh_contact_def intro!: vouched_update key_step.confirmed [of P lb])
  qed
  then show ?thesis using save_step [OF v(3) s w] by blast
next
  case False
  then have "d' = d" using SaveFromLock_refused [of P lb path d ulow now] assms(1)
    by (cases "Contacts_load path d") auto
  then show ?thesis by simp
qed

lemma MarkConnected_step:
  assumes "MarkConnectedByFingerprint path d fp = (d', r)"
  shows "store_step P path d d'"
proof (cases "Contacts_load path d")
  case (Inr cs)
  show ?thesis
  proof (cases "\<exists>i. find_index (\<lambda>c. ct_Fingerprint c = fp) cs = Some i \<and> ct_CloudConnection (cs ! i) \<noteq> ConnectionConnected")
    case True
    then obtain i where i: "find_index (\<lambda>c. ct_Fingerprint c = fp) cs = Some i" "ct_CloudConnection (cs ! i) \<noteq> ConnectionConnected" by blast
    then have len: "i < length cs" by (simp add: find_index_Some)
    let ?c = "(cs ! i)\<lparr>ct_CloudConnection := ConnectionConnected\<rparr>"
    have "wf_Contact ?c" using Contacts_load_wf [OF Inr] len
      by (simp add: list_all_length wf_Contact_def ConnectionConnected_def valid_utf8_ascii)
    then have w: "list_all wf_Contact (cs[i := ?c])" using Contacts_load_wf [OF Inr] len by (simp add: list_all_length nth_list_update)
    have v: "vouched P cs (cs[i := ?c])" using len by (intro vouched_update key_step.same) (simp_all add: keys_of_def)
    show ?thesis using save_step [OF Inr _ w v] assms i Inr by (simp add: MarkConnectedByFingerprint_def)
  qed (use assms Inr in \<open>auto simp: MarkConnectedByFingerprint_def split: option.splits if_splits\<close>)
qed (use assms in \<open>simp add: MarkConnectedByFingerprint_def\<close>)

lemma ProcessImport_update:
  assumes "ProcessImport P (Some p) cs = Inr r" "im_Contact r = Some i"
  shows "i < length cs" "im_Action r = ActionUpdate \<Longrightarrow> im_NewKeys r = pa_Lock p \<and> pa_Lock p \<noteq> None"
  using assms
  by (auto simp: ProcessImport_def processLockImport_def processRevokeImport_def processRotateImport_def Contacts_FindByID_def
      Contacts_FindDuplicate_def find_index_Some split: if_splits option.splits sum.splits)

lemma apply_wf:
  assumes "wf_Contact c" "wf_time now"
  shows "wf_Contact (ApplyRevoke now c)" "utf8_LockBundle lock \<Longrightarrow> wf_Contact (ApplyUpdate now c lock)"
  using assms by (simp_all add: ApplyRevoke_def ApplyUpdate_def retire_keys_def wf_Contact_def wf_PreviousKey_def utf8_LockBundle_def
      lock_handle_def Let_def valid_utf8_ascii)

lemma apply_keys: "keys_of (ApplyUpdate now c lock) = lock_keys lock" "keys_of (ApplyRevoke now c) = ([], [], [])"
  by (simp_all add: keys_of_def lock_keys_def ApplyUpdate_def ApplyRevoke_def retire_keys_def Let_def)

lemma applyBundle_step:
  assumes "applyBundleToContacts P path now p d = (d', r)" "utf8_ParsedBundle p" "wf_time now"
  shows "store_step P path d d'"
proof (cases "d' = d")
  case False
  then obtain cs res i where l: "Contacts_load path d = Inr cs" and pr: "ProcessImport P (Some p) cs = Inr res" "im_Contact res = Some i"
    using assms(1) by (auto simp: applyBundleToContacts_def split: sum.splits option.splits)
  have i: "i < length cs" using ProcessImport_update(1) [OF pr] .
  have wf: "wf_Contact (cs ! i)" using Contacts_load_wf [OF l] i by (simp add: list_all_length)
  have save: "store_step P path d d'"
    if "Contacts_save path d (cs[i := c]) = (d', r')" "wf_Contact c" "key_step P (cs ! i) c" for c r'
    using that save_step [OF l that(1) _ vouched_update [OF i that(3)]] Contacts_load_wf [OF l] i
    by (simp add: list_all_length nth_list_update)
  show ?thesis
  proof (cases "im_Action res")
    case ActionUpdate
    then obtain lock where lock: "pa_Lock p = Some lock" "im_NewKeys res = Some lock" using ProcessImport_update(2) [OF pr] by auto
    then have u: "utf8_LockBundle lock" using assms(2) by (simp add: utf8_ParsedBundle_def)
    have v: "VerifyRotation P p (Some (cs ! i)) = Inr ()" and sv: "\<exists>r'. Contacts_save path d (cs[i := ApplyUpdate now (cs ! i) lock]) = (d', r')"
      using assms(1) False l pr ActionUpdate lock by (auto simp: applyBundleToContacts_def Let_def split: sum.splits prod.splits)
    show ?thesis using sv save [OF _ apply_wf(2) [OF wf assms(3) u] key_step.rotated [OF v lock(1) apply_keys(1)]] by blast
  next
    case ActionRevoke
    have v: "VerifyRevocation P p (Some (cs ! i)) = Inr ()" and sv: "\<exists>r'. Contacts_save path d (cs[i := ApplyRevoke now (cs ! i)]) = (d', r')"
      using assms(1) False l pr ActionRevoke by (auto simp: applyBundleToContacts_def Let_def split: sum.splits prod.splits)
    show ?thesis using sv save [OF _ apply_wf(1) [OF wf assms(3)] key_step.revoked [OF v apply_keys(2)]] by blast
  next
    case ActionAdd
    then show ?thesis using assms(1) False l pr by (simp add: applyBundleToContacts_def)
  qed
qed simp

lemma ApplyPending_utf8:
  assumes "ApplyPending u item = Inr upd"
  shows "au_Lock upd = Some lb \<Longrightarrow> utf8_LockBundle lb" "au_Bundle upd = Some p \<Longrightarrow> utf8_ParsedBundle p"
  using assms ParseLockBundle_utf8 Parse_utf8
  by (auto simp: ApplyPending_def zero_AppliedUpdate_def Let_def split: if_splits option.splits)

lemma drain_accept_step:
  assumes "drain_accept sv P ulow path now i lb rep (s, d) = ((s', d'), rep', r)" "utf8_LockBundle lb" "wf_time now"
  shows "store_step P path d d'"
proof (cases "VerifyLockSelfSig P lb")
  case Inl
  then show ?thesis using assms(1) by (auto simp: drain_accept_def split: prod.splits sum.splits)
next
  case (Inr u)
  obtain d1 r1 where s: "SaveFromLock P ulow path now d lb = (d1, r1)" by (cases "SaveFromLock P ulow path now d lb")
  obtain d2 r2 where m: "MarkConnectedByFingerprint path d1 (lb_Fingerprint lb) = (d2, r2)" by (cases "MarkConnectedByFingerprint path d1 (lb_Fingerprint lb)")
  have "d' = d1 \<or> d' = d2"
    using assms(1) Inr s m by (auto simp: drain_accept_def split: prod.splits sum.splits)
  then show ?thesis
    using SaveFromLock_step [OF s _ assms(2,3)] Inr MarkConnected_step [OF m] store_step_trans by (metis unit.exhaust)
qed

lemma drain_bundle_step:
  assumes "drain_bundle sv P path now i kind p rep (s, d) = ((s', d'), rep', r)" "utf8_ParsedBundle p" "wf_time now"
  shows "store_step P path d d'"
proof -
  obtain r' where "applyBundleToContacts P path now p d = (d', r')"
    using assms(1) by (auto simp: drain_bundle_def split: prod.splits sum.splits)
  then show ?thesis using applyBundle_step assms(2,3) by blast
qed

lemma drain_item_step:
  assumes "drain_item sv P ulow path unlockFor now it rep (s, d) = ((s', d'), rep', r)" "wf_time now"
  shows "store_step P path d d'"
  using assms(1) unfolding drain_item_def
  by (auto simp: skip_item_def split: if_splits prod.splits sum.splits option.splits
      intro: drain_accept_step [OF _ ApplyPending_utf8(1) assms(2)] drain_bundle_step [OF _ ApplyPending_utf8(2) assms(2)])

lemma drain_items_step:
  "drain_items sv P ulow path unlockFor clock items rep (s, d) = ((s', d'), rep', r) \<Longrightarrow> (\<And>k. wf_time (clock k)) \<Longrightarrow> store_step P path d d'"
proof (induction items arbitrary: rep s d)
  case (Cons it items)
  obtain s1 d1 rep1 r1 where 1: "drain_item sv P ulow path unlockFor (clock (length items)) it rep (s, d) = ((s1, d1), rep1, r1)"
    by (metis prod.exhaust)
  have st: "store_step P path d d1" using drain_item_step [OF 1 Cons.prems(2)] .
  show ?case
  proof (cases r1)
    case (Inr u)
    then show ?thesis using Cons 1 store_step_trans [OF st] by simp
  qed (use Cons.prems 1 st in simp)
qed simp

lemma IsArmored_object: "\<not> IsArmored (compact (JObj ms))"
proof -
  obtain t where t: "compact (JObj ms) = CHR 0x7B # t" by (cases ms) (simp_all add: compact_def)
  then show ?thesis by (simp add: IsArmored_def HasPrefix_def begin_line_def t)
qed

lemma Parse_compact_rotation:
  assumes "utf8_RotationBundle rot" "rv_ID (rt_Revocation rot) \<noteq> []" "lb_ID (rt_NewLock rot) \<noteq> []"
  shows "Parse (compact (enc_RotationBundle rot)) = Inr (rotate_parsed rot)"
proof -
  have "\<not> IsArmored (compact (enc_RotationBundle rot))" unfolding enc_RotationBundle_def by (rule IsArmored_object)
  then show ?thesis using assms dec_enc_RotationBundle [OF assms(1)]
    by (simp add: Parse_def parseJSON_def unmarshal_compact wf_enc_bundles)
qed

text \<open>Who can read what is encrypted to a recipient: a crypter that decrypts with its identity.\<close>

definition key_holder :: "prims \<Rightarrow> SelfCrypter \<Rightarrow> bytes \<Rightarrow> bool" where
  "key_holder P u pub \<longleftrightarrow> (\<exists>k i. ParseHybridIdentity P k = Inr i \<and> Recipient_String P i = pub \<and> (\<forall>ct. sc_Decrypt u ct = Decrypt P ct k))"

lemma Unlocked_key_holder:
  "open_enc P u = Inr k \<Longrightarrow> ParseHybridIdentity P k = Inr i \<Longrightarrow> key_holder P (Unlocked_SelfCrypter P u) (Recipient_String P i)"
  by (auto simp: key_holder_def Unlocked_SelfCrypter_def Unlocked_Decrypt_def)

lemma key_holder_reads: "age_correct P \<Longrightarrow> key_holder P u pub \<Longrightarrow> Encrypt P rnd m [pub] = Inr ct \<Longrightarrow> sc_Decrypt u ct = Inr m"
  using Encrypt_Decrypt(2) by (fastforce simp: key_holder_def)

lemma SendToFingerprint_sent:
  assumes "SendToFingerprint sv P rnd fp pub kind m s = (s', Inr w)" "age_correct P" "key_holder P u pub"
  shows "\<exists>ct. ib_postFP sv s fp kind (b64_encode ct) = (s', Inr w) \<and> sc_Decrypt u ct = Inr m"
  using assms(1) key_holder_reads [OF assms(2,3)] by (auto simp: SendToFingerprint_def PostPendingToFingerprint_def split: sum.splits)

lemma find_envelope:
  "find_field envelope_fields ''reply_account_id'' = Some (snd (fld ''reply_account_id'' dec_str ce_ReplyAccountID ce_ReplyAccountID_update))"
  "find_field envelope_fields ''lock_bundle'' = Some (snd (fld ''lock_bundle'' dec_bytes ce_LockBundle ce_LockBundle_update))"
  by (simp_all add: envelope_fields_def find_field_def fld_def)

lemma ApplyPending_request:
  assumes "MarshalContactRequest account lb = Inr payload" "valid_utf8 account" "utf8_LockBundle lb"
    and "sc_Decrypt u ct = Inr payload"
  shows "ApplyPending u \<lparr>pf_ID = i, pf_Kind = KindContactRequest, pf_Ciphertext = ct, pf_ToFingerprint = fp\<rparr>
    = Inr \<lparr>au_Kind = KindContactRequest, au_Lock = Some lb, au_ReplyAccountID = account, au_Bundle = None\<rparr>"
proof -
  let ?e = "\<lparr>ce_ReplyAccountID = account, ce_LockBundle = compact (enc_LockBundle lb)\<rparr>"
  have p: "payload = compact (enc_envelope ?e)" using assms(1) by (simp add: MarshalContactRequest_def MarshalLockBundle_def)
  have "wf_json 10000 (enc_envelope ?e)" by (simp add: enc_envelope_def valid_utf8_ascii)
  moreover have "dec_struct envelope_fields (enc_envelope ?e) \<lparr>ce_ReplyAccountID = [], ce_LockBundle = []\<rparr> = (?e, DOk)"
    using assms(2) by (simp add: enc_envelope_def json_rt find_envelope fld_def)
  ultimately show ?thesis using ParseLockBundle_Marshal [OF assms(3)] assms(4)
    by (simp add: ApplyPending_def p unmarshal_compact zero_AppliedUpdate_def)
qed

section \<open>Properties\<close>

text \<open>
  C14. Draining the inbox, whatever the server delivers and wherever the pass ends: the contact store
  still loads, no contact is removed, the keys of a contact change only to those of a lock with the
  same fingerprint signed by its own key, or by a rotation or revocation signed by the key that was
  stored for the contact at that moment, and a contact that is added has the keys of a lock signed by
  its own key.
\<close>

theorem DrainPending_vouched:
  assumes "DrainPending sv P ulow path unlockFor clock (s, d) = ((s', d'), rep, r)"
    and "Contacts_load path d = Inr cs" "d_fault d SysRead path = None" "\<And>k. wf_time (clock k)"
  shows "\<exists>cs'. Contacts_load path d' = Inr cs' \<and> vouched P cs cs'"
proof -
  have "store_step P path d d'"
    using assms(1) drain_items_step [OF _ assms(4)] by (auto simp: DrainPending_def split: prod.splits sum.splits)
  then show ?thesis using assms(2,3) by (simp add: store_step_def)
qed


text \<open>
  A contact request that was sent is posted to the target's fingerprint with a ciphertext that
  the holder of the target's key opens to exactly the sender's lock and the account to reply to.
\<close>

theorem sendConnectRequest_delivers:
  assumes "sendConnectRequest sv P rnd myLock fp pub s = (s', Inr w)"
    and "age_correct P" "key_holder P u pub" "utf8_LockBundle myLock" "\<forall>s s' a. ib_account sv s = (s', Inr a) \<longrightarrow> valid_utf8 a"
  shows "\<exists>account s1 ct. ib_account sv s = (s1, Inr account) \<and> account \<noteq> []
    \<and> ib_postFP sv s1 fp KindContactRequest (b64_encode ct) = (s', Inr w)
    \<and> (\<forall>i to. ApplyPending u \<lparr>pf_ID = i, pf_Kind = KindContactRequest, pf_Ciphertext = ct, pf_ToFingerprint = to\<rparr>
         = Inr \<lparr>au_Kind = KindContactRequest, au_Lock = Some myLock, au_ReplyAccountID = account, au_Bundle = None\<rparr>)"
proof -
  obtain account s1 payload where a: "ib_account sv s = (s1, Inr account)" "account \<noteq> []" "MarshalContactRequest account myLock = Inr payload"
      "SendToFingerprint sv P rnd fp pub KindContactRequest payload s1 = (s', Inr w)"
    using assms(1) by (auto simp: sendConnectRequest_def sbind_Inr_iff split: if_splits sum.splits)
  obtain ct where ct: "ib_postFP sv s1 fp KindContactRequest (b64_encode ct) = (s', Inr w)" "sc_Decrypt u ct = Inr payload"
    using SendToFingerprint_sent [OF a(4) assms(2,3)] by blast
  show ?thesis using a(1,2) ct(1) ApplyPending_request [OF a(3) _ assms(4) ct(2)] assms(5) by blast
qed

lemma FetchPending_ok:
  "ib_fetch sv s i = (s1, Inr (fid, kind, b64_encode ct, fp)) \<Longrightarrow>
   FetchPending sv i s = (s1, Inr \<lparr>pf_ID = fid, pf_Kind = kind, pf_Ciphertext = ct, pf_ToFingerprint = fp\<rparr>)"
  by (simp add: FetchPending_def del: b64_encode.simps)

lemma drain_item_rotation:
  assumes "FetchPending sv i s = (s1, Inr \<lparr>pf_ID = fid, pf_Kind = KindRotation, pf_Ciphertext = ct, pf_ToFingerprint = fp\<rparr>)"
    and "unlockFor fp = Inr u" "sc_Decrypt u ct = Inr m" "Parse m = Inr parsed"
  shows "drain_item sv P ulow path unlockFor now \<lparr>pi_ID = i, pi_Kind = KindRotation, pi_ToFingerprint = to\<rparr> rep (s, d)
    = drain_bundle sv P path now fid KindRotation parsed rep (s1, d)"
  using assms
  by (simp add: drain_item_def ApplyPending_def zero_AppliedUpdate_def KindRotation_def KindContactRequest_def KindContactAccept_def KindRevocation_def)

text \<open>
  C15. A broadcast rotation takes effect: when the signed rotation was posted to a contact's
  fingerprint, the contact's side, fetching that item and holding the key, finds the sender by the
  identifier, replaces the keys by those of the new lock (the old ones go to the history), stores the
  list, deletes the item and reports the rotation.
\<close>

theorem rotation_broadcast_applied:
  assumes sent: "SendToFingerprint sv P rnd fp pub KindRotation (compact (enc_RotationBundle sealed)) s = (s', Inr w)"
    and crypt: "age_correct P" "mldsa_correct P" "key_holder P u pub"
    and seal: "mldsa_PrivUnmarshal P priv = Inr k" "SealRotation (\<lambda>m. Sign P m priv) rot = Inr sealed" "utf8_RotationBundle rot"
    and lock: "VerifyLockSelfSig P (rt_NewLock rot) = Inr ()" "ValidateLockBundle P (rt_NewLock rot) = Inr ()" "lb_ID (rt_NewLock rot) \<noteq> []"
    and peer: "Contacts_load path d = Inr cs" "Contacts_FindByID cs (rv_ID (rt_Revocation rot)) = Inr i" "rv_ID (rt_Revocation rot) \<noteq> []"
      "ct_SignPubKey (cs ! i) = b64_encode (mldsa_Public P k)" "rv_RevokedFingerprint (rt_Revocation rot) = ct_Fingerprint (cs ! i)"
    and disk: "\<And>c q. d_fault d c q = None" "list_all Contact_marshals cs" "wf_time now" "marshals now"
  shows "\<exists>ct. ib_postFP sv s fp KindRotation (b64_encode ct) = (s', Inr w) \<and>
    (\<forall>sv2 s1 s2 s3 item. ib_fetch sv2 s1 item = (s2, Inr (item, KindRotation, b64_encode ct, fp)) \<and> ib_ack sv2 s2 item = (s3, Inr ()) \<and> unlockFor fp = Inr u \<longrightarrow>
      (\<exists>d'. drain_item sv2 P ulow path unlockFor now \<lparr>pi_ID = item, pi_Kind = KindRotation, pi_ToFingerprint = fp\<rparr> rep (s1, d)
           = ((s3, d'), rep\<lparr>dr_Rotated := dr_Rotated rep @ [ct_Alias (ApplyUpdate now (cs ! i) (rt_NewLock rot))]\<rparr>, Inr ())
         \<and> Contacts_load path d' = Inr (cs[i := ApplyUpdate now (cs ! i) (rt_NewLock rot)])))"
proof -
  let ?c = "ApplyUpdate now (cs ! i) (rt_NewLock rot)"
  obtain ct where ct: "ib_postFP sv s fp KindRotation (b64_encode ct) = (s', Inr w)" "sc_Decrypt u ct = Inr (compact (enc_RotationBundle sealed))"
    using SendToFingerprint_sent [OF sent crypt(1,3)] by blast
  have i: "i < length cs" "ct_ID (cs ! i) = rv_ID (rt_Revocation rot)" using peer(2) by (auto simp: Contacts_FindByID_def find_index_Some split: if_splits)
  note v = SealRotation_verifies [OF crypt(2) seal(1) peer(4) seal(2) lock(1) peer(5) i(2) [symmetric]]
  then obtain sig where sl: "sealed = rot\<lparr>rt_Sig := b64_encode sig\<rparr>" by blast
  have "utf8_RotationBundle sealed" using seal(3) valid_utf8_ascii [OF plain_ascii [OF b64_plain]] by (simp add: utf8_RotationBundle_def sl)
  then have p: "Parse (compact (enc_RotationBundle sealed)) = Inr (rotate_parsed sealed)"
    using Parse_compact_rotation peer(3) lock(3) by (simp add: sl)
  have wf: "wf_Contact ?c" using Contacts_load_wf [OF peer(1)] i(1) seal(3) disk(3)
    by (intro apply_wf(2)) (simp_all add: list_all_length utf8_RotationBundle_def)
  have "Contact_marshals (cs ! i)" using disk(2) i(1) by (simp add: list_all_length)
  then have "Contact_marshals ?c" using disk(4) by (simp add: Contact_marshals_def ApplyUpdate_def retire_keys_def Let_def)
  then have m: "list_all Contact_marshals (cs[i := ?c])" using disk(2) i(1) by (simp add: list_all_length nth_list_update)
  then obtain d' where save: "Contacts_save path d (cs[i := ?c]) = (d', Inr ())"
    using WriteFileAtomic_clean disk(1) by (simp add: Contacts_save_def)
  have load: "Contacts_load path d' = Inr (cs[i := ?c])"
    using contacts_file.load_saved [OF _ disk(1) save] wf Contacts_load_wf [OF peer(1)] i(1) by (simp add: list_all_length nth_list_update)
  have imp: "\<exists>res. ProcessImport P (Some (rotate_parsed sealed)) cs = Inr res \<and> im_Contact res = Some i \<and> im_Action res = ActionUpdate
      \<and> im_NewKeys res = Some (rt_NewLock rot)"
    using lock(2) peer(2) by (simp add: ProcessImport_def rotate_parsed_def sl BundleLock_def BundleRevoke_def BundleRotate_def processRotateImport_def)
  have ap: "applyBundleToContacts P path now (rotate_parsed sealed) d = (d', Inr (ct_Alias ?c, applyDone))"
    using peer(1) imp v(1) save by (auto simp: applyBundleToContacts_def)
  have dr: "drain_item sv2 P ulow path unlockFor now \<lparr>pi_ID = item, pi_Kind = KindRotation, pi_ToFingerprint = fp\<rparr> rep (s1, d)
      = ((s3, d'), rep\<lparr>dr_Rotated := dr_Rotated rep @ [ct_Alias ?c]\<rparr>, Inr ())"
    if "ib_fetch sv2 s1 item = (s2, Inr (item, KindRotation, b64_encode ct, fp))" "ib_ack sv2 s2 item = (s3, Inr ())" "unlockFor fp = Inr u" for sv2 s1 s2 s3 item
    using drain_item_rotation [where unlockFor = unlockFor, OF FetchPending_ok [OF that(1)] that(3) ct(2) p] ap that(2)
    by (simp add: drain_bundle_def recordDrainOutcome_def AckPending_def)
  show ?thesis
    by (rule exI [of _ ct], intro conjI allI impI ct(1), elim conjE, rule exI [of _ d'], intro conjI load, rule dr)
qed


text \<open>
  A lock taken from the directory is validated, signed by its own key and bound to the
  fingerprint it is listed under; conversely the entry that PublishIdentityLock posts for such a lock
  with an email gives back exactly that lock to everybody who finds it.
\<close>

theorem ParseDirectoryLock_published:
  "(ParseDirectoryLock P entry = Inr lb \<longrightarrow>
      ValidateLockBundle P lb = Inr () \<and> VerifyLockSelfSig P lb = Inr () \<and> lb_Fingerprint lb = de_Fingerprint entry)
   \<and> (PublishIdentityLock sv lock s = (s', Inr u) \<longrightarrow>
      (\<exists>e. ib_publish sv s e = (s', Inr u) \<and> de_Email e = lb_Email lock \<and> lb_Email lock \<noteq> []
         \<and> (utf8_LockBundle lock \<and> ValidateLockBundle P lock = Inr () \<and> VerifyLockSelfSig P lock = Inr () \<longrightarrow> ParseDirectoryLock P e = Inr lock)))"
proof -
  have "line_ok ArmorLockLabel" by (simp add: line_ok_def armor_labels)
  then have a: "ArmorDecodeExpect (ArmorEncode data ArmorLockLabel) [ArmorLockLabel] = Inr data" for data
    using ArmorDecode_Encode [of ArmorLockLabel "[]"] by (simp add: ArmorDecodeExpect_def ArmorDecode_def ArmorEncode_def)
  have "ParseDirectoryLock P \<lparr>de_DisplayName = x, de_Alias = y, de_Email = z, de_Fingerprint = lb_Fingerprint lock,
      de_LockArmored = ArmorEncode (compact (enc_LockBundle lock)) ArmorLockLabel\<rparr> = Inr lock"
    if "utf8_LockBundle lock" "ValidateLockBundle P lock = Inr ()" "VerifyLockSelfSig P lock = Inr ()" for x y z
    using that IsArmored_encode [of ArmorLockLabel] a ParseLockBundle_Marshal by (simp add: ParseDirectoryLock_def)
  then have "PublishIdentityLock sv lock s = (s', Inr u) \<Longrightarrow>
      \<exists>e. ib_publish sv s e = (s', Inr u) \<and> de_Email e = lb_Email lock \<and> lb_Email lock \<noteq> []
         \<and> (utf8_LockBundle lock \<and> ValidateLockBundle P lock = Inr () \<and> VerifyLockSelfSig P lock = Inr () \<longrightarrow> ParseDirectoryLock P e = Inr lock)"
    by (auto simp: PublishIdentityLock_def MarshalLockBundle_def split: if_splits prod.splits sum.splits)
  moreover have "ParseDirectoryLock P entry = Inr lb \<Longrightarrow>
      ValidateLockBundle P lb = Inr () \<and> VerifyLockSelfSig P lb = Inr () \<and> lb_Fingerprint lb = de_Fingerprint entry"
    by (auto simp: ParseDirectoryLock_def split: if_splits)
  ultimately show ?thesis by blast
qed

section \<open>A service in memory\<close>

text \<open>The items of an inbox, numbered as they arrive, and the entries of the directory.\<close>

record mailbox =
  mb_next :: nat
  mb_items :: "(bytes \<times> bytes \<times> bytes \<times> bytes) list"
  mb_dir :: "DirectoryEntry list"

definition mail_put :: "bytes \<Rightarrow> bytes \<Rightarrow> bytes \<Rightarrow> mailbox \<Rightarrow> mailbox" where
  "mail_put kind ct64 fp m = m\<lparr>mb_next := mb_next m + 1, mb_items := mb_items m @ [(dec (mb_next m), kind, ct64, fp)]\<rparr>"

definition mail_service :: "mailbox Inbox" where
  "mail_service = \<lparr>ib_post = (\<lambda>m _ kind ct64 fp. (mail_put kind ct64 fp m, Inr ())),
     ib_postFP = (\<lambda>m fp kind ct64. (mail_put kind ct64 fp m, Inr ())),
     ib_list = (\<lambda>m. (m, Inr (map (\<lambda>(i, kind, _, fp). \<lparr>pi_ID = i, pi_Kind = kind, pi_ToFingerprint = fp\<rparr>) (mb_items m)))),
     ib_fetch = (\<lambda>m i. (m, case find_index (\<lambda>x. fst x = i) (mb_items m) of None \<Rightarrow> Inl (APIError 404 ''not_found'' 0) | Some k \<Rightarrow> Inr (mb_items m ! k))),
     ib_ack = (\<lambda>m i. (m\<lparr>mb_items := filter (\<lambda>x. fst x \<noteq> i) (mb_items m)\<rparr>, Inr ())),
     ib_account = (\<lambda>m. (m, Inr ''acct'')),
     ib_publish = (\<lambda>m e. (m\<lparr>mb_dir := mb_dir m @ [e]\<rparr>, Inr ())),
     ib_search = (\<lambda>m _ _. (m, Inr (mb_dir m)))\<rparr>"

definition eve_crypter :: SelfCrypter where
  "eve_crypter = \<lparr>sc_EncryptToSelf = (\<lambda>rnd m. Encrypt toy_prims rnd m [''age1pq1eve'']), sc_Decrypt = (\<lambda>ct. Decrypt toy_prims ct ''AGE-SECRET-KEY-PQ-1eve'')\<rparr>"

definition empty_mail :: mailbox where "empty_mail = \<lparr>mb_next = 0, mb_items = [], mb_dir = []\<rparr>"

lemma eve_holds: "key_holder toy_prims eve_crypter ''age1pq1eve''"
  unfolding key_holder_def eve_crypter_def
  by (intro exI [of _ "''AGE-SECRET-KEY-PQ-1eve''"]) (simp add: toy_prims_def HasPrefix_def)

lemma eve_encrypt: "\<exists>ct. Encrypt toy_prims rnd m [''age1pq1eve''] = Inr ct"
  by (simp add: Encrypt_def parseRecipients_def toy_prims_def HasPrefix_def)

text \<open>Sending through this service succeeds.\<close>

lemma eve_sent: "\<exists>s'. SendToFingerprint mail_service toy_prims rnd fp ''age1pq1eve'' kind m s = (s', Inr ())"
  using eve_encrypt [of rnd m] by (auto simp: SendToFingerprint_def PostPendingToFingerprint_def mail_service_def)

theorem sendConnectRequest_delivers_witness:
  "\<exists>s' ct. sendConnectRequest mail_service toy_prims [] sealed_lock ''fp'' ''age1pq1eve'' empty_mail = (s', Inr ())
     \<and> ApplyPending eve_crypter \<lparr>pf_ID = ''0'', pf_Kind = KindContactRequest, pf_Ciphertext = ct, pf_ToFingerprint = ''fp''\<rparr>
         = Inr \<lparr>au_Kind = KindContactRequest, au_Lock = Some sealed_lock, au_ReplyAccountID = ''acct'', au_Bundle = None\<rparr>"
proof -
  have acc: "ib_account mail_service s = (s, Inr ''acct'')" for s by (simp add: mail_service_def)
  obtain s' where s: "sendConnectRequest mail_service toy_prims [] sealed_lock ''fp'' ''age1pq1eve'' empty_mail = (s', Inr ())"
    unfolding sendConnectRequest_def acc MarshalContactRequest_def MarshalLockBundle_def using eve_sent [of "[]" "''fp''"] by simp metis
  have v: "\<forall>s s' a. ib_account mail_service s = (s', Inr a) \<longrightarrow> valid_utf8 a" by (auto simp: acc valid_utf8_ascii)
  from sendConnectRequest_delivers [OF s toy_laws(1) eve_holds sealed_lock_valid(3) v] s show ?thesis by (auto simp: acc)
qed


text \<open>
  An acceptance is not matched against a request: any lock with a valid signature of its own that
  reaches the inbox as a contact_accept is added to the store and marked connected, also when nobody
  was ever invited.
\<close>

theorem contact_accept_unsolicited:
  assumes item: "FetchPending sv i s = (s1, Inr \<lparr>pf_ID = fid, pf_Kind = KindContactAccept, pf_Ciphertext = ct, pf_ToFingerprint = fp\<rparr>)"
      "unlockFor fp = Inr u" "sc_Decrypt u ct = Inr (compact (enc_LockBundle lb))" "ib_ack sv s1 fid = (s2, Inr ())"
    and lock: "utf8_LockBundle lb" "ValidateLockBundle P lb = Inr ()" "VerifyLockSelfSig P lb = Inr ()" "lb_Sig lb \<noteq> []"
    and store: "Contacts_load path d = Inr cs" "lb_Fingerprint lb \<notin> ct_Fingerprint ` set cs" "list_all Contact_marshals cs"
      "\<And>c q. d_fault d c q = None" "wf_time now" "marshals now"
  shows "\<exists>d' alias c. drain_item sv P ulow path unlockFor now \<lparr>pi_ID = i, pi_Kind = KindContactAccept, pi_ToFingerprint = fp\<rparr> rep (s, d)
       = ((s2, d'), rep\<lparr>dr_Accepted := dr_Accepted rep @ [alias]\<rparr>, Inr ())
     \<and> Contacts_load path d' = Inr (cs @ [c]) \<and> keys_of c = lock_keys lb \<and> ct_CloudConnection c = ConnectionConnected"
proof -
  let ?n = "new_contact (upsert_alias ulow lb cs) now lb"
  let ?c = "?n\<lparr>ct_CloudConnection := ConnectionConnected\<rparr>"
  have nf: "find_index (lock_match lb) cs = None" using store(2) by (metis find_index_None image_eqI lock_match_def)
  then have up: "upsert ulow now lb cs = cs @ [?n]" by (simp add: upsert_def)
  obtain d1 al upd where s: "SaveFromLock P ulow path now d lb = (d1, Inr (al, upd))" and f1: "\<And>c q. d_fault d1 c q = None"
    using SaveFromLock_clean [OF store(1,3,6,4) lock(2,4)] by force
  note st = SaveFromLock_stored [OF store(1) Contacts_load_wf [OF store(1)] lock(1) store(5) store(4) s, unfolded up]
  have "find_index (\<lambda>c. ct_Fingerprint c = lb_Fingerprint lb) (cs @ [?n]) = Some (length cs)"
    using store(2) by (auto simp: find_index_Some nth_append new_contact_def) (metis image_eqI nth_mem)
  moreover have "ct_CloudConnection ?n \<noteq> ConnectionConnected" by (simp add: new_contact_def zero_Contact_def ConnectionConnected_def)
  ultimately have mk: "MarkConnectedByFingerprint path d1 (lb_Fingerprint lb) = Contacts_save path d1 (cs @ [?c])"
    using st(1) by (simp add: MarkConnectedByFingerprint_def)
  have m: "list_all Contact_marshals (cs @ [?c])" using store(3,6) by (simp add: Contact_marshals_def new_contact_def zero_Contact_def)
  then obtain d2 where d2: "Contacts_save path d1 (cs @ [?c]) = (d2, Inr ())" using f1 WriteFileAtomic_clean by (simp add: Contacts_save_def)
  have "list_all wf_Contact (cs @ [?c])" using st(2) by (simp add: wf_Contact_def ConnectionConnected_def valid_utf8_ascii)
  then have load: "Contacts_load path d2 = Inr (cs @ [?c])" using contacts_file.load_saved f1 d2 by blast
  have "drain_accept sv P ulow path now fid lb rep (s1, d) = ((s2, d2), rep\<lparr>dr_Accepted := dr_Accepted rep @ [al]\<rparr>, Inr ())"
    using lock(3) s mk d2 item(4) by (simp add: drain_accept_def AckPending_def)
  then have "drain_item sv P ulow path unlockFor now \<lparr>pi_ID = i, pi_Kind = KindContactAccept, pi_ToFingerprint = fp\<rparr> rep (s, d)
      = ((s2, d2), rep\<lparr>dr_Accepted := dr_Accepted rep @ [al]\<rparr>, Inr ())"
    using item(1-3) ParseLockBundle_Marshal [OF lock(1)]
    by (simp add: drain_item_def ApplyPending_def zero_AppliedUpdate_def KindContactRequest_def KindContactAccept_def)
  moreover have "keys_of ?c = lock_keys lb" by (simp add: keys_of_def lock_keys_def new_contact_def)
  ultimately show ?thesis using load by (intro exI [of _ d2] exI [of _ al] exI [of _ ?c]) simp
qed

lemma mail_delivers:
  assumes "ib_postFP mail_service empty_mail fp kind (b64_encode ct) = (s', Inr w)"
  shows "ib_fetch mail_service s' ''0'' = (s', Inr (''0'', kind, b64_encode ct, fp))" "ib_ack mail_service s' ''0'' = (s'\<lparr>mb_items := []\<rparr>, Inr ())"
    "ListPending mail_service s' = (s', Inr [\<lparr>pi_ID = ''0'', pi_Kind = kind, pi_ToFingerprint = fp\<rparr>])"
proof -
  have d0: "dec 0 = ''0''" by code_simp
  have "s' = \<lparr>mb_next = 1, mb_items = [(''0'', kind, b64_encode ct, fp)], mb_dir = []\<rparr>"
    using assms by (simp add: mail_service_def mail_put_def empty_mail_def d0 del: b64_encode.simps)
  then show "ib_fetch mail_service s' ''0'' = (s', Inr (''0'', kind, b64_encode ct, fp))" "ib_ack mail_service s' ''0'' = (s'\<lparr>mb_items := []\<rparr>, Inr ())"
    "ListPending mail_service s' = (s', Inr [\<lparr>pi_ID = ''0'', pi_Kind = kind, pi_ToFingerprint = fp\<rparr>])"
    by (simp_all add: mail_service_def ListPending_def del: b64_encode.simps)
qed

lemma rotating_stored:
  "\<exists>d. Contacts_load ''c.json'' d = Inr [rotating_contact] \<and> (\<forall>c q. d_fault d c q = None)"
proof -
  have w: "list_all wf_Contact [rotating_contact]" "list_all Contact_marshals [rotating_contact]"
    using valid_utf8_ascii [OF plain_ascii [OF b64_plain]]
    by (simp_all add: rotating_contact_def wf_Contact_def Contact_marshals_def zero_Contact_def valid_utf8_ascii del: b64_encode.simps)
  obtain d where d: "Contacts_save ''c.json'' empty_disk [rotating_contact] = (d, Inr ())" "\<And>c q. d_fault d c q = None"
    using w(2) by (simp add: Contacts_save_def WriteFileAtomic_clean empty_disk_def)
  have "d_fault empty_disk SysRead ''c.json'' = None" by (simp add: empty_disk_def)
  from contacts_file.load_saved [OF w(1) this d(1)] d(2) show ?thesis by blast
qed

theorem rotation_broadcast_applied_witness:
  "\<exists>sealed s' s2 d d'. SendToFingerprint mail_service toy_prims [] ''fp'' ''age1pq1eve'' KindRotation (compact (enc_RotationBundle sealed)) empty_mail = (s', Inr ())
     \<and> fst (drain_item mail_service toy_prims id ''c.json'' (\<lambda>_. Inr eve_crypter) zero_time \<lparr>pi_ID = ''0'', pi_Kind = KindRotation, pi_ToFingerprint = ''fp''\<rparr>
         zero_DrainReport (s', d)) = (s2, d')
     \<and> Contacts_load ''c.json'' d' = Inr [ApplyUpdate zero_time rotating_contact sealed_lock]"
proof -
  note o = sample_rotation_ok
  obtain sealed where sl: "SealRotation (\<lambda>m. Sign toy_prims m ''old'') sample_rotation = Inr sealed" using o(3) by auto
  obtain s' where s: "SendToFingerprint mail_service toy_prims [] ''fp'' ''age1pq1eve'' KindRotation (compact (enc_RotationBundle sealed)) empty_mail = (s', Inr ())"
    using eve_sent by blast
  obtain d where d: "Contacts_load ''c.json'' d = Inr [rotating_contact]" "\<And>c q. d_fault d c q = None" using rotating_stored by blast
  have x: "lb_ID (rt_NewLock sample_rotation) \<noteq> []" "rv_ID (rt_Revocation sample_rotation) \<noteq> []" "rt_NewLock sample_rotation = sealed_lock"
    by (simp_all add: sample_rotation_def sealed_lock_def sample_lock_def)
  have f: "Contacts_FindByID [rotating_contact] (rv_ID (rt_Revocation sample_rotation)) = Inr 0" using o(7,9) by simp
  have m: "list_all Contact_marshals [rotating_contact]" by (simp add: rotating_contact_def Contact_marshals_def zero_Contact_def)
  have pk: "ct_SignPubKey ([rotating_contact] ! 0) = b64_encode (mldsa_Public toy_prims ''old'')"
    "rv_RevokedFingerprint (rt_Revocation sample_rotation) = ct_Fingerprint ([rotating_contact] ! 0)" using o(2,6) by simp_all
  from rotation_broadcast_applied [OF s toy_laws(1,3) eve_holds o(1) sl o(8) o(4,5) x(1) d(1) f x(2) pk d(2) m wf_zero_time,
      where unlockFor = "\<lambda>_. Inr eve_crypter" and ulow = id and rep = zero_DrainReport]
  obtain ct where ct: "ib_postFP mail_service empty_mail ''fp'' KindRotation (b64_encode ct) = (s', Inr ())"
    and dr: "\<And>s3. ib_fetch mail_service s' ''0'' = (s', Inr (''0'', KindRotation, b64_encode ct, ''fp'')) \<Longrightarrow> ib_ack mail_service s' ''0'' = (s3, Inr ()) \<Longrightarrow>
      \<exists>d'. fst (drain_item mail_service toy_prims id ''c.json'' (\<lambda>_. Inr eve_crypter) zero_time \<lparr>pi_ID = ''0'', pi_Kind = KindRotation, pi_ToFingerprint = ''fp''\<rparr>
         zero_DrainReport (s', d)) = (s3, d') \<and> Contacts_load ''c.json'' d' = Inr ([rotating_contact][0 := ApplyUpdate zero_time ([rotating_contact] ! 0) (rt_NewLock sample_rotation)])"
    by (metis fst_conv)
  from dr [OF mail_delivers(1,2) [OF ct]] x(3) obtain s2 d' where "fst (drain_item mail_service toy_prims id ''c.json'' (\<lambda>_. Inr eve_crypter) zero_time
      \<lparr>pi_ID = ''0'', pi_Kind = KindRotation, pi_ToFingerprint = ''fp''\<rparr> zero_DrainReport (s', d)) = (s2, d')"
    "Contacts_load ''c.json'' d' = Inr [ApplyUpdate zero_time rotating_contact sealed_lock]" by auto
  with s show ?thesis by blast
qed


theorem DrainPending_vouched_witness:
  "\<exists>s s' d' rep cs'. DrainPending mail_service toy_prims id ''c.json'' (\<lambda>_. Inr eve_crypter) (\<lambda>_. zero_time) (s, empty_disk) = ((s', d'), rep, Inr ())
     \<and> length (dr_Accepted rep) = 1 \<and> Contacts_load ''c.json'' d' = Inr cs' \<and> vouched toy_prims [] cs'"
proof -
  have v: "VerifyLockSelfSig toy_prims sealed_lock = Inr ()" using ValidateLockBundle_dest [OF sealed_lock_valid(1)] sealed_lock_valid(1,2) by simp
  obtain s where "SendToFingerprint mail_service toy_prims [] ''fp'' ''age1pq1eve'' KindContactAccept (compact (enc_LockBundle sealed_lock)) empty_mail = (s, Inr ())"
    using eve_sent by blast
  from SendToFingerprint_sent [OF this toy_laws(1) eve_holds] obtain ct
    where ct: "ib_postFP mail_service empty_mail ''fp'' KindContactAccept (b64_encode ct) = (s, Inr ())" "sc_Decrypt eve_crypter ct = Inr (compact (enc_LockBundle sealed_lock))"
    by blast
  note m = mail_delivers [OF ct(1)]
  have e: "Contacts_load ''c.json'' empty_disk = Inr []" "\<And>c q. d_fault empty_disk c q = None" using sealed_lock_saved(1) by (simp_all add: empty_disk_def)
  obtain d' al where dr: "drain_item mail_service toy_prims id ''c.json'' (\<lambda>_. Inr eve_crypter) zero_time \<lparr>pi_ID = ''0'', pi_Kind = KindContactAccept, pi_ToFingerprint = ''fp''\<rparr>
      zero_DrainReport (s, empty_disk) = ((s\<lparr>mb_items := []\<rparr>, d'), zero_DrainReport\<lparr>dr_Accepted := dr_Accepted zero_DrainReport @ [al]\<rparr>, Inr ())"
    using contact_accept_unsolicited [where unlockFor = "\<lambda>_. Inr eve_crypter" and ulow = id and rep = zero_DrainReport, OF FetchPending_ok [OF m(1)] refl ct(2) m(2)
        sealed_lock_valid(3,1) v sealed_lock_valid(2) e(1) _ _ e(2) wf_zero_time] by auto
  have D: "DrainPending mail_service toy_prims id ''c.json'' (\<lambda>_. Inr eve_crypter) (\<lambda>_. zero_time) (s, empty_disk)
      = ((s\<lparr>mb_items := []\<rparr>, d'), zero_DrainReport\<lparr>dr_Accepted := dr_Accepted zero_DrainReport @ [al]\<rparr>, Inr ())"
    by (simp add: DrainPending_def m(3) dr)
  from DrainPending_vouched [OF D e(1) e(2) wf_zero_time(1)] D show ?thesis by (force simp: zero_DrainReport_def)
qed

definition listed_lock :: LockBundle where
  "listed_lock = sealed_lock\<lparr>lb_Email := ''bob@x.io''\<rparr>"

lemma listed_lock_valid: "ValidateLockBundle toy_prims listed_lock = Inr ()" "VerifyLockSelfSig toy_prims listed_lock = Inr ()" "utf8_LockBundle listed_lock"
proof -
  have v: "VerifyLockSelfSig toy_prims sealed_lock = Inr ()" using ValidateLockBundle_dest [OF sealed_lock_valid(1)] sealed_lock_valid(1,2) by simp
  moreover have "VerifyLockSelfSig toy_prims listed_lock = VerifyLockSelfSig toy_prims sealed_lock"
    by (simp add: listed_lock_def VerifyLockSelfSig_def VerifyFingerprint_def CanonicalLockBytes_def)
  ultimately show l: "VerifyLockSelfSig toy_prims listed_lock = Inr ()" by simp
  have "validateEmail ''bob@x.io'' = Inr ()" by code_simp
  moreover have "list_all displayable (runes ''bob@x.io'')" by (simp add: runes_all_ascii displayable_def RuneError_def isBidiOrZeroWidth_def)
  ultimately show "ValidateLockBundle toy_prims listed_lock = Inr ()"
    using sealed_lock_valid(1,2) l unfolding ValidateLockBundle_def by (auto simp: NoControl_iff listed_lock_def optional_def split: if_splits)
  show "utf8_LockBundle listed_lock" using sealed_lock_valid(3) by (simp add: utf8_LockBundle_def listed_lock_def valid_utf8_ascii)
qed

theorem ParseDirectoryLock_published_witness:
  "\<exists>s' e. PublishIdentityLock mail_service listed_lock empty_mail = (s', Inr ()) \<and> ParseDirectoryLock toy_prims e = Inr listed_lock
     \<and> lb_Fingerprint listed_lock = de_Fingerprint e"
proof -
  have "lb_Email listed_lock \<noteq> []" by (simp add: listed_lock_def)
  then obtain s' where p: "PublishIdentityLock mail_service listed_lock empty_mail = (s', Inr ())"
    by (simp add: PublishIdentityLock_def MarshalLockBundle_def mail_service_def)
  then obtain e where "ParseDirectoryLock toy_prims e = Inr listed_lock"
    using ParseDirectoryLock_published [of toy_prims _ _ mail_service listed_lock empty_mail s' "()"] listed_lock_valid by blast
  moreover from ParseDirectoryLock_published [THEN conjunct1, THEN mp, OF this] have "lb_Fingerprint listed_lock = de_Fingerprint e" by blast
  ultimately show ?thesis using p by blast
qed

end
