(* ===== verification/Icfx_Notifications.thy ===== *)
theory Icfx_Notifications
  imports Icfx_Discovery
begin

text \<open>
  The notification store (src/cloud/notifications.go): rows of the drawer with their state flags, the
  tombstones of dismissed rows and the local decrypt hints, in one JSON file; the operations of the
  user, the reconciliation with the share inbox, the pending inbox and a drain report, the merge of two
  synchronised views and the synchronisation with the account's encrypted blob.

  Every method holds the store's mutex from its load to its save, so that it is one step; Sync has two
  such steps with the exchange of the blob between them, where other methods may run (\<open>edits\<close>). A
  method that only reads, changes and writes the data is \<open>modify\<close> of a function on the data, which
  gives \<open>None\<close> where the method returns without saving. The map of hints is the list of its entries in
  the order of their keys, in which json.Marshal writes them. time.Now and uuid.NewString are
  parameters.
\<close>

section \<open>The data\<close>

definition NotifShare :: bytes where "NotifShare = ''share''"

definition NotifInvite :: bytes where "NotifInvite = ''invite''"

definition NotifAccepted :: bytes where "NotifAccepted = ''accepted''"

definition NotifRotated :: bytes where "NotifRotated = ''rotated''"

definition NotifRevoked :: bytes where "NotifRevoked = ''revoked''"

definition maxNotifications :: nat where "maxNotifications = 200"

definition maxDismissed :: nat where "maxDismissed = 500"

record Notification =
  nt_ID :: bytes
  nt_Kind :: bytes
  nt_CreatedAt :: gotime
  nt_Seen :: bool
  nt_Retired :: bool
  nt_Handled :: bool
  nt_ShareID :: bytes
  nt_FileName :: bytes
  nt_FileSize :: int
  nt_Sender :: bytes
  nt_ExpiresAt :: bytes
  nt_SingleUse :: bool
  nt_Alias :: bytes
  nt_RequestID :: bytes
  nt_RecipientFP :: bytes

definition zero_Notification :: Notification where
  "zero_Notification = \<lparr>nt_ID = [], nt_Kind = [], nt_CreatedAt = zero_time, nt_Seen = False, nt_Retired = False, nt_Handled = False,
     nt_ShareID = [], nt_FileName = [], nt_FileSize = 0, nt_Sender = [], nt_ExpiresAt = [], nt_SingleUse = False, nt_Alias = [],
     nt_RequestID = [], nt_RecipientFP = []\<rparr>"

record notifData =
  nd_Items :: "Notification list"
  nd_Dismissed :: "bytes list"
  nd_RecipientFPs :: "(bytes \<times> bytes) list"

definition empty_notifData :: notifData where
  "empty_notifData = \<lparr>nd_Items = [], nd_Dismissed = [], nd_RecipientFPs = []\<rparr>"

text \<open>A map[string]string: an assignment, a lookup (the zero value where there is no entry), its JSON.\<close>

fun map_put :: "bytes \<Rightarrow> bytes \<Rightarrow> (bytes \<times> bytes) list \<Rightarrow> (bytes \<times> bytes) list" where
  "map_put k v [] = [(k, v)]"
| "map_put k v ((k', v') # m) =
     (if k < k' then (k, v) # (k', v') # m else if k = k' then (k, v) # m else (k', v') # map_put k v m)"

definition map_get :: "(bytes \<times> bytes) list \<Rightarrow> bytes \<Rightarrow> bytes" where
  "map_get m k = (case map_of m k of None \<Rightarrow> [] | Some v \<Rightarrow> v)"

fun dec_entries :: "(bytes \<times> json) list \<Rightarrow> (bytes \<times> bytes) list \<Rightarrow> (bytes \<times> bytes) list \<times> dstat" where
  "dec_entries [] m = (m, DOk)"
| "dec_entries ((k, j) # ms) m =
     (case dec_str j [] of (v, st) \<Rightarrow> case dec_entries ms (map_put k v m) of (m', st') \<Rightarrow> (m', both st st'))"

definition dec_map :: "(bytes \<times> bytes) list decoder" where
  "dec_map j cur = (case j of JNull \<Rightarrow> ([], DOk) | JObj ms \<Rightarrow> dec_entries ms cur | _ \<Rightarrow> (cur, DSaved))"

definition enc_map :: "(bytes \<times> bytes) list \<Rightarrow> json" where
  "enc_map m = JObj (map (\<lambda>(k, v). (k, jstr v)) m)"

definition Notification_fields :: "Notification field list" where
  "Notification_fields =
     [fld ''id'' dec_str nt_ID nt_ID_update,
      fld ''kind'' dec_str nt_Kind nt_Kind_update,
      fld ''created_at'' dec_time nt_CreatedAt nt_CreatedAt_update,
      fld ''seen'' dec_bool nt_Seen nt_Seen_update,
      fld ''retired'' dec_bool nt_Retired nt_Retired_update,
      fld ''handled'' dec_bool nt_Handled nt_Handled_update,
      fld ''share_id'' dec_str nt_ShareID nt_ShareID_update,
      fld ''file_name'' dec_str nt_FileName nt_FileName_update,
      fld ''file_size'' dec_int nt_FileSize nt_FileSize_update,
      fld ''sender'' dec_str nt_Sender nt_Sender_update,
      fld ''expires_at'' dec_str nt_ExpiresAt nt_ExpiresAt_update,
      fld ''single_use'' dec_bool nt_SingleUse nt_SingleUse_update,
      fld ''alias'' dec_str nt_Alias nt_Alias_update,
      fld ''request_id'' dec_str nt_RequestID nt_RequestID_update]"

definition enc_Notification :: "Notification \<Rightarrow> json" where
  "enc_Notification n = JObj (
     [(''id'', jstr (nt_ID n)), (''kind'', jstr (nt_Kind n)), (''created_at'', jtime (nt_CreatedAt n))]
     @ omit (\<not> nt_Seen n) ''seen'' (JBool (nt_Seen n))
     @ omit (\<not> nt_Retired n) ''retired'' (JBool (nt_Retired n))
     @ omit (\<not> nt_Handled n) ''handled'' (JBool (nt_Handled n))
     @ omit (nt_ShareID n = []) ''share_id'' (jstr (nt_ShareID n))
     @ omit (nt_FileName n = []) ''file_name'' (jstr (nt_FileName n))
     @ omit (nt_FileSize n = 0) ''file_size'' (jint (nt_FileSize n))
     @ omit (nt_Sender n = []) ''sender'' (jstr (nt_Sender n))
     @ omit (nt_ExpiresAt n = []) ''expires_at'' (jstr (nt_ExpiresAt n))
     @ omit (\<not> nt_SingleUse n) ''single_use'' (JBool (nt_SingleUse n))
     @ omit (nt_Alias n = []) ''alias'' (jstr (nt_Alias n))
     @ omit (nt_RequestID n = []) ''request_id'' (jstr (nt_RequestID n)))"

definition notifData_fields :: "notifData field list" where
  "notifData_fields =
     [fld ''items'' (dec_list (dec_struct Notification_fields) zero_Notification) nd_Items nd_Items_update,
      fld ''dismissed'' (dec_list dec_str []) nd_Dismissed nd_Dismissed_update,
      fld ''recipient_fps'' dec_map nd_RecipientFPs nd_RecipientFPs_update]"

definition enc_notifData :: "notifData \<Rightarrow> json" where
  "enc_notifData d = JObj ([(''items'', JArr (map enc_Notification (nd_Items d)))]
     @ omit (nd_Dismissed d = []) ''dismissed'' (JArr (map jstr (nd_Dismissed d)))
     @ omit (nd_RecipientFPs d = []) ''recipient_fps'' (enc_map (nd_RecipientFPs d)))"

text \<open>json.Marshal fails on a time beyond the year 9999.\<close>

definition items_marshal :: "Notification list \<Rightarrow> bool" where
  "items_marshal ns \<longleftrightarrow> list_all (\<lambda>n. marshals (nt_CreatedAt n)) ns"

section \<open>Persistence\<close>

definition DefaultNotificationStore :: "bytes \<Rightarrow> bytes" where
  "DefaultNotificationStore dir = filepath_Join dir ''cloud_notifications.json''"

definition notif_load :: "bytes \<Rightarrow> disk \<Rightarrow> notifData" where
  "notif_load path d = (case ReadFile d path of
     Inl _ \<Rightarrow> empty_notifData | Inr raw \<Rightarrow> fst (Unmarshal (dec_struct notifData_fields) empty_notifData raw))"

definition cap_data :: "notifData \<Rightarrow> notifData" where
  "cap_data x = x\<lparr>nd_Items := take maxNotifications (nd_Items x),
     nd_Dismissed := drop (length (nd_Dismissed x) - maxDismissed) (nd_Dismissed x)\<rparr>"

definition notif_save :: "bytes \<Rightarrow> notifData \<Rightarrow> disk \<Rightarrow> disk \<times> unit result" where
  "notif_save path x d =
     (let x = cap_data x in
      case os_MkdirAll d (filepath_Dir path) of Inl e \<Rightarrow> (d, Inl e)
      | Inr _ \<Rightarrow>
        if \<not> items_marshal (nd_Items x) then (d, Inl (Errorf ''json''))
        else os_WriteFile d path (indented (enc_notifData x)))"

definition modify :: "bytes \<Rightarrow> (notifData \<Rightarrow> notifData option) \<Rightarrow> disk \<Rightarrow> disk \<times> unit result" where
  "modify path f d = (case f (notif_load path d) of None \<Rightarrow> (d, Inr ()) | Some x \<Rightarrow> notif_save path x d)"

section \<open>Queries\<close>

definition List_overlay :: "(bytes \<times> bytes) list \<Rightarrow> Notification \<Rightarrow> Notification" where
  "List_overlay fps n = (if nt_ShareID n \<noteq> [] then n\<lparr>nt_RecipientFP := map_get fps (nt_ShareID n)\<rparr> else n)"

definition Notif_List :: "bytes \<Rightarrow> disk \<Rightarrow> Notification list" where
  "Notif_List path d = (let x = notif_load path d in map (List_overlay (nd_RecipientFPs x)) (nd_Items x))"

definition UnseenCount :: "bytes \<Rightarrow> disk \<Rightarrow> nat" where
  "UnseenCount path d = length (filter (\<lambda>n. \<not> nt_Seen n) (nd_Items (notif_load path d)))"

definition RecipientFor :: "bytes \<Rightarrow> bytes \<Rightarrow> disk \<Rightarrow> bytes" where
  "RecipientFor path shareID d = map_get (nd_RecipientFPs (notif_load path d)) shareID"

section \<open>What the user does\<close>

definition see_all :: "notifData \<Rightarrow> notifData option" where
  "see_all x = (if list_all nt_Seen (nd_Items x) then None else Some (x\<lparr>nd_Items := map (nt_Seen_update (\<lambda>_. True)) (nd_Items x)\<rparr>))"

definition MarkAllSeen :: "bytes \<Rightarrow> disk \<Rightarrow> disk \<times> unit result" where
  "MarkAllSeen path d = modify path see_all d"

definition dismiss :: "bytes \<Rightarrow> notifData \<Rightarrow> notifData option" where
  "dismiss i x =
     (let removed = list_ex (\<lambda>n. nt_ID n = i) (nd_Items x);
          x' = x\<lparr>nd_Items := filter (\<lambda>n. nt_ID n \<noteq> i) (nd_Items x)\<rparr> in
      if \<not> removed \<and> i \<in> set (nd_Dismissed x) then None
      else Some (if i \<in> set (nd_Dismissed x) then x' else x'\<lparr>nd_Dismissed := nd_Dismissed x @ [i]\<rparr>))"

definition Dismiss :: "bytes \<Rightarrow> bytes \<Rightarrow> disk \<Rightarrow> disk \<times> unit result" where
  "Dismiss path i d = modify path (dismiss i) d"

definition handle :: "bytes \<Rightarrow> notifData \<Rightarrow> notifData option" where
  "handle i x = (if \<not> list_ex (\<lambda>n. nt_ID n = i) (nd_Items x) then None
     else Some (x\<lparr>nd_Items := map (\<lambda>n. if nt_ID n = i then n\<lparr>nt_Handled := True, nt_Seen := True\<rparr> else n) (nd_Items x)\<rparr>))"

definition MarkHandled :: "bytes \<Rightarrow> bytes \<Rightarrow> disk \<Rightarrow> disk \<times> unit result" where
  "MarkHandled path i d = modify path (handle i) d"

definition share_row_id :: "bytes \<Rightarrow> bytes" where "share_row_id shareID = ''share:'' @ shareID"

text \<open>Time.Format with the layout RFC3339, without the fraction; the zero time gives the empty string.\<close>

definition expires_string :: "gotime \<Rightarrow> bytes" where
  "expires_string t = (if IsZero t then [] else format_rfc3339 (t\<lparr>t_nsec := 0\<rparr>))"

definition seed_share :: "gotime \<Rightarrow> bytes \<Rightarrow> bytes \<Rightarrow> int \<Rightarrow> gotime \<Rightarrow> bool \<Rightarrow> notifData \<Rightarrow> notifData option" where
  "seed_share now shareID fileName fileSize expiresAt singleUse x =
     (let i = share_row_id shareID in
      if i \<in> set (nd_Dismissed x) then None
      else if list_ex (\<lambda>n. nt_ID n = i) (nd_Items x) then None
      else Some (x\<lparr>nd_Items := zero_Notification\<lparr>nt_ID := i, nt_Kind := NotifShare, nt_Seen := True, nt_CreatedAt := now,
        nt_ShareID := shareID, nt_FileName := fileName, nt_FileSize := fileSize, nt_Sender := ''My devices'',
        nt_ExpiresAt := expires_string expiresAt, nt_SingleUse := singleUse\<rparr> # nd_Items x\<rparr>))"

definition SeedSelfShare :: "bytes \<Rightarrow> gotime \<Rightarrow> bytes \<Rightarrow> bytes \<Rightarrow> int \<Rightarrow> gotime \<Rightarrow> bool \<Rightarrow> disk \<Rightarrow> disk \<times> unit result" where
  "SeedSelfShare path now shareID fileName fileSize expiresAt singleUse d =
     modify path (seed_share now shareID fileName fileSize expiresAt singleUse) d"

section \<open>Reconciliation\<close>

record ShareInboxItem =
  sh_ShareID :: bytes
  sh_FileName :: bytes
  sh_FileSize :: int
  sh_SingleUse :: bool
  sh_TTLExpiresAt :: gotime
  sh_CreatedAt :: gotime
  sh_RecipientFingerprint :: bytes
  sh_ToSelf :: bool
  sh_SenderName :: bytes
  sh_SenderEmail :: bytes

text \<open>sort.SliceStable by After: newest first, rows of the same instant keep their order.\<close>

definition sortByCreated :: "Notification list \<Rightarrow> Notification list" where
  "sortByCreated ns = sort_key (\<lambda>n. - instant (nt_CreatedAt n)) ns"

definition share_sender :: "ShareInboxItem \<Rightarrow> bytes" where
  "share_sender it =
     (let sender = sh_SenderName it;
          sender = (if sender = [] then sh_SenderEmail it else sender);
          sender = (if sender = [] then ''someone'' else sender)
      in if sh_ToSelf it then ''My devices'' else sender)"

definition share_row :: "ShareInboxItem \<Rightarrow> Notification" where
  "share_row it = zero_Notification\<lparr>nt_ID := share_row_id (sh_ShareID it), nt_Kind := NotifShare, nt_CreatedAt := sh_CreatedAt it,
     nt_ShareID := sh_ShareID it, nt_FileName := sh_FileName it, nt_FileSize := sh_FileSize it, nt_Sender := share_sender it,
     nt_ExpiresAt := expires_string (sh_TTLExpiresAt it), nt_SingleUse := sh_SingleUse it\<rparr>"

definition share_gone :: "ShareInboxItem list \<Rightarrow> Notification \<Rightarrow> bool" where
  "share_gone inbox n \<longleftrightarrow> nt_Kind n = NotifShare \<and> \<not> nt_Retired n \<and> nt_ShareID n \<notin> sh_ShareID ` set inbox"

definition reconcile_shares :: "ShareInboxItem list \<Rightarrow> notifData \<Rightarrow> notifData option" where
  "reconcile_shares inbox x =
     (let have = map nt_ID (nd_Items x);
          added = filter (\<lambda>it. \<not> (share_row_id (sh_ShareID it) \<in> set (nd_Dismissed x) \<or> share_row_id (sh_ShareID it) \<in> set have)) inbox;
          items = map (\<lambda>n. if share_gone inbox n then n\<lparr>nt_Retired := True\<rparr> else n) (nd_Items x)
      in if \<not> list_ex (share_gone inbox) (nd_Items x) \<and> added = [] then None
         else Some (x\<lparr>nd_Items := sortByCreated (items @ map share_row added),
           nd_RecipientFPs := fold (\<lambda>it. map_put (sh_ShareID it) (sh_RecipientFingerprint it)) added (nd_RecipientFPs x)\<rparr>))"

definition ReconcileShares :: "bytes \<Rightarrow> ShareInboxItem list \<Rightarrow> disk \<Rightarrow> disk \<times> unit result" where
  "ReconcileShares path inbox d = modify path (reconcile_shares inbox) d"

definition invite_row_id :: "bytes \<Rightarrow> bytes" where "invite_row_id i = ''invite:'' @ i"

definition invite_row :: "gotime \<Rightarrow> bytes \<Rightarrow> Notification" where
  "invite_row now i = zero_Notification\<lparr>nt_ID := invite_row_id i, nt_Kind := NotifInvite, nt_CreatedAt := now, nt_RequestID := i\<rparr>"

text \<open>The identifiers of the waiting requests, and the rows of those that are new.\<close>

definition waiting :: "PendingItem list \<Rightarrow> bytes list" where
  "waiting pending = map pi_ID (filter (\<lambda>it. pi_Kind it = KindContactRequest) pending)"

definition new_invites :: "(nat \<Rightarrow> gotime) \<Rightarrow> PendingItem list \<Rightarrow> notifData \<Rightarrow> Notification list" where
  "new_invites clock pending x =
     map (\<lambda>(k, i). invite_row (clock k) i) (enumerate 0
       (filter (\<lambda>i. \<not> (invite_row_id i \<in> set (nd_Dismissed x) \<or> invite_row_id i \<in> set (map nt_ID (nd_Items x)))) (waiting pending)))"

definition invite_resolved :: "PendingItem list \<Rightarrow> Notification \<Rightarrow> bool" where
  "invite_resolved pending n \<longleftrightarrow> nt_Kind n = NotifInvite \<and> nt_RequestID n \<notin> set (waiting pending)"

definition reconcile_pending :: "(nat \<Rightarrow> gotime) \<Rightarrow> PendingItem list \<Rightarrow> notifData \<Rightarrow> notifData option" where
  "reconcile_pending clock pending x =
     (let items = nd_Items x @ new_invites clock pending x in
      if new_invites clock pending x = [] \<and> \<not> list_ex (invite_resolved pending) items then None
      else Some (x\<lparr>nd_Items := sortByCreated (filter (\<lambda>n. \<not> invite_resolved pending n) items)\<rparr>))"

definition ReconcilePending :: "bytes \<Rightarrow> (nat \<Rightarrow> gotime) \<Rightarrow> PendingItem list \<Rightarrow> disk \<Rightarrow> disk \<times> nat \<times> unit result" where
  "ReconcilePending path clock pending d =
     (case modify path (reconcile_pending clock pending) d of (d', r) \<Rightarrow> (d', length (waiting pending), r))"

definition drain_row :: "bytes \<times> gotime \<Rightarrow> bytes \<times> bytes \<Rightarrow> Notification" where
  "drain_row fresh ka = zero_Notification\<lparr>nt_ID := ''drain:'' @ fst fresh, nt_Kind := fst ka, nt_Alias := snd ka, nt_CreatedAt := snd fresh\<rparr>"

definition drain_events :: "DrainReport \<Rightarrow> (bytes \<times> bytes) list" where
  "drain_events rep = map (Pair NotifAccepted) (dr_Accepted rep) @ map (Pair NotifRotated) (dr_Rotated rep) @ map (Pair NotifRevoked) (dr_Revoked rep)"

definition apply_report :: "(nat \<Rightarrow> bytes \<times> gotime) \<Rightarrow> DrainReport \<Rightarrow> notifData \<Rightarrow> notifData option" where
  "apply_report fresh rep x =
     (if drain_events rep = [] then None
      else Some (x\<lparr>nd_Items := rev (map (\<lambda>(k, ev). drain_row (fresh k) ev) (enumerate 0 (drain_events rep))) @ nd_Items x\<rparr>))"

definition ApplyDrainReport :: "bytes \<Rightarrow> (nat \<Rightarrow> bytes \<times> gotime) \<Rightarrow> DrainReport \<Rightarrow> disk \<Rightarrow> disk \<times> unit result" where
  "ApplyDrainReport path fresh rep d = modify path (apply_report fresh rep) d"

section \<open>Merging and synchronising\<close>

record syncView =
  vw_Items :: "Notification list"
  vw_Dismissed :: "bytes list"

definition zero_syncView :: syncView where "zero_syncView = \<lparr>vw_Items = [], vw_Dismissed = []\<rparr>"

definition syncView_fields :: "syncView field list" where
  "syncView_fields =
     [fld ''items'' (dec_list (dec_struct Notification_fields) zero_Notification) vw_Items vw_Items_update,
      fld ''dismissed'' (dec_list dec_str []) vw_Dismissed vw_Dismissed_update]"

definition enc_syncView :: "syncView \<Rightarrow> json" where
  "enc_syncView v = JObj ([(''items'', JArr (map enc_Notification (vw_Items v)))]
     @ omit (vw_Dismissed v = []) ''dismissed'' (JArr (map jstr (vw_Dismissed v))))"

definition marshal_view :: "syncView \<Rightarrow> bytes result" where
  "marshal_view v = (if items_marshal (vw_Items v) then Inr (compact (enc_syncView v)) else Inl (Errorf ''json''))"

definition parse_view :: "bytes \<Rightarrow> syncView result" where
  "parse_view bs = (case unmarshal (dec_struct syncView_fields) zero_syncView bs of None \<Rightarrow> Inl (Errorf ''json'') | Some v \<Rightarrow> Inr v)"

definition mergeRecord :: "Notification \<Rightarrow> Notification \<Rightarrow> Notification" where
  "mergeRecord a b = a\<lparr>
     nt_Seen := nt_Seen a \<or> nt_Seen b,
     nt_Retired := nt_Retired a \<or> nt_Retired b,
     nt_FileName := (if nt_FileName a = [] then nt_FileName b else nt_FileName a),
     nt_Sender := (if nt_Sender a = [] then nt_Sender b else nt_Sender a),
     nt_FileSize := (if nt_FileSize a = 0 then nt_FileSize b else nt_FileSize a),
     nt_ExpiresAt := (if nt_ExpiresAt a = [] then nt_ExpiresAt b else nt_ExpiresAt a),
     nt_Alias := (if nt_Alias a = [] then nt_Alias b else nt_Alias a),
     nt_RequestID := (if nt_RequestID a = [] then nt_RequestID b else nt_RequestID a),
     nt_SingleUse := nt_SingleUse a \<or> nt_SingleUse b,
     nt_CreatedAt := (if \<not> IsZero (nt_CreatedAt b) \<and> (IsZero (nt_CreatedAt a) \<or> Before (nt_CreatedAt b) (nt_CreatedAt a))
                      then nt_CreatedAt b else nt_CreatedAt a)\<rparr>"

text \<open>The map by identifier and the order of first occurrence are one list.\<close>

definition merge_item :: "bytes list \<Rightarrow> Notification \<Rightarrow> Notification list \<Rightarrow> Notification list" where
  "merge_item dismissed n byID =
     (if nt_ID n \<in> set dismissed then byID
      else case find_index (\<lambda>c. nt_ID c = nt_ID n) byID of
        None \<Rightarrow> byID @ [n]
      | Some k \<Rightarrow> byID[k := mergeRecord (byID ! k) n])"

definition merge_raw :: "syncView \<Rightarrow> syncView \<Rightarrow> syncView" where
  "merge_raw a b =
     (let dismissed = vw_Dismissed a @ vw_Dismissed b
      in \<lparr>vw_Items = sortByCreated (fold (merge_item dismissed) (vw_Items b) (fold (merge_item dismissed) (vw_Items a) [])),
          vw_Dismissed = sort (remdups dismissed)\<rparr>)"

definition cap_view :: "syncView \<Rightarrow> syncView" where
  "cap_view v = \<lparr>vw_Items = take maxNotifications (vw_Items v),
     vw_Dismissed = drop (length (vw_Dismissed v) - maxDismissed) (vw_Dismissed v)\<rparr>"

definition MergeNotifications :: "bytes \<Rightarrow> bytes \<Rightarrow> bytes result" where
  "MergeNotifications localBytes remoteBytes =
     andthen (if localBytes = [] then Inr zero_syncView else parse_view localBytes) (\<lambda>a.
     andthen (if remoteBytes = [] then Inr zero_syncView else parse_view remoteBytes) (\<lambda>b.
     marshal_view (cap_view (merge_raw a b))))"

definition stripHandled :: "Notification list \<Rightarrow> Notification list" where
  "stripHandled ns = map (nt_Handled_update (\<lambda>_. False)) ns"

definition SealSource :: "bytes \<Rightarrow> disk \<Rightarrow> bytes result" where
  "SealSource path d = (let x = notif_load path d in marshal_view \<lparr>vw_Items = stripHandled (nd_Items x), vw_Dismissed = nd_Dismissed x\<rparr>)"

text \<open>The second step of Sync: the merged view replaces rows and tombstones, the local flag Handled is put back.\<close>

definition adopt :: "syncView \<Rightarrow> notifData \<Rightarrow> notifData" where
  "adopt mv cur =
     (let handled = map nt_ID (filter nt_Handled (nd_Items cur));
          items = map (\<lambda>n. if nt_ID n \<in> set handled then n\<lparr>nt_Handled := True\<rparr> else n) (vw_Items mv)
      in cur\<lparr>nd_Items := sortByCreated items, nd_Dismissed := vw_Dismissed mv\<rparr>)"

definition Notif_Sync ::
    "'s Service \<Rightarrow> SelfCrypter \<Rightarrow> (nat \<Rightarrow> bytes) \<Rightarrow> bytes \<Rightarrow> (disk \<Rightarrow> disk) \<Rightarrow> 's \<times> disk \<Rightarrow> ('s \<times> disk) \<times> unit result" where
  "Notif_Sync sv u rnd path edits sd =
     (case sd of (s, d) \<Rightarrow>
      (case SealSource path d of Inl e \<Rightarrow> ((s, d), Inl e)
       | Inr local \<Rightarrow>
      (case SyncMergedBlob sv u rnd ''notifications'' local MergeNotifications s of
         (s', Inl e) \<Rightarrow> ((s', edits d), Inl e)
       | (s', Inr merged) \<Rightarrow>
      (case parse_view merged of Inl e \<Rightarrow> ((s', edits d), Inl e)
       | Inr mv \<Rightarrow>
      (case notif_save path (adopt mv (notif_load path (edits d))) (edits d) of (d', r) \<Rightarrow> ((s', d'), r))))))"


section \<open>What is stored is what is loaded\<close>

definition wf_Notification :: "Notification \<Rightarrow> bool" where
  "wf_Notification n \<longleftrightarrow> list_all valid_utf8 [nt_ID n, nt_Kind n, nt_ShareID n, nt_FileName n, nt_Sender n, nt_ExpiresAt n, nt_Alias n, nt_RequestID n]
     \<and> wf_time (nt_CreatedAt n) \<and> int64 (nt_FileSize n) \<and> nt_RecipientFP n = []"

definition wf_map :: "(bytes \<times> bytes) list \<Rightarrow> bool" where
  "wf_map m \<longleftrightarrow> sorted_wrt (<) (map fst m) \<and> list_all (\<lambda>(k, v). valid_utf8 k \<and> valid_utf8 v) m"

definition wf_notifData :: "notifData \<Rightarrow> bool" where
  "wf_notifData x \<longleftrightarrow> list_all wf_Notification (nd_Items x) \<and> list_all valid_utf8 (nd_Dismissed x) \<and> wf_map (nd_RecipientFPs x)"

definition wf_syncView :: "syncView \<Rightarrow> bool" where
  "wf_syncView v \<longleftrightarrow> list_all wf_Notification (vw_Items v) \<and> list_all valid_utf8 (vw_Dismissed v)"

lemma map_put_keys: "fst ` set (map_put k v m) = insert k (fst ` set m)"
  by (induction k v m rule: map_put.induct) auto

lemma wf_map_put: "wf_map m \<Longrightarrow> valid_utf8 k \<Longrightarrow> valid_utf8 v \<Longrightarrow> wf_map (map_put k v m)"
proof (induction k v m rule: map_put.induct)
  case (2 k v k' v' m)
  have "set (map fst (map_put k v m)) = insert k (fst ` set m)" using map_put_keys [of k v m] by simp
  with 2 show ?case by (auto simp: wf_map_def)
qed (simp add: wf_map_def)

lemma wf_map_puts:
  "wf_map m \<Longrightarrow> (\<And>x. x \<in> set xs \<Longrightarrow> valid_utf8 (f x) \<and> valid_utf8 (g x)) \<Longrightarrow> wf_map (fold (\<lambda>x. map_put (f x) (g x)) xs m)"
  by (induction xs arbitrary: m) (simp_all add: wf_map_put)

lemma map_put_last: "(\<forall>k'\<in>fst ` set m. k' < k) \<Longrightarrow> map_put k v m = m @ [(k, v)]"
  by (induction m) auto

lemma dec_entries_enc:
  "wf_map (m @ es) \<Longrightarrow> dec_entries (map (\<lambda>(k, v). (k, jstr v)) es) m = (m @ es, DOk)"
proof (induction es arbitrary: m)
  case (Cons e es)
  obtain k v where e: "e = (k, v)" by (cases e)
  with Cons.prems have "\<forall>k'\<in>fst ` set m. k' < k" "valid_utf8 v" by (auto simp: wf_map_def sorted_wrt_append)
  with Cons.IH [of "m @ [(k, v)]"] Cons.prems e show ?case by (simp add: dec_jstr map_put_last)
qed simp

lemma dec_enc_map [json_rt]: "wf_map m \<Longrightarrow> dec_map (enc_map m) [] = (m, DOk)"
  using dec_entries_enc [of "[]" m] by (simp add: dec_map_def enc_map_def)

lemma find_Notification:
  "find_field Notification_fields ''id'' = Some (snd (fld ''id'' dec_str nt_ID nt_ID_update))"
  "find_field Notification_fields ''kind'' = Some (snd (fld ''kind'' dec_str nt_Kind nt_Kind_update))"
  "find_field Notification_fields ''created_at'' = Some (snd (fld ''created_at'' dec_time nt_CreatedAt nt_CreatedAt_update))"
  "find_field Notification_fields ''seen'' = Some (snd (fld ''seen'' dec_bool nt_Seen nt_Seen_update))"
  "find_field Notification_fields ''retired'' = Some (snd (fld ''retired'' dec_bool nt_Retired nt_Retired_update))"
  "find_field Notification_fields ''handled'' = Some (snd (fld ''handled'' dec_bool nt_Handled nt_Handled_update))"
  "find_field Notification_fields ''share_id'' = Some (snd (fld ''share_id'' dec_str nt_ShareID nt_ShareID_update))"
  "find_field Notification_fields ''file_name'' = Some (snd (fld ''file_name'' dec_str nt_FileName nt_FileName_update))"
  "find_field Notification_fields ''file_size'' = Some (snd (fld ''file_size'' dec_int nt_FileSize nt_FileSize_update))"
  "find_field Notification_fields ''sender'' = Some (snd (fld ''sender'' dec_str nt_Sender nt_Sender_update))"
  "find_field Notification_fields ''expires_at'' = Some (snd (fld ''expires_at'' dec_str nt_ExpiresAt nt_ExpiresAt_update))"
  "find_field Notification_fields ''single_use'' = Some (snd (fld ''single_use'' dec_bool nt_SingleUse nt_SingleUse_update))"
  "find_field Notification_fields ''alias'' = Some (snd (fld ''alias'' dec_str nt_Alias nt_Alias_update))"
  "find_field Notification_fields ''request_id'' = Some (snd (fld ''request_id'' dec_str nt_RequestID nt_RequestID_update))"
  by (simp_all add: Notification_fields_def find_field_def fld_def)

lemma find_notifData:
  "find_field notifData_fields ''items'' = Some (snd (fld ''items'' (dec_list (dec_struct Notification_fields) zero_Notification) nd_Items nd_Items_update))"
  "find_field notifData_fields ''dismissed'' = Some (snd (fld ''dismissed'' (dec_list dec_str []) nd_Dismissed nd_Dismissed_update))"
  "find_field notifData_fields ''recipient_fps'' = Some (snd (fld ''recipient_fps'' dec_map nd_RecipientFPs nd_RecipientFPs_update))"
  "find_field syncView_fields ''items'' = Some (snd (fld ''items'' (dec_list (dec_struct Notification_fields) zero_Notification) vw_Items vw_Items_update))"
  "find_field syncView_fields ''dismissed'' = Some (snd (fld ''dismissed'' (dec_list dec_str []) vw_Dismissed vw_Dismissed_update))"
  by (simp_all add: notifData_fields_def syncView_fields_def find_field_def fld_def)

lemma dec_enc_Notification:
  "wf_Notification n \<Longrightarrow> marshals (nt_CreatedAt n) \<Longrightarrow> dec_struct Notification_fields (enc_Notification n) zero_Notification = (n, DOk)"
  by (simp add: enc_Notification_def json_rt find_Notification fld_def wf_Notification_def zero_Notification_def)

lemma dec_enc_items:
  "list_all wf_Notification ns \<Longrightarrow> items_marshal ns \<Longrightarrow>
   dec_list (dec_struct Notification_fields) zero_Notification (JArr (map enc_Notification ns)) cur = (ns, DOk)"
  by (intro dec_jlist dec_enc_Notification) (auto simp: items_marshal_def list_all_iff)

lemma dec_enc_notifData:
  "wf_notifData x \<Longrightarrow> items_marshal (nd_Items x) \<Longrightarrow> dec_struct notifData_fields (enc_notifData x) empty_notifData = (x, DOk)"
  by (simp add: enc_notifData_def json_rt dec_enc_items find_notifData fld_def wf_notifData_def empty_notifData_def)

lemma dec_enc_syncView:
  "wf_syncView v \<Longrightarrow> items_marshal (vw_Items v) \<Longrightarrow> dec_struct syncView_fields (enc_syncView v) zero_syncView = (v, DOk)"
  by (simp add: enc_syncView_def json_rt dec_enc_items find_notifData fld_def wf_syncView_def zero_syncView_def)

lemma wf_enc_Notification: "wf_json 9998 (enc_Notification n)"
  by (auto simp: enc_Notification_def valid_utf8_ascii ball_Un set_omit)

lemma wf_enc_notifData: "wf_notifData x \<Longrightarrow> wf_json 10000 (enc_notifData x)" "wf_json 10000 (enc_syncView v)"
  by (auto simp: enc_notifData_def enc_syncView_def enc_map_def wf_enc_Notification valid_utf8_ascii ball_Un set_omit wf_notifData_def wf_map_def list_all_iff)

lemma zero_Notification_wf [simp]: "wf_Notification zero_Notification" "wf_notifData empty_notifData" "wf_syncView zero_syncView"
  by (simp_all add: zero_Notification_def wf_Notification_def empty_notifData_def wf_notifData_def wf_map_def zero_syncView_def wf_syncView_def
      int64_def valid_utf8_ascii)

lemma typed_Notification: "typed wf_Notification (dec_struct Notification_fields)"
  unfolding Notification_fields_def
  by (rule typed_struct, unfold list.pred_inject, intro conjI TrueI fld_str fld_time fld_bool fld_int) (simp_all add: wf_Notification_def)

lemma typed_map: "typed wf_map dec_map"
proof -
  have "wf_map (fst (dec_entries ms m))" if "\<forall>e\<in>set ms. valid_utf8 (fst e) \<and> read_ok (snd e)" "wf_map m" for ms m
    using that
  proof (induction ms m rule: dec_entries.induct)
    case (2 k j ms m)
    obtain v st where v: "dec_str j [] = (v, st)" by (cases "dec_str j []")
    have "valid_utf8 v" using typedD [OF typed_str _ _ v] "2.prems"(1) by (simp add: valid_utf8_ascii)
    with 2 v show ?case by (auto simp: wf_map_put split: prod.split)
  qed simp
  then show ?thesis by (auto simp: typed_def dec_map_def split: json.split) (simp add: wf_map_def)
qed

lemma typed_notifData: "typed wf_notifData (dec_struct notifData_fields)"
  unfolding notifData_fields_def
  by (rule typed_struct, unfold list.pred_inject,
      intro conjI TrueI fld_strs typed_fld [OF typed_map] typed_fld [OF typed_list [OF typed_Notification zero_Notification_wf(1)]])
    (simp_all add: wf_notifData_def)

lemma typed_syncView: "typed wf_syncView (dec_struct syncView_fields)"
  unfolding syncView_fields_def
  by (rule typed_struct, unfold list.pred_inject,
      intro conjI TrueI fld_strs typed_fld [OF typed_list [OF typed_Notification zero_Notification_wf(1)]])
    (simp_all add: wf_syncView_def)

lemma notif_load_wf: "wf_notifData (notif_load path d)"
  using Unmarshal_typed [OF typed_notifData zero_Notification_wf(2)] by (simp add: notif_load_def split: sum.split)

lemma parse_view_wf: "parse_view bs = Inr v \<Longrightarrow> wf_syncView v"
  using unmarshal_typed [OF typed_syncView zero_Notification_wf(3)] by (auto simp: parse_view_def split: option.splits)

lemma parse_marshal_view: "marshal_view v = Inr bs \<Longrightarrow> wf_syncView v \<Longrightarrow> parse_view bs = Inr v"
  using dec_enc_syncView [of v] by (auto simp: marshal_view_def parse_view_def unmarshal_compact wf_enc_notifData split: if_splits)

lemma cap_wf: "wf_notifData x \<Longrightarrow> wf_notifData (cap_data x)"
  by (auto simp: wf_notifData_def cap_data_def list_all_iff dest: in_set_takeD in_set_dropD)

text \<open>A save that the disk does not fail either writes the capped data or, refused by the encoder, nothing.\<close>

lemma notif_save_load:
  assumes "notif_save path x d = (d', r)" "wf_notifData x" "\<And>c q. d_fault d c q = None"
  shows "d_fault d' = d_fault d" "notif_load path d' = (if r = Inr () then cap_data x else notif_load path d)"
    "r = Inr () \<longleftrightarrow> items_marshal (nd_Items (cap_data x))"
proof -
  have w: "wf_notifData (cap_data x)" using cap_wf [OF assms(2)] .
  have p: "parse_json (indented (enc_notifData (cap_data x))) = Some (enc_notifData (cap_data x))" using parse_indented wf_enc_notifData(1) [OF w] .
  show "d_fault d' = d_fault d" "r = Inr () \<longleftrightarrow> items_marshal (nd_Items (cap_data x))"
    using assms(1,3) by (auto simp: notif_save_def os_MkdirAll_def os_WriteFile_def Let_def split: if_splits)
  show "notif_load path d' = (if r = Inr () then cap_data x else notif_load path d)"
    using assms(1,3) dec_enc_notifData [OF w] p
    by (auto simp: notif_save_def os_MkdirAll_def os_WriteFile_def Let_def notif_load_def ReadFile_def Unmarshal_def split: if_splits)
qed

lemma modify_load:
  assumes "modify path f d = (d', r)" "\<forall>x. f (notif_load path d) = Some x \<longrightarrow> wf_notifData x" "\<And>c q. d_fault d c q = None"
  shows "d_fault d' = d_fault d" "notif_load path d' = notif_load path d \<or> (\<exists>x. f (notif_load path d) = Some x \<and> notif_load path d' = cap_data x)"
proof -
  show "d_fault d' = d_fault d" "notif_load path d' = notif_load path d \<or> (\<exists>x. f (notif_load path d) = Some x \<and> notif_load path d' = cap_data x)"
    using assms(1,2) notif_save_load [OF _ _ assms(3), of path] by (auto simp: modify_def split: option.splits if_splits)
qed

section \<open>The invariant\<close>

text \<open>No row is dismissed; no two rows share an identifier; and the limits of the file.\<close>

definition notif_ok :: "notifData \<Rightarrow> bool" where
  "notif_ok x \<longleftrightarrow> nt_ID ` set (nd_Items x) \<inter> set (nd_Dismissed x) = {}"

definition notif_unique :: "notifData \<Rightarrow> bool" where
  "notif_unique x \<longleftrightarrow> distinct (map nt_ID (nd_Items x))"

definition notif_bounded :: "notifData \<Rightarrow> bool" where
  "notif_bounded x \<longleftrightarrow> length (nd_Items x) \<le> maxNotifications \<and> length (nd_Dismissed x) \<le> maxDismissed"

datatype notif_op =
    OpSeen
  | OpDismiss bytes
  | OpHandled bytes
  | OpSeed gotime bytes bytes int gotime bool
  | OpShares "ShareInboxItem list"
  | OpPending "nat \<Rightarrow> gotime" "PendingItem list"
  | OpDrain "nat \<Rightarrow> bytes \<times> gotime" DrainReport

fun run_op :: "notif_op \<Rightarrow> bytes \<Rightarrow> disk \<Rightarrow> disk" where
  "run_op OpSeen path d = fst (MarkAllSeen path d)"
| "run_op (OpDismiss i) path d = fst (Dismiss path i d)"
| "run_op (OpHandled i) path d = fst (MarkHandled path i d)"
| "run_op (OpSeed now i name n ex single) path d = fst (SeedSelfShare path now i name n ex single d)"
| "run_op (OpShares inbox) path d = fst (ReconcileShares path inbox d)"
| "run_op (OpPending clock pending) path d = fst (ReconcilePending path clock pending d)"
| "run_op (OpDrain fresh rep) path d = fst (ApplyDrainReport path fresh rep d)"

fun op_fun :: "notif_op \<Rightarrow> notifData \<Rightarrow> notifData option" where
  "op_fun OpSeen = see_all"
| "op_fun (OpDismiss i) = dismiss i"
| "op_fun (OpHandled i) = handle i"
| "op_fun (OpSeed now i name n ex single) = seed_share now i name n ex single"
| "op_fun (OpShares inbox) = reconcile_shares inbox"
| "op_fun (OpPending clock pending) = reconcile_pending clock pending"
| "op_fun (OpDrain fresh rep) = apply_report fresh rep"

lemma run_op_modify: "run_op op path d = fst (modify path (op_fun op) d)"
  by (cases op) (simp_all add: MarkAllSeen_def Dismiss_def MarkHandled_def SeedSelfShare_def ReconcileShares_def ReconcilePending_def
      ApplyDrainReport_def split: prod.split)

text \<open>
  What the operations may be given: strings and times as Go decodes or makes them, and UUIDs that are new.
  The inboxes are the server's, and nothing is assumed of which shares and requests they list or how often.
\<close>

definition wf_share :: "ShareInboxItem \<Rightarrow> bool" where
  "wf_share it \<longleftrightarrow> list_all valid_utf8 [sh_ShareID it, sh_FileName it, sh_RecipientFingerprint it, sh_SenderName it, sh_SenderEmail it]
     \<and> int64 (sh_FileSize it) \<and> wf_time (sh_CreatedAt it)"

fun op_input :: "notif_op \<Rightarrow> notifData \<Rightarrow> bool" where
  "op_input OpSeen x \<longleftrightarrow> True"
| "op_input (OpDismiss i) x \<longleftrightarrow> valid_utf8 i"
| "op_input (OpHandled i) x \<longleftrightarrow> True"
| "op_input (OpSeed now i name n ex single) x \<longleftrightarrow> wf_time now \<and> valid_utf8 i \<and> valid_utf8 name \<and> int64 n"
| "op_input (OpShares inbox) x \<longleftrightarrow> list_all wf_share inbox"
| "op_input (OpPending clock pending) x \<longleftrightarrow> list_all valid_utf8 (waiting pending) \<and> (\<forall>k. wf_time (clock k))"
| "op_input (OpDrain fresh rep) x \<longleftrightarrow> inj (fst \<circ> fresh) \<and> (\<forall>k. valid_utf8 (fst (fresh k)) \<and> wf_time (snd (fresh k))
     \<and> ''drain:'' @ fst (fresh k) \<notin> nt_ID ` set (nd_Items x) \<union> set (nd_Dismissed x))
     \<and> list_all valid_utf8 (dr_Accepted rep @ dr_Rotated rep @ dr_Revoked rep)"

text \<open>An inbox that lists a share or a request at most once.\<close>

fun no_repeats :: "notif_op \<Rightarrow> bool" where
  "no_repeats (OpShares inbox) \<longleftrightarrow> distinct (map sh_ShareID inbox)"
| "no_repeats (OpPending clock pending) \<longleftrightarrow> distinct (waiting pending)"
| "no_repeats op \<longleftrightarrow> True"

lemma set_sortByCreated [simp]: "set (sortByCreated ns) = set ns"
  by (simp add: sortByCreated_def)

lemma distinct_sortByCreated [simp]: "distinct (map nt_ID (sortByCreated ns)) \<longleftrightarrow> distinct (map nt_ID ns)"
  by (simp add: sortByCreated_def distinct_map)

lemma list_all_sortByCreated [simp]: "list_all P (sortByCreated ns) \<longleftrightarrow> list_all P ns"
  by (simp add: list_all_iff)

lemma row_ids [simp]: "nt_ID (share_row it) = share_row_id (sh_ShareID it)" "nt_ID (invite_row t i) = invite_row_id i"
    "nt_ID (drain_row f ev) = ''drain:'' @ fst f" "share_row_id a = share_row_id b \<longleftrightarrow> a = b" "invite_row_id a = invite_row_id b \<longleftrightarrow> a = b"
  by (simp_all add: share_row_def invite_row_def drain_row_def share_row_id_def invite_row_id_def)

lemma wf_expires: "valid_utf8 (expires_string t)"
  by (simp add: expires_string_def valid_utf8_ascii format_rfc3339_ascii)

lemmas kinds = NotifShare_def NotifInvite_def NotifAccepted_def NotifRotated_def NotifRevoked_def

lemma valid_kinds: "valid_utf8 NotifShare" "valid_utf8 NotifInvite" "valid_utf8 NotifAccepted" "valid_utf8 NotifRotated" "valid_utf8 NotifRevoked"
  by (simp_all add: kinds valid_utf8_ascii)

lemma wf_rows:
  "wf_share it \<Longrightarrow> wf_Notification (share_row it)"
  "wf_time t \<Longrightarrow> valid_utf8 i \<Longrightarrow> wf_Notification (invite_row t i)"
  "valid_utf8 (fst f) \<Longrightarrow> wf_time (snd f) \<Longrightarrow> valid_utf8 (fst ev) \<Longrightarrow> valid_utf8 (snd ev) \<Longrightarrow> wf_Notification (drain_row f ev)"
proof -
  have pre: "valid_utf8 s \<Longrightarrow> valid_utf8 (share_row_id s)" "valid_utf8 s \<Longrightarrow> valid_utf8 (invite_row_id s)"
      "valid_utf8 s \<Longrightarrow> valid_utf8 (''drain:'' @ s)" for s
    unfolding share_row_id_def invite_row_id_def by (intro valid_utf8_append; simp add: valid_utf8_ascii)+
  show "wf_share it \<Longrightarrow> wf_Notification (share_row it)"
    using pre(1) [of "sh_ShareID it"] wf_expires
    by (simp add: wf_share_def wf_Notification_def share_row_def zero_Notification_def share_sender_def Let_def kinds valid_utf8_ascii)
  show "wf_time t \<Longrightarrow> valid_utf8 i \<Longrightarrow> wf_Notification (invite_row t i)"
    using pre(2) [of i] by (simp add: wf_Notification_def invite_row_def zero_Notification_def kinds valid_utf8_ascii int64_def)
  show "wf_Notification (drain_row f ev)" if "valid_utf8 (fst f)" "wf_time (snd f)" "valid_utf8 (fst ev)" "valid_utf8 (snd ev)"
    using that pre(3) [of "fst f"] by (simp add: wf_Notification_def drain_row_def zero_Notification_def valid_utf8_ascii int64_def)
qed

lemma wf_flags [simp]:
  "wf_Notification (n\<lparr>nt_Seen := a\<rparr>) \<longleftrightarrow> wf_Notification n" "wf_Notification (n\<lparr>nt_Retired := a\<rparr>) \<longleftrightarrow> wf_Notification n"
  "wf_Notification (n\<lparr>nt_Handled := a\<rparr>) \<longleftrightarrow> wf_Notification n"
  by (simp_all add: wf_Notification_def)

lemma map_enumerate_snd: "map (\<lambda>p. g (snd p)) (enumerate n xs) = map g xs"
  by (induction xs arbitrary: n) simp_all

lemma new_invites_ids:
  "map nt_ID (new_invites clock pending x) = map invite_row_id
     (filter (\<lambda>i. \<not> (invite_row_id i \<in> set (nd_Dismissed x) \<or> invite_row_id i \<in> set (map nt_ID (nd_Items x)))) (waiting pending))"
  unfolding new_invites_def map_map o_def case_prod_unfold row_ids(2) by (rule map_enumerate_snd)

lemma new_invites_rows:
  assumes "n \<in> set (new_invites clock pending x)"
  shows "\<exists>k i. n = invite_row (clock k) i \<and> i \<in> set (waiting pending)"
proof -
  obtain k i where "(k, i) \<in> set (enumerate 0 (filter (\<lambda>i. \<not> (invite_row_id i \<in> set (nd_Dismissed x) \<or> invite_row_id i \<in> set (map nt_ID (nd_Items x))))
      (waiting pending)))" "n = invite_row (clock k) i"
    using assms unfolding new_invites_def by auto
  then show ?thesis using set_zip_rightD unfolding enumerate_eq_zip by fastforce
qed

lemma op_fun_wf:
  assumes "wf_notifData x" "op_fun op x = Some y" "op_input op x"
  shows "wf_notifData y"
proof (cases op)
  case (OpSeed now i name n ex single)
  have "valid_utf8 (share_row_id i)" using assms(3) OpSeed unfolding share_row_id_def by (intro valid_utf8_append) (simp_all add: valid_utf8_ascii)
  moreover have "valid_utf8 ''My devices''" "valid_utf8 []" by (simp_all add: valid_utf8_ascii)
  ultimately show ?thesis using assms OpSeed wf_expires valid_kinds(1)
    by (auto simp: seed_share_def Let_def wf_notifData_def wf_Notification_def zero_Notification_def split: if_splits)
next
  case (OpShares inbox)
  have "wf_map (fold (\<lambda>it. map_put (sh_ShareID it) (sh_RecipientFingerprint it)) (filter p inbox) (nd_RecipientFPs x))" for p
    using assms(1,3) OpShares by (intro wf_map_puts) (auto simp: wf_notifData_def wf_share_def list_all_iff)
  then show ?thesis using assms OpShares wf_rows(1)
    by (auto simp: reconcile_shares_def Let_def wf_notifData_def list_all_iff split: if_splits)
next
  case (OpPending clock pending)
  have "list_all wf_Notification (new_invites clock pending x)"
    unfolding list_all_iff
  proof
    fix n
    assume "n \<in> set (new_invites clock pending x)"
    then obtain k i where "n = invite_row (clock k) i" "i \<in> set (waiting pending)" using new_invites_rows by blast
    then show "wf_Notification n" using assms(3) OpPending wf_rows(2) by (simp add: list_all_iff)
  qed
  with assms OpPending show ?thesis
    by (auto simp: reconcile_pending_def Let_def wf_notifData_def list_all_iff split: if_splits)
next
  case (OpDrain fresh rep)
  have "ev \<in> set (drain_events rep) \<Longrightarrow> valid_utf8 (fst ev) \<and> valid_utf8 (snd ev)" for ev
    using assms(3) OpDrain valid_kinds by (auto simp: drain_events_def list_all_iff)
  then have "wf_Notification (drain_row (fresh k) ev)" if "(k, ev) \<in> set (enumerate 0 (drain_events rep))" for k ev
    using that assms(3) OpDrain set_zip_rightD [of k ev] by (intro wf_rows(3)) (simp_all add: enumerate_eq_zip)
  then have "list_all wf_Notification (map (\<lambda>(k, ev). drain_row (fresh k) ev) (enumerate 0 (drain_events rep)))" by (auto simp: list_all_iff)
  then show ?thesis using assms(1,2) OpDrain
    by (auto simp: apply_report_def wf_notifData_def split: if_splits)
qed (use assms in \<open>auto simp: see_all_def dismiss_def handle_def Let_def wf_notifData_def list_all_iff split: if_splits\<close>)

lemma image_ID: "map nt_ID xs = map nt_ID ys \<Longrightarrow> nt_ID ` set xs = nt_ID ` set ys"
  by (metis set_map)

text \<open>What the two reconciliations add has identifiers that neither a row nor a tombstone has.\<close>

definition added_shares :: "ShareInboxItem list \<Rightarrow> notifData \<Rightarrow> ShareInboxItem list" where
  "added_shares inbox x = filter (\<lambda>it. \<not> (share_row_id (sh_ShareID it) \<in> set (nd_Dismissed x)
     \<or> share_row_id (sh_ShareID it) \<in> set (map nt_ID (nd_Items x)))) inbox"

lemma reconcile_shares_rows:
  assumes "reconcile_shares inbox x = Some y"
  shows "nd_Dismissed y = nd_Dismissed x"
    "\<exists>items. nd_Items y = sortByCreated (items @ map share_row (added_shares inbox x)) \<and> map nt_ID items = map nt_ID (nd_Items x)"
proof -
  define items where "items = map (\<lambda>n. if share_gone inbox n then n\<lparr>nt_Retired := True\<rparr> else n) (nd_Items x)"
  have "map nt_ID items = map nt_ID (nd_Items x)" by (simp add: items_def o_def if_distrib [of nt_ID] cong: if_cong)
  moreover have "nd_Items y = sortByCreated (items @ map share_row (added_shares inbox x))"
    using assms by (auto simp: reconcile_shares_def Let_def items_def added_shares_def split: if_splits)
  ultimately show "\<exists>items. nd_Items y = sortByCreated (items @ map share_row (added_shares inbox x)) \<and> map nt_ID items = map nt_ID (nd_Items x)" by blast
  show "nd_Dismissed y = nd_Dismissed x" using assms by (auto simp: reconcile_shares_def Let_def split: if_splits)
qed

lemma added_shares_new: "nt_ID ` set (map share_row (added_shares inbox x)) \<inter> (set (nd_Dismissed x) \<union> set (map nt_ID (nd_Items x))) = {}"
  by (auto simp: added_shares_def)

lemma new_invites_new: "nt_ID ` set (new_invites clock pending x) \<inter> (set (nd_Dismissed x) \<union> nt_ID ` set (nd_Items x)) = {}"
proof -
  have "nt_ID ` set (new_invites clock pending x) = set (map nt_ID (new_invites clock pending x))" by simp
  then show ?thesis unfolding new_invites_ids by auto
qed

lemma reconcile_pending_rows:
  "reconcile_pending clock pending x = Some y \<Longrightarrow>
     y = x\<lparr>nd_Items := sortByCreated (filter (\<lambda>n. \<not> invite_resolved pending n) (nd_Items x @ new_invites clock pending x))\<rparr>"
  by (auto simp: reconcile_pending_def Let_def simp del: filter_append split: if_splits)

lemma apply_report_rows:
  assumes "apply_report fresh rep x = Some y"
  shows "nd_Dismissed y = nd_Dismissed x" "nd_Items y = rev (map (\<lambda>(k, ev). drain_row (fresh k) ev) (enumerate 0 (drain_events rep))) @ nd_Items x"
  using assms by (auto simp: apply_report_def split: if_splits)

lemma handle_rows:
  assumes "handle i x = Some y"
  shows "nd_Dismissed y = nd_Dismissed x" "map nt_ID (nd_Items y) = map nt_ID (nd_Items x)"
  using assms by (auto simp: handle_def split: if_splits)

lemma op_fun_ok:
  assumes "notif_ok x" "op_fun op x = Some y" "op_input op x"
  shows "notif_ok y"
proof (cases op)
  case (OpShares inbox)
  obtain items where i: "nd_Items y = sortByCreated (items @ map share_row (added_shares inbox x))" "map nt_ID items = map nt_ID (nd_Items x)"
    and t: "nd_Dismissed y = nd_Dismissed x"
    using reconcile_shares_rows [of inbox x y] assms(2) OpShares by auto
  show ?thesis using assms(1) added_shares_new [of inbox x] image_ID [OF i(2)] unfolding notif_ok_def t i(1) set_sortByCreated set_append image_Un
    by blast
next
  case (OpPending clock pending)
  have "y = x\<lparr>nd_Items := sortByCreated (filter (\<lambda>n. \<not> invite_resolved pending n) (nd_Items x @ new_invites clock pending x))\<rparr>"
    using assms(2) OpPending by (intro reconcile_pending_rows) simp
  then show ?thesis using assms(1) new_invites_new [of clock pending x] unfolding notif_ok_def by (auto simp: disjoint_iff)
next
  case (OpDrain fresh rep)
  have "nt_ID ` set (map (\<lambda>(k, ev). drain_row (fresh k) ev) (enumerate 0 (drain_events rep))) \<inter> set (nd_Dismissed x) = {}"
    using assms(3) OpDrain by fastforce
  then show ?thesis using assms(1,2) OpDrain apply_report_rows [of fresh rep x y] unfolding notif_ok_def by auto
next
  case (OpHandled i)
  then have "nt_ID ` set (nd_Items y) = nt_ID ` set (nd_Items x)" "nd_Dismissed y = nd_Dismissed x"
    using assms(2) handle_rows(1) [of i x y] image_ID [OF handle_rows(2) [of i x y]] by simp_all
  then show ?thesis using assms(1) by (simp add: notif_ok_def)
next
  case OpSeen
  then show ?thesis using assms by (auto simp: see_all_def notif_ok_def o_def disjoint_iff split: if_splits)
next
  case (OpDismiss i)
  then show ?thesis using assms by (auto simp: dismiss_def Let_def notif_ok_def disjoint_iff split: if_splits)
next
  case OpSeed
  then show ?thesis using assms by (auto simp: seed_share_def Let_def notif_ok_def list_ex_iff disjoint_iff split: if_splits)
qed

lemma op_fun_unique:
  assumes "notif_unique x" "op_fun op x = Some y" "op_input op x" "no_repeats op"
  shows "notif_unique y"
proof (cases op)
  case (OpShares inbox)
  obtain items where i: "nd_Items y = sortByCreated (items @ map share_row (added_shares inbox x))" "map nt_ID items = map nt_ID (nd_Items x)"
    using reconcile_shares_rows [of inbox x y] assms(2) OpShares by auto
  have "distinct (map sh_ShareID (added_shares inbox x))" using assms(4) OpShares unfolding added_shares_def by (simp add: distinct_map_filter)
  then have "distinct (map share_row_id (map sh_ShareID (added_shares inbox x)))" unfolding distinct_map [of share_row_id] by (simp add: inj_on_def)
  then have da: "distinct (map nt_ID (map share_row (added_shares inbox x)))" by (simp add: o_def)
  have "set (map nt_ID items) \<inter> set (map nt_ID (map share_row (added_shares inbox x))) = {}"
    unfolding i(2) using added_shares_new [of inbox x] unfolding set_map by blast
  then show ?thesis using assms(1) da unfolding notif_unique_def i(1) distinct_sortByCreated map_append distinct_append i(2) by blast
next
  case (OpPending clock pending)
  have y: "y = x\<lparr>nd_Items := sortByCreated (filter (\<lambda>n. \<not> invite_resolved pending n) (nd_Items x @ new_invites clock pending x))\<rparr>"
    using assms(2) OpPending by (intro reconcile_pending_rows) simp
  have "distinct (map nt_ID (new_invites clock pending x))" unfolding new_invites_ids using assms(4) OpPending by (simp add: distinct_map inj_on_def)
  then have "distinct (map nt_ID (nd_Items x @ new_invites clock pending x))"
    using assms(1) new_invites_new [of clock pending x] unfolding notif_unique_def by auto
  then show ?thesis unfolding y notif_unique_def by (simp add: distinct_map_filter del: map_append filter_append)
next
  case (OpDrain fresh rep)
  let ?evs = "enumerate 0 (drain_events rep)"
  let ?new = "map (\<lambda>(k, ev). drain_row (fresh k) ev) ?evs"
  have ids: "map nt_ID ?new = map (\<lambda>k. ''drain:'' @ fst (fresh k)) (map fst ?evs)" unfolding map_map o_def case_prod_unfold row_ids(3) ..
  have "inj (\<lambda>k. ''drain:'' @ fst (fresh k))" using assms(3) OpDrain by (simp add: inj_def)
  then have "distinct (map nt_ID ?new)" unfolding ids by (simp add: distinct_map map_fst_enumerate inj_on_def inj_def)
  moreover have "nt_ID ` set ?new \<inter> nt_ID ` set (nd_Items x) = {}" using assms(3) OpDrain by fastforce
  ultimately show ?thesis using assms(1,2) OpDrain apply_report_rows [of fresh rep x y] unfolding notif_unique_def by (auto simp: rev_map [symmetric])
next
  case (OpHandled i)
  then show ?thesis using assms handle_rows [of i x y] by (simp add: notif_unique_def)
next
  case OpSeen
  then show ?thesis using assms by (auto simp: see_all_def notif_unique_def o_def split: if_splits)
next
  case (OpDismiss i)
  then show ?thesis using assms by (auto simp: dismiss_def Let_def notif_unique_def distinct_map_filter split: if_splits)
next
  case OpSeed
  then show ?thesis using assms by (auto simp: seed_share_def Let_def notif_unique_def list_ex_iff split: if_splits) metis
qed

lemma cap_ok: "notif_ok x \<Longrightarrow> notif_ok (cap_data x)" "notif_unique x \<Longrightarrow> notif_unique (cap_data x)" "notif_bounded (cap_data x)"
  by (auto simp: notif_ok_def notif_unique_def cap_data_def notif_bounded_def take_map [symmetric] dest: in_set_takeD in_set_dropD)

text \<open>The merge: rows by identifier, none of them dismissed.\<close>

definition rows_ok :: "bytes list \<Rightarrow> Notification list \<Rightarrow> bool" where
  "rows_ok D ns \<longleftrightarrow> distinct (map nt_ID ns) \<and> nt_ID ` set ns \<inter> set D = {} \<and> list_all wf_Notification ns"

lemma nt_ID_mergeRecord [simp]: "nt_ID (mergeRecord a b) = nt_ID a"
  by (simp add: mergeRecord_def)

lemma wf_mergeRecord: "wf_Notification a \<Longrightarrow> wf_Notification b \<Longrightarrow> wf_Notification (mergeRecord a b)"
  by (simp add: mergeRecord_def wf_Notification_def)

lemma merge_item_ok:
  assumes "rows_ok D ns" "wf_Notification n"
  shows "rows_ok D (merge_item D n ns)"
proof (cases "find_index (\<lambda>c. nt_ID c = nt_ID n) ns")
  case None
  then have "nt_ID n \<notin> nt_ID ` set ns" by (auto simp: find_index_None)
  with None assms show ?thesis by (auto simp: merge_item_def rows_ok_def)
next
  case (Some k)
  then have k: "k < length ns" "nt_ID (ns ! k) = nt_ID n" by (simp_all add: find_index_Some)
  let ?m = "mergeRecord (ns ! k) n"
  have ids: "map nt_ID (ns[k := ?m]) = map nt_ID ns" using k(1) by (intro map_key_update) simp_all
  moreover have "nt_ID ` set (ns[k := ?m]) = set (map nt_ID (ns[k := ?m]))" by simp
  moreover have "list_all wf_Notification (ns[k := ?m])"
    using assms k(1) wf_mergeRecord by (simp add: rows_ok_def list_all_length nth_list_update)
  ultimately show ?thesis using assms(1) Some by (auto simp: merge_item_def rows_ok_def)
qed

lemma merge_items_ok: "rows_ok D ns \<Longrightarrow> list_all wf_Notification xs \<Longrightarrow> rows_ok D (fold (merge_item D) xs ns)"
  by (induction xs arbitrary: ns) (simp_all add: merge_item_ok)

lemma merge_raw_ok:
  assumes "wf_syncView a" "wf_syncView b"
  shows "wf_syncView (merge_raw a b)" "distinct (map nt_ID (vw_Items (merge_raw a b)))"
    "nt_ID ` set (vw_Items (merge_raw a b)) \<inter> set (vw_Dismissed (merge_raw a b)) = {}"
proof -
  let ?D = "vw_Dismissed a @ vw_Dismissed b"
  have "rows_ok ?D (fold (merge_item ?D) (vw_Items b) (fold (merge_item ?D) (vw_Items a) []))"
    using assms by (intro merge_items_ok) (simp_all add: wf_syncView_def rows_ok_def)
  then show "wf_syncView (merge_raw a b)" "distinct (map nt_ID (vw_Items (merge_raw a b)))"
    "nt_ID ` set (vw_Items (merge_raw a b)) \<inter> set (vw_Dismissed (merge_raw a b)) = {}"
    using assms by (auto simp: merge_raw_def Let_def rows_ok_def wf_syncView_def list_all_iff)
qed

definition view_ok :: "syncView \<Rightarrow> bool" where
  "view_ok v \<longleftrightarrow> wf_syncView v \<and> nt_ID ` set (vw_Items v) \<inter> set (vw_Dismissed v) = {}"

lemma cap_view_ok: "view_ok v \<Longrightarrow> view_ok (cap_view v)"
  "distinct (map nt_ID (vw_Items v)) \<Longrightarrow> distinct (map nt_ID (vw_Items (cap_view v)))"
proof -
  have s: "set (vw_Items (cap_view v)) \<subseteq> set (vw_Items v)" "set (vw_Dismissed (cap_view v)) \<subseteq> set (vw_Dismissed v)"
    by (auto simp: cap_view_def dest: in_set_takeD in_set_dropD)
  then show "view_ok v \<Longrightarrow> view_ok (cap_view v)" unfolding view_ok_def wf_syncView_def list_all_iff by blast
  show "distinct (map nt_ID (vw_Items v)) \<Longrightarrow> distinct (map nt_ID (vw_Items (cap_view v)))" by (simp add: cap_view_def take_map [symmetric])
qed

lemma MergeNotifications_view:
  assumes "MergeNotifications l r = Inr m"
  shows "\<exists>v. parse_view m = Inr v \<and> view_ok v \<and> distinct (map nt_ID (vw_Items v))"
proof -
  obtain a b where ab: "wf_syncView a" "wf_syncView b" "marshal_view (cap_view (merge_raw a b)) = Inr m"
    using assms unfolding MergeNotifications_def andthen_Inr_iff by (metis parse_view_wf zero_Notification_wf(3) sum.inject(2))
  have ok: "view_ok (merge_raw a b)" using merge_raw_ok [OF ab(1,2)] by (simp add: view_ok_def)
  then have "parse_view m = Inr (cap_view (merge_raw a b))" using parse_marshal_view [OF ab(3)] cap_view_ok(1) by (simp add: view_ok_def)
  with ok merge_raw_ok(2) [OF ab(1,2)] cap_view_ok show ?thesis by blast
qed

text \<open>What the exchange of a blob returns: the local bytes, or the result of a merge.\<close>

lemma merge_attempts_result:
  "merge_attempts sv u rnd name merge k l s = (s', Inr m) \<Longrightarrow> m = l \<or> (\<exists>a b. merge a b = Inr m)"
proof (induction k arbitrary: l s)
  case (Suc k)
  show ?case
  proof (cases "OpenBlob sv u name s")
    case (Pair s1 o1)
    show ?thesis
    proof (cases o1)
      case (Inl e)
      then show ?thesis using Suc Pair by (auto split: prod.splits sum.splits if_splits)
    next
      case (Inr rv)
      obtain r ver where rv: "rv = (r, ver)" by (cases rv)
      then obtain x where x: "merge l r = Inr x" using Suc.prems Pair Inr by (auto split: sum.splits)
      obtain s2 o2 where seal: "SealBlob sv u (rnd k) name x ver s1 = (s2, o2)" by (cases "SealBlob sv u (rnd k) name x ver s1")
      then have "m = x \<or> merge_attempts sv u rnd name merge k x s2 = (s', Inr m)"
        using Suc.prems Pair Inr rv x by (auto split: sum.splits if_splits)
      then show ?thesis using Suc.IH x by blast
    qed
  qed
qed simp

lemma adopt_parts:
  "nd_Dismissed (adopt mv cur) = vw_Dismissed mv" "nd_RecipientFPs (adopt mv cur) = nd_RecipientFPs cur"
  "\<exists>ns. nd_Items (adopt mv cur) = sortByCreated ns \<and> map nt_ID ns = map nt_ID (vw_Items mv)"
proof -
  let ?put = "\<lambda>n. if nt_ID n \<in> nt_ID ` {x \<in> set (nd_Items cur). nt_Handled x} then n\<lparr>nt_Handled := True\<rparr> else n"
  have "nd_Items (adopt mv cur) = sortByCreated (map ?put (vw_Items mv))" by (simp add: adopt_def Let_def)
  moreover have "map nt_ID (map ?put (vw_Items mv)) = map nt_ID (vw_Items mv)" by simp
  ultimately show "\<exists>ns. nd_Items (adopt mv cur) = sortByCreated ns \<and> map nt_ID ns = map nt_ID (vw_Items mv)" by blast
qed (simp_all add: adopt_def Let_def)

lemma adopt_ok:
  assumes "view_ok mv"
  shows "notif_ok (adopt mv cur)"
proof -
  obtain ns where ns: "nd_Items (adopt mv cur) = sortByCreated ns" "map nt_ID ns = map nt_ID (vw_Items mv)" using adopt_parts(3) by blast
  then show ?thesis using assms image_ID [OF ns(2)] by (simp add: notif_ok_def view_ok_def adopt_parts(1))
qed

lemma adopt_unique:
  assumes "distinct (map nt_ID (vw_Items mv))"
  shows "notif_unique (adopt mv cur)"
proof -
  obtain ns where ns: "nd_Items (adopt mv cur) = sortByCreated ns" "map nt_ID ns = map nt_ID (vw_Items mv)" using adopt_parts(3) by blast
  then show ?thesis using assms unfolding notif_unique_def ns(1) distinct_sortByCreated ns(2) by simp
qed

lemma adopt_wf: "wf_syncView mv \<Longrightarrow> wf_notifData cur \<Longrightarrow> wf_notifData (adopt mv cur)"
  by (auto simp: wf_notifData_def wf_syncView_def adopt_def Let_def list_all_iff)

lemma SealSource_view:
  assumes "SealSource path d = Inr l"
  shows "parse_view l = Inr \<lparr>vw_Items = stripHandled (nd_Items (notif_load path d)), vw_Dismissed = nd_Dismissed (notif_load path d)\<rparr>"
proof -
  let ?v = "\<lparr>vw_Items = stripHandled (nd_Items (notif_load path d)), vw_Dismissed = nd_Dismissed (notif_load path d)\<rparr>"
  have "wf_syncView ?v" using notif_load_wf [of path d] by (auto simp: wf_syncView_def wf_notifData_def stripHandled_def list_all_iff)
  then show "parse_view l = Inr ?v" using assms parse_marshal_view by (simp add: SealSource_def Let_def)
qed

lemma stripHandled_ids: "map nt_ID (stripHandled ns) = map nt_ID ns"
  by (simp add: stripHandled_def o_def)

text \<open>
  The states the store can reach on a disk that does not fail: from no file, by operations that satisfy
  \<open>P\<close>, and by Sync, whose first step saw one reachable state and whose second step finds another, since other
  operations may have run in between.
\<close>

inductive notif_reach :: "(notif_op \<Rightarrow> bool) \<Rightarrow> 's Service \<Rightarrow> SelfCrypter \<Rightarrow> (nat \<Rightarrow> bytes) \<Rightarrow> bytes \<Rightarrow> disk \<Rightarrow> bool" for P sv u rnd path where
  start: "d_files d path = None \<Longrightarrow> (\<And>c q. d_fault d c q = None) \<Longrightarrow> notif_reach P sv u rnd path d"
| operation: "notif_reach P sv u rnd path d \<Longrightarrow> P op \<Longrightarrow> op_input op (notif_load path d) \<Longrightarrow> notif_reach P sv u rnd path (run_op op path d)"
| sync: "notif_reach P sv u rnd path d1 \<Longrightarrow> SealSource path d1 = Inr l \<Longrightarrow>
    SyncMergedBlob sv u rnd ''notifications'' l MergeNotifications s = (s', Inr merged) \<Longrightarrow> parse_view merged = Inr mv \<Longrightarrow>
    notif_reach P sv u rnd path d2 \<Longrightarrow> notif_save path (adopt mv (notif_load path d2)) d2 = (d3, r) \<Longrightarrow> notif_reach P sv u rnd path d3"

lemma Notif_Sync_reach:
  assumes "Notif_Sync sv u rnd path edits (s, d) = ((s', d'), r)" "notif_reach P sv u rnd path d" "notif_reach P sv u rnd path (edits d)"
  shows "notif_reach P sv u rnd path d'"
  using assms unfolding Notif_Sync_def
  by (auto split: sum.splits prod.splits intro: notif_reach.sync)

lemma merged_view_ok:
  assumes "SealSource path d = Inr l" "SyncMergedBlob sv u rnd name l MergeNotifications s = (s', Inr merged)" "parse_view merged = Inr mv"
  shows "notif_ok (notif_load path d) \<Longrightarrow> view_ok mv" "notif_unique (notif_load path d) \<Longrightarrow> distinct (map nt_ID (vw_Items mv))"
proof -
  have "merged = l \<or> (\<exists>a b. MergeNotifications a b = Inr merged)"
    using merge_attempts_result assms(2) unfolding SyncMergedBlob_def by metis
  then have "(notif_ok (notif_load path d) \<longrightarrow> view_ok mv) \<and> (notif_unique (notif_load path d) \<longrightarrow> distinct (map nt_ID (vw_Items mv)))"
  proof (elim disjE exE)
    assume "merged = l"
    then have mv: "mv = \<lparr>vw_Items = stripHandled (nd_Items (notif_load path d)), vw_Dismissed = nd_Dismissed (notif_load path d)\<rparr>"
      using SealSource_view [OF assms(1)] assms(3) by simp
    then show ?thesis using parse_view_wf [OF assms(3)] image_ID [OF stripHandled_ids, of "nd_Items (notif_load path d)"]
      by (simp add: view_ok_def notif_ok_def notif_unique_def stripHandled_ids)
  next
    fix a b
    assume "MergeNotifications a b = Inr merged"
    from MergeNotifications_view [OF this] assms(3) show ?thesis by auto
  qed
  then show "notif_ok (notif_load path d) \<Longrightarrow> view_ok mv" "notif_unique (notif_load path d) \<Longrightarrow> distinct (map nt_ID (vw_Items mv))" by blast+
qed

section \<open>The merge is the union of the flags\<close>

text \<open>
  What a view knows about an identifier, flag by flag: whether the row was dismissed, and otherwise
  whether it is shown, seen, retired or single-use. A dismissed row counts as having every flag, since
  the tombstone beats the row. Every flag only ever becomes true.
\<close>

datatype flag = Gone | Shown | Seen | Retired | Once

fun has_flag :: "flag \<Rightarrow> Notification \<Rightarrow> bool" where
  "has_flag Gone n \<longleftrightarrow> False"
| "has_flag Shown n \<longleftrightarrow> True"
| "has_flag Seen n \<longleftrightarrow> nt_Seen n"
| "has_flag Retired n \<longleftrightarrow> nt_Retired n"
| "has_flag Once n \<longleftrightarrow> nt_SingleUse n"

definition row_flag :: "Notification list \<Rightarrow> bytes \<Rightarrow> flag \<Rightarrow> bool" where
  "row_flag ns i f \<longleftrightarrow> (\<exists>n\<in>set ns. nt_ID n = i \<and> has_flag f n)"

definition vflag :: "syncView \<Rightarrow> bytes \<times> flag \<Rightarrow> bool" where
  "vflag v k \<longleftrightarrow> fst k \<in> set (vw_Dismissed v) \<or> row_flag (vw_Items v) (fst k) (snd k)"

lemma has_flag_mergeRecord: "has_flag f (mergeRecord a b) \<longleftrightarrow> has_flag f a \<or> has_flag f b"
  by (cases f) (simp_all add: mergeRecord_def)

lemma merge_item_distinct: "distinct (map nt_ID ns) \<Longrightarrow> distinct (map nt_ID (merge_item D n ns))"
proof -
  assume d: "distinct (map nt_ID ns)"
  show "distinct (map nt_ID (merge_item D n ns))"
  proof (cases "find_index (\<lambda>c. nt_ID c = nt_ID n) ns")
    case None
    then have "nt_ID n \<notin> nt_ID ` set ns" by (auto simp: find_index_None)
    with None d show ?thesis by (auto simp: merge_item_def)
  next
    case (Some k)
    then have "map nt_ID (ns[k := mergeRecord (ns ! k) n]) = map nt_ID ns" by (intro map_key_update) (simp_all add: find_index_Some)
    with Some d show ?thesis by (simp add: merge_item_def)
  qed
qed

lemma row_flag_item:
  assumes "distinct (map nt_ID ns)"
  shows "row_flag (merge_item D n ns) i f \<longleftrightarrow> row_flag ns i f \<or> (nt_ID n \<notin> set D \<and> nt_ID n = i \<and> has_flag f n)"
proof (cases "nt_ID n \<in> set D \<or> find_index (\<lambda>c. nt_ID c = nt_ID n) ns = None")
  case True
  then show ?thesis by (cases "nt_ID n \<in> set D") (auto simp: merge_item_def row_flag_def)
next
  case False
  then obtain k where s: "find_index (\<lambda>c. nt_ID c = nt_ID n) ns = Some k" by auto
  then have k: "k < length ns" "nt_ID (ns ! k) = nt_ID n" by (simp_all add: find_index_Some)
  let ?m = "mergeRecord (ns ! k) n"
  have "set (ns[k := ?m]) = insert ?m (set ns - {ns ! k})" using set_update_distinct [OF _ k(1)] assms by (simp add: distinct_map)
  moreover have "merge_item D n ns = ns[k := ?m]" using False s by (simp add: merge_item_def)
  moreover have "row_flag ns i f \<longleftrightarrow> (nt_ID (ns ! k) = i \<and> has_flag f (ns ! k)) \<or> (\<exists>x\<in>set ns - {ns ! k}. nt_ID x = i \<and> has_flag f x)"
    using nth_mem [OF k(1)] unfolding row_flag_def by blast
  ultimately show ?thesis using False k(2) by (auto simp: row_flag_def has_flag_mergeRecord)
qed

lemma row_flag_items:
  "distinct (map nt_ID ns) \<Longrightarrow> distinct (map nt_ID (fold (merge_item D) xs ns))
     \<and> (row_flag (fold (merge_item D) xs ns) i f \<longleftrightarrow> row_flag ns i f \<or> (i \<notin> set D \<and> row_flag xs i f))"
proof (induction xs arbitrary: ns)
  case Nil
  then show ?case by (simp add: row_flag_def)
next
  case (Cons n xs)
  from Cons.IH [OF merge_item_distinct [OF Cons.prems]] row_flag_item [OF Cons.prems, of D n i f]
  show ?case by (auto simp: row_flag_def)
qed

interpretation notif_merge: replicated merge_raw vflag
proof
  fix a b :: syncView and k :: "bytes \<times> flag"
  let ?D = "vw_Dismissed a @ vw_Dismissed b"
  let ?A = "fold (merge_item ?D) (vw_Items a) []"
  have 1: "distinct (map nt_ID ?A)" "row_flag ?A (fst k) (snd k) \<longleftrightarrow> fst k \<notin> set ?D \<and> row_flag (vw_Items a) (fst k) (snd k)"
    using row_flag_items [of "[]" ?D "vw_Items a" "fst k" "snd k"] by (auto simp: row_flag_def)
  have "row_flag (vw_Items (merge_raw a b)) (fst k) (snd k) \<longleftrightarrow>
      fst k \<notin> set ?D \<and> (row_flag (vw_Items a) (fst k) (snd k) \<or> row_flag (vw_Items b) (fst k) (snd k))"
    using row_flag_items [OF 1(1), of ?D "vw_Items b" "fst k" "snd k"] 1(2) by (auto simp: merge_raw_def Let_def row_flag_def)
  moreover have "set (vw_Dismissed (merge_raw a b)) = set ?D" by (simp add: merge_raw_def Let_def)
  ultimately show "vflag (merge_raw a b) k = max (vflag a k) (vflag b k)" by (auto simp: vflag_def max_def)
qed

section \<open>Properties\<close>

lemma reach_induct:
  assumes "notif_reach P sv u rnd path d"
    and empty: "Q empty_notifData"
    and op: "\<And>op x y. P op \<Longrightarrow> op_input op x \<Longrightarrow> Q x \<Longrightarrow> op_fun op x = Some y \<Longrightarrow> Q (cap_data y)"
    and sync: "\<And>d l s s' merged mv cur. SealSource path d = Inr l \<Longrightarrow> Q (notif_load path d) \<Longrightarrow>
        SyncMergedBlob sv u rnd ''notifications'' l MergeNotifications s = (s', Inr merged) \<Longrightarrow> parse_view merged = Inr mv \<Longrightarrow> Q (cap_data (adopt mv cur))"
  shows "Q (notif_load path d)"
proof -
  have "(\<forall>c q. d_fault d c q = None) \<and> Q (notif_load path d)"
    using assms(1)
  proof induction
    case (start d)
    then show ?case using empty by (simp add: notif_load_def ReadFile_def)
  next
    case (operation d op)
    obtain d' r where m: "modify path (op_fun op) d = (d', r)" by (cases "modify path (op_fun op) d")
    have w: "\<forall>x. op_fun op (notif_load path d) = Some x \<longrightarrow> wf_notifData x" using op_fun_wf [OF notif_load_wf] operation.hyps(3) by blast
    have f: "\<And>c q. d_fault d c q = None" using operation.IH by blast
    note l = modify_load [OF m w f]
    then show ?case using operation op [of op "notif_load path d"] m by (auto simp: run_op_modify)
  next
    case (sync d1 l s s' merged mv d2 d3 r)
    have w: "wf_notifData (adopt mv (notif_load path d2))" using adopt_wf parse_view_wf [OF sync.hyps(4)] notif_load_wf by blast
    have f: "\<And>c q. d_fault d2 c q = None" using sync.IH by blast
    note l = notif_save_load [OF sync.hyps(6) w f]
    have "Q (cap_data (adopt mv (notif_load path d2)))" using assms(4) [OF sync.hyps(2) _ sync.hyps(3,4)] sync.IH by blast
    then show ?case using l(1,2) f sync.IH by (cases "r = Inr ()") simp_all
  qed
  then show ?thesis by blast
qed

text \<open>
  C16. In every state the notification store reaches on a disk that does not fail, through the user's
  operations, reconciliation with any inboxes whatever the server lists in them, drain reports with new
  UUIDs, and synchronisation interleaved in any order, the file holds at most 200 rows and 500 tombstones
  and no row is dismissed. If moreover no inbox listed a share or a request twice, no two rows share an
  identifier; the code does not enforce this one itself.
\<close>

theorem notifications_bounded:
  assumes "notif_reach P sv u rnd path d"
  shows "notif_bounded (notif_load path d) \<and> notif_ok (notif_load path d)
     \<and> ((\<forall>op. P op \<longrightarrow> no_repeats op) \<longrightarrow> notif_unique (notif_load path d))"
proof (intro conjI impI)
  have "notif_bounded empty_notifData" by (simp add: empty_notifData_def notif_bounded_def)
  then show "notif_bounded (notif_load path d)" by (rule reach_induct [OF assms]) (rule cap_ok(3))+
  show "notif_ok (notif_load path d)"
    using assms
  proof (rule reach_induct)
    show "notif_ok empty_notifData" by (simp add: empty_notifData_def notif_ok_def)
    show "notif_ok (cap_data y)" if "op_input op x" "notif_ok x" "op_fun op x = Some y" for op x y using op_fun_ok [OF that(2,3,1)] by (rule cap_ok(1))
    show "notif_ok (cap_data (adopt mv cur))" if "SealSource path d = Inr l" "notif_ok (notif_load path d)"
        "SyncMergedBlob sv u rnd ''notifications'' l MergeNotifications s = (s', Inr merged)" "parse_view merged = Inr mv" for d l s s' merged mv cur
      using merged_view_ok(1) [OF that(1,3,4,2)] by (intro cap_ok(1) adopt_ok)
  qed
  assume r: "\<forall>op. P op \<longrightarrow> no_repeats op"
  show "notif_unique (notif_load path d)"
    using assms
  proof (rule reach_induct)
    show "notif_unique empty_notifData" by (simp add: empty_notifData_def notif_unique_def)
    show "notif_unique (cap_data y)" if "P op" "op_input op x" "notif_unique x" "op_fun op x = Some y" for op x y
      using op_fun_unique [OF that(3,4,2)] r that(1) cap_ok(2) by blast
    show "notif_unique (cap_data (adopt mv cur))" if "SealSource path d = Inr l" "notif_unique (notif_load path d)"
        "SyncMergedBlob sv u rnd ''notifications'' l MergeNotifications s = (s', Inr merged)" "parse_view merged = Inr mv" for d l s s' merged mv cur
      using merged_view_ok(2) [OF that(1,3,4,2)] by (intro cap_ok(2) adopt_unique)
  qed
qed

theorem notifications_bounded_witness:
  "\<exists>d. notif_reach no_repeats account_service clear_crypter (\<lambda>_. []) ''n.json'' d
     \<and> notif_bounded (notif_load ''n.json'' d) \<and> notif_unique (notif_load ''n.json'' d) \<and> nd_Dismissed (notif_load ''n.json'' d) = [''x'']"
proof -
  let ?d = "run_op (OpDismiss ''x'') ''n.json'' empty_disk"
  have "notif_reach no_repeats account_service clear_crypter (\<lambda>_. []) ''n.json'' empty_disk" by (rule notif_reach.start) (simp_all add: empty_disk_def)
  then have r: "notif_reach no_repeats account_service clear_crypter (\<lambda>_. []) ''n.json'' ?d"
    by (rule notif_reach.operation) (simp_all add: valid_utf8_ascii)
  have "nd_Dismissed (notif_load ''n.json'' ?d) = [''x'']" by code_simp
  with r notifications_bounded [OF r] show ?thesis by blast
qed

text \<open>
  An inbox that lists a new share k times adds k rows with one identifier: the loop tests the rows and
  tombstones from before the pass only.
\<close>

lemma insort_count: "count_list (map g (insort_key f x xs)) j = count_list (map g (x # xs)) j"
  by (induction xs) auto

lemma count_list_map_sort: "count_list (map nt_ID (sortByCreated ns)) j = count_list (map nt_ID ns) j"
  unfolding sortByCreated_def by (induction ns) (simp_all add: insort_count)

theorem ReconcileShares_repeats:
  assumes "reconcile_shares inbox x = Some y" "share_row_id i \<notin> set (nd_Dismissed x) \<union> nt_ID ` set (nd_Items x)"
  shows "count_list (map nt_ID (nd_Items y)) (share_row_id i) = count_list (map sh_ShareID inbox) i"
proof -
  obtain items where y: "nd_Items y = sortByCreated (items @ map share_row (added_shares inbox x))" "map nt_ID items = map nt_ID (nd_Items x)"
    using reconcile_shares_rows(2) [OF assms(1)] by blast
  have "share_row_id i \<notin> set (map nt_ID items)" using assms(2) unfolding y(2) by simp
  then have old: "count_list (map nt_ID items) (share_row_id i) = 0" by (simp add: count_list_0_iff)
  have new: "count_list (map nt_ID (map share_row (added_shares inbox x))) (share_row_id i) = count_list (map sh_ShareID inbox) i"
    using assms(2) unfolding added_shares_def by (induction inbox) auto
  have "count_list (map nt_ID (sortByCreated ns)) j = count_list (map nt_ID ns) j" for ns j
    by (simp add: count_list_map_sort)
  then show ?thesis unfolding y(1) using old new by simp
qed

lemma merge_raw_rows:
  fixes a b :: syncView
  defines "D \<equiv> set (vw_Dismissed a) \<union> set (vw_Dismissed b)"
  shows "row_flag (vw_Items (merge_raw a b)) i f \<longleftrightarrow> i \<notin> D \<and> (row_flag (vw_Items a) i f \<or> row_flag (vw_Items b) i f)"
    "vw_Dismissed (merge_raw a b) = sorted_list_of_set D"
    "nt_ID ` set (vw_Items (merge_raw a b)) = nt_ID ` (set (vw_Items a) \<union> set (vw_Items b)) - D"
proof -
  let ?D = "vw_Dismissed a @ vw_Dismissed b"
  have 1: "row_flag (vw_Items (merge_raw a b)) i f \<longleftrightarrow> i \<notin> D \<and> (row_flag (vw_Items a) i f \<or> row_flag (vw_Items b) i f)" for i f
    using row_flag_items [of "[]" ?D "vw_Items a" i f] row_flag_items [of "fold (merge_item ?D) (vw_Items a) []" ?D "vw_Items b" i f]
      row_flag_items [of "[]" ?D "vw_Items a"]
    by (auto simp: merge_raw_def Let_def row_flag_def D_def)
  then show "row_flag (vw_Items (merge_raw a b)) i f \<longleftrightarrow> i \<notin> D \<and> (row_flag (vw_Items a) i f \<or> row_flag (vw_Items b) i f)" .
  show "vw_Dismissed (merge_raw a b) = sorted_list_of_set D"
    by (simp add: merge_raw_def Let_def D_def sorted_list_of_set_sort_remdups [symmetric] del: set_append) simp
  have ids: "i \<in> nt_ID ` set ns \<longleftrightarrow> row_flag ns i Shown" for i ns by (auto simp: row_flag_def)
  show "nt_ID ` set (vw_Items (merge_raw a b)) = nt_ID ` (set (vw_Items a) \<union> set (vw_Items b)) - D"
    using 1 [of _ Shown] by (auto simp: set_eq_iff ids [symmetric] image_Un)
qed

text \<open>Sorted by creation, newest first: what is cut off is not newer than what stays.\<close>

lemma newest_kept:
  assumes "n \<in> set (take k (sortByCreated ns))" "x \<in> set (drop k (sortByCreated ns))"
  shows "instant (nt_CreatedAt x) \<le> instant (nt_CreatedAt n)"
proof -
  have "sorted (map (\<lambda>n. - instant (nt_CreatedAt n)) (take k (sortByCreated ns) @ drop k (sortByCreated ns)))"
    by (simp add: sortByCreated_def)
  then show ?thesis using assms unfolding map_append sorted_append by auto
qed

text \<open>
  C17. MergeNotifications: a row that is in the result was dismissed on neither side and has exactly the flags
  it has on one side or the other; every row of either side that neither dismissed is in the result, unless the
  result has the limit of 200 rows, and then no row left out is newer than one that is kept; the tombstones are
  those of both sides, of which the last 500 in the order of their identifiers are kept. Where neither limit is
  exceeded, the result has the union of what the two views know, flag by flag, so the order in which two devices
  merge does not matter, merging again changes nothing, and no flag that was set is lost.
\<close>

theorem MergeNotifications_converges:
  fixes a b :: syncView
  defines "D \<equiv> set (vw_Dismissed a) \<union> set (vw_Dismissed b)" and "ids \<equiv> nt_ID ` (set (vw_Items a) \<union> set (vw_Items b))"
    and "rows \<equiv> set (vw_Items (merge_raw a b))"
  assumes "parse_view l = Inr a" "parse_view r = Inr b" "MergeNotifications l r = Inr m"
  shows "\<exists>v. parse_view m = Inr v
    \<and> (\<forall>n\<in>set (vw_Items v). nt_ID n \<notin> D \<and> (\<forall>f. has_flag f n \<longleftrightarrow> row_flag (vw_Items a) (nt_ID n) f \<or> row_flag (vw_Items b) (nt_ID n) f))
    \<and> nt_ID ` rows = ids - D \<and> set (vw_Items v) \<subseteq> rows
    \<and> (rows \<noteq> set (vw_Items v) \<longrightarrow> length (vw_Items v) = maxNotifications
         \<and> (\<forall>n\<in>set (vw_Items v). \<forall>x\<in>rows - set (vw_Items v). instant (nt_CreatedAt x) \<le> instant (nt_CreatedAt n)))
    \<and> vw_Dismissed v = drop (card D - maxDismissed) (sorted_list_of_set D)
    \<and> (card (ids - D) \<le> maxNotifications \<and> card D \<le> maxDismissed \<longrightarrow>
         (\<forall>i f. vflag v (i, f) \<longleftrightarrow> vflag a (i, f) \<or> vflag b (i, f))
         \<and> vflag v = vflag (merge_raw b a) \<and> vflag (merge_raw v a) = vflag v \<and> vflag (merge_raw v b) = vflag v)"
proof -
  let ?w = "merge_raw a b"
  let ?v = "cap_view ?w"
  have "l \<noteq> [] \<and> r \<noteq> []"
    using assms(4,5) by (auto simp: parse_view_def unmarshal_def Unmarshal_def parse_json_def)
  then have mv: "marshal_view ?v = Inr m" using assms(4-6) by (simp add: MergeNotifications_def)
  note ok = merge_raw_ok [OF parse_view_wf [OF assms(4)] parse_view_wf [OF assms(5)]]
  have "view_ok ?w" using ok by (simp add: view_ok_def)
  then have p: "parse_view m = Inr ?v" using parse_marshal_view [OF mv] cap_view_ok(1) by (simp add: view_ok_def)
  have sub: "set (vw_Items ?v) \<subseteq> rows" by (auto simp: cap_view_def rows_def dest: in_set_takeD)
  note raw = merge_raw_rows [of a b, folded D_def]
  have flags: "has_flag f n \<longleftrightarrow> row_flag (vw_Items ?w) (nt_ID n) f" if "n \<in> rows" for n f
    using that ok(2) unfolding rows_def row_flag_def by (metis distinct_map inj_onD)
  have 1: "nt_ID n \<notin> D \<and> (\<forall>f. has_flag f n \<longleftrightarrow> row_flag (vw_Items a) (nt_ID n) f \<or> row_flag (vw_Items b) (nt_ID n) f)" if "n \<in> set (vw_Items ?v)" for n
  proof -
    have n: "n \<in> rows" using that sub by blast
    then have "nt_ID n \<notin> D" using raw(3) by (auto simp: rows_def)
    then show ?thesis using flags [OF n] raw(1) by blast
  qed
  have 2: "length (vw_Items ?v) = maxNotifications
         \<and> (\<forall>n\<in>set (vw_Items ?v). \<forall>x\<in>rows - set (vw_Items ?v). instant (nt_CreatedAt x) \<le> instant (nt_CreatedAt n))" if "rows \<noteq> set (vw_Items ?v)"
  proof -
    obtain ns where ns: "vw_Items ?w = sortByCreated ns" by (simp add: merge_raw_def Let_def)
    have "x \<in> set (drop maxNotifications (vw_Items ?w))" if "x \<in> rows - set (vw_Items ?v)" for x
      using that unfolding rows_def cap_view_def by (metis Diff_iff Un_iff append_take_drop_id set_append syncView.select_convs(1))
    then show ?thesis using that newest_kept [of _ maxNotifications ns] by (auto simp: rows_def cap_view_def ns)
  qed
  have 3: "vw_Dismissed ?v = drop (card D - maxDismissed) (sorted_list_of_set D)" by (simp add: cap_view_def raw(2))
  have 4: "(\<forall>i f. vflag ?v (i, f) \<longleftrightarrow> vflag a (i, f) \<or> vflag b (i, f)) \<and> vflag ?v = vflag (merge_raw b a)
      \<and> vflag (merge_raw ?v a) = vflag ?v \<and> vflag (merge_raw ?v b) = vflag ?v" if lim: "card (ids - D) \<le> maxNotifications" "card D \<le> maxDismissed"
  proof -
    have "length (vw_Items ?w) = card (ids - D)" using distinct_card [OF ok(2)] raw(3) by (simp add: ids_def)
    then have c: "?v = ?w" using lim raw(2) by (simp add: cap_view_def)
    show ?thesis unfolding c using notif_merge.merge_commutes [of a b] notif_merge.merge_idem(2) [of a b] notif_merge.view_merge [of a b]
      by (auto simp: fun_eq_iff notif_merge.view_merge max_def)
  qed
  show ?thesis using p 1 2 3 4 raw(3) sub unfolding rows_def ids_def by (intro exI [of _ ?v]) blast
qed

lemma sort_key_map: "(\<And>x. f (g x) = f x) \<Longrightarrow> sort_key f (map g xs) = map g (sort_key f xs)"
proof (induction xs)
  case (Cons x xs)
  have "insort_key f (g x) (map g ys) = map g (insort_key f x ys)" for ys
    by (induction ys) (simp_all add: Cons.prems)
  with Cons show ?case by simp
qed simp

lemma adopt_items:
  "stripHandled (nd_Items (cap_data (adopt mv cur))) = take maxNotifications (sortByCreated (stripHandled (vw_Items mv)))"
proof -
  let ?put = "\<lambda>n. if nt_ID n \<in> nt_ID ` {x \<in> set (nd_Items cur). nt_Handled x} then n\<lparr>nt_Handled := True\<rparr> else n"
  have s: "stripHandled (map ?put ns) = stripHandled ns" for ns by (simp add: stripHandled_def)
  have c: "stripHandled (sortByCreated ns) = sortByCreated (stripHandled ns)" for ns
    unfolding stripHandled_def sortByCreated_def by (rule sort_key_map [symmetric]) simp
  have t: "stripHandled (take k ns) = take k (stripHandled ns)" for k ns by (simp add: stripHandled_def take_map)
  show ?thesis by (simp add: cap_data_def adopt_def Let_def t c s)
qed

lemma Notif_Sync_result:
  assumes "Notif_Sync sv u rnd path edits (s, d) = ((s', d'), Inr ())" "\<And>c q. d_fault (edits d) c q = None"
  shows "\<exists>l merged mv. SealSource path d = Inr l \<and> SyncMergedBlob sv u rnd ''notifications'' l MergeNotifications s = (s', Inr merged)
    \<and> parse_view merged = Inr mv \<and> notif_load path d' = cap_data (adopt mv (notif_load path (edits d)))"
proof -
  obtain l merged mv where m: "SealSource path d = Inr l" "SyncMergedBlob sv u rnd ''notifications'' l MergeNotifications s = (s', Inr merged)"
      "parse_view merged = Inr mv" "notif_save path (adopt mv (notif_load path (edits d))) (edits d) = (d', Inr ())"
    using assms(1) unfolding Notif_Sync_def by (auto split: sum.splits prod.splits)
  have "wf_notifData (adopt mv (notif_load path (edits d)))" using adopt_wf parse_view_wf [OF m(3)] notif_load_wf by blast
  from notif_save_load(2) [OF m(4) this assms(2)] m show ?thesis by auto
qed

text \<open>
  C18. An edit made while Sync exchanges the blob is lost: the rows (up to the local flag Handled) and
  the tombstones after a successful Sync do not depend on what other operations did to the store
  between its two steps, although Sync loads the store again because of them. A row dismissed in that
  window is back, and its tombstone is gone.
\<close>

theorem Notif_Sync_overwrites_edits:
  assumes "Notif_Sync sv u rnd path edits (s, d) = ((s', d1), Inr ())" "Notif_Sync sv u rnd path (\<lambda>d. d) (s, d) = ((s'', d2), Inr ())"
    and "\<And>c q. d_fault d c q = None" "\<And>c q. d_fault (edits d) c q = None"
  shows "s' = s'' \<and> nd_Dismissed (notif_load path d1) = nd_Dismissed (notif_load path d2)
    \<and> stripHandled (nd_Items (notif_load path d1)) = stripHandled (nd_Items (notif_load path d2))"
proof -
  obtain l m mv where 1: "SealSource path d = Inr l" "SyncMergedBlob sv u rnd ''notifications'' l MergeNotifications s = (s', Inr m)" "parse_view m = Inr mv"
      "notif_load path d1 = cap_data (adopt mv (notif_load path (edits d)))"
    using Notif_Sync_result [OF assms(1,4)] by blast
  obtain l' m' mv' where 2: "SealSource path d = Inr l'" "SyncMergedBlob sv u rnd ''notifications'' l' MergeNotifications s = (s'', Inr m')" "parse_view m' = Inr mv'"
      "notif_load path d2 = cap_data (adopt mv' (notif_load path d))"
    using Notif_Sync_result [where edits = "\<lambda>d. d", OF assms(2)] assms(3) by auto
  have "s' = s''" "mv' = mv" using 1(1-3) 2(1-3) by auto
  moreover have "nd_Dismissed (cap_data (adopt mv a)) = nd_Dismissed (cap_data (adopt mv b))" for a b by (simp add: cap_data_def adopt_def Let_def)
  ultimately show ?thesis unfolding 1(4) 2(4) by (simp add: adopt_items)
qed

lemma first_push:
  "\<exists>s'. SyncMergedBlob account_service clear_crypter (\<lambda>_. []) name l merge new_account = (s', Inr l)"
proof -
  have "\<exists>s. SealBlob account_service clear_crypter [] name l 0 new_account = (s, Inr 1)"
    using account_seal [of clear_crypter "[]" l "''sealed'' @ l" 0 new_account name] by (simp add: clear_crypter_def new_account_def)
  moreover have "OpenBlob account_service clear_crypter name new_account = (new_account, Inl (APIError 404 ''not_found'' 0))"
    by (rule account_open_none) (simp add: new_account_def)
  moreover have m: "mergeBlobMaxAttempts = Suc 4" by (simp add: mergeBlobMaxAttempts_def)
  ultimately show ?thesis unfolding SyncMergedBlob_def m merge_attempts.simps(2) by (auto simp: IsNotFound_def has_status_def)
qed

definition one_row :: disk where
  "one_row = run_op (OpSeed zero_time ''s'' ''f'' 1 zero_time False) ''n.json'' empty_disk"

lemma one_row_facts:
  "\<And>c q. d_fault one_row c q = None" "map nt_ID (nd_Items (notif_load ''n.json'' one_row)) = [''share:s'']"
  "nd_Dismissed (notif_load ''n.json'' one_row) = []" "items_marshal (nd_Items (notif_load ''n.json'' one_row))"
proof -
  let ?op = "OpSeed zero_time ''s'' ''f'' 1 zero_time False"
  have i: "op_input ?op x" for x by (simp add: valid_utf8_ascii int64_def)
  have e: "notif_load ''n.json'' empty_disk = empty_notifData" by (simp add: notif_load_def ReadFile_def empty_disk_def)
  have f: "\<And>c q. d_fault empty_disk c q = None" by (simp add: empty_disk_def)
  obtain x where x: "op_fun ?op empty_notifData = Some x" "map nt_ID (nd_Items x) = [''share:s'']" "nd_Dismissed x = []" "items_marshal (nd_Items x)"
    by (simp add: seed_share_def empty_notifData_def share_row_id_def items_marshal_def)
  have w: "wf_notifData x" using op_fun_wf [OF _ x(1) i] by simp
  have c: "cap_data x = x" using x(2,3) by (auto simp: cap_data_def maxNotifications_def)
  obtain d r where s: "notif_save ''n.json'' x empty_disk = (d, r)" by (cases "notif_save ''n.json'' x empty_disk")
  have o: "one_row = d" using x(1) s e by (simp add: one_row_def run_op_modify modify_def del: op_fun.simps run_op.simps)
  note l = notif_save_load [OF s w f, unfolded c]
  have ld: "notif_load ''n.json'' one_row = x" using l(2,3) x(4) o by simp
  show "map nt_ID (nd_Items (notif_load ''n.json'' one_row)) = [''share:s'']" "nd_Dismissed (notif_load ''n.json'' one_row) = []"
    "items_marshal (nd_Items (notif_load ''n.json'' one_row))" using x(2-4) unfolding ld by auto
  show "\<And>c q. d_fault one_row c q = None" using l(1) f o by simp
qed


lemma sync_first:
  assumes "items_marshal (nd_Items (notif_load path d))" "\<And>c q. d_fault (edits d) c q = None"
  shows "\<exists>s' d'. Notif_Sync account_service clear_crypter (\<lambda>_. []) path edits (new_account, d) = ((s', d'), Inr ())
    \<and> stripHandled (nd_Items (notif_load path d')) = take maxNotifications (sortByCreated (stripHandled (nd_Items (notif_load path d))))
    \<and> nd_Dismissed (notif_load path d') = drop (length (nd_Dismissed (notif_load path d)) - maxDismissed) (nd_Dismissed (notif_load path d))"
proof -
  let ?x = "notif_load path d"
  let ?v = "\<lparr>vw_Items = stripHandled (nd_Items ?x), vw_Dismissed = nd_Dismissed ?x\<rparr>"
  have "items_marshal (stripHandled (nd_Items ?x))" using assms(1) by (simp add: items_marshal_def stripHandled_def list_all_iff)
  then obtain l where l: "SealSource path d = Inr l" by (simp add: SealSource_def marshal_view_def Let_def)
  note v = SealSource_view [OF l]
  obtain s' where s: "SyncMergedBlob account_service clear_crypter (\<lambda>_. []) ''notifications'' l MergeNotifications new_account = (s', Inr l)"
    using first_push by blast
  let ?y = "adopt ?v (notif_load path (edits d))"
  obtain d' r where sv: "notif_save path ?y (edits d) = (d', r)" by (cases "notif_save path ?y (edits d)")
  note w = adopt_wf [OF parse_view_wf [OF v] notif_load_wf [of path "edits d"]]
  have "\<forall>n\<in>set (nd_Items ?y). marshals (nt_CreatedAt n)"
    using assms(1) by (auto simp: adopt_def Let_def items_marshal_def stripHandled_def list_all_iff)
  then have "items_marshal (nd_Items (cap_data ?y))" by (auto simp: items_marshal_def cap_data_def list_all_iff dest: in_set_takeD)
  then have r: "r = Inr ()" using notif_save_load(3) [OF sv w assms(2)] by blast
  have load: "notif_load path d' = cap_data ?y" using notif_save_load(2) [OF sv w assms(2)] r by simp
  have ss: "stripHandled (stripHandled ns) = stripHandled ns" for ns by (simp add: stripHandled_def)
  have "Notif_Sync account_service clear_crypter (\<lambda>_. []) path edits (new_account, d) = ((s', d'), Inr ())"
    using l s v sv r by (simp add: Notif_Sync_def)
  then show ?thesis unfolding load using adopt_items [of ?v] by (auto simp: load ss cap_data_def adopt_def Let_def)
qed

theorem Notif_Sync_overwrites_edits_witness:
  "\<exists>s' d'. Notif_Sync account_service clear_crypter (\<lambda>_. []) ''n.json'' (\<lambda>d. fst (Dismiss ''n.json'' ''share:s'' d)) (new_account, one_row) = ((s', d'), Inr ())
     \<and> nd_Dismissed (notif_load ''n.json'' (fst (Dismiss ''n.json'' ''share:s'' one_row))) = [''share:s'']
     \<and> map nt_ID (nd_Items (notif_load ''n.json'' d')) = [''share:s''] \<and> nd_Dismissed (notif_load ''n.json'' d') = []"
proof -
  let ?p = "''n.json''" and ?i = "''share:s''"
  let ?e = "\<lambda>d. fst (Dismiss ?p ?i d)"
  note o = one_row_facts
  obtain d3 r where m: "modify ?p (dismiss ?i) one_row = (d3, r)" by (cases "modify ?p (dismiss ?i) one_row")
  define x where "x = notif_load ?p one_row"
  obtain y where y: "dismiss ?i x = Some y" "nd_Items y = []" "nd_Dismissed y = [?i]"
    using o(2,3) unfolding x_def [symmetric] by (auto simp: dismiss_def Let_def map_eq_Cons_conv)
  have w: "wf_notifData y" using op_fun_wf [of x "OpDismiss ?i" y] y(1) notif_load_wf by (simp add: x_def valid_utf8_ascii)
  have c: "cap_data y = y" using y(2,3) by (simp add: cap_data_def maxDismissed_def)
  have sv: "notif_save ?p y one_row = (d3, r)" using m y(1) by (simp add: modify_def x_def)
  note l = notif_save_load [OF sv w o(1), unfolded c]
  have e: "?e one_row = d3" using m by (simp add: Dismiss_def)
  have f: "\<And>c q. d_fault (?e one_row) c q = None" using l(1) o(1) e by simp
  have d3: "notif_load ?p (?e one_row) = y" using l(2,3) y(2) e by (simp add: items_marshal_def)
  obtain s1 d1 where s1: "Notif_Sync account_service clear_crypter (\<lambda>_. []) ?p ?e (new_account, one_row) = ((s1, d1), Inr ())"
    using sync_first [where edits = ?e, OF o(4) f] by blast
  obtain s2 d2 where s2: "Notif_Sync account_service clear_crypter (\<lambda>_. []) ?p (\<lambda>d. d) (new_account, one_row) = ((s2, d2), Inr ())"
      "stripHandled (nd_Items (notif_load ?p d2)) = take maxNotifications (sortByCreated (stripHandled (nd_Items x)))" "nd_Dismissed (notif_load ?p d2) = []"
    using sync_first [where edits = "\<lambda>d. d", OF o(4) o(1)] o(3) by (auto simp: x_def)
  note q = Notif_Sync_overwrites_edits [OF s1 s2(1) o(1) f]
  have ids: "map nt_ID (stripHandled ns) = map nt_ID ns" for ns by (simp add: stripHandled_def o_def)
  have "map nt_ID (stripHandled (nd_Items x)) = [?i]" unfolding ids using o(2) by (simp add: x_def)
  then obtain n where "stripHandled (nd_Items x) = [n]" "nt_ID n = ?i" by (auto simp: map_eq_Cons_conv)
  then have "map nt_ID (stripHandled (nd_Items (notif_load ?p d1))) = [?i]"
    using q s2(2) by (simp add: sortByCreated_def maxNotifications_def)
  then show ?thesis using s1 q s2(3) d3 y(3) unfolding ids by auto
qed


definition row_view :: "bytes \<Rightarrow> bool \<Rightarrow> syncView" where
  "row_view name seen = \<lparr>vw_Items = [zero_Notification\<lparr>nt_ID := ''a'', nt_FileName := name, nt_Seen := seen\<rparr>], vw_Dismissed = []\<rparr>"

lemma row_view_merge:
  "\<exists>l r m. parse_view l = Inr (row_view ''x'' b) \<and> parse_view r = Inr (row_view ''y'' c) \<and> MergeNotifications l r = Inr m"
  "merge_raw (row_view f b) (row_view g c) = row_view (if f = [] then g else f) (b \<or> c)"
proof -
  have m: "merge_raw (row_view f b) (row_view g c) = row_view (if f = [] then g else f) (b \<or> c)" for f g b c
    by (simp add: merge_raw_def row_view_def merge_item_def mergeRecord_def sortByCreated_def zero_Notification_def)
  show "merge_raw (row_view f b) (row_view g c) = row_view (if f = [] then g else f) (b \<or> c)" by (rule m)
  have wf: "wf_syncView (row_view name s)" if "ascii name" for name s
    using that by (simp add: row_view_def wf_syncView_def wf_Notification_def zero_Notification_def valid_utf8_ascii int64_def)
  have ms: "\<exists>bs. marshal_view (row_view name s) = Inr bs \<and> bs \<noteq> []" for name s
    using compact_obj_nonempty by (simp add: marshal_view_def row_view_def items_marshal_def zero_Notification_def enc_syncView_def)
  obtain l r where lr: "marshal_view (row_view ''x'' b) = Inr l" "marshal_view (row_view ''y'' c) = Inr r" "l \<noteq> []" "r \<noteq> []" using ms by blast
  have p: "parse_view l = Inr (row_view ''x'' b)" "parse_view r = Inr (row_view ''y'' c)"
    using parse_marshal_view lr(1,2) wf [of "''x''"] wf [of "''y''"] by simp_all
  have "cap_view (row_view name s) = row_view name s" for name s by (simp add: cap_view_def row_view_def maxNotifications_def)
  then have "\<exists>m. MergeNotifications l r = Inr m" using p lr(3,4) ms [of "''x''" "b \<or> c"] by (auto simp: MergeNotifications_def m)
  with p show "\<exists>l r m. parse_view l = Inr (row_view ''x'' b) \<and> parse_view r = Inr (row_view ''y'' c) \<and> MergeNotifications l r = Inr m" by blast
qed

theorem MergeNotifications_converges_witness:
  "\<exists>l r m v. parse_view l = Inr (row_view ''x'' False) \<and> parse_view r = Inr (row_view ''y'' True) \<and> MergeNotifications l r = Inr m
     \<and> parse_view m = Inr v \<and> vflag v (''a'', Seen)"
proof -
  let ?a = "row_view ''x'' False" and ?b = "row_view ''y'' True"
  obtain l r m where x: "parse_view l = Inr ?a" "parse_view r = Inr ?b" "MergeNotifications l r = Inr m"
    using row_view_merge(1) by blast
  have "card (nt_ID ` (set (vw_Items ?a) \<union> set (vw_Items ?b)) - (set (vw_Dismissed ?a) \<union> set (vw_Dismissed ?b))) \<le> maxNotifications
      \<and> card (set (vw_Dismissed ?a) \<union> set (vw_Dismissed ?b)) \<le> maxDismissed"
    by (simp add: row_view_def maxNotifications_def)
  then obtain v where "parse_view m = Inr v" "\<forall>i f. vflag v (i, f) \<longleftrightarrow> vflag ?a (i, f) \<or> vflag ?b (i, f)"
    using MergeNotifications_converges [OF x] by blast
  moreover have "vflag ?b (''a'', Seen)" by (simp add: vflag_def row_flag_def row_view_def)
  ultimately show ?thesis using x by blast
qed

text \<open>
  The documentation calls the merge commutative. It is so for the flags, but not for the content: where
  the two sides have different file names, senders or sizes, each side keeps its own.
\<close>

theorem merge_content_not_commutative:
  "merge_raw (row_view ''x'' False) (row_view ''y'' False) \<noteq> merge_raw (row_view ''y'' False) (row_view ''x'' False)"
  unfolding row_view_merge(2) by (simp add: row_view_def zero_Notification_def)

text \<open>
  The file is written in place: a write that fails after truncating it leaves a file that does not
  parse, load takes that for an empty store, and every tombstone is forgotten.
\<close>

theorem notif_save_torn:
  assumes "d_fault d SysMkdirAll (filepath_Dir path) = None" "d_fault d SysOpen path = None" "d_fault d SysWrite path = Some e" "d_short d = 0"
    and "items_marshal (nd_Items (cap_data x))"
  shows "\<exists>d'. notif_save path x d = (d', Inl (Wrap ''write'' e)) \<and> notif_load path d' = empty_notifData"
proof -
  have "Unmarshal (dec_struct notifData_fields) empty_notifData [] = (empty_notifData, False)"
    by (simp add: Unmarshal_def parse_json_def)
  then show ?thesis using assms
    by (auto simp: notif_save_def os_MkdirAll_def os_WriteFile_def Let_def notif_load_def ReadFile_def split: option.split)
qed

end
