(* ===== verification/Icfx_Sharing.thy ===== *)
theory Icfx_Sharing
  imports Icfx_Decrypt Icfx_Recipient
begin

text \<open>
  Package sharing and the transfers of src/cloud/share.go: an encrypted container is uploaded without
  its header and downloaded by those it is addressed to. The server and the object store are the
  parameter \<open>ShareService\<close>: the requests with their JSON (whose time stamps nobody reads are left
  out), PUT and GET of a URL with the status and, for GET, the body that is streamed back, and
  url.Parse as far as the code looks at its result (scheme and host). A progress callback only
  observes: SendEncrypted and its variant with a callback are one function here, as are the two
  variants of each download.
\<close>

section \<open>Requests and transfers\<close>

record ShareCreateInput =
  sc_RecipientFingerprints :: "bytes list"
  sc_ToSelf :: bool
  sc_TTL :: int
  sc_SingleUse :: bool
  sc_FileName :: bytes
  sc_FileSize :: int

record ShareCreateResult =
  sr_ShareID :: bytes
  sr_UploadURL :: bytes
  sr_UnreachableFingerprints :: "bytes list"

record ShareDownload =
  sd_URL :: bytes
  sd_ExpiresAt :: gotime
  sd_FileName :: bytes
  sd_FileSize :: int

record 's ShareService =
  ss_create :: "'s \<Rightarrow> ShareCreateInput \<Rightarrow> 's \<times> ShareCreateResult result"
  ss_finalize :: "'s \<Rightarrow> bytes \<Rightarrow> bool \<Rightarrow> 's \<times> unit result"
  ss_download :: "'s \<Rightarrow> bytes \<Rightarrow> 's \<times> ShareDownload result"
  ss_raw :: "'s \<Rightarrow> bytes \<Rightarrow> 's \<times> ShareDownload result"
  ss_put :: "'s \<Rightarrow> bytes \<Rightarrow> bytes \<Rightarrow> int \<Rightarrow> 's \<times> nat result"
  ss_get :: "'s \<Rightarrow> bytes \<Rightarrow> 's \<times> (nat \<times> stream) result"
  ss_parse :: "bytes \<Rightarrow> (bytes \<times> bytes) result"

definition validatePresignedURL :: "'s ShareService \<Rightarrow> bytes \<Rightarrow> unit result" where
  "validatePresignedURL sv raw =
     andthen (wrapping ''invalid presigned URL: %w'' (ss_parse sv raw)) (\<lambda>(scheme, host).
     if scheme \<noteq> ''https'' then Inl (Errorf ''refusing non-https presigned URL (scheme %q)'')
     else if host = [] then Inl (Errorf ''presigned URL has no host'')
     else Inr ())"

definition UploadStreamToPresignedURL :: "'s ShareService \<Rightarrow> bytes \<Rightarrow> bytes \<Rightarrow> int \<Rightarrow> 's \<Rightarrow> 's \<times> unit result" where
  "UploadStreamToPresignedURL sv presignedURL body sz s =
     sbind (s, validatePresignedURL sv presignedURL) (\<lambda>_ s.
     sbind (swrap ''upload: %w'' (ss_put sv s presignedURL body sz)) (\<lambda>status s.
     (s, if status div 100 \<noteq> 2 then Inl (Errorf ''upload: status %d: %s'') else Inr ())))"

definition FetchPresignedURL :: "'s ShareService \<Rightarrow> bytes \<Rightarrow> 's \<Rightarrow> 's \<times> stream result" where
  "FetchPresignedURL sv presignedURL s =
     sbind (s, validatePresignedURL sv presignedURL) (\<lambda>_ s.
     sbind (swrap ''download: %w'' (ss_get sv s presignedURL)) (\<lambda>(status, body) s.
     (s, if status div 100 \<noteq> 2 then Inl (Errorf ''download: status %d: %s'') else Inr body)))"

section \<open>Sending\<close>

record Recipient =
  rc_Lock :: bytes
  rc_Fingerprint :: bytes
  rc_Alias :: bytes

record SendOptions =
  so_TTL :: int
  so_SingleUse :: bool
  so_NoNotify :: bool
  so_ToSelf :: bool

record SendResult =
  sn_ShareID :: bytes
  sn_CiphertextBytes :: int
  sn_Warnings :: "Warning list"

text \<open>The file behind its rewritten prefix, and the size that is declared for it.\<close>

definition strip_header :: "stream \<Rightarrow> (bytes \<times> int) result" where
  "strip_header f =
     andthen (wrapping ''reading container header: %w'' (stream_ReadFull f HeaderPrefixLen)) (\<lambda>(head, _).
     andthen (wrapping ''preparing private container: %w'' (ParseHeaderPrefix head)) (\<lambda>(_, metaLen).
     andthen (ZeroMetaLen head) (\<lambda>head.
     Inr (head @ drop (HeaderPrefixLen + metaLen) (fst f), int (length (fst f)) - int metaLen))))"

text \<open>The map from fingerprints to aliases: the last recipient of a fingerprint wins.\<close>

definition unpublished_warning :: "(nat \<Rightarrow> nat) \<Rightarrow> Recipient list \<Rightarrow> bytes \<Rightarrow> Warning" where
  "unpublished_warning ulow to fp =
     (let found = (case find (\<lambda>r. ToLower ulow (rc_Fingerprint r) = ToLower ulow fp) (List.rev to) of
                     Some r \<Rightarrow> rc_Alias r | None \<Rightarrow> [])
      in ShareWarnUnpublished (if found = [] then fp else found))"

definition SendEncrypted ::
    "'s ShareService \<Rightarrow> (nat \<Rightarrow> nat) \<Rightarrow> disk \<Rightarrow> Recipient list \<Rightarrow> bytes \<Rightarrow> SendOptions \<Rightarrow> 's \<Rightarrow> 's \<times> SendResult result" where
  "SendEncrypted sv ulow d to ciphertextPath opts s =
     (let fps = filter (\<lambda>fp. fp \<noteq> []) (map rc_Fingerprint to) in
      if fps = [] \<and> \<not> so_ToSelf opts then (s, Inl (Errorf ''a share needs at least one recipient''))
      else
      sbind (s, wrapping ''open ciphertext: %w'' (os_Open d ciphertextPath)) (\<lambda>_ s.
      sbind (s, strip_header (file_stream d ciphertextPath)) (\<lambda>(body, sz) s.
      sbind (ss_create sv s \<lparr>sc_RecipientFingerprints = fps, sc_ToSelf = so_ToSelf opts, sc_TTL = so_TTL opts,
          sc_SingleUse = so_SingleUse opts, sc_FileName = filepath_Base ciphertextPath, sc_FileSize = sz\<rparr>) (\<lambda>created s.
      sbind (UploadStreamToPresignedURL sv (sr_UploadURL created) body sz s) (\<lambda>_ s.
      sbind (ss_finalize sv s (sr_ShareID created) (\<not> so_NoNotify opts)) (\<lambda>_ s.
      (s, Inr \<lparr>sn_ShareID = sr_ShareID created, sn_CiphertextBytes = sz,
               sn_Warnings = map (unpublished_warning ulow to) (sr_UnreachableFingerprints created)\<rparr>)))))))"

section \<open>Receiving\<close>

text \<open>The body is copied while it arrives: after an error the writer holds a beginning of it.\<close>

definition copy_share :: "'s ShareService \<Rightarrow> writer \<Rightarrow> 's \<times> ShareDownload result \<Rightarrow> ('s \<times> writer) \<times> ShareDownload result" where
  "copy_share sv w answer =
     (case answer of (s, Inl e) \<Rightarrow> ((s, w), Inl e)
      | (s, Inr dl) \<Rightarrow>
        (case FetchPresignedURL sv (sd_URL dl) s of (s', Inl e) \<Rightarrow> ((s', w), Inl e)
         | (s', Inr body) \<Rightarrow>
           (case io_Copy w body of (w', Inl e) \<Rightarrow> ((s', w'), Inl (Wrap ''downloading share: %w'' e))
            | (w', Inr _) \<Rightarrow> ((s', w'), Inr dl))))"

definition DownloadCiphertext :: "'s ShareService \<Rightarrow> bytes \<Rightarrow> 's \<times> writer \<Rightarrow> ('s \<times> writer) \<times> ShareDownload result" where
  "DownloadCiphertext sv shareID sw = (case sw of (s, w) \<Rightarrow> copy_share sv w (ss_download sv s shareID))"

definition DownloadRaw :: "'s ShareService \<Rightarrow> bytes \<Rightarrow> 's \<times> writer \<Rightarrow> ('s \<times> writer) \<times> ShareDownload result" where
  "DownloadRaw sv shareID sw = (case sw of (s, w) \<Rightarrow> copy_share sv w (ss_raw sv s shareID))"

text \<open>What a progress reader reports for the reads it passes on: the running count, and nothing for an empty read.\<close>

fun progressReader_Read :: "int \<Rightarrow> int \<Rightarrow> bytes list \<Rightarrow> (int \<times> int) list" where
  "progressReader_Read tot n [] = []"
| "progressReader_Read tot n (b # bs) =
     (if length b > 0 then (n + int (length b), tot) # progressReader_Read tot (n + int (length b)) bs
      else progressReader_Read tot n bs)"

definition ReceiveName :: "bytes \<Rightarrow> bytes \<Rightarrow> bytes" where
  "ReceiveName declared shareID =
     (let name = TrimSuffix (filepath_Base (TrimSpace declared)) ''.icfx''
      in if name = [] \<or> name = ''.'' \<or> name = ''..'' \<or> name = ''/'' then ''share-'' @ shareID else name)"

definition ShareIDFromLink :: "bytes \<Rightarrow> bytes" where
  "ShareIDFromLink link =
     (let s = TrimSpace (List.rev (dropWhile (\<lambda>c. c = CHR ''/'') (List.rev link)))
      in List.rev (takeWhile (\<lambda>c. c \<noteq> CHR ''/'') (List.rev s)))"

section \<open>Lemmas\<close>

lemma strip_header_container:
  assumes "Valid p" "length raw < 65536"
  shows "strip_header (stream_container p raw payload sig @ rest, e)
     = Inr (stream_container p [] payload sig @ rest, int (length (stream_container p [] payload sig @ rest)))"
proof -
  let ?head = "\<lambda>n. MagicBytes @ [char_of (unat p)] @ put_uint16 (of_nat n)"
  let ?tail = "put_uint64 (of_nat (length payload)) @ payload @ put_uint16 (of_nat (length sig)) @ sig @ rest"
  have dat: "stream_container p h payload sig @ rest = ?head (length h) @ h @ ?tail" for h
    by (simp add: stream_container_def stream_prefix_def)
  have len: "length (?head n) = 7" for n by simp
  have "ParseHeaderPrefix (?head (length raw)) = Inr (p, length raw)"
    using ParseHeaderPrefix_layout [OF assms, of "[]"] by simp
  moreover have "ZeroMetaLen (?head (length raw)) = Inr (?head 0)"
    by (simp add: ZeroMetaLen_def HeaderPrefixLen_def)
  moreover have "stream_ReadFull (?head (length raw) @ raw @ ?tail, e) 7 = Inr (?head (length raw), (raw @ ?tail, e))"
    using len [of "length raw"] by (simp add: stream_ReadFull_def)
  moreover have "drop (7 + length raw) (?head (length raw) @ raw @ ?tail) = ?tail"
    using take_drop_exact(2) [of "?head (length raw) @ raw" "7 + length raw" ?tail] by simp
  ultimately show ?thesis by (simp add: strip_header_def dat HeaderPrefixLen_def)
qed

text \<open>A share that was sent: what was stored, and how it was announced.\<close>

lemma SendEncrypted_ok:
  assumes "SendEncrypted sv ulow d to path opts s = (s', Inr res)"
  obtains body fps s1 created s2 st where
    "strip_header (file_stream d path) = Inr (body, sn_CiphertextBytes res)" "os_Open d path = Inr ()"
    "fps = filter (\<lambda>fp. fp \<noteq> []) (map rc_Fingerprint to)" "fps \<noteq> [] \<or> so_ToSelf opts"
    "ss_create sv s \<lparr>sc_RecipientFingerprints = fps, sc_ToSelf = so_ToSelf opts, sc_TTL = so_TTL opts,
      sc_SingleUse = so_SingleUse opts, sc_FileName = filepath_Base path, sc_FileSize = sn_CiphertextBytes res\<rparr> = (s1, Inr created)"
    "ss_put sv s1 (sr_UploadURL created) body (sn_CiphertextBytes res) = (s2, Inr st)" "st div 100 = 2"
    "validatePresignedURL sv (sr_UploadURL created) = Inr ()"
    "ss_finalize sv s2 (sr_ShareID created) (\<not> so_NoNotify opts) = (s', Inr ())"
    "sn_ShareID res = sr_ShareID created"
    "sn_Warnings res = map (unpublished_warning ulow to) (sr_UnreachableFingerprints created)"
  using assms that
  by (auto simp: SendEncrypted_def Let_def sbind_Inr_iff UploadStreamToPresignedURL_def split: if_splits)

lemma copy_share_ok:
  assumes "copy_share sv w answer = ((s', w'), Inr dl)"
  obtains s st b where "answer = (s, Inr dl)" "ss_get sv s (sd_URL dl) = (s', Inr (st, (b, None)))" "st div 100 = 2"
    "validatePresignedURL sv (sd_URL dl) = Inr ()" "w_out w' = w_out w @ b"
  using assms that
  by (auto simp: copy_share_def FetchPresignedURL_def sbind_Inr_iff io_Copy_ok dest!: Write_ok split: prod.splits sum.splits if_splits)

lemma TrimSuffix_cases: "\<exists>k. TrimSuffix s suf = take k s"
  by (auto simp: TrimSuffix_def intro: exI [of _ "length s"])

lemma TrimSuffix_append [simp]: "TrimSuffix (s @ suf) suf = s"
  by (simp add: TrimSuffix_def HasSuffix_iff)

lemma ReceiveName_component:
  assumes "CHR ''/'' \<notin> set shareID"
  shows "component_ok (ReceiveName declared shareID)"
proof -
  let ?b = "filepath_Base (TrimSpace declared)"
  obtain k where k: "TrimSuffix ?b ''.icfx'' = take k ?b" using TrimSuffix_cases by blast
  have "CHR ''/'' \<notin> set (take k ?b)" if "take k ?b \<noteq> []" "take k ?b \<noteq> ''/''"
    using filepath_Base_no_sep [of "TrimSpace declared"] that by (cases k) (auto dest: in_set_takeD)
  then show ?thesis using assms by (auto simp: ReceiveName_def Let_def component_ok_def k)
qed

lemma share_name_kept:
  assumes "component_ok n" "TrimSpace (n @ ''.icfx'') = n @ ''.icfx''"
  shows "ReceiveName (filepath_Base (filepath_Join dir (n @ ''.icfx''))) shareID = n"
proof -
  have c: "component_ok (n @ ''.icfx'')" using assms(1) by (auto simp: component_ok_def append_eq_Cons_conv)
  have b: "filepath_Base (a @ n @ ''.icfx'') = n @ ''.icfx''" if "a = [] \<or> last a = CHR ''/''" for a
    using filepath_Base_component [OF _ _ that, of "n @ ''.icfx''"] c by (simp add: component_ok_def)
  have "filepath_Base (filepath_Join dir (n @ ''.icfx'')) = n @ ''.icfx''"
    unfolding filepath_Join_component [OF c] by (rule b [OF dir_prefix_last])
  moreover have "filepath_Base (n @ ''.icfx'') = n @ ''.icfx''" using b [of "[]"] by simp
  ultimately show ?thesis using assms by (auto simp: ReceiveName_def component_ok_def)
qed

section \<open>Properties\<close>

text \<open>
  What is relied on of the service: an upload URL belongs to the share it was made for, what was put
  there is what the share holds, finalizing keeps it, and a download that ends without an error is it.
\<close>

definition share_service :: "'s ShareService \<Rightarrow> ('s \<Rightarrow> bytes \<Rightarrow> bytes option) \<Rightarrow> ('s \<Rightarrow> bytes \<Rightarrow> bytes option) \<Rightarrow> bool" where
  "share_service sv slot stored \<longleftrightarrow>
     (\<forall>s inp s' r. ss_create sv s inp = (s', Inr r) \<longrightarrow> slot s' (sr_UploadURL r) = Some (sr_ShareID r))
   \<and> (\<forall>s url i body n s' st. slot s url = Some i \<longrightarrow> ss_put sv s url body n = (s', Inr st) \<longrightarrow> st div 100 = 2 \<longrightarrow> stored s' i = Some body)
   \<and> (\<forall>s i b s'. ss_finalize sv s i b = (s', Inr ()) \<longrightarrow> stored s' i = stored s i)
   \<and> (\<forall>s i s1 dl s2 st b. ss_download sv s i = (s1, Inr dl) \<longrightarrow> ss_get sv s1 (sd_URL dl) = (s2, Inr (st, (b, None))) \<longrightarrow> st div 100 = 2
        \<longrightarrow> stored s i = Some b)"

lemma SendEncrypted_stores:
  assumes "share_service sv slot stored" "SendEncrypted sv ulow d to path opts s = (s', Inr res)"
    and "strip_header (file_stream d path) = Inr (body, n)"
  shows "stored s' (sn_ShareID res) = Some body" "sn_CiphertextBytes res = n"
proof -
  obtain body' created s1 s2 st inp where a: "strip_header (file_stream d path) = Inr (body', sn_CiphertextBytes res)"
    and up: "ss_create sv s inp = (s1, Inr created)"
      "ss_put sv s1 (sr_UploadURL created) body' (sn_CiphertextBytes res) = (s2, Inr st)" "st div 100 = 2"
      "ss_finalize sv s2 (sr_ShareID created) (\<not> so_NoNotify opts) = (s', Inr ())"
    and res: "sn_ShareID res = sr_ShareID created"
    by (rule SendEncrypted_ok [OF assms(2)]) (rule that)
  have b: "body' = body" "sn_CiphertextBytes res = n" using a assms(3) by simp_all
  have "stored s2 (sr_ShareID created) = Some body"
    using assms(1) up(1-3) unfolding share_service_def b by metis
  then show "stored s' (sn_ShareID res) = Some body"
    using assms(1) up(4) res unfolding share_service_def by metis
  show "sn_CiphertextBytes res = n" by (rule b(2))
qed

lemma DownloadCiphertext_stored:
  assumes "share_service sv slot stored" "DownloadCiphertext sv i (s, w) = ((s', w'), Inr dl)"
  shows "\<exists>b. stored s i = Some b \<and> w_out w' = w_out w @ b"
  using assms(2) unfolding DownloadCiphertext_def prod.case
  by (rule copy_share_ok) (use assms(1) in \<open>auto simp: share_service_def\<close>)

text \<open>
  C11. A shared file arrives: a file that was encrypted, sent as a share and downloaded while the share
  holds what was uploaded decrypts for each recipient to the original content, with the verdict it
  would have had without the detour: signed by a known contact, it verifies as that contact although
  the header was removed. The size that was declared is the size that arrives.
\<close>

theorem share_received:
  assumes "age_correct P" "mldsa_correct P" "mldsa_nonempty P" "wf_Metadata meta" "share_service sv slot stored"
    and "\<And>c q. d_fault d c q = None" "d_files d inPath = Some pt" "inPath \<noteq> midPath"
    and "EncryptFile P rnd (\<lambda>_. None) d inPath midPath rs signer meta p = (d1, Inr ())"
    and "d_files d1 midPath = Some icfx" "int (length icfx) \<le> MaxInt64"
    and "SendEncrypted sv ulow d1 to midPath opts s = (s1, Inr res)"
    and "stored s2 (sn_ShareID res) = stored s1 (sn_ShareID res)"
    and "DownloadCiphertext sv (sn_ShareID res) (s2, new_buffer) = ((s3, w), Inr dl)"
    and "open_enc P u = Inr key" "ParseHybridIdentity P key = Inr i" "Recipient_String P i \<in> set rs"
    and "IsSigned meta \<Longrightarrow> signer = Some su \<and> open_sig P su = Inr priv \<and> mldsa_PrivUnmarshal P priv = Inr k
      \<and> c \<in> set cs \<and> ct_Fingerprint c = id_Fingerprint (u_info su) \<and> ct_SignPubKey c = b64_encode (mldsa_Public P k)"
  shows "sn_CiphertextBytes res = int (length (w_out w))
    \<and> (\<exists>v. DecryptAndVerify P ufold (w_out w) u cs = Inr (pt, v)
      \<and> (if IsSigned meta then vr_Status v = VerifyOK \<and> vr_SignerFP v = id_Fingerprint (u_info su)
         else v = status_result VerifyUnsigned []))"
proof -
  from assms(9) EncryptFile_clean [OF assms(6-8), of P rnd "\<lambda>_. None" rs signer meta p]
  obtain e where e: "encrypt_EncryptStream P rnd (\<lambda>_. None) new_buffer (pt, None) rs signer meta p = (e, Inr ())"
      "d1 = d\<lparr>d_files := (d_files d)(midPath \<mapsto> w_out e)\<rparr>"
    by (cases "encrypt_EncryptStream P rnd (\<lambda>_. None) new_buffer (pt, None) rs signer meta p";
        cases "snd (encrypt_EncryptStream P rnd (\<lambda>_. None) new_buffer (pt, None) rs signer meta p)") (auto split: if_splits)
  have "int (length (w_out e)) \<le> MaxInt64" using assms(10,11) e(2) by simp
  from encrypt_decrypt_header [OF assms(1-4) e(1) this assms(15-18), of ufold]
  obtain raw payload sig where c: "w_out e = stream_container p raw payload sig" "length raw < 65536" "Valid p"
    and dec: "\<exists>v. DecryptAndVerify P ufold (stream_container p [] payload sig) u cs = Inr (pt, v)
      \<and> (if IsSigned meta then vr_Status v = VerifyOK \<and> vr_SignerFP v = id_Fingerprint (u_info su)
         else v = status_result VerifyUnsigned [])"
    by metis
  have "file_stream d1 midPath = (stream_container p raw payload sig @ [], None)"
    using assms(6) e(2) c(1) by (simp add: file_stream_def)
  then have "strip_header (file_stream d1 midPath)
      = Inr (stream_container p [] payload sig, int (length (stream_container p [] payload sig)))"
    using strip_header_container [OF c(3,2), of payload sig "[]"] by simp
  note sent = SendEncrypted_stores [OF assms(5,12) this]
  from DownloadCiphertext_stored [OF assms(5,14)] sent(1) assms(13)
  have "w_out w = stream_container p [] payload sig" by simp
  then show ?thesis using sent(2) dec by simp
qed

text \<open>
  C12. Nothing of the header leaves the machine: whatever service is on the other side, sending a
  container makes exactly the requests, with exactly the bytes, sizes and results, that sending the
  container with any other header or none would make. So neither server nor object store learns the
  file name and sender that a public container carries in its header.
\<close>

theorem SendEncrypted_header_independent:
  assumes "Valid p" "length raw < 65536" "length raw' < 65536" "d_files d path = Some (stream_container p raw payload sig)"
  shows "SendEncrypted sv ulow (d\<lparr>d_files := (d_files d)(path \<mapsto> stream_container p raw' payload sig)\<rparr>) to path opts s
     = SendEncrypted sv ulow d to path opts s"
proof -
  let ?d = "d\<lparr>d_files := (d_files d)(path \<mapsto> stream_container p raw' payload sig)\<rparr>"
  have "strip_header (stream_container p h payload sig, None)
      = Inr (stream_container p [] payload sig, int (length (stream_container p [] payload sig)))" if "length h < 65536" for h
    using strip_header_container [OF assms(1) that, of payload sig "[]"] by simp
  then have "strip_header (file_stream ?d path) = strip_header (file_stream d path)"
    using assms(2-4) by (simp add: file_stream_def split: option.split)
  moreover have "os_Open ?d path = os_Open d path" using assms(4) by (simp add: os_Open_def split: option.split)
  ultimately show ?thesis unfolding SendEncrypted_def by (simp only:)
qed

text \<open>
  The name under which a share is saved is one path component, whatever name the sender declared:
  joined to a directory it is a file directly in it. This needs a share identifier without a slash. A
  file sent from any directory is received under its own name.
\<close>

theorem ReceiveName_safe:
  "(CHR ''/'' \<notin> set shareID \<longrightarrow> component_ok (ReceiveName declared shareID)
      \<and> filepath_Join dir (ReceiveName declared shareID) = dir_prefix dir @ ReceiveName declared shareID)
   \<and> (component_ok n \<and> TrimSpace (n @ ''.icfx'') = n @ ''.icfx''
      \<longrightarrow> ReceiveName (filepath_Base (filepath_Join dir (n @ ''.icfx''))) shareID = n)"
  using ReceiveName_component filepath_Join_component share_name_kept by blast

text \<open>
  The share identifier is put into the name as it is: where the declared name gives nothing, an
  identifier with slashes leads out of the directory.
\<close>

theorem ReceiveName_id_unchecked:
  "filepath_Join ''/home/me/inbox'' (ReceiveName [] ''x/../../.profile'') = ''/home/me/.profile''"
  by (simp add: ReceiveName_def filepath_Base_def TrimSpace_def runes.simps TrimSuffix_def HasSuffix_def
      filepath_Join_def Clean_def clean_parts_def clean_step_def HasPrefix_def)

text \<open>A link gives the identifier it ends with, slashes after it or not; a space after such a slash gives none.\<close>

lemma ShareIDFromLink_link:
  assumes "CHR ''/'' \<notin> set i" "i \<noteq> []" "TrimSpace (a @ i) = a @ i" "a = [] \<or> last a = CHR ''/''"
  shows "ShareIDFromLink (a @ i @ replicate k (CHR ''/'')) = i"
proof -
  have "last i \<noteq> CHR ''/''" using assms(1,2) by (metis last_in_set)
  then obtain x xs where x: "List.rev i = x # xs" "x \<noteq> CHR ''/''"
    using assms(2) by (cases "List.rev i") (auto simp: last_rev hd_rev [symmetric])
  have "dropWhile (\<lambda>c. c = CHR ''/'') (List.rev (a @ i @ replicate k (CHR ''/''))) = List.rev (a @ i)"
    unfolding rev_append rev_replicate append_assoc using x(2) by (subst dropWhile_append2) (simp_all add: x(1))
  moreover have "takeWhile (\<lambda>c. c \<noteq> CHR ''/'') (List.rev i @ List.rev a) = List.rev i"
  proof -
    have "takeWhile (\<lambda>c. c \<noteq> CHR ''/'') (List.rev a) = []" using assms(4) by (cases a rule: rev_cases) auto
    then show ?thesis using assms(1) by (subst takeWhile_append2) auto
  qed
  ultimately show ?thesis using assms(3) by (simp add: ShareIDFromLink_def Let_def)
qed

lemma ShareIDFromLink_slash_space: "ShareIDFromLink ''https://x/v1/share/7/ '' = []"
  by (simp add: ShareIDFromLink_def Let_def TrimSpace_ascii ascii_def is_space_def)

section \<open>A sample\<close>

text \<open>A service with room for one share.\<close>

definition one_share :: "bytes option ShareService" where
  "one_share = \<lparr>
     ss_create = (\<lambda>s inp. (s, Inr \<lparr>sr_ShareID = ''1'', sr_UploadURL = ''u'', sr_UnreachableFingerprints = []\<rparr>)),
     ss_finalize = (\<lambda>s i b. (s, Inr ())),
     ss_download = (\<lambda>s i. (s, if i = ''1'' then Inr \<lparr>sd_URL = ''u'', sd_ExpiresAt = zero_time, sd_FileName = [], sd_FileSize = 0\<rparr> else Inl (Errorf ''403''))),
     ss_raw = (\<lambda>s i. (s, Inl (Errorf ''403''))),
     ss_put = (\<lambda>s url body n. (Some body, Inr 200)),
     ss_get = (\<lambda>s url. (s, case s of None \<Rightarrow> Inr (404, ([], None)) | Some b \<Rightarrow> Inr (200, (b, None)))),
     ss_parse = (\<lambda>url. Inr (''https'', ''store''))\<rparr>"

definition one_slot :: "bytes option \<Rightarrow> bytes \<Rightarrow> bytes option" where
  "one_slot s url = (if url = ''u'' then Some ''1'' else None)"

definition one_stored :: "bytes option \<Rightarrow> bytes \<Rightarrow> bytes option" where
  "one_stored s i = (if i = ''1'' then s else None)"

lemma one_share_service: "share_service one_share one_slot one_stored"
  by (auto simp: share_service_def one_share_def one_slot_def one_stored_def split: if_splits option.splits)

lemma EncryptFile_strips:
  assumes "\<And>c q. d_fault d c q = None" "d_files d inPath = Some pt" "inPath \<noteq> midPath"
    and "EncryptFile P rnd tmp d inPath midPath rs signer meta p = (d1, Inr ())"
  shows "\<exists>b n. strip_header (file_stream d1 midPath) = Inr (b, n) \<and> os_Open d1 midPath = Inr ()"
proof -
  from assms(4) EncryptFile_clean [OF assms(1-3), of P rnd tmp rs signer meta p]
  obtain e where e: "encrypt_EncryptStream P rnd tmp new_buffer (pt, None) rs signer meta p = (e, Inr ())"
      "d1 = d\<lparr>d_files := (d_files d)(midPath \<mapsto> w_out e)\<rparr>"
    by (cases "encrypt_EncryptStream P rnd tmp new_buffer (pt, None) rs signer meta p") (auto split: if_splits)
  from e(1) obtain raw payload sig where "w_out e = stream_container p raw payload sig" "length raw < 65536" "Valid p"
    by (rule encrypt_ok) (auto simp: profile_preds intro: that)
  then show ?thesis
    using strip_header_container [of p raw payload sig "[]" None] assms(1) e(2) by (simp add: file_stream_def os_Open_def)
qed

definition sample_options :: SendOptions where
  "sample_options = \<lparr>so_TTL = 0, so_SingleUse = False, so_NoNotify = False, so_ToSelf = True\<rparr>"

theorem share_received_witness:
  "\<exists>d1 s1 res s3 w dl v. SendEncrypted one_share id d1 [] ''a.icfx'' sample_options None = (s1, Inr res)
     \<and> DownloadCiphertext one_share (sn_ShareID res) (s1, new_buffer) = ((s3, w), Inr dl)
     \<and> DecryptAndVerify toy_prims (\<lambda>_ _. False) (w_out w) sample_reader [sample_contact] = Inr (''hi'', v) \<and> vr_Status v = VerifyOK"
proof -
  let ?d = "empty_disk\<lparr>d_files := [''a'' \<mapsto> ''hi'']\<rparr>" and ?meta = "sample_meta\<lparr>SenderFingerprint := []\<rparr>"
  obtain d1 icfx where d1: "EncryptFile toy_prims [] (\<lambda>_. None) ?d ''a'' ''a.icfx'' [''age1pq1eve''] (Some sample_signer)
      ?meta ProfilePublic = (d1, Inr ())" "d_files d1 ''a.icfx'' = Some icfx" "int (length icfx) \<le> MaxInt64"
    using sample_encrypt_file by blast
  have f: "d_fault ?d c q = None" "d_files ?d ''a'' = Some ''hi''" "''a'' \<noteq> ''a.icfx''" for c q by (simp_all add: empty_disk_def)
  obtain b n where strip: "strip_header (file_stream d1 ''a.icfx'') = Inr (b, n)" "os_Open d1 ''a.icfx'' = Inr ()"
    using EncryptFile_strips [OF f d1(1)] by blast
  have sent: "SendEncrypted one_share id d1 [] ''a.icfx'' sample_options None
      = (Some b, Inr \<lparr>sn_ShareID = ''1'', sn_CiphertextBytes = n, sn_Warnings = []\<rparr>)" (is "_ = (_, Inr ?res)")
    by (simp add: SendEncrypted_def strip sample_options_def one_share_def UploadStreamToPresignedURL_def validatePresignedURL_def)
  have got: "\<exists>dl. DownloadCiphertext one_share (sn_ShareID ?res) (Some b, new_buffer) = ((Some b, new_buffer\<lparr>w_out := b\<rparr>), Inr dl)"
    by (simp add: DownloadCiphertext_def copy_share_def one_share_def FetchPresignedURL_def validatePresignedURL_def io_Copy_def)
  then obtain dl where got: "DownloadCiphertext one_share (sn_ShareID ?res) (Some b, new_buffer) = ((Some b, new_buffer\<lparr>w_out := b\<rparr>), Inr dl)" ..
  have m: "wf_Metadata ?meta" "IsSigned ?meta"
    by (simp_all add: wf_Metadata_def sample_meta_def wf_time_def zero_time_def days_in_def leap_def valid_utf8_ascii ascii_def)
  have r: "open_enc toy_prims sample_reader = Inr ''AGE-SECRET-KEY-PQ-1eve''"
      "ParseHybridIdentity toy_prims ''AGE-SECRET-KEY-PQ-1eve'' = Inr ''AGE-SECRET-KEY-PQ-1eve''"
      "Recipient_String toy_prims ''AGE-SECRET-KEY-PQ-1eve'' \<in> set [''age1pq1eve'']"
    by (simp_all add: open_enc_def sample_reader_def toy_prims_def HasPrefix_def)
  have s: "open_sig toy_prims sample_signer = Inr ''pub''" "mldsa_PrivUnmarshal toy_prims ''pub'' = Inr ''pub''"
      "mldsa_Public toy_prims ''pub'' = ''pub''" "id_Fingerprint (u_info sample_signer) = sample_fp"
    by (simp_all add: open_sig_def sample_signer_def toy_prims_def)
  from share_received [OF toy_laws(1,3) toy_mldsa_nonempty m(1) one_share_service f d1 sent refl got r,
      where su = sample_signer and priv = "''pub''" and k = "''pub''" and c = sample_contact and cs = "[sample_contact]" and ufold = "\<lambda>_ _. False"]
  obtain v where "DecryptAndVerify toy_prims (\<lambda>_ _. False) b sample_reader [sample_contact] = Inr (''hi'', v)" "vr_Status v = VerifyOK"
    using m(2) s by (auto simp: sample_contact_def)
  then have "DecryptAndVerify toy_prims (\<lambda>_ _. False) (w_out (new_buffer\<lparr>w_out := b\<rparr>)) sample_reader [sample_contact] = Inr (''hi'', v)
    \<and> vr_Status v = VerifyOK" by simp
  with sent got show ?thesis by blast
qed

theorem SendEncrypted_header_independent_witness:
  "\<exists>d. d_files d ''f'' = Some (stream_container ProfilePublic ''hh'' ''p'' [])
     \<and> SendEncrypted one_share id (d\<lparr>d_files := (d_files d)(''f'' \<mapsto> stream_container ProfilePublic [] ''p'' [])\<rparr>) [] ''f'' sample_options None
     = SendEncrypted one_share id d [] ''f'' sample_options None"
  using SendEncrypted_header_independent [of ProfilePublic "''hh''" "[]" "empty_disk\<lparr>d_files := [''f'' \<mapsto> stream_container ProfilePublic ''hh'' ''p'' []]\<rparr>"
      "''f''" "''p''" "[]" one_share id "[]" sample_options None]
  by (intro exI [of _ "empty_disk\<lparr>d_files := [''f'' \<mapsto> stream_container ProfilePublic ''hh'' ''p'' []]\<rparr>"]) (simp add: profile_preds)

theorem ReceiveName_safe_witness:
  "component_ok (ReceiveName ''../../x'' ''7'') \<and> ReceiveName (filepath_Base (filepath_Join ''/d'' (''r'' @ ''.icfx''))) ''7'' = ''r''"
  using ReceiveName_safe [of "''7''" "''../../x''" "''/d''" "''r''"]
  by (simp add: component_ok_def TrimSpace_ascii ascii_def is_space_def)

end
