(* ===== verification/Icfx_Config.thy ===== *)
theory Icfx_Config
  imports Icfx_Files Icfx_Base64
begin

text \<open>
  Package config: the directories of the program (paths.go) and the configuration file (config.go).
  The environment, with the directory overrides that are package variables, is the record \<open>env\<close>; the
  TOML library is the parameter \<open>Toml\<close>; url.Parse (scheme and host name) and net.ParseIP (whether the
  text is an address, and of the loopback) are the parameter \<open>Net\<close>. Paths are Unix paths; filepath.Join
  of Windows is a field of the environment that only the branch for Windows uses.
\<close>

section \<open>Directories\<close>

record env =
  env_GOOS :: bytes
  env_APPDATA :: bytes
  env_XDG_CONFIG_HOME :: bytes
  env_XDG_DATA_HOME :: bytes
  env_UserHomeDir :: "bytes result"
  env_TempDir :: bytes
  env_winJoin :: "bytes \<Rightarrow> bytes \<Rightarrow> bytes"
  configDirOverride :: bytes
  dataPathOverride :: bytes
  keyPathOverride :: bytes
  tempDirOverride :: bytes

definition ErrPathUnset :: go_error where
  "ErrPathUnset = Sentinel ''config: path not set; call SetConfigDir/SetDataPath/SetKeyPath before use''"

definition SetConfigDir :: "bytes \<Rightarrow> env \<Rightarrow> env" where "SetConfigDir p E = E\<lparr>configDirOverride := p\<rparr>"

definition SetTempPath :: "bytes \<Rightarrow> env \<Rightarrow> env" where "SetTempPath p E = E\<lparr>tempDirOverride := p\<rparr>"

definition SetDataPath :: "bytes \<Rightarrow> env \<Rightarrow> env" where "SetDataPath p E = E\<lparr>dataPathOverride := p\<rparr>"

definition SetKeyPath :: "bytes \<Rightarrow> env \<Rightarrow> env" where "SetKeyPath p E = E\<lparr>keyPathOverride := p\<rparr>"

definition TempDir :: "env \<Rightarrow> bytes" where
  "TempDir E = (if tempDirOverride E \<noteq> [] then tempDirOverride E else env_TempDir E)"

definition mobile :: "env \<Rightarrow> bool" where
  "mobile E \<longleftrightarrow> env_GOOS E = ''android'' \<or> env_GOOS E = ''ios''"

definition home_path :: "env \<Rightarrow> bytes \<Rightarrow> bytes result" where
  "home_path E sub = andthen (wrapping ''resolving home directory: %w'' (env_UserHomeDir E)) (\<lambda>home. Inr (filepath_Join home sub))"

definition DefaultConfigDir :: "env \<Rightarrow> bytes result" where
  "DefaultConfigDir E =
     (if mobile E then Inl (Wrap ''DefaultConfigDir on %s: %w'' ErrPathUnset)
      else if env_GOOS E = ''windows'' then
        (if env_APPDATA E = [] then Inl (Errorf ''DefaultConfigDir: APPDATA env var not set'')
         else Inr (env_winJoin E (env_winJoin E (env_APPDATA E) ''icfx'') ''config''))
      else if env_XDG_CONFIG_HOME E \<noteq> [] then Inr (filepath_Join (env_XDG_CONFIG_HOME E) ''icfx'')
      else home_path E ''.config/icfx'')"

definition DefaultDataDir :: "env \<Rightarrow> bytes result" where
  "DefaultDataDir E =
     (if mobile E then Inl (Wrap ''DefaultDataDir on %s: %w'' ErrPathUnset)
      else if env_GOOS E = ''windows'' then
        (if env_APPDATA E = [] then Inl (Errorf ''DefaultDataDir: APPDATA env var not set'')
         else Inr (env_winJoin E (env_winJoin E (env_APPDATA E) ''icfx'') ''data''))
      else if env_XDG_DATA_HOME E \<noteq> [] then Inr (filepath_Join (env_XDG_DATA_HOME E) ''icfx'')
      else home_path E ''.local/share/icfx'')"

definition DefaultKeysDir :: "env \<Rightarrow> bytes result" where
  "DefaultKeysDir E =
     (if mobile E then Inl (Wrap ''DefaultKeysDir on %s: %w'' ErrPathUnset) else home_path E ''.icfx/lk'')"

definition ConfigDir :: "env \<Rightarrow> bytes result" where
  "ConfigDir E = (if configDirOverride E \<noteq> [] then Inr (configDirOverride E) else DefaultConfigDir E)"

definition DataDir :: "env \<Rightarrow> bytes result" where
  "DataDir E = (if dataPathOverride E \<noteq> [] then Inr (dataPathOverride E) else DefaultDataDir E)"

definition KeysDir :: "env \<Rightarrow> bytes result" where
  "KeysDir E = (if keyPathOverride E \<noteq> [] then Inr (keyPathOverride E) else DefaultKeysDir E)"

definition ConfigFilePath :: "env \<Rightarrow> bytes result" where
  "ConfigFilePath E = andthen (ConfigDir E) (\<lambda>dir. Inr (filepath_Join dir ''config.toml''))"

definition IdentitiesFilePath :: "env \<Rightarrow> bytes result" where
  "IdentitiesFilePath E = andthen (DataDir E) (\<lambda>dir. Inr (filepath_Join dir ''identities.json''))"

definition ContactsFilePath :: "env \<Rightarrow> bytes result" where
  "ContactsFilePath E = andthen (DataDir E) (\<lambda>dir. Inr (filepath_Join dir ''contacts.json''))"

definition GroupsFilePath :: "env \<Rightarrow> bytes result" where
  "GroupsFilePath E = andthen (DataDir E) (\<lambda>dir. Inr (filepath_Join dir ''groups.json''))"

definition IdentityMetaDir :: "env \<Rightarrow> bytes result" where
  "IdentityMetaDir E = andthen (DataDir E) (\<lambda>dir. Inr (filepath_Join dir ''identities''))"

fun make_dirs :: "disk \<Rightarrow> bytes result list \<Rightarrow> unit result" where
  "make_dirs d [] = Inr ()"
| "make_dirs d (r # rs) =
     andthen r (\<lambda>dir. andthen (wrapping ''creating directory %s: %w'' (os_MkdirAll d dir)) (\<lambda>_. make_dirs d rs))"

definition EnsureDirectories :: "env \<Rightarrow> disk \<Rightarrow> unit result" where
  "EnsureDirectories E d = make_dirs d [ConfigDir E, DataDir E, KeysDir E]"

section \<open>The configuration\<close>

record Config =
  ConfPath :: bytes
  DataPath :: bytes
  KeyPath :: bytes
  DefaultIdentity :: bytes
  DefaultFormat :: bytes
  Keystore :: bytes
  Verbose :: bool
  Banner :: bool
  AutoLockMinutes :: int
  CloudEnabled :: bool
  CloudSyncContacts :: bool
  CloudSyncSettings :: bool
  CloudSyncIdentities :: bool
  CloudSyncChoicePending :: bool
  CloudBaseURL :: bytes
  CloudAutoSyncMinutes :: int
  BackupNudgeDismissed :: bool
  WelcomeCompleted :: bool

definition DefaultCloudBaseURL :: bytes where "DefaultCloudBaseURL = ''https://cloud.instacrypt.io''"

definition zero_Config :: Config where
  "zero_Config = \<lparr>ConfPath = [], DataPath = [], KeyPath = [], DefaultIdentity = [], DefaultFormat = [], Keystore = [],
     Verbose = False, Banner = False, AutoLockMinutes = 0, CloudEnabled = False, CloudSyncContacts = False,
     CloudSyncSettings = False, CloudSyncIdentities = False, CloudSyncChoicePending = False, CloudBaseURL = [],
     CloudAutoSyncMinutes = 0, BackupNudgeDismissed = False, WelcomeCompleted = False\<rparr>"

definition DefaultConfig :: Config where
  "DefaultConfig = zero_Config\<lparr>DefaultFormat := ''icfx'', Keystore := ''keychain'', Banner := True, AutoLockMinutes := 15,
     CloudAutoSyncMinutes := 10\<rparr>"

text \<open>The decoder sets the keys it finds on the configuration it is given.\<close>

record Toml =
  toml_Encode :: "Config \<Rightarrow> bytes result"
  toml_Decode :: "bytes \<Rightarrow> Config \<Rightarrow> Config result"

definition LoadFrom :: "Toml \<Rightarrow> bytes \<Rightarrow> disk \<Rightarrow> Config result" where
  "LoadFrom T path d =
     (let f = ReadFile d path in
      if IsNotExist f then Inr DefaultConfig else andthen f (\<lambda>bs. toml_Decode T bs DefaultConfig))"

definition ExpandPath :: "env \<Rightarrow> bytes \<Rightarrow> bytes" where
  "ExpandPath E p =
     (if \<not> HasPrefix p ''~/'' then p
      else case env_UserHomeDir E of Inl _ \<Rightarrow> p | Inr home \<Rightarrow> filepath_Join home (drop 2 p))"

definition Config_Load :: "Toml \<Rightarrow> env \<Rightarrow> disk \<Rightarrow> Config result" where
  "Config_Load T E d =
     andthen (wrapping ''resolving config file path: %w'' (ConfigFilePath E)) (\<lambda>path.
     andthen (LoadFrom T path d) (\<lambda>cfg.
     if ConfPath cfg = [] then Inr cfg
     else andthen (wrapping ''loading redirected config from %s: %w'' (LoadFrom T (ExpandPath E (ConfPath cfg)) d)) (\<lambda>redirected.
     Inr (redirected\<lparr>ConfPath := ConfPath cfg\<rparr>))))"

definition saveTo :: "Toml \<Rightarrow> bytes \<Rightarrow> disk \<Rightarrow> Config \<Rightarrow> disk \<times> unit result" where
  "saveTo T path d c = sbind (d, toml_Encode T c) (\<lambda>bs d. WriteFileAtomic d path bs)"

definition Config_Save :: "Toml \<Rightarrow> env \<Rightarrow> disk \<Rightarrow> Config \<Rightarrow> disk \<times> unit result" where
  "Config_Save T E d c =
     sbind (d, EnsureDirectories E d) (\<lambda>_ d.
     sbind (d, wrapping ''resolving config file path: %w'' (ConfigFilePath E)) (\<lambda>defaultPath d.
     if ConfPath c = [] then saveTo T defaultPath d c
     else
     let expanded = ExpandPath E (ConfPath c) in
     sbind (d, wrapping ''creating config directory: %w'' (os_MkdirAll d (filepath_Dir expanded))) (\<lambda>_ d.
     sbind (saveTo T expanded d (c\<lparr>ConfPath := []\<rparr>)) (\<lambda>_ d.
     saveTo T defaultPath d (zero_Config\<lparr>ConfPath := ConfPath c\<rparr>)))))"

section \<open>Settings\<close>

record Net =
  url_Parse :: "bytes \<Rightarrow> (bytes \<times> bytes) result"
  ip_Parse :: "bytes \<Rightarrow> bool option"

definition isLoopbackHost :: "Net \<Rightarrow> bytes \<Rightarrow> bool" where
  "isLoopbackHost N host \<longleftrightarrow> host = ''localhost'' \<or> ip_Parse N host = Some True"

definition ValidateCloudBaseURL :: "Net \<Rightarrow> bytes \<Rightarrow> unit result" where
  "ValidateCloudBaseURL N raw =
     (if raw = [] then Inr ()
      else andthen (wrapping ''invalid cloud server URL: %w'' (url_Parse N raw)) (\<lambda>(scheme, hostname).
        if scheme = ''https'' then Inr ()
        else if scheme = ''http'' then
          (if isLoopbackHost N hostname then Inr () else Inl (Errorf ''refusing plaintext http:// to non-loopback host %q''))
        else Inl (Errorf ''cloud server URL must be http:// or https:// (got scheme %q)'')))"

text \<open>strconv.Atoi: an optional sign and decimal digits, in the range of int64.\<close>

definition strip_sign :: "bytes \<Rightarrow> bytes" where
  "strip_sign s = (if HasPrefix s ''-'' \<or> HasPrefix s ''+'' then drop 1 s else s)"

definition Atoi :: "bytes \<Rightarrow> int option" where
  "Atoi s =
     (let ds = strip_sign s; n = (if HasPrefix s ''-'' then - int (digits_val ds) else int (digits_val ds))
      in if ds = [] \<or> \<not> list_all is_digit ds \<or> n < - (2 ^ 63) \<or> 2 ^ 63 \<le> n then None else Some n)"

definition parseNonNegativeInt :: "bytes \<Rightarrow> int result" where
  "parseNonNegativeInt s =
     (case Atoi s of None \<Rightarrow> Inl (Errorf ''not a number: %q'')
      | Some n \<Rightarrow> if n < 0 then Inl (Errorf ''must be non-negative: %d'') else Inr n)"

definition validatePath :: "env \<Rightarrow> bytes \<Rightarrow> bytes result" where
  "validatePath E p =
     (if HasPrefix p ''~/'' then Inr (ExpandPath E p)
      else if \<not> HasPrefix p ''/'' then Inl (Errorf ''path must be absolute or start with ~/'')
      else Inr p)"

definition path_value :: "env \<Rightarrow> string \<Rightarrow> bytes \<Rightarrow> bytes result" where
  "path_value E fmt value = (if value \<noteq> [] then wrapping fmt (validatePath E value) else Inr value)"

definition Config_Set :: "env \<Rightarrow> Net \<Rightarrow> Config \<Rightarrow> bytes \<Rightarrow> bytes \<Rightarrow> Config result" where
  "Config_Set E N c key value =
     (if key = ''conf_path'' then andthen (path_value E ''invalid conf_path: %w'' value) (\<lambda>v. Inr (c\<lparr>ConfPath := v\<rparr>))
      else if key = ''data_path'' then andthen (path_value E ''invalid data_path: %w'' value) (\<lambda>v. Inr (c\<lparr>DataPath := v\<rparr>))
      else if key = ''key_path'' then andthen (path_value E ''invalid key_path: %w'' value) (\<lambda>v. Inr (c\<lparr>KeyPath := v\<rparr>))
      else if key = ''default_identity'' then Inr (c\<lparr>DefaultIdentity := value\<rparr>)
      else if key = ''default_format'' then Inr (c\<lparr>DefaultFormat := value\<rparr>)
      else if key = ''keystore'' then
        (if value \<noteq> ''keychain'' \<and> value \<noteq> ''file'' then Inl (Errorf ''keystore must be %q or %q (got %q)'')
         else Inr (c\<lparr>Keystore := value\<rparr>))
      else if key = ''verbose'' then Inr (c\<lparr>Verbose := (value = ''true'')\<rparr>)
      else if key = ''banner'' then Inr (c\<lparr>Banner := (value = ''true'')\<rparr>)
      else if key = ''auto_lock_minutes'' then
        andthen (wrapping ''auto_lock_minutes: %w'' (parseNonNegativeInt value)) (\<lambda>n. Inr (c\<lparr>AutoLockMinutes := n\<rparr>))
      else if key = ''cloud_enabled'' then Inr (c\<lparr>CloudEnabled := (value = ''true'')\<rparr>)
      else if key = ''cloud_sync_contacts'' then Inr (c\<lparr>CloudSyncContacts := (value = ''true'')\<rparr>)
      else if key = ''cloud_sync_settings'' then Inr (c\<lparr>CloudSyncSettings := (value = ''true'')\<rparr>)
      else if key = ''cloud_sync_identities'' then Inr (c\<lparr>CloudSyncIdentities := (value = ''true'')\<rparr>)
      else if key = ''cloud_sync_choice_pending'' then Inr (c\<lparr>CloudSyncChoicePending := (value = ''true'')\<rparr>)
      else if key = ''cloud_auto_sync_minutes'' then
        andthen (wrapping ''cloud_auto_sync_minutes: %w'' (parseNonNegativeInt value)) (\<lambda>n. Inr (c\<lparr>CloudAutoSyncMinutes := n\<rparr>))
      else if key = ''backup_nudge_dismissed'' then Inr (c\<lparr>BackupNudgeDismissed := (value = ''true'')\<rparr>)
      else if key = ''welcome_completed'' then Inr (c\<lparr>WelcomeCompleted := (value = ''true'')\<rparr>)
      else if key = ''cloud_base_url'' then andthen (ValidateCloudBaseURL N value) (\<lambda>_. Inr (c\<lparr>CloudBaseURL := value\<rparr>))
      else Inl (Errorf ''unknown config key %q''))"

section \<open>Lemmas\<close>

definition wf_Config :: "Config \<Rightarrow> bool" where
  "wf_Config c \<longleftrightarrow> list_all valid_utf8 [ConfPath c, DataPath c, KeyPath c, DefaultIdentity c, DefaultFormat c, Keystore c, CloudBaseURL c]
     \<and> list_all (\<lambda>n. - (2 ^ 63) \<le> n \<and> n < 2 ^ 63) [AutoLockMinutes c, CloudAutoSyncMinutes c]"

text \<open>What is relied on of the TOML library: what it encoded it decodes, every key being written.\<close>

definition toml_correct :: "Toml \<Rightarrow> bool" where
  "toml_correct T \<longleftrightarrow> (\<forall>c bs c0. wf_Config c \<longrightarrow> toml_Encode T c = Inr bs \<longrightarrow> toml_Decode T bs c0 = Inr c)"

lemma wf_ConfPath [simp]: "wf_Config c \<Longrightarrow> wf_Config (c\<lparr>ConfPath := []\<rparr>)" "wf_Config c \<Longrightarrow> wf_Config (zero_Config\<lparr>ConfPath := ConfPath c\<rparr>)"
  by (simp_all add: wf_Config_def zero_Config_def valid_utf8_ascii ascii_def)

interpretation config_file: file_store path "LoadFrom T path" "saveTo T path" "\<lambda>c. toml_correct T \<and> wf_Config c" for path T
proof (unfold_locales, goal_cases)
  case (1 x d d' u)
  then obtain bs where bs: "toml_Encode T x = Inr bs" "WriteFileAtomic d path bs = (d', Inr ())"
    by (auto simp: saveTo_def sbind_Inr_iff)
  with 1 show ?case
    using WriteFileAtomic_frame [OF bs(2)]
    by (simp add: LoadFrom_def ReadFile_def IsNotExist_def toml_correct_def)
next
  case (2 d x d' e)
  then have "d_files d' = d_files d \<and> d_fault d' = d_fault d"
    using WriteFileAtomic_err by (cases "toml_Encode T x") (auto simp: saveTo_def)
  then show ?case using ReadFile_same [of d' path d] by (simp add: LoadFrom_def)
next
  case (3 d x d' r q)
  then show ?case using WriteFileAtomic_frame(2) by (cases "toml_Encode T x") (auto simp: saveTo_def)
qed

lemma saveTo_fault: "saveTo T path d c = (d', r) \<Longrightarrow> d_fault d' = d_fault d"
  by (cases "toml_Encode T c") (auto simp: saveTo_def dest: WriteFileAtomic_frame(1))

lemma LoadFrom_same: "d_files d path = d_files d' path \<Longrightarrow> d_fault d = d_fault d' \<Longrightarrow> LoadFrom T path d = LoadFrom T path d'"
  using ReadFile_same [of d path d'] by (simp add: LoadFrom_def)

text \<open>The two files a save leaves behind.\<close>

lemma Config_Save_files:
  assumes "toml_correct T" "wf_Config c" "Config_Save T E d c = (d', Inr ())" "\<And>q. d_fault d SysRead q = None"
  obtains path where "ConfigFilePath E = Inr path"
    "ConfPath c = [] \<Longrightarrow> LoadFrom T path d' = Inr c"
    "ConfPath c \<noteq> [] \<Longrightarrow> LoadFrom T path d' = Inr (zero_Config\<lparr>ConfPath := ConfPath c\<rparr>)"
    "ConfPath c \<noteq> [] \<Longrightarrow> ExpandPath E (ConfPath c) \<noteq> path \<Longrightarrow> LoadFrom T (ExpandPath E (ConfPath c)) d' = Inr (c\<lparr>ConfPath := []\<rparr>)"
proof -
  from assms(3) obtain path where path: "ConfigFilePath E = Inr path" by (auto simp: Config_Save_def sbind_Inr_iff)
  let ?x = "ExpandPath E (ConfPath c)" and ?p = "zero_Config\<lparr>ConfPath := ConfPath c\<rparr>"
  show thesis
  proof (cases "ConfPath c = []")
    case True
    then have "saveTo T path d c = (d', Inr ())" using assms(3) path by (auto simp: Config_Save_def sbind_Inr_iff)
    then have "LoadFrom T path d' = Inr c" using config_file.load_saved assms(1,2,4) by blast
    with that path True show ?thesis by blast
  next
    case False
    then obtain d1 where s: "saveTo T ?x d (c\<lparr>ConfPath := []\<rparr>) = (d1, Inr ())" "saveTo T path d1 ?p = (d', Inr ())"
      using assms(3) path by (auto simp: Config_Save_def sbind_Inr_iff Let_def)
    have f: "d_fault d1 = d_fault d" "d_fault d' = d_fault d1" using saveTo_fault s by blast+
    have "LoadFrom T path d' = Inr ?p"
      by (rule config_file.load_saved [OF _ _ s(2)]) (use assms f in simp_all)
    moreover have "LoadFrom T ?x d' = Inr (c\<lparr>ConfPath := []\<rparr>)" if ne: "?x \<noteq> path"
    proof -
      have "LoadFrom T ?x d1 = Inr (c\<lparr>ConfPath := []\<rparr>)"
        by (rule config_file.load_saved [OF _ _ s(1)]) (use assms in simp_all)
      moreover have "d_files d' ?x = d_files d1 ?x" using config_file.save_frame [OF s(2) ne] .
      ultimately show ?thesis using LoadFrom_same f by metis
    qed
    ultimately show ?thesis using that path False by blast
  qed
qed

lemma Clean_abs: "HasPrefix p ''/'' \<Longrightarrow> HasPrefix (Clean p) ''/''"
  by (simp add: Clean_def HasPrefix_def)

lemma Join_abs: "HasPrefix home ''/'' \<Longrightarrow> HasPrefix (filepath_Join home sub) ''/''"
  by (cases home) (auto simp: filepath_Join_def HasPrefix_def intro!: Clean_abs [unfolded HasPrefix_def, simplified])

section \<open>Properties\<close>

text \<open>
  C20. A saved configuration is the one that is loaded, also when conf_path redirects it to another
  file: the redirect target gets everything and the default place the pointer to it. The redirect must
  not lead to the default place itself.
\<close>

theorem Config_Save_Load:
  assumes "toml_correct T" "wf_Config c" "Config_Save T E d c = (d', Inr ())" "\<And>q. d_fault d SysRead q = None"
    and "ConfPath c \<noteq> [] \<Longrightarrow> ConfigFilePath E \<noteq> Inr (ExpandPath E (ConfPath c))"
  shows "Config_Load T E d' = Inr c"
proof -
  obtain path where p: "ConfigFilePath E = Inr path" "ConfPath c = [] \<Longrightarrow> LoadFrom T path d' = Inr c"
    "ConfPath c \<noteq> [] \<Longrightarrow> LoadFrom T path d' = Inr (zero_Config\<lparr>ConfPath := ConfPath c\<rparr>)"
    "ConfPath c \<noteq> [] \<Longrightarrow> ExpandPath E (ConfPath c) \<noteq> path \<Longrightarrow> LoadFrom T (ExpandPath E (ConfPath c)) d' = Inr (c\<lparr>ConfPath := []\<rparr>)"
    using Config_Save_files [OF assms(1-4)] by blast
  then show ?thesis using assms(5) by (cases "ConfPath c = []") (auto simp: Config_Load_def)
qed

text \<open>
  When conf_path leads to the default place itself, which Set accepts, a successful save destroys
  the configuration: the pointer overwrites the settings that were written a moment before, and what is
  loaded has every other setting at its zero value.
\<close>

theorem Config_Save_self_redirect:
  assumes "toml_correct T" "wf_Config c" "Config_Save T E d c = (d', Inr ())" "\<And>q. d_fault d SysRead q = None"
    and "ConfPath c \<noteq> []" "ConfigFilePath E = Inr (ExpandPath E (ConfPath c))"
  shows "Config_Load T E d' = Inr (zero_Config\<lparr>ConfPath := ConfPath c\<rparr>)"
proof -
  obtain path where "ConfigFilePath E = Inr path" "LoadFrom T path d' = Inr (zero_Config\<lparr>ConfPath := ConfPath c\<rparr>)"
    using Config_Save_files [OF assms(1-4)] assms(5) by blast
  then show ?thesis using assms(5,6) by (simp add: Config_Load_def)
qed

definition path_ok :: "bytes \<Rightarrow> bool" where
  "path_ok p \<longleftrightarrow> p = [] \<or> HasPrefix p ''/''"

definition minutes_ok :: "int \<Rightarrow> bool" where
  "minutes_ok n \<longleftrightarrow> 0 \<le> n \<and> n < 2 ^ 63"

definition keystore_ok :: "bytes \<Rightarrow> bool" where
  "keystore_ok k \<longleftrightarrow> k = ''keychain'' \<or> k = ''file''"

definition server_ok :: "Net \<Rightarrow> bytes \<Rightarrow> bool" where
  "server_ok N url \<longleftrightarrow> url = [] \<or> (\<exists>scheme host. url_Parse N url = Inr (scheme, host)
     \<and> (scheme = ''https'' \<or> scheme = ''http'' \<and> isLoopbackHost N host))"

definition config_ok :: "Net \<Rightarrow> Config \<Rightarrow> bool" where
  "config_ok N c \<longleftrightarrow> keystore_ok (Keystore c) \<and> minutes_ok (AutoLockMinutes c) \<and> minutes_ok (CloudAutoSyncMinutes c)
     \<and> path_ok (ConfPath c) \<and> path_ok (DataPath c) \<and> path_ok (KeyPath c) \<and> server_ok N (CloudBaseURL c)"

inductive config_reach :: "env \<Rightarrow> Net \<Rightarrow> Config \<Rightarrow> bool" for E N where
  config_default: "config_reach E N DefaultConfig"
| config_set: "config_reach E N c \<Longrightarrow> Config_Set E N c key value = Inr c' \<Longrightarrow> config_reach E N c'"

lemma path_value_abs:
  assumes "path_value E fmt v = Inr p" "env_UserHomeDir E = Inr home" "HasPrefix home ''/''"
  shows "path_ok p"
  using assms Join_abs by (auto simp: path_ok_def path_value_def validatePath_def ExpandPath_def split: if_splits)

lemma parseNonNegativeInt_range: "parseNonNegativeInt v = Inr n \<Longrightarrow> minutes_ok n"
  by (auto simp: minutes_ok_def parseNonNegativeInt_def Atoi_def Let_def split: if_splits option.splits)

lemma ValidateCloudBaseURL_ok:
  "ValidateCloudBaseURL N raw = Inr u \<Longrightarrow> server_ok N raw"
  by (auto simp: server_ok_def ValidateCloudBaseURL_def split: if_splits)

lemma Config_Set_keeps:
  assumes "config_ok N c" "Config_Set E N c key value = Inr c'" "env_UserHomeDir E = Inr home" "HasPrefix home ''/''"
  shows "config_ok N c'"
proof -
  have k: "keystore_ok ''keychain''" "keystore_ok ''file''" by (simp_all add: keystore_ok_def)
  note facts = path_value_abs [OF _ assms(3,4)] parseNonNegativeInt_range ValidateCloudBaseURL_ok k
  have cases: Q if "(if P then x else y) = z" "P \<Longrightarrow> x = z \<Longrightarrow> Q" "\<not> P \<Longrightarrow> y = z \<Longrightarrow> Q" for P Q and x y z :: "Config result"
    using that by (simp split: if_split_asm)
  from assms(2) show ?thesis
    unfolding Config_Set_def
    by (elim cases) (use assms(1) in \<open>auto simp: config_ok_def intro: facts\<close>)
qed

text \<open>
  C21. Every configuration reached from the default one by Set keeps its settings valid: the key store is
  one of the two kinds, the intervals are not negative, the paths are empty or absolute, and the server
  is reached over https or on this machine.
\<close>

theorem config_settings_valid:
  assumes "config_reach E N c" "env_UserHomeDir E = Inr home" "HasPrefix home ''/''"
  shows "config_ok N c"
  using assms(1)
proof induction
  case config_default
  show ?case by (simp add: config_ok_def path_ok_def minutes_ok_def keystore_ok_def server_ok_def DefaultConfig_def zero_Config_def)
next
  case (config_set c k v c')
  then show ?case using Config_Set_keeps assms(2,3) by blast
qed

section \<open>A sample\<close>

text \<open>A codec that writes the two strings that vary here, and refuses other configurations.\<close>

definition small_config :: "bytes \<Rightarrow> bytes \<Rightarrow> Config" where
  "small_config cp di = zero_Config\<lparr>ConfPath := cp, DefaultIdentity := di\<rparr>"

definition small_toml :: Toml where
  "small_toml = \<lparr>
     toml_Encode = (\<lambda>c. if c = small_config (ConfPath c) (DefaultIdentity c) \<and> CHR ''='' \<notin> set (ConfPath c)
        then Inr (ConfPath c @ ''='' @ DefaultIdentity c) else Inl (Errorf ''toml'')),
     toml_Decode = (\<lambda>bs c0. Inr (small_config (takeWhile (\<lambda>x. x \<noteq> CHR ''='') bs) (drop 1 (dropWhile (\<lambda>x. x \<noteq> CHR ''='') bs))))\<rparr>"

lemma small_toml_correct: "toml_correct small_toml"
proof -
  have "takeWhile (\<lambda>x. x \<noteq> CHR ''='') (a @ CHR ''='' # b) = a" "dropWhile (\<lambda>x. x \<noteq> CHR ''='') (a @ CHR ''='' # b) = CHR ''='' # b"
    if "CHR ''='' \<notin> set a" for a b
    using that by (induction a) auto
  then show ?thesis by (auto simp: toml_correct_def small_toml_def split: if_splits)
qed

definition sample_env :: env where
  "sample_env = \<lparr>env_GOOS = ''linux'', env_APPDATA = [], env_XDG_CONFIG_HOME = [], env_XDG_DATA_HOME = [], env_UserHomeDir = Inr ''/h'',
     env_TempDir = ''/tmp'', env_winJoin = (\<lambda>a b. a), configDirOverride = ''/c'', dataPathOverride = ''/d'', keyPathOverride = ''/k'',
     tempDirOverride = []\<rparr>"

lemma sample_dirs: "ConfigFilePath sample_env = Inr ''/c/config.toml''" "EnsureDirectories sample_env empty_disk = Inr ()"
  by (simp_all add: ConfigFilePath_def EnsureDirectories_def ConfigDir_def DataDir_def KeysDir_def sample_env_def os_MkdirAll_def empty_disk_def
      filepath_Join_def Clean_def clean_parts_def clean_step_def HasPrefix_def)

lemma sample_config: "wf_Config (small_config cp di)" if "ascii cp" "ascii di"
  using that by (simp add: wf_Config_def small_config_def zero_Config_def valid_utf8_ascii ascii_def)

lemma sample_save:
  assumes "HasPrefix cp ''/''" "CHR ''='' \<notin> set cp"
  shows "\<exists>d. Config_Save small_toml sample_env empty_disk (small_config cp ''me'') = (d, Inr ())"
proof -
  have f: "d_fault empty_disk c p = None" for c p by (simp add: empty_disk_def)
  have cp: "cp \<noteq> []" "\<not> HasPrefix cp ''~/''" using assms(1) by (cases cp; auto simp: HasPrefix_def)+
  have w: "\<exists>d'. WriteFileAtomic d p bs = (d', Inr ()) \<and> (\<forall>c q. d_fault d' c q = None)" if "\<And>c q. d_fault d c q = None" for d p bs
    using WriteFileAtomic_clean [of d p bs] that by simp
  have t: "saveTo small_toml p d (small_config a b) = WriteFileAtomic d p (a @ ''='' @ b)" if "CHR ''='' \<notin> set a" for p d a b
    using that by (simp add: saveTo_def small_toml_def small_config_def)
  obtain d1 where d1: "saveTo small_toml cp empty_disk (small_config [] ''me'') = (d1, Inr ())" "\<And>c q. d_fault d1 c q = None"
    using w [OF f] t [of "[]"] by (metis list.set(1) empty_iff)
  obtain d2 where d2: "saveTo small_toml ''/c/config.toml'' d1 (small_config cp []) = (d2, Inr ())"
    using w [OF d1(2)] t [OF assms(2)] by metis
  have e: "(small_config cp ''me'')\<lparr>ConfPath := []\<rparr> = small_config [] ''me''" "zero_Config\<lparr>ConfPath := cp\<rparr> = small_config cp []"
      "ConfPath (small_config cp ''me'') = cp" "ExpandPath sample_env cp = cp"
    using cp(2) by (simp_all add: small_config_def ExpandPath_def zero_Config_def)
  have "os_MkdirAll empty_disk q = Inr ()" for q by (simp add: os_MkdirAll_def f)
  then show ?thesis by (simp add: Config_Save_def sample_dirs e cp(1) d1(1) d2)
qed

theorem Config_Save_Load_witness:
  "\<exists>d. Config_Save small_toml sample_env empty_disk (small_config ''/x'' ''me'') = (d, Inr ())
     \<and> Config_Load small_toml sample_env d = Inr (small_config ''/x'' ''me'')"
proof -
  obtain d where d: "Config_Save small_toml sample_env empty_disk (small_config ''/x'' ''me'') = (d, Inr ())"
    using sample_save [of "''/x''"] by (auto simp: HasPrefix_def)
  have "Config_Load small_toml sample_env d = Inr (small_config ''/x'' ''me'')"
    by (rule Config_Save_Load [OF small_toml_correct sample_config d])
      (simp_all add: ascii_def empty_disk_def sample_dirs ExpandPath_def HasPrefix_def small_config_def)
  with d show ?thesis by blast
qed

theorem Config_Save_self_redirect_witness:
  "\<exists>d. Config_Save small_toml sample_env empty_disk (small_config ''/c/config.toml'' ''me'') = (d, Inr ())
     \<and> Config_Load small_toml sample_env d = Inr (small_config ''/c/config.toml'' [])"
proof -
  obtain d where d: "Config_Save small_toml sample_env empty_disk (small_config ''/c/config.toml'' ''me'') = (d, Inr ())"
    using sample_save [of "''/c/config.toml''"] by (auto simp: HasPrefix_def)
  have "Config_Load small_toml sample_env d = Inr (zero_Config\<lparr>ConfPath := ConfPath (small_config ''/c/config.toml'' ''me'')\<rparr>)"
    by (rule Config_Save_self_redirect [OF small_toml_correct sample_config d])
      (simp_all add: ascii_def empty_disk_def sample_dirs ExpandPath_def HasPrefix_def small_config_def)
  with d show ?thesis by (simp add: small_config_def zero_Config_def)
qed

theorem config_settings_valid_witness:
  "\<exists>c. Config_Set sample_env \<lparr>url_Parse = (\<lambda>_. Inl (Errorf '''')), ip_Parse = (\<lambda>_. None)\<rparr> DefaultConfig ''data_path'' ''~/x'' = Inr c
     \<and> config_ok \<lparr>url_Parse = (\<lambda>_. Inl (Errorf '''')), ip_Parse = (\<lambda>_. None)\<rparr> c \<and> DataPath c = ''/h/x''"
proof -
  let ?N = "\<lparr>url_Parse = (\<lambda>_. Inl (Errorf '''')), ip_Parse = (\<lambda>_. None)\<rparr>"
  have s: "Config_Set sample_env ?N DefaultConfig ''data_path'' ''~/x'' = Inr (DefaultConfig\<lparr>DataPath := ''/h/x''\<rparr>)"
    by (simp add: Config_Set_def path_value_def validatePath_def HasPrefix_def ExpandPath_def sample_env_def filepath_Join_def
        Clean_def clean_parts_def clean_step_def)
  have "config_ok ?N (DefaultConfig\<lparr>DataPath := ''/h/x''\<rparr>)"
    by (rule config_settings_valid [OF config_set [OF config_default s], of "''/h''"]) (simp_all add: sample_env_def HasPrefix_def)
  with s show ?thesis by simp
qed

end
