(* ===== verification/Icfx_Keychain.thy ===== *)
theory Icfx_Keychain
  imports Icfx_Keystore Icfx_Config Icfx_Json
begin

text \<open>
  Package keystore, the backends of the OS keychain: keychain_keyring.go over go-keyring (every platform
  but macOS) and keychain_darwin.go over the Security framework. The keychain itself is a parameter, a
  record of its calls over a state of its own; what the code relies on is \<open>keyring_correct\<close> and
  \<open>keychain_correct\<close>: a value that was set is read back, and no other item changes. Both backends are shown
  to keep the contract \<open>keystore\<close> of the identity layer.
\<close>

section \<open>Items\<close>

definition keychainService :: bytes where "keychainService = ''icfx''"

definition encKeySuffix :: bytes where "encKeySuffix = ''-enc''"

definition signKeySuffix :: bytes where "signKeySuffix = ''-sign''"

definition indexKey :: bytes where "indexKey = ''_icfx_index''"

definition probeKey :: bytes where "probeKey = ''_icfx_probe''"

definition ServiceName :: bytes where "ServiceName = keychainService"

section \<open>The name index\<close>

text \<open>The JSON list of names; both backends read and write it alike through their own calls.\<close>

definition parse_index :: "bytes \<Rightarrow> bytes list result" where
  "parse_index data =
     (case unmarshal (dec_list dec_str []) [] data of
        None \<Rightarrow> Inl (Wrap ''parsing keystore index (corrupted?): %w'' (Errorf ''json'')) | Some names \<Rightarrow> Inr names)"

definition marshal_index :: "bytes list \<Rightarrow> bytes" where "marshal_index names = compact (JArr (map jstr names))"

section \<open>go-keyring\<close>

record 'r Keyring =
  kr_Set :: "bytes \<Rightarrow> bytes \<Rightarrow> bytes \<Rightarrow> 'r \<Rightarrow> 'r \<times> unit result"
  kr_Get :: "bytes \<Rightarrow> bytes \<Rightarrow> 'r \<Rightarrow> bytes result"
  kr_Delete :: "bytes \<Rightarrow> bytes \<Rightarrow> 'r \<Rightarrow> 'r \<times> unit result"

definition keyring_ErrNotFound :: go_error where "keyring_ErrNotFound = Sentinel ''secret not found in keyring''"

definition maxKeychainChunk :: int where "maxKeychainChunk = 2048"

definition chunkMarkerPrefix :: bytes where "chunkMarkerPrefix = ''icfx-chunks:''"

function chunkString :: "bytes \<Rightarrow> int \<Rightarrow> bytes list" where
  "chunkString s sz =
     (if sz \<le> 0 then [s]
      else if int (length s) > sz then take (nat sz) s # chunkString (drop (nat sz) s) sz
      else [s])"
  by pat_completeness auto
termination by (relation "measure (\<lambda>(s, _). length s)") auto

declare chunkString.simps [simp del]

definition chunkMarker :: "nat \<Rightarrow> bytes" where "chunkMarker n = chunkMarkerPrefix @ dec n"

definition parseChunkMarker :: "bytes \<Rightarrow> int option" where
  "parseChunkMarker v =
     (if \<not> HasPrefix v chunkMarkerPrefix then None
      else (case Atoi (drop (length chunkMarkerPrefix) v) of None \<Rightarrow> None | Some n \<Rightarrow> if n < 0 then None else Some n))"

definition KeychainAvailable :: "'r Keyring \<Rightarrow> 'r \<Rightarrow> 'r \<times> bool" where
  "KeychainAvailable K r =
     (case kr_Set K keychainService probeKey ''1'' r of
        (r, Inl _) \<Rightarrow> (r, False)
      | (r, Inr _) \<Rightarrow> (fst (kr_Delete K keychainService probeKey r), True))"

definition Keyring_ListNames :: "'r Keyring \<Rightarrow> 'r \<Rightarrow> bytes list result" where
  "Keyring_ListNames K r =
     (case kr_Get K keychainService indexKey r of
        Inl err \<Rightarrow> (if errors_is err keyring_ErrNotFound then Inr [] else Inl (Wrap ''reading keystore index: %w'' err))
      | Inr data \<Rightarrow> parse_index data)"

definition Keyring_addToIndex :: "'r Keyring \<Rightarrow> bytes \<Rightarrow> 'r \<Rightarrow> 'r \<times> unit result" where
  "Keyring_addToIndex K name r =
     sbind (r, wrapping ''reading index: %w'' (Keyring_ListNames K r)) (\<lambda>names r.
     if name \<in> set names then (r, Inr ())
     else swrap ''writing index: %w'' (kr_Set K keychainService indexKey (marshal_index (names @ [name])) r))"

definition Keyring_removeFromIndex :: "'r Keyring \<Rightarrow> bytes \<Rightarrow> 'r \<Rightarrow> 'r \<times> unit result" where
  "Keyring_removeFromIndex K name r =
     sbind (r, wrapping ''reading index: %w'' (Keyring_ListNames K r)) (\<lambda>names r.
     swrap ''writing index: %w'' (kr_Set K keychainService indexKey (marshal_index (filter (\<lambda>n. n \<noteq> name) names)) r))"

definition Keyring_StoreEncryptionIdentity :: "'r Keyring \<Rightarrow> bytes \<Rightarrow> bytes \<Rightarrow> 'r \<Rightarrow> 'r \<times> unit result" where
  "Keyring_StoreEncryptionIdentity K name ident r =
     sbind (swrap ''storing encryption identity: %w'' (kr_Set K keychainService (name @ encKeySuffix) ident r)) (\<lambda>_.
     Keyring_addToIndex K name)"

definition Keyring_LoadEncryptionIdentity :: "'r Keyring \<Rightarrow> bytes \<Rightarrow> 'r \<Rightarrow> bytes result" where
  "Keyring_LoadEncryptionIdentity K name r =
     wrapping ''loading encryption identity: %w'' (kr_Get K keychainService (name @ encKeySuffix) r)"

definition chunk_key :: "bytes \<Rightarrow> nat \<Rightarrow> bytes" where "chunk_key base i = base @ ''.'' @ dec i"

text \<open>The loops over the chunks: the first argument after the key is the index of the next one.\<close>

fun store_chunks :: "'r Keyring \<Rightarrow> bytes \<Rightarrow> nat \<Rightarrow> bytes list \<Rightarrow> 'r \<Rightarrow> 'r \<times> unit result" where
  "store_chunks K base i [] r = (r, Inr ())"
| "store_chunks K base i (c # cs) r =
     sbind (swrap ''storing signing key chunk %d: %w'' (kr_Set K keychainService (chunk_key base i) c r)) (\<lambda>_.
     store_chunks K base (Suc i) cs)"

fun load_chunks :: "'r Keyring \<Rightarrow> bytes \<Rightarrow> nat \<Rightarrow> nat \<Rightarrow> bytes \<Rightarrow> 'r \<Rightarrow> bytes result" where
  "load_chunks K base i 0 b r = Inr b"
| "load_chunks K base i (Suc n) b r =
     andthen (wrapping ''loading signing key chunk %d: %w'' (kr_Get K keychainService (chunk_key base i) r)) (\<lambda>c.
     load_chunks K base (Suc i) n (b @ c) r)"

fun delete_chunks :: "'r Keyring \<Rightarrow> bytes \<Rightarrow> nat \<Rightarrow> nat \<Rightarrow> 'r \<Rightarrow> 'r" where
  "delete_chunks K base i 0 r = r"
| "delete_chunks K base i (Suc n) r = delete_chunks K base (Suc i) n (fst (kr_Delete K keychainService (chunk_key base i) r))"

definition storeSigningKeyChunked :: "'r Keyring \<Rightarrow> bytes \<Rightarrow> bytes \<Rightarrow> 'r \<Rightarrow> 'r \<times> unit result" where
  "storeSigningKeyChunked K name encoded r =
     (let base = name @ signKeySuffix; chunks = chunkString encoded maxKeychainChunk in
      sbind (store_chunks K base 0 chunks r) (\<lambda>_ r.
      sbind (swrap ''storing signing key: %w'' (kr_Set K keychainService base (chunkMarker (length chunks)) r)) (\<lambda>_.
      Keyring_addToIndex K name)))"

definition Keyring_StoreSigningKey :: "bytes \<Rightarrow> 'r Keyring \<Rightarrow> bytes \<Rightarrow> bytes \<Rightarrow> 'r \<Rightarrow> 'r \<times> unit result" where
  "Keyring_StoreSigningKey goos K name key r =
     (let encoded = b64_encode key in
      if goos = ''windows'' \<and> int (length encoded) > maxKeychainChunk then storeSigningKeyChunked K name encoded r
      else
      sbind (swrap ''storing signing key: %w'' (kr_Set K keychainService (name @ signKeySuffix) encoded r)) (\<lambda>_.
      Keyring_addToIndex K name))"

definition Keyring_LoadSigningKey :: "'r Keyring \<Rightarrow> bytes \<Rightarrow> 'r \<Rightarrow> bytes result" where
  "Keyring_LoadSigningKey K name r =
     (let base = name @ signKeySuffix in
      andthen (wrapping ''loading signing key: %w'' (kr_Get K keychainService base r)) (\<lambda>encoded.
      (case parseChunkMarker encoded of
         None \<Rightarrow> b64_decode encoded
       | Some n \<Rightarrow> andthen (load_chunks K base 0 (nat n) [] r) b64_decode)))"

definition Keyring_HasKeys :: "'r Keyring \<Rightarrow> bytes \<Rightarrow> 'r \<Rightarrow> bool" where
  "Keyring_HasKeys K name r \<longleftrightarrow> \<not> isl (kr_Get K keychainService (name @ encKeySuffix) r) \<and> \<not> isl (kr_Get K keychainService (name @ signKeySuffix) r)"

text \<open>A delete of a missing item is no error.\<close>

definition forgiving :: "go_error \<Rightarrow> string \<Rightarrow> 'r \<times> unit result \<Rightarrow> 'r \<times> unit result" where
  "forgiving missing fmt m =
     (case m of (r, Inl err) \<Rightarrow> (if errors_is err missing then (r, Inr ()) else (r, Inl (Wrap fmt err))) | (r, Inr _) \<Rightarrow> (r, Inr ()))"

definition Keyring_Clear :: "'r Keyring \<Rightarrow> bytes \<Rightarrow> 'r \<Rightarrow> 'r \<times> unit result" where
  "Keyring_Clear K name r =
     (let base = name @ signKeySuffix;
          r = (case kr_Get K keychainService base r of
                 Inl _ \<Rightarrow> r
               | Inr val \<Rightarrow> (case parseChunkMarker val of None \<Rightarrow> r | Some n \<Rightarrow> delete_chunks K base 0 (nat n) r)) in
      sbind (forgiving keyring_ErrNotFound ''deleting encryption identity: %w'' (kr_Delete K keychainService (name @ encKeySuffix) r)) (\<lambda>_ r.
      sbind (forgiving keyring_ErrNotFound ''deleting signing key: %w'' (kr_Delete K keychainService base r)) (\<lambda>_.
      Keyring_removeFromIndex K name)))"

text \<open>As a Keystore: the keychain is the state, the disk is not touched.\<close>

definition on_state :: "('r \<Rightarrow> 'r \<times> 'a) \<Rightarrow> 'r \<times> disk \<Rightarrow> ('r \<times> disk) \<times> 'a" where
  "on_state f s = (case f (fst s) of (r, a) \<Rightarrow> ((r, snd s), a))"

definition Keyring_Keystore :: "bytes \<Rightarrow> 'r Keyring \<Rightarrow> 'r Keystore" where
  "Keyring_Keystore goos K =
     \<lparr>ks_StoreEncryptionIdentity = (\<lambda>rnd name ident. on_state (Keyring_StoreEncryptionIdentity K name ident)),
      ks_LoadEncryptionIdentity = (\<lambda>rnd name s. (s, Keyring_LoadEncryptionIdentity K name (fst s))),
      ks_StoreSigningKey = (\<lambda>rnd name key. on_state (Keyring_StoreSigningKey goos K name key)),
      ks_LoadSigningKey = (\<lambda>rnd name s. (s, Keyring_LoadSigningKey K name (fst s))),
      ks_HasKeys = (\<lambda>name s. Keyring_HasKeys K name (fst s)),
      ks_Clear = (\<lambda>name. on_state (Keyring_Clear K name)), ks_Challenge = None\<rparr>"

section \<open>The macOS keychain\<close>

text \<open>The Security framework: an item is added if it is not there, queried, deleted.\<close>

record 'r Keychain =
  kc_AddItem :: "bytes \<Rightarrow> bytes \<Rightarrow> bytes \<Rightarrow> 'r \<Rightarrow> 'r \<times> unit result"
  kc_QueryItem :: "bytes \<Rightarrow> bytes \<Rightarrow> 'r \<Rightarrow> bytes list result"
  kc_DeleteItem :: "bytes \<Rightarrow> bytes \<Rightarrow> 'r \<Rightarrow> 'r \<times> unit result"

definition errKeychainItemNotFound :: go_error where "errKeychainItemNotFound = Sentinel ''keychain item not found''"

definition keychain_ErrorItemNotFound :: go_error where "keychain_ErrorItemNotFound = Sentinel ''The item cannot be found.''"

definition keychain_ErrorDuplicateItem :: go_error where "keychain_ErrorDuplicateItem = Sentinel ''The item already exists.''"

definition deleteItem :: "'r Keychain \<Rightarrow> bytes \<Rightarrow> 'r \<Rightarrow> 'r \<times> unit result" where
  "deleteItem K account r = kc_DeleteItem K keychainService account r"

definition setItem :: "'r Keychain \<Rightarrow> bytes \<Rightarrow> bytes \<Rightarrow> 'r \<Rightarrow> 'r \<times> unit result" where
  "setItem K account data r = kc_AddItem K keychainService account data (fst (deleteItem K account r))"

definition getItem :: "'r Keychain \<Rightarrow> bytes \<Rightarrow> 'r \<Rightarrow> bytes result" where
  "getItem K account r =
     andthen (kc_QueryItem K keychainService account r) (\<lambda>results.
     (case results of [] \<Rightarrow> Inl (Wrap ''%w: %s'' errKeychainItemNotFound) | x # _ \<Rightarrow> Inr x))"

definition Darwin_KeychainAvailable :: "'r Keychain \<Rightarrow> 'r \<Rightarrow> 'r \<times> bool" where
  "Darwin_KeychainAvailable K r =
     (case kc_AddItem K keychainService probeKey ''1'' r of
        (r, res) \<Rightarrow> (if (case res of Inl err \<Rightarrow> err \<noteq> keychain_ErrorDuplicateItem | Inr _ \<Rightarrow> False) then (r, False)
          else (fst (deleteItem K probeKey r), True)))"

definition Darwin_ListNames :: "'r Keychain \<Rightarrow> 'r \<Rightarrow> bytes list result" where
  "Darwin_ListNames K r =
     (case getItem K indexKey r of
        Inl err \<Rightarrow> (if errors_is err errKeychainItemNotFound then Inr [] else Inl (Wrap ''reading keystore index: %w'' err))
      | Inr data \<Rightarrow> parse_index data)"

definition Darwin_addToIndex :: "'r Keychain \<Rightarrow> bytes \<Rightarrow> 'r \<Rightarrow> 'r \<times> unit result" where
  "Darwin_addToIndex K name r =
     sbind (r, wrapping ''reading index: %w'' (Darwin_ListNames K r)) (\<lambda>names r.
     if name \<in> set names then (r, Inr ())
     else swrap ''writing index: %w'' (setItem K indexKey (marshal_index (names @ [name])) r))"

definition Darwin_removeFromIndex :: "'r Keychain \<Rightarrow> bytes \<Rightarrow> 'r \<Rightarrow> 'r \<times> unit result" where
  "Darwin_removeFromIndex K name r =
     sbind (r, wrapping ''reading index: %w'' (Darwin_ListNames K r)) (\<lambda>names r.
     swrap ''writing index: %w'' (setItem K indexKey (marshal_index (filter (\<lambda>n. n \<noteq> name) names)) r))"

definition Darwin_StoreEncryptionIdentity :: "'r Keychain \<Rightarrow> bytes \<Rightarrow> bytes \<Rightarrow> 'r \<Rightarrow> 'r \<times> unit result" where
  "Darwin_StoreEncryptionIdentity K name ident r =
     sbind (swrap ''storing encryption identity: %w'' (setItem K (name @ encKeySuffix) ident r)) (\<lambda>_. Darwin_addToIndex K name)"

definition Darwin_LoadEncryptionIdentity :: "'r Keychain \<Rightarrow> bytes \<Rightarrow> 'r \<Rightarrow> bytes result" where
  "Darwin_LoadEncryptionIdentity K name r = wrapping ''loading encryption identity: %w'' (getItem K (name @ encKeySuffix) r)"

definition Darwin_StoreSigningKey :: "'r Keychain \<Rightarrow> bytes \<Rightarrow> bytes \<Rightarrow> 'r \<Rightarrow> 'r \<times> unit result" where
  "Darwin_StoreSigningKey K name key r =
     sbind (swrap ''storing signing key: %w'' (setItem K (name @ signKeySuffix) (b64_encode key) r)) (\<lambda>_. Darwin_addToIndex K name)"

definition Darwin_LoadSigningKey :: "'r Keychain \<Rightarrow> bytes \<Rightarrow> 'r \<Rightarrow> bytes result" where
  "Darwin_LoadSigningKey K name r =
     andthen (wrapping ''loading signing key: %w'' (getItem K (name @ signKeySuffix) r)) b64_decode"

definition Darwin_HasKeys :: "'r Keychain \<Rightarrow> bytes \<Rightarrow> 'r \<Rightarrow> bool" where
  "Darwin_HasKeys K name r \<longleftrightarrow> \<not> isl (getItem K (name @ encKeySuffix) r) \<and> \<not> isl (getItem K (name @ signKeySuffix) r)"

definition Darwin_Clear :: "'r Keychain \<Rightarrow> bytes \<Rightarrow> 'r \<Rightarrow> 'r \<times> unit result" where
  "Darwin_Clear K name r =
     sbind (forgiving keychain_ErrorItemNotFound ''deleting encryption identity: %w'' (deleteItem K (name @ encKeySuffix) r)) (\<lambda>_ r.
     sbind (forgiving keychain_ErrorItemNotFound ''deleting signing key: %w'' (deleteItem K (name @ signKeySuffix) r)) (\<lambda>_.
     Darwin_removeFromIndex K name))"

definition Darwin_Keystore :: "'r Keychain \<Rightarrow> 'r Keystore" where
  "Darwin_Keystore K =
     \<lparr>ks_StoreEncryptionIdentity = (\<lambda>rnd name ident. on_state (Darwin_StoreEncryptionIdentity K name ident)),
      ks_LoadEncryptionIdentity = (\<lambda>rnd name s. (s, Darwin_LoadEncryptionIdentity K name (fst s))),
      ks_StoreSigningKey = (\<lambda>rnd name key. on_state (Darwin_StoreSigningKey K name key)),
      ks_LoadSigningKey = (\<lambda>rnd name s. (s, Darwin_LoadSigningKey K name (fst s))),
      ks_HasKeys = (\<lambda>name s. Darwin_HasKeys K name (fst s)),
      ks_Clear = (\<lambda>name. on_state (Darwin_Clear K name)), ks_Challenge = None\<rparr>"

section \<open>Lemmas\<close>

text \<open>What is relied on of a keychain, as a contract over its reads and writes.\<close>

locale item_store =
  fixes get :: "bytes \<Rightarrow> 'r \<Rightarrow> bytes result"
    and set :: "bytes \<Rightarrow> bytes \<Rightarrow> 'r \<Rightarrow> 'r \<times> unit result"
    and law :: bool
  assumes get_set: "law \<Longrightarrow> set k v r = (r', Inr u) \<Longrightarrow> get k r' = Inr v"
    and get_other: "law \<Longrightarrow> set k v r = (r', res) \<Longrightarrow> k' \<noteq> k \<Longrightarrow> get k' r' = get k' r"

definition keyring_correct :: "'r Keyring \<Rightarrow> bool" where
  "keyring_correct K \<longleftrightarrow> (\<forall>k v r r' res. kr_Set K keychainService k v r = (r', res) \<longrightarrow>
     (res = Inr () \<longrightarrow> kr_Get K keychainService k r' = Inr v)
     \<and> (\<forall>k'. k' \<noteq> k \<longrightarrow> kr_Get K keychainService k' r' = kr_Get K keychainService k' r))"

definition keychain_correct :: "'r Keychain \<Rightarrow> bool" where
  "keychain_correct K \<longleftrightarrow>
     (\<forall>k v r r' res. kc_AddItem K keychainService k v r = (r', res) \<longrightarrow>
        (res = Inr () \<longrightarrow> kc_QueryItem K keychainService k r' = Inr [v])
        \<and> (\<forall>k'. k' \<noteq> k \<longrightarrow> kc_QueryItem K keychainService k' r' = kc_QueryItem K keychainService k' r))
     \<and> (\<forall>k r k'. k' \<noteq> k \<longrightarrow> kc_QueryItem K keychainService k' (fst (kc_DeleteItem K keychainService k r)) = kc_QueryItem K keychainService k' r)"

interpretation keyring_items: item_store "kr_Get K keychainService" "kr_Set K keychainService" "keyring_correct K" for K
  by unfold_locales (auto simp: keyring_correct_def)

interpretation darwin_items: item_store "getItem K" "setItem K" "keychain_correct K" for K
proof
  show "getItem K k r' = Inr v" if "keychain_correct K" "setItem K k v r = (r', Inr u)" for k v r r' u
  proof -
    have "kc_QueryItem K keychainService k r' = Inr [v]" using that unfolding keychain_correct_def setItem_def by auto
    then show ?thesis by (simp add: getItem_def)
  qed
  show "getItem K k' r' = getItem K k' r" if "keychain_correct K" "setItem K k v r = (r', res)" "k' \<noteq> k" for k v r r' res k'
  proof -
    have "kc_QueryItem K keychainService k' r' = kc_QueryItem K keychainService k' (fst (deleteItem K k r))"
      using that unfolding keychain_correct_def setItem_def by blast
    also have "\<dots> = kc_QueryItem K keychainService k' r" using that unfolding keychain_correct_def deleteItem_def by blast
    finally show ?thesis by (simp add: getItem_def)
  qed
qed

text \<open>No two items of the store share a key.\<close>

lemma chunk_key_last: "is_digit (last (chunk_key b i))"
proof -
  have "last (dec i) \<in> set (dec i)" by simp
  then show ?thesis using dec_digits [of i] by (simp add: chunk_key_def list_all_iff)
qed

lemma chunk_key_split:
  assumes "chunk_key b i = chunk_key b' i'"
  shows "b = b'" "i = i'"
proof -
  have t: "dropWhile is_digit (List.rev (chunk_key c j)) = CHR ''.'' # List.rev c" for c j
  proof -
    have "\<not> is_digit (CHR ''.'')" by (simp add: is_digit_def)
    then show ?thesis using dec_digits [of j] by (simp add: chunk_key_def) (subst dropWhile_append2, auto simp: list_all_iff)
  qed
  show b: "b = b'" using t [of b i] t [of b' i'] assms by simp
  have "dec i = dec i'" using assms by (simp add: chunk_key_def b)
  then show "i = i'" by (metis digits_val_dec)
qed

lemma suffix_keys:
  "n @ encKeySuffix \<noteq> indexKey" "n @ signKeySuffix \<noteq> indexKey" "chunk_key b i \<noteq> indexKey"
  "n @ encKeySuffix \<noteq> m @ signKeySuffix" "m @ signKeySuffix \<noteq> n @ encKeySuffix"
  "chunk_key b i \<noteq> n @ encKeySuffix" "chunk_key b i \<noteq> n @ signKeySuffix"
  "n @ encKeySuffix \<noteq> chunk_key b i" "n @ signKeySuffix \<noteq> chunk_key b i"
proof -
  have l: "last (n @ encKeySuffix) = CHR ''c''" "last (m @ signKeySuffix) = CHR ''n''" "last indexKey = CHR ''x''" for n m
    by (simp_all add: encKeySuffix_def signKeySuffix_def indexKey_def)
  have d: "\<not> is_digit (CHR ''c'')" "\<not> is_digit (CHR ''n'')" "\<not> is_digit (CHR ''x'')" by (simp_all add: is_digit_def)
  show "n @ encKeySuffix \<noteq> indexKey" "n @ signKeySuffix \<noteq> indexKey"
    "n @ encKeySuffix \<noteq> m @ signKeySuffix" "m @ signKeySuffix \<noteq> n @ encKeySuffix"
    using l(1) [of n] l(2) [of n] l(2) [of m] l(3) by auto
  show "chunk_key b i \<noteq> indexKey" "chunk_key b i \<noteq> n @ encKeySuffix" "chunk_key b i \<noteq> n @ signKeySuffix"
    "n @ encKeySuffix \<noteq> chunk_key b i" "n @ signKeySuffix \<noteq> chunk_key b i"
    using chunk_key_last [of b i] d l(1) [of n] l(2) [of n] l(3) by auto
qed

lemma suffixes_differ [simp]: "encKeySuffix \<noteq> signKeySuffix" "signKeySuffix \<noteq> encKeySuffix"
  by (simp_all add: encKeySuffix_def signKeySuffix_def)

lemma parse_index_marshal:
  assumes "list_all valid_utf8 names"
  shows "parse_index (marshal_index names) = Inr names"
proof -
  have "dec_list dec_str [] (JArr (map jstr names)) [] = (names, DOk)"
    using assms by (intro dec_jlist) (simp add: dec_jstr list_all_iff)
  then show ?thesis by (simp add: parse_index_def marshal_index_def unmarshal_compact list_all_iff)
qed

lemma concat_chunkString: "concat (chunkString s sz) = s"
proof (induction s sz rule: chunkString.induct)
  case (1 s sz)
  then show ?case by (subst chunkString.simps) (simp add: chunkString.simps [of _ sz])
qed

lemma chunkString_bound: "0 < sz \<Longrightarrow> c \<in> set (chunkString s sz) \<Longrightarrow> int (length c) \<le> sz"
proof (induction s sz rule: chunkString.induct)
  case (1 s sz)
  show ?case
  proof (cases "int (length s) > sz")
    case True
    then have "c = take (nat sz) s \<or> c \<in> set (chunkString (drop (nat sz) s) sz)"
      using 1(2,3) chunkString.simps [of s sz] by auto
    then show ?thesis using 1 True by auto
  qed (use 1(2,3) chunkString.simps [of s sz] in auto)
qed

lemma chunkString_count: "0 < sz \<Longrightarrow> s \<noteq> [] \<Longrightarrow> length (chunkString s sz) \<le> length s"
proof (induction s sz rule: chunkString.induct)
  case (1 s sz)
  show ?case
  proof (cases "int (length s) > sz")
    case True
    then have "length (chunkString (drop (nat sz) s) sz) \<le> length s - nat sz" using 1 by auto
    then show ?thesis using True 1(2) chunkString.simps [of s sz] by auto
  next
    case False
    then show ?thesis using 1(2,3) chunkString.simps [of s sz] by (auto simp: Suc_le_eq)
  qed
qed

lemma b64_no_marker: "parseChunkMarker (b64_encode b) = None"
proof -
  have "\<not> HasPrefix (b64_encode b) chunkMarkerPrefix"
  proof
    assume "HasPrefix (b64_encode b) chunkMarkerPrefix"
    then have "CHR ''-'' \<in> set (b64_encode b)"
      unfolding HasPrefix_def by (metis chunkMarkerPrefix_def in_set_takeD list.set_intros insert_iff list.set(2))
    then show False using b64_char_range [OF b64_encode_chars] by fastforce
  qed
  then show ?thesis by (simp add: parseChunkMarker_def)
qed

lemma marker_parsed: "n < 2 ^ 63 \<Longrightarrow> parseChunkMarker (chunkMarker n) = Some (int n)"
proof -
  assume n: "n < 2 ^ 63"
  have "\<not> HasPrefix (dec n) ''-''" "\<not> HasPrefix (dec n) ''+''"
    using dec_digits [of n] by (cases "dec n"; auto simp: HasPrefix_def is_digit_def)+
  moreover have "int n < 2 ^ 63" using n by (metis of_nat_less_iff of_nat_numeral of_nat_power)
  ultimately have "Atoi (dec n) = Some (int n)" using dec_digits [of n] by (simp add: Atoi_def strip_sign_def Let_def)
  then show ?thesis by (simp add: parseChunkMarker_def chunkMarker_def HasPrefix_def)
qed

text \<open>The loops over the chunks.\<close>

lemma store_chunks_other:
  assumes "keyring_correct K" "store_chunks K base i cs r = (r', res)" "\<And>j. i \<le> j \<Longrightarrow> k \<noteq> chunk_key base j"
  shows "kr_Get K keychainService k r' = kr_Get K keychainService k r"
  using assms(2,3)
proof (induction cs arbitrary: i r)
  case (Cons c cs)
  obtain r1 res1 where s: "kr_Set K keychainService (chunk_key base i) c r = (r1, res1)" by (cases "kr_Set K keychainService (chunk_key base i) c r")
  have o: "kr_Get K keychainService k r1 = kr_Get K keychainService k r"
    using keyring_items.get_other [OF assms(1) s] Cons.prems(2) by simp
  show ?case
  proof (cases res1)
    case (Inl e)
    then show ?thesis using Cons.prems(1) s o by simp
  next
    case (Inr u)
    then have "store_chunks K base (Suc i) cs r1 = (r', res)" using Cons.prems(1) s by simp
    from Cons.IH [OF this] Cons.prems(2) o show ?thesis by simp
  qed
qed simp

lemma store_chunks_get:
  assumes "keyring_correct K" "store_chunks K base i cs r = (r', Inr u)" "j < length cs"
  shows "kr_Get K keychainService (chunk_key base (i + j)) r' = Inr (cs ! j)"
  using assms(2,3)
proof (induction cs arbitrary: i j r)
  case (Cons c cs)
  then obtain r1 v where s: "kr_Set K keychainService (chunk_key base i) c r = (r1, Inr v)" "store_chunks K base (Suc i) cs r1 = (r', Inr u)"
    by (auto simp: sbind_Inr_iff)
  show ?case
  proof (cases j)
    case 0
    have "kr_Get K keychainService (chunk_key base i) r' = kr_Get K keychainService (chunk_key base i) r1"
      by (rule store_chunks_other [OF assms(1) s(2)]) (auto dest: chunk_key_split)
    then show ?thesis using keyring_items.get_set [OF assms(1) s(1)] 0 by simp
  next
    case (Suc j')
    then show ?thesis using Cons.IH [OF s(2), of j'] Cons.prems(2) by simp
  qed
qed simp

lemma load_chunks_concat:
  assumes "\<And>j. j < length cs \<Longrightarrow> kr_Get K keychainService (chunk_key base (i + j)) r = Inr (cs ! j)"
  shows "load_chunks K base i (length cs) b r = Inr (b @ concat cs)"
  using assms
proof (induction cs arbitrary: i b)
  case (Cons c cs)
  have "load_chunks K base (Suc i) (length cs) (b @ c) r = Inr ((b @ c) @ concat cs)"
    using Cons.prems [of "Suc j" for j] by (intro Cons.IH) simp
  then show ?case using Cons.prems [of 0] by simp
qed simp

lemma Keyring_addToIndex_other:
  assumes "keyring_correct K" "Keyring_addToIndex K n r = (r', res)" "k \<noteq> indexKey"
  shows "kr_Get K keychainService k r' = kr_Get K keychainService k r"
proof (cases "Keyring_ListNames K r")
  case (Inr names)
  show ?thesis
  proof (cases "n \<in> set names")
    case False
    then obtain res' where "kr_Set K keychainService indexKey (marshal_index (names @ [n])) r = (r', res')"
      using assms(2) Inr by (auto simp: Keyring_addToIndex_def swrap_def prod_eq_iff)
    from keyring_items.get_other [OF assms(1) this assms(3)] show ?thesis .
  qed (use assms(2) Inr in \<open>simp add: Keyring_addToIndex_def\<close>)
qed (use assms(2) in \<open>simp add: Keyring_addToIndex_def\<close>)

lemma Keyring_enc_stored:
  assumes "keyring_correct K" "Keyring_StoreEncryptionIdentity K n k r = (r', Inr u)"
  shows "kr_Get K keychainService (n @ encKeySuffix) r' = Inr k"
    "q \<noteq> n @ encKeySuffix \<Longrightarrow> q \<noteq> indexKey \<Longrightarrow> kr_Get K keychainService q r' = kr_Get K keychainService q r"
proof -
  obtain r1 v where s: "kr_Set K keychainService (n @ encKeySuffix) k r = (r1, Inr v)" "Keyring_addToIndex K n r1 = (r', Inr u)"
    using assms(2) by (auto simp: Keyring_StoreEncryptionIdentity_def sbind_Inr_iff)
  show "kr_Get K keychainService (n @ encKeySuffix) r' = Inr k"
    using keyring_items.get_set [OF assms(1) s(1)] Keyring_addToIndex_other [OF assms(1) s(2) suffix_keys(1)] by simp
  show "kr_Get K keychainService q r' = kr_Get K keychainService q r" if "q \<noteq> n @ encKeySuffix" "q \<noteq> indexKey"
    using keyring_items.get_other [OF assms(1) s(1) that(1)] Keyring_addToIndex_other [OF assms(1) s(2) that(2)] by simp
qed

text \<open>A signing key is stored under its own keys and decoded from them, in one piece or in chunks.\<close>

lemma Keyring_sign_stored:
  assumes "keyring_correct K" "Keyring_StoreSigningKey goos K n j r = (r', Inr u)" "goos = ''windows'' \<longrightarrow> length (b64_encode j) < 2 ^ 63"
  shows "Keyring_LoadSigningKey K n r' = Inr j"
    "q \<noteq> n @ signKeySuffix \<Longrightarrow> q \<noteq> indexKey \<Longrightarrow> (\<And>i. q \<noteq> chunk_key (n @ signKeySuffix) i) \<Longrightarrow> kr_Get K keychainService q r' = kr_Get K keychainService q r"
proof -
  let ?b = "n @ signKeySuffix"
  let ?cs = "chunkString (b64_encode j) maxKeychainChunk"
  have "Keyring_LoadSigningKey K n r' = Inr j \<and> (\<forall>q. q \<noteq> ?b \<longrightarrow> q \<noteq> indexKey \<longrightarrow> (\<forall>i. q \<noteq> chunk_key ?b i) \<longrightarrow> kr_Get K keychainService q r' = kr_Get K keychainService q r)"
  proof (cases "goos = ''windows'' \<and> int (length (b64_encode j)) > maxKeychainChunk")
    case True
    then obtain r1 r2 v1 v2 where s: "store_chunks K ?b 0 ?cs r = (r1, Inr v1)"
        "kr_Set K keychainService ?b (chunkMarker (length ?cs)) r1 = (r2, Inr v2)" "Keyring_addToIndex K n r2 = (r', Inr u)"
      using assms(2) by (auto simp: Keyring_StoreSigningKey_def storeSigningKeyChunked_def Let_def sbind_Inr_iff)
    have g: "kr_Get K keychainService (chunk_key ?b i) r' = Inr (?cs ! i)" if "i < length ?cs" for i
      using store_chunks_get [OF assms(1) s(1) that] keyring_items.get_other [OF assms(1) s(2), of "chunk_key ?b i"]
        Keyring_addToIndex_other [OF assms(1) s(3), of "chunk_key ?b i"] by (simp add: suffix_keys)
    have m: "kr_Get K keychainService ?b r' = Inr (chunkMarker (length ?cs))"
      using keyring_items.get_set [OF assms(1) s(2)] Keyring_addToIndex_other [OF assms(1) s(3) suffix_keys(2)] by simp
    have "b64_encode j \<noteq> []" using True by (auto simp: maxKeychainChunk_def)
    then have "length ?cs \<le> length (b64_encode j)" by (intro chunkString_count) (simp_all add: maxKeychainChunk_def)
    then have "parseChunkMarker (chunkMarker (length ?cs)) = Some (int (length ?cs))" using assms(3) True by (intro marker_parsed) simp
    moreover have "load_chunks K ?b 0 (length ?cs) [] r' = Inr ([] @ concat ?cs)" by (rule load_chunks_concat) (simp add: g)
    ultimately have "Keyring_LoadSigningKey K n r' = Inr j"
      using m by (simp add: Keyring_LoadSigningKey_def Let_def concat_chunkString)
    moreover have "kr_Get K keychainService q r' = kr_Get K keychainService q r"
      if "q \<noteq> ?b" "q \<noteq> indexKey" "\<forall>i. q \<noteq> chunk_key ?b i" for q
      using store_chunks_other [OF assms(1) s(1)] keyring_items.get_other [OF assms(1) s(2)] Keyring_addToIndex_other [OF assms(1) s(3)] that by metis
    ultimately show ?thesis by blast
  next
    case False
    then obtain r1 v where s: "kr_Set K keychainService ?b (b64_encode j) r = (r1, Inr v)" "Keyring_addToIndex K n r1 = (r', Inr u)"
      using assms(2) by (auto simp: Keyring_StoreSigningKey_def Let_def sbind_Inr_iff)
    have "kr_Get K keychainService ?b r' = Inr (b64_encode j)"
      using keyring_items.get_set [OF assms(1) s(1)] Keyring_addToIndex_other [OF assms(1) s(2) suffix_keys(2)] by simp
    then have "Keyring_LoadSigningKey K n r' = Inr j" by (simp add: Keyring_LoadSigningKey_def Let_def b64_no_marker)
    moreover have "kr_Get K keychainService q r' = kr_Get K keychainService q r" if "q \<noteq> ?b" "q \<noteq> indexKey" for q
      using keyring_items.get_other [OF assms(1) s(1) that(1)] Keyring_addToIndex_other [OF assms(1) s(2) that(2)] by simp
    ultimately show ?thesis by blast
  qed
  then show "Keyring_LoadSigningKey K n r' = Inr j"
    "q \<noteq> ?b \<Longrightarrow> q \<noteq> indexKey \<Longrightarrow> (\<And>i. q \<noteq> chunk_key ?b i) \<Longrightarrow> kr_Get K keychainService q r' = kr_Get K keychainService q r"
    by blast+
qed

text \<open>The same for macOS.\<close>

lemma Darwin_addToIndex_other:
  assumes "keychain_correct K" "Darwin_addToIndex K n r = (r', res)" "k \<noteq> indexKey"
  shows "getItem K k r' = getItem K k r"
proof (cases "Darwin_ListNames K r")
  case (Inr names)
  show ?thesis
  proof (cases "n \<in> set names")
    case False
    then obtain res' where "setItem K indexKey (marshal_index (names @ [n])) r = (r', res')"
      using assms(2) Inr by (auto simp: Darwin_addToIndex_def swrap_def prod_eq_iff)
    from darwin_items.get_other [OF assms(1) this assms(3)] show ?thesis .
  qed (use assms(2) Inr in \<open>simp add: Darwin_addToIndex_def\<close>)
qed (use assms(2) in \<open>simp add: Darwin_addToIndex_def\<close>)

lemma Darwin_stored:
  assumes "keychain_correct K" "sbind (swrap fmt (setItem K k v r)) (\<lambda>_. Darwin_addToIndex K n) = (r', Inr u)" "k \<noteq> indexKey"
  shows "getItem K k r' = Inr v" "q \<noteq> k \<Longrightarrow> q \<noteq> indexKey \<Longrightarrow> getItem K q r' = getItem K q r"
proof -
  obtain r1 w where s: "setItem K k v r = (r1, Inr w)" "Darwin_addToIndex K n r1 = (r', Inr u)"
    using assms(2) by (auto simp: sbind_Inr_iff)
  show "getItem K k r' = Inr v"
    using darwin_items.get_set [OF assms(1) s(1)] Darwin_addToIndex_other [OF assms(1) s(2) assms(3)] by simp
  show "getItem K q r' = getItem K q r" if "q \<noteq> k" "q \<noteq> indexKey"
    using darwin_items.get_other [OF assms(1) s(1) that(1)] Darwin_addToIndex_other [OF assms(1) s(2) that(2)] by simp
qed

section \<open>Both backends keep the contract of a key store\<close>

lemma on_state_Inr: "on_state f s = (s', Inr a) \<longleftrightarrow> (\<exists>r. f (fst s) = (r, Inr a) \<and> s' = (r, snd s))"
  by (auto simp: on_state_def split: prod.splits)

interpretation keyring_ks: keystore "Keyring_Keystore goos K" "\<lambda>_. keyring_correct K \<and> goos \<noteq> ''windows''" "\<lambda>_. True" "\<lambda>_. True" for goos K
proof
  fix s n k r1 s1 u1 r2 j s2 u2 r3 r4
  assume i: "keyring_correct K \<and> goos \<noteq> ''windows''"
    and e: "ks_StoreEncryptionIdentity (Keyring_Keystore goos K) r1 n k s = (s1, Inr u1)"
    and g: "ks_StoreSigningKey (Keyring_Keystore goos K) r2 n j s1 = (s2, Inr u2)"
  have e': "Keyring_StoreEncryptionIdentity K n k (fst s) = (fst s1, Inr u1)" using e by (auto simp: Keyring_Keystore_def on_state_Inr)
  have g': "Keyring_StoreSigningKey goos K n j (fst s1) = (fst s2, Inr u2)" using g by (auto simp: Keyring_Keystore_def on_state_Inr)
  have "Keyring_LoadSigningKey K n (fst s2) = Inr j" using i by (intro Keyring_sign_stored(1) [OF _ g']) simp_all
  moreover have "Keyring_LoadEncryptionIdentity K n (fst s2) = Inr k"
    using i Keyring_sign_stored(2) [OF _ g', of "n @ encKeySuffix"] Keyring_enc_stored(1) [OF _ e']
    by (simp add: Keyring_LoadEncryptionIdentity_def suffix_keys)
  ultimately show "(keyring_correct K \<and> goos \<noteq> ''windows'') \<and> (\<exists>s3 s4. ks_LoadEncryptionIdentity (Keyring_Keystore goos K) r3 n s2 = (s3, Inr k)
      \<and> ks_LoadSigningKey (Keyring_Keystore goos K) r4 n s3 = (s4, Inr j))"
    using i by (simp add: Keyring_Keystore_def)
qed simp_all

interpretation darwin_ks: keystore "Darwin_Keystore K" "\<lambda>_. keychain_correct K" "\<lambda>_. True" "\<lambda>_. True" for K
proof
  fix s n k r1 s1 u1 r2 j s2 u2 r3 r4
  assume i: "keychain_correct K"
    and e: "ks_StoreEncryptionIdentity (Darwin_Keystore K) r1 n k s = (s1, Inr u1)"
    and g: "ks_StoreSigningKey (Darwin_Keystore K) r2 n j s1 = (s2, Inr u2)"
  have e': "Darwin_StoreEncryptionIdentity K n k (fst s) = (fst s1, Inr u1)" using e by (auto simp: Darwin_Keystore_def on_state_Inr)
  have g': "Darwin_StoreSigningKey K n j (fst s1) = (fst s2, Inr u2)" using g by (auto simp: Darwin_Keystore_def on_state_Inr)
  note st = Darwin_stored [OF i e' [unfolded Darwin_StoreEncryptionIdentity_def] suffix_keys(1)]
    Darwin_stored [OF i g' [unfolded Darwin_StoreSigningKey_def] suffix_keys(2)]
  have "getItem K (n @ encKeySuffix) (fst s2) = Inr k" "getItem K (n @ signKeySuffix) (fst s2) = Inr (b64_encode j)"
    using st(1,3) st(4) [of "n @ encKeySuffix"] by (simp_all add: suffix_keys)
  then show "keychain_correct K \<and> (\<exists>s3 s4. ks_LoadEncryptionIdentity (Darwin_Keystore K) r3 n s2 = (s3, Inr k)
      \<and> ks_LoadSigningKey (Darwin_Keystore K) r4 n s3 = (s4, Inr j))"
    using i by (simp add: Darwin_Keystore_def Darwin_LoadEncryptionIdentity_def Darwin_LoadSigningKey_def)
qed simp_all

section \<open>The bound of the Credential Manager\<close>

text \<open>A keychain that refuses every value beyond the bound, the name index apart, as go-keyring does on Windows.\<close>

definition size_limited :: "'r Keyring \<Rightarrow> 'r Keyring" where
  "size_limited K = K\<lparr>kr_Set := (\<lambda>sv k v r. if k \<noteq> indexKey \<and> int (length v) > maxKeychainChunk
     then (r, Inl (Sentinel ''data passed to Set was too big'')) else kr_Set K sv k v r)\<rparr>"

lemma size_limited_set:
  "int (length v) \<le> maxKeychainChunk \<or> k = indexKey \<Longrightarrow> kr_Set (size_limited K) sv k v r = kr_Set K sv k v r"
  "kr_Get (size_limited K) = kr_Get K"
  by (auto simp: size_limited_def)

lemma size_limited_index: "Keyring_addToIndex (size_limited K) n = Keyring_addToIndex K n"
proof -
  have "kr_Set (size_limited K) sv indexKey = kr_Set K sv indexKey" for sv by (simp add: fun_eq_iff size_limited_set)
  then show ?thesis unfolding Keyring_addToIndex_def Keyring_ListNames_def size_limited_set(2) by presburger
qed

lemma size_limited_chunks:
  "\<forall>c\<in>set cs. int (length c) \<le> maxKeychainChunk \<Longrightarrow> store_chunks (size_limited K) base i cs r = store_chunks K base i cs r"
proof (induction cs arbitrary: i r)
  case (Cons c cs)
  then have "store_chunks (size_limited K) base (Suc i) cs = store_chunks K base (Suc i) cs" by (simp add: fun_eq_iff)
  with Cons.prems show ?case by (simp add: size_limited_set)
qed simp

lemma length_dec: "n < 10 ^ k \<Longrightarrow> 0 < k \<Longrightarrow> length (dec n) \<le> k"
proof (induction k arbitrary: n)
  case (Suc k)
  show ?case
  proof (cases "n < 10")
    case True
    then show ?thesis by (simp add: dec.simps [of n])
  next
    case False
    have "k \<noteq> 0" using Suc.prems(1) False by (cases k) auto
    moreover have "n div 10 < 10 ^ k" using Suc.prems(1) by (simp add: less_mult_imp_div_less mult.commute)
    ultimately have "length (dec (n div 10)) \<le> k" by (intro Suc.IH) simp_all
    then show ?thesis using False by (simp add: dec.simps [of n])
  qed
qed simp

lemma size_limited_sign:
  assumes "length (b64_encode j) < 2 ^ 63"
  shows "Keyring_StoreSigningKey ''windows'' (size_limited K) n j r = Keyring_StoreSigningKey ''windows'' K n j r"
proof (cases "int (length (b64_encode j)) > maxKeychainChunk")
  case True
  let ?cs = "chunkString (b64_encode j) maxKeychainChunk"
  have "\<forall>c\<in>set ?cs. int (length c) \<le> maxKeychainChunk" using chunkString_bound [of maxKeychainChunk] by (auto simp: maxKeychainChunk_def)
  then have chunks: "store_chunks (size_limited K) b 0 ?cs = store_chunks K b 0 ?cs" for b by (simp add: fun_eq_iff size_limited_chunks)
  have "b64_encode j \<noteq> []" using True by (auto simp: maxKeychainChunk_def)
  then have "length ?cs \<le> length (b64_encode j)" by (intro chunkString_count) (simp_all add: maxKeychainChunk_def)
  then have "length ?cs < 2 ^ 63" using assms by simp
  also have "(2 :: nat) ^ 63 \<le> 10 ^ 19" by simp
  finally have "length (dec (length ?cs)) \<le> 19" by (intro length_dec) simp_all
  then have "int (length (chunkMarker (length ?cs))) \<le> maxKeychainChunk" by (simp add: chunkMarker_def chunkMarkerPrefix_def maxKeychainChunk_def)
  then show ?thesis using True by (simp add: Keyring_StoreSigningKey_def storeSigningKeyChunked_def Let_def chunks size_limited_set size_limited_index)
next
  case False
  then show ?thesis by (simp add: Keyring_StoreSigningKey_def Let_def size_limited_set size_limited_index)
qed

section \<open>Properties\<close>

lemma Keyring_keys_kept:
  assumes "keyring_correct K" "length (b64_encode j) < 2 ^ 63"
    and "Keyring_StoreEncryptionIdentity K n k r = (r1, Inr u1)" "Keyring_StoreSigningKey goos K n j r1 = (r2, Inr u2)"
  shows "Keyring_LoadEncryptionIdentity K n r2 = Inr k" "Keyring_LoadSigningKey K n r2 = Inr j"
    "m \<noteq> n \<Longrightarrow> Keyring_LoadEncryptionIdentity K m r2 = Keyring_LoadEncryptionIdentity K m r"
    "m \<noteq> n \<Longrightarrow> Keyring_LoadSigningKey K m r2 = Keyring_LoadSigningKey K m r"
proof -
  note e = Keyring_enc_stored [OF assms(1,3)] and g = Keyring_sign_stored [OF assms(1,4)]
  have other: "kr_Get K keychainService q r2 = kr_Get K keychainService q r"
    if "q \<noteq> n @ encKeySuffix" "q \<noteq> n @ signKeySuffix" "q \<noteq> indexKey" "\<And>i. q \<noteq> chunk_key (n @ signKeySuffix) i" for q
    using g(2) [of q] e(2) [of q] that assms(2) by simp
  show "Keyring_LoadSigningKey K n r2 = Inr j" using g(1) assms(2) by simp
  show "Keyring_LoadEncryptionIdentity K n r2 = Inr k"
    using e(1) g(2) [of "n @ encKeySuffix"] assms(2) by (simp add: Keyring_LoadEncryptionIdentity_def suffix_keys)
  show "Keyring_LoadEncryptionIdentity K m r2 = Keyring_LoadEncryptionIdentity K m r" if "m \<noteq> n"
    using other [of "m @ encKeySuffix"] that by (simp add: Keyring_LoadEncryptionIdentity_def suffix_keys)
  show "Keyring_LoadSigningKey K m r2 = Keyring_LoadSigningKey K m r" if "m \<noteq> n"
  proof -
    have "kr_Get K keychainService (m @ signKeySuffix) r2 = kr_Get K keychainService (m @ signKeySuffix) r"
      using other [of "m @ signKeySuffix"] that by (simp add: suffix_keys)
    moreover have "kr_Get K keychainService (chunk_key (m @ signKeySuffix) i) r2 = kr_Get K keychainService (chunk_key (m @ signKeySuffix) i) r" for i
      using that by (intro other) (auto simp: suffix_keys dest: chunk_key_split)
    then have "load_chunks K (m @ signKeySuffix) i l b r2 = load_chunks K (m @ signKeySuffix) i l b r" for i l b
      by (induction l arbitrary: i b) simp_all
    ultimately show ?thesis by (simp add: Keyring_LoadSigningKey_def Let_def cong: option.case_cong)
  qed
qed

lemma Darwin_keys_kept:
  assumes "keychain_correct C"
    and "Darwin_StoreEncryptionIdentity C n k r = (r1, Inr u1)" "Darwin_StoreSigningKey C n j r1 = (r2, Inr u2)"
  shows "Darwin_LoadEncryptionIdentity C n r2 = Inr k" "Darwin_LoadSigningKey C n r2 = Inr j"
    "m \<noteq> n \<Longrightarrow> Darwin_LoadEncryptionIdentity C m r2 = Darwin_LoadEncryptionIdentity C m r"
    "m \<noteq> n \<Longrightarrow> Darwin_LoadSigningKey C m r2 = Darwin_LoadSigningKey C m r"
proof -
  note e = Darwin_stored [OF assms(1) assms(2) [unfolded Darwin_StoreEncryptionIdentity_def] suffix_keys(1)]
    and g = Darwin_stored [OF assms(1) assms(3) [unfolded Darwin_StoreSigningKey_def] suffix_keys(2)]
  show "Darwin_LoadSigningKey C n r2 = Inr j" using g(1) by (simp add: Darwin_LoadSigningKey_def)
  show "Darwin_LoadEncryptionIdentity C n r2 = Inr k"
    using e(1) g(2) [of "n @ encKeySuffix"] by (simp add: Darwin_LoadEncryptionIdentity_def suffix_keys)
  show "Darwin_LoadEncryptionIdentity C m r2 = Darwin_LoadEncryptionIdentity C m r" if "m \<noteq> n"
    using e(2) [of "m @ encKeySuffix"] g(2) [of "m @ encKeySuffix"] that by (simp add: Darwin_LoadEncryptionIdentity_def suffix_keys)
  show "Darwin_LoadSigningKey C m r2 = Darwin_LoadSigningKey C m r" if "m \<noteq> n"
    using e(2) [of "m @ signKeySuffix"] g(2) [of "m @ signKeySuffix"] that by (simp add: Darwin_LoadSigningKey_def suffix_keys)
qed

text \<open>
  C31. KeychainStore gives back the keys it was given, with both backends, the one over go-keyring
  (whatever the platform: Windows splits a long signing key into chunks behind a marker that no base64 text
  can be mistaken for) and the one of macOS: after both keys of a name were stored without error, both load as
  they were stored, and the keys of every other name load as before. On Windows no value handed to the keychain
  for a signing key, chunk or marker, exceeds 2048 bytes: a keychain that refuses every longer value, the
  name index apart, stores it in the same way. Assumed of the keychain: what was set is read back and no
  other item changes; and of the key, that its base64 text is shorter than two to the power 63.
\<close>

theorem KeychainStore_keys_kept:
  assumes "(ks = Keyring_Keystore goos K \<and> keyring_correct K) \<or> (ks = Darwin_Keystore C \<and> keychain_correct C)" "length (b64_encode j) < 2 ^ 63"
    and "ks_StoreEncryptionIdentity ks rnd1 n k s = (s1, Inr u1)" "ks_StoreSigningKey ks rnd2 n j s1 = (s2, Inr u2)"
  shows "ks_LoadEncryptionIdentity ks rnd3 n s2 = (s2, Inr k) \<and> ks_LoadSigningKey ks rnd4 n s2 = (s2, Inr j)
     \<and> (\<forall>m. m \<noteq> n \<longrightarrow> snd (ks_LoadEncryptionIdentity ks rnd3 m s2) = snd (ks_LoadEncryptionIdentity ks rnd3 m s)
          \<and> snd (ks_LoadSigningKey ks rnd4 m s2) = snd (ks_LoadSigningKey ks rnd4 m s))
     \<and> snd s2 = snd s
     \<and> (\<forall>r. Keyring_StoreSigningKey ''windows'' (size_limited K) n j r = Keyring_StoreSigningKey ''windows'' K n j r)"
  using assms(1)
proof (elim disjE conjE)
  assume ks: "ks = Keyring_Keystore goos K" "keyring_correct K"
  have "Keyring_StoreEncryptionIdentity K n k (fst s) = (fst s1, Inr u1)" "Keyring_StoreSigningKey goos K n j (fst s1) = (fst s2, Inr u2)" "snd s2 = snd s"
    using assms(3,4) by (auto simp: ks(1) Keyring_Keystore_def on_state_Inr)
  from Keyring_keys_kept [OF ks(2) assms(2) this(1,2)] this(3) size_limited_sign [OF assms(2), of K] show ?thesis by (simp add: ks(1) Keyring_Keystore_def)
next
  assume ks: "ks = Darwin_Keystore C" "keychain_correct C"
  have "Darwin_StoreEncryptionIdentity C n k (fst s) = (fst s1, Inr u1)" "Darwin_StoreSigningKey C n j (fst s1) = (fst s2, Inr u2)" "snd s2 = snd s"
    using assms(3,4) by (auto simp: ks(1) Darwin_Keystore_def on_state_Inr)
  from Darwin_keys_kept [OF ks(2) this(1,2)] this(3) size_limited_sign [OF assms(2), of K] show ?thesis by (simp add: ks(1) Darwin_Keystore_def)
qed

definition toy_keyring :: "(bytes \<rightharpoonup> bytes) Keyring" where
  "toy_keyring = \<lparr>kr_Set = (\<lambda>sv k v r. (r(k \<mapsto> v), Inr ())),
     kr_Get = (\<lambda>sv k r. case r k of None \<Rightarrow> Inl keyring_ErrNotFound | Some v \<Rightarrow> Inr v),
     kr_Delete = (\<lambda>sv k r. (r(k := None), Inr ()))\<rparr>"

lemma toy_keyring_correct: "keyring_correct toy_keyring"
  by (simp add: keyring_correct_def toy_keyring_def)

lemma toy_chunks: "\<exists>r'. store_chunks toy_keyring base i cs r = (r', Inr ()) \<and> r' indexKey = r indexKey"
proof (induction cs arbitrary: i r)
  case (Cons c cs)
  then obtain r' where "store_chunks toy_keyring base (Suc i) cs (r(chunk_key base i \<mapsto> c)) = (r', Inr ())" "r' indexKey = r indexKey"
    using suffix_keys(3) by (metis fun_upd_other)
  then show ?case by (simp add: toy_keyring_def)
qed simp

lemma length_b64_encode: "length (b64_encode bs) = 4 * ((length bs + 2) div 3)"
  by (induction bs rule: b64_encode.induct) (simp_all, presburger)

text \<open>A signing key of 3000 bytes, which Windows stores in two chunks.\<close>

theorem KeychainStore_keys_kept_witness:
  "\<exists>s1 s2. ks_StoreEncryptionIdentity (Keyring_Keystore ''windows'' toy_keyring) (\<lambda>_. []) ''alice'' ''k'' (Map.empty, empty_disk) = (s1, Inr ())
     \<and> ks_StoreSigningKey (Keyring_Keystore ''windows'' toy_keyring) (\<lambda>_. []) ''alice'' (replicate 3000 (CHR ''x'')) s1 = (s2, Inr ())
     \<and> int (length (b64_encode (replicate 3000 (CHR ''x'')))) > maxKeychainChunk
     \<and> ks_LoadSigningKey (Keyring_Keystore ''windows'' toy_keyring) (\<lambda>_. []) ''alice'' s2 = (s2, Inr (replicate 3000 (CHR ''x'')))"
proof -
  let ?ks = "Keyring_Keystore ''windows'' toy_keyring"
  define j where "j = replicate 3000 (CHR ''x'')"
  have long: "length (b64_encode j) = 4000" by (simp add: length_b64_encode j_def)
  have idx: "parse_index (marshal_index [''alice'']) = Inr [''alice'']"
    by (intro parse_index_marshal) (simp add: valid_utf8_ascii ascii_def)
  have "\<exists>r1. Keyring_StoreEncryptionIdentity toy_keyring ''alice'' ''k'' Map.empty = (r1, Inr ()) \<and> r1 indexKey = Some (marshal_index [''alice''])"
    by (simp add: Keyring_StoreEncryptionIdentity_def Keyring_addToIndex_def Keyring_ListNames_def toy_keyring_def indexKey_def encKeySuffix_def)
  then obtain r1 where 1: "Keyring_StoreEncryptionIdentity toy_keyring ''alice'' ''k'' Map.empty = (r1, Inr ())"
      "r1 indexKey = Some (marshal_index [''alice''])" by blast
  let ?cs = "chunkString (b64_encode j) maxKeychainChunk" and ?b = "''alice'' @ signKeySuffix"
  obtain r2 where 2: "store_chunks toy_keyring ?b 0 ?cs r1 = (r2, Inr ())" "r2 indexKey = Some (marshal_index [''alice''])"
    using toy_chunks [of ?b 0 ?cs r1] 1(2) by auto
  have "Keyring_StoreSigningKey ''windows'' toy_keyring ''alice'' j r1 = (r2(?b \<mapsto> chunkMarker (length ?cs)), Inr ())"
    using 2 idx suffix_keys(2) [of "''alice''"] long by (simp add: Keyring_StoreSigningKey_def storeSigningKeyChunked_def Let_def maxKeychainChunk_def Keyring_addToIndex_def
        Keyring_ListNames_def toy_keyring_def)
  then obtain r3 where 3: "Keyring_StoreSigningKey ''windows'' toy_keyring ''alice'' j r1 = (r3, Inr ())" by blast
  have s: "ks_StoreEncryptionIdentity ?ks (\<lambda>_. []) ''alice'' ''k'' (Map.empty, empty_disk) = ((r1, empty_disk), Inr ())"
      "ks_StoreSigningKey ?ks (\<lambda>_. []) ''alice'' j (r1, empty_disk) = ((r3, empty_disk), Inr ())"
    using 1(1) 3 by (simp_all add: Keyring_Keystore_def on_state_def)
  have "length (b64_encode j) < 2 ^ 63" using long by simp
  from KeychainStore_keys_kept [where C = undefined, OF disjI1 [OF conjI [OF refl toy_keyring_correct]] this s] s long
  show ?thesis unfolding j_def [symmetric] by (auto simp: maxKeychainChunk_def)
qed

end
