(* ===== verification/Icfx_Roaming.thy ===== *)
theory Icfx_Roaming
  imports Icfx_Keychain Icfx_Identity "HOL-Library.Char_ord" "HOL-Library.List_Lexorder"
begin

text \<open>
  Package profile, the part that moves identities between the devices of a person (types.go,
  identities.go, roaming_fns.go, filename.go): each identity travels in the form it has at rest, inside
  an archive that is encrypted under the account key. archive/tar over compress/gzip is the parameter
  \<open>Archive\<close>: the entries in order, and for reading the error that ended it. A world is the state of the
  key store that stands for the OS keychain, and the disk; the two callbacks act on it.
\<close>

section \<open>Bundles\<close>

type_synonym 's world = "'s \<times> disk"

definition bundleVersion :: int where "bundleVersion = 1"

definition roamingBundleVersion :: int where "roamingBundleVersion = 2"

definition ProtectionPassphrase :: bytes where "ProtectionPassphrase = ''passphrase''"

definition ProtectionHW :: bytes where "ProtectionHW = ''hw''"

definition ProtectionCloud :: bytes where "ProtectionCloud = ''cloud''"

record ManifestIdentity =
  mi_Name :: bytes
  mi_HWKey :: bool
  mi_Protection :: bytes
  mi_HWKEK :: bytes
  mi_Fingerprint :: bytes

record Manifest =
  mf_Version :: int
  mf_ExportedAt :: gotime
  mf_Identities :: "ManifestIdentity list"
  mf_ContactCount :: int
  mf_DefaultIdentity :: bytes

definition zero_ManifestIdentity :: ManifestIdentity where
  "zero_ManifestIdentity = \<lparr>mi_Name = [], mi_HWKey = False, mi_Protection = [], mi_HWKEK = [], mi_Fingerprint = []\<rparr>"

definition zero_Manifest :: Manifest where
  "zero_Manifest = \<lparr>mf_Version = 0, mf_ExportedAt = zero_time, mf_Identities = [], mf_ContactCount = 0, mf_DefaultIdentity = []\<rparr>"

definition ManifestIdentity_fields :: "ManifestIdentity field list" where
  "ManifestIdentity_fields =
     [fld ''name'' dec_str mi_Name mi_Name_update,
      fld ''hw_key'' dec_bool mi_HWKey mi_HWKey_update,
      fld ''protection'' dec_str mi_Protection mi_Protection_update,
      fld ''hw_kek'' dec_str mi_HWKEK mi_HWKEK_update,
      fld ''fingerprint'' dec_str mi_Fingerprint mi_Fingerprint_update]"

definition enc_ManifestIdentity :: "ManifestIdentity \<Rightarrow> json" where
  "enc_ManifestIdentity m = JObj (
     [(''name'', jstr (mi_Name m)), (''hw_key'', JBool (mi_HWKey m))]
     @ omit (mi_Protection m = []) ''protection'' (jstr (mi_Protection m))
     @ omit (mi_HWKEK m = []) ''hw_kek'' (jstr (mi_HWKEK m))
     @ omit (mi_Fingerprint m = []) ''fingerprint'' (jstr (mi_Fingerprint m)))"

definition Manifest_fields :: "Manifest field list" where
  "Manifest_fields =
     [fld ''version'' dec_int mf_Version mf_Version_update,
      fld ''exported_at'' dec_time mf_ExportedAt mf_ExportedAt_update,
      fld ''identities'' (dec_list (dec_struct ManifestIdentity_fields) zero_ManifestIdentity) mf_Identities mf_Identities_update,
      fld ''contact_count'' dec_int mf_ContactCount mf_ContactCount_update,
      fld ''default_identity'' dec_str mf_DefaultIdentity mf_DefaultIdentity_update]"

definition enc_Manifest :: "Manifest \<Rightarrow> json" where
  "enc_Manifest m = JObj (
     [(''version'', jint (mf_Version m)), (''exported_at'', jtime (mf_ExportedAt m)),
      (''identities'', if mf_Identities m = [] then JNull else JArr (map enc_ManifestIdentity (mf_Identities m))),
      (''contact_count'', jint (mf_ContactCount m))]
     @ omit (mf_DefaultIdentity m = []) ''default_identity'' (jstr (mf_DefaultIdentity m)))"

record RoamingEntry =
  re_Protection :: bytes
  re_Enc :: bytes
  re_Sign :: bytes
  re_Challenge :: bytes
  re_HWKEK :: bytes

type_synonym 's IdentityExportFn = "IdentityIndex \<Rightarrow> 's world \<Rightarrow> 's world \<times> RoamingEntry result"

type_synonym 's IdentityImportFn = "bytes \<Rightarrow> RoamingEntry \<Rightarrow> 's world \<Rightarrow> 's world \<times> bytes result"

section \<open>Archives\<close>

record Archive =
  ar_Write :: "(bytes \<times> bytes) list \<Rightarrow> bytes result"
  ar_Read :: "bytes \<Rightarrow> ((bytes \<times> bytes) list \<times> go_error option) result"

text \<open>The map from names to bodies: a later entry of the same name replaces the earlier one.\<close>

fun read_entries :: "(bytes \<times> bytes) list \<Rightarrow> go_error option \<Rightarrow> (bytes \<rightharpoonup> bytes) \<Rightarrow> (bytes \<rightharpoonup> bytes) result" where
  "read_entries [] e out = (case e of Some er \<Rightarrow> Inl (Wrap ''reading bundle entry: %w'' er) | None \<Rightarrow> Inr out)"
| "read_entries ((name, body) # hs) e out =
     (if Contains (Clean name) ''..'' \<or> HasPrefix (Clean name) ''/'' then Inl (Errorf ''invalid bundle entry path: %s'')
      else read_entries hs e (out(name \<mapsto> body)))"

definition readTarEntries :: "Archive \<Rightarrow> bytes \<Rightarrow> (bytes \<rightharpoonup> bytes) result" where
  "readTarEntries A gzipped =
     andthen (wrapping ''decompressing bundle: %w'' (ar_Read A gzipped)) (\<lambda>(hs, e). read_entries hs e Map.empty)"

definition parse_manifest :: "(bytes \<rightharpoonup> bytes) \<Rightarrow> Manifest result" where
  "parse_manifest entries =
     (case entries ''manifest.json'' of
        None \<Rightarrow> Inl (Errorf ''manifest entry missing from bundle'')
      | Some bs \<Rightarrow> (case unmarshal (dec_struct Manifest_fields) zero_Manifest bs of
            None \<Rightarrow> Inl (Wrap ''parsing manifest: %w'' (Errorf ''json'')) | Some m \<Rightarrow> Inr m))"

definition NewIdStore :: "env \<Rightarrow> IdStore result" where
  "NewIdStore E =
     andthen (wrapping ''resolving identities file path: %w'' (IdentitiesFilePath E)) (\<lambda>path.
     andthen (wrapping ''resolving identity meta dir: %w'' (IdentityMetaDir E)) (\<lambda>metaDir.
     Inr \<lparr>st_path = path, st_metaDir = metaDir\<rparr>))"

section \<open>The digest of the local set\<close>

definition digest_field :: "bytes \<Rightarrow> bytes" where
  "digest_field field = put_uint64 (of_nat (length field)) @ field"

text \<open>The loop over the entries; what it fed to the hash so far is an argument.\<close>

fun digest_entries ::
    "'s IdentityExportFn \<Rightarrow> IdStore \<Rightarrow> IdentityIndex list \<Rightarrow> bytes \<Rightarrow> 's world \<Rightarrow> 's world \<times> bytes result" where
  "digest_entries exportFn st [] h w = (w, Inr h)"
| "digest_entries exportFn st (e # es) h w =
     sbind (swrap ''exporting identity %q: %w'' (exportFn e w)) (\<lambda>re w.
     let meta = ReadFile (snd w) (meta_path st (ix_Name e)) in
     (case meta of
        Inl er \<Rightarrow> (if IsNotExist meta then digest_entries exportFn st es
              (h @ digest_field (ix_Name e) @ digest_field (re_Protection re) @ digest_field (re_Enc re) @ digest_field (re_Sign re)
                 @ digest_field (re_Challenge re) @ digest_field []) w
            else (w, Inl (Wrap ''reading meta for %q: %w'' er)))
      | Inr m \<Rightarrow> digest_entries exportFn st es
              (h @ digest_field (ix_Name e) @ digest_field (re_Protection re) @ digest_field (re_Enc re) @ digest_field (re_Sign re)
                 @ digest_field (re_Challenge re) @ digest_field m) w))"

definition RoamingDigest :: "prims \<Rightarrow> env \<Rightarrow> 's IdentityExportFn \<Rightarrow> 's world \<Rightarrow> 's world \<times> bytes result" where
  "RoamingDigest P E exportFn w =
     sbind (w, wrapping ''creating identity store: %w'' (NewIdStore E)) (\<lambda>st w.
     sbind (w, wrapping ''loading identity index: %w'' (LoadIndex (st_path st) (snd w))) (\<lambda>entries w.
     sbind (digest_entries exportFn st (sort_key ix_Name entries) [] w) (\<lambda>h w.
     (w, Inr (hex_encode (sha256 P h))))))"

section \<open>Export\<close>

text \<open>The default identity in the configuration, empty when there is none or it cannot be read.\<close>

definition local_default :: "Toml \<Rightarrow> env \<Rightarrow> disk \<Rightarrow> bytes" where
  "local_default T E d = (case Config_Load T E d of Inl _ \<Rightarrow> [] | Inr cfg \<Rightarrow> DefaultIdentity cfg)"

text \<open>The archive entries of one identity.\<close>

definition identity_base :: "bytes \<Rightarrow> bytes" where "identity_base name = ''identities/'' @ name @ ''/''"

definition entry_files :: "bytes \<Rightarrow> RoamingEntry \<Rightarrow> bytes option \<Rightarrow> (bytes \<times> bytes) list" where
  "entry_files name re meta =
     [(identity_base name @ ''enc'', re_Enc re), (identity_base name @ ''sign'', re_Sign re)]
     @ (if length (re_Challenge re) > 0 then [(identity_base name @ ''challenge'', re_Challenge re)] else [])
     @ (case meta of None \<Rightarrow> [] | Some m \<Rightarrow> [(identity_base name @ ''meta'', m)])"

definition manifest_identity :: "IdentityIndex \<Rightarrow> RoamingEntry \<Rightarrow> ManifestIdentity" where
  "manifest_identity e re = \<lparr>mi_Name = ix_Name e, mi_HWKey = (re_Protection re = ProtectionHW), mi_Protection = re_Protection re,
     mi_HWKEK = re_HWKEK re, mi_Fingerprint = ix_Fingerprint e\<rparr>"

fun export_entries ::
    "'s IdentityExportFn \<Rightarrow> IdStore \<Rightarrow> IdentityIndex list \<Rightarrow> (bytes \<times> bytes) list \<times> ManifestIdentity list \<Rightarrow> 's world
     \<Rightarrow> 's world \<times> ((bytes \<times> bytes) list \<times> ManifestIdentity list) result" where
  "export_entries exportFn st [] acc w = (w, Inr acc)"
| "export_entries exportFn st (e # es) acc w =
     sbind (swrap ''exporting identity %q: %w'' (exportFn e w)) (\<lambda>re w.
     let meta = ReadFile (snd w) (meta_path st (ix_Name e)) in
     (case meta of
        Inl er \<Rightarrow> (if IsNotExist meta
             then export_entries exportFn st es (fst acc @ entry_files (ix_Name e) re None, snd acc @ [manifest_identity e re]) w
             else (w, Inl (Wrap ''writing meta for %q: %w'' er)))
      | Inr m \<Rightarrow> export_entries exportFn st es (fst acc @ entry_files (ix_Name e) re (Some m), snd acc @ [manifest_identity e re]) w))"

definition ExportIdentitiesToBytes ::
    "prims \<Rightarrow> Archive \<Rightarrow> Toml \<Rightarrow> env \<Rightarrow> bytes \<Rightarrow> gotime \<Rightarrow> bytes \<Rightarrow> 's IdentityExportFn \<Rightarrow> 's world \<Rightarrow> 's world \<times> bytes result" where
  "ExportIdentitiesToBytes P A T E rnd now outerKey exportFn w =
     (if outerKey = [] then (w, Inl (Errorf ''outer key cannot be empty''))
      else
      sbind (w, wrapping ''creating identity store: %w'' (NewIdStore E)) (\<lambda>st w.
      sbind (w, wrapping ''loading identity index: %w'' (LoadIndex (st_path st) (snd w))) (\<lambda>entries w.
      let def = local_default T E (snd w) in
      sbind (export_entries exportFn st entries ([], []) w) (\<lambda>(files, ids) w.
      let manifest = \<lparr>mf_Version = roamingBundleVersion, mf_ExportedAt = now, mf_Identities = ids, mf_ContactCount = 0,
            mf_DefaultIdentity = def\<rparr> in
      if \<not> marshals now then (w, Inl (Wrap ''marshaling manifest: %w'' (Errorf ''json'')))
      else sbind (w, wrapping ''writing archive: %w'' (ar_Write A (files @ [(''manifest.json'', indented (enc_Manifest manifest))]))) (\<lambda>buf w.
      (w, EncryptWithPassphraseBytes P rnd buf outerKey))))))"

section \<open>Import\<close>

definition open_roaming :: "prims \<Rightarrow> Archive \<Rightarrow> bytes \<Rightarrow> bytes \<Rightarrow> ((bytes \<rightharpoonup> bytes) \<times> Manifest) result" where
  "open_roaming P A data outerKey =
     (if outerKey = [] then Inl (Errorf ''outer key cannot be empty'')
      else
      andthen (wrapping ''decrypting identities bundle (wrong cloud password?): %w'' (DecryptWithPassphraseBytes P data outerKey)) (\<lambda>plaintext.
      andthen (readTarEntries A plaintext) (\<lambda>entries.
      andthen (parse_manifest entries) (\<lambda>manifest. Inr (entries, manifest)))))"

definition PeekRoamingManifest :: "prims \<Rightarrow> Archive \<Rightarrow> bytes \<Rightarrow> bytes \<Rightarrow> Manifest result" where
  "PeekRoamingManifest P A data outerKey = andthen (open_roaming P A data outerKey) (\<lambda>(_, manifest). Inr manifest)"

definition ErrUnsupportedRoamingVersion :: go_error where
  "ErrUnsupportedRoamingVersion = Sentinel ''unsupported identities bundle version''"

text \<open>The entry of one identity in the archive, and the file of its metadata.\<close>

definition roaming_entry :: "(bytes \<rightharpoonup> bytes) \<Rightarrow> ManifestIdentity \<Rightarrow> RoamingEntry result" where
  "roaming_entry entries mi =
     (let base = identity_base (mi_Name mi) in
      case entries (base @ ''enc'') of
        None \<Rightarrow> Inl (Errorf ''enc key for identity %q missing from archive'')
      | Some enc \<Rightarrow>
        (case entries (base @ ''sign'') of
           None \<Rightarrow> Inl (Errorf ''sign key for identity %q missing from archive'')
         | Some sign \<Rightarrow> Inr \<lparr>re_Protection = mi_Protection mi, re_Enc = enc, re_Sign = sign,
             re_Challenge = (case entries (base @ ''challenge'') of None \<Rightarrow> [] | Some c \<Rightarrow> c), re_HWKEK = mi_HWKEK mi\<rparr>))"

definition import_meta :: "IdStore \<Rightarrow> (bytes \<rightharpoonup> bytes) \<Rightarrow> bytes \<Rightarrow> disk \<Rightarrow> disk \<times> unit result" where
  "import_meta st entries name d =
     (case entries (identity_base name @ ''meta'') of
        None \<Rightarrow> (d, Inr ())
      | Some metaBytes \<Rightarrow>
        sbind (d, wrapping ''creating identity meta dir: %w'' (os_MkdirAll d (st_metaDir st))) (\<lambda>_ d.
        swrap ''writing meta for %q: %w'' (os_WriteFile d (meta_path st name) metaBytes)))"

definition roaming_index :: "ManifestIdentity \<Rightarrow> bytes \<Rightarrow> IdentityIndex" where
  "roaming_index mi backend = \<lparr>ix_Name = mi_Name mi, ix_Backend = backend, ix_HWKey = mi_HWKey mi, ix_HWKEK = mi_HWKEK mi,
     ix_Fingerprint = mi_Fingerprint mi, ix_Alias = []\<rparr>"

text \<open>The map byName holds the last index of each name.\<close>

definition upsert_last :: "IdentityIndex \<Rightarrow> IdentityIndex list \<Rightarrow> IdentityIndex list" where
  "upsert_last idx index =
     (case find_index (\<lambda>e. ix_Name e = ix_Name idx) (List.rev index) of
        None \<Rightarrow> index @ [idx] | Some i \<Rightarrow> index[length index - 1 - i := idx])"

fun import_entries ::
    "'s IdentityImportFn \<Rightarrow> IdStore \<Rightarrow> (bytes \<rightharpoonup> bytes) \<Rightarrow> ManifestIdentity list \<Rightarrow> IdentityIndex list \<Rightarrow> 's world
     \<Rightarrow> 's world \<times> IdentityIndex list result" where
  "import_entries importFn st entries [] index w = (w, Inr index)"
| "import_entries importFn st entries (mi # mis) index w =
     sbind (w, roaming_entry entries mi) (\<lambda>re w.
     sbind (swrap ''importing identity %q: %w'' (importFn (mi_Name mi) re w)) (\<lambda>backend w.
     (case import_meta st entries (mi_Name mi) (snd w) of
        (d, Inl e) \<Rightarrow> ((fst w, d), Inl e)
      | (d, Inr _) \<Rightarrow> import_entries importFn st entries mis (upsert_last (roaming_index mi backend) index) (fst w, d))))"

definition ImportIdentitiesFromBytes ::
    "prims \<Rightarrow> Archive \<Rightarrow> env \<Rightarrow> bytes \<Rightarrow> bytes \<Rightarrow> 's IdentityImportFn \<Rightarrow> 's world \<Rightarrow> 's world \<times> unit result" where
  "ImportIdentitiesFromBytes P A E data outerKey importFn w =
     sbind (w, open_roaming P A data outerKey) (\<lambda>(entries, manifest) w.
     if mf_Version manifest \<noteq> roamingBundleVersion then (w, Inl (Wrap ''%w %d (this build supports %d)'' ErrUnsupportedRoamingVersion))
     else
     sbind (w, wrapping ''creating identity store: %w'' (NewIdStore E)) (\<lambda>st w.
     sbind (w, wrapping ''loading identity index: %w'' (LoadIndex (st_path st) (snd w))) (\<lambda>index w.
     sbind (import_entries importFn st entries (mf_Identities manifest) index w) (\<lambda>index w.
     (case SaveIndex (st_path st) (snd w) index of
        (d, r) \<Rightarrow> ((fst w, d), wrapping ''saving identity index: %w'' r))))))"

section \<open>The callbacks\<close>

definition readAtRestCiphertext ::
    "'s Keystore \<Rightarrow> random \<Rightarrow> bytes \<Rightarrow> IdentityIndex \<Rightarrow> 's world \<Rightarrow> 's world \<times> (bytes \<times> bytes) result" where
  "readAtRestCiphertext ks rnd keysDir idx w =
     (if ix_Backend idx \<noteq> BackendFile then
        sbind (swrap ''reading keychain enc ciphertext for %q: %w'' (ks_LoadEncryptionIdentity ks rnd (ix_Name idx) w)) (\<lambda>enc w.
        sbind (swrap ''reading keychain sign ciphertext for %q: %w'' (ks_LoadSigningKey ks rnd (ix_Name idx) w)) (\<lambda>sign w.
        (w, Inr (enc, sign))))
      else
        sbind (w, wrapping ''reading enc key for %q: %w'' (ReadFile (snd w) (filepath_Join keysDir (ix_Name idx @ ''.enc'')))) (\<lambda>enc w.
        sbind (w, wrapping ''reading sign key for %q: %w'' (ReadFile (snd w) (filepath_Join keysDir (ix_Name idx @ ''.sign'')))) (\<lambda>sign w.
        (w, Inr (enc, sign)))))"

definition RoamingExportFn :: "'s Keystore \<Rightarrow> random \<Rightarrow> bytes \<Rightarrow> 's IdentityExportFn" where
  "RoamingExportFn ks rnd keysDir idx w =
     (if ix_HWKey idx then
        sbind (readAtRestCiphertext ks rnd keysDir idx w) (\<lambda>(enc, sign) w.
        sbind (w, wrapping ''reading hw challenge for %q: %w'' (ReadFile (snd w) (filepath_Join keysDir (ix_Name idx @ ''.hwchallenge'')))) (\<lambda>challenge w.
        (w, Inr \<lparr>re_Protection = ProtectionHW, re_Enc = enc, re_Sign = sign, re_Challenge = challenge, re_HWKEK = HWKEKConvention idx\<rparr>)))
      else if ix_Backend idx = BackendFile then
        sbind (readAtRestCiphertext ks rnd keysDir idx w) (\<lambda>(enc, sign) w.
        (w, Inr \<lparr>re_Protection = ProtectionPassphrase, re_Enc = enc, re_Sign = sign, re_Challenge = [], re_HWKEK = []\<rparr>))
      else
        sbind (swrap ''reading keychain enc key for %q: %w'' (ks_LoadEncryptionIdentity ks rnd (ix_Name idx) w)) (\<lambda>enc w.
        sbind (swrap ''reading keychain sign key for %q: %w'' (ks_LoadSigningKey ks rnd (ix_Name idx) w)) (\<lambda>sign w.
        (w, Inr \<lparr>re_Protection = ProtectionCloud, re_Enc = enc, re_Sign = sign, re_Challenge = [], re_HWKEK = []\<rparr>))))"

text \<open>A prompt is a callback that may be absent; it answers every question alike or fails.\<close>

record RoamingImportOptions =
  ro_KeysDir :: bytes
  ro_DestBackend :: bytes
  ro_PromptExisting :: "(bytes \<Rightarrow> bytes result) option"
  ro_PromptNew :: "(bytes \<Rightarrow> bytes result) option"

definition writeKeyFile :: "bytes \<Rightarrow> bytes \<Rightarrow> bytes \<Rightarrow> disk \<Rightarrow> disk \<times> unit result" where
  "writeKeyFile keysDir filename data d =
     sbind (d, wrapping ''creating keys directory: %w'' (os_MkdirAll d keysDir)) (\<lambda>_ d.
     os_WriteFile d (filepath_Join keysDir filename) data)"

definition write_key :: "bytes \<Rightarrow> bytes \<Rightarrow> bytes \<Rightarrow> 's world \<Rightarrow> 's world \<times> unit result" where
  "write_key keysDir filename data w = (case writeKeyFile keysDir filename data (snd w) of (d, r) \<Rightarrow> ((fst w, d), r))"

definition storeRawKeychain :: "'s Keystore \<Rightarrow> random \<Rightarrow> bytes \<Rightarrow> bytes \<Rightarrow> bytes \<Rightarrow> 's world \<Rightarrow> 's world \<times> unit result" where
  "storeRawKeychain ks rnd name enc sign w =
     sbind (ks_StoreEncryptionIdentity ks rnd name enc w) (\<lambda>_ w. ks_StoreSigningKey ks rnd name sign w)"

definition storeCiphertext ::
    "'s Keystore \<Rightarrow> random \<Rightarrow> bytes \<Rightarrow> bytes \<Rightarrow> bytes \<Rightarrow> bytes \<Rightarrow> bytes \<Rightarrow> 's world \<Rightarrow> 's world \<times> unit result" where
  "storeCiphertext ks rnd dest keysDir name enc sign w =
     (if dest = BackendFile then
        sbind (write_key keysDir (name @ ''.enc'') enc w) (\<lambda>_ w. write_key keysDir (name @ ''.sign'') sign w)
      else sbind (ks_StoreEncryptionIdentity ks rnd name enc w) (\<lambda>_ w. ks_StoreSigningKey ks rnd name sign w))"

definition decryptWithPrompt :: "prims \<Rightarrow> RoamingImportOptions \<Rightarrow> bytes \<Rightarrow> bytes \<Rightarrow> bytes \<Rightarrow> (bytes \<times> bytes) result" where
  "decryptWithPrompt P opts name enc sign =
     (case ro_PromptExisting opts of
        None \<Rightarrow> Inl (Errorf ''importing %q into this device's keychain needs its passphrase, but no prompt was provided'')
      | Some prompt \<Rightarrow>
        andthen (prompt name) (\<lambda>pass.
        andthen (wrapping ''decrypting %q (wrong passphrase?): %w'' (DecryptWithPassphraseBytes P enc pass)) (\<lambda>encPlain.
        andthen (wrapping ''decrypting %q (wrong passphrase?): %w'' (DecryptWithPassphraseBytes P sign pass)) (\<lambda>signPlain.
        Inr (encPlain, signPlain)))))"

definition encryptRawToFile ::
    "prims \<Rightarrow> random \<Rightarrow> RoamingImportOptions \<Rightarrow> bytes \<Rightarrow> bytes \<Rightarrow> bytes \<Rightarrow> 's world \<Rightarrow> 's world \<times> unit result" where
  "encryptRawToFile P rnd opts name enc sign w =
     (case ro_PromptNew opts of
        None \<Rightarrow> (w, Inl (Errorf ''importing %q onto this file-backed device needs a new passphrase, but no prompt was provided''))
      | Some prompt \<Rightarrow>
        sbind (w, prompt name) (\<lambda>pass w.
        sbind (w, EncryptWithPassphraseBytes P (rnd 0) enc pass) (\<lambda>encCt w.
        sbind (w, EncryptWithPassphraseBytes P (rnd 1) sign pass) (\<lambda>signCt w.
        sbind (write_key (ro_KeysDir opts) (name @ ''.enc'') encCt w) (\<lambda>_ w.
        write_key (ro_KeysDir opts) (name @ ''.sign'') signCt w)))))"

definition RoamingImportFn :: "prims \<Rightarrow> 's Keystore \<Rightarrow> random \<Rightarrow> RoamingImportOptions \<Rightarrow> 's IdentityImportFn" where
  "RoamingImportFn P ks rnd opts name entry w =
     (let dest = ro_DestBackend opts in
      if re_Protection entry = ProtectionHW then
        sbind (storeCiphertext ks rnd dest (ro_KeysDir opts) name (re_Enc entry) (re_Sign entry) w) (\<lambda>_ w.
        sbind (write_key (ro_KeysDir opts) (name @ ''.hwchallenge'') (re_Challenge entry) w) (\<lambda>_ w.
        (w, Inr dest)))
      else if re_Protection entry = ProtectionPassphrase then
        (if dest = BackendFile then
           sbind (storeCiphertext ks rnd BackendFile (ro_KeysDir opts) name (re_Enc entry) (re_Sign entry) w) (\<lambda>_ w. (w, Inr BackendFile))
         else
           sbind (w, decryptWithPrompt P opts name (re_Enc entry) (re_Sign entry)) (\<lambda>(encPlain, signPlain) w.
           sbind (storeRawKeychain ks rnd name encPlain signPlain w) (\<lambda>_ w. (w, Inr BackendKeychain))))
      else
        (if dest = BackendKeychain then
           sbind (storeRawKeychain ks rnd name (re_Enc entry) (re_Sign entry) w) (\<lambda>_ w. (w, Inr BackendKeychain))
         else
           sbind (encryptRawToFile P rnd opts name (re_Enc entry) (re_Sign entry) w) (\<lambda>_ w. (w, Inr BackendFile))))"

section \<open>The name of a backup\<close>

definition defaultProfileFilename :: bytes where "defaultProfileFilename = ''profile.tar.icfx''"

definition DefaultBackupFilename :: "Toml \<Rightarrow> env \<Rightarrow> disk \<Rightarrow> bytes" where
  "DefaultBackupFilename T E d =
     (case andthen (NewIdStore E) (\<lambda>st. LoadIndex (st_path st) d) of
        Inl _ \<Rightarrow> defaultProfileFilename
      | Inr entries \<Rightarrow>
        if entries = [] then defaultProfileFilename
        else (case ResolveDefaultIndex entries (local_default T E d) of
            None \<Rightarrow> defaultProfileFilename
          | Some i \<Rightarrow> BackupLabel (entries ! i) @ ''-profile.tar.icfx''))"

section \<open>Lemmas\<close>

text \<open>The contract of archive/tar over compress/gzip: what was written is read back, whole and in order.\<close>

definition archive_correct :: "Archive \<Rightarrow> bool" where
  "archive_correct A \<longleftrightarrow> (\<forall>es b. ar_Write A es = Inr b \<longrightarrow> ar_Read A b = Inr (es, None))"

lemma Split_Join: "list_all component_ok cs \<Longrightarrow> cs \<noteq> [] \<Longrightarrow> Split (CHR ''/'') (Join ''/'' cs) = cs"
proof (induction cs)
  case (Cons c cs)
  have c: "CHR ''/'' \<notin> set c" using Cons.prems by (simp add: component_ok_def)
  show ?case
  proof (cases cs)
    case (Cons d ds)
    then show ?thesis using Cons.IH Cons.prems c by (simp add: Split_append Split_no_sep)
  qed (simp add: Split_no_sep c)
qed simp

lemma Clean_components:
  assumes "list_all component_ok cs" "cs \<noteq> []"
  shows "Clean (Join ''/'' cs) = Join ''/'' cs"
proof -
  obtain c ds where cs: "cs = c # ds" using assms(2) by (cases cs) auto
  have np: "\<not> HasPrefix (Join ''/'' cs) ''/''"
    using assms(1) cs by (cases c; cases ds) (auto simp: HasPrefix_def component_ok_def)
  have "fold (clean_step r) xs st = List.rev xs @ st" if "list_all component_ok xs" for r xs st
    using that by (induction xs arbitrary: st) (auto simp: clean_step_def component_ok_def)
  then have "clean_parts (Join ''/'' cs) = cs" using assms by (simp add: clean_parts_def Split_Join)
  then show ?thesis using assms(2) np by (simp add: Clean_def)
qed

text \<open>Two dots that come from neither part come from nowhere.\<close>

lemma Contains_dots_append:
  "\<not> Contains (a @ [c] @ b) ''..''" if "\<not> Contains a ''..''" "\<not> Contains b ''..''" "c \<noteq> CHR ''.''"
  using that
proof (induction a)
  case Nil
  then show ?case by (cases b) (auto simp: HasPrefix_def)
next
  case (Cons x a)
  then show ?case by (cases a) (auto simp: HasPrefix_def)
qed

definition leaf :: "bytes \<Rightarrow> bool" where
  "leaf l \<longleftrightarrow> l = ''enc'' \<or> l = ''sign'' \<or> l = ''challenge'' \<or> l = ''meta''"

lemma entry_path_safe:
  assumes "ValidateName n = Inr ()" "leaf l"
  shows "Clean (identity_base n @ l) = identity_base n @ l" "\<not> Contains (identity_base n @ l) ''..''" "\<not> HasPrefix (identity_base n @ l) ''/''"
proof -
  have n: "component_ok n" "\<not> Contains n ''..''"
    using assms(1) by (auto simp: ValidateName_def ContainsAny_def list_ex_iff component_ok_def split: if_splits)
  have l: "component_ok l" "\<not> Contains l ''..''" using assms(2) by (auto simp: leaf_def component_ok_def HasPrefix_def)
  have j: "identity_base n @ l = Join ''/'' [''identities'', n, l]" by (simp add: identity_base_def)
  show "Clean (identity_base n @ l) = identity_base n @ l"
    unfolding j by (rule Clean_components) (use n l in \<open>simp_all add: component_ok_def\<close>)
  have "\<not> Contains (n @ ''/'' @ l) ''..''" using Contains_dots_append [of n l "CHR ''/''"] n l by simp
  then show "\<not> Contains (identity_base n @ l) ''..''"
    using Contains_dots_append [of "''identities''" "n @ ''/'' @ l" "CHR ''/''"] by (simp add: identity_base_def HasPrefix_def)
  show "\<not> HasPrefix (identity_base n @ l) ''/''" by (simp add: identity_base_def HasPrefix_def)
qed

lemma read_entries_ok:
  assumes "\<forall>(n, b)\<in>set es. \<not> Contains (Clean n) ''..'' \<and> \<not> HasPrefix (Clean n) ''/''"
  shows "read_entries es None out = Inr (out ++ map_of (List.rev es))"
  using assms by (induction es arbitrary: out) (auto simp: map_add_def fun_eq_iff split: option.split)

lemma find_ManifestIdentity:
  "find_field ManifestIdentity_fields ''name'' = Some (snd (fld ''name'' dec_str mi_Name mi_Name_update))"
  "find_field ManifestIdentity_fields ''hw_key'' = Some (snd (fld ''hw_key'' dec_bool mi_HWKey mi_HWKey_update))"
  "find_field ManifestIdentity_fields ''protection'' = Some (snd (fld ''protection'' dec_str mi_Protection mi_Protection_update))"
  "find_field ManifestIdentity_fields ''hw_kek'' = Some (snd (fld ''hw_kek'' dec_str mi_HWKEK mi_HWKEK_update))"
  "find_field ManifestIdentity_fields ''fingerprint'' = Some (snd (fld ''fingerprint'' dec_str mi_Fingerprint mi_Fingerprint_update))"
  by (simp_all add: ManifestIdentity_fields_def find_field_def fld_def)

lemma find_Manifest:
  "find_field Manifest_fields ''version'' = Some (snd (fld ''version'' dec_int mf_Version mf_Version_update))"
  "find_field Manifest_fields ''exported_at'' = Some (snd (fld ''exported_at'' dec_time mf_ExportedAt mf_ExportedAt_update))"
  "find_field Manifest_fields ''identities'' = Some (snd (fld ''identities'' (dec_list (dec_struct ManifestIdentity_fields) zero_ManifestIdentity) mf_Identities mf_Identities_update))"
  "find_field Manifest_fields ''contact_count'' = Some (snd (fld ''contact_count'' dec_int mf_ContactCount mf_ContactCount_update))"
  "find_field Manifest_fields ''default_identity'' = Some (snd (fld ''default_identity'' dec_str mf_DefaultIdentity mf_DefaultIdentity_update))"
  by (simp_all add: Manifest_fields_def find_field_def fld_def)

definition wf_ManifestIdentity :: "ManifestIdentity \<Rightarrow> bool" where
  "wf_ManifestIdentity m \<longleftrightarrow> valid_utf8 (mi_Name m) \<and> valid_utf8 (mi_Protection m) \<and> valid_utf8 (mi_HWKEK m) \<and> valid_utf8 (mi_Fingerprint m)"

definition wf_Manifest :: "Manifest \<Rightarrow> bool" where
  "wf_Manifest m \<longleftrightarrow> int64 (mf_Version m) \<and> wf_time (mf_ExportedAt m) \<and> marshals (mf_ExportedAt m) \<and> int64 (mf_ContactCount m)
     \<and> list_all wf_ManifestIdentity (mf_Identities m) \<and> valid_utf8 (mf_DefaultIdentity m)"

lemma dec_enc_ManifestIdentity:
  "wf_ManifestIdentity m \<Longrightarrow> dec_struct ManifestIdentity_fields (enc_ManifestIdentity m) zero_ManifestIdentity = (m, DOk)"
  by (simp add: enc_ManifestIdentity_def json_rt find_ManifestIdentity fld_def wf_ManifestIdentity_def zero_ManifestIdentity_def)

lemma dec_enc_Manifest:
  assumes "wf_Manifest m"
  shows "dec_struct Manifest_fields (enc_Manifest m) zero_Manifest = (m, DOk)"
proof -
  have "dec_list (dec_struct ManifestIdentity_fields) zero_ManifestIdentity (JArr (map enc_ManifestIdentity (mf_Identities m))) cur = (mf_Identities m, DOk)" for cur
    using assms by (intro dec_jlist dec_enc_ManifestIdentity) (auto simp: list_all_iff wf_Manifest_def)
  moreover have "dec_list d z JNull [] = ([], DOk)" for d :: "ManifestIdentity decoder" and z by (simp add: dec_list_def)
  ultimately show ?thesis using assms
    by (simp add: enc_Manifest_def json_rt find_Manifest fld_def wf_Manifest_def zero_Manifest_def)
qed

lemma wf_enc_Manifest: "wf_json 10000 (enc_Manifest m)"
  by (simp add: enc_Manifest_def enc_ManifestIdentity_def valid_utf8_ascii ball_Un set_omit)

lemma parse_manifest_written:
  "wf_Manifest m \<Longrightarrow> entries ''manifest.json'' = Some (indented (enc_Manifest m)) \<Longrightarrow> parse_manifest entries = Inr m"
  by (simp add: parse_manifest_def unmarshal_indented wf_enc_Manifest dec_enc_Manifest)

text \<open>Looking up a name among the entries of several identities.\<close>

lemma map_of_concat:
  assumes "distinct es" "e \<in> set es" "\<And>e'. e' \<in> set es \<Longrightarrow> e' \<noteq> e \<Longrightarrow> k \<notin> fst ` set (g e')"
  shows "map_of (List.rev (concat (map g es))) k = map_of (List.rev (g e)) k"
  using assms
proof (induction es)
  case (Cons x es)
  show ?case
  proof (cases "x = e")
    case True
    then have "k \<notin> fst ` set (concat (map g es))" using Cons.prems by auto
    then have "map_of (List.rev (concat (map g es))) k = None" by (simp add: map_of_eq_None_iff)
    then show ?thesis using True by (simp add: map_add_def)
  next
    case False
    then have "k \<notin> fst ` set (g x)" "e \<in> set es" using Cons.prems by auto
    then have "map_of (List.rev (g x)) k = None" "map_of (List.rev (concat (map g es))) k = map_of (List.rev (g e)) k"
      using Cons by (simp_all add: map_of_eq_None_iff)
    then show ?thesis by (simp add: map_add_def split: option.split)
  qed
qed simp

lemma entry_name_inject:
  assumes "identity_base n @ l = identity_base n' @ l'" "CHR ''/'' \<notin> set n" "CHR ''/'' \<notin> set n'"
  shows "n = n'" "l = l'"
proof -
  have e: "n @ CHR ''/'' # l = n' @ CHR ''/'' # l'" using assms(1) by (simp add: identity_base_def)
  have "takeWhile (\<lambda>c. c \<noteq> CHR ''/'') (n @ CHR ''/'' # l) = n" "takeWhile (\<lambda>c. c \<noteq> CHR ''/'') (n' @ CHR ''/'' # l') = n'"
    using assms(2,3) by (auto simp: takeWhile_tail takeWhile_eq_all_conv)
  then show "n = n'" unfolding e by simp
  then show "l = l'" using e by simp
qed

lemma entry_files_names: "p \<in> fst ` set (entry_files n re m) \<Longrightarrow> \<exists>l. leaf l \<and> p = identity_base n @ l"
proof -
  assume "p \<in> fst ` set (entry_files n re m)"
  then have "p \<in> (@) (identity_base n) ` {''enc'', ''sign'', ''challenge'', ''meta''}"
    unfolding entry_files_def by (cases m; cases "re_Challenge re") auto
  then show ?thesis unfolding leaf_def by blast
qed

lemma entry_files_lookup:
  "map_of (List.rev (entry_files n re m)) (identity_base n @ ''enc'') = Some (re_Enc re)"
  "map_of (List.rev (entry_files n re m)) (identity_base n @ ''sign'') = Some (re_Sign re)"
  "map_of (List.rev (entry_files n re m)) (identity_base n @ ''challenge'') = (if re_Challenge re = [] then None else Some (re_Challenge re))"
  "map_of (List.rev (entry_files n re m)) (identity_base n @ ''meta'') = m"
  by (auto simp: entry_files_def split: option.split)

definition names_ok :: "IdentityIndex list \<Rightarrow> bool" where
  "names_ok es \<longleftrightarrow> distinct (map ix_Name es) \<and> (\<forall>e\<in>set es. ValidateName (ix_Name e) = Inr ())"

lemma ValidateName_sep: "ValidateName n = Inr () \<Longrightarrow> CHR ''/'' \<notin> set n"
  by (auto simp: ValidateName_def ContainsAny_def list_ex_iff split: if_splits)

lemma bundle_lookup:
  assumes "names_ok es" "e \<in> set es" "leaf l"
  shows "map_of (List.rev (concat (map (\<lambda>e. entry_files (ix_Name e) (R e) (M e)) es) @ [(''manifest.json'', mj)])) (identity_base (ix_Name e) @ l)
     = map_of (List.rev (entry_files (ix_Name e) (R e) (M e))) (identity_base (ix_Name e) @ l)"
proof -
  have "map_of (List.rev (concat (map (\<lambda>e. entry_files (ix_Name e) (R e) (M e)) es))) (identity_base (ix_Name e) @ l)
     = map_of (List.rev (entry_files (ix_Name e) (R e) (M e))) (identity_base (ix_Name e) @ l)"
  proof (rule map_of_concat)
    show "distinct es" "e \<in> set es" using assms by (auto simp: names_ok_def distinct_map)
    show "identity_base (ix_Name e) @ l \<notin> fst ` set (entry_files (ix_Name e') (R e') (M e'))" if "e' \<in> set es" "e' \<noteq> e" for e'
    proof
      assume "identity_base (ix_Name e) @ l \<in> fst ` set (entry_files (ix_Name e') (R e') (M e'))"
      then obtain l' where "identity_base (ix_Name e) @ l = identity_base (ix_Name e') @ l'" using entry_files_names by blast
      moreover have "CHR ''/'' \<notin> set (ix_Name e)" "CHR ''/'' \<notin> set (ix_Name e')"
        using assms that ValidateName_sep by (auto simp: names_ok_def)
      ultimately have "ix_Name e = ix_Name e'" by (rule entry_name_inject(1))
      then show False using that assms by (auto simp: names_ok_def distinct_map inj_on_def)
    qed
  qed
  moreover have "identity_base (ix_Name e) @ l \<noteq> ''manifest.json''" by (simp add: identity_base_def)
  ultimately show ?thesis by simp
qed

lemma bundle_manifest: "map_of (List.rev (files @ [(''manifest.json'', mj)])) ''manifest.json'' = Some mj"
  by simp

lemma bundle_paths_safe:
  assumes "names_ok es"
  shows "\<forall>(n, b)\<in>set (concat (map (\<lambda>e. entry_files (ix_Name e) (R e) (M e)) es) @ [(''manifest.json'', mj)]).
     \<not> Contains (Clean n) ''..'' \<and> \<not> HasPrefix (Clean n) ''/''"
proof -
  have "\<not> Contains (Clean n) ''..'' \<and> \<not> HasPrefix (Clean n) ''/''"
    if e: "e \<in> set es" and n: "(n, b) \<in> set (entry_files (ix_Name e) (R e) (M e))" for e n b
  proof -
    from n obtain l where "leaf l" "n = identity_base (ix_Name e) @ l" using entry_files_names by (metis fst_conv image_eqI)
    then show ?thesis using entry_path_safe [of "ix_Name e" l] assms e by (simp add: names_ok_def)
  qed
  moreover have "Clean ''manifest.json'' = ''manifest.json''"
    using Clean_components [of "[''manifest.json'']"] by (simp add: component_ok_def)
  ultimately show ?thesis by (auto simp: HasPrefix_def)
qed

definition meta_of :: "IdStore \<Rightarrow> disk \<Rightarrow> IdentityIndex \<Rightarrow> bytes option" where
  "meta_of st d e = (case ReadFile d (meta_path st (ix_Name e)) of Inl _ \<Rightarrow> None | Inr m \<Rightarrow> Some m)"

lemma export_entries_readonly:
  assumes "\<forall>e\<in>set es. exportFn e w = (w, Inr (R e))" "export_entries exportFn st es acc w = (w', Inr (files, ids))"
  shows "w' = w \<and> files = fst acc @ concat (map (\<lambda>e. entry_files (ix_Name e) (R e) (meta_of st (snd w) e)) es)
     \<and> ids = snd acc @ map (\<lambda>e. manifest_identity e (R e)) es"
  using assms
proof (induction es arbitrary: acc)
  case (Cons e es)
  have "export_entries exportFn st es (fst acc @ entry_files (ix_Name e) (R e) (meta_of st (snd w) e), snd acc @ [manifest_identity e (R e)]) w
     = (w', Inr (files, ids))"
    using Cons.prems by (auto simp: meta_of_def Let_def split: sum.splits if_splits)
  from Cons.IH [OF _ this] Cons.prems(1) show ?case by simp
qed auto

section \<open>Properties\<close>

text \<open>
  C7. A bundle brings over what was exported: opened with the same account key it yields a manifest with
  the identities in the order of the index, and for each of them exactly the entry the export callback
  produced (protection, both keys, challenge and key convention) and the metadata file as it is on disk.
\<close>

theorem roaming_bundle_roundtrip:
  assumes laws: "scrypt_correct P" "archive_correct A"
    and idx: "NewIdStore E = Inr st" "LoadIndex (st_path st) d = Inr es" "names_ok es"
    and fn: "\<forall>e\<in>set es. exportFn e (s, d) = ((s, d), Inr (R e)) \<and> wf_ManifestIdentity (manifest_identity e (R e))"
    and wf: "wf_time now" "valid_utf8 (local_default T E d)"
    and x: "ExportIdentitiesToBytes P A T E rnd now key exportFn (s, d) = (w', Inr b)"
  shows "\<exists>entries manifest. open_roaming P A b key = Inr (entries, manifest) \<and> w' = (s, d)
     \<and> mf_Version manifest = roamingBundleVersion \<and> mf_DefaultIdentity manifest = local_default T E d
     \<and> list_all2 (\<lambda>e mi. mi_Name mi = ix_Name e \<and> mi_Fingerprint mi = ix_Fingerprint e \<and> roaming_entry entries mi = Inr (R e)
         \<and> entries (identity_base (ix_Name e) @ ''meta'') = meta_of st d e) es (mf_Identities manifest)"
proof -
  let ?files = "concat (map (\<lambda>e. entry_files (ix_Name e) (R e) (meta_of st d e)) es)"
  let ?m = "\<lparr>mf_Version = roamingBundleVersion, mf_ExportedAt = now, mf_Identities = map (\<lambda>e. manifest_identity e (R e)) es,
     mf_ContactCount = 0, mf_DefaultIdentity = local_default T E d\<rparr>"
  let ?all = "?files @ [(''manifest.json'', indented (enc_Manifest ?m))]"
  from x obtain w1 files ids where e: "export_entries exportFn st es ([], []) (s, d) = (w1, Inr (files, ids))"
    by (auto simp: ExportIdentitiesToBytes_def idx sbind_Inr_iff split: if_splits)
  have f: "w1 = (s, d)" "files = ?files" "ids = map (\<lambda>e. manifest_identity e (R e)) es"
    using export_entries_readonly [OF _ e, of R] fn by simp_all
  from x e obtain buf where w: "key \<noteq> []" "marshals now" "ar_Write A ?all = Inr buf"
      "EncryptWithPassphraseBytes P rnd buf key = Inr b" "w' = (s, d)"
    by (auto simp: ExportIdentitiesToBytes_def idx f Let_def sbind_Inr_iff split: if_splits)
  have m: "wf_Manifest ?m" using fn wf w(2) by (auto simp: wf_Manifest_def roamingBundleVersion_def int64_def list_all_iff)
  have "readTarEntries A buf = Inr (map_of (List.rev ?all))"
    using laws(2) w(3) read_entries_ok [OF bundle_paths_safe [OF idx(3), of R "meta_of st d"]]
    by (simp add: readTarEntries_def archive_correct_def)
  moreover have "parse_manifest (map_of (List.rev ?all)) = Inr ?m" by (rule parse_manifest_written [OF m]) (rule bundle_manifest)
  ultimately have o: "open_roaming P A b key = Inr (map_of (List.rev ?all), ?m)"
    using scrypt_roundtrip [OF laws(1) w(4)] w(1) by (simp add: open_roaming_def)
  have "roaming_entry (map_of (List.rev ?all)) (manifest_identity e (R e)) = Inr (R e)
      \<and> map_of (List.rev ?all) (identity_base (ix_Name e) @ ''meta'') = meta_of st d e" if "e \<in> set es" for e
    using bundle_lookup [OF idx(3) that, of _ R "meta_of st d"]
    by (auto simp: roaming_entry_def manifest_identity_def leaf_def entry_files_lookup simp del: map_of_append rev_append)
  then have "list_all2 (\<lambda>e mi. mi_Name mi = ix_Name e \<and> mi_Fingerprint mi = ix_Fingerprint e \<and> roaming_entry (map_of (List.rev ?all)) mi = Inr (R e)
         \<and> map_of (List.rev ?all) (identity_base (ix_Name e) @ ''meta'') = meta_of st d e) es (mf_Identities ?m)"
    by (simp add: list_all2_map2 list.rel_refl_strong manifest_identity_def del: map_of_append rev_append)
  with o w(5) show ?thesis by (intro exI [of _ "map_of (List.rev ?all)"] exI [of _ ?m]) simp
qed

lemma write_key_Inr:
  "write_key dir fn data w = (w', Inr u) \<Longrightarrow> w' = (fst w, (snd w)\<lparr>d_files := (d_files (snd w))(filepath_Join dir fn \<mapsto> data)\<rparr>)"
  by (auto simp: write_key_def writeKeyFile_def os_MkdirAll_def os_WriteFile_def split: option.splits prod.splits)

lemma key_paths_differ:
  assumes "ValidateName n = Inr ()"
  shows "filepath_Join dir (n @ ''.enc'') \<noteq> filepath_Join dir (n @ ''.sign'')"
proof -
  have "component_ok (n @ ''.enc'')" "component_ok (n @ ''.sign'')" using assms by (intro name_component; simp)+
  then show ?thesis by (simp add: filepath_Join_component)
qed

lemma fresh_store_inv:
  "scrypt_correct P \<Longrightarrow> age_framed P \<Longrightarrow> enclave_correct P \<Longrightarrow> no_read_faults d \<Longrightarrow> fs_inv P (NewEncryptedFileStoreWithDir dir fn, d)"
  by (simp add: fs_inv_def cache_ok_def NewEncryptedFileStoreWithDir_def NewFileStoreWithDir_def)

text \<open>
  C8. An identity protected by a passphrase roams from one file device to another without a prompt: what is
  exported from the key directory of the first is imported into the one of the second, and a store there
  that is given the same passphrase loads both keys as they were stored on the first.
\<close>

theorem roamed_file_keys_load:
  assumes laws: "scrypt_correct P" "age_framed P" "enclave_correct P"
    and n: "ValidateName (ix_Name idx) = Inr ()" "TrimSpace k = k" and d: "no_read_faults d0" "no_read_faults d"
    and e: "FileStore_StoreEncryptionIdentity P r1 (ix_Name idx) k (NewEncryptedFileStoreWithDir dir (Inr pass), d0) = (s1, Inr u1)"
    and g: "FileStore_StoreSigningKey P r2 (ix_Name idx) j s1 = ((f1, d1), Inr u2)"
    and idx: "ix_Backend idx = BackendFile" "\<not> ix_HWKey idx"
    and x: "RoamingExportFn ks r3 dir idx (s, d1) = (w1, Inr re)"
    and i: "ro_DestBackend opts = BackendFile" "RoamingImportFn P ks' r4 opts (ix_Name idx) re (s', d) = ((s2, d2), Inr backend)"
  shows "backend = BackendFile \<and> (\<exists>s3 s4. FileStore_LoadEncryptionIdentity P (ix_Name idx)
        (NewEncryptedFileStoreWithDir (ro_KeysDir opts) (Inr pass), d2) = (s3, Inr k) \<and> FileStore_LoadSigningKey P (ix_Name idx) s3 = (s4, Inr j))"
proof -
  let ?n = "ix_Name idx" and ?f = "NewEncryptedFileStoreWithDir dir (Inr pass)" and ?g = "NewEncryptedFileStoreWithDir (ro_KeysDir opts) (Inr pass)"
  from file_keys_held [OF fresh_store_inv [OF laws d(1)] n(1) e g]
  have h: "fs_inv P (f1, d1)" "same_store ?f f1" "holds P f1 d1 (?n @ ''.enc'') k" "holds P f1 d1 (?n @ ''.sign'') (b64_encode j)" by auto
  have f: "fs_dir ?f = dir" "fs_dir ?g = ro_KeysDir opts" "computePassphraseForName ?f = Inr pass" "computePassphraseForName ?g = Inr pass"
    by (simp_all add: NewEncryptedFileStoreWithDir_def NewFileStoreWithDir_def computePassphraseForName_def)
  have re: "re_Protection re = ProtectionPassphrase" "d_files d1 (filepath_Join dir (?n @ ''.enc'')) = Some (re_Enc re)"
      "d_files d1 (filepath_Join dir (?n @ ''.sign'')) = Some (re_Sign re)"
    using x idx by (auto simp: RoamingExportFn_def readAtRestCiphertext_def sbind_Inr_iff ReadFile_def split: option.splits)
  from i re(1) obtain w u where w: "write_key (ro_KeysDir opts) (?n @ ''.enc'') (re_Enc re) (s', d) = (w, Inr u)"
      "write_key (ro_KeysDir opts) (?n @ ''.sign'') (re_Sign re) w = ((s2, d2), Inr ())" "backend = BackendFile"
    by (auto simp: RoamingImportFn_def storeCiphertext_def ProtectionPassphrase_def ProtectionHW_def Let_def sbind_Inr_iff)
  have files: "d_files d2 (filepath_Join (ro_KeysDir opts) (?n @ ''.enc'')) = Some (re_Enc re)"
      "d_files d2 (filepath_Join (ro_KeysDir opts) (?n @ ''.sign'')) = Some (re_Sign re)" "no_read_faults d2"
    using write_key_Inr [OF w(1)] write_key_Inr [OF w(2)] key_paths_differ [OF n(1)] d(2) by (auto simp: no_read_faults_def)
  have "holds P ?g d2 (?n @ ''.enc'') k" "holds P ?g d2 (?n @ ''.sign'') (b64_encode j)"
    using h(3,4) re(2,3) files unfolding holds_same [OF h(2)] by (auto simp: holds_def f)
  from file_keys_read [OF fresh_store_inv [OF laws files(3)] n(2) this] w(3) show ?thesis by simp
qed

text \<open>A raw key has no base64 around it: the decoder gives back less than it is given.\<close>

lemma b64_quanta_shorter: "b64_quanta s = Inr b \<Longrightarrow> 4 * length b \<le> 3 * length s"
proof (induction s arbitrary: b rule: b64_quanta.induct)
  case (2 w x y z s)
  then show ?case by (auto split: option.splits if_splits sum.splits)
qed auto

lemma TrimSpace_length: "length (TrimSpace s) \<le> length s"
proof -
  have d: "length (concat (map snd (dropWhile Q xs))) \<le> length (concat (map snd xs))" for Q and xs :: "(nat \<times> bytes) list"
    by (induction xs) auto
  have r: "length (concat (map snd (List.rev xs))) = length (concat (map snd xs))" for xs :: "(nat \<times> bytes) list"
    by (induction xs) auto
  show ?thesis unfolding TrimSpace_def r
    using d [of "is_space \<circ> fst" "List.rev (dropWhile (is_space \<circ> fst) (runes s))"] d [of "is_space \<circ> fst" "runes s"]
    unfolding r concat_runes by linarith
qed

lemma b64_decode_not_id:
  assumes "s \<noteq> []"
  shows "b64_decode (TrimSpace s) \<noteq> Inr s"
proof
  assume "b64_decode (TrimSpace s) = Inr s"
  then have "4 * length s \<le> 3 * length (filter (\<lambda>c. \<not> is_newline c) (TrimSpace s))" unfolding b64_decode_def by (rule b64_quanta_shorter)
  also have "\<dots> \<le> 3 * length s" using TrimSpace_length [of s] length_filter_le [of "\<lambda>c. \<not> is_newline c" "TrimSpace s"] by linarith
  finally show False using assms by simp
qed

text \<open>
  C9. A keychain key that roams to a file device loses its signing key there: encryptRawToFile seals the raw
  bytes, while the file backend keeps signing keys in base64 and decodes what it unseals. The encryption
  key loads; the signing key never does.
\<close>

theorem roamed_raw_key_unusable:
  assumes laws: "scrypt_correct P" "age_framed P" "enclave_correct P"
    and n: "ValidateName n = Inr ()" "TrimSpace (re_Enc re) = re_Enc re" and d: "no_read_faults d"
    and re: "re_Protection re = ProtectionCloud" "re_Sign re \<noteq> []"
    and o: "ro_DestBackend opts = BackendFile" "ro_PromptNew opts = Some prompt" "prompt n = Inr pass" "pass \<noteq> []"
    and i: "RoamingImportFn P ks rnd opts n re (s, d) = ((s1, d1), Inr backend)"
  shows "\<exists>s2 s3 r. FileStore_LoadEncryptionIdentity P n (NewEncryptedFileStoreWithDir (ro_KeysDir opts) (Inr pass), d1) = (s2, Inr (re_Enc re))
     \<and> FileStore_LoadSigningKey P n s2 = (s3, r) \<and> r \<noteq> Inr (re_Sign re)"
proof -
  let ?g = "NewEncryptedFileStoreWithDir (ro_KeysDir opts) (Inr pass)"
  from i re(1) o obtain e g w u where w: "EncryptWithPassphraseBytes P (rnd 0) (re_Enc re) pass = Inr e"
      "EncryptWithPassphraseBytes P (rnd 1) (re_Sign re) pass = Inr g"
      "write_key (ro_KeysDir opts) (n @ ''.enc'') e (s, d) = (w, Inr u)" "write_key (ro_KeysDir opts) (n @ ''.sign'') g w = ((s1, d1), Inr ())"
    by (auto simp: RoamingImportFn_def encryptRawToFile_def ProtectionCloud_def ProtectionPassphrase_def ProtectionHW_def BackendFile_def
        BackendKeychain_def Let_def sbind_Inr_iff)
  have files: "d_files d1 (filepath_Join (ro_KeysDir opts) (n @ ''.enc'')) = Some e"
      "d_files d1 (filepath_Join (ro_KeysDir opts) (n @ ''.sign'')) = Some g" "no_read_faults d1"
    using write_key_Inr [OF w(3)] write_key_Inr [OF w(4)] key_paths_differ [OF n(1)] d by (auto simp: no_read_faults_def)
  have "isAgeEncrypted e" "isAgeEncrypted g"
    using w(1,2) laws(2) by (auto simp: age_framed_def isAgeEncrypted_def EncryptWithPassphraseBytes_def)
  then have h: "holds P ?g d1 (n @ ''.enc'') (re_Enc re)" "holds P ?g d1 (n @ ''.sign'') (re_Sign re)"
    using files scrypt_roundtrip [OF laws(1) w(1)] scrypt_roundtrip [OF laws(1) w(2)] o(4)
    by (simp_all add: holds_def NewEncryptedFileStoreWithDir_def NewFileStoreWithDir_def computePassphraseForName_def)
  from fs_readFile_holds [OF fresh_store_inv [OF laws files(3)] h(1)] obtain f3 where
      3: "fs_readFile P (n @ ''.enc'') (?g, d1) = ((f3, d1), Inr (re_Enc re))" "fs_inv P (f3, d1)" "same_store ?g f3" by auto
  from fs_readFile_holds [OF 3(2)] h(2) holds_same [OF 3(3)] obtain f4 where
      4: "fs_readFile P (n @ ''.sign'') (f3, d1) = ((f4, d1), Inr (re_Sign re))" by blast
  show ?thesis using 3(1) 4 n(2) b64_decode_not_id [OF re(2)]
    by (simp add: FileStore_LoadEncryptionIdentity_def FileStore_LoadSigningKey_def)
qed

text \<open>Between two keychains the raw key travels whole, whatever the keychains are.\<close>

context keystore
begin

lemma roamed_raw_keys:
  assumes x: "RoamingExportFn K' r1 dir idx w = (w1, Inr re)" "ix_Backend idx \<noteq> BackendFile" "\<not> ix_HWKey idx"
    and o: "ks_LoadEncryptionIdentity K' r1 (ix_Name idx) w = (w', Inr k)" "ks_LoadSigningKey K' r1 (ix_Name idx) w' = (w'', Inr j)"
    and i: "ro_DestBackend opts = BackendKeychain" "RoamingImportFn P K r2 opts (ix_Name idx) re s = (s2, Inr backend)"
    and law: "ksinv s" "okname (ix_Name idx)" "okenc k"
  shows "backend = BackendKeychain \<and> (\<exists>s3 s4. ks_LoadEncryptionIdentity K r3 (ix_Name idx) s2 = (s3, Inr k)
     \<and> ks_LoadSigningKey K r4 (ix_Name idx) s3 = (s4, Inr j))"
proof -
  have re: "re_Protection re = ProtectionCloud" "re_Enc re = k" "re_Sign re = j"
    using x o by (auto simp: RoamingExportFn_def sbind_Inr_iff)
  from i re obtain s1 u1 u2 where "ks_StoreEncryptionIdentity K r2 (ix_Name idx) k s = (s1, Inr u1)"
      "ks_StoreSigningKey K r2 (ix_Name idx) j s1 = (s2, Inr u2)" "backend = BackendKeychain"
    by (auto simp: RoamingImportFn_def storeRawKeychain_def ProtectionCloud_def ProtectionPassphrase_def ProtectionHW_def BackendFile_def
        BackendKeychain_def Let_def sbind_Inr_iff)
  with keys_kept [OF law] show ?thesis by blast
qed

end

lemma upsert_last_eq:
  assumes "distinct (map ix_Name es)"
  shows "upsert_last idx es = index_upsert idx es"
proof (cases "find_index (\<lambda>e. ix_Name e = ix_Name idx) (List.rev es)")
  case None
  then have "find_index (\<lambda>e. ix_Name e = ix_Name idx) es = None" by (simp add: find_index_None)
  with None show ?thesis by (simp add: upsert_last_def index_upsert_def)
next
  case (Some i)
  then have i: "i < length es" "ix_Name (es ! (length es - 1 - i)) = ix_Name idx"
    using rev_nth [of i es] by (simp_all add: find_index_Some)
  then obtain l where l: "find_index (\<lambda>e. ix_Name e = ix_Name idx) es = Some l"
    by (cases "find_index (\<lambda>e. ix_Name e = ix_Name idx) es") (auto simp: find_index_None)
  then have "l < length es" "ix_Name (es ! l) = ix_Name idx" by (simp_all add: find_index_Some)
  then have "l = length es - 1 - i" using i nth_eq_iff_index_eq [OF assms, of l "length es - 1 - i"] by simp
  with Some l show ?thesis by (simp add: upsert_last_def index_upsert_def)
qed

text \<open>What is relied on of an import callback: a backend that is text, and no change of what the disk refuses.\<close>

definition import_contract :: "'s IdentityImportFn \<Rightarrow> bool" where
  "import_contract importFn \<longleftrightarrow> (\<forall>n re w w' b. importFn n re w = (w', Inr b) \<longrightarrow> valid_utf8 b \<and> d_fault (snd w') = d_fault (snd w))"

lemma import_meta_fault: "import_meta st entries n d = (d', r) \<Longrightarrow> d_fault d' = d_fault d"
  by (auto simp: import_meta_def os_MkdirAll_def os_WriteFile_def swrap_def split: option.splits)

lemma import_entries_Cons:
  assumes "import_entries importFn st entries (mi # mis) index w = (w', Inr index')"
  shows "\<exists>re w1 b d u. roaming_entry entries mi = Inr re \<and> importFn (mi_Name mi) re w = (w1, Inr b)
     \<and> import_meta st entries (mi_Name mi) (snd w1) = (d, Inr u)
     \<and> import_entries importFn st entries mis (upsert_last (roaming_index mi b) index) (fst w1, d) = (w', Inr index')"
proof -
  obtain re w1 b where 1: "roaming_entry entries mi = Inr re" "importFn (mi_Name mi) re w = (w1, Inr b)"
    using assms by (auto simp: sbind_Inr_iff)
  obtain d r where 2: "import_meta st entries (mi_Name mi) (snd w1) = (d, r)" by (cases "import_meta st entries (mi_Name mi) (snd w1)")
  show ?thesis using assms 1 2 by (cases r; cases w1) auto
qed

text \<open>The entry a bundle gives an identity, with the backend the callback answered for its key material.\<close>

definition entry_from_bundle :: "'s IdentityImportFn \<Rightarrow> (bytes \<rightharpoonup> bytes) \<Rightarrow> ManifestIdentity \<Rightarrow> IdentityIndex \<Rightarrow> bool" where
  "entry_from_bundle importFn entries mi e \<longleftrightarrow>
     (\<exists>re w w' b. roaming_entry entries mi = Inr re \<and> importFn (mi_Name mi) re w = (w', Inr b) \<and> e = roaming_index mi b)"

text \<open>The index after the loop over a manifest: the old one, updated in the order of the manifest.\<close>

lemma import_entries_index:
  assumes "import_entries importFn st entries mis index w = (w', Inr index')" "import_contract importFn" "distinct (map ix_Name index)"
    and "list_all wf_IdentityIndex index" "list_all wf_ManifestIdentity mis"
  shows "d_fault (snd w') = d_fault (snd w) \<and> list_all wf_IdentityIndex index' \<and> distinct (map ix_Name index')
     \<and> (\<forall>e. ix_Name e \<notin> mi_Name ` set mis \<longrightarrow> (e \<in> set index' \<longleftrightarrow> e \<in> set index))
     \<and> mi_Name ` set mis \<subseteq> ix_Name ` set index'
     \<and> (\<forall>e\<in>set index'. ix_Name e \<in> mi_Name ` set mis \<longrightarrow> (\<exists>mi\<in>set mis. entry_from_bundle importFn entries mi e))"
  using assms
proof (induction mis arbitrary: index w)
  case (Cons mi mis)
  from Cons.prems(1) obtain re w1 b d u where s: "roaming_entry entries mi = Inr re" "importFn (mi_Name mi) re w = (w1, Inr b)"
      "import_meta st entries (mi_Name mi) (snd w1) = (d, Inr u)"
      "import_entries importFn st entries mis (index_upsert (roaming_index mi b) index) (fst w1, d) = (w', Inr index')"
    by (auto dest!: import_entries_Cons simp: upsert_last_eq [OF Cons.prems(3)] simp del: import_entries.simps)
  let ?ix = "roaming_index mi b"
  have c: "valid_utf8 b" "d_fault (snd w1) = d_fault (snd w)" using Cons.prems(2) s(2) unfolding import_contract_def by blast+
  have wf: "wf_IdentityIndex ?ix" using Cons.prems(5) c(1) by (simp add: wf_IdentityIndex_def roaming_index_def wf_ManifestIdentity_def valid_utf8_ascii ascii_def)
  note ih = Cons.IH [OF s(4) Cons.prems(2) index_upsert_distinct [OF Cons.prems(3)] index_upsert_wf [OF Cons.prems(4) wf]]
  have n: "ix_Name ?ix = mi_Name mi" by (simp add: roaming_index_def)
  have set: "set (index_upsert ?ix index) = insert ?ix {e \<in> set index. ix_Name e \<noteq> mi_Name mi}"
    using index_upsert_set [OF Cons.prems(3), of ?ix] n by simp
  have I: "d_fault (snd w') = d_fault d" "list_all wf_IdentityIndex index'" "distinct (map ix_Name index')"
    "\<And>e. ix_Name e \<notin> mi_Name ` set mis \<Longrightarrow> e \<in> set index' \<longleftrightarrow> e = ?ix \<or> e \<in> set index \<and> ix_Name e \<noteq> mi_Name mi"
    "mi_Name ` set mis \<subseteq> ix_Name ` set index'"
    "\<forall>e\<in>set index'. ix_Name e \<in> mi_Name ` set mis \<longrightarrow> (\<exists>mi\<in>set mis. entry_from_bundle importFn entries mi e)"
    using ih Cons.prems(5) unfolding set by simp_all
  have "e \<in> set index' \<longleftrightarrow> e \<in> set index" if "ix_Name e \<notin> mi_Name ` set (mi # mis)" for e
    using I(4) [of e] that n by auto
  moreover have "mi_Name mi \<in> ix_Name ` set index'"
  proof (cases "mi_Name mi \<in> mi_Name ` set mis")
    case False
    then have "?ix \<in> set index'" using I(4) [of ?ix] n by simp
    then show ?thesis using n by (metis image_eqI)
  qed (use I(5) in blast)
  moreover have "\<exists>mi\<in>set (mi # mis). entry_from_bundle importFn entries mi e" if "e \<in> set index'" "ix_Name e \<in> mi_Name ` set (mi # mis)" for e
  proof (cases "ix_Name e \<in> mi_Name ` set mis")
    case False
    then have "e = ?ix" using that I(4) [of e] by auto
    then have "entry_from_bundle importFn entries mi e" using s(1,2) unfolding entry_from_bundle_def by blast
    then show ?thesis by auto
  qed (use that(1) I(6) in auto)
  ultimately show ?case using I import_meta_fault [OF s(3)] c(2) by simp
qed auto

lemma image_merge: "(\<And>e. f e \<notin> N \<Longrightarrow> e \<in> A \<longleftrightarrow> e \<in> B) \<Longrightarrow> N \<subseteq> f ` A \<Longrightarrow> f ` A = f ` B \<union> N"
  by blast

text \<open>
  C10. An import that succeeds merges: afterwards the index holds exactly one entry for each name of the old index
  and of the bundle. The entry of an identity the bundle does not name is the old one, unchanged; the entry
  of one it names is the bundle's and not the old one: name, fingerprint, hardware flag and key convention are those
  of the manifest, the alias is empty, and the backend is what the import callback answered for the key
  material of that identity. Assumed: the old index loads, is well formed and has no name twice, the
  manifest's strings are valid, and the callback answers with text and does not change which calls fail.
\<close>

theorem ImportIdentitiesFromBytes_merges:
  assumes i: "ImportIdentitiesFromBytes P A E data key importFn (s, d) = ((s', d'), Inr ())"
    and st: "NewIdStore E = Inr st" "LoadIndex (st_path st) d = Inr es" "distinct (map ix_Name es)" "list_all wf_IdentityIndex es"
    and m: "open_roaming P A data key = Inr (entries, manifest)" "list_all wf_ManifestIdentity (mf_Identities manifest)"
    and d: "import_contract importFn" "d_fault d SysRead (st_path st) = None"
  shows "\<exists>index. LoadIndex (st_path st) d' = Inr index \<and> distinct (map ix_Name index)
     \<and> ix_Name ` set index = ix_Name ` set es \<union> mi_Name ` set (mf_Identities manifest)
     \<and> (\<forall>e\<in>set index. if ix_Name e \<in> mi_Name ` set (mf_Identities manifest)
          then \<exists>mi\<in>set (mf_Identities manifest). entry_from_bundle importFn entries mi e else e \<in> set es)"
proof -
  let ?M = "mf_Identities manifest"
  from i m(1) st(1,2) obtain w1 index where 1: "import_entries importFn st entries ?M es (s, d) = (w1, Inr index)"
    by (auto simp: ImportIdentitiesFromBytes_def sbind_Inr_iff split: if_splits)
  obtain d2 r where 2: "SaveIndex (st_path st) (snd w1) index = (d2, r)" by (cases "SaveIndex (st_path st) (snd w1) index")
  with i m(1) st(1,2) 1 have e: "import_entries importFn st entries ?M es (s, d) = (w1, Inr index)"
      "SaveIndex (st_path st) (snd w1) index = (d', Inr ())"
    by (auto simp: ImportIdentitiesFromBytes_def split: if_splits)
  note I = import_entries_index [OF e(1) d(1) st(3,4) m(2)]
  have "LoadIndex (st_path st) d' = Inr index" using I d(2) by (intro index_file.load_saved [OF _ _ e(2)]) simp_all
  moreover have "ix_Name ` set index = ix_Name ` set es \<union> mi_Name ` set ?M"
  proof -
    have "e \<in> set index \<longleftrightarrow> e \<in> set es" if "ix_Name e \<notin> mi_Name ` set ?M" for e using I that by simp
    moreover have "mi_Name ` set ?M \<subseteq> ix_Name ` set index" using I by simp
    ultimately show ?thesis by (rule image_merge)
  qed
  moreover have "\<forall>e\<in>set index. if ix_Name e \<in> mi_Name ` set ?M then \<exists>mi\<in>set ?M. entry_from_bundle importFn entries mi e else e \<in> set es"
  proof
    fix e assume "e \<in> set index"
    with I show "if ix_Name e \<in> mi_Name ` set ?M then \<exists>mi\<in>set ?M. entry_from_bundle importFn entries mi e else e \<in> set es" unfolding if_bool_eq_conj by blast
  qed
  ultimately show ?thesis using I by (intro exI [of _ index]) blast
qed

text \<open>
  Two things the merge does not keep. The alias that a person gave an identity on this device is gone
  once a bundle names the identity; and the name in a manifest is not validated, so a bundle can place
  files outside the directories of keys and metadata.
\<close>

theorem roaming_import_drops_alias:
  assumes "import_entries importFn st entries mis index w = (w', Inr index')" "import_contract importFn" "distinct (map ix_Name index)"
    and "list_all wf_IdentityIndex index" "list_all wf_ManifestIdentity mis" "e \<in> set index'" "ix_Name e \<in> mi_Name ` set mis"
  shows "ix_Alias e = []"
proof -
  have "\<exists>mi\<in>set mis. entry_from_bundle importFn entries mi e" using import_entries_index [OF assms(1-5)] assms(6,7) by simp
  then show ?thesis by (auto simp: entry_from_bundle_def roaming_index_def)
qed

theorem roaming_name_escapes:
  "\<exists>entries. read_entries [(''identities/../x/enc'', ''k''), (''identities/../x/sign'', ''s'')] None Map.empty = Inr entries
     \<and> roaming_entry entries (zero_ManifestIdentity\<lparr>mi_Name := ''../x'', mi_Protection := ProtectionPassphrase\<rparr>)
         = Inr \<lparr>re_Protection = ProtectionPassphrase, re_Enc = ''k'', re_Sign = ''s'', re_Challenge = [], re_HWKEK = []\<rparr>
     \<and> filepath_Join ''/h/keys'' (''../x'' @ ''.enc'') = ''/h/x.enc''"
  by (simp add: Clean_def clean_parts_def clean_step_def HasPrefix_def roaming_entry_def identity_base_def zero_ManifestIdentity_def filepath_Join_def)

section \<open>Witnesses\<close>

definition one_archive :: "(bytes \<times> bytes) list \<Rightarrow> Archive" where
  "one_archive es = \<lparr>ar_Write = (\<lambda>x. if x = es then Inr ''a'' else Inl (Errorf ''write'')), ar_Read = (\<lambda>_. Inr (es, None))\<rparr>"

lemma one_archive_correct: "archive_correct (one_archive es)"
  by (simp add: archive_correct_def one_archive_def)

definition sample_index :: "IdentityIndex" where
  "sample_index = \<lparr>ix_Name = ''alice'', ix_Backend = BackendFile, ix_HWKey = False, ix_HWKEK = [], ix_Fingerprint = ''f'', ix_Alias = []\<rparr>"

definition sample_id_store :: IdStore where
  "sample_id_store = \<lparr>st_path = ''/d/identities.json'', st_metaDir = ''/d/identities''\<rparr>"

definition index_disk :: disk where
  "index_disk = empty_disk\<lparr>d_files := [''/d/identities.json'' \<mapsto> indented (enc_indexFile \<lparr>xf_Version = 3, xf_Identities = [sample_index]\<rparr>)]\<rparr>"

lemma sample_id_store_ok: "NewIdStore sample_env = Inr sample_id_store"
  by (simp add: NewIdStore_def IdentitiesFilePath_def IdentityMetaDir_def DataDir_def sample_env_def sample_id_store_def
      filepath_Join_def Clean_def clean_parts_def clean_step_def HasPrefix_def)

lemma sample_index_ok: "wf_IdentityIndex sample_index" "names_ok [sample_index]"
  using sample_name(1) by (simp_all add: wf_IdentityIndex_def sample_index_def BackendFile_def valid_utf8_ascii ascii_def names_ok_def)

lemma index_disk_loads: "LoadIndex (st_path sample_id_store) index_disk = Inr [sample_index]"
proof -
  have "list_all wf_IdentityIndex [sample_index]" using sample_index_ok(1) by simp
  from dec_enc_indexFile [OF this] show ?thesis
    by (simp add: LoadIndex_def ReadFile_def index_disk_def empty_disk_def IsNotExist_def sample_id_store_def unmarshal_indented wf_enc_identity_files)
qed

lemma index_disk_meta: "ReadFile index_disk (meta_path sample_id_store ''alice'') = Inl ErrNotExist"
  by (simp add: ReadFile_def index_disk_def empty_disk_def meta_path_def sample_id_store_def
      filepath_Join_def Clean_def clean_parts_def clean_step_def HasPrefix_def)

lemma index_disk_default: "local_default small_toml sample_env index_disk = []"
  by (simp add: local_default_def Config_Load_def sample_dirs LoadFrom_def ReadFile_def index_disk_def empty_disk_def IsNotExist_def DefaultConfig_def zero_Config_def)

definition sample_roaming :: RoamingEntry where
  "sample_roaming = \<lparr>re_Protection = ProtectionPassphrase, re_Enc = ''e'', re_Sign = ''s'', re_Challenge = [], re_HWKEK = []\<rparr>"

definition sample_manifest :: Manifest where
  "sample_manifest = \<lparr>mf_Version = roamingBundleVersion, mf_ExportedAt = zero_time, mf_Identities = [manifest_identity sample_index sample_roaming],
     mf_ContactCount = 0, mf_DefaultIdentity = []\<rparr>"

definition sample_files :: "(bytes \<times> bytes) list" where
  "sample_files = entry_files ''alice'' sample_roaming None @ [(''manifest.json'', indented (enc_Manifest sample_manifest))]"

lemma sample_manifest_identity: "wf_ManifestIdentity (manifest_identity sample_index sample_roaming)"
  by (simp add: wf_ManifestIdentity_def manifest_identity_def sample_index_def sample_roaming_def ProtectionPassphrase_def valid_utf8_ascii ascii_def)

theorem roaming_bundle_roundtrip_witness:
  "\<exists>b entries manifest. ExportIdentitiesToBytes toy_prims (one_archive sample_files) small_toml sample_env [] zero_time ''key''
        (\<lambda>e w. (w, Inr sample_roaming)) ((), index_disk) = (((), index_disk), Inr b)
     \<and> open_roaming toy_prims (one_archive sample_files) b ''key'' = Inr (entries, manifest)
     \<and> roaming_entry entries (mf_Identities manifest ! 0) = Inr sample_roaming"
proof -
  have seal: "\<exists>b. EncryptWithPassphraseBytes toy_prims [] ''a'' ''key'' = Inr b" by (simp add: EncryptWithPassphraseBytes_def toy_prims_def)
  then obtain b where b: "EncryptWithPassphraseBytes toy_prims [] ''a'' ''key'' = Inr b" by blast
  have n: "ix_Name sample_index = ''alice''" by (simp add: sample_index_def)
  have x: "ExportIdentitiesToBytes toy_prims (one_archive sample_files) small_toml sample_env [] zero_time ''key''
        (\<lambda>e w. (w, Inr sample_roaming)) ((), index_disk) = (((), index_disk), Inr b)"
    using b wf_zero_time by (simp add: ExportIdentitiesToBytes_def sample_id_store_ok index_disk_loads index_disk_default n index_disk_meta IsNotExist_def
        one_archive_def sample_files_def sample_manifest_def Let_def)
  have "\<forall>e\<in>set [sample_index]. (\<lambda>e w. (w, Inr sample_roaming)) e ((), index_disk) = (((), index_disk), Inr sample_roaming)
      \<and> wf_ManifestIdentity (manifest_identity e sample_roaming)" using sample_manifest_identity by simp
  from roaming_bundle_roundtrip [OF toy_laws(2) one_archive_correct sample_id_store_ok index_disk_loads sample_index_ok(2) this wf_zero_time(1) _ x]
  obtain entries manifest where "open_roaming toy_prims (one_archive sample_files) b ''key'' = Inr (entries, manifest)"
      "list_all2 (\<lambda>e mi. roaming_entry entries mi = Inr sample_roaming) [sample_index] (mf_Identities manifest)"
    by (auto simp: index_disk_default list_all2_Cons1 valid_utf8_ascii ascii_def)
  with x show ?thesis by (auto simp: list_all2_Cons1)
qed

lemma sample_open:
  assumes "EncryptWithPassphraseBytes toy_prims [] ''a'' ''key'' = Inr b"
  shows "open_roaming toy_prims (one_archive sample_files) b ''key'' = Inr (map_of (List.rev sample_files), sample_manifest)"
proof -
  have "wf_Manifest sample_manifest" using sample_manifest_identity wf_zero_time
    by (simp add: wf_Manifest_def sample_manifest_def roamingBundleVersion_def int64_def valid_utf8_ascii ascii_def)
  then have "parse_manifest (map_of (List.rev sample_files)) = Inr sample_manifest"
    by (rule parse_manifest_written) (simp add: sample_files_def)
  moreover have "readTarEntries (one_archive sample_files) ''a'' = Inr (map_of (List.rev sample_files))"
    using read_entries_ok [OF bundle_paths_safe [OF sample_index_ok(2), of "\<lambda>_. sample_roaming" "\<lambda>_. None" "indented (enc_Manifest sample_manifest)"]]
    by (simp add: readTarEntries_def one_archive_def sample_files_def sample_index_def)
  ultimately show ?thesis using scrypt_roundtrip [OF toy_laws(2) assms] by (simp add: open_roaming_def)
qed

theorem ImportIdentitiesFromBytes_merges_witness:
  "\<exists>b d' index. EncryptWithPassphraseBytes toy_prims [] ''a'' ''key'' = Inr b
     \<and> ImportIdentitiesFromBytes toy_prims (one_archive sample_files) sample_env b ''key'' (\<lambda>n re w. (w, Inr BackendFile)) ((), index_disk)
         = (((), d'), Inr ())
     \<and> LoadIndex (st_path sample_id_store) d' = Inr index \<and> ix_Name ` set index = {''alice''}"
proof -
  obtain b where b: "EncryptWithPassphraseBytes toy_prims [] ''a'' ''key'' = Inr b" by (auto simp: EncryptWithPassphraseBytes_def toy_prims_def)
  have nf: "d_fault index_disk = (\<lambda>_ _. None)" by (simp add: index_disk_def empty_disk_def)
  obtain index where e: "import_entries (\<lambda>n re w. (w, Inr BackendFile)) sample_id_store (map_of (List.rev sample_files)) (mf_Identities sample_manifest)
      [sample_index] ((), index_disk) = (((), index_disk), Inr index)"
    by (simp add: sample_manifest_def roaming_entry_def manifest_identity_def sample_index_def sample_files_def entry_files_def identity_base_def
        sample_roaming_def import_meta_def)
  obtain d' where d: "SaveIndex (st_path sample_id_store) index_disk index = (d', Inr ())"
    using atomic_no_faults [OF nf] by (auto simp: SaveIndex_def)
  have v: "mf_Version sample_manifest = roamingBundleVersion" by (simp add: sample_manifest_def)
  have i: "ImportIdentitiesFromBytes toy_prims (one_archive sample_files) sample_env b ''key'' (\<lambda>n re w. (w, Inr BackendFile)) ((), index_disk)
         = (((), d'), Inr ())"
    by (simp add: ImportIdentitiesFromBytes_def sample_open [OF b] v sample_id_store_ok index_disk_loads e d)
  have c: "import_contract (\<lambda>n re w. (w, Inr BackendFile))" by (simp add: import_contract_def BackendFile_def valid_utf8_ascii ascii_def)
  have wf: "distinct (map ix_Name [sample_index])" "list_all wf_IdentityIndex [sample_index]" "list_all wf_ManifestIdentity (mf_Identities sample_manifest)"
    using sample_index_ok(1) sample_manifest_identity by (simp_all add: sample_manifest_def)
  have "d_fault index_disk SysRead (st_path sample_id_store) = None" by (simp add: nf)
  from ImportIdentitiesFromBytes_merges [OF i sample_id_store_ok index_disk_loads wf(1,2) sample_open [OF b] wf(3) c this]
  have "\<exists>index. LoadIndex (st_path sample_id_store) d' = Inr index \<and> ix_Name ` set index = ix_Name ` set [sample_index] \<union> mi_Name ` set (mf_Identities sample_manifest)" by blast
  with b i show ?thesis by (auto simp: sample_manifest_def manifest_identity_def sample_index_def)
qed

definition file_options :: RoamingImportOptions where
  "file_options = \<lparr>ro_KeysDir = ''/k'', ro_DestBackend = BackendFile, ro_PromptExisting = None, ro_PromptNew = Some (\<lambda>_. Inr ''pw'')\<rparr>"

lemma write_key_empty: "d_fault d = (\<lambda>_ _. None) \<Longrightarrow> write_key dir fn data (s, d) = ((s, d\<lparr>d_files := (d_files d)(filepath_Join dir fn \<mapsto> data)\<rparr>), Inr ())"
  by (simp add: write_key_def writeKeyFile_def os_MkdirAll_def os_WriteFile_def)

theorem roamed_raw_key_unusable_witness:
  "\<exists>d1 s2 s3 r. RoamingImportFn toy_prims (Keyring_Keystore ''linux'' toy_keyring) (\<lambda>_. []) file_options ''alice''
        \<lparr>re_Protection = ProtectionCloud, re_Enc = ''key'', re_Sign = ''sig'', re_Challenge = [], re_HWKEK = []\<rparr> (Map.empty, empty_disk)
        = ((Map.empty, d1), Inr BackendFile)
     \<and> FileStore_LoadEncryptionIdentity toy_prims ''alice'' (NewEncryptedFileStoreWithDir ''/k'' (Inr ''pw''), d1) = (s2, Inr ''key'')
     \<and> FileStore_LoadSigningKey toy_prims ''alice'' s2 = (s3, r) \<and> r \<noteq> Inr ''sig''"
proof -
  let ?re = "\<lparr>re_Protection = ProtectionCloud, re_Enc = ''key'', re_Sign = ''sig'', re_Challenge = [], re_HWKEK = []\<rparr>"
  have nf: "d_fault empty_disk = (\<lambda>_ _. None)" by (simp add: empty_disk_def)
  have "\<exists>d1. RoamingImportFn toy_prims (Keyring_Keystore ''linux'' toy_keyring) (\<lambda>_. []) file_options ''alice'' ?re (Map.empty, empty_disk)
        = ((Map.empty, d1), Inr BackendFile)"
    by (simp add: RoamingImportFn_def encryptRawToFile_def file_options_def ProtectionCloud_def ProtectionPassphrase_def ProtectionHW_def
        BackendFile_def BackendKeychain_def toy_seal write_key_empty nf)
  then obtain d1 where i: "RoamingImportFn toy_prims (Keyring_Keystore ''linux'' toy_keyring) (\<lambda>_. []) file_options ''alice'' ?re (Map.empty, empty_disk)
        = ((Map.empty, d1), Inr BackendFile)" by blast
  from roamed_raw_key_unusable [OF toy_laws(2,5,6) sample_name(1) _ empty_disk_ok _ _ _ _ _ _ i] sample_name(2) i show ?thesis
    by (auto simp: file_options_def)
qed

theorem roamed_file_keys_load_witness:
  "\<exists>s1 f1 d1 re d2 s3 s4. FileStore_StoreEncryptionIdentity toy_prims (\<lambda>_. []) ''alice'' ''key''
        (NewEncryptedFileStoreWithDir ''/k'' (Inr ''pw''), empty_disk) = (s1, Inr ())
     \<and> FileStore_StoreSigningKey toy_prims (\<lambda>_. []) ''alice'' ''sig'' s1 = ((f1, d1), Inr ())
     \<and> RoamingExportFn (Keyring_Keystore ''linux'' toy_keyring) (\<lambda>_. []) ''/k'' sample_index (Map.empty, d1) = ((Map.empty, d1), Inr re)
     \<and> RoamingImportFn toy_prims (Keyring_Keystore ''linux'' toy_keyring) (\<lambda>_. []) file_options ''alice'' re (Map.empty, empty_disk)
        = ((Map.empty, d2), Inr BackendFile)
     \<and> FileStore_LoadEncryptionIdentity toy_prims ''alice'' (NewEncryptedFileStoreWithDir ''/k'' (Inr ''pw''), d2) = (s3, Inr ''key'')
     \<and> FileStore_LoadSigningKey toy_prims ''alice'' s3 = (s4, Inr ''sig'')"
proof -
  let ?f = "NewEncryptedFileStoreWithDir ''/k'' (Inr ''pw'')" and ?ks = "Keyring_Keystore ''linux'' toy_keyring"
  have nf: "d_fault empty_disk = (\<lambda>_ _. None)" by (simp add: empty_disk_def)
  have f: "fs_passphraseFunc ?f = Some (Inr ''pw'')" "fs_resolved ?f = False" "fs_dir ?f = ''/k''"
    by (simp_all add: NewEncryptedFileStoreWithDir_def NewFileStoreWithDir_def)
  let ?e = "filepath_Join ''/k'' ''alice.enc''" and ?g = "filepath_Join ''/k'' ''alice.sign''"
  have p: "?e \<noteq> ?g" using key_paths_differ [OF sample_name(1), of "''/k''"] by simp
  let ?d1 = "empty_disk\<lparr>d_files := (d_files empty_disk)(?e \<mapsto> ''age-encryption.org/v1'' @ ''key'', ?g \<mapsto> ''age-encryption.org/v1'' @ b64_encode ''sig'')\<rparr>"
  let ?s1 = "(?f\<lparr>fs_resolved := True, fs_cache := Some ''pw''\<rparr>, empty_disk\<lparr>d_files := (d_files empty_disk)(?e \<mapsto> ''age-encryption.org/v1'' @ ''key'')\<rparr>)"
  have e: "FileStore_StoreEncryptionIdentity toy_prims (\<lambda>_. []) ''alice'' ''key'' (?f, empty_disk) = (?s1, Inr ())"
    using fs_writeFile_sample [OF f(1) _ nf] f(2,3) by (simp add: FileStore_StoreEncryptionIdentity_def)
  have g: "FileStore_StoreSigningKey toy_prims (\<lambda>_. []) ''alice'' ''sig'' ?s1 = ((?f\<lparr>fs_resolved := True, fs_cache := Some ''pw''\<rparr>, ?d1), Inr ())"
    using fs_writeFile_sample [of "fst ?s1" "snd ?s1"] f nf by (simp add: FileStore_StoreSigningKey_def)
  let ?re = "\<lparr>re_Protection = ProtectionPassphrase, re_Enc = ''age-encryption.org/v1'' @ ''key'', re_Sign = ''age-encryption.org/v1'' @ b64_encode ''sig'',
     re_Challenge = [], re_HWKEK = []\<rparr>"
  have x: "RoamingExportFn ?ks (\<lambda>_. []) ''/k'' sample_index (Map.empty, ?d1) = ((Map.empty, ?d1), Inr ?re)"
    using p by (simp add: RoamingExportFn_def readAtRestCiphertext_def sample_index_def ReadFile_def nf del: b64_encode.simps)
  have "\<exists>d2. RoamingImportFn toy_prims ?ks (\<lambda>_. []) file_options ''alice'' ?re (Map.empty, empty_disk) = ((Map.empty, d2), Inr BackendFile)"
    by (simp add: RoamingImportFn_def storeCiphertext_def file_options_def ProtectionPassphrase_def ProtectionHW_def write_key_empty nf del: b64_encode.simps)
  then obtain d2 where i: "RoamingImportFn toy_prims ?ks (\<lambda>_. []) file_options ''alice'' ?re (Map.empty, empty_disk) = ((Map.empty, d2), Inr BackendFile)" by blast
  have n: "ix_Name sample_index = ''alice''" "ix_Backend sample_index = BackendFile" "\<not> ix_HWKey sample_index" by (simp_all add: sample_index_def)
  have o: "ro_DestBackend file_options = BackendFile" "ro_KeysDir file_options = ''/k''" by (simp_all add: file_options_def)
  from roamed_file_keys_load [OF toy_laws(2,5,6), of sample_index, unfolded n(1), OF sample_name empty_disk_ok empty_disk_ok e g n(2,3) x o(1) i]
  obtain s3 s4 where "FileStore_LoadEncryptionIdentity toy_prims ''alice'' (?f, d2) = (s3, Inr ''key'')" "FileStore_LoadSigningKey toy_prims ''alice'' s3 = (s4, Inr ''sig'')"
    unfolding o(2) by blast
  with e g x i show ?thesis by blast
qed

end
