(* ===== verification/Icfx_Profile.thy ===== *)
theory Icfx_Profile
  imports Icfx_Roaming
begin

text \<open>
  Package profile, the backup of a whole installation (export.go, import.go): export of every identity
  as a portable bundle together with metadata, contacts and configuration, and the import that replaces
  the local installation and rolls back when it fails.

  Directories are implicit in the disk: a directory exists when some file lies beneath it. The list \<open>U\<close> is
  the universe of paths that may be files, in the order in which a walk visits them; the recursion over a
  directory tree is the walk over the files beneath it. The path overrides of package config are changed by
  an import, so the environment is part of the state.
\<close>

section \<open>Directories\<close>

definition beneath :: "bytes \<Rightarrow> bytes \<Rightarrow> bool" where
  "beneath dir p \<longleftrightarrow> HasPrefix p (dir_prefix dir) \<and> p \<noteq> dir_prefix dir"

definition tree_files :: "bytes list \<Rightarrow> disk \<Rightarrow> bytes \<Rightarrow> bytes list" where
  "tree_files U d dir = filter (\<lambda>p. beneath dir p \<and> d_files d p \<noteq> None) U"

text \<open>The files among the entries of os.ReadDir.\<close>

definition child_files :: "bytes list \<Rightarrow> disk \<Rightarrow> bytes \<Rightarrow> bytes list" where
  "child_files U d dir = filter (\<lambda>p. CHR ''/'' \<notin> set (drop (length (dir_prefix dir)) p)) (tree_files U d dir)"

definition os_Stat :: "bytes list \<Rightarrow> disk \<Rightarrow> bytes \<Rightarrow> unit result" where
  "os_Stat U d p =
     (case d_fault d SysStat p of Some e \<Rightarrow> Inl (Wrap ''stat'' e)
      | None \<Rightarrow> if d_files d p \<noteq> None \<or> tree_files U d p \<noteq> [] then Inr () else Inl ErrNotExist)"

text \<open>os.RemoveAll removes what it can and returns the first error.\<close>

fun remove_files :: "bytes list \<Rightarrow> disk \<Rightarrow> disk \<times> unit result" where
  "remove_files [] d = (d, Inr ())"
| "remove_files (p # ps) d =
     (case os_Remove d p of (d1, r) \<Rightarrow> (case remove_files ps d1 of (d2, r2) \<Rightarrow> (d2, case r of Inl e \<Rightarrow> Inl e | Inr _ \<Rightarrow> r2)))"

definition os_RemoveAll :: "bytes list \<Rightarrow> disk \<Rightarrow> bytes \<Rightarrow> disk \<times> unit result" where
  "os_RemoveAll U d dir = remove_files (tree_files U d dir @ (if d_files d dir = None then [] else [dir])) d"

definition copyFile :: "bytes \<Rightarrow> bytes \<Rightarrow> disk \<Rightarrow> disk \<times> unit result" where
  "copyFile src dst d =
     sbind (d, os_MkdirAll d (filepath_Dir dst)) (\<lambda>_ d.
     sbind (d, ReadFile d src) (\<lambda>data d. os_WriteFile d dst data))"

fun copy_files :: "bytes \<Rightarrow> bytes \<Rightarrow> bytes list \<Rightarrow> disk \<Rightarrow> disk \<times> unit result" where
  "copy_files src dst [] d = (d, Inr ())"
| "copy_files src dst (p # ps) d =
     sbind (copyFile p (dir_prefix dst @ drop (length (dir_prefix src)) p) d) (\<lambda>_. copy_files src dst ps)"

definition copyTree :: "bytes list \<Rightarrow> bytes \<Rightarrow> bytes \<Rightarrow> disk \<Rightarrow> disk \<times> unit result" where
  "copyTree U src dst d =
     sbind (d, case d_fault d SysReadDir src of Some e \<Rightarrow> Inl e | None \<Rightarrow> Inr ()) (\<lambda>_ d.
     sbind (d, os_MkdirAll d dst) (\<lambda>_ d. copy_files src dst (tree_files U d src) d))"

definition copyPath :: "bytes list \<Rightarrow> bytes \<Rightarrow> bytes \<Rightarrow> bool \<Rightarrow> disk \<Rightarrow> disk \<times> unit result" where
  "copyPath U src dst isDir d = (if isDir then copyTree U src dst d else copyFile src dst d)"

section \<open>Snapshot and restore\<close>

record backupEntry =
  be_live :: bytes
  be_stored :: bytes
  be_isDir :: bool
  be_existed :: bool

record installBackup =
  ib_root :: bytes
  ib_items :: "backupEntry list"

definition discard :: "bytes list \<Rightarrow> bytes \<Rightarrow> disk \<Rightarrow> disk" where
  "discard U root d = (if root = [] then d else fst (os_RemoveAll U d root))"

fun snapshot_items :: "bytes list \<Rightarrow> bytes \<Rightarrow> (bytes \<times> bool \<times> bytes) list \<Rightarrow> backupEntry list \<Rightarrow> disk \<Rightarrow> disk \<times> backupEntry list result" where
  "snapshot_items U root [] items d = (d, Inr items)"
| "snapshot_items U root ((live, isDir, name) # specs) items d =
     (case os_Stat U d live of
        Inr _ \<Rightarrow>
          (let stored = filepath_Join root name in
           case copyPath U live stored isDir d of
             (d, Inl e) \<Rightarrow> (discard U root d, Inl (Wrap ''archiving %s: %w'' e))
           | (d, Inr _) \<Rightarrow>
               snapshot_items U root specs (items @ [\<lparr>be_live = live, be_stored = stored, be_isDir = isDir, be_existed = True\<rparr>]) d)
      | Inl e \<Rightarrow>
          (if e \<noteq> ErrNotExist then (discard U root d, Inl (Wrap ''inspecting %s: %w'' e))
           else snapshot_items U root specs (items @ [\<lparr>be_live = live, be_stored = [], be_isDir = isDir, be_existed = False\<rparr>]) d))"

definition install_specs :: "env \<Rightarrow> (bytes \<times> bool \<times> bytes) list result" where
  "install_specs E =
     andthen (wrapping ''resolving keys dir: %w'' (KeysDir E)) (\<lambda>keysDir.
     andthen (wrapping ''resolving identity meta dir: %w'' (IdentityMetaDir E)) (\<lambda>metaDir.
     andthen (wrapping ''resolving identities path: %w'' (IdentitiesFilePath E)) (\<lambda>idxPath.
     andthen (wrapping ''resolving contacts path: %w'' (ContactsFilePath E)) (\<lambda>contactsPath.
     andthen (wrapping ''resolving config path: %w'' (ConfigFilePath E)) (\<lambda>cfgPath.
     Inr [(keysDir, True, ''keys''), (metaDir, True, ''meta''), (idxPath, False, ''identities.json''),
          (contactsPath, False, ''contacts.json''), (cfgPath, False, ''config.toml'')])))))"

definition rollback_root :: "env \<Rightarrow> bytes \<Rightarrow> bytes" where
  "rollback_root E rnd = filepath_Join (TempDir E) (''icfx-import-rollback-'' @ rnd)"

definition snapshotInstall :: "bytes list \<Rightarrow> env \<Rightarrow> bytes \<Rightarrow> disk \<Rightarrow> disk \<times> installBackup result" where
  "snapshotInstall U E rnd d =
     sbind (d, install_specs E) (\<lambda>specs d.
     sbind (d, wrapping ''creating temp dir: %w'' (os_MkdirAll d (TempDir E))) (\<lambda>_ d.
     let root = rollback_root E rnd in
     (case d_fault d SysCreateTemp root of
        Some e \<Rightarrow> (d, Inl (Wrap ''creating rollback dir: %w'' e))
      | None \<Rightarrow> sbind (snapshot_items U root specs [] d) (\<lambda>items d. (d, Inr \<lparr>ib_root = root, ib_items = items\<rparr>)))))"

definition restore_entry :: "bytes list \<Rightarrow> backupEntry \<Rightarrow> disk \<Rightarrow> disk \<times> unit result" where
  "restore_entry U e d =
     (if be_isDir e then
        sbind (swrap ''clearing %s: %w'' (os_RemoveAll U d (be_live e))) (\<lambda>_ d.
        if \<not> be_existed e then (d, Inr ())
        else swrap ''restoring %s: %w'' (copyTree U (be_stored e) (be_live e) d))
      else if be_existed e then swrap ''restoring %s: %w'' (copyFile (be_stored e) (be_live e) d)
      else remove_present ''removing %s: %w'' d (be_live e))"

text \<open>The loop goes on after an error; the second component says whether there was one.\<close>

fun restore_items :: "bytes list \<Rightarrow> backupEntry list \<Rightarrow> disk \<Rightarrow> disk \<times> bool" where
  "restore_items U [] d = (d, False)"
| "restore_items U (e # es) d =
     (case restore_entry U e d of (d1, r) \<Rightarrow> (case restore_items U es d1 of (d2, failed) \<Rightarrow> (d2, isl r \<or> failed)))"

definition restore_backup :: "bytes list \<Rightarrow> installBackup \<Rightarrow> disk \<Rightarrow> disk \<times> unit result" where
  "restore_backup U b d =
     (case restore_items U (ib_items b) d of (d1, failed) \<Rightarrow> (d1, if failed then Inl (Errorf ''%s'') else Inr ()))"

section \<open>Looking into a bundle\<close>

definition manifest_version_err :: go_error where
  "manifest_version_err = Errorf ''unsupported bundle version %d (this build supports %d)''"

text \<open>The loop of PeekManifest stops at the first entry of that name.\<close>

fun peek_entries :: "(bytes \<times> bytes) list \<Rightarrow> go_error option \<Rightarrow> Manifest result" where
  "peek_entries [] e = (case e of Some er \<Rightarrow> Inl (Wrap ''reading bundle entry: %w'' er) | None \<Rightarrow> Inl (Errorf ''manifest entry missing from bundle''))"
| "peek_entries ((name, body) # hs) e =
     (if name \<noteq> ''manifest.json'' then peek_entries hs e
      else case unmarshal (dec_struct Manifest_fields) zero_Manifest body of
        None \<Rightarrow> Inl (Wrap ''parsing manifest: %w'' (Errorf ''json''))
      | Some m \<Rightarrow> if mf_Version m \<noteq> bundleVersion then Inl manifest_version_err else Inr m)"

definition PeekManifestFromBytes :: "prims \<Rightarrow> Archive \<Rightarrow> bytes \<Rightarrow> bytes \<Rightarrow> Manifest result" where
  "PeekManifestFromBytes P A data pass =
     andthen (wrapping ''decrypting profile bundle (wrong passphrase?): %w'' (DecryptWithPassphraseBytes P data pass)) (\<lambda>gzipped.
     andthen (wrapping ''decompressing bundle: %w'' (ar_Read A gzipped)) (\<lambda>(hs, e). peek_entries hs e))"

definition PeekManifest :: "prims \<Rightarrow> Archive \<Rightarrow> disk \<Rightarrow> bytes \<Rightarrow> bytes \<Rightarrow> Manifest result" where
  "PeekManifest P A d inputPath pass =
     andthen (wrapping ''reading profile bundle: %w'' (ReadFile d inputPath)) (\<lambda>raw. PeekManifestFromBytes P A raw pass)"

text \<open>The steps PeekHWChallengesFromBytes and ImportFromBytes begin with.\<close>

definition open_profile :: "prims \<Rightarrow> Archive \<Rightarrow> bytes \<Rightarrow> bytes \<Rightarrow> ((bytes \<rightharpoonup> bytes) \<times> Manifest) result" where
  "open_profile P A data pass =
     andthen (wrapping ''decrypting profile bundle (wrong passphrase?): %w'' (DecryptWithPassphraseBytes P data pass)) (\<lambda>gzipped.
     andthen (readTarEntries A gzipped) (\<lambda>entries.
     andthen (parse_manifest entries) (\<lambda>manifest.
     if mf_Version manifest \<noteq> bundleVersion then Inl manifest_version_err else Inr (entries, manifest))))"

definition bundle_entry :: "bytes \<Rightarrow> bytes" where "bundle_entry name = ''identities-bundles/'' @ name @ ''.icid''"

fun peek_challenges :: "prims \<Rightarrow> (bytes \<rightharpoonup> bytes) \<Rightarrow> bytes \<Rightarrow> ManifestIdentity list \<Rightarrow> (bytes \<rightharpoonup> bytes) \<Rightarrow> (bytes \<rightharpoonup> bytes) result" where
  "peek_challenges P entries pass [] out = Inr out"
| "peek_challenges P entries pass (mi # mis) out =
     (if \<not> mi_HWKey mi then peek_challenges P entries pass mis out
      else
      andthen (wrapping ''invalid identity name in bundle: %w'' (ValidateName (mi_Name mi))) (\<lambda>_.
      (case entries (bundle_entry (mi_Name mi)) of
         None \<Rightarrow> Inl (Errorf ''bundle for hardware-key identity %q missing from profile'')
       | Some bundleBytes \<Rightarrow>
         andthen (wrapping ''peeking hardware-key identity %q: %w'' (PeekBytesFull P bundleBytes pass)) (\<lambda>(_, _, challenge).
         peek_challenges P entries pass mis (if length challenge > 0 then out(mi_Name mi \<mapsto> challenge) else out)))))"

definition PeekHWChallengesFromBytes :: "prims \<Rightarrow> Archive \<Rightarrow> bytes \<Rightarrow> bytes \<Rightarrow> (bytes \<rightharpoonup> bytes) result" where
  "PeekHWChallengesFromBytes P A data pass =
     andthen (open_profile P A data pass) (\<lambda>(entries, m). peek_challenges P entries pass (mf_Identities m) Map.empty)"

section \<open>Export\<close>

type_synonym 's OpenIdentityFn = "bytes \<Rightarrow> 's world \<Rightarrow> 's world \<times> Unlocked result"

text \<open>The archive entry of a file: its content, or nothing when there is no such file.\<close>

definition file_entry :: "disk \<Rightarrow> bytes \<Rightarrow> bytes \<Rightarrow> (bytes \<times> bytes) list result" where
  "file_entry d path name =
     (let r = ReadFile d path in if IsNotExist r then Inr [] else andthen r (\<lambda>data. Inr [(name, data)]))"

fun export_profile_entries ::
    "prims \<Rightarrow> random \<Rightarrow> bytes \<Rightarrow> IdStore \<Rightarrow> 's OpenIdentityFn \<Rightarrow> nat \<Rightarrow> IdentityIndex list \<Rightarrow> (bytes \<times> bytes) list \<times> ManifestIdentity list
     \<Rightarrow> 's world \<Rightarrow> 's world \<times> ((bytes \<times> bytes) list \<times> ManifestIdentity list) result" where
  "export_profile_entries P rnd pass st openFn i [] acc w = (w, Inr acc)"
| "export_profile_entries P rnd pass st openFn i (e # es) acc w =
     sbind (swrap ''opening identity %q: %w'' (openFn (ix_Name e) w)) (\<lambda>unlocked w.
     sbind (w, wrapping ''exporting identity %q: %w'' (ExportBytes P (rnd i) unlocked pass)) (\<lambda>bundle w.
     sbind (w, wrapping ''writing meta for %q: %w''
         (file_entry (snd w) (meta_path st (ix_Name e)) (filepath_Join ''identities'' (ix_Name e @ ''.meta'')))) (\<lambda>meta w.
     export_profile_entries P rnd pass st openFn (Suc i) es
       (fst acc @ [(filepath_Join ''identities-bundles'' (ix_Name e @ ''.icid''), bundle)] @ meta,
        snd acc @ [zero_ManifestIdentity\<lparr>mi_Name := ix_Name e, mi_HWKey := id_HWKey (u_info unlocked)\<rparr>]) w)))"

definition dec_raw :: "json decoder" where "dec_raw j cur = (j, DOk)"

record wireWrapper =
  ww_Contacts :: "json list"

definition wireWrapper_fields :: "wireWrapper field list" where
  "wireWrapper_fields = [fld ''contacts'' (dec_list dec_raw JNull) ww_Contacts ww_Contacts_update]"

definition countContactsAtPath :: "disk \<Rightarrow> bytes \<Rightarrow> int" where
  "countContactsAtPath d path =
     (case ReadFile d path of
        Inl _ \<Rightarrow> 0
      | Inr raw \<Rightarrow> (case unmarshal (dec_struct wireWrapper_fields) \<lparr>ww_Contacts = []\<rparr> raw of
          None \<Rightarrow> 0 | Some w \<Rightarrow> int (length (ww_Contacts w))))"

text \<open>A path that cannot be resolved is the empty string, which names no file.\<close>

definition path_or_empty :: "bytes result \<Rightarrow> bytes" where
  "path_or_empty r = (case r of Inl _ \<Rightarrow> [] | Inr p \<Rightarrow> p)"

definition ExportToBytesWithPass ::
    "prims \<Rightarrow> Archive \<Rightarrow> env \<Rightarrow> random \<Rightarrow> gotime \<Rightarrow> bytes \<Rightarrow> 's OpenIdentityFn \<Rightarrow> 's world \<Rightarrow> 's world \<times> bytes result" where
  "ExportToBytesWithPass P A E rnd now pass openFn w =
     (if pass = [] then (w, Inl (Errorf ''export passphrase cannot be empty''))
      else
      sbind (w, wrapping ''creating identity store: %w'' (NewIdStore E)) (\<lambda>st w.
      sbind (w, wrapping ''loading identity index: %w'' (LoadIndex (st_path st) (snd w))) (\<lambda>entries w.
      sbind (export_profile_entries P rnd pass st openFn 1 entries ([], []) w) (\<lambda>(files, ids) w.
      sbind (w, wrapping ''writing config.toml: %w'' (file_entry (snd w) (path_or_empty (ConfigFilePath E)) ''config.toml'')) (\<lambda>cfg w.
      let contactsPath = path_or_empty (ContactsFilePath E) in
      sbind (w, wrapping ''writing contacts.json: %w'' (file_entry (snd w) contactsPath ''contacts.json'')) (\<lambda>contacts w.
      let manifest = \<lparr>mf_Version = bundleVersion, mf_ExportedAt = now, mf_Identities = ids,
            mf_ContactCount = countContactsAtPath (snd w) contactsPath, mf_DefaultIdentity = []\<rparr> in
      if \<not> marshals now then (w, Inl (Wrap ''marshaling manifest: %w'' (Errorf ''json'')))
      else sbind (w, wrapping ''writing archive: %w''
          (ar_Write A (files @ cfg @ contacts @ [(''manifest.json'', indented (enc_Manifest manifest))]))) (\<lambda>buf w.
      (w, wrapping ''encrypting profile: %w'' (EncryptWithPassphraseBytes P (rnd 0) buf pass)))))))))"

definition ExportToBytes where
  "ExportToBytes P A E rnd now exportPassphrase openFn w = ExportToBytesWithPass P A E rnd now exportPassphrase openFn w"

definition Profile_Export ::
    "prims \<Rightarrow> Archive \<Rightarrow> env \<Rightarrow> random \<Rightarrow> gotime \<Rightarrow> bytes \<Rightarrow> bytes \<Rightarrow> 's OpenIdentityFn \<Rightarrow> 's world \<Rightarrow> 's world \<times> unit result" where
  "Profile_Export P A E rnd now outputPath exportPassphrase openFn w =
     sbind (ExportToBytes P A E rnd now exportPassphrase openFn w) (\<lambda>data w.
     (case os_WriteFile (snd w) outputPath data of (d, r) \<Rightarrow> ((fst w, d), r)))"

section \<open>Import\<close>

type_synonym 's DestinationKeystoreFn = "env \<Rightarrow> 's world \<Rightarrow> 's world \<times> ('s Keystore \<times> bytes) result"

record 's ImportOptions =
  io_Passphrase :: bytes
  io_PassphraseBytes :: bytes
  io_IncludeSettings :: bool
  io_IncludePaths :: bool
  io_HWRestore :: "(bytes \<Rightarrow> 's HWRestoreFn option) option"

text \<open>The settings and the paths that are taken over.\<close>

definition overlay_settings :: "Config \<Rightarrow> Config \<Rightarrow> Config" where
  "overlay_settings imported c = c\<lparr>DefaultIdentity := DefaultIdentity imported, DefaultFormat := DefaultFormat imported,
     Keystore := Keystore imported, Verbose := Verbose imported, Banner := Banner imported, AutoLockMinutes := AutoLockMinutes imported\<rparr>"

definition overlay_paths :: "Config \<Rightarrow> Config \<Rightarrow> Config" where
  "overlay_paths imported c = c\<lparr>ConfPath := ConfPath imported, DataPath := DataPath imported, KeyPath := KeyPath imported\<rparr>"

definition override_paths :: "Config \<Rightarrow> env \<Rightarrow> env" where
  "override_paths c E =
     (let E1 = (if DataPath c \<noteq> [] then SetDataPath (ExpandPath E (DataPath c)) E else E)
      in if KeyPath c \<noteq> [] then SetKeyPath (ExpandPath E (KeyPath c)) E1 else E1)"

definition config_temp :: "env \<Rightarrow> bytes \<Rightarrow> bytes" where
  "config_temp E rnd = filepath_Join (TempDir E) (''icfx-import-config-'' @ rnd @ ''.toml'')"

definition merge_config :: "Toml \<Rightarrow> env \<Rightarrow> 's ImportOptions \<Rightarrow> Config \<Rightarrow> disk \<Rightarrow> (env \<times> disk) \<times> unit result" where
  "merge_config T E opts imported d =
     (case wrapping ''loading local config: %w'' (Config_Load T E d) of
        Inl e \<Rightarrow> ((E, d), Inl e)
      | Inr loaded \<Rightarrow>
        (let c = (if io_IncludeSettings opts then overlay_settings imported loaded else loaded);
             c = (if io_IncludePaths opts then overlay_paths imported c else c);
             E = (if io_IncludePaths opts then override_paths c E else E) in
         case Config_Save T E d c of (d, r) \<Rightarrow> ((E, d), wrapping ''saving updated config: %w'' r)))"

definition applyImportedConfig :: "Toml \<Rightarrow> env \<Rightarrow> bytes \<Rightarrow> 's ImportOptions \<Rightarrow> bytes \<Rightarrow> disk \<Rightarrow> (env \<times> disk) \<times> unit result" where
  "applyImportedConfig T E rnd opts configBytes d =
     (if configBytes = [] then ((E, d), Inr ())
      else
      let tmp = config_temp E rnd; cleanup = (\<lambda>x. case x of ((E, d), r) \<Rightarrow> ((E, fst (os_Remove d tmp)), r)) in
      (case d_fault d SysCreateTemp tmp of
         Some e \<Rightarrow> ((E, d), Inl (Wrap ''creating temp config file: %w'' e))
       | None \<Rightarrow>
         cleanup (case os_WriteFile d tmp configBytes of
           (d, Inl e) \<Rightarrow> ((E, d), Inl (Wrap ''writing temp config file: %w'' e))
         | (d, Inr _) \<Rightarrow>
           (case wrapping ''parsing imported config: %w'' (LoadFrom T tmp d) of
              Inl e \<Rightarrow> ((E, d), Inl e)
            | Inr imported \<Rightarrow> merge_config T E opts imported d))))"

text \<open>
  The keychain of the platform as wipeLocalState reaches it: its probe and its key store. Errors of a
  wipe are ignored.
\<close>

record 's Platform =
  pl_KeychainAvailable :: "'s \<Rightarrow> 's \<times> bool"
  pl_Keychain :: "'s Keystore"

definition wipe_key :: "'s Platform \<Rightarrow> bytes \<Rightarrow> IdentityIndex \<Rightarrow> 's world \<Rightarrow> 's world" where
  "wipe_key L keysDir e w =
     (let (s, avail) = (if ix_Backend e = BackendKeychain then pl_KeychainAvailable L (fst w) else (fst w, False)) in
      if avail then fst (ks_Clear (pl_Keychain L) (ix_Name e) (s, snd w))
      else if keysDir = [] then (s, snd w)
      else (s, snd (fst (FileStore_Clear (ix_Name e) (NewFileStoreWithDir keysDir, snd w)))))"

definition wipe_suffix :: "bytes list \<Rightarrow> bytes \<Rightarrow> bytes \<Rightarrow> disk \<Rightarrow> disk" where
  "wipe_suffix U dir suf d =
     (if d_fault d SysReadDir dir \<noteq> None then d
      else fold (\<lambda>p d. fst (os_Remove d p)) (filter (\<lambda>p. HasSuffix p suf) (child_files U d dir)) d)"

definition remove_resolved :: "bytes result \<Rightarrow> disk \<Rightarrow> disk" where
  "remove_resolved r d = (case r of Inl _ \<Rightarrow> d | Inr p \<Rightarrow> fst (os_Remove d p))"

definition wipeLocalState :: "bytes list \<Rightarrow> 's Platform \<Rightarrow> env \<Rightarrow> 's world \<Rightarrow> 's world" where
  "wipeLocalState U L E w =
     (let keysDir = path_or_empty (KeysDir E);
          entries = (case andthen (NewIdStore E) (\<lambda>st. LoadIndex (st_path st) (snd w)) of Inl _ \<Rightarrow> [] | Inr es \<Rightarrow> es);
          w = fold (wipe_key L keysDir) entries w;
          d = snd w;
          d = (if keysDir \<noteq> [] then wipe_suffix U keysDir ''.hwchallenge'' d else d);
          d = (case IdentityMetaDir E of Inl _ \<Rightarrow> d | Inr metaDir \<Rightarrow> wipe_suffix U metaDir ''.meta'' d);
          d = remove_resolved (IdentitiesFilePath E) d;
          d = remove_resolved (ContactsFilePath E) d
      in (fst w, d))"

definition profile_meta :: "env \<Rightarrow> (bytes \<rightharpoonup> bytes) \<Rightarrow> bytes \<Rightarrow> disk \<Rightarrow> disk \<times> unit result" where
  "profile_meta E entries name d =
     (case entries (''identities/'' @ name @ ''.meta'') of
        None \<Rightarrow> (d, Inr ())
      | Some metaBytes \<Rightarrow>
        sbind (d, wrapping ''resolving identity meta dir: %w'' (IdentityMetaDir E)) (\<lambda>metaDir d.
        sbind (d, wrapping ''creating identity meta dir: %w'' (os_MkdirAll d metaDir)) (\<lambda>_ d.
        swrap ''writing meta for %q: %w'' (os_WriteFile d (filepath_Join metaDir (name @ ''.meta'')) metaBytes))))"

fun install_identities ::
    "prims \<Rightarrow> (nat \<Rightarrow> nat) \<Rightarrow> (nat \<Rightarrow> random) \<Rightarrow> env \<Rightarrow> (bytes \<rightharpoonup> bytes) \<Rightarrow> bytes \<Rightarrow> 's ImportOptions \<Rightarrow> 's Keystore \<Rightarrow> bytes
     \<Rightarrow> ManifestIdentity list \<Rightarrow> IdentityIndex list \<Rightarrow> 's world \<Rightarrow> 's world \<times> IdentityIndex list result" where
  "install_identities P ulow rnds E entries pass opts ks backend [] newIndex w = (w, Inr newIndex)"
| "install_identities P ulow rnds E entries pass opts ks backend (mi # mis) newIndex w =
     sbind (w, wrapping ''invalid identity name in bundle: %w'' (ValidateName (mi_Name mi))) (\<lambda>_ w.
     (case entries (bundle_entry (mi_Name mi)) of
        None \<Rightarrow> (w, Inl (Errorf ''bundle for identity %q missing from archive''))
      | Some bundleBytes \<Rightarrow>
        (let hwRestore = (case io_HWRestore opts of None \<Rightarrow> None | Some factory \<Rightarrow> if mi_HWKey mi then factory (mi_Name mi) else None) in
         case ImportBytes P ulow (rnds (length newIndex)) bundleBytes pass ks hwRestore w of
           (w, _, Inl e) \<Rightarrow> (w, Inl (Wrap ''importing identity %q: %w'' e))
         | (w, info, Inr _) \<Rightarrow>
           (case profile_meta E entries (mi_Name mi) (snd w) of
              (d, Inl e) \<Rightarrow> ((fst w, d), Inl e)
            | (d, Inr _) \<Rightarrow>
              install_identities P ulow rnds E entries pass opts ks backend mis
                (newIndex @ [\<lparr>ix_Name = id_Name info, ix_Backend = backend, ix_HWKey = id_HWKey info, ix_HWKEK = [],
                   ix_Fingerprint = id_Fingerprint info, ix_Alias = []\<rparr>]) (fst w, d)))))"

definition install_contacts :: "env \<Rightarrow> (bytes \<rightharpoonup> bytes) \<Rightarrow> disk \<Rightarrow> disk \<times> unit result" where
  "install_contacts E entries d =
     (case entries ''contacts.json'' of
        None \<Rightarrow> (d, Inr ())
      | Some contactsBytes \<Rightarrow>
        sbind (d, wrapping ''resolving contacts path: %w'' (ContactsFilePath E)) (\<lambda>contactsPath d.
        sbind (d, wrapping ''creating data dir: %w'' (os_MkdirAll d (filepath_Dir contactsPath))) (\<lambda>_ d.
        swrap ''writing contacts.json: %w'' (os_WriteFile d contactsPath contactsBytes))))"

definition seed_default :: "Toml \<Rightarrow> env \<Rightarrow> 's ImportOptions \<Rightarrow> IdentityIndex list \<Rightarrow> disk \<Rightarrow> disk" where
  "seed_default T E opts newIndex d =
     (if \<not> io_IncludeSettings opts \<and> newIndex \<noteq> [] then
        (case Config_Load T E d of
           Inl _ \<Rightarrow> d
         | Inr cfg \<Rightarrow> if DefaultIdentity cfg = [] then fst (Config_Save T E d (cfg\<lparr>DefaultIdentity := ix_Name (hd newIndex)\<rparr>)) else d)
      else d)"

text \<open>Steps 3 to 5, after the wipe.\<close>

definition install_profile ::
    "prims \<Rightarrow> (nat \<Rightarrow> nat) \<Rightarrow> (nat \<Rightarrow> random) \<Rightarrow> Toml \<Rightarrow> env \<Rightarrow> (bytes \<rightharpoonup> bytes) \<Rightarrow> Manifest \<Rightarrow> bytes \<Rightarrow> 's ImportOptions
     \<Rightarrow> 's DestinationKeystoreFn \<Rightarrow> 's world \<Rightarrow> 's world \<times> unit result" where
  "install_profile P ulow rnds T E entries manifest pass opts destKsFn w =
     sbind (swrap ''constructing destination keystore: %w'' (destKsFn E w)) (\<lambda>(ks, backend) w.
     sbind (w, wrapping ''creating identity store: %w'' (NewIdStore E)) (\<lambda>st w.
     sbind (install_identities P ulow rnds E entries pass opts ks backend (mf_Identities manifest) [] w) (\<lambda>newIndex w.
     (case SaveIndex (st_path st) (snd w) newIndex of
        (d, Inl e) \<Rightarrow> ((fst w, d), Inl (Wrap ''saving identity index: %w'' e))
      | (d, Inr _) \<Rightarrow>
        (case install_contacts E entries d of
           (d, Inl e) \<Rightarrow> ((fst w, d), Inl e)
         | (d, Inr _) \<Rightarrow> ((fst w, seed_default T E opts newIndex d), Inr ()))))))"

text \<open>Everything between the snapshot and the deferred rollback.\<close>

definition replace_profile ::
    "prims \<Rightarrow> (nat \<Rightarrow> nat) \<Rightarrow> bytes list \<Rightarrow> 's Platform \<Rightarrow> bytes \<Rightarrow> (nat \<Rightarrow> random) \<Rightarrow> Toml \<Rightarrow> (bytes \<rightharpoonup> bytes) \<Rightarrow> Manifest \<Rightarrow> bytes
     \<Rightarrow> 's ImportOptions \<Rightarrow> 's DestinationKeystoreFn \<Rightarrow> env \<times> 's world \<Rightarrow> (env \<times> 's world) \<times> unit result" where
  "replace_profile P ulow U L rnd rnds T entries manifest pass opts destKsFn x =
     (case x of (E, w) \<Rightarrow>
      (case (if io_IncludeSettings opts \<or> io_IncludePaths opts
             then applyImportedConfig T E rnd opts (case entries ''config.toml'' of None \<Rightarrow> [] | Some b \<Rightarrow> b) (snd w)
             else ((E, snd w), Inr ())) of
         ((E, d), Inl e) \<Rightarrow> ((E, (fst w, d)), Inl e)
       | ((E, d), Inr _) \<Rightarrow>
         (case install_profile P ulow rnds T E entries manifest pass opts destKsFn (wipeLocalState U L E (fst w, d)) of
            (w, r) \<Rightarrow> ((E, w), r))))"

definition import_pass :: "'s ImportOptions \<Rightarrow> bytes" where
  "import_pass opts = (if io_PassphraseBytes opts = [] then io_Passphrase opts else io_PassphraseBytes opts)"

text \<open>The deferred function: what is left of the disk and of the error after a failure.\<close>

definition finish_import :: "bytes list \<Rightarrow> installBackup \<Rightarrow> 's world \<Rightarrow> unit result \<Rightarrow> 's world \<times> unit result" where
  "finish_import U backup w r =
     (case r of
        Inr _ \<Rightarrow> ((fst w, discard U (ib_root backup) (snd w)), Inr ())
      | Inl err \<Rightarrow>
        (case restore_backup U backup (snd w) of
           (d, Inl _) \<Rightarrow> ((fst w, d), Inl (Wrap ''%w; the previous profile could NOT be fully restored (%v)'' err))
         | (d, Inr _) \<Rightarrow> ((fst w, discard U (ib_root backup) d), Inl err)))"

definition ImportFromBytes ::
    "prims \<Rightarrow> Archive \<Rightarrow> (nat \<Rightarrow> nat) \<Rightarrow> bytes list \<Rightarrow> 's Platform \<Rightarrow> bytes \<Rightarrow> (nat \<Rightarrow> random) \<Rightarrow> Toml \<Rightarrow> bytes
     \<Rightarrow> 's ImportOptions \<Rightarrow> 's DestinationKeystoreFn \<Rightarrow> env \<times> 's world \<Rightarrow> (env \<times> 's world) \<times> unit result" where
  "ImportFromBytes P A ulow U L rnd rnds T data opts destKsFn x =
     (case x of (E, w) \<Rightarrow>
      if import_pass opts = [] then ((E, w), Inl (Errorf ''import passphrase cannot be empty''))
      else
      (case open_profile P A data (import_pass opts) of
         Inl e \<Rightarrow> ((E, w), Inl e)
       | Inr (entries, manifest) \<Rightarrow>
         (case snapshotInstall U E rnd (snd w) of
            (d, Inl e) \<Rightarrow> ((E, (fst w, d)), Inl (Wrap ''backing up the existing profile before import: %w'' e))
          | (d, Inr backup) \<Rightarrow>
            (case replace_profile P ulow U L rnd rnds T entries manifest (import_pass opts) opts destKsFn (E, (fst w, d)) of
               ((E, w), r) \<Rightarrow> (case finish_import U backup w r of (w, r) \<Rightarrow> ((E, w), r))))))"

definition Profile_Import where
  "Profile_Import P A ulow U L rnd rnds T inputPath opts destKsFn x =
     (case x of (E, w) \<Rightarrow>
      (case ReadFile (snd w) inputPath of
         Inl e \<Rightarrow> ((E, w), Inl (Wrap ''reading profile bundle: %w'' e))
       | Inr raw \<Rightarrow> ImportFromBytes P A ulow U L rnd rnds T raw opts destKsFn (E, w)))"

section \<open>Lemmas: regions of the disk\<close>

type_synonym region = "bytes \<times> bool"

text \<open>A region is a file or a directory with all that is beneath it.\<close>

definition in_region :: "region \<Rightarrow> bytes \<Rightarrow> bool" where
  "in_region r q \<longleftrightarrow> q = fst r \<or> (snd r \<and> beneath (fst r) q)"

definition apart :: "region \<Rightarrow> region \<Rightarrow> bool" where
  "apart r r' \<longleftrightarrow> fst r \<noteq> fst r' \<and> (snd r \<longrightarrow> \<not> beneath (fst r) (fst r')) \<and> (snd r' \<longrightarrow> \<not> beneath (fst r') (fst r))
     \<and> (snd r \<and> snd r' \<longrightarrow> \<not> HasPrefix (dir_prefix (fst r)) (dir_prefix (fst r')) \<and> \<not> HasPrefix (dir_prefix (fst r')) (dir_prefix (fst r)))"

fun pairwise_apart :: "region list \<Rightarrow> bool" where
  "pairwise_apart [] \<longleftrightarrow> True"
| "pairwise_apart (r # rs) \<longleftrightarrow> list_all (apart r) rs \<and> pairwise_apart rs"

lemma HasPrefix_linear: "HasPrefix q a \<Longrightarrow> HasPrefix q b \<Longrightarrow> HasPrefix a b \<or> HasPrefix b a"
proof -
  assume a: "HasPrefix q a" "HasPrefix q b"
  have "take (length b) a = b \<or> take (length a) b = a"
  proof (cases "length a \<le> length b")
    case True
    then have "take (length a) b = take (length a) (take (length b) q)" using a(2) by (simp add: HasPrefix_def)
    then show ?thesis using True a(1) by (simp add: HasPrefix_def min_def)
  next
    case False
    then have "take (length b) a = take (length b) (take (length a) q)" using a(1) by (simp add: HasPrefix_def)
    then show ?thesis using False a(2) by (simp add: HasPrefix_def min_def)
  qed
  then show ?thesis by (simp add: HasPrefix_def)
qed

lemma apart_disjoint: "apart r r' \<Longrightarrow> in_region r q \<Longrightarrow> \<not> in_region r' q"
  using HasPrefix_linear [of q "dir_prefix (fst r)" "dir_prefix (fst r')"] by (auto simp: apart_def in_region_def beneath_def)

lemma apart_sym: "apart r r' \<longleftrightarrow> apart r' r" by (auto simp: apart_def)

text \<open>A path beneath a directory is a relative path behind its prefix.\<close>

lemma beneath_iff: "beneath dir q \<longleftrightarrow> (\<exists>x. x \<noteq> [] \<and> q = dir_prefix dir @ x)"
proof
  assume "beneath dir q"
  then have "q = dir_prefix dir @ drop (length (dir_prefix dir)) q" "q \<noteq> dir_prefix dir"
    by (auto simp: beneath_def HasPrefix_def) (metis append_take_drop_id)
  then show "\<exists>x. x \<noteq> [] \<and> q = dir_prefix dir @ x" by (metis append_Nil2)
qed (auto simp: beneath_def HasPrefix_def)

lemma remove_files_Inr:
  "remove_files ps d = (d', Inr u) \<Longrightarrow> d_files d' q = (if q \<in> set ps then None else d_files d q)"
proof (induction ps arbitrary: d)
  case (Cons p ps)
  obtain d1 r1 where 1: "os_Remove d p = (d1, r1)" by (cases "os_Remove d p")
  obtain d2 r2 where 2: "remove_files ps d1 = (d2, r2)" by (cases "remove_files ps d1")
  have r: "r1 = Inr ()" "r2 = Inr ()" "d' = d2" using Cons.prems 1 2 by (auto split: sum.splits)
  have "d_files d1 = (d_files d)(p := None)" using 1 r(1) by (auto simp: os_Remove_def split: option.splits)
  with Cons.IH [of d1] 2 r show ?case by simp
qed simp

definition universe :: "bytes list \<Rightarrow> disk \<Rightarrow> bool" where
  "universe U d \<longleftrightarrow> (\<forall>q. d_files d q \<noteq> None \<longrightarrow> q \<in> set U)"

lemma os_RemoveAll_Inr:
  assumes "os_RemoveAll U d dir = (d', Inr u)" "universe U d"
  shows "d_files d' q = (if in_region (dir, True) q then None else d_files d q)"
proof -
  have "q \<in> set (tree_files U d dir @ (if d_files d dir = None then [] else [dir])) \<longleftrightarrow> in_region (dir, True) q \<and> d_files d q \<noteq> None"
    using assms(2) by (auto simp: tree_files_def in_region_def universe_def)
  with remove_files_Inr [OF assms(1) [unfolded os_RemoveAll_def], of q] show ?thesis by auto
qed

lemma os_RemoveAll_other: "os_RemoveAll U d dir = (d', r) \<Longrightarrow> \<not> in_region (dir, True) q \<Longrightarrow> d_files d' q = d_files d q"
proof -
  have "remove_files ps d = (d', r) \<Longrightarrow> q \<notin> set ps \<Longrightarrow> d_files d' q = d_files d q" for ps r
  proof (induction ps arbitrary: d r)
    case (Cons p ps)
    obtain d1 r1 where 1: "os_Remove d p = (d1, r1)" by (cases "os_Remove d p")
    obtain d2 r2 where 2: "remove_files ps d1 = (d2, r2)" by (cases "remove_files ps d1")
    have "d_files d1 q = d_files d q" using 1 Cons.prems(2) by (auto simp: os_Remove_def split: option.splits)
    moreover have "d' = d2" using Cons.prems(1) 1 2 by auto
    ultimately show ?case using Cons.IH [of d1 r2] Cons.prems(2) 2 by simp
  qed simp
  moreover assume "os_RemoveAll U d dir = (d', r)" "\<not> in_region (dir, True) q"
  ultimately show ?thesis by (auto simp: os_RemoveAll_def tree_files_def in_region_def)
qed

lemma discard_other: "\<not> in_region (root, True) q \<Longrightarrow> d_files (discard U root d) q = d_files d q"
  using os_RemoveAll_other [of U d root _ _ q] by (auto simp: discard_def) (metis prod.collapse)

lemma copyFile_Inr:
  "copyFile src dst d = (d', Inr u) \<Longrightarrow> d_files d src \<noteq> None \<and> d_files d' = (d_files d)(dst := d_files d src)"
  by (auto simp: copyFile_def os_MkdirAll_def os_WriteFile_def ReadFile_def sbind_Inr_iff split: option.splits)

text \<open>The place in the source of a path beneath the destination.\<close>

definition twin :: "bytes \<Rightarrow> bytes \<Rightarrow> bytes \<Rightarrow> bytes" where
  "twin src dst q = dir_prefix src @ drop (length (dir_prefix dst)) q"

lemma twin_inverse: "beneath dst q \<Longrightarrow> twin dst src (twin src dst q) = q" "beneath dst q \<Longrightarrow> beneath src (twin src dst q)"
  by (auto simp: twin_def beneath_iff)

lemma copy_files_Inr:
  assumes "copy_files src dst ps d = (d', Inr u)" "\<forall>p\<in>set ps. beneath src p" "apart (src, True) (dst, True)"
  shows "d_files d' q = (if beneath dst q \<and> twin src dst q \<in> set ps then d_files d (twin src dst q) else d_files d q)"
  using assms(1,2)
proof (induction ps arbitrary: d)
  case (Cons p ps)
  let ?t = "twin dst src p"
  from Cons.prems(1) obtain d1 u1 where 1: "copyFile p ?t d = (d1, Inr u1)" "copy_files src dst ps d1 = (d', Inr u)"
    by (auto simp: sbind_Inr_iff twin_def)
  have t: "beneath dst ?t" "twin src dst ?t = p" using Cons.prems(2) twin_inverse [of src p dst] by auto
  have f: "d_files d1 = (d_files d)(?t := d_files d p)" using copyFile_Inr [OF 1(1)] by simp
  have keep: "d_files d1 (twin src dst q) = d_files d (twin src dst q)" if "beneath dst q"
  proof -
    have "in_region (src, True) (twin src dst q)" using twin_inverse(2) [OF that] by (simp add: in_region_def)
    then have "\<not> in_region (dst, True) (twin src dst q)" by (rule apart_disjoint [OF assms(3)])
    then show ?thesis using t(1) f by (auto simp: in_region_def)
  qed
  have ih: "d_files d' q = (if beneath dst q \<and> twin src dst q \<in> set ps then d_files d1 (twin src dst q) else d_files d1 q)"
    using Cons.IH [OF 1(2)] Cons.prems(2) by simp
  show ?case
  proof (cases "beneath dst q")
    case True
    show ?thesis
    proof (cases "q = ?t")
      case eq: True
      then have "twin src dst q = p" "d_files d1 q = d_files d p" using t(2) f by simp_all
      then show ?thesis using ih keep [OF True] True by simp
    next
      case False
      then have "twin src dst q \<noteq> p" "d_files d1 q = d_files d q" using twin_inverse(1) [OF True, of src] f by auto
      then show ?thesis using ih keep [OF True] True by simp
    qed
  next
    case False
    then have "q \<noteq> ?t" using t(1) by blast
    then show ?thesis using ih False f by simp
  qed
qed simp

lemma copyTree_Inr:
  assumes "copyTree U src dst d = (d', Inr u)" "universe U d" "apart (src, True) (dst, True)"
  shows "d_files d' q = (if beneath dst q \<and> d_files d (twin src dst q) \<noteq> None then d_files d (twin src dst q) else d_files d q)"
proof -
  have c: "copy_files src dst (tree_files U d src) d = (d', Inr u)"
    using assms(1) by (auto simp: copyTree_def sbind_Inr_iff split: option.splits)
  have "twin src dst q \<in> set (tree_files U d src) \<longleftrightarrow> d_files d (twin src dst q) \<noteq> None" if "beneath dst q"
    using twin_inverse(2) [OF that, of src] assms(2) by (auto simp: tree_files_def universe_def)
  with copy_files_Inr [OF c _ assms(3), of q] show ?thesis by (auto simp: tree_files_def)
qed

section \<open>Lemmas: a snapshot is restored\<close>

text \<open>What a snapshot entry says: the archive at \<open>d0\<close> holds what was live at \<open>d\<close>.\<close>

definition entry_region :: "backupEntry \<Rightarrow> region" where "entry_region e = (be_live e, be_isDir e)"

definition covers :: "backupEntry \<Rightarrow> bytes \<Rightarrow> bool" where
  "covers e q \<longleftrightarrow> (if be_isDir e then beneath (be_live e) q else q = be_live e)"

lemma covers_region: "covers e q \<Longrightarrow> in_region (entry_region e) q"
  by (auto simp: covers_def in_region_def entry_region_def split: if_splits)

definition archived :: "disk \<Rightarrow> disk \<Rightarrow> backupEntry \<Rightarrow> bool" where
  "archived d0 d e \<longleftrightarrow>
     (if be_existed e then
        if be_isDir e then \<forall>q. beneath (be_live e) q \<longrightarrow> d_files d0 (twin (be_stored e) (be_live e) q) = d_files d q
        else d_files d0 (be_stored e) = d_files d (be_live e)
      else \<forall>q. covers e q \<longrightarrow> d_files d q = None)"

lemma restore_entry_other: "restore_entry U e d = (d', r) \<Longrightarrow> \<not> in_region (entry_region e) q \<Longrightarrow> r = Inr () \<Longrightarrow>
    universe U d \<Longrightarrow> (be_isDir e \<and> be_existed e \<Longrightarrow> apart (be_stored e, True) (be_live e, True)) \<Longrightarrow> d_files d' q = d_files d q"
proof -
  assume r: "restore_entry U e d = (d', r)" "\<not> in_region (entry_region e) q" "r = Inr ()" "universe U d"
    and ap: "be_isDir e \<and> be_existed e \<Longrightarrow> apart (be_stored e, True) (be_live e, True)"
  have q: "q \<noteq> be_live e" "be_isDir e \<Longrightarrow> \<not> beneath (be_live e) q" using r(2) by (auto simp: in_region_def entry_region_def)
  show ?thesis
  proof (cases "be_isDir e")
    case True
    then obtain d1 u where 1: "os_RemoveAll U d (be_live e) = (d1, Inr u)"
        "(if \<not> be_existed e then (d1, Inr ()) else swrap ''restoring %s: %w'' (copyTree U (be_stored e) (be_live e) d1)) = (d', Inr ())"
      using r(1,3) by (auto simp: restore_entry_def sbind_Inr_iff)
    have f: "d_files d1 x = (if in_region (be_live e, True) x then None else d_files d x)" for x by (rule os_RemoveAll_Inr [OF 1(1) r(4)])
    have "universe U d1" using r(4) by (auto simp: universe_def f split: if_splits)
    then show ?thesis using 1(2) copyTree_Inr [of U "be_stored e" "be_live e" d1 d' "()" q] ap True q f [of q]
      by (auto simp: in_region_def split: if_splits)
  next
    case False
    then show ?thesis using r(1,3) q(1) copyFile_Inr [of "be_stored e" "be_live e" d d']
      by (auto simp: restore_entry_def remove_present_def os_Remove_def split: if_splits option.splits)
  qed
qed

lemma restore_entry_covers:
  assumes r: "restore_entry U e d1 = (d', Inr ())" and u: "universe U d1" and a: "archived d1 d e" and c: "covers e q"
    and ap: "be_existed e \<Longrightarrow> apart (be_stored e, be_isDir e) (be_live e, be_isDir e)"
  shows "d_files d' q = d_files d q"
proof (cases "be_isDir e")
  case True
  then obtain d2 v where 1: "os_RemoveAll U d1 (be_live e) = (d2, Inr v)"
      "(if \<not> be_existed e then (d2, Inr ()) else swrap ''restoring %s: %w'' (copyTree U (be_stored e) (be_live e) d2)) = (d', Inr ())"
    using r by (auto simp: restore_entry_def sbind_Inr_iff)
  have f: "d_files d2 x = (if in_region (be_live e, True) x then None else d_files d1 x)" for x by (rule os_RemoveAll_Inr [OF 1(1) u])
  have q: "beneath (be_live e) q" using c True by (simp add: covers_def)
  show ?thesis
  proof (cases "be_existed e")
    case ex: True
    have u2: "universe U d2" using u by (auto simp: universe_def f split: if_splits)
    let ?t = "twin (be_stored e) (be_live e) q"
    have "in_region (be_stored e, True) ?t" using twin_inverse(2) [OF q] by (simp add: in_region_def)
    then have "\<not> in_region (be_live e, True) ?t" using ap [OF ex] True by (intro apart_disjoint) simp_all
    then have "d_files d2 ?t = d_files d q" using f a ex True q by (simp add: archived_def)
    moreover have "d_files d2 q = None" using f q by (simp add: in_region_def)
    ultimately show ?thesis using copyTree_Inr [OF _ u2, of "be_stored e" "be_live e" d' "()" q] 1(2) ex ap [OF ex] True q by auto
  next
    case False
    then have "d_files d' q = None" using 1(2) f q by (simp add: in_region_def)
    then show ?thesis using a False c by (simp add: archived_def)
  qed
next
  case False
  then show ?thesis using r a c copyFile_Inr [of "be_stored e" "be_live e" d1 d']
    by (auto simp: restore_entry_def remove_present_def os_Remove_def archived_def covers_def IsNotExist_def ErrNotExist_def split: if_splits option.splits)
qed

lemma restore_entry_universe:
  assumes r: "restore_entry U e d1 = (d', Inr ())" and u: "universe U d1" "universe U d" and a: "archived d1 d e"
    and ap: "be_existed e \<Longrightarrow> apart (be_stored e, be_isDir e) (be_live e, be_isDir e)"
  shows "universe U d'"
  unfolding universe_def
proof (intro allI impI)
  fix q assume q: "d_files d' q \<noteq> None"
  consider "covers e q" | "\<not> in_region (entry_region e) q" | "be_isDir e" "q = be_live e" "\<not> beneath (be_live e) q"
    by (cases "be_isDir e"; cases "q = be_live e"; cases "beneath (be_live e) q") (auto simp: covers_def in_region_def entry_region_def)
  then show "q \<in> set U"
  proof cases
    case 1
    then show ?thesis using restore_entry_covers [OF r u(1) a 1 ap] u(2) q by (simp add: universe_def)
  next
    case 2
    have "be_isDir e \<and> be_existed e \<Longrightarrow> apart (be_stored e, True) (be_live e, True)" using ap by simp
    from restore_entry_other [OF r 2 refl u(1) this] u(1) q show ?thesis by (simp add: universe_def)
  next
    case 3
    then obtain d2 v where 1: "os_RemoveAll U d1 (be_live e) = (d2, Inr v)"
        "(if \<not> be_existed e then (d2, Inr ()) else swrap ''restoring %s: %w'' (copyTree U (be_stored e) (be_live e) d2)) = (d', Inr ())"
      using r by (auto simp: restore_entry_def sbind_Inr_iff)
    have f: "d_files d2 x = (if in_region (be_live e, True) x then None else d_files d1 x)" for x by (rule os_RemoveAll_Inr [OF 1(1) u(1)])
    have "universe U d2" using u(1) by (auto simp: universe_def f split: if_splits)
    then have "d_files d' q = None"
      using 1(2) copyTree_Inr [of U "be_stored e" "be_live e" d2 d' "()" q] ap 3 f by (auto simp: in_region_def split: if_splits)
    then show ?thesis using q by simp
  qed
qed

lemma archived_cong:
  assumes "\<And>q. in_region (be_stored e, be_isDir e) q \<Longrightarrow> be_existed e \<Longrightarrow> d_files d0 q = d_files d0' q" "\<And>q. covers e q \<Longrightarrow> d_files d q = d_files d' q"
  shows "archived d0 d e \<Longrightarrow> archived d0' d' e"
  using assms twin_inverse(2) [of "be_live e" _ "be_stored e"]
  by (auto simp: archived_def covers_def in_region_def split: if_splits)

lemma restore_items_ok:
  assumes "restore_items U es d1 = (d2, False)" "universe U d1" "universe U d" "\<forall>e\<in>set es. archived d1 d e" "pairwise_apart (map entry_region es)"
    and "\<forall>e\<in>set es. \<forall>e'\<in>set es. be_existed e \<longrightarrow> apart (be_stored e, be_isDir e) (entry_region e')"
  shows "(\<forall>e\<in>set es. \<forall>q. covers e q \<longrightarrow> d_files d2 q = d_files d q)
     \<and> (\<forall>q. (\<forall>e\<in>set es. \<not> in_region (entry_region e) q) \<longrightarrow> d_files d2 q = d_files d1 q)"
  using assms
proof (induction es arbitrary: d1)
  case (Cons e es)
  obtain d' r where 1: "restore_entry U e d1 = (d', r)" by (cases "restore_entry U e d1")
  obtain b where 2: "restore_items U es d' = (d2, b)" using Cons.prems(1) 1 by (cases "restore_items U es d'") auto
  have r: "r = Inr ()" "b = False" using Cons.prems(1) 1 2 by (cases r; auto)+
  have ap: "be_existed e \<Longrightarrow> apart (be_stored e, be_isDir e) (be_live e, be_isDir e)"
    using Cons.prems(6) by (simp add: entry_region_def)
  have ad: "archived d1 d e" using Cons.prems(4) by simp
  have ap': "be_isDir e \<and> be_existed e \<Longrightarrow> apart (be_stored e, True) (be_live e, True)" using ap by simp
  note other = restore_entry_other [OF 1 _ r(1) Cons.prems(2) ap']
  have u: "universe U d'" by (rule restore_entry_universe [OF 1 [unfolded r] Cons.prems(2,3) ad ap])
  have "archived d' d e'" if "e' \<in> set es" for e'
  proof (rule archived_cong)
    show "archived d1 d e'" using Cons.prems(4) that by simp
    show "d_files d1 q = d_files d' q" if "in_region (be_stored e', be_isDir e') q" "be_existed e'" for q
    proof -
      have "apart (be_stored e', be_isDir e') (entry_region e)" using Cons.prems(6) \<open>e' \<in> set es\<close> that(2) by simp
      from apart_disjoint [OF this that(1)] other show ?thesis by simp
    qed
  qed simp
  with Cons.IH [OF 2 [unfolded r] u Cons.prems(3)] Cons.prems(5,6)
  have ih: "\<And>e' q. e' \<in> set es \<Longrightarrow> covers e' q \<Longrightarrow> d_files d2 q = d_files d q"
      "\<And>q. (\<forall>e\<in>set es. \<not> in_region (entry_region e) q) \<Longrightarrow> d_files d2 q = d_files d' q" by simp_all
  have "d_files d2 q = d_files d q" if q: "covers e q" for q
  proof -
    have "in_region (entry_region e) q" by (rule covers_region [OF q])
    then have "\<forall>e'\<in>set es. \<not> in_region (entry_region e') q"
      using Cons.prems(5) apart_disjoint [of "entry_region e" _ q] by (auto simp: list_all_iff)
    then show ?thesis using ih(2) restore_entry_covers [OF 1 [unfolded r] Cons.prems(2) ad q ap] by simp
  qed
  with ih other show ?case by auto
qed simp

text \<open>The snapshot: where a spec is archived, and that archiving takes nothing away.\<close>

type_synonym spec = "bytes \<times> bool \<times> bytes"

definition live_region :: "spec \<Rightarrow> region" where "live_region s = (case s of (live, isDir, name) \<Rightarrow> (live, isDir))"

definition stored_region :: "bytes \<Rightarrow> spec \<Rightarrow> region" where
  "stored_region root s = (case s of (live, isDir, name) \<Rightarrow> (filepath_Join root name, isDir))"

lemma copy_files_mono: "copy_files src dst ps d = (d', Inr u) \<Longrightarrow> d_files d q \<noteq> None \<Longrightarrow> d_files d' q \<noteq> None"
proof (induction ps arbitrary: d)
  case (Cons p ps)
  then obtain d1 v where 1: "copyFile p (dir_prefix dst @ drop (length (dir_prefix src)) p) d = (d1, Inr v)" "copy_files src dst ps d1 = (d', Inr u)"
    by (auto simp: sbind_Inr_iff)
  have "d_files d1 q \<noteq> None" using copyFile_Inr [OF 1(1)] Cons.prems(2) by auto
  then show ?case by (rule Cons.IH [OF 1(2)])
qed simp

lemma copyPath_mono: "copyPath U src dst b d = (d', Inr u) \<Longrightarrow> d_files d q \<noteq> None \<Longrightarrow> d_files d' q \<noteq> None"
  using copy_files_mono [of src dst _ d d' u q] copyFile_Inr [of src dst d d' u]
  by (auto simp: copyPath_def copyTree_def sbind_Inr_iff split: if_splits option.splits)

text \<open>Once the archive holds a spec, every step leaves an entry for it and goes on.\<close>

lemma snapshot_items_step:
  assumes "snapshot_items U root ((live, isDir, name) # specs) items d = (d', Inr items')"
  shows "\<exists>d1 e. be_live e = live \<and> be_isDir e = isDir \<and> (be_existed e \<longrightarrow> be_stored e = filepath_Join root name)
     \<and> snapshot_items U root specs (items @ [e]) d1 = (d', Inr items')
     \<and> (if be_existed e then \<exists>u. copyPath U live (filepath_Join root name) isDir d = (d1, Inr u)
        else d1 = d \<and> d_files d live = None \<and> tree_files U d live = [])"
proof (cases "os_Stat U d live")
  case (Inl e)
  then have e: "e = ErrNotExist" using assms by (auto split: if_splits)
  then have "d_files d live = None \<and> tree_files U d live = []" using Inl by (auto simp: os_Stat_def ErrNotExist_def split: option.splits if_splits)
  then show ?thesis using Inl e assms
    by (intro exI [of _ d] exI [of _ "\<lparr>be_live = live, be_stored = [], be_isDir = isDir, be_existed = False\<rparr>"]) simp
next
  case (Inr u)
  obtain d1 r where c: "copyPath U live (filepath_Join root name) isDir d = (d1, r)" by (cases "copyPath U live (filepath_Join root name) isDir d")
  then have "r = Inr ()" using Inr assms by (cases r) auto
  then show ?thesis using Inr c assms
    by (intro exI [of _ d1] exI [of _ "\<lparr>be_live = live, be_stored = filepath_Join root name, be_isDir = isDir, be_existed = True\<rparr>"]) simp
qed

lemma snapshot_items_mono: "snapshot_items U root specs items d = (d', Inr items') \<Longrightarrow> d_files d q \<noteq> None \<Longrightarrow> d_files d' q \<noteq> None"
proof (induction specs arbitrary: items d)
  case (Cons s specs)
  obtain live isDir name where s: "s = (live, isDir, name)" by (cases s) auto
  from snapshot_items_step [OF Cons.prems(1) [unfolded s]] obtain d1 e where
    1: "snapshot_items U root specs (items @ [e]) d1 = (d', Inr items')"
      "if be_existed e then \<exists>u. copyPath U live (filepath_Join root name) isDir d = (d1, Inr u) else d1 = d \<and> d_files d live = None \<and> tree_files U d live = []" by blast
  have "d_files d1 q \<noteq> None" using 1(2) copyPath_mono [of U live "filepath_Join root name" isDir d d1 _ q] Cons.prems(2) by (auto split: if_splits)
  then show ?case by (rule Cons.IH [OF 1(1)])
qed simp

lemma copyPath_archives:
  assumes "copyPath U live stored isDir d = (d1, Inr u)" "universe U d" "apart (stored, isDir) (live, isDir)" "\<And>q. in_region (stored, isDir) q \<Longrightarrow> d_files d q = None"
  shows "archived d1 d \<lparr>be_live = live, be_stored = stored, be_isDir = isDir, be_existed = True\<rparr>"
    "\<not> in_region (stored, isDir) q \<Longrightarrow> d_files d1 q = d_files d q"
proof -
  have t: "d_files d1 q = (if beneath stored q \<and> d_files d (twin live stored q) \<noteq> None then d_files d (twin live stored q) else d_files d q)" if isDir for q
    using assms(1,3) that by (intro copyTree_Inr [OF _ assms(2)]) (simp_all add: copyPath_def apart_sym)
  have f: "d_files d1 = (d_files d)(stored := d_files d live)" if "\<not> isDir"
    using copyFile_Inr [of live stored d d1 u] assms(1) that by (simp add: copyPath_def)
  show "archived d1 d \<lparr>be_live = live, be_stored = stored, be_isDir = isDir, be_existed = True\<rparr>"
  proof (cases isDir)
    case True
    have "d_files d1 (twin stored live q) = d_files d q" if "beneath live q" for q
    proof -
      have b: "beneath stored (twin stored live q)" "twin live stored (twin stored live q) = q" using twin_inverse [OF that] by auto
      then have "d_files d (twin stored live q) = None" using assms(4) True by (auto simp: in_region_def)
      then show ?thesis using t [OF True, of "twin stored live q"] b by simp
    qed
    then show ?thesis using True by (simp add: archived_def)
  qed (use f in \<open>simp add: archived_def\<close>)
  show "d_files d1 q = d_files d q" if "\<not> in_region (stored, isDir) q"
    using that t [of q] f by (cases isDir) (auto simp: in_region_def)
qed

lemma list_all2_members:
  assumes "list_all2 Q xs ys"
  shows "y \<in> set ys \<Longrightarrow> \<exists>x\<in>set xs. Q x y" "x \<in> set xs \<Longrightarrow> \<exists>y\<in>set ys. Q x y"
  using assms by (induction rule: list_all2_induct) auto

lemma snapshot_items_archived:
  assumes "snapshot_items U root specs items d = (d', Inr items')" "universe U d'"
    and "pairwise_apart (map (stored_region root) specs)" "\<forall>s\<in>set specs. \<forall>t\<in>set specs. apart (stored_region root s) (live_region t)"
    and "\<forall>s\<in>set specs. \<forall>q. in_region (stored_region root s) q \<longrightarrow> d_files d q = None"
  shows "\<exists>new. items' = items @ new
     \<and> list_all2 (\<lambda>s e. entry_region e = live_region s \<and> (be_existed e \<longrightarrow> (be_stored e, be_isDir e) = stored_region root s)) specs new
     \<and> (\<forall>e\<in>set new. archived d' d e) \<and> (\<forall>q. (\<forall>s\<in>set specs. \<not> in_region (stored_region root s) q) \<longrightarrow> d_files d' q = d_files d q)"
  using assms
proof (induction specs arbitrary: items d)
  case (Cons s specs)
  obtain live isDir name where s: "s = (live, isDir, name)" by (cases s) auto
  let ?st = "filepath_Join root name"
  have reg: "stored_region root s = (?st, isDir)" "live_region s = (live, isDir)" by (simp_all add: s stored_region_def live_region_def)
  from snapshot_items_step [OF Cons.prems(1) [unfolded s]] obtain d1 e where
    e: "be_live e = live" "be_isDir e = isDir" "be_existed e \<longrightarrow> be_stored e = ?st" and
    1: "snapshot_items U root specs (items @ [e]) d1 = (d', Inr items')"
      "if be_existed e then \<exists>u. copyPath U live ?st isDir d = (d1, Inr u) else d1 = d \<and> d_files d live = None \<and> tree_files U d live = []" by blast
  have u: "universe U d" using Cons.prems(2) snapshot_items_mono [OF Cons.prems(1)] by (auto simp: universe_def)
  have ap: "apart (?st, isDir) (live, isDir)" using Cons.prems(4) reg by simp
  have fresh: "d_files d q = None" if "in_region (?st, isDir) q" for q using Cons.prems(5) that reg by auto
  have head: "archived d1 d e \<and> (\<forall>q. \<not> in_region (?st, isDir) q \<longrightarrow> d_files d1 q = d_files d q)"
  proof (cases "be_existed e")
    case True
    then obtain v where c: "copyPath U live ?st isDir d = (d1, Inr v)" using 1(2) by auto
    have "e = \<lparr>be_live = live, be_stored = ?st, be_isDir = isDir, be_existed = True\<rparr>" using e True by (cases e) simp
    then show ?thesis using copyPath_archives [OF c u ap fresh] by auto
  next
    case False
    then have "d1 = d" "d_files d live = None" "tree_files U d live = []" using 1(2) by simp_all
    then have "\<not> (beneath live q \<and> d_files d q \<noteq> None)" for q
      using u by (cases "d_files d q") (auto simp: tree_files_def filter_empty_conv universe_def)
    with \<open>d1 = d\<close> \<open>d_files d live = None\<close> False e show ?thesis by (auto simp: archived_def covers_def)
  qed
  have other: "d_files d1 q = d_files d q" if "in_region r q" "apart (?st, isDir) r" for r q
    using head apart_disjoint [OF that(2)] that(1) by blast
  have a: "apart (?st, isDir) (stored_region root t)" "apart (?st, isDir) (live_region t)" if "t \<in> set specs" for t
    using Cons.prems(3,4) that reg by (simp_all add: list_all_iff)
  have fr: "\<forall>t\<in>set specs. \<forall>q. in_region (stored_region root t) q \<longrightarrow> d_files d1 q = None"
  proof (intro ballI allI impI)
    fix t q assume t: "t \<in> set specs" "in_region (stored_region root t) q"
    then have "d_files d q = None" using Cons.prems(5) by simp
    with other [OF t(2) a(1) [OF t(1)]] show "d_files d1 q = None" by simp
  qed
  from Cons.IH [OF 1(1) Cons.prems(2) _ _ fr] Cons.prems(3,4) obtain new where
    new: "items' = items @ [e] @ new" "list_all2 (\<lambda>s e. entry_region e = live_region s \<and> (be_existed e \<longrightarrow> (be_stored e, be_isDir e) = stored_region root s)) specs new"
      "\<forall>e\<in>set new. archived d' d1 e" "\<forall>q. (\<forall>s\<in>set specs. \<not> in_region (stored_region root s) q) \<longrightarrow> d_files d' q = d_files d1 q" by auto
  have later: "d_files d' q = d_files d1 q" if "in_region (?st, isDir) q" for q
    using new(4) apart_disjoint [OF a(1) that] by blast
  have "archived d' d e"
    by (rule archived_cong [OF _ _ head [THEN conjunct1]]) (use later e in \<open>auto split: if_splits\<close>)
  moreover have "archived d' d e'" if mem: "e' \<in> set new" for e'
  proof (rule archived_cong)
    show "archived d' d1 e'" using new(3) mem by simp
    obtain t where t: "t \<in> set specs" "entry_region e' = live_region t"
      using list_all2_members(1) [OF new(2) mem] by blast
    show "d_files d1 q = d_files d q" if "covers e' q" for q
    proof -
      have "in_region (live_region t) q" using covers_region [OF that] t(2) by simp
      then show ?thesis by (rule other [OF _ a(2) [OF t(1)]])
    qed
  qed simp
  moreover have "d_files d' q = d_files d q" if "\<forall>s\<in>set (s # specs). \<not> in_region (stored_region root s) q" for q
    using new(4) head that reg by auto
  ultimately show ?case using new(1,2) e reg by (intro exI [of _ "e # new"]) (auto simp: entry_region_def)
qed simp

text \<open>What a layout must be for a rollback: the places of an installation, and of its archive, do not overlap.\<close>

definition layout_ok :: "bytes \<Rightarrow> spec list \<Rightarrow> bool" where
  "layout_ok root specs \<longleftrightarrow> pairwise_apart (map live_region specs) \<and> pairwise_apart (map (stored_region root) specs)
     \<and> list_all (\<lambda>s. list_all (\<lambda>t. apart (stored_region root s) (live_region t)) specs) specs
     \<and> list_all (\<lambda>t. apart (root, True) (live_region t)) specs"

definition installed :: "spec \<Rightarrow> bytes \<Rightarrow> bool" where
  "installed s q \<longleftrightarrow> (case s of (live, isDir, name) \<Rightarrow> if isDir then beneath live q else q = live)"

section \<open>Properties\<close>

text \<open>
  C5. The files of a failed import are rolled back: whatever the step that failed after the snapshot (the
  configuration, the destination key store, any of the identities, the index or the contacts), the import returns
  that error, and the key directory, the metadata, the identity index, the contacts and the configuration file are,
  file by file, what they were before, files that the import created included. Conditions: the snapshot
  succeeded and its directory was unused, the places of the installation and of the snapshot do not overlap, nothing
  that ran during the import changed the snapshot, the list of paths in play covers all files, and the
  restore reports no error. Only files come back: the state of the key store, such as the keychain of the
  platform, stays what the failed import made of it.
\<close>

theorem profile_rollback:
  assumes open_ok: "import_pass opts \<noteq> []" "open_profile P A data (import_pass opts) = Inr (entries, manifest)"
    and specs: "install_specs E = Inr specs" "layout_ok (rollback_root E rnd) specs"
    and fresh: "\<forall>sp\<in>set specs. \<forall>q. in_region (stored_region (rollback_root E rnd) sp) q \<longrightarrow> d_files d q = None"
    and snap: "snapshotInstall U E rnd d = (d0, Inr backup)"
    and body: "replace_profile P ulow U L rnd rnds T entries manifest (import_pass opts) opts destKsFn (E, (s, d0)) = ((E', (s1, d1)), Inl err)"
    and kept: "\<forall>sp\<in>set specs. \<forall>q. in_region (stored_region (rollback_root E rnd) sp) q \<longrightarrow> d_files d1 q = d_files d0 q"
    and U: "universe U d0" "universe U d1"
    and rest: "restore_backup U backup d1 = (d2, Inr ())"
  shows "\<exists>d'. ImportFromBytes P A ulow U L rnd rnds T data opts destKsFn (E, (s, d)) = ((E', (s1, d')), Inl err)
     \<and> (\<forall>sp\<in>set specs. \<forall>q. installed sp q \<longrightarrow> d_files d' q = d_files d q)"
proof -
  let ?root = "rollback_root E rnd"
  obtain items where i: "snapshot_items U ?root specs [] d = (d0, Inr items)" "backup = \<lparr>ib_root = ?root, ib_items = items\<rparr>"
    using snap by (auto simp: snapshotInstall_def specs(1) sbind_Inr_iff Let_def split: option.splits)
  have lay: "pairwise_apart (map live_region specs)" "pairwise_apart (map (stored_region ?root) specs)"
      "\<forall>s\<in>set specs. \<forall>t\<in>set specs. apart (stored_region ?root s) (live_region t)" "\<forall>t\<in>set specs. apart (?root, True) (live_region t)"
    using specs(2) by (simp_all add: layout_ok_def list_all_iff)
  from snapshot_items_archived [OF i(1) U(1) lay(2,3) fresh] have
    new: "list_all2 (\<lambda>s e. entry_region e = live_region s \<and> (be_existed e \<longrightarrow> (be_stored e, be_isDir e) = stored_region ?root s)) specs items"
      "\<forall>e\<in>set items. archived d0 d e" by auto
  have spec_of: "\<exists>sp\<in>set specs. entry_region e = live_region sp \<and> (be_existed e \<longrightarrow> (be_stored e, be_isDir e) = stored_region ?root sp)" if "e \<in> set items" for e
    using list_all2_members(1) [OF new(1) that] .
  have regs: "map entry_region items = map live_region specs" using new(1) by (auto simp: list_all2_conv_all_nth intro: nth_equalityI)
  have ud: "universe U d" using U(1) snapshot_items_mono [OF i(1)] by (auto simp: universe_def)
  have arch: "archived d1 d e" if "e \<in> set items" for e
    by (rule archived_cong [OF _ _ bspec [OF new(2) that]]) (use spec_of [OF that] kept in auto)
  have sep: "\<forall>e\<in>set items. \<forall>e'\<in>set items. be_existed e \<longrightarrow> apart (be_stored e, be_isDir e) (entry_region e')"
    using spec_of lay(3) by (metis (no_types, lifting))
  have r: "restore_items U items d1 = (d2, False)" using rest i(2) by (auto simp: restore_backup_def split: prod.splits if_splits)
  from restore_items_ok [OF r U(2) ud _ _ sep] arch lay(1) regs
  have restored: "d_files d2 q = d_files d q" if "e \<in> set items" "covers e q" for e q using that by auto
  let ?d' = "discard U ?root d2"
  have "ImportFromBytes P A ulow U L rnd rnds T data opts destKsFn (E, (s, d)) = ((E', (s1, ?d')), Inl err)"
    using open_ok snap body rest i(2) by (simp add: ImportFromBytes_def finish_import_def)
  moreover have "d_files ?d' q = d_files d q" if sp: "sp \<in> set specs" and q: "installed sp q" for sp q
  proof -
    obtain e where e: "e \<in> set items" "entry_region e = live_region sp"
      using list_all2_members(2) [OF new(1) sp] by blast
    have c: "covers e q" using q e(2) by (auto simp: installed_def covers_def entry_region_def live_region_def split: prod.splits)
    have "in_region (live_region sp) q" using q by (auto simp: installed_def in_region_def live_region_def split: prod.splits if_splits)
    then have "\<not> in_region (?root, True) q" using lay(4) sp apart_disjoint apart_sym by blast
    then show ?thesis using restored [OF e(1) c] by (simp add: discard_other)
  qed
  ultimately show ?thesis by blast
qed

section \<open>What an export holds\<close>

definition meta_entry :: "bytes \<Rightarrow> bytes" where "meta_entry name = ''identities/'' @ name @ ''.meta''"

text \<open>A name with an extension: the dot of the extension is the only way to two dots in a row.\<close>

lemma Contains_dots_ext:
  assumes "\<not> Contains n ''..''" "n \<noteq> []" "CHR ''.'' \<notin> set x"
  shows "Contains (n @ CHR ''.'' # x) ''..'' \<longleftrightarrow> last n = CHR ''.''"
proof -
  have x: "\<not> Contains x ''..''" using assms(3) by (induction x) (auto simp: HasPrefix_def)
  show ?thesis using assms(1,2)
  proof (induction n)
    case (Cons c n)
    show ?case
    proof (cases n)
      case Nil
      then show ?thesis using x assms(3) by (cases x) (auto simp: HasPrefix_def)
    next
      case (Cons c' n')
      then show ?thesis using Cons.IH Cons.prems by (auto simp: HasPrefix_def)
    qed
  qed simp
qed

lemma Contains_dots_slash: "Contains (a @ CHR ''/'' # b) ''..'' \<longleftrightarrow> Contains a ''..'' \<or> Contains b ''..''"
proof (induction a)
  case Nil
  then show ?case by (cases b) (auto simp: HasPrefix_def)
next
  case (Cons x a)
  then show ?case by (cases a) (auto simp: HasPrefix_def)
qed

lemma profile_entry_paths:
  assumes "ValidateName n = Inr ()"
  shows "filepath_Join ''identities-bundles'' (n @ ''.icid'') = bundle_entry n" "filepath_Join ''identities'' (n @ ''.meta'') = meta_entry n"
    "Clean (bundle_entry n) = bundle_entry n" "Clean (meta_entry n) = meta_entry n"
    "Contains (bundle_entry n) ''..'' \<longleftrightarrow> last n = CHR ''.''" "Contains (meta_entry n) ''..'' \<longleftrightarrow> last n = CHR ''.''"
proof -
  have c: "component_ok (n @ ''.icid'')" "component_ok (n @ ''.meta'')" using assms by (intro name_component; simp)+
  have p: "dir_prefix ''identities-bundles'' = ''identities-bundles/''" "dir_prefix ''identities'' = ''identities/''" by code_simp+
  show "filepath_Join ''identities-bundles'' (n @ ''.icid'') = bundle_entry n" "filepath_Join ''identities'' (n @ ''.meta'') = meta_entry n"
    using filepath_Join_component [OF c(1), of "''identities-bundles''"] filepath_Join_component [OF c(2), of "''identities''"] p
    by (simp_all add: bundle_entry_def meta_entry_def)
  have d: "component_ok ''identities-bundles''" "component_ok ''identities''" by (simp_all add: component_ok_def)
  show "Clean (bundle_entry n) = bundle_entry n" "Clean (meta_entry n) = meta_entry n"
    using Clean_components [of "[''identities-bundles'', n @ ''.icid'']"] Clean_components [of "[''identities'', n @ ''.meta'']"] c d
    by (simp_all add: bundle_entry_def meta_entry_def)
  have n: "\<not> Contains n ''..''" "n \<noteq> []" using assms by (auto simp: ValidateName_def split: if_splits)
  show "Contains (bundle_entry n) ''..'' \<longleftrightarrow> last n = CHR ''.''" "Contains (meta_entry n) ''..'' \<longleftrightarrow> last n = CHR ''.''"
    using Contains_dots_slash [of "''identities-bundles''" "n @ ''.icid''"] Contains_dots_slash [of "''identities''" "n @ ''.meta''"]
      Contains_dots_ext [OF n, of "''icid''"] Contains_dots_ext [OF n, of "''meta''"]
    by (simp_all add: bundle_entry_def meta_entry_def HasPrefix_def)
qed

text \<open>The archive entries of one identity in an export.\<close>

definition exported :: "prims \<Rightarrow> bytes \<Rightarrow> (IdentityIndex \<Rightarrow> Unlocked) \<Rightarrow> IdentityIndex \<Rightarrow> (bytes \<times> bytes) list \<Rightarrow> bool" where
  "exported P pass u e g \<longleftrightarrow> (\<exists>r b m. ExportBytes P r (u e) pass = Inr b \<and> (\<forall>x\<in>set m. fst x = meta_entry (ix_Name e))
     \<and> g = (bundle_entry (ix_Name e), b) # m)"

lemma exported_keys:
  assumes "exported P pass u e g"
  shows "(k, v) \<in> set g \<Longrightarrow> k = bundle_entry (ix_Name e) \<or> k = meta_entry (ix_Name e)"
    "\<exists>r c. ExportBytes P r (u e) pass = Inr c \<and> (bundle_entry (ix_Name e), c) \<in> set g \<and> (\<forall>v. (bundle_entry (ix_Name e), v) \<in> set g \<longrightarrow> v = c)"
proof -
  obtain r b m where e: "ExportBytes P r (u e) pass = Inr b" "\<forall>x\<in>set m. fst x = meta_entry (ix_Name e)" "g = (bundle_entry (ix_Name e), b) # m"
    using assms by (auto simp: exported_def)
  have "bundle_entry (ix_Name e) \<noteq> meta_entry (ix_Name e)" by (simp add: bundle_entry_def meta_entry_def)
  then show "(k, v) \<in> set g \<Longrightarrow> k = bundle_entry (ix_Name e) \<or> k = meta_entry (ix_Name e)"
    "\<exists>r c. ExportBytes P r (u e) pass = Inr c \<and> (bundle_entry (ix_Name e), c) \<in> set g \<and> (\<forall>v. (bundle_entry (ix_Name e), v) \<in> set g \<longrightarrow> v = c)"
    using e by fastforce+
qed

text \<open>Among the entries of distinct identities, the bundle of each is found once.\<close>

lemma exported_lookup:
  assumes "list_all2 (exported P pass u) es gs" "distinct (map ix_Name es)" "e \<in> set es"
  shows "\<exists>r c. ExportBytes P r (u e) pass = Inr c \<and> (bundle_entry (ix_Name e), c) \<in> set (concat gs)
     \<and> (\<forall>v. (bundle_entry (ix_Name e), v) \<in> set (concat gs) \<longrightarrow> v = c)"
proof -
  obtain i where i: "i < length es" "es ! i = e" using assms(3) by (auto simp: in_set_conv_nth)
  have x: "exported P pass u (es ! j) (gs ! j)" if "j < length es" for j using assms(1) that by (simp add: list_all2_conv_all_nth)
  have l: "length gs = length es" using assms(1) by (simp add: list_all2_conv_all_nth)
  from exported_keys(2) [OF x [OF i(1)]] obtain r c where c: "ExportBytes P r (u e) pass = Inr c" "(bundle_entry (ix_Name e), c) \<in> set (gs ! i)"
      "\<forall>v. (bundle_entry (ix_Name e), v) \<in> set (gs ! i) \<longrightarrow> v = c" unfolding i(2) by blast
  have "v = c" if v: "(bundle_entry (ix_Name e), v) \<in> set (concat gs)" for v
  proof -
    from v obtain g where g: "g \<in> set gs" "(bundle_entry (ix_Name e), v) \<in> set g" by auto
    then obtain j where j: "j < length es" "gs ! j = g" using l by (auto simp: in_set_conv_nth)
    have "bundle_entry (ix_Name e) = bundle_entry (ix_Name (es ! j)) \<or> bundle_entry (ix_Name e) = meta_entry (ix_Name (es ! j))"
      using exported_keys(1) [OF x [OF j(1)]] g(2) j(2) by blast
    then have "ix_Name (es ! i) = ix_Name (es ! j)" using i(2) by (simp add: bundle_entry_def meta_entry_def)
    then have "j = i" using nth_eq_iff_index_eq [OF assms(2), of i j] i(1) j(1) by simp
    then show ?thesis using c(3) g(2) j(2) by simp
  qed
  moreover have "(bundle_entry (ix_Name e), c) \<in> set (concat gs)" using c(2) i(1) l by auto
  ultimately show ?thesis using c(1) by blast
qed

lemma export_profile_entries_readonly:
  assumes "\<forall>e\<in>set es. openFn (ix_Name e) w = (w, Inr (u e)) \<and> ValidateName (ix_Name e) = Inr ()"
    and "export_profile_entries P rnd pass st openFn i es acc w = (w', Inr (files, ids))"
  shows "w' = w \<and> ids = snd acc @ map (\<lambda>e. zero_ManifestIdentity\<lparr>mi_Name := ix_Name e, mi_HWKey := id_HWKey (u_info (u e))\<rparr>) es
     \<and> (\<exists>gs. files = fst acc @ concat gs \<and> list_all2 (exported P pass u) es gs)"
  using assms
proof (induction es arbitrary: i acc)
  case (Cons e es)
  have n: "ValidateName (ix_Name e) = Inr ()" and o: "openFn (ix_Name e) w = (w, Inr (u e))" using Cons.prems(1) by simp_all
  from Cons.prems(2) o obtain b m where 1: "ExportBytes P (rnd i) (u e) pass = Inr b"
      "file_entry (snd w) (meta_path st (ix_Name e)) (meta_entry (ix_Name e)) = Inr m"
      "export_profile_entries P rnd pass st openFn (Suc i) es (fst acc @ [(bundle_entry (ix_Name e), b)] @ m,
         snd acc @ [zero_ManifestIdentity\<lparr>mi_Name := ix_Name e, mi_HWKey := id_HWKey (u_info (u e))\<rparr>]) w = (w', Inr (files, ids))"
    by (auto simp: sbind_Inr_iff profile_entry_paths [OF n])
  have "exported P pass u e ((bundle_entry (ix_Name e), b) # m)"
    using 1(1,2) by (auto simp: exported_def file_entry_def Let_def split: if_splits)
  moreover from Cons.IH [OF _ 1(3)] Cons.prems(1) obtain gs where "w' = w" "files = fst acc @ concat (((bundle_entry (ix_Name e), b) # m) # gs)"
      "ids = snd acc @ map (\<lambda>e. zero_ManifestIdentity\<lparr>mi_Name := ix_Name e, mi_HWKey := id_HWKey (u_info (u e))\<rparr>) (e # es)" "list_all2 (exported P pass u) es gs"
    by auto
  ultimately show ?case by (metis list_all2_Cons)
qed auto

lemma read_entries_Inl:
  "(n, b) \<in> set es \<Longrightarrow> Contains (Clean n) ''..'' \<Longrightarrow> \<exists>e. read_entries es er out = Inl e"
  by (induction es arbitrary: out) auto

lemma map_of_rev_unique:
  assumes "(k, v) \<in> set es" "\<And>v'. (k, v') \<in> set es \<Longrightarrow> v' = v"
  shows "map_of (List.rev es) k = Some v"
proof -
  obtain v' where "map_of (List.rev es) k = Some v'" using weak_map_of_SomeI [of k v "List.rev es"] assms(1) by auto
  then show ?thesis using assms(2) [of v'] map_of_SomeD [of "List.rev es" k v'] by simp
qed

text \<open>
  C6. A profile that was exported can be looked into with its passphrase, and shows the identities of the
  index in order. It can be imported, with the portable bundle of each identity under its name, unless the
  name of some identity ends with a dot, which is a valid name: then no import accepts the archive.
\<close>

theorem profile_export_opens:
  assumes laws: "scrypt_correct P" "archive_correct A"
    and idx: "NewIdStore E = Inr st" "LoadIndex (st_path st) d = Inr es" "names_ok es" "list_all wf_IdentityIndex es"
    and fn: "\<forall>e\<in>set es. openFn (ix_Name e) (s, d) = ((s, d), Inr (u e))"
    and wf: "wf_time now" "int64 (countContactsAtPath d (path_or_empty (ContactsFilePath E)))"
    and x: "ExportToBytesWithPass P A E rnd now pass openFn (s, d) = (w', Inr b)"
  shows "\<exists>m. PeekManifestFromBytes P A b pass = Inr m \<and> map mi_Name (mf_Identities m) = map ix_Name es
     \<and> (if \<exists>e\<in>set es. last (ix_Name e) = CHR ''.'' then isl (open_profile P A b pass)
        else \<exists>entries. open_profile P A b pass = Inr (entries, m)
          \<and> list_all (\<lambda>e. \<exists>r c. ExportBytes P r (u e) pass = Inr c \<and> entries (bundle_entry (ix_Name e)) = Some c) es)"
proof -
  have vn: "ValidateName (ix_Name e) = Inr ()" if "e \<in> set es" for e using idx(3) that by (simp add: names_ok_def)
  from x obtain w1 files ids where e: "export_profile_entries P rnd pass st openFn 1 es ([], []) (s, d) = (w1, Inr (files, ids))"
    by (auto simp: ExportToBytesWithPass_def idx sbind_Inr_iff split: if_splits)
  from export_profile_entries_readonly [OF _ e, of u] fn vn obtain gs where
    f: "w1 = (s, d)" "ids = map (\<lambda>e. zero_ManifestIdentity\<lparr>mi_Name := ix_Name e, mi_HWKey := id_HWKey (u_info (u e))\<rparr>) es"
      "files = concat gs" "list_all2 (exported P pass u) es gs" by auto
  let ?m = "\<lparr>mf_Version = bundleVersion, mf_ExportedAt = now, mf_Identities = ids,
     mf_ContactCount = countContactsAtPath d (path_or_empty (ContactsFilePath E)), mf_DefaultIdentity = []\<rparr>"
  from x e f(1) obtain cfg ct buf where w: "pass \<noteq> []" "marshals now"
      "file_entry d (path_or_empty (ConfigFilePath E)) ''config.toml'' = Inr cfg"
      "file_entry d (path_or_empty (ContactsFilePath E)) ''contacts.json'' = Inr ct"
      "ar_Write A (files @ cfg @ ct @ [(''manifest.json'', indented (enc_Manifest ?m))]) = Inr buf"
      "EncryptWithPassphraseBytes P (rnd 0) buf pass = Inr b"
    by (auto simp: ExportToBytesWithPass_def idx Let_def sbind_Inr_iff split: if_splits)
  let ?all = "files @ cfg @ ct @ [(''manifest.json'', indented (enc_Manifest ?m))]"
  have single: "\<forall>z\<in>set cfg. fst z = ''config.toml''" "\<forall>z\<in>set ct. fst z = ''contacts.json''"
    using w(3,4) by (auto simp: file_entry_def Let_def split: if_splits)
  have keys: "\<exists>e\<in>set es. k = bundle_entry (ix_Name e) \<or> k = meta_entry (ix_Name e)" if "(k, v) \<in> set files" for k v
  proof -
    from that obtain g where g: "g \<in> set gs" "(k, v) \<in> set g" by (auto simp: f(3))
    from list_all2_members(1) [OF f(4) g(1)] exported_keys(1) [OF _ g(2)] show ?thesis by blast
  qed
  have m: "wf_Manifest ?m"
    using wf w(2) idx(4) by (auto simp: wf_Manifest_def f(2) bundleVersion_def int64_def list_all_iff wf_ManifestIdentity_def wf_IdentityIndex_def
        zero_ManifestIdentity_def valid_utf8_ascii ascii_def)
  have nm: "k \<noteq> ''manifest.json''" if "(k, v) \<in> set files \<union> set cfg \<union> set ct" for k v
    using that keys [of k v] single by (auto simp: bundle_entry_def meta_entry_def)
  have dec: "DecryptWithPassphraseBytes P b pass = Inr buf" by (rule scrypt_roundtrip [OF laws(1) w(6)])
  have rd: "ar_Read A buf = Inr (?all, None)" using laws(2) w(5) unfolding archive_correct_def by blast
  have peek: "PeekManifestFromBytes P A b pass = Inr ?m"
  proof -
    have "peek_entries (xs @ [(''manifest.json'', indented (enc_Manifest ?m))]) None = Inr ?m" if "\<forall>(k, v)\<in>set xs. k \<noteq> ''manifest.json''" for xs
      using that by (induction xs) (auto simp: unmarshal_indented wf_enc_Manifest dec_enc_Manifest [OF m])
    from this [of "files @ cfg @ ct"] nm show ?thesis by (simp add: PeekManifestFromBytes_def dec rd) auto
  qed
  have names: "map mi_Name (mf_Identities ?m) = map ix_Name es" by (simp add: f(2))
  have dist: "distinct (map ix_Name es)" using idx(3) by (simp add: names_ok_def)
  note look = exported_lookup [OF f(4) dist, folded f(3)]
  show ?thesis
  proof (cases "\<exists>e\<in>set es. last (ix_Name e) = CHR ''.''")
    case True
    then obtain e where e: "e \<in> set es" "last (ix_Name e) = CHR ''.''" by blast
    obtain c where "(bundle_entry (ix_Name e), c) \<in> set ?all" using look [OF e(1)] by auto
    from read_entries_Inl [OF this, of None Map.empty] have "\<exists>er. read_entries ?all None Map.empty = Inl er"
      using e(2) by (simp add: profile_entry_paths [OF vn [OF e(1)]])
    then have "isl (open_profile P A b pass)" by (auto simp: open_profile_def dec readTarEntries_def rd)
    with peek names show ?thesis unfolding if_P [OF True] by blast
  next
    case False
    let ?entries = "map_of (List.rev ?all)"
    have safe: "\<forall>(k, v)\<in>set ?all. \<not> Contains (Clean k) ''..'' \<and> \<not> HasPrefix (Clean k) ''/''"
    proof -
      have "\<not> Contains (Clean k) ''..'' \<and> \<not> HasPrefix (Clean k) ''/''" if "(k, v) \<in> set files" for k v
        using keys [OF that] False profile_entry_paths [OF vn] by (auto simp: bundle_entry_def meta_entry_def HasPrefix_def)
      moreover have "Clean ''config.toml'' = ''config.toml''" "Clean ''contacts.json'' = ''contacts.json''" "Clean ''manifest.json'' = ''manifest.json''" by code_simp+
      ultimately show ?thesis using single by (auto simp: HasPrefix_def)
    qed
    have "parse_manifest ?entries = Inr ?m"
      by (rule parse_manifest_written [OF m]) (simp add: map_of_rev_unique)
    then have o: "open_profile P A b pass = Inr (?entries, ?m)"
      using read_entries_ok [OF safe, of Map.empty] by (simp add: open_profile_def dec readTarEntries_def rd del: rev_append)
    have "\<exists>r c. ExportBytes P r (u e) pass = Inr c \<and> ?entries (bundle_entry (ix_Name e)) = Some c" if "e \<in> set es" for e
    proof -
      from look [OF that] obtain r c where c: "ExportBytes P r (u e) pass = Inr c" "(bundle_entry (ix_Name e), c) \<in> set files"
          "\<forall>v. (bundle_entry (ix_Name e), v) \<in> set files \<longrightarrow> v = c" by blast
      have "?entries (bundle_entry (ix_Name e)) = Some c"
      proof (rule map_of_rev_unique)
        show "(bundle_entry (ix_Name e), c) \<in> set ?all" using c(2) by simp
        fix v assume v: "(bundle_entry (ix_Name e), v) \<in> set ?all"
        have "bundle_entry (ix_Name e) \<noteq> ''config.toml''" "bundle_entry (ix_Name e) \<noteq> ''contacts.json''" "bundle_entry (ix_Name e) \<noteq> ''manifest.json''"
          by (simp_all add: bundle_entry_def)
        then have "(bundle_entry (ix_Name e), v) \<notin> set cfg" "(bundle_entry (ix_Name e), v) \<notin> set ct" using single by force+
        then show "v = c" using v c(3) \<open>bundle_entry (ix_Name e) \<noteq> ''manifest.json''\<close> by simp
      qed
      with c(1) show ?thesis by blast
    qed
    then have "list_all (\<lambda>e. \<exists>r c. ExportBytes P r (u e) pass = Inr c \<and> ?entries (bundle_entry (ix_Name e)) = Some c) es" by (simp only: list_all_iff) blast
    with o peek names show ?thesis unfolding if_not_P [OF False] by blast
  qed
qed

text \<open>
  The snapshot is one of files. What the wipe removed from the keychain of the platform is not in it and
  does not come back: the deferred function never touches the state of a key store.
\<close>

theorem rollback_forgets_keychain:
  assumes "finish_import U backup (s, d) r = ((s', d'), r')"
  shows "s' = s"
  using assms by (auto simp: finish_import_def split: sum.splits prod.splits)

theorem wipe_clears_keychain:
  assumes "ix_Backend e = BackendKeychain" "pl_KeychainAvailable L s = (s, True)" "pl_Keychain L = Keyring_Keystore goos toy_keyring"
  shows "isl (Keyring_LoadEncryptionIdentity toy_keyring (ix_Name e) (fst (wipe_key L keysDir e (s, d))))"
proof -
  let ?k = "ix_Name e @ encKeySuffix"
  have del: "r' ?k = None" if "Keyring_removeFromIndex toy_keyring (ix_Name e) r = (r', x)" "r ?k = None" for r r' x
  proof -
    have "r' = r \<or> (\<exists>v. r' = r(indexKey \<mapsto> v))"
      using that(1) by (cases "Keyring_ListNames toy_keyring r") (auto simp: Keyring_removeFromIndex_def toy_keyring_def)
    then show ?thesis using that(2) suffix_keys(1) [of "ix_Name e"] by auto
  qed
  obtain r' x where c: "Keyring_Clear toy_keyring (ix_Name e) s = (r', x)" by (cases "Keyring_Clear toy_keyring (ix_Name e) s")
  have "r' ?k = None"
  proof -
    define r1 where "r1 = (case kr_Get toy_keyring keychainService (ix_Name e @ signKeySuffix) s of Inl _ \<Rightarrow> s
       | Inr v \<Rightarrow> (case parseChunkMarker v of None \<Rightarrow> s | Some n \<Rightarrow> delete_chunks toy_keyring (ix_Name e @ signKeySuffix) 0 (nat n) s))"
    have "Keyring_removeFromIndex toy_keyring (ix_Name e) (r1(?k := None, ix_Name e @ signKeySuffix := None)) = (r', x)"
      using c unfolding Keyring_Clear_def Let_def r1_def [symmetric] by (simp add: toy_keyring_def forgiving_def)
    then show ?thesis by (rule del) simp
  qed
  then show ?thesis using assms c by (simp add: wipe_key_def Keyring_Keystore_def on_state_def Keyring_LoadEncryptionIdentity_def toy_keyring_def)
qed

section \<open>Witnesses\<close>

definition profile_manifest :: Manifest where
  "profile_manifest = zero_Manifest\<lparr>mf_Version := bundleVersion\<rparr>"

definition profile_archive :: Archive where
  "profile_archive = one_archive [(''manifest.json'', indented (enc_Manifest profile_manifest))]"

definition profile_options :: "unit ImportOptions" where
  "profile_options = \<lparr>io_Passphrase = ''pw'', io_PassphraseBytes = [], io_IncludeSettings = False, io_IncludePaths = False, io_HWRestore = None\<rparr>"

definition no_platform :: "unit Platform" where
  "no_platform = \<lparr>pl_KeychainAvailable = (\<lambda>s. (s, False)), pl_Keychain = Keyring_Keystore ''linux'' \<lparr>kr_Set = (\<lambda>_ _ _ r. (r, Inr ())),
     kr_Get = (\<lambda>_ _ _. Inl keyring_ErrNotFound), kr_Delete = (\<lambda>_ _ r. (r, Inl keyring_ErrNotFound))\<rparr>\<rparr>"

definition profile_paths :: "bytes list" where
  "profile_paths = [''/d/contacts.json'', ''/tmp/icfx-import-rollback-r/contacts.json'']"

definition contacts_disk :: disk where "contacts_disk = empty_disk\<lparr>d_files := [''/d/contacts.json'' \<mapsto> ''c'']\<rparr>"

definition sample_specs :: "spec list" where
  "sample_specs = [(''/k'', True, ''keys''), (''/d/identities'', True, ''meta''), (''/d/identities.json'', False, ''identities.json''),
     (''/d/contacts.json'', False, ''contacts.json''), (''/c/config.toml'', False, ''config.toml'')]"

lemmas path_simps = filepath_Join_def Clean_def clean_parts_def clean_step_def HasPrefix_def dir_prefix_def

lemma sample_specs_ok: "install_specs sample_env = Inr sample_specs" "rollback_root sample_env ''r'' = ''/tmp/icfx-import-rollback-r''"
  by (simp_all add: install_specs_def KeysDir_def IdentityMetaDir_def IdentitiesFilePath_def ContactsFilePath_def ConfigFilePath_def DataDir_def ConfigDir_def
      sample_env_def sample_specs_def rollback_root_def TempDir_def path_simps)

lemma sample_layout: "layout_ok ''/tmp/icfx-import-rollback-r'' sample_specs"
  by code_simp

lemma sample_open_profile:
  assumes "EncryptWithPassphraseBytes toy_prims [] ''a'' ''pw'' = Inr b"
  shows "open_profile toy_prims profile_archive b ''pw'' = Inr ([''manifest.json'' \<mapsto> indented (enc_Manifest profile_manifest)], profile_manifest)"
proof -
  have "wf_Manifest profile_manifest" using wf_zero_time
    by (simp add: wf_Manifest_def profile_manifest_def zero_Manifest_def bundleVersion_def int64_def valid_utf8_ascii ascii_def)
  then have "parse_manifest [''manifest.json'' \<mapsto> indented (enc_Manifest profile_manifest)] = Inr profile_manifest"
    by (rule parse_manifest_written) simp
  moreover have "readTarEntries profile_archive ''a'' = Inr [''manifest.json'' \<mapsto> indented (enc_Manifest profile_manifest)]"
    by (simp add: readTarEntries_def profile_archive_def one_archive_def path_simps)
  ultimately show ?thesis using scrypt_roundtrip [OF toy_laws(2) assms] by (simp add: open_profile_def profile_manifest_def)
qed

definition archive_disk :: disk where
  "archive_disk = contacts_disk\<lparr>d_files := (d_files contacts_disk)(''/tmp/icfx-import-rollback-r/contacts.json'' \<mapsto> ''c'')\<rparr>"

definition wiped_disk :: disk where
  "wiped_disk = archive_disk\<lparr>d_files := (d_files archive_disk)(''/d/contacts.json'' := None)\<rparr>"

definition sample_backup :: installBackup where
  "sample_backup = \<lparr>ib_root = ''/tmp/icfx-import-rollback-r'', ib_items =
     [\<lparr>be_live = ''/k'', be_stored = [], be_isDir = True, be_existed = False\<rparr>,
      \<lparr>be_live = ''/d/identities'', be_stored = [], be_isDir = True, be_existed = False\<rparr>,
      \<lparr>be_live = ''/d/identities.json'', be_stored = [], be_isDir = False, be_existed = False\<rparr>,
      \<lparr>be_live = ''/d/contacts.json'', be_stored = ''/tmp/icfx-import-rollback-r/contacts.json'', be_isDir = False, be_existed = True\<rparr>,
      \<lparr>be_live = ''/c/config.toml'', be_stored = [], be_isDir = False, be_existed = False\<rparr>]\<rparr>"

lemma sample_stats:
  "os_Stat profile_paths contacts_disk ''/k'' = Inl ErrNotExist" "os_Stat profile_paths contacts_disk ''/d/identities'' = Inl ErrNotExist"
  "os_Stat profile_paths contacts_disk ''/d/identities.json'' = Inl ErrNotExist" "os_Stat profile_paths contacts_disk ''/d/contacts.json'' = Inr ()"
  "os_Stat profile_paths archive_disk ''/c/config.toml'' = Inl ErrNotExist"
  by code_simp+

lemma sample_snapshot: "snapshotInstall profile_paths sample_env ''r'' contacts_disk = (archive_disk, Inr sample_backup)"
proof -
  have f: "d_fault contacts_disk = (\<lambda>_ _. None)" by (simp add: contacts_disk_def empty_disk_def)
  have c: "d_files contacts_disk ''/d/contacts.json'' = Some ''c''" by (simp add: contacts_disk_def)
  have j: "filepath_Join ''/tmp/icfx-import-rollback-r'' ''contacts.json'' = ''/tmp/icfx-import-rollback-r/contacts.json''" by code_simp
  have "copyPath profile_paths ''/d/contacts.json'' ''/tmp/icfx-import-rollback-r/contacts.json'' False contacts_disk = (archive_disk, Inr ())"
    by (simp add: copyPath_def copyFile_def os_MkdirAll_def os_WriteFile_def ReadFile_def f c archive_disk_def)
  then show ?thesis
    by (simp add: snapshotInstall_def sample_specs_ok os_MkdirAll_def f sample_specs_def sample_stats j sample_backup_def)
qed

lemma sample_restore: "\<exists>d2. restore_backup profile_paths sample_backup wiped_disk = (d2, Inr ())"
proof -
  have f: "d_fault wiped_disk = (\<lambda>_ _. None)" by (simp add: wiped_disk_def archive_disk_def contacts_disk_def empty_disk_def)
  have t: "tree_files profile_paths wiped_disk ''/k'' = []" "tree_files profile_paths wiped_disk ''/d/identities'' = []" by code_simp+
  have n: "d_files wiped_disk ''/k'' = None" "d_files wiped_disk ''/d/identities'' = None" "d_files wiped_disk ''/d/identities.json'' = None"
      "d_files wiped_disk ''/c/config.toml'' = None" "d_files wiped_disk ''/tmp/icfx-import-rollback-r/contacts.json'' = Some ''c''"
    by (simp_all add: wiped_disk_def archive_disk_def contacts_disk_def)
  have r: "os_RemoveAll profile_paths wiped_disk ''/k'' = (wiped_disk, Inr ())" "os_RemoveAll profile_paths wiped_disk ''/d/identities'' = (wiped_disk, Inr ())"
    by (simp_all add: os_RemoveAll_def t n)
  show ?thesis
    by (simp add: restore_backup_def sample_backup_def restore_entry_def r remove_present_def os_Remove_def n IsNotExist_def
        copyFile_def os_MkdirAll_def os_WriteFile_def ReadFile_def f)
qed

theorem profile_rollback_witness:
  "\<exists>b err d'. EncryptWithPassphraseBytes toy_prims [] ''a'' ''pw'' = Inr b
     \<and> ImportFromBytes toy_prims profile_archive id profile_paths no_platform ''r'' (\<lambda>_ _. []) small_toml b profile_options
         (\<lambda>E w. (w, Inl (Errorf ''no keychain''))) (sample_env, ((), contacts_disk)) = ((sample_env, ((), d')), Inl err)
     \<and> d_files d' ''/d/contacts.json'' = Some ''c''"
proof -
  obtain b where b: "EncryptWithPassphraseBytes toy_prims [] ''a'' ''pw'' = Inr b" by (auto simp: EncryptWithPassphraseBytes_def toy_prims_def)
  let ?entries = "[''manifest.json'' \<mapsto> indented (enc_Manifest profile_manifest)]" and ?root = "rollback_root sample_env ''r''"
  have p: "import_pass profile_options = ''pw''" by (simp add: import_pass_def profile_options_def)
  have f: "d_fault archive_disk = (\<lambda>_ _. None)" by (simp add: archive_disk_def contacts_disk_def empty_disk_def)
  have paths: "KeysDir sample_env = Inr ''/k''" "IdentityMetaDir sample_env = Inr ''/d/identities''" "IdentitiesFilePath sample_env = Inr ''/d/identities.json''"
      "ContactsFilePath sample_env = Inr ''/d/contacts.json''" by code_simp+
  have n: "d_files archive_disk ''/d/identities.json'' = None" "d_files archive_disk ''/d/contacts.json'' = Some ''c''"
    by (simp_all add: archive_disk_def contacts_disk_def)
  have c: "child_files profile_paths archive_disk ''/k'' = []" "child_files profile_paths archive_disk ''/d/identities'' = []" by code_simp+
  have idx: "LoadIndex ''/d/identities.json'' archive_disk = Inr []" by (simp add: LoadIndex_def ReadFile_def n IsNotExist_def)
  have wipe: "wipeLocalState profile_paths no_platform sample_env ((), archive_disk) = ((), wiped_disk)"
    by (simp add: wipeLocalState_def paths path_or_empty_def sample_id_store_ok wipe_suffix_def c f remove_resolved_def os_Remove_def n wiped_disk_def
        idx [folded sample_id_store_def] sample_id_store_def Let_def)
  let ?err = "Wrap ''constructing destination keystore: %w'' (Errorf ''no keychain'')"
  have body: "replace_profile toy_prims id profile_paths no_platform ''r'' (\<lambda>_ _. []) small_toml ?entries profile_manifest (import_pass profile_options) profile_options
      (\<lambda>E w. (w, Inl (Errorf ''no keychain''))) (sample_env, ((), archive_disk)) = ((sample_env, ((), wiped_disk)), Inl ?err)"
    by (simp add: replace_profile_def install_profile_def wipe profile_options_def)
  have u: "universe profile_paths archive_disk" "universe profile_paths wiped_disk"
    by (auto simp: universe_def archive_disk_def wiped_disk_def contacts_disk_def profile_paths_def split: if_splits)
  have fresh: "\<forall>sp\<in>set sample_specs. \<forall>q. in_region (stored_region ?root sp) q \<longrightarrow> d_files contacts_disk q = None"
  proof -
    have "list_all (\<lambda>sp. \<not> in_region (stored_region ?root sp) ''/d/contacts.json'') sample_specs" unfolding sample_specs_ok by code_simp
    then show ?thesis by (auto simp: list_all_iff contacts_disk_def)
  qed
  have kept: "\<forall>sp\<in>set sample_specs. \<forall>q. in_region (stored_region ?root sp) q \<longrightarrow> d_files wiped_disk q = d_files archive_disk q"
  proof -
    have "list_all (\<lambda>sp. \<not> in_region (stored_region ?root sp) ''/d/contacts.json'') sample_specs" unfolding sample_specs_ok by code_simp
    then show ?thesis by (auto simp: list_all_iff wiped_disk_def)
  qed
  obtain d2 where r: "restore_backup profile_paths sample_backup wiped_disk = (d2, Inr ())" using sample_restore by blast
  have o: "open_profile toy_prims profile_archive b (import_pass profile_options) = Inr (?entries, profile_manifest)"
    unfolding p by (rule sample_open_profile [OF b])
  have lay: "layout_ok ?root sample_specs" unfolding sample_specs_ok by (rule sample_layout)
  have ne: "import_pass profile_options \<noteq> []" by (simp add: p)
  from profile_rollback [OF ne o sample_specs_ok(1) lay fresh sample_snapshot body kept u r]
  obtain d' where "ImportFromBytes toy_prims profile_archive id profile_paths no_platform ''r'' (\<lambda>_ _. []) small_toml b profile_options
         (\<lambda>E w. (w, Inl (Errorf ''no keychain''))) (sample_env, ((), contacts_disk)) = ((sample_env, ((), d')), Inl ?err)"
      "\<forall>sp\<in>set sample_specs. \<forall>q. installed sp q \<longrightarrow> d_files d' q = d_files contacts_disk q" by blast
  moreover have "(''/d/contacts.json'', False, ''contacts.json'') \<in> set sample_specs" by (simp add: sample_specs_def)
  ultimately show ?thesis using b by (auto simp: installed_def contacts_disk_def dest!: bspec)
qed

theorem profile_export_opens_witness:
  "\<exists>c b m. ExportBytes toy_prims [] sample_unlocked ''pw'' = Inr c
     \<and> ExportToBytesWithPass toy_prims (one_archive [(bundle_entry ''alice'', c), (''manifest.json'', indented (enc_Manifest
           (zero_Manifest\<lparr>mf_Version := bundleVersion, mf_Identities := [zero_ManifestIdentity\<lparr>mi_Name := ''alice'', mi_HWKey := id_HWKey (u_info sample_unlocked)\<rparr>]\<rparr>)))])
         sample_env (\<lambda>_. []) zero_time ''pw'' (\<lambda>n w. (w, Inr sample_unlocked)) ((), index_disk) = (((), index_disk), Inr b)
     \<and> PeekManifestFromBytes toy_prims (one_archive [(bundle_entry ''alice'', c), (''manifest.json'', indented (enc_Manifest
           (zero_Manifest\<lparr>mf_Version := bundleVersion, mf_Identities := [zero_ManifestIdentity\<lparr>mi_Name := ''alice'', mi_HWKey := id_HWKey (u_info sample_unlocked)\<rparr>]\<rparr>)))]) b ''pw'' = Inr m
     \<and> map mi_Name (mf_Identities m) = [''alice'']"
proof -
  obtain c where c: "ExportBytes toy_prims [] sample_unlocked ''pw'' = Inr c" using sample_export by blast
  let ?A = "one_archive [(bundle_entry ''alice'', c), (''manifest.json'', indented (enc_Manifest
     (zero_Manifest\<lparr>mf_Version := bundleVersion, mf_Identities := [zero_ManifestIdentity\<lparr>mi_Name := ''alice'', mi_HWKey := id_HWKey (u_info sample_unlocked)\<rparr>]\<rparr>)))]"
  obtain b where b: "EncryptWithPassphraseBytes toy_prims [] ''a'' ''pw'' = Inr b" by (auto simp: EncryptWithPassphraseBytes_def toy_prims_def)
  have n: "ix_Name sample_index = ''alice''" by (simp add: sample_index_def)
  have paths: "ConfigFilePath sample_env = Inr ''/c/config.toml''" "ContactsFilePath sample_env = Inr ''/d/contacts.json''" by code_simp+
  have no: "ReadFile index_disk ''/c/config.toml'' = Inl ErrNotExist" "ReadFile index_disk ''/d/contacts.json'' = Inl ErrNotExist"
    by (simp_all add: ReadFile_def index_disk_def)
  have count: "countContactsAtPath index_disk (path_or_empty (ContactsFilePath sample_env)) = 0"
    by (simp add: countContactsAtPath_def path_or_empty_def paths no)
  have x: "ExportToBytesWithPass toy_prims ?A sample_env (\<lambda>_. []) zero_time ''pw'' (\<lambda>n w. (w, Inr sample_unlocked)) ((), index_disk) = (((), index_disk), Inr b)"
    using b c wf_zero_time count profile_entry_paths [OF sample_name(1)]
    by (simp add: ExportToBytesWithPass_def sample_id_store_ok index_disk_loads n file_entry_def index_disk_meta IsNotExist_def path_or_empty_def paths no
        one_archive_def zero_Manifest_def Let_def)
  have fn: "\<forall>e\<in>set [sample_index]. (\<lambda>n w. (w, Inr sample_unlocked)) (ix_Name e) ((), index_disk) = (((), index_disk), Inr sample_unlocked)" by simp
  have wf: "list_all wf_IdentityIndex [sample_index]" using sample_index_ok(1) by simp
  from profile_export_opens [OF toy_laws(2) one_archive_correct sample_id_store_ok index_disk_loads sample_index_ok(2) wf fn wf_zero_time(1) _ x]
  obtain m where "PeekManifestFromBytes toy_prims ?A b ''pw'' = Inr m" "map mi_Name (mf_Identities m) = map ix_Name [sample_index]"
    by (auto simp: count int64_def)
  with c x n show ?thesis by auto
qed

end

