(* ===== verification/Icfx_Rekey.thy ===== *)
theory Icfx_Rekey
  imports Icfx_ContactSync Icfx_Notifications Icfx_Config Icfx_Roaming
begin

text \<open>
  Re-sealing of the cloud resources that are sealed to the lock of the default identity, after its keys
  changed (src/cloud/rekey.go), and the rest of the sync of settings (src/cloud/sync.go: the local side
  ConfigResourceIO and the gated pass).

  The state of the client is the configuration it holds in memory and the disk; a resource is read and
  written through \<open>ResourceIO\<close>. GET of the sync state is the parameter \<open>fetch\<close>. A store that may be nil is
  an option, a store is the path of its file. Randomness is an argument, by resource and attempt.
\<close>

section \<open>Local resources\<close>

definition FormatBool :: "bool \<Rightarrow> bytes" where "FormatBool b = (if b then ''true'' else ''false'')"

text \<open>A Go map, written with its keys in order.\<close>

definition SyncableSettings :: "Config \<Rightarrow> (bytes \<times> bytes) list" where
  "SyncableSettings cfg =
     [(''auto_lock_minutes'', int_lit (AutoLockMinutes cfg)),
      (''banner'', FormatBool (Banner cfg)),
      (''default_format'', DefaultFormat cfg),
      (''verbose'', FormatBool (Verbose cfg))]"

text \<open>The loop over the decoded map: an error of Set is dropped.\<close>

definition set_setting :: "env \<Rightarrow> Net \<Rightarrow> bytes \<times> bytes \<Rightarrow> Config \<Rightarrow> Config" where
  "set_setting E N kv c = (case Config_Set E N c (fst kv) (snd kv) of Inl _ \<Rightarrow> c | Inr c' \<Rightarrow> c')"

definition configResourceIO_Load :: "env \<Rightarrow> Config \<times> disk \<Rightarrow> bytes \<Rightarrow> bytes result" where
  "configResourceIO_Load E h resource =
     (case h of (cfg, d) \<Rightarrow>
      if resource = ''contacts'' then
        andthen (wrapping ''resolving contacts file path: %w'' (ContactsFilePath E)) (\<lambda>path.
        andthen (Contacts_load path d) (\<lambda>list.
        if \<not> list_all Contact_marshals list then Inl (Errorf ''json'') else Inr (compact (JArr (map enc_Contact list)))))
      else if resource = ''settings'' then Inr (compact (enc_map (SyncableSettings cfg)))
      else Inl (Errorf ''unknown resource %q''))"

definition configResourceIO_Apply :: "Toml \<Rightarrow> env \<Rightarrow> Net \<Rightarrow> Config \<times> disk \<Rightarrow> bytes \<Rightarrow> bytes \<Rightarrow> (Config \<times> disk) \<times> unit result" where
  "configResourceIO_Apply T E N h resource data =
     (case h of (cfg, d) \<Rightarrow>
      if resource = ''contacts'' then
        (case unmarshal (dec_list (dec_struct Contact_fields) zero_Contact) [] data of
           None \<Rightarrow> (h, Inl (Wrap ''parsing synced contacts: %w'' (Errorf ''json'')))
         | Some list \<Rightarrow>
           (case wrapping ''resolving contacts file path: %w'' (ContactsFilePath E) of
              Inl e \<Rightarrow> (h, Inl e)
            | Inr path \<Rightarrow> (case Contacts_save path d list of (d', r) \<Rightarrow> ((cfg, d'), r))))
      else if resource = ''settings'' then
        (case unmarshal dec_map [] data of
           None \<Rightarrow> (h, Inl (Wrap ''parsing synced settings: %w'' (Errorf ''json'')))
         | Some m \<Rightarrow>
           let cfg' = fold (set_setting E N) m cfg in
           (case Config_Save T E d cfg' of (d', r) \<Rightarrow> ((cfg', d'), r)))
      else (h, Inl (Errorf ''unknown resource %q'')))"

definition ConfigResourceIO :: "Toml \<Rightarrow> env \<Rightarrow> Net \<Rightarrow> (Config \<times> disk) ResourceIO" where
  "ConfigResourceIO T E N = \<lparr>io_Load = configResourceIO_Load E, io_Apply = configResourceIO_Apply T E N\<rparr>"

definition SyncSettingsGated ::
    "prims \<Rightarrow> 's Service \<Rightarrow> SelfCrypter \<Rightarrow> bytes \<Rightarrow> 'h ResourceIO \<Rightarrow> ServerSyncState \<Rightarrow> ('s \<times> 'h \<times> versions) \<times> bytes
     \<Rightarrow> (('s \<times> 'h \<times> versions) \<times> bytes) \<times> SyncOutcome result" where
  "SyncSettingsGated P sv u rnd io remote st =
     (case st of ((s, h, vs), lastDigest) \<Rightarrow>
      (case io_Load io h ''settings'' of Inl e \<Rightarrow> (st, Inl e)
       | Inr localBytes \<Rightarrow>
       let cur = hex_encode (sha256 P localBytes); snap = ServerSyncState_Blob remote ''settings'' in
       if bm_Version snap \<noteq> 0 \<and> bm_Version snap = vs ''settings'' \<and> cur = lastDigest
       then (st, Inr \<lparr>oc_Resource = ''settings'', oc_Action = SyncUpToDate, oc_Version = bm_Version snap, oc_CloudWasNewer = False\<rparr>)
       else (case SyncResource sv u rnd ''settings'' io (s, h, vs) of
               (st1, Inl e) \<Rightarrow> ((st1, lastDigest), Inl e)
             | ((s1, h1, vs1), Inr out) \<Rightarrow>
               (case io_Load io h1 ''settings'' of
                  Inl e \<Rightarrow> (((s1, h1, vs1), lastDigest), Inl e)
                | Inr after \<Rightarrow> (((s1, h1, vs1), hex_encode (sha256 P after)), Inr out)))))"

section \<open>Re-sealing\<close>

definition ErrNoLocalToRecover :: go_error where
  "ErrNoLocalToRecover = Sentinel ''cloud: no local copy to recover this resource from on this device''"

text \<open>A json.RawMessage in a slice.\<close>

definition dec_value :: "json decoder" where "dec_value j cur = (j, DOk)"

definition has_entries :: "string \<Rightarrow> string \<Rightarrow> bytes \<Rightarrow> bool" where
  "has_entries rows dead local =
     (case unmarshal (dec_struct
         [fld rows (dec_list dec_value JNull) fst (\<lambda>f (a, b). (f a, b)),
          fld dead (dec_list dec_str []) snd (\<lambda>f (a, b). (a, f b))]) ([], []) local of
        None \<Rightarrow> True | Some (items, gone) \<Rightarrow> length items > 0 \<or> length gone > 0)"

definition localSourceHasData :: "bytes \<Rightarrow> bytes \<Rightarrow> bool" where
  "localSourceHasData name local =
     (if name = ''contacts'' then
        (case unmarshal (dec_list dec_value JNull) [] local of None \<Rightarrow> True | Some list \<Rightarrow> length list > 0)
      else if name = ''groups'' then has_entries ''groups'' ''deleted'' local
      else if name = ''notifications'' then has_entries ''items'' ''dismissed'' local
      else True)"

record IdentitiesSyncState =
  is_Version :: int
  is_Digest :: bytes

record SyncPositions =
  sp_Versions :: versions
  sp_Identities :: IdentitiesSyncState
  sp_Contacts :: ContactsSyncState
  sp_SettingsDigest :: bytes

text \<open>The remaining attempts.\<close>

fun reseal_attempts ::
    "'s Service \<Rightarrow> SelfCrypter \<Rightarrow> (nat \<Rightarrow> bytes) \<Rightarrow> bytes \<Rightarrow> bytes \<Rightarrow> nat \<Rightarrow> int \<Rightarrow> 's \<times> versions \<Rightarrow> ('s \<times> versions) \<times> unit result" where
  "reseal_attempts sv u rnd name plaintext 0 curVersion st = (st, Inl (Errorf ''reseal %q: too many version conflicts''))"
| "reseal_attempts sv u rnd name plaintext (Suc k) curVersion st =
     (case st of (s, vs) \<Rightarrow>
      if curVersion > 0 \<and> \<not> localSourceHasData name plaintext then (st, Inl ErrNoLocalToRecover)
      else (case SealBlob sv u (rnd k) name plaintext curVersion s of
              (s1, Inr ver) \<Rightarrow> ((s1, vs(name := ver)), Inr ())
            | (s1, Inl e) \<Rightarrow>
                (if IsConflict e then
                   (case GetBlob sv name s1 of
                      (s2, Inl ge) \<Rightarrow>
                        (if IsNotFound ge then reseal_attempts sv u rnd name plaintext k 0 (s2, vs)
                         else ((s2, vs), Inl (Wrap ''reseal %q: re-read version: %w'' ge)))
                    | (s2, Inr b) \<Rightarrow> reseal_attempts sv u rnd name plaintext k (bl_Version b) (s2, vs))
                 else ((s1, vs), Inl (Wrap ''reseal %q: %w'' e)))))"

definition resealBlob ::
    "'s Service \<Rightarrow> SelfCrypter \<Rightarrow> (nat \<Rightarrow> bytes) \<Rightarrow> bytes \<Rightarrow> bytes \<Rightarrow> int \<Rightarrow> 's \<times> versions \<Rightarrow> ('s \<times> versions) \<times> unit result" where
  "resealBlob sv u rnd name plaintext curVersion st =
     reseal_attempts sv u rnd name plaintext mergeBlobMaxAttempts curVersion st"

text \<open>Loading does not change anything, so the argument is what it gave.\<close>

definition resealFromLocal ::
    "'s Service \<Rightarrow> SelfCrypter \<Rightarrow> (nat \<Rightarrow> bytes) \<Rightarrow> bytes \<Rightarrow> bytes result \<Rightarrow> ServerSyncState \<Rightarrow> 's \<times> versions \<Rightarrow> ('s \<times> versions) \<times> unit result" where
  "resealFromLocal sv u rnd name load state st =
     sbind (st, wrapping ''load local %q: %w'' load) (\<lambda>local st.
     resealBlob sv u rnd name local (bm_Version (ServerSyncState_Blob state name)) st)"

fun reseal_contacts_attempts ::
    "'s Service \<Rightarrow> ('s \<Rightarrow> 's \<times> ServerSyncState result) \<Rightarrow> SelfCrypter \<Rightarrow> (nat \<Rightarrow> bytes) \<Rightarrow> bytes \<Rightarrow> bytes \<Rightarrow> nat \<Rightarrow> ServerSyncState
     \<Rightarrow> 's \<times> disk \<times> ContactsSyncState \<Rightarrow> ('s \<times> disk \<times> ContactsSyncState) \<times> unit result" where
  "reseal_contacts_attempts sv fetch u rnd spath local 0 state e = (e, Inl (Errorf ''recompact contacts: too many version conflicts''))"
| "reseal_contacts_attempts sv fetch u rnd spath local (Suc k) state e =
     (case e of (s, d, cs) \<Rightarrow>
      let ver = bm_Version (ServerSyncState_Blob state ''contacts''); throughSeq = MaxSeq state ''contacts'' in
      if (ver > 0 \<or> throughSeq > 0) \<and> \<not> localSourceHasData ''contacts'' local then (e, Inl ErrNoLocalToRecover)
      else (case sc_EncryptToSelf u (rnd k) local of
              Inl er \<Rightarrow> (e, Inl (Wrap ''seal contacts snapshot: %w'' er))
            | Inr ct \<Rightarrow>
      (case CompactOps sv ''contacts'' ct throughSeq ver s of
         (s1, Inr ver') \<Rightarrow>
           (case RemoveContactsShadow spath d of
              (d', r) \<Rightarrow> ((s1, d', cs\<lparr>cs_Seq := throughSeq, cs_SnapshotVersion := ver'\<rparr>), wrapping ''clearing contacts shadow: %w'' r))
       | (s1, Inl er) \<Rightarrow>
           (if IsConflict er then
              (case fetch s1 of
                 (s2, Inl fe) \<Rightarrow> ((s2, d, cs), Inl (Wrap ''contacts recompact re-fetch: %w'' fe))
               | (s2, Inr state') \<Rightarrow> reseal_contacts_attempts sv fetch u rnd spath local k state' (s2, d, cs))
            else ((s1, d, cs), Inl (Wrap ''recompact contacts: %w'' er))))))"

definition resealContacts ::
    "'s Service \<Rightarrow> ('s \<Rightarrow> 's \<times> ServerSyncState result) \<Rightarrow> SelfCrypter \<Rightarrow> (nat \<Rightarrow> bytes) \<Rightarrow> bytes \<Rightarrow> bytes result \<Rightarrow> ServerSyncState
     \<Rightarrow> 's \<times> disk \<times> ContactsSyncState \<Rightarrow> ('s \<times> disk \<times> ContactsSyncState) \<times> unit result" where
  "resealContacts sv fetch u rnd spath load state e =
     sbind (e, wrapping ''load local contacts: %w'' load) (\<lambda>local e.
     reseal_contacts_attempts sv fetch u rnd spath local mergeBlobMaxAttempts state e)"

section \<open>The whole re-key\<close>

type_synonym ('s, 'c) rekey_state = "'s \<times> ('c \<times> disk) \<times> SyncPositions"

definition skip_unrecoverable :: "unit result \<Rightarrow> unit result" where
  "skip_unrecoverable r = (case r of Inl e \<Rightarrow> if errors_is e ErrNoLocalToRecover then Inr () else Inl e | Inr _ \<Rightarrow> Inr ())"

text \<open>A re-seal as a step on the state, and the two steps with what is skipped.\<close>

definition reseal_from ::
    "'s Service \<Rightarrow> SelfCrypter \<Rightarrow> (bytes \<Rightarrow> nat \<Rightarrow> bytes) \<Rightarrow> bytes \<Rightarrow> bytes result \<Rightarrow> ServerSyncState \<Rightarrow> ('s, 'c) rekey_state \<Rightarrow> ('s, 'c) rekey_state \<times> unit result" where
  "reseal_from sv u rnd name load state st =
     (case st of (s, h, pos) \<Rightarrow>
      (case resealFromLocal sv u (rnd name) name load state (s, sp_Versions pos) of
         ((s', vs'), r) \<Rightarrow> ((s', h, pos\<lparr>sp_Versions := vs'\<rparr>), r)))"

definition reseal_list ::
    "'s Service \<Rightarrow> ('s \<Rightarrow> 's \<times> ServerSyncState result) \<Rightarrow> SelfCrypter \<Rightarrow> (bytes \<Rightarrow> nat \<Rightarrow> bytes) \<Rightarrow> bytes \<Rightarrow> ('c \<times> disk) ResourceIO
     \<Rightarrow> ServerSyncState \<Rightarrow> ('s, 'c) rekey_state \<Rightarrow> ('s, 'c) rekey_state \<times> unit result" where
  "reseal_list sv fetch u rnd spath io state st =
     (case st of (s, (c, d), pos) \<Rightarrow>
      (case resealContacts sv fetch u (rnd ''contacts'') spath (io_Load io (c, d) ''contacts'') state (s, d, sp_Contacts pos) of
         ((s', d', cs'), r) \<Rightarrow> ((s', (c, d'), pos\<lparr>sp_Contacts := cs'\<rparr>), r)))"

definition skipping :: "'a \<times> unit result \<Rightarrow> 'a \<times> unit result" where
  "skipping m = (fst m, skip_unrecoverable (snd m))"

definition RekeySelfLock ::
    "'s Service \<Rightarrow> ('s \<Rightarrow> 's \<times> ServerSyncState result) \<Rightarrow> SelfCrypter \<Rightarrow> (bytes \<Rightarrow> nat \<Rightarrow> bytes) \<Rightarrow> bytes \<Rightarrow> ('c \<times> disk) ResourceIO option
     \<Rightarrow> bytes option \<Rightarrow> bytes option \<Rightarrow> ('s, 'c) rekey_state \<Rightarrow> ('s, 'c) rekey_state \<times> unit result" where
  "RekeySelfLock sv fetch u rnd spath io gstore nstore st =
     (case st of (s, h, pos) \<Rightarrow>
      (case fetch s of
         (s1, Inl e) \<Rightarrow> ((s1, h, pos), Inl (Wrap ''fetch sync state: %w'' e))
       | (s1, Inr state) \<Rightarrow>
      sbind (case io of
          Some io' \<Rightarrow> (if sp_SettingsDigest pos \<noteq> []
            then skipping (reseal_from sv u rnd ''settings'' (io_Load io' h ''settings'') state (s1, h, pos)) else ((s1, h, pos), Inr ()))
        | None \<Rightarrow> ((s1, h, pos), Inr ())) (\<lambda>_ st.
      sbind (case gstore of
          Some g \<Rightarrow> skipping (reseal_from sv u rnd ''groups'' (Groups_SyncBytes g (snd (fst (snd st)))) state st)
        | None \<Rightarrow> (st, Inr ())) (\<lambda>_ st.
      sbind (case nstore of
          Some n \<Rightarrow> skipping (reseal_from sv u rnd ''notifications'' (SealSource n (snd (fst (snd st)))) state st)
        | None \<Rightarrow> (st, Inr ())) (\<lambda>_ st.
      case io of Some io' \<Rightarrow> skipping (reseal_list sv fetch u rnd spath io' state st) | None \<Rightarrow> (st, Inr ()))))))"

text \<open>The positions of the account in the session store.\<close>

record SessionStore =
  ses_LoadPositions :: "disk \<Rightarrow> SyncPositions result"
  ses_SavePositions :: "disk \<Rightarrow> SyncPositions \<Rightarrow> disk \<times> unit result"

definition zero_positions :: SyncPositions where
  "zero_positions = \<lparr>sp_Versions = (\<lambda>_. 0), sp_Identities = \<lparr>is_Version = 0, is_Digest = []\<rparr>,
     sp_Contacts = \<lparr>cs_Seq = 0, cs_SnapshotVersion = 0\<rparr>, sp_SettingsDigest = []\<rparr>"

definition RekeyDefaultSelfLock ::
    "'s Service \<Rightarrow> ('s \<Rightarrow> 's \<times> ServerSyncState result) \<Rightarrow> SessionStore option \<Rightarrow> SelfCrypter \<Rightarrow> (bytes \<Rightarrow> nat \<Rightarrow> bytes) \<Rightarrow> bytes
     \<Rightarrow> ('c \<times> disk) ResourceIO option \<Rightarrow> bytes option \<Rightarrow> bytes option \<Rightarrow> 's \<times> 'c \<times> disk \<Rightarrow> ('s \<times> 'c \<times> disk) \<times> unit result" where
  "RekeyDefaultSelfLock sv fetch ses u rnd spath io gstore nstore st =
     (case st of (s, c, d) \<Rightarrow>
      (case ses of
         None \<Rightarrow> (case RekeySelfLock sv fetch u rnd spath io gstore nstore (s, (c, d), zero_positions) of ((s', h', _), r) \<Rightarrow> ((s', h'), r))
       | Some ss \<Rightarrow>
         (case ses_LoadPositions ss d of
            Inl e \<Rightarrow> ((s, c, d), Inl (Wrap ''load sync positions: %w'' e))
          | Inr pos \<Rightarrow>
            (case RekeySelfLock sv fetch u rnd spath io gstore nstore (s, (c, d), pos) of
               ((s', h', _), Inl e) \<Rightarrow> ((s', h'), Inl e)
             | ((s', (c', d'), pos'), Inr _) \<Rightarrow>
               (case ses_SavePositions ss d' pos' of (d'', r) \<Rightarrow> ((s', c', d''), r))))))"

section \<open>Which sources have data\<close>

lemma dec_values: "dec_list dec_value z (JArr js) cur = (js, DOk)"
proof -
  have "dec_elems dec_value z js = (js, DOk)" by (induction js) (simp_all add: dec_value_def)
  then show ?thesis by (simp add: dec_list_def)
qed

lemma dec_strs: "dec_list dec_str [] (JArr (map jstr xs)) cur = (map (\<lambda>x. unquote (quote x)) xs, DOk)"
proof -
  have "dec_elems dec_str [] (map jstr xs) = (map (\<lambda>x. unquote (quote x)) xs, DOk)" by (induction xs) (simp_all add: dec_str_def jstr_def)
  then show ?thesis by (simp add: dec_list_def)
qed

lemma version_unknown: "fold_name ''groups'' \<noteq> fold_name ''version''" "fold_name ''deleted'' \<noteq> fold_name ''version''"
  by (simp_all add: fold_name_def runes_all_ascii ascii_def fold_ascii_def)

text \<open>
  The guard reads the sources with a decoder of its own. On what the three stores write it answers exactly
  whether there is an entry or a tombstone.
\<close>

theorem localSourceHasData_exact:
  "localSourceHasData ''contacts'' (compact (JArr (map enc_Contact cs))) \<longleftrightarrow> cs \<noteq> []"
  "localSourceHasData ''groups'' (compact (enc_groupData g)) \<longleftrightarrow> gd_Groups g \<noteq> [] \<or> gd_Deleted g \<noteq> []"
  "localSourceHasData ''notifications'' (compact (enc_syncView v)) \<longleftrightarrow> vw_Items v \<noteq> [] \<or> vw_Dismissed v \<noteq> []"
proof -
  have "wf_json 10000 (JArr (map enc_Contact cs))" using wf_json_mono [OF wf_enc_Contact] by simp
  then show "localSourceHasData ''contacts'' (compact (JArr (map enc_Contact cs))) \<longleftrightarrow> cs \<noteq> []"
    by (simp add: localSourceHasData_def unmarshal_compact dec_values)
  show "localSourceHasData ''groups'' (compact (enc_groupData g)) \<longleftrightarrow> gd_Groups g \<noteq> [] \<or> gd_Deleted g \<noteq> []"
    by (simp add: localSourceHasData_def has_entries_def unmarshal_compact wf_enc_groupData, simp add: enc_groupData_def dec_struct_def find_field_def
        fld_def omit_def dec_values dec_strs version_unknown)
  show "localSourceHasData ''notifications'' (compact (enc_syncView v)) \<longleftrightarrow> vw_Items v \<noteq> [] \<or> vw_Dismissed v \<noteq> []"
    by (simp add: localSourceHasData_def has_entries_def unmarshal_compact wf_enc_notifData, simp add: enc_syncView_def dec_struct_def find_field_def
        fld_def omit_def dec_values dec_strs)
qed

section \<open>What a re-seal may overwrite\<close>

text \<open>The versions of blobs that a service hands out are positive.\<close>

definition positive_versions :: "('s \<Rightarrow> bytes \<Rightarrow> (int \<times> bytes) list) \<Rightarrow> bool" where
  "positive_versions hist \<longleftrightarrow> (\<forall>s name. \<forall>v\<in>set (hist s name). 0 < fst v)"

lemma GetBlob_prefix:
  assumes "blob_service sv hist" "GetBlob sv name s = (s', r)"
  shows "prefix (hist s name) (hist s' name)"
proof -
  obtain q where "sv_getBlob sv s name = (s', q)" using assms(2) by (auto simp: GetBlob_def sbind_def split: prod.splits sum.splits)
  with assms(1) show ?thesis unfolding blob_service_def by blast
qed

lemma GetBlob_keeps:
  assumes "others_keep sv hist name Q" "Q (hist s name)" "GetBlob sv name s = (s', r)"
  shows "Q (hist s' name)"
proof -
  obtain q where "sv_getBlob sv s name = (s', q)" using assms(3) by (auto simp: GetBlob_def sbind_def split: prod.splits sum.splits)
  with assms(1,2) show ?thesis unfolding others_keep_def by blast
qed

lemma latest_positive:
  assumes "positive_versions hist" "prefix h (hist s name)" "h \<noteq> []"
  shows "0 < latest h"
proof -
  have "last h \<in> set (hist s name)" using last_in_set [OF assms(3)] set_mono_prefix [OF assms(2)] by blast
  with assms show ?thesis unfolding positive_versions_def latest_def by simp
qed

lemma reseal_attempts_ok:
  assumes sv: "blob_service sv hist" "positive_versions hist" "sc_correct u"
    and "reseal_attempts sv u rnd name pt k cur (s, vs) = ((s', vs'), Inr ())"
  shows "\<exists>h ver ct. prefix (hist s name) h \<and> hist s' name = h @ [(ver, ct)] \<and> sc_Decrypt u ct = Inr pt
           \<and> vs' = vs(name := ver) \<and> (h \<noteq> [] \<longrightarrow> localSourceHasData name pt)"
  using assms(4)
proof (induction k arbitrary: cur s)
  case (Suc k)
  then have guard: "0 < cur \<Longrightarrow> localSourceHasData name pt" by (cases "localSourceHasData name pt") auto
  obtain s1 r where seal: "SealBlob sv u (rnd k) name pt cur s = (s1, r)" by fastforce
  show ?case
  proof (cases r)
    case (Inr ver)
    with Suc.prems seal guard have res: "s' = s1" "vs' = vs(name := ver)" by (auto split: if_splits)
    from SealBlob_ok [OF sv(1,3)] seal Inr obtain h ct where h: "prefix (hist s name) h" "cur = latest h"
        "hist s1 name = h @ [(ver, ct)]" "sc_Decrypt u ct = Inr pt" by blast
    with latest_positive [OF sv(2), of h s1 name] guard res show ?thesis by auto
  next
    case (Inl e)
    with Suc.prems seal guard obtain s2 q where c: "IsConflict e" "GetBlob sv name s1 = (s2, q)" by (auto split: if_splits prod.splits)
    have "\<exists>cur'. reseal_attempts sv u rnd name pt k cur' (s2, vs) = ((s', vs'), Inr ())"
      using Suc.prems seal Inl c by (auto split: if_splits sum.splits)
    then obtain cur' where again: "reseal_attempts sv u rnd name pt k cur' (s2, vs) = ((s', vs'), Inr ())" ..
    have "prefix (hist s name) (hist s1 name)" using SealBlob_err [OF sv(1)] seal Inl by blast
    also have "prefix (hist s1 name) (hist s2 name)" using GetBlob_prefix [OF sv(1) c(2)] .
    finally have "prefix (hist s name) (hist s2 name)" .
    moreover from Suc.IH [OF again] obtain h ver ct where "prefix (hist s2 name) h" "hist s' name = h @ [(ver, ct)]"
        "sc_Decrypt u ct = Inr pt" "vs' = vs(name := ver)" "h \<noteq> [] \<longrightarrow> localSourceHasData name pt" by blast
    ultimately show ?thesis using prefix_order.trans by blast
  qed
qed simp

lemma reseal_attempts_err:
  assumes "others_keep sv hist name Q" "Q (hist s name)"
    and "reseal_attempts sv u rnd name pt k cur (s, vs) = ((s', vs'), Inl e)"
  shows "Q (hist s' name) \<and> vs' = vs"
  using assms(2,3)
proof (induction k arbitrary: cur s)
  case (Suc k)
  obtain s1 r where seal: "SealBlob sv u (rnd k) name pt cur s = (s1, r)" by fastforce
  have keep: "Q (hist s1 name)" if "r = Inl f" for f
  proof (cases "sc_EncryptToSelf u (rnd k) pt")
    case (Inr ct)
    then have "sv_putBlob sv s name (b64_encode ct) cur = (s1, r)" using seal by (simp add: SealBlob_def PutBlob_def)
    then have "case r of Inl _ \<Rightarrow> Q (hist s1 name) | Inr _ \<Rightarrow> Q (butlast (hist s1 name))"
      using assms(1) Suc.prems(1) unfolding others_keep_def by blast
    with that show ?thesis by simp
  qed (use seal Suc.prems(1) in \<open>simp add: SealBlob_def\<close>)
  show ?case
  proof (cases "0 < cur \<and> \<not> localSourceHasData name pt")
    case True
    then show ?thesis using Suc.prems by simp
  next
    case False
    with Suc.prems(2) seal obtain f where f: "r = Inl f" by (cases r) auto
    show ?thesis
    proof (cases "IsConflict f")
      case True
      obtain s2 q where g: "GetBlob sv name s1 = (s2, q)" by fastforce
      have s2: "Q (hist s2 name)" using GetBlob_keeps [OF assms(1) keep [OF f] g] .
      have "s2 = s' \<and> vs' = vs \<or> (\<exists>cur'. reseal_attempts sv u rnd name pt k cur' (s2, vs) = ((s', vs'), Inl e))"
        using Suc.prems(2) False seal f True g by (auto split: if_splits sum.splits)
      with Suc.IH [OF s2] s2 show ?thesis by blast
    qed (use Suc.prems(2) False seal f keep in \<open>auto\<close>)
  qed
qed simp

text \<open>
  Re-sealing a blob either succeeds, and then the latest version opens under the new key to the local
  plaintext, its version is recorded, and a version that existed before was only replaced because the local
  source had data; or it fails, and then no version was added by this device.
\<close>

theorem resealBlob_guarded:
  assumes sv: "blob_service sv hist" "positive_versions hist" "sc_correct u" "others_keep sv hist name Q" "Q (hist s name)"
    and "resealBlob sv u rnd name pt cur (s, vs) = ((s', vs'), r)"
  shows "case r of
      Inr _ \<Rightarrow> \<exists>h ver ct. prefix (hist s name) h \<and> hist s' name = h @ [(ver, ct)] \<and> sc_Decrypt u ct = Inr pt
        \<and> vs' = vs(name := ver) \<and> (h \<noteq> [] \<longrightarrow> localSourceHasData name pt)
    | Inl _ \<Rightarrow> Q (hist s' name) \<and> vs' = vs"
proof (cases r)
  case (Inl e)
  then show ?thesis using reseal_attempts_err [OF sv(4,5)] assms(6) unfolding resealBlob_def by auto
next
  case (Inr u')
  then show ?thesis using reseal_attempts_ok [OF sv(1-3)] assms(6) unfolding resealBlob_def by auto
qed

lemma account_positive: "positive_versions account_blobs"
  by (auto simp: positive_versions_def account_blobs_def)

definition one_tombstone :: bytes where
  "one_tombstone = compact (enc_groupData \<lparr>gd_Version = 1, gd_Groups = [], gd_Deleted = [''g'']\<rparr>)"

theorem resealBlob_guarded_witness:
  "\<exists>s' h ver ct. resealBlob account_service clear_crypter (\<lambda>_. []) ''groups'' one_tombstone 1 (one_version, (\<lambda>_. 0))
       = ((s', (\<lambda>_. 0)(''groups'' := ver)), Inr ())
     \<and> prefix [(1, ''sealedb'')] h \<and> account_blobs s' ''groups'' = h @ [(ver, ct)]"
proof -
  let ?s = "one_version\<lparr>ac_blobs := (ac_blobs one_version)(''groups'' := ac_blobs one_version ''groups'' @ [''sealed'' @ one_tombstone])\<rparr>"
  have seal: "SealBlob account_service clear_crypter r ''groups'' one_tombstone 1 one_version = (?s, Inr 2)" for r
    by (subst account_seal [where ct = "''sealed'' @ one_tombstone"]) (simp_all add: clear_crypter_def one_version_def)
  have "localSourceHasData ''groups'' one_tombstone" unfolding one_tombstone_def localSourceHasData_exact(2) by simp
  then have run: "resealBlob account_service clear_crypter (\<lambda>_. []) ''groups'' one_tombstone 1 (one_version, (\<lambda>_. 0)) = ((?s, (\<lambda>_. 0)(''groups'' := 2)), Inr ())"
    by (simp add: resealBlob_def mergeBlobMaxAttempts_def eval_nat_numeral seal)
  have one: "account_blobs one_version ''groups'' = [(1, ''sealedb'')]" by (simp add: account_blobs_def one_version_def)
  have "others_keep account_service account_blobs ''groups'' (\<lambda>_. True)" by (simp add: others_keep_def split: sum.split)
  from resealBlob_guarded [OF account_blob_service account_positive clear_crypter_correct this _ run] one
  obtain h ver ct where "prefix [(1, ''sealedb'')] h" "account_blobs ?s ''groups'' = h @ [(ver, ct)]" "(\<lambda>_. 0)(''groups'' := 2) = (\<lambda>_. 0)(''groups'' := ver)"
    by auto
  with run show ?thesis by metis
qed

text \<open>What is relied on of the service for a compaction of the log: it puts a snapshot on top of the version it names.\<close>

definition compacting_service ::
    "'s Service \<Rightarrow> ('s \<Rightarrow> 's \<times> ServerSyncState result) \<Rightarrow> ('s \<Rightarrow> bytes \<Rightarrow> (int \<times> bytes) list) \<Rightarrow> bool" where
  "compacting_service sv fetch hist \<longleftrightarrow>
     (\<forall>s name s' r. fetch s = (s', r) \<longrightarrow> prefix (hist s name) (hist s' name))
     \<and> (\<forall>s name ct n prev s' r. sv_compactOps sv s name (b64_encode ct) n prev = (s', r) \<longrightarrow> prefix (hist s name) (hist s' name)
        \<and> (\<forall>ver. r = Inr ver \<longrightarrow> (\<exists>h. prefix (hist s name) h \<and> prev = latest h \<and> hist s' name = h @ [(ver, ct)])))"

lemma reseal_contacts_attempts_ok:
  assumes sv: "compacting_service sv fetch hist" "positive_versions hist" "sc_correct u"
    and "reseal_contacts_attempts sv fetch u rnd spath local k state (s, d, cs) = ((s', d', cs'), Inr ())"
  shows "\<exists>s0 h ver ct. prefix (hist s ''contacts'') h \<and> hist s' ''contacts'' = h @ [(ver, ct)] \<and> sc_Decrypt u ct = Inr local
           \<and> sv_compactOps sv s0 ''contacts'' (b64_encode ct) (cs_Seq cs') (latest h) = (s', Inr ver) \<and> cs_SnapshotVersion cs' = ver
           \<and> (h \<noteq> [] \<or> 0 < cs_Seq cs' \<longrightarrow> localSourceHasData ''contacts'' local)"
  using assms(4)
proof (induction k arbitrary: state s)
  case (Suc k)
  let ?v = "bm_Version (ServerSyncState_Blob state ''contacts'')" and ?n = "MaxSeq state ''contacts''"
  from Suc.prems have guard: "0 < ?v \<or> 0 < ?n \<Longrightarrow> localSourceHasData ''contacts'' local"
    by (cases "localSourceHasData ''contacts'' local") (auto simp: Let_def)
  with Suc.prems obtain ct where ct: "sc_EncryptToSelf u (rnd k) local = Inr ct" by (auto simp: Let_def split: if_splits sum.splits)
  then have dec: "sc_Decrypt u ct = Inr local" using sv(3) unfolding sc_correct_def by blast
  obtain s1 r where comp: "sv_compactOps sv s ''contacts'' (b64_encode ct) ?n ?v = (s1, r)" by fastforce
  have law: "prefix (hist s ''contacts'') (hist s1 ''contacts'')"
    "\<And>ver. r = Inr ver \<Longrightarrow> \<exists>h. prefix (hist s ''contacts'') h \<and> ?v = latest h \<and> hist s1 ''contacts'' = h @ [(ver, ct)]"
    using sv(1) comp unfolding compacting_service_def by blast+
  show ?case
  proof (cases r)
    case (Inr ver)
    with Suc.prems ct comp guard have res: "s' = s1" "cs' = cs\<lparr>cs_Seq := ?n, cs_SnapshotVersion := ver\<rparr>"
      by (auto simp: Let_def CompactOps_def split: if_splits prod.splits sum.splits)
    from law(2) [OF Inr] obtain h where h: "prefix (hist s ''contacts'') h" "?v = latest h" "hist s1 ''contacts'' = h @ [(ver, ct)]" by blast
    then have "h \<noteq> [] \<Longrightarrow> 0 < ?v" using latest_positive [OF sv(2), of h s1 "''contacts''"] by auto
    then have "h \<noteq> [] \<or> 0 < cs_Seq cs' \<longrightarrow> localSourceHasData ''contacts'' local" using guard res(2) by auto
    moreover have "sv_compactOps sv s ''contacts'' (b64_encode ct) (cs_Seq cs') (latest h) = (s', Inr ver)" using comp Inr res h(2) by simp
    ultimately show ?thesis using h res dec by auto
  next
    case (Inl e)
    with Suc.prems ct comp guard obtain s2 state' where c: "fetch s1 = (s2, Inr state')"
        "reseal_contacts_attempts sv fetch u rnd spath local k state' (s2, d, cs) = ((s', d', cs'), Inr ())"
      by (auto simp: Let_def CompactOps_def split: if_splits prod.splits sum.splits)
    have "prefix (hist s1 ''contacts'') (hist s2 ''contacts'')" using sv(1) c(1) unfolding compacting_service_def by blast
    with law(1) have pre: "prefix (hist s ''contacts'') (hist s2 ''contacts'')" using prefix_order.trans by blast
    from Suc.IH [OF c(2)] obtain s0 h ver ct' where "prefix (hist s2 ''contacts'') h" "hist s' ''contacts'' = h @ [(ver, ct')]" "sc_Decrypt u ct' = Inr local"
        "sv_compactOps sv s0 ''contacts'' (b64_encode ct') (cs_Seq cs') (latest h) = (s', Inr ver)" "cs_SnapshotVersion cs' = ver"
        "h \<noteq> [] \<or> 0 < cs_Seq cs' \<longrightarrow> localSourceHasData ''contacts'' local" by blast
    moreover from this(1) pre have "prefix (hist s ''contacts'') h" using prefix_order.trans by blast
    ultimately show ?thesis by (intro exI conjI)
  qed
qed simp

text \<open>
  Re-sealing the contacts compacts the log into one snapshot: when it succeeds, the latest version opens
  under the new key to the local contacts, the positions of the device are those of this snapshot, and an
  existing snapshot or an operation of the log was only replaced because the local list has contacts.
\<close>

theorem resealContacts_guarded:
  assumes "compacting_service sv fetch hist" "positive_versions hist" "sc_correct u"
    and "resealContacts sv fetch u rnd spath load state (s, d, cs) = ((s', d', cs'), Inr ())"
  shows "\<exists>local s0 h ver ct. load = Inr local \<and> prefix (hist s ''contacts'') h \<and> hist s' ''contacts'' = h @ [(ver, ct)] \<and> sc_Decrypt u ct = Inr local
           \<and> sv_compactOps sv s0 ''contacts'' (b64_encode ct) (cs_Seq cs') (latest h) = (s', Inr ver) \<and> cs_SnapshotVersion cs' = ver
           \<and> (h \<noteq> [] \<or> 0 < cs_Seq cs' \<longrightarrow> localSourceHasData ''contacts'' local)"
proof -
  from assms(4) obtain local where "load = Inr local"
      "reseal_contacts_attempts sv fetch u rnd spath local mergeBlobMaxAttempts state (s, d, cs) = ((s', d', cs'), Inr ())"
    by (auto simp: resealContacts_def sbind_Inr_iff)
  with reseal_contacts_attempts_ok [OF assms(1-3) this(2)] show ?thesis by simp
qed

section \<open>Settings that roam\<close>

lemma parse_minutes:
  assumes "minutes_ok n"
  shows "parseNonNegativeInt (int_lit n) = Inr n"
proof -
  obtain k where n: "n = int k" "k < 2 ^ 63" using assms nat_int_comparison(2) [of "nat n" "2 ^ 63"] by (cases n) (auto simp: minutes_ok_def)
  have "is_digit (hd (dec k))" by (rule digit_hd_dec)
  then have "hd (dec k) \<noteq> CHR ''-''" "hd (dec k) \<noteq> CHR ''+''" by (auto simp: is_digit_def)
  then have "\<not> HasPrefix (dec k) ''-''" "\<not> HasPrefix (dec k) ''+''" by (cases "dec k"; simp add: HasPrefix_def)+
  moreover have "list_all is_digit (dec k)" by (rule dec_digits)
  ultimately show ?thesis using n by (simp add: parseNonNegativeInt_def int_lit_def Atoi_def strip_sign_def Let_def)
qed

lemma wf_enc_map: "wf_map m \<Longrightarrow> wf_json 10000 (enc_map m)"
  by (auto simp: enc_map_def wf_map_def list_all_iff)

lemma unmarshal_map: "wf_map m \<Longrightarrow> unmarshal dec_map [] (compact (enc_map m)) = Some m"
  by (simp add: unmarshal_compact wf_enc_map dec_enc_map)

lemma ascii_lits: "ascii (int_lit n)" "ascii (FormatBool b)"
  using dec_digits [of "nat n"] dec_digits [of "nat (- n)"]
  by (auto simp: int_lit_def FormatBool_def ascii_def list_all_iff is_digit_def)

lemma SyncableSettings_wf: "valid_utf8 (DefaultFormat cfg) \<Longrightarrow> wf_map (SyncableSettings cfg)"
  using ascii_lits [THEN valid_utf8_ascii] by (simp add: SyncableSettings_def wf_map_def valid_utf8_ascii ascii_def)

lemma FormatBool_true: "FormatBool b = ''true'' \<longleftrightarrow> b" by (simp add: FormatBool_def)

lemma set_syncable:
  "minutes_ok (AutoLockMinutes cfg) \<Longrightarrow> fold (set_setting E N) (SyncableSettings cfg) c
     = c\<lparr>AutoLockMinutes := AutoLockMinutes cfg, Banner := Banner cfg, DefaultFormat := DefaultFormat cfg, Verbose := Verbose cfg\<rparr>"
  by (simp add: SyncableSettings_def set_setting_def Config_Set_def parse_minutes FormatBool_true)

text \<open>The settings of a device as they roam, and as the operations on a configuration keep them.\<close>

definition settings_blob :: "Config \<Rightarrow> bytes" where "settings_blob cfg = compact (enc_map (SyncableSettings cfg))"

definition roams :: "Config \<Rightarrow> bool" where "roams cfg \<longleftrightarrow> valid_utf8 (DefaultFormat cfg) \<and> minutes_ok (AutoLockMinutes cfg)"

definition take_over :: "Config \<Rightarrow> Config \<Rightarrow> Config" where
  "take_over cfg mine = mine\<lparr>AutoLockMinutes := AutoLockMinutes cfg, Banner := Banner cfg, DefaultFormat := DefaultFormat cfg, Verbose := Verbose cfg\<rparr>"

lemma settings_applied:
  assumes "roams cfg"
  shows "configResourceIO_Apply T E N (mine, d) ''settings'' (settings_blob cfg)
     = (case Config_Save T E d (take_over cfg mine) of (d', r) \<Rightarrow> ((take_over cfg mine, d'), r))"
  using assms by (simp add: settings_blob_def roams_def take_over_def configResourceIO_Apply_def unmarshal_map SyncableSettings_wf set_syncable Let_def)

lemma take_over_blob: "settings_blob (take_over cfg mine) = settings_blob cfg"
  by (simp add: settings_blob_def take_over_def SyncableSettings_def)

text \<open>
  C23. The settings of an account converge. When a pass of SyncResource over the settings, with the local side
  ConfigResourceIO, succeeds, the latest version in the cloud is the one that is recorded and reported, and it opens to exactly
  the four settings that roam as the device has them then. Every other setting of the device is what it was. If the pass
  pulled, the new configuration was saved; otherwise configuration and disk are unchanged; and a push replaced exactly
  the version this device had synced with last, so a change made elsewhere in the meantime is pulled and not
  overwritten. Assumed: the contract of the blob service, that the own lock opens what was sealed to it, and that the
  versions in the cloud were written by this program, from settings with valid minutes and a format that is text.
\<close>

theorem settings_sync_agrees:
  assumes sv: "blob_service sv hist" "sc_correct u"
    and run: "SyncResource sv u rnd ''settings'' (ConfigResourceIO T E N) (s, (mine, d), vs) = ((s', (mine', d'), vs'), Inr oc)"
    and written: "\<forall>(ver, ct) \<in> set (hist s' ''settings''). \<forall>b. sc_Decrypt u ct = Inr b \<longrightarrow> (\<exists>cfg. roams cfg \<and> b = settings_blob cfg)"
  shows "(\<exists>old ct. hist s' ''settings'' = old @ [(vs' ''settings'', ct)] \<and> sc_Decrypt u ct = Inr (settings_blob mine')
        \<and> (oc_Action oc = SyncPushed \<longrightarrow> latest old = vs ''settings''))
     \<and> mine' = take_over mine' mine
     \<and> (if oc_Action oc = SyncPulled then Config_Save T E d mine' = (d', Inr ()) else mine' = mine \<and> d' = d)
     \<and> oc_Version oc = vs' ''settings'' \<and> (\<forall>r. r \<noteq> ''settings'' \<longrightarrow> vs' r = vs r)"
proof -
  let ?io = "ConfigResourceIO T E N"
  from SyncResource_outcome [OF sv run] obtain old ct b where o: "hist s' ''settings'' = old @ [(vs' ''settings'', ct)]" "sc_Decrypt u ct = Inr b"
      "if oc_Action oc = SyncPulled then io_Apply ?io (mine, d) ''settings'' b = ((mine', d'), Inr ()) else (mine', d') = (mine, d) \<and> io_Load ?io (mine, d) ''settings'' = Inr b"
      "oc_Version oc = vs' ''settings''" "oc_Action oc = SyncPushed \<longrightarrow> latest old = vs ''settings''" "\<forall>r. r \<noteq> ''settings'' \<longrightarrow> vs' r = vs r"
    by blast
  have "b = settings_blob mine' \<and> mine' = take_over mine' mine
     \<and> (if oc_Action oc = SyncPulled then Config_Save T E d mine' = (d', Inr ()) else mine' = mine \<and> d' = d)"
  proof (cases "oc_Action oc = SyncPulled")
    case True
    from written o(1,2) obtain cfg where cfg: "roams cfg" "b = settings_blob cfg" by auto
    have "configResourceIO_Apply T E N (mine, d) ''settings'' b = ((mine', d'), Inr ())" using o(3) True by (simp add: ConfigResourceIO_def)
    then have "mine' = take_over cfg mine" "Config_Save T E d (take_over cfg mine) = (d', Inr ())"
      unfolding cfg(2) settings_applied [OF cfg(1)] by (auto split: prod.splits)
    then show ?thesis using True cfg(2) take_over_blob by (simp add: take_over_def)
  next
    case False
    then have "configResourceIO_Load E (mine, d) ''settings'' = Inr b" "mine' = mine" "d' = d" using o(3) by (simp_all add: ConfigResourceIO_def)
    then show ?thesis using False by (simp add: configResourceIO_Load_def settings_blob_def take_over_def)
  qed
  with o show ?thesis by blast
qed

definition sample_net :: Net where "sample_net = \<lparr>url_Parse = (\<lambda>_. Inl (Errorf ''parse'')), ip_Parse = (\<lambda>_. None)\<rparr>"

theorem settings_sync_agrees_witness:
  "\<exists>s' d' vs' oc. SyncResource account_service clear_crypter [] ''settings'' (ConfigResourceIO small_toml sample_env sample_net)
       (new_account\<lparr>ac_blobs := (\<lambda>_. [''sealed'' @ settings_blob (small_config ''/x'' ''me'')])\<rparr>,
        ((small_config ''/x'' ''me'')\<lparr>AutoLockMinutes := 7\<rparr>, empty_disk), (\<lambda>_. 0))
     = ((s', (small_config ''/x'' ''me'', d'), vs'), Inr oc)
     \<and> oc_Action oc = SyncPulled \<and> Config_Save small_toml sample_env empty_disk (small_config ''/x'' ''me'') = (d', Inr ())"
proof -
  let ?c = "small_config ''/x'' ''me''"
  let ?mine = "?c\<lparr>AutoLockMinutes := 7\<rparr>" and ?b = "settings_blob ?c"
  let ?s = "new_account\<lparr>ac_blobs := (\<lambda>_. [''sealed'' @ ?b])\<rparr>" and ?io = "ConfigResourceIO small_toml sample_env sample_net"
  have r: "roams ?c" by (simp add: roams_def small_config_def zero_Config_def valid_utf8_ascii ascii_def minutes_ok_def)
  have t: "take_over ?c ?mine = ?c" by (simp add: take_over_def small_config_def)
  obtain d where d: "Config_Save small_toml sample_env empty_disk ?c = (d, Inr ())" using sample_save [of "''/x''"] by (auto simp: HasPrefix_def)
  have op: "OpenBlob account_service clear_crypter ''settings'' ?s = (?s, Inr (?b, 1))"
    using account_open [of ?s "''settings''" "[]"] by (simp add: clear_crypter_def HasPrefix_def)
  have "settings_blob ?mine \<noteq> ?b"
  proof
    assume "settings_blob ?mine = ?b"
    moreover have "roams ?mine" using r by (simp add: roams_def minutes_ok_def)
    ultimately have "SyncableSettings ?mine = SyncableSettings ?c"
      using unmarshal_map SyncableSettings_wf r unfolding settings_blob_def roams_def by (metis option.inject)
    then have "parseNonNegativeInt (int_lit 7) = parseNonNegativeInt (int_lit 0)" by (simp add: SyncableSettings_def small_config_def zero_Config_def)
    then show False by (simp add: parse_minutes minutes_ok_def)
  qed
  then have run: "\<exists>vs' oc. SyncResource account_service clear_crypter [] ''settings'' ?io (?s, (?mine, empty_disk), (\<lambda>_. 0)) = ((?s, (?c, d), vs'), Inr oc) \<and> oc_Action oc = SyncPulled"
    using op d settings_applied [OF r] t by (simp add: SyncResource_def ConfigResourceIO_def configResourceIO_Load_def settings_blob_def [symmetric] applyPulled_def)
  then obtain vs' oc where run: "SyncResource account_service clear_crypter [] ''settings'' ?io (?s, (?mine, empty_disk), (\<lambda>_. 0)) = ((?s, (?c, d), vs'), Inr oc)"
      "oc_Action oc = SyncPulled" by blast
  have "\<forall>(ver, ct) \<in> set (account_blobs ?s ''settings''). \<forall>b. sc_Decrypt clear_crypter ct = Inr b \<longrightarrow> (\<exists>cfg. roams cfg \<and> b = settings_blob cfg)"
    using r by (auto simp: account_blobs_def clear_crypter_def HasPrefix_def)
  then have "(if oc_Action oc = SyncPulled then Config_Save small_toml sample_env empty_disk ?c = (d, Inr ()) else ?c = ?mine \<and> d = empty_disk)"
    using settings_sync_agrees [OF account_blob_service clear_crypter_correct run(1)] by blast
  with run show ?thesis by auto
qed

text \<open>
  What is applied is not restricted to the settings that roam: a settings blob naming the default identity,
  the directory of the keys or the address of the service sets them, although device-specific settings are
  meant to be excluded.
\<close>

theorem synced_settings_unrestricted:
  assumes "valid_utf8 name" "valid_utf8 dir" "HasPrefix dir ''/''"
  shows "fst (fst (configResourceIO_Apply T E N (mine, d) ''settings'' (compact (enc_map [(''default_identity'', name), (''key_path'', dir)]))))
     = mine\<lparr>DefaultIdentity := name, KeyPath := dir\<rparr>"
proof -
  have "wf_map [(''default_identity'', name), (''key_path'', dir)]" using assms(1,2) by (simp add: wf_map_def valid_utf8_ascii ascii_def)
  moreover have "\<not> HasPrefix dir ''~/''" "dir \<noteq> []" using assms(3) by (cases dir; auto simp: HasPrefix_def)+
  ultimately show ?thesis using assms(3)
    by (simp add: configResourceIO_Apply_def unmarshal_map set_setting_def Config_Set_def path_value_def validatePath_def Let_def split: prod.split)
qed

text \<open>
  A pass over the settings that succeeded leaves the device at rest: as long as the local settings and the
  version the service reports stay the same, the next pass makes no request and changes nothing.
\<close>

theorem SyncSettingsGated_rests:
  assumes "SyncSettingsGated P sv u rnd io remote ((s, h, vs), dg) = (((s', h', vs'), dg'), Inr out)"
    and "bm_Version (ServerSyncState_Blob remote' ''settings'') = vs' ''settings''" "vs' ''settings'' \<noteq> 0"
  shows "SyncSettingsGated P sv u rnd' io remote' ((s'', h', vs'), dg')
     = (((s'', h', vs'), dg'), Inr \<lparr>oc_Resource = ''settings'', oc_Action = SyncUpToDate, oc_Version = vs' ''settings'', oc_CloudWasNewer = False\<rparr>)"
proof -
  from assms(1) obtain b where b: "io_Load io h' ''settings'' = Inr b" "dg' = hex_encode (sha256 P b)"
    by (auto simp: SyncSettingsGated_def Let_def split: sum.splits if_splits prod.splits)
  with assms(2,3) show ?thesis by (simp add: SyncSettingsGated_def Let_def)
qed

section \<open>An account with a second device\<close>

text \<open>
  The contacts of an account: snapshots, the operations of the log that are kept and, while \<open>ra_turn\<close> holds, a
  second device that compacts the log and appends an operation just before the next compaction arrives.
\<close>

record racing =
  ra_snaps :: "(int \<times> bytes) list"
  ra_ops :: "(int \<times> bytes) list"
  ra_head :: int
  ra_turn :: "(bytes \<times> bytes) option"

definition other_device :: "racing \<Rightarrow> bytes \<times> bytes \<Rightarrow> racing" where
  "other_device s so = \<lparr>ra_snaps = ra_snaps s @ [(latest (ra_snaps s) + 1, fst so)], ra_ops = [(ra_head s + 1, snd so)],
     ra_head = ra_head s + 1, ra_turn = None\<rparr>"

definition racing_service :: "racing Service" where
  "racing_service = \<lparr>
     sv_putBlob = (\<lambda>s name ct prev. (s, Inl (APIError 403 ''forbidden'' 0))), sv_getBlob = (\<lambda>s name. (s, Inl (APIError 404 ''not_found'' 0))),
     sv_ops = (\<lambda>s name since. (s, Inr (map (\<lambda>(i, c). (i, b64_encode c)) (filter (\<lambda>p. since < fst p) (ra_ops s)), False))),
     sv_appendOps = (\<lambda>s name ops. (s, Inl (APIError 403 ''forbidden'' 0))),
     sv_compactOps = (\<lambda>s name snapshot n prev.
     (case ra_turn s of
        Some so \<Rightarrow> (other_device s so, Inl (APIError 409 ''conflict'' 0))
      | None \<Rightarrow>
        (case b64_decode snapshot of Inl _ \<Rightarrow> (s, Inl (APIError 400 ''bad_request'' 0))
         | Inr ct \<Rightarrow>
           (if prev = latest (ra_snaps s)
            then (s\<lparr>ra_snaps := ra_snaps s @ [(prev + 1, ct)], ra_ops := filter (\<lambda>p. n < fst p) (ra_ops s)\<rparr>, Inr (prev + 1))
            else (s, Inl (APIError 409 ''conflict'' 0)))))),
     sv_maxContacts = (\<lambda>s. (s, Inr 0))\<rparr>"

definition racing_fetch :: "racing \<Rightarrow> racing \<times> ServerSyncState result" where
  "racing_fetch s = (s, Inr \<lparr>ss_Blobs = [\<lparr>bm_Name = ''contacts'', bm_Version = latest (ra_snaps s), bm_ThroughSeq = 0\<rparr>],
     ss_Ops = [\<lparr>om_Resource = ''contacts'', om_MaxSeq = ra_head s\<rparr>]\<rparr>)"

text \<open>
  An operation that a second device appended after this device read the sync state is lost: its compaction
  conflicts, the state is read again, and the log is truncated through the later head although the snapshot
  was made from the local contacts as they were before.
\<close>

theorem resealContacts_drops_concurrent_op:
  assumes turn: "ra_turn s0 = Some (snapshot, opr)" and dat: "localSourceHasData ''contacts'' local" and rm: "d_fault d SysRemove spath = None"
  shows "\<exists>s' d' cs'. resealContacts racing_service racing_fetch clear_crypter rnd spath (Inr local) (projr (snd (racing_fetch s0))) (s0, d, cs)
        = ((s', d', cs'), Inr ())
     \<and> ra_ops (other_device s0 (snapshot, opr)) = [(ra_head s0 + 1, opr)] \<and> ra_ops s' = [] \<and> snd (last (ra_snaps s')) = ''sealed'' @ local"
proof -
  let ?s1 = "other_device s0 (snapshot, opr)"
  let ?s2 = "?s1\<lparr>ra_snaps := ra_snaps ?s1 @ [(latest (ra_snaps ?s1) + 1, ''sealed'' @ local)], ra_ops := []\<rparr>"
  let ?cs = "cs\<lparr>cs_Seq := ra_head s0 + 1, cs_SnapshotVersion := latest (ra_snaps ?s1) + 1\<rparr>"
  have st: "racing_fetch s = (s, Inr (projr (snd (racing_fetch s))))"
    "bm_Version (ServerSyncState_Blob (projr (snd (racing_fetch s))) ''contacts'') = latest (ra_snaps s)"
    "MaxSeq (projr (snd (racing_fetch s))) ''contacts'' = ra_head s" for s
    by (simp_all add: racing_fetch_def ServerSyncState_Blob_def MaxSeq_def)
  have enc: "sc_EncryptToSelf clear_crypter r local = Inr (''sealed'' @ local)" for r by (simp add: clear_crypter_def)
  have c1: "CompactOps racing_service ''contacts'' ct m v s0 = (?s1, Inl (APIError 409 ''conflict'' 0))" for ct m v
    by (simp add: CompactOps_def racing_service_def turn)
  have c2: "CompactOps racing_service ''contacts'' (''sealed'' @ local) (ra_head ?s1) (latest (ra_snaps ?s1)) ?s1 = (?s2, Inr (latest (ra_snaps ?s1) + 1))"
    by (simp add: CompactOps_def racing_service_def other_device_def turn b64_decode_encode del: append_Cons)
  have conf: "IsConflict (APIError 409 ''conflict'' 0)" by (simp add: IsConflict_def has_status_def)
  obtain d' where d': "RemoveContactsShadow spath d = (d', Inr ())"
    using rm by (cases "d_files d spath") (auto simp: RemoveContactsShadow_def os_Remove_def IsNotExist_def)
  define st1 where "st1 = projr (snd (racing_fetch ?s1))"
  have f1: "racing_fetch ?s1 = (?s1, Inr st1)" unfolding st1_def by (rule st(1))
  have second: "reseal_contacts_attempts racing_service racing_fetch clear_crypter rnd spath local (Suc 3) st1 (?s1, d, cs)
      = ((?s2, d', ?cs), Inr ())"
    by (subst reseal_contacts_attempts.simps) (simp add: Let_def st1_def st(2,3) dat enc c2 d' del: append_Cons, simp add: other_device_def turn)
  have "reseal_contacts_attempts racing_service racing_fetch clear_crypter rnd spath local (Suc (Suc 3)) (projr (snd (racing_fetch s0))) (s0, d, cs)
      = ((?s2, d', ?cs), Inr ())"
    by (subst reseal_contacts_attempts.simps) (simp only: Let_def prod.case dat enc c1 conf sum.case if_True f1 second simp_thms if_False)
  moreover have "mergeBlobMaxAttempts = Suc (Suc 3)" by (simp add: mergeBlobMaxAttempts_def)
  ultimately have "resealContacts racing_service racing_fetch clear_crypter rnd spath (Inr local) (projr (snd (racing_fetch s0))) (s0, d, cs)
      = ((?s2, d', ?cs), Inr ())" by (simp add: resealContacts_def)
  then show ?thesis by (simp add: other_device_def turn)
qed

end
