(* ===== verification/Icfx_Handoff.thy ===== *)
theory Icfx_Handoff
  imports Icfx_Rekey
begin

text \<open>
  Change and removal of the default identity (src/identity/handoff/handoff.go). The state is the account on the
  service, the key store, the configuration in memory and the disk. The client of the service may be nil. What
  the platform supplies is the record \<open>Host\<close>: its methods on the key store and the disk are parameters.
\<close>

section \<open>Model\<close>

record 's Client =
  cl_service :: "'s Service"
  cl_fetch :: "'s \<Rightarrow> 's \<times> ServerSyncState result"
  cl_session :: "SessionStore option"
  cl_rnd :: "bytes \<Rightarrow> nat \<Rightarrow> bytes"
  cl_shadow :: bytes

record 'k Host =
  ho_OpenIdentity :: "bytes \<Rightarrow> 'k world \<Rightarrow> 'k world \<times> SelfCrypter result"
  ho_ClearKeys :: "IdentityIndex \<Rightarrow> 'k world \<Rightarrow> 'k world \<times> unit result"
  ho_GroupStore :: "bytes result"
  ho_NotificationStore :: "bytes option"
  ho_ResourceIO :: "(Config \<times> disk) ResourceIO option"

record ('s, 'k) device =
  dv_cloud :: 's
  dv_keys :: 'k
  dv_cfg :: Config
  dv_disk :: disk

text \<open>SuccessorRequiredError carries the candidates; every other error is a value of Go's error.\<close>

datatype handoff_error = SuccessorRequired "bytes list" | HandoffFailed go_error

definition ErrLastIdentity :: go_error where "ErrLastIdentity = Sentinel ''cannot remove the only identity''"

definition indexHas :: "IdentityIndex list \<Rightarrow> bytes \<Rightarrow> bool" where
  "indexHas entries name = list_ex (\<lambda>e. ix_Name e = name) entries"

definition namesExcept :: "IdentityIndex list \<Rightarrow> bytes \<Rightarrow> bytes list" where
  "namesExcept entries victim = filter (\<lambda>n. n \<noteq> victim) (map ix_Name entries)"

definition resolveDefault :: "Config \<Rightarrow> IdentityIndex list \<Rightarrow> bytes" where
  "resolveDefault cfg entries =
     (case ResolveDefaultIndex entries (DefaultIdentity cfg) of Some i \<Rightarrow> ix_Name (entries ! i) | None \<Rightarrow> [])"

definition loadIndex :: "env \<Rightarrow> disk \<Rightarrow> IdentityIndex list result" where
  "loadIndex E d = andthen (NewIdStore E) (\<lambda>st. wrapping ''loading identity index: %w'' (LoadIndex (st_path st) d))"

definition host_open :: "'k Host \<Rightarrow> bytes \<Rightarrow> ('s, 'k) device \<Rightarrow> ('s, 'k) device \<times> SelfCrypter result" where
  "host_open host name v = (case ho_OpenIdentity host name (dv_keys v, dv_disk v) of ((k, d), r) \<Rightarrow> (v\<lparr>dv_keys := k, dv_disk := d\<rparr>, r))"

definition host_clear :: "'k Host \<Rightarrow> IdentityIndex \<Rightarrow> ('s, 'k) device \<Rightarrow> ('s, 'k) device \<times> unit result" where
  "host_clear host idx v = (case ho_ClearKeys host idx (dv_keys v, dv_disk v) of ((k, d), r) \<Rightarrow> (v\<lparr>dv_keys := k, dv_disk := d\<rparr>, r))"

definition client_rekey :: "'s Client \<Rightarrow> SelfCrypter \<Rightarrow> 'k Host \<Rightarrow> bytes \<Rightarrow> ('s, 'k) device \<Rightarrow> ('s, 'k) device \<times> unit result" where
  "client_rekey c newU host gstore v =
     (case RekeyDefaultSelfLock (cl_service c) (cl_fetch c) (cl_session c) newU (cl_rnd c) (cl_shadow c) (ho_ResourceIO host) (Some gstore)
             (ho_NotificationStore host) (dv_cloud v, dv_cfg v, dv_disk v) of
        ((s, cfg, d), r) \<Rightarrow> (v\<lparr>dv_cloud := s, dv_cfg := cfg, dv_disk := d\<rparr>, r))"

definition rekeyTo :: "'s Client option \<Rightarrow> bytes \<Rightarrow> 'k Host \<Rightarrow> ('s, 'k) device \<Rightarrow> ('s, 'k) device \<times> unit result" where
  "rekeyTo c successor host v =
     (case c of None \<Rightarrow> (v, Inr ())
      | Some c \<Rightarrow>
        sbind (swrap ''opening successor %q: %w'' (host_open host successor v)) (\<lambda>newU v.
        sbind (v, wrapping ''opening groups store: %w'' (ho_GroupStore host)) (\<lambda>gstore v.
        client_rekey c newU host gstore v)))"

text \<open>The default in the configuration, and its file.\<close>

definition save_default :: "Toml \<Rightarrow> env \<Rightarrow> bytes \<Rightarrow> ('s, 'k) device \<Rightarrow> ('s, 'k) device \<times> unit result" where
  "save_default T E name v =
     (let cfg = (dv_cfg v)\<lparr>DefaultIdentity := name\<rparr> in
      case Config_Save T E (dv_disk v) cfg of (d, r) \<Rightarrow> (v\<lparr>dv_cfg := cfg, dv_disk := d\<rparr>, r))"

definition SetDefault :: "Toml \<Rightarrow> env \<Rightarrow> 's Client option \<Rightarrow> bytes \<Rightarrow> 'k Host \<Rightarrow> ('s, 'k) device \<Rightarrow> ('s, 'k) device \<times> unit result" where
  "SetDefault T E c successor host v =
     sbind (v, loadIndex E (dv_disk v)) (\<lambda>entries v.
     if \<not> indexHas entries successor then (v, Inl (Errorf ''identity %q not found''))
     else if successor = resolveDefault (dv_cfg v) entries then (v, Inr ())
     else sbind (rekeyTo c successor host v) (\<lambda>_ v. save_default T E successor v))"

text \<open>The hand-off of a default that has other identities beside it.\<close>

definition hand_off ::
    "Toml \<Rightarrow> env \<Rightarrow> 's Client option \<Rightarrow> bytes \<Rightarrow> bytes \<Rightarrow> 'k Host \<Rightarrow> IdentityIndex list \<Rightarrow> ('s, 'k) device \<Rightarrow> ('s, 'k) device \<times> (handoff_error + unit)" where
  "hand_off T E c victim successor host entries v =
     (if length entries > 1 \<and> victim = resolveDefault (dv_cfg v) entries then
        (if successor = [] then (v, Inl (SuccessorRequired (namesExcept entries victim)))
         else if successor = victim \<or> \<not> indexHas entries successor then (v, Inl (HandoffFailed (Errorf ''invalid successor identity %q'')))
         else (case rekeyTo c successor host v of
                 (v1, Inl e) \<Rightarrow> (v1, Inl (HandoffFailed e))
               | (v1, Inr _) \<Rightarrow>
                 (case save_default T E successor v1 of (v2, Inl e) \<Rightarrow> (v2, Inl (HandoffFailed e)) | (v2, Inr _) \<Rightarrow> (v2, Inr ()))))
      else (v, Inr ()))"

text \<open>The entry of the victim: the last one of that name, as the loop leaves it.\<close>

definition victim_entry :: "IdentityIndex list \<Rightarrow> bytes \<Rightarrow> IdentityIndex" where
  "victim_entry entries victim = last (filter (\<lambda>e. ix_Name e = victim) entries)"

definition others :: "IdentityIndex list \<Rightarrow> bytes \<Rightarrow> IdentityIndex list" where
  "others entries victim = filter (\<lambda>e. ix_Name e \<noteq> victim) entries"

definition delete_primitives ::
    "Toml \<Rightarrow> env \<Rightarrow> IdStore \<Rightarrow> bytes \<Rightarrow> 'k Host \<Rightarrow> IdentityIndex list \<Rightarrow> ('s, 'k) device \<Rightarrow> ('s, 'k) device \<times> unit result" where
  "delete_primitives T E st victim host entries v =
     sbind (swrap ''cannot delete %q: unlock it first: %w'' (host_open host victim v)) (\<lambda>_ v.
     sbind (case SaveIndex (st_path st) (dv_disk v) (others entries victim) of
              (d, r) \<Rightarrow> (v\<lparr>dv_disk := d\<rparr>, wrapping ''saving identity index: %w'' r)) (\<lambda>_ v.
     sbind (swrap ''clearing keys for %q: %w'' (host_clear host (victim_entry entries victim) v)) (\<lambda>_ v.
     sbind (case RemoveMeta st (dv_disk v) victim of (d, r) \<Rightarrow> (v\<lparr>dv_disk := d\<rparr>, wrapping ''removing meta for %q: %w'' r)) (\<lambda>_ v.
     if DefaultIdentity (dv_cfg v) = victim then swrap ''clearing default identity: %w'' (save_default T E [] v)
     else (v, Inr ())))))"

definition HandoffAndDelete ::
    "Toml \<Rightarrow> env \<Rightarrow> 's Client option \<Rightarrow> bytes \<Rightarrow> bytes \<Rightarrow> 'k Host \<Rightarrow> bool \<Rightarrow> ('s, 'k) device \<Rightarrow> ('s, 'k) device \<times> (handoff_error + unit)" where
  "HandoffAndDelete T E c victim successor host force v =
     (case NewIdStore E of Inl e \<Rightarrow> (v, Inl (HandoffFailed e))
      | Inr st \<Rightarrow>
      (case LoadIndex (st_path st) (dv_disk v) of Inl e \<Rightarrow> (v, Inl (HandoffFailed (Wrap ''loading identity index: %w'' e)))
       | Inr entries \<Rightarrow>
       if \<not> indexHas entries victim then (v, Inl (HandoffFailed (Errorf ''identity %q not found'')))
       else if length entries = 1 \<and> \<not> force then (v, Inl (HandoffFailed ErrLastIdentity))
       else (case hand_off T E c victim successor host entries v of
               (v1, Inl e) \<Rightarrow> (v1, Inl e)
             | (v1, Inr _) \<Rightarrow>
               (case delete_primitives T E st victim host entries v1 of
                  (v2, Inl e) \<Rightarrow> (v2, Inl (HandoffFailed e)) | (v2, Inr _) \<Rightarrow> (v2, Inr ())))))"

definition RekeyDefaultAfterRotate ::
    "env \<Rightarrow> 's Client option \<Rightarrow> bytes \<Rightarrow> SelfCrypter \<Rightarrow> 'k Host \<Rightarrow> ('s, 'k) device \<Rightarrow> ('s, 'k) device \<times> unit result" where
  "RekeyDefaultAfterRotate E c rotatedName newU host v =
     (case c of None \<Rightarrow> (v, Inr ())
      | Some c \<Rightarrow>
        sbind (v, loadIndex E (dv_disk v)) (\<lambda>entries v.
        if rotatedName \<noteq> resolveDefault (dv_cfg v) entries then (v, Inr ())
        else sbind (v, wrapping ''opening groups store: %w'' (ho_GroupStore host)) (\<lambda>gstore v.
          client_rekey c newU host gstore v)))"

definition RekeyDefault :: "env \<Rightarrow> 's Client option \<Rightarrow> 'k Host \<Rightarrow> ('s, 'k) device \<Rightarrow> ('s, 'k) device \<times> unit result" where
  "RekeyDefault E c host v =
     (case c of None \<Rightarrow> (v, Inr ())
      | Some cl \<Rightarrow>
        sbind (v, loadIndex E (dv_disk v)) (\<lambda>entries v.
        let def = resolveDefault (dv_cfg v) entries in
        if def = [] then (v, Inr ()) else rekeyTo c def host v))"

section \<open>What is left alone\<close>

definition same_file :: "bytes \<Rightarrow> disk \<Rightarrow> disk \<Rightarrow> bool" where
  "same_file p d d' \<longleftrightarrow> d_files d' p = d_files d p \<and> d_fault d' = d_fault d"

lemma same_file_refl [simp]: "same_file p d d" by (simp add: same_file_def)

lemma same_file_trans [trans]: "same_file p d d1 \<Longrightarrow> same_file p d1 d2 \<Longrightarrow> same_file p d d2" by (simp add: same_file_def)

lemma LoadIndex_same_file: "same_file p d d' \<Longrightarrow> LoadIndex p d' = LoadIndex p d"
  using ReadFile_same [of d' p d] by (simp add: same_file_def LoadIndex_def)

lemma RemoveContactsShadow_frame: "RemoveContactsShadow spath d = (d', r) \<Longrightarrow> spath \<noteq> p \<Longrightarrow> same_file p d d'"
  by (auto simp: RemoveContactsShadow_def os_Remove_def same_file_def split: option.splits prod.splits)

lemma reseal_contacts_frame:
  "reseal_contacts_attempts sv fetch u rnd spath local k state (s, d, cs) = ((s', d', cs'), r) \<Longrightarrow> spath \<noteq> p \<Longrightarrow> same_file p d d'"
proof (induction k arbitrary: state s)
  case (Suc k)
  then show ?case using RemoveContactsShadow_frame [of spath d _ _ p]
    by (auto simp: Let_def split: if_splits sum.splits prod.splits)
qed simp

lemma reseal_from_frame: "reseal_from sv u rnd name load state (s, h, pos) = ((s', h', pos'), r) \<Longrightarrow> h' = h"
  by (auto simp: reseal_from_def split: prod.splits)

lemma skipping_frame: "skipping m = (st, r) \<longleftrightarrow> st = fst m \<and> r = skip_unrecoverable (snd m)"
  by (auto simp: skipping_def)

lemma reseal_list_frame:
  assumes "reseal_list sv fetch u rnd spath io state (s, (c, d), pos) = ((s', (c', d'), pos'), r)" "spath \<noteq> p"
  shows "c' = c \<and> same_file p d d'"
  using assms reseal_contacts_frame [where p = p]
  by (auto simp: reseal_list_def resealContacts_def sbind_def split: prod.splits sum.splits)

text \<open>A property of the state that every step keeps is kept by their composition.\<close>

lemma sbind_keeps: "I (fst m) \<Longrightarrow> (\<And>a s. I s \<Longrightarrow> I (fst (f a s))) \<Longrightarrow> I (fst (sbind m f))"
  by (cases m; cases "snd m") auto

definition local_kept :: "bytes \<Rightarrow> 'c \<Rightarrow> disk \<Rightarrow> ('s, 'c) rekey_state \<Rightarrow> bool" where
  "local_kept p c d st \<longleftrightarrow> fst (fst (snd st)) = c \<and> same_file p d (snd (fst (snd st)))"

lemma reseal_steps_keep:
  "local_kept p c d st \<Longrightarrow> local_kept p c d (fst (skipping (reseal_from sv u rnd name load state st)))"
  "local_kept p c d st \<Longrightarrow> spath \<noteq> p \<Longrightarrow> local_kept p c d (fst (skipping (reseal_list sv fetch u rnd spath io state st)))"
proof -
  assume st: "local_kept p c d st"
  obtain s c0 d0 pos where e: "st = (s, (c0, d0), pos)" by (metis prod.exhaust)
  obtain s1 h1 pos1 r1 where f: "reseal_from sv u rnd name load state st = ((s1, h1, pos1), r1)" by (metis prod.exhaust)
  show "local_kept p c d (fst (skipping (reseal_from sv u rnd name load state st)))"
    using reseal_from_frame [OF f [unfolded e]] st f by (simp add: local_kept_def e skipping_def)
  assume "spath \<noteq> p"
  obtain s2 c2 d2 pos2 r2 where g: "reseal_list sv fetch u rnd spath io state st = ((s2, (c2, d2), pos2), r2)" by (metis prod.exhaust)
  show "local_kept p c d (fst (skipping (reseal_list sv fetch u rnd spath io state st)))"
    using reseal_list_frame [OF g [unfolded e] \<open>spath \<noteq> p\<close>] st g same_file_trans by (auto simp: local_kept_def e skipping_def)
qed

lemma RekeySelfLock_keeps:
  assumes "spath \<noteq> p" "local_kept p c d st"
  shows "local_kept p c d (fst (RekeySelfLock sv fetch u rnd spath io gstore nstore st))"
proof -
  obtain s h pos where e: "st = (s, h, pos)" by (metis prod.exhaust)
  obtain s1 q where f: "fetch s = (s1, q)" by fastforce
  have st1: "local_kept p c d (s1, h, pos)" using assms(2) by (simp add: local_kept_def e)
  show ?thesis
  proof (cases q)
    case (Inl er)
    with st1 show ?thesis by (simp add: RekeySelfLock_def e f)
  next
    case (Inr state)
    show ?thesis unfolding RekeySelfLock_def e f Inr prod.case sum.case
    proof (rule sbind_keeps [where I = "local_kept p c d"], goal_cases)
      case 1
      then show ?case using st1 reseal_steps_keep(1) [OF st1] by (cases io) simp_all
    next
      case (2 a st2)
      show ?case
      proof (rule sbind_keeps [where I = "local_kept p c d"], goal_cases)
        case 1
        then show ?case using 2 reseal_steps_keep(1) [OF 2] by (cases gstore) simp_all
      next
        case (2 a st3)
        show ?case
        proof (rule sbind_keeps [where I = "local_kept p c d"], goal_cases)
          case 1
          then show ?case using 2 reseal_steps_keep(1) [OF 2] by (cases nstore) simp_all
        next
          case (2 a st4)
          then show ?case using reseal_steps_keep(2) [OF 2 assms(1)] by (cases io) simp_all
        qed
      qed
    qed
  qed
qed

lemma RekeyDefaultSelfLock_keeps:
  assumes "RekeyDefaultSelfLock sv fetch ses u rnd spath io gstore nstore (s, c, d) = ((s', c', d'), r)" "spath \<noteq> p"
    and "\<And>ss d pos d' r. ses = Some ss \<Longrightarrow> ses_SavePositions ss d pos = (d', r) \<Longrightarrow> same_file p d d'"
  shows "c' = c \<and> same_file p d d'"
proof -
  have k: "local_kept p c d (fst (RekeySelfLock sv fetch u rnd spath io gstore nstore (s, (c, d), pos)))" for pos
    by (rule RekeySelfLock_keeps [OF assms(2)]) (simp add: local_kept_def)
  show ?thesis
  proof (cases ses)
    case None
    with assms(1) k [of zero_positions] show ?thesis by (auto simp: RekeyDefaultSelfLock_def local_kept_def split: prod.splits)
  next
    case (Some ss)
    show ?thesis
    proof (cases "ses_LoadPositions ss d")
      case (Inl e)
      with assms(1) Some show ?thesis by (auto simp: RekeyDefaultSelfLock_def)
    next
      case (Inr pos)
      obtain s1 c1 d1 pos1 q where f: "RekeySelfLock sv fetch u rnd spath io gstore nstore (s, (c, d), pos) = ((s1, (c1, d1), pos1), q)" by (metis prod.exhaust)
      with k [of pos] have "c1 = c" "same_file p d d1" by (simp_all add: local_kept_def)
      with assms(1) Some Inr f assms(3) [OF Some] show ?thesis
        by (cases q) (auto simp: RekeyDefaultSelfLock_def split: prod.splits intro: same_file_trans)
    qed
  qed
qed

text \<open>
  What is relied on: opening an identity changes neither the keys nor the index, and clearing keys, saving the
  positions and the files of shadow, metadata and configuration do not write to the file of the index.
\<close>

definition index_apart :: "env \<Rightarrow> 's Client option \<Rightarrow> 'k Host \<Rightarrow> IdStore \<Rightarrow> bytes \<Rightarrow> Config \<Rightarrow> bool" where
  "index_apart E c host st victim cfg \<longleftrightarrow>
     (\<forall>name w w' r. ho_OpenIdentity host name w = (w', r) \<longrightarrow> fst w' = fst w \<and> same_file (st_path st) (snd w) (snd w'))
     \<and> (\<forall>idx w w' r. ho_ClearKeys host idx w = (w', r) \<longrightarrow> same_file (st_path st) (snd w) (snd w'))
     \<and> (\<forall>cl. c = Some cl \<longrightarrow> cl_shadow cl \<noteq> st_path st
          \<and> (\<forall>ss d pos d' r. cl_session cl = Some ss \<longrightarrow> ses_SavePositions ss d pos = (d', r) \<longrightarrow> same_file (st_path st) d d'))
     \<and> meta_path st victim \<noteq> st_path st \<and> ConfigFilePath E \<noteq> Inr (st_path st)
     \<and> (ConfPath cfg = [] \<or> ExpandPath E (ConfPath cfg) \<noteq> st_path st)"

lemma saveTo_frame: "saveTo T q d c = (d', r) \<Longrightarrow> q \<noteq> p \<Longrightarrow> same_file p d d'"
  using WriteFileAtomic_frame by (fastforce simp: saveTo_def same_file_def sbind_def split: sum.splits)

lemma Config_Save_frame:
  assumes "Config_Save T E d cfg = (d', r)" "ConfigFilePath E \<noteq> Inr p" "ConfPath cfg = [] \<or> ExpandPath E (ConfPath cfg) \<noteq> p"
  shows "same_file p d d'"
proof -
  have s: "same_file p d (fst (saveTo T q d c))" if "q \<noteq> p" for q d c using saveTo_frame [OF _ that] by (metis prod.collapse)
  show ?thesis
  proof (cases "EnsureDirectories E d")
    case (Inr u)
    show ?thesis
    proof (cases "ConfigFilePath E")
      case (Inr path)
      have path: "path \<noteq> p" using assms(2) Inr by simp
      show ?thesis
      proof (cases "ConfPath cfg = []")
        case True
        then have "d' = fst (saveTo T path d cfg)" using assms(1) Inr \<open>EnsureDirectories E d = Inr u\<close> by (simp add: Config_Save_def)
        with s [OF path] show ?thesis by simp
      next
        case False
        let ?x = "ExpandPath E (ConfPath cfg)"
        have x: "?x \<noteq> p" using assms(3) False by simp
        obtain d1 q where d1: "saveTo T ?x d (cfg\<lparr>ConfPath := []\<rparr>) = (d1, q)" by fastforce
        have k: "same_file p d d1" using saveTo_frame [OF d1 x] .
        have "d' = d \<or> d' = d1 \<or> d' = fst (saveTo T path d1 (zero_Config\<lparr>ConfPath := ConfPath cfg\<rparr>))"
          using assms(1) Inr \<open>EnsureDirectories E d = Inr u\<close> False d1
          by (cases "os_MkdirAll d (filepath_Dir ?x)"; cases q) (auto simp: Config_Save_def Let_def)
        with k same_file_trans [OF k s [OF path]] show ?thesis by auto
      qed
    qed (use assms(1) \<open>EnsureDirectories E d = Inr u\<close> in \<open>simp add: Config_Save_def\<close>)
  qed (use assms(1) in \<open>simp add: Config_Save_def\<close>)
qed

lemma host_open_keeps:
  assumes "index_apart E c host st victim cfg" "host_open host name v = (v', r)"
  shows "dv_keys v' = dv_keys v \<and> dv_cfg v' = dv_cfg v \<and> same_file (st_path st) (dv_disk v) (dv_disk v')"
proof -
  obtain k d q where o: "ho_OpenIdentity host name (dv_keys v, dv_disk v) = ((k, d), q)" by (metis prod.exhaust)
  have "fst (k, d) = fst (dv_keys v, dv_disk v) \<and> same_file (st_path st) (snd (dv_keys v, dv_disk v)) (snd (k, d))"
    using assms(1) o unfolding index_apart_def by blast
  with assms(2) o show ?thesis by (auto simp: host_open_def)
qed

lemma rekeyTo_keeps:
  assumes apart: "index_apart E c host st victim (dv_cfg v)" and "rekeyTo c successor host v = (v', r)"
  shows "dv_keys v' = dv_keys v \<and> dv_cfg v' = dv_cfg v \<and> same_file (st_path st) (dv_disk v) (dv_disk v')"
proof (cases c)
  case None
  then show ?thesis using assms(2) by (simp add: rekeyTo_def)
next
  case (Some cl)
  obtain v1 q where o: "host_open host successor v = (v1, q)" by fastforce
  note k1 = host_open_keeps [OF apart o]
  show ?thesis
  proof (cases "v' = v1")
    case False
    with assms(2) Some o obtain newU g where "client_rekey cl newU host g v1 = (v', r)"
      by (cases q; cases "ho_GroupStore host") (auto simp: rekeyTo_def)
    then obtain s' cfg' d' where r: "RekeyDefaultSelfLock (cl_service cl) (cl_fetch cl) (cl_session cl) newU (cl_rnd cl) (cl_shadow cl) (ho_ResourceIO host) (Some g)
         (ho_NotificationStore host) (dv_cloud v1, dv_cfg v1, dv_disk v1) = ((s', cfg', d'), r)" "v' = v1\<lparr>dv_cloud := s', dv_cfg := cfg', dv_disk := d'\<rparr>"
      by (auto simp: client_rekey_def split: prod.splits)
    have "cfg' = dv_cfg v1 \<and> same_file (st_path st) (dv_disk v1) d'"
    proof (rule RekeyDefaultSelfLock_keeps [OF r(1)])
      show "cl_shadow cl \<noteq> st_path st" using apart Some unfolding index_apart_def by blast
      show "same_file (st_path st) d d'" if "cl_session cl = Some ss" "ses_SavePositions ss d pos = (d', r)" for ss d pos d' r
        using apart Some that unfolding index_apart_def by blast
    qed
    with k1 r(2) show ?thesis using same_file_trans by auto
  qed (use k1 in simp)
qed

lemma save_default_keeps:
  assumes "index_apart E c host st victim (dv_cfg v)" "save_default T E name v = (v', r)"
  shows "dv_keys v' = dv_keys v \<and> dv_cfg v' = (dv_cfg v)\<lparr>DefaultIdentity := name\<rparr> \<and> same_file (st_path st) (dv_disk v) (dv_disk v')"
proof -
  obtain d q where s: "Config_Save T E (dv_disk v) ((dv_cfg v)\<lparr>DefaultIdentity := name\<rparr>) = (d, q)" by fastforce
  have "same_file (st_path st) (dv_disk v) d" using assms(1) by (intro Config_Save_frame [OF s]) (simp_all add: index_apart_def)
  with assms(2) s show ?thesis by (auto simp: save_default_def)
qed

text \<open>The default after the hand-off and, in the end, after the deletion.\<close>

definition handed_default :: "Config \<Rightarrow> IdentityIndex list \<Rightarrow> bytes \<Rightarrow> bytes \<Rightarrow> bytes" where
  "handed_default cfg entries victim successor =
     (if length entries > 1 \<and> victim = resolveDefault cfg entries then successor else DefaultIdentity cfg)"

lemma hand_off_keeps:
  assumes apart: "index_apart E c host st victim (dv_cfg v)" and "hand_off T E c victim successor host entries v = (v', r)"
  shows "dv_keys v' = dv_keys v \<and> (\<exists>n. dv_cfg v' = (dv_cfg v)\<lparr>DefaultIdentity := n\<rparr>) \<and> same_file (st_path st) (dv_disk v) (dv_disk v')
    \<and> (r = Inr () \<longrightarrow> dv_cfg v' = (dv_cfg v)\<lparr>DefaultIdentity := handed_default (dv_cfg v) entries victim successor\<rparr>
        \<and> (length entries > 1 \<and> victim = resolveDefault (dv_cfg v) entries \<longrightarrow> successor \<noteq> [] \<and> successor \<noteq> victim \<and> indexHas entries successor))"
proof (cases "length entries > 1 \<and> victim = resolveDefault (dv_cfg v) entries \<and> successor \<noteq> [] \<and> successor \<noteq> victim \<and> indexHas entries successor")
  case True
  obtain v1 q where k: "rekeyTo c successor host v = (v1, q)" by fastforce
  note k1 = rekeyTo_keeps [OF apart k]
  obtain v2 q2 where s: "save_default T E successor v1 = (v2, q2)" by fastforce
  have k2: "dv_keys v2 = dv_keys v1 \<and> dv_cfg v2 = (dv_cfg v1)\<lparr>DefaultIdentity := successor\<rparr> \<and> same_file (st_path st) (dv_disk v1) (dv_disk v2)"
    using save_default_keeps [of E c host st victim v1] apart k1 s by simp
  have "v' = v1 \<and> r \<noteq> Inr () \<or> v' = v2"
    using assms(2) True k s by (cases q; cases q2) (auto simp: hand_off_def)
  moreover have "\<exists>n. dv_cfg v = (dv_cfg v)\<lparr>DefaultIdentity := n\<rparr>" by (rule exI [of _ "DefaultIdentity (dv_cfg v)"]) simp
  ultimately show ?thesis using k1 k2 True same_file_trans by (auto simp: handed_default_def)
next
  case False
  then have "v' = v \<and> (r = Inr () \<longrightarrow> \<not> (length entries > 1 \<and> victim = resolveDefault (dv_cfg v) entries))"
    using assms(2) by (auto simp: hand_off_def split: if_splits)
  moreover have "\<exists>n. dv_cfg v = (dv_cfg v)\<lparr>DefaultIdentity := n\<rparr>" by (rule exI [of _ "DefaultIdentity (dv_cfg v)"]) simp
  ultimately show ?thesis by (auto simp: handed_default_def)
qed

lemma apart_default: "index_apart E c host st victim cfg \<Longrightarrow> index_apart E c host st victim (cfg\<lparr>DefaultIdentity := n\<rparr>)"
  by (simp add: index_apart_def)

section \<open>Properties\<close>

text \<open>
  An identity that cannot be unlocked cannot be deleted: whatever is forced and whichever successor is
  named, the operation fails, the keys in the key store are untouched and the index is what it was.
\<close>

theorem HandoffAndDelete_needs_unlock:
  assumes st: "NewIdStore E = Inr st" and apart: "index_apart E c host st victim (dv_cfg v)"
    and locked: "\<And>w. \<exists>e. snd (ho_OpenIdentity host victim w) = Inl e"
    and run: "HandoffAndDelete T E c victim successor host force v = (v', r)"
  shows "(\<exists>e. r = Inl e) \<and> dv_keys v' = dv_keys v \<and> LoadIndex (st_path st) (dv_disk v') = LoadIndex (st_path st) (dv_disk v)"
proof (cases "v' = v \<and> (\<exists>e. r = Inl e)")
  case False
  with run st obtain entries where load: "LoadIndex (st_path st) (dv_disk v) = Inr entries"
    by (cases "LoadIndex (st_path st) (dv_disk v)") (auto simp: HandoffAndDelete_def)
  obtain v1 q where h: "hand_off T E c victim successor host entries v = (v1, q)" by fastforce
  note k1 = hand_off_keeps [OF apart h]
  have a1: "index_apart E c host st victim (dv_cfg v1)" using k1 apart_default [OF apart] by auto
  show ?thesis
  proof (cases q)
    case (Inl e)
    then have "v' = v1 \<and> r = Inl e" using False run st load h by (auto simp: HandoffAndDelete_def split: if_splits)
    with k1 LoadIndex_same_file show ?thesis by auto
  next
    case (Inr x)
    obtain v2 ro where op: "host_open host victim v1 = (v2, ro)" by fastforce
    note k2 = host_open_keeps [OF a1 op]
    obtain e where "ro = Inl e" using op locked [of "(dv_keys v1, dv_disk v1)"] by (auto simp: host_open_def split: prod.splits)
    then have "v' = v2 \<and> (\<exists>e. r = Inl e)" using False run st load h Inr op
      by (auto simp: HandoffAndDelete_def delete_primitives_def split: if_splits)
    with k1 k2 show ?thesis using LoadIndex_same_file same_file_trans by metis
  qed
qed auto

text \<open>
  The default and the cloud copies are handed over before the victim is unlocked, so a deletion that is
  refused has changed the default all the same.
\<close>

theorem refused_deletion_changes_default:
  assumes "NewIdStore E = Inr st" "LoadIndex (st_path st) (dv_disk v) = Inr entries" "indexHas entries victim" "length entries > 1"
    and "victim = resolveDefault (dv_cfg v) entries" "successor \<noteq> []" "successor \<noteq> victim" "indexHas entries successor"
    and "\<And>cfg. \<exists>d. Config_Save T E (dv_disk v) cfg = (d, Inr ())" "\<And>w. \<exists>e. snd (ho_OpenIdentity host victim w) = Inl e"
  shows "\<exists>v' e. HandoffAndDelete T E None victim successor host force v = (v', Inl (HandoffFailed e)) \<and> DefaultIdentity (dv_cfg v') = successor"
proof -
  let ?cfg = "(dv_cfg v)\<lparr>DefaultIdentity := successor\<rparr>"
  obtain d where d: "Config_Save T E (dv_disk v) ?cfg = (d, Inr ())" using assms(9) by blast
  let ?v = "v\<lparr>dv_cfg := ?cfg, dv_disk := d\<rparr>"
  have h: "hand_off T E None victim successor host entries v = (?v, Inr ())" using assms d by (simp add: hand_off_def rekeyTo_def save_default_def)
  obtain k d' e where o: "ho_OpenIdentity host victim (dv_keys v, d) = ((k, d'), Inl e)" using assms(10) [of "(dv_keys v, d)"] by (metis prod.collapse)
  have "delete_primitives T E st victim host entries ?v = (?v\<lparr>dv_keys := k, dv_disk := d'\<rparr>, Inl (Wrap ''cannot delete %q: unlock it first: %w'' e))"
    by (simp add: delete_primitives_def host_open_def o)
  with h assms(1-4) show ?thesis by (simp add: HandoffAndDelete_def)
qed

lemma disk_step_Inr: "(case m of (d, r) \<Rightarrow> (f d, wrapping w r)) = (s, Inr a) \<longleftrightarrow> (\<exists>d. m = (d, Inr a) \<and> s = f d)"
  by (cases m; cases "snd m") auto

lemma delete_primitives_ok:
  assumes apart: "index_apart E c host st victim (dv_cfg v)" and wf: "list_all wf_IdentityIndex entries" and rd: "d_fault (dv_disk v) SysRead (st_path st) = None"
    and run: "delete_primitives T E st victim host entries v = (v', Inr ())"
  shows "LoadIndex (st_path st) (dv_disk v') = Inr (others entries victim)
    \<and> dv_cfg v' = (dv_cfg v)\<lparr>DefaultIdentity := if DefaultIdentity (dv_cfg v) = victim then [] else DefaultIdentity (dv_cfg v)\<rparr>
    \<and> (\<exists>w u. ho_OpenIdentity host victim (dv_keys v, dv_disk v) = (w, Inr u))
    \<and> (\<exists>d w. ho_ClearKeys host (victim_entry entries victim) (dv_keys v, d) = (w, Inr ()) \<and> dv_keys v' = fst w)"
proof -
  from run obtain v1 u d2 v3 d4 where
      o: "host_open host victim v = (v1, Inr u)" and sv: "SaveIndex (st_path st) (dv_disk v1) (others entries victim) = (d2, Inr ())"
      and cl: "host_clear host (victim_entry entries victim) (v1\<lparr>dv_disk := d2\<rparr>) = (v3, Inr ())"
      and rm: "RemoveMeta st (dv_disk v3) victim = (d4, Inr ())"
      and df: "(if DefaultIdentity (dv_cfg v3) = victim then swrap ''clearing default identity: %w'' (save_default T E [] (v3\<lparr>dv_disk := d4\<rparr>))
        else (v3\<lparr>dv_disk := d4\<rparr>, Inr ())) = (v', Inr ())"
    by (auto simp: delete_primitives_def sbind_Inr_iff disk_step_Inr)
  note k1 = host_open_keeps [OF apart o]
  have "list_all wf_IdentityIndex (others entries victim)" using wf by (auto simp: others_def list_all_iff)
  moreover have "d_fault (dv_disk v1) SysRead (st_path st) = None" using k1 rd by (simp add: same_file_def)
  ultimately have i2: "LoadIndex (st_path st) d2 = Inr (others entries victim)" using index_file.load_saved [OF _ _ sv] by blast
  obtain k3 d3 where c3: "ho_ClearKeys host (victim_entry entries victim) (dv_keys v1, d2) = ((k3, d3), Inr ())" "v3 = v1\<lparr>dv_keys := k3, dv_disk := d3\<rparr>"
    using cl by (auto simp: host_clear_def split: prod.splits)
  then have s3: "same_file (st_path st) d2 d3" using apart unfolding index_apart_def by fastforce
  have "meta_path st victim \<noteq> st_path st" using apart by (simp add: index_apart_def)
  then have s4: "same_file (st_path st) d3 d4" using rm c3(2)
    by (auto simp: RemoveMeta_def remove_present_def os_Remove_def same_file_def split: option.splits prod.splits if_splits)
  have s5: "same_file (st_path st) d4 (dv_disk v')" "dv_keys v' = k3"
    "dv_cfg v' = (dv_cfg v)\<lparr>DefaultIdentity := if DefaultIdentity (dv_cfg v) = victim then [] else DefaultIdentity (dv_cfg v)\<rparr>"
    using df save_default_keeps [of E c host st victim "v3\<lparr>dv_disk := d4\<rparr>" T "[]" v' "Inr ()"] apart k1 c3(2) by (auto split: if_splits)
  have "LoadIndex (st_path st) (dv_disk v') = Inr (others entries victim)"
    using LoadIndex_same_file same_file_trans [OF s3 same_file_trans [OF s4 s5(1)]] i2 by simp
  moreover have "\<exists>w u. ho_OpenIdentity host victim (dv_keys v, dv_disk v) = (w, Inr u)" using o by (auto simp: host_open_def split: prod.splits)
  ultimately show ?thesis using s5 c3(1) k1 by auto
qed

text \<open>
  C26. A deletion that succeeded removed the victim and nothing else from the index, which afterwards holds exactly
  the other entries; the victim was in the index and its identity was unlocked with the keys as they were at the start, the keys of
  its entry were cleared and nothing else was done to the key store. It was not the only identity unless that was forced. If it was the
  default and not the only identity, the default is now the named successor, which is among the remaining entries; otherwise
  the default is what it was, or none if it named the victim. Assumed: the index loads, is well formed and can be read
  again; and opening an identity, clearing keys, saving positions, and the files of shadow, metadata and
  configuration leave the file of the index alone, opening the keys as well.
\<close>

theorem HandoffAndDelete_removes:
  assumes st: "NewIdStore E = Inr st" and apart: "index_apart E c host st victim (dv_cfg v)"
    and idx: "LoadIndex (st_path st) (dv_disk v) = Inr entries" "list_all wf_IdentityIndex entries" "d_fault (dv_disk v) SysRead (st_path st) = None"
    and run: "HandoffAndDelete T E c victim successor host force v = (v', Inr ())"
  shows "LoadIndex (st_path st) (dv_disk v') = Inr (others entries victim) \<and> indexHas entries victim \<and> (length entries \<noteq> 1 \<or> force)
    \<and> (if length entries > 1 \<and> victim = resolveDefault (dv_cfg v) entries
        then DefaultIdentity (dv_cfg v') = successor \<and> indexHas (others entries victim) successor
        else DefaultIdentity (dv_cfg v') = (if DefaultIdentity (dv_cfg v) = victim then [] else DefaultIdentity (dv_cfg v)))
    \<and> (\<exists>d w u. ho_OpenIdentity host victim (dv_keys v, d) = (w, Inr u))
    \<and> (\<exists>d w. ho_ClearKeys host (victim_entry entries victim) (dv_keys v, d) = (w, Inr ()) \<and> dv_keys v' = fst w)"
proof -
  from run st idx(1) obtain v1 where has: "indexHas entries victim" "length entries \<noteq> 1 \<or> force"
      and h: "hand_off T E c victim successor host entries v = (v1, Inr ())" and del: "delete_primitives T E st victim host entries v1 = (v', Inr ())"
    by (auto simp: HandoffAndDelete_def split: if_splits prod.splits sum.splits)
  note k1 = hand_off_keeps [OF apart h, simplified]
  have a1: "index_apart E c host st victim (dv_cfg v1)" using k1 apart_default [OF apart] by auto
  have rd: "d_fault (dv_disk v1) SysRead (st_path st) = None" using k1 idx(3) by (simp add: same_file_def)
  note k2 = delete_primitives_ok [OF a1 idx(2) rd del]
  have mem: "indexHas (others entries victim) successor" if "indexHas entries successor" "successor \<noteq> victim"
    using that by (auto simp: indexHas_def others_def list_ex_iff)
  show ?thesis using k1 k2 has mem by (auto simp: handed_default_def)
qed

section \<open>Witnesses\<close>

definition sample_host :: "bool \<Rightarrow> unit Host" where
  "sample_host opens = \<lparr>ho_OpenIdentity = (\<lambda>name w. (w, if opens then Inr clear_crypter else Inl (Errorf ''locked''))),
     ho_ClearKeys = (\<lambda>idx w. (w, Inr ())), ho_GroupStore = Inr ''groups.json'', ho_NotificationStore = None, ho_ResourceIO = None\<rparr>"

definition sample_device :: "(unit, unit) device" where
  "sample_device = \<lparr>dv_cloud = (), dv_keys = (), dv_cfg = small_config [] [], dv_disk = index_disk\<rparr>"

lemma sample_apart: "index_apart sample_env None (sample_host b) sample_id_store (ix_Name sample_index) (dv_cfg sample_device)"
proof -
  have "ConfigFilePath sample_env \<noteq> Inr (st_path sample_id_store)" "meta_path sample_id_store (ix_Name sample_index) \<noteq> st_path sample_id_store"
    by code_simp+
  then show ?thesis by (simp add: index_apart_def sample_host_def sample_device_def small_config_def zero_Config_def)
qed

theorem HandoffAndDelete_needs_unlock_witness:
  "\<exists>v' e. HandoffAndDelete small_toml sample_env None (ix_Name sample_index) [] (sample_host False) True sample_device = (v', Inl e)
     \<and> LoadIndex (st_path sample_id_store) (dv_disk v') = LoadIndex (st_path sample_id_store) index_disk"
proof -
  obtain v' r where run: "HandoffAndDelete small_toml sample_env None (ix_Name sample_index) [] (sample_host False) True sample_device = (v', r)" by fastforce
  have "\<exists>e. snd (ho_OpenIdentity (sample_host False) (ix_Name sample_index) w) = Inl e" for w by (simp add: sample_host_def)
  from HandoffAndDelete_needs_unlock [OF sample_id_store_ok sample_apart this run] run show ?thesis by (auto simp: sample_device_def)
qed

theorem HandoffAndDelete_removes_witness:
  "\<exists>v'. HandoffAndDelete small_toml sample_env None (ix_Name sample_index) [] (sample_host True) True sample_device = (v', Inr ())
     \<and> LoadIndex (st_path sample_id_store) (dv_disk v') = Inr []"
proof -
  let ?n = "ix_Name sample_index" and ?p = "st_path sample_id_store"
  have load: "LoadIndex ?p (dv_disk sample_device) = Inr [sample_index]" by (simp add: sample_device_def index_disk_loads)
  have f: "d_fault index_disk c p = None" for c p by (simp add: index_disk_def empty_disk_def)
  let ?d = "index_disk\<lparr>d_files := (d_files index_disk)(?p \<mapsto> indented (enc_indexFile \<lparr>xf_Version = 3, xf_Identities = []\<rparr>))\<rparr>"
  have s: "SaveIndex ?p index_disk [] = (?d, Inr ())" unfolding SaveIndex_def by (rule WriteFileAtomic_clean [OF f])
  have "meta_path sample_id_store ?n = ''/d/identities/alice.meta''" by code_simp
  then have m: "RemoveMeta sample_id_store ?d ?n = (?d, Inr ())"
    by (simp add: RemoveMeta_def remove_present_def os_Remove_def IsNotExist_def index_disk_def sample_id_store_def)
  have "\<exists>v'. HandoffAndDelete small_toml sample_env None ?n [] (sample_host True) True sample_device = (v', Inr ())"
    using s m sample_id_store_ok index_disk_loads by (simp add: HandoffAndDelete_def indexHas_def hand_off_def delete_primitives_def host_open_def
        host_clear_def sample_host_def sample_device_def others_def small_config_def zero_Config_def sample_index_def)
  then obtain v' where run: "HandoffAndDelete small_toml sample_env None ?n [] (sample_host True) True sample_device = (v', Inr ())" ..
  have "list_all wf_IdentityIndex [sample_index]" using sample_index_ok by simp
  from HandoffAndDelete_removes [OF sample_id_store_ok sample_apart load this _ run] run show ?thesis by (simp add: others_def sample_device_def f)
qed

end
