(* ===== verification/Icfx_RunSync.thy ===== *)
theory Icfx_RunSync
  imports Icfx_Rekey Icfx_Discovery
begin

text \<open>
  One sync run (src/cloud/runsync.go) and the roaming of identities it starts with (src/cloud/identities.go, the
  function SyncIdentities of sync.go). The library owns the sequence; what the platform supplies is the record
  \<open>SyncHost\<close>, whose callbacks may change the state of the run. The state is the account on the service, the key
  store and the disk, the configuration behind the settings, the account key of the session and the one that is
  stored, and the positions of the device. Of an outcome the machine fields are kept. The sync of contacts may not
  end; then the value is \<open>None\<close>.
\<close>

section \<open>Parameters and state\<close>

record 's RunClient =
  rc_service :: "'s Service"
  rc_fetch :: "'s \<Rightarrow> 's \<times> ServerSyncState result"
  rc_inbox :: "'s Inbox"
  rc_prims :: prims
  rc_archive :: Archive
  rc_toml :: Toml
  rc_env :: env
  rc_now :: gotime
  rc_rnd :: "bytes \<Rightarrow> nat \<Rightarrow> bytes"
  rc_shadow :: bytes
  rc_ulow :: "nat \<Rightarrow> nat"
  rc_clock :: "nat \<Rightarrow> gotime"
  rc_edits :: "disk \<Rightarrow> disk"
  rc_mismatch :: "go_error \<Rightarrow> bool"

record ('s, 'k) run =
  rn_cloud :: 's
  rn_world :: "'k world"
  rn_cfg :: Config
  rn_encKey :: bytes
  rn_stored :: "bytes result"
  rn_pos :: SyncPositions

record ResourceSelection =
  rs_Contacts :: bool
  rs_Settings :: bool
  rs_Identities :: bool
  rs_Notifications :: bool
  rs_Groups :: bool

record SyncOptions =
  so_Background :: bool
  so_ApproveDefaultChange :: "(bytes \<times> bytes) option"
  so_ApproveReseal :: "bytes \<Rightarrow> bool"

text \<open>The errors of a run: a second factor, a change of the default or a re-seal to be confirmed, or any other.\<close>

datatype sync_error = ChallengePending bytes | DefaultChangePending bytes bytes bytes | ResealPending "bytes list" | SyncFailed go_error

record ('s, 'k) SyncHost =
  sh_Resources :: ResourceSelection
  sh_RoamingExport :: "'k IdentityExportFn"
  sh_RoamingImport :: "'k IdentityImportFn"
  sh_EstablishEncKey :: "('s, 'k) run \<Rightarrow> ('s, 'k) run \<times> (sync_error + unit)"
  sh_AdoptDefaultIdentity :: "bytes \<Rightarrow> ('s, 'k) run \<Rightarrow> ('s, 'k) run \<times> unit result"
  sh_OpenDefaultIdentity :: "('s, 'k) run \<Rightarrow> ('s, 'k) run \<times> SelfCrypter result"
  sh_ResourceIO :: "(Config \<times> disk) ResourceIO"
  sh_NotificationStore :: "bytes option"
  sh_GroupStore :: "bytes result"
  sh_ContactStore :: "bytes result"
  sh_OpenByFingerprint :: "bytes \<Rightarrow> SelfCrypter result"

section \<open>Roaming of identities\<close>

definition ErrEncKeyMissing :: go_error where
  "ErrEncKeyMissing = Sentinel ''no cloud encryption key available: enter the cloud password''"

definition ErrEncKeyStale :: go_error where
  "ErrEncKeyStale = Sentinel ''stored cloud encryption key is stale: the account password changed; enter the cloud password''"

definition encKeyPassphrase :: "bytes \<Rightarrow> bytes" where "encKeyPassphrase encKey = b64_encode encKey"

definition sessionOrStoredEncKey :: "('s, 'k) run \<Rightarrow> (bytes \<times> bool) result" where
  "sessionOrStoredEncKey v =
     (if length (rn_encKey v) > 0 then Inr (rn_encKey v, False) else andthen (rn_stored v) (\<lambda>k. Inr (k, True)))"

definition pushIdentitiesWithKey ::
    "'s RunClient \<Rightarrow> bytes \<Rightarrow> 'k IdentityExportFn \<Rightarrow> ('s, 'k) run \<Rightarrow> ('s, 'k) run \<times> int result" where
  "pushIdentitiesWithKey c encKey exportFn v =
     (case ExportIdentitiesToBytes (rc_prims c) (rc_archive c) (rc_toml c) (rc_env c) (rc_rnd c ''identities'' 0) (rc_now c)
             (encKeyPassphrase encKey) exportFn (rn_world v) of
        (w, Inl e) \<Rightarrow> (v\<lparr>rn_world := w\<rparr>, Inl (Wrap ''export identities: %w'' e))
      | (w, Inr data) \<Rightarrow>
        (case PutBlob (rc_service c) ''identities'' data 0 (rn_cloud v) of
           (s, Inr ver) \<Rightarrow> (v\<lparr>rn_world := w, rn_cloud := s\<rparr>, Inr ver)
         | (s, Inl e) \<Rightarrow>
           (case CurrentVersionFromConflict e of
              (cur, ok) \<Rightarrow>
                if ok then (case PutBlob (rc_service c) ''identities'' data cur s of (s', r) \<Rightarrow> (v\<lparr>rn_world := w, rn_cloud := s'\<rparr>, r))
                else (v\<lparr>rn_world := w, rn_cloud := s\<rparr>, Inl e))))"

definition pushIdentitiesVersioned :: "'s RunClient \<Rightarrow> 'k IdentityExportFn \<Rightarrow> ('s, 'k) run \<Rightarrow> ('s, 'k) run \<times> int result" where
  "pushIdentitiesVersioned c exportFn v =
     sbind (v, sessionOrStoredEncKey v) (\<lambda>(encKey, _) v. pushIdentitiesWithKey c encKey exportFn v)"

definition PushIdentities :: "'s RunClient \<Rightarrow> 'k IdentityExportFn \<Rightarrow> ('s, 'k) run \<Rightarrow> ('s, 'k) run \<times> unit result" where
  "PushIdentities c exportFn v = sbind (pushIdentitiesVersioned c exportFn v) (\<lambda>_ v. (v, Inr ()))"

text \<open>The version is returned together with the error.\<close>

definition pullIdentitiesVersioned :: "'s RunClient \<Rightarrow> 'k IdentityImportFn \<Rightarrow> ('s, 'k) run \<Rightarrow> ('s, 'k) run \<times> int \<times> unit result" where
  "pullIdentitiesVersioned c importFn v =
     (case sessionOrStoredEncKey v of Inl e \<Rightarrow> (v, 0, Inl e)
      | Inr (encKey, fromStore) \<Rightarrow>
      (case GetBlob (rc_service c) ''identities'' (rn_cloud v) of
         (s, Inl e) \<Rightarrow> (v\<lparr>rn_cloud := s\<rparr>, 0, Inl e)
       | (s, Inr b) \<Rightarrow>
         (case ImportIdentitiesFromBytes (rc_prims c) (rc_archive c) (rc_env c) (bl_Ciphertext b) (encKeyPassphrase encKey) importFn (rn_world v) of
            (w, Inl e) \<Rightarrow>
              (if fromStore \<and> \<not> errors_is e ErrUnsupportedRoamingVersion
               then (v\<lparr>rn_cloud := s, rn_world := w\<rparr>, 0, Inl (Wrap ''%w: %v'' ErrEncKeyStale))
               else (v\<lparr>rn_cloud := s, rn_world := w\<rparr>, bl_Version b, Inl e))
          | (w, Inr _) \<Rightarrow> (v\<lparr>rn_cloud := s, rn_world := w\<rparr>, bl_Version b, Inr ()))))"

definition PullIdentities :: "'s RunClient \<Rightarrow> 'k IdentityImportFn \<Rightarrow> ('s, 'k) run \<Rightarrow> ('s, 'k) run \<times> unit result" where
  "PullIdentities c importFn v = (case pullIdentitiesVersioned c importFn v of (v', _, r) \<Rightarrow> (v', r))"

definition hasIdentitiesBlob :: "'s RunClient \<Rightarrow> 's \<Rightarrow> 's \<times> bool result" where
  "hasIdentitiesBlob c s =
     (case GetBlob (rc_service c) ''identities'' s of
        (s', Inl e) \<Rightarrow> (s', if IsNotFound e then Inr False else Inl e) | (s', Inr _) \<Rightarrow> (s', Inr True))"

definition run_digest :: "'s RunClient \<Rightarrow> 'k IdentityExportFn \<Rightarrow> ('s, 'k) run \<Rightarrow> ('s, 'k) run \<times> bytes result" where
  "run_digest c exportFn v = (case RoamingDigest (rc_prims c) (rc_env c) exportFn (rn_world v) of (w, r) \<Rightarrow> (v\<lparr>rn_world := w\<rparr>, r))"

definition set_identities :: "(IdentitiesSyncState \<Rightarrow> IdentitiesSyncState) \<Rightarrow> ('s, 'k) run \<Rightarrow> ('s, 'k) run" where
  "set_identities f v = v\<lparr>rn_pos := (rn_pos v)\<lparr>sp_Identities := f (sp_Identities (rn_pos v))\<rparr>\<rparr>"

text \<open>The pull of a pass: whether something was merged, and whether a push is due because the blob was of an older format.\<close>

definition pull_pass ::
    "'s RunClient \<Rightarrow> 'k IdentityExportFn \<Rightarrow> 'k IdentityImportFn \<Rightarrow> bytes \<Rightarrow> bool \<Rightarrow> ('s, 'k) run \<Rightarrow> ('s, 'k) run \<times> (bool \<times> bool \<times> bytes) result" where
  "pull_pass c exportFn importFn localDigest localChanged v =
     (case pullIdentitiesVersioned c importFn v of
        (v1, ver, Inr _) \<Rightarrow>
          sbind (run_digest c exportFn (set_identities (is_Version_update (\<lambda>_. ver)) v1)) (\<lambda>dg v. (v, Inr (True, localChanged, dg)))
      | (v1, ver, Inl e) \<Rightarrow>
          (if errors_is e ErrUnsupportedRoamingVersion
           then sbind (run_digest c exportFn (set_identities (is_Version_update (\<lambda>_. ver)) v1)) (\<lambda>dg v. (v, Inr (False, True, dg)))
           else (v1, Inl e)))"

definition SyncIdentities ::
    "'s RunClient \<Rightarrow> 'k IdentityExportFn \<Rightarrow> 'k IdentityImportFn \<Rightarrow> ServerBlobMeta \<Rightarrow> ('s, 'k) run \<Rightarrow> ('s, 'k) run \<times> bytes result" where
  "SyncIdentities c exportFn importFn remote v =
     sbind (run_digest c exportFn v) (\<lambda>localDigest v.
     let st = sp_Identities (rn_pos v); remoteMoved = (bm_Version remote \<noteq> is_Version st); localChanged = (localDigest \<noteq> is_Digest st) in
     if \<not> remoteMoved \<and> \<not> localChanged then (v, Inr SyncUpToDate)
     else if bm_Version remote = 0 then
       sbind (pushIdentitiesVersioned c exportFn v) (\<lambda>ver v.
       (set_identities (\<lambda>_. \<lparr>is_Version = ver, is_Digest = localDigest\<rparr>) v, Inr SyncPushedNew))
     else
     sbind (if remoteMoved then pull_pass c exportFn importFn localDigest localChanged v else (v, Inr (False, localChanged, localDigest)))
       (\<lambda>(pulled, localChanged, localDigest) v.
     if \<not> localChanged then (set_identities (is_Digest_update (\<lambda>_. localDigest)) v, Inr SyncPulled)
     else
     sbind (pushIdentitiesVersioned c exportFn v) (\<lambda>ver v.
     (set_identities (\<lambda>_. \<lparr>is_Version = ver, is_Digest = localDigest\<rparr>) v, Inr (if pulled then SyncSynced else SyncPushed)))))"

section \<open>The gates of the default identity\<close>

definition peekRoamingManifest :: "'s RunClient \<Rightarrow> ('s, 'k) run \<Rightarrow> ('s, 'k) run \<times> Manifest option" where
  "peekRoamingManifest c v =
     (case sessionOrStoredEncKey v of Inl _ \<Rightarrow> (v, None)
      | Inr (encKey, _) \<Rightarrow>
      (case GetBlob (rc_service c) ''identities'' (rn_cloud v) of
         (s, Inl _) \<Rightarrow> (v\<lparr>rn_cloud := s\<rparr>, None)
       | (s, Inr b) \<Rightarrow>
         (v\<lparr>rn_cloud := s\<rparr>, case PeekRoamingManifest (rc_prims c) (rc_archive c) (bl_Ciphertext b) (encKeyPassphrase encKey) of Inl _ \<Rightarrow> None | Inr m \<Rightarrow> Some m)))"

definition local_entries :: "env \<Rightarrow> disk \<Rightarrow> IdentityIndex list" where
  "local_entries E d = (case NewIdStore E of Inl _ \<Rightarrow> [] | Inr st \<Rightarrow> (case LoadIndex (st_path st) d of Inl _ \<Rightarrow> [] | Inr entries \<Rightarrow> entries))"

definition localIndexFingerprint :: "env \<Rightarrow> disk \<Rightarrow> bytes \<Rightarrow> bytes" where
  "localIndexFingerprint E d name = (case find (\<lambda>e. ix_Name e = name) (local_entries E d) of Some e \<Rightarrow> ix_Fingerprint e | None \<Rightarrow> [])"

definition localIdentityExists :: "env \<Rightarrow> disk \<Rightarrow> bytes \<Rightarrow> bool" where
  "localIdentityExists E d name = list_ex (\<lambda>e. ix_Name e = name) (local_entries E d)"

definition manifestFingerprint :: "Manifest \<Rightarrow> bytes \<Rightarrow> bytes" where
  "manifestFingerprint m name = (case find (\<lambda>mi. mi_Name mi = name) (mf_Identities m) of Some mi \<Rightarrow> mi_Fingerprint mi | None \<Rightarrow> [])"

definition defaultKeySwapGate :: "'s RunClient \<Rightarrow> ServerBlobMeta \<Rightarrow> SyncOptions \<Rightarrow> ('s, 'k) run \<Rightarrow> ('s, 'k) run \<times> sync_error option" where
  "defaultKeySwapGate c remote opts v =
     (if bm_Version remote = 0 then (v, None)
      else case Config_Load (rc_toml c) (rc_env c) (snd (rn_world v)) of Inl _ \<Rightarrow> (v, None)
      | Inr cfg \<Rightarrow>
      let def = DefaultIdentity cfg; localFP = localIndexFingerprint (rc_env c) (snd (rn_world v)) def in
      if def = [] then (v, None)
      else if localFP = [] then (v, None)
      else (case peekRoamingManifest c v of
              (v1, None) \<Rightarrow> (v1, None)
            | (v1, Some m) \<Rightarrow>
              let incomingFP = manifestFingerprint m def in
              if incomingFP = [] \<or> incomingFP = localFP then (v1, None)
              else if so_ApproveDefaultChange opts = Some (''key'', def) then (v1, None)
              else (v1, Some (DefaultChangePending ''key'' def def))))"

text \<open>The name adopted (empty: none), and the change to be confirmed.\<close>

definition maybeAdoptDefault ::
    "'s RunClient \<Rightarrow> ('s, 'k) SyncHost \<Rightarrow> SyncOptions \<Rightarrow> ('s, 'k) run \<Rightarrow> ('s, 'k) run \<times> (bytes \<times> sync_error option) result" where
  "maybeAdoptDefault c host opts v =
     (case peekRoamingManifest c v of
        (v1, None) \<Rightarrow> (v1, Inr ([], None))
      | (v1, Some m) \<Rightarrow>
        if mf_DefaultIdentity m = [] then (v1, Inr ([], None))
        else case Config_Load (rc_toml c) (rc_env c) (snd (rn_world v1)) of Inl e \<Rightarrow> (v1, Inl e)
        | Inr cfg \<Rightarrow>
          if mf_DefaultIdentity m = DefaultIdentity cfg then (v1, Inr ([], None))
          else if \<not> localIdentityExists (rc_env c) (snd (rn_world v1)) (mf_DefaultIdentity m) then (v1, Inr ([], None))
          else if so_ApproveDefaultChange opts = Some (''pointer'', mf_DefaultIdentity m) then
            sbind (sh_AdoptDefaultIdentity host (mf_DefaultIdentity m) v1) (\<lambda>_ v2. (v2, Inr (mf_DefaultIdentity m, None)))
          else (v1, Inr ([], Some (DefaultChangePending ''pointer'' (DefaultIdentity cfg) (mf_DefaultIdentity m)))))"

text \<open>After a successful roam: the outcome, then the gate of the default pointer.\<close>

definition identities_done :: "'s RunClient \<Rightarrow> ('s, 'k) SyncHost \<Rightarrow> SyncOptions \<Rightarrow> bytes \<Rightarrow> ('s, 'k) run \<Rightarrow> ('s, 'k) run \<times> SyncOutcome list \<times> sync_error option" where
  "identities_done c host opts action v =
     (let outs = [\<lparr>oc_Resource = ''identities'', oc_Action = action, oc_Version = is_Version (sp_Identities (rn_pos v)), oc_CloudWasNewer = False\<rparr>] in
      case maybeAdoptDefault c host opts v of
        (v1, Inl _) \<Rightarrow> (v1, outs, None)
      | (v1, Inr (_, pending)) \<Rightarrow> (v1, outs, pending))"

definition runIdentities ::
    "'s RunClient \<Rightarrow> ('s, 'k) SyncHost \<Rightarrow> ServerSyncState \<Rightarrow> SyncOptions \<Rightarrow> ('s, 'k) run \<Rightarrow> ('s, 'k) run \<times> SyncOutcome list \<times> sync_error option" where
  "runIdentities c host state opts v =
     (let remote = ServerSyncState_Blob state ''identities'';
          sync = SyncIdentities c (sh_RoamingExport host) (sh_RoamingImport host) remote in
      case defaultKeySwapGate c remote opts v of
        (v1, Some pending) \<Rightarrow> (v1, [], Some pending)
      | (v1, None) \<Rightarrow>
        (case sync v1 of
           (v2, Inr action) \<Rightarrow> identities_done c host opts action v2
         | (v2, Inl e) \<Rightarrow>
           (if errors_is e ErrEncKeyMissing \<or> errors_is e ErrEncKeyStale then
              (case sh_EstablishEncKey host v2 of
                 (v3, Inl pending) \<Rightarrow> (v3, [], Some pending)
               | (v3, Inr _) \<Rightarrow>
                 (case sync v3 of (v4, Inl e') \<Rightarrow> (v4, [], Some (SyncFailed e')) | (v4, Inr action) \<Rightarrow> identities_done c host opts action v4))
            else (v2, [], Some (SyncFailed e)))))"

section \<open>The resources sealed to the default identity\<close>

definition SyncSkipped :: bytes where "SyncSkipped = ''skipped''"

definition skippedOutcome :: "bytes \<Rightarrow> SyncOutcome" where
  "skippedOutcome resource = \<lparr>oc_Resource = resource, oc_Action = SyncSkipped, oc_Version = 0, oc_CloudWasNewer = False\<rparr>"

definition unrecoverableOutcome :: "bytes \<Rightarrow> SyncOutcome" where
  "unrecoverableOutcome resource = \<lparr>oc_Resource = resource, oc_Action = SyncSkipped, oc_Version = 0, oc_CloudWasNewer = False\<rparr>"

definition resealedOutcome :: "bytes \<Rightarrow> SyncPositions \<Rightarrow> SyncOutcome" where
  "resealedOutcome resource pos = \<lparr>oc_Resource = resource, oc_Action = SyncSynced,
     oc_Version = (if resource = ''contacts'' then cs_SnapshotVersion (sp_Contacts pos) else sp_Versions pos resource), oc_CloudWasNewer = False\<rparr>"

text \<open>The state as the re-sealing sees it.\<close>

definition on_rekey :: "(('s, Config) rekey_state \<Rightarrow> ('s, Config) rekey_state \<times> unit result) \<Rightarrow> ('s, 'k) run \<Rightarrow> ('s, 'k) run \<times> unit result" where
  "on_rekey f v =
     (case f (rn_cloud v, (rn_cfg v, snd (rn_world v)), rn_pos v) of
        ((s, (cfg, d), pos), r) \<Rightarrow> (v\<lparr>rn_cloud := s, rn_cfg := cfg, rn_world := (fst (rn_world v), d), rn_pos := pos\<rparr>, r))"

definition resealOne ::
    "'s RunClient \<Rightarrow> ('s, 'k) SyncHost \<Rightarrow> SelfCrypter \<Rightarrow> bytes \<Rightarrow> ServerSyncState \<Rightarrow> ('s, 'k) run \<Rightarrow> ('s, 'k) run \<times> unit result" where
  "resealOne c host u name state v =
     (let sv = rc_service c; rnd = rc_rnd c; d = snd (rn_world v) in
      if name = ''settings'' then
        on_rekey (reseal_from sv u rnd ''settings'' (io_Load (sh_ResourceIO host) (rn_cfg v, d) ''settings'') state) v
      else if name = ''groups'' then
        (case sh_GroupStore host of Inl e \<Rightarrow> (v, Inl e)
         | Inr g \<Rightarrow> on_rekey (reseal_from sv u rnd ''groups'' (Groups_SyncBytes g d) state) v)
      else if name = ''notifications'' then
        (case sh_NotificationStore host of None \<Rightarrow> (v, Inl (Errorf ''no notification store''))
         | Some n \<Rightarrow> on_rekey (reseal_from sv u rnd ''notifications'' (SealSource n d) state) v)
      else if name = ''contacts'' then
        on_rekey (reseal_list sv (rc_fetch c) u rnd (rc_shadow c) (sh_ResourceIO host) state) v
      else (v, Inl (Errorf ''cannot reseal unknown resource %q'')))"

definition canRecoverLocally :: "('s, 'k) SyncHost \<Rightarrow> bytes \<Rightarrow> ('s, 'k) run \<Rightarrow> bool" where
  "canRecoverLocally host name v =
     (let d = snd (rn_world v) in
      if name = ''settings'' then sp_SettingsDigest (rn_pos v) \<noteq> []
      else
      case (if name = ''contacts'' then Some (io_Load (sh_ResourceIO host) (rn_cfg v, d) name)
            else if name = ''groups'' then (case sh_GroupStore host of Inl _ \<Rightarrow> None | Inr g \<Rightarrow> Some (Groups_SyncBytes g d))
            else if name = ''notifications'' then (case sh_NotificationStore host of None \<Rightarrow> None | Some n \<Rightarrow> Some (SealSource n d))
            else None) of
        None \<Rightarrow> False | Some (Inl _) \<Rightarrow> False | Some (Inr local) \<Rightarrow> localSourceHasData name local)"

definition recoverOrphan ::
    "'s RunClient \<Rightarrow> ('s, 'k) SyncHost \<Rightarrow> SelfCrypter \<Rightarrow> ServerSyncState \<Rightarrow> SyncOptions \<Rightarrow> bytes \<Rightarrow> ('s, 'k) run \<times> bytes list
     \<Rightarrow> (('s, 'k) run \<times> bytes list) \<times> SyncOutcome" where
  "recoverOrphan c host u state opts n st =
     (case st of (v, needReseal) \<Rightarrow>
      if \<not> canRecoverLocally host n v then (st, unrecoverableOutcome n)
      else if \<not> so_ApproveReseal opts n then ((v, needReseal @ [n]), skippedOutcome n)
      else (case resealOne c host u n state v of
              (v', Inl e) \<Rightarrow> ((v', needReseal), if errors_is e ErrNoLocalToRecover then unrecoverableOutcome n else skippedOutcome n)
            | (v', Inr _) \<Rightarrow> ((v', needReseal), resealedOutcome n (rn_pos v'))))"

definition probeOrphan :: "'s RunClient \<Rightarrow> SelfCrypter \<Rightarrow> bytes \<Rightarrow> ServerSyncState \<Rightarrow> 's \<Rightarrow> 's \<times> bool" where
  "probeOrphan c u name state s =
     (if bm_Version (ServerSyncState_Blob state name) = 0 \<and> MaxSeq state name = 0 then (s, False)
      else case OpenBlob (rc_service c) u name s of (s', Inl e) \<Rightarrow> (s', rc_mismatch c e) | (s', Inr _) \<Rightarrow> (s', False))"

text \<open>The sync of one resource.\<close>

definition sync_one ::
    "'s RunClient \<Rightarrow> ('s, 'k) SyncHost \<Rightarrow> SelfCrypter \<Rightarrow> ServerSyncState \<Rightarrow> bytes \<Rightarrow> ('s, 'k) run \<Rightarrow> (('s, 'k) run \<times> SyncOutcome result) option" where
  "sync_one c host u state n v =
     (let sv = rc_service c; s = rn_cloud v; k = fst (rn_world v); d = snd (rn_world v); pos = rn_pos v in
      if n = ''contacts'' then
        (case wrapping ''resolving contacts file path: %w'' (ContactsFilePath (rc_env c)) of Inl e \<Rightarrow> Some (v, Inl e)
         | Inr cpath \<Rightarrow>
         (case SyncContactsOps sv u (rc_rnd c ''contacts'') cpath (rc_shadow c) state (s, d, sp_Contacts pos) of
            None \<Rightarrow> None
          | Some ((s', d', cs'), r) \<Rightarrow> Some (v\<lparr>rn_cloud := s', rn_world := (k, d'), rn_pos := pos\<lparr>sp_Contacts := cs'\<rparr>\<rparr>, r)))
      else if n = ''groups'' then
        (case sh_GroupStore host of Inl e \<Rightarrow> Some (v, Inl e)
         | Inr g \<Rightarrow> (case syncGroupsBlob sv u (rc_rnd c ''groups'') g (s, d) of ((s', d'), r) \<Rightarrow> Some (v\<lparr>rn_cloud := s', rn_world := (k, d')\<rparr>, r)))
      else if n = ''notifications'' then
        (case sh_NotificationStore host of None \<Rightarrow> Some (v, Inl (Errorf ''no notification store''))
         | Some p \<Rightarrow>
           (case Notif_Sync sv u (rc_rnd c ''notifications'') p (rc_edits c) (s, d) of
              ((s', d'), r) \<Rightarrow> Some (v\<lparr>rn_cloud := s', rn_world := (k, d')\<rparr>, andthen r (\<lambda>_.
                 Inr \<lparr>oc_Resource = ''notifications'', oc_Action = SyncSynced, oc_Version = 0, oc_CloudWasNewer = False\<rparr>))))
      else
        (case SyncSettingsGated (rc_prims c) sv u (rc_rnd c ''settings'' 0) (sh_ResourceIO host) state ((s, (rn_cfg v, d), sp_Versions pos), sp_SettingsDigest pos) of
           (((s', (cfg', d'), vs'), dg'), r) \<Rightarrow>
             Some (v\<lparr>rn_cloud := s', rn_world := (k, d'), rn_cfg := cfg', rn_pos := pos\<lparr>sp_Versions := vs', sp_SettingsDigest := dg'\<rparr>\<rparr>, r)))"

fun sync_all ::
    "'s RunClient \<Rightarrow> ('s, 'k) SyncHost \<Rightarrow> SelfCrypter \<Rightarrow> ServerSyncState \<Rightarrow> SyncOptions \<Rightarrow> bytes list \<Rightarrow> ('s, 'k) run \<times> bytes list
     \<Rightarrow> ((('s, 'k) run \<times> bytes list) \<times> SyncOutcome list) option" where
  "sync_all c host u state opts [] st = Some (st, [])"
| "sync_all c host u state opts (n # ns) st =
     (case sync_one c host u state n (fst st) of None \<Rightarrow> None
      | Some (v, r) \<Rightarrow>
        (case (case r of Inr o1 \<Rightarrow> ((v, snd st), o1)
               | Inl e \<Rightarrow> if rc_mismatch c e then recoverOrphan c host u state opts n (v, snd st) else ((v, snd st), skippedOutcome n)) of
           (st1, o1) \<Rightarrow> (case sync_all c host u state opts ns st1 of None \<Rightarrow> None | Some (st2, outs) \<Rightarrow> Some (st2, o1 # outs))))"

definition selfLockResources :: "bytes list" where
  "selfLockResources = [''contacts'', ''groups'', ''settings'', ''notifications'']"

definition containsStr :: "bytes list \<Rightarrow> bytes \<Rightarrow> bool" where "containsStr s v = list_ex (\<lambda>x. x = v) s"

fun recover_unselected ::
    "'s RunClient \<Rightarrow> ('s, 'k) SyncHost \<Rightarrow> SelfCrypter \<Rightarrow> ServerSyncState \<Rightarrow> SyncOptions \<Rightarrow> bytes list \<Rightarrow> bytes list \<Rightarrow> ('s, 'k) run \<times> bytes list
     \<Rightarrow> (('s, 'k) run \<times> bytes list) \<times> SyncOutcome list" where
  "recover_unselected c host u state opts names [] st = (st, [])"
| "recover_unselected c host u state opts names (n # ns) st =
     (if so_Background opts then (st, [])
      else if containsStr names n \<or> n = ''notifications'' \<and> sh_NotificationStore host = None
      then recover_unselected c host u state opts names ns st
      else (case probeOrphan c u n state (rn_cloud (fst st)) of
              (s', False) \<Rightarrow> recover_unselected c host u state opts names ns ((fst st)\<lparr>rn_cloud := s'\<rparr>, snd st)
            | (s', True) \<Rightarrow>
              (case recoverOrphan c host u state opts n ((fst st)\<lparr>rn_cloud := s'\<rparr>, snd st) of
                 (st1, o1) \<Rightarrow> (case recover_unselected c host u state opts names ns st1 of (st2, outs) \<Rightarrow> (st2, o1 # outs)))))"

definition selected_names :: "ResourceSelection \<Rightarrow> bytes option \<Rightarrow> bytes list" where
  "selected_names sel notifStore =
     (if rs_Contacts sel then [''contacts''] else []) @ (if rs_Groups sel then [''groups''] else [])
     @ (if rs_Settings sel then [''settings''] else []) @ (if rs_Notifications sel \<and> notifStore \<noteq> None then [''notifications''] else [])"

definition runSelfLock ::
    "'s RunClient \<Rightarrow> ('s, 'k) SyncHost \<Rightarrow> ServerSyncState \<Rightarrow> ResourceSelection \<Rightarrow> SyncOptions \<Rightarrow> ('s, 'k) run
     \<Rightarrow> (('s, 'k) run \<times> SyncOutcome list \<times> sync_error option) option" where
  "runSelfLock c host state sel opts v =
     (let names = selected_names sel (sh_NotificationStore host) in
      case sh_OpenDefaultIdentity host v of
        (v1, Inl _) \<Rightarrow> Some (v1, map skippedOutcome names, None)
      | (v1, Inr u) \<Rightarrow>
        (case sync_all c host u state opts names (v1, []) of None \<Rightarrow> None
         | Some (st, outs) \<Rightarrow>
           (case recover_unselected c host u state opts names selfLockResources st of
              ((v2, need), outs2) \<Rightarrow> Some (v2, outs @ outs2, if length need > 0 then Some (ResealPending need) else None))))"

section \<open>The run\<close>

record SyncResult =
  sr_Outcomes :: "SyncOutcome list"
  sr_Pending :: DrainReport

definition save_positions :: "SessionStore \<Rightarrow> ('s, 'k) run \<Rightarrow> ('s, 'k) run \<times> unit result" where
  "save_positions ss v =
     (case ses_SavePositions ss (snd (rn_world v)) (rn_pos v) of (d, r) \<Rightarrow> (v\<lparr>rn_world := (fst (rn_world v), d)\<rparr>, r))"

definition drain :: "'s RunClient \<Rightarrow> ('s, 'k) SyncHost \<Rightarrow> ('s, 'k) run \<Rightarrow> ('s, 'k) run \<times> DrainReport" where
  "drain c host v =
     (case sh_ContactStore host of Inl _ \<Rightarrow> (v, zero_DrainReport)
      | Inr path \<Rightarrow>
        (case DrainPending (rc_inbox c) (rc_prims c) (rc_ulow c) path (sh_OpenByFingerprint host) (rc_clock c) (rn_cloud v, snd (rn_world v)) of
           ((s, d), rep, r) \<Rightarrow> (v\<lparr>rn_cloud := s, rn_world := (fst (rn_world v), d)\<rparr>, case r of Inr _ \<Rightarrow> rep | Inl _ \<Rightarrow> zero_DrainReport)))"

text \<open>After the identities: the other resources, the inbox, the positions.\<close>

definition run_rest ::
    "'s RunClient \<Rightarrow> SessionStore \<Rightarrow> ('s, 'k) SyncHost \<Rightarrow> ServerSyncState \<Rightarrow> SyncOptions \<Rightarrow> SyncOutcome list \<Rightarrow> ('s, 'k) run
     \<Rightarrow> (('s, 'k) run \<times> SyncResult \<times> sync_error option) option" where
  "run_rest c ss host state opts outs v =
     (let sel = sh_Resources host in
      case (if rs_Contacts sel \<or> rs_Settings sel then runSelfLock c host state sel opts v else Some (v, [], None)) of
        None \<Rightarrow> None
      | Some (v1, outs1, Some rp) \<Rightarrow> Some (fst (save_positions ss v1), \<lparr>sr_Outcomes = outs @ outs1, sr_Pending = zero_DrainReport\<rparr>, Some rp)
      | Some (v1, outs1, None) \<Rightarrow>
        (case drain c host v1 of (v2, rep) \<Rightarrow>
         (case save_positions ss v2 of (v3, r) \<Rightarrow>
            Some (v3, \<lparr>sr_Outcomes = outs @ outs1, sr_Pending = rep\<rparr>,
              case r of Inl e \<Rightarrow> Some (SyncFailed (Wrap ''persist sync positions: %w'' e)) | Inr _ \<Rightarrow> None))))"

definition no_result :: SyncResult where "no_result = \<lparr>sr_Outcomes = [], sr_Pending = zero_DrainReport\<rparr>"

definition RunSync ::
    "'s RunClient \<Rightarrow> SessionStore option \<Rightarrow> bytes \<Rightarrow> bool \<Rightarrow> (('s, 'k) run \<Rightarrow> ('s, 'k) run \<times> unit result) \<Rightarrow> ('s, 'k) SyncHost \<Rightarrow> SyncOptions
     \<Rightarrow> ('s, 'k) run \<Rightarrow> (('s, 'k) run \<times> SyncResult \<times> sync_error option) option" where
  "RunSync c store email tokenValid refresh host opts v =
     (case store of None \<Rightarrow> Some (v, no_result, Some (SyncFailed (Errorf ''cloud: RunSync needs a SessionStore'')))
      | Some ss \<Rightarrow>
      if email = [] then Some (v, no_result, Some (SyncFailed (Errorf ''cloud: RunSync needs an account'')))
      else
      (case (if tokenValid then (v, Inr ()) else refresh v) of
         (v0, Inl e) \<Rightarrow> Some (v0, no_result, Some (SyncFailed e))
       | (v0, Inr _) \<Rightarrow>
      (case ses_LoadPositions ss (snd (rn_world v0)) of
         Inl e \<Rightarrow> Some (v0, no_result, Some (SyncFailed (Wrap ''load sync positions: %w'' e)))
       | Inr pos \<Rightarrow>
      (case rc_fetch c (rn_cloud v0) of
         (s, Inl e) \<Rightarrow> Some (v0\<lparr>rn_cloud := s, rn_pos := pos\<rparr>, no_result, Some (SyncFailed (Wrap ''fetch sync state: %w'' e)))
       | (s, Inr state) \<Rightarrow>
         let v1 = v0\<lparr>rn_cloud := s, rn_pos := pos\<rparr> in
         if rs_Identities (sh_Resources host) then
           (case runIdentities c host state opts v1 of
              (v2, outs, None) \<Rightarrow> run_rest c ss host state opts outs v2
            | (v2, outs, Some (ChallengePending ch)) \<Rightarrow> Some (fst (save_positions ss v2), no_result, Some (ChallengePending ch))
            | (v2, outs, Some (DefaultChangePending k cur inc)) \<Rightarrow>
                Some (fst (save_positions ss v2), no_result\<lparr>sr_Outcomes := outs\<rparr>, Some (DefaultChangePending k cur inc))
            | (v2, outs, Some _) \<Rightarrow> run_rest c ss host state opts [skippedOutcome ''identities''] v2)
         else run_rest c ss host state opts [] v1))))"

section \<open>A device at rest\<close>

text \<open>Exporting a key changes neither the key store nor the disk.\<close>

definition export_pure :: "'k IdentityExportFn \<Rightarrow> bool" where
  "export_pure exportFn \<longleftrightarrow> (\<forall>e w. fst (exportFn e w) = w)"

lemma sbind_fst: "fst m = w \<Longrightarrow> (\<And>a. fst (f a w) = w) \<Longrightarrow> fst (sbind m f) = w"
  by (cases m; cases "snd m") auto

lemma swrap_fst [simp]: "fst (swrap fmt m) = fst m" by (simp add: swrap_def)

lemma digest_entries_pure: "export_pure ex \<Longrightarrow> fst (digest_entries ex st es h w) = w"
proof (induction es arbitrary: h)
  case (Cons e es)
  then have p: "fst (swrap fmt (ex e w)) = w" for fmt unfolding export_pure_def swrap_fst by blast
  show ?case unfolding digest_entries.simps
    by (rule sbind_fst) (use p Cons in \<open>auto simp: Let_def split: sum.split\<close>)
qed simp

lemma RoamingDigest_pure: "export_pure ex \<Longrightarrow> fst (RoamingDigest P E ex w) = w"
  unfolding RoamingDigest_def by (intro sbind_fst) (simp_all add: digest_entries_pure)

lemma export_entries_pure: "export_pure ex \<Longrightarrow> fst (export_entries ex st es acc w) = w"
proof (induction es arbitrary: acc)
  case (Cons e es)
  then have p: "fst (swrap fmt (ex e w)) = w" for fmt unfolding export_pure_def swrap_fst by blast
  show ?case unfolding export_entries.simps
    by (rule sbind_fst) (use p Cons in \<open>auto simp: Let_def split: sum.split\<close>)
qed simp

lemma ExportIdentitiesToBytes_pure: "export_pure ex \<Longrightarrow> fst (ExportIdentitiesToBytes P A T E rnd now key ex w) = w"
  unfolding ExportIdentitiesToBytes_def Let_def by (auto intro!: sbind_fst simp: export_entries_pure)

lemma push_pure:
  assumes "export_pure ex" "pushIdentitiesVersioned c ex v = (v', r)"
  shows "\<exists>s. v' = v\<lparr>rn_cloud := s\<rparr>"
proof (cases "sessionOrStoredEncKey v")
  case (Inl e)
  then show ?thesis using assms(2) by (auto simp: pushIdentitiesVersioned_def intro: exI [of _ "rn_cloud v"])
next
  case (Inr kb)
  obtain k b where kb: "kb = (k, b)" by (cases kb)
  obtain w q where x: "ExportIdentitiesToBytes (rc_prims c) (rc_archive c) (rc_toml c) (rc_env c) (rc_rnd c ''identities'' 0) (rc_now c)
      (encKeyPassphrase k) ex (rn_world v) = (w, q)" by fastforce
  have w: "w = rn_world v" using ExportIdentitiesToBytes_pure [OF assms(1)] x by (metis fst_conv)
  have "pushIdentitiesWithKey c k ex v = (v', r)" using assms(2) Inr kb by (simp add: pushIdentitiesVersioned_def)
  then show ?thesis unfolding pushIdentitiesWithKey_def x w
    by (cases q) (auto split: prod.splits sum.splits if_splits intro: exI [of _ "rn_cloud v"])
qed

lemma run_digest_pure:
  assumes "export_pure ex"
  shows "\<exists>r. run_digest c ex v = (v, r) \<and> (\<forall>v'. rn_world v' = rn_world v \<longrightarrow> run_digest c ex v' = (v', r))"
proof -
  obtain w r where d: "RoamingDigest (rc_prims c) (rc_env c) ex (rn_world v) = (w, r)" by fastforce
  have "w = rn_world v" using RoamingDigest_pure [OF assms] d by (metis fst_conv)
  with d show ?thesis by (intro exI [of _ r]) (simp add: run_digest_def)
qed

definition settled :: "'s RunClient \<Rightarrow> 'k IdentityExportFn \<Rightarrow> ('s, 'k) run \<Rightarrow> bool" where
  "settled c ex v \<longleftrightarrow> run_digest c ex v = (v, Inr (is_Digest (sp_Identities (rn_pos v))))"

lemma settled_recorded:
  assumes "export_pure ex" "run_digest c ex v = (v1, Inr dg)" "rn_world v' = rn_world v1" "is_Digest (sp_Identities (rn_pos v')) = dg"
  shows "settled c ex v'"
proof -
  obtain r where r: "run_digest c ex v = (v, r)" "\<And>v'. rn_world v' = rn_world v \<Longrightarrow> run_digest c ex v' = (v', r)"
    using run_digest_pure [OF assms(1)] by blast
  with assms(2-4) show ?thesis by (simp add: settled_def)
qed

lemma SyncIdentities_settles:
  assumes pure: "export_pure ex" and run: "SyncIdentities c ex im remote v = (v', Inr a)"
  shows "settled c ex v'"
proof -
  obtain r where "run_digest c ex v = (v, r)" using run_digest_pure [OF pure] by blast
  with run obtain dg where dg: "run_digest c ex v = (v, Inr dg)" by (cases r) (simp_all add: SyncIdentities_def)
  let ?st = "sp_Identities (rn_pos v)"
  have pushed: "settled c ex (set_identities (\<lambda>_. \<lparr>is_Version = ver, is_Digest = d\<rparr>) v2)"
    if push: "pushIdentitiesVersioned c ex v1 = (v2, Inr ver)" and dig: "run_digest c ex v0 = (v1, Inr d)" for v0 v1 v2 ver d
  proof -
    obtain s where "v2 = v1\<lparr>rn_cloud := s\<rparr>" using push_pure [OF pure push] by blast
    then show ?thesis by (intro settled_recorded [OF pure dig]) (simp_all add: set_identities_def)
  qed
  show ?thesis
  proof (cases "bm_Version remote = is_Version ?st \<and> dg = is_Digest ?st")
    case True
    then show ?thesis using run dg by (auto simp: SyncIdentities_def Let_def settled_def)
  next
    case unsettled: False
    show ?thesis
    proof (cases "bm_Version remote = 0")
      case True
      with run dg unsettled show ?thesis using pushed [OF _ dg] by (auto simp: SyncIdentities_def Let_def sbind_Inr_iff split: if_splits)
    next
      case False
      let ?pull = "if bm_Version remote \<noteq> is_Version ?st then pull_pass c ex im dg (dg \<noteq> is_Digest ?st) v else (v, Inr (False, dg \<noteq> is_Digest ?st, dg))"
      obtain v1 pulled chg d where p: "?pull = (v1, Inr (pulled, chg, d))"
        and rest: "(if \<not> chg then (set_identities (is_Digest_update (\<lambda>_. d)) v1, Inr SyncPulled)
           else sbind (pushIdentitiesVersioned c ex v1) (\<lambda>ver v. (set_identities (\<lambda>_. \<lparr>is_Version = ver, is_Digest = d\<rparr>) v, Inr (if pulled then SyncSynced else SyncPushed))))
          = (v', Inr a)"
        using run dg unsettled False by (simp add: SyncIdentities_def Let_def) (auto simp: sbind_Inr_iff)
      have "\<exists>v0. run_digest c ex v0 = (v1, Inr d)"
        using p dg by (auto simp: pull_pass_def sbind_Inr_iff split: if_splits prod.splits sum.splits)
      then obtain v0 where v0: "run_digest c ex v0 = (v1, Inr d)" ..
      show ?thesis
      proof (cases chg)
        case True
        with rest pushed [OF _ v0] show ?thesis by (auto simp: sbind_Inr_iff)
      next
        case False
        with rest show ?thesis by (auto intro!: settled_recorded [OF pure v0] simp: set_identities_def)
      qed
    qed
  qed
qed

text \<open>
  Roaming comes to rest: after a pass over the identities that succeeded, whatever it did, the next pass does
  nothing, makes no request and leaves the state as it is, as long as the service reports the version this device
  recorded and the local identities stay the same. Two devices do not keep waking each other.
\<close>

theorem SyncIdentities_rests:
  assumes "export_pure ex" "SyncIdentities c ex im remote v = (v', Inr a)" "bm_Version remote' = is_Version (sp_Identities (rn_pos v'))"
  shows "SyncIdentities c ex im remote' v' = (v', Inr SyncUpToDate)"
  using SyncIdentities_settles [OF assms(1,2)] assms(3) by (simp add: SyncIdentities_def settled_def)

section \<open>What is confirmed first\<close>

lemma adopt_unapproved:
  assumes "\<And>n. so_ApproveDefaultChange opts \<noteq> Some (''pointer'', n)"
  shows "maybeAdoptDefault c (host\<lparr>sh_AdoptDefaultIdentity := f\<rparr>) opts = maybeAdoptDefault c host opts"
  unfolding maybeAdoptDefault_def fun_eq_iff using assms by (auto split: prod.split option.split sum.split)

lemma adopt_unused:
  "sh_Resources (host\<lparr>sh_AdoptDefaultIdentity := f\<rparr>) = sh_Resources host"
  "sh_RoamingExport (host\<lparr>sh_AdoptDefaultIdentity := f\<rparr>) = sh_RoamingExport host"
  "sh_RoamingImport (host\<lparr>sh_AdoptDefaultIdentity := f\<rparr>) = sh_RoamingImport host"
  "sh_EstablishEncKey (host\<lparr>sh_AdoptDefaultIdentity := f\<rparr>) = sh_EstablishEncKey host"
  "sh_OpenDefaultIdentity (host\<lparr>sh_AdoptDefaultIdentity := f\<rparr>) = sh_OpenDefaultIdentity host"
  "sh_ResourceIO (host\<lparr>sh_AdoptDefaultIdentity := f\<rparr>) = sh_ResourceIO host"
  "sh_NotificationStore (host\<lparr>sh_AdoptDefaultIdentity := f\<rparr>) = sh_NotificationStore host"
  "sh_GroupStore (host\<lparr>sh_AdoptDefaultIdentity := f\<rparr>) = sh_GroupStore host"
  "sh_ContactStore (host\<lparr>sh_AdoptDefaultIdentity := f\<rparr>) = sh_ContactStore host"
  "sh_OpenByFingerprint (host\<lparr>sh_AdoptDefaultIdentity := f\<rparr>) = sh_OpenByFingerprint host"
  by simp_all

lemma adopt_unused_orphan: "recoverOrphan c (host\<lparr>sh_AdoptDefaultIdentity := f\<rparr>) = recoverOrphan c host"
  unfolding recoverOrphan_def resealOne_def canRecoverLocally_def adopt_unused ..

lemma adopt_unused_one: "sync_one c (host\<lparr>sh_AdoptDefaultIdentity := f\<rparr>) = sync_one c host"
  unfolding sync_one_def adopt_unused ..

lemma adopt_unused_all: "sync_all c (host\<lparr>sh_AdoptDefaultIdentity := f\<rparr>) u state opts ns st = sync_all c host u state opts ns st"
proof (induction ns arbitrary: st)
  case (Cons n ns)
  then have eq: "sync_all c (host\<lparr>sh_AdoptDefaultIdentity := f\<rparr>) u state opts ns = sync_all c host u state opts ns" by (simp add: fun_eq_iff)
  show ?case unfolding sync_all.simps adopt_unused_orphan adopt_unused_one eq ..
qed simp

lemma adopt_unused_unselected:
  "recover_unselected c (host\<lparr>sh_AdoptDefaultIdentity := f\<rparr>) u state opts names ns st = recover_unselected c host u state opts names ns st"
proof (induction ns arbitrary: st)
  case (Cons n ns)
  then have eq: "recover_unselected c (host\<lparr>sh_AdoptDefaultIdentity := f\<rparr>) u state opts names ns = recover_unselected c host u state opts names ns" by (simp add: fun_eq_iff)
  show ?case unfolding recover_unselected.simps adopt_unused_orphan adopt_unused eq ..
qed simp

lemmas adopt_unused_rest = adopt_unused adopt_unused_all adopt_unused_unselected

lemma adopt_irrelevant:
  assumes "\<And>n. so_ApproveDefaultChange opts \<noteq> Some (''pointer'', n)"
  shows "runIdentities c (host\<lparr>sh_AdoptDefaultIdentity := f\<rparr>) state opts v = runIdentities c host state opts v"
  unfolding runIdentities_def identities_done_def adopt_unused adopt_unapproved [OF assms] ..

text \<open>
  A run never changes the default identity on its own: unless the options approve a change of the default
  pointer, the whole run is the same whatever the adoption callback would do, so it is not called.
\<close>

theorem RunSync_never_adopts:
  assumes "\<And>n. so_ApproveDefaultChange opts \<noteq> Some (''pointer'', n)"
  shows "RunSync c store email tokenValid refresh (host\<lparr>sh_AdoptDefaultIdentity := f\<rparr>) opts v = RunSync c store email tokenValid refresh host opts v"
  unfolding RunSync_def run_rest_def runSelfLock_def drain_def adopt_irrelevant [OF assms] adopt_unused_rest ..

text \<open>
  A run does not let the cloud replace the keys of the default identity silently: when the account key is at
  hand and the roaming manifest names another fingerprint for the default than the local index, and this change
  is not approved, the run stops before anything roams. It reports the change, and key store, disk and
  configuration are what they were, but for the file of the positions.
\<close>

theorem RunSync_key_swap_blocked:
  assumes start: "email \<noteq> []" "ses_LoadPositions ss (snd (rn_world v)) = Inr pos" "rc_fetch c (rn_cloud v) = (s, Inr state)"
      "rs_Identities (sh_Resources host)" "bm_Version (ServerSyncState_Blob state ''identities'') \<noteq> 0"
    and cfg: "Config_Load (rc_toml c) (rc_env c) (snd (rn_world v)) = Inr cfg" "DefaultIdentity cfg \<noteq> []"
    and fp: "localIndexFingerprint (rc_env c) (snd (rn_world v)) (DefaultIdentity cfg) \<noteq> []"
    and peek: "sessionOrStoredEncKey v = Inr (key, b)" "GetBlob (rc_service c) ''identities'' s = (s', Inr blob)"
      "PeekRoamingManifest (rc_prims c) (rc_archive c) (bl_Ciphertext blob) (encKeyPassphrase key) = Inr m"
    and swap: "manifestFingerprint m (DefaultIdentity cfg) \<notin> {[], localIndexFingerprint (rc_env c) (snd (rn_world v)) (DefaultIdentity cfg)}"
    and opts: "so_ApproveDefaultChange opts \<noteq> Some (''key'', DefaultIdentity cfg)"
  shows "RunSync c (Some ss) email True refresh host opts v
    = Some (fst (save_positions ss (v\<lparr>rn_cloud := s', rn_pos := pos\<rparr>)), no_result,
        Some (DefaultChangePending ''key'' (DefaultIdentity cfg) (DefaultIdentity cfg)))"
proof -
  let ?v = "v\<lparr>rn_cloud := s, rn_pos := pos\<rparr>"
  have "sessionOrStoredEncKey ?v = sessionOrStoredEncKey v" by (simp add: sessionOrStoredEncKey_def)
  with peek(1) have "sessionOrStoredEncKey ?v = Inr (key, b)" by simp
  then have "peekRoamingManifest c ?v = (v\<lparr>rn_cloud := s', rn_pos := pos\<rparr>, Some m)" using peek(2,3) by (simp add: peekRoamingManifest_def)
  then have "runIdentities c host state opts ?v
      = (v\<lparr>rn_cloud := s', rn_pos := pos\<rparr>, [], Some (DefaultChangePending ''key'' (DefaultIdentity cfg) (DefaultIdentity cfg)))"
    using start(5) cfg fp swap opts by (simp add: runIdentities_def defaultKeySwapGate_def Let_def)
  then show ?thesis using start by (simp add: RunSync_def Let_def no_result_def)
qed

text \<open>
  The gate is not passed again when the account key had to be established first: the second pass merges the cloud
  keys although the gate, asked now, would report the change of the default.
\<close>

theorem runIdentities_retry_ungated:
  assumes "sessionOrStoredEncKey v = Inl e0"
    and "SyncIdentities c (sh_RoamingExport host) (sh_RoamingImport host) (ServerSyncState_Blob state ''identities'') v = (v2, Inl e)" "errors_is e ErrEncKeyMissing"
    and "sh_EstablishEncKey host v2 = (v3, Inr ())" "defaultKeySwapGate c (ServerSyncState_Blob state ''identities'') opts v3 = (v3', Some pending)"
    and "SyncIdentities c (sh_RoamingExport host) (sh_RoamingImport host) (ServerSyncState_Blob state ''identities'') v3 = (v4, Inr action)"
  shows "runIdentities c host state opts v = identities_done c host opts action v4"
proof -
  have "peekRoamingManifest c v = (v, None)" using assms(1) by (simp add: peekRoamingManifest_def)
  then have "defaultKeySwapGate c (ServerSyncState_Blob state ''identities'') opts v = (v, None)"
    by (simp add: defaultKeySwapGate_def Let_def split: sum.split)
  then show ?thesis using assms(2-4,6) by (simp add: runIdentities_def Let_def)
qed

text \<open>An orphaned resource is only overwritten when this was approved and there is local data to recover it from.\<close>

theorem recoverOrphan_confirmed:
  "recoverOrphan c host u state opts n (v, need) = ((v', need'), oc) \<Longrightarrow> v' \<noteq> v \<Longrightarrow> so_ApproveReseal opts n \<and> canRecoverLocally host n v"
  by (auto simp: recoverOrphan_def split: if_splits)

end
