(* ===== verification/Spec2Isabelle.thy ===== *)
theory Spec2Isabelle
  imports Icfx_Format Icfx_Armor Icfx_Crypto Icfx_Lock Icfx_Frames Icfx_Validate Icfx_Files Icfx_Contacts
    Icfx_Keystore Icfx_Identity Icfx_Encrypt Icfx_Decrypt Icfx_Groups Icfx_Bundle Icfx_Recipient Icfx_Cloud Icfx_ContactSync
    Icfx_Typing Icfx_Discovery Icfx_Notifications
    Icfx_Sharing Icfx_Config Icfx_Keychain Icfx_Roaming Icfx_Profile Icfx_Rekey Icfx_Handoff Icfx_RunSync
begin

text \<open>
  A verification of icfx, the Go library behind InstaCrypt: file encryption with signed containers,
  locks (public key bundles) exchanged between people, identities and their key stores, contacts and
  groups. The theories follow the packages under src/.

  \<^bold>\<open>The program.\<close> A person has identities (package identity): a hybrid post-quantum age key and an
  ML-DSA-65 signing key, kept in a key store (package keystore) and opened into a handle whose keys
  live in enclaves. The public half is a lock (package qr), signed by its own key, which others store
  as a contact (package contacts). To encrypt, package encrypt writes a container (package format):
  a header, the age ciphertext of the sealed metadata and the file, and a signature over profile,
  plaintext digest and ciphertext digest. Package decrypt reads it back and resolves the signer among
  the contacts. Locks travel as text armor, JSON or animated QR codes; key rotations and revocations
  (package bundle) are signed by the key they retire. Groups of contacts (package groups) are merged
  between the devices of a person.

  \<^bold>\<open>Theories, in the order of import.\<close>
  \<^item> \<open>Icfx_Prelude\<close>, \<open>Icfx_Text\<close>, \<open>Icfx_Base64\<close>, \<open>Icfx_Time\<close>, \<open>Icfx_Json\<close>: what the code uses of Go and
    its library: errors as values, big-endian integers, readers and writers, UTF-8 and strings,
    base64 and hex, RFC 3339 times, encoding/json. The reader of JSON runs with fuel that is shown to
    be enough (\<open>p_fuel\<close>). A nil and an empty slice are one list, written as an
    empty array where Go writes null for nil; both are read back as the same value.
  \<^item> \<open>Icfx_Format\<close> (src/format/icfx.go): profiles, metadata, buffered and streaming headers, each with
    the exact set of inputs the reader accepts.
  \<^item> \<open>Icfx_Armor\<close> (src/format/armor.go, detect.go): armor with headers, label checks, detection.
  \<^item> \<open>Icfx_Crypto\<close> (src/crypto): all operations over the primitives of age, ML-DSA, SHA-2, HKDF and
    memguard. The primitives are the record \<open>prims\<close>; what the code relies on are the named laws
    \<open>age_correct\<close>, \<open>scrypt_correct\<close>, \<open>mldsa_correct\<close>, \<open>hash_lengths\<close>, \<open>age_framed\<close>, \<open>enclave_correct\<close>,
    which \<open>toy_prims\<close> satisfies. They say that decryption inverts encryption and that honest
    signatures verify; nothing is assumed about what an attacker cannot do.
  \<^item> \<open>Icfx_Lock\<close> (src/qr/qr.go, authlock.go): lock bundles, canonical bytes, sealing, verification.
  \<^item> \<open>Icfx_Frames\<close> (src/qr/frames.go, gifdecode.go): the animated QR transfer, a collector that
    accepts frames in any order.
  \<^item> \<open>Icfx_Validate\<close> (src/validate): the validators of names, aliases, keys, locks, containers.
  \<^item> \<open>Icfx_Files\<close> (src/config/atomicwrite.go): the disk with faults at any system call, paths, and
    the atomic write as its system calls on a volume whose data may not have reached the disk, with what
    a crash after any of them can leave; locale \<open>file_store\<close>: the contract of a file
    that is loaded, changed and saved, interpreted on contacts, identity index and groups.
  \<^item> \<open>Icfx_Contacts\<close> (src/contacts): contacts, their store, and saving from a lock.
  \<^item> \<open>Icfx_Keystore\<close> (src/keystore/keystore.go, file.go, hardware.go): the interface as a record of
    methods, the file backend and the hardware-key decorator; locale \<open>keystore\<close>: stored keys are
    loaded again, interpreted on the file backend, and \<open>hw_keystore\<close>, a sublocale of it for a decorator
    around any key store that keeps the contract.
  \<^item> \<open>Icfx_Identity\<close> (src/identity): identities, index and meta files, unlocked handles, portable
    bundles, persistence of an import, the lock of an identity, backup file names.
  \<^item> \<open>Icfx_Encrypt\<close> (src/encrypt/stream.go), \<open>Icfx_Decrypt\<close> (src/decrypt): the two pipelines, with
    failing sources and destinations, and the verdict on the signature.
  \<^item> \<open>Icfx_Groups\<close> (src/groups): groups, their store, and the merge; locale \<open>replicated\<close>: a merge that is
    a maximum of views, which makes replicas converge, interpreted on the merge of groups.
  \<^item> \<open>Icfx_Bundle\<close> (src/bundle): revocations and rotations, parsing, verification, import.
  \<^item> \<open>Icfx_Recipient\<close> (src/recipient): references to people and groups resolved to encryption locks and
    share targets, with what is skipped and warned about.
  \<^item> \<open>Icfx_Cloud\<close> (src/cloud/errors.go, blob.go, envelope.go, part of sync.go): blobs sealed to the own
    lock, convergence by merge and by last writer; locale \<open>blob_merge\<close>: what a merge promises so that
    read, merge and write under optimistic concurrency loses nothing, interpreted on the merge of groups.
    The remote service is the parameter \<open>Service\<close>, with the named laws \<open>blob_service\<close> and \<open>others_keep\<close>.
  \<^item> \<open>Icfx_ContactSync\<close> (src/cloud/sync_contacts.go, ops.go): the op log of contacts with shadow, snapshot
    and races; the law of the service is \<open>op_log_service\<close>. Paging may not end (\<open>partial_function\<close>).
  \<^item> \<open>Icfx_Typing\<close>: the decoders keep well-formedness, so what any of the readers above accepts can be
    written and read again.
  \<^item> \<open>Icfx_Discovery\<close> (src/cloud/directory.go, pending.go, pending_apply.go, discovery.go, broadcast.go):
    publication and lookup of locks, contact requests, the drain of pending updates into the contact
    store, the broadcast of rotations. The service is the parameter \<open>Inbox\<close>, of which no law is assumed.
  \<^item> \<open>Icfx_Notifications\<close> (src/cloud/notifications.go): the notification store and its synchronisation, an
    inductive set of reachable states, and a second interpretation of locale \<open>replicated\<close>. The inboxes of
    the server are arbitrary; what needs them to be without repetition says so.
  \<^item> \<open>Icfx_Sharing\<close> (src/sharing/sharing.go, the transfers of src/cloud/share.go): containers sent without
    their header and received. The service is the parameter \<open>ShareService\<close> with the law \<open>share_service\<close>.
  \<^item> \<open>Icfx_Config\<close> (src/config/config.go, paths.go): directories, configuration file, settings; another
    interpretation of locale \<open>file_store\<close>. The TOML library is a parameter with the law \<open>toml_correct\<close>.
  \<^item> \<open>Icfx_Keychain\<close> (src/keystore/keychain_keyring.go, keychain_darwin.go): the backends of the OS keychain,
    over a keychain that is a parameter with the laws \<open>keyring_correct\<close> and \<open>keychain_correct\<close>; two more
    interpretations of locale \<open>keystore\<close>.
  \<^item> \<open>Icfx_Roaming\<close> (src/profile/identities.go, roaming_fns.go): bundles of identities that roam between the devices of
    an account. Tar and gzip are the parameter \<open>Archive\<close> with the law \<open>archive_correct\<close>.
  \<^item> \<open>Icfx_Profile\<close> (src/profile/export.go, import.go): export and import of a whole profile, with snapshot and rollback.
    Operations on directory trees get the list of paths in play.
  \<^item> \<open>Icfx_Rekey\<close> (src/cloud/rekey.go, the rest of sync.go): settings that roam, and the re-sealing of the cloud
    resources when the keys of the default identity change.
  \<^item> \<open>Icfx_Handoff\<close> (src/identity/handoff/handoff.go): deletion of an identity with hand-off to a successor. Unlocking
    and clearing of keys are callbacks of the host.
  \<^item> \<open>Icfx_RunSync\<close> (src/cloud/runsync.go, identities.go): the roaming of identities and the whole run of a sync over
    all resources, with what needs an approval first.
  \<^item> this theory: what spans the components (the signed messages never collide; a rotation keeps old
    signatures verifiable).

  \<^bold>\<open>Model and code.\<close> A struct is a record, a Go string or byte slice is a list of bytes, an error is
  a value (its formatted arguments are not kept), a stateful operation maps a state to a state and a
  result. Pointers into a list are indices. The disk is a map from paths to contents with a table of
  faults, a fault for each pair of system call and path. Sorting is stable where the code uses sort.Slice, which differs only for equal
  keys. Randomness and the current time are arguments. Unicode case mapping beyond ASCII is a
  parameter (\<open>ulow\<close>, \<open>ufold\<close>). Mutexes are left out: every operation holds its lock for its whole
  duration, so operations are the steps. Wiping of buffers has no observable effect and is left out.

  \<^bold>\<open>What is shown.\<close> For each reader, the exact inputs it accepts or a round trip with its writer; for
  each store, that load after save gives what was saved and that a failed save changes nothing; for
  signatures, that the signed bytes determine what they are about, that honest ones verify, and what
  a positive verdict implies; for imports, that public data is bound to private keys and that nothing
  existing is replaced; for the merge, convergence. Where the code does not do what its comments say
  (\<open>SaveFromLock_alias_clash\<close>, \<open>MergeGroups_tie\<close>, \<open>rotation_labels_unsigned\<close>,
  \<open>SyncContactsOps_loses_ops\<close>, \<open>Notif_Sync_overwrites_edits\<close>, \<open>ReconcileShares_repeats\<close>, \<open>contact_accept_unsolicited\<close>,
  \<open>Config_Save_self_redirect\<close>, \<open>ReceiveName_id_unchecked\<close>, \<open>roamed_raw_key_unusable\<close>, \<open>roaming_import_drops_alias\<close>,
  \<open>roaming_name_escapes\<close>, \<open>wipe_clears_keychain\<close> with \<open>rollback_forgets_keychain\<close>, \<open>synced_settings_unrestricted\<close>,
  \<open>resealContacts_drops_concurrent_op\<close>, \<open>refused_deletion_changes_default\<close>, \<open>runIdentities_retry_ungated\<close>), a theorem says what it does.

  \<^bold>\<open>Not modelled.\<close> Drawing of QR codes and GIFs; hardware tokens (USB, PC/SC, FIDO2), the HTTP transport and the
  OS keychain itself, which are input and output; and of package cloud the requests for sign-in, registration, devices and
  billing and the stores of sessions and account keys, which are parameters where the modelled code calls them.
\<close>

section \<open>Signed messages\<close>

lemma framings_agree: "writeStr = writeField" "bundle_writeStr = writeField"
  by (simp_all add: fun_eq_iff writeStr_def qr_writeField_def bundle_writeStr_def bundle_writeField_def writeField_def)

lemma signature_tags:
  "\<exists>x. SignedMessage p a b = writeField containerCanonicalTag @ x" "\<exists>x. CanonicalLockBytes lb = writeField lockCanonicalTag @ x"
  "\<exists>x. CanonicalRevocationBytes rv = writeField revokeCanonicalTag @ x"
  "\<exists>x. CanonicalRotationBytes rot = writeField rotateCanonicalTag @ x"
  by (simp_all add: SignedMessage_def CanonicalLockBytes_def CanonicalRevocationBytes_def CanonicalRotationBytes_def framings_agree)

text \<open>
  C35. Domain separation: an identity signs containers, its lock, revocations and rotations with one
  key, and no message of one kind is a message of another, whatever the contents. A signature given
  for one purpose can therefore not be presented as one for another.
\<close>

theorem signed_messages_distinct:
  "SignedMessage p a b \<noteq> CanonicalLockBytes lb \<and> SignedMessage p a b \<noteq> CanonicalRevocationBytes rv
   \<and> SignedMessage p a b \<noteq> CanonicalRotationBytes rot \<and> CanonicalLockBytes lb \<noteq> CanonicalRevocationBytes rv
   \<and> CanonicalLockBytes lb \<noteq> CanonicalRotationBytes rot \<and> CanonicalRevocationBytes rv \<noteq> CanonicalRotationBytes rot"
proof -
  have tags: "distinct [containerCanonicalTag, lockCanonicalTag, revokeCanonicalTag, rotateCanonicalTag]"
    "fits_field containerCanonicalTag" "fits_field lockCanonicalTag" "fits_field revokeCanonicalTag" "fits_field rotateCanonicalTag"
    by (simp_all add: containerCanonicalTag_def lockCanonicalTag_def revokeCanonicalTag_def rotateCanonicalTag_def fits_field_def)
  obtain x1 x2 x3 x4 where "SignedMessage p a b = writeField containerCanonicalTag @ x1" "CanonicalLockBytes lb = writeField lockCanonicalTag @ x2"
      "CanonicalRevocationBytes rv = writeField revokeCanonicalTag @ x3" "CanonicalRotationBytes rot = writeField rotateCanonicalTag @ x4"
    using signature_tags by metis
  with tags container_fields.tag_separates show ?thesis by simp
qed

section \<open>Key rotation and old signatures\<close>

text \<open>
  C38. After a contact rotated its keys, what it signed before still verifies: the old key moved to
  the history of the contact, so a signature under the old fingerprint is found valid, and it is
  flagged as made with a revoked key unless some current key carries that fingerprint too.
\<close>

theorem rotated_key_verifies:
  assumes P: "mldsa_correct P" and key: "mldsa_PrivUnmarshal P priv = Inr k" "ct_SignPubKey c = b64_encode (mldsa_Public P k)"
    and sig: "Sign P m priv = Inr sig" and fp: "ct_Fingerprint c \<noteq> []" and "mem": "ApplyUpdate now c lock \<in> set cs"
  shows "vr_Status (verifySignature P ufold m sig (ct_Fingerprint c) u cs) = VerifyOK
     \<and> ((\<forall>c'\<in>set cs. \<not> EqualFold ufold (ct_Fingerprint c') (ct_Fingerprint c)) \<and> \<not> EqualFold ufold (id_Fingerprint (u_info u)) (ct_Fingerprint c)
         \<longrightarrow> vr_UsedRevokedKey (verifySignature P ufold m sig (ct_Fingerprint c) u cs))"
proof -
  let ?fp = "ct_Fingerprint c"
  let ?ks = "signer_keys ?fp u cs"
  let ?prev = "\<lparr>pk_EncPubKey = ct_EncPubKey c, pk_SignPubKey = ct_SignPubKey c, pk_Fingerprint = ?fp, pk_RevokedAt = now\<rparr>"
  have "?prev \<in> set (ct_PreviousKeys (ApplyUpdate now c lock))" by (simp add: ApplyUpdate_def retire_keys_def Let_def)
  then obtain r where r: "(?fp, ct_SignPubKey c, r) \<in> set ?ks"
    using "mem" by (force simp: signer_keys_def previous_keys_def)
  have "Verify P m sig (mldsa_Public P k) = Inr True" using Sign_Verify [OF P sig key(1)] .
  then have "good_key P ufold m sig ?fp (?fp, ct_SignPubKey c, r)" by (simp add: good_key_def key_verifies_def key(2) b64_decode_encode)
  with r have "list_ex (good_key P ufold m sig ?fp) ?ks" by (auto simp: list_ex_iff)
  with verifySignature_cases [OF fp, of P ufold m sig u cs] obtain q where
      q: "q \<in> set ?ks" "good_key P ufold m sig ?fp q" "verifySignature P ufold m sig ?fp u cs = snd (snd q)" by auto
  then have "vr_Status (snd (snd q)) = VerifyOK" using signer_keys_ok by blast
  moreover have "vr_UsedRevokedKey (snd (snd q))"
    if "\<forall>c'\<in>set cs. \<not> EqualFold ufold (ct_Fingerprint c') ?fp" "\<not> EqualFold ufold (id_Fingerprint (u_info u)) ?fp"
    using q(1,2) that by (auto simp: signer_keys_def current_keys_def previous_keys_def own_key_def good_key_def)
  ultimately show ?thesis using q(3) by simp
qed

theorem rotated_key_verifies_witness:
  "\<exists>sig. Sign toy_prims ''msg'' ''old'' = Inr sig
     \<and> vr_Status (verifySignature toy_prims (\<lambda>_ _. False) ''msg'' sig ''fp'' sample_reader
          [ApplyUpdate zero_time rotating_contact sealed_lock]) = VerifyOK"
proof -
  obtain sig where s: "Sign toy_prims ''msg'' ''old'' = Inr sig" by (simp add: Sign_def toy_prims_def)
  have f: "ct_Fingerprint rotating_contact = ''fp''" by (simp add: rotating_contact_def)
  with rotated_key_verifies [OF toy_laws(3) sample_rotation_ok(1,2) s, of zero_time sealed_lock "[ApplyUpdate zero_time rotating_contact sealed_lock]"
      "\<lambda>_ _. False" sample_reader] s show ?thesis by auto
qed

end
